(* ===== verification/OS_Prelude.thy ===== *)
theory OS_Prelude imports Main "HOL-Library.Monad_Syntax" "HOL-Library.Word" begin

text \<open>
  Shared vocabulary of the development.  The kernel code signals a broken precondition
  with \<open>ASSERT\<close> or \<open>PANIC\<close>, both of which stop the machine; every operation that can
  do so returns an option, and \<open>None\<close> is the stopped (or, for the loops written with
  \<open>partial_function\<close>, the never returning) kernel.  The option monad's
  \<open>do\<close> notation then reads like the C statements, in their order.

  The theory also fixes the machine types of the target (32-bit x86: \<open>size_t\<close>,
  \<open>unsigned\<close>, \<open>uint32_t\<close> and pointers are 32 bits wide, bytes are 8 bits wide) and
  holds the lemmas on options, lists and byte ranges that the components share.
\<close>

type_synonym u8 = "8 word"
type_synonym u32 = "32 word"
type_synonym u64 = "64 word"
type_synonym addr = nat

named_theorems kernel_simps "unfolding rules of straight-line kernel operations"

section \<open>Assertions\<close>

definition ASSERT :: "bool \<Rightarrow> unit option" where
  "ASSERT b = (if b then Some () else None)"

lemma ASSERT_bind [simp]: "(ASSERT b \<bind> f) = (if b then f () else None)"
  by (simp add: ASSERT_def)

lemma ASSERT_eq_Some [simp]: "(ASSERT b = Some u) = b"
  by (simp add: ASSERT_def)

lemma bind_SomeE:
  assumes "(m \<bind> f) = Some y"
  obtains x where "m = Some x" "f x = Some y"
  using assms by (cases m) auto

section \<open>Lists\<close>

lemma sorted_wrt_adjacent:
  assumes "transp r"
  shows "sorted_wrt r (x # xs) \<longleftrightarrow> (xs = [] \<or> r x (hd xs)) \<and> sorted_wrt r xs"
  using assms by (cases xs) (auto dest: transpD)

lemma nth_append_len [simp]: "(xs @ y # ys) ! length xs = y"
  by simp

lemma list_update_append_len [simp]: "(xs @ y # ys)[length xs := z] = xs @ z # ys"
  by simp

lemma take_Suc_nth: "i < length xs \<Longrightarrow> take (Suc i) xs = take i xs @ [xs ! i]"
  by (simp add: take_Suc_conv_app_nth)

lemma in_set_ConsE:
  assumes "x \<in> set xs"
  obtains y ys where "xs = y # ys"
  using assms by (cases xs) auto

lemma sorted_wrt_insert_mid:
  "sorted_wrt r as \<Longrightarrow> sorted_wrt r bs \<Longrightarrow> \<forall>x \<in> set as. \<forall>y \<in> set bs. r x y \<Longrightarrow>
   \<forall>x \<in> set as. r x e \<Longrightarrow> \<forall>x \<in> set bs. r e x \<Longrightarrow> sorted_wrt r (as @ e # bs)"
  by (auto simp: sorted_wrt_append)

lemma distinct_app_disjoint: "distinct (xs @ ys) \<Longrightarrow> x \<in> set xs \<Longrightarrow> x \<notin> set ys"
  by auto

lemma distinct_map_neq:
  assumes "distinct (map f (x # xs))" "y \<in> set xs"
  shows "f y \<noteq> f x"
proof
  assume "f y = f x"
  then have "f x \<in> f ` set xs" using assms(2) by (metis imageI)
  then show False using assms(1) by simp
qed

section \<open>Byte ranges\<close>

text \<open>
  \<open>put_bytes ofs src dst\<close> is the effect of \<open>memcpy (dst + ofs, src, length src)\<close> on a
  buffer, \<open>get_bytes ofs n src\<close> the range it reads.
\<close>

definition put_bytes :: "nat \<Rightarrow> 'a list \<Rightarrow> 'a list \<Rightarrow> 'a list" where
  "put_bytes ofs src dst = take ofs dst @ src @ drop (ofs + length src) dst"

definition get_bytes :: "nat \<Rightarrow> nat \<Rightarrow> 'a list \<Rightarrow> 'a list" where
  "get_bytes ofs n src = take n (drop ofs src)"

lemma length_put_bytes [simp]:
  "ofs + length src \<le> length dst \<Longrightarrow> length (put_bytes ofs src dst) = length dst"
  by (simp add: put_bytes_def)

lemma length_get_bytes [simp]: "length (get_bytes ofs n src) = min n (length src - ofs)"
  by (simp add: get_bytes_def)

lemma get_put_bytes_same [simp]:
  "ofs + length src \<le> length dst \<Longrightarrow> get_bytes ofs (length src) (put_bytes ofs src dst) = src"
  by (simp add: get_bytes_def put_bytes_def)

lemma nth_put_bytes:
  "ofs + length src \<le> length dst \<Longrightarrow> i < length dst \<Longrightarrow>
   put_bytes ofs src dst ! i = (if ofs \<le> i \<and> i < ofs + length src then src ! (i - ofs) else dst ! i)"
  by (auto simp: put_bytes_def nth_append)

lemma nth_put_take:
  assumes "ofs + m \<le> length dst" "m \<le> length src" "i < length dst"
  shows "put_bytes ofs (take m src) dst ! i =
    (if ofs \<le> i \<and> i < ofs + m then src ! (i - ofs) else dst ! i)"
proof -
  have l: "length (take m src) = m" using assms(2) by simp
  have "ofs \<le> i \<Longrightarrow> i < ofs + m \<Longrightarrow> take m src ! (i - ofs) = src ! (i - ofs)"
    by (rule nth_take) linarith
  then show ?thesis using nth_put_bytes[of ofs "take m src" dst i] assms(1,3) unfolding l by auto
qed

lemma nth_get_bytes:
  "i < n \<Longrightarrow> ofs + i < length src \<Longrightarrow> get_bytes ofs n src ! i = src ! (ofs + i)"
  by (simp add: get_bytes_def)

lemma put_bytes_Nil [simp]: "put_bytes ofs [] dst = dst"
  by (simp add: put_bytes_def)

section \<open>Rounding\<close>

text \<open>\<open>lib/round.h\<close>: \<open>DIV_ROUND_UP (x, y)\<close>, for operands where the sum does not wrap.\<close>

definition DIV_ROUND_UP :: "nat \<Rightarrow> nat \<Rightarrow> nat" where
  "DIV_ROUND_UP x step = (x + step - 1) div step"

lemma DIV_ROUND_UP_le_iff: "0 < step \<Longrightarrow> DIV_ROUND_UP x step \<le> n \<longleftrightarrow> x \<le> n * step"
proof -
  assume s: "0 < step"
  have "DIV_ROUND_UP x step \<le> n \<longleftrightarrow> (x + step - 1) div step < Suc n"
    by (simp add: DIV_ROUND_UP_def less_Suc_eq_le)
  also have "\<dots> \<longleftrightarrow> x + step - 1 < Suc n * step"
    using s by (simp add: div_less_iff_less_mult)
  also have "\<dots> \<longleftrightarrow> x \<le> n * step"
    using s by auto
  finally show ?thesis .
qed

lemma DIV_ROUND_UP_less_iff: "0 < step \<Longrightarrow> n < DIV_ROUND_UP x step \<longleftrightarrow> n * step < x"
  by (meson DIV_ROUND_UP_le_iff not_le)

lemma DIV_ROUND_UP_0 [simp]: "0 < step \<Longrightarrow> DIV_ROUND_UP 0 step = 0"
  by (simp add: DIV_ROUND_UP_def)

end
