(* ===== verification/KBlock.thy ===== *)
theory KBlock imports OS_Prelude begin

unbundle bit_operations_syntax

text \<open>
  Block devices, \<open>devices/block.c\<close>, and the representation of 32-bit words in the 512
  bytes of a sector.  A registered device is a record; its driver, reached through the
  function pointers \<open>ops->read\<close> and \<open>ops->write\<close>, is represented by the storage the
  \<open>block_operations\<close> contract promises: a read of a sector delivers the bytes last written
  to it.  \<open>block_read\<close> and \<open>block_write\<close> panic (\<open>None\<close>) past the end of the device, and
  \<open>block_write\<close> on a foreign device.
\<close>

definition BLOCK_SECTOR_SIZE :: nat where
  "BLOCK_SECTOR_SIZE = 512"

datatype block_type =
  BLOCK_KERNEL | BLOCK_FILESYS | BLOCK_SCRATCH | BLOCK_SWAP | BLOCK_RAW | BLOCK_FOREIGN

fun block_type_name :: "block_type \<Rightarrow> string" where
  "block_type_name BLOCK_KERNEL = ''kernel''"
| "block_type_name BLOCK_FILESYS = ''filesys''"
| "block_type_name BLOCK_SCRATCH = ''scratch''"
| "block_type_name BLOCK_SWAP = ''swap''"
| "block_type_name BLOCK_RAW = ''raw''"
| "block_type_name BLOCK_FOREIGN = ''foreign''"

record block_dev =
  bd_name :: string
  bd_type :: block_type
  bd_size :: u32
  bd_data :: "u32 \<Rightarrow> u8 list"
  bd_read_cnt :: u64
  bd_write_cnt :: u64

definition check_sector :: "block_dev \<Rightarrow> u32 \<Rightarrow> unit option" where
  "check_sector d sector = ASSERT (sector < bd_size d)"

definition block_read :: "u32 \<Rightarrow> block_dev \<Rightarrow> (u8 list \<times> block_dev) option" where
  "block_read sector d = do {
     check_sector d sector;
     let buffer = bd_data d sector;
     Some (buffer, d\<lparr>bd_read_cnt := bd_read_cnt d + 1\<rparr>)
   }"

definition block_write :: "u32 \<Rightarrow> u8 list \<Rightarrow> block_dev \<Rightarrow> block_dev option" where
  "block_write sector buffer d = do {
     check_sector d sector;
     ASSERT (bd_type d \<noteq> BLOCK_FOREIGN);
     let d = d\<lparr>bd_data := (bd_data d)(sector := buffer)\<rparr>;
     Some (d\<lparr>bd_write_cnt := bd_write_cnt d + 1\<rparr>)
   }"

section \<open>The registry\<close>

text \<open>
  \<open>all_blocks\<close> is the list of registered devices in probe order, \<open>block_by_role\<close> the role
  table.  A device is named by its position in the probe order.
\<close>

record registry =
  all_blocks :: "block_dev list"
  block_by_role :: "block_type \<Rightarrow> nat option"

definition is_role :: "block_type \<Rightarrow> bool" where
  "is_role t \<longleftrightarrow> t \<in> {BLOCK_KERNEL, BLOCK_FILESYS, BLOCK_SCRATCH, BLOCK_SWAP}"

definition block_get_role :: "block_type \<Rightarrow> registry \<Rightarrow> nat option option" where
  "block_get_role role r = do { ASSERT (is_role role); Some (block_by_role r role) }"

definition block_set_role :: "block_type \<Rightarrow> nat option \<Rightarrow> registry \<Rightarrow> registry option" where
  "block_set_role role b r = do {
     ASSERT (is_role role);
     Some (r\<lparr>block_by_role := (block_by_role r)(role := b)\<rparr>)
   }"

definition list_elem_to_block :: "nat \<Rightarrow> registry \<Rightarrow> nat option" where
  "list_elem_to_block e r = (if e \<noteq> length (all_blocks r) then Some e else None)"

definition block_first :: "registry \<Rightarrow> nat option" where
  "block_first r = list_elem_to_block 0 r"

definition block_next :: "nat \<Rightarrow> registry \<Rightarrow> nat option" where
  "block_next b r = list_elem_to_block (Suc b) r"

fun find_block :: "string \<Rightarrow> nat \<Rightarrow> block_dev list \<Rightarrow> nat option" where
  "find_block name i [] = None"
| "find_block name i (b # bs) = (if name = bd_name b then Some i else find_block name (Suc i) bs)"

definition block_get_by_name :: "string \<Rightarrow> registry \<Rightarrow> nat option" where
  "block_get_by_name name r = find_block name 0 (all_blocks r)"

text \<open>\<open>m\<close>: whether \<open>malloc\<close> succeeds.  \<open>strlcpy\<close> keeps 15 characters of the name.\<close>

definition block_register ::
  "bool \<Rightarrow> string \<Rightarrow> block_type \<Rightarrow> u32 \<Rightarrow> (u32 \<Rightarrow> u8 list) \<Rightarrow> registry \<Rightarrow> (nat \<times> registry) option" where
  "block_register m name type sz storage r = do {
     ASSERT m;
     let block = \<lparr>bd_name = take 15 name, bd_type = type, bd_size = sz, bd_data = storage,
                  bd_read_cnt = 0, bd_write_cnt = 0\<rparr>;
     Some (length (all_blocks r), r\<lparr>all_blocks := all_blocks r @ [block]\<rparr>)
   }"

lemma find_block_Some:
  "find_block name i bs = Some k \<Longrightarrow> i \<le> k \<and> k < i + length bs \<and> bd_name (bs ! (k - i)) = name"
  by (induction name i bs rule: find_block.induct) (force split: if_splits simp: nth_Cons')+

lemma find_block_append_new:
  "\<forall>b \<in> set bs. bd_name b \<noteq> name \<Longrightarrow> bd_name c = name \<Longrightarrow>
   find_block name i (bs @ [c]) = Some (i + length bs)"
  by (induction bs arbitrary: i) auto

section \<open>Words in a sector\<close>

text \<open>The target is little-endian: \<open>enc32\<close> is the four bytes of a word in memory order.\<close>

definition enc32 :: "u32 \<Rightarrow> u8 list" where
  "enc32 w = [ucast w, ucast (drop_bit 8 w), ucast (drop_bit 16 w), ucast (drop_bit 24 w)]"

definition dec32 :: "u8 list \<Rightarrow> u32" where
  "dec32 bs = ucast (bs ! 0) OR push_bit 8 (ucast (bs ! 1)) OR push_bit 16 (ucast (bs ! 2)) OR
     push_bit 24 (ucast (bs ! 3))"

definition words_bytes :: "u32 list \<Rightarrow> u8 list" where
  "words_bytes ws = concat (map enc32 ws)"

text \<open>\<open>word_at bs i\<close>: the \<open>i\<close>-th element of an array of words stored at \<open>bs\<close>.\<close>

definition word_at :: "u8 list \<Rightarrow> nat \<Rightarrow> u32" where
  "word_at bs i = dec32 (get_bytes (4 * i) 4 bs)"

definition set_word_at :: "nat \<Rightarrow> u32 \<Rightarrow> u8 list \<Rightarrow> u8 list" where
  "set_word_at i w bs = put_bytes (4 * i) (enc32 w) bs"

lemma length_enc32 [simp]: "length (enc32 w) = 4"
  by (simp add: enc32_def)

lemma dec_enc32 [simp]: "dec32 (enc32 w) = w"
proof (rule bit_word_eqI)
  fix n
  assume "n < LENGTH(32)"
  then consider "n < 8" | "8 \<le> n" "n < 16" | "16 \<le> n" "n < 24" | "24 \<le> n" "n < 32"
    by fastforce
  then show "bit (dec32 (enc32 w)) n = bit w n"
    by cases (simp_all add: dec32_def enc32_def bit_simps less_diff_conv2, linarith?)
qed

end
