(* ===== verification/KCache.thy ===== *)
theory KCache imports KBlock begin

text \<open>
  The buffer cache, \<open>filesys/cache.c\<close>.  The list of cache entries is a HOL list; the code
  appends to it and empties it but never reorders it, so a pointer to an entry is its
  position.  \<open>clock\<close> says whether \<open>filesys_cache_lock\<close> is held; \<open>mem\<close> is the sequence of
  outcomes of \<open>malloc\<close> (\<open>[]\<close>: every call succeeds).  The clock algorithm of
  \<open>filesys_cache_block_evict\<close> is one pass of its \<open>for\<close> loop inside a \<open>while\<close> loop that
  ends only when a pass has found a victim; the value \<open>None\<close> of \<open>evict_loop\<close> is the loop that
  spins forever (or the panic of a driver call).

  \<open>cview\<close> is what the cache promises its clients: the contents of a sector as a client
  sees it, in the cache if it is there and on the device otherwise.  The lemmas show that
  every operation keeps \<open>cache_ok\<close>, that looking up, loading, evicting and writing back
  leave \<open>cview\<close> as it is, and under which condition the clock algorithm ends.
\<close>

section \<open>State and operations\<close>

definition MAX_FILESYS_CACHE_SIZE :: nat where
  "MAX_FILESYS_CACHE_SIZE = 64"

record cache_entry =
  ce_block :: "u8 list"
  ce_sector :: u32
  ce_dirty :: bool
  ce_accessed :: bool
  ce_open_cnt :: int

record bcache =
  dev :: block_dev
  entries :: "cache_entry list"
  csize :: nat
  clock :: bool
  mem :: "bool list"

definition malloc_ok :: "bcache \<Rightarrow> bool \<times> bcache" where
  "malloc_ok bc = (case mem bc of [] \<Rightarrow> (True, bc) | m # ms \<Rightarrow> (m, bc\<lparr>mem := ms\<rparr>))"

definition cache_lock_acquire :: "bcache \<Rightarrow> bcache option" where
  "cache_lock_acquire bc = do { ASSERT (\<not> clock bc); Some (bc\<lparr>clock := True\<rparr>) }"

definition cache_lock_release :: "bcache \<Rightarrow> bcache option" where
  "cache_lock_release bc = do { ASSERT (clock bc); Some (bc\<lparr>clock := False\<rparr>) }"

definition filesys_cache_init :: "bcache \<Rightarrow> bcache" where
  "filesys_cache_init bc = bc\<lparr>entries := [], clock := False, csize := 0\<rparr>"

fun find_sector :: "u32 \<Rightarrow> nat \<Rightarrow> cache_entry list \<Rightarrow> nat option" where
  "find_sector sector i [] = None"
| "find_sector sector i (c # cs) =
     (if ce_sector c = sector then Some i else find_sector sector (Suc i) cs)"

definition block_in_cache :: "u32 \<Rightarrow> bcache \<Rightarrow> nat option" where
  "block_in_cache sector bc = find_sector sector 0 (entries bc)"

text \<open>One pass of the \<open>for\<close> loop from the entry at position \<open>i\<close>.\<close>

fun evict_pass ::
  "block_dev \<Rightarrow> nat \<Rightarrow> cache_entry list \<Rightarrow> (nat option \<times> cache_entry list \<times> block_dev) option" where
  "evict_pass d i [] = Some (None, [], d)"
| "evict_pass d i (c # cs) =
     (if ce_open_cnt c > 0
      then do { (v, cs', d') \<leftarrow> evict_pass d (Suc i) cs; Some (v, c # cs', d') }
      else if ce_accessed c
      then do {
        (v, cs', d') \<leftarrow> evict_pass d (Suc i) cs;
        Some (v, c\<lparr>ce_accessed := False\<rparr> # cs', d')
      }
      else if ce_dirty c
      then do { d' \<leftarrow> block_write (ce_sector c) (ce_block c) d; Some (Some i, c # cs, d') }
      else Some (Some i, c # cs, d))"

partial_function (option) evict_loop ::
  "cache_entry list \<Rightarrow> block_dev \<Rightarrow> (nat \<times> cache_entry list \<times> block_dev) option" where
  "evict_loop cs d = do {
     (v, cs', d') \<leftarrow> evict_pass d 0 cs;
     case v of Some k \<Rightarrow> Some (k, cs', d') | None \<Rightarrow> evict_loop cs' d'
   }"

definition fill_entry :: "nat \<Rightarrow> u32 \<Rightarrow> bool \<Rightarrow> bcache \<Rightarrow> bcache option" where
  "fill_entry k sector dirty bc = do {
     (data, d) \<leftarrow> block_read sector (dev bc);
     let c = entries bc ! k;
     let c = c\<lparr>ce_open_cnt := ce_open_cnt c + 1, ce_sector := sector, ce_block := data,
               ce_dirty := dirty, ce_accessed := True\<rparr>;
     Some (bc\<lparr>dev := d, entries := (entries bc)[k := c]\<rparr>)
   }"

text \<open>The inner result \<open>None\<close> is the null pointer returned when \<open>malloc\<close> fails.\<close>

definition filesys_cache_block_evict :: "u32 \<Rightarrow> bool \<Rightarrow> bcache \<Rightarrow> (nat option \<times> bcache) option" where
  "filesys_cache_block_evict sector dirty bc =
     (if csize bc < MAX_FILESYS_CACHE_SIZE
      then let (m, bc) = malloc_ok (bc\<lparr>csize := csize bc + 1\<rparr>) in
        if \<not> m then Some (None, bc)
        else do {
          let c = \<lparr>ce_block = [], ce_sector = 0, ce_dirty = False, ce_accessed = False,
                   ce_open_cnt = 0\<rparr>;
          let k = length (entries bc);
          bc \<leftarrow> fill_entry k sector dirty (bc\<lparr>entries := entries bc @ [c]\<rparr>);
          Some (Some k, bc)
        }
      else do {
        (k, cs, d) \<leftarrow> evict_loop (entries bc) (dev bc);
        bc \<leftarrow> fill_entry k sector dirty (bc\<lparr>entries := cs, dev := d\<rparr>);
        Some (Some k, bc)
      })"

definition filesys_cache_block_get :: "u32 \<Rightarrow> bool \<Rightarrow> bcache \<Rightarrow> (nat \<times> bcache) option" where
  "filesys_cache_block_get sector dirty bc = do {
     bc \<leftarrow> cache_lock_acquire bc;
     case block_in_cache sector bc of
       Some k \<Rightarrow> do {
         let c = entries bc ! k;
         let c = c\<lparr>ce_open_cnt := ce_open_cnt c + 1, ce_dirty := (ce_dirty c \<or> dirty),
                   ce_accessed := True\<rparr>;
         bc \<leftarrow> cache_lock_release (bc\<lparr>entries := (entries bc)[k := c]\<rparr>);
         Some (k, bc)
       }
     | None \<Rightarrow> do {
         (k, bc) \<leftarrow> filesys_cache_block_evict sector dirty bc;
         ASSERT (k \<noteq> None);
         bc \<leftarrow> cache_lock_release bc;
         Some (the k, bc)
       }
   }"

text \<open>The loop of \<open>filesys_cache_write_to_disk\<close>; \<open>halt\<close> unlinks and frees every entry.\<close>

fun write_back_loop ::
  "bool \<Rightarrow> cache_entry list \<Rightarrow> block_dev \<Rightarrow> (cache_entry list \<times> block_dev) option" where
  "write_back_loop halt [] d = Some ([], d)"
| "write_back_loop halt (c # cs) d = do {
     (c, d) \<leftarrow> (if ce_dirty c
                then do { d \<leftarrow> block_write (ce_sector c) (ce_block c) d;
                          Some (c\<lparr>ce_dirty := False\<rparr>, d) }
                else Some (c, d));
     (cs, d) \<leftarrow> write_back_loop halt cs d;
     Some (if halt then cs else c # cs, d)
   }"

definition filesys_cache_write_to_disk :: "bool \<Rightarrow> bcache \<Rightarrow> bcache option" where
  "filesys_cache_write_to_disk halt bc = do {
     bc \<leftarrow> cache_lock_acquire bc;
     (cs, d) \<leftarrow> write_back_loop halt (entries bc) (dev bc);
     cache_lock_release (bc\<lparr>entries := cs, dev := d\<rparr>)
   }"

text \<open>One round of \<open>thread_func_write_back\<close>, after its sleep, and the body of the read-ahead
  thread for the sector it was handed.\<close>

definition thread_func_write_back_round :: "bcache \<Rightarrow> bcache option" where
  "thread_func_write_back_round bc = filesys_cache_write_to_disk False bc"

definition thread_func_read_ahead :: "u32 \<Rightarrow> bcache \<Rightarrow> bcache option" where
  "thread_func_read_ahead sector bc = do {
     bc \<leftarrow> cache_lock_acquire bc;
     case block_in_cache sector bc of
       Some k \<Rightarrow> cache_lock_release bc
     | None \<Rightarrow> do {
         (k, bc) \<leftarrow> filesys_cache_block_evict sector False bc;
         cache_lock_release bc
       }
   }"

definition spawn_thread_read_ahead :: "u32 \<Rightarrow> bcache \<Rightarrow> bcache option" where
  "spawn_thread_read_ahead sector bc =
     (let (m, bc) = malloc_ok bc in
      if m then thread_func_read_ahead (sector + 1) bc else Some bc)"

section \<open>The contract\<close>

definition dev_ok :: "block_dev \<Rightarrow> bool" where
  "dev_ok d \<longleftrightarrow> bd_type d \<noteq> BLOCK_FOREIGN \<and> (\<forall>s. length (bd_data d s) = 512)"

definition entry_ok :: "block_dev \<Rightarrow> cache_entry \<Rightarrow> bool" where
  "entry_ok d c \<longleftrightarrow> length (ce_block c) = 512 \<and> ce_sector c < bd_size d \<and>
     (\<not> ce_dirty c \<longrightarrow> ce_block c = bd_data d (ce_sector c)) \<and> 0 \<le> ce_open_cnt c"

definition cache_ok :: "bcache \<Rightarrow> bool" where
  "cache_ok bc \<longleftrightarrow> dev_ok (dev bc) \<and> distinct (map ce_sector (entries bc)) \<and>
     length (entries bc) = csize bc \<and> csize bc \<le> MAX_FILESYS_CACHE_SIZE \<and>
     (\<forall>c \<in> set (entries bc). entry_ok (dev bc) c)"

definition centry :: "cache_entry list \<Rightarrow> u32 \<Rightarrow> cache_entry option" where
  "centry cs = map_of (map (\<lambda>c. (ce_sector c, c)) cs)"

definition cview :: "bcache \<Rightarrow> u32 \<Rightarrow> u8 list" where
  "cview bc s = (case centry (entries bc) s of Some c \<Rightarrow> ce_block c | None \<Rightarrow> bd_data (dev bc) s)"

text \<open>\<open>cpin bc s\<close>: how many users hold the entry of sector \<open>s\<close> (0 if it is not cached).\<close>

definition cpin :: "bcache \<Rightarrow> u32 \<Rightarrow> int" where
  "cpin bc s = (case centry (entries bc) s of Some c \<Rightarrow> ce_open_cnt c | None \<Rightarrow> 0)"

definition cached :: "bcache \<Rightarrow> u32 set" where
  "cached bc = ce_sector ` set (entries bc)"

lemma find_sector_None: "find_sector sector i cs = None \<longleftrightarrow> sector \<notin> ce_sector ` set cs"
  by (induction sector i cs rule: find_sector.induct) auto

lemma find_sector_Some:
  "find_sector sector i cs = Some k \<Longrightarrow> i \<le> k \<and> k < i + length cs \<and> ce_sector (cs ! (k - i)) = sector"
  by (induction sector i cs rule: find_sector.induct) (fastforce split: if_splits simp: nth_Cons')+

lemma block_in_cache_None:
  "block_in_cache sector bc = None \<longleftrightarrow> sector \<notin> ce_sector ` set (entries bc)"
  by (simp add: block_in_cache_def find_sector_None)

lemma block_in_cache_Some:
  "block_in_cache sector bc = Some k \<Longrightarrow> k < length (entries bc) \<and> ce_sector (entries bc ! k) = sector"
  using find_sector_Some [of sector 0 "entries bc" k] by (simp add: block_in_cache_def)

subsection \<open>The view\<close>

lemma centry_nth:
  assumes "distinct (map ce_sector cs)" "k < length cs"
  shows "centry cs (ce_sector (cs ! k)) = Some (cs ! k)"
  using assms by (auto simp: centry_def comp_def intro!: map_of_is_SomeI)

lemma centry_SomeD: "centry cs s = Some c \<Longrightarrow> c \<in> set cs \<and> ce_sector c = s"
  by (auto simp: centry_def dest!: map_of_SomeD)

lemma centry_None: "centry cs s = None \<longleftrightarrow> s \<notin> ce_sector ` set cs"
  by (force simp: centry_def map_of_eq_None_iff)

lemma centry_append:
  "ce_sector c \<notin> ce_sector ` set cs \<Longrightarrow> centry (cs @ [c]) = (centry cs)(ce_sector c \<mapsto> c)"
  by (induction cs) (auto simp: centry_def fun_eq_iff)

lemma centry_update:
  assumes "distinct (map ce_sector cs)" "k < length cs"
    "ce_sector c = ce_sector (cs ! k) \<or> ce_sector c \<notin> ce_sector ` set cs"
  shows "centry (cs[k := c]) = ((centry cs)(ce_sector (cs ! k) := None))(ce_sector c \<mapsto> c)"
  using assms
proof (induction cs arbitrary: k)
  case (Cons a cs)
  show ?case
  proof (cases k)
    case 0
    have "centry cs (ce_sector a) = None" using Cons.prems by (simp add: centry_None)
    then show ?thesis using 0 by (auto simp: centry_def fun_eq_iff)
  next
    case (Suc k')
    then have "cs ! k' \<in> set cs" using Cons.prems by simp
    moreover have "ce_sector a \<notin> ce_sector ` set cs" using Cons.prems by simp
    ultimately have n: "ce_sector (cs ! k') \<noteq> ce_sector a" by (metis imageI)
    have "ce_sector c \<noteq> ce_sector a" using Cons.prems Suc n by auto
    note n = this n
    have "centry (cs[k' := c]) = ((centry cs)(ce_sector (cs ! k') := None))(ce_sector c \<mapsto> c)"
      using Cons Suc by auto
    then show ?thesis using Suc n by (auto simp: centry_def fun_eq_iff)
  qed
qed simp

lemma cview_nth:
  "distinct (map ce_sector (entries bc)) \<Longrightarrow> k < length (entries bc) \<Longrightarrow>
   cview bc (ce_sector (entries bc ! k)) = ce_block (entries bc ! k)"
  by (simp add: cview_def centry_nth)

lemma cview_out: "s \<notin> ce_sector ` set (entries bc) \<Longrightarrow> cview bc s = bd_data (dev bc) s"
  by (simp add: cview_def flip: centry_None)

lemma cpin_nth:
  "distinct (map ce_sector (entries bc)) \<Longrightarrow> k < length (entries bc) \<Longrightarrow>
   cpin bc (ce_sector (entries bc ! k)) = ce_open_cnt (entries bc ! k)"
  by (simp add: cpin_def centry_nth)

lemma cview_length:
  assumes "cache_ok bc"
  shows "length (cview bc s) = 512"
proof (cases "s \<in> ce_sector ` set (entries bc)")
  case True
  then obtain k where "k < length (entries bc)" "s = ce_sector (entries bc ! k)"
    by (auto simp: in_set_conv_nth)
  then show ?thesis using assms by (simp add: cview_nth cache_ok_def entry_ok_def)
next
  case False
  then show ?thesis using assms by (simp add: cview_out cache_ok_def dev_ok_def)
qed

lemma cache_ok_nth:
  "cache_ok bc \<Longrightarrow> k < length (entries bc) \<Longrightarrow> entry_ok (dev bc) (entries bc ! k)"
  by (simp add: cache_ok_def)

text \<open>Everything of an entry but the clock bit.\<close>

definition strip :: "cache_entry \<Rightarrow> cache_entry" where
  "strip c = c\<lparr>ce_accessed := False\<rparr>"

lemma strip_simps [simp]:
  "ce_block (strip c) = ce_block c" "ce_sector (strip c) = ce_sector c"
  "ce_dirty (strip c) = ce_dirty c" "ce_open_cnt (strip c) = ce_open_cnt c"
  "entry_ok d (strip c) = entry_ok d c"
  by (simp_all add: strip_def entry_ok_def)

lemma map_strip_cong:
  assumes "map strip cs' = map strip cs" "\<And>c. f (strip c) = f c"
  shows "map f cs' = map f cs"
proof -
  have "map (f \<circ> strip) cs' = map (f \<circ> strip) cs" by (simp only: assms(1) flip: map_map)
  then show ?thesis using assms(2) by (simp add: comp_def)
qed

lemma strip_eqD:
  assumes "map strip cs' = map strip cs"
  shows "length cs' = length cs" "map ce_sector cs' = map ce_sector cs"
  using assms by (metis length_map) (rule map_strip_cong[OF assms], simp)

lemma strip_eq_nth:
  assumes "map strip cs' = map strip cs" "k < length cs"
  shows "strip (cs' ! k) = strip (cs ! k)"
  using assms by (metis nth_map strip_eqD(1))

lemma strip_eq_entry_ok:
  assumes "map strip cs' = map strip cs" "\<forall>c \<in> set cs. entry_ok d c"
  shows "\<forall>c \<in> set cs'. entry_ok d c"
proof
  fix c assume "c \<in> set cs'"
  then have "strip c \<in> strip ` set cs'" by simp
  then have "strip c \<in> strip ` set cs" using assms(1) by (metis set_map)
  then show "entry_ok d c" using assms(2) by (metis imageE strip_simps(5))
qed

lemma centry_strip:
  assumes "map strip cs' = map strip cs"
  shows "map_option strip (centry cs' s) = map_option strip (centry cs s)"
proof -
  have "map_option strip (centry cs s) = map_of (map (\<lambda>c. (ce_sector c, strip c)) cs) s" for cs
    by (induction cs) (auto simp: centry_def)
  moreover have "map (\<lambda>c. (ce_sector c, strip c)) cs' = map (\<lambda>c. (ce_sector c, strip c)) cs"
    by (rule map_strip_cong[OF assms]) (simp add: strip_def)
  ultimately show ?thesis by simp
qed

lemma distinct_update_fresh:
  assumes "distinct xs" "x \<notin> set xs"
  shows "distinct (xs[k := x])"
  using assms by (metis distinct_list_update set_update_subset_insert insert_Diff_if Diff_iff)

subsection \<open>Eviction\<close>

lemma block_write_ok:
  assumes "dev_ok d" "s < bd_size d" "length b = 512"
  obtains d' where "block_write s b d = Some d'" "dev_ok d'" "bd_size d' = bd_size d"
    "bd_data d' = (bd_data d)(s := b)"
  using assms
  by (intro that[of "d\<lparr>bd_data := (bd_data d)(s := b), bd_write_cnt := bd_write_cnt d + 1\<rparr>"])
    (auto simp: block_write_def check_sector_def dev_ok_def Let_def)

lemma block_read_ok:
  assumes "s < bd_size d"
  obtains d' where "block_read s d = Some (bd_data d s, d')" "dev_ok d' = dev_ok d"
    "bd_size d' = bd_size d" "bd_data d' = bd_data d"
  using assms
  by (intro that[of "d\<lparr>bd_read_cnt := bd_read_cnt d + 1\<rparr>"])
    (auto simp: block_read_def check_sector_def dev_ok_def)

definition pass_post :: "block_dev \<Rightarrow> nat \<Rightarrow> cache_entry list \<Rightarrow> nat option \<Rightarrow> cache_entry list \<Rightarrow> block_dev \<Rightarrow> bool" where
  "pass_post d i cs v cs' d' \<longleftrightarrow>
     map strip cs' = map strip cs \<and> dev_ok d' \<and> bd_size d' = bd_size d \<and>
     (case v of
        None \<Rightarrow> d' = d \<and> (\<forall>c \<in> set cs'. ce_open_cnt c \<le> 0 \<longrightarrow> \<not> ce_accessed c) \<and>
                (\<forall>c \<in> set cs. ce_open_cnt c \<le> 0 \<longrightarrow> ce_accessed c)
      | Some k \<Rightarrow> i \<le> k \<and> k < i + length cs \<and> ce_open_cnt (cs ! (k - i)) \<le> 0 \<and>
          bd_data d' = (bd_data d)(ce_sector (cs ! (k - i)) := ce_block (cs ! (k - i))))"

lemma pass_post_skip:
  assumes "pass_post d (Suc i) cs v cs' d'" "strip c' = strip c"
    "ce_open_cnt c \<le> 0 \<Longrightarrow> \<not> ce_accessed c' \<and> ce_accessed c"
  shows "pass_post d i (c # cs) v (c' # cs') d'"
proof -
  have "ce_open_cnt c' = ce_open_cnt c" using assms(2) by (metis strip_simps(4))
  then show ?thesis
    using assms by (auto simp: pass_post_def nth_Cons' Suc_diff_Suc Suc_le_eq split: option.splits)
qed

lemma evict_pass_ok:
  assumes "dev_ok d" "\<forall>c \<in> set cs. entry_ok d c"
  shows "\<exists>v cs' d'. evict_pass d i cs = Some (v, cs', d') \<and> pass_post d i cs v cs' d'"
  using assms
proof (induction cs arbitrary: i)
  case Nil
  then show ?case by (simp add: pass_post_def)
next
  case (Cons c cs)
  then obtain v cs' d' where IH: "evict_pass d (Suc i) cs = Some (v, cs', d')"
    "pass_post d (Suc i) cs v cs' d'" by (metis list.set_intros(2))
  have c: "entry_ok d c" using Cons.prems by simp
  consider "ce_open_cnt c > 0" | "ce_open_cnt c \<le> 0" "ce_accessed c"
    | "ce_open_cnt c \<le> 0" "\<not> ce_accessed c" by linarith
  then show ?case
  proof cases
    case 1
    then show ?thesis using IH pass_post_skip[OF IH(2), of c c] by simp
  next
    case 2
    then show ?thesis
      using IH pass_post_skip[OF IH(2), of "c\<lparr>ce_accessed := False\<rparr>" c] by (simp add: strip_def)
  next
    case 3
    show ?thesis
    proof (cases "ce_dirty c")
      case True
      obtain d' where "block_write (ce_sector c) (ce_block c) d = Some d'" "dev_ok d'"
        "bd_size d' = bd_size d" "bd_data d' = (bd_data d)(ce_sector c := ce_block c)"
        using block_write_ok c \<open>dev_ok d\<close> unfolding entry_ok_def by metis
      then show ?thesis using 3 True by (simp add: pass_post_def)
    next
      case False
      then have "(bd_data d)(ce_sector c := ce_block c) = bd_data d"
        using c by (simp add: entry_ok_def)
      then show ?thesis using 3 False \<open>dev_ok d\<close> by (simp add: pass_post_def)
    qed
  qed
qed

lemma evict_loop_ok:
  assumes "dev_ok d" "\<forall>c \<in> set cs. entry_ok d c" "\<exists>c \<in> set cs. ce_open_cnt c \<le> 0"
  obtains k cs' d' where "evict_loop cs d = Some (k, cs', d')" "map strip cs' = map strip cs"
    "dev_ok d'" "bd_size d' = bd_size d" "k < length cs" "ce_open_cnt (cs ! k) \<le> 0"
    "bd_data d' = (bd_data d)(ce_sector (cs ! k) := ce_block (cs ! k))"
proof -
  obtain v cs1 d1 where p: "evict_pass d 0 cs = Some (v, cs1, d1)" "pass_post d 0 cs v cs1 d1"
    using evict_pass_ok assms by metis
  show ?thesis
  proof (cases v)
    case (Some k)
    then show ?thesis using p
      by (intro that[of k cs1 d1]) (simp_all add: evict_loop.simps[of cs d] pass_post_def)
  next
    case None
    have s: "map strip cs1 = map strip cs" and [simp]: "d1 = d" and
      na: "\<forall>c \<in> set cs1. ce_open_cnt c \<le> 0 \<longrightarrow> \<not> ce_accessed c"
      using p(2) None by (simp_all add: pass_post_def)
    have "\<forall>c \<in> set cs1. entry_ok d c" using strip_eq_entry_ok[OF s assms(2)] .
    then obtain v2 cs2 d2 where q: "evict_pass d 0 cs1 = Some (v2, cs2, d2)"
      "pass_post d 0 cs1 v2 cs2 d2" using evict_pass_ok assms(1) by metis
    have cnts: "map ce_open_cnt cs1 = map ce_open_cnt cs" by (rule map_strip_cong[OF s]) simp
    obtain c where c: "c \<in> set cs" "ce_open_cnt c \<le> 0" using assms(3) by blast
    have "ce_open_cnt c \<in> set (map ce_open_cnt cs1)" unfolding cnts using c(1) by simp
    then have "\<exists>c \<in> set cs1. ce_open_cnt c \<le> 0" using c(2) by auto
    then obtain k where [simp]: "v2 = Some k" using q(2) na
      by (auto simp: pass_post_def split: option.splits)
    have k: "k < length cs" using q(2) strip_eqD[OF s] by (simp add: pass_post_def)
    have eq: "ce_sector (cs1 ! k) = ce_sector (cs ! k)" "ce_block (cs1 ! k) = ce_block (cs ! k)"
      "ce_open_cnt (cs1 ! k) = ce_open_cnt (cs ! k)"
      using strip_eq_nth[OF s k] by (metis strip_simps)+
    have "evict_loop cs d = Some (k, cs2, d2)"
      using p q None by (simp add: evict_loop.simps[of cs d] evict_loop.simps[of cs1 d])
    then show ?thesis using q(2) s k eq
      by (intro that[of k cs2 d2]) (simp_all add: pass_post_def)
  qed
qed

lemma evict_pass_pinned:
  "\<forall>c \<in> set cs. ce_open_cnt c > 0 \<Longrightarrow> evict_pass d i cs = Some (None, cs, d)"
  by (induction cs arbitrary: i) auto

lemma evict_loop_needs_unpinned:
  assumes "evict_loop cs d = Some r"
  shows "\<exists>c \<in> set cs. \<not> ce_open_cnt c > 0"
proof (rule evict_loop.raw_induct[OF _ assms], rule ccontr)
  fix loop :: "cache_entry list \<Rightarrow> block_dev \<Rightarrow> (nat \<times> cache_entry list \<times> block_dev) option" and cs d r
  assume IH: "\<And>cs d r. loop cs d = Some r \<Longrightarrow> \<exists>c \<in> set cs. \<not> ce_open_cnt c > 0"
    and step: "do { (v, cs', d') \<leftarrow> evict_pass d 0 cs;
      case v of None \<Rightarrow> loop cs' d' | Some k \<Rightarrow> Some (k, cs', d') } = Some r"
    and "\<not> (\<exists>c \<in> set cs. \<not> ce_open_cnt c > 0)"
  then have p: "\<forall>c \<in> set cs. ce_open_cnt c > 0" by blast
  have "loop cs d = Some r" using step evict_pass_pinned[OF p, of d 0] by simp
  then show False using IH p by blast
qed

lemma evict_loop_spins:
  assumes "\<forall>c \<in> set cs. ce_open_cnt c > 0"
  shows "evict_loop cs d = None"
  using assms evict_loop_needs_unpinned[of cs d] by (cases "evict_loop cs d") auto

subsection \<open>Loading and pinning\<close>

lemma sectors_update: "ce_sector ` set (cs[k := c]) \<subseteq> insert (ce_sector c) (ce_sector ` set cs)"
  using set_update_subset_insert[of cs k c] by (metis image_insert image_mono)

definition cache_room :: "bcache \<Rightarrow> bool" where
  "cache_room bc \<longleftrightarrow> csize bc < MAX_FILESYS_CACHE_SIZE \<or> (\<exists>c \<in> set (entries bc). ce_open_cnt c = 0)"

text \<open>\<open>cache_frame bc bc'\<close>: what every operation on the cache leaves alone.\<close>

definition cache_frame :: "bcache \<Rightarrow> bcache \<Rightarrow> bool" where
  "cache_frame bc bc' \<longleftrightarrow> bd_size (dev bc') = bd_size (dev bc) \<and> clock bc' = clock bc \<and> mem bc' = mem bc"

lemma cache_frame_refl [simp]: "cache_frame bc bc"
  by (simp add: cache_frame_def)

lemma cache_frame_trans: "cache_frame a b \<Longrightarrow> cache_frame b c \<Longrightarrow> cache_frame a c"
  by (simp add: cache_frame_def)

text \<open>Replacing the entry at a position by one for the same or for an uncached sector.\<close>

lemma cache_ok_replace:
  assumes "cache_ok bc" "k < length (entries bc)" "entry_ok (dev bc) c"
    "ce_sector c = ce_sector (entries bc ! k) \<or> ce_sector c \<notin> ce_sector ` set (entries bc)"
  shows "cache_ok (bc\<lparr>entries := (entries bc)[k := c]\<rparr>)"
proof -
  have "distinct (map ce_sector ((entries bc)[k := c]))"
  proof (cases "ce_sector c = ce_sector (entries bc ! k)")
    case True
    then have "map ce_sector ((entries bc)[k := c]) = map ce_sector (entries bc)"
      using assms(2) by (simp add: map_update list_update_same_conv)
    then show ?thesis using assms(1) by (simp add: cache_ok_def)
  next
    case False
    then show ?thesis using assms
      by (auto simp: map_update cache_ok_def intro!: distinct_update_fresh)
  qed
  then show ?thesis
    using assms by (auto simp: cache_ok_def dest!: set_update_subset_insert[THEN subsetD])
qed


lemma centry_replace:
  assumes "cache_ok bc" "k < length (entries bc)"
    "ce_sector c = ce_sector (entries bc ! k) \<or> ce_sector c \<notin> ce_sector ` set (entries bc)"
  shows "centry ((entries bc)[k := c]) =
    ((centry (entries bc))(ce_sector (entries bc ! k) := None))(ce_sector c \<mapsto> c)"
  using assms by (intro centry_update) (auto simp: cache_ok_def)

text \<open>
  The state of the cache once a sector has been brought in: \<open>k\<close> is its entry, which is
  pinned once more than before, and nothing a client can see has changed.
\<close>

definition loaded :: "bcache \<Rightarrow> u32 \<Rightarrow> bool \<Rightarrow> nat \<Rightarrow> bcache \<Rightarrow> bool" where
  "loaded bc sector dirty k bc' \<longleftrightarrow> cache_ok bc' \<and> cache_frame bc bc' \<and> cview bc' = cview bc \<and>
     cpin bc' = (cpin bc)(sector := cpin bc sector + 1) \<and> k < length (entries bc') \<and>
     ce_sector (entries bc' ! k) = sector \<and> (dirty \<longrightarrow> ce_dirty (entries bc' ! k)) \<and>
     ce_accessed (entries bc' ! k) \<and>
     (\<forall>j < length (entries bc). ce_open_cnt (entries bc ! j) > 0 \<longrightarrow>
        j < length (entries bc') \<and> ce_sector (entries bc' ! j) = ce_sector (entries bc ! j)) \<and>
     cached bc' \<subseteq> insert sector (cached bc) \<and>
     (\<forall>s. s \<notin> cached bc \<longrightarrow> bd_data (dev bc') s = bd_data (dev bc) s)"

lemma loaded_hit:
  assumes ok: "cache_ok bc" and hit: "k < length (entries bc)" "ce_sector (entries bc ! k) = sector"
    and c: "c = (entries bc ! k)\<lparr>ce_open_cnt := ce_open_cnt (entries bc ! k) + 1,
      ce_dirty := (ce_dirty (entries bc ! k) \<or> dirty), ce_accessed := True\<rparr>"
  shows "loaded bc sector dirty k (bc\<lparr>entries := (entries bc)[k := c]\<rparr>)"
proof -
  have cf: "ce_sector c = sector" "ce_block c = ce_block (entries bc ! k)"
    "ce_open_cnt c = ce_open_cnt (entries bc ! k) + 1" "dirty \<Longrightarrow> ce_dirty c" "ce_accessed c"
    using c hit by simp_all
  have e: "entry_ok (dev bc) c"
    using cache_ok_nth[OF ok hit(1)] c by (simp add: entry_ok_def)
  have cen: "centry ((entries bc)[k := c]) = (centry (entries bc))(sector \<mapsto> c)"
    using centry_replace[OF ok hit(1), of c] hit cf(1) by (simp add: fun_eq_iff)
  have old: "centry (entries bc) sector = Some (entries bc ! k)"
    using centry_nth[of "entries bc" k] ok hit by (auto simp: cache_ok_def)
  have "cached (bc\<lparr>entries := (entries bc)[k := c]\<rparr>) \<subseteq> insert sector (cached bc)"
    using cf(1) sectors_update[of "entries bc" k c] by (simp add: cached_def)
  then show ?thesis
    using cache_ok_replace[OF ok hit(1) e] hit cf old
    by (auto simp: loaded_def nth_list_update cache_frame_def cview_def cpin_def cen fun_eq_iff split: option.split)
qed

lemma fill_entry_ok:
  assumes ok: "dev_ok (dev bc)" "sector < bd_size (dev bc)"
    and b: "b = (entries bc ! k)\<lparr>ce_open_cnt := ce_open_cnt (entries bc ! k) + 1, ce_sector := sector,
      ce_block := bd_data (dev bc) sector, ce_dirty := dirty, ce_accessed := True\<rparr>"
  obtains d where "fill_entry k sector dirty bc = Some (bc\<lparr>dev := d, entries := (entries bc)[k := b]\<rparr>)"
    "dev_ok d" "bd_size d = bd_size (dev bc)" "bd_data d = bd_data (dev bc)"
proof -
  obtain d where "block_read sector (dev bc) = Some (bd_data (dev bc) sector, d)"
    "dev_ok d = dev_ok (dev bc)" "bd_size d = bd_size (dev bc)" "bd_data d = bd_data (dev bc)"
    using block_read_ok[OF ok(2)] by metis
  then show ?thesis using ok b by (intro that[of d]) (auto simp: fill_entry_def Let_def)
qed

lemma evict_fresh_ok:
  assumes ok: "cache_ok bc" "mem bc = []" "sector < bd_size (dev bc)"
    "sector \<notin> ce_sector ` set (entries bc)" and room: "csize bc < MAX_FILESYS_CACHE_SIZE"
  obtains k bc' where "filesys_cache_block_evict sector dirty bc = Some (Some k, bc')"
    "loaded bc sector dirty k bc'"
proof -
  let ?e = "\<lparr>ce_block = [], ce_sector = 0, ce_dirty = False, ce_accessed = False, ce_open_cnt = 0\<rparr>"
  let ?bc = "bc\<lparr>csize := csize bc + 1, entries := entries bc @ [?e]\<rparr>"
  let ?k = "length (entries bc)"
  let ?b = "\<lparr>ce_block = bd_data (dev bc) sector, ce_sector = sector, ce_dirty = dirty,
    ce_accessed = True, ce_open_cnt = 1\<rparr>"
  obtain d where f: "fill_entry ?k sector dirty ?bc =
      Some (?bc\<lparr>dev := d, entries := entries bc @ [?b]\<rparr>)"
    and d: "dev_ok d" "bd_size d = bd_size (dev bc)" "bd_data d = bd_data (dev bc)"
    using fill_entry_ok[where bc = ?bc and sector = sector and b = ?b and k = ?k and dirty = dirty] ok
    by (auto simp: cache_ok_def)
  let ?bc' = "?bc\<lparr>dev := d, entries := entries bc @ [?b]\<rparr>"
  have "\<forall>c \<in> set (entries bc). entry_ok d c"
    using ok(1) d by (simp add: cache_ok_def entry_ok_def)
  moreover have "length (bd_data (dev bc) sector) = 512"
    using ok(1) by (simp add: cache_ok_def dev_ok_def)
  ultimately have "cache_ok ?bc'"
    using ok room d by (auto simp: cache_ok_def entry_ok_def)
  moreover have "centry (entries bc) sector = None" using ok(4) by (simp add: centry_None)
  ultimately have "loaded bc sector dirty ?k ?bc'"
    using ok(4) d centry_append[of ?b "entries bc"]
    by (auto simp: loaded_def nth_append cached_def cache_frame_def cview_def cpin_def fun_eq_iff split: option.split)
  moreover have "filesys_cache_block_evict sector dirty bc = Some (Some ?k, ?bc')"
    using f ok(2) room by (simp add: filesys_cache_block_evict_def malloc_ok_def)
  ultimately show ?thesis by (rule that[rotated])
qed


lemma strip_sectors: "map strip cs' = map strip cs \<Longrightarrow> ce_sector ` set cs' = ce_sector ` set cs"
  by (metis set_map strip_eqD(2))

lemma evict_victim_ok:
  assumes ok: "cache_ok bc" "sector < bd_size (dev bc)"
    "sector \<notin> ce_sector ` set (entries bc)" and full: "\<not> csize bc < MAX_FILESYS_CACHE_SIZE"
    and room: "\<exists>c \<in> set (entries bc). ce_open_cnt c = 0"
  obtains k bc' where "filesys_cache_block_evict sector dirty bc = Some (Some k, bc')"
    "loaded bc sector dirty k bc'" "k < length (entries bc)" "ce_open_cnt (entries bc ! k) = 0"
proof -
  have "\<exists>c \<in> set (entries bc). ce_open_cnt c \<le> 0" using room by force
  then obtain k cs d where e: "evict_loop (entries bc) (dev bc) = Some (k, cs, d)"
    "map strip cs = map strip (entries bc)" "dev_ok d" "bd_size d = bd_size (dev bc)"
    "k < length (entries bc)" "ce_open_cnt (entries bc ! k) \<le> 0"
    "bd_data d = (bd_data (dev bc))(ce_sector (entries bc ! k) := ce_block (entries bc ! k))"
    using evict_loop_ok[of "dev bc" "entries bc"] ok(1) unfolding cache_ok_def by metis
  have len: "length cs = length (entries bc)" and secs: "map ce_sector cs = map ce_sector (entries bc)"
    using strip_eqD[OF e(2)] by simp_all
  have vic: "entry_ok (dev bc) (entries bc ! k)" using cache_ok_nth[OF ok(1) e(5)] .
  then have pin0: "ce_open_cnt (cs ! k) = 0" "ce_open_cnt (entries bc ! k) = 0"
    using e(6) strip_eq_nth[OF e(2,5)] strip_simps(4) by (metis entry_ok_def order_antisym)+
  have nth: "ce_sector (cs ! k) = ce_sector (entries bc ! k)"
    using strip_eq_nth[OF e(2,5)] strip_simps(2) by metis
  have out: "sector \<noteq> ce_sector (entries bc ! k)" "sector \<notin> ce_sector ` set cs"
    using ok(3) e(5) strip_sectors[OF e(2)] by auto
  let ?bc = "bc\<lparr>entries := cs, dev := d\<rparr>"
  let ?b = "(cs ! k)\<lparr>ce_open_cnt := 1, ce_sector := sector,
      ce_block := bd_data (dev bc) sector, ce_dirty := dirty, ce_accessed := True\<rparr>"
  have eok: "entry_ok d c" if "c \<in> set cs" for c
  proof -
    have "\<forall>c \<in> set cs. entry_ok (dev bc) c"
      using strip_eq_entry_ok[OF e(2)] ok(1) by (simp add: cache_ok_def)
    then have "entry_ok (dev bc) c" using that by blast
    moreover have "ce_block c = ce_block (entries bc ! k)"
      if s: "ce_sector c = ce_sector (entries bc ! k)"
    proof -
      obtain j where j: "j < length cs" "cs ! j = c" using \<open>c \<in> set cs\<close> by (auto simp: in_set_conv_nth)
      have "distinct (map ce_sector cs)" using ok(1) secs by (simp add: cache_ok_def)
      then have "j = k"
        using s nth j e(5) len by (metis length_map nth_eq_iff_index_eq nth_map)
      then show ?thesis using j strip_eq_nth[OF e(2,5)] strip_simps(1) by metis
    qed
    ultimately show ?thesis using e(4,7) by (auto simp: entry_ok_def)
  qed
  have okbc: "cache_ok ?bc" using ok(1) e len secs eok by (simp add: cache_ok_def)
  obtain d2 where f: "fill_entry k sector dirty ?bc = Some (?bc\<lparr>dev := d2, entries := cs[k := ?b]\<rparr>)"
    and d2: "dev_ok d2" "bd_size d2 = bd_size d" "bd_data d2 = bd_data d"
    using fill_entry_ok[where bc = ?bc and sector = sector and b = ?b and k = k and dirty = dirty]
      ok(2) e out pin0 by auto
  let ?bc' = "?bc\<lparr>dev := d2, entries := cs[k := ?b]\<rparr>"
  have okbc2: "cache_ok (?bc\<lparr>dev := d2\<rparr>)" using okbc d2 by (simp add: cache_ok_def entry_ok_def)
  have data: "bd_data d2 sector = bd_data (dev bc) sector" using e(7) out d2 by simp
  have len512: "length (bd_data (dev bc) sector) = 512"
    using ok(1) by (simp add: cache_ok_def dev_ok_def)
  have "cache_ok ?bc'"
    using cache_ok_replace[OF okbc2, of k ?b] e(4,5) len out data d2 ok(2) len512
    by (simp add: entry_ok_def)
  moreover have "cview ?bc' s = cview bc s \<and>
      cpin ?bc' s = ((cpin bc)(sector := cpin bc sector + 1)) s" for s
  proof -
    have c: "centry (cs[k := ?b]) s =
        (if s = sector then Some ?b else if s = ce_sector (entries bc ! k) then None else centry cs s)"
      using centry_replace[OF okbc, of k ?b] e(5) len out nth by simp
    have str: "map_option strip (centry cs s) = map_option strip (centry (entries bc) s)"
      by (rule centry_strip[OF e(2)])
    have new: "centry (entries bc) sector = None" using ok(3) by (simp add: centry_None)
    have old: "centry (entries bc) (ce_sector (entries bc ! k)) = Some (entries bc ! k)"
      using centry_nth[of "entries bc" k] ok(1) e(5) by (simp add: cache_ok_def)
    have rest: "bd_data d2 s = bd_data (dev bc) s" if "s \<noteq> ce_sector (entries bc ! k)"
      using that d2 e(7) by simp
    consider "s = sector" | "s = ce_sector (entries bc ! k)" | "s \<noteq> sector" "s \<noteq> ce_sector (entries bc ! k)"
      by blast
    then show ?thesis
    proof cases
      case 1
      then show ?thesis using c new data by (simp add: cview_def cpin_def)
    next
      case 2
      then show ?thesis using c old out(1) d2 e(7) pin0 by (simp add: cview_def cpin_def)
    next
      case 3
      show ?thesis
      proof (cases "centry (entries bc) s")
        case None
        then show ?thesis using c 3 str rest by (simp add: cview_def cpin_def)
      next
        case (Some x)
        then obtain y where y: "centry cs s = Some y" "strip y = strip x" using str by auto
        then have "ce_block y = ce_block x" "ce_open_cnt y = ce_open_cnt x" by (metis strip_simps)+
        then show ?thesis using c 3 Some y by (simp add: cview_def cpin_def)
      qed
    qed
  qed
  moreover have "cache_frame bc ?bc'" using d2 e(4) by (simp add: cache_frame_def)
  moreover have "ce_sector (cs[k := ?b] ! j) = ce_sector (entries bc ! j)"
    if "j < length (entries bc)" "ce_open_cnt (entries bc ! j) > 0" for j
  proof -
    have "j \<noteq> k" using that pin0 by auto
    then show ?thesis using strip_eq_nth[OF e(2) that(1)] strip_simps(2) by (metis nth_list_update_neq)
  qed
  moreover have "cached ?bc' \<subseteq> insert sector (cached bc)"
    using sectors_update[of cs k ?b] strip_sectors[OF e(2)] by (simp add: cached_def)
  moreover have "bd_data d2 s = bd_data (dev bc) s" if "s \<notin> cached bc" for s
    using that d2 e(5,7) by (auto simp: cached_def)
  ultimately have "loaded bc sector dirty k ?bc'"
    using e(5) len by (auto simp: loaded_def fun_eq_iff)
  moreover have "filesys_cache_block_evict sector dirty bc = Some (Some k, ?bc')"
    using f e(1) full by (simp add: filesys_cache_block_evict_def)
  ultimately show ?thesis using that e(5) pin0 by blast
qed


lemma block_evict_loaded:
  assumes "cache_ok bc" "mem bc = []" "sector < bd_size (dev bc)"
    "sector \<notin> ce_sector ` set (entries bc)" "cache_room bc"
  obtains k bc' where "filesys_cache_block_evict sector dirty bc = Some (Some k, bc')"
    "loaded bc sector dirty k bc'"
proof (cases "csize bc < MAX_FILESYS_CACHE_SIZE")
  case True
  show ?thesis by (rule evict_fresh_ok[OF assms(1-4) True]) (rule that)
next
  case False
  then have "\<exists>c \<in> set (entries bc). ce_open_cnt c = 0" using assms(5) by (simp add: cache_room_def)
  then show ?thesis
    by (rule evict_victim_ok[OF assms(1,3,4) False]) (rule that)
qed

lemma clock_simps [simp]:
  "cview (bc\<lparr>clock := x\<rparr>) = cview bc" "cpin (bc\<lparr>clock := x\<rparr>) = cpin bc"
  "cache_ok (bc\<lparr>clock := x\<rparr>) = cache_ok bc" "cached (bc\<lparr>clock := x\<rparr>) = cached bc"
  by (simp_all add: cview_def cpin_def cached_def cache_ok_def fun_eq_iff split: option.split)

lemma loaded_lock:
  "loaded (bc\<lparr>clock := x\<rparr>) sector dirty k bc' \<Longrightarrow> loaded bc sector dirty k (bc'\<lparr>clock := clock bc\<rparr>)"
  by (simp add: loaded_def cache_frame_def)

text \<open>The contract of \<open>filesys_cache_block_get\<close>.\<close>

lemma block_get_loaded:
  assumes "cache_ok bc" "\<not> clock bc" "mem bc = []" "sector < bd_size (dev bc)"
    and room: "sector \<in> ce_sector ` set (entries bc) \<or> cache_room bc"
  obtains k bc' where "filesys_cache_block_get sector dirty bc = Some (k, bc')"
    "loaded bc sector dirty k bc'"
proof -
  let ?bc = "bc\<lparr>clock := True\<rparr>"
  have ok: "cache_ok ?bc" using assms(1) by (simp add: cache_ok_def)
  show ?thesis
  proof (cases "block_in_cache sector ?bc")
    case (Some k)
    then have k: "k < length (entries ?bc)" "ce_sector (entries ?bc ! k) = sector"
      using block_in_cache_Some by blast+
    note l = loaded_lock[OF loaded_hit[OF ok k refl, of dirty]]
    show ?thesis
      by (rule that[OF _ l])
        (use Some assms(2) in \<open>simp add: filesys_cache_block_get_def cache_lock_acquire_def
          cache_lock_release_def Let_def\<close>)
  next
    case None
    then have out: "sector \<notin> ce_sector ` set (entries ?bc)" by (simp add: block_in_cache_None)
    then have "cache_room ?bc" using room by (simp add: cache_room_def)
    then obtain k bc' where e: "filesys_cache_block_evict sector dirty ?bc = Some (Some k, bc')"
      "loaded ?bc sector dirty k bc'"
      using block_evict_loaded[OF ok _ _ out, of dirty] assms(3,4) by auto
    have "clock bc'" using e(2) by (simp add: loaded_def cache_frame_def)
    then show ?thesis
      using that[OF _ loaded_lock[OF e(2)]] None e(1) assms(2)
      by (simp add: filesys_cache_block_get_def cache_lock_acquire_def cache_lock_release_def)
  qed
qed

text \<open>Between two operations of a client that gives back what it pins the cache is idle.\<close>

definition cache_idle :: "bcache \<Rightarrow> bool" where
  "cache_idle bc \<longleftrightarrow> cache_ok bc \<and> \<not> clock bc \<and> mem bc = [] \<and> (\<forall>c \<in> set (entries bc). ce_open_cnt c = 0)"

lemma cache_idle_room: "cache_idle bc \<Longrightarrow> cache_room bc"
  by (cases "entries bc") (auto simp: cache_idle_def cache_room_def cache_ok_def MAX_FILESYS_CACHE_SIZE_def)

lemma cpin_zero_iff:
  assumes "cache_ok bc"
  shows "(\<forall>c \<in> set (entries bc). ce_open_cnt c = 0) \<longleftrightarrow> (\<forall>s. cpin bc s = 0)"
proof
  assume "\<forall>c \<in> set (entries bc). ce_open_cnt c = 0"
  then show "\<forall>s. cpin bc s = 0" by (auto simp: cpin_def dest!: centry_SomeD split: option.split)
next
  assume z: "\<forall>s. cpin bc s = 0"
  show "\<forall>c \<in> set (entries bc). ce_open_cnt c = 0"
  proof
    fix c assume "c \<in> set (entries bc)"
    then obtain k where "k < length (entries bc)" "entries bc ! k = c" by (auto simp: in_set_conv_nth)
    then have "centry (entries bc) (ce_sector c) = Some c"
      using centry_nth[of "entries bc" k] assms by (auto simp: cache_ok_def)
    then show "ce_open_cnt c = 0" using z[rule_format, of "ce_sector c"] by (simp add: cpin_def)
  qed
qed

text \<open>
  What \<open>inode_read_at\<close> and \<open>inode_write_at\<close> do with a sector: pin its entry, copy bytes
  from or to its block, and give the entry back.
\<close>

definition cache_copy_out :: "u32 \<Rightarrow> nat \<Rightarrow> nat \<Rightarrow> bcache \<Rightarrow> (u8 list \<times> bcache) option" where
  "cache_copy_out sector ofs n bc = do {
     (k, bc) \<leftarrow> filesys_cache_block_get sector False bc;
     let c = entries bc ! k;
     let bytes = get_bytes ofs n (ce_block c);
     let c = c\<lparr>ce_accessed := True, ce_open_cnt := ce_open_cnt c - 1\<rparr>;
     Some (bytes, bc\<lparr>entries := (entries bc)[k := c]\<rparr>)
   }"

definition cache_copy_in :: "u32 \<Rightarrow> nat \<Rightarrow> u8 list \<Rightarrow> bcache \<Rightarrow> bcache option" where
  "cache_copy_in sector ofs bytes bc = do {
     (k, bc) \<leftarrow> filesys_cache_block_get sector True bc;
     let c = entries bc ! k;
     let c = c\<lparr>ce_block := put_bytes ofs bytes (ce_block c), ce_accessed := True, ce_dirty := True,
               ce_open_cnt := ce_open_cnt c - 1\<rparr>;
     Some (bc\<lparr>entries := (entries bc)[k := c]\<rparr>)
   }"

lemma release_entry:
  assumes l: "loaded bc sector dirty k bc1" and ok: "cache_idle bc"
    and c: "ce_sector c = sector" "ce_open_cnt c = ce_open_cnt (entries bc1 ! k) - 1"
      "length (ce_block c) = 512" "ce_dirty c \<or> ce_block c = ce_block (entries bc1 ! k) \<and> \<not> ce_dirty (entries bc1 ! k)"
  shows "cache_idle (bc1\<lparr>entries := (entries bc1)[k := c]\<rparr>)"
    "cview (bc1\<lparr>entries := (entries bc1)[k := c]\<rparr>) = (cview bc)(sector := ce_block c)"
    "bd_size (dev (bc1\<lparr>entries := (entries bc1)[k := c]\<rparr>)) = bd_size (dev bc)"
    "cached (bc1\<lparr>entries := (entries bc1)[k := c]\<rparr>) \<subseteq> insert sector (cached bc)"
    "\<forall>s. s \<notin> cached bc \<longrightarrow> bd_data (dev (bc1\<lparr>entries := (entries bc1)[k := c]\<rparr>)) s = bd_data (dev bc) s"
proof -
  let ?bc = "bc1\<lparr>entries := (entries bc1)[k := c]\<rparr>"
  have b: "cache_ok bc1" "cache_frame bc bc1" "k < length (entries bc1)"
    "ce_sector (entries bc1 ! k) = sector" "cview bc1 = cview bc"
    "cpin bc1 = (cpin bc)(sector := cpin bc sector + 1)"
    using l by (simp_all add: loaded_def)
  have dis: "distinct (map ce_sector (entries bc1))" using b(1) by (simp add: cache_ok_def)
  have z: "\<forall>s. cpin bc s = 0" using ok cpin_zero_iff unfolding cache_idle_def by blast
  have one: "ce_open_cnt (entries bc1 ! k) = 1"
    using cpin_nth[of bc1 k]  b dis z by simp
  have e1: "entry_ok (dev bc1) (entries bc1 ! k)" using cache_ok_nth[OF b(1,3)] .
  have e: "entry_ok (dev bc1) c" using e1 c b one by (auto simp: entry_ok_def)
  have ok': "cache_ok ?bc" using cache_ok_replace[OF b(1,3) e] b c by simp
  have cen: "centry ((entries bc1)[k := c]) = (centry (entries bc1))(sector \<mapsto> c)"
    using centry_replace[OF b(1,3), of c] b c by (simp add: fun_eq_iff)
  have pins: "cpin ?bc s = 0" for s
    using z b one c cen by (auto simp: cpin_def fun_eq_iff split: option.splits if_splits)
  then show "cache_idle ?bc"
    using ok ok' cpin_zero_iff[OF ok'] b by (simp add: cache_idle_def cache_frame_def)
  show "cview ?bc = (cview bc)(sector := ce_block c)"
    unfolding b(5)[symmetric] using cen by (auto simp: cview_def fun_eq_iff split: option.split)
  show "bd_size (dev ?bc) = bd_size (dev bc)" using b by (simp add: cache_frame_def)
  have "cached ?bc \<subseteq> insert sector (cached bc1)"
    using c(1) sectors_update[of "entries bc1" k c] by (simp add: cached_def)
  moreover have "cached bc1 \<subseteq> insert sector (cached bc)" using l by (simp add: loaded_def)
  ultimately show "cached ?bc \<subseteq> insert sector (cached bc)" by blast
  show "\<forall>s. s \<notin> cached bc \<longrightarrow> bd_data (dev ?bc) s = bd_data (dev bc) s"
    using l by (simp add: loaded_def)
qed

lemma cache_copy_out_ok:
  assumes "cache_idle bc" "sector < bd_size (dev bc)"
  obtains bc' where "cache_copy_out sector ofs n bc = Some (get_bytes ofs n (cview bc sector), bc')"
    "cache_idle bc'" "cview bc' = cview bc" "bd_size (dev bc') = bd_size (dev bc)"
    "cached bc' \<subseteq> insert sector (cached bc)"
    "\<forall>s. s \<notin> cached bc \<longrightarrow> bd_data (dev bc') s = bd_data (dev bc) s"
proof -
  obtain k bc1 where g: "filesys_cache_block_get sector False bc = Some (k, bc1)"
    "loaded bc sector False k bc1"
    using block_get_loaded[of bc sector False] assms cache_idle_room by (auto simp: cache_idle_def)
  let ?c = "(entries bc1 ! k)\<lparr>ce_accessed := True, ce_open_cnt := ce_open_cnt (entries bc1 ! k) - 1\<rparr>"
  have l: "cache_ok bc1" "k < length (entries bc1)" "ce_sector (entries bc1 ! k) = sector"
    "cview bc1 = cview bc" using g(2) by (simp_all add: loaded_def)
  have v: "cview bc sector = ce_block (entries bc1 ! k)"
    using cview_nth[of bc1 k] l by (simp add: cache_ok_def)
  have e1: "length (ce_block (entries bc1 ! k)) = 512"
    using cache_ok_nth[OF l(1,2)] by (simp add: entry_ok_def)
  note r = release_entry[OF g(2) assms(1), of ?c]
  show ?thesis
    by (rule that[of "bc1\<lparr>entries := (entries bc1)[k := ?c]\<rparr>"])
      (use g(1) l v r e1 in \<open>simp_all add: cache_copy_out_def Let_def fun_upd_idem\<close>)
qed

lemma cache_copy_in_ok:
  assumes "cache_idle bc" "sector < bd_size (dev bc)" "ofs + length bytes \<le> 512"
  obtains bc' where "cache_copy_in sector ofs bytes bc = Some bc'" "cache_idle bc'"
    "cview bc' = (cview bc)(sector := put_bytes ofs bytes (cview bc sector))"
    "bd_size (dev bc') = bd_size (dev bc)" "cached bc' \<subseteq> insert sector (cached bc)"
    "\<forall>s. s \<notin> cached bc \<longrightarrow> bd_data (dev bc') s = bd_data (dev bc) s"
proof -
  obtain k bc1 where g: "filesys_cache_block_get sector True bc = Some (k, bc1)"
    "loaded bc sector True k bc1"
    using block_get_loaded[of bc sector True] assms cache_idle_room by (auto simp: cache_idle_def)
  let ?c = "(entries bc1 ! k)\<lparr>ce_block := put_bytes ofs bytes (ce_block (entries bc1 ! k)),
    ce_accessed := True, ce_dirty := True, ce_open_cnt := ce_open_cnt (entries bc1 ! k) - 1\<rparr>"
  have l: "cache_ok bc1" "k < length (entries bc1)" "ce_sector (entries bc1 ! k) = sector"
    "cview bc1 = cview bc" using g(2) by (simp_all add: loaded_def)
  have v: "cview bc sector = ce_block (entries bc1 ! k)"
    using cview_nth[of bc1 k] l by (simp add: cache_ok_def)
  have e1: "length (ce_block (entries bc1 ! k)) = 512"
    using cache_ok_nth[OF l(1,2)] by (simp add: entry_ok_def)
  note r = release_entry[OF g(2) assms(1), of ?c]
  show ?thesis
    by (rule that[of "bc1\<lparr>entries := (entries bc1)[k := ?c]\<rparr>"])
      (use g(1) l v r e1 assms(3) in \<open>simp_all add: cache_copy_in_def Let_def\<close>)
qed

subsection \<open>Write-back\<close>

lemma write_back_loop_ok:
  assumes "dev_ok d" "distinct (map ce_sector cs)" "\<forall>c \<in> set cs. entry_ok d c"
  shows "\<exists>d'. write_back_loop halt cs d =
      Some (if halt then [] else map (\<lambda>c. c\<lparr>ce_dirty := False\<rparr>) cs, d') \<and>
    dev_ok d' \<and> bd_size d' = bd_size d \<and>
    (\<forall>s. bd_data d' s = (case centry cs s of Some c \<Rightarrow> ce_block c | None \<Rightarrow> bd_data d s))"
  using assms
proof (induction cs arbitrary: d)
  case Nil
  then show ?case by (simp add: centry_def)
next
  case (Cons c cs)
  have c: "entry_ok d c" using Cons.prems by simp
  obtain d1 where d1: "(if ce_dirty c
      then do { d \<leftarrow> block_write (ce_sector c) (ce_block c) d; Some (c\<lparr>ce_dirty := False\<rparr>, d) }
      else Some (c, d)) = Some (c\<lparr>ce_dirty := False\<rparr>, d1)"
    "dev_ok d1" "bd_size d1 = bd_size d" "bd_data d1 = (bd_data d)(ce_sector c := ce_block c)"
  proof (cases "ce_dirty c")
    case True
    obtain d1 where "block_write (ce_sector c) (ce_block c) d = Some d1" "dev_ok d1"
      "bd_size d1 = bd_size d" "bd_data d1 = (bd_data d)(ce_sector c := ce_block c)"
      using block_write_ok c Cons.prems(1) unfolding entry_ok_def by metis
    then show ?thesis using True by (intro that[of d1]) simp_all
  next
    case False
    then show ?thesis using c Cons.prems(1) by (intro that[of d]) (simp_all add: entry_ok_def fun_upd_idem)
  qed
  have "ce_sector c' \<noteq> ce_sector c" if "c' \<in> set cs" for c'
    using distinct_map_neq[OF Cons.prems(2) that] .
  then have "\<forall>c' \<in> set cs. entry_ok d1 c'"
    using Cons.prems(3) d1(3,4) by (auto simp: entry_ok_def)
  then obtain d' where "write_back_loop halt cs d1 =
      Some (if halt then [] else map (\<lambda>c. c\<lparr>ce_dirty := False\<rparr>) cs, d')"
    "dev_ok d'" "bd_size d' = bd_size d1"
    "\<forall>s. bd_data d' s = (case centry cs s of Some c \<Rightarrow> ce_block c | None \<Rightarrow> bd_data d1 s)"
    using Cons.IH[of d1] Cons.prems d1 by auto
  moreover have "centry cs (ce_sector c) = None" using Cons.prems by (simp add: centry_None)
  ultimately show ?case using d1 by (auto simp: centry_def split: option.split)
qed

lemma write_to_disk_ok:
  assumes "cache_ok bc" "\<not> clock bc"
  obtains d where "filesys_cache_write_to_disk halt bc = Some (bc\<lparr>dev := d,
      entries := (if halt then [] else map (\<lambda>c. c\<lparr>ce_dirty := False\<rparr>) (entries bc))\<rparr>)"
    "dev_ok d" "bd_size d = bd_size (dev bc)" "bd_data d = cview bc"
proof -
  obtain d where d: "write_back_loop halt (entries bc) (dev bc) =
      Some (if halt then [] else map (\<lambda>c. c\<lparr>ce_dirty := False\<rparr>) (entries bc), d)"
    "dev_ok d" "bd_size d = bd_size (dev bc)"
    "\<forall>s. bd_data d s = (case centry (entries bc) s of Some c \<Rightarrow> ce_block c | None \<Rightarrow> bd_data (dev bc) s)"
    using write_back_loop_ok[of "dev bc" "entries bc" halt] assms(1) unfolding cache_ok_def by metis
  have "bd_data d = cview bc" using d(4) by (auto simp: cview_def)
  moreover have "filesys_cache_write_to_disk halt bc = Some (bc\<lparr>dev := d,
      entries := (if halt then [] else map (\<lambda>c. c\<lparr>ce_dirty := False\<rparr>) (entries bc))\<rparr>)"
    using d(1) assms(2)
    by (simp add: filesys_cache_write_to_disk_def cache_lock_acquire_def cache_lock_release_def)
  ultimately show ?thesis using that d by blast
qed


section \<open>Properties\<close>

definition demo_dev :: block_dev where
  "demo_dev = \<lparr>bd_name = ''hda'', bd_type = BLOCK_FILESYS, bd_size = 100,
     bd_data = (\<lambda>s. replicate 512 (ucast s)), bd_read_cnt = 0, bd_write_cnt = 0\<rparr>"

definition demo_cache :: bcache where
  "demo_cache = \<lparr>dev = demo_dev,
     entries = [\<lparr>ce_block = replicate 512 7, ce_sector = 5, ce_dirty = True, ce_accessed = True,
                 ce_open_cnt = 0\<rparr>],
     csize = 1, clock = False, mem = []\<rparr>"

lemma demo_cache_ok [simp]: "cache_ok demo_cache"
  unfolding cache_ok_def
  by (simp add: demo_cache_def demo_dev_def dev_ok_def entry_ok_def MAX_FILESYS_CACHE_SIZE_def)

lemma demo_cache_idle [simp]: "cache_idle demo_cache"
proof -
  have "\<not> clock demo_cache" "mem demo_cache = []" "\<forall>c \<in> set (entries demo_cache). ce_open_cnt c = 0"
    by (simp_all add: demo_cache_def)
  then show ?thesis by (simp add: cache_idle_def)
qed

text \<open>
  C7: \<open>filesys_cache_block_get\<close>: on a well-formed cache with the lock free and a slot that is
  free or unpinned, the call returns an entry of the requested sector, pinned once more,
  marked dirty if asked; the contents every client sees are unchanged, whatever was evicted,
  and every entry pinned before keeps its place.  No allocation that the call makes fails.
\<close>

theorem block_get_refines_view:
  assumes "cache_ok bc" "\<not> clock bc" "mem bc = []" "sector < bd_size (dev bc)"
    "block_in_cache sector bc \<noteq> None \<or> cache_room bc"
  shows "\<exists>k bc'. filesys_cache_block_get sector dirty bc = Some (k, bc') \<and> cache_ok bc' \<and> \<not> clock bc' \<and>
    cview bc' = cview bc \<and> cpin bc' = (cpin bc)(sector := cpin bc sector + 1) \<and>
    k < length (entries bc') \<and> ce_sector (entries bc' ! k) = sector \<and>
    ce_block (entries bc' ! k) = cview bc sector \<and> (dirty \<longrightarrow> ce_dirty (entries bc' ! k)) \<and>
    (\<forall>j < length (entries bc). ce_open_cnt (entries bc ! j) > 0 \<longrightarrow>
       ce_sector (entries bc' ! j) = ce_sector (entries bc ! j))"
proof -
  have "sector \<in> ce_sector ` set (entries bc) \<or> cache_room bc"
    using assms(5) by (simp add: block_in_cache_None)
  then obtain k bc' where g: "filesys_cache_block_get sector dirty bc = Some (k, bc')"
    "loaded bc sector dirty k bc'"
    using block_get_loaded[OF assms(1-4)] by metis
  then have "ce_block (entries bc' ! k) = cview bc' sector"
    using cview_nth[of bc' k] by (simp add: loaded_def cache_ok_def)
  then show ?thesis using g assms(2) unfolding loaded_def cache_frame_def by metis
qed

theorem block_get_refines_view_witness:
  "\<exists>k bc'. filesys_cache_block_get 9 True demo_cache = Some (k, bc') \<and>
     ce_block (entries bc' ! k) = replicate 512 9 \<and> cpin bc' 9 = 1"
proof -
  have "cview demo_cache 9 = replicate 512 9" "cpin demo_cache 9 = 0"
    by (simp_all add: demo_cache_def demo_dev_def cview_def cpin_def centry_def)
  moreover have "\<not> clock demo_cache" "mem demo_cache = []" "9 < bd_size (dev demo_cache)"
    "cache_room demo_cache"
    by (simp_all add: demo_cache_def demo_dev_def cache_room_def)
  ultimately show ?thesis
    using block_get_refines_view[of demo_cache 9 True] by (metis demo_cache_ok fun_upd_same add_0)
qed

text \<open>At most \<open>n\<close> passes of the loop, and the victim that a pass finds.\<close>

fun evict_passes :: "nat \<Rightarrow> cache_entry list \<Rightarrow> block_dev \<Rightarrow> (nat \<times> cache_entry list \<times> block_dev) option" where
  "evict_passes 0 cs d = None"
| "evict_passes (Suc n) cs d = do {
     (v, cs', d') \<leftarrow> evict_pass d 0 cs;
     case v of Some k \<Rightarrow> Some (k, cs', d') | None \<Rightarrow> evict_passes n cs' d'
   }"

lemma evict_passes_loop: "evict_passes n cs d = Some r \<Longrightarrow> evict_loop cs d = Some r"
  by (induction n cs d rule: evict_passes.induct)
    (auto simp: evict_loop.simps elim!: bind_SomeE split: option.splits)

definition cleared :: "cache_entry \<Rightarrow> cache_entry" where
  "cleared c = (if ce_open_cnt c > 0 then c else c\<lparr>ce_accessed := False\<rparr>)"

lemma evict_pass_victim:
  "evict_pass d i cs = Some (v, cs', d') \<Longrightarrow>
   (case v of
      None \<Rightarrow> cs' = map cleared cs \<and> d' = d \<and> (\<forall>c \<in> set cs. ce_open_cnt c > 0 \<or> ce_accessed c)
    | Some k \<Rightarrow> i \<le> k \<and> k < i + length cs \<and> \<not> ce_open_cnt (cs ! (k - i)) > 0 \<and> \<not> ce_accessed (cs ! (k - i)) \<and>
        (\<forall>j < k - i. ce_open_cnt (cs ! j) > 0 \<or> ce_accessed (cs ! j)))"
proof (induction cs arbitrary: i v cs' d')
  case (Cons c cs)
  consider (skip) "ce_open_cnt c > 0 \<or> ce_accessed c" | (stop) "\<not> ce_open_cnt c > 0" "\<not> ce_accessed c" by blast
  then show ?case
  proof cases
    case skip
    obtain cs1 where r: "evict_pass d (Suc i) cs = Some (v, cs1, d')" "cs' = cleared c # cs1"
      using Cons.prems skip by (auto simp: cleared_def elim!: bind_SomeE split: if_splits)
    show ?thesis using Cons.IH[OF r(1)] r(2) skip
      by (cases v) (auto simp: nth_Cons' Suc_le_eq Suc_diff_Suc split: nat.splits)
  next
    case stop
    then show ?thesis using Cons.prems by (auto elim!: bind_SomeE split: if_splits)
  qed
qed simp

text \<open>
  C21: The clock algorithm of \<open>filesys_cache_block_evict\<close> ends exactly when some entry is
  unpinned.  If every entry is pinned, the loop never returns.  Otherwise at most two passes over the
  entries return what the loop returns, and the victim is the first unpinned entry that has not been accessed, or, if
  all unpinned ones have, the first unpinned entry.
\<close>

theorem evict_returns_iff:
  assumes "cache_ok bc"
  shows "if \<forall>c \<in> set (entries bc). ce_open_cnt c > 0 then evict_loop (entries bc) (dev bc) = None
    else \<exists>k cs d. evict_loop (entries bc) (dev bc) = Some (k, cs, d) \<and> evict_passes 2 (entries bc) (dev bc) = Some (k, cs, d) \<and>
      k < length (entries bc) \<and> ce_open_cnt (entries bc ! k) = 0 \<and>
      (if \<exists>c \<in> set (entries bc). ce_open_cnt c = 0 \<and> \<not> ce_accessed c
       then \<not> ce_accessed (entries bc ! k) \<and> (\<forall>j < k. ce_open_cnt (entries bc ! j) > 0 \<or> ce_accessed (entries bc ! j))
       else \<forall>j < k. ce_open_cnt (entries bc ! j) > 0)"
proof (cases "\<forall>c \<in> set (entries bc). ce_open_cnt c > 0")
  case True
  then show ?thesis using evict_loop_spins[OF True] by simp
next
  case False
  let ?cs = "entries bc" and ?d = "dev bc"
  have ok: "dev_ok ?d" "\<forall>c \<in> set ?cs. entry_ok ?d c" using assms by (auto simp: cache_ok_def)
  have nn: "\<not> ce_open_cnt c > 0 \<longleftrightarrow> ce_open_cnt c = 0" if "c \<in> set ?cs" for c using ok(2) that by (force simp: entry_ok_def)
  obtain v cs1 d1 where p: "evict_pass ?d 0 ?cs = Some (v, cs1, d1)" using evict_pass_ok[OF ok] by metis
  show ?thesis
  proof (cases v)
    case (Some k)
    have 2: "evict_passes 2 ?cs ?d = Some (k, cs1, d1)" using p Some by (simp add: numeral_2_eq_2)
    have v: "k < length ?cs" "\<not> ce_open_cnt (?cs ! k) > 0" "\<not> ce_accessed (?cs ! k)"
      "\<forall>j < k. ce_open_cnt (?cs ! j) > 0 \<or> ce_accessed (?cs ! j)"
      using evict_pass_victim[OF p] Some by simp_all
    have "ce_open_cnt (?cs ! k) = 0" using v(1,2) nn by simp
    moreover have "\<exists>c \<in> set ?cs. ce_open_cnt c = 0 \<and> \<not> ce_accessed c"
      using v(1,3) calculation by (intro bexI[of _ "?cs ! k"]) simp_all
    ultimately show ?thesis
      using False v evict_passes_loop[OF 2] 2 by (simp only: if_False if_True) blast
  next
    case None
    have a: "cs1 = map cleared ?cs" "d1 = ?d" "\<forall>c \<in> set ?cs. ce_open_cnt c > 0 \<or> ce_accessed c"
      using evict_pass_victim[OF p] None by simp_all
    have "map strip cs1 = map strip ?cs" by (simp add: a(1) cleared_def strip_def)
    then have "\<forall>c \<in> set cs1. entry_ok ?d c" using strip_eq_entry_ok ok(2) by blast
    then obtain v2 cs2 d2 where q: "evict_pass ?d 0 cs1 = Some (v2, cs2, d2)" using evict_pass_ok[OF ok(1)] by metis
    have na: "\<not> ce_accessed c" if "c \<in> set cs1" "\<not> ce_open_cnt c > 0" for c using that by (auto simp: a(1) cleared_def split: if_splits)
    have cl: "ce_open_cnt (cleared c) = ce_open_cnt c" for c by (simp add: cleared_def)
    obtain c where c: "c \<in> set ?cs" "\<not> ce_open_cnt c > 0" using False by blast
    then have "cleared c \<in> set cs1" "\<not> ce_open_cnt (cleared c) > 0" by (simp_all add: a(1) cl)
    then have "v2 \<noteq> None" using evict_pass_victim[OF q] na[of "cleared c"] by (cases v2) auto
    then obtain k where k: "v2 = Some k" by blast
    have 2: "evict_passes 2 ?cs ?d = Some (k, cs2, d2)" using p q k None a(2) by (simp add: numeral_2_eq_2)
    have v: "k < length ?cs" "\<not> ce_open_cnt (?cs ! k) > 0" using evict_pass_victim[OF q] k by (auto simp: a(1) cl)
    have pin: "ce_open_cnt (?cs ! j) > 0" if "j < k" for j
    proof (rule ccontr)
      assume np: "\<not> ce_open_cnt (?cs ! j) > 0"
      have j: "j < length ?cs" using that v(1) by simp
      then have "cs1 ! j \<in> set cs1" "ce_open_cnt (cs1 ! j) = ce_open_cnt (?cs ! j)" by (simp_all add: a(1) cl)
      then show False using evict_pass_victim[OF q] k that np na[of "cs1 ! j"] by auto
    qed
    have "\<not> (\<exists>c \<in> set ?cs. ce_open_cnt c = 0 \<and> \<not> ce_accessed c)" using a(3) nn by force
    moreover have "ce_open_cnt (?cs ! k) = 0" using v nn by simp
    ultimately show ?thesis
      using False v(1) pin evict_passes_loop[OF 2] 2 by (simp only: if_False) blast
  qed
qed

theorem evict_returns_iff_witness: "\<exists>k cs d. evict_passes 2 (entries demo_cache) (dev demo_cache) = Some (k, cs, d)"
proof -
  have "\<not> (\<forall>c \<in> set (entries demo_cache). ce_open_cnt c > 0)" by (simp add: demo_cache_def)
  then show ?thesis using evict_returns_iff[OF demo_cache_ok] by (simp only: if_False) blast
qed

text \<open>
  \<open>filesys_cache_write_to_disk\<close> makes the device hold what the clients see, leaves only
  clean entries and, on halt, none; the view does not change.
\<close>

theorem write_to_disk_durable:
  assumes "cache_ok bc" "\<not> clock bc"
  shows "\<exists>bc'. filesys_cache_write_to_disk halt bc = Some bc' \<and> \<not> clock bc' \<and>
    bd_data (dev bc') = cview bc \<and> cview bc' = cview bc \<and>
    (\<forall>c \<in> set (entries bc'). \<not> ce_dirty c) \<and> (halt \<longrightarrow> entries bc' = []) \<and>
    (\<not> halt \<longrightarrow> cache_ok bc')"
proof -
  obtain d where d: "filesys_cache_write_to_disk halt bc = Some (bc\<lparr>dev := d,
      entries := (if halt then [] else map (\<lambda>c. c\<lparr>ce_dirty := False\<rparr>) (entries bc))\<rparr>)" (is "_ = Some ?bc")
    "dev_ok d" "bd_size d = bd_size (dev bc)" "bd_data d = cview bc"
    using write_to_disk_ok[OF assms] .
  have cen: "centry (map (\<lambda>c. c\<lparr>ce_dirty := False\<rparr>) cs) s =
      map_option (\<lambda>c. c\<lparr>ce_dirty := False\<rparr>) (centry cs s)" for cs s
    by (induction cs) (auto simp: centry_def)
  have v: "cview ?bc = cview bc"
    using d(4) cen by (auto simp: cview_def fun_eq_iff centry_def split: option.split)
  have sec: "map ce_sector (map (\<lambda>c. c\<lparr>ce_dirty := False\<rparr>) (entries bc)) = map ce_sector (entries bc)"
    by simp
  have blk: "ce_block c = cview bc (ce_sector c)" if "c \<in> set (entries bc)" for c
    using that cview_nth[of bc] assms(1) by (auto simp: in_set_conv_nth cache_ok_def)
  have "cache_ok ?bc" if "\<not> halt"
    using that assms(1) d blk sec by (auto simp: cache_ok_def entry_ok_def comp_def)
  then show ?thesis using d v assms(2) by auto
qed

theorem write_to_disk_durable_witness:
  "\<exists>bc'. filesys_cache_write_to_disk True demo_cache = Some bc' \<and> entries bc' = [] \<and>
     bd_data (dev bc') 5 = replicate 512 7"
proof -
  have "cview demo_cache 5 = replicate 512 7" "\<not> clock demo_cache"
    by (simp_all add: demo_cache_def cview_def centry_def)
  then show ?thesis using write_to_disk_durable[of demo_cache True] by (metis demo_cache_ok)
qed

text \<open>
  \<open>thread_func_read_ahead\<close> brings an uncached sector in without changing the view, but
  never gives back the pin \<open>filesys_cache_block_evict\<close> took for it: the entry stays pinned.
\<close>

theorem read_ahead_leaves_pin:
  assumes "cache_ok bc" "\<not> clock bc" "mem bc = []" "sector < bd_size (dev bc)"
    "block_in_cache sector bc = None" "cache_room bc"
  shows "\<exists>bc'. thread_func_read_ahead sector bc = Some bc' \<and> cache_ok bc' \<and> cview bc' = cview bc \<and>
    cpin bc' = (cpin bc)(sector := 1)"
proof -
  let ?bc = "bc\<lparr>clock := True\<rparr>"
  have out: "sector \<notin> ce_sector ` set (entries ?bc)" using assms(5) by (simp add: block_in_cache_None)
  have "cache_room ?bc" using assms(6) by (simp add: cache_room_def)
  then obtain k bc' where e: "filesys_cache_block_evict sector False ?bc = Some (Some k, bc')"
    "loaded ?bc sector False k bc'"
    using block_evict_loaded[OF _ _ _ out, of False] assms by auto
  have "cpin bc sector = 0" using out by (simp add: cpin_def flip: centry_None)
  then show ?thesis
    using e assms(2,5) by (auto simp: thread_func_read_ahead_def cache_lock_acquire_def
      cache_lock_release_def loaded_def cache_frame_def block_in_cache_def)
qed

theorem read_ahead_leaves_pin_witness:
  "\<exists>bc'. thread_func_read_ahead 8 demo_cache = Some bc' \<and> cpin bc' 8 = 1"
proof -
  have "\<not> clock demo_cache" "mem demo_cache = []" "8 < bd_size (dev demo_cache)"
    "block_in_cache 8 demo_cache = None" "cache_room demo_cache"
    by (simp_all add: demo_cache_def demo_dev_def block_in_cache_def cache_room_def MAX_FILESYS_CACHE_SIZE_def)
  then show ?thesis using read_ahead_leaves_pin[OF demo_cache_ok] by (metis fun_upd_same)
qed

end
