(* ===== verification/KBitmap.thy ===== *)
theory KBitmap imports OS_Prelude begin

unbundle bit_operations_syntax

text \<open>
  The kernel bitmap, \<open>lib/kernel/bitmap.c\<close>: a record of a bit count and an array of
  32-bit elements (\<open>unsigned long\<close> on the 32-bit target), with the shifts and masks of the
  code.  \<open>size_t\<close> values are naturals below \<open>2 ^ 32\<close>; the sums the code forms are
  \<open>size_add\<close>, which wraps.  A failed \<open>ASSERT\<close> and an access past the element array are
  \<open>None\<close>.  The abstraction \<open>bitmap_abs\<close> is the list of booleans a client sees; the lemmas
  relate every operation to it.
\<close>

section \<open>Representation\<close>

definition SIZE_MAX :: nat where
  "SIZE_MAX = 2 ^ 32 - 1"

definition size_add :: "nat \<Rightarrow> nat \<Rightarrow> nat" where
  "size_add a b = (a + b) mod 2 ^ 32"

lemma size_add_small [simp]: "a + b < 2 ^ 32 \<Longrightarrow> size_add a b = a + b"
  by (simp add: size_add_def)

definition BITMAP_ERROR :: nat where
  "BITMAP_ERROR = SIZE_MAX"

definition ELEM_BITS :: nat where
  "ELEM_BITS = 32"

record bitmap =
  bit_cnt :: nat
  bits :: "u32 list"

definition elem_idx :: "nat \<Rightarrow> nat" where
  "elem_idx bit_idx = bit_idx div ELEM_BITS"

definition bit_mask :: "nat \<Rightarrow> u32" where
  "bit_mask bit_idx = push_bit (bit_idx mod ELEM_BITS) 1"

definition elem_cnt :: "nat \<Rightarrow> nat" where
  "elem_cnt n = size_add n (ELEM_BITS - 1) div ELEM_BITS"

definition byte_cnt :: "nat \<Rightarrow> nat" where
  "byte_cnt n = 4 * elem_cnt n"

definition last_mask :: "bitmap \<Rightarrow> u32" where
  "last_mask b =
     (let last_bits = bit_cnt b mod ELEM_BITS
      in if last_bits \<noteq> 0 then push_bit last_bits 1 - 1 else - 1)"

section \<open>Operations\<close>

definition bitmap_size :: "bitmap \<Rightarrow> nat" where
  "bitmap_size b = bit_cnt b"

definition bitmap_mark :: "bitmap \<Rightarrow> nat \<Rightarrow> bitmap option" where
  "bitmap_mark b bit_idx = (let idx = elem_idx bit_idx; mask = bit_mask bit_idx in do {
     ASSERT (idx < length (bits b));
     Some (b\<lparr>bits := (bits b)[idx := bits b ! idx OR mask]\<rparr>)
   })"

definition bitmap_reset :: "bitmap \<Rightarrow> nat \<Rightarrow> bitmap option" where
  "bitmap_reset b bit_idx = (let idx = elem_idx bit_idx; mask = bit_mask bit_idx in do {
     ASSERT (idx < length (bits b));
     Some (b\<lparr>bits := (bits b)[idx := bits b ! idx AND NOT mask]\<rparr>)
   })"

definition bitmap_flip :: "bitmap \<Rightarrow> nat \<Rightarrow> bitmap option" where
  "bitmap_flip b bit_idx = (let idx = elem_idx bit_idx; mask = bit_mask bit_idx in do {
     ASSERT (idx < length (bits b));
     Some (b\<lparr>bits := (bits b)[idx := bits b ! idx XOR mask]\<rparr>)
   })"

definition bitmap_set :: "bitmap \<Rightarrow> nat \<Rightarrow> bool \<Rightarrow> bitmap option" where
  "bitmap_set b idx value = do {
     ASSERT (idx < bit_cnt b);
     if value then bitmap_mark b idx else bitmap_reset b idx
   }"

definition bitmap_test :: "bitmap \<Rightarrow> nat \<Rightarrow> bool option" where
  "bitmap_test b idx = do {
     ASSERT (idx < bit_cnt b);
     ASSERT (elem_idx idx < length (bits b));
     Some (bits b ! elem_idx idx AND bit_mask idx \<noteq> 0)
   }"

fun bitmap_set_loop :: "bitmap \<Rightarrow> nat \<Rightarrow> nat \<Rightarrow> bool \<Rightarrow> bitmap option" where
  "bitmap_set_loop b idx 0 value = Some b"
| "bitmap_set_loop b idx (Suc n) value = do {
     b' \<leftarrow> bitmap_set b idx value;
     bitmap_set_loop b' (size_add idx 1) n value
   }"

definition bitmap_set_multiple :: "bitmap \<Rightarrow> nat \<Rightarrow> nat \<Rightarrow> bool \<Rightarrow> bitmap option" where
  "bitmap_set_multiple b start cnt value = do {
     ASSERT (start \<le> bit_cnt b);
     ASSERT (size_add start cnt \<le> bit_cnt b);
     bitmap_set_loop b start cnt value
   }"

definition bitmap_set_all :: "bitmap \<Rightarrow> bool \<Rightarrow> bitmap option" where
  "bitmap_set_all b value = bitmap_set_multiple b 0 (bitmap_size b) value"

text \<open>
  \<open>bitmap_create\<close>: \<open>m1\<close> and \<open>m2\<close> say whether the two calls of \<open>malloc\<close> succeed, \<open>junk\<close> is
  the uninitialised memory the second returns.  The outer option is the panic, the inner
  one the null pointer.
\<close>

definition bitmap_create :: "bool \<Rightarrow> bool \<Rightarrow> u32 list \<Rightarrow> nat \<Rightarrow> bitmap option option" where
  "bitmap_create m1 m2 junk n =
     (if m1 \<and> (m2 \<or> n = 0)
      then do { b \<leftarrow> bitmap_set_all \<lparr>bit_cnt = n, bits = take (elem_cnt n) junk\<rparr> False; Some (Some b) }
      else Some None)"

fun bitmap_count_loop :: "bitmap \<Rightarrow> nat \<Rightarrow> nat \<Rightarrow> bool \<Rightarrow> nat \<Rightarrow> nat option" where
  "bitmap_count_loop b idx 0 value value_cnt = Some value_cnt"
| "bitmap_count_loop b idx (Suc n) value value_cnt = do {
     t \<leftarrow> bitmap_test b idx;
     bitmap_count_loop b (size_add idx 1) n value
       (if t = value then size_add value_cnt 1 else value_cnt)
   }"

definition bitmap_count :: "bitmap \<Rightarrow> nat \<Rightarrow> nat \<Rightarrow> bool \<Rightarrow> nat option" where
  "bitmap_count b start cnt value = do {
     ASSERT (start \<le> bit_cnt b);
     ASSERT (size_add start cnt \<le> bit_cnt b);
     bitmap_count_loop b start cnt value 0
   }"

fun bitmap_contains_loop :: "bitmap \<Rightarrow> nat \<Rightarrow> nat \<Rightarrow> bool \<Rightarrow> bool option" where
  "bitmap_contains_loop b idx 0 value = Some False"
| "bitmap_contains_loop b idx (Suc n) value = do {
     t \<leftarrow> bitmap_test b idx;
     if t = value then Some True else bitmap_contains_loop b (size_add idx 1) n value
   }"

definition bitmap_contains :: "bitmap \<Rightarrow> nat \<Rightarrow> nat \<Rightarrow> bool \<Rightarrow> bool option" where
  "bitmap_contains b start cnt value = do {
     ASSERT (start \<le> bit_cnt b);
     ASSERT (size_add start cnt \<le> bit_cnt b);
     bitmap_contains_loop b start cnt value
   }"

definition bitmap_any :: "bitmap \<Rightarrow> nat \<Rightarrow> nat \<Rightarrow> bool option" where
  "bitmap_any b start cnt = bitmap_contains b start cnt True"

definition bitmap_none :: "bitmap \<Rightarrow> nat \<Rightarrow> nat \<Rightarrow> bool option" where
  "bitmap_none b start cnt = map_option Not (bitmap_contains b start cnt True)"

definition bitmap_all :: "bitmap \<Rightarrow> nat \<Rightarrow> nat \<Rightarrow> bool option" where
  "bitmap_all b start cnt = map_option Not (bitmap_contains b start cnt False)"

text \<open>The \<open>for\<close> loop of \<open>bitmap_scan\<close>; \<open>n\<close> counts the indices from \<open>i\<close> up to \<open>last\<close>.\<close>

fun bitmap_scan_loop :: "bitmap \<Rightarrow> nat \<Rightarrow> nat \<Rightarrow> nat \<Rightarrow> bool \<Rightarrow> nat option" where
  "bitmap_scan_loop b i 0 cnt value = Some BITMAP_ERROR"
| "bitmap_scan_loop b i (Suc n) cnt value = do {
     c \<leftarrow> bitmap_contains b i cnt (\<not> value);
     if \<not> c then Some i else bitmap_scan_loop b (size_add i 1) n cnt value
   }"

definition bitmap_scan :: "bitmap \<Rightarrow> nat \<Rightarrow> nat \<Rightarrow> bool \<Rightarrow> nat option" where
  "bitmap_scan b start cnt value = do {
     ASSERT (start \<le> bit_cnt b);
     if cnt \<le> bit_cnt b
     then let last = bit_cnt b - cnt in bitmap_scan_loop b start (Suc last - start) cnt value
     else Some BITMAP_ERROR
   }"

definition bitmap_scan_and_flip :: "bitmap \<Rightarrow> nat \<Rightarrow> nat \<Rightarrow> bool \<Rightarrow> (nat \<times> bitmap) option" where
  "bitmap_scan_and_flip b start cnt value = do {
     idx \<leftarrow> bitmap_scan b start cnt value;
     if idx \<noteq> BITMAP_ERROR
     then do { b' \<leftarrow> bitmap_set_multiple b idx cnt (\<not> value); Some (idx, b') }
     else Some (idx, b)
   }"

definition bitmap_file_size :: "bitmap \<Rightarrow> nat" where
  "bitmap_file_size b = byte_cnt (bit_cnt b)"

definition bitmap_buf_size :: "nat \<Rightarrow> nat" where
  "bitmap_buf_size n = size_add 8 (byte_cnt n)"

definition bitmap_create_in_buf :: "nat \<Rightarrow> u32 list \<Rightarrow> nat \<Rightarrow> bitmap option" where
  "bitmap_create_in_buf n block block_size = do {
     ASSERT (bitmap_buf_size n \<le> block_size);
     bitmap_set_all \<lparr>bit_cnt = n, bits = take (elem_cnt n) block\<rparr> False
   }"

section \<open>The abstract bitmap\<close>

definition bit_at :: "bitmap \<Rightarrow> nat \<Rightarrow> bool" where
  "bit_at b i = bit (bits b ! (i div 32)) (i mod 32)"

definition bitmap_ok :: "bitmap \<Rightarrow> bool" where
  "bitmap_ok b \<longleftrightarrow> bit_cnt b \<le> 2 ^ 32 - 32 \<and> length (bits b) = elem_cnt (bit_cnt b)"

definition bitmap_abs :: "bitmap \<Rightarrow> bool list" where
  "bitmap_abs b = map (bit_at b) [0..<bit_cnt b]"

lemma length_bitmap_abs [simp]: "length (bitmap_abs b) = bit_cnt b"
  by (simp add: bitmap_abs_def)

lemma nth_bitmap_abs [simp]: "i < bit_cnt b \<Longrightarrow> bitmap_abs b ! i = bit_at b i"
  by (simp add: bitmap_abs_def)

lemma elem_cnt_alt: "n \<le> 2 ^ 32 - 32 \<Longrightarrow> elem_cnt n = (n + 31) div 32"
  by (simp add: elem_cnt_def ELEM_BITS_def)

lemma elem_idx_in_range: "bitmap_ok b \<Longrightarrow> i < bit_cnt b \<Longrightarrow> elem_idx i < length (bits b)"
  by (simp add: bitmap_ok_def elem_cnt_alt elem_idx_def ELEM_BITS_def)

lemma bit_mask_bit: "bit (bit_mask i) k \<longleftrightarrow> k = i mod 32 \<and> k < 32"
  by (auto simp: bit_mask_def ELEM_BITS_def bit_exp_iff)

lemma and_bit_mask: "(w AND bit_mask i \<noteq> 0) = bit w (i mod 32)"
proof -
  have "w AND bit_mask i = (if bit w (i mod 32) then bit_mask i else 0)"
    by (rule bit_eqI) (auto simp: bit_and_iff bit_mask_bit)
  moreover have "bit_mask i \<noteq> 0"
  proof
    assume "bit_mask i = 0"
    then have "\<not> bit (bit_mask i) (i mod 32)" by simp
    then show False by (simp add: bit_mask_bit)
  qed
  ultimately show ?thesis by simp
qed

lemma bitmap_test_ok: "bitmap_ok b \<Longrightarrow> i < bit_cnt b \<Longrightarrow> bitmap_test b i = Some (bit_at b i)"
  using elem_idx_in_range[of b i]
  by (simp add: bitmap_test_def and_bit_mask bit_at_def elem_idx_def ELEM_BITS_def)

lemma bitmap_set_ok:
  assumes "bitmap_ok b" "i < bit_cnt b"
  obtains b' where "bitmap_set b i v = Some b'" "bitmap_ok b'" "bit_cnt b' = bit_cnt b"
    "bitmap_abs b' = (bitmap_abs b)[i := v]"
proof -
  let ?w = "if v then bits b ! elem_idx i OR bit_mask i else bits b ! elem_idx i AND NOT (bit_mask i)"
  let ?b' = "b\<lparr>bits := (bits b)[elem_idx i := ?w]\<rparr>"
  note r = elem_idx_in_range[OF assms]
  have s: "bitmap_set b i v = Some ?b'"
    using assms r by (simp add: bitmap_set_def bitmap_mark_def bitmap_reset_def Let_def)
  have at: "bit_at ?b' k = (if k = i then v else bit_at b k)" if "k < bit_cnt b" for k
  proof (cases "k div 32 = i div 32")
    case True
    then have "k mod 32 = i mod 32 \<longleftrightarrow> k = i" by (metis div_mult_mod_eq)
    then show ?thesis using True r
      by (auto simp: bit_at_def elem_idx_def ELEM_BITS_def bit_or_iff bit_and_iff bit_not_iff bit_mask_bit)
  next
    case False
    then have "k \<noteq> i" by auto
    then show ?thesis using False r by (simp add: bit_at_def elem_idx_def ELEM_BITS_def)
  qed
  have "bitmap_abs ?b' = (bitmap_abs b)[i := v]"
    using at by (intro nth_equalityI) (auto simp: nth_list_update)
  moreover have "bitmap_ok ?b'" using assms(1) by (simp add: bitmap_ok_def)
  ultimately show ?thesis using that[OF s] by simp
qed

lemma bitmap_set_loop_ok:
  assumes "bitmap_ok b" "idx + n \<le> bit_cnt b"
  obtains b' where "bitmap_set_loop b idx n v = Some b'" "bitmap_ok b'" "bit_cnt b' = bit_cnt b"
    "bitmap_abs b' = put_bytes idx (replicate n v) (bitmap_abs b)"
  using assms
proof (induction n arbitrary: b idx thesis)
  case 0
  then show ?case by simp
next
  case (Suc n)
  obtain b1 where b1: "bitmap_set b idx v = Some b1" "bitmap_ok b1" "bit_cnt b1 = bit_cnt b"
    "bitmap_abs b1 = (bitmap_abs b)[idx := v]"
    using bitmap_set_ok[of b idx v] Suc.prems by auto
  have sa: "size_add idx 1 = Suc idx" using Suc.prems by (simp add: bitmap_ok_def)
  have "Suc idx + n \<le> bit_cnt b1" using Suc.prems b1 by simp
  then obtain b' where b': "bitmap_set_loop b1 (Suc idx) n v = Some b'" "bitmap_ok b'"
    "bit_cnt b' = bit_cnt b1" "bitmap_abs b' = put_bytes (Suc idx) (replicate n v) (bitmap_abs b1)"
    using Suc.IH[of b1 "Suc idx"] b1(2) by blast
  have "bitmap_abs b' = put_bytes idx (replicate (Suc n) v) (bitmap_abs b)"
    using Suc.prems by (intro nth_equalityI) (auto simp: b' b1 nth_put_bytes nth_list_update nth_Cons')
  then show ?case using Suc.prems(1)[of b'] b1 b' sa by simp
qed

lemma bitmap_set_multiple_ok:
  assumes "bitmap_ok b" "start + cnt \<le> bit_cnt b"
  obtains b' where "bitmap_set_multiple b start cnt v = Some b'" "bitmap_ok b'" "bit_cnt b' = bit_cnt b"
    "bitmap_abs b' = put_bytes start (replicate cnt v) (bitmap_abs b)"
proof -
  have "start + cnt < 2 ^ 32" using assms by (simp add: bitmap_ok_def)
  then have "bitmap_set_multiple b start cnt v = bitmap_set_loop b start cnt v"
    using assms by (simp add: bitmap_set_multiple_def)
  then show ?thesis using bitmap_set_loop_ok[OF assms] that by metis
qed

lemma bitmap_count_loop_ok:
  assumes "bitmap_ok b" "idx + n \<le> bit_cnt b" "acc + n < 2 ^ 32"
  shows "bitmap_count_loop b idx n v acc =
    Some (acc + length (filter (\<lambda>x. x = v) (get_bytes idx n (bitmap_abs b))))"
  using assms
proof (induction n arbitrary: idx acc)
  case (Suc n)
  have sa: "size_add idx 1 = Suc idx" using Suc.prems by (simp add: bitmap_ok_def)
  have "get_bytes idx (Suc n) (bitmap_abs b) = bit_at b idx # get_bytes (Suc idx) n (bitmap_abs b)"
    using Suc.prems by (simp add: get_bytes_def flip: Cons_nth_drop_Suc)
  moreover have "bitmap_test b idx = Some (bit_at b idx)"
    using Suc.prems by (simp add: bitmap_test_ok)
  moreover have "bitmap_count_loop b (Suc idx) n v acc' =
      Some (acc' + length (filter (\<lambda>x. x = v) (get_bytes (Suc idx) n (bitmap_abs b))))"
    if "acc' \<le> Suc acc" for acc'
    using Suc.prems that by (intro Suc.IH) auto
  moreover have "size_add acc 1 = Suc acc" using Suc.prems by simp
  ultimately show ?case using sa by simp
qed (simp add: get_bytes_def)

lemma bitmap_count_ok:
  assumes "bitmap_ok b" "start + cnt \<le> bit_cnt b"
  shows "bitmap_count b start cnt v =
    Some (length (filter (\<lambda>x. x = v) (get_bytes start cnt (bitmap_abs b))))"
  using assms bitmap_count_loop_ok[OF assms, of 0 v] by (simp add: bitmap_count_def bitmap_ok_def)

lemma bitmap_contains_loop_ok:
  assumes "bitmap_ok b" "idx + n \<le> bit_cnt b"
  shows "bitmap_contains_loop b idx n v = Some (\<exists>k < n. bitmap_abs b ! (idx + k) = v)"
  using assms
proof (induction n arbitrary: idx)
  case (Suc n)
  have sa: "size_add idx 1 = Suc idx" using Suc.prems by (simp add: bitmap_ok_def)
  have "(\<exists>k < Suc n. bitmap_abs b ! (idx + k) = v) \<longleftrightarrow>
        bitmap_abs b ! idx = v \<or> (\<exists>k < n. bitmap_abs b ! (Suc idx + k) = v)"
    by (subst Ex_less_Suc2) simp
  then show ?case using Suc sa by (simp add: bitmap_test_ok)
qed simp

lemma bitmap_contains_ok:
  assumes "bitmap_ok b" "start + cnt \<le> bit_cnt b"
  shows "bitmap_contains b start cnt v = Some (\<exists>k < cnt. bitmap_abs b ! (start + k) = v)"
  using assms bitmap_contains_loop_ok[OF assms] by (simp add: bitmap_contains_def bitmap_ok_def)

lemma bitmap_all_ok:
  assumes "bitmap_ok b" "start + cnt \<le> bit_cnt b"
  shows "bitmap_all b start cnt = Some (\<forall>k < cnt. bitmap_abs b ! (start + k))"
  using assms by (simp add: bitmap_all_def bitmap_contains_ok)

text \<open>\<open>is_run xs i cnt v\<close>: the \<open>cnt\<close> bits from index \<open>i\<close> on exist and all equal \<open>v\<close>.\<close>

definition is_run :: "bool list \<Rightarrow> nat \<Rightarrow> nat \<Rightarrow> bool \<Rightarrow> bool" where
  "is_run xs i cnt v \<longleftrightarrow> i + cnt \<le> length xs \<and> (\<forall>k < cnt. xs ! (i + k) = v)"

lemma bitmap_scan_loop_ok:
  assumes "bitmap_ok b" "n = 0 \<or> i + n + cnt \<le> Suc (bit_cnt b)"
  shows "\<exists>r. bitmap_scan_loop b i n cnt v = Some r \<and>
    (r = BITMAP_ERROR \<and> (\<forall>j. i \<le> j \<and> j < i + n \<longrightarrow> \<not> is_run (bitmap_abs b) j cnt v) \<or>
     i \<le> r \<and> r < i + n \<and> is_run (bitmap_abs b) r cnt v \<and>
       (\<forall>j. i \<le> j \<and> j < r \<longrightarrow> \<not> is_run (bitmap_abs b) j cnt v))"
  using assms
proof (induction n arbitrary: i)
  case (Suc n)
  have c: "bitmap_contains b i cnt (\<not> v) = Some (\<not> is_run (bitmap_abs b) i cnt v)"
    using Suc.prems by (subst bitmap_contains_ok) (auto simp: is_run_def)
  show ?case
  proof (cases "is_run (bitmap_abs b) i cnt v")
    case True
    then show ?thesis using c by auto
  next
    case False
    have step: "n = 0 \<or> size_add i 1 = Suc i" using Suc.prems by (auto simp: bitmap_ok_def)
    have "n = 0 \<or> Suc i + n + cnt \<le> Suc (bit_cnt b)" using Suc.prems by auto
    from Suc.IH[OF Suc.prems(1) this] obtain r where r:
      "bitmap_scan_loop b (Suc i) n cnt v = Some r"
      "r = BITMAP_ERROR \<and> (\<forall>j. Suc i \<le> j \<and> j < Suc i + n \<longrightarrow> \<not> is_run (bitmap_abs b) j cnt v) \<or>
       Suc i \<le> r \<and> r < Suc i + n \<and> is_run (bitmap_abs b) r cnt v \<and>
         (\<forall>j. Suc i \<le> j \<and> j < r \<longrightarrow> \<not> is_run (bitmap_abs b) j cnt v)" by blast
    have "bitmap_scan_loop b i (Suc n) cnt v = Some r"
      using c False step r(1) by (cases "n = 0") auto
    moreover have from_i: "\<not> is_run (bitmap_abs b) j cnt v"
      if "\<forall>j. Suc i \<le> j \<and> j < m \<longrightarrow> \<not> is_run (bitmap_abs b) j cnt v" "i \<le> j" "j < m" for m j
      using that False by (cases "j = i") auto
    from r(2) have "r = BITMAP_ERROR \<and> (\<forall>j. i \<le> j \<and> j < i + Suc n \<longrightarrow> \<not> is_run (bitmap_abs b) j cnt v) \<or>
      i \<le> r \<and> r < i + Suc n \<and> is_run (bitmap_abs b) r cnt v \<and>
       (\<forall>j. i \<le> j \<and> j < r \<longrightarrow> \<not> is_run (bitmap_abs b) j cnt v)"
    proof
      assume "r = BITMAP_ERROR \<and> (\<forall>j. Suc i \<le> j \<and> j < Suc i + n \<longrightarrow> \<not> is_run (bitmap_abs b) j cnt v)"
      then show ?thesis using from_i[of "Suc i + n"] by simp
    next
      assume "Suc i \<le> r \<and> r < Suc i + n \<and> is_run (bitmap_abs b) r cnt v \<and>
         (\<forall>j. Suc i \<le> j \<and> j < r \<longrightarrow> \<not> is_run (bitmap_abs b) j cnt v)"
      then show ?thesis using from_i[of r] by simp
    qed
    ultimately show ?thesis by blast
  qed
qed auto

lemma bitmap_scan_ok:
  assumes "bitmap_ok b" "start \<le> bit_cnt b"
  obtains r where "bitmap_scan b start cnt v = Some r"
    "r = BITMAP_ERROR \<and> (\<forall>j. start \<le> j \<longrightarrow> \<not> is_run (bitmap_abs b) j cnt v) \<or>
     r \<noteq> BITMAP_ERROR \<and> start \<le> r \<and> is_run (bitmap_abs b) r cnt v \<and>
       (\<forall>j. start \<le> j \<and> j < r \<longrightarrow> \<not> is_run (bitmap_abs b) j cnt v)"
proof (cases "cnt \<le> bit_cnt b")
  case False
  then show ?thesis using assms that[of BITMAP_ERROR] by (auto simp: bitmap_scan_def is_run_def)
next
  case True
  let ?n = "Suc (bit_cnt b - cnt) - start"
  have "?n = 0 \<or> start + ?n + cnt \<le> Suc (bit_cnt b)" using True by auto
  from bitmap_scan_loop_ok[OF assms(1) this, of v] obtain r where
    r: "bitmap_scan_loop b start ?n cnt v = Some r"
    "r = BITMAP_ERROR \<and> (\<forall>j. start \<le> j \<and> j < start + ?n \<longrightarrow> \<not> is_run (bitmap_abs b) j cnt v) \<or>
     start \<le> r \<and> r < start + ?n \<and> is_run (bitmap_abs b) r cnt v \<and>
       (\<forall>j. start \<le> j \<and> j < r \<longrightarrow> \<not> is_run (bitmap_abs b) j cnt v)" by blast
  have "is_run (bitmap_abs b) j cnt v \<Longrightarrow> start \<le> j \<Longrightarrow> j < start + ?n" for j
    using True by (auto simp: is_run_def)
  moreover have "r \<noteq> BITMAP_ERROR" if "r < start + ?n"
    using that assms True by (auto simp: BITMAP_ERROR_def SIZE_MAX_def bitmap_ok_def)
  moreover have "bitmap_scan b start cnt v = Some r"
    using r(1) assms(2) True by (simp add: bitmap_scan_def Let_def)
  ultimately show ?thesis using r(2) that by blast
qed

lemma bitmap_scan_and_flip_ok:
  assumes "bitmap_ok b" "start \<le> bit_cnt b"
  obtains r b' where "bitmap_scan_and_flip b start cnt v = Some (r, b')"
    "bitmap_ok b'" "bit_cnt b' = bit_cnt b"
    "r = BITMAP_ERROR \<and> b' = b \<and> (\<forall>j. start \<le> j \<longrightarrow> \<not> is_run (bitmap_abs b) j cnt v) \<or>
     r \<noteq> BITMAP_ERROR \<and> start \<le> r \<and> is_run (bitmap_abs b) r cnt v \<and>
       bitmap_abs b' = put_bytes r (replicate cnt (\<not> v)) (bitmap_abs b) \<and>
       (\<forall>j. start \<le> j \<and> j < r \<longrightarrow> \<not> is_run (bitmap_abs b) j cnt v)"
proof -
  obtain r where r: "bitmap_scan b start cnt v = Some r"
    "r = BITMAP_ERROR \<and> (\<forall>j. start \<le> j \<longrightarrow> \<not> is_run (bitmap_abs b) j cnt v) \<or>
     r \<noteq> BITMAP_ERROR \<and> start \<le> r \<and> is_run (bitmap_abs b) r cnt v \<and>
       (\<forall>j. start \<le> j \<and> j < r \<longrightarrow> \<not> is_run (bitmap_abs b) j cnt v)"
    using bitmap_scan_ok[OF assms] by metis
  show ?thesis
  proof (cases "r = BITMAP_ERROR")
    case True
    then show ?thesis using r assms by (intro that[of r b]) (auto simp: bitmap_scan_and_flip_def)
  next
    case False
    then have "r + cnt \<le> bit_cnt b" using r(2) by (simp add: is_run_def)
    then obtain b' where "bitmap_set_multiple b r cnt (\<not> v) = Some b'" "bitmap_ok b'"
      "bit_cnt b' = bit_cnt b" "bitmap_abs b' = put_bytes r (replicate cnt (\<not> v)) (bitmap_abs b)"
      using bitmap_set_multiple_ok[OF assms(1)] by metis
    then show ?thesis using r False by (intro that[of r b']) (auto simp: bitmap_scan_and_flip_def)
  qed
qed

lemma bitmap_create_ok:
  assumes "n \<le> 2 ^ 32 - 32" "elem_cnt n \<le> length junk"
  obtains b where "bitmap_create True True junk n = Some (Some b)" "bitmap_ok b" "bit_cnt b = n"
    "bitmap_abs b = replicate n False"
proof -
  let ?b = "\<lparr>bit_cnt = n, bits = take (elem_cnt n) junk\<rparr>"
  have ok: "bitmap_ok ?b" using assms by (simp add: bitmap_ok_def)
  obtain b where b: "bitmap_set_multiple ?b 0 n False = Some b" "bitmap_ok b" "bit_cnt b = bit_cnt ?b"
    "bitmap_abs b = put_bytes 0 (replicate n False) (bitmap_abs ?b)"
    using bitmap_set_multiple_ok[OF ok, of 0 n False] by auto
  have "put_bytes 0 (replicate n False) (bitmap_abs ?b) = replicate n False"
    by (simp add: put_bytes_def)
  then show ?thesis
    using b by (intro that[of b]) (simp_all add: bitmap_create_def bitmap_set_all_def bitmap_size_def)
qed

section \<open>Properties\<close>

definition demo_bitmap :: bitmap where
  "demo_bitmap = \<lparr>bit_cnt = 40, bits = [0xFFFFFFFF, 1]\<rparr>"

lemma demo_bitmap_ok: "bitmap_ok demo_bitmap"
  by (simp add: demo_bitmap_def bitmap_ok_def elem_cnt_alt)

text \<open>
  \<open>bitmap_scan_and_flip\<close> finds the first run of \<open>cnt\<close> bits of the wanted value at or after
  \<open>start\<close>, and flips exactly that run; it returns \<open>BITMAP_ERROR\<close> and leaves the bitmap alone
  exactly if there is none.
\<close>

theorem bitmap_scan_and_flip_first_run:
  assumes "bitmap_ok b" "start \<le> bit_cnt b"
  shows "\<exists>r b'. bitmap_scan_and_flip b start cnt v = Some (r, b') \<and> bitmap_ok b' \<and> bit_cnt b' = bit_cnt b \<and>
    (if r = BITMAP_ERROR
     then b' = b \<and> (\<forall>j. start \<le> j \<longrightarrow> \<not> is_run (bitmap_abs b) j cnt v)
     else start \<le> r \<and> is_run (bitmap_abs b) r cnt v \<and>
       bitmap_abs b' = put_bytes r (replicate cnt (\<not> v)) (bitmap_abs b) \<and>
       (\<forall>j. start \<le> j \<and> j < r \<longrightarrow> \<not> is_run (bitmap_abs b) j cnt v))"
  using bitmap_scan_and_flip_ok[OF assms, of cnt v] by (smt (verit))

theorem bitmap_scan_and_flip_first_run_witness:
  "\<exists>r b'. bitmap_scan_and_flip demo_bitmap 0 2 False = Some (r, b') \<and> bit_cnt b' = 40"
  using bitmap_scan_and_flip_first_run[OF demo_bitmap_ok, of 0 2 False]
  by (auto simp: demo_bitmap_def)

text \<open>
  \<open>bitmap_set_multiple\<close> followed by \<open>bitmap_test\<close>: a bit reads back as the value just set
  inside the range and as before outside it, across element boundaries.
\<close>

theorem bitmap_set_multiple_test:
  assumes "bitmap_ok b" "start + cnt \<le> bit_cnt b" "i < bit_cnt b"
  shows "\<exists>b'. bitmap_set_multiple b start cnt v = Some b' \<and> bitmap_ok b' \<and>
    bitmap_test b' i = (if start \<le> i \<and> i < start + cnt then Some v else bitmap_test b i)"
proof -
  obtain b' where b': "bitmap_set_multiple b start cnt v = Some b'" "bitmap_ok b'" "bit_cnt b' = bit_cnt b"
    "bitmap_abs b' = put_bytes start (replicate cnt v) (bitmap_abs b)"
    using bitmap_set_multiple_ok[OF assms(1,2)] .
  have i: "i < bit_cnt b'" using b'(3) assms(3) by simp
  have t: "bitmap_test b' i = Some (bitmap_abs b' ! i)" "bitmap_test b i = Some (bitmap_abs b ! i)"
    using bitmap_test_ok[OF b'(2) i] bitmap_test_ok[OF assms(1,3)]
    by (simp_all only: nth_bitmap_abs[OF i] nth_bitmap_abs[OF assms(3)])
  have "bitmap_abs b' ! i = (if start \<le> i \<and> i < start + cnt then v else bitmap_abs b ! i)"
    using assms b'(4) by (auto simp: nth_put_bytes simp del: nth_bitmap_abs)
  then show ?thesis using b' t by simp
qed

theorem bitmap_set_multiple_test_witness:
  "\<exists>b'. bitmap_set_multiple demo_bitmap 30 5 False = Some b' \<and> bitmap_test b' 32 = Some False"
  using bitmap_set_multiple_test[OF demo_bitmap_ok, of 30 5 32 False] by (auto simp: demo_bitmap_def)

end
