(* ===== verification/KInode.thy ===== *)
theory KInode imports KCache KBitmap "HOL-Library.Signed_Division" begin

text \<open>
  The file system state, and inodes, \<open>filesys/inode.c\<close>.  \<open>off_t\<close> is a signed 32-bit
  integer: it is an \<open>int\<close>, and an expression that leaves the range (undefined in C) is the
  value \<open>None\<close>.  \<open>size_t\<close> values are naturals.  An in-memory inode is a record; pointers to
  inodes, files and directories are addresses in the maps \<open>inodes\<close> and \<open>objs\<close>.

  Growing an inode takes sectors from the free map, whose new contents are written through
  another inode.  The routines that grow an inode take the allocator as an argument
  \<open>alloc\<close>; the theory of the free map closes the recursion.
\<close>

section \<open>State\<close>

record inode =
  i_sector :: u32
  i_open_cnt :: int
  i_removed :: bool
  i_deny_write_cnt :: int
  i_length :: int
  i_read_length :: int
  i_direct :: nat
  i_indirect :: nat
  i_double :: nat
  i_isdir :: bool
  i_parent :: u32
  i_lock :: bool
  i_ptr :: "u32 list"

record open_file =
  f_inode :: addr
  f_pos :: int
  f_deny :: bool

record dir =
  d_inode :: addr
  d_pos :: int

text \<open>\<open>filesys_open\<close> returns a \<open>struct dir\<close> through a pointer to \<open>struct file\<close>.\<close>

datatype fobj = File open_file | Dir dir

text \<open>
  \<open>free_map_file\<close> is the open file that holds the bitmap \<open>free_map\<close>; \<open>cwd\<close> the working
  directory of the running thread; \<open>stack_junk\<close> the words an uninitialised block on the
  stack happens to hold; \<open>fresh\<close> an address above every allocated object.
\<close>

record fs =
  bc :: bcache
  inodes :: "addr \<Rightarrow> inode option"
  open_inodes :: "addr list"
  objs :: "addr \<Rightarrow> fobj option"
  fresh :: addr
  free_map :: bitmap
  free_map_file :: "addr option"
  cwd :: "addr option"
  stack_junk :: "u32 list"

definition fs_malloc :: "fs \<Rightarrow> bool \<times> fs" where
  "fs_malloc st = (let (m, b) = malloc_ok (bc st) in (m, st\<lparr>bc := b\<rparr>))"

definition fs_read :: "u32 \<Rightarrow> fs \<Rightarrow> (u8 list \<times> fs) option" where
  "fs_read sector st = do {
     (b, d) \<leftarrow> block_read sector (dev (bc st));
     Some (b, st\<lparr>bc := (bc st)\<lparr>dev := d\<rparr>\<rparr>)
   }"

definition fs_write :: "u32 \<Rightarrow> u8 list \<Rightarrow> fs \<Rightarrow> fs option" where
  "fs_write sector b st = do {
     d \<leftarrow> block_write sector b (dev (bc st));
     Some (st\<lparr>bc := (bc st)\<lparr>dev := d\<rparr>\<rparr>)
   }"

definition get_inode :: "addr \<Rightarrow> fs \<Rightarrow> inode option" where
  "get_inode p st = inodes st p"

definition put_inode :: "addr \<Rightarrow> inode \<Rightarrow> fs \<Rightarrow> fs" where
  "put_inode p ino st = st\<lparr>inodes := (inodes st)(p \<mapsto> ino)\<rparr>"

section \<open>Sizes\<close>

definition INODE_MAGIC :: u32 where "INODE_MAGIC = 0x494e4f44"
definition DIRECT_BLOCKS :: int where "DIRECT_BLOCKS = 4"
definition INDIRECT_BLOCKS :: int where "INDIRECT_BLOCKS = 9"
definition DOUBLE_INDIRECT_BLOCKS :: nat where "DOUBLE_INDIRECT_BLOCKS = 1"
definition DIRECT_INDEX :: nat where "DIRECT_INDEX = 0"
definition INDIRECT_INDEX :: nat where "INDIRECT_INDEX = 4"
definition DOUBLE_INDIRECT_INDEX :: nat where "DOUBLE_INDIRECT_INDEX = 13"
definition INDIRECT_BLOCK_PTRS :: nat where "INDIRECT_BLOCK_PTRS = 128"
definition INODE_BLOCK_PTRS :: nat where "INODE_BLOCK_PTRS = 14"
definition MAX_FILE_SIZE :: int where "MAX_FILE_SIZE = 8980480"
definition ROOT_DIR_SECTOR :: u32 where "ROOT_DIR_SECTOR = 1"
definition FREE_MAP_SECTOR :: u32 where "FREE_MAP_SECTOR = 0"

lemmas inode_consts = DIRECT_BLOCKS_def INDIRECT_BLOCKS_def DOUBLE_INDIRECT_BLOCKS_def
  DIRECT_INDEX_def INDIRECT_INDEX_def DOUBLE_INDIRECT_INDEX_def INDIRECT_BLOCK_PTRS_def
  INODE_BLOCK_PTRS_def BLOCK_SECTOR_SIZE_def

text \<open>\<open>off x\<close>: the signed expression with the value \<open>x\<close>.\<close>

definition off :: "int \<Rightarrow> int option" where
  "off x = do { ASSERT (- (2 ^ 31) \<le> x \<and> x < 2 ^ 31); Some x }"

definition size_of_int :: "int \<Rightarrow> nat" where
  "size_of_int x = nat (x mod 2 ^ 32)"

definition bytes_to_data_sectors :: "int \<Rightarrow> nat option" where
  "bytes_to_data_sectors sz = do {
     x \<leftarrow> off (sz + int BLOCK_SECTOR_SIZE);
     Some (size_of_int ((x - 1) sdiv int BLOCK_SECTOR_SIZE))
   }"

definition bytes_to_indirect_sectors :: "int \<Rightarrow> nat option" where
  "bytes_to_indirect_sectors sz =
     (if sz \<le> int BLOCK_SECTOR_SIZE * DIRECT_BLOCKS then Some 0
      else do {
        let sz = sz - int BLOCK_SECTOR_SIZE * DIRECT_BLOCKS;
        x \<leftarrow> off (sz + int BLOCK_SECTOR_SIZE * int INDIRECT_BLOCK_PTRS);
        Some (size_of_int ((x - 1) sdiv (int BLOCK_SECTOR_SIZE * int INDIRECT_BLOCK_PTRS)))
      })"

definition bytes_to_double_indirect_sector :: "int \<Rightarrow> nat" where
  "bytes_to_double_indirect_sector sz =
     (if sz \<le> int BLOCK_SECTOR_SIZE * (DIRECT_BLOCKS + INDIRECT_BLOCKS * int INDIRECT_BLOCK_PTRS)
      then 0 else DOUBLE_INDIRECT_BLOCKS)"

section \<open>From offsets to sectors\<close>

text \<open>An index block holds 128 sector numbers.\<close>

definition block_words :: "u8 list \<Rightarrow> u32 list" where
  "block_words b = map (word_at b) [0..<INDIRECT_BLOCK_PTRS]"

text \<open>A negative position (an out-of-bounds index in C) is \<open>None\<close>.\<close>

definition byte_to_sector :: "inode \<Rightarrow> int \<Rightarrow> int \<Rightarrow> fs \<Rightarrow> (u32 \<times> fs) option" where
  "byte_to_sector ino len pos st =
     (if pos < len then do {
        ASSERT (0 \<le> pos);
        if pos < int BLOCK_SECTOR_SIZE * DIRECT_BLOCKS
        then Some (i_ptr ino ! nat (pos div int BLOCK_SECTOR_SIZE), st)
        else if pos < int BLOCK_SECTOR_SIZE * (DIRECT_BLOCKS + INDIRECT_BLOCKS * int INDIRECT_BLOCK_PTRS)
        then do {
          let pos = pos - int BLOCK_SECTOR_SIZE * DIRECT_BLOCKS;
          let idx = nat (pos div (int BLOCK_SECTOR_SIZE * int INDIRECT_BLOCK_PTRS) + DIRECT_BLOCKS);
          (b, st) \<leftarrow> fs_read (i_ptr ino ! idx) st;
          let indirect_block = block_words b;
          let pos = pos mod (int BLOCK_SECTOR_SIZE * int INDIRECT_BLOCK_PTRS);
          Some (indirect_block ! nat (pos div int BLOCK_SECTOR_SIZE), st)
        }
        else do {
          (b, st) \<leftarrow> fs_read (i_ptr ino ! DOUBLE_INDIRECT_INDEX) st;
          let indirect_block = block_words b;
          let pos = pos - int BLOCK_SECTOR_SIZE * (DIRECT_BLOCKS + INDIRECT_BLOCKS * int INDIRECT_BLOCK_PTRS);
          let idx = nat (pos div (int BLOCK_SECTOR_SIZE * int INDIRECT_BLOCK_PTRS));
          ASSERT (idx < INDIRECT_BLOCK_PTRS);
          (b, st) \<leftarrow> fs_read (indirect_block ! idx) st;
          let indirect_block = block_words b;
          let pos = pos mod (int BLOCK_SECTOR_SIZE * int INDIRECT_BLOCK_PTRS);
          Some (indirect_block ! nat (pos div int BLOCK_SECTOR_SIZE), st)
        }
      }
      else Some (- 1, st))"


section \<open>The inode on disk\<close>

text \<open>
  Layout of \<open>struct inode_disk\<close>: \<open>length\<close> at 0, \<open>magic\<close> at 4, the three indices at 8, 12 and
  16, \<open>isdir\<close> at 20 (one byte and three of padding), \<open>parent\<close> at 24, 107 unused words, and
  the 14 pointers from byte 456 on.
\<close>

record inode_disk =
  dk_length :: int
  dk_magic :: u32
  dk_direct :: u32
  dk_indirect :: u32
  dk_double :: u32
  dk_isdir :: bool
  dk_parent :: u32
  dk_ptr :: "u32 list"

definition enc_inode_disk :: "inode_disk \<Rightarrow> u8 list" where
  "enc_inode_disk di = enc32 (word_of_int (dk_length di)) @ enc32 (dk_magic di) @ enc32 (dk_direct di) @
     enc32 (dk_indirect di) @ enc32 (dk_double di) @ [if dk_isdir di then 1 else 0, 0, 0, 0] @
     enc32 (dk_parent di) @ replicate 428 0 @ words_bytes (dk_ptr di)"

definition dec_inode_disk :: "u8 list \<Rightarrow> inode_disk" where
  "dec_inode_disk b = \<lparr>dk_length = sint (word_at b 0), dk_magic = word_at b 1, dk_direct = word_at b 2,
     dk_indirect = word_at b 3, dk_double = word_at b 4, dk_isdir = (b ! 20 \<noteq> 0),
     dk_parent = word_at b 6, dk_ptr = map (\<lambda>i. word_at b (114 + i)) [0..<14]\<rparr>"

section \<open>Growing\<close>

definition zeros :: "u8 list" where
  "zeros = replicate 512 0"

text \<open>
  \<open>alloc st\<close> is the call \<open>free_map_allocate (1, ptr)\<close>: the sector stored through \<open>ptr\<close>, if
  any.  No caller below looks at the result of the call, so that the old contents of the
  pointer is used when it fails.
\<close>

type_synonym allocator = "fs \<Rightarrow> (u32 option \<times> fs) option"

definition alloc_into :: "allocator \<Rightarrow> nat \<Rightarrow> u32 list \<Rightarrow> fs \<Rightarrow> (u32 list \<times> fs) option" where
  "alloc_into alloc i ptrs st = do {
     ASSERT (i < length ptrs);
     (r, st) \<leftarrow> alloc st;
     Some (case r of Some s \<Rightarrow> ptrs[i := s] | None \<Rightarrow> ptrs, st)
   }"

text \<open>The first loop of \<open>inode_expand\<close>; \<open>new\<close> counts \<open>new_data_sectors\<close> down.\<close>

fun expand_direct_loop :: "allocator \<Rightarrow> inode \<Rightarrow> nat \<Rightarrow> fs \<Rightarrow> (inode \<times> nat \<times> fs) option" where
  "expand_direct_loop alloc ino 0 st = Some (ino, 0, st)"
| "expand_direct_loop alloc ino (Suc new) st =
     (if i_direct ino < INDIRECT_INDEX then do {
        (ptr, st) \<leftarrow> alloc_into alloc (i_direct ino) (i_ptr ino) st;
        let ino = ino\<lparr>i_ptr := ptr\<rparr>;
        st \<leftarrow> fs_write (i_ptr ino ! i_direct ino) zeros st;
        let ino = ino\<lparr>i_direct := i_direct ino + 1\<rparr>;
        expand_direct_loop alloc ino new st
      }
      else Some (ino, Suc new, st))"

text \<open>
  The loop that \<open>inode_expand_indirect_block\<close> and
  \<open>inode_expand_double_indirect_block_lvl_two\<close> share: it fills the slots of \<open>block\<close> from
  index \<open>idx\<close> on.
\<close>

fun fill_block_loop ::
  "allocator \<Rightarrow> nat \<Rightarrow> u32 list \<Rightarrow> nat \<Rightarrow> fs \<Rightarrow> (nat \<times> u32 list \<times> nat \<times> fs) option" where
  "fill_block_loop alloc idx block 0 st = Some (idx, block, 0, st)"
| "fill_block_loop alloc idx block (Suc new) st =
     (if idx < INDIRECT_BLOCK_PTRS then do {
        (block, st) \<leftarrow> alloc_into alloc idx block st;
        st \<leftarrow> fs_write (block ! idx) zeros st;
        fill_block_loop alloc (idx + 1) block new st
      }
      else Some (idx, block, Suc new, st))"

definition inode_expand_indirect_block ::
  "allocator \<Rightarrow> inode \<Rightarrow> nat \<Rightarrow> fs \<Rightarrow> (inode \<times> nat \<times> fs) option" where
  "inode_expand_indirect_block alloc ino new st = do {
     (ino, block, st) \<leftarrow>
       (if i_indirect ino = 0 then do {
          (ptr, st) \<leftarrow> alloc_into alloc (i_direct ino) (i_ptr ino) st;
          Some (ino\<lparr>i_ptr := ptr\<rparr>, stack_junk st, st)
        }
        else do {
          (b, st) \<leftarrow> fs_read (i_ptr ino ! i_direct ino) st;
          Some (ino, block_words b, st)
        });
     (idx, block, new, st) \<leftarrow> fill_block_loop alloc (i_indirect ino) block new st;
     let ino = ino\<lparr>i_indirect := idx\<rparr>;
     st \<leftarrow> fs_write (i_ptr ino ! i_direct ino) (words_bytes block) st;
     Some (if i_indirect ino = INDIRECT_BLOCK_PTRS
           then ino\<lparr>i_indirect := 0, i_direct := i_direct ino + 1\<rparr> else ino, new, st)
   }"

definition inode_expand_double_indirect_block_lvl_two ::
  "allocator \<Rightarrow> inode \<Rightarrow> nat \<Rightarrow> u32 list \<Rightarrow> fs \<Rightarrow> (inode \<times> nat \<times> u32 list \<times> fs) option" where
  "inode_expand_double_indirect_block_lvl_two alloc ino new outer st = do {
     (outer, inner, st) \<leftarrow>
       (if i_double ino = 0 then do {
          (outer, st) \<leftarrow> alloc_into alloc (i_indirect ino) outer st;
          Some (outer, stack_junk st, st)
        }
        else do {
          (b, st) \<leftarrow> fs_read (outer ! i_indirect ino) st;
          Some (outer, block_words b, st)
        });
     (idx, inner, new, st) \<leftarrow> fill_block_loop alloc (i_double ino) inner new st;
     let ino = ino\<lparr>i_double := idx\<rparr>;
     st \<leftarrow> fs_write (outer ! i_indirect ino) (words_bytes inner) st;
     Some (if i_double ino = INDIRECT_BLOCK_PTRS
           then ino\<lparr>i_double := 0, i_indirect := i_indirect ino + 1\<rparr> else ino, new, outer, st)
   }"

partial_function (option) expand_double_loop ::
  "allocator \<Rightarrow> inode \<Rightarrow> nat \<Rightarrow> u32 list \<Rightarrow> fs \<Rightarrow> (inode \<times> nat \<times> u32 list \<times> fs) option" where
  "expand_double_loop alloc ino new outer st =
     (if i_indirect ino < INDIRECT_BLOCK_PTRS then do {
        (ino, new, outer, st) \<leftarrow> inode_expand_double_indirect_block_lvl_two alloc ino new outer st;
        if new = 0 then Some (ino, new, outer, st) else expand_double_loop alloc ino new outer st
      }
      else Some (ino, new, outer, st))"

definition inode_expand_double_indirect_block ::
  "allocator \<Rightarrow> inode \<Rightarrow> nat \<Rightarrow> fs \<Rightarrow> (inode \<times> nat \<times> fs) option" where
  "inode_expand_double_indirect_block alloc ino new st = do {
     (ino, block, st) \<leftarrow>
       (if i_double ino = 0 \<and> i_indirect ino = 0 then do {
          (ptr, st) \<leftarrow> alloc_into alloc (i_direct ino) (i_ptr ino) st;
          Some (ino\<lparr>i_ptr := ptr\<rparr>, stack_junk st, st)
        }
        else do {
          (b, st) \<leftarrow> fs_read (i_ptr ino ! i_direct ino) st;
          Some (ino, block_words b, st)
        });
     (ino, new, block, st) \<leftarrow> expand_double_loop alloc ino new block st;
     st \<leftarrow> fs_write (i_ptr ino ! i_direct ino) (words_bytes block) st;
     Some (ino, new, st)
   }"

partial_function (option) expand_indirect_loop ::
  "allocator \<Rightarrow> inode \<Rightarrow> nat \<Rightarrow> fs \<Rightarrow> (inode \<times> nat \<times> fs) option" where
  "expand_indirect_loop alloc ino new st =
     (if i_direct ino < DOUBLE_INDIRECT_INDEX then do {
        (ino, new, st) \<leftarrow> inode_expand_indirect_block alloc ino new st;
        if new = 0 then Some (ino, new, st) else expand_indirect_loop alloc ino new st
      }
      else Some (ino, new, st))"

text \<open>Returns the inode with its new index fields, and the new length.\<close>

definition inode_expand :: "allocator \<Rightarrow> inode \<Rightarrow> int \<Rightarrow> fs \<Rightarrow> (inode \<times> int \<times> fs) option" where
  "inode_expand alloc ino new_length st = do {
     a \<leftarrow> bytes_to_data_sectors new_length;
     b \<leftarrow> bytes_to_data_sectors (i_length ino);
     let new = size_of_int (int a - int b);
     if new = 0 then Some (ino, new_length, st)
     else do {
       (ino, new, st) \<leftarrow> expand_direct_loop alloc ino new st;
       if new = 0 then Some (ino, new_length, st)
       else do {
         (ino, new, st) \<leftarrow> expand_indirect_loop alloc ino new st;
         if new = 0 then Some (ino, new_length, st)
         else do {
           (ino, new, st) \<leftarrow>
             (if i_direct ino = DOUBLE_INDIRECT_INDEX
              then inode_expand_double_indirect_block alloc ino new st else Some (ino, new, st));
           Some (ino, sint (word_of_int (new_length - int new * int BLOCK_SECTOR_SIZE) :: u32), st)
         }
       }
     }
   }"

text \<open>The inode that \<open>inode_alloc\<close> keeps on its stack.\<close>

definition blank_inode :: inode where
  "blank_inode = \<lparr>i_sector = 0, i_open_cnt = 0, i_removed = False, i_deny_write_cnt = 0, i_length = 0,
     i_read_length = 0, i_direct = 0, i_indirect = 0, i_double = 0, i_isdir = False, i_parent = 0,
     i_lock = False, i_ptr = replicate 14 0\<rparr>"

definition inode_alloc :: "allocator \<Rightarrow> inode_disk \<Rightarrow> fs \<Rightarrow> (bool \<times> inode_disk \<times> fs) option" where
  "inode_alloc alloc di st = do {
     (ino, len, st) \<leftarrow> inode_expand alloc blank_inode (dk_length di) st;
     Some (True, di\<lparr>dk_direct := of_nat (i_direct ino), dk_indirect := of_nat (i_indirect ino),
       dk_double := of_nat (i_double ino), dk_ptr := i_ptr ino\<rparr>, st)
   }"

definition inode_create :: "allocator \<Rightarrow> u32 \<Rightarrow> int \<Rightarrow> bool \<Rightarrow> fs \<Rightarrow> (bool \<times> fs) option" where
  "inode_create alloc sector len isdir st = do {
     ASSERT (len \<ge> 0);
     let (m, st) = fs_malloc st;
     if m then do {
       let di = \<lparr>dk_length = (if len > MAX_FILE_SIZE then MAX_FILE_SIZE else len),
         dk_magic = INODE_MAGIC, dk_direct = 0, dk_indirect = 0, dk_double = 0, dk_isdir = isdir,
         dk_parent = ROOT_DIR_SECTOR, dk_ptr = replicate 14 0\<rparr>;
       (ok, di, st) \<leftarrow> inode_alloc alloc di st;
       if ok then do { st \<leftarrow> fs_write sector (enc_inode_disk di) st; Some (True, st) }
       else Some (False, st)
     }
     else Some (False, st)
   }"


section \<open>Releasing\<close>

text \<open>\<open>release s st\<close> is the call \<open>free_map_release (s, 1)\<close>.\<close>

type_synonym releaser = "u32 \<Rightarrow> fs \<Rightarrow> fs option"

fun release_all :: "releaser \<Rightarrow> u32 list \<Rightarrow> fs \<Rightarrow> fs option" where
  "release_all release [] st = Some st"
| "release_all release (s # ss) st = do { st \<leftarrow> release s st; release_all release ss st }"

definition inode_dealloc_indirect_block :: "releaser \<Rightarrow> u32 \<Rightarrow> nat \<Rightarrow> fs \<Rightarrow> fs option" where
  "inode_dealloc_indirect_block release ptr data_ptrs st = do {
     (b, st) \<leftarrow> fs_read ptr st;
     let block = block_words b;
     ASSERT (data_ptrs \<le> INDIRECT_BLOCK_PTRS);
     st \<leftarrow> release_all release (take data_ptrs block) st;
     release ptr st
   }"

fun dealloc_double_loop :: "releaser \<Rightarrow> u32 list \<Rightarrow> nat \<Rightarrow> nat \<Rightarrow> nat \<Rightarrow> fs \<Rightarrow> fs option" where
  "dealloc_double_loop release block i 0 data_ptrs st = Some st"
| "dealloc_double_loop release block i (Suc n) data_ptrs st = do {
     let data_per_block = (if data_ptrs < INDIRECT_BLOCK_PTRS then data_ptrs else INDIRECT_BLOCK_PTRS);
     ASSERT (i < length block);
     st \<leftarrow> inode_dealloc_indirect_block release (block ! i) data_per_block st;
     dealloc_double_loop release block (i + 1) n (data_ptrs - data_per_block) st
   }"

definition inode_dealloc_double_indirect_block ::
  "releaser \<Rightarrow> u32 \<Rightarrow> nat \<Rightarrow> nat \<Rightarrow> fs \<Rightarrow> fs option" where
  "inode_dealloc_double_indirect_block release ptr indirect_ptrs data_ptrs st = do {
     (b, st) \<leftarrow> fs_read ptr st;
     let block = block_words b;
     st \<leftarrow> dealloc_double_loop release block 0 indirect_ptrs data_ptrs st;
     release ptr st
   }"

fun dealloc_direct_loop :: "releaser \<Rightarrow> u32 list \<Rightarrow> nat \<Rightarrow> nat \<Rightarrow> fs \<Rightarrow> (nat \<times> nat \<times> fs) option" where
  "dealloc_direct_loop release ptrs idx 0 st = Some (idx, 0, st)"
| "dealloc_direct_loop release ptrs idx (Suc data) st =
     (if idx < INDIRECT_INDEX then do {
        st \<leftarrow> release (ptrs ! idx) st;
        dealloc_direct_loop release ptrs (idx + 1) data st
      }
      else Some (idx, Suc data, st))"

fun dealloc_indirect_loop ::
  "releaser \<Rightarrow> u32 list \<Rightarrow> nat \<Rightarrow> nat \<Rightarrow> nat \<Rightarrow> fs \<Rightarrow> (nat \<times> nat \<times> nat \<times> fs) option" where
  "dealloc_indirect_loop release ptrs idx 0 data st = Some (idx, 0, data, st)"
| "dealloc_indirect_loop release ptrs idx (Suc ind) data st =
     (if idx < DOUBLE_INDIRECT_INDEX then do {
        let data_ptrs = (if data < INDIRECT_BLOCK_PTRS then data else INDIRECT_BLOCK_PTRS);
        st \<leftarrow> inode_dealloc_indirect_block release (ptrs ! idx) data_ptrs st;
        dealloc_indirect_loop release ptrs (idx + 1) ind (data - data_ptrs) st
      }
      else Some (idx, Suc ind, data, st))"

definition inode_dealloc :: "releaser \<Rightarrow> inode \<Rightarrow> fs \<Rightarrow> fs option" where
  "inode_dealloc release ino st = do {
     data_sectors \<leftarrow> bytes_to_data_sectors (i_length ino);
     indirect_sectors \<leftarrow> bytes_to_indirect_sectors (i_length ino);
     let double_indirect_sector = bytes_to_double_indirect_sector (i_length ino);
     (idx, data_sectors, st) \<leftarrow> dealloc_direct_loop release (i_ptr ino) 0 data_sectors st;
     (idx, indirect_sectors, data_sectors, st) \<leftarrow>
       dealloc_indirect_loop release (i_ptr ino) idx indirect_sectors data_sectors st;
     if double_indirect_sector \<noteq> 0
     then inode_dealloc_double_indirect_block release (i_ptr ino ! idx) indirect_sectors data_sectors st
     else Some st
   }"

section \<open>Opening and closing\<close>

definition inode_init :: "fs \<Rightarrow> fs" where
  "inode_init st = st\<lparr>open_inodes := []\<rparr>"

definition inode_reopen :: "addr \<Rightarrow> fs \<Rightarrow> (addr \<times> fs) option" where
  "inode_reopen p st = do {
     ino \<leftarrow> get_inode p st;
     Some (p, put_inode p (ino\<lparr>i_open_cnt := i_open_cnt ino + 1\<rparr>) st)
   }"

text \<open>The search of \<open>inode_open\<close> through the list of open inodes.\<close>

fun find_open :: "u32 \<Rightarrow> addr list \<Rightarrow> fs \<Rightarrow> addr option option" where
  "find_open sector [] st = Some None"
| "find_open sector (p # ps) st = do {
     ino \<leftarrow> get_inode p st;
     if i_sector ino = sector then Some (Some p) else find_open sector ps st
   }"

definition inode_open :: "u32 \<Rightarrow> fs \<Rightarrow> (addr option \<times> fs) option" where
  "inode_open sector st = do {
     found \<leftarrow> find_open sector (open_inodes st) st;
     case found of
       Some p \<Rightarrow> do { (p, st) \<leftarrow> inode_reopen p st; Some (Some p, st) }
     | None \<Rightarrow> do {
         let (m, st) = fs_malloc st;
         if \<not> m then Some (None, st)
         else do {
           let p = fresh st;
           let st = st\<lparr>fresh := fresh st + 1, open_inodes := p # open_inodes st\<rparr>;
           (b, st) \<leftarrow> fs_read sector st;
           let data = dec_inode_disk b;
           let ino = \<lparr>i_sector = sector, i_open_cnt = 1, i_removed = False, i_deny_write_cnt = 0,
             i_length = dk_length data, i_read_length = dk_length data,
             i_direct = unat (dk_direct data), i_indirect = unat (dk_indirect data),
             i_double = unat (dk_double data), i_isdir = dk_isdir data, i_parent = dk_parent data,
             i_lock = False, i_ptr = dk_ptr data\<rparr>;
           Some (Some p, put_inode p ino st)
         }
       }
   }"

definition inode_get_inumber :: "inode \<Rightarrow> u32" where
  "inode_get_inumber ino = i_sector ino"

definition disk_of_inode :: "inode \<Rightarrow> inode_disk" where
  "disk_of_inode ino = \<lparr>dk_length = i_length ino, dk_magic = INODE_MAGIC,
     dk_direct = of_nat (i_direct ino), dk_indirect = of_nat (i_indirect ino),
     dk_double = of_nat (i_double ino), dk_isdir = i_isdir ino, dk_parent = i_parent ino,
     dk_ptr = i_ptr ino\<rparr>"

definition inode_close :: "releaser \<Rightarrow> addr option \<Rightarrow> fs \<Rightarrow> fs option" where
  "inode_close release p st = (case p of
     None \<Rightarrow> Some st
   | Some p \<Rightarrow> do {
       ino \<leftarrow> get_inode p st;
       let ino = ino\<lparr>i_open_cnt := i_open_cnt ino - 1\<rparr>;
       let st = put_inode p ino st;
       if i_open_cnt ino = 0 then do {
         let st = st\<lparr>open_inodes := remove1 p (open_inodes st)\<rparr>;
         st \<leftarrow> (if i_removed ino
                then do { st \<leftarrow> release (i_sector ino) st; inode_dealloc release ino st }
                else fs_write (i_sector ino) (enc_inode_disk (disk_of_inode ino)) st);
         Some (st\<lparr>inodes := (inodes st)(p := None)\<rparr>)
       }
       else Some st
     })"

definition inode_remove :: "addr \<Rightarrow> fs \<Rightarrow> fs option" where
  "inode_remove p st = do {
     ino \<leftarrow> get_inode p st;
     Some (put_inode p (ino\<lparr>i_removed := True\<rparr>) st)
   }"

definition inode_lock :: "addr \<Rightarrow> fs \<Rightarrow> fs option" where
  "inode_lock p st = do {
     ino \<leftarrow> get_inode p st;
     ASSERT (\<not> i_lock ino);
     Some (put_inode p (ino\<lparr>i_lock := True\<rparr>) st)
   }"

definition inode_unlock :: "addr \<Rightarrow> fs \<Rightarrow> fs option" where
  "inode_unlock p st = do {
     ino \<leftarrow> get_inode p st;
     ASSERT (i_lock ino);
     Some (put_inode p (ino\<lparr>i_lock := False\<rparr>) st)
   }"

definition inode_deny_write :: "addr \<Rightarrow> fs \<Rightarrow> fs option" where
  "inode_deny_write p st = do {
     ino \<leftarrow> get_inode p st;
     let ino = ino\<lparr>i_deny_write_cnt := i_deny_write_cnt ino + 1\<rparr>;
     ASSERT (i_deny_write_cnt ino \<le> i_open_cnt ino);
     Some (put_inode p ino st)
   }"

definition inode_allow_write :: "addr \<Rightarrow> fs \<Rightarrow> fs option" where
  "inode_allow_write p st = do {
     ino \<leftarrow> get_inode p st;
     ASSERT (i_deny_write_cnt ino > 0);
     ASSERT (i_deny_write_cnt ino \<le> i_open_cnt ino);
     Some (put_inode p (ino\<lparr>i_deny_write_cnt := i_deny_write_cnt ino - 1\<rparr>) st)
   }"

definition inode_length :: "inode \<Rightarrow> int" where
  "inode_length ino = i_length ino"

definition inode_is_dir :: "inode \<Rightarrow> bool" where
  "inode_is_dir ino = i_isdir ino"

definition inode_get_open_cnt :: "inode \<Rightarrow> int" where
  "inode_get_open_cnt ino = i_open_cnt ino"

definition inode_get_parent :: "inode \<Rightarrow> u32" where
  "inode_get_parent ino = i_parent ino"

definition inode_add_parent :: "releaser \<Rightarrow> u32 \<Rightarrow> u32 \<Rightarrow> fs \<Rightarrow> (bool \<times> fs) option" where
  "inode_add_parent release parent_sector child_sector st = do {
     (p, st) \<leftarrow> inode_open child_sector st;
     case p of
       None \<Rightarrow> Some (False, st)
     | Some a \<Rightarrow> do {
         ino \<leftarrow> get_inode a st;
         st \<leftarrow> inode_close release p (put_inode a (ino\<lparr>i_parent := parent_sector\<rparr>) st);
         Some (True, st)
       }
   }"

section \<open>Reading and writing\<close>

text \<open>
  The bytes copied so far, whose number is \<open>bytes_read\<close>, are collected in \<open>acc\<close>.
\<close>

partial_function (option) inode_read_loop ::
  "inode \<Rightarrow> int \<Rightarrow> int \<Rightarrow> int \<Rightarrow> u8 list \<Rightarrow> fs \<Rightarrow> (u8 list \<times> fs) option" where
  "inode_read_loop ino len sz offset acc st =
     (if sz > 0 then do {
        (sector_idx, st) \<leftarrow> byte_to_sector ino len offset st;
        let sector_ofs = offset mod int BLOCK_SECTOR_SIZE;
        let inode_left = len - offset;
        let sector_left = int BLOCK_SECTOR_SIZE - sector_ofs;
        let min_left = (if inode_left < sector_left then inode_left else sector_left);
        let chunk_size = (if sz < min_left then sz else min_left);
        if chunk_size \<le> 0 then Some (acc, st)
        else do {
          (bytes, b) \<leftarrow> cache_copy_out sector_idx (nat sector_ofs) (nat chunk_size) (bc st);
          inode_read_loop ino len (sz - chunk_size) (offset + chunk_size) (acc @ bytes) (st\<lparr>bc := b\<rparr>)
        }
      }
      else Some (acc, st))"

definition inode_read_at :: "addr \<Rightarrow> int \<Rightarrow> int \<Rightarrow> fs \<Rightarrow> (u8 list \<times> fs) option" where
  "inode_read_at p sz offset st = do {
     ino \<leftarrow> get_inode p st;
     let len = i_read_length ino;
     if offset \<ge> len then Some ([], st) else inode_read_loop ino len sz offset [] st
   }"

text \<open>\<open>buffer\<close> is the caller's buffer, \<open>written\<close> is \<open>bytes_written\<close>.\<close>

partial_function (option) inode_write_loop ::
  "inode \<Rightarrow> u8 list \<Rightarrow> int \<Rightarrow> int \<Rightarrow> int \<Rightarrow> fs \<Rightarrow> (int \<times> fs) option" where
  "inode_write_loop ino buffer sz offset written st =
     (if sz > 0 then do {
        (sector_idx, st) \<leftarrow> byte_to_sector ino (inode_length ino) offset st;
        let sector_ofs = offset mod int BLOCK_SECTOR_SIZE;
        let inode_left = inode_length ino - offset;
        let sector_left = int BLOCK_SECTOR_SIZE - sector_ofs;
        let min_left = (if inode_left < sector_left then inode_left else sector_left);
        let chunk_size = (if sz < min_left then sz else min_left);
        if chunk_size \<le> 0 then Some (written, st)
        else do {
          b \<leftarrow> cache_copy_in sector_idx (nat sector_ofs)
                 (get_bytes (nat written) (nat chunk_size) buffer) (bc st);
          inode_write_loop ino buffer (sz - chunk_size) (offset + chunk_size) (written + chunk_size)
            (st\<lparr>bc := b\<rparr>)
        }
      }
      else Some (written, st))"

definition inode_write_at :: "allocator \<Rightarrow> addr \<Rightarrow> u8 list \<Rightarrow> int \<Rightarrow> int \<Rightarrow> fs \<Rightarrow> (int \<times> fs) option" where
  "inode_write_at alloc p buffer sz offset st = do {
     ino \<leftarrow> get_inode p st;
     if i_deny_write_cnt ino \<noteq> 0 then Some (0, st)
     else do {
       end_pos \<leftarrow> off (offset + sz);
       st \<leftarrow> (if end_pos > inode_length ino then do {
                let isdir = i_isdir ino;
                st \<leftarrow> (if \<not> isdir then inode_lock p st else Some st);
                ino \<leftarrow> get_inode p st;
                (ino, len, st) \<leftarrow> inode_expand alloc ino end_pos st;
                let st = put_inode p (ino\<lparr>i_length := len\<rparr>) st;
                if \<not> isdir then inode_unlock p st else Some st
              }
              else Some st);
       ino \<leftarrow> get_inode p st;
       (written, st) \<leftarrow> inode_write_loop ino buffer sz offset 0 st;
       ino \<leftarrow> get_inode p st;
       Some (written, put_inode p (ino\<lparr>i_read_length := inode_length ino\<rparr>) st)
     }
   }"

end
