(* ===== verification/KInodeIO.thy ===== *)
theory KInodeIO imports KInode begin

text \<open>
  Reading and writing files, the functional correctness of \<open>byte_to_sector\<close>,
  \<open>inode_read_at\<close> and \<open>inode_write_at\<close> inside a file.  \<open>blk d ptr k\<close> is the sector of the
  \<open>k\<close>-th data block of an inode with pointers \<open>ptr\<close> on a disk with contents \<open>d\<close>, \<open>metas\<close> the
  index blocks in use for a file of \<open>n\<close> data blocks.  \<open>inode_ok\<close> is the well-formedness of
  an inode; \<open>fbyte\<close> is the contents of a file as its readers see it.
\<close>

section \<open>The block tree\<close>

type_synonym disk = "u32 \<Rightarrow> u8 list"

definition the_disk :: "fs \<Rightarrow> disk" where
  "the_disk st = bd_data (dev (bc st))"

definition ind_blk :: "u32 list \<Rightarrow> nat \<Rightarrow> u32" where
  "ind_blk ptr i = ptr ! (4 + i)"

definition dbl_blk :: "disk \<Rightarrow> u32 list \<Rightarrow> nat \<Rightarrow> u32" where
  "dbl_blk d ptr i = block_words (d (ptr ! 13)) ! i"

definition blk :: "disk \<Rightarrow> u32 list \<Rightarrow> nat \<Rightarrow> u32" where
  "blk d ptr k =
     (if k < 4 then ptr ! k
      else if k < 1156 then block_words (d (ind_blk ptr ((k - 4) div 128))) ! ((k - 4) mod 128)
      else block_words (d (dbl_blk d ptr ((k - 1156) div 128))) ! ((k - 1156) mod 128))"

definition n_ind :: "nat \<Rightarrow> nat" where
  "n_ind n = (if n \<le> 4 then 0 else if 1156 \<le> n then 9 else (n - 4 + 127) div 128)"

definition n_dbl :: "nat \<Rightarrow> nat" where
  "n_dbl n = (if n \<le> 1156 then 0 else (n - 1156 + 127) div 128)"

definition metas :: "disk \<Rightarrow> u32 list \<Rightarrow> nat \<Rightarrow> u32 list" where
  "metas d ptr n = map (ind_blk ptr) [0..<n_ind n] @
     (if 1156 < n then ptr ! 13 # map (dbl_blk d ptr) [0..<n_dbl n] else [])"

definition datas :: "disk \<Rightarrow> u32 list \<Rightarrow> nat \<Rightarrow> u32 list" where
  "datas d ptr n = map (blk d ptr) [0..<n]"

definition MAX_BLOCKS :: nat where
  "MAX_BLOCKS = 17540"

definition n_blocks :: "int \<Rightarrow> nat" where
  "n_blocks len = (nat len + 511) div 512"

lemma n_ind_iff: "k < 1156 \<Longrightarrow> 4 \<le> k \<Longrightarrow> k < n \<Longrightarrow> (k - 4) div 128 < n_ind n"
  by (auto simp: n_ind_def)

lemma n_dbl_iff: "1156 \<le> k \<Longrightarrow> k < n \<Longrightarrow> (k - 1156) div 128 < n_dbl n"
  by (auto simp: n_dbl_def)

lemma block_words_length [simp]: "length (block_words b) = 128"
  by (simp add: block_words_def INDIRECT_BLOCK_PTRS_def)

text \<open>The tree of \<open>n\<close> blocks depends on the pointers and on its own index blocks only.\<close>

lemma metas_cong:
  assumes "\<forall>s \<in> set (metas d ptr n). d' s = d s"
  shows "metas d' ptr n = metas d ptr n" "k < n \<Longrightarrow> blk d' ptr k = blk d ptr k"
proof -
  have i: "d' (ind_blk ptr i) = d (ind_blk ptr i)" if "i < n_ind n" for i
    using assms that by (simp add: metas_def)
  have p: "1156 < n \<Longrightarrow> d' (ptr ! 13) = d (ptr ! 13)" using assms by (simp add: metas_def)
  then have db: "1156 < n \<Longrightarrow> dbl_blk d' ptr i = dbl_blk d ptr i" for i
    by (simp add: dbl_blk_def)
  have dd: "1156 < n \<Longrightarrow> i < n_dbl n \<Longrightarrow> d' (dbl_blk d ptr i) = d (dbl_blk d ptr i)" for i
    using assms by (simp add: metas_def)
  show "metas d' ptr n = metas d ptr n" using db by (simp add: metas_def)
  show "blk d' ptr k = blk d ptr k" if "k < n"
  proof -
    consider "k < 4" | "4 \<le> k" "k < 1156" | "1156 \<le> k" by linarith
    then show ?thesis
    proof cases
      case 2
      then show ?thesis using i[OF n_ind_iff[of k n]] that by (simp add: blk_def)
    next
      case 3
      then show ?thesis using db dd[OF _ n_dbl_iff[of k n]] that by (simp add: blk_def)
    qed (simp add: blk_def)
  qed
qed

lemma datas_cong:
  "\<forall>s \<in> set (metas d ptr n). d' s = d s \<Longrightarrow> datas d' ptr n = datas d ptr n"
  using metas_cong(2)[of d ptr n d'] by (simp add: datas_def)

section \<open>Well-formed inodes\<close>

definition inode_ok :: "fs \<Rightarrow> inode \<Rightarrow> bool" where
  "inode_ok st ino \<longleftrightarrow> length (i_ptr ino) = 14 \<and> 0 \<le> i_length ino \<and> i_length ino \<le> MAX_FILE_SIZE \<and>
     (let n = n_blocks (i_length ino); d = the_disk st; own = metas d (i_ptr ino) n @ datas d (i_ptr ino) n in
      distinct own \<and> (\<forall>s \<in> set own. s < bd_size (dev (bc st))) \<and>
      set (metas d (i_ptr ino) n) \<inter> cached (bc st) = {})"

definition fbyte :: "fs \<Rightarrow> inode \<Rightarrow> nat \<Rightarrow> u8" where
  "fbyte st ino pos = cview (bc st) (blk (the_disk st) (i_ptr ino) (pos div 512)) ! (pos mod 512)"

definition file_bytes :: "fs \<Rightarrow> inode \<Rightarrow> u8 list" where
  "file_bytes st ino = map (fbyte st ino) [0..<nat (i_length ino)]"

lemma pos_block: "int pos < len \<Longrightarrow> pos div 512 < n_blocks len"
  by (simp add: n_blocks_def)

lemma n_blocks_max: "len \<le> MAX_FILE_SIZE \<Longrightarrow> n_blocks len \<le> MAX_BLOCKS"
  by (simp add: n_blocks_def MAX_FILE_SIZE_def MAX_BLOCKS_def)

lemma inode_okD:
  assumes "inode_ok st ino"
  defines "n \<equiv> n_blocks (i_length ino)" and "d \<equiv> the_disk st"
  shows "length (i_ptr ino) = 14" "0 \<le> i_length ino" "i_length ino \<le> MAX_FILE_SIZE"
    "distinct (metas d (i_ptr ino) n @ datas d (i_ptr ino) n)"
    "\<And>s. s \<in> set (metas d (i_ptr ino) n) \<Longrightarrow> s < bd_size (dev (bc st))"
    "\<And>k. k < n \<Longrightarrow> blk d (i_ptr ino) k < bd_size (dev (bc st))"
    "\<And>s. s \<in> set (metas d (i_ptr ino) n) \<Longrightarrow> s \<notin> cached (bc st)"
  using assms by (auto simp: inode_ok_def Let_def datas_def)

text \<open>
  \<open>reads_only st st'\<close>: the states differ in the number of reads the device has served.
\<close>

definition reads_only :: "fs \<Rightarrow> fs \<Rightarrow> bool" where
  "reads_only st st' \<longleftrightarrow>
     (\<exists>k. st' = st\<lparr>bc := (bc st)\<lparr>dev := (dev (bc st))\<lparr>bd_read_cnt := k\<rparr>\<rparr>\<rparr>)"

lemma reads_only_refl [simp]: "reads_only st st"
  by (auto simp: reads_only_def intro!: exI[of _ "bd_read_cnt (dev (bc st))"])

lemma reads_only_trans: "reads_only a b \<Longrightarrow> reads_only b c \<Longrightarrow> reads_only a c"
  by (auto simp: reads_only_def)

lemma fs_read_ok:
  assumes "s < bd_size (dev (bc st))"
  obtains st' where "fs_read s st = Some (the_disk st s, st')" "reads_only st st'"
proof (rule that)
  let ?st = "st\<lparr>bc := (bc st)\<lparr>dev := (dev (bc st))\<lparr>bd_read_cnt := bd_read_cnt (dev (bc st)) + 1\<rparr>\<rparr>\<rparr>"
  show "fs_read s st = Some (the_disk st s, ?st)"
    using assms by (simp add: fs_read_def block_read_def check_sector_def the_disk_def)
  show "reads_only st ?st" by (auto simp: reads_only_def)
qed

lemma reads_only_simps:
  assumes "reads_only st st'"
  shows "the_disk st' = the_disk st" "cview (bc st') = cview (bc st)" "cached (bc st') = cached (bc st)"
    "cache_idle (bc st') = cache_idle (bc st)" "bd_size (dev (bc st')) = bd_size (dev (bc st))"
    "inodes st' = inodes st" "inode_ok st' ino = inode_ok st ino" "fbyte st' ino = fbyte st ino"
proof -
  obtain k where [simp]: "st' = st\<lparr>bc := (bc st)\<lparr>dev := (dev (bc st))\<lparr>bd_read_cnt := k\<rparr>\<rparr>\<rparr>"
    using assms by (auto simp: reads_only_def)
  show d: "the_disk st' = the_disk st" "cached (bc st') = cached (bc st)" "inodes st' = inodes st"
    "bd_size (dev (bc st')) = bd_size (dev (bc st))"
    by (simp_all add: the_disk_def cached_def)
  show v: "cview (bc st') = cview (bc st)"
    by (auto simp: cview_def fun_eq_iff split: option.split)
  show "cache_idle (bc st') = cache_idle (bc st)"
    by (auto simp: cache_idle_def cache_ok_def dev_ok_def entry_ok_def)
  show "inode_ok st' ino = inode_ok st ino" unfolding inode_ok_def d ..
  show "fbyte st' ino = fbyte st ino" unfolding fbyte_def d v ..
qed


section \<open>The sector of an offset\<close>

lemma split_offset:
  assumes "512 * a \<le> p"
  shows "nat ((int p - int (512 * a)) div 65536) = (p div 512 - a) div 128"
    "nat ((int p - int (512 * a)) mod 65536 div 512) = (p div 512 - a) mod 128"
proof -
  define q where "q = p - 512 * a"
  have q: "int p - int (512 * a) = int q" "p div 512 - a = q div 512"
    using assms by (simp_all add: q_def)
  have "q mod 65536 = 512 * (q div 512 mod 128) + q mod 512"
    using mod_mult2_eq[of q 512 128] by simp
  then have "q mod 65536 div 512 = q div 512 mod 128" by simp
  moreover have "q div 65536 = q div 512 div 128" by (simp add: div_mult2_eq[of q 512 128, symmetric])
  moreover have "int q mod 65536 div 512 = int (q mod 65536 div 512)" "int q div 65536 = int (q div 65536)"
    by (simp_all add: zmod_int zdiv_int)
  ultimately show "nat ((int p - int (512 * a)) div 65536) = (p div 512 - a) div 128"
    "nat ((int p - int (512 * a)) mod 65536 div 512) = (p div 512 - a) mod 128"
    unfolding q by (metis nat_int)+
qed

lemma byte_to_sector_ok:
  assumes ok: "inode_ok st ino" and pos: "0 \<le> pos" "pos < i_length ino"
  obtains st' where "byte_to_sector ino (i_length ino) pos st =
      Some (blk (the_disk st) (i_ptr ino) (nat pos div 512), st')" "reads_only st st'"
proof -
  note [simp] = inode_consts
  define p where "p = nat pos"
  have p: "pos = int p" using pos by (simp add: p_def)
  let ?n = "n_blocks (i_length ino)" and ?d = "the_disk st" and ?ptr = "i_ptr ino"
  have n: "p div 512 < ?n" using pos_block[of p "i_length ino"] pos p by simp
  have max: "p < 8980480" using inode_okD(3)[OF ok] pos p by (simp add: MAX_FILE_SIZE_def)
  consider "p < 2048" | "2048 \<le> p" "p < 591872" | "591872 \<le> p" by linarith
  then show ?thesis
  proof cases
    case 1
    then have "p div 512 < 4" by simp
    then show ?thesis using that[of st] pos p 1
      by (simp add: byte_to_sector_def blk_def nat_div_distrib)
  next
    case 2
    then have k: "4 \<le> p div 512" "p div 512 < 1156" by auto
    let ?i = "(p div 512 - 4) div 128"
    have i: "?i < n_ind ?n" using n_ind_iff[OF k(2,1) n] .
    then have "ind_blk ?ptr ?i < bd_size (dev (bc st))"
      using inode_okD(5)[OF ok] by (simp add: metas_def)
    then obtain st1 where st1: "fs_read (ind_blk ?ptr ?i) st = Some (?d (ind_blk ?ptr ?i), st1)"
      "reads_only st st1" using fs_read_ok by blast
    have e: "nat ((int p - 2048) div 65536 + 4) = 4 + ?i" using 2 split_offset(1)[of 4 p] by (simp add: nat_add_distrib)
    have e2: "nat ((int p - 2048) mod 65536 div 512) = (p div 512 - 4) mod 128"
      using 2 split_offset(2)[of 4 p] by simp
    show ?thesis
      using that[OF _ st1(2)] st1(1) k pos p 2 e e2
      by (simp add: byte_to_sector_def blk_def ind_blk_def)
  next
    case 3
    then have k: "1156 \<le> p div 512" by simp
    let ?i = "(p div 512 - 1156) div 128"
    have "1156 < ?n" using k n by linarith
    have i: "?i < n_dbl ?n" using n_dbl_iff[OF k n] .
    have i128: "?i < 128" using max by simp
    have in_size: "?ptr ! 13 < bd_size (dev (bc st))" "dbl_blk ?d ?ptr ?i < bd_size (dev (bc st))"
      using inode_okD(5)[OF ok] i \<open>1156 < ?n\<close> by (simp_all add: metas_def)
    obtain st1 where st1: "fs_read (?ptr ! 13) st = Some (?d (?ptr ! 13), st1)" "reads_only st st1"
      using fs_read_ok[OF in_size(1)] by blast
    obtain st2 where st2: "fs_read (dbl_blk ?d ?ptr ?i) st1 = Some (?d (dbl_blk ?d ?ptr ?i), st2)"
      "reads_only st1 st2"
      using fs_read_ok[of "dbl_blk ?d ?ptr ?i" st1] in_size(2) reads_only_simps[OF st1(2)] by metis
    have e: "nat ((int p - 591872) div 65536) = ?i"
      using 3 split_offset(1)[of 1156 p] by simp
    have e2: "nat ((int p - 591872) mod 65536 div 512) = (p div 512 - 1156) mod 128"
      using 3 split_offset(2)[of 1156 p] by simp
    have c: "\<not> int p < 2048" "\<not> int p < 591872" "\<not> p div 512 < 4" "\<not> p div 512 < 1156" "int p < i_length ino"
      "\<not> p < 2048" "\<not> p < 591872"
      using 3 k pos p by simp_all
    have "byte_to_sector ino (i_length ino) pos st = Some (blk ?d ?ptr (nat pos div 512), st2)"
      unfolding byte_to_sector_def blk_def p
      by (simp add: c e e2 i128 st1(1)[unfolded dbl_blk_def] st2(1)[unfolded dbl_blk_def] dbl_blk_def
        del: not_less)
    then show ?thesis using that reads_only_trans[OF st1(2) st2(2)] by blast
  qed
qed


section \<open>Frames\<close>

text \<open>
  \<open>io_frame C V st st'\<close>: only the cache and the device changed; the cache took in sectors of
  \<open>C\<close>, what clients see changed for sectors of \<open>V\<close> only, and the device was written only at
  sectors of \<open>C\<close> and at sectors that were cached.
\<close>

definition io_frame :: "u32 set \<Rightarrow> u32 set \<Rightarrow> fs \<Rightarrow> fs \<Rightarrow> bool" where
  "io_frame C V st st' \<longleftrightarrow> st' = st\<lparr>bc := bc st'\<rparr> \<and> cache_idle (bc st') \<and>
     bd_size (dev (bc st')) = bd_size (dev (bc st)) \<and> cached (bc st') \<subseteq> C \<union> cached (bc st) \<and>
     (\<forall>s. s \<notin> cached (bc st) \<longrightarrow> s \<notin> C \<longrightarrow> the_disk st' s = the_disk st s) \<and>
     (\<forall>s. s \<notin> V \<longrightarrow> cview (bc st') s = cview (bc st) s)"

lemma fs_bc_idem: "x\<lparr>bc := bc x\<rparr> = (x :: fs)"
  by simp

lemma io_frame_refl: "cache_idle (bc st) \<Longrightarrow> io_frame C V st st"
  by (simp add: io_frame_def)

lemma io_frame_trans:
  assumes "io_frame C V a b" "io_frame C V b c"
  shows "io_frame C V a c"
proof -
  have "c = a\<lparr>bc := bc c\<rparr>"
    using assms unfolding io_frame_def by (metis fs.update_convs(1) fs.surjective fs.ext_inject)
  moreover have "the_disk c s = the_disk a s" if "s \<notin> cached (bc a)" "s \<notin> C" for s
  proof -
    have "s \<notin> cached (bc b)" using assms(1) that unfolding io_frame_def by auto
    then show ?thesis using assms that unfolding io_frame_def by auto
  qed
  ultimately show ?thesis using assms unfolding io_frame_def by auto
qed

lemma reads_only_frame: "reads_only st st' \<Longrightarrow> cache_idle (bc st) \<Longrightarrow> io_frame C V st st'"
  using reads_only_simps[of st st'] by (auto simp: io_frame_def reads_only_def)

lemma io_frame_simps:
  "io_frame C V st st' \<Longrightarrow> inodes st' = inodes st"
  "io_frame C V st st' \<Longrightarrow> cache_idle (bc st')"
  "io_frame C V st st' \<Longrightarrow> bd_size (dev (bc st')) = bd_size (dev (bc st))"
  "io_frame C V st st' \<Longrightarrow> s \<notin> V \<Longrightarrow> cview (bc st') s = cview (bc st) s"
  unfolding io_frame_def by (metis fs.select_convs(2) fs.update_convs(1) fs.surjective, simp_all)

lemma io_frame_tree:
  assumes "io_frame C V st st'" "C \<inter> set (metas (the_disk st) ptr n) = {}"
    "cached (bc st) \<inter> set (metas (the_disk st) ptr n) = {}"
  shows "metas (the_disk st') ptr n = metas (the_disk st) ptr n"
    "k < n \<Longrightarrow> blk (the_disk st') ptr k = blk (the_disk st) ptr k"
    "datas (the_disk st') ptr n = datas (the_disk st) ptr n"
proof -
  have e: "\<forall>s \<in> set (metas (the_disk st) ptr n). the_disk st' s = the_disk st s"
    using assms unfolding io_frame_def by blast
  show "metas (the_disk st') ptr n = metas (the_disk st) ptr n"
    "k < n \<Longrightarrow> blk (the_disk st') ptr k = blk (the_disk st) ptr k"
    "datas (the_disk st') ptr n = datas (the_disk st) ptr n"
    using metas_cong[OF e] datas_cong[OF e] by auto
qed

lemma io_frame_inode_ok:
  assumes f: "io_frame C V st st'" and ok: "inode_ok st ino"
    and C: "C \<inter> set (metas (the_disk st) (i_ptr ino) (n_blocks (i_length ino))) = {}"
  shows "inode_ok st' ino"
    "k < n_blocks (i_length ino) \<Longrightarrow> blk (the_disk st') (i_ptr ino) k = blk (the_disk st) (i_ptr ino) k"
proof -
  have m: "cached (bc st) \<inter> set (metas (the_disk st) (i_ptr ino) (n_blocks (i_length ino))) = {}"
    using inode_okD(7)[OF ok] by auto
  note t = io_frame_tree[OF f C m]
  have "set (metas (the_disk st') (i_ptr ino) (n_blocks (i_length ino))) \<inter> cached (bc st') = {}"
    using f C m t(1) unfolding io_frame_def by auto
  then show "inode_ok st' ino"
    using ok t(1,3) io_frame_simps(3)[OF f] by (simp add: inode_ok_def Let_def)
  show "k < n_blocks (i_length ino) \<Longrightarrow> blk (the_disk st') (i_ptr ino) k = blk (the_disk st) (i_ptr ino) k"
    using t(2) .
qed

lemma copy_out_frame:
  assumes "cache_idle (bc st)" "s < bd_size (dev (bc st))" "s \<in> C"
  obtains b where "cache_copy_out s o' n (bc st) = Some (get_bytes o' n (cview (bc st) s), b)"
    "io_frame C {} st (st\<lparr>bc := b\<rparr>)"
proof -
  obtain b where b: "cache_copy_out s o' n (bc st) = Some (get_bytes o' n (cview (bc st) s), b)"
    "cache_idle b" "cview b = cview (bc st)" "bd_size (dev b) = bd_size (dev (bc st))"
    "cached b \<subseteq> insert s (cached (bc st))"
    "\<forall>x. x \<notin> cached (bc st) \<longrightarrow> bd_data (dev b) x = bd_data (dev (bc st)) x"
    using cache_copy_out_ok[OF assms(1,2)] .
  have "io_frame C {} st (st\<lparr>bc := b\<rparr>)"
    using b assms(3) by (auto simp: io_frame_def the_disk_def)
  then show ?thesis using that b(1) by blast
qed

lemma copy_in_frame:
  assumes "cache_idle (bc st)" "s < bd_size (dev (bc st))" "s \<in> C" "o' + length bytes \<le> 512"
  obtains b where "cache_copy_in s o' bytes (bc st) = Some b" "io_frame C C st (st\<lparr>bc := b\<rparr>)"
    "cview b = (cview (bc st))(s := put_bytes o' bytes (cview (bc st) s))"
proof -
  obtain b where b: "cache_copy_in s o' bytes (bc st) = Some b"
    "cache_idle b" "cview b = (cview (bc st))(s := put_bytes o' bytes (cview (bc st) s))"
    "bd_size (dev b) = bd_size (dev (bc st))" "cached b \<subseteq> insert s (cached (bc st))"
    "\<forall>x. x \<notin> cached (bc st) \<longrightarrow> bd_data (dev b) x = bd_data (dev (bc st)) x"
    using cache_copy_in_ok[OF assms(1,2,4)] .
  have "io_frame C C st (st\<lparr>bc := b\<rparr>)"
    using b assms(3) by (auto simp: io_frame_def the_disk_def)
  then show ?thesis using that b(1,3) by blast
qed


section \<open>Reading\<close>

text \<open>The number of bytes the loops move in one round, at offset \<open>o'\<close> of \<open>len\<close>.\<close>

definition chunk :: "nat \<Rightarrow> nat \<Rightarrow> nat \<Rightarrow> nat" where
  "chunk m len o' = min m (min (len - o') (512 - o' mod 512))"

lemma chunk_bounds:
  assumes "0 < m" "o' < len"
  shows "0 < chunk m len o'" "chunk m len o' \<le> m" "o' + chunk m len o' \<le> len"
    "chunk m len o' \<le> 512 - o' mod 512"
proof -
  have "o' mod 512 < 512" by simp
  then show "0 < chunk m len o'" "chunk m len o' \<le> m" "o' + chunk m len o' \<le> len"
    "chunk m len o' \<le> 512 - o' mod 512"
    using assms by (simp_all add: chunk_def)
qed

lemma chunk_code:
  assumes "int o' < len"
  shows "(let sector_ofs = int o' mod 512; inode_left = len - int o'; sector_left = 512 - sector_ofs;
      min_left = (if inode_left < sector_left then inode_left else sector_left)
    in (if int m < min_left then int m else min_left)) = int (chunk m (nat len) o')"
proof -
  have a: "int o' mod 512 = int (o' mod 512)" by (simp add: zmod_int)
  have "o' mod 512 < 512" by simp
  then have b: "512 - int (o' mod 512) = int (512 - o' mod 512)" by (simp add: of_nat_diff)
  have c: "len - int o' = int (nat len - o')" using assms by simp
  have "(let sector_ofs = int o' mod 512; inode_left = len - int o'; sector_left = 512 - sector_ofs;
      min_left = (if inode_left < sector_left then inode_left else sector_left)
    in (if int m < min_left then int m else min_left)) =
    min (int m) (min (int (nat len - o')) (int (512 - o' mod 512)))"
    unfolding Let_def a b c min_def by auto
  then show ?thesis by (simp only: chunk_def of_nat_min)
qed

lemma min_split: "c \<le> m \<Longrightarrow> o' + c \<le> n \<Longrightarrow> c + min (m - c) (n - (o' + c)) = min m (n - o')" for c m n o' :: nat
  by linarith

lemma inode_read_loop_step:
  assumes sz: "0 < sz" and s: "byte_to_sector ino len offset st = Some (s, st1)"
    and c: "(let sector_ofs = offset mod 512; inode_left = len - offset; sector_left = 512 - sector_ofs;
      min_left = (if inode_left < sector_left then inode_left else sector_left)
    in (if sz < min_left then sz else min_left)) = c" "0 < c"
    and b: "cache_copy_out s (nat (offset mod 512)) (nat c) (bc st1) = Some (bytes, b)"
  shows "inode_read_loop ino len sz offset acc st =
    inode_read_loop ino len (sz - c) (offset + c) (acc @ bytes) (st1\<lparr>bc := b\<rparr>)"
proof -
  have c0: "\<not> c \<le> 0" using c(2) by simp
  show ?thesis
    by (subst inode_read_loop.simps)
      (simp only: sz s c(1)[unfolded Let_def] c0 b Let_def inode_consts of_nat_numeral if_True if_False
        Option.bind.bind_lunit prod.case)
qed

lemma inode_write_loop_step:
  assumes sz: "0 < sz" and s: "byte_to_sector ino (i_length ino) offset st = Some (s, st1)"
    and c: "(let sector_ofs = offset mod 512; inode_left = i_length ino - offset; sector_left = 512 - sector_ofs;
      min_left = (if inode_left < sector_left then inode_left else sector_left)
    in (if sz < min_left then sz else min_left)) = c" "0 < c"
    and b: "cache_copy_in s (nat (offset mod 512)) (get_bytes (nat w) (nat c) buffer) (bc st1) = Some b"
  shows "inode_write_loop ino buffer sz offset w st =
    inode_write_loop ino buffer (sz - c) (offset + c) (w + c) (st1\<lparr>bc := b\<rparr>)"
proof -
  have c0: "\<not> c \<le> 0" using c(2) by simp
  show ?thesis
    by (subst inode_write_loop.simps)
      (simp only: sz s c(1)[unfolded Let_def] c0 b Let_def inode_consts of_nat_numeral if_True if_False
        Option.bind.bind_lunit prod.case inode_length_def)
qed

lemma chunk_pos:
  assumes "i < c" "c \<le> 512 - o' mod (512::nat)"
  shows "(o' + i) div 512 = o' div 512" "(o' + i) mod 512 = o' mod 512 + i"
proof -
  have "(o' + i) = o' div 512 * 512 + (o' mod 512 + i)" by simp
  moreover have "o' mod 512 + i < 512" using assms by linarith
  ultimately show "(o' + i) div 512 = o' div 512" "(o' + i) mod 512 = o' mod 512 + i"
    by (metis add.right_neutral div_less div_mult_self3 zero_neq_numeral,
        metis mod_less mod_mult_self3)
qed

lemma chunk_bytes:
  assumes "c \<le> 512 - o' mod 512" "length (cview (bc st) (blk (the_disk st) (i_ptr ino) (o' div 512))) = 512"
  shows "get_bytes (o' mod 512) c (cview (bc st) (blk (the_disk st) (i_ptr ino) (o' div 512))) =
    map (fbyte st ino) [o' ..< o' + c]"
proof (rule nth_equalityI)
  fix i
  assume i: "i < length (get_bytes (o' mod 512) c (cview (bc st) (blk (the_disk st) (i_ptr ino) (o' div 512))))"
  then have "i < c" using assms by simp
  then show "get_bytes (o' mod 512) c (cview (bc st) (blk (the_disk st) (i_ptr ino) (o' div 512))) ! i =
      map (fbyte st ino) [o' ..< o' + c] ! i"
    using assms chunk_pos[of i c o'] by (simp add: fbyte_def nth_get_bytes)
qed (use assms in simp)

lemma map_upt_split: "a \<le> b \<Longrightarrow> b \<le> c \<Longrightarrow> map f [a..<b] @ map f [b..<c] = map f [a..<c]"
  by (metis map_append upt_add_eq_append le_add_diff_inverse)

abbreviation data_set :: "fs \<Rightarrow> inode \<Rightarrow> u32 set" where
  "data_set st ino \<equiv> set (datas (the_disk st) (i_ptr ino) (n_blocks (i_length ino)))"

lemma data_set_meta: "inode_ok st ino \<Longrightarrow>
    data_set st ino \<inter> set (metas (the_disk st) (i_ptr ino) (n_blocks (i_length ino))) = {}"
  using inode_okD(4)[of st ino] by auto

lemma blk_data_set: "k < n_blocks (i_length ino) \<Longrightarrow> blk (the_disk st) (i_ptr ino) k \<in> data_set st ino"
  by (simp add: datas_def)

lemma inode_read_loop_ok:
  assumes "cache_idle (bc st)" "inode_ok st ino" "int o' \<le> i_length ino"
  shows "\<exists>st'. inode_read_loop ino (i_length ino) (int m) (int o') acc st =
      Some (acc @ map (fbyte st ino) [o' ..< o' + min m (nat (i_length ino) - o')], st') \<and>
    io_frame (data_set st ino) {} st st'"
  using assms
proof (induction m arbitrary: o' acc st rule: less_induct)
  case (less m)
  note [simp] = inode_consts
  have ok: "inode_ok st ino" and idle: "cache_idle (bc st)" using less.prems by simp_all
  let ?len = "i_length ino" and ?s = "blk (the_disk st) (i_ptr ino) (o' div 512)"
  let ?D = "data_set st ino"
  show ?case
  proof (cases "m = 0")
    case True
    then show ?thesis using io_frame_refl[OF idle] by (simp add: inode_read_loop.simps)
  next
    case m: False
    show ?thesis
    proof (cases "int o' < ?len")
      case False
      then have "?len = int o'" using less.prems(3) by simp
      then show ?thesis using m io_frame_refl[OF idle]
        by (simp add: inode_read_loop.simps byte_to_sector_def)
    next
      case True
      obtain st1 where st1: "byte_to_sector ino ?len (int o') st = Some (?s, st1)" "reads_only st st1"
        using byte_to_sector_ok[OF ok, of "int o'"] True by (metis nat_int of_nat_0_le_iff)
      note r = reads_only_simps[OF st1(2)]
      have k: "o' div 512 < n_blocks ?len" using pos_block[OF True] .
      have s: "?s < bd_size (dev (bc st1))" "?s \<in> ?D"
        using inode_okD(6)[OF ok k] r(5) blk_data_set[OF k] by simp_all
      let ?c = "chunk m (nat ?len) o'"
      obtain b where b: "cache_copy_out ?s (o' mod 512) ?c (bc st1) =
          Some (get_bytes (o' mod 512) ?c (cview (bc st1) ?s), b)" "io_frame ?D {} st1 (st1\<lparr>bc := b\<rparr>)"
        using copy_out_frame[of st1 ?s ?D] idle r(4) s by metis
      have f1: "io_frame ?D {} st (st1\<lparr>bc := b\<rparr>)"
        using io_frame_trans[OF reads_only_frame[OF st1(2) idle] b(2)] .
      have ok1: "inode_ok (st1\<lparr>bc := b\<rparr>) ino"
        and blk1: "\<And>k. k < n_blocks ?len \<Longrightarrow> blk (the_disk (st1\<lparr>bc := b\<rparr>)) (i_ptr ino) k = blk (the_disk st) (i_ptr ino) k"
        using io_frame_inode_ok[OF f1 ok data_set_meta[OF ok]] by auto
      have D1: "data_set (st1\<lparr>bc := b\<rparr>) ino = ?D" using blk1 by (simp add: datas_def)
      have fb: "fbyte (st1\<lparr>bc := b\<rparr>) ino p = fbyte st ino p" if "int p < ?len" for p
        using blk1[OF pos_block[OF that]] io_frame_simps(4)[OF f1] by (simp add: fbyte_def)
      have c0: "0 < ?c" "?c \<le> m" "o' + ?c \<le> nat ?len"
        using chunk_bounds[of m o' "nat ?len"] m True by simp_all
      have bytes: "get_bytes (o' mod 512) ?c (cview (bc st1) ?s) = map (fbyte st ino) [o' ..< o' + ?c]"
        using chunk_bytes[of ?c o' st ino] chunk_bounds(4)[of m o' "nat ?len"] m True
          cview_length[of "bc st"] idle r(2) by (simp add: cache_idle_def)
      have rest: "\<exists>st'. inode_read_loop ino ?len (int (m - ?c)) (int (o' + ?c)) (acc @ map (fbyte st ino) [o' ..< o' + ?c])
          (st1\<lparr>bc := b\<rparr>) = Some ((acc @ map (fbyte st ino) [o' ..< o' + ?c]) @
            map (fbyte (st1\<lparr>bc := b\<rparr>) ino) [o' + ?c ..< o' + ?c + min (m - ?c) (nat ?len - (o' + ?c))], st') \<and>
          io_frame (data_set (st1\<lparr>bc := b\<rparr>) ino) {} (st1\<lparr>bc := b\<rparr>) st'"
        by (rule less.IH) (use c0 m True io_frame_simps(2)[OF f1] ok1 in simp_all)
      then obtain st' where st': "inode_read_loop ino ?len (int (m - ?c)) (int (o' + ?c))
          (acc @ map (fbyte st ino) [o' ..< o' + ?c]) (st1\<lparr>bc := b\<rparr>) = Some ((acc @ map (fbyte st ino) [o' ..< o' + ?c]) @
            map (fbyte (st1\<lparr>bc := b\<rparr>) ino) [o' + ?c ..< o' + ?c + min (m - ?c) (nat ?len - (o' + ?c))], st')"
        "io_frame ?D {} (st1\<lparr>bc := b\<rparr>) st'" using D1 by auto
      have e: "o' + ?c + min (m - ?c) (nat ?len - (o' + ?c)) = o' + min m (nat ?len - o')"
        unfolding min_split[OF c0(2,3), symmetric] by (simp only: add.assoc)
      have le: "o' + ?c \<le> o' + min m (nat ?len - o')"
        unfolding min_split[OF c0(2,3), symmetric] by simp
      have tl: "map (fbyte (st1\<lparr>bc := b\<rparr>) ino) [o' + ?c ..< o' + min m (nat ?len - o')] =
          map (fbyte st ino) [o' + ?c ..< o' + min m (nat ?len - o')]"
        by (rule map_cong) (auto intro!: fb)
      then have out: "(acc @ map (fbyte st ino) [o' ..< o' + ?c]) @
            map (fbyte (st1\<lparr>bc := b\<rparr>) ino) [o' + ?c ..< o' + min m (nat ?len - o')] =
          acc @ map (fbyte st ino) [o' ..< o' + min m (nat ?len - o')]"
        by (simp only: append_assoc tl map_upt_split[OF le_add1 le, of "fbyte st ino"])
      have sub: "int m - int ?c = int (m - ?c)" "int o' + int ?c = int (o' + ?c)" using c0(2) by simp_all
      have ofs: "nat (int o' mod 512) = o' mod 512" by (simp add: nat_mod_distrib)
      have "inode_read_loop ino ?len (int m) (int o') acc st =
        inode_read_loop ino ?len (int (m - ?c)) (int (o' + ?c)) (acc @ map (fbyte st ino) [o' ..< o' + ?c]) (st1\<lparr>bc := b\<rparr>)"
      proof -
        have sz: "0 < int m" "0 < int ?c" using m c0(1) by simp_all
        have cp: "cache_copy_out ?s (nat (int o' mod 512)) (nat (int ?c)) (bc st1) =
            Some (map (fbyte st ino) [o' ..< o' + ?c], b)" unfolding ofs nat_int b(1) bytes ..
        show ?thesis
          by (rule inode_read_loop_step[OF sz(1) st1(1) chunk_code[OF True, of m] sz(2) cp, unfolded sub])
      qed
      then show ?thesis using st'(1) io_frame_trans[OF f1 st'(2)] unfolding e out by simp
    qed
  qed
qed


section \<open>Writing\<close>

lemma data_inj:
  assumes "inode_ok st ino" "i < n_blocks (i_length ino)" "j < n_blocks (i_length ino)"
  shows "blk (the_disk st) (i_ptr ino) i = blk (the_disk st) (i_ptr ino) j \<longleftrightarrow> i = j"
proof -
  have "distinct (datas (the_disk st) (i_ptr ino) (n_blocks (i_length ino)))"
    using inode_okD(4)[OF assms(1)] by simp
  then show ?thesis
    using assms(2,3) by (auto simp: datas_def distinct_map inj_on_def)
qed

lemma div_mod_range:
  "p div 512 = o' div 512 \<Longrightarrow> c \<le> 512 - o' mod (512::nat) \<Longrightarrow>
   (o' mod 512 \<le> p mod 512 \<and> p mod 512 < o' mod 512 + c) = (o' \<le> p \<and> p < o' + c) \<and>
   (o' \<le> p \<longrightarrow> p mod 512 - o' mod 512 = p - o')"
proof -
  assume d: "p div 512 = o' div 512"
  define Q a b where "Q = o' div 512 * 512" and "a = p mod 512" and "b = o' mod 512"
  have "p = Q + a" "o' = Q + b"
    unfolding Q_def a_def b_def using div_mult_mod_eq[of p 512] div_mult_mod_eq[of o' 512] d by simp_all
  then show ?thesis unfolding a_def[symmetric] b_def[symmetric] by simp
qed

lemma chunk_div:
  assumes "o' \<le> p" "p < o' + c" "c \<le> 512 - o' mod (512::nat)"
  shows "p div 512 = o' div 512"
  using chunk_pos(1)[of "p - o'" c o'] assms by simp

lemma fbyte_copy_in:
  assumes ok: "inode_ok st ino" and p: "int p < i_length ino" and o: "int o' < i_length ino"
    and c: "length bytes \<le> 512 - o' mod 512"
    and tree: "\<And>k. k < n_blocks (i_length ino) \<Longrightarrow>
      blk (the_disk st') (i_ptr ino) k = blk (the_disk st) (i_ptr ino) k"
    and view: "cview (bc st') = (cview (bc st))(blk (the_disk st) (i_ptr ino) (o' div 512) :=
      put_bytes (o' mod 512) bytes (cview (bc st) (blk (the_disk st) (i_ptr ino) (o' div 512))))"
    and len: "\<And>s. length (cview (bc st) s) = 512"
  shows "fbyte st' ino p = (if o' \<le> p \<and> p < o' + length bytes then bytes ! (p - o') else fbyte st ino p)"
proof (cases "p div 512 = o' div 512")
  case True
  have "o' mod 512 < 512" by simp
  then have "o' mod 512 + length bytes \<le> 512" using c by linarith
  then show ?thesis
    using view tree[OF pos_block[OF p]] True div_mod_range[OF True c] len
    by (auto simp: fbyte_def nth_put_bytes)
next
  case False
  then have "\<not> (o' \<le> p \<and> p < o' + length bytes)" using chunk_div[OF _ _ c] by blast
  moreover have "blk (the_disk st) (i_ptr ino) (p div 512) \<noteq> blk (the_disk st) (i_ptr ino) (o' div 512)"
    using data_inj[OF ok pos_block[OF p] pos_block[OF o]] False by simp
  ultimately show ?thesis using view tree[OF pos_block[OF p]] by (auto simp: fbyte_def)
qed

lemma inode_write_loop_ok:
  assumes "cache_idle (bc st)" "inode_ok st ino" "int o' \<le> i_length ino" "w + m \<le> length buffer"
  shows "\<exists>st'. inode_write_loop ino buffer (int m) (int o') (int w) st =
      Some (int (w + min m (nat (i_length ino) - o')), st') \<and>
    io_frame (data_set st ino) (data_set st ino) st st' \<and>
    (\<forall>p. int p < i_length ino \<longrightarrow> fbyte st' ino p =
       (if o' \<le> p \<and> p < o' + min m (nat (i_length ino) - o') then buffer ! (w + (p - o')) else fbyte st ino p))"
  using assms
proof (induction m arbitrary: o' w st rule: less_induct)
  case (less m)
  note [simp] = inode_consts
  have ok: "inode_ok st ino" and idle: "cache_idle (bc st)" using less.prems by simp_all
  let ?len = "i_length ino" and ?s = "blk (the_disk st) (i_ptr ino) (o' div 512)"
  let ?D = "data_set st ino"
  show ?case
  proof (cases "m = 0 \<or> \<not> int o' < ?len")
    case True
    then have z: "min m (nat ?len - o') = 0" by auto
    have "inode_write_loop ino buffer (int m) (int o') (int w) st = Some (int w, st)"
      using True less.prems(3)
      by (subst inode_write_loop.simps) (auto simp: byte_to_sector_def inode_length_def)
    then show ?thesis unfolding z using io_frame_refl[OF idle] by auto
  next
    case False
    then have m: "0 < m" and lt: "int o' < ?len" by simp_all
    obtain st1 where st1: "byte_to_sector ino ?len (int o') st = Some (?s, st1)" "reads_only st st1"
      using byte_to_sector_ok[OF ok, of "int o'"] lt by (metis nat_int of_nat_0_le_iff)
    note r = reads_only_simps[OF st1(2)]
    have k: "o' div 512 < n_blocks ?len" using pos_block[OF lt] .
    have s: "?s < bd_size (dev (bc st1))" "?s \<in> ?D"
      using inode_okD(6)[OF ok k] r(5) blk_data_set[OF k] by simp_all
    let ?c = "chunk m (nat ?len) o'" let ?bytes = "get_bytes w ?c buffer"
    have c0: "0 < ?c" "?c \<le> m" "o' + ?c \<le> nat ?len" "?c \<le> 512 - o' mod 512"
      using chunk_bounds[of m o' "nat ?len"] m lt by simp_all
    have lb: "length ?bytes = ?c" using c0(2) less.prems(4) by simp
    have "o' mod 512 < 512" by simp
    then have fit: "o' mod 512 + length ?bytes \<le> 512" using c0(4) unfolding lb by linarith
    obtain b where b: "cache_copy_in ?s (o' mod 512) ?bytes (bc st1) = Some b"
      "io_frame ?D ?D st1 (st1\<lparr>bc := b\<rparr>)"
      "cview b = (cview (bc st1))(?s := put_bytes (o' mod 512) ?bytes (cview (bc st1) ?s))"
      using copy_in_frame[OF _ s fit] idle r(4) by metis
    have f1: "io_frame ?D ?D st (st1\<lparr>bc := b\<rparr>)"
      using io_frame_trans[OF reads_only_frame[OF st1(2) idle] b(2)] .
    have ok1: "inode_ok (st1\<lparr>bc := b\<rparr>) ino"
      and blk1: "\<And>k. k < n_blocks ?len \<Longrightarrow> blk (the_disk (st1\<lparr>bc := b\<rparr>)) (i_ptr ino) k = blk (the_disk st) (i_ptr ino) k"
      using io_frame_inode_ok[OF f1 ok data_set_meta[OF ok]] by auto
    have D1: "data_set (st1\<lparr>bc := b\<rparr>) ino = ?D" using blk1 by (simp add: datas_def)
    have len512: "length (cview (bc st) s) = 512" for s using cview_length idle by (simp add: cache_idle_def)
    have fb: "fbyte (st1\<lparr>bc := b\<rparr>) ino p =
        (if o' \<le> p \<and> p < o' + ?c then buffer ! (w + (p - o')) else fbyte st ino p)" if "int p < ?len" for p
    proof -
      have "?bytes ! (p - o') = buffer ! (w + (p - o'))" if "o' \<le> p" "p < o' + ?c"
        by (rule nth_get_bytes) (use that c0(2) less.prems(4) in linarith)+
      moreover have "fbyte (st1\<lparr>bc := b\<rparr>) ino p =
          (if o' \<le> p \<and> p < o' + length ?bytes then ?bytes ! (p - o') else fbyte st ino p)"
        by (rule fbyte_copy_in[OF ok that lt _ blk1 _ len512]) (use b(3) r(2) c0(4) lb in simp_all)
      ultimately show ?thesis unfolding lb by simp
    qed
    have sub: "int m - int ?c = int (m - ?c)" "int o' + int ?c = int (o' + ?c)" "int w + int ?c = int (w + ?c)"
      using c0(2) by simp_all
    have ofs: "nat (int o' mod 512) = o' mod 512" by (simp add: nat_mod_distrib)
    have step: "inode_write_loop ino buffer (int m) (int o') (int w) st =
      inode_write_loop ino buffer (int (m - ?c)) (int (o' + ?c)) (int (w + ?c)) (st1\<lparr>bc := b\<rparr>)"
    proof -
      have sz: "0 < int m" "0 < int ?c" using m c0(1) by simp_all
      have cp: "cache_copy_in ?s (nat (int o' mod 512)) (get_bytes (nat (int w)) (nat (int ?c)) buffer) (bc st1) =
          Some b" unfolding ofs nat_int b(1) ..
      show ?thesis
        by (rule inode_write_loop_step[OF sz(1) st1(1) chunk_code[OF lt, of m] sz(2) cp, unfolded sub])
    qed
    have "\<exists>st'. inode_write_loop ino buffer (int (m - ?c)) (int (o' + ?c)) (int (w + ?c)) (st1\<lparr>bc := b\<rparr>) =
        Some (int (w + ?c + min (m - ?c) (nat ?len - (o' + ?c))), st') \<and>
      io_frame (data_set (st1\<lparr>bc := b\<rparr>) ino) (data_set (st1\<lparr>bc := b\<rparr>) ino) (st1\<lparr>bc := b\<rparr>) st' \<and>
      (\<forall>p. int p < ?len \<longrightarrow> fbyte st' ino p =
       (if o' + ?c \<le> p \<and> p < o' + ?c + min (m - ?c) (nat ?len - (o' + ?c))
        then buffer ! (w + ?c + (p - (o' + ?c))) else fbyte (st1\<lparr>bc := b\<rparr>) ino p))"
      by (rule less.IH) (use c0 m lt less.prems(4) io_frame_simps(2)[OF f1] ok1 in simp_all)
    then obtain st' where st': "inode_write_loop ino buffer (int (m - ?c)) (int (o' + ?c)) (int (w + ?c)) (st1\<lparr>bc := b\<rparr>) =
        Some (int (w + ?c + min (m - ?c) (nat ?len - (o' + ?c))), st')"
      "io_frame ?D ?D (st1\<lparr>bc := b\<rparr>) st'"
      and fb': "\<And>p. int p < ?len \<Longrightarrow> fbyte st' ino p =
       (if o' + ?c \<le> p \<and> p < o' + ?c + min (m - ?c) (nat ?len - (o' + ?c))
        then buffer ! (w + ?c + (p - (o' + ?c))) else fbyte (st1\<lparr>bc := b\<rparr>) ino p)"
      using D1 by auto
    have e: "?c + min (m - ?c) (nat ?len - (o' + ?c)) = min m (nat ?len - o')"
      using min_split[OF c0(2,3)] .
    have "fbyte st' ino p = (if o' \<le> p \<and> p < o' + min m (nat ?len - o') then buffer ! (w + (p - o'))
        else fbyte st ino p)" if "int p < ?len" for p
    proof -
      have "w + ?c + (p - (o' + ?c)) = w + (p - o')" if "o' + ?c \<le> p" using that by linarith
      then show ?thesis using fb'[OF that] fb[OF that] c0(2,3) unfolding e[symmetric] by auto
    qed
    moreover have "w + ?c + min (m - ?c) (nat ?len - (o' + ?c)) = w + min m (nat ?len - o')"
      unfolding e[symmetric] by (simp only: add.assoc)
    ultimately show ?thesis using st'(1) io_frame_trans[OF f1 st'(2)] unfolding step by simp
  qed
qed


section \<open>Properties\<close>

lemma get_bytes_map_upt:
  "get_bytes o' m (map f [0..<n]) = map f [o' ..< o' + min m (n - o')]"
  by (rule nth_equalityI) (auto simp: nth_get_bytes)

lemma io_frame_file_bytes:
  assumes "io_frame C V st st'" "inode_ok st ino" "V \<inter> data_set st ino = {}"
    "C \<inter> set (metas (the_disk st) (i_ptr ino) (n_blocks (i_length ino))) = {}"
  shows "file_bytes st' ino = file_bytes st ino"
proof -
  have "fbyte st' ino p = fbyte st ino p" if "int p < i_length ino" for p
  proof -
    have "blk (the_disk st) (i_ptr ino) (p div 512) \<notin> V"
      using blk_data_set[OF pos_block[OF that]] assms(3) by blast
    then show ?thesis
      using io_frame_inode_ok(2)[OF assms(1,2,4) pos_block[OF that]] io_frame_simps(4)[OF assms(1)]
      by (simp add: fbyte_def)
  qed
  then show ?thesis by (auto simp: file_bytes_def)
qed

definition demo_inode :: inode where
  "demo_inode = \<lparr>i_sector = 2, i_open_cnt = 1, i_removed = False, i_deny_write_cnt = 0, i_length = 600,
     i_read_length = 600, i_direct = 2, i_indirect = 0, i_double = 0, i_isdir = False, i_parent = 1,
     i_lock = False, i_ptr = [10, 11] @ replicate 12 0\<rparr>"

definition demo_fs :: fs where
  "demo_fs = \<lparr>bc = demo_cache, inodes = [7 \<mapsto> demo_inode], open_inodes = [7], objs = Map.empty, fresh = 8,
     free_map = \<lparr>bit_cnt = 100, bits = [0xFFF, 0, 0, 0]\<rparr>, free_map_file = None, cwd = None,
     stack_junk = replicate 128 0\<rparr>"

lemma demo_datas: "datas d (i_ptr demo_inode) 2 = [10, 11]" "metas d (i_ptr demo_inode) 2 = []"
proof -
  have "[0..<2::nat] = [0, 1]" by (simp add: upt_rec)
  then show "datas d (i_ptr demo_inode) 2 = [10, 11]" "metas d (i_ptr demo_inode) 2 = []"
    by (simp_all add: datas_def metas_def n_ind_def blk_def demo_inode_def)
qed

lemma demo_inode_ok: "inode_ok demo_fs demo_inode"
proof -
  have "n_blocks (i_length demo_inode) = 2" by (simp add: n_blocks_def demo_inode_def)
  then show ?thesis
    by (simp add: inode_ok_def Let_def demo_datas)
      (simp add: demo_inode_def demo_fs_def MAX_FILE_SIZE_def demo_cache_def demo_dev_def)
qed

lemma demo_fs_simps [simp]:
  "get_inode 7 demo_fs = Some demo_inode" "bc demo_fs = demo_cache" "i_length demo_inode = 600"
  "i_read_length demo_inode = 600" "i_deny_write_cnt demo_inode = 0"
  by (simp_all add: get_inode_def demo_fs_def demo_inode_def)

text \<open>
  \<open>byte_to_sector\<close> finds, through direct, indirect and doubly indirect blocks, the
  sector of the data block of the offset: two different blocks of a well-formed inode never
  share a sector, and the only change of state is the read counter of the device.
\<close>

theorem byte_to_sector_correct:
  assumes "inode_ok st ino" "0 \<le> pos" "pos < i_length ino"
  shows "\<exists>st'. byte_to_sector ino (i_length ino) pos st =
      Some (blk (the_disk st) (i_ptr ino) (nat pos div 512), st') \<and> reads_only st st' \<and>
    (\<forall>q. 0 \<le> q \<longrightarrow> q < i_length ino \<longrightarrow>
      (blk (the_disk st) (i_ptr ino) (nat q div 512) = blk (the_disk st) (i_ptr ino) (nat pos div 512)) =
      (nat q div 512 = nat pos div 512))"
proof -
  have "nat q div 512 < n_blocks (i_length ino)" if "0 \<le> q" "q < i_length ino" for q
    using pos_block[of "nat q" "i_length ino"] that by simp
  then show ?thesis
    using byte_to_sector_ok[OF assms] data_inj[OF assms(1)] assms(2,3) by metis
qed

theorem byte_to_sector_correct_witness:
  "\<exists>st'. byte_to_sector demo_inode 600 513 demo_fs = Some (11, st')"
  using byte_to_sector_correct[OF demo_inode_ok, of 513] by (auto simp: blk_def demo_inode_def)

lemma inode_read_at_ok:
  assumes "cache_idle (bc st)" "get_inode p st = Some ino" "inode_ok st ino"
    "i_read_length ino = i_length ino" "0 \<le> ofs"
  obtains st' where "inode_read_at p sz ofs st = Some (get_bytes (nat ofs) (nat sz) (file_bytes st ino), st')"
    "io_frame (data_set st ino) {} st st'"
proof -
  have bytes: "get_bytes (nat ofs) (nat sz) (file_bytes st ino) =
      map (fbyte st ino) [nat ofs ..< nat ofs + min (nat sz) (nat (i_length ino) - nat ofs)]"
    by (simp add: file_bytes_def get_bytes_map_upt)
  have "\<exists>st'. inode_read_at p sz ofs st = Some (get_bytes (nat ofs) (nat sz) (file_bytes st ino), st') \<and>
    io_frame (data_set st ino) {} st st'"
  proof (cases "ofs < i_length ino \<and> 0 < sz")
    case True
    then show ?thesis
      using inode_read_loop_ok[OF assms(1,3), of "nat ofs" "nat sz" "[]"] assms bytes
      by (simp add: inode_read_at_def)
  next
    case False
    then have "inode_read_at p sz ofs st = Some ([], st)"
      using assms by (auto simp: inode_read_at_def inode_read_loop.simps Let_def)
    moreover have "get_bytes (nat ofs) (nat sz) (file_bytes st ino) = []"
      using False by (auto simp: bytes)
    ultimately show ?thesis using io_frame_refl[OF assms(1)] by simp
  qed
  then show ?thesis using that by blast
qed

text \<open>
  C5: \<open>inode_read_at\<close> returns exactly the bytes of the file in the requested range, cut off at
  the end of the file, and changes neither this file nor any other sector's contents.
\<close>

theorem inode_read_at_correct:
  assumes "cache_idle (bc st)" "get_inode p st = Some ino" "inode_ok st ino"
    "i_read_length ino = i_length ino" "0 \<le> ofs"
  shows "\<exists>st'. inode_read_at p sz ofs st =
      Some (get_bytes (nat ofs) (nat sz) (file_bytes st ino), st') \<and>
    cview (bc st') = cview (bc st) \<and> inodes st' = inodes st \<and> cache_idle (bc st') \<and> inode_ok st' ino \<and>
    file_bytes st' ino = file_bytes st ino"
proof -
  obtain st' where s: "inode_read_at p sz ofs st = Some (get_bytes (nat ofs) (nat sz) (file_bytes st ino), st')"
    "io_frame (data_set st ino) {} st st'" using inode_read_at_ok[OF assms] .
  then show ?thesis
    using io_frame_simps[OF s(2)] io_frame_inode_ok(1)[OF s(2) assms(3) data_set_meta[OF assms(3)]]
      io_frame_file_bytes[OF s(2) assms(3) _ data_set_meta[OF assms(3)]] by auto
qed

theorem inode_read_at_correct_witness:
  "\<exists>bs st'. inode_read_at 7 20 590 demo_fs = Some (bs, st') \<and> length bs = 10"
proof -
  have "length (get_bytes 590 20 (file_bytes demo_fs demo_inode)) = 10" by (simp add: file_bytes_def)
  then show ?thesis
    using inode_read_at_correct[OF _ _ demo_inode_ok, of 7 590 20] by auto
qed

lemma inode_write_at_ok:
  assumes "cache_idle (bc st)" "get_inode p st = Some ino" "inode_ok st ino"
    "i_deny_write_cnt ino = 0" "0 \<le> ofs" "0 \<le> sz" "ofs + sz \<le> i_length ino" "nat sz \<le> length buffer"
  defines "ino' \<equiv> ino\<lparr>i_read_length := i_length ino\<rparr>"
  obtains st1 where "inode_write_at alloc p buffer sz ofs st = Some (sz, put_inode p ino' st1)"
    "io_frame (data_set st ino) (data_set st ino) st st1" "inode_ok (put_inode p ino' st1) ino'"
    "file_bytes (put_inode p ino' st1) ino' = put_bytes (nat ofs) (take (nat sz) buffer) (file_bytes st ino)"
proof -
  let ?ino = "ino\<lparr>i_read_length := i_length ino\<rparr>" and ?o = "nat ofs" and ?m = "nat sz" and ?len = "nat (i_length ino)"
  have fits: "?o + ?m \<le> ?len" "min ?m (?len - ?o) = ?m" using assms(5-7) by linarith+
  have "\<exists>st'. inode_write_loop ino buffer (int ?m) (int ?o) (int 0) st = Some (int (0 + ?m), st') \<and>
    io_frame (data_set st ino) (data_set st ino) st st' \<and>
    (\<forall>p. int p < i_length ino \<longrightarrow> fbyte st' ino p =
       (if ?o \<le> p \<and> p < ?o + ?m then buffer ! (0 + (p - ?o)) else fbyte st ino p))"
    using inode_write_loop_ok[OF assms(1,3), of ?o 0 ?m buffer] assms(5-8) unfolding fits(2) by simp
  then obtain st1 where w: "inode_write_loop ino buffer sz ofs 0 st = Some (sz, st1)"
    "io_frame (data_set st ino) (data_set st ino) st st1"
    "\<And>p. int p < i_length ino \<Longrightarrow> fbyte st1 ino p =
       (if ?o \<le> p \<and> p < ?o + ?m then buffer ! (p - ?o) else fbyte st ino p)"
    using assms(5,6) by auto
  let ?st = "put_inode p ?ino st1"
  have off: "off (ofs + sz) = Some (ofs + sz)"
    using assms(5-7) inode_okD(3)[OF assms(3)] by (simp add: off_def MAX_FILE_SIZE_def)
  have "inode_write_at alloc p buffer sz ofs st = Some (sz, ?st)"
    using assms(2,4,7) w(1) off io_frame_simps(1)[OF w(2)]
    by (simp add: inode_write_at_def inode_length_def get_inode_def)
  moreover have "file_bytes ?st ?ino = put_bytes ?o (take ?m buffer) (file_bytes st ino)"
  proof (rule nth_equalityI)
    show l: "length (file_bytes ?st ?ino) = length (put_bytes ?o (take ?m buffer) (file_bytes st ino))"
      using fits(1) assms(8) by (simp add: file_bytes_def)
    fix i assume "i < length (file_bytes ?st ?ino)"
    then have i: "i < ?len" by (simp add: file_bytes_def)
    have "fbyte ?st ?ino i = fbyte st1 ino i" by (simp add: fbyte_def put_inode_def the_disk_def)
    then have "file_bytes ?st ?ino ! i =
        (if ?o \<le> i \<and> i < ?o + ?m then buffer ! (i - ?o) else fbyte st ino i)"
      using w(3)[of i] i by (simp add: file_bytes_def)
    also have "\<dots> = put_bytes ?o (take ?m buffer) (file_bytes st ino) ! i"
    proof -
      have l: "length (file_bytes st ino) = ?len" "file_bytes st ino ! i = fbyte st ino i"
        using i by (simp_all add: file_bytes_def)
      show ?thesis
        using nth_put_take[of ?o ?m "file_bytes st ino" buffer i] fits(1) assms(8) i unfolding l by simp
    qed
    finally show "file_bytes ?st ?ino ! i = put_bytes ?o (take ?m buffer) (file_bytes st ino) ! i" .
  qed
  moreover have "inode_ok ?st ?ino"
    using io_frame_inode_ok(1)[OF w(2) assms(3) data_set_meta[OF assms(3)]]
    by (simp add: inode_ok_def put_inode_def the_disk_def)
  ultimately show ?thesis
    using that[of st1] w(2) unfolding ino'_def by blast
qed

text \<open>
  C6: \<open>inode_write_at\<close> inside the file stores exactly the buffer at the offset: it returns
  the number of bytes asked for, the new contents is the old one with the range replaced,
  and no sector outside the file changes for any reader.
\<close>

theorem inode_write_at_inside:
  assumes "cache_idle (bc st)" "get_inode p st = Some ino" "inode_ok st ino"
    "i_deny_write_cnt ino = 0" "0 \<le> ofs" "0 \<le> sz" "ofs + sz \<le> i_length ino" "nat sz \<le> length buffer"
  shows "\<exists>st' ino'. inode_write_at alloc p buffer sz ofs st = Some (sz, st') \<and>
    ino' = ino\<lparr>i_read_length := i_length ino\<rparr> \<and> inodes st' = (inodes st)(p \<mapsto> ino') \<and>
    cache_idle (bc st') \<and> inode_ok st' ino' \<and>
    file_bytes st' ino' = put_bytes (nat ofs) (take (nat sz) buffer) (file_bytes st ino) \<and>
    (\<forall>s. s \<notin> set (datas (the_disk st) (i_ptr ino) (n_blocks (i_length ino))) \<longrightarrow>
       cview (bc st') s = cview (bc st) s)"
proof -
  obtain st1 where w: "inode_write_at alloc p buffer sz ofs st =
      Some (sz, put_inode p (ino\<lparr>i_read_length := i_length ino\<rparr>) st1)"
    "io_frame (data_set st ino) (data_set st ino) st st1"
    "inode_ok (put_inode p (ino\<lparr>i_read_length := i_length ino\<rparr>) st1) (ino\<lparr>i_read_length := i_length ino\<rparr>)"
    "file_bytes (put_inode p (ino\<lparr>i_read_length := i_length ino\<rparr>) st1) (ino\<lparr>i_read_length := i_length ino\<rparr>) =
      put_bytes (nat ofs) (take (nat sz) buffer) (file_bytes st ino)"
    using inode_write_at_ok[OF assms] .
  then show ?thesis
    using io_frame_simps[OF w(2)] by (auto simp: put_inode_def)
qed

theorem inode_write_at_inside_witness:
  "\<exists>st' ino'. inode_write_at (\<lambda>st. None) 7 [1, 2, 3] 3 511 demo_fs = Some (3, st') \<and>
     file_bytes st' ino' = put_bytes 511 [1, 2, 3] (file_bytes demo_fs demo_inode)"
  using inode_write_at_inside[OF _ _ demo_inode_ok, of 7 511 3 "[1, 2, 3]" "\<lambda>st. None"]
  by force

end
