(* ===== verification/KFreeMap.thy ===== *)
theory KFreeMap imports KInodeIO begin

text \<open>
  The free map, \<open>filesys/free-map.c\<close>, open files, \<open>filesys/file.c\<close>, and the two bitmap
  operations on files.  The free map is a bitmap in memory whose bits mark sectors in use and
  which is written to its file after every change.  Writing the file could itself need
  sectors; \<open>free_map_allocate_n\<close> unfolds that recursion.  Three levels are enough: the first
  nested growth takes the lock of the free map's inode, so the second one stops the kernel
  when it takes the lock again, and a level below it is never reached.
\<close>

section \<open>Open files\<close>

text \<open>\<open>close\<close> and \<open>write\<close> stand for \<open>inode_close\<close> and \<open>inode_write_at\<close>, which the operations call.\<close>

definition new_obj :: "fobj \<Rightarrow> fs \<Rightarrow> addr \<times> fs" where
  "new_obj x st = (fresh st, st\<lparr>fresh := fresh st + 1, objs := (objs st)(fresh st \<mapsto> x)\<rparr>)"

definition get_file :: "addr \<Rightarrow> fs \<Rightarrow> open_file option" where
  "get_file f st = (case objs st f of Some (File x) \<Rightarrow> Some x | _ \<Rightarrow> None)"

definition put_file :: "addr \<Rightarrow> open_file \<Rightarrow> fs \<Rightarrow> fs" where
  "put_file f x st = st\<lparr>objs := (objs st)(f \<mapsto> File x)\<rparr>"

definition free_obj :: "addr \<Rightarrow> fs \<Rightarrow> fs" where
  "free_obj f st = st\<lparr>objs := (objs st)(f := None)\<rparr>"

type_synonym closer = "addr option \<Rightarrow> fs \<Rightarrow> fs option"
type_synonym writer = "addr \<Rightarrow> u8 list \<Rightarrow> int \<Rightarrow> int \<Rightarrow> fs \<Rightarrow> (int \<times> fs) option"

definition file_open :: "closer \<Rightarrow> addr option \<Rightarrow> fs \<Rightarrow> (addr option \<times> fs) option" where
  "file_open close inode st = (let (m, st) = fs_malloc st in
     case inode of
       Some p \<Rightarrow>
         if m then let (f, st) = new_obj (File \<lparr>f_inode = p, f_pos = 0, f_deny = False\<rparr>) st in Some (Some f, st)
         else do { st \<leftarrow> close inode st; Some (None, st) }
     | None \<Rightarrow> do { st \<leftarrow> close inode st; Some (None, st) })"

definition file_reopen :: "closer \<Rightarrow> addr \<Rightarrow> fs \<Rightarrow> (addr option \<times> fs) option" where
  "file_reopen close f st = do {
     x \<leftarrow> get_file f st;
     (p, st) \<leftarrow> inode_reopen (f_inode x) st;
     file_open close (Some p) st
   }"

definition file_get_inode :: "addr \<Rightarrow> fs \<Rightarrow> addr option" where
  "file_get_inode f st = map_option f_inode (get_file f st)"

definition file_deny_write :: "addr \<Rightarrow> fs \<Rightarrow> fs option" where
  "file_deny_write f st = do {
     x \<leftarrow> get_file f st;
     if \<not> f_deny x then inode_deny_write (f_inode x) (put_file f (x\<lparr>f_deny := True\<rparr>) st)
     else Some st
   }"

definition file_allow_write :: "addr \<Rightarrow> fs \<Rightarrow> fs option" where
  "file_allow_write f st = do {
     x \<leftarrow> get_file f st;
     if f_deny x then inode_allow_write (f_inode x) (put_file f (x\<lparr>f_deny := False\<rparr>) st)
     else Some st
   }"

definition file_close :: "closer \<Rightarrow> addr option \<Rightarrow> fs \<Rightarrow> fs option" where
  "file_close close fo st = (case fo of
     None \<Rightarrow> Some st
   | Some f \<Rightarrow> do {
       st \<leftarrow> file_allow_write f st;
       x \<leftarrow> get_file f st;
       st \<leftarrow> close (Some (f_inode x)) st;
       Some (free_obj f st)
     })"

definition file_read :: "addr \<Rightarrow> int \<Rightarrow> fs \<Rightarrow> (u8 list \<times> fs) option" where
  "file_read f sz st = do {
     x \<leftarrow> get_file f st;
     (bytes, st) \<leftarrow> inode_read_at (f_inode x) sz (f_pos x) st;
     pos \<leftarrow> off (f_pos x + int (length bytes));
     Some (bytes, put_file f (x\<lparr>f_pos := pos\<rparr>) st)
   }"

definition file_read_at :: "addr \<Rightarrow> int \<Rightarrow> int \<Rightarrow> fs \<Rightarrow> (u8 list \<times> fs) option" where
  "file_read_at f sz file_ofs st = do {
     x \<leftarrow> get_file f st;
     inode_read_at (f_inode x) sz file_ofs st
   }"

definition file_write :: "writer \<Rightarrow> addr \<Rightarrow> u8 list \<Rightarrow> int \<Rightarrow> fs \<Rightarrow> (int \<times> fs) option" where
  "file_write write f buffer sz st = do {
     x \<leftarrow> get_file f st;
     (n, st) \<leftarrow> write (f_inode x) buffer sz (f_pos x) st;
     pos \<leftarrow> off (f_pos x + n);
     Some (n, put_file f (x\<lparr>f_pos := pos\<rparr>) st)
   }"

definition file_write_at :: "writer \<Rightarrow> addr \<Rightarrow> u8 list \<Rightarrow> int \<Rightarrow> int \<Rightarrow> fs \<Rightarrow> (int \<times> fs) option" where
  "file_write_at write f buffer sz file_ofs st = do {
     x \<leftarrow> get_file f st;
     write (f_inode x) buffer sz file_ofs st
   }"

definition file_length :: "addr \<Rightarrow> fs \<Rightarrow> int option" where
  "file_length f st = do {
     x \<leftarrow> get_file f st;
     ino \<leftarrow> get_inode (f_inode x) st;
     Some (inode_length ino)
   }"

definition file_seek :: "addr \<Rightarrow> int \<Rightarrow> fs \<Rightarrow> fs option" where
  "file_seek f new_pos st = do {
     x \<leftarrow> get_file f st;
     ASSERT (new_pos \<ge> 0);
     Some (put_file f (x\<lparr>f_pos := new_pos\<rparr>) st)
   }"

definition file_tell :: "addr \<Rightarrow> fs \<Rightarrow> int option" where
  "file_tell f st = do { x \<leftarrow> get_file f st; Some (f_pos x) }"

section \<open>Bitmaps in files\<close>

text \<open>
  \<open>bitmap_read\<close> overwrites the words of the bitmap with the bytes read (a short read leaves
  the rest) and clears the bits past the end; \<open>bitmap_write\<close> writes all words.
\<close>

definition bytes_words :: "u8 list \<Rightarrow> u32 list" where
  "bytes_words b = map (word_at b) [0..<length b div 4]"

definition bitmap_read :: "bitmap \<Rightarrow> addr \<Rightarrow> fs \<Rightarrow> (bool \<times> bitmap \<times> fs) option" where
  "bitmap_read b file st =
     (if bit_cnt b > 0 then do {
        let sz = byte_cnt (bit_cnt b);
        (bytes, st) \<leftarrow> file_read_at file (int sz) 0 st;
        let ws = bytes_words (put_bytes 0 bytes (words_bytes (bits b)));
        let b = b\<lparr>bits := ws\<rparr>;
        let i = elem_cnt (bit_cnt b) - 1;
        ASSERT (i < length ws);
        Some (length bytes = sz, b\<lparr>bits := ws[i := and (ws ! i) (last_mask b)]\<rparr>, st)
      }
      else Some (True, b, st))"

definition bitmap_write :: "writer \<Rightarrow> bitmap \<Rightarrow> addr \<Rightarrow> fs \<Rightarrow> (bool \<times> fs) option" where
  "bitmap_write write b file st = do {
     let sz = byte_cnt (bit_cnt b);
     (n, st) \<leftarrow> file_write_at write file (words_bytes (bits b)) (int sz) 0 st;
     Some (n = int sz, st)
   }"

section \<open>The free map\<close>

definition free_map_init :: "bool \<Rightarrow> bool \<Rightarrow> u32 list \<Rightarrow> fs \<Rightarrow> fs option" where
  "free_map_init m1 m2 junk st = do {
     b \<leftarrow> bitmap_create m1 m2 junk (unat (bd_size (dev (bc st))));
     ASSERT (b \<noteq> None);
     b \<leftarrow> bitmap_mark (the b) (unat FREE_MAP_SECTOR);
     b \<leftarrow> bitmap_mark b (unat ROOT_DIR_SECTOR);
     Some (st\<lparr>free_map := b\<rparr>)
   }"

text \<open>The sector stored through \<open>sectorp\<close>, or \<open>None\<close> for the result \<open>false\<close>.\<close>

definition free_map_allocate_w :: "writer \<Rightarrow> nat \<Rightarrow> fs \<Rightarrow> (u32 option \<times> fs) option" where
  "free_map_allocate_w write cnt st = do {
     (sector, b) \<leftarrow> bitmap_scan_and_flip (free_map st) 0 cnt False;
     let st = st\<lparr>free_map := b\<rparr>;
     if sector = BITMAP_ERROR then Some (None, st)
     else (case free_map_file st of
         None \<Rightarrow> Some (Some (of_nat sector), st)
       | Some f \<Rightarrow> do {
           (ok, st) \<leftarrow> bitmap_write write b f st;
           if ok then Some (Some (of_nat sector), st)
           else do {
             b \<leftarrow> bitmap_set_multiple (free_map st) sector cnt False;
             Some (None, st\<lparr>free_map := b\<rparr>)
           }
         })
   }"

definition free_map_release_w :: "writer \<Rightarrow> u32 \<Rightarrow> nat \<Rightarrow> fs \<Rightarrow> fs option" where
  "free_map_release_w write sector cnt st = do {
     all \<leftarrow> bitmap_all (free_map st) (unat sector) cnt;
     ASSERT all;
     b \<leftarrow> bitmap_set_multiple (free_map st) (unat sector) cnt False;
     f \<leftarrow> free_map_file st;
     (ok, st) \<leftarrow> bitmap_write write b f (st\<lparr>free_map := b\<rparr>);
     Some st
   }"

fun free_map_allocate_n :: "nat \<Rightarrow> nat \<Rightarrow> fs \<Rightarrow> (u32 option \<times> fs) option" where
  "free_map_allocate_n 0 cnt st = None"
| "free_map_allocate_n (Suc n) cnt st =
     free_map_allocate_w (inode_write_at (free_map_allocate_n n 1)) cnt st"

definition free_map_allocate :: "nat \<Rightarrow> fs \<Rightarrow> (u32 option \<times> fs) option" where
  "free_map_allocate cnt st = free_map_allocate_n 3 cnt st"

text \<open>The operations above with the recursion closed: what the rest of the kernel calls.\<close>

definition alloc1 :: allocator where
  "alloc1 st = free_map_allocate 1 st"

definition write_at :: writer where
  "write_at = inode_write_at alloc1"

definition free_map_release :: "u32 \<Rightarrow> nat \<Rightarrow> fs \<Rightarrow> fs option" where
  "free_map_release sector cnt st = free_map_release_w write_at sector cnt st"

definition release1 :: releaser where
  "release1 sector st = free_map_release sector 1 st"

definition close_inode :: closer where
  "close_inode = inode_close release1"

definition free_map_open :: "fs \<Rightarrow> fs option" where
  "free_map_open st = do {
     (p, st) \<leftarrow> inode_open FREE_MAP_SECTOR st;
     (f, st) \<leftarrow> file_open close_inode p st;
     let st = st\<lparr>free_map_file := f\<rparr>;
     file \<leftarrow> f;
     (ok, b, st) \<leftarrow> bitmap_read (free_map st) file st;
     ASSERT ok;
     Some (st\<lparr>free_map := b\<rparr>)
   }"

definition free_map_close :: "fs \<Rightarrow> fs option" where
  "free_map_close st = file_close close_inode (free_map_file st) st"

definition free_map_create :: "fs \<Rightarrow> fs option" where
  "free_map_create st = do {
     (ok, st) \<leftarrow> inode_create alloc1 FREE_MAP_SECTOR (int (bitmap_file_size (free_map st))) False st;
     ASSERT ok;
     (p, st) \<leftarrow> inode_open FREE_MAP_SECTOR st;
     (f, st) \<leftarrow> file_open close_inode p st;
     let st = st\<lparr>free_map_file := f\<rparr>;
     file \<leftarrow> f;
     (ok, st) \<leftarrow> bitmap_write write_at (free_map st) file st;
     ASSERT ok;
     Some st
   }"


section \<open>Contracts\<close>

lemma length_words_bytes [simp]: "length (words_bytes ws) = 4 * length ws"
  by (induction ws) (simp_all add: words_bytes_def)

lemma bitmap_file_fits:
  assumes "bitmap_ok b"
  shows "length (words_bytes (bits b)) = byte_cnt (bit_cnt b)" "byte_cnt (bit_cnt b) < 2 ^ 31"
proof -
  show "length (words_bytes (bits b)) = byte_cnt (bit_cnt b)"
    using assms by (simp add: bitmap_ok_def byte_cnt_def)
  have "bit_cnt b \<le> 2 ^ 32 - 32" using assms by (simp add: bitmap_ok_def)
  then have "elem_cnt (bit_cnt b) < 2 ^ 28" by (simp add: elem_cnt_alt)
  then show "byte_cnt (bit_cnt b) < 2 ^ 31" by (simp add: byte_cnt_def)
qed

text \<open>The file of the free map is open, and it has room for the bitmap.\<close>

definition fm_open :: "fs \<Rightarrow> addr \<Rightarrow> inode \<Rightarrow> bool" where
  "fm_open st p ino \<longleftrightarrow> (\<exists>f x. free_map_file st = Some f \<and> get_file f st = Some x \<and> f_inode x = p) \<and>
     get_inode p st = Some ino \<and> inode_ok st ino \<and> i_deny_write_cnt ino = 0 \<and>
     i_read_length ino = i_length ino \<and>
     int (byte_cnt (bit_cnt (free_map st))) \<le> i_length ino"

lemma bitmap_write_ok:
  assumes "cache_idle (bc st)" "bitmap_ok b" "get_file f st = Some x" "get_inode (f_inode x) st = Some ino"
    "inode_ok st ino" "i_deny_write_cnt ino = 0" "int (byte_cnt (bit_cnt b)) \<le> i_length ino"
    "i_read_length ino = i_length ino"
  obtains st1 where "bitmap_write (inode_write_at alloc) b f st = Some (True, put_inode (f_inode x) ino st1)"
    "io_frame (data_set st ino) (data_set st ino) st st1" "inode_ok (put_inode (f_inode x) ino st1) ino"
    "file_bytes (put_inode (f_inode x) ino st1) ino = put_bytes 0 (words_bytes (bits b)) (file_bytes st ino)"
proof -
  have [simp]: "ino\<lparr>i_read_length := i_length ino\<rparr> = ino" using assms(8) by simp
  let ?sz = "int (byte_cnt (bit_cnt b))"
  have len: "nat ?sz = length (words_bytes (bits b))" using bitmap_file_fits[OF assms(2)] by simp
  obtain st1 where w: "inode_write_at alloc (f_inode x) (words_bytes (bits b)) ?sz 0 st =
      Some (?sz, put_inode (f_inode x) ino st1)"
    "io_frame (data_set st ino) (data_set st ino) st st1" "inode_ok (put_inode (f_inode x) ino st1) ino"
    "file_bytes (put_inode (f_inode x) ino st1) ino =
      put_bytes (nat 0) (take (nat ?sz) (words_bytes (bits b))) (file_bytes st ino)"
    using inode_write_at_ok[OF assms(1,4,5,6), of 0 ?sz "words_bytes (bits b)" alloc] assms(7) len by auto
  then show ?thesis using that[of st1] assms(3) len
    by (simp add: bitmap_write_def file_write_at_def)
qed

definition free_set :: "bitmap \<Rightarrow> nat set" where
  "free_set b = {i. i < bit_cnt b \<and> \<not> bit_at b i}"

lemma is_run_one: "is_run (bitmap_abs b) j 1 False \<longleftrightarrow> j \<in> free_set b"
  by (auto simp: is_run_def free_set_def)


text \<open>
  \<open>fm_step st st'\<close>: the bitmap of \<open>st'\<close> is in memory and in its file, and no sector outside
  the file of the free map changed for any reader.
\<close>

definition fm_step :: "addr \<Rightarrow> inode \<Rightarrow> fs \<Rightarrow> fs \<Rightarrow> bool" where
  "fm_step p ino st st' \<longleftrightarrow> bitmap_ok (free_map st') \<and> bit_cnt (free_map st') = bit_cnt (free_map st) \<and>
     fm_open st' p ino \<and> (\<exists>st1. io_frame (data_set st ino) (data_set st ino) st st1 \<and>
       st' = st1\<lparr>inodes := inodes st', free_map := free_map st'\<rparr>) \<and> inodes st' = inodes st \<and>
     take (byte_cnt (bit_cnt (free_map st))) (file_bytes st' ino) = words_bytes (bits (free_map st'))"

lemma fm_write_ok:
  assumes idle: "cache_idle (bc st)" and b: "bitmap_ok b" "bit_cnt b = bit_cnt (free_map st)"
    and o: "fm_open st p ino"
  obtains f st' where "free_map_file st = Some f"
    "bitmap_write (inode_write_at alloc) b f (st\<lparr>free_map := b\<rparr>) = Some (True, st')"
    "fm_step p ino st st'" "free_map st' = b" "cache_idle (bc st')"
proof -
  let ?st = "st\<lparr>free_map := b\<rparr>"
  obtain f x where f: "free_map_file st = Some f" "get_file f st = Some x" "f_inode x = p"
    using o by (auto simp: fm_open_def)
  have io: "io_frame C V ?st s1 \<Longrightarrow> io_frame C V st (s1\<lparr>free_map := free_map st\<rparr>)" for C V s1
    by (cases s1, cases st) (auto simp: io_frame_def the_disk_def)
  have same: "inode_ok ?st ino = inode_ok st ino" "data_set ?st ino = data_set st ino"
    "file_bytes ?st ino = file_bytes st ino" "get_file f ?st = get_file f st" "get_inode p ?st = get_inode p st"
    by (simp_all add: inode_ok_def the_disk_def file_bytes_def fbyte_def get_file_def get_inode_def)
  have ino: "get_inode p st = Some ino" "inode_ok st ino" "i_deny_write_cnt ino = 0"
    "i_read_length ino = i_length ino" "int (byte_cnt (bit_cnt b)) \<le> i_length ino"
    using o b(2) by (simp_all add: fm_open_def)
  obtain st1 where w: "bitmap_write (inode_write_at alloc) b f ?st = Some (True, put_inode p ino st1)"
    "io_frame (data_set st ino) (data_set st ino) ?st st1" "inode_ok (put_inode p ino st1) ino"
    "file_bytes (put_inode p ino st1) ino = put_bytes 0 (words_bytes (bits b)) (file_bytes st ino)"
    using bitmap_write_ok[of ?st b f x ino alloc] idle b f ino same by auto
  have ins: "inodes (put_inode p ino st1) = inodes st"
    using io_frame_simps(1)[OF w(2)] ino(1) by (auto simp: put_inode_def get_inode_def)
  have eq: "st1 = ?st\<lparr>bc := bc st1\<rparr>" using w(2) by (simp add: io_frame_def)
  have "free_map st1 = b" "free_map_file st1 = Some f" "objs st1 = objs st"
    by (subst eq, simp add: f)+
  then have fm: "free_map (put_inode p ino st1) = b" "free_map_file (put_inode p ino st1) = Some f"
    "objs (put_inode p ino st1) = objs st"
    by (simp_all add: put_inode_def)
  have "fm_open (put_inode p ino st1) p ino"
    using o w(3) fm ins b(2) f by (auto simp: fm_open_def get_file_def get_inode_def)
  moreover have "take (byte_cnt (bit_cnt b)) (file_bytes (put_inode p ino st1) ino) = words_bytes (bits b)"
    unfolding w(4) using bitmap_file_fits(1)[OF b(1)] by (simp add: put_bytes_def)
  moreover have "put_inode p ino st1 = (st1\<lparr>free_map := free_map st\<rparr>)\<lparr>inodes := inodes (put_inode p ino st1),
      free_map := free_map (put_inode p ino st1)\<rparr>"
    by (cases st1) (simp add: put_inode_def)
  ultimately have "fm_step p ino st (put_inode p ino st1)"
    using b fm ins io[OF w(2)] unfolding fm_step_def by metis
  moreover have "cache_idle (bc (put_inode p ino st1))"
    using io_frame_simps(2)[OF w(2)] by (simp add: put_inode_def)
  ultimately show ?thesis using that f w(1) fm by blast
qed

lemma free_map_allocate_ok:
  assumes idle: "cache_idle (bc st)" and b: "bitmap_ok (free_map st)" and o: "fm_open st p ino"
  shows "(\<exists>s st'. free_map_allocate_w (inode_write_at alloc) cnt st = Some (Some s, st') \<and>
      is_run (bitmap_abs (free_map st)) (unat s) cnt False \<and>
      (\<forall>j < unat s. \<not> is_run (bitmap_abs (free_map st)) j cnt False) \<and>
      bitmap_abs (free_map st') = put_bytes (unat s) (replicate cnt True) (bitmap_abs (free_map st)) \<and>
      fm_step p ino st st' \<and> cache_idle (bc st')) \<or>
    free_map_allocate_w (inode_write_at alloc) cnt st = Some (None, st) \<and>
      (\<forall>j. \<not> is_run (bitmap_abs (free_map st)) j cnt False)"
proof -
  obtain r b' where r: "bitmap_scan_and_flip (free_map st) 0 cnt False = Some (r, b')"
    "bitmap_ok b'" "bit_cnt b' = bit_cnt (free_map st)"
    "r = BITMAP_ERROR \<and> b' = free_map st \<and> (\<forall>j. 0 \<le> j \<longrightarrow> \<not> is_run (bitmap_abs (free_map st)) j cnt False) \<or>
     r \<noteq> BITMAP_ERROR \<and> 0 \<le> r \<and> is_run (bitmap_abs (free_map st)) r cnt False \<and>
       bitmap_abs b' = put_bytes r (replicate cnt (\<not> False)) (bitmap_abs (free_map st)) \<and>
       (\<forall>j. 0 \<le> j \<and> j < r \<longrightarrow> \<not> is_run (bitmap_abs (free_map st)) j cnt False)"
    using bitmap_scan_and_flip_ok[OF b, of 0 cnt False] by auto
  show ?thesis
  proof (cases "r = BITMAP_ERROR")
    case True
    then show ?thesis using r by (auto simp: free_map_allocate_w_def)
  next
    case False
    obtain f st' where w: "free_map_file st = Some f"
      "bitmap_write (inode_write_at alloc) b' f (st\<lparr>free_map := b'\<rparr>) = Some (True, st')"
      "fm_step p ino st st'" "free_map st' = b'" "cache_idle (bc st')"
      using fm_write_ok[OF idle r(2,3) o] .
    have "r \<le> bit_cnt (free_map st)" using r(4) False by (simp add: is_run_def)
    then have "unat (of_nat r :: u32) = r" using b by (simp add: bitmap_ok_def unat_of_nat)
    then show ?thesis using r w False by (auto simp: free_map_allocate_w_def)
  qed
qed

lemma free_map_release_ok:
  assumes idle: "cache_idle (bc st)" and b: "bitmap_ok (free_map st)" and o: "fm_open st p ino"
    and used: "unat s + cnt \<le> bit_cnt (free_map st)" "\<forall>k < cnt. bitmap_abs (free_map st) ! (unat s + k)"
  obtains st' where "free_map_release_w (inode_write_at alloc) s cnt st = Some st'"
    "bitmap_abs (free_map st') = put_bytes (unat s) (replicate cnt False) (bitmap_abs (free_map st))"
    "fm_step p ino st st'" "cache_idle (bc st')"
proof -
  obtain b' where b': "bitmap_set_multiple (free_map st) (unat s) cnt False = Some b'" "bitmap_ok b'"
    "bit_cnt b' = bit_cnt (free_map st)"
    "bitmap_abs b' = put_bytes (unat s) (replicate cnt False) (bitmap_abs (free_map st))"
    using bitmap_set_multiple_ok[OF b used(1)] .
  obtain f st' where w: "free_map_file st = Some f"
    "bitmap_write (inode_write_at alloc) b' f (st\<lparr>free_map := b'\<rparr>) = Some (True, st')"
    "fm_step p ino st st'" "free_map st' = b'" "cache_idle (bc st')"
    using fm_write_ok[OF idle b'(2,3) o] .
  have "bitmap_all (free_map st) (unat s) cnt = Some True"
    using bitmap_all_ok[OF b used(1)] used(2) by simp
  then show ?thesis using that[of st'] b' w by (simp add: free_map_release_w_def)
qed

lemma free_map_allocate_unfold:
  "free_map_allocate cnt = free_map_allocate_w (inode_write_at (free_map_allocate_n 2 1)) cnt"
  by (simp add: free_map_allocate_def fun_eq_iff numeral_3_eq_3 numeral_2_eq_2)


section \<open>Properties\<close>

definition demo_fm_inode :: inode where
  "demo_fm_inode = \<lparr>i_sector = 0, i_open_cnt = 1, i_removed = False, i_deny_write_cnt = 0, i_length = 16,
     i_read_length = 16, i_direct = 1, i_indirect = 0, i_double = 0, i_isdir = False, i_parent = 1,
     i_lock = False, i_ptr = [20] @ replicate 13 0\<rparr>"

definition demo_fm :: fs where
  "demo_fm = demo_fs\<lparr>inodes := [3 \<mapsto> demo_fm_inode], objs := [4 \<mapsto> File \<lparr>f_inode = 3, f_pos = 0, f_deny = False\<rparr>],
     free_map_file := Some 4\<rparr>"

lemma demo_fm_ok:
  "cache_idle (bc demo_fm)" "bitmap_ok (free_map demo_fm)" "fm_open demo_fm 3 demo_fm_inode"
proof -
  show "cache_idle (bc demo_fm)" by (simp add: demo_fm_def)
  show "bitmap_ok (free_map demo_fm)" by (simp add: demo_fm_def demo_fs_def bitmap_ok_def elem_cnt_alt)
  have "n_blocks (i_length demo_fm_inode) = 1" by (simp add: n_blocks_def demo_fm_inode_def)
  moreover have "datas d (i_ptr demo_fm_inode) 1 = [20]" "metas d (i_ptr demo_fm_inode) 1 = []" for d
    by (simp_all add: datas_def metas_def n_ind_def blk_def demo_fm_inode_def)
  ultimately have "inode_ok demo_fm demo_fm_inode"
    by (simp add: inode_ok_def Let_def)
      (simp add: demo_fm_inode_def demo_fm_def MAX_FILE_SIZE_def demo_cache_def demo_dev_def)
  then show "fm_open demo_fm 3 demo_fm_inode"
    by (simp add: fm_open_def get_file_def get_inode_def demo_fm_def)
      (simp add: demo_fs_def demo_fm_inode_def byte_cnt_def elem_cnt_alt)
qed

text \<open>
  C18: \<open>free_map_allocate\<close> finds the lowest run of \<open>cnt\<close> free sectors, marks exactly that run,
  and writes the new map to its file, leaving what readers see of all other sectors alone;
  if there is no such run it returns false and changes nothing.
\<close>

theorem free_map_allocate_correct:
  assumes "cache_idle (bc st)" "bitmap_ok (free_map st)" "fm_open st p ino"
  shows "\<exists>r st'. free_map_allocate cnt st = Some (r, st') \<and> cache_idle (bc st') \<and> fm_open st' p ino \<and>
    (case r of
       None \<Rightarrow> st' = st \<and> (\<forall>j. \<not> is_run (bitmap_abs (free_map st)) j cnt False)
     | Some s \<Rightarrow> is_run (bitmap_abs (free_map st)) (unat s) cnt False \<and>
         (\<forall>j < unat s. \<not> is_run (bitmap_abs (free_map st)) j cnt False) \<and>
         bitmap_abs (free_map st') = put_bytes (unat s) (replicate cnt True) (bitmap_abs (free_map st)) \<and>
         take (byte_cnt (bit_cnt (free_map st'))) (file_bytes st' ino) = words_bytes (bits (free_map st')) \<and>
         (\<forall>x. x \<notin> data_set st ino \<longrightarrow> cview (bc st') x = cview (bc st) x))"
proof -
  have v: "cview (bc st') x = cview (bc st) x" if step: "fm_step p ino st st'" and "x \<notin> data_set st ino" for st' x
  proof -
    obtain st1 where "io_frame (data_set st ino) (data_set st ino) st st1"
      "st' = st1\<lparr>inodes := inodes st', free_map := free_map st'\<rparr>" using step unfolding fm_step_def by blast
    moreover have "bc (st1\<lparr>inodes := i, free_map := m\<rparr>) = bc st1" for i m by simp
    ultimately show ?thesis using io_frame_simps(4) that(2) by metis
  qed
  show ?thesis
    using free_map_allocate_ok[OF assms, of "free_map_allocate_n 2 1" cnt]
    unfolding free_map_allocate_unfold
  proof (elim disjE exE conjE)
    fix s st'
    assume a: "free_map_allocate_w (inode_write_at (free_map_allocate_n 2 1)) cnt st = Some (Some s, st')"
      "fm_step p ino st st'" "cache_idle (bc st')"
      "is_run (bitmap_abs (free_map st)) (unat s) cnt False"
      "\<forall>j < unat s. \<not> is_run (bitmap_abs (free_map st)) j cnt False"
      "bitmap_abs (free_map st') = put_bytes (unat s) (replicate cnt True) (bitmap_abs (free_map st))"
    then show "\<exists>r st'. free_map_allocate_w (inode_write_at (free_map_allocate_n 2 1)) cnt st = Some (r, st') \<and>
      cache_idle (bc st') \<and> fm_open st' p ino \<and> (case r of
       None \<Rightarrow> st' = st \<and> (\<forall>j. \<not> is_run (bitmap_abs (free_map st)) j cnt False)
     | Some s \<Rightarrow> is_run (bitmap_abs (free_map st)) (unat s) cnt False \<and>
         (\<forall>j < unat s. \<not> is_run (bitmap_abs (free_map st)) j cnt False) \<and>
         bitmap_abs (free_map st') = put_bytes (unat s) (replicate cnt True) (bitmap_abs (free_map st)) \<and>
         take (byte_cnt (bit_cnt (free_map st'))) (file_bytes st' ino) = words_bytes (bits (free_map st')) \<and>
         (\<forall>x. x \<notin> data_set st ino \<longrightarrow> cview (bc st') x = cview (bc st) x))"
      using v[OF a(2)] unfolding fm_step_def by (intro exI[of _ "Some s"] exI[of _ st']) simp
  next
    assume "free_map_allocate_w (inode_write_at (free_map_allocate_n 2 1)) cnt st = Some (None, st)"
      "\<forall>j. \<not> is_run (bitmap_abs (free_map st)) j cnt False"
    then show "\<exists>r st'. free_map_allocate_w (inode_write_at (free_map_allocate_n 2 1)) cnt st = Some (r, st') \<and>
      cache_idle (bc st') \<and> fm_open st' p ino \<and> (case r of
       None \<Rightarrow> st' = st \<and> (\<forall>j. \<not> is_run (bitmap_abs (free_map st)) j cnt False)
     | Some s \<Rightarrow> is_run (bitmap_abs (free_map st)) (unat s) cnt False \<and>
         (\<forall>j < unat s. \<not> is_run (bitmap_abs (free_map st)) j cnt False) \<and>
         bitmap_abs (free_map st') = put_bytes (unat s) (replicate cnt True) (bitmap_abs (free_map st)) \<and>
         take (byte_cnt (bit_cnt (free_map st'))) (file_bytes st' ino) = words_bytes (bits (free_map st')) \<and>
         (\<forall>x. x \<notin> data_set st ino \<longrightarrow> cview (bc st') x = cview (bc st) x))"
      using assms by (intro exI[of _ None] exI[of _ st]) simp
  qed
qed

theorem free_map_allocate_correct_witness:
  "\<exists>r st'. free_map_allocate 2 demo_fm = Some (r, st')"
  using free_map_allocate_correct[OF demo_fm_ok, of 2] by blast

text \<open>
  \<open>free_map_release\<close> undoes \<open>free_map_allocate\<close>: releasing the run just allocated does not
  stop the kernel, gives back the free map as it was, and the file holds it.
\<close>

theorem free_map_release_undoes_allocate:
  assumes "cache_idle (bc st)" "bitmap_ok (free_map st)" "fm_open st p ino"
    "free_map_allocate cnt st = Some (Some s, st1)"
  shows "\<exists>st2. free_map_release s cnt st1 = Some st2 \<and>
    bitmap_abs (free_map st2) = bitmap_abs (free_map st) \<and>
    take (byte_cnt (bit_cnt (free_map st2))) (file_bytes st2 ino) = words_bytes (bits (free_map st2))"
proof -
  have a: "is_run (bitmap_abs (free_map st)) (unat s) cnt False"
    "bitmap_abs (free_map st1) = put_bytes (unat s) (replicate cnt True) (bitmap_abs (free_map st))"
    "fm_step p ino st st1" "cache_idle (bc st1)"
    using free_map_allocate_ok[OF assms(1-3), of "free_map_allocate_n 2 1" cnt] assms(4)
    by (auto simp: free_map_allocate_unfold)
  have b: "bitmap_ok (free_map st1)" "fm_open st1 p ino" "bit_cnt (free_map st1) = bit_cnt (free_map st)"
    using a(3) by (simp_all add: fm_step_def)
  have fit: "unat s + cnt \<le> bit_cnt (free_map st)" using a(1) by (simp add: is_run_def)
  have used: "\<forall>k < cnt. bitmap_abs (free_map st1) ! (unat s + k)"
    unfolding a(2) using fit by (simp add: nth_put_bytes)
  obtain st2 where r: "free_map_release_w (inode_write_at alloc1) s cnt st1 = Some st2"
    "bitmap_abs (free_map st2) = put_bytes (unat s) (replicate cnt False) (bitmap_abs (free_map st1))"
    "fm_step p ino st1 st2"
    using free_map_release_ok[OF a(4) b(1,2), of s cnt alloc1] fit used b(3) by auto
  have "put_bytes (unat s) (replicate cnt False) (bitmap_abs (free_map st1)) = bitmap_abs (free_map st)"
    unfolding a(2) using a(1) by (intro nth_equalityI) (auto simp: nth_put_bytes is_run_def le_iff_add)
  then show ?thesis using r by (auto simp: free_map_release_def write_at_def fm_step_def)
qed

theorem free_map_release_undoes_allocate_witness:
  "\<exists>s st1 st2. free_map_allocate 1 demo_fm = Some (Some s, st1) \<and> free_map_release s 1 st1 = Some st2"
proof -
  have "bit_at (free_map demo_fm) 12 = False" "12 < bit_cnt (free_map demo_fm)"
    by (simp_all add: demo_fm_def demo_fs_def bit_at_def)
  then have "is_run (bitmap_abs (free_map demo_fm)) 12 1 False" by (simp add: is_run_def)
  then obtain s st1 where "free_map_allocate 1 demo_fm = Some (Some s, st1)"
    using free_map_allocate_ok[OF demo_fm_ok, of "free_map_allocate_n 2 1" 1]
    by (auto simp: free_map_allocate_unfold)
  then show ?thesis using free_map_release_undoes_allocate[OF demo_fm_ok] by blast
qed

end
