(* ===== verification/KDirectory.thy ===== *)
theory KDirectory imports KFreeMap begin

text \<open>
  Directories, \<open>filesys/directory.c\<close>, and path names, \<open>filesys/filesys.c\<close>.  A directory is a
  file of 20-byte entries: the sector of the inode, a name of at most 14 bytes with its
  terminator, and the byte \<open>in_use\<close>.  A C string handed to these operations is the list of its
  bytes before the terminator.
\<close>

section \<open>Directory entries\<close>

definition NAME_MAX :: nat where "NAME_MAX = 14"

definition DIR_ENTRY_SIZE :: nat where "DIR_ENTRY_SIZE = 20"

definition e_sector :: "u8 list \<Rightarrow> u32" where
  "e_sector e = word_at e 0"

definition e_in_use :: "u8 list \<Rightarrow> bool" where
  "e_in_use e \<longleftrightarrow> e ! 19 \<noteq> 0"

text \<open>The name of an entry; a name without a terminator, which no operation stores, is \<open>None\<close>.\<close>

definition e_name :: "u8 list \<Rightarrow> u8 list option" where
  "e_name e = do {
     let n = get_bytes 4 15 e;
     ASSERT (0 \<in> set n);
     Some (takeWhile (\<lambda>c. c \<noteq> 0) n)
   }"

text \<open>The three assignments of \<open>dir_add\<close>: the bytes after the name's terminator stay as they are.\<close>

definition fill_entry_slot :: "u8 list \<Rightarrow> u32 \<Rightarrow> u8 list \<Rightarrow> u8 list" where
  "fill_entry_slot name sector e = put_bytes 0 (enc32 sector) (put_bytes 4 (name @ [0]) (e[19 := 1]))"

definition get_dir :: "addr \<Rightarrow> fs \<Rightarrow> dir option" where
  "get_dir d st = (case objs st d of Some (Dir x) \<Rightarrow> Some x | _ \<Rightarrow> None)"

definition put_dir :: "addr \<Rightarrow> dir \<Rightarrow> fs \<Rightarrow> fs" where
  "put_dir d x st = st\<lparr>objs := (objs st)(d \<mapsto> Dir x)\<rparr>"

text \<open>What the local variable \<open>e\<close> holds before it is assigned.\<close>

definition entry_junk :: "fs \<Rightarrow> u8 list" where
  "entry_junk st = take 20 (words_bytes (stack_junk st) @ replicate 20 0)"

section \<open>Operations\<close>

definition dir_create :: "u32 \<Rightarrow> nat \<Rightarrow> fs \<Rightarrow> (bool \<times> fs) option" where
  "dir_create sector entry_cnt st = inode_create alloc1 sector (int (entry_cnt * DIR_ENTRY_SIZE)) True st"

definition dir_open :: "addr option \<Rightarrow> fs \<Rightarrow> (addr option \<times> fs) option" where
  "dir_open inode st = (let (m, st) = fs_malloc st in
     case inode of
       Some p \<Rightarrow>
         if m then let (d, st) = new_obj (Dir \<lparr>d_inode = p, d_pos = 0\<rparr>) st in Some (Some d, st)
         else do { st \<leftarrow> close_inode inode st; Some (None, st) }
     | None \<Rightarrow> do { st \<leftarrow> close_inode inode st; Some (None, st) })"

definition dir_open_root :: "fs \<Rightarrow> (addr option \<times> fs) option" where
  "dir_open_root st = do { (p, st) \<leftarrow> inode_open ROOT_DIR_SECTOR st; dir_open p st }"

definition dir_reopen :: "addr \<Rightarrow> fs \<Rightarrow> (addr option \<times> fs) option" where
  "dir_reopen d st = do {
     x \<leftarrow> get_dir d st;
     (p, st) \<leftarrow> inode_reopen (d_inode x) st;
     dir_open (Some p) st
   }"

definition dir_close :: "addr option \<Rightarrow> fs \<Rightarrow> fs option" where
  "dir_close d st = (case d of
     None \<Rightarrow> Some st
   | Some a \<Rightarrow> do {
       x \<leftarrow> get_dir a st;
       st \<leftarrow> close_inode (Some (d_inode x)) st;
       Some (free_obj a st)
     })"

definition dir_get_inode :: "addr \<Rightarrow> fs \<Rightarrow> addr option" where
  "dir_get_inode d st = map_option d_inode (get_dir d st)"

text \<open>The loop of \<open>lookup\<close>: the entry found and its offset.\<close>

partial_function (option) lookup_loop ::
  "addr \<Rightarrow> u8 list \<Rightarrow> int \<Rightarrow> fs \<Rightarrow> ((u8 list \<times> int) option \<times> fs) option" where
  "lookup_loop inode name ofs st = do {
     (e, st) \<leftarrow> inode_read_at inode (int DIR_ENTRY_SIZE) ofs st;
     if length e = DIR_ENTRY_SIZE then do {
       found \<leftarrow> (if e_in_use e then do { n \<leftarrow> e_name e; Some (name = n) } else Some False);
       if found then Some (Some (e, ofs), st)
       else do { ofs \<leftarrow> off (ofs + int DIR_ENTRY_SIZE); lookup_loop inode name ofs st }
     }
     else Some (None, st)
   }"

definition dir_lookup_entry :: "addr \<Rightarrow> u8 list \<Rightarrow> fs \<Rightarrow> ((u8 list \<times> int) option \<times> fs) option" where
  "dir_lookup_entry d name st = do {
     x \<leftarrow> get_dir d st;
     lookup_loop (d_inode x) name 0 st
   }"

definition dir_lookup :: "addr \<Rightarrow> u8 list \<Rightarrow> fs \<Rightarrow> (addr option \<times> fs) option" where
  "dir_lookup d name st = do {
     x \<leftarrow> get_dir d st;
     st \<leftarrow> inode_lock (d_inode x) st;
     (r, st) \<leftarrow> dir_lookup_entry d name st;
     (p, st) \<leftarrow> (case r of Some (e, ofs) \<Rightarrow> inode_open (e_sector e) st | None \<Rightarrow> Some (None, st));
     st \<leftarrow> inode_unlock (d_inode x) st;
     Some (p, st)
   }"

text \<open>
  The search of \<open>dir_add\<close> for a slot: a read overwrites as much of \<open>e\<close> as it returns.
\<close>

partial_function (option) free_slot_loop ::
  "addr \<Rightarrow> u8 list \<Rightarrow> int \<Rightarrow> fs \<Rightarrow> (u8 list \<times> int \<times> fs) option" where
  "free_slot_loop inode e ofs st = do {
     (b, st) \<leftarrow> inode_read_at inode (int DIR_ENTRY_SIZE) ofs st;
     let e = put_bytes 0 b e;
     if length b = DIR_ENTRY_SIZE then
       if \<not> e_in_use e then Some (e, ofs, st)
       else do { ofs \<leftarrow> off (ofs + int DIR_ENTRY_SIZE); free_slot_loop inode e ofs st }
     else Some (e, ofs, st)
   }"

definition dir_add :: "addr \<Rightarrow> u8 list \<Rightarrow> u32 \<Rightarrow> fs \<Rightarrow> (bool \<times> fs) option" where
  "dir_add d name inode_sector st = do {
     x \<leftarrow> get_dir d st;
     st \<leftarrow> inode_lock (d_inode x) st;
     (success, st) \<leftarrow>
       (if name = [] \<or> length name > NAME_MAX then Some (False, st)
        else do {
          (r, st) \<leftarrow> dir_lookup_entry d name st;
          if r \<noteq> None then Some (False, st)
          else do {
            ino \<leftarrow> get_inode (d_inode x) st;
            (ok, st) \<leftarrow> inode_add_parent release1 (inode_get_inumber ino) inode_sector st;
            if \<not> ok then Some (False, st)
            else do {
              (e, ofs, st) \<leftarrow> free_slot_loop (d_inode x) (entry_junk st) 0 st;
              (n, st) \<leftarrow> write_at (d_inode x) (fill_entry_slot name inode_sector e)
                          (int DIR_ENTRY_SIZE) ofs st;
              Some (n = int DIR_ENTRY_SIZE, st)
            }
          }
        });
     st \<leftarrow> inode_unlock (d_inode x) st;
     Some (success, st)
   }"

partial_function (option) dir_is_empty_loop :: "addr \<Rightarrow> int \<Rightarrow> fs \<Rightarrow> (bool \<times> fs) option" where
  "dir_is_empty_loop inode pos st = do {
     (e, st) \<leftarrow> inode_read_at inode (int DIR_ENTRY_SIZE) pos st;
     if length e = DIR_ENTRY_SIZE then do {
       pos \<leftarrow> off (pos + int DIR_ENTRY_SIZE);
       if e_in_use e then Some (False, st) else dir_is_empty_loop inode pos st
     }
     else Some (True, st)
   }"

definition dir_is_empty :: "addr \<Rightarrow> fs \<Rightarrow> (bool \<times> fs) option" where
  "dir_is_empty inode st = dir_is_empty_loop inode 0 st"

definition dir_remove :: "addr \<Rightarrow> u8 list \<Rightarrow> fs \<Rightarrow> (bool \<times> fs) option" where
  "dir_remove d name st = do {
     x \<leftarrow> get_dir d st;
     st \<leftarrow> inode_lock (d_inode x) st;
     (r, st) \<leftarrow> dir_lookup_entry d name st;
     (success, inode, st) \<leftarrow> (case r of
         None \<Rightarrow> Some (False, None, st)
       | Some (e, ofs) \<Rightarrow> do {
           (inode, st) \<leftarrow> inode_open (e_sector e) st;
           case inode of
             None \<Rightarrow> Some (False, None, st)
           | Some p \<Rightarrow> do {
               ino \<leftarrow> get_inode p st;
               if inode_is_dir ino \<and> inode_get_open_cnt ino > 1 then Some (False, inode, st)
               else do {
                 (empty, st) \<leftarrow> (if inode_is_dir ino then dir_is_empty p st else Some (True, st));
                 if \<not> empty then Some (False, inode, st)
                 else do {
                   (n, st) \<leftarrow> write_at (d_inode x) (e[19 := 0]) (int DIR_ENTRY_SIZE) ofs st;
                   if n \<noteq> int DIR_ENTRY_SIZE then Some (False, inode, st)
                   else do {
                     st \<leftarrow> inode_remove p st;
                     Some (True, inode, st)
                   }
                 }
               }
             }
         });
     st \<leftarrow> close_inode inode st;
     st \<leftarrow> inode_unlock (d_inode x) st;
     Some (success, st)
   }"

text \<open>The name \<open>dir_readdir\<close> stores, or \<open>None\<close> at the end of the directory.\<close>

partial_function (option) dir_readdir_loop :: "addr \<Rightarrow> fs \<Rightarrow> (u8 list option \<times> fs) option" where
  "dir_readdir_loop d st = do {
     x \<leftarrow> get_dir d st;
     (e, st) \<leftarrow> inode_read_at (d_inode x) (int DIR_ENTRY_SIZE) (d_pos x) st;
     if length e = DIR_ENTRY_SIZE then do {
       pos \<leftarrow> off (d_pos x + int DIR_ENTRY_SIZE);
       let st = put_dir d (x\<lparr>d_pos := pos\<rparr>) st;
       if e_in_use e then do { n \<leftarrow> e_name e; Some (Some n, st) }
       else dir_readdir_loop d st
     }
     else Some (None, st)
   }"

definition dir_readdir :: "addr \<Rightarrow> fs \<Rightarrow> (u8 list option \<times> fs) option" where
  "dir_readdir d st = do {
     x \<leftarrow> get_dir d st;
     st \<leftarrow> inode_lock (d_inode x) st;
     (r, st) \<leftarrow> dir_readdir_loop d st;
     st \<leftarrow> inode_unlock (d_inode x) st;
     Some (r, st)
   }"

definition dir_is_root :: "addr option \<Rightarrow> fs \<Rightarrow> bool option" where
  "dir_is_root d st = (case d of
     None \<Rightarrow> Some False
   | Some a \<Rightarrow> do {
       x \<leftarrow> get_dir a st;
       ino \<leftarrow> get_inode (d_inode x) st;
       Some (inode_get_inumber ino = ROOT_DIR_SECTOR)
     })"

definition dir_get_parent :: "addr \<Rightarrow> fs \<Rightarrow> (addr option \<times> fs) option" where
  "dir_get_parent d st = do {
     x \<leftarrow> get_dir d st;
     ino \<leftarrow> get_inode (d_inode x) st;
     inode_open (inode_get_parent ino) st
   }"

end
