(* ===== verification/KFilesys.thy ===== *)
theory KFilesys imports KDirectory begin

text \<open>
  The file system's interface, \<open>filesys/filesys.c\<close>: path names, and creating, opening and
  removing files and directories by name.
\<close>

section \<open>Path names\<close>

definition ASCII_SLASH :: u8 where "ASCII_SLASH = 47"

text \<open>\<open>.\<close> and \<open>..\<close>\<close>

definition DOT :: "u8 list" where "DOT = [46]"
definition DOTDOT :: "u8 list" where "DOTDOT = [46, 46]"

text \<open>The tokens that the calls \<open>strtok_r (s, "/", \&save_ptr)\<close> return one after the other.\<close>

function path_tokens :: "u8 list \<Rightarrow> u8 list list" where
  "path_tokens s =
     (let t = dropWhile (\<lambda>c. c = ASCII_SLASH) s in
      if t = [] then []
      else takeWhile (\<lambda>c. c \<noteq> ASCII_SLASH) t # path_tokens (dropWhile (\<lambda>c. c \<noteq> ASCII_SLASH) t))"
  by auto
termination
proof (relation "measure length")
  fix s t :: "u8 list"
  assume t: "t = dropWhile (\<lambda>c. c = ASCII_SLASH) s" and ne: "t \<noteq> []"
  then have "hd t \<noteq> ASCII_SLASH" using hd_dropWhile by blast
  then have "length (dropWhile (\<lambda>c. c \<noteq> ASCII_SLASH) t) < length t"
    using ne length_dropWhile_le[of _ "tl t"] by (cases t) (auto simp: le_imp_less_Suc)
  also have "\<dots> \<le> length s" unfolding t by (rule length_dropWhile_le)
  finally show "(dropWhile (\<lambda>c. c \<noteq> ASCII_SLASH) t, s) \<in> measure length" by simp
qed auto

declare path_tokens.simps [simp del]

text \<open>\<open>malloc\<close> is not checked: the copy into a null pointer stops the kernel.\<close>

definition get_filename :: "u8 list \<Rightarrow> fs \<Rightarrow> (u8 list \<times> fs) option" where
  "get_filename path st = do {
     let file_name = last ([] # path_tokens path);
     let (m, st) = fs_malloc st;
     ASSERT m;
     Some (file_name, st)
   }"

text \<open>The loop of \<open>get_containing_dir\<close>: \<open>token\<close>, \<open>next_token\<close> and the tokens after them.\<close>

fun containing_dir_loop :: "addr option \<Rightarrow> u8 list list \<Rightarrow> fs \<Rightarrow> (addr option \<times> fs) option" where
  "containing_dir_loop dir (token # next_token # ts) st =
     (if token \<noteq> DOT then do {
        d \<leftarrow> dir;
        (inode, st) \<leftarrow> (if token = DOTDOT then dir_get_parent d st else dir_lookup d token st);
        case inode of
          None \<Rightarrow> Some (None, st)
        | Some p \<Rightarrow> do {
            ino \<leftarrow> get_inode p st;
            if inode_is_dir ino then do {
              st \<leftarrow> dir_close dir st;
              (dir, st) \<leftarrow> dir_open inode st;
              containing_dir_loop dir (next_token # ts) st
            }
            else do {
              st \<leftarrow> close_inode inode st;
              containing_dir_loop dir (next_token # ts) st
            }
          }
      }
      else containing_dir_loop dir (next_token # ts) st)"
| "containing_dir_loop dir ts st = Some (dir, st)"

definition get_containing_dir :: "u8 list \<Rightarrow> fs \<Rightarrow> (addr option \<times> fs) option" where
  "get_containing_dir path st = do {
     (dir, st) \<leftarrow> (if (path \<noteq> [] \<and> hd path = ASCII_SLASH) \<or> cwd st = None
                   then dir_open_root st
                   else do { d \<leftarrow> cwd st; dir_reopen d st });
     containing_dir_loop dir (path_tokens path) st
   }"

section \<open>Files by name\<close>

definition filesys_create :: "u8 list \<Rightarrow> int \<Rightarrow> bool \<Rightarrow> fs \<Rightarrow> (bool \<times> fs) option" where
  "filesys_create name initial_size isdir st = do {
     (dir, st) \<leftarrow> get_containing_dir name st;
     (file_name, st) \<leftarrow> get_filename name st;
     (success, inode_sector, st) \<leftarrow>
       (if file_name \<noteq> DOT \<and> file_name \<noteq> DOTDOT then
          (case dir of
             None \<Rightarrow> Some (False, 0, st)
           | Some d \<Rightarrow> do {
               (r, st) \<leftarrow> free_map_allocate 1 st;
               case r of
                 None \<Rightarrow> Some (False, 0, st)
               | Some sector \<Rightarrow> do {
                   (ok, st) \<leftarrow> inode_create alloc1 sector initial_size isdir st;
                   (ok, st) \<leftarrow> (if ok then dir_add d file_name sector st else Some (False, st));
                   Some (ok, sector, st)
                 }
             })
        else Some (False, 0, st));
     st \<leftarrow> (if \<not> success \<and> inode_sector \<noteq> 0 then free_map_release inode_sector 1 st else Some st);
     st \<leftarrow> dir_close dir st;
     Some (success, st)
   }"

text \<open>The result points to a file or, behind the same C type, to a directory.\<close>

definition filesys_open :: "u8 list \<Rightarrow> fs \<Rightarrow> (addr option \<times> fs) option" where
  "filesys_open name st =
     (if length name = 0 then Some (None, st)
      else do {
        (dir, st) \<leftarrow> get_containing_dir name st;
        (file_name, st) \<leftarrow> get_filename name st;
        root \<leftarrow> dir_is_root dir st;
        if dir \<noteq> None \<and> file_name \<noteq> DOTDOT \<and> (root \<and> length file_name = 0 \<or> file_name = DOT)
        then Some (dir, st)
        else do {
          (inode, st) \<leftarrow> (case dir of
              None \<Rightarrow> Some (None, st)
            | Some d \<Rightarrow> if file_name = DOTDOT then dir_get_parent d st
                        else dir_lookup d file_name st);
          if dir \<noteq> None \<and> file_name = DOTDOT \<and> inode = None then Some (None, st)
          else do {
            st \<leftarrow> dir_close dir st;
            case inode of
              None \<Rightarrow> Some (None, st)
            | Some p \<Rightarrow> do {
                ino \<leftarrow> get_inode p st;
                if inode_is_dir ino then dir_open inode st else file_open close_inode inode st
              }
          }
        }
      })"

definition filesys_remove :: "u8 list \<Rightarrow> fs \<Rightarrow> (bool \<times> fs) option" where
  "filesys_remove name st = do {
     (dir, st) \<leftarrow> get_containing_dir name st;
     (file_name, st) \<leftarrow> get_filename name st;
     (success, st) \<leftarrow> (case dir of None \<Rightarrow> Some (False, st) | Some d \<Rightarrow> dir_remove d file_name st);
     st \<leftarrow> dir_close dir st;
     Some (success, st)
   }"

definition filesys_chdir :: "u8 list \<Rightarrow> fs \<Rightarrow> (bool \<times> fs) option" where
  "filesys_chdir name st = do {
     (dir, st) \<leftarrow> get_containing_dir name st;
     (file_name, st) \<leftarrow> get_filename name st;
     root \<leftarrow> dir_is_root dir st;
     if dir \<noteq> None \<and> file_name \<noteq> DOTDOT \<and> (root \<and> length file_name = 0 \<or> file_name = DOT)
     then Some (True, st\<lparr>cwd := dir\<rparr>)
     else do {
       (inode, st) \<leftarrow> (case dir of
           None \<Rightarrow> Some (None, st)
         | Some d \<Rightarrow> if file_name = DOTDOT then dir_get_parent d st
                     else dir_lookup d file_name st);
       if dir \<noteq> None \<and> file_name = DOTDOT \<and> inode = None then Some (False, st)
       else do {
         st \<leftarrow> dir_close dir st;
         (dir, st) \<leftarrow> dir_open inode st;
         case dir of
           None \<Rightarrow> Some (False, st)
         | Some d \<Rightarrow> do {
             st \<leftarrow> dir_close (cwd st) st;
             Some (True, st\<lparr>cwd := dir\<rparr>)
           }
       }
     }
   }"

section \<open>Start and end\<close>

text \<open>
  \<open>block_get_role (BLOCK_FILESYS)\<close> has chosen the device of the cache: \<open>found\<close> says if there is
  one.
\<close>

definition do_format :: "fs \<Rightarrow> fs option" where
  "do_format st = do {
     st \<leftarrow> free_map_create st;
     (ok, st) \<leftarrow> dir_create ROOT_DIR_SECTOR 16 st;
     ASSERT ok;
     free_map_close st
   }"

definition filesys_init :: "bool \<Rightarrow> bool \<Rightarrow> bool \<Rightarrow> bool \<Rightarrow> u32 list \<Rightarrow> fs \<Rightarrow> fs option" where
  "filesys_init found format m1 m2 junk st = do {
     ASSERT found;
     let st = inode_init st;
     let st = st\<lparr>bc := filesys_cache_init (bc st)\<rparr>;
     st \<leftarrow> free_map_init m1 m2 junk st;
     st \<leftarrow> (if format then do_format st else Some st);
     free_map_open st
   }"

definition filesys_done :: "fs \<Rightarrow> fs option" where
  "filesys_done st = do {
     b \<leftarrow> filesys_cache_write_to_disk True (bc st);
     free_map_close (st\<lparr>bc := b\<rparr>)
   }"

end
