(* ===== verification/KList.thy ===== *)
theory KList imports OS_Prelude "HOL-Library.Multiset" begin

text \<open>
  The kernel's intrusive doubly linked list, \<open>lib/kernel/list.c\<close>, over an explicit
  store of links.  A list element is an address; the store maps it to its \<open>prev\<close> and
  \<open>next\<close> members.  A \<open>struct list\<close> at address \<open>l\<close> consists of two embedded elements,
  \<open>head\<close> at \<open>l\<close> and \<open>tail\<close> at \<open>l + 8\<close> (a \<open>struct list_elem\<close> is two 4-byte pointers);
  address 0 is \<open>NULL\<close>.  Every operation is the sequence of pointer assignments of the C
  function; a failed \<open>ASSERT\<close> is \<open>None\<close>.  The loops are \<open>partial_function\<close>s, so that a
  loop that would never end is \<open>None\<close> as well and every theorem below that says
  \<open>Some\<close> says that the code returns.

  The relation \<open>list_rep h l xs\<close> says that the store \<open>h\<close> holds, at \<open>l\<close>, a well-formed
  list whose interior elements are \<open>xs\<close>; the lemmas show that each operation takes
  well-formed lists to well-formed lists, which HOL list the result represents, and which
  part of the store it leaves alone.
\<close>

section \<open>The store\<close>

record heap =
  prv :: "addr \<Rightarrow> addr"
  nxt :: "addr \<Rightarrow> addr"

definition set_prv :: "heap \<Rightarrow> addr \<Rightarrow> addr \<Rightarrow> heap" where
  "set_prv h a v = h\<lparr>prv := (prv h)(a := v)\<rparr>"

definition set_nxt :: "heap \<Rightarrow> addr \<Rightarrow> addr \<Rightarrow> heap" where
  "set_nxt h a v = h\<lparr>nxt := (nxt h)(a := v)\<rparr>"

lemma set_prv_sel [simp]:
  "prv (set_prv h a v) = (prv h)(a := v)" "nxt (set_prv h a v) = nxt h"
  by (simp_all add: set_prv_def)

lemma set_nxt_sel [simp]:
  "nxt (set_nxt h a v) = (nxt h)(a := v)" "prv (set_nxt h a v) = prv h"
  by (simp_all add: set_nxt_def)

lemma heap_eqI: "prv h = prv h' \<Longrightarrow> nxt h = nxt h' \<Longrightarrow> h = (h' :: heap)"
  by (cases h, cases h') simp

section \<open>The operations\<close>

definition is_head :: "heap \<Rightarrow> addr \<Rightarrow> bool" where
  "is_head h elem \<longleftrightarrow> elem \<noteq> 0 \<and> prv h elem = 0 \<and> nxt h elem \<noteq> 0"

definition is_interior :: "heap \<Rightarrow> addr \<Rightarrow> bool" where
  "is_interior h elem \<longleftrightarrow> elem \<noteq> 0 \<and> prv h elem \<noteq> 0 \<and> nxt h elem \<noteq> 0"

definition is_tail :: "heap \<Rightarrow> addr \<Rightarrow> bool" where
  "is_tail h elem \<longleftrightarrow> elem \<noteq> 0 \<and> prv h elem \<noteq> 0 \<and> nxt h elem = 0"

abbreviation (input) tail_of :: "addr \<Rightarrow> addr" where
  "tail_of l \<equiv> l + 8"

definition list_init :: "addr \<Rightarrow> heap \<Rightarrow> heap option" where
  "list_init l h = do {
     ASSERT (l \<noteq> 0);
     let h1 = set_prv h l 0;
     let h2 = set_nxt h1 l (tail_of l);
     let h3 = set_prv h2 (tail_of l) l;
     Some (set_nxt h3 (tail_of l) 0)
   }"

definition list_begin :: "addr \<Rightarrow> heap \<Rightarrow> addr option" where
  "list_begin l h = do { ASSERT (l \<noteq> 0); Some (nxt h l) }"

definition list_next :: "addr \<Rightarrow> heap \<Rightarrow> addr option" where
  "list_next elem h = do { ASSERT (is_head h elem \<or> is_interior h elem); Some (nxt h elem) }"

definition list_end :: "addr \<Rightarrow> addr option" where
  "list_end l = do { ASSERT (l \<noteq> 0); Some (tail_of l) }"

definition list_rbegin :: "addr \<Rightarrow> heap \<Rightarrow> addr option" where
  "list_rbegin l h = do { ASSERT (l \<noteq> 0); Some (prv h (tail_of l)) }"

definition list_prev :: "addr \<Rightarrow> heap \<Rightarrow> addr option" where
  "list_prev elem h = do { ASSERT (is_interior h elem \<or> is_tail h elem); Some (prv h elem) }"

definition list_rend :: "addr \<Rightarrow> addr option" where
  "list_rend l = do { ASSERT (l \<noteq> 0); Some l }"

definition list_head :: "addr \<Rightarrow> addr option" where
  "list_head l = do { ASSERT (l \<noteq> 0); Some l }"

definition list_tail :: "addr \<Rightarrow> addr option" where
  "list_tail l = do { ASSERT (l \<noteq> 0); Some (tail_of l) }"

definition list_insert :: "addr \<Rightarrow> addr \<Rightarrow> heap \<Rightarrow> heap option" where
  "list_insert before elem h = do {
     ASSERT (is_interior h before \<or> is_tail h before);
     ASSERT (elem \<noteq> 0);
     let h1 = set_prv h elem (prv h before);
     let h2 = set_nxt h1 elem before;
     let h3 = set_nxt h2 (prv h2 before) elem;
     Some (set_prv h3 before elem)
   }"

definition list_splice :: "addr \<Rightarrow> addr \<Rightarrow> addr \<Rightarrow> heap \<Rightarrow> heap option" where
  "list_splice before first last' h = do {
     ASSERT (is_interior h before \<or> is_tail h before);
     if first = last' then Some h
     else do {
       last \<leftarrow> list_prev last' h;
       ASSERT (is_interior h first);
       ASSERT (is_interior h last);
       let h1 = set_nxt h (prv h first) (nxt h last);
       let h2 = set_prv h1 (nxt h1 last) (prv h1 first);
       let h3 = set_prv h2 first (prv h2 before);
       let h4 = set_nxt h3 last before;
       let h5 = set_nxt h4 (prv h4 before) first;
       Some (set_prv h5 before last)
     }
   }"

definition list_push_front :: "addr \<Rightarrow> addr \<Rightarrow> heap \<Rightarrow> heap option" where
  "list_push_front l elem h = do { b \<leftarrow> list_begin l h; list_insert b elem h }"

definition list_push_back :: "addr \<Rightarrow> addr \<Rightarrow> heap \<Rightarrow> heap option" where
  "list_push_back l elem h = do { e \<leftarrow> list_end l; list_insert e elem h }"

definition list_remove :: "addr \<Rightarrow> heap \<Rightarrow> (addr \<times> heap) option" where
  "list_remove elem h = do {
     ASSERT (is_interior h elem);
     let h1 = set_nxt h (prv h elem) (nxt h elem);
     let h2 = set_prv h1 (nxt h1 elem) (prv h1 elem);
     Some (nxt h2 elem, h2)
   }"

definition list_empty :: "addr \<Rightarrow> heap \<Rightarrow> bool option" where
  "list_empty l h = do { b \<leftarrow> list_begin l h; e \<leftarrow> list_end l; Some (b = e) }"

definition list_front :: "addr \<Rightarrow> heap \<Rightarrow> addr option" where
  "list_front l h = do { em \<leftarrow> list_empty l h; ASSERT (\<not> em); Some (nxt h l) }"

definition list_back :: "addr \<Rightarrow> heap \<Rightarrow> addr option" where
  "list_back l h = do { em \<leftarrow> list_empty l h; ASSERT (\<not> em); Some (prv h (tail_of l)) }"

definition list_pop_front :: "addr \<Rightarrow> heap \<Rightarrow> (addr \<times> heap) option" where
  "list_pop_front l h = do {
     front \<leftarrow> list_front l h;
     (_, h') \<leftarrow> list_remove front h;
     Some (front, h')
   }"

definition list_pop_back :: "addr \<Rightarrow> heap \<Rightarrow> (addr \<times> heap) option" where
  "list_pop_back l h = do {
     back \<leftarrow> list_back l h;
     (_, h') \<leftarrow> list_remove back h;
     Some (back, h')
   }"

partial_function (option) list_size_loop :: "addr \<Rightarrow> addr \<Rightarrow> u32 \<Rightarrow> heap \<Rightarrow> u32 option" where
  "list_size_loop e stop cnt h =
     (if e = stop then Some cnt
      else do { e' \<leftarrow> list_next e h; list_size_loop e' stop (cnt + 1) h })"

definition list_size :: "addr \<Rightarrow> heap \<Rightarrow> u32 option" where
  "list_size l h = do {
     b \<leftarrow> list_begin l h;
     stop \<leftarrow> list_end l;
     list_size_loop b stop 0 h
   }"

definition swap_links :: "addr \<Rightarrow> heap \<Rightarrow> heap" where
  "swap_links e h = (let t = prv h e; h1 = set_prv h e (nxt h e) in set_nxt h1 e t)"

partial_function (option) list_reverse_loop :: "addr \<Rightarrow> addr \<Rightarrow> heap \<Rightarrow> heap option" where
  "list_reverse_loop e stop h =
     (if e = stop then Some h
      else (let h1 = swap_links e h in list_reverse_loop (prv h1 e) stop h1))"

definition list_reverse :: "addr \<Rightarrow> heap \<Rightarrow> heap option" where
  "list_reverse l h = do {
     em \<leftarrow> list_empty l h;
     if em then Some h
     else do {
       b \<leftarrow> list_begin l h;
       stop \<leftarrow> list_end l;
       h1 \<leftarrow> list_reverse_loop b stop h;
       let t = nxt h1 l;
       let h2 = set_nxt h1 l (prv h1 (tail_of l));
       let h3 = set_prv h2 (tail_of l) t;
       let hn = nxt h3 l;
       let tp = prv h3 (tail_of l);
       let t' = prv h3 hn;
       let h4 = set_prv h3 hn (nxt h3 tp);
       Some (set_nxt h4 tp t')
     }
   }"


section \<open>Chains of links\<close>

text \<open>
  \<open>dlinks h zs\<close>: consecutive elements of \<open>zs\<close> are linked in both directions.  Only the
  \<open>next\<close> members of all but the last and the \<open>prev\<close> members of all but the first element
  matter, which is what makes the frame reasoning below local.
\<close>

fun dlinks :: "heap \<Rightarrow> addr list \<Rightarrow> bool" where
  "dlinks h (a # b # zs) \<longleftrightarrow> nxt h a = b \<and> prv h b = a \<and> dlinks h (b # zs)"
| "dlinks h zs \<longleftrightarrow> True"

definition same_outside :: "addr set \<Rightarrow> heap \<Rightarrow> heap \<Rightarrow> bool" where
  "same_outside S h h' \<longleftrightarrow> (\<forall>a. a \<notin> S \<longrightarrow> prv h' a = prv h a \<and> nxt h' a = nxt h a)"

lemma same_outside_refl [simp, intro]: "same_outside S h h"
  by (simp add: same_outside_def)

lemma same_outside_trans:
  "same_outside S h h1 \<Longrightarrow> same_outside T h1 h2 \<Longrightarrow> S \<subseteq> U \<Longrightarrow> T \<subseteq> U \<Longrightarrow> same_outside U h h2"
  unfolding same_outside_def by (metis subsetD)

lemma same_outside_mono: "same_outside S h h' \<Longrightarrow> S \<subseteq> T \<Longrightarrow> same_outside T h h'"
  by (auto simp: same_outside_def)

lemma dlinks_append: "dlinks h (xs @ a # ys) \<longleftrightarrow> dlinks h (xs @ [a]) \<and> dlinks h (a # ys)"
proof (induction xs)
  case (Cons x xs)
  then show ?case by (cases xs) auto
qed simp

lemma dlinks_cong:
  assumes "\<And>x. x \<in> set (butlast zs) \<Longrightarrow> nxt h' x = nxt h x"
      and "\<And>x. x \<in> set (tl zs) \<Longrightarrow> prv h' x = prv h x"
  shows "dlinks h' zs = dlinks h zs"
  using assms
proof (induction h zs rule: dlinks.induct)
  case (1 h a b zs)
  have "dlinks h' (b # zs) = dlinks h (b # zs)"
    by (rule 1(1)) (use 1(2,3) in \<open>auto dest: in_set_butlastD list.set_sel(2)\<close>)
  moreover have "nxt h' a = nxt h a" "prv h' b = prv h b"
    using 1(2,3) by auto
  ultimately show ?case by simp
qed auto

lemma in_set_tlD: "x \<in> set (tl zs) \<Longrightarrow> x \<in> set zs"
  by (cases zs) auto

lemma dlinks_same_outside:
  assumes "same_outside S h h'" and "set zs \<inter> S = {}"
  shows "dlinks h' zs = dlinks h zs"
  by (rule dlinks_cong)
    (use assms in \<open>auto simp: same_outside_def disjoint_iff dest: in_set_tlD in_set_butlastD\<close>)

text \<open>Taking a segment out of a chain, and putting one in: the two halves of \<open>list_splice\<close>.\<close>

definition unlink_seg :: "addr \<Rightarrow> addr \<Rightarrow> heap \<Rightarrow> heap" where
  "unlink_seg f k h = set_prv (set_nxt h (prv h f) (nxt h k)) (nxt h k) (prv h f)"

definition link_seg :: "addr \<Rightarrow> addr \<Rightarrow> addr \<Rightarrow> heap \<Rightarrow> heap" where
  "link_seg before f k h =
     set_prv (set_nxt (set_nxt (set_prv h f (prv h before)) k before) (prv h before) f)
       before k"

lemma dlinks_Cons_tl: "dlinks h (a # zs) \<Longrightarrow> dlinks h zs"
  by (cases zs) auto

lemma dlinks_butlast: "dlinks h (xs @ [a]) \<Longrightarrow> dlinks h xs"
proof (induction xs)
  case (Cons x xs)
  then show ?case by (cases xs) auto
qed simp

lemma dlinks_snoc2: "dlinks h (xs @ [a, b]) \<longleftrightarrow> dlinks h (xs @ [a]) \<and> nxt h a = b \<and> prv h b = a"
  by (subst dlinks_append) simp

lemma dlinks_hd_last:
  assumes "dlinks h (p # ms @ [n])" and "ms \<noteq> []"
  shows "nxt h p = hd ms" "prv h (hd ms) = p" "nxt h (last ms) = n" "prv h n = last ms"
proof -
  obtain m ms' where ms: "ms = m # ms'" using assms(2) by (cases ms) auto
  show "nxt h p = hd ms" "prv h (hd ms) = p" using assms(1) ms by auto
  obtain k ms2 where ms2: "ms = ms2 @ [k]" using assms(2) by (cases ms rule: rev_cases) auto
  have "p # ms @ [n] = (p # ms2) @ [k, n]" using ms2 by simp
  then have "nxt h k = n \<and> prv h n = k" using assms(1) dlinks_snoc2[of h "p # ms2" k n] by metis
  then show "nxt h (last ms) = n" "prv h n = last ms" using ms2 by auto
qed

lemma unlink_seg_dlinks:
  assumes "dlinks h (P @ p # ms @ n # Q)" and "distinct (P @ p # ms @ n # Q)" and "ms \<noteq> []"
  defines "h' \<equiv> unlink_seg (hd ms) (last ms) h"
  shows "dlinks h' (P @ p # n # Q)" and "dlinks h' ms" and "same_outside {p, n} h h'"
    and "a \<noteq> n \<Longrightarrow> prv h' a = prv h a" and "a \<noteq> p \<Longrightarrow> nxt h' a = nxt h a"
proof -
  have a: "dlinks h (P @ [p])" "dlinks h (p # ms @ n # Q)"
    using assms(1) dlinks_append[of h P p "ms @ n # Q"] by auto
  have b: "dlinks h (p # ms @ [n])" "dlinks h (n # Q)"
    using a(2) dlinks_append[of h "p # ms" n Q] by auto
  have c: "dlinks h ms" using b(1) dlinks_Cons_tl dlinks_butlast by blast
  note hl = dlinks_hd_last[OF b(1) assms(3)]
  have h': "nxt h' = (nxt h)(p := n)" "prv h' = (prv h)(n := p)"
    by (simp_all add: h'_def unlink_seg_def hl)
  show "same_outside {p, n} h h'" by (simp add: same_outside_def h')
  have d: "p \<noteq> n" "p \<notin> set P" "n \<notin> set P" "p \<notin> set ms" "n \<notin> set ms" "p \<notin> set Q" "n \<notin> set Q"
    using assms(2) by auto
  show "a \<noteq> n \<Longrightarrow> prv h' a = prv h a" "a \<noteq> p \<Longrightarrow> nxt h' a = nxt h a" by (simp_all add: h')
  have 1: "dlinks h' (P @ [p])"
  proof (rule dlinks_cong[THEN iffD2])
    show "nxt h' x = nxt h x" if "x \<in> set (butlast (P @ [p]))" for x
      using that d by (auto simp: h')
    show "prv h' x = prv h x" if "x \<in> set (tl (P @ [p]))" for x
      using in_set_tlD[OF that] d by (auto simp: h')
  qed (rule a(1))
  have 2: "dlinks h' (n # Q)"
  proof (rule dlinks_cong[THEN iffD2])
    show "nxt h' x = nxt h x" if "x \<in> set (butlast (n # Q))" for x
      using in_set_butlastD[OF that] d by (auto simp: h')
    show "prv h' x = prv h x" if "x \<in> set (tl (n # Q))" for x
      using that d by (auto simp: h')
  qed (rule b(2))
  show "dlinks h' ms"
  proof (rule dlinks_cong[THEN iffD2])
    show "nxt h' x = nxt h x" if "x \<in> set (butlast ms)" for x
      using in_set_butlastD[OF that] d by (auto simp: h')
    show "prv h' x = prv h x" if "x \<in> set (tl ms)" for x
      using in_set_tlD[OF that] d by (auto simp: h')
  qed (rule c)
  show "dlinks h' (P @ p # n # Q)"
    using 1 2 dlinks_append[of h' P p "n # Q"] by (simp add: h')
qed

lemma link_seg_dlinks:
  assumes "dlinks h (P @ p # b # Q)" and "distinct (P @ p # b # Q @ ms)" and "ms \<noteq> []" and "dlinks h ms"
  defines "h' \<equiv> link_seg b (hd ms) (last ms) h"
  shows "dlinks h' (P @ p # ms @ b # Q)" and "same_outside ({p, b} \<union> set ms) h h'"
    and "a \<notin> insert b (set ms) \<Longrightarrow> prv h' a = prv h a" and "a \<notin> insert p (set ms) \<Longrightarrow> nxt h' a = nxt h a"
proof -
  obtain f ms1 where ms1: "ms = f # ms1" using assms(3) by (cases ms) auto
  obtain k ms2 where ms2: "ms = ms2 @ [k]" using assms(3) by (cases ms rule: rev_cases) auto
  have a: "dlinks h (P @ [p])" "dlinks h (b # Q)" "nxt h p = b" "prv h b = p"
    using assms(1) dlinks_append[of h P p "b # Q"] by auto
  have fk: "hd ms = f" "last ms = k" by (simp add: ms1, simp add: ms2)
  have mem: "f \<in> set ms" "k \<in> set ms" using ms1 by simp (simp add: ms2)
  have dms: "f \<notin> set ms1" "k \<notin> set ms2"
    using assms(2) ms1 by simp (use assms(2) in \<open>simp add: ms2\<close>)
  have d: "p \<noteq> b" "p \<notin> set ms" "b \<notin> set ms" "p \<notin> set P" "b \<notin> set P" "p \<notin> set Q" "b \<notin> set Q"
    "set ms \<inter> set P = {}" "set ms \<inter> set Q = {}"
    using assms(2) by auto
  then have df: "f \<noteq> p" "f \<noteq> b" "k \<noteq> p" "k \<noteq> b" "f \<notin> set P" "k \<notin> set P" "f \<notin> set Q" "k \<notin> set Q"
    using mem by auto
  have h': "nxt h' = (nxt h)(k := b, p := f)" "prv h' = (prv h)(f := p, b := k)"
    using d df by (simp_all add: h'_def link_seg_def fk a)
  show "same_outside ({p, b} \<union> set ms) h h'" using mem by (auto simp: same_outside_def h')
  show "a \<notin> insert b (set ms) \<Longrightarrow> prv h' a = prv h a" "a \<notin> insert p (set ms) \<Longrightarrow> nxt h' a = nxt h a"
    using mem by (auto simp: h')
  have 1: "dlinks h' (P @ [p])"
  proof (rule dlinks_cong[THEN iffD2])
    show "nxt h' x = nxt h x" if "x \<in> set (butlast (P @ [p]))" for x
      using that d df by (auto simp: h')
    show "prv h' x = prv h x" if "x \<in> set (tl (P @ [p]))" for x
      using in_set_tlD[OF that] d df by (auto simp: h')
  qed (rule a(1))
  have 2: "dlinks h' (b # Q)"
  proof (rule dlinks_cong[THEN iffD2])
    show "nxt h' x = nxt h x" if "x \<in> set (butlast (b # Q))" for x
      using in_set_butlastD[OF that] d df by (auto simp: h')
    show "prv h' x = prv h x" if "x \<in> set (tl (b # Q))" for x
      using that d df by (auto simp: h')
  qed (rule a(2))
  have 3: "dlinks h' ms"
  proof (rule dlinks_cong[THEN iffD2])
    show "nxt h' x = nxt h x" if "x \<in> set (butlast ms)" for x
    proof -
      have "x \<in> set ms2" "x \<in> set ms" using that ms2 by (simp, simp add: in_set_butlastD)
      then show ?thesis using dms d by (auto simp: h')
    qed
    show "prv h' x = prv h x" if "x \<in> set (tl ms)" for x
    proof -
      have "x \<in> set ms1" "x \<in> set ms" using that ms1 by auto
      then show ?thesis using dms d by (auto simp: h')
    qed
  qed (rule assms(4))
  have nk: "nxt h' k = b" "prv h' b = k" "nxt h' p = f" "prv h' f = p"
    using df by (simp_all add: h')
  have "dlinks h' (ms2 @ [k, b])"
    using 3 nk ms2 by (simp add: dlinks_snoc2)
  then have 4: "dlinks h' (ms @ b # Q)"
    using 2 dlinks_append[of h' ms b Q] by (simp add: ms2)
  then have "dlinks h' (p # ms @ b # Q)"
    using nk by (simp add: ms1)
  then show "dlinks h' (P @ p # ms @ b # Q)"
    using 1 dlinks_append[of h' P p "ms @ b # Q"] by simp
qed

lemma dlinks_suffix: "dlinks h (P @ zs) \<Longrightarrow> dlinks h zs"
  by (induction P) (auto dest: dlinks_Cons_tl)

section \<open>Well-formed lists\<close>

definition cells :: "addr \<Rightarrow> addr list \<Rightarrow> addr set" where
  "cells l xs = {l, tail_of l} \<union> set xs"

definition list_rep :: "heap \<Rightarrow> addr \<Rightarrow> addr list \<Rightarrow> bool" where
  "list_rep h l xs \<longleftrightarrow>
     l \<noteq> 0 \<and> 0 \<notin> set xs \<and> distinct (l # xs @ [tail_of l]) \<and>
     prv h l = 0 \<and> nxt h (tail_of l) = 0 \<and> dlinks h (l # xs @ [tail_of l])"

lemma list_rep_frame:
  assumes "list_rep h l xs" and "same_outside S h h'" and "cells l xs \<inter> S = {}"
  shows "list_rep h' l xs"
proof -
  have "set (l # xs @ [tail_of l]) \<inter> S = {}" using assms(3) by (auto simp: cells_def)
  from dlinks_same_outside[OF assms(2) this] show ?thesis
    using assms by (auto simp: list_rep_def same_outside_def cells_def)
qed

lemma list_rep_chain:
  assumes "list_rep h l (xs @ ys)"
  obtains P p b Q where "l # xs = P @ [p]" "ys @ [tail_of l] = b # Q"
    "dlinks h (P @ p # b # Q)" "distinct (P @ p # b # Q)" "0 \<notin> set (P @ p # b # Q)"
proof -
  obtain P p where P: "l # xs = P @ [p]" by (metis list.distinct(1) rev_exhaust)
  obtain b Q where Q: "ys @ [tail_of l] = b # Q" by (cases ys) auto
  have e: "l # (xs @ ys) @ [tail_of l] = P @ p # b # Q"
    using P Q by (metis append.assoc append_Cons append_Nil)
  have "0 \<notin> set (l # (xs @ ys) @ [tail_of l])" using assms by (auto simp: list_rep_def)
  with assms show ?thesis
    unfolding list_rep_def e by (intro that[OF P Q]) auto
qed

lemma list_rep_path:
  "list_rep h l xs \<Longrightarrow> l # xs @ [tail_of l] = zs \<Longrightarrow> dlinks h zs \<and> distinct zs"
  unfolding list_rep_def by metis

lemma list_repI:
  assumes "l # xs @ [tail_of l] = zs" and "dlinks h zs" and "prv h l = 0 \<and> nxt h (tail_of l) = 0"
    and "l \<noteq> 0 \<and> 0 \<notin> set xs \<and> distinct (l # xs @ [tail_of l])"
  shows "list_rep h l xs"
  using assms unfolding list_rep_def by blast

lemma list_rep_facts:
  "list_rep h l xs \<Longrightarrow> l \<noteq> 0 \<and> 0 \<notin> set xs \<and> distinct (l # xs @ [tail_of l])"
  "list_rep h l xs \<Longrightarrow> prv h l = 0 \<and> nxt h (tail_of l) = 0"
  by (auto simp: list_rep_def)

lemma chain_ends:
  assumes "l # xs = P @ [p]" "ys @ [t] = b # Q" "distinct (P @ p # b # Q)"
  shows "l \<noteq> b" and "t \<noteq> p"
proof -
  have "l \<in> set (P @ [p])" "t \<in> set (b # Q)"
    using assms(1,2) by (metis list.set_intros(1), metis in_set_conv_decomp)
  then show "l \<noteq> b" "t \<noteq> p" using assms(3) by auto
qed

lemma list_rep_kinds:
  assumes "list_rep h l xs"
  shows "is_head h l" and "is_tail h (tail_of l)" and "e \<in> set xs \<Longrightarrow> is_interior h e"
proof -
  obtain P p b Q where c: "l # [] = P @ [p]" "xs @ [tail_of l] = b # Q"
    "dlinks h (P @ p # b # Q)" "0 \<notin> set (P @ p # b # Q)"
    using list_rep_chain[of h l "[]" xs, simplified append_Nil, OF assms] by metis
  then have "nxt h l = b" "b \<noteq> 0" by auto
  then show "is_head h l" using assms by (auto simp: is_head_def list_rep_def)
next
  obtain P p b Q where c: "l # xs = P @ [p]" "[tail_of l] = b # Q"
    "dlinks h (P @ p # b # Q)" "0 \<notin> set (P @ p # b # Q)"
    using list_rep_chain[of h l xs "[]", simplified append_Nil append_Nil2, OF assms] by metis
  then have "prv h (tail_of l) = p" "p \<noteq> 0" by (auto dest: dlinks_suffix)
  then show "is_tail h (tail_of l)" using assms by (auto simp: is_tail_def list_rep_def)
next
  assume "e \<in> set xs"
  then obtain as bs where xs: "xs = as @ e # bs" by (meson split_list)
  obtain P p b Q where c: "l # as = P @ [p]" "(e # bs) @ [tail_of l] = b # Q"
    "dlinks h (P @ p # b # Q)" "0 \<notin> set (P @ p # b # Q)"
    using list_rep_chain[of h l as "e # bs", OF assms[unfolded xs]] by metis
  obtain b' Q' where d: "bs @ [tail_of l] = b' # Q'" by (cases bs) auto
  have "dlinks h (p # b # Q)" using c(3) by (rule dlinks_suffix)
  then have "dlinks h (p # e # b' # Q')" using c(2) d by simp
  moreover have "b' \<noteq> 0" using d assms xs by (cases bs) (auto simp: list_rep_def)
  ultimately show "is_interior h e" using c d by (auto simp: is_interior_def)
qed

lemma list_rep_hd_kind:
  "list_rep h l (xs @ ys) \<Longrightarrow>
   is_interior h (hd (ys @ [tail_of l])) \<or> is_tail h (hd (ys @ [tail_of l]))"
  using list_rep_kinds[of h l "xs @ ys"] by (cases ys) auto

lemma list_next_rep:
  assumes "list_rep h l xs" and "l # xs = as @ e # bs"
  shows "list_next e h = Some (hd (bs @ [tail_of l]))"
proof -
  have "is_head h e \<or> is_interior h e"
    using assms list_rep_kinds[OF assms(1)] by (cases as) auto
  moreover have "nxt h e = hd (bs @ [tail_of l])"
  proof -
    have "dlinks h (as @ e # bs @ [tail_of l])"
      using assms by (metis append.assoc append_Cons list_rep_def)
    then have "dlinks h (e # bs @ [tail_of l])" by (rule dlinks_suffix)
    then show ?thesis by (cases bs) auto
  qed
  ultimately show ?thesis by (simp add: list_next_def)
qed

lemma list_prev_rep:
  assumes "list_rep h l xs" and "xs @ [tail_of l] = as @ e # bs"
  shows "list_prev e h = Some (last (l # as))"
proof -
  have "is_interior h e \<or> is_tail h e"
  proof (cases bs rule: rev_cases)
    case Nil then show ?thesis using assms list_rep_kinds[OF assms(1)] by simp
  next
    case (snoc bs' z)
    then have "xs @ [tail_of l] = (as @ e # bs') @ [z]" using assms(2) by simp
    then have "xs = as @ e # bs'" by (simp only: append1_eq_conv)
    then show ?thesis using list_rep_kinds[OF assms(1)] by simp
  qed
  moreover have "prv h e = last (l # as)"
  proof -
    have "dlinks h (l # as @ e # bs)" using assms by (simp add: list_rep_def)
    moreover obtain P p where P: "l # as = P @ [p]" by (metis list.distinct(1) rev_exhaust)
    moreover have "l # as @ e # bs = P @ p # e # bs" using P by (metis append.assoc append_Cons append_Nil)
    ultimately have "dlinks h (p # e # bs)" by (metis dlinks_suffix)
    then show ?thesis using P by simp
  qed
  ultimately show ?thesis by (simp add: list_prev_def)
qed

lemma list_begin_rep: "list_rep h l xs \<Longrightarrow> list_begin l h = Some (hd (xs @ [tail_of l]))"
  using list_next_rep[of h l xs "[]" l xs] list_rep_kinds(1)[of h l xs]
  by (simp add: list_begin_def list_next_def) (simp add: list_rep_def)

lemma list_end_rep: "list_rep h l xs \<Longrightarrow> list_end l = Some (tail_of l)"
  by (simp add: list_end_def list_rep_def)

lemma list_rbegin_rep: "list_rep h l xs \<Longrightarrow> list_rbegin l h = Some (last (l # xs))"
  using list_prev_rep[of h l xs xs "tail_of l" "[]"] list_rep_kinds(2)[of h l xs]
  by (simp add: list_rbegin_def list_prev_def) (simp add: list_rep_def)

lemma hd_app_eq_tail: "list_rep h l (xs @ ys) \<Longrightarrow> hd (ys @ [tail_of l]) = tail_of l \<longleftrightarrow> ys = []"
  by (cases ys) (auto simp: list_rep_def)

lemma list_empty_rep: "list_rep h l xs \<Longrightarrow> list_empty l h = Some (xs = [])"
  using hd_app_eq_tail[of h l "[]" xs]
  by (simp add: list_empty_def list_begin_rep list_end_rep)

section \<open>What each operation does to the represented list\<close>

lemma list_init_rep:
  assumes "l \<noteq> 0"
  obtains h' where "list_init l h = Some h'" "list_rep h' l []" "same_outside (cells l []) h h'"
  using assms
  by (auto simp: list_init_def Let_def list_rep_def same_outside_def cells_def)

lemma list_insert_link_seg:
  assumes "is_interior h b \<or> is_tail h b" and "e \<noteq> 0" and "e \<noteq> b"
  shows "list_insert b e h = Some (link_seg b e e h)"
  using assms by (simp add: list_insert_def Let_def link_seg_def)

lemma list_insert_rep:
  assumes rep: "list_rep h l (xs @ ys)" and e: "e \<noteq> 0" "e \<notin> cells l (xs @ ys)"
  obtains h' where "list_insert (hd (ys @ [tail_of l])) e h = Some h'"
    "list_rep h' l (xs @ e # ys)" "same_outside (cells l (xs @ e # ys)) h h'"
proof -
  from rep obtain P p b Q where c: "l # xs = P @ [p]" "ys @ [tail_of l] = b # Q"
    "dlinks h (P @ p # b # Q)" "distinct (P @ p # b # Q)"
    by (rule list_rep_chain)
  have sets: "set (P @ p # b # Q) = cells l (xs @ ys)"
  proof -
    have "set (P @ p # b # Q) = set (l # xs) \<union> set (ys @ [tail_of l])" unfolding c(1,2) by auto
    then show ?thesis by (auto simp: cells_def)
  qed
  have de: "distinct (P @ p # b # Q @ [e])" "dlinks h [e]" using c(4) e(2) sets by auto
  define h' where "h' = link_seg b e e h"
  have h'd: "dlinks h' (P @ p # e # b # Q)" "same_outside {p, b, e} h h'"
    "\<And>a. a \<notin> {b, e} \<Longrightarrow> prv h' a = prv h a" "\<And>a. a \<notin> {p, e} \<Longrightarrow> nxt h' a = nxt h a"
    using link_seg_dlinks[OF c(3) de(1) _ de(2)] by (simp_all add: h'_def insert_commute)
  have ex: "list_insert (hd (ys @ [tail_of l])) e h = Some h'"
    using list_rep_hd_kind[OF rep] e sets c(2) by (subst list_insert_link_seg) (auto simp: h'_def)
  have path: "l # (xs @ e # ys) @ [tail_of l] = P @ p # e # b # Q"
    using c(1,2) by (metis append.assoc append_Cons append_Nil)
  have "p \<in> cells l (xs @ ys)" "b \<in> cells l (xs @ ys)" using sets by auto
  then have so: "same_outside (cells l (xs @ e # ys)) h h'"
    by (intro same_outside_mono[OF h'd(2)]) (auto simp: cells_def)
  have "l \<noteq> e" "tail_of l \<noteq> e" using e(2) by (auto simp: cells_def)
  moreover have "l \<noteq> b" "tail_of l \<noteq> p" by (rule chain_ends[OF c(1,2,4)])+
  ultimately have "prv h' l = 0 \<and> nxt h' (tail_of l) = 0"
    using h'd(3)[of l] h'd(4)[of "tail_of l"] rep by (simp add: list_rep_def)
  then have "list_rep h' l (xs @ e # ys)"
    using list_rep_facts(1)[OF rep] e by (intro list_repI[OF path h'd(1)]) (auto simp: cells_def)
  from that[OF ex this so] show ?thesis .
qed


lemma list_splice_unlink_link:
  assumes "is_interior h before \<or> is_tail h before" and "f \<noteq> stop" and "list_prev stop h = Some k"
    and "is_interior h f" "is_interior h k" and "before \<noteq> f"
  shows "list_splice before f stop h = Some (link_seg before f k (unlink_seg f k h))"
  using assms by (simp add: list_splice_def Let_def unlink_seg_def link_seg_def)

lemma list_rep_segment_kinds:
  assumes "list_rep h l (xs @ ms @ zs)" "ms \<noteq> []"
  shows "is_interior h (hd ms)" "is_interior h (last ms)"
    "list_prev (hd (zs @ [tail_of l])) h = Some (last ms)" "hd ms \<noteq> hd (zs @ [tail_of l])"
proof -
  show "is_interior h (hd ms)" "is_interior h (last ms)"
    using list_rep_kinds(3)[OF assms(1)] assms(2) by auto
  obtain b bs where b: "zs @ [tail_of l] = b # bs" by (cases zs) auto
  then have "(xs @ ms @ zs) @ [tail_of l] = (xs @ ms) @ b # bs" by simp
  from list_prev_rep[OF assms(1) this] show "list_prev (hd (zs @ [tail_of l])) h = Some (last ms)"
    using b assms(2) by simp
  show "hd ms \<noteq> hd (zs @ [tail_of l])"
    using assms by (cases zs; cases ms) (auto simp: list_rep_def)
qed

text \<open>Moving a later segment of a list in front of an earlier element of the same list.\<close>

lemma list_splice_same_rep:
  assumes rep: "list_rep h l (xs @ ys @ ms @ zs)" and ne: "ys \<noteq> []" "ms \<noteq> []"
  obtains h' where "list_splice (hd ys) (hd ms) (hd (zs @ [tail_of l])) h = Some h'"
    "list_rep h' l (xs @ ms @ ys @ zs)" "same_outside (cells l (xs @ ys @ ms @ zs)) h h'"
proof -
  obtain P p where P: "l # xs = P @ [p]" by (metis list.distinct(1) rev_exhaust)
  obtain b ys' where b: "ys = b # ys'" using ne by (cases ys) auto
  obtain P2 p2 where P2: "l # xs @ ys = P2 @ [p2]" by (metis append_Cons list.distinct(1) rev_exhaust)
  obtain n Q where n: "zs @ [tail_of l] = n # Q" by (cases zs) auto
  have path: "l # (xs @ ys @ ms @ zs) @ [tail_of l] = P2 @ p2 # ms @ n # Q"
    using P2 n by (metis append.assoc append_Cons append_Nil)
  have path1: "P2 @ p2 # n # Q = P @ p # b # (ys' @ n # Q)"
    using P P2 b by (metis append.assoc append_Cons append_Nil)
  have rp: "dlinks h (P2 @ p2 # ms @ n # Q)" "distinct (P2 @ p2 # ms @ n # Q)"
    using list_rep_path[OF rep path] by auto
  define h1 where "h1 = unlink_seg (hd ms) (last ms) h"
  note u = unlink_seg_dlinks[OF rp ne(2), folded h1_def]
  have d1: "distinct (P @ p # b # (ys' @ n # Q) @ ms)"
  proof -
    have eq: "P @ p # b # (ys' @ n # Q) @ ms = (P2 @ p2 # n # Q) @ ms" using path1 by simp
    show ?thesis unfolding eq using rp(2) by auto
  qed
  define h2 where "h2 = link_seg b (hd ms) (last ms) h1"
  note k = link_seg_dlinks[OF u(1)[unfolded path1] d1 ne(2) u(2), folded h2_def]
  note sk = list_rep_segment_kinds[of h l "xs @ ys" ms zs, simplified, OF rep ne(2)]
  have "is_interior h b" using list_rep_kinds(3)[OF rep] b by simp
  moreover have "b \<noteq> hd ms" using d1 ne(2) by (cases ms) auto
  ultimately have ex: "list_splice (hd ys) (hd ms) (hd (zs @ [tail_of l])) h = Some h2"
    using list_splice_unlink_link[of h b "hd ms" "hd (zs @ [tail_of l])" "last ms"] sk
    by (simp add: b h2_def h1_def)
  have path2: "l # (xs @ ms @ ys @ zs) @ [tail_of l] = P @ p # ms @ b # ys' @ n # Q"
    using P n b by (metis append.assoc append_Cons append_Nil)
  have cs: "cells l (xs @ ys @ ms @ zs) = set (P @ p # ms @ b # ys' @ n # Q)"
    unfolding path2[symmetric] by (auto simp: cells_def)
  have so: "same_outside (cells l (xs @ ys @ ms @ zs)) h h2"
  proof (rule same_outside_trans[OF u(3) k(2)])
    have "p2 \<in> set (P2 @ p2 # n # Q)" by simp
    then have "p2 \<in> set (P @ p # b # ys' @ n # Q)" unfolding path1 by simp
    then show "{p2, n} \<subseteq> cells l (xs @ ys @ ms @ zs)" unfolding cs by auto
  qed (auto simp: cs)
  have lm: "l \<notin> set ms" "tail_of l \<notin> set ms" using rep by (auto simp: list_rep_def)
  have "l \<noteq> b" using rep b by (auto simp: list_rep_def)
  moreover have "l \<noteq> n"
    using chain_ends(1)[of l "xs @ ys" P2 p2 zs "tail_of l" n Q] P2 n rp(2) by auto
  moreover have "tail_of l \<noteq> p2"
    using chain_ends(2)[of l "xs @ ys" P2 p2 zs "tail_of l" n Q] P2 n rp(2) by auto
  moreover have "tail_of l \<noteq> p"
    using chain_ends(2)[of l xs P p "zs" "tail_of l" n Q] P n d1 by auto
  ultimately have "prv h2 l = 0 \<and> nxt h2 (tail_of l) = 0"
    using u(4)[of l] u(5)[of "tail_of l"] k(3)[of l] k(4)[of "tail_of l"] lm rep
    by (auto simp: list_rep_def)
  then have "list_rep h2 l (xs @ ms @ ys @ zs)"
    using list_rep_facts(1)[OF rep] by (intro list_repI[OF path2 k(1)]) auto
  from that[OF ex this so] show ?thesis .
qed

text \<open>Moving a segment of one list into another list.\<close>

lemma list_splice_other_rep:
  assumes rep: "list_rep h l (xs @ ys)" and rep': "list_rep h k (as @ ms @ bs)" and ne: "ms \<noteq> []"
    and dis: "cells l (xs @ ys) \<inter> cells k (as @ ms @ bs) = {}"
  obtains h' where "list_splice (hd (ys @ [tail_of l])) (hd ms) (hd (bs @ [tail_of k])) h = Some h'"
    "list_rep h' l (xs @ ms @ ys)" "list_rep h' k (as @ bs)"
    "same_outside (cells l (xs @ ys) \<union> cells k (as @ ms @ bs)) h h'"
proof -
  obtain P2 p2 where P2: "k # as = P2 @ [p2]" by (metis list.distinct(1) rev_exhaust)
  obtain n Q2 where n: "bs @ [tail_of k] = n # Q2" by (cases bs) auto
  have path: "k # (as @ ms @ bs) @ [tail_of k] = P2 @ p2 # ms @ n # Q2"
    using P2 n by (metis append.assoc append_Cons append_Nil)
  have path1: "k # (as @ bs) @ [tail_of k] = P2 @ p2 # n # Q2"
    using P2 n by (metis append.assoc append_Cons append_Nil)
  have rp: "dlinks h (P2 @ p2 # ms @ n # Q2)" "distinct (P2 @ p2 # ms @ n # Q2)"
    using list_rep_path[OF rep' path] by auto
  have cs': "cells k (as @ ms @ bs) = set (P2 @ p2 # ms @ n # Q2)"
    unfolding path[symmetric] by (auto simp: cells_def)
  define h1 where "h1 = unlink_seg (hd ms) (last ms) h"
  note u = unlink_seg_dlinks[OF rp ne, folded h1_def]
  have "k \<noteq> n" "tail_of k \<noteq> p2"
    using chain_ends[of k as P2 p2 bs "tail_of k" n Q2] P2 n rp(2) by auto
  then have rk1: "list_rep h1 k (as @ bs)"
    using u(4)[of k] u(5)[of "tail_of k"] list_rep_facts[OF rep']
    by (intro list_repI[OF path1 u(1)]) auto
  have rl1: "list_rep h1 l (xs @ ys)"
    using dis unfolding cs' by (intro list_rep_frame[OF rep u(3)]) auto
  obtain P p b Q where c: "l # xs = P @ [p]" "ys @ [tail_of l] = b # Q"
    "dlinks h1 (P @ p # b # Q)" "distinct (P @ p # b # Q)"
    using list_rep_chain[OF rl1] by metis
  have cs: "set (P @ p # b # Q) = cells l (xs @ ys)"
  proof -
    have "set (P @ p # b # Q) = set (l # xs) \<union> set (ys @ [tail_of l])" unfolding c(1,2) by auto
    then show ?thesis by (auto simp: cells_def)
  qed
  have d2: "distinct (P @ p # b # Q @ ms)"
  proof -
    have "set (P @ p # b # Q) \<inter> set ms = {}" using dis unfolding cs by (auto simp: cells_def)
    moreover have "distinct ms" using rp(2) by simp
    ultimately have "distinct ((P @ p # b # Q) @ ms)" using c(4) by (simp only: distinct_append)
    then show ?thesis by simp
  qed
  define h2 where "h2 = link_seg b (hd ms) (last ms) h1"
  note k2 = link_seg_dlinks[OF c(3) d2 ne u(2), folded h2_def]
  note sk = list_rep_segment_kinds[OF rep' ne]
  have "b \<noteq> hd ms" using d2 ne by (cases ms) auto
  then have ex: "list_splice (hd (ys @ [tail_of l])) (hd ms) (hd (bs @ [tail_of k])) h = Some h2"
    using list_splice_unlink_link[of h b "hd ms" "hd (bs @ [tail_of k])" "last ms"] sk
      list_rep_hd_kind[OF rep] by (simp add: c(2) h2_def h1_def)
  have path2: "l # (xs @ ms @ ys) @ [tail_of l] = P @ p # ms @ b # Q"
    using c(1,2) by (metis append.assoc append_Cons append_Nil)
  have nl: "l \<noteq> b" "tail_of l \<noteq> p" by (rule chain_ends[OF c(1,2,4)])+
  have nm: "l \<notin> set ms" "tail_of l \<notin> set ms" "0 \<notin> set ms"
    using dis rep' unfolding cells_def list_rep_def by auto
  have rl2: "list_rep h2 l (xs @ ms @ ys)"
  proof (intro list_repI[OF path2 k2(1)])
    show "prv h2 l = 0 \<and> nxt h2 (tail_of l) = 0"
      using nl nm k2(3)[of l] k2(4)[of "tail_of l"] list_rep_facts(2)[OF rl1] by simp
    have "distinct (l # (xs @ ms @ ys) @ [tail_of l])" unfolding path2 using d2 by auto
    then show "l \<noteq> 0 \<and> 0 \<notin> set (xs @ ms @ ys) \<and> distinct (l # (xs @ ms @ ys) @ [tail_of l])"
      using nm list_rep_facts(1)[OF rl1] by simp
  qed
  have "same_outside ({p, b} \<union> set ms) h1 h2" by (rule k2(2))
  moreover have "cells k (as @ bs) \<inter> ({p, b} \<union> set ms) = {}"
  proof -
    have "cells k (as @ bs) \<inter> set ms = {}" using rep' by (auto simp: cells_def list_rep_def)
    moreover have "p \<notin> cells k (as @ bs)" "b \<notin> cells k (as @ bs)"
      using dis unfolding cs[symmetric] by (auto simp: cells_def)
    ultimately show ?thesis by auto
  qed
  ultimately have rk2: "list_rep h2 k (as @ bs)" by (rule list_rep_frame[OF rk1])
  have so: "same_outside (cells l (xs @ ys) \<union> cells k (as @ ms @ bs)) h h2"
    by (rule same_outside_trans[OF u(3) k2(2)]) (auto simp: cs' cs[symmetric])
  from that[OF ex rl2 rk2 so] show ?thesis .
qed

lemma list_remove_unlink_seg:
  "is_interior h e \<Longrightarrow> prv h e \<noteq> e \<Longrightarrow> nxt h e \<noteq> e \<Longrightarrow>
   list_remove e h = Some (nxt h e, unlink_seg e e h)"
  by (simp add: list_remove_def Let_def unlink_seg_def)

lemma list_remove_rep:
  assumes rep: "list_rep h l (xs @ e # ys)"
  obtains h' where "list_remove e h = Some (hd (ys @ [tail_of l]), h')"
    "list_rep h' l (xs @ ys)" "same_outside (cells l (xs @ ys)) h h'" "prv h' e = prv h e" "nxt h' e = nxt h e"
proof -
  obtain P p where P: "l # xs = P @ [p]" by (metis list.distinct(1) rev_exhaust)
  obtain n Q where n: "ys @ [tail_of l] = n # Q" by (cases ys) auto
  have path: "l # (xs @ e # ys) @ [tail_of l] = P @ p # [e] @ n # Q"
    using P n by (metis append.assoc append_Cons append_Nil)
  have path1: "l # (xs @ ys) @ [tail_of l] = P @ p # n # Q"
    using P n by (metis append.assoc append_Cons append_Nil)
  have rp: "dlinks h (P @ p # [e] @ n # Q)" "distinct (P @ p # [e] @ n # Q)"
    using list_rep_path[OF rep, of "P @ p # [e] @ n # Q"] path by auto
  define h1 where "h1 = unlink_seg e e h"
  have u: "dlinks h1 (P @ p # n # Q)" "same_outside {p, n} h h1"
    "\<And>a. a \<noteq> n \<Longrightarrow> prv h1 a = prv h a" "\<And>a. a \<noteq> p \<Longrightarrow> nxt h1 a = nxt h a"
    using unlink_seg_dlinks[OF rp] by (simp_all add: h1_def)
  have "dlinks h (p # e # n # Q)" using rp(1) dlinks_suffix by fastforce
  then have pn: "prv h e = p" "nxt h e = n" by auto
  have ex: "list_remove e h = Some (hd (ys @ [tail_of l]), h1)"
    using list_rep_kinds(3)[OF rep, of e] rp(2) pn n by (subst list_remove_unlink_seg) (auto simp: h1_def)
  have "l \<noteq> n" "tail_of l \<noteq> p" using chain_ends[OF P n] rp(2) by auto
  then have rl: "list_rep h1 l (xs @ ys)"
    using u(3)[of l] u(4)[of "tail_of l"] list_rep_facts[OF rep]
    by (intro list_repI[OF path1 u(1)]) auto
  have "cells l (xs @ ys) = set (P @ p # n # Q)" unfolding path1[symmetric] by (auto simp: cells_def)
  then have so: "same_outside (cells l (xs @ ys)) h h1"
    by (intro same_outside_mono[OF u(2)]) auto
  have "e \<noteq> n" "e \<noteq> p" using rp(2) by auto
  from that[OF ex rl so u(3)[OF this(1)] u(4)[OF this(2)]] show ?thesis .
qed

lemma list_push_front_rep:
  assumes "list_rep h l xs" "e \<noteq> 0" "e \<notin> cells l xs"
  obtains h' where "list_push_front l e h = Some h'" "list_rep h' l (e # xs)"
    "same_outside (cells l (e # xs)) h h'"
  using list_insert_rep[of h l "[]" xs e] assms list_begin_rep[OF assms(1)]
  by (auto simp: list_push_front_def)

lemma list_push_back_rep:
  assumes "list_rep h l xs" "e \<noteq> 0" "e \<notin> cells l xs"
  obtains h' where "list_push_back l e h = Some h'" "list_rep h' l (xs @ [e])"
    "same_outside (cells l (xs @ [e])) h h'"
  using list_insert_rep[of h l xs "[]" e] assms list_end_rep[OF assms(1)]
  by (auto simp: list_push_back_def)

lemma list_front_rep:
  assumes "list_rep h l (x # xs)"
  shows "list_front l h = Some x"
proof -
  have "l \<noteq> 0" using list_rep_facts(1)[OF assms] by blast
  then have "nxt h l = x" using list_begin_rep[OF assms] by (simp add: list_begin_def)
  then show ?thesis using list_empty_rep[OF assms] by (simp add: list_front_def)
qed

lemma list_back_rep:
  assumes "list_rep h l xs" and "xs \<noteq> []"
  shows "list_back l h = Some (last xs)"
proof -
  have "l \<noteq> 0" using list_rep_facts(1)[OF assms(1)] by blast
  then have "prv h (tail_of l) = last xs"
    using list_rbegin_rep[OF assms(1)] assms(2) by (simp add: list_rbegin_def)
  then show ?thesis using list_empty_rep[OF assms(1)] assms(2) by (simp add: list_back_def)
qed

lemma list_pop_front_rep:
  assumes "list_rep h l (x # xs)"
  obtains h' where "list_pop_front l h = Some (x, h')" "list_rep h' l xs" "same_outside (cells l xs) h h'"
proof -
  obtain h' where h': "list_remove x h = Some (hd (xs @ [tail_of l]), h')"
    "list_rep h' l xs" "same_outside (cells l xs) h h'"
    using list_remove_rep[of h l "[]" x xs, simplified append_Nil, OF assms] by metis
  have "list_pop_front l h = Some (x, h')"
    using h'(1) by (simp add: list_pop_front_def list_front_rep[OF assms])
  then show ?thesis using h'(2,3) by (rule that)
qed

lemma list_pop_back_rep:
  assumes "list_rep h l (xs @ [x])"
  obtains h' where "list_pop_back l h = Some (x, h')" "list_rep h' l xs" "same_outside (cells l xs) h h'"
proof -
  obtain h' where h': "list_remove x h = Some (tail_of l, h')"
    "list_rep h' l xs" "same_outside (cells l xs) h h'"
    using list_remove_rep[of h l xs x "[]", OF assms] by (metis append_Nil append_Nil2 list.sel(1))
  have "list_pop_back l h = Some (x, h')"
    using h'(1) list_back_rep[OF assms] by (simp add: list_pop_back_def)
  then show ?thesis using h'(2,3) by (rule that)
qed

lemma list_pop_front_empty: "list_rep h l [] \<Longrightarrow> list_pop_front l h = None"
  by (simp add: list_pop_front_def list_front_def list_empty_rep)

section \<open>Traversal and reversal\<close>

lemma list_step_rep:
  assumes "list_rep h l xs" and "xs = as @ bs" and "bs \<noteq> []"
  shows "hd (bs @ [tail_of l]) \<noteq> tail_of l"
    and "list_next (hd bs) h = Some (hd (tl bs @ [tail_of l]))"
proof -
  obtain b bs' where b: "bs = b # bs'" using assms(3) by (cases bs) auto
  show "hd (bs @ [tail_of l]) \<noteq> tail_of l" using assms b by (auto simp: list_rep_def)
  show "list_next (hd bs) h = Some (hd (tl bs @ [tail_of l]))"
    using list_next_rep[OF assms(1), of "l # as" b bs'] assms(2) b by simp
qed

lemma list_size_loop_rep:
  assumes "list_rep h l xs" and "xs = as @ bs"
  shows "list_size_loop (hd (bs @ [tail_of l])) (tail_of l) cnt h = Some (cnt + of_nat (length bs))"
  using assms(2)
proof (induction bs arbitrary: as cnt)
  case Nil
  then show ?case by (simp add: list_size_loop.simps)
next
  case (Cons b bs)
  note st = list_step_rep[OF assms(1) Cons.prems]
  have "list_size_loop (hd (bs @ [tail_of l])) (tail_of l) (cnt + 1) h = Some (cnt + 1 + of_nat (length bs))"
    using Cons.IH[of "as @ [b]"] Cons.prems by simp
  then show ?case using st by (subst list_size_loop.simps) (simp add: add.assoc)
qed

lemma list_size_rep:
  "list_rep h l xs \<Longrightarrow> list_size l h = Some (of_nat (length xs))"
  using list_size_loop_rep[of h l xs "[]" xs 0]
  by (simp add: list_size_def list_begin_rep list_end_rep)

text \<open>Links with the two directions exchanged on a set of elements.\<close>

definition swapped_on :: "addr set \<Rightarrow> heap \<Rightarrow> heap \<Rightarrow> bool" where
  "swapped_on S h h' \<longleftrightarrow>
     (\<forall>a. prv h' a = (if a \<in> S then nxt h a else prv h a) \<and>
          nxt h' a = (if a \<in> S then prv h a else nxt h a))"

lemma swap_links_sel [simp]:
  "prv (swap_links e h) = (prv h)(e := nxt h e)" "nxt (swap_links e h) = (nxt h)(e := prv h e)"
  by (simp_all add: swap_links_def Let_def)

lemma list_reverse_loop_swaps:
  assumes "dlinks h (ys @ [t])" "distinct (ys @ [t])"
  shows "\<exists>h'. list_reverse_loop (hd (ys @ [t])) t h = Some h' \<and> swapped_on (set ys) h h'"
  using assms
proof (induction ys arbitrary: h)
  case Nil
  then show ?case by (simp add: list_reverse_loop.simps swapped_on_def)
next
  case (Cons y ys)
  let ?h1 = "swap_links y h"
  have n: "nxt h y = hd (ys @ [t])" using Cons.prems(1) by (cases ys) auto
  have "dlinks ?h1 (ys @ [t]) = dlinks h (ys @ [t])"
    using Cons.prems(2) by (intro dlinks_cong) (auto dest!: in_set_butlastD in_set_tlD)
  moreover have "dlinks h (ys @ [t])" using Cons.prems(1) by (auto dest: dlinks_Cons_tl)
  ultimately obtain h' where h': "list_reverse_loop (hd (ys @ [t])) t ?h1 = Some h'"
    "swapped_on (set ys) ?h1 h'"
    using Cons.IH[of ?h1] Cons.prems(2) by auto
  have "list_reverse_loop (hd ((y # ys) @ [t])) t h = Some h'"
    using Cons.prems(2) h'(1) n by (subst list_reverse_loop.simps) (simp add: Let_def)
  moreover have "swapped_on (set (y # ys)) h h'"
    using h'(2) Cons.prems(2) by (auto simp: swapped_on_def)
  ultimately show ?case by blast
qed

lemma dlinks_rev:
  assumes "dlinks h zs" and "\<forall>a \<in> set zs. prv h' a = nxt h a \<and> nxt h' a = prv h a"
  shows "dlinks h' (rev zs)"
  using assms
proof (induction h zs rule: dlinks.induct)
  case (1 h a b zs)
  then have "dlinks h' (rev zs @ [b])" by simp
  then show ?case using "1.prems" by (simp add: dlinks_snoc2)
qed auto

lemma list_reverse_rep:
  assumes rep: "list_rep h l xs"
  obtains h' where "list_reverse l h = Some h'" "list_rep h' l (rev xs)" "same_outside (cells l xs) h h'"
proof (cases "xs = []")
  case True
  then show ?thesis using rep that[of h] by (simp add: list_reverse_def list_empty_rep)
next
  case False
  let ?t = "tail_of l"
  have lk: "dlinks h (l # xs @ [?t])" "distinct (l # xs @ [?t])" using rep by (auto simp: list_rep_def)
  have "dlinks h (xs @ [?t])" using lk(1) by (rule dlinks_Cons_tl)
  then obtain h1 where h1: "list_reverse_loop (hd (xs @ [?t])) ?t h = Some h1" "swapped_on (set xs) h h1"
    using list_reverse_loop_swaps[of h xs ?t] lk(2) by auto
  obtain x xs1 where x: "xs = x # xs1" using False by (cases xs) auto
  obtain y xs2 where y: "xs = xs2 @ [y]" using False by (cases xs rule: rev_cases) auto
  note hl = dlinks_hd_last[OF lk(1) False]
  have "hd xs = x" "last xs = y" by (simp add: x, simp add: y)
  then have v: "nxt h l = x" "prv h x = l" "nxt h y = ?t" "prv h ?t = y" using hl by auto
  have nn: "l \<noteq> x" "l \<noteq> y" "?t \<noteq> x" "?t \<noteq> y" "x \<in> set xs" "y \<in> set xs" "l \<notin> set xs" "?t \<notin> set xs"
  proof -
    show "x \<in> set xs" "y \<in> set xs" by (simp add: x, simp add: y)
    moreover show "l \<notin> set xs" "?t \<notin> set xs" using lk(2) by auto
    ultimately show "l \<noteq> x" "l \<noteq> y" "?t \<noteq> x" "?t \<noteq> y" by metis+
  qed
  have v1: "nxt h1 l = x" "prv h1 ?t = y" "prv h1 y = ?t" "nxt h1 x = l" "prv h1 l = 0" "nxt h1 ?t = 0"
    using h1(2) v nn rep by (auto simp: swapped_on_def list_rep_def)
  define h2 where "h2 = set_nxt (set_prv (set_prv (set_nxt h1 l y) ?t x) y l) x ?t"
  have ex: "list_reverse l h = Some h2"
    using rep False h1(1) v1 nn
    by (simp add: list_reverse_def list_empty_rep list_begin_rep list_end_rep Let_def h2_def)
  have p2: "prv h2 = (prv h1)(?t := x, y := l)" "nxt h2 = (nxt h1)(l := y, x := ?t)"
    by (simp_all add: h2_def)
  have "dlinks h1 (rev xs)"
    using dlinks_butlast[OF \<open>dlinks h (xs @ [?t])\<close>] h1(2) by (intro dlinks_rev) (auto simp: swapped_on_def)
  moreover have rx: "rev xs = y # rev xs2" "rev xs = rev xs1 @ [x]" by (simp add: y, simp add: x)
  have "dlinks h2 (rev xs) = dlinks h1 (rev xs)"
  proof (rule dlinks_cong)
    fix a assume "a \<in> set (butlast (rev xs))"
    then have "a \<in> set xs1" "a \<in> set xs" unfolding rx(2) using x by auto
    then show "nxt h2 a = nxt h1 a" using lk(2) x nn by (auto simp: p2)
  next
    fix a assume "a \<in> set (tl (rev xs))"
    then have "a \<in> set xs2" "a \<in> set xs" unfolding rx(1) using y by auto
    then show "prv h2 a = prv h1 a" using lk(2) y nn by (auto simp: p2)
  qed
  ultimately have "dlinks h2 (rev xs1 @ [x, ?t])"
    using rx(2) nn by (simp add: dlinks_snoc2 p2)
  then have "dlinks h2 (rev xs @ [?t])" using rx(2) by simp
  then have lk2: "dlinks h2 (l # rev xs @ [?t])" using rx(1) nn by (simp add: p2)
  have "list_rep h2 l (rev xs)"
    using list_rep_facts(1)[OF rep] v1 nn by (intro list_repI[OF refl lk2]) (auto simp: p2)
  moreover have "same_outside (cells l xs) h h2"
    using h1(2) nn by (auto simp: same_outside_def cells_def p2 swapped_on_def)
  ultimately show ?thesis using that[OF ex] by blast
qed

section \<open>Properties\<close>

text \<open>
  \<open>list_insert\<close> puts an element that is in no list before any position (the tail
  included), and \<open>list_remove\<close> takes it out again: the list is back as it was, \<open>list_remove\<close>
  returns the element that followed, and neither writes outside the list's own elements.
\<close>

theorem list_insert_remove_roundtrip:
  assumes "list_rep h l (xs @ ys)" "e \<noteq> 0" "e \<notin> cells l (xs @ ys)"
  shows "\<exists>h1 h2. list_insert (hd (ys @ [tail_of l])) e h = Some h1 \<and> list_rep h1 l (xs @ e # ys) \<and>
    list_remove e h1 = Some (hd (ys @ [tail_of l]), h2) \<and> list_rep h2 l (xs @ ys) \<and>
    same_outside (cells l (xs @ e # ys)) h h2"
proof -
  obtain h1 where h1: "list_insert (hd (ys @ [tail_of l])) e h = Some h1" "list_rep h1 l (xs @ e # ys)"
    "same_outside (cells l (xs @ e # ys)) h h1" using list_insert_rep[OF assms] .
  obtain h2 where h2: "list_remove e h1 = Some (hd (ys @ [tail_of l]), h2)" "list_rep h2 l (xs @ ys)"
    "same_outside (cells l (xs @ ys)) h1 h2" using list_remove_rep[OF h1(2)] .
  have "same_outside (cells l (xs @ e # ys)) h h2"
    using h1(3) h2(3) by (auto simp: same_outside_def cells_def)
  then show ?thesis using h1 h2 by blast
qed

theorem list_insert_remove_roundtrip_witness:
  "\<exists>h h1 h2. list_rep h 100 [] \<and> list_insert 108 50 h = Some h1 \<and> list_rep h1 100 [50] \<and>
     list_remove 50 h1 = Some (108, h2)"
proof -
  obtain h where "list_rep h 100 []" using list_init_rep[of 100] by auto
  then show ?thesis
    using list_insert_remove_roundtrip[of h 100 "[]" "[]" 50] by (auto simp: cells_def)
qed

text \<open>
  \<open>list_splice\<close> moves a run of elements from one list to before any position of another:
  both lists keep their order, and nothing but the elements of the two lists is written.
\<close>

theorem list_splice_moves_run:
  assumes "list_rep h l (xs @ ys)" "list_rep h k (as @ ms @ bs)" "ms \<noteq> []"
    "cells l (xs @ ys) \<inter> cells k (as @ ms @ bs) = {}"
  shows "\<exists>h'. list_splice (hd (ys @ [tail_of l])) (hd ms) (hd (bs @ [tail_of k])) h = Some h' \<and>
    list_rep h' l (xs @ ms @ ys) \<and> list_rep h' k (as @ bs) \<and>
    same_outside (cells l (xs @ ys) \<union> cells k (as @ ms @ bs)) h h'"
  using list_splice_other_rep[OF assms] by metis

theorem list_splice_moves_run_witness:
  "\<exists>h h'. list_splice 108 50 208 h = Some h' \<and> list_rep h' 100 [50] \<and> list_rep h' 200 []"
proof -
  obtain h0 where h0: "list_rep h0 100 []" using list_init_rep[of 100] by auto
  obtain h1 where h1: "list_rep h1 200 []" "same_outside (cells 200 []) h0 h1"
    using list_init_rep[of 200 h0] by auto
  obtain h2 where h2: "list_rep h2 200 [50]" "same_outside (cells 200 [50]) h1 h2"
    using list_push_back_rep[OF h1(1), of 50] by (auto simp: cells_def)
  have "list_rep h2 100 []"
    using list_rep_frame[OF list_rep_frame[OF h0 h1(2)] h2(2)] by (simp add: cells_def)
  then show ?thesis
    using list_splice_moves_run[of h2 100 "[]" "[]" 200 "[]" "[50]" "[]"] h2(1) by (auto simp: cells_def)
qed

text \<open>
  \<open>list_reverse\<close> reverses the order of the elements in place, for any length; reversing
  twice gives the list back.
\<close>

theorem list_reverse_involutive:
  assumes "list_rep h l xs"
  shows "\<exists>h1 h2. list_reverse l h = Some h1 \<and> list_rep h1 l (rev xs) \<and>
    list_reverse l h1 = Some h2 \<and> list_rep h2 l xs \<and> same_outside (cells l xs) h h2"
proof -
  obtain h1 where h1: "list_reverse l h = Some h1" "list_rep h1 l (rev xs)" "same_outside (cells l xs) h h1"
    using list_reverse_rep[OF assms] .
  obtain h2 where h2: "list_reverse l h1 = Some h2" "list_rep h2 l (rev (rev xs))"
    "same_outside (cells l (rev xs)) h1 h2" using list_reverse_rep[OF h1(2)] .
  have "same_outside (cells l xs) h h2"
    using h1(3) h2(3) by (auto simp: same_outside_def cells_def)
  then show ?thesis using h1 h2 by auto
qed

theorem list_reverse_involutive_witness:
  "\<exists>h h1. list_rep h 100 [40, 50] \<and> list_reverse 100 h = Some h1 \<and> list_rep h1 100 [50, 40]"
proof -
  obtain h0 where h0: "list_rep h0 100 []" using list_init_rep[of 100] by auto
  obtain h1 where h1: "list_rep h1 100 [50]" using list_push_front_rep[OF h0, of 50] by (auto simp: cells_def)
  obtain h2 where "list_rep h2 100 [40, 50]"
    using list_push_front_rep[OF h1, of 40] by (auto simp: cells_def)
  then show ?thesis using list_reverse_involutive[of h2 100 "[40, 50]"] by auto
qed

end
