(* ===== verification/KListSort.thy ===== *)
theory KListSort imports KList begin

text \<open>
  The ordered operations of \<open>lib/kernel/list.c\<close>: the natural iterative merge sort
  \<open>list_sort\<close> with its helpers, \<open>list_insert_ordered\<close>, \<open>list_unique\<close>, \<open>list_max\<close> and
  \<open>list_min\<close>, all over the store of links of theory KList.  The comparison callback
  \<open>list_less_func\<close> is the parameter \<open>lt\<close> (with its \<open>aux\<close> argument applied); what the
  callers promise of it, a strict weak order, is the locale \<open>list_order\<close>.
\<close>

section \<open>The operations\<close>

partial_function (option) is_sorted_loop ::
  "addr \<Rightarrow> addr \<Rightarrow> (addr \<Rightarrow> addr \<Rightarrow> bool) \<Rightarrow> heap \<Rightarrow> bool option" where
  "is_sorted_loop a b lt h = do {
     a' \<leftarrow> list_next a h;
     if a' = b then Some True
     else do {
       p \<leftarrow> list_prev a' h;
       if lt a' p then Some False else is_sorted_loop a' b lt h
     }
   }"

definition is_sorted :: "addr \<Rightarrow> addr \<Rightarrow> (addr \<Rightarrow> addr \<Rightarrow> bool) \<Rightarrow> heap \<Rightarrow> bool option" where
  "is_sorted a b lt h = (if a \<noteq> b then is_sorted_loop a b lt h else Some True)"

partial_function (option) find_end_of_run_loop ::
  "addr \<Rightarrow> addr \<Rightarrow> (addr \<Rightarrow> addr \<Rightarrow> bool) \<Rightarrow> heap \<Rightarrow> addr option" where
  "find_end_of_run_loop a b lt h = do {
     a' \<leftarrow> list_next a h;
     if a' = b then Some a'
     else do {
       p \<leftarrow> list_prev a' h;
       if lt a' p then Some a' else find_end_of_run_loop a' b lt h
     }
   }"

definition find_end_of_run :: "addr \<Rightarrow> addr \<Rightarrow> (addr \<Rightarrow> addr \<Rightarrow> bool) \<Rightarrow> heap \<Rightarrow> addr option" where
  "find_end_of_run a b lt h = do {
     ASSERT (a \<noteq> 0);
     ASSERT (b \<noteq> 0);
     ASSERT (a \<noteq> b);
     find_end_of_run_loop a b lt h
   }"

partial_function (option) inplace_merge_loop ::
  "addr \<Rightarrow> addr \<Rightarrow> addr \<Rightarrow> (addr \<Rightarrow> addr \<Rightarrow> bool) \<Rightarrow> heap \<Rightarrow> heap option" where
  "inplace_merge_loop a0 a1b0 b1 lt h =
     (if a0 \<noteq> a1b0 \<and> a1b0 \<noteq> b1 then
        if \<not> lt a1b0 a0 then do {
          a0' \<leftarrow> list_next a0 h;
          inplace_merge_loop a0' a1b0 b1 lt h
        }
        else do {
          a1b0' \<leftarrow> list_next a1b0 h;
          p \<leftarrow> list_prev a1b0' h;
          h' \<leftarrow> list_splice a0 p a1b0' h;
          inplace_merge_loop a0 a1b0' b1 lt h'
        }
      else Some h)"

definition inplace_merge ::
  "addr \<Rightarrow> addr \<Rightarrow> addr \<Rightarrow> (addr \<Rightarrow> addr \<Rightarrow> bool) \<Rightarrow> heap \<Rightarrow> heap option" where
  "inplace_merge a0 a1b0 b1 lt h = do {
     ASSERT (a0 \<noteq> 0);
     ASSERT (a1b0 \<noteq> 0);
     ASSERT (b1 \<noteq> 0);
     s1 \<leftarrow> is_sorted a0 a1b0 lt h;
     ASSERT s1;
     s2 \<leftarrow> is_sorted a1b0 b1 lt h;
     ASSERT s2;
     inplace_merge_loop a0 a1b0 b1 lt h
   }"

text \<open>One pass of the \<open>do\<close> loop: the \<open>for\<close> over pairs of adjacent runs.\<close>

partial_function (option) sort_pass ::
  "addr \<Rightarrow> addr \<Rightarrow> (addr \<Rightarrow> addr \<Rightarrow> bool) \<Rightarrow> u32 \<Rightarrow> heap \<Rightarrow> (u32 \<times> heap) option" where
  "sort_pass a0 l lt output_run_cnt h = do {
     stop \<leftarrow> list_end l;
     if a0 = stop then Some (output_run_cnt, h)
     else do {
       a1b0 \<leftarrow> find_end_of_run a0 stop lt h;
       if a1b0 = stop then Some (output_run_cnt + 1, h)
       else do {
         b1 \<leftarrow> find_end_of_run a1b0 stop lt h;
         h' \<leftarrow> inplace_merge a0 a1b0 b1 lt h;
         sort_pass b1 l lt (output_run_cnt + 1) h'
       }
     }
   }"

partial_function (option) list_sort_loop ::
  "addr \<Rightarrow> (addr \<Rightarrow> addr \<Rightarrow> bool) \<Rightarrow> heap \<Rightarrow> heap option" where
  "list_sort_loop l lt h = do {
     b \<leftarrow> list_begin l h;
     r \<leftarrow> sort_pass b l lt 0 h;
     if 1 < fst r then list_sort_loop l lt (snd r) else Some (snd r)
   }"

definition list_sort :: "addr \<Rightarrow> (addr \<Rightarrow> addr \<Rightarrow> bool) \<Rightarrow> heap \<Rightarrow> heap option" where
  "list_sort l lt h = do {
     ASSERT (l \<noteq> 0);
     h' \<leftarrow> list_sort_loop l lt h;
     b \<leftarrow> list_begin l h';
     e \<leftarrow> list_end l;
     s \<leftarrow> is_sorted b e lt h';
     ASSERT s;
     Some h'
   }"

partial_function (option) insert_ordered_loop ::
  "addr \<Rightarrow> addr \<Rightarrow> addr \<Rightarrow> (addr \<Rightarrow> addr \<Rightarrow> bool) \<Rightarrow> heap \<Rightarrow> addr option" where
  "insert_ordered_loop e stop elem lt h =
     (if e = stop then Some e
      else if lt elem e then Some e
      else do { e' \<leftarrow> list_next e h; insert_ordered_loop e' stop elem lt h })"

definition list_insert_ordered ::
  "addr \<Rightarrow> addr \<Rightarrow> (addr \<Rightarrow> addr \<Rightarrow> bool) \<Rightarrow> heap \<Rightarrow> heap option" where
  "list_insert_ordered l elem lt h = do {
     ASSERT (l \<noteq> 0);
     ASSERT (elem \<noteq> 0);
     b \<leftarrow> list_begin l h;
     stop \<leftarrow> list_end l;
     e \<leftarrow> insert_ordered_loop b stop elem lt h;
     list_insert e elem h
   }"

partial_function (option) list_unique_loop ::
  "addr \<Rightarrow> addr \<Rightarrow> addr \<Rightarrow> (addr \<Rightarrow> addr \<Rightarrow> bool) \<Rightarrow> heap \<Rightarrow> heap option" where
  "list_unique_loop elem l duplicates lt h = do {
     next \<leftarrow> list_next elem h;
     stop \<leftarrow> list_end l;
     if next = stop then Some h
     else if \<not> lt elem next \<and> \<not> lt next elem then do {
       r \<leftarrow> list_remove next h;
       h' \<leftarrow> (if duplicates \<noteq> 0 then list_push_back duplicates next (snd r) else Some (snd r));
       list_unique_loop elem l duplicates lt h'
     }
     else list_unique_loop next l duplicates lt h
   }"

definition list_unique ::
  "addr \<Rightarrow> addr \<Rightarrow> (addr \<Rightarrow> addr \<Rightarrow> bool) \<Rightarrow> heap \<Rightarrow> heap option" where
  "list_unique l duplicates lt h = do {
     ASSERT (l \<noteq> 0);
     em \<leftarrow> list_empty l h;
     if em then Some h
     else do { elem \<leftarrow> list_begin l h; list_unique_loop elem l duplicates lt h }
   }"

partial_function (option) list_max_loop ::
  "addr \<Rightarrow> addr \<Rightarrow> addr \<Rightarrow> (addr \<Rightarrow> addr \<Rightarrow> bool) \<Rightarrow> heap \<Rightarrow> addr option" where
  "list_max_loop m e stop lt h =
     (if e = stop then Some m
      else do {
        e' \<leftarrow> list_next e h;
        list_max_loop (if lt m e then e else m) e' stop lt h
      })"

definition list_max :: "addr \<Rightarrow> (addr \<Rightarrow> addr \<Rightarrow> bool) \<Rightarrow> heap \<Rightarrow> addr option" where
  "list_max l lt h = do {
     m \<leftarrow> list_begin l h;
     stop \<leftarrow> list_end l;
     if m \<noteq> stop then do { e \<leftarrow> list_next m h; list_max_loop m e stop lt h }
     else Some m
   }"

partial_function (option) list_min_loop ::
  "addr \<Rightarrow> addr \<Rightarrow> addr \<Rightarrow> (addr \<Rightarrow> addr \<Rightarrow> bool) \<Rightarrow> heap \<Rightarrow> addr option" where
  "list_min_loop m e stop lt h =
     (if e = stop then Some m
      else do {
        e' \<leftarrow> list_next e h;
        list_min_loop (if lt e m then e else m) e' stop lt h
      })"

definition list_min :: "addr \<Rightarrow> (addr \<Rightarrow> addr \<Rightarrow> bool) \<Rightarrow> heap \<Rightarrow> addr option" where
  "list_min l lt h = do {
     m \<leftarrow> list_begin l h;
     stop \<leftarrow> list_end l;
     if m \<noteq> stop then do { e \<leftarrow> list_next m h; list_min_loop m e stop lt h }
     else Some m
   }"

section \<open>Runs and merging of HOL lists\<close>

fun descents :: "('a \<Rightarrow> 'a \<Rightarrow> bool) \<Rightarrow> 'a list \<Rightarrow> nat" where
  "descents lt (x # y # zs) = (if lt y x then 1 else 0) + descents lt (y # zs)"
| "descents lt zs = 0"

fun take_run :: "('a \<Rightarrow> 'a \<Rightarrow> bool) \<Rightarrow> 'a \<Rightarrow> 'a list \<Rightarrow> 'a list \<times> 'a list" where
  "take_run lt x [] = ([x], [])"
| "take_run lt x (y # ys) =
     (if lt y x then ([x], y # ys) else (let r = take_run lt y ys in (x # fst r, snd r)))"

fun merge_runs :: "('a \<Rightarrow> 'a \<Rightarrow> bool) \<Rightarrow> 'a list \<Rightarrow> 'a list \<Rightarrow> 'a list" where
  "merge_runs lt [] bs = bs"
| "merge_runs lt as [] = as"
| "merge_runs lt (a # as) (b # bs) =
     (if \<not> lt b a then a # merge_runs lt as (b # bs) else b # merge_runs lt (a # as) bs)"

lemma descents_append:
  "descents lt (as @ bs) = descents lt as + descents lt bs +
     (if as \<noteq> [] \<and> bs \<noteq> [] \<and> lt (hd bs) (last as) then 1 else 0)"
proof (induction as rule: induct_list012)
  case (2 x)
  then show ?case by (cases bs) auto
qed auto

lemma descents_0_sorted:
  assumes "\<And>a b c. \<not> lt b a \<Longrightarrow> \<not> lt c b \<Longrightarrow> \<not> lt c a"
  shows "descents lt xs = 0 \<longleftrightarrow> sorted_wrt (\<lambda>a b. \<not> lt b a) xs"
proof (induction xs rule: induct_list012)
  case (3 x y zs)
  have "transp (\<lambda>a b. \<not> lt b a)" using assms by (blast intro: transpI)
  from sorted_wrt_adjacent[OF this, of x "y # zs"] 3 show ?case by auto
qed auto

lemma take_run_spec:
  "fst (take_run lt x ys) @ snd (take_run lt x ys) = x # ys \<and>
   hd (fst (take_run lt x ys)) = x \<and> fst (take_run lt x ys) \<noteq> [] \<and>
   descents lt (fst (take_run lt x ys)) = 0 \<and>
   (snd (take_run lt x ys) \<noteq> [] \<longrightarrow>
      lt (hd (snd (take_run lt x ys))) (last (fst (take_run lt x ys))))"
proof (induction lt x ys rule: take_run.induct)
  case (2 lt x y ys)
  show ?case
  proof (cases "lt y x")
    case False
    note IH = 2[OF False]
    obtain r rs where r: "fst (take_run lt y ys) = r # rs" using IH by (cases "fst (take_run lt y ys)") auto
    show ?thesis using IH False r by (auto simp: Let_def)
  qed simp
qed simp

lemma mset_merge_runs: "mset (merge_runs lt as bs) = mset as + mset bs"
  by (induction lt as bs rule: merge_runs.induct) auto

lemma set_merge_runs: "set (merge_runs lt as bs) = set as \<union> set bs"
  by (metis mset_merge_runs set_mset_mset set_mset_union)

lemma merge_runs_Nil2 [simp]: "merge_runs lt as [] = as"
  by (cases as) auto

lemma descents_merge_runs:
  assumes "\<And>a b. lt a b \<Longrightarrow> \<not> lt b a"
    and "descents lt as = 0" "descents lt bs = 0"
  shows "descents lt (merge_runs lt as bs) = 0 \<and>
    (merge_runs lt as bs \<noteq> [] \<longrightarrow>
       (as \<noteq> [] \<and> hd (merge_runs lt as bs) = hd as) \<or>
       (bs \<noteq> [] \<and> hd (merge_runs lt as bs) = hd bs))"
  using assms
proof (induction lt as bs rule: merge_runs.induct)
  case (3 lt a as b bs)
  show ?case
  proof (cases "lt b a")
    case False
    have "descents lt as = 0" using "3.prems" by (cases as) (auto split: if_splits)
    from "3.IH"(1)[OF False "3.prems"(1) this "3.prems"(3)]
    have IH: "descents lt (merge_runs lt as (b # bs)) = 0"
      "merge_runs lt as (b # bs) \<noteq> [] \<longrightarrow>
        (as \<noteq> [] \<and> hd (merge_runs lt as (b # bs)) = hd as) \<or> hd (merge_runs lt as (b # bs)) = b"
      by auto
    obtain m ms where m: "merge_runs lt as (b # bs) = m # ms"
      by (cases "merge_runs lt as (b # bs)") (cases as, auto split: if_splits)
    have "\<not> lt m a" using IH(2) m False "3.prems"(2) by (cases as) (auto split: if_splits)
    then show ?thesis using IH(1) m False by simp
  next
    case True
    have "descents lt bs = 0" using "3.prems" by (cases bs) (auto split: if_splits)
    from "3.IH"(2)[OF _ "3.prems"(1) "3.prems"(2) this] True
    have IH: "descents lt (merge_runs lt (a # as) bs) = 0"
      "merge_runs lt (a # as) bs \<noteq> [] \<longrightarrow>
        hd (merge_runs lt (a # as) bs) = a \<or> (bs \<noteq> [] \<and> hd (merge_runs lt (a # as) bs) = hd bs)"
      by auto
    obtain m ms where m: "merge_runs lt (a # as) bs = m # ms"
      by (cases "merge_runs lt (a # as) bs") (cases bs, auto split: if_splits)
    have "\<not> lt a b" using "3.prems"(1) True by blast
    then have "\<not> lt m b" using IH(2) m "3.prems"(3) by (cases bs) (auto split: if_splits)
    then show ?thesis using IH(1) m True by simp
  qed
qed auto

section \<open>The pointer operations compute the list operations\<close>

lemma seg_ends:
  assumes "list_rep h l (as @ x # bs)"
  shows "list_next x h = Some (hd (bs @ [tail_of l]))"
    and "list_prev (hd (bs @ [tail_of l])) h = Some x"
    and "hd (bs @ [tail_of l]) = tail_of l \<longleftrightarrow> bs = []"
    and "x \<noteq> tail_of l" "x \<noteq> 0" "hd (bs @ [tail_of l]) \<noteq> 0"
proof -
  show "list_next x h = Some (hd (bs @ [tail_of l]))"
    using list_next_rep[OF assms, of "l # as" x bs] by simp
  obtain b bs' where b: "bs @ [tail_of l] = b # bs'" by (cases bs) auto
  then have "(as @ x # bs) @ [tail_of l] = (as @ [x]) @ b # bs'" by simp
  from list_prev_rep[OF assms this] b
  show "list_prev (hd (bs @ [tail_of l])) h = Some x" by simp
  show "hd (bs @ [tail_of l]) = tail_of l \<longleftrightarrow> bs = []"
    using list_rep_facts(1)[OF assms] by (cases bs) auto
  show "x \<noteq> tail_of l" "x \<noteq> 0" "hd (bs @ [tail_of l]) \<noteq> 0"
    using list_rep_facts(1)[OF assms] by (auto, cases bs, auto)
qed

lemma is_sorted_loop_rep:
  assumes "list_rep h l (as @ x # seg @ bs)"
  shows "is_sorted_loop x (hd (bs @ [tail_of l])) lt h = Some (descents lt (x # seg) = 0)"
  using assms
proof (induction seg arbitrary: as x)
  case Nil
  then show ?case using seg_ends[of h l as x bs] by (simp add: is_sorted_loop.simps)
next
  case (Cons y seg)
  note se = seg_ends[OF Cons.prems]
  have rep': "list_rep h l ((as @ [x]) @ y # seg @ bs)" using Cons.prems by simp
  have "y \<noteq> hd (bs @ [tail_of l])"
    using list_rep_facts(1)[OF rep'] by (cases bs) auto
  then show ?case
    using se Cons.IH[OF rep'] by (subst is_sorted_loop.simps) simp
qed

lemma is_sorted_rep:
  assumes "list_rep h l (as @ seg @ bs)"
  shows "is_sorted (hd (seg @ bs @ [tail_of l])) (hd (bs @ [tail_of l])) lt h = Some (descents lt seg = 0)"
proof (cases seg)
  case (Cons x s)
  have "x \<noteq> hd (bs @ [tail_of l])"
    using list_rep_facts(1)[OF assms] Cons by (cases bs) auto
  then show ?thesis
    using is_sorted_loop_rep[of h l as x s bs] assms Cons by (simp add: is_sorted_def)
qed (simp add: is_sorted_def)

lemma find_end_of_run_loop_rep:
  assumes "list_rep h l (as @ x # bs)"
  shows "find_end_of_run_loop x (tail_of l) lt h = Some (hd (snd (take_run lt x bs) @ [tail_of l]))"
  using assms
proof (induction bs arbitrary: as x)
  case Nil
  then show ?case using seg_ends[of h l as x "[]"] by (simp add: find_end_of_run_loop.simps)
next
  case (Cons y bs)
  note se = seg_ends[OF Cons.prems]
  have rep': "list_rep h l ((as @ [x]) @ y # bs)" using Cons.prems by simp
  show ?case
    using se Cons.IH[OF rep'] by (subst find_end_of_run_loop.simps) (simp add: Let_def)
qed

lemma find_end_of_run_rep:
  assumes "list_rep h l (as @ x # bs)"
  shows "find_end_of_run x (tail_of l) lt h = Some (hd (snd (take_run lt x bs) @ [tail_of l]))"
  using find_end_of_run_loop_rep[OF assms] seg_ends[OF assms]
  by (simp add: find_end_of_run_def)

lemma inplace_merge_loop_rep:
  assumes "list_rep h l (ds @ as @ bs @ cs)"
  shows "\<exists>h'. inplace_merge_loop (hd (as @ bs @ cs @ [tail_of l])) (hd (bs @ cs @ [tail_of l]))
             (hd (cs @ [tail_of l])) lt h = Some h' \<and>
           list_rep h' l (ds @ merge_runs lt as bs @ cs) \<and>
           same_outside (cells l (ds @ as @ bs @ cs)) h h'"
  using assms
proof (induction lt as bs arbitrary: ds h rule: merge_runs.induct)
  case (1 lt bs)
  then show ?case by (subst inplace_merge_loop.simps) auto
next
  case (2 lt a as)
  then show ?case by (subst inplace_merge_loop.simps) auto
next
  case (3 lt a as b bs)
  have d: "distinct (ds @ (a # as) @ (b # bs) @ cs @ [tail_of l])"
    using list_rep_facts(1)[OF "3.prems"] by auto
  have ne: "a \<noteq> b" "b \<noteq> hd (cs @ [tail_of l])" using d by (auto, cases cs, auto)
  show ?case
  proof (cases "lt b a")
    case False
    have "list_next a h = Some (hd (as @ (b # bs) @ cs @ [tail_of l]))"
      using seg_ends(1)[of h l ds a "as @ (b # bs) @ cs"] "3.prems" by simp
    moreover have "list_rep h l ((ds @ [a]) @ as @ (b # bs) @ cs)" using "3.prems" by simp
    note IH = "3.IH"(1)[OF False this]
    moreover have "cells l ((ds @ [a]) @ as @ (b # bs) @ cs) = cells l (ds @ (a # as) @ (b # bs) @ cs)"
      by (auto simp: cells_def)
    ultimately show ?thesis using ne False
      by (subst inplace_merge_loop.simps) simp
  next
    case True
    have rb: "list_rep h l ((ds @ a # as) @ b # bs @ cs)" using "3.prems" by simp
    note se = seg_ends[OF rb]
    obtain h1 where h1: "list_splice a b (hd (bs @ cs @ [tail_of l])) h = Some h1"
      "list_rep h1 l (ds @ [b] @ (a # as) @ bs @ cs)" "same_outside (cells l (ds @ (a # as) @ [b] @ bs @ cs)) h h1"
      using list_splice_same_rep[of h l ds "a # as" "[b]" "bs @ cs"] rb by auto
    have "list_rep h1 l ((ds @ [b]) @ (a # as) @ bs @ cs)" using h1(2) by simp
    from "3.IH"(2)[OF _ this] True obtain h' where h':
      "inplace_merge_loop a (hd (bs @ cs @ [tail_of l])) (hd (cs @ [tail_of l])) lt h1 = Some h'"
      "list_rep h' l ((ds @ [b]) @ merge_runs lt (a # as) bs @ cs)"
      "same_outside (cells l ((ds @ [b]) @ (a # as) @ bs @ cs)) h1 h'" by auto
    have "inplace_merge_loop a b (hd (cs @ [tail_of l])) lt h = Some h'"
      using ne True se h1(1) h'(1) by (subst inplace_merge_loop.simps) simp
    moreover have "same_outside (cells l (ds @ (a # as) @ (b # bs) @ cs)) h h'"
      by (rule same_outside_trans[OF h1(3) h'(3)]) (auto simp: cells_def)
    ultimately show ?thesis using h'(2) True by auto
  qed
qed

lemma inplace_merge_rep:
  assumes "list_rep h l (ds @ as @ bs @ cs)" "descents lt as = 0" "descents lt bs = 0"
  shows "\<exists>h'. inplace_merge (hd (as @ bs @ cs @ [tail_of l])) (hd (bs @ cs @ [tail_of l]))
             (hd (cs @ [tail_of l])) lt h = Some h' \<and>
           list_rep h' l (ds @ merge_runs lt as bs @ cs) \<and>
           same_outside (cells l (ds @ as @ bs @ cs)) h h'"
proof -
  have nz: "hd (zs @ [tail_of l]) \<noteq> 0" if "0 \<notin> set zs" for zs using that by (cases zs) auto
  have z: "0 \<notin> set (as @ bs @ cs)" "0 \<notin> set (bs @ cs)" "0 \<notin> set cs"
    using list_rep_facts(1)[OF assms(1)] by auto
  have "list_rep h l ((ds @ as) @ bs @ cs)" using assms(1) by simp
  from is_sorted_rep[OF this, of lt] is_sorted_rep[of h l ds as "bs @ cs" lt] assms
    inplace_merge_loop_rep[OF assms(1), of lt] nz[OF z(1)] nz[OF z(2)] nz[OF z(3)]
  show ?thesis by (simp add: inplace_merge_def)
qed

text \<open>
  One pass merges adjacent runs.  With \<open>c\<close> the number of runs it reports, the list it
  leaves has at most \<open>c - 1\<close> descents, and the list it found had at least \<open>2 c - 2\<close>: so
  every pass that reports more than one run strictly lowers the number of descents, which
  is why the outer loop ends.
\<close>

lemma sort_pass_rep:
  assumes "list_rep h l (ds @ ys)" and asym: "\<And>a b. lt a b \<Longrightarrow> \<not> lt b a"
  shows "\<exists>c ys' h'. sort_pass (hd (ys @ [tail_of l])) l lt cnt h = Some (cnt + of_nat c, h') \<and>
           list_rep h' l (ds @ ys') \<and> mset ys' = mset ys \<and> same_outside (cells l (ds @ ys)) h h' \<and>
           c \<le> length ys \<and> (ys \<noteq> [] \<longrightarrow> descents lt ys' + 1 \<le> c \<and> 2 * c \<le> descents lt ys + 2)"
  using assms(1)
proof (induction ys arbitrary: ds h cnt rule: length_induct)
  case (1 ys)
  note rep = "1.prems"
  show ?case
  proof (cases ys)
    case Nil
    show ?thesis
      by (rule exI[of _ 0], rule exI[of _ "[]"], rule exI[of _ h])
        (use rep Nil in \<open>simp add: sort_pass.simps list_end_rep\<close>)
  next
    case (Cons x bs)
    define r1 zs where "r1 = fst (take_run lt x bs)" and "zs = snd (take_run lt x bs)"
    have t1: "r1 @ zs = x # bs" "r1 \<noteq> []" "descents lt r1 = 0" "zs \<noteq> [] \<longrightarrow> lt (hd zs) (last r1)"
      using take_run_spec[of lt x bs] by (auto simp: r1_def zs_def)
    have rep1: "list_rep h l (ds @ x # bs)" using rep Cons by simp
    note f1 = find_end_of_run_rep[OF rep1, of lt, folded zs_def]
    have xt: "x \<noteq> tail_of l" by (rule seg_ends(4)[OF rep1])
    show ?thesis
    proof (cases zs)
      case Nil
      then have "descents lt ys = 0" using t1 Cons by simp
      then show ?thesis
        by (intro exI[of _ 1] exI[of _ ys] exI[of _ h], subst sort_pass.simps)
          (use rep f1 Nil Cons xt in \<open>simp add: list_end_rep[OF rep]\<close>)
    next
      case (Cons z bs2)
      define r2 rest where "r2 = fst (take_run lt z bs2)" and "rest = snd (take_run lt z bs2)"
      have t2: "r2 @ rest = z # bs2" "r2 \<noteq> []" "descents lt r2 = 0" "rest \<noteq> [] \<longrightarrow> lt (hd rest) (last r2)"
        using take_run_spec[of lt z bs2] by (auto simp: r2_def rest_def)
      have ys: "ys = r1 @ r2 @ rest" using \<open>ys = x # bs\<close> t1(1) t2(1) Cons by simp
      have hds: "hd (r1 @ r2 @ rest @ [tail_of l]) = x" "hd (r2 @ rest @ [tail_of l]) = z"
        using t1(1,2) t2(1,2) Cons
        by (metis append_assoc append_is_Nil_conv hd_append2 list.sel(1))+
      have "list_rep h l ((ds @ r1) @ z # bs2)" using rep ys t2(1) by simp
      note f2 = find_end_of_run_rep[OF this, of lt, folded rest_def]
      have zt: "z \<noteq> tail_of l" by (rule seg_ends(4)[OF \<open>list_rep h l ((ds @ r1) @ z # bs2)\<close>])
      obtain h1 where h1: "inplace_merge x z (hd (rest @ [tail_of l])) lt h = Some h1"
        "list_rep h1 l (ds @ merge_runs lt r1 r2 @ rest)" "same_outside (cells l (ds @ r1 @ r2 @ rest)) h h1"
        using inplace_merge_rep[of h l ds r1 r2 rest lt] rep ys t1 t2 hds by auto
      let ?m = "merge_runs lt r1 r2"
      have m: "descents lt ?m = 0" using descents_merge_runs[of lt r1 r2] asym t1(3) t2(3) by blast
      have lenm: "length ?m = length r1 + length r2"
        using mset_merge_runs[of lt r1 r2] by (metis size_mset size_union)
      have "length rest < length ys" using ys t1(2) by simp
      moreover have "list_rep h1 l ((ds @ ?m) @ rest)" using h1(2) by simp
      ultimately obtain c ys' h' where IH:
        "sort_pass (hd (rest @ [tail_of l])) l lt (cnt + 1) h1 = Some (cnt + 1 + of_nat c, h')"
        "list_rep h' l ((ds @ ?m) @ ys')" "mset ys' = mset rest"
        "same_outside (cells l ((ds @ ?m) @ rest)) h1 h'" "c \<le> length rest"
        "rest \<noteq> [] \<longrightarrow> descents lt ys' + 1 \<le> c \<and> 2 * c \<le> descents lt rest + 2"
        using "1.IH" by meson
      have run: "sort_pass (hd (ys @ [tail_of l])) l lt cnt h = Some (cnt + of_nat (Suc c), h')"
        using xt zt f1 f2 Cons h1(1) IH(1) \<open>ys = x # bs\<close>
        by (subst sort_pass.simps) (simp add: list_end_rep[OF rep] add.assoc)
      have ne': "ys' = [] \<longleftrightarrow> rest = []" using IH(3) by (metis mset_zero_iff)
      have up: "descents lt (?m @ ys') + 1 \<le> Suc c"
        using IH(5,6) ne' m by (cases "rest = []") (auto simp: descents_append)
      have dys: "descents lt ys = 1 + (if rest \<noteq> [] then 1 else 0) + descents lt rest"
      proof -
        have "hd (r2 @ rest) = z" using t2(1) by simp
        moreover have "lt z (last r1)" using t1(4) Cons by simp
        ultimately show ?thesis
          using t1(2,3) t2(2-4) by (simp only: ys descents_append) simp
      qed
      have lo: "2 * Suc c \<le> descents lt ys + 2"
        using IH(5,6) dys by (cases "rest = []") auto
      have "Suc c \<le> length ys" using IH(5) ys t1(2) by (cases r1) auto
      moreover have "mset (?m @ ys') = mset ys" using IH(3) ys by (simp add: mset_merge_runs)
      moreover have "same_outside (cells l (ds @ ys)) h h'"
        by (rule same_outside_trans[OF h1(3) IH(4)])
          (auto simp: cells_def ys set_merge_runs)
      ultimately show ?thesis
        using run IH(2) up lo by (intro exI[of _ "Suc c"] exI[of _ "?m @ ys'"] exI[of _ h']) simp
    qed
  qed
qed

lemma list_sort_loop_rep:
  assumes "list_rep h l xs" and asym: "\<And>a b. lt a b \<Longrightarrow> \<not> lt b a" and "length xs < 2 ^ 32"
  shows "\<exists>ys h'. list_sort_loop l lt h = Some h' \<and> list_rep h' l ys \<and> mset ys = mset xs \<and>
           same_outside (cells l xs) h h' \<and> descents lt ys = 0"
  using assms(1,3)
proof (induction "descents lt xs" arbitrary: xs h rule: less_induct)
  case less
  obtain c ys h' where p:
    "sort_pass (hd (xs @ [tail_of l])) l lt 0 h = Some (of_nat c, h')"
    "list_rep h' l ys" "mset ys = mset xs" "same_outside (cells l xs) h h'" "c \<le> length xs"
    "xs \<noteq> [] \<longrightarrow> descents lt ys + 1 \<le> c \<and> 2 * c \<le> descents lt xs + 2"
    using sort_pass_rep[of h l "[]" xs lt 0, simplified append_Nil, OF less.prems(1) asym] by auto
  have "unat (of_nat c :: u32) = c" using p(5) less.prems(2) by (simp add: unat_of_nat)
  then have cnt: "1 < (of_nat c :: u32) \<longleftrightarrow> 1 < c" by (simp add: word_less_nat_alt)
  note b = list_begin_rep[OF less.prems(1)]
  show ?case
  proof (cases "1 < c")
    case False
    have "descents lt ys = 0" using p(3,6) False by (cases "xs = []") auto
    moreover have "list_sort_loop l lt h = Some h'"
      using False b p(1) cnt by (subst list_sort_loop.simps) simp
    ultimately show ?thesis using p by blast
  next
    case True
    then have "xs \<noteq> []" using p(5) by auto
    with p(6) True have "descents lt ys < descents lt xs" by linarith
    moreover have "length ys < 2 ^ 32" using p(3) less.prems(2) by (metis size_mset)
    ultimately obtain zs h2 where z: "list_sort_loop l lt h' = Some h2" "list_rep h2 l zs"
      "mset zs = mset ys" "same_outside (cells l ys) h' h2" "descents lt zs = 0"
      using less.hyps[OF _ p(2)] by blast
    have "list_sort_loop l lt h = Some h2"
      using True b p(1) cnt z(1) by (subst list_sort_loop.simps) simp
    moreover have "same_outside (cells l xs) h h2"
    proof -
      have "set ys = set xs" using p(3) by (rule mset_eq_setD)
      then have "cells l ys = cells l xs" by (simp add: cells_def)
      then show ?thesis using same_outside_trans[OF p(4) z(4)] by simp
    qed
    moreover have "mset zs = mset xs" using z(3) p(3) by (rule trans)
    ultimately show ?thesis using z(2,5) by blast
  qed
qed

lemma insert_ordered_loop_rep:
  assumes "list_rep h l (as @ bs)"
  shows "insert_ordered_loop (hd (bs @ [tail_of l])) (tail_of l) e lt h =
    Some (hd (dropWhile (\<lambda>x. \<not> lt e x) bs @ [tail_of l]))"
  using assms
proof (induction bs arbitrary: as)
  case Nil
  then show ?case by (simp add: insert_ordered_loop.simps)
next
  case (Cons b bs)
  note se = seg_ends[OF Cons.prems]
  have "list_rep h l ((as @ [b]) @ bs)" using Cons.prems by simp
  from Cons.IH[OF this] show ?case
    using se by (subst insert_ordered_loop.simps) simp
qed

lemma list_insert_ordered_rep:
  assumes "list_rep h l xs" "e \<noteq> 0" "e \<notin> cells l xs"
  obtains h' where "list_insert_ordered l e lt h = Some h'"
    "list_rep h' l (takeWhile (\<lambda>x. \<not> lt e x) xs @ e # dropWhile (\<lambda>x. \<not> lt e x) xs)"
    "same_outside (insert e (cells l xs)) h h'"
proof -
  let ?a = "takeWhile (\<lambda>x. \<not> lt e x) xs" and ?b = "dropWhile (\<lambda>x. \<not> lt e x) xs"
  have ab: "list_rep h l (?a @ ?b)" "e \<notin> cells l (?a @ ?b)" using assms by simp_all
  obtain h' where h': "list_insert (hd (?b @ [tail_of l])) e h = Some h'"
    "list_rep h' l (?a @ e # ?b)" "same_outside (cells l (?a @ e # ?b)) h h'"
    using list_insert_rep[OF ab(1) assms(2) ab(2)] by blast
  have "set ?a \<union> set ?b = set xs" by (metis set_append takeWhile_dropWhile_id)
  then have "cells l (?a @ e # ?b) = insert e (cells l xs)" by (auto simp: cells_def)
  moreover have "list_insert_ordered l e lt h = Some h'"
    using h'(1) assms list_rep_facts(1)[OF assms(1)]
      insert_ordered_loop_rep[of h l "[]" xs e lt]
    by (simp add: list_insert_ordered_def list_begin_rep list_end_rep)
  ultimately show ?thesis using that[OF _ h'(2)] h'(3) by metis
qed

text \<open>The first element of each group of adjacent equivalent elements, and the rest.\<close>

fun uniq :: "('a \<Rightarrow> 'a \<Rightarrow> bool) \<Rightarrow> 'a \<Rightarrow> 'a list \<Rightarrow> 'a list" where
  "uniq lt x [] = [x]"
| "uniq lt x (y # ys) = (if \<not> lt x y \<and> \<not> lt y x then uniq lt x ys else x # uniq lt y ys)"

fun dups :: "('a \<Rightarrow> 'a \<Rightarrow> bool) \<Rightarrow> 'a \<Rightarrow> 'a list \<Rightarrow> 'a list" where
  "dups lt x [] = []"
| "dups lt x (y # ys) = (if \<not> lt x y \<and> \<not> lt y x then y # dups lt x ys else dups lt y ys)"

lemma list_unique_loop_rep:
  assumes "list_rep h l (as @ x # ys)" and "list_rep h d ds"
    and "cells l (as @ x # ys) \<inter> cells d ds = {}"
  shows "\<exists>h'. list_unique_loop x l d lt h = Some h' \<and> list_rep h' l (as @ uniq lt x ys) \<and>
    list_rep h' d (ds @ dups lt x ys)"
  using assms
proof (induction lt x ys arbitrary: as ds h rule: uniq.induct)
  case (1 lt x)
  then show ?case using seg_ends[OF "1.prems"(1)]
    by (subst list_unique_loop.simps) (simp add: list_end_rep)
next
  case (2 lt x y ys)
  note se = seg_ends[OF "2.prems"(1)]
  note le = list_end_rep[OF "2.prems"(1)]
  have yt: "y \<noteq> tail_of l" using se(3) by simp
  have rep: "list_rep h l ((as @ [x]) @ y # ys)" using "2.prems"(1) by simp
  show ?case
  proof (cases "\<not> lt x y \<and> \<not> lt y x")
    case True
    obtain h1 where h1: "list_remove y h = Some (hd (ys @ [tail_of l]), h1)"
      "list_rep h1 l ((as @ [x]) @ ys)" "same_outside (cells l ((as @ [x]) @ ys)) h h1"
      using list_remove_rep[OF rep] by blast
    have "cells d ds \<inter> cells l ((as @ [x]) @ ys) = {}" using "2.prems"(3) by (auto simp: cells_def)
    then have d1: "list_rep h1 d ds" by (rule list_rep_frame[OF "2.prems"(2) h1(3)])
    have yd: "y \<noteq> 0" "y \<notin> cells d ds"
      using list_rep_facts(1)[OF rep] "2.prems"(3) by (auto simp: cells_def)
    obtain h2 where h2: "list_push_back d y h1 = Some h2" "list_rep h2 d (ds @ [y])"
      "same_outside (cells d (ds @ [y])) h1 h2"
      using list_push_back_rep[OF d1 yd] by blast
    have dj: "cells l ((as @ [x]) @ ys) \<inter> cells d (ds @ [y]) = {}"
      using "2.prems"(3) list_rep_facts(1)[OF rep] by (auto simp: cells_def)
    have "list_rep h2 l (as @ x # ys)"
      using list_rep_frame[OF h1(2) h2(3) dj] by simp
    from "2.IH"(1)[OF True this h2(2)] dj obtain h' where h':
      "list_unique_loop x l d lt h2 = Some h'" "list_rep h' l (as @ uniq lt x ys)"
      "list_rep h' d ((ds @ [y]) @ dups lt x ys)" by auto
    have "d \<noteq> 0" using list_rep_facts(1)[OF "2.prems"(2)] by blast
    then have "list_unique_loop x l d lt h = Some h'"
      using se(1) le yt True h1(1) h2(1) h'(1) by (subst list_unique_loop.simps) simp
    then show ?thesis using h' True by auto
  next
    case False
    have "cells l ((as @ [x]) @ y # ys) \<inter> cells d ds = {}" using "2.prems"(3) by simp
    from "2.IH"(2)[OF False rep "2.prems"(2) this] obtain h' where h':
      "list_unique_loop y l d lt h = Some h'" "list_rep h' l ((as @ [x]) @ uniq lt y ys)"
      "list_rep h' d (ds @ dups lt y ys)" by blast
    have "list_unique_loop x l d lt h = Some h'"
      using se(1) le yt False h'(1) by (subst list_unique_loop.simps) auto
    then show ?thesis using h' False by auto
  qed
qed

lemma list_max_loop_rep:
  assumes "list_rep h l (as @ bs)"
  shows "list_max_loop m (hd (bs @ [tail_of l])) (tail_of l) lt h =
    Some (foldl (\<lambda>m e. if lt m e then e else m) m bs)"
  using assms
proof (induction bs arbitrary: as m)
  case Nil
  then show ?case by (simp add: list_max_loop.simps)
next
  case (Cons b bs)
  note se = seg_ends[OF Cons.prems]
  have "list_rep h l ((as @ [b]) @ bs)" using Cons.prems by simp
  from Cons.IH[OF this] show ?case using se by (subst list_max_loop.simps) simp
qed

lemma list_min_loop_rep:
  assumes "list_rep h l (as @ bs)"
  shows "list_min_loop m (hd (bs @ [tail_of l])) (tail_of l) lt h =
    Some (foldl (\<lambda>m e. if lt e m then e else m) m bs)"
  using assms
proof (induction bs arbitrary: as m)
  case Nil
  then show ?case by (simp add: list_min_loop.simps)
next
  case (Cons b bs)
  note se = seg_ends[OF Cons.prems]
  have "list_rep h l ((as @ [b]) @ bs)" using Cons.prems by simp
  from Cons.IH[OF this] show ?case using se by (subst list_min_loop.simps) simp
qed

lemma list_max_rep:
  "list_rep h l xs \<Longrightarrow> list_max l lt h =
     Some (case xs of [] \<Rightarrow> tail_of l | x # ys \<Rightarrow> foldl (\<lambda>m e. if lt m e then e else m) x ys)"
  using list_max_loop_rep[of h l "[hd xs]" "tl xs" "hd xs" lt] seg_ends[of h l "[]" "hd xs" "tl xs"]
  by (cases xs) (simp_all add: list_max_def list_begin_rep list_end_rep)

lemma list_min_rep:
  "list_rep h l xs \<Longrightarrow> list_min l lt h =
     Some (case xs of [] \<Rightarrow> tail_of l | x # ys \<Rightarrow> foldl (\<lambda>m e. if lt e m then e else m) x ys)"
  using list_min_loop_rep[of h l "[hd xs]" "tl xs" "hd xs" lt] seg_ends[of h l "[]" "hd xs" "tl xs"]
  by (cases xs) (simp_all add: list_min_def list_begin_rep list_end_rep)

section \<open>The comparison contract\<close>

text \<open>
  \<open>list_less_func\<close>: a strict weak order.  The lemmas say what the operations above give
  a client that keeps this contract; theory KTimer interprets it with \<open>cmp_ticks\<close>.
\<close>

locale list_order =
  fixes lt :: "addr \<Rightarrow> addr \<Rightarrow> bool"
  assumes lt_asym: "lt a b \<Longrightarrow> \<not> lt b a"
    and lt_negtrans: "\<not> lt b a \<Longrightarrow> \<not> lt c b \<Longrightarrow> \<not> lt c a"
begin

abbreviation (input) le :: "addr \<Rightarrow> addr \<Rightarrow> bool" where
  "le a b \<equiv> \<not> lt b a"

lemma sort_correct:
  assumes "list_rep h l xs" "length xs < 2 ^ 32"
  shows "\<exists>ys h'. list_sort l lt h = Some h' \<and> list_rep h' l ys \<and> mset ys = mset xs \<and>
    sorted_wrt le ys \<and> same_outside (cells l xs) h h'"
proof -
  obtain ys h' where r: "list_sort_loop l lt h = Some h'" "list_rep h' l ys" "mset ys = mset xs"
    "same_outside (cells l xs) h h'" "descents lt ys = 0"
    using list_sort_loop_rep[of h l xs lt] assms lt_asym by blast
  have "list_sort l lt h = Some h'"
    using r is_sorted_rep[of h' l "[]" ys "[]" lt] list_rep_facts(1)[OF assms(1)]
    by (simp add: list_sort_def list_begin_rep list_end_rep)
  moreover have "sorted_wrt le ys" using r(5) descents_0_sorted[of lt ys] lt_negtrans by blast
  ultimately show ?thesis using r by blast
qed

lemma insert_keeps_sorted:
  assumes "sorted_wrt le xs"
  shows "sorted_wrt le (takeWhile (\<lambda>x. \<not> lt e x) xs @ e # dropWhile (\<lambda>x. \<not> lt e x) xs)"
proof -
  let ?a = "takeWhile (\<lambda>x. \<not> lt e x) xs" and ?b = "dropWhile (\<lambda>x. \<not> lt e x) xs"
  have ab: "sorted_wrt le (?a @ ?b)" using assms by simp
  have A: "le x e" if "x \<in> set ?a" for x using that set_takeWhileD by fast
  have B: "le e x" if x: "x \<in> set ?b" for x
  proof -
    obtain b bs where b: "?b = b # bs"
      by (rule in_set_ConsE[OF x])
    have "lt e b" using b by (metis dropWhile_eq_Cons_conv)
    then have "le e b" by (rule lt_asym)
    moreover have "x = b \<or> le b x" using x ab unfolding b by (auto simp: sorted_wrt_append)
    ultimately show ?thesis using lt_negtrans by blast
  qed
  have "sorted_wrt le ?a" "sorted_wrt le ?b" "\<forall>x \<in> set ?a. \<forall>y \<in> set ?b. le x y"
    using ab unfolding sorted_wrt_append by blast+
  then show ?thesis by (rule sorted_wrt_insert_mid) (use A B in blast)+
qed

lemma fold_max:
  "foldl (\<lambda>m e. if lt m e then e else m) x xs \<in> set (x # xs) \<and>
   (\<forall>y \<in> set (x # xs). \<not> lt (foldl (\<lambda>m e. if lt m e then e else m) x xs) y)"
proof (induction xs arbitrary: x)
  case Nil
  then show ?case using lt_asym by auto
next
  case (Cons y ys)
  let ?m = "if lt x y then y else x"
  note IH = Cons.IH[of ?m]
  let ?r = "foldl (\<lambda>m e. if lt m e then e else m) ?m ys"
  have r: "\<not> lt ?r ?m" using IH by auto
  have "\<not> lt ?r x" "\<not> lt ?r y"
    using r lt_asym[of x y] lt_negtrans[of ?m x ?r] lt_negtrans[of ?m y ?r] by (auto split: if_splits)
  then show ?case using IH by auto
qed

lemma max_correct:
  assumes "list_rep h l xs" "xs \<noteq> []"
  shows "\<exists>m. list_max l lt h = Some m \<and> m \<in> set xs \<and> (\<forall>y \<in> set xs. \<not> lt m y)"
  using list_max_rep[OF assms(1), of lt] assms(2) fold_max[of "hd xs" "tl xs"] by (cases xs) auto

end

section \<open>Properties\<close>

text \<open>
  C20: \<open>list_sort\<close> with a comparison that is a strict weak order returns for every list, leaves
  exactly the elements that were there, in order, and writes nothing but their links.
\<close>

theorem list_sort_sorts:
  assumes "\<forall>a b. lt a b \<longrightarrow> \<not> lt b a" "\<forall>a b c. \<not> lt b a \<longrightarrow> \<not> lt c b \<longrightarrow> \<not> lt c a"
    "list_rep h l xs" "length xs < 2 ^ 32"
  shows "\<exists>ys h'. list_sort l lt h = Some h' \<and> list_rep h' l ys \<and> mset ys = mset xs \<and>
    sorted_wrt (\<lambda>a b. \<not> lt b a) ys \<and> same_outside (cells l xs) h h'"
proof -
  have "list_order lt" by (rule list_order.intro) (use assms(1,2) in blast)+
  then show ?thesis using assms(3,4) by (rule list_order.sort_correct)
qed

theorem list_sort_sorts_witness:
  "\<exists>h h' ys. list_rep h 100 [50, 40] \<and> list_sort 100 (<) h = Some h' \<and> list_rep h' 100 ys \<and>
    mset ys = {#40, 50#}"
proof -
  obtain h0 where h0: "list_rep h0 100 []" using list_init_rep[of 100] by auto
  obtain h1 where h1: "list_rep h1 100 [40]" using list_push_front_rep[OF h0, of 40] by (auto simp: cells_def)
  obtain h2 where "list_rep h2 100 [50, 40]"
    using list_push_front_rep[OF h1, of 50] by (auto simp: cells_def)
  then show ?thesis using list_sort_sorts[of "(<)" h2 100 "[50, 40]"] by (auto simp: add_mset_commute)
qed

end
