(* ===== verification/KPaging.thy ===== *)
theory KPaging imports KBitmap begin

unbundle bit_operations_syntax

text \<open>
  Pages of memory: addresses, \<open>threads/vaddr.h\<close>, page table entries, \<open>threads/pte.h\<close>, the page
  allocator, \<open>threads/palloc.c\<close>, and page directories, \<open>userprog/pagedir.c\<close>.  The memory that
  the page tables are in is a function from kernel virtual addresses to 32-bit words; addresses
  are 32-bit words.  The lock of a pool is taken and given back within one operation and is not
  modelled.
\<close>

section \<open>Addresses\<close>

definition PGBITS :: nat where "PGBITS = 12"
definition PGMASK :: u32 where "PGMASK = 0xfff"
definition PAGE :: u32 where "PAGE = 0x1000"
definition PHYS_BASE :: u32 where "PHYS_BASE = 0xc0000000"

definition pg_ofs :: "u32 \<Rightarrow> u32" where
  "pg_ofs va = va AND PGMASK"

definition pg_no :: "u32 \<Rightarrow> u32" where
  "pg_no va = drop_bit PGBITS va"

definition pg_round_up :: "u32 \<Rightarrow> u32" where
  "pg_round_up va = (va + PAGE - 1) AND (NOT PGMASK)"

definition pg_round_down :: "u32 \<Rightarrow> u32" where
  "pg_round_down va = va AND (NOT PGMASK)"

definition is_user_vaddr :: "u32 \<Rightarrow> bool" where
  "is_user_vaddr va \<longleftrightarrow> va < PHYS_BASE"

definition is_kernel_vaddr :: "u32 \<Rightarrow> bool" where
  "is_kernel_vaddr va \<longleftrightarrow> va \<ge> PHYS_BASE"

definition ptov :: "u32 \<Rightarrow> u32 option" where
  "ptov paddr = do { ASSERT (paddr < PHYS_BASE); Some (paddr + PHYS_BASE) }"

definition vtop :: "u32 \<Rightarrow> u32 option" where
  "vtop va = do { ASSERT (is_kernel_vaddr va); Some (va - PHYS_BASE) }"

section \<open>Page table entries\<close>

definition PTMASK :: u32 where "PTMASK = 0x003ff000"
definition PTSHIFT :: nat where "PTSHIFT = 12"
definition PDSHIFT :: nat where "PDSHIFT = 22"
definition PTE_ADDR :: u32 where "PTE_ADDR = 0xfffff000"
definition PTE_P :: u32 where "PTE_P = 0x1"
definition PTE_W :: u32 where "PTE_W = 0x2"
definition PTE_U :: u32 where "PTE_U = 0x4"
definition PTE_A :: u32 where "PTE_A = 0x20"
definition PTE_D :: u32 where "PTE_D = 0x40"

lemmas pte_consts = PTMASK_def PTSHIFT_def PDSHIFT_def PTE_ADDR_def PTE_P_def PTE_W_def PTE_U_def
  PTE_A_def PTE_D_def PGBITS_def PGMASK_def PAGE_def PHYS_BASE_def

definition pt_no :: "u32 \<Rightarrow> u32" where
  "pt_no va = drop_bit PTSHIFT (va AND PTMASK)"

definition pd_no :: "u32 \<Rightarrow> u32" where
  "pd_no va = drop_bit PDSHIFT va"

definition pde_create :: "u32 \<Rightarrow> u32 option" where
  "pde_create pt = do {
     ASSERT (pg_ofs pt = 0);
     p \<leftarrow> vtop pt;
     Some (p OR PTE_U OR PTE_P OR PTE_W)
   }"

definition pde_get_pt :: "u32 \<Rightarrow> u32 option" where
  "pde_get_pt pde = do {
     ASSERT (pde AND PTE_P \<noteq> 0);
     ptov (pde AND PTE_ADDR)
   }"

definition pte_create_kernel :: "u32 \<Rightarrow> bool \<Rightarrow> u32 option" where
  "pte_create_kernel page writable = do {
     ASSERT (pg_ofs page = 0);
     p \<leftarrow> vtop page;
     Some (p OR PTE_P OR (if writable then PTE_W else 0))
   }"

definition pte_create_user :: "u32 \<Rightarrow> bool \<Rightarrow> u32 option" where
  "pte_create_user page writable = do {
     p \<leftarrow> pte_create_kernel page writable;
     Some (p OR PTE_U)
   }"

definition pte_get_page :: "u32 \<Rightarrow> u32 option" where
  "pte_get_page pte = ptov (pte AND PTE_ADDR)"

section \<open>The page allocator\<close>

record pool =
  used_map :: bitmap
  base :: u32

text \<open>
  \<open>words\<close> is the memory, \<open>cr3\<close> the page directory base register; \<open>init_page_dir\<close> and
  \<open>init_ram_pages\<close> are set when the kernel starts.
\<close>

record vmem =
  words :: "u32 \<Rightarrow> u32"
  kernel_pool :: pool
  user_pool :: pool
  init_page_dir :: u32
  init_ram_pages :: u32
  cr3 :: u32

text \<open>\<open>memset (page, b, PGSIZE * cnt)\<close> and \<open>memcpy\<close> of a page, word by word.\<close>

definition fill_pages :: "u32 \<Rightarrow> nat \<Rightarrow> u32 \<Rightarrow> vmem \<Rightarrow> vmem" where
  "fill_pages pages cnt w vm = vm\<lparr>words :=
     (\<lambda>a. if unat (a - pages) < 4096 * cnt then w else words vm a)\<rparr>"

definition copy_page :: "u32 \<Rightarrow> u32 \<Rightarrow> vmem \<Rightarrow> vmem" where
  "copy_page dst src vm = vm\<lparr>words :=
     (\<lambda>a. if unat (a - dst) < 4096 then words vm (a - dst + src) else words vm a)\<rparr>"

text \<open>The flags \<open>PAL_ASSERT\<close>, \<open>PAL_ZERO\<close> and \<open>PAL_USER\<close>.\<close>

record palloc_flags =
  PAL_ASSERT :: bool
  PAL_ZERO :: bool
  PAL_USER :: bool

definition palloc_get_multiple :: "palloc_flags \<Rightarrow> nat \<Rightarrow> vmem \<Rightarrow> (u32 \<times> vmem) option" where
  "palloc_get_multiple flags page_cnt vm = (
     if page_cnt = 0 then Some (0, vm)
     else do {
       let pool = (if PAL_USER flags then user_pool vm else kernel_pool vm);
       (page_idx, map) \<leftarrow> bitmap_scan_and_flip (used_map pool) 0 page_cnt False;
       let pool = pool\<lparr>used_map := map\<rparr>;
       let vm = (if PAL_USER flags then vm\<lparr>user_pool := pool\<rparr> else vm\<lparr>kernel_pool := pool\<rparr>);
       let pages = (if page_idx \<noteq> BITMAP_ERROR then base pool + PAGE * of_nat page_idx else 0);
       if pages \<noteq> 0 then
         Some (pages, if PAL_ZERO flags then fill_pages pages page_cnt 0 vm else vm)
       else do { ASSERT (\<not> PAL_ASSERT flags); Some (pages, vm) }
     })"

definition palloc_get_page :: "palloc_flags \<Rightarrow> vmem \<Rightarrow> (u32 \<times> vmem) option" where
  "palloc_get_page flags vm = palloc_get_multiple flags 1 vm"

definition page_from_pool :: "pool \<Rightarrow> u32 \<Rightarrow> bool" where
  "page_from_pool pool page = (let page_no = pg_no page; start_page = pg_no (base pool);
       end_page = start_page + of_nat (bitmap_size (used_map pool))
     in page_no \<ge> start_page \<and> page_no < end_page)"

definition pool_release :: "u32 \<Rightarrow> nat \<Rightarrow> pool \<Rightarrow> pool option" where
  "pool_release pages page_cnt pool = do {
     let page_idx = unat (pg_no pages - pg_no (base pool));
     used \<leftarrow> bitmap_all (used_map pool) page_idx page_cnt;
     ASSERT used;
     map \<leftarrow> bitmap_set_multiple (used_map pool) page_idx page_cnt False;
     Some (pool\<lparr>used_map := map\<rparr>)
   }"

definition palloc_free_multiple :: "u32 \<Rightarrow> nat \<Rightarrow> vmem \<Rightarrow> vmem option" where
  "palloc_free_multiple pages page_cnt vm = do {
     ASSERT (pg_ofs pages = 0);
     if pages = 0 \<or> page_cnt = 0 then Some vm
     else do {
       let vm' = fill_pages pages page_cnt 0xcccccccc vm;
       if page_from_pool (kernel_pool vm) pages then do {
         pool \<leftarrow> pool_release pages page_cnt (kernel_pool vm);
         Some (vm'\<lparr>kernel_pool := pool\<rparr>)
       }
       else if page_from_pool (user_pool vm) pages then do {
         pool \<leftarrow> pool_release pages page_cnt (user_pool vm);
         Some (vm'\<lparr>user_pool := pool\<rparr>)
       }
       else None
     }
   }"

definition palloc_free_page :: "u32 \<Rightarrow> vmem \<Rightarrow> vmem option" where
  "palloc_free_page page vm = palloc_free_multiple page 1 vm"

text \<open>\<open>junk\<close> is what the memory of the bitmap holds.\<close>

definition init_pool :: "u32 \<Rightarrow> nat \<Rightarrow> u32 list \<Rightarrow> pool option" where
  "init_pool start page_cnt junk = do {
     let bm_pages = DIV_ROUND_UP (bitmap_buf_size page_cnt) 4096;
     ASSERT (bm_pages \<le> page_cnt);
     let page_cnt = page_cnt - bm_pages;
     map \<leftarrow> bitmap_create_in_buf page_cnt junk (bm_pages * 4096);
     Some \<lparr>used_map = map, base = start + of_nat bm_pages * PAGE\<rparr>
   }"

definition palloc_init :: "nat \<Rightarrow> u32 list \<Rightarrow> u32 list \<Rightarrow> vmem \<Rightarrow> vmem option" where
  "palloc_init user_page_limit junk1 junk2 vm = do {
     free_start \<leftarrow> ptov (1024 * 1024);
     free_end \<leftarrow> ptov (init_ram_pages vm * PAGE);
     let free_pages = unat ((free_end - free_start) div PAGE);
     let user_pages = free_pages div 2;
     let user_pages = (if user_pages > user_page_limit then user_page_limit else user_pages);
     let kernel_pages = free_pages - user_pages;
     kp \<leftarrow> init_pool free_start kernel_pages junk1;
     up \<leftarrow> init_pool (free_start + of_nat kernel_pages * PAGE) user_pages junk2;
     Some (vm\<lparr>kernel_pool := kp, user_pool := up\<rparr>)
   }"

section \<open>Page directories\<close>

definition NO_FLAGS :: palloc_flags where
  "NO_FLAGS = \<lparr>PAL_ASSERT = False, PAL_ZERO = False, PAL_USER = False\<rparr>"

definition ZEROED :: palloc_flags where
  "ZEROED = NO_FLAGS\<lparr>PAL_ZERO := True\<rparr>"

definition store :: "u32 \<Rightarrow> u32 \<Rightarrow> vmem \<Rightarrow> vmem" where
  "store a w vm = vm\<lparr>words := (words vm)(a := w)\<rparr>"

definition pagedir_create :: "vmem \<Rightarrow> (u32 \<times> vmem) option" where
  "pagedir_create vm = do {
     (pd, vm) \<leftarrow> palloc_get_page NO_FLAGS vm;
     Some (pd, if pd \<noteq> 0 then copy_page pd (init_page_dir vm) vm else vm)
   }"

text \<open>The two loops of \<open>pagedir_destroy\<close>; the last argument counts the entries left.\<close>

fun free_ptes_loop :: "u32 \<Rightarrow> nat \<Rightarrow> vmem \<Rightarrow> vmem option" where
  "free_ptes_loop pte 0 vm = Some vm"
| "free_ptes_loop pte (Suc n) vm = do {
     vm \<leftarrow> (if words vm pte AND PTE_P \<noteq> 0
            then do { page \<leftarrow> pte_get_page (words vm pte); palloc_free_page page vm }
            else Some vm);
     free_ptes_loop (pte + 4) n vm
   }"

fun pagedir_destroy_loop :: "u32 \<Rightarrow> nat \<Rightarrow> vmem \<Rightarrow> vmem option" where
  "pagedir_destroy_loop pde 0 vm = Some vm"
| "pagedir_destroy_loop pde (Suc n) vm = do {
     vm \<leftarrow> (if words vm pde AND PTE_P \<noteq> 0
            then do {
              pt \<leftarrow> pde_get_pt (words vm pde);
              vm \<leftarrow> free_ptes_loop pt 1024 vm;
              palloc_free_page pt vm
            }
            else Some vm);
     pagedir_destroy_loop (pde + 4) n vm
   }"

definition pagedir_destroy :: "u32 \<Rightarrow> vmem \<Rightarrow> vmem option" where
  "pagedir_destroy pd vm = (
     if pd = 0 then Some vm
     else do {
       ASSERT (pd \<noteq> init_page_dir vm);
       vm \<leftarrow> pagedir_destroy_loop pd (unat (pd_no PHYS_BASE)) vm;
       palloc_free_page pd vm
     })"

text \<open>The address of the entry, or 0 for the null pointer.\<close>

definition lookup_page :: "u32 \<Rightarrow> u32 \<Rightarrow> bool \<Rightarrow> vmem \<Rightarrow> (u32 \<times> vmem) option" where
  "lookup_page pd vaddr create vm = do {
     ASSERT (pd \<noteq> 0);
     ASSERT (\<not> create \<or> is_user_vaddr vaddr);
     let pde = pd + 4 * pd_no vaddr;
     (missing, vm) \<leftarrow>
       (if words vm pde = 0 then
          if create then do {
            (pt, vm) \<leftarrow> palloc_get_page ZEROED vm;
            if pt = 0 then Some (True, vm)
            else do { e \<leftarrow> pde_create pt; Some (False, store pde e vm) }
          }
          else Some (True, vm)
        else Some (False, vm));
     if missing then Some (0, vm)
     else do {
       pt \<leftarrow> pde_get_pt (words vm pde);
       Some (pt + 4 * pt_no vaddr, vm)
     }
   }"

definition pagedir_set_page :: "u32 \<Rightarrow> u32 \<Rightarrow> u32 \<Rightarrow> bool \<Rightarrow> vmem \<Rightarrow> (bool \<times> vmem) option" where
  "pagedir_set_page pd upage kpage writable vm = do {
     ASSERT (pg_ofs upage = 0);
     ASSERT (pg_ofs kpage = 0);
     ASSERT (is_user_vaddr upage);
     p \<leftarrow> vtop kpage;
     ASSERT (drop_bit PTSHIFT p < init_ram_pages vm);
     ASSERT (pd \<noteq> init_page_dir vm);
     (pte, vm) \<leftarrow> lookup_page pd upage True vm;
     if pte \<noteq> 0 then do {
       ASSERT (words vm pte AND PTE_P = 0);
       e \<leftarrow> pte_create_user kpage writable;
       Some (True, store pte e vm)
     }
     else Some (False, vm)
   }"

definition pagedir_get_page :: "u32 \<Rightarrow> u32 \<Rightarrow> vmem \<Rightarrow> u32 option" where
  "pagedir_get_page pd uaddr vm = do {
     ASSERT (is_user_vaddr uaddr);
     (pte, vm) \<leftarrow> lookup_page pd uaddr False vm;
     if pte \<noteq> 0 \<and> words vm pte AND PTE_P \<noteq> 0
     then do { page \<leftarrow> pte_get_page (words vm pte); Some (page + pg_ofs uaddr) }
     else Some 0
   }"

definition pagedir_activate :: "u32 \<Rightarrow> vmem \<Rightarrow> vmem option" where
  "pagedir_activate pd vm = do {
     let pd = (if pd = 0 then init_page_dir vm else pd);
     p \<leftarrow> vtop pd;
     Some (vm\<lparr>cr3 := p\<rparr>)
   }"

definition active_pd :: "vmem \<Rightarrow> u32 option" where
  "active_pd vm = ptov (cr3 vm)"

definition invalidate_pagedir :: "u32 \<Rightarrow> vmem \<Rightarrow> vmem option" where
  "invalidate_pagedir pd vm = do {
     a \<leftarrow> active_pd vm;
     if a = pd then pagedir_activate pd vm else Some vm
   }"

definition pagedir_clear_page :: "u32 \<Rightarrow> u32 \<Rightarrow> vmem \<Rightarrow> vmem option" where
  "pagedir_clear_page pd upage vm = do {
     ASSERT (pg_ofs upage = 0);
     ASSERT (is_user_vaddr upage);
     (pte, vm) \<leftarrow> lookup_page pd upage False vm;
     if pte \<noteq> 0 \<and> words vm pte AND PTE_P \<noteq> 0
     then invalidate_pagedir pd (store pte (words vm pte AND (NOT PTE_P)) vm)
     else Some vm
   }"

text \<open>\<open>pagedir_is_dirty\<close> and \<open>pagedir_is_accessed\<close>, and their setters, differ in the flag.\<close>

definition pte_flag :: "u32 \<Rightarrow> u32 \<Rightarrow> u32 \<Rightarrow> vmem \<Rightarrow> bool option" where
  "pte_flag flag pd vpage vm = do {
     (pte, vm) \<leftarrow> lookup_page pd vpage False vm;
     Some (pte \<noteq> 0 \<and> words vm pte AND flag \<noteq> 0)
   }"

definition set_pte_flag :: "u32 \<Rightarrow> u32 \<Rightarrow> u32 \<Rightarrow> bool \<Rightarrow> vmem \<Rightarrow> vmem option" where
  "set_pte_flag flag pd vpage v vm = do {
     (pte, vm) \<leftarrow> lookup_page pd vpage False vm;
     if pte \<noteq> 0 then
       if v then Some (store pte (words vm pte OR flag) vm)
       else invalidate_pagedir pd (store pte (words vm pte AND (NOT flag)) vm)
     else Some vm
   }"

definition pagedir_is_dirty :: "u32 \<Rightarrow> u32 \<Rightarrow> vmem \<Rightarrow> bool option" where
  "pagedir_is_dirty pd vpage vm = pte_flag PTE_D pd vpage vm"

definition pagedir_set_dirty :: "u32 \<Rightarrow> u32 \<Rightarrow> bool \<Rightarrow> vmem \<Rightarrow> vmem option" where
  "pagedir_set_dirty pd vpage dirty vm = set_pte_flag PTE_D pd vpage dirty vm"

definition pagedir_is_accessed :: "u32 \<Rightarrow> u32 \<Rightarrow> vmem \<Rightarrow> bool option" where
  "pagedir_is_accessed pd vpage vm = pte_flag PTE_A pd vpage vm"

definition pagedir_set_accessed :: "u32 \<Rightarrow> u32 \<Rightarrow> bool \<Rightarrow> vmem \<Rightarrow> vmem option" where
  "pagedir_set_accessed pd vpage accessed vm = set_pte_flag PTE_A pd vpage accessed vm"

end
