(* ===== verification/KDev.thy ===== *)
theory KDev imports KBlock begin

text \<open>
  The state that the device drivers keep: the interrupt queues of \<open>devices/intq.h\<close>, the keyboard,
  the serial port, the screen, the console and the interrupt vectors.  A driver talks to its
  device through ports: \<open>d_out\<close> is the sequence of the writes that were made, \<open>d_in\<close> are the
  bytes that the coming reads deliver.
\<close>

section \<open>Ports\<close>

type_synonym u16 = "16 word"

datatype port_write = Outb u16 u8 | Outw u16 u16

section \<open>Interrupt queues\<close>

definition INTQ_BUFSIZE :: nat where "INTQ_BUFSIZE = 64"

record intq =
  q_lock :: addr
  not_full :: "addr option"
  not_empty :: "addr option"
  q_buf :: "u8 list"
  q_head :: nat
  q_tail :: nat

text \<open>The two queues of the kernel: \<open>buffer\<close> of \<open>input.c\<close> and \<open>txq\<close> of \<open>serial.c\<close>.\<close>

datatype queue_id = InputQ | TxQ

section \<open>Keyboard, serial port, screen\<close>

record kbd =
  left_shift :: bool
  right_shift :: bool
  left_alt :: bool
  right_alt :: bool
  left_ctrl :: bool
  right_ctrl :: bool
  caps_lock :: bool
  key_cnt :: u64

datatype serial_mode = UNINIT | POLL | QUEUE

text \<open>The screen: the rows of the frame buffer, each cell a character and its attribute.\<close>

record vga =
  v_inited :: bool
  v_cx :: nat
  v_cy :: nat
  v_fb :: "(u8 \<times> u8) list list"

section \<open>Interrupts\<close>

datatype handler_fun = TimerInterrupt | KeyboardInterrupt | SerialInterrupt | SyscallHandler | Kill | PageFault

record devs =
  d_out :: "port_write list"
  d_in :: "u8 list"
  d_input :: intq
  d_txq :: intq
  d_mode :: serial_mode
  d_kbd :: kbd
  d_vga :: vga
  console_lock :: addr
  use_console_lock :: bool
  console_lock_depth :: int
  write_cnt :: u64
  intr_handlers :: "u8 \<Rightarrow> handler_fun option"
  idt :: "u8 \<Rightarrow> u64"
  unexpected_cnt :: "u8 \<Rightarrow> u32"
  page_fault_cnt :: u64

definition outb :: "u16 \<Rightarrow> u8 \<Rightarrow> devs \<Rightarrow> devs" where
  "outb port v d = d\<lparr>d_out := d_out d @ [Outb port v]\<rparr>"

definition outw :: "u16 \<Rightarrow> u16 \<Rightarrow> devs \<Rightarrow> devs" where
  "outw port v d = d\<lparr>d_out := d_out d @ [Outw port v]\<rparr>"

definition inb :: "u16 \<Rightarrow> devs \<Rightarrow> (u8 \<times> devs) option" where
  "inb port d = (case d_in d of [] \<Rightarrow> None | v # vs \<Rightarrow> Some (v, d\<lparr>d_in := vs\<rparr>))"

end
