(* ===== verification/KSched.thy ===== *)
theory KSched imports KListSort KDirectory KPaging KDev begin

text \<open>
  Threads, the scheduler and synchronisation: \<open>threads/thread.c\<close>, \<open>threads/synch.c\<close>, the
  interrupt level of \<open>threads/interrupt.c\<close> and the sleeping threads of \<open>devices/timer.c\<close>.

  A thread is identified by the address of its page.  What a thread still has to do when it is
  switched away from is on its stack: the field \<open>frames\<close> holds the continuations of the calls
  that can block, topmost first.  A call that can block pushes the rest of its work; \<open>resume\<close>
  runs the topmost continuation of the running thread up to the next point where an interrupt
  can arrive or another thread can run.

  The ready list, the list of all threads, the sleep list and the waiters of a semaphore are
  intrusive lists of threads; here they are sequences of threads.  Theory KList shows that
  the operations on intrusive lists are the operations on sequences used here.
\<close>

section \<open>State\<close>

datatype thread_status = THREAD_RUNNING | THREAD_READY | THREAD_BLOCKED | THREAD_DYING

text \<open>
  Continuations, and the line each is at: in the loop of \<open>sema_down\<close>, at the call of
  \<open>sema_down\<close> in \<open>cond_wait\<close>, at a call of \<open>sema_up\<close>, after \<open>sema_down\<close> in \<open>lock_acquire\<close>, after \<open>sema_down\<close> in \<open>cond_wait\<close>, at the
  end of \<open>cond_wait\<close>, in the loop of \<open>cond_broadcast\<close>, at \<open>intr_set_level (old_level)\<close> after
  \<open>schedule\<close>, at the return from an interrupt, at the start of \<open>kernel_thread\<close>, at the start and
  in the two parts of the loop of \<open>idle\<close>, at the wait in \<open>thread_start\<close>, in \<open>allocate_tid\<close> with the
  lock held, in \<open>thread_create\<close> after it, in the loop of \<open>release_locks\<close>, at the end of
  \<open>thread_exit\<close>, at the start of \<open>start_process\<close> with the page that holds the command line, in
  \<open>process_execute\<close> after \<open>thread_create\<close>, and after the waits of \<open>exec\<close> and \<open>process_wait\<close>.
  For the devices: in the loops of \<open>intq_getc\<close> and \<open>intq_putc\<close>, at the call of \<open>wait\<close> there and at
  \<open>lock_release\<close> after it, in \<open>input_getc\<close> after \<open>intq_getc\<close>, in the loop of \<open>read\<close> after
  \<open>input_getc\<close>, in \<open>serial_putc\<close> after \<open>intq_putc\<close>, at the call of \<open>vga_putc\<close>, after
  \<open>timer_msleep\<close> in \<open>speaker_beep\<close>, after \<open>speaker_beep\<close> in \<open>vga_putc\<close>, in the loop that writes
  bytes to the console, in a sequence of such outputs, at the end of \<open>write\<close>, and at a call of
  \<open>thread_exit\<close> and of \<open>exit\<close>.  A new thread is given the
  continuations that it starts with.
\<close>

datatype frame =
    SemaDown addr bool
  | SemaDownCall addr
  | SemaUp addr
  | LockAcquired addr
  | CondReacquire addr
  | CondReturn addr
  | CondBroadcast addr addr
  | RestoreLevel bool
  | Iret
  | KernelThread
  | IdleStart addr
  | IdleLoop
  | IdleHalt
  | TidAllocated addr "frame list"
  | CreateFinish addr int "frame list"
  | ReleaseLocks "addr list"
  | ExitFinish
  | StartProcess u32 "u8 list"
  | ExecCreated u32
  | ExecReturn addr int
  | WaitReturn addr
  | IntqGetc queue_id
  | IntqPutc queue_id u8
  | IntqWait queue_id bool
  | IntqWoken queue_id
  | InputGetc bool
  | ReadKeys u32 nat nat
  | SerialPutc bool
  | VgaPutc u8
  | BeepDone
  | VgaBell bool
  | ConsoleOut "u8 list"
  | ConsoleSeq "u8 list list"
  | ReturnSize u32
  | ThreadExit
  | ExitCall int

record thread =
  tid :: int
  status :: thread_status
  t_name :: "u8 list"
  t_stack :: addr
  priority :: int
  t_magic :: u32
  pagedir :: u32
  lock_list :: "addr list"
  file_list :: "addr list"
  t_fd :: int
  child_list :: "addr list"
  parent :: int
  t_cp :: addr
  executable :: "addr option"
  t_ticks :: u64
  t_cwd :: "addr option"
  eax :: int
  frames :: "frame list"

text \<open>A \<open>struct child_process\<close>; its semaphores are at \<open>load_sema\<close> and \<open>exit_sema\<close>.\<close>

record child_process =
  cp_pid :: int
  cp_load :: nat
  cp_wait :: bool
  cp_exit :: bool
  cp_status :: int

record semaphore =
  s_value :: u32
  waiters :: "addr list"

text \<open>A \<open>struct process_file\<close>; the object is a file, or a directory if \<open>pf_isdir\<close> holds.\<close>

record process_file =
  pf_obj :: addr
  pf_isdir :: bool
  pf_fd :: int

text \<open>
  The semaphore of the lock at \<open>l\<close> is at \<open>l + 4\<close>.  A condition variable is the sequence of the
  \<open>struct semaphore_elem\<close>s in its list, each identified by the address of its semaphore.
  \<open>holder\<close> maps an initialised lock to the thread that holds it.  \<open>mallocs\<close> are the
  addresses that the coming calls of \<open>malloc\<close> return, which fail when there is none left; \<open>junk_status\<close> is what uninitialised memory holds;
  \<open>io\<close> is the state of the device drivers.
\<close>

record sched =
  threads :: "addr \<Rightarrow> thread option"
  cur :: addr
  ready_list :: "addr list"
  all_list :: "addr list"
  sleep_list :: "addr list"
  idle_thread :: addr
  initial_thread :: addr
  next_tid :: int
  idle_ticks :: u64
  kernel_ticks :: u64
  user_ticks :: u64
  thread_ticks :: u32
  intr_on :: bool
  in_external_intr :: bool
  yield_on_return :: bool
  ticks :: u64
  semas :: "addr \<Rightarrow> semaphore option"
  holder :: "addr \<Rightarrow> addr option option"
  conds :: "addr \<Rightarrow> addr list option"
  esp0 :: addr
  tid_lock :: addr
  children :: "addr \<Rightarrow> child_process option"
  pfiles :: "addr \<Rightarrow> process_file option"
  junk_status :: int
  io :: devs
  mallocs :: "addr list"
  vm :: vmem
  kfs :: fs

definition PGSIZE :: nat where "PGSIZE = 4096"
definition THREAD_MAGIC :: u32 where "THREAD_MAGIC = 0xcd6abf4b"
definition TIME_SLICE :: u32 where "TIME_SLICE = 4"
definition PRI_MIN :: int where "PRI_MIN = 0"
definition PRI_DEFAULT :: int where "PRI_DEFAULT = 31"
definition PRI_MAX :: int where "PRI_MAX = 63"
definition MIN_FD :: int where "MIN_FD = 2"
definition NO_PARENT :: int where "NO_PARENT = - 1"
definition TID_ERROR :: int where "TID_ERROR = - 1"

definition put_thread :: "addr \<Rightarrow> thread \<Rightarrow> sched \<Rightarrow> sched" where
  "put_thread a t st = st\<lparr>threads := (threads st)(a \<mapsto> t)\<rparr>"

definition put_sema :: "addr \<Rightarrow> semaphore \<Rightarrow> sched \<Rightarrow> sched" where
  "put_sema s x st = st\<lparr>semas := (semas st)(s \<mapsto> x)\<rparr>"

text \<open>\<open>call f\<close> pushes the continuation \<open>f\<close> of the running thread, \<open>return\<close> removes the topmost one.\<close>

definition call :: "frame \<Rightarrow> sched \<Rightarrow> sched option" where
  "call f st = do {
     t \<leftarrow> threads st (cur st);
     Some (put_thread (cur st) (t\<lparr>frames := f # frames t\<rparr>) st)
   }"

definition return :: "sched \<Rightarrow> sched option" where
  "return st = do {
     t \<leftarrow> threads st (cur st);
     Some (put_thread (cur st) (t\<lparr>frames := tl (frames t)\<rparr>) st)
   }"

section \<open>Interrupt level\<close>

definition intr_get_level :: "sched \<Rightarrow> bool" where
  "intr_get_level st = intr_on st"

definition intr_context :: "sched \<Rightarrow> bool" where
  "intr_context st = in_external_intr st"

definition intr_enable :: "sched \<Rightarrow> (bool \<times> sched) option" where
  "intr_enable st = do {
     let old_level = intr_get_level st;
     ASSERT (\<not> intr_context st);
     Some (old_level, st\<lparr>intr_on := True\<rparr>)
   }"

definition intr_disable :: "sched \<Rightarrow> bool \<times> sched" where
  "intr_disable st = (intr_get_level st, st\<lparr>intr_on := False\<rparr>)"

definition intr_set_level :: "bool \<Rightarrow> sched \<Rightarrow> (bool \<times> sched) option" where
  "intr_set_level level st = (if level then intr_enable st else Some (intr_disable st))"

definition intr_yield_on_return :: "sched \<Rightarrow> sched option" where
  "intr_yield_on_return st = do {
     ASSERT (intr_context st);
     Some (st\<lparr>yield_on_return := True\<rparr>)
   }"

section \<open>The scheduler\<close>

definition is_thread :: "addr \<Rightarrow> sched \<Rightarrow> bool" where
  "is_thread a st \<longleftrightarrow> (case threads st a of None \<Rightarrow> False | Some t \<Rightarrow> a \<noteq> 0 \<and> t_magic t = THREAD_MAGIC)"

text \<open>The page of the stack the processor runs on.\<close>

definition running_thread :: "sched \<Rightarrow> addr" where
  "running_thread st = cur st"

definition thread_current :: "sched \<Rightarrow> addr option" where
  "thread_current st = do {
     let a = running_thread st;
     ASSERT (is_thread a st);
     t \<leftarrow> threads st a;
     ASSERT (status t = THREAD_RUNNING);
     Some a
   }"

text \<open>The fields of the running thread, \<open>thread_current () -> ...\<close>.\<close>

definition current :: "sched \<Rightarrow> thread option" where
  "current st = do { a \<leftarrow> thread_current st; threads st a }"

definition next_thread_to_run :: "sched \<Rightarrow> addr \<times> sched" where
  "next_thread_to_run st = (case ready_list st of
     [] \<Rightarrow> (idle_thread st, st)
   | a # as \<Rightarrow> (a, st\<lparr>ready_list := as\<rparr>))"

definition tss_update :: "sched \<Rightarrow> sched option" where
  "tss_update st = do { a \<leftarrow> thread_current st; Some (st\<lparr>esp0 := a + PGSIZE\<rparr>) }"

definition process_activate :: "sched \<Rightarrow> sched option" where
  "process_activate st = do {
     t \<leftarrow> current st;
     v \<leftarrow> pagedir_activate (pagedir t) (vm st);
     tss_update (st\<lparr>vm := v\<rparr>)
   }"

definition thread_schedule_tail :: "addr option \<Rightarrow> sched \<Rightarrow> sched option" where
  "thread_schedule_tail prev st = do {
     let c = running_thread st;
     ASSERT (\<not> intr_get_level st);
     t \<leftarrow> threads st c;
     let st = put_thread c (t\<lparr>status := THREAD_RUNNING\<rparr>) st;
     let st = st\<lparr>thread_ticks := 0\<rparr>;
     st \<leftarrow> process_activate st;
     (case prev of
        None \<Rightarrow> Some st
      | Some p \<Rightarrow> do {
          x \<leftarrow> threads st p;
          if status x = THREAD_DYING \<and> p \<noteq> initial_thread st then do {
            ASSERT (p \<noteq> c);
            v \<leftarrow> palloc_free_page (of_nat p) (vm st);
            Some (st\<lparr>threads := (threads st)(p := None), vm := v\<rparr>)
          }
          else Some st
        })
   }"

text \<open>\<open>switch_threads\<close> makes the processor run on the stack of \<open>next\<close>.\<close>

definition schedule :: "sched \<Rightarrow> sched option" where
  "schedule st = do {
     let c = running_thread st;
     let (next, st) = next_thread_to_run st;
     ASSERT (\<not> intr_get_level st);
     t \<leftarrow> threads st c;
     ASSERT (status t \<noteq> THREAD_RUNNING);
     ASSERT (is_thread next st);
     let prev = (if c \<noteq> next then Some c else None);
     thread_schedule_tail prev (st\<lparr>cur := next\<rparr>)
   }"

definition thread_block :: "sched \<Rightarrow> sched option" where
  "thread_block st = do {
     ASSERT (\<not> intr_context st);
     ASSERT (\<not> intr_get_level st);
     t \<leftarrow> current st;
     schedule (put_thread (cur st) (t\<lparr>status := THREAD_BLOCKED\<rparr>) st)
   }"

definition thread_unblock :: "addr \<Rightarrow> sched \<Rightarrow> sched option" where
  "thread_unblock a st = do {
     ASSERT (is_thread a st);
     let (old_level, st) = intr_disable st;
     t \<leftarrow> threads st a;
     ASSERT (status t = THREAD_BLOCKED);
     let st = st\<lparr>ready_list := ready_list st @ [a]\<rparr>;
     let st = put_thread a (t\<lparr>status := THREAD_READY\<rparr>) st;
     (l, st) \<leftarrow> intr_set_level old_level st;
     Some st
   }"

text \<open>The level is restored when the thread runs again.\<close>

definition thread_yield :: "sched \<Rightarrow> sched option" where
  "thread_yield st = do {
     c \<leftarrow> thread_current st;
     ASSERT (\<not> intr_context st);
     let (old_level, st) = intr_disable st;
     let st = (if c \<noteq> idle_thread st then st\<lparr>ready_list := ready_list st @ [c]\<rparr> else st);
     st \<leftarrow> call (RestoreLevel old_level) st;
     t \<leftarrow> threads st c;
     schedule (put_thread c (t\<lparr>status := THREAD_READY\<rparr>) st)
   }"

definition thread_tick :: "sched \<Rightarrow> sched option" where
  "thread_tick st = do {
     c \<leftarrow> thread_current st;
     t \<leftarrow> threads st c;
     let st = (if c = idle_thread st then st\<lparr>idle_ticks := idle_ticks st + 1\<rparr>
               else if pagedir t \<noteq> 0 then st\<lparr>user_ticks := user_ticks st + 1\<rparr>
               else st\<lparr>kernel_ticks := kernel_ticks st + 1\<rparr>);
     let st = st\<lparr>thread_ticks := thread_ticks st + 1\<rparr>;
     if thread_ticks st \<ge> TIME_SLICE then intr_yield_on_return st else Some st
   }"

definition thread_tid :: "sched \<Rightarrow> int option" where
  "thread_tid st = map_option tid (current st)"

definition thread_name :: "sched \<Rightarrow> u8 list option" where
  "thread_name st = map_option t_name (current st)"

definition thread_get_priority :: "sched \<Rightarrow> int option" where
  "thread_get_priority st = map_option priority (current st)"

definition thread_set_priority :: "int \<Rightarrow> sched \<Rightarrow> sched option" where
  "thread_set_priority p st = do {
     t \<leftarrow> current st;
     Some (put_thread (cur st) (t\<lparr>priority := p\<rparr>) st)
   }"

text \<open>The loop of \<open>thread_foreach\<close> over the threads in \<open>all_list\<close>.\<close>

fun thread_foreach_loop :: "(addr \<Rightarrow> sched \<Rightarrow> sched option) \<Rightarrow> addr list \<Rightarrow> sched \<Rightarrow> sched option" where
  "thread_foreach_loop func [] st = Some st"
| "thread_foreach_loop func (a # as) st = do { st \<leftarrow> func a st; thread_foreach_loop func as st }"

definition thread_foreach :: "(addr \<Rightarrow> sched \<Rightarrow> sched option) \<Rightarrow> sched \<Rightarrow> sched option" where
  "thread_foreach func st = do {
     ASSERT (\<not> intr_get_level st);
     thread_foreach_loop func (all_list st) st
   }"

fun thread_alive_loop :: "int \<Rightarrow> addr list \<Rightarrow> sched \<Rightarrow> bool option" where
  "thread_alive_loop pid [] st = Some False"
| "thread_alive_loop pid (a # as) st = do {
     t \<leftarrow> threads st a;
     if tid t = pid then Some True else thread_alive_loop pid as st
   }"

definition thread_alive :: "int \<Rightarrow> sched \<Rightarrow> bool option" where
  "thread_alive pid st = thread_alive_loop pid (all_list st) st"

section \<open>Semaphores\<close>

definition sema_init :: "addr \<Rightarrow> u32 \<Rightarrow> sched \<Rightarrow> sched option" where
  "sema_init s val st = do {
     ASSERT (s \<noteq> 0);
     Some (put_sema s \<lparr>s_value = val, waiters = []\<rparr> st)
   }"

definition sema_down :: "addr \<Rightarrow> sched \<Rightarrow> sched option" where
  "sema_down s st = do {
     ASSERT (s \<noteq> 0);
     ASSERT (\<not> intr_context st);
     let (old_level, st) = intr_disable st;
     call (SemaDown s old_level) st
   }"

text \<open>The test of the loop in \<open>sema_down\<close>, and what follows it.\<close>

definition sema_down_loop :: "addr \<Rightarrow> bool \<Rightarrow> sched \<Rightarrow> sched option" where
  "sema_down_loop s old_level st = do {
     x \<leftarrow> semas st s;
     if s_value x = 0 then do {
       c \<leftarrow> thread_current st;
       thread_block (put_sema s (x\<lparr>waiters := waiters x @ [c]\<rparr>) st)
     }
     else do {
       let st = put_sema s (x\<lparr>s_value := s_value x - 1\<rparr>) st;
       (l, st) \<leftarrow> intr_set_level old_level st;
       return st
     }
   }"

definition sema_try_down :: "addr \<Rightarrow> sched \<Rightarrow> (bool \<times> sched) option" where
  "sema_try_down s st = do {
     ASSERT (s \<noteq> 0);
     let (old_level, st) = intr_disable st;
     x \<leftarrow> semas st s;
     let (success, st) =
       (if s_value x > 0 then (True, put_sema s (x\<lparr>s_value := s_value x - 1\<rparr>) st) else (False, st));
     (l, st) \<leftarrow> intr_set_level old_level st;
     Some (success, st)
   }"

definition sema_up :: "addr \<Rightarrow> sched \<Rightarrow> sched option" where
  "sema_up s st = do {
     ASSERT (s \<noteq> 0);
     let (old_level, st) = intr_disable st;
     x \<leftarrow> semas st s;
     st \<leftarrow> (case waiters x of
              [] \<Rightarrow> Some st
            | w # ws \<Rightarrow> thread_unblock w (put_sema s (x\<lparr>waiters := ws\<rparr>) st));
     x \<leftarrow> semas st s;
     let st = put_sema s (x\<lparr>s_value := s_value x + 1\<rparr>) st;
     (l, st) \<leftarrow> intr_set_level old_level st;
     Some st
   }"

section \<open>Locks\<close>

definition lock_sema :: "addr \<Rightarrow> addr" where
  "lock_sema l = l + 4"

definition lock_init :: "addr \<Rightarrow> sched \<Rightarrow> sched option" where
  "lock_init l st = do {
     ASSERT (l \<noteq> 0);
     sema_init (lock_sema l) 1 (st\<lparr>holder := (holder st)(l \<mapsto> None)\<rparr>)
   }"

definition lock_held_by_current_thread :: "addr \<Rightarrow> sched \<Rightarrow> bool option" where
  "lock_held_by_current_thread l st = do {
     ASSERT (l \<noteq> 0);
     h \<leftarrow> holder st l;
     c \<leftarrow> thread_current st;
     Some (h = Some c)
   }"

definition lock_acquire :: "addr \<Rightarrow> sched \<Rightarrow> sched option" where
  "lock_acquire l st = do {
     ASSERT (l \<noteq> 0);
     ASSERT (\<not> intr_context st);
     held \<leftarrow> lock_held_by_current_thread l st;
     ASSERT (\<not> held);
     st \<leftarrow> call (LockAcquired l) st;
     sema_down (lock_sema l) st
   }"

text \<open>The two statements of \<open>lock_acquire\<close> and \<open>lock_try_acquire\<close> that take possession.\<close>

definition lock_take :: "addr \<Rightarrow> sched \<Rightarrow> sched option" where
  "lock_take l st = do {
     t \<leftarrow> current st;
     let st = st\<lparr>holder := (holder st)(l \<mapsto> Some (cur st))\<rparr>;
     Some (put_thread (cur st) (t\<lparr>lock_list := lock_list t @ [l]\<rparr>) st)
   }"

definition lock_try_acquire :: "addr \<Rightarrow> sched \<Rightarrow> (bool \<times> sched) option" where
  "lock_try_acquire l st = do {
     ASSERT (l \<noteq> 0);
     held \<leftarrow> lock_held_by_current_thread l st;
     ASSERT (\<not> held);
     (success, st) \<leftarrow> sema_try_down (lock_sema l) st;
     st \<leftarrow> (if success then lock_take l st else Some st);
     Some (success, st)
   }"

definition lock_release :: "addr \<Rightarrow> sched \<Rightarrow> sched option" where
  "lock_release l st = do {
     ASSERT (l \<noteq> 0);
     held \<leftarrow> lock_held_by_current_thread l st;
     ASSERT held;
     let st = st\<lparr>holder := (holder st)(l \<mapsto> None)\<rparr>;
     t \<leftarrow> current st;
     let st = put_thread (cur st) (t\<lparr>lock_list := remove1 l (lock_list t)\<rparr>) st;
     call (SemaUp (lock_sema l)) st
   }"

section \<open>Condition variables\<close>

definition cond_init :: "addr \<Rightarrow> sched \<Rightarrow> sched option" where
  "cond_init c st = do {
     ASSERT (c \<noteq> 0);
     Some (st\<lparr>conds := (conds st)(c \<mapsto> [])\<rparr>)
   }"

text \<open>
  \<open>w\<close> is the address of the semaphore of \<open>waiter\<close>, a local variable; after the return nobody
  refers to it any more.
\<close>

definition cond_wait :: "addr \<Rightarrow> addr \<Rightarrow> addr \<Rightarrow> sched \<Rightarrow> sched option" where
  "cond_wait w c l st = do {
     ASSERT (c \<noteq> 0);
     ASSERT (l \<noteq> 0);
     ASSERT (\<not> intr_context st);
     held \<leftarrow> lock_held_by_current_thread l st;
     ASSERT held;
     st \<leftarrow> sema_init w 0 st;
     ws \<leftarrow> conds st c;
     let st = st\<lparr>conds := (conds st)(c \<mapsto> ws @ [w])\<rparr>;
     st \<leftarrow> call (CondReturn w) st;
     st \<leftarrow> call (CondReacquire l) st;
     st \<leftarrow> call (SemaDownCall w) st;
     lock_release l st
   }"

definition cond_signal :: "addr \<Rightarrow> addr \<Rightarrow> sched \<Rightarrow> sched option" where
  "cond_signal c l st = do {
     ASSERT (c \<noteq> 0);
     ASSERT (l \<noteq> 0);
     ASSERT (\<not> intr_context st);
     held \<leftarrow> lock_held_by_current_thread l st;
     ASSERT held;
     ws \<leftarrow> conds st c;
     (case ws of
        [] \<Rightarrow> Some st
      | w # ws \<Rightarrow> call (SemaUp w) (st\<lparr>conds := (conds st)(c \<mapsto> ws)\<rparr>))
   }"

definition cond_broadcast :: "addr \<Rightarrow> addr \<Rightarrow> sched \<Rightarrow> sched option" where
  "cond_broadcast c l st = do {
     ASSERT (c \<noteq> 0);
     ASSERT (l \<noteq> 0);
     call (CondBroadcast c l) st
   }"

text \<open>The test of the loop of \<open>cond_broadcast\<close>.\<close>

definition cond_broadcast_loop :: "addr \<Rightarrow> addr \<Rightarrow> sched \<Rightarrow> sched option" where
  "cond_broadcast_loop c l st = do {
     ws \<leftarrow> conds st c;
     if ws \<noteq> [] then cond_signal c l st else return st
   }"

section \<open>Basic facts\<close>

lemma thread_current_iff:
  "thread_current st = Some c \<longleftrightarrow> c = cur st \<and> c \<noteq> 0 \<and>
     (\<exists>t. threads st c = Some t \<and> t_magic t = THREAD_MAGIC \<and> status t = THREAD_RUNNING)"
  by (auto simp: thread_current_def running_thread_def is_thread_def Let_def split: option.splits)

lemma is_thread_iff: "is_thread a st \<longleftrightarrow> a \<noteq> 0 \<and> (\<exists>t. threads st a = Some t \<and> t_magic t = THREAD_MAGIC)"
  by (auto simp: is_thread_def split: option.splits)

end
