(* ===== verification/KTimer.thy ===== *)
theory KTimer imports KSched "HOL-Library.Signed_Division" begin

text \<open>
  The timer, \<open>devices/timer.c\<close>, with the comparison \<open>cmp_ticks\<close> of \<open>threads/thread.c\<close>: sleeping
  threads are kept in the order of the ticks they wake up at, and the timer interrupt wakes a
  prefix of them.
\<close>

section \<open>The order of the sleep list\<close>

text \<open>The list element of a thread is 40 bytes into its page; \<open>list_entry\<close> subtracts the offset.\<close>

definition thread_elem :: "addr \<Rightarrow> addr" where
  "thread_elem a = a + 40"

definition elem_thread :: "addr \<Rightarrow> addr" where
  "elem_thread e = e - 40"

definition ticks_of :: "sched \<Rightarrow> addr \<Rightarrow> u64" where
  "ticks_of st a = (case threads st a of Some t \<Rightarrow> t_ticks t | None \<Rightarrow> 0)"

definition cmp_ticks :: "sched \<Rightarrow> addr \<Rightarrow> addr \<Rightarrow> bool" where
  "cmp_ticks st a b = (let ta = elem_thread a; tb = elem_thread b in
     if ticks_of st ta <s ticks_of st tb then True else False)"

lemma cmp_ticks_iff: "cmp_ticks st a b \<longleftrightarrow> sint (ticks_of st (elem_thread a)) < sint (ticks_of st (elem_thread b))"
  by (simp add: cmp_ticks_def word_sless_alt Let_def)

interpretation tick_order: list_order "cmp_ticks st" for st
  by unfold_locales (simp_all add: cmp_ticks_iff)

text \<open>\<open>list_insert_ordered\<close> on a sequence.\<close>

definition insert_sleeper :: "sched \<Rightarrow> addr \<Rightarrow> addr list \<Rightarrow> addr list" where
  "insert_sleeper st e xs =
     (let lt = (\<lambda>a b. cmp_ticks st (thread_elem a) (thread_elem b)) in
      takeWhile (\<lambda>x. \<not> lt e x) xs @ e # dropWhile (\<lambda>x. \<not> lt e x) xs)"

section \<open>Operations\<close>

definition TIMER_FREQ :: int where "TIMER_FREQ = 100"

definition timer_ticks :: "sched \<Rightarrow> (u64 \<times> sched) option" where
  "timer_ticks st = do {
     let (old_level, st) = intr_disable st;
     let t = ticks st;
     (l, st) \<leftarrow> intr_set_level old_level st;
     Some (t, st)
   }"

definition timer_elapsed :: "u64 \<Rightarrow> sched \<Rightarrow> (u64 \<times> sched) option" where
  "timer_elapsed since st0 = do { (t, st) \<leftarrow> timer_ticks st0; Some (t - since, st) }"

definition timer_sleep :: "u64 \<Rightarrow> sched \<Rightarrow> sched option" where
  "timer_sleep n st = do {
     ASSERT (intr_get_level st);
     if n \<le>s 0 then Some st
     else do {
       let (old_level, st) = intr_disable st;
       (now, st) \<leftarrow> timer_ticks st;
       t \<leftarrow> current st;
       let st = put_thread (cur st) (t\<lparr>t_ticks := now + n\<rparr>) st;
       let st = st\<lparr>sleep_list := insert_sleeper st (cur st) (sleep_list st)\<rparr>;
       st \<leftarrow> call (RestoreLevel old_level) st;
       thread_block st
     }
   }"

text \<open>The loop of \<open>timer_interrupt\<close>, which starts over at the head after each removal.\<close>

fun wake_loop :: "addr list \<Rightarrow> sched \<Rightarrow> sched option" where
  "wake_loop [] st = Some st"
| "wake_loop (a # as) st = do {
     t \<leftarrow> threads st a;
     if ticks st <s t_ticks t then Some st
     else do {
       st \<leftarrow> thread_unblock a (st\<lparr>sleep_list := as\<rparr>);
       wake_loop as st
     }
   }"

definition timer_interrupt :: "sched \<Rightarrow> sched option" where
  "timer_interrupt st = do {
     let st = st\<lparr>ticks := ticks st + 1\<rparr>;
     st \<leftarrow> thread_tick st;
     wake_loop (sleep_list st) st
   }"

text \<open>
  \<open>intr_handler\<close> for the vector of the timer, a registered external interrupt; the interrupt
  gate has disabled interrupts, and the return from the interrupt enables them again.
\<close>

definition timer_intr_handler :: "sched \<Rightarrow> sched option" where
  "timer_intr_handler st = do {
     st \<leftarrow> call Iret (st\<lparr>intr_on := False\<rparr>);
     ASSERT (\<not> intr_get_level st);
     ASSERT (\<not> intr_context st);
     let st = st\<lparr>in_external_intr := True, yield_on_return := False\<rparr>;
     st \<leftarrow> timer_interrupt st;
     ASSERT (\<not> intr_get_level st);
     ASSERT (intr_context st);
     let st = st\<lparr>in_external_intr := False\<rparr>;
     let st = st\<lparr>io := outb 0x20 0x20 (io st)\<rparr>;
     if yield_on_return st then thread_yield st else Some st
   }"

section \<open>Short delays\<close>

text \<open>
  \<open>int64_t\<close> expressions: an overflow is \<open>None\<close>.  \<open>busy_wait\<close> runs an empty loop; its argument is
  the result of \<open>real_time_delay\<close>.
\<close>

definition i64 :: "int \<Rightarrow> int option" where
  "i64 x = do { ASSERT (- (2 ^ 63) \<le> x \<and> x < 2 ^ 63); Some x }"

definition real_time_delay :: "u32 \<Rightarrow> int \<Rightarrow> int \<Rightarrow> int option" where
  "real_time_delay loops_per_tick num denom = do {
     ASSERT (denom smod 1000 = 0);
     x \<leftarrow> i64 (uint loops_per_tick * num);
     y \<leftarrow> i64 (x sdiv 1000 * TIMER_FREQ);
     ASSERT (denom sdiv 1000 \<noteq> 0);
     i64 (y sdiv (denom sdiv 1000))
   }"

text \<open>Sleep, or the loops to busy-wait for.\<close>

definition real_time_sleep :: "u32 \<Rightarrow> int \<Rightarrow> int \<Rightarrow> sched \<Rightarrow> (int \<times> sched) option" where
  "real_time_sleep loops_per_tick num denom st = do {
     x \<leftarrow> i64 (num * TIMER_FREQ);
     ASSERT (denom \<noteq> 0);
     let n = x sdiv denom;
     ASSERT (intr_get_level st);
     if n > 0 then do { st \<leftarrow> timer_sleep (word_of_int n) st; Some (0, st) }
     else do { loops \<leftarrow> real_time_delay loops_per_tick num denom; Some (loops, st) }
   }"

definition timer_msleep :: "u32 \<Rightarrow> int \<Rightarrow> sched \<Rightarrow> (int \<times> sched) option" where
  "timer_msleep lpt ms st = real_time_sleep lpt ms 1000 st"

definition timer_usleep :: "u32 \<Rightarrow> int \<Rightarrow> sched \<Rightarrow> (int \<times> sched) option" where
  "timer_usleep lpt us st = real_time_sleep lpt us 1000000 st"

definition timer_nsleep :: "u32 \<Rightarrow> int \<Rightarrow> sched \<Rightarrow> (int \<times> sched) option" where
  "timer_nsleep lpt ns st = real_time_sleep lpt ns 1000000000 st"

definition timer_mdelay :: "u32 \<Rightarrow> int \<Rightarrow> int option" where
  "timer_mdelay lpt ms = real_time_delay lpt ms 1000"

definition timer_udelay :: "u32 \<Rightarrow> int \<Rightarrow> int option" where
  "timer_udelay lpt us = real_time_delay lpt us 1000000"

definition timer_ndelay :: "u32 \<Rightarrow> int \<Rightarrow> int option" where
  "timer_ndelay lpt ns = real_time_delay lpt ns 1000000000"

text \<open>
  \<open>too_many_loops\<close> measures the processor; it is a parameter.  The loop doubles the estimate
  until it is too large or the \<open>ASSERT\<close> against wrapping to zero fails.
\<close>

partial_function (option) calibrate_loop :: "(u32 \<Rightarrow> bool) \<Rightarrow> u32 \<Rightarrow> u32 option" where
  "calibrate_loop too_many lpt =
     (if \<not> too_many (push_bit 1 lpt) then
        (if push_bit 1 lpt \<noteq> 0 then calibrate_loop too_many (push_bit 1 lpt) else None)
      else Some lpt)"

fun refine_loop :: "(u32 \<Rightarrow> bool) \<Rightarrow> u32 \<Rightarrow> nat \<Rightarrow> u32 \<Rightarrow> u32 \<Rightarrow> u32" where
  "refine_loop too_many high_bit 0 test_bit lpt = lpt"
| "refine_loop too_many high_bit (Suc n) test_bit lpt =
     refine_loop too_many high_bit n (drop_bit 1 test_bit)
       (if \<not> too_many (Bit_Operations.or high_bit test_bit)
        then Bit_Operations.or lpt test_bit else lpt)"

text \<open>From \<open>high_bit >> 1\<close> down to, but without, \<open>high_bit >> 10\<close> the loop makes nine rounds.\<close>

definition timer_calibrate :: "(u32 \<Rightarrow> bool) \<Rightarrow> sched \<Rightarrow> u32 option" where
  "timer_calibrate too_many st = do {
     ASSERT (intr_get_level st);
     high_bit \<leftarrow> calibrate_loop too_many 1024;
     Some (refine_loop too_many high_bit 9 (drop_bit 1 high_bit) high_bit)
   }"

section \<open>Sleepers in order\<close>

abbreviation by_ticks :: "sched \<Rightarrow> addr list \<Rightarrow> bool" where
  "by_ticks st \<equiv> sorted_wrt (\<lambda>a b. \<not> cmp_ticks st (thread_elem b) (thread_elem a))"

lemma elem_thread_elem [simp]: "elem_thread (thread_elem a) = a"
  by (simp add: elem_thread_def thread_elem_def)

lemma inj_thread_elem [simp]: "inj thread_elem"
  by (simp add: inj_def thread_elem_def)

lemma by_ticks_map: "by_ticks st xs \<longleftrightarrow> sorted_wrt (\<lambda>a b. \<not> cmp_ticks st b a) (map thread_elem xs)"
  by (simp add: sorted_wrt_map)

lemma map_insert_sleeper:
  "map thread_elem (insert_sleeper st e xs) =
     takeWhile (\<lambda>x. \<not> cmp_ticks st (thread_elem e) x) (map thread_elem xs) @ thread_elem e #
     dropWhile (\<lambda>x. \<not> cmp_ticks st (thread_elem e) x) (map thread_elem xs)"
  by (simp add: insert_sleeper_def takeWhile_map dropWhile_map comp_def)

lemma insert_sleeper_sorted: "by_ticks st xs \<Longrightarrow> by_ticks st (insert_sleeper st e xs)"
  unfolding by_ticks_map map_insert_sleeper by (rule tick_order.insert_keeps_sorted)

lemma set_insert_sleeper [simp]: "set (insert_sleeper st e xs) = insert e (set xs)"
  unfolding insert_sleeper_def Let_def by (metis Un_insert_right list.simps(15) set_append takeWhile_dropWhile_id)

lemma mset_insert_sleeper: "mset (insert_sleeper st e xs) = add_mset e (mset xs)"
proof -
  let ?P = "\<lambda>x. \<not> cmp_ticks st (thread_elem e) (thread_elem x)"
  have "mset (takeWhile ?P xs) + mset (dropWhile ?P xs) = mset xs"
    by (metis mset_append takeWhile_dropWhile_id)
  then show ?thesis by (simp add: insert_sleeper_def)
qed

section \<open>Waking up\<close>

text \<open>A thread that is blocked, and a state in which it can be made ready.\<close>

definition blocked :: "sched \<Rightarrow> addr \<Rightarrow> bool" where
  "blocked st a \<longleftrightarrow> is_thread a st \<and> (\<exists>t. threads st a = Some t \<and> status t = THREAD_BLOCKED)"

text \<open>The state in which the threads \<open>as\<close> have been made ready, in this order.\<close>

definition readied :: "addr list \<Rightarrow> sched \<Rightarrow> sched" where
  "readied as st = st\<lparr>ready_list := ready_list st @ as,
     threads := (\<lambda>a. if a \<in> set as then map_option (status_update (\<lambda>_. THREAD_READY)) (threads st a)
                     else threads st a)\<rparr>"

lemma thread_unblock_readied:
  assumes "blocked st a" "\<not> intr_on st"
  shows "thread_unblock a st = Some (readied [a] st)"
proof -
  obtain t where t: "threads st a = Some t" "status t = THREAD_BLOCKED" "is_thread a st"
    using assms(1) by (auto simp: blocked_def)
  then show ?thesis
    using assms(2)
    by (auto simp: thread_unblock_def intr_disable_def intr_get_level_def intr_set_level_def
        put_thread_def readied_def fun_eq_iff)
qed

definition due :: "sched \<Rightarrow> addr \<Rightarrow> bool" where
  "due st a \<longleftrightarrow> \<not> ticks st <s ticks_of st a"

lemma readied_simps [simp]:
  "ticks (readied as st) = ticks st" "intr_on (readied as st) = intr_on st"
  "ticks_of (readied as st) = ticks_of st" "sleep_list (readied as st) = sleep_list st"
  "readied as (st\<lparr>sleep_list := xs\<rparr>) = (readied as st)\<lparr>sleep_list := xs\<rparr>"
  by (auto simp: readied_def ticks_of_def fun_eq_iff split: option.split)

lemma blocked_readied: "blocked st b \<Longrightarrow> b \<noteq> a \<Longrightarrow> blocked (readied [a] st) b"
  by (auto simp: blocked_def readied_def is_thread_def)

lemma ticks_of_cong: "threads st = threads st' \<Longrightarrow> ticks_of st = ticks_of st'"
  by (simp add: ticks_of_def[abs_def])

lemma ticks_of_updates [simp]:
  "ticks_of (st\<lparr>sleep_list := xs\<rparr>) = ticks_of st" "ticks_of (st\<lparr>ticks := n\<rparr>) = ticks_of st"
  by (rule ticks_of_cong, simp)+

lemma readied_append:
  assumes "set as \<inter> set bs = {}"
  shows "readied bs (readied as st) = readied (as @ bs) st"
proof -
  have "threads (readied bs (readied as st)) = threads (readied (as @ bs) st)"
    using assms by (auto simp: readied_def fun_eq_iff)
  moreover have "(readied bs (readied as st))\<lparr>threads := x\<rparr> = (readied (as @ bs) st)\<lparr>threads := x\<rparr>" for x
    by (simp add: readied_def)
  ultimately show ?thesis by (metis sched.surjective sched.update_convs(1))
qed

lemma readied_Nil [simp]: "readied [] st = st"
  by (simp add: readied_def)

lemma wake_loop_ok:
  assumes "\<forall>a \<in> set as. blocked st a" "distinct as" "\<not> intr_on st" "sleep_list st = as"
  shows "wake_loop as st =
    Some ((readied (takeWhile (due st) as) st)\<lparr>sleep_list := dropWhile (due st) as\<rparr>)"
  using assms
proof (induction as arbitrary: st)
  case Nil
  then show ?case by simp
next
  case (Cons a as)
  obtain t where t: "threads st a = Some t" using Cons.prems(1) by (auto simp: blocked_def)
  have d: "due st a \<longleftrightarrow> \<not> ticks st <s t_ticks t" using t by (simp add: due_def ticks_of_def)
  show ?case
  proof (cases "due st a")
    case False
    then show ?thesis using t d Cons.prems(4) by simp
  next
    case True
    let ?st = "readied [a] (st\<lparr>sleep_list := as\<rparr>)"
    have "blocked (st\<lparr>sleep_list := as\<rparr>) a" using Cons.prems(1) by (simp add: blocked_def is_thread_def)
    then have u: "thread_unblock a (st\<lparr>sleep_list := as\<rparr>) = Some ?st"
      using Cons.prems(3) by (intro thread_unblock_readied) simp_all
    have bl: "blocked ?st b" if "b \<in> set as" for b
    proof -
      have "blocked (st\<lparr>sleep_list := as\<rparr>) b" "b \<noteq> a"
        using that Cons.prems(1,2) by (auto simp: blocked_def is_thread_def)
      then show ?thesis by (rule blocked_readied)
    qed
    have due: "due ?st = due st" by (simp add: due_def[abs_def])
    have disj: "set [a] \<inter> set (takeWhile (due st) as) = {}"
      using Cons.prems(2) set_takeWhileD[of _ "due st" as] by auto
    have "wake_loop as ?st =
      Some ((readied (takeWhile (due ?st) as) ?st)\<lparr>sleep_list := dropWhile (due ?st) as\<rparr>)"
      by (rule Cons.IH) (use Cons.prems bl in auto)
    then show ?thesis
      using t d True u readied_append[OF disj, of st] unfolding due by simp
  qed
qed

lemma takeWhile_sorted_set:
  assumes "sorted_wrt (\<lambda>a b. f a \<le> (f b :: int)) xs"
  shows "set (takeWhile (\<lambda>x. f x \<le> k) xs) = {x \<in> set xs. f x \<le> k}"
    and "set (dropWhile (\<lambda>x. f x \<le> k) xs) = {x \<in> set xs. k < f x}"
  using assms by (induction xs) force+

lemma due_iff: "due st a \<longleftrightarrow> sint (ticks_of st a) \<le> sint (ticks st)"
  by (simp add: due_def word_sless_alt not_less)

lemma by_ticks_iff: "by_ticks st xs \<longleftrightarrow> sorted_wrt (\<lambda>a b. sint (ticks_of st a) \<le> sint (ticks_of st b)) xs"
  by (simp add: cmp_ticks_iff not_less)

lemma takeWhile_due:
  assumes "by_ticks st xs"
  shows "set (takeWhile (due st) xs) = {a \<in> set xs. due st a}"
    and "set (dropWhile (due st) xs) = {a \<in> set xs. \<not> due st a}"
  using takeWhile_sorted_set[of "\<lambda>a. sint (ticks_of st a)" xs "sint (ticks st)"] assms
  by (simp_all add: due_iff[abs_def] by_ticks_iff not_le cong: conj_cong)


section \<open>Properties\<close>

text \<open>A state in which thread 4096 runs and threads 8192 and 12288 sleep until ticks 5 and 9.\<close>

definition demo_thread :: "thread_status \<Rightarrow> u64 \<Rightarrow> thread" where
  "demo_thread s n = \<lparr>tid = 1, status = s, t_name = [], t_stack = 0, priority = 31,
     t_magic = THREAD_MAGIC, pagedir = 0, lock_list = [], file_list = [], t_fd = 2, child_list = [],
     parent = 0, t_cp = 0, executable = None, t_ticks = n, t_cwd = None, eax = 0, frames = []\<rparr>"

definition demo_io :: devs where
  "demo_io = (let q = \<lparr>q_lock = 104, not_full = None, not_empty = None, q_buf = replicate 64 0, q_head = 0, q_tail = 0\<rparr> in
     \<lparr>d_out = [], d_in = [], d_input = q, d_txq = q, d_mode = UNINIT,
      d_kbd = \<lparr>left_shift = False, right_shift = False, left_alt = False, right_alt = False,
        left_ctrl = False, right_ctrl = False, caps_lock = False, key_cnt = 0\<rparr>,
      d_vga = \<lparr>v_inited = False, v_cx = 0, v_cy = 0, v_fb = replicate 25 (replicate 80 (32, 7))\<rparr>,
      console_lock = 112, use_console_lock = False, console_lock_depth = 0, write_cnt = 0,
      intr_handlers = (\<lambda>v. None), idt = (\<lambda>v. 0), unexpected_cnt = (\<lambda>v. 0), page_fault_cnt = 0\<rparr>)"

definition demo_sched :: "vmem \<Rightarrow> fs \<Rightarrow> sched" where
  "demo_sched v f = \<lparr>threads = [4096 \<mapsto> demo_thread THREAD_RUNNING 0, 8192 \<mapsto> demo_thread THREAD_BLOCKED 5,
       12288 \<mapsto> demo_thread THREAD_BLOCKED 9],
     cur = 4096, ready_list = [], all_list = [4096, 8192, 12288], sleep_list = [8192, 12288],
     idle_thread = 0, initial_thread = 4096, next_tid = 2, idle_ticks = 0, kernel_ticks = 0,
     user_ticks = 0, thread_ticks = 0, intr_on = False, in_external_intr = True,
     yield_on_return = False, ticks = 4, semas = Map.empty, holder = Map.empty,
     conds = Map.empty, esp0 = 0, tid_lock = 100, children = Map.empty,
     pfiles = Map.empty, junk_status = 0, io = demo_io, mallocs = [], vm = v, kfs = f\<rparr>"

lemmas demo_sched_simps = demo_sched_def demo_thread_def is_thread_def blocked_def ticks_of_def
  cmp_ticks_def thread_elem_def elem_thread_def THREAD_MAGIC_def

lemma thread_tick_ok:
  assumes "thread_current st = Some c" "in_external_intr st"
  obtains st' where "thread_tick st = Some st'" "threads st' = threads st" "ticks st' = ticks st"
    "sleep_list st' = sleep_list st" "ready_list st' = ready_list st" "intr_on st' = intr_on st"
    "in_external_intr st'"
proof -
  have "\<exists>t. threads st c = Some t" using assms(1) by (auto simp: thread_current_iff)
  then obtain t where t: "threads st c = Some t" ..
  let ?s1 = "if c = idle_thread st then st\<lparr>idle_ticks := idle_ticks st + 1\<rparr>
    else if pagedir t \<noteq> 0 then st\<lparr>user_ticks := user_ticks st + 1\<rparr>
    else st\<lparr>kernel_ticks := kernel_ticks st + 1\<rparr>"
  let ?s2 = "?s1\<lparr>thread_ticks := thread_ticks ?s1 + 1\<rparr>"
  let ?s3 = "if thread_ticks ?s2 \<ge> TIME_SLICE then ?s2\<lparr>yield_on_return := True\<rparr> else ?s2"
  have "thread_tick st = Some ?s3"
    using assms t by (simp add: thread_tick_def Let_def intr_yield_on_return_def intr_context_def)
  then show ?thesis by (rule that) (use assms in simp_all)
qed

text \<open>
  C19: \<open>timer_interrupt\<close> wakes exactly the threads whose time has come, in the order of the
  sleep list: they are appended to the ready list and marked ready, the others keep sleeping,
  and the sleep list stays in the order of the wake-up times.
\<close>

theorem timer_interrupt_wakes_due:
  assumes "thread_current st = Some c" "in_external_intr st" "\<not> intr_on st"
    "by_ticks st (sleep_list st)" "distinct (sleep_list st)" "\<forall>a \<in> set (sleep_list st). blocked st a"
  shows "\<exists>st' woken. timer_interrupt st = Some st' \<and> ticks st' = ticks st + 1 \<and>
    sleep_list st = woken @ sleep_list st' \<and> ready_list st' = ready_list st @ woken \<and>
    set woken = {a \<in> set (sleep_list st). sint (ticks_of st a) \<le> sint (ticks st')} \<and>
    (\<forall>a \<in> set woken. map_option status (threads st' a) = Some THREAD_READY) \<and>
    by_ticks st' (sleep_list st')"
proof -
  let ?s0 = "st\<lparr>ticks := ticks st + 1\<rparr>"
  have "thread_current ?s0 = Some c" "in_external_intr ?s0"
    using assms(1,2) by (auto simp: thread_current_iff)
  then obtain s1 where s1: "thread_tick ?s0 = Some s1" "threads s1 = threads st" "ticks s1 = ticks st + 1"
    "sleep_list s1 = sleep_list st" "ready_list s1 = ready_list st" "\<not> intr_on s1"
    using assms(3) by (elim thread_tick_ok) simp_all
  let ?xs = "sleep_list st"
  have tk: "ticks_of s1 = ticks_of st" using s1(2) by (simp add: ticks_of_def[abs_def])
  have bl: "\<forall>a \<in> set ?xs. blocked s1 a" using assms(6) s1(2) by (simp add: blocked_def is_thread_def)
  let ?w = "takeWhile (due s1) ?xs" and ?s = "dropWhile (due s1) ?xs"
  let ?st' = "(readied ?w s1)\<lparr>sleep_list := ?s\<rparr>"
  have "timer_interrupt st = Some ?st'"
    using wake_loop_ok[OF bl assms(5) s1(6,4)] s1(1,4) by (simp add: timer_interrupt_def)
  moreover have "set ?w = {a \<in> set ?xs. sint (ticks_of st a) \<le> sint (ticks st + 1)}"
    using takeWhile_due(1)[of s1 ?xs] assms(4) s1(3) by (simp add: due_iff tk by_ticks_iff)
  moreover have "by_ticks ?st' ?s"
  proof -
    have t: "ticks_of ?st' = ticks_of st" using tk by simp
    have "sorted_wrt (\<lambda>a b. sint (ticks_of st a) \<le> sint (ticks_of st b)) (?w @ ?s)"
      using assms(4) by (simp add: by_ticks_iff)
    then show ?thesis unfolding by_ticks_iff t sorted_wrt_append by blast
  qed
  moreover have "\<forall>a \<in> set ?w. map_option status (threads ?st' a) = Some THREAD_READY"
    using bl set_takeWhileD[of _ "due s1" ?xs] by (fastforce simp: readied_def blocked_def)
  ultimately show ?thesis using s1(3,5) by (intro exI[of _ ?st'] exI[of _ ?w]) (simp add: readied_def)
qed

theorem timer_interrupt_wakes_due_witness:
  "\<forall>v f. \<exists>st'. timer_interrupt (demo_sched v f) = Some st' \<and> ready_list st' @ sleep_list st' = [8192, 12288]"
proof (intro allI)
  fix v f
  show "\<exists>st'. timer_interrupt (demo_sched v f) = Some st' \<and> ready_list st' @ sleep_list st' = [8192, 12288]"
    using timer_interrupt_wakes_due[of "demo_sched v f" 4096]
    by (auto simp: demo_sched_simps thread_current_iff)
qed

text \<open>
  inserting into the intrusive sleep list with \<open>list_insert_ordered\<close> and \<open>cmp_ticks\<close> is the
  insertion into the sequence of sleeping threads: the list in memory then represents
  \<open>insert_sleeper\<close>, every sleeper is still there, and the order by wake-up time is kept.
\<close>

theorem sleep_list_insert_refines:
  assumes "list_rep h l (map thread_elem xs)" "thread_elem a \<notin> cells l (map thread_elem xs)"
  shows "\<exists>h'. list_insert_ordered l (thread_elem a) (cmp_ticks st) h = Some h' \<and>
    list_rep h' l (map thread_elem (insert_sleeper st a xs)) \<and>
    mset (insert_sleeper st a xs) = add_mset a (mset xs) \<and>
    (by_ticks st xs \<longrightarrow> by_ticks st (insert_sleeper st a xs))"
proof -
  have "thread_elem a \<noteq> 0" by (simp add: thread_elem_def)
  then obtain h' where "list_insert_ordered l (thread_elem a) (cmp_ticks st) h = Some h'"
    "list_rep h' l (map thread_elem (insert_sleeper st a xs))"
    unfolding map_insert_sleeper using list_insert_ordered_rep[OF assms(1) _ assms(2)] by blast
  then show ?thesis using mset_insert_sleeper insert_sleeper_sorted by blast
qed

theorem sleep_list_insert_refines_witness:
  "\<forall>v f. \<exists>h h'. list_insert_ordered 100 (thread_elem 4096) (cmp_ticks (demo_sched v f)) h = Some h' \<and>
    list_rep h' 100 [thread_elem 4096]"
proof (intro allI)
  fix v f
  obtain h where "list_rep h 100 []" using list_init_rep[of 100] by auto
  then show "\<exists>h h'. list_insert_ordered 100 (thread_elem 4096) (cmp_ticks (demo_sched v f)) h = Some h' \<and>
    list_rep h' 100 [thread_elem 4096]"
    using sleep_list_insert_refines[of h 100 "[]" 4096 "demo_sched v f"]
    by (auto simp: cells_def thread_elem_def insert_sleeper_def)
qed

text \<open>
  the calibration tries each of the nine lower bits together with the highest bit only, not
  with the bits accepted before, so the accepted bits can add up to more loops than fit in a
  tick: on a machine on which more than 1600 loops are too many, \<open>loops_per_tick\<close> becomes 2046.
\<close>

theorem timer_calibrate_overshoots:
  "timer_calibrate (\<lambda>l. l > 1600) ((demo_sched v f)\<lparr>intr_on := True\<rparr>) = Some 2046"
proof -
  have "calibrate_loop (\<lambda>l. l > 1600) 1024 = Some 1024"
    by (subst calibrate_loop.simps) simp
  moreover have "refine_loop (\<lambda>l. l > 1600) 1024 9 (drop_bit 1 1024) 1024 = 2046"
    by code_simp
  ultimately show ?thesis by (simp add: timer_calibrate_def intr_get_level_def)
qed

end
