(* ===== verification/KArith.thy ===== *)
theory KArith imports OS_Prelude "HOL-Library.Signed_Division" begin

unbundle bit_operations_syntax

text \<open>
  64-bit division on the 32-bit target, \<open>lib/arithmetic.c\<close>: the routines that replace
  libgcc's.  Values are machine words.  \<open>divl\<close> is the processor's instruction, which traps
  (\<open>None\<close>) on a zero divisor and on a quotient of more than 32 bits; the lemmas show that the
  code never lets it trap.
\<close>

definition divl :: "u64 \<Rightarrow> u32 \<Rightarrow> u32 option" where
  "divl n d = do {
     ASSERT (d \<noteq> 0 \<and> n div ucast d < 2 ^ 32);
     Some (ucast (n div ucast d))
   }"

text \<open>One test of \<open>nlz\<close>: the count and the shifted value.  The last test only counts.\<close>

fun nlz_test :: "u32 \<Rightarrow> nat \<Rightarrow> nat \<times> u32 \<Rightarrow> nat \<times> u32" where
  "nlz_test c k (n, x) = (if x \<le> c then (n + k, push_bit k x) else (n, x))"

definition nlz :: "u32 \<Rightarrow> nat" where
  "nlz x =
     (let p = nlz_test 0x0000FFFF 16 (0, x);
          p = nlz_test 0x00FFFFFF 8 p;
          p = nlz_test 0x0FFFFFFF 4 p;
          (n, x) = nlz_test 0x3FFFFFFF 2 p
      in if x \<le> 0x7FFFFFFF then n + 1 else n)"

definition udiv64 :: "u64 \<Rightarrow> u64 \<Rightarrow> u64 option" where
  "udiv64 n d =
     (if drop_bit 32 d = 0 then do {
        let b = (push_bit 32 1 :: u64);
        let n1 = (ucast (drop_bit 32 n) :: u32);
        let n0 = (ucast n :: u32);
        let d0 = (ucast d :: u32);
        ASSERT (d0 \<noteq> 0);
        q \<leftarrow> divl (b * ucast (n1 mod d0) + ucast n0) d0;
        Some (ucast q + b * ucast (n1 div d0))
      }
      else if n < d then Some 0
      else do {
        let d1 = (ucast (drop_bit 32 d) :: u32);
        let s = nlz d1;
        q \<leftarrow> divl (drop_bit 1 n) (ucast (drop_bit 32 (push_bit s d)));
        let q = (drop_bit (31 - s) (ucast q) :: u64);
        Some (if n - (q - 1) * d < d then q - 1 else q)
      })"

definition umod64 :: "u64 \<Rightarrow> u64 \<Rightarrow> u32 option" where
  "umod64 n d = do { q \<leftarrow> udiv64 n d; Some (ucast (n - d * q)) }"

text \<open>The conversions of the most negative number wrap around, as on the target.\<close>

definition sdiv64 :: "u64 \<Rightarrow> u64 \<Rightarrow> u64 option" where
  "sdiv64 n d = do {
     let n_abs = (if 0 \<le>s n then n else - n);
     let d_abs = (if 0 \<le>s d then d else - d);
     q_abs \<leftarrow> udiv64 n_abs d_abs;
     Some (if (n <s 0) = (d <s 0) then q_abs else - q_abs)
   }"

definition smod64 :: "u64 \<Rightarrow> u64 \<Rightarrow> u32 option" where
  "smod64 n d = do { q \<leftarrow> sdiv64 n d; Some (ucast (n - d * q)) }"

text \<open>The entry points the compiler calls extend the 32-bit remainders to 64 bits.\<close>

definition divdi3 :: "u64 \<Rightarrow> u64 \<Rightarrow> u64 option" where
  "divdi3 n d = sdiv64 n d"

definition moddi3 :: "u64 \<Rightarrow> u64 \<Rightarrow> u64 option" where
  "moddi3 n d = map_option scast (smod64 n d)"

definition udivdi3 :: "u64 \<Rightarrow> u64 \<Rightarrow> u64 option" where
  "udivdi3 n d = udiv64 n d"

definition umoddi3 :: "u64 \<Rightarrow> u64 \<Rightarrow> u64 option" where
  "umoddi3 n d = map_option ucast (umod64 n d)"

section \<open>Leading zeros\<close>

lemma unat_u32_less: "unat (x :: u32) < 2 ^ 32"
  by (rule order_less_le_trans[OF unsigned_less]) simp

lemma unat_u64_less: "unat (x :: u64) < 2 ^ 64"
  by (rule order_less_le_trans[OF unsigned_less]) simp

lemma push_bit_le:
  fixes x :: u32
  assumes "unat x * 2 ^ k < 2 ^ 32"
  shows "unat (push_bit k x) = unat x * 2 ^ k"
proof -
  have "unat (push_bit k x) = take_bit 32 (unat x * 2 ^ k)"
    by (subst unsigned_push_bit_eq) (simp add: push_bit_eq_mult)
  then show ?thesis using assms by (simp add: take_bit_nat_eq_self)
qed

text \<open>One step of the binary search: \<open>x\<close> shifted by \<open>n\<close> so far.\<close>

definition nlz_inv :: "u32 \<Rightarrow> nat \<Rightarrow> nat \<Rightarrow> u32 \<Rightarrow> bool" where
  "nlz_inv x0 k n x \<longleftrightarrow> unat x = unat x0 * 2 ^ n \<and> 2 ^ k \<le> unat x"

lemma nlz_test_inv:
  assumes "nlz_inv x0 k n x" "k + j \<le> 32"  "unat c = 2 ^ (32 - j) - 1"
  shows "nlz_inv x0 (min (k + j) (32 - j)) (fst (nlz_test c j (n, x))) (snd (nlz_test c j (n, x)))"
proof (cases "x \<le> c")
  case True
  then have "unat x \<le> 2 ^ (32 - j) - 1" using assms(3) by (simp add: word_le_nat_alt)
  moreover have "(0::nat) < 2 ^ (32 - j)" by simp
  ultimately have "unat x < 2 ^ (32 - j)" by linarith
  then have "unat x * 2 ^ j < 2 ^ (32 - j) * 2 ^ j" by simp
  also have "(2::nat) ^ (32 - j) * 2 ^ j = 2 ^ 32" using assms(2) by (simp flip: power_add)
  finally have p: "unat (push_bit j x) = unat x * 2 ^ j" by (rule push_bit_le)
  have "(2::nat) ^ min (k + j) (32 - j) \<le> 2 ^ (k + j)" by simp
  also have "\<dots> \<le> unat x * 2 ^ j" using assms(1) by (simp add: nlz_inv_def power_add)
  finally have "2 ^ min (k + j) (32 - j) \<le> unat (push_bit j x)" unfolding p .
  moreover have "unat (push_bit j x) = unat x0 * 2 ^ (n + j)"
    using p assms(1) by (simp add: nlz_inv_def power_add)
  ultimately show ?thesis using True unfolding nlz_inv_def nlz_test.simps by (simp only: if_True fst_conv snd_conv)
next
  case False
  then have "2 ^ (32 - j) - 1 < unat x" using assms(3) by (simp add: word_le_nat_alt)
  then have "2 ^ (32 - j) \<le> unat x" by simp
  moreover have "(2::nat) ^ min (k + j) (32 - j) \<le> 2 ^ (32 - j)" by simp
  ultimately have "2 ^ min (k + j) (32 - j) \<le> unat x" using le_trans by blast
  then show ?thesis using False assms(1) unfolding nlz_inv_def by simp
qed

lemma nlz_ok:
  assumes "x \<noteq> 0"
  shows "nlz x < 32" "2 ^ 31 \<le> unat x * 2 ^ nlz x" "unat x * 2 ^ nlz x < 2 ^ 32"
proof -
  have step: "nlz_inv x (min (k + j) (32 - j)) (fst (nlz_test c j p)) (snd (nlz_test c j p))"
    if "nlz_inv x k (fst p) (snd p)" "k + j \<le> 32" "unat c = 2 ^ (32 - j) - 1" for k j c p
    using nlz_test_inv[OF that(1,2,3)] by simp
  define p1 where "p1 = nlz_test 0x0000FFFF 16 (0, x)"
  define p2 where "p2 = nlz_test 0x00FFFFFF 8 p1"
  define p3 where "p3 = nlz_test 0x0FFFFFFF 4 p2"
  define p4 where "p4 = nlz_test 0x3FFFFFFF 2 p3"
  define p5 where "p5 = nlz_test 0x7FFFFFFF 1 p4"
  have 0: "nlz_inv x 0 (fst (0, x)) (snd (0, x))"
    using assms by (simp add: nlz_inv_def Suc_leI unat_gt_0)
  have 1: "nlz_inv x 16 (fst p1) (snd p1)" using step[OF 0, of 16 "0xFFFF"] unfolding p1_def by simp
  have 2: "nlz_inv x 24 (fst p2) (snd p2)" using step[OF 1, of 8 "0xFFFFFF"] unfolding p2_def by simp
  have 3: "nlz_inv x 28 (fst p3) (snd p3)" using step[OF 2, of 4 "0xFFFFFFF"] unfolding p3_def by simp
  have 4: "nlz_inv x 30 (fst p4) (snd p4)" using step[OF 3, of 2 "0x3FFFFFFF"] unfolding p4_def by simp
  have 5: "nlz_inv x 31 (fst p5) (snd p5)" using step[OF 4, of 1 "0x7FFFFFFF"] unfolding p5_def by simp
  have n: "nlz x = fst p5"
    unfolding nlz_def p5_def Let_def p1_def[symmetric] p2_def[symmetric] p3_def[symmetric] p4_def[symmetric]
    by (cases p4) simp
  show a: "2 ^ 31 \<le> unat x * 2 ^ nlz x" using 5 unfolding n nlz_inv_def by simp
  show b: "unat x * 2 ^ nlz x < 2 ^ 32"
    using 5 unat_u32_less[of "snd p5"] unfolding n nlz_inv_def by simp
  show "nlz x < 32"
  proof (rule ccontr)
    assume "\<not> nlz x < 32"
    then have "(2::nat) ^ 32 \<le> 2 ^ nlz x" by (intro power_increasing) auto
    moreover have "1 \<le> unat x" using assms by (simp add: Suc_leI unat_gt_0)
    ultimately have "1 * 2 ^ 32 \<le> unat x * 2 ^ nlz x" by (intro mult_le_mono) auto
    then show False using b by simp
  qed
qed

section \<open>Unsigned division\<close>

lemma unat_drop32: "unat (drop_bit 32 (n :: u64)) = unat n div 2 ^ 32" "unat (drop_bit 32 (n :: u64)) < 2 ^ 32"
proof -
  show e: "unat (drop_bit 32 n) = unat n div 2 ^ 32" by (subst unat_drop_bit_eq) (simp add: drop_bit_eq_div)
  have "unat n < 2 ^ 64" by (rule unat_u64_less)
  then show "unat (drop_bit 32 n) < 2 ^ 32" unfolding e by (simp add: div_less_iff_less_mult)
qed

lemma unat_ucast32: "unat (ucast (n :: u64) :: u32) = unat n mod 2 ^ 32"
  by (simp add: unsigned_ucast_eq take_bit_eq_mod)

lemma unat_ucast64: "unat (ucast (n :: u32) :: u64) = unat n"
proof -
  have "unat n < 2 ^ 64" using unat_u32_less[of n] by simp
  then show ?thesis by (simp add: unsigned_ucast_eq take_bit_nat_eq_self)
qed

lemma unat_add64: "unat a + unat b < 2 ^ 64 \<Longrightarrow> unat (a + b) = unat a + unat (b :: u64)"
  by (simp add: unat_word_ariths)

lemma unat_mult64: "unat a * unat b < 2 ^ 64 \<Longrightarrow> unat (a * b) = unat a * unat (b :: u64)"
  by (simp add: unat_word_ariths)

lemma divl_ok:
  assumes "unat d \<noteq> 0" "unat n div unat d < 2 ^ 32"
  obtains q where "divl n d = Some q" "unat q = unat n div unat d"
proof -
  have u: "unat (n div ucast d) = unat n div unat d" by (simp add: unat_div unat_ucast64)
  then have "n div ucast d < 2 ^ 32" using assms(2) by (simp add: word_less_nat_alt)
  moreover have "d \<noteq> 0" using assms(1) by auto
  moreover have "unat (ucast (n div ucast d) :: u32) = unat n div unat d"
    using assms(2) by (simp add: unat_ucast32 u)
  ultimately show ?thesis using that by (simp add: divl_def)
qed

lemma udiv64_small:
  assumes "drop_bit 32 d = 0" "d \<noteq> 0"
  obtains q where "udiv64 n d = Some q" "unat q = unat n div unat d"
proof -
  define N D where "N = unat n" and "D = unat d"
  have "D < 2 ^ 32" using assms(1) unat_drop32(1)[of d] by (simp add: D_def div_eq_0_iff)
  have D0: "D \<noteq> 0" using assms(2) by (simp add: D_def unat_eq_zero)
  let ?n1 = "ucast (drop_bit 32 n) :: u32" and ?n0 = "ucast n :: u32" and ?d0 = "ucast d :: u32"
  have u: "unat ?n1 = N div 2 ^ 32" "unat ?n0 = N mod 2 ^ 32" "unat ?d0 = D"
    using unat_drop32[of n] \<open>D < 2 ^ 32\<close> by (simp_all add: unat_ucast32 N_def D_def)
  have N64: "N < 2 ^ 64" unfolding N_def by (rule unat_u64_less)
  let ?r = "N div 2 ^ 32 mod D"
  have r: "?r < D" using D0 by simp
  have b: "unat (push_bit 32 1 :: u64) = 2 ^ 32" by simp
  have small: "2 ^ 32 * ?r + N mod 2 ^ 32 < 2 ^ 32 * D"
  proof -
    have "2 ^ 32 * (?r + 1) \<le> 2 ^ 32 * D" using r by (intro mult_le_mono) auto
    moreover have "N mod 2 ^ 32 < 2 ^ 32" by simp
    ultimately show ?thesis by (simp add: algebra_simps)
  qed
  have lt64: "2 ^ 32 * ?r + N mod 2 ^ 32 < (2 ^ 64 :: nat)"
    using small \<open>D < 2 ^ 32\<close> by simp
  let ?x = "push_bit 32 1 * ucast (?n1 mod ?d0) + ucast ?n0 :: u64"
  have m: "unat (push_bit 32 1 * ucast (?n1 mod ?d0) :: u64) = 2 ^ 32 * ?r"
    using lt64 unat_mult64[of "push_bit 32 1" "ucast (?n1 mod ?d0)"] by (simp add: unat_ucast64 unat_mod u)
  have x: "unat ?x = 2 ^ 32 * ?r + N mod 2 ^ 32"
    using lt64 m unat_add64[of "push_bit 32 1 * ucast (?n1 mod ?d0)" "ucast ?n0"]
    by (simp add: unat_ucast64 u)
  have q1: "(2 ^ 32 * ?r + N mod 2 ^ 32) div D < 2 ^ 32"
    using small D0 by (simp add: div_less_iff_less_mult mult.commute)
  obtain q where q: "divl ?x ?d0 = Some q" "unat q = (2 ^ 32 * ?r + N mod 2 ^ 32) div D"
    using divl_ok[of ?d0 ?x] x u D0 q1 by auto
  have split: "N = D * (2 ^ 32 * (N div 2 ^ 32 div D)) + (2 ^ 32 * ?r + N mod 2 ^ 32)"
  proof -
    define a where "a = N div 2 ^ 32"
    have "N = 2 ^ 32 * a + N mod 2 ^ 32" by (simp add: a_def)
    moreover have "2 ^ 32 * a = 2 ^ 32 * (D * (a div D) + a mod D)" by simp
    ultimately show ?thesis unfolding a_def[symmetric] by (simp only: distrib_left mult.left_commute add.assoc)
  qed
  have Q: "N div D = 2 ^ 32 * (N div 2 ^ 32 div D) + unat q"
    unfolding q(2) by (subst split) (use D0 in simp)
  let ?res = "ucast q + push_bit 32 1 * ucast (?n1 div ?d0) :: u64"
  have "N div D \<le> N" by simp
  then have bound: "2 ^ 32 * (N div 2 ^ 32 div D) + unat q < 2 ^ 64" using Q N64 by linarith
  have "unat (push_bit 32 1 * ucast (?n1 div ?d0) :: u64) = 2 ^ 32 * (N div 2 ^ 32 div D)"
    using bound unat_mult64[of "push_bit 32 1" "ucast (?n1 div ?d0)"] by (simp add: unat_ucast64 unat_div u)
  then have "unat ?res = N div D"
    using bound Q unat_add64[of "ucast q" "push_bit 32 1 * ucast (?n1 div ?d0)"]
    by (simp add: unat_ucast64)
  moreover have "udiv64 n d = Some ?res"
    using assms(1) q(1) u(3) D0 by (auto simp: udiv64_def Let_def simp del: push_bit_of_1)
  ultimately show ?thesis using that by (simp add: N_def D_def)
qed

end
