(* ===== verification/KArithDiv.thy ===== *)
theory KArithDiv imports KArith begin

unbundle bit_operations_syntax

text \<open>
  The 64-bit division of \<open>lib/arithmetic.c\<close> is the division of the numbers: the estimate of the
  quotient from the leading 32 bits of the divisor is at most one too large, and the correction
  that follows makes it exact.
\<close>

section \<open>The estimate\<close>

lemma estimate_bounds:
  fixes N D s :: nat
  assumes N: "N < 2 ^ 64" and s: "s \<le> 31" and v: "2 ^ 31 \<le> D div 2 ^ (32 - s)"
  defines "w \<equiv> D div 2 ^ (32 - s) * 2 ^ (32 - s)"
  shows "N div D \<le> N div w" and "N div w \<le> N div D + 1"
proof -
  let ?p = "2 ^ (32 - s) :: nat" and ?Q = "N div D"
  have "63 - s = 31 + (32 - s)" using s by simp
  then have "(2 :: nat) ^ 31 * ?p = 2 ^ (63 - s)" by (simp only: power_add)
  moreover have "2 ^ 31 * ?p \<le> w" unfolding w_def using v by (rule mult_le_mono1)
  ultimately have wlo: "2 ^ (63 - s) \<le> w" by simp
  then have w0: "0 < w" by (metis gr0I not_one_le_zero one_le_numeral one_le_power order_trans)
  have wD: "w \<le> D" unfolding w_def by (simp add: div_times_less_eq_dividend)
  then show "?Q \<le> N div w" using w0 by (rule div_le_mono2[rotated])
  define e where "e = D mod ?p"
  have D: "D = w + e" unfolding w_def e_def by (rule div_mult_mod_eq[symmetric])
  have "e < ?p" unfolding e_def by simp
  then have e: "e + 1 \<le> ?p" by simp
  have p2: "(2 :: nat) ^ (63 - s) * 2 ^ (s + 1) = 2 ^ 64" using s by (simp flip: power_add)
  have "?Q * 2 ^ (63 - s) \<le> ?Q * D" using wlo wD by (intro mult_le_mono2) simp
  also have "\<dots> \<le> N" by simp
  also have "\<dots> < 2 ^ (s + 1) * 2 ^ (63 - s)" using N p2 by (simp add: mult.commute)
  finally have "?Q < 2 ^ (s + 1)" by simp
  then have Q: "?Q + 1 \<le> 2 ^ (s + 1)" by simp
  show "N div w \<le> ?Q + 1"
  proof (rule ccontr)
    assume "\<not> N div w \<le> ?Q + 1"
    then have "?Q + 2 \<le> N div w" by simp
    then have "(?Q + 2) * w \<le> N div w * w" by (rule mult_le_mono1)
    also have "\<dots> \<le> N" by simp
    also have "N < (?Q + 1) * D" using w0 wD by (simp add: dividend_less_div_times add.commute)
    finally have "w < (?Q + 1) * e" unfolding D by (simp add: algebra_simps)
    also have "\<dots> \<le> 2 ^ (s + 1) * e" using Q by (rule mult_le_mono1)
    finally have a: "w < 2 ^ (s + 1) * e" .
    have "2 ^ (s + 1) * (e + 1) \<le> 2 ^ (s + 1) * ?p" using e by (rule mult_le_mono2)
    also have "\<dots> = (2 :: nat) ^ 33" using s by (simp flip: power_add)
    finally have b: "2 ^ (s + 1) * e + 2 ^ (s + 1) \<le> 2 ^ 33" by (simp add: algebra_simps)
    show False
    proof (cases "s = 31")
      case True
      then show False using a b wlo by simp
    next
      case False
      then have "(2 :: nat) ^ 33 \<le> 2 ^ (63 - s)" using s by (intro power_increasing) simp_all
      then show False using a b wlo by linarith
    qed
  qed
qed

section \<open>A divisor of more than 32 bits\<close>

lemma scaled_divisor:
  fixes D s :: nat
  assumes s31: "s \<le> 31" and nz: "2 ^ 31 \<le> D div 2 ^ 32 * 2 ^ s" "D div 2 ^ 32 * 2 ^ s < 2 ^ 32"
  shows "D * 2 ^ s < 2 ^ 64" "D * 2 ^ s div 2 ^ 32 = D div 2 ^ (32 - s)"
    "2 ^ 31 \<le> D div 2 ^ (32 - s)" "D div 2 ^ (32 - s) < 2 ^ 32"
proof -
  have sp: "(2 :: nat) ^ 32 = 2 ^ s * 2 ^ (32 - s)" using s31 by (simp flip: power_add)
  have "D div 2 ^ 32 * 2 ^ s < 2 ^ (32 - s) * 2 ^ s" using nz(2) sp by (simp add: mult.commute)
  then have "D div 2 ^ 32 < 2 ^ (32 - s)" by simp
  then have "D < 2 ^ (32 - s) * 2 ^ 32" by (simp add: div_less_iff_less_mult)
  then have "D * 2 ^ s < 2 ^ (32 - s) * 2 ^ 32 * 2 ^ s" by simp
  also have "\<dots> = (2 :: nat) ^ 64" using s31 by (simp flip: power_add)
  finally show fits: "D * 2 ^ s < 2 ^ 64" .
  show v: "D * 2 ^ s div 2 ^ 32 = D div 2 ^ (32 - s)" unfolding sp by (simp add: mult.commute)
  show "D div 2 ^ (32 - s) < 2 ^ 32" using fits unfolding v[symmetric] by (simp add: div_less_iff_less_mult)
  have "D div 2 ^ 32 * 2 ^ s * 2 ^ (32 - s) \<le> D" unfolding mult.assoc sp[symmetric] by simp
  then have "D div 2 ^ 32 * 2 ^ s \<le> D div 2 ^ (32 - s)" by (simp add: less_eq_div_iff_mult_less_eq)
  then show "2 ^ 31 \<le> D div 2 ^ (32 - s)" using nz(1) by linarith
qed

text \<open>The estimate is the quotient of the dividend by the divisor without its low bits.\<close>

lemma estimate_value:
  assumes s: "s \<le> 31" and v: "unat v = V" "2 ^ 31 \<le> V"
  obtains q0 where "divl (drop_bit 1 n) v = Some q0"
    "unat (drop_bit (31 - s) (ucast q0) :: u64) = unat n div (V * 2 ^ (32 - s))"
proof -
  have un: "unat (drop_bit 1 n) = unat n div 2" by (subst unat_drop_bit_eq) (simp add: drop_bit_eq_div)
  have "unat n div 2 < 2 ^ 32 * 2 ^ 31" using unat_u64_less[of n] by simp
  also have "\<dots> \<le> 2 ^ 32 * V" using v by simp
  finally have "unat n div 2 div V < 2 ^ 32" using v by (simp add: div_less_iff_less_mult mult.commute)
  then obtain q0 where q0: "divl (drop_bit 1 n) v = Some q0" "unat q0 = unat n div 2 div V"
    using divl_ok[of v "drop_bit 1 n"] un v by auto
  have "32 - s = Suc (31 - s)" using s by simp
  then have p: "(2 :: nat) * (V * 2 ^ (31 - s)) = V * 2 ^ (32 - s)" by (simp only: power_Suc)
  have "unat (drop_bit (31 - s) (ucast q0) :: u64) = unat q0 div 2 ^ (31 - s)"
    by (subst unat_drop_bit_eq) (simp only: drop_bit_eq_div unat_ucast64)
  also have "\<dots> = unat n div (V * 2 ^ (32 - s))" unfolding q0(2) p[symmetric] by (simp only: div_mult2_eq)
  finally show thesis using that q0(1) by blast
qed

text \<open>The correction: an estimate that is exact or one too large gives the quotient.\<close>

lemma corrected_estimate:
  fixes n d q :: u64
  assumes "0 < unat d" "unat d \<le> unat n" "unat n div unat d \<le> unat q" "unat q \<le> unat n div unat d + 1"
  shows "unat (if n - (q - 1) * d < d then q - 1 else q) = unat n div unat d"
proof -
  define N D where "N = unat n" and "D = unat d"
  note a = assms[folded N_def D_def]
  have Q1: "1 \<le> N div D" using a(1,2) by (simp add: Suc_le_eq div_greater_zero_iff)
  then have q1: "1 \<le> unat q" using a(3) by simp
  then have uq1: "unat (q - 1) = unat q - 1" by (intro unat_minus_one) auto
  have "(unat q - 1) * D \<le> N div D * D" using a(4) by (intro mult_le_mono1) simp
  then have le: "(unat q - 1) * D \<le> N" using div_times_less_eq_dividend[of N D] by linarith
  moreover have "N < 2 ^ 64" unfolding N_def by (rule unat_u64_less)
  ultimately have m: "unat ((q - 1) * d) = (unat q - 1) * D"
    using unat_mult64[of "q - 1" d] uq1 by (simp add: D_def)
  have sub: "unat (n - (q - 1) * d) = N - (unat q - 1) * D"
    using m le by (simp add: unat_sub word_le_nat_alt N_def)
  show ?thesis
  proof (cases "unat q = N div D")
    case True
    have "N div D * D = (N div D - 1) * D + D" using Q1 by (cases "N div D") simp_all
    then have "N - (N div D - 1) * D = N mod D + D" using div_mult_mod_eq[of N D] by linarith
    then have "\<not> n - (q - 1) * d < d" using sub True by (simp add: word_less_nat_alt D_def)
    then show ?thesis using True by (simp add: N_def D_def)
  next
    case False
    then have u: "unat q = N div D + 1" using a(3,4) by linarith
    then have "unat (n - (q - 1) * d) = N mod D" using sub by (simp add: minus_div_mult_eq_mod)
    then have "n - (q - 1) * d < d" using a(1) by (simp add: word_less_nat_alt D_def[symmetric])
    then show ?thesis using uq1 u by (simp add: N_def D_def)
  qed
qed

lemma udiv64_large:
  assumes "drop_bit 32 d \<noteq> 0" "d \<le> n"
  obtains q where "udiv64 n d = Some q" "unat q = unat n div unat d"
proof -
  define d1 where "d1 = (ucast (drop_bit 32 d) :: u32)"
  define s where "s = nlz d1"
  define V where "V = unat d div 2 ^ (32 - s)"
  have u1: "unat d1 = unat d div 2 ^ 32" using unat_drop32[of d] by (simp add: d1_def unat_ucast32)
  have "unat (drop_bit 32 d) \<noteq> 0" using assms(1) by (simp add: unat_eq_zero)
  then have d0: "0 < unat d" and "d1 \<noteq> 0" using u1 unat_drop32(1)[of d] by (auto intro: gr0I)
  note nz = nlz_ok[OF this(2), folded s_def, unfolded u1]
  have s31: "s \<le> 31" using nz(1) by simp
  note v = scaled_divisor[OF s31 nz(2,3), folded V_def]
  have "unat (push_bit s d) = take_bit 64 (unat d * 2 ^ s)"
    by (subst unsigned_push_bit_eq) (simp add: push_bit_eq_mult)
  then have "unat (push_bit s d) = unat d * 2 ^ s" using v(1) by (simp add: take_bit_nat_eq_self)
  then have uv: "unat (ucast (drop_bit 32 (push_bit s d)) :: u32) = V"
    using unat_drop32(1)[of "push_bit s d"] v(2,4) by (simp add: unat_ucast32)
  obtain q0 where q0: "divl (drop_bit 1 n) (ucast (drop_bit 32 (push_bit s d))) = Some q0"
    and uq: "unat (drop_bit (31 - s) (ucast q0) :: u64) = unat n div (V * 2 ^ (32 - s))"
    using estimate_value[OF s31 uv v(3), of n] by blast
  define q where "q = (drop_bit (31 - s) (ucast q0) :: u64)"
  note est = estimate_bounds[OF unat_u64_less[of n] s31 v(3)[unfolded V_def], folded V_def, folded uq, folded q_def]
  have "udiv64 n d = Some (if n - (q - 1) * d < d then q - 1 else q)"
    using assms(1) assms(2)[THEN leD]
    unfolding udiv64_def Let_def d1_def[symmetric] s_def[symmetric] q0 by (simp add: q_def)
  moreover have "unat (if n - (q - 1) * d < d then q - 1 else q) = unat n div unat d"
    using assms(2)[unfolded word_le_nat_alt] est by (intro corrected_estimate[OF d0])
  ultimately show thesis using that by blast
qed

lemma udiv64_div: "d \<noteq> 0 \<Longrightarrow> udiv64 n d = Some (n div d)"
proof -
  assume d: "d \<noteq> 0"
  obtain q where "udiv64 n d = Some q" "unat q = unat n div unat d"
  proof (cases "drop_bit 32 d = 0")
    case True
    then show thesis using udiv64_small[OF True d, of n] that by blast
  next
    case False
    show thesis
    proof (cases "d \<le> n")
      case True
      then show thesis using udiv64_large[OF False True] that by blast
    next
      case lt: False
      then have "unat n div unat d = 0" by (simp add: word_le_nat_alt)
      moreover have "udiv64 n d = Some 0" using False lt by (simp add: udiv64_def not_le)
      ultimately show thesis using that[of 0] by simp
    qed
  qed
  then show ?thesis by (simp add: word_unat_eq_iff unat_div)
qed

section \<open>The entry points\<close>

lemma uint_abs: "uint (if 0 \<le>s n then n else - n) = \<bar>sint (n :: u64)\<bar>"
proof -
  have r: "- (2 ^ 63) \<le> sint n" "sint n < 2 ^ 63"
    using sint_greater_eq[of n] sint_less[of n] by simp_all
  have n: "word_of_int (sint n) = n" by simp
  show ?thesis
  proof (cases "0 \<le>s n")
    case True
    then have "0 \<le> sint n" by (simp add: word_sle_eq)
    moreover have "uint (word_of_int (sint n) :: u64) = sint n mod 2 ^ 64"
      by (simp only: uint_word_of_int) simp
    ultimately show ?thesis using True r unfolding n by simp
  next
    case False
    then have "sint n < 0" by (simp add: word_sle_eq)
    moreover have "uint (word_of_int (- sint n) :: u64) = (- sint n) mod 2 ^ 64"
      by (simp only: uint_word_of_int) simp
    moreover have "word_of_int (- sint n) = - n" by simp
    ultimately show ?thesis using False r by simp
  qed
qed

lemma sdiv64_div:
  assumes "d \<noteq> 0"
  shows "sdiv64 n d = Some (word_of_int (sint n sdiv sint d))"
proof -
  let ?n = "if 0 \<le>s n then n else - n" and ?d = "if 0 \<le>s d then d else - d"
  have "?d \<noteq> 0" using assms by simp
  moreover have "?n div ?d = word_of_int (\<bar>sint n\<bar> div \<bar>sint d\<bar>)"
    by (simp add: word_div_def flip: uint_abs)
  ultimately have q: "udiv64 ?n ?d = Some (word_of_int (\<bar>sint n\<bar> div \<bar>sint d\<bar>))"
    by (simp add: udiv64_div)
  have "sint d \<noteq> 0" using assms by (metis signed_0 signed_word_eqI)
  then have "word_of_int (sint n sdiv sint d) =
      (if (sint n < 0) = (sint d < 0) then word_of_int (\<bar>sint n\<bar> div \<bar>sint d\<bar>)
       else - word_of_int (\<bar>sint n\<bar> div \<bar>sint d\<bar>) :: u64)"
    by (cases "sint n" "0 :: int" rule: linorder_cases; cases "sint d" "0 :: int" rule: linorder_cases)
       (simp_all add: signed_divide_int_def)
  then show ?thesis unfolding sdiv64_def Let_def q by (simp add: word_sless_alt)
qed

lemma udiv64_zero: "udiv64 n 0 = None"
  by (simp add: udiv64_def Let_def)

lemma sdiv64_zero: "sdiv64 n 0 = None"
  by (simp add: sdiv64_def udiv64_zero)

text \<open>
  C27: The 64-bit division routines are division.  For every divisor but zero, \<open>__udivdi3\<close> returns
  the unsigned quotient, the processor's instruction never trapping on the way, and \<open>__divdi3\<close> the
  signed quotient rounded towards zero, wrapped around where the most negative number is divided
  by minus one.  \<open>__umoddi3\<close> returns only the low 32 bits of the remainder, since \<open>umod64\<close>
  narrows its result.  A zero divisor traps in each of them.
\<close>

theorem division_routines_divide:
  "(d \<noteq> 0 \<longrightarrow> udivdi3 n d = Some (n div d) \<and>
              divdi3 n d = Some (word_of_int (sint n sdiv sint d)) \<and>
              umoddi3 n d = Some (take_bit 32 (n mod d))) \<and>
   udivdi3 n 0 = None \<and> divdi3 n 0 = None \<and> umoddi3 n 0 = None"
proof -
  have "ucast (ucast (x :: u64) :: u32) = take_bit 32 x" for x 
    by (rule bit_word_eqI) (auto simp: bit_simps)
  moreover have "n - d * (n div d) = n mod d" by (simp add: minus_mult_div_eq_mod)
  ultimately show ?thesis
    by (simp add: udivdi3_def divdi3_def umoddi3_def umod64_def udiv64_div sdiv64_div udiv64_zero sdiv64_zero)
qed

theorem division_routines_divide_witness:
  "udivdi3 (2 ^ 63) (2 ^ 33) = Some (2 ^ 30) \<and> divdi3 (- 7) 2 = Some (- 3) \<and> umoddi3 (2 ^ 40) (2 ^ 50) = Some 0"
proof -
  have "udivdi3 (2 ^ 63) (2 ^ 33) = Some (2 ^ 63 div 2 ^ 33)"
    using division_routines_divide[of "2 ^ 33" "2 ^ 63"] by simp
  moreover have "divdi3 (- 7) 2 = Some (word_of_int (sint (- 7 :: u64) sdiv sint (2 :: u64)))"
    using division_routines_divide[of 2 "- 7"] by simp
  moreover have "umoddi3 (2 ^ 40) (2 ^ 50) = Some (take_bit 32 (2 ^ 40 mod 2 ^ 50))"
    using division_routines_divide[of "2 ^ 50" "2 ^ 40"] by simp
  ultimately show ?thesis by (simp add: signed_divide_int_def)
qed

end
