(* ===== verification/KPagingMap.thy ===== *)
theory KPagingMap imports KPaging begin

unbundle bit_operations_syntax

text \<open>
  What the page allocator and the page directories of theory KPaging promise: the pages in use
  are a set that allocation extends by unused pages and release restores, and a well-formed page
  directory is a map from user pages to frames that \<open>pagedir_set_page\<close> updates in one place.
\<close>

section \<open>Addresses and entries as numbers and bits\<close>

lemma PGMASK_mask: "PGMASK = mask 12"
  by (simp add: PGMASK_def mask_eq_exp_minus_1)

lemma PTE_ADDR_mask: "PTE_ADDR = NOT (mask 12)"
  by (simp add: PTE_ADDR_def mask_eq_exp_minus_1)

lemma PTMASK_mask: "PTMASK = push_bit 12 (mask 10)"
  by (simp add: PTMASK_def mask_eq_exp_minus_1)

lemma and_mask_take: "(a :: u32) AND mask n = take_bit n a"
  by (simp add: take_bit_eq_mask)

lemma drop_and_mask: "drop_bit k ((a :: u32) AND push_bit k (mask m)) = take_bit m (drop_bit k a)"
  by (rule bit_word_eqI) (auto simp: bit_simps dest: bit_imp_le_length)

lemma unat_pg_ofs: "unat (pg_ofs a) = unat a mod 4096"
  unfolding pg_ofs_def PGMASK_mask and_mask_take
  by (subst unsigned_take_bit_eq) (simp add: take_bit_eq_mod)

lemma unat_pg_no: "unat (pg_no a) = unat a div 4096"
  unfolding pg_no_def PGBITS_def by (subst unat_drop_bit_eq) (simp add: drop_bit_eq_div)

lemma unat_pd_no: "unat (pd_no a) = unat a div 2 ^ 22"
  unfolding pd_no_def PDSHIFT_def by (subst unat_drop_bit_eq) (simp add: drop_bit_eq_div)

lemma unat_pt_no: "unat (pt_no a) = unat a div 4096 mod 1024"
  unfolding pt_no_def PTMASK_mask PTSHIFT_def drop_and_mask
  by (subst unsigned_take_bit_eq, subst unat_drop_bit_eq) (simp add: drop_bit_eq_div take_bit_eq_mod)

lemma aligned_bits: "pg_ofs p = 0 \<Longrightarrow> n < 12 \<Longrightarrow> \<not> bit p n"
  unfolding pg_ofs_def PGMASK_mask and_mask_take by (metis bit_0_eq bit_take_bit_iff bot_apply bot_bool_def)

lemma aligned_and_addr: "pg_ofs p = 0 \<Longrightarrow> p AND PTE_ADDR = p"
  unfolding PTE_ADDR_mask
  by (rule bit_word_eqI) (use aligned_bits[of p] in \<open>auto simp: bit_simps simp del: mask_numeral\<close>)

lemma and_addr_or:
  assumes "pg_ofs p = 0" "f AND PTE_ADDR = 0"
  shows "(p OR f) AND PTE_ADDR = p"
  using assms by (simp add: bit.conj_disj_distrib2 aligned_and_addr)


section \<open>Pages\<close>

lemma mult_4096E: "(a :: nat) mod 4096 = 0 \<Longrightarrow> (\<And>k. a = 4096 * k \<Longrightarrow> thesis) \<Longrightarrow> thesis"
  by (metis mult_div_mod_eq add_0_right)

lemma aligned_add: "(a :: nat) mod 4096 = 0 \<Longrightarrow> j < 1024 \<Longrightarrow> (a + 4 * j) div 4096 = a div 4096"
  by (erule mult_4096E) simp

lemma aligned_room: "(a :: nat) mod 4096 = 0 \<Longrightarrow> a < 4294967296 \<Longrightarrow> a + 4096 \<le> 4294967296"
  by (erule mult_4096E) simp

lemma aligned_sub_base: "(a :: nat) mod 4096 = 0 \<Longrightarrow> (a - 3221225472) mod 4096 = 0"
  using dvd_diff_nat[of 4096 a 3221225472] by (simp add: dvd_eq_mod_eq_0)

lemma aligned_div_inj: "(a :: nat) mod 4096 = 0 \<Longrightarrow> b mod 4096 = 0 \<Longrightarrow> a div 4096 = b div 4096 \<Longrightarrow> a = b"
  by (metis mult_div_mod_eq)

definition kpage :: "u32 \<Rightarrow> bool" where
  "kpage p \<longleftrightarrow> pg_ofs p = 0 \<and> PHYS_BASE \<le> p"

lemma kpage_unat: "kpage p \<longleftrightarrow> unat p mod 4096 = 0 \<and> 3221225472 \<le> unat p"
proof -
  have "pg_ofs p = 0 \<longleftrightarrow> unat p mod 4096 = 0" by (metis unat_pg_ofs unat_0 unat_eq_zero)
  then show ?thesis by (simp add: kpage_def word_le_nat_alt PHYS_BASE_def)
qed

lemma unat_less32: "unat (x :: u32) < 4294967296"
  using unsigned_less[of x] by simp

lemma unat_4_times: "j < 1024 \<Longrightarrow> unat (4 * j :: u32) = 4 * unat j"
  by (simp add: unat_word_ariths word_less_nat_alt)

lemma unat_slot:
  assumes "kpage p" "j < 1024"
  shows "unat (p + 4 * j) = unat p + 4 * unat j"
proof -
  have j: "unat j < 1024" using assms(2) by (simp add: word_less_nat_alt)
  have "unat p mod 4096 = 0" "unat p < 4294967296" using assms(1) unat_less32[of p] by (simp_all add: kpage_unat)
  then have "unat p + 4096 \<le> 4294967296" by (rule aligned_room)
  then have "unat p + 4 * unat j < 4294967296" using j by linarith
  then show ?thesis by (simp add: unat_word_ariths unat_4_times[OF assms(2)])
qed

lemma slot_page:
  assumes "kpage p" "j < 1024"
  shows "pg_no (p + 4 * j) = pg_no p"
proof (rule word_unat_eq_iff[THEN iffD2])
  have "unat p mod 4096 = 0" "unat j < 1024" using assms by (simp_all add: kpage_unat word_less_nat_alt)
  then have "(unat p + 4 * unat j) div 4096 = unat p div 4096" by (rule aligned_add)
  then show "unat (pg_no (p + 4 * j)) = unat (pg_no p)" by (simp only: unat_pg_no unat_slot[OF assms])
qed

lemma pg_no_inj:
  assumes "kpage p" "kpage q" "pg_no p = pg_no q"
  shows "p = q"
proof -
  have "unat p div 4096 = unat q div 4096" using assms(3) by (metis unat_pg_no)
  moreover have "unat p mod 4096 = 0" "unat q mod 4096 = 0" using assms(1,2) by (simp_all add: kpage_unat)
  ultimately have "unat p = unat q" by (metis aligned_div_inj)
  then show ?thesis by (simp add: word_unat_eq_iff)
qed

lemma slots_apart:
  assumes "kpage p" "kpage q" "i < 1024" "j < 1024" "p + 4 * i = q + 4 * j"
  shows "p = q" "i = j"
proof -
  show pq: "p = q" using assms slot_page by (metis pg_no_inj)
  have "4 * unat i = 4 * unat j"
    using assms(5) unat_slot[OF assms(1,3)] unat_slot[OF assms(2,4)] pq by simp
  then show "i = j" by (simp add: word_unat_eq_iff)
qed

lemma and_PTE_P: "x AND PTE_P \<noteq> 0 \<longleftrightarrow> bit x 0"
  by (simp add: PTE_P_def and_one_eq mod_2_eq_odd bit_0)

lemma kpage_phys:
  assumes "kpage p"
  shows "vtop p = Some (p - PHYS_BASE)" "ptov (p - PHYS_BASE) = Some p" "pg_ofs (p - PHYS_BASE) = 0"
proof -
  have u: "unat (p - PHYS_BASE) = unat p - 3221225472"
    using assms by (simp add: kpage_def unat_sub PHYS_BASE_def)
  show "vtop p = Some (p - PHYS_BASE)" using assms by (simp add: vtop_def is_kernel_vaddr_def kpage_def)
  have "unat (p - PHYS_BASE) < 3221225472" using u unat_less32[of p] by linarith
  then show "ptov (p - PHYS_BASE) = Some p" by (simp add: ptov_def word_less_nat_alt PHYS_BASE_def)
  have "unat p mod 4096 = 0" using assms by (simp add: kpage_unat)
  then have "(unat p - 3221225472) mod 4096 = 0" by (rule aligned_sub_base)
  then show "pg_ofs (p - PHYS_BASE) = 0" using unat_pg_ofs[of "p - PHYS_BASE"] u by (simp add: unat_eq_zero)
qed

definition pde_of :: "u32 \<Rightarrow> u32" where
  "pde_of p = (p - PHYS_BASE) OR PTE_U OR PTE_P OR PTE_W"

lemma flag_bits: "PTE_P AND PTE_ADDR = 0" "PTE_W AND PTE_ADDR = 0" "PTE_U AND PTE_ADDR = 0"
  by (simp_all add: pte_consts)

lemma pde_of_ok:
  assumes "kpage p"
  shows "pde_create p = Some (pde_of p)" "pde_get_pt (pde_of p) = Some p" "pde_of p \<noteq> 0"
    "bit (pde_of p) 0" "pde_of p AND PTE_ADDR = p - PHYS_BASE"
proof -
  note k = kpage_phys[OF assms]
  show "pde_create p = Some (pde_of p)" using assms k by (simp add: pde_create_def pde_of_def kpage_def)
  show a: "pde_of p AND PTE_ADDR = p - PHYS_BASE"
    using k(3) unfolding pde_of_def by (simp add: bit.conj_disj_distrib2 aligned_and_addr flag_bits)
  show b: "bit (pde_of p) 0" by (simp add: pde_of_def bit_or_iff PTE_P_def)
  then show "pde_of p \<noteq> 0" by auto
  show "pde_get_pt (pde_of p) = Some p" unfolding pde_get_pt_def a using b k by (simp add: and_PTE_P)
qed

lemma pte_user_ok:
  assumes "kpage p"
  shows "\<exists>e. pte_create_user p w = Some e \<and> bit e 0 \<and> pte_get_page e = Some p"
proof -
  note k = kpage_phys[OF assms]
  let ?e = "(p - PHYS_BASE) OR PTE_P OR (if w then PTE_W else 0) OR PTE_U"
  have "pte_create_user p w = Some ?e"
    using assms k by (simp add: pte_create_user_def pte_create_kernel_def kpage_def or.assoc)
  moreover have "bit ?e 0" by (simp add: bit_or_iff PTE_P_def)
  moreover have "?e AND PTE_ADDR = p - PHYS_BASE"
    using k(3) by (simp add: bit.conj_disj_distrib2 aligned_and_addr flag_bits)
  ultimately show ?thesis using k by (auto simp: pte_get_page_def)
qed


section \<open>Allocated pages\<close>

definition pool_page :: "pool \<Rightarrow> nat \<Rightarrow> u32" where
  "pool_page pl i = base pl + PAGE * of_nat i"

definition used_pages :: "pool \<Rightarrow> u32 set" where
  "used_pages pl = pool_page pl ` {i. i < bit_cnt (used_map pl) \<and> bitmap_abs (used_map pl) ! i}"

definition pool_pages :: "pool \<Rightarrow> u32 set" where
  "pool_pages pl = pool_page pl ` {i. i < bit_cnt (used_map pl)}"

text \<open>The \<open>n\<close> pages from the one with index \<open>r\<close> on.\<close>

definition run_pages :: "pool \<Rightarrow> nat \<Rightarrow> nat \<Rightarrow> u32 set" where
  "run_pages pl r n = pool_page pl ` {r..<r + n}"

definition pool_ok :: "pool \<Rightarrow> bool" where
  "pool_ok pl \<longleftrightarrow> bitmap_ok (used_map pl) \<and> kpage (base pl) \<and>
     unat (base pl) + 4096 * bit_cnt (used_map pl) < 4294967296"

lemma unat_pool_page:
  assumes "pool_ok pl" "i \<le> bit_cnt (used_map pl)"
  shows "unat (pool_page pl i) = unat (base pl) + 4096 * i"
proof -
  have b: "unat (base pl) + 4096 * i < 4294967296"
    using assms mult_le_mono2[of i "bit_cnt (used_map pl)" 4096] unfolding pool_ok_def by linarith
  then have "unat (of_nat i :: u32) = i" by (simp add: unat_of_nat)
  then have "unat (PAGE * of_nat i) = 4096 * i" using b by (simp add: unat_word_ariths PAGE_def)
  then show ?thesis using b unfolding pool_page_def by (simp add: unat_word_ariths)
qed

lemma pool_page_kpage:
  assumes "pool_ok pl" "i \<le> bit_cnt (used_map pl)"
  shows "kpage (pool_page pl i)"
proof -
  have "kpage (base pl)" using assms by (simp add: pool_ok_def)
  then obtain k where k: "unat (base pl) = 4096 * k" "3221225472 \<le> unat (base pl)"
    unfolding kpage_unat using mult_4096E by blast
  then have "unat (pool_page pl i) = 4096 * (k + i)" using unat_pool_page[OF assms] by simp
  then show ?thesis using k unat_pool_page[OF assms] unfolding kpage_unat by simp
qed

lemma pool_page_inj:
  assumes "pool_ok pl" "i \<le> bit_cnt (used_map pl)" "j \<le> bit_cnt (used_map pl)"
  shows "pool_page pl i = pool_page pl j \<longleftrightarrow> i = j"
proof
  assume "pool_page pl i = pool_page pl j"
  then have "unat (base pl) + 4096 * i = unat (base pl) + 4096 * j"
    unfolding unat_pool_page[OF assms(1,2), symmetric] unat_pool_page[OF assms(1,3), symmetric] by simp
  then show "i = j" by simp
qed simp

lemma kpage_nonzero: "kpage p \<Longrightarrow> p \<noteq> 0"
  by (auto simp: kpage_unat)

lemma used_pages_put:
  assumes "pool_ok pl" "r + cnt \<le> bit_cnt (used_map pl)" "bit_cnt m = bit_cnt (used_map pl)"
    "bitmap_abs m = put_bytes r (replicate cnt v) (bitmap_abs (used_map pl))"
  shows "used_pages (pl\<lparr>used_map := m\<rparr>) =
    (if v then used_pages pl \<union> run_pages pl r cnt else used_pages pl - run_pages pl r cnt)"
proof -
  let ?n = "bit_cnt (used_map pl)"
  let ?U = "{i. i < ?n \<and> bitmap_abs (used_map pl) ! i}" and ?R = "{r..<r + cnt}"
  have nth: "bitmap_abs m ! i = (if r \<le> i \<and> i < r + cnt then v else bitmap_abs (used_map pl) ! i)"
    if "i < ?n" for i
    using that assms(2,4) by (auto simp: nth_put_bytes simp del: nth_bitmap_abs)
  have pp: "pool_page (pl\<lparr>used_map := m\<rparr>) = pool_page pl" by (simp add: pool_page_def fun_eq_iff)
  have set: "{i. i < ?n \<and> bitmap_abs m ! i} = (if v then ?U \<union> ?R else ?U - ?R)"
    using nth assms(2) by (auto simp del: nth_bitmap_abs split: if_splits)
  have "inj_on (pool_page pl) {i. i \<le> ?n}" using pool_page_inj[OF assms(1)] by (auto intro!: inj_onI)
  then have "inj_on (pool_page pl) (?U \<union> ?R)" by (rule inj_on_subset) (use assms(2) in auto)
  then have "pool_page pl ` (?U - ?R) = pool_page pl ` ?U - pool_page pl ` ?R"
    by (rule inj_on_image_set_diff) auto
  then show ?thesis
    unfolding used_pages_def run_pages_def pp by (simp add: assms(3) set image_Un del: nth_bitmap_abs)
qed

definition pool_of :: "palloc_flags \<Rightarrow> vmem \<Rightarrow> pool" where
  "pool_of flags vm = (if PAL_USER flags then user_pool vm else kernel_pool vm)"

definition vm_ok :: "vmem \<Rightarrow> bool" where
  "vm_ok vm \<longleftrightarrow> pool_ok (kernel_pool vm) \<and> pool_ok (user_pool vm) \<and>
     pool_pages (kernel_pool vm) \<inter> pool_pages (user_pool vm) = {}"

text \<open>What an allocation and a release do to the pools.\<close>

definition set_used :: "palloc_flags \<Rightarrow> bitmap \<Rightarrow> vmem \<Rightarrow> vmem" where
  "set_used flags m vm = (if PAL_USER flags then vm\<lparr>user_pool := (user_pool vm)\<lparr>used_map := m\<rparr>\<rparr>
     else vm\<lparr>kernel_pool := (kernel_pool vm)\<lparr>used_map := m\<rparr>\<rparr>)"

lemma pool_of_set_used [simp]: "pool_of flags (set_used flags m vm) = (pool_of flags vm)\<lparr>used_map := m\<rparr>"
  by (simp add: pool_of_def set_used_def)

lemma pool_ok_map:
  "pool_ok pl \<Longrightarrow> bitmap_ok m \<Longrightarrow> bit_cnt m = bit_cnt (used_map pl) \<Longrightarrow> pool_ok (pl\<lparr>used_map := m\<rparr>)"
  by (simp add: pool_ok_def)

lemma vm_ok_set_used:
  assumes "vm_ok vm" "bitmap_ok m" "bit_cnt m = bit_cnt (used_map (pool_of flags vm))"
  shows "vm_ok (set_used flags m vm)"
  using assms pool_ok_map
  by (auto simp: vm_ok_def set_used_def pool_of_def pool_pages_def pool_page_def split: if_splits)

lemma vm_ok_pool: "vm_ok vm \<Longrightarrow> pool_ok (pool_of flags vm)"
  by (simp add: vm_ok_def pool_of_def)

lemma fill_pages_pools [simp]:
  "kernel_pool (fill_pages p n w vm) = kernel_pool vm" "user_pool (fill_pages p n w vm) = user_pool vm"
  "pool_of flags (fill_pages p n w vm) = pool_of flags vm" "vm_ok (fill_pages p n w vm) = vm_ok vm"
  "init_page_dir (fill_pages p n w vm) = init_page_dir vm"
  by (simp_all add: fill_pages_def pool_of_def vm_ok_def)

lemma palloc_get_ok:
  assumes "vm_ok vm" "0 < n" "\<not> PAL_ASSERT flags"
  obtains "palloc_get_multiple flags n vm = Some (0, set_used flags (used_map (pool_of flags vm)) vm)"
      "\<forall>j. \<not> is_run (bitmap_abs (used_map (pool_of flags vm))) j n False"
  | r m where "palloc_get_multiple flags n vm =
        Some (pool_page (pool_of flags vm) r,
          (if PAL_ZERO flags then fill_pages (pool_page (pool_of flags vm) r) n 0 (set_used flags m vm)
           else set_used flags m vm))"
      "r + n \<le> bit_cnt (used_map (pool_of flags vm))"
      "is_run (bitmap_abs (used_map (pool_of flags vm))) r n False"
      "bitmap_ok m" "bit_cnt m = bit_cnt (used_map (pool_of flags vm))"
      "bitmap_abs m = put_bytes r (replicate n True) (bitmap_abs (used_map (pool_of flags vm)))"
proof -
  let ?pl = "pool_of flags vm"
  have ok: "pool_ok ?pl" using assms(1) by (rule vm_ok_pool)
  then have bok: "bitmap_ok (used_map ?pl)" by (simp add: pool_ok_def)
  obtain r m where m: "bitmap_scan_and_flip (used_map ?pl) 0 n False = Some (r, m)" "bitmap_ok m"
    "bit_cnt m = bit_cnt (used_map ?pl)"
    "r = BITMAP_ERROR \<and> m = used_map ?pl \<and> (\<forall>j. 0 \<le> j \<longrightarrow> \<not> is_run (bitmap_abs (used_map ?pl)) j n False) \<or>
     r \<noteq> BITMAP_ERROR \<and> 0 \<le> r \<and> is_run (bitmap_abs (used_map ?pl)) r n False \<and>
       bitmap_abs m = put_bytes r (replicate n (\<not> False)) (bitmap_abs (used_map ?pl)) \<and>
       (\<forall>j. 0 \<le> j \<and> j < r \<longrightarrow> \<not> is_run (bitmap_abs (used_map ?pl)) j n False)"
    using bitmap_scan_and_flip_ok[OF bok, of 0 n False] by (metis le0)
  have run: "palloc_get_multiple flags n vm =
    (let pages = (if r \<noteq> BITMAP_ERROR then pool_page ?pl r else 0) in
     if pages \<noteq> 0 then Some (pages, if PAL_ZERO flags then fill_pages pages n 0 (set_used flags m vm)
       else set_used flags m vm)
     else Some (pages, set_used flags m vm))"
    using m(1) assms(2,3)
    by (simp add: palloc_get_multiple_def pool_of_def set_used_def Let_def pool_page_def)
  from m(4) show ?thesis
  proof (elim disjE conjE)
    assume "r = BITMAP_ERROR" "m = used_map ?pl" "\<forall>j. 0 \<le> j \<longrightarrow> \<not> is_run (bitmap_abs (used_map ?pl)) j n False"
    then show ?thesis using run by (intro that(1)) simp_all
  next
    assume a: "r \<noteq> BITMAP_ERROR" "is_run (bitmap_abs (used_map ?pl)) r n False"
      "bitmap_abs m = put_bytes r (replicate n (\<not> False)) (bitmap_abs (used_map ?pl))"
    then have le: "r + n \<le> bit_cnt (used_map ?pl)" by (simp add: is_run_def)
    then have "pool_page ?pl r \<noteq> 0" using pool_page_kpage[OF ok] kpage_nonzero by simp
    then show ?thesis using run a m(2,3) le by (intro that(2)[of r m]) (simp_all add: Let_def)
  qed
qed

lemma set_used_same [simp]: "set_used flags (used_map (pool_of flags vm)) vm = vm"
  by (simp add: set_used_def pool_of_def)

lemma page_from_pool_iff:
  assumes "pool_ok pl" "kpage p"
  shows "page_from_pool pl p \<longleftrightarrow> p \<in> pool_pages pl"
    and "p = pool_page pl i \<Longrightarrow> i < bit_cnt (used_map pl) \<Longrightarrow> unat (pg_no p - pg_no (base pl)) = i"
proof -
  let ?n = "bit_cnt (used_map pl)"
  have b: "unat (base pl) + 4096 * ?n < 4294967296" "kpage (base pl)" using assms(1) by (simp_all add: pool_ok_def)
  then have n: "?n < 4294967296" by linarith
  obtain k where k: "unat (base pl) = 4096 * k" using b(2) unfolding kpage_unat using mult_4096E by blast
  obtain j where j: "unat p = 4096 * j" using assms(2) unfolding kpage_unat using mult_4096E by blast
  have pn: "unat (pg_no p) = j" "unat (pg_no (base pl)) = k" using j k by (simp_all add: unat_pg_no)
  have kn: "k + ?n < 1048576" using b(1) k by linarith
  have e: "unat (pg_no (base pl) + of_nat ?n) = k + ?n"
    using pn kn n by (simp add: unat_word_ariths unat_of_nat)
  have pg: "unat (pool_page pl i) = 4096 * (k + i)" if "i \<le> ?n" for i
    using unat_pool_page[OF assms(1) that] k by simp
  have "page_from_pool pl p \<longleftrightarrow> k \<le> j \<and> j < k + ?n"
    by (simp add: page_from_pool_def Let_def bitmap_size_def word_le_nat_alt word_less_nat_alt pn e)
  also have "\<dots> \<longleftrightarrow> (\<exists>i < ?n. j = k + i)" by (metis le_iff_add nat_add_left_cancel_less)
  also have "\<dots> \<longleftrightarrow> (\<exists>i < ?n. p = pool_page pl i)"
  proof -
    have "j = k + i \<longleftrightarrow> p = pool_page pl i" if "i < ?n" for i
    proof -
      have "p = pool_page pl i \<longleftrightarrow> 4096 * j = 4096 * (k + i)"
        using pg[of i] that j by (simp only: word_unat_eq_iff less_imp_le)
      also have "\<dots> \<longleftrightarrow> j = k + i" by (subst nat_mult_eq_cancel1) simp_all
      finally show ?thesis by blast
    qed
    then show ?thesis by blast
  qed
  finally show "page_from_pool pl p \<longleftrightarrow> p \<in> pool_pages pl" by (auto simp: pool_pages_def)
  assume "p = pool_page pl i" "i < ?n"
  then have "j = k + i" using pg[of i] j by simp
  then show "unat (pg_no p - pg_no (base pl)) = i"
    using pn by (simp add: unat_sub word_le_nat_alt)
qed

lemma pool_release_ok:
  assumes "pool_ok pl" "r + n \<le> bit_cnt (used_map pl)" "0 < n"
    "\<forall>k < n. bitmap_abs (used_map pl) ! (r + k)"
  obtains m where "pool_release (pool_page pl r) n pl = Some (pl\<lparr>used_map := m\<rparr>)" "bitmap_ok m"
    "bit_cnt m = bit_cnt (used_map pl)"
    "bitmap_abs m = put_bytes r (replicate n False) (bitmap_abs (used_map pl))"
proof -
  have bok: "bitmap_ok (used_map pl)" using assms(1) by (simp add: pool_ok_def)
  have idx: "unat (pg_no (pool_page pl r) - pg_no (base pl)) = r"
    by (rule page_from_pool_iff(2)[OF assms(1) pool_page_kpage[OF assms(1)] refl]) (use assms(2,3) in simp_all)
  obtain m where m: "bitmap_set_multiple (used_map pl) r n False = Some m" "bitmap_ok m"
    "bit_cnt m = bit_cnt (used_map pl)"
    "bitmap_abs m = put_bytes r (replicate n False) (bitmap_abs (used_map pl))"
    using bitmap_set_multiple_ok[OF bok assms(2)] .
  have "bitmap_all (used_map pl) r n = Some True" using bitmap_all_ok[OF bok assms(2)] assms(4) by simp
  then show ?thesis using m idx by (intro that[of m]) (simp_all add: pool_release_def Let_def)
qed


text \<open>
  Releasing what was allocated: the page is recognised as one of its own pool, and the bitmap
  is what it was.
\<close>

lemma put_bytes_undo:
  assumes "is_run xs r n False"
  shows "put_bytes r (replicate n False) (put_bytes r (replicate n True) xs) = xs"
  using assms by (intro nth_equalityI) (auto simp: nth_put_bytes is_run_def le_iff_add)

lemma palloc_free_ok:
  assumes "vm_ok vm" "0 < n" "r + n \<le> bit_cnt (used_map (pool_of flags vm))"
    "\<forall>k < n. bitmap_abs (used_map (pool_of flags vm)) ! (r + k)"
  obtains m where "palloc_free_multiple (pool_page (pool_of flags vm) r) n vm =
      Some (fill_pages (pool_page (pool_of flags vm) r) n 0xcccccccc (set_used flags m vm))"
    "bitmap_ok m" "bit_cnt m = bit_cnt (used_map (pool_of flags vm))"
    "bitmap_abs m = put_bytes r (replicate n False) (bitmap_abs (used_map (pool_of flags vm)))"
proof -
  let ?pl = "pool_of flags vm" and ?p = "pool_page (pool_of flags vm) r"
  have ok: "pool_ok ?pl" using assms(1) by (rule vm_ok_pool)
  have kp: "kpage ?p" using pool_page_kpage[OF ok] assms(3) by simp
  have "?p \<in> pool_pages ?pl" using assms(2,3) by (auto simp: pool_pages_def)
  then have sel: "page_from_pool (kernel_pool vm) ?p \<longleftrightarrow> \<not> PAL_USER flags"
    "PAL_USER flags \<Longrightarrow> page_from_pool (user_pool vm) ?p"
    using page_from_pool_iff(1)[OF _ kp] assms(1) by (auto simp: vm_ok_def pool_of_def split: if_splits)
  obtain m where m: "pool_release ?p n ?pl = Some (?pl\<lparr>used_map := m\<rparr>)" "bitmap_ok m"
    "bit_cnt m = bit_cnt (used_map ?pl)"
    "bitmap_abs m = put_bytes r (replicate n False) (bitmap_abs (used_map ?pl))"
    using pool_release_ok[OF ok assms(3,2,4)] .
  have "pg_ofs ?p = 0" "?p \<noteq> 0" using kp kpage_nonzero[OF kp] by (simp_all add: kpage_def)
  then have "palloc_free_multiple ?p n vm = Some (fill_pages ?p n 0xcccccccc (set_used flags m vm))"
    using sel m(1) assms(2)
    by (cases "PAL_USER flags")
      (simp_all add: palloc_free_multiple_def Let_def pool_of_def set_used_def fill_pages_def cong: if_cong)
  then show ?thesis using m by (intro that[of m])
qed


section \<open>Page directories as maps\<close>

text \<open>
  A well-formed page directory: each entry of the user part is empty or names an allocated page
  table, and no page table is shared.
\<close>

definition pd_ok :: "vmem \<Rightarrow> u32 \<Rightarrow> bool" where
  "pd_ok vm pd \<longleftrightarrow> kpage pd \<and> pd \<in> used_pages (kernel_pool vm) \<and>
     (\<forall>i < 768. words vm (pd + 4 * i) = 0 \<or>
        (\<exists>pt. words vm (pd + 4 * i) = pde_of pt \<and> kpage pt \<and> pt \<in> used_pages (kernel_pool vm) \<and> pt \<noteq> pd)) \<and>
     (\<forall>i < 768. \<forall>j < 768. i \<noteq> j \<longrightarrow> words vm (pd + 4 * i) \<noteq> 0 \<longrightarrow>
        words vm (pd + 4 * i) \<noteq> words vm (pd + 4 * j))"

lemma pde_of_inj: "kpage p \<Longrightarrow> kpage q \<Longrightarrow> pde_of p = pde_of q \<Longrightarrow> p = q"
  using pde_of_ok(2) by (metis option.inject)

lemma pd_no_user: "is_user_vaddr va \<Longrightarrow> pd_no va < 768"
proof -
  assume "is_user_vaddr va"
  then have "unat va < 3221225472" by (simp add: is_user_vaddr_def PHYS_BASE_def word_less_nat_alt)
  then have "unat va div 2 ^ 22 < 768" by (simp add: div_less_iff_less_mult)
  then show ?thesis by (simp add: word_less_nat_alt unat_pd_no)
qed

lemma pt_no_less: "pt_no va < 1024"
  by (simp add: word_less_nat_alt unat_pt_no)

lemma unat_pd_no2: "unat (pd_no a) = unat a div 4096 div 1024"
  by (simp add: unat_pd_no div_mult2_eq[symmetric])

lemma pd_pt_no_inj: "pd_no a = pd_no b \<Longrightarrow> pt_no a = pt_no b \<Longrightarrow> pg_no a = pg_no b"
proof -
  assume "pd_no a = pd_no b" "pt_no a = pt_no b"
  then have "unat a div 4096 div 1024 = unat b div 4096 div 1024" "unat a div 4096 mod 1024 = unat b div 4096 mod 1024"
    using unat_pd_no2[of a] unat_pd_no2[of b] unat_pt_no[of a] unat_pt_no[of b] by simp_all
  then have "unat a div 4096 = unat b div 4096" by (metis mult_div_mod_eq)
  then show ?thesis by (simp add: word_unat_eq_iff unat_pg_no)
qed

text \<open>The page table for an address.\<close>

definition pt_at :: "vmem \<Rightarrow> u32 \<Rightarrow> u32 \<Rightarrow> u32" where
  "pt_at vm pd va = (words vm (pd + 4 * pd_no va) AND PTE_ADDR) + PHYS_BASE"

lemma pt_at_pde: "kpage pt \<Longrightarrow> words vm (pd + 4 * pd_no va) = pde_of pt \<Longrightarrow> pt_at vm pd va = pt"
  by (simp add: pt_at_def pde_of_ok(5))

lemma pd_okD:
  assumes "pd_ok vm pd" "is_user_vaddr va" "words vm (pd + 4 * pd_no va) \<noteq> 0"
  shows "words vm (pd + 4 * pd_no va) = pde_of (pt_at vm pd va)" "kpage (pt_at vm pd va)"
    "pt_at vm pd va \<in> used_pages (kernel_pool vm)" "pt_at vm pd va \<noteq> pd"
proof -
  obtain pt where "words vm (pd + 4 * pd_no va) = pde_of pt" "kpage pt" "pt \<in> used_pages (kernel_pool vm)" "pt \<noteq> pd"
    using assms pd_no_user[OF assms(2)] unfolding pd_ok_def by blast
  then show "words vm (pd + 4 * pd_no va) = pde_of (pt_at vm pd va)" "kpage (pt_at vm pd va)"
    "pt_at vm pd va \<in> used_pages (kernel_pool vm)" "pt_at vm pd va \<noteq> pd"
    using pt_at_pde by metis+
qed

lemma pt_at_inj:
  assumes "pd_ok vm pd" "is_user_vaddr va" "is_user_vaddr vb" "words vm (pd + 4 * pd_no va) \<noteq> 0"
    "words vm (pd + 4 * pd_no vb) \<noteq> 0" "pt_at vm pd va = pt_at vm pd vb"
  shows "pd_no va = pd_no vb"
proof (rule ccontr)
  assume "pd_no va \<noteq> pd_no vb"
  then have "words vm (pd + 4 * pd_no va) \<noteq> words vm (pd + 4 * pd_no vb)"
    using assms(1,4) pd_no_user[OF assms(2)] pd_no_user[OF assms(3)] unfolding pd_ok_def by blast
  then show False using pd_okD(1)[OF assms(1,2,4)] pd_okD(1)[OF assms(1,3,5)] assms(6) by simp
qed

lemma lookup_existing:
  assumes "pd_ok vm pd" "is_user_vaddr va" "words vm (pd + 4 * pd_no va) \<noteq> 0"
  shows "lookup_page pd va c vm = Some (pt_at vm pd va + 4 * pt_no va, vm)"
    "pt_at vm pd va + 4 * pt_no va \<noteq> 0"
proof -
  note d = pd_okD[OF assms]
  have "pd \<noteq> 0" using assms(1) kpage_nonzero by (auto simp: pd_ok_def)
  then show "lookup_page pd va c vm = Some (pt_at vm pd va + 4 * pt_no va, vm)"
    using assms(2,3) pde_of_ok(2)[OF d(2)] d(1) by (simp add: lookup_page_def Let_def)
  have "unat (pt_at vm pd va + 4 * pt_no va) \<noteq> 0"
    using unat_slot[OF d(2) pt_no_less] d(2) by (simp add: kpage_unat)
  then show "pt_at vm pd va + 4 * pt_no va \<noteq> 0" by auto
qed

lemma get_page_eq:
  assumes "pd_ok vm pd" "is_user_vaddr va"
  shows "pagedir_get_page pd va vm =
    (if words vm (pd + 4 * pd_no va) = 0 then Some 0
     else let w = words vm (pt_at vm pd va + 4 * pt_no va) in
       if bit w 0 then map_option (\<lambda>p. p + pg_ofs va) (pte_get_page w) else Some 0)"
proof (cases "words vm (pd + 4 * pd_no va) = 0")
  case True
  have "pd \<noteq> 0" using assms(1) kpage_nonzero by (auto simp: pd_ok_def)
  then show ?thesis using True assms(2) by (simp add: pagedir_get_page_def lookup_page_def Let_def)
next
  case False
  note l = lookup_existing[OF assms False]
  show ?thesis
    using False assms(2) l
    by (cases "pte_get_page (words vm (pt_at vm pd va + 4 * pt_no va))")
      (simp_all add: pagedir_get_page_def Let_def and_PTE_P)
qed

lemma store_simps [simp]:
  "kernel_pool (store a w vm) = kernel_pool vm" "user_pool (store a w vm) = user_pool vm"
  "words (store a w vm) b = (if b = a then w else words vm b)" "init_page_dir (store a w vm) = init_page_dir vm"
  "vm_ok (store a w vm) = vm_ok vm"
  by (simp_all add: store_def vm_ok_def)

text \<open>Writing into a page table changes no directory entry, and one page of the map.\<close>

lemma store_pte:
  assumes "pd_ok vm pd" "is_user_vaddr va" "words vm (pd + 4 * pd_no va) \<noteq> 0"
  defines "a \<equiv> pt_at vm pd va + 4 * pt_no va"
  shows "pd_ok (store a w vm) pd"
    and "is_user_vaddr vb \<Longrightarrow> pg_no vb \<noteq> pg_no va \<Longrightarrow>
      pagedir_get_page pd vb (store a w vm) = pagedir_get_page pd vb vm"
    and "pg_no vb = pg_no va \<Longrightarrow> is_user_vaddr vb \<Longrightarrow> pagedir_get_page pd vb (store a w vm) =
      (if bit w 0 then map_option (\<lambda>p. p + pg_ofs vb) (pte_get_page w) else Some 0)"
proof -
  note d = pd_okD[OF assms(1-3)]
  have kpd: "kpage pd" using assms(1) by (simp add: pd_ok_def)
  have pde: "words (store a w vm) (pd + 4 * i) = words vm (pd + 4 * i)" if "i < 768" for i
    using slots_apart(1)[OF kpd d(2) _ pt_no_less, of i va] that d(4) less_trans[OF that, of 1024]
    by (auto simp: a_def)
  show ok: "pd_ok (store a w vm) pd"
    using assms(1) pde unfolding pd_ok_def store_simps(1) by (metis (no_types, lifting))
  have pt: "pt_at (store a w vm) pd v = pt_at vm pd v" if "is_user_vaddr v" for v
    using pde[OF pd_no_user[OF that]] by (simp add: pt_at_def)
  show "pagedir_get_page pd vb (store a w vm) = pagedir_get_page pd vb vm"
    if vb: "is_user_vaddr vb" "pg_no vb \<noteq> pg_no va"
  proof (cases "words vm (pd + 4 * pd_no vb) = 0")
    case True
    then show ?thesis
      using get_page_eq[OF ok vb(1)] get_page_eq[OF assms(1) vb(1)] pde[OF pd_no_user[OF vb(1)]] by simp
  next
    case False
    note e = pd_okD[OF assms(1) vb(1) False]
    have "pt_at vm pd vb + 4 * pt_no vb \<noteq> a"
    proof
      assume "pt_at vm pd vb + 4 * pt_no vb = a"
      then have "pt_at vm pd vb = pt_at vm pd va" "pt_no vb = pt_no va"
        using slots_apart[OF e(2) d(2) pt_no_less pt_no_less] by (simp_all add: a_def)
      then show False using pt_at_inj[OF assms(1) vb(1) assms(2) False assms(3)] pd_pt_no_inj vb(2) by blast
    qed
    then show ?thesis
      using get_page_eq[OF ok vb(1)] get_page_eq[OF assms(1) vb(1)] pde[OF pd_no_user[OF vb(1)]] pt[OF vb(1)] False
      by simp
  qed
  assume vb: "pg_no vb = pg_no va" "is_user_vaddr vb"
  have "unat vb div 4096 = unat va div 4096" using vb(1) by (metis unat_pg_no)
  then have "unat (pd_no vb) = unat (pd_no va)" "unat (pt_no vb) = unat (pt_no va)"
    by (simp_all add: unat_pd_no2 unat_pt_no)
  then have n: "pd_no vb = pd_no va" "pt_no vb = pt_no va" by (simp_all add: word_unat_eq_iff)
  then have "pt_at vm pd vb = pt_at vm pd va" by (simp add: pt_at_def)
  then show "pagedir_get_page pd vb (store a w vm) =
      (if bit w 0 then map_option (\<lambda>p. p + pg_ofs vb) (pte_get_page w) else Some 0)"
    using get_page_eq[OF ok vb(2)] pde[OF pd_no_user[OF vb(2)]] pt[OF vb(2)] n assms(3)
    by (simp add: a_def Let_def)
qed


text \<open>A fresh page table: the allocated page is zeroed and entered into the directory.\<close>

lemma unat_plus_small: "unat (p :: u32) + unat d < 4294967296 \<Longrightarrow> unat (p + d) = unat p + unat d"
  by (simp add: unat_word_ariths)

lemma in_page:
  assumes "kpage p" "unat (a - p) < 4096"
  shows "pg_no a = pg_no p"
proof -
  let ?d = "a - p"
  have "unat p mod 4096 = 0" "unat p < 4294967296" using assms(1) unat_less32[of p] by (simp_all add: kpage_unat)
  then have room: "unat p + 4096 \<le> 4294967296" by (rule aligned_room)
  have ua: "unat a = unat p + unat ?d" using unat_plus_small[of p ?d] assms(2) room by simp
  obtain k where "unat p = 4096 * k" using assms(1) unfolding kpage_unat using mult_4096E by blast
  then have "unat a div 4096 = unat p div 4096" using ua assms(2) by simp
  then show ?thesis by (simp add: word_unat_eq_iff unat_pg_no)
qed

lemma fill_other_page:
  assumes "kpage p" "kpage q" "p \<noteq> q" "j < 1024"
  shows "words (fill_pages p 1 w vm) (q + 4 * j) = words vm (q + 4 * j)"
proof -
  have "\<not> unat (q + 4 * j - p) < 4096"
    using in_page[OF assms(1), of "q + 4 * j"] slot_page[OF assms(2,4)] pg_no_inj[OF assms(1,2)] assms(3)
    by metis
  then show ?thesis by (simp add: fill_pages_def)
qed

lemma fill_this_page:
  assumes "kpage p" "j < 1024"
  shows "words (fill_pages p 1 w vm) (p + 4 * j) = w"
proof -
  have "unat (p + 4 * j - p) < 4096" using assms(2) unat_4_times[OF assms(2)]
    by (simp add: word_less_nat_alt)
  then show ?thesis by (simp add: fill_pages_def)
qed

lemma lookup_create:
  assumes "vm_ok vm" "pd_ok vm pd" "is_user_vaddr va"
  obtains "lookup_page pd va True vm = Some (0, vm)"
  | vm1 where "lookup_page pd va True vm = Some (pt_at vm1 pd va + 4 * pt_no va, vm1)"
    "vm_ok vm1" "pd_ok vm1 pd" "words vm1 (pd + 4 * pd_no va) \<noteq> 0"
    "init_page_dir vm1 = init_page_dir vm"
    "\<forall>vb. is_user_vaddr vb \<longrightarrow> pagedir_get_page pd vb vm1 = pagedir_get_page pd vb vm"
    "vm1 = vm \<or> words vm1 (pt_at vm1 pd va + 4 * pt_no va) = 0"
proof (cases "words vm (pd + 4 * pd_no va) = 0")
  case False
  then show ?thesis using assms lookup_existing[OF assms(2,3) False] by (intro that(2)[of vm]) auto
next
  case True
  let ?k = "kernel_pool vm"
  have pool: "pool_of ZEROED vm = ?k" "\<not> PAL_ASSERT ZEROED" "PAL_ZERO ZEROED"
    by (simp_all add: pool_of_def ZEROED_def NO_FLAGS_def)
  have kpd: "kpage pd" "pd \<in> used_pages ?k" using assms(2) by (simp_all add: pd_ok_def)
  have pd0: "pd \<noteq> 0" using kpd(1) kpage_nonzero by blast
  have kok: "pool_ok ?k" using assms(1) by (simp add: vm_ok_def)
  show ?thesis
  proof (rule palloc_get_ok[OF assms(1) zero_less_one pool(2)])
    assume "palloc_get_multiple ZEROED 1 vm = Some (0, set_used ZEROED (used_map (pool_of ZEROED vm)) vm)"
    then show ?thesis
      using True assms(3) pd0 by (intro that(1)) (simp add: lookup_page_def Let_def palloc_get_page_def)
  next
    fix r m
    assume get: "palloc_get_multiple ZEROED 1 vm = Some (pool_page (pool_of ZEROED vm) r,
        if PAL_ZERO ZEROED then fill_pages (pool_page (pool_of ZEROED vm) r) 1 0 (set_used ZEROED m vm)
        else set_used ZEROED m vm)"
      and le: "r + 1 \<le> bit_cnt (used_map (pool_of ZEROED vm))"
      and run: "is_run (bitmap_abs (used_map (pool_of ZEROED vm))) r 1 False"
      and m: "bitmap_ok m" "bit_cnt m = bit_cnt (used_map (pool_of ZEROED vm))"
        "bitmap_abs m = put_bytes r (replicate 1 True) (bitmap_abs (used_map (pool_of ZEROED vm)))"
    let ?p = "pool_page ?k r" and ?s = "set_used ZEROED m vm"
    let ?f = "fill_pages ?p 1 0 ?s"
    let ?vm1 = "store (pd + 4 * pd_no va) (pde_of ?p) ?f"
    note le = le[unfolded pool] note run = run[unfolded pool] note m = m[unfolded pool]
    have kp: "kpage ?p" using pool_page_kpage[OF kok] le by simp
    have used: "used_pages (kernel_pool ?vm1) = used_pages ?k \<union> {?p}"
      using used_pages_put[OF kok le m(2,3)] by (simp add: set_used_def ZEROED_def NO_FLAGS_def run_pages_def)
    have fresh: "?p \<notin> used_pages ?k"
    proof
      assume "?p \<in> used_pages ?k"
      then obtain i where i: "i < bit_cnt (used_map ?k)" "bitmap_abs (used_map ?k) ! i" "?p = pool_page ?k i"
        unfolding used_pages_def by blast
      then have "i = r" using pool_page_inj[OF kok, of r i] le by simp
      then show False using i(2) run unfolding is_run_def by (metis add_0_right less_one)
    qed
    have pl: "pd_no va < 1024" using pd_no_user[OF assms(3)] by (rule less_trans) simp
    have ppd: "?p \<noteq> pd" using fresh kpd(2) by blast
    have sw: "words ?s = words vm" by (simp add: set_used_def)
    have pde: "words ?vm1 (pd + 4 * i) = (if i = pd_no va then pde_of ?p else words vm (pd + 4 * i))"
      if "i < 768" for i
    proof -
      have "i < 1024" "pd_no va < 1024" using that pd_no_user[OF assms(3)] by (auto intro: less_trans)
      then show ?thesis
        using fill_other_page[OF kp kpd(1) ppd] slots_apart(2)[OF kpd(1) kpd(1)] by (auto simp: sw)
    qed
    have run1: "lookup_page pd va True vm = Some (?p + 4 * pt_no va, ?vm1)"
      using True assms(3) pd0 get kp kpage_nonzero[OF kp] pde_of_ok[OF kp] pool
      by (simp add: lookup_page_def Let_def palloc_get_page_def)
    have ok1: "pd_ok ?vm1 pd"
    proof -
      have ex: "words vm (pd + 4 * i) = 0 \<or> (\<exists>pt. words vm (pd + 4 * i) = pde_of pt \<and> kpage pt \<and>
          pt \<in> used_pages ?k \<and> pt \<noteq> pd)" if "i < 768" for i
        using assms(2) that unfolding pd_ok_def by blast
      have new: "words vm (pd + 4 * i) \<noteq> pde_of ?p" if "i < 768" for i
        using ex[OF that] pde_of_inj[OF kp] fresh pde_of_ok(3)[OF kp] by metis
      have inj: "\<forall>i < 768. \<forall>j < 768. i \<noteq> j \<longrightarrow> words vm (pd + 4 * i) \<noteq> 0 \<longrightarrow>
        words vm (pd + 4 * i) \<noteq> words vm (pd + 4 * j)" using assms(2) unfolding pd_ok_def by blast
      have A: "words ?vm1 (pd + 4 * i) = 0 \<or> (\<exists>pt. words ?vm1 (pd + 4 * i) = pde_of pt \<and> kpage pt \<and>
          pt \<in> used_pages (kernel_pool ?vm1) \<and> pt \<noteq> pd)" if "i < 768" for i
        using ex[OF that] kp ppd unfolding pde[OF that] used by auto
      have B: "words ?vm1 (pd + 4 * i) \<noteq> words ?vm1 (pd + 4 * j)"
        if "i < 768" "j < 768" "i \<noteq> j" "words ?vm1 (pd + 4 * i) \<noteq> 0" for i j
        using that(3,4) new[OF that(1)] new[OF that(2)] inj that(1,2)
        unfolding pde[OF that(1)] pde[OF that(2)] by metis
      show ?thesis unfolding pd_ok_def using A B kpd used by blast
    qed
    have pdva: "words ?vm1 (pd + 4 * pd_no va) = pde_of ?p" using pde[OF pd_no_user[OF assms(3)]] by simp
    then have pt: "pt_at ?vm1 pd va = ?p" by (rule pt_at_pde[OF kp])
    have fz: "words ?vm1 (?p + 4 * pt_no vb) = 0" for vb
      using fill_this_page[OF kp pt_no_less] slots_apart(1)[OF kp kpd(1) pt_no_less pl] ppd by auto
    have gp: "pagedir_get_page pd vb ?vm1 = pagedir_get_page pd vb vm" if vb: "is_user_vaddr vb" for vb
    proof (cases "pd_no vb = pd_no va")
      case same: True
      have ptb: "pt_at ?vm1 pd vb = ?p" using pt by (simp only: pt_at_def same)
      show ?thesis
        unfolding get_page_eq[OF ok1 vb] get_page_eq[OF assms(2) vb] same True ptb fz Let_def by simp
    next
      case other: False
      have e: "words ?vm1 (pd + 4 * pd_no vb) = words vm (pd + 4 * pd_no vb)"
        using pde[OF pd_no_user[OF vb]] other by simp
      then have p: "pt_at ?vm1 pd vb = pt_at vm pd vb" by (simp add: pt_at_def)
      show ?thesis
      proof (cases "words vm (pd + 4 * pd_no vb) = 0")
        case z: True
        then show ?thesis using get_page_eq[OF ok1 vb] get_page_eq[OF assms(2) vb] e by simp
      next
        case nz: False
        note d = pd_okD[OF assms(2) vb nz]
        have "?p \<noteq> pt_at vm pd vb" using d(3) fresh by metis
        then have "words ?vm1 (pt_at vm pd vb + 4 * pt_no vb) = words vm (pt_at vm pd vb + 4 * pt_no vb)"
          using fill_other_page[OF kp d(2) _ pt_no_less] slots_apart(1)[OF d(2) kpd(1) pt_no_less pl] d(4)
          by (auto simp: sw)
        then show ?thesis using get_page_eq[OF ok1 vb] get_page_eq[OF assms(2) vb] e p by simp
      qed
    qed
    have "vm_ok ?s" by (rule vm_ok_set_used[OF assms(1) m(1)]) (simp add: pool m(2))
    then show ?thesis
      using run1 ok1 pdva pde_of_ok(3)[OF kp] gp pt fz[of va]
      by (intro that(2)[of ?vm1]) (simp_all add: set_used_def)
  qed
qed


text \<open>There is a present entry for the page of \<open>va\<close>.\<close>

definition present :: "vmem \<Rightarrow> u32 \<Rightarrow> u32 \<Rightarrow> bool" where
  "present vm pd va \<longleftrightarrow> words vm (pd + 4 * pd_no va) \<noteq> 0 \<and>
     words vm (pt_at vm pd va + 4 * pt_no va) AND PTE_P \<noteq> 0"

lemma set_page_ok:
  assumes "vm_ok vm" "pd_ok vm pd" "is_user_vaddr upage" "pg_ofs upage = 0" "kpage frame"
    "drop_bit 12 (frame - PHYS_BASE) < init_ram_pages vm" "pd \<noteq> init_page_dir vm"
    "\<not> present vm pd upage"
  obtains "pagedir_set_page pd upage frame w vm = Some (False, vm)"
  | vm' where "pagedir_set_page pd upage frame w vm = Some (True, vm')" "vm_ok vm'" "pd_ok vm' pd"
    "\<forall>va. is_user_vaddr va \<longrightarrow> pagedir_get_page pd va vm' =
      (if pg_no va = pg_no upage then Some (frame + pg_ofs va) else pagedir_get_page pd va vm)"
proof -
  obtain e where e: "pte_create_user frame w = Some e" "bit e 0" "pte_get_page e = Some frame"
    using pte_user_ok[OF assms(5)] by blast
  have guards: "pg_ofs frame = 0" "vtop frame = Some (frame - PHYS_BASE)"
    using assms(5) kpage_phys(1)[OF assms(5)] by (simp_all add: kpage_def)
  have start: "pagedir_set_page pd upage frame w vm =
    (lookup_page pd upage True vm \<bind> (\<lambda>(pte, vm). if pte \<noteq> 0 then do {
       ASSERT (words vm pte AND PTE_P = 0);
       e \<leftarrow> pte_create_user frame w;
       Some (True, store pte e vm)
     } else Some (False, vm)))"
    using assms(3,4,6,7) guards by (simp add: pagedir_set_page_def PTSHIFT_def)
  show ?thesis
  proof (rule lookup_create[OF assms(1-3)])
    assume "lookup_page pd upage True vm = Some (0, vm)"
    then show ?thesis using start by (intro that(1)) simp
  next
    fix vm1
    assume l: "lookup_page pd upage True vm = Some (pt_at vm1 pd upage + 4 * pt_no upage, vm1)"
      and v: "vm_ok vm1" "pd_ok vm1 pd" "words vm1 (pd + 4 * pd_no upage) \<noteq> 0"
      and g: "\<forall>vb. is_user_vaddr vb \<longrightarrow> pagedir_get_page pd vb vm1 = pagedir_get_page pd vb vm"
      and z: "vm1 = vm \<or> words vm1 (pt_at vm1 pd upage + 4 * pt_no upage) = 0"
    let ?a = "pt_at vm1 pd upage + 4 * pt_no upage"
    have nz: "?a \<noteq> 0" by (rule lookup_existing(2)[OF v(2) assms(3) v(3)])
    have np: "words vm1 ?a AND PTE_P = 0" using z v(3) assms(8) by (auto simp: present_def)
    have "pagedir_set_page pd upage frame w vm = Some (True, store ?a e vm1)"
      using start l nz np e(1) by simp
    moreover have "pd_ok (store ?a e vm1) pd" by (rule store_pte(1)[OF v(2) assms(3) v(3)])
    ultimately show ?thesis
      using v(1) store_pte(2,3)[OF v(2) assms(3) v(3), of _ e] e(2,3) g by (intro that(2)) auto
  qed
qed


section \<open>Properties\<close>

text \<open>A kernel whose kernel pool has handed out one page, a page directory without user pages.\<close>

definition demo_vm :: vmem where
  "demo_vm = \<lparr>words = (\<lambda>a. 0),
     kernel_pool = \<lparr>used_map = \<lparr>bit_cnt = 32, bits = [1]\<rparr>, base = 0xc0100000\<rparr>,
     user_pool = \<lparr>used_map = \<lparr>bit_cnt = 32, bits = [0]\<rparr>, base = 0xc0200000\<rparr>,
     init_page_dir = 0xc0000000, init_ram_pages = 1024, cr3 = 0\<rparr>"

lemma demo_vm_ok: "vm_ok demo_vm"
proof -
  have k: "kpage 0xc0100000" "kpage 0xc0200000" by (simp_all add: kpage_unat)
  have ok: "pool_ok (kernel_pool demo_vm)" "pool_ok (user_pool demo_vm)"
    using k by (simp_all add: pool_ok_def demo_vm_def bitmap_ok_def elem_cnt_alt)
  have cnt: "bit_cnt (used_map (kernel_pool demo_vm)) = 32" "bit_cnt (used_map (user_pool demo_vm)) = 32"
    by (simp_all add: demo_vm_def)
  have "pool_page (kernel_pool demo_vm) i \<noteq> pool_page (user_pool demo_vm) j" if "i < 32" "j < 32" for i j
  proof -
    have "unat (pool_page (kernel_pool demo_vm) i) = 3222274048 + 4096 * i"
      "unat (pool_page (user_pool demo_vm) j) = 3223322624 + 4096 * j"
      using unat_pool_page[OF ok(1), of i] unat_pool_page[OF ok(2), of j] that cnt by (simp_all add: demo_vm_def)
    then show ?thesis using that by auto
  qed
  then have "pool_pages (kernel_pool demo_vm) \<inter> pool_pages (user_pool demo_vm) = {}"
    using cnt by (fastforce simp: pool_pages_def)
  then show ?thesis using ok by (simp add: vm_ok_def)
qed

lemma demo_pd_ok: "pd_ok demo_vm 0xc0100000"
proof -
  have k: "kpage 0xc0100000" by (simp add: kpage_unat)
  have "bitmap_abs (used_map (kernel_pool demo_vm)) ! 0" by (simp add: demo_vm_def bit_at_def)
  moreover have "pool_page (kernel_pool demo_vm) 0 = 0xc0100000" by (simp add: pool_page_def demo_vm_def)
  ultimately have "0xc0100000 \<in> used_pages (kernel_pool demo_vm)"
    unfolding used_pages_def by (intro image_eqI[of _ _ 0]) (simp_all add: demo_vm_def)
  then show ?thesis using k by (simp add: pd_ok_def demo_vm_def)
qed

text \<open>
  C22: \<open>pagedir_set_page\<close> for an unmapped user page either fails and changes nothing that
  \<open>pagedir_get_page\<close> can see, or from then on every address in the page is translated to the
  frame with the same offset, and every other user address as before.  The directory stays
  well-formed, a page table allocated on the way included.
\<close>

theorem pagedir_set_get_page:
  assumes "vm_ok vm" "pd_ok vm pd" "is_user_vaddr upage" "pg_ofs upage = 0" "kpage frame"
    "drop_bit 12 (frame - PHYS_BASE) < init_ram_pages vm" "pd \<noteq> init_page_dir vm"
    "\<not> present vm pd upage"
  shows "\<exists>ok vm'. pagedir_set_page pd upage frame w vm = Some (ok, vm') \<and> vm_ok vm' \<and> pd_ok vm' pd \<and>
    (\<forall>va. is_user_vaddr va \<longrightarrow> pagedir_get_page pd va vm' =
      (if ok \<and> pg_no va = pg_no upage then Some (frame + pg_ofs va) else pagedir_get_page pd va vm))"
  by (rule set_page_ok[OF assms, of w]) (use assms(1,2) in auto)

theorem pagedir_set_get_page_witness:
  "\<exists>ok vm'. pagedir_set_page 0xc0100000 0x08048000 0xc0200000 True demo_vm = Some (ok, vm') \<and>
    pagedir_get_page 0xc0100000 0x08049000 vm' = pagedir_get_page 0xc0100000 0x08049000 demo_vm"
proof -
  have 1: "is_user_vaddr 0x08048000" "is_user_vaddr 0x08049000" by (simp_all add: is_user_vaddr_def PHYS_BASE_def)
  have 2: "pg_ofs 0x08048000 = 0" by (simp add: pg_ofs_def PGMASK_def)
  have 3: "kpage 0xc0200000" by (simp add: kpage_unat)
  have 4: "drop_bit 12 (0xc0200000 - PHYS_BASE) < init_ram_pages demo_vm" "0xc0100000 \<noteq> init_page_dir demo_vm"
    by (simp_all add: PHYS_BASE_def demo_vm_def)
  have 5: "\<not> present demo_vm 0xc0100000 0x08048000" by (simp add: present_def demo_vm_def)
  have 6: "pg_no 0x08049000 \<noteq> pg_no 0x08048000" by (simp add: pg_no_def PGBITS_def)
  show ?thesis using pagedir_set_get_page[OF demo_vm_ok demo_pd_ok 1(1) 2 3 4 5, of True] 1(2) 6 by metis
qed

text \<open>
  \<open>palloc_get_multiple\<close> hands out pages that nobody holds and marks exactly them as used;
  \<open>palloc_free_multiple\<close> finds the pool they came from and restores its bitmap.
\<close>

theorem palloc_free_undoes_get:
  assumes "vm_ok vm" "0 < n" "\<not> PAL_ASSERT flags"
    "palloc_get_multiple flags n vm = Some (p, vm1)" "p \<noteq> 0"
  shows "\<exists>r vm2. p = pool_page (pool_of flags vm) r \<and>
    run_pages (pool_of flags vm) r n \<inter> used_pages (pool_of flags vm) = {} \<and>
    used_pages (pool_of flags vm1) = used_pages (pool_of flags vm) \<union> run_pages (pool_of flags vm) r n \<and>
    vm_ok vm1 \<and> palloc_free_multiple p n vm1 = Some vm2 \<and>
    bitmap_abs (used_map (pool_of flags vm2)) = bitmap_abs (used_map (pool_of flags vm))"
  using assms(1-3)
proof (rule palloc_get_ok)
  assume "palloc_get_multiple flags n vm = Some (0, set_used flags (used_map (pool_of flags vm)) vm)"
  then show ?thesis using assms(4,5) by simp
next
  let ?pl = "pool_of flags vm"
  fix r m
  assume get: "palloc_get_multiple flags n vm = Some (pool_page ?pl r,
      if PAL_ZERO flags then fill_pages (pool_page ?pl r) n 0 (set_used flags m vm) else set_used flags m vm)"
    and le: "r + n \<le> bit_cnt (used_map ?pl)" and run: "is_run (bitmap_abs (used_map ?pl)) r n False"
    and m: "bitmap_ok m" "bit_cnt m = bit_cnt (used_map ?pl)"
      "bitmap_abs m = put_bytes r (replicate n True) (bitmap_abs (used_map ?pl))"
  have ok: "pool_ok ?pl" using assms(1) by (rule vm_ok_pool)
  have p: "p = pool_page ?pl r" and pl1: "pool_of flags vm1 = ?pl\<lparr>used_map := m\<rparr>" and vm1: "vm_ok vm1"
    using get assms(4) vm_ok_set_used[OF assms(1) m(1,2)] by (auto split: if_splits)
  have p1: "p = pool_page (pool_of flags vm1) r" unfolding p pl1 by (simp add: pool_page_def)
  have nth: "bitmap_abs m ! (r + k)" if "k < n" for k
    using that le by (simp add: m(3) nth_put_bytes del: nth_bitmap_abs)
  obtain m2 where m2: "palloc_free_multiple p n vm1 =
      Some (fill_pages p n 0xcccccccc (set_used flags m2 vm1))"
    "bitmap_abs m2 = put_bytes r (replicate n False) (bitmap_abs (used_map (pool_of flags vm1)))"
    by (rule palloc_free_ok[OF vm1 assms(2), of r flags]) (use le nth pl1 m(2) p1 in auto)
  have "bitmap_abs m2 = bitmap_abs (used_map ?pl)"
    unfolding m2(2) pl1 using put_bytes_undo[OF run] by (simp add: m(3))
  moreover have "run_pages ?pl r n \<inter> used_pages ?pl = {}"
  proof -
    have "\<not> bitmap_abs (used_map ?pl) ! i" if "r \<le> i" "i < r + n" for i
      using run that unfolding is_run_def by (metis le_iff_add nat_add_left_cancel_less)
    then show ?thesis
      unfolding run_pages_def used_pages_def using pool_page_inj[OF ok] le by fastforce
  qed
  moreover have "used_pages (pool_of flags vm1) = used_pages ?pl \<union> run_pages ?pl r n"
    unfolding pl1 using used_pages_put[OF ok le m(2,3)] by simp
  ultimately show ?thesis using p vm1 m2(1) by (intro exI[of _ r]) auto
qed

theorem palloc_free_undoes_get_witness:
  "\<exists>p vm1 vm2. palloc_get_multiple ZEROED 3 demo_vm = Some (p, vm1) \<and> palloc_free_multiple p 3 vm1 = Some vm2"
proof (rule palloc_get_ok[OF demo_vm_ok, of 3 ZEROED])
  assume "\<forall>j. \<not> is_run (bitmap_abs (used_map (pool_of ZEROED demo_vm))) j 3 False"
  moreover have "is_run (bitmap_abs (used_map (pool_of ZEROED demo_vm))) 1 3 False"
  proof -
    have "length (bitmap_abs (used_map (pool_of ZEROED demo_vm))) = 32"
      by (simp add: pool_of_def ZEROED_def NO_FLAGS_def demo_vm_def)
    moreover have "\<not> bit_at (used_map (pool_of ZEROED demo_vm)) (1 + k)" if "k < 3" for k
      using that by (simp add: pool_of_def ZEROED_def NO_FLAGS_def demo_vm_def bit_at_def bit_1_iff)
    ultimately show ?thesis by (simp add: is_run_def)
  qed
  ultimately show ?thesis by blast
next
  fix r m
  assume g: "palloc_get_multiple ZEROED 3 demo_vm = Some (pool_page (pool_of ZEROED demo_vm) r,
      if PAL_ZERO ZEROED then fill_pages (pool_page (pool_of ZEROED demo_vm) r) 3 0 (set_used ZEROED m demo_vm)
      else set_used ZEROED m demo_vm)"
    and le: "r + 3 \<le> bit_cnt (used_map (pool_of ZEROED demo_vm))"
  have "pool_page (pool_of ZEROED demo_vm) r \<noteq> 0"
    using pool_page_kpage[OF vm_ok_pool[OF demo_vm_ok]] le kpage_nonzero by simp
  then show ?thesis using palloc_free_undoes_get[OF demo_vm_ok _ _ g] g by (auto simp: ZEROED_def NO_FLAGS_def)
qed (simp_all add: ZEROED_def NO_FLAGS_def)

end
