(* ===== verification/KIntq.thy ===== *)
theory KIntq imports KTimer begin

text \<open>
  Interrupt queues, \<open>devices/intq.c\<close>: circular queues of bytes between threads and interrupt
  handlers.  A thread that finds the queue empty (or full) takes the lock of the queue and blocks;
  \<open>intq_getc_loop\<close> and \<open>intq_putc_loop\<close> are the tests of the loops and what follows them,
  \<open>intq_wait\<close> and \<open>intq_woken\<close> the rest of the body after \<open>lock_acquire\<close> and after \<open>wait\<close>.  The byte
  that \<open>intq_getc\<close> returns is left in the \<open>eax\<close> of the thread.
\<close>

definition get_q :: "queue_id \<Rightarrow> sched \<Rightarrow> intq" where
  "get_q q st = (case q of InputQ \<Rightarrow> d_input (io st) | TxQ \<Rightarrow> d_txq (io st))"

definition put_q :: "queue_id \<Rightarrow> intq \<Rightarrow> sched \<Rightarrow> sched" where
  "put_q q x st = (case q of InputQ \<Rightarrow> st\<lparr>io := (io st)\<lparr>d_input := x\<rparr>\<rparr>
                           | TxQ \<Rightarrow> st\<lparr>io := (io st)\<lparr>d_txq := x\<rparr>\<rparr>)"

definition upd_io :: "(devs \<Rightarrow> devs) \<Rightarrow> sched \<Rightarrow> sched" where
  "upd_io g st = st\<lparr>io := g (io st)\<rparr>"

definition next_pos :: "nat \<Rightarrow> nat" where
  "next_pos pos = (pos + 1) mod INTQ_BUFSIZE"

definition intq_init :: "queue_id \<Rightarrow> sched \<Rightarrow> sched option" where
  "intq_init q st = do {
     st \<leftarrow> lock_init (q_lock (get_q q st)) st;
     let x = (get_q q st)\<lparr>not_full := None, not_empty := None\<rparr>;
     let x = x\<lparr>q_head := 0, q_tail := 0\<rparr>;
     Some (put_q q x st)
   }"

definition intq_empty :: "queue_id \<Rightarrow> sched \<Rightarrow> bool option" where
  "intq_empty q st = do {
     ASSERT (\<not> intr_get_level st);
     Some (q_head (get_q q st) = q_tail (get_q q st))
   }"

definition intq_full :: "queue_id \<Rightarrow> sched \<Rightarrow> bool option" where
  "intq_full q st = do {
     ASSERT (\<not> intr_get_level st);
     Some (next_pos (q_head (get_q q st)) = q_tail (get_q q st))
   }"

section \<open>Waiting and signalling\<close>

text \<open>The condition is \<open>not_empty\<close> if \<open>w\<close> holds, and \<open>not_full\<close> otherwise.\<close>

definition waiter_of :: "bool \<Rightarrow> intq \<Rightarrow> addr option" where
  "waiter_of w x = (if w then not_empty x else not_full x)"

definition set_waiter :: "bool \<Rightarrow> addr option \<Rightarrow> intq \<Rightarrow> intq" where
  "set_waiter w a x = (if w then x\<lparr>not_empty := a\<rparr> else x\<lparr>not_full := a\<rparr>)"

definition wait :: "queue_id \<Rightarrow> bool \<Rightarrow> sched \<Rightarrow> sched option" where
  "wait q w st = do {
     ASSERT (\<not> intr_context st);
     ASSERT (\<not> intr_get_level st);
     e \<leftarrow> intq_empty q st;
     f \<leftarrow> intq_full q st;
     ASSERT ((w \<and> e) \<or> (\<not> w \<and> f));
     c \<leftarrow> thread_current st;
     thread_block (put_q q (set_waiter w (Some c) (get_q q st)) st)
   }"

definition signal :: "queue_id \<Rightarrow> bool \<Rightarrow> sched \<Rightarrow> sched option" where
  "signal q w st = do {
     ASSERT (\<not> intr_get_level st);
     e \<leftarrow> intq_empty q st;
     f \<leftarrow> intq_full q st;
     ASSERT ((w \<and> \<not> e) \<or> (\<not> w \<and> \<not> f));
     (case waiter_of w (get_q q st) of
        None \<Rightarrow> Some st
      | Some a \<Rightarrow> do {
          st \<leftarrow> thread_unblock a st;
          Some (put_q q (set_waiter w None (get_q q st)) st)
        })
   }"

text \<open>The body of the loops.\<close>

definition intq_block :: "queue_id \<Rightarrow> bool \<Rightarrow> sched \<Rightarrow> sched option" where
  "intq_block q w st = do {
     ASSERT (\<not> intr_context st);
     st \<leftarrow> call (IntqWait q w) st;
     lock_acquire (q_lock (get_q q st)) st
   }"

definition intq_wait :: "queue_id \<Rightarrow> bool \<Rightarrow> sched \<Rightarrow> sched option" where
  "intq_wait q w st = do {
     st \<leftarrow> return st;
     st \<leftarrow> call (IntqWoken q) st;
     wait q w st
   }"

definition intq_woken :: "queue_id \<Rightarrow> sched \<Rightarrow> sched option" where
  "intq_woken q st = do {
     st \<leftarrow> return st;
     lock_release (q_lock (get_q q st)) st
   }"

section \<open>Taking and adding a byte\<close>

text \<open>What follows the loop of \<open>intq_getc\<close>, and of \<open>intq_putc\<close>.\<close>

definition intq_take :: "queue_id \<Rightarrow> sched \<Rightarrow> (u8 \<times> sched) option" where
  "intq_take q st = do {
     let x = get_q q st;
     let byte = q_buf x ! q_tail x;
     let st = put_q q (x\<lparr>q_tail := next_pos (q_tail x)\<rparr>) st;
     st \<leftarrow> signal q False st;
     Some (byte, st)
   }"

definition intq_add :: "queue_id \<Rightarrow> u8 \<Rightarrow> sched \<Rightarrow> sched option" where
  "intq_add q byte st = do {
     let x = get_q q st;
     let x = x\<lparr>q_buf := (q_buf x)[q_head x := byte]\<rparr>;
     let x = x\<lparr>q_head := next_pos (q_head x)\<rparr>;
     signal q True (put_q q x st)
   }"

definition intq_getc :: "queue_id \<Rightarrow> sched \<Rightarrow> sched option" where
  "intq_getc q st = do {
     ASSERT (\<not> intr_get_level st);
     call (IntqGetc q) st
   }"

definition intq_getc_loop :: "queue_id \<Rightarrow> sched \<Rightarrow> sched option" where
  "intq_getc_loop q st = do {
     e \<leftarrow> intq_empty q st;
     if e then intq_block q True st
     else do {
       st \<leftarrow> return st;
       (byte, st) \<leftarrow> intq_take q st;
       t \<leftarrow> current st;
       Some (put_thread (cur st) (t\<lparr>eax := uint byte\<rparr>) st)
     }
   }"

definition intq_putc :: "queue_id \<Rightarrow> u8 \<Rightarrow> sched \<Rightarrow> sched option" where
  "intq_putc q byte st = do {
     ASSERT (\<not> intr_get_level st);
     call (IntqPutc q byte) st
   }"

definition intq_putc_loop :: "queue_id \<Rightarrow> u8 \<Rightarrow> sched \<Rightarrow> sched option" where
  "intq_putc_loop q byte st = do {
     f \<leftarrow> intq_full q st;
     if f then intq_block q False st
     else do { st \<leftarrow> return st; intq_add q byte st }
   }"

text \<open>
  The calls in interrupt handlers, and those after a test that the queue is not empty (not full):
  the loop is not entered, or its \<open>ASSERT (!intr_context ())\<close> fails.
\<close>

definition intq_getc_now :: "queue_id \<Rightarrow> sched \<Rightarrow> (u8 \<times> sched) option" where
  "intq_getc_now q st = do { e \<leftarrow> intq_empty q st; ASSERT (\<not> e); intq_take q st }"

definition intq_putc_now :: "queue_id \<Rightarrow> u8 \<Rightarrow> sched \<Rightarrow> sched option" where
  "intq_putc_now q byte st = do { f \<leftarrow> intq_full q st; ASSERT (\<not> f); intq_add q byte st }"

end
