(* ===== verification/KSerial.thy ===== *)
theory KSerial imports KIntq begin

unbundle bit_operations_syntax

text \<open>
  The serial port, \<open>devices/serial.c\<close>, and the input buffer that it shares with the keyboard,
  \<open>devices/input.c\<close>; and the interrupt vectors of \<open>threads/interrupt.c\<close> in which the drivers
  register.  \<open>serial_putc\<close> can wait for room in the transmit queue; the rest of its work is
  \<open>serial_putc_done\<close>.  A loop that polls the port reads the coming bytes of \<open>d_in\<close>.
\<close>

section \<open>Interrupt vectors\<close>

text \<open>
  \<open>stub\<close> is the address of the stub of a vector, in \<open>intr-stubs.S\<close>; it is a parameter.  The
  descriptor is built from two words, with the selector of the kernel's code segment, 0x08.
\<close>

definition make_gate :: "u32 \<Rightarrow> u32 \<Rightarrow> u32 \<Rightarrow> u64 option" where
  "make_gate function dpl type = do {
     ASSERT (function \<noteq> 0);
     ASSERT (dpl \<le> 3);
     ASSERT (type \<le> 15);
     let e0 = (function AND 0xffff) OR push_bit 16 0x08;
     let e1 = (function AND 0xffff0000) OR push_bit 15 1 OR push_bit 13 dpl OR push_bit 8 type;
     Some (ucast e0 OR push_bit 32 (ucast e1))
   }"

definition make_intr_gate :: "u32 \<Rightarrow> u32 \<Rightarrow> u64 option" where
  "make_intr_gate function dpl = make_gate function dpl 14"

definition make_trap_gate :: "u32 \<Rightarrow> u32 \<Rightarrow> u64 option" where
  "make_trap_gate function dpl = make_gate function dpl 15"

definition register_handler ::
  "(u8 \<Rightarrow> u32) \<Rightarrow> u8 \<Rightarrow> u32 \<Rightarrow> bool \<Rightarrow> handler_fun \<Rightarrow> sched \<Rightarrow> sched option" where
  "register_handler stub vec_no dpl level handler st = do {
     ASSERT (intr_handlers (io st) vec_no = None);
     g \<leftarrow> (if level then make_trap_gate (stub vec_no) dpl else make_intr_gate (stub vec_no) dpl);
     Some (upd_io (\<lambda>d. d\<lparr>idt := (idt d)(vec_no := g),
                         intr_handlers := (intr_handlers d)(vec_no := Some handler)\<rparr>) st)
   }"

definition intr_register_ext ::
  "(u8 \<Rightarrow> u32) \<Rightarrow> u8 \<Rightarrow> handler_fun \<Rightarrow> sched \<Rightarrow> sched option" where
  "intr_register_ext stub vec_no handler st = do {
     ASSERT (vec_no \<ge> 0x20 \<and> vec_no \<le> 0x2f);
     register_handler stub vec_no 0 False handler st
   }"

definition intr_register_int ::
  "(u8 \<Rightarrow> u32) \<Rightarrow> u8 \<Rightarrow> u32 \<Rightarrow> bool \<Rightarrow> handler_fun \<Rightarrow> sched \<Rightarrow> sched option" where
  "intr_register_int stub vec_no dpl level handler st = do {
     ASSERT (vec_no < 0x20 \<or> vec_no > 0x2f);
     register_handler stub vec_no dpl level handler st
   }"

section \<open>Registers of the serial port\<close>

definition IO_BASE :: u16 where "IO_BASE = 0x3f8"
definition RBR_REG :: u16 where "RBR_REG = IO_BASE + 0"
definition THR_REG :: u16 where "THR_REG = IO_BASE + 0"
definition IER_REG :: u16 where "IER_REG = IO_BASE + 1"
definition LS_REG :: u16 where "LS_REG = IO_BASE + 0"
definition MS_REG :: u16 where "MS_REG = IO_BASE + 1"
definition IIR_REG :: u16 where "IIR_REG = IO_BASE + 2"
definition FCR_REG :: u16 where "FCR_REG = IO_BASE + 2"
definition LCR_REG :: u16 where "LCR_REG = IO_BASE + 3"
definition MCR_REG :: u16 where "MCR_REG = IO_BASE + 4"
definition LSR_REG :: u16 where "LSR_REG = IO_BASE + 5"
definition IER_RECV :: u8 where "IER_RECV = 0x01"
definition IER_XMIT :: u8 where "IER_XMIT = 0x02"
definition LCR_N81 :: u8 where "LCR_N81 = 0x03"
definition LCR_DLAB :: u8 where "LCR_DLAB = 0x80"
definition MCR_OUT2 :: u8 where "MCR_OUT2 = 0x08"
definition LSR_DR :: u8 where "LSR_DR = 0x01"
definition LSR_THRE :: u8 where "LSR_THRE = 0x20"

section \<open>The serial port\<close>

definition input_full :: "sched \<Rightarrow> bool option" where
  "input_full st = do { ASSERT (\<not> intr_get_level st); intq_full InputQ st }"

definition set_serial :: "int \<Rightarrow> sched \<Rightarrow> sched option" where
  "set_serial bps st = do {
     let base_rate = 1843200 div 16;
     let divisor = (word_of_int (base_rate div bps) :: u16);
     ASSERT (bps \<ge> 300 \<and> bps \<le> 115200);
     let st = upd_io (outb LCR_REG (LCR_N81 OR LCR_DLAB)) st;
     let st = upd_io (outb LS_REG (ucast (divisor AND 0xff))) st;
     let st = upd_io (outb MS_REG (ucast (drop_bit 8 divisor))) st;
     Some (upd_io (outb LCR_REG LCR_N81) st)
   }"

definition write_ier :: "sched \<Rightarrow> sched option" where
  "write_ier st = do {
     ASSERT (\<not> intr_get_level st);
     let ier = 0;
     e \<leftarrow> intq_empty TxQ st;
     let ier = (if \<not> e then ier OR IER_XMIT else ier);
     f \<leftarrow> input_full st;
     let ier = (if \<not> f then ier OR IER_RECV else ier);
     Some (upd_io (outb IER_REG ier) st)
   }"

text \<open>The loop of \<open>putc_poll\<close>: what is left of the input after the first answer that says ready.\<close>

fun poll_loop :: "u8 list \<Rightarrow> u8 list option" where
  "poll_loop [] = None"
| "poll_loop (x # xs) = (if x AND LSR_THRE = 0 then poll_loop xs else Some xs)"

definition putc_poll :: "u8 \<Rightarrow> sched \<Rightarrow> sched option" where
  "putc_poll byte st = do {
     ASSERT (\<not> intr_get_level st);
     xs \<leftarrow> poll_loop (d_in (io st));
     Some (upd_io (outb THR_REG byte) (upd_io (\<lambda>d. d\<lparr>d_in := xs\<rparr>) st))
   }"

definition init_poll :: "sched \<Rightarrow> sched option" where
  "init_poll st = do {
     ASSERT (d_mode (io st) = UNINIT);
     let st = upd_io (outb IER_REG 0) st;
     let st = upd_io (outb FCR_REG 0) st;
     st \<leftarrow> set_serial 9600 st;
     let st = upd_io (outb MCR_REG MCR_OUT2) st;
     st \<leftarrow> intq_init TxQ st;
     Some (upd_io (\<lambda>d. d\<lparr>d_mode := POLL\<rparr>) st)
   }"

definition serial_init_queue :: "(u8 \<Rightarrow> u32) \<Rightarrow> sched \<Rightarrow> sched option" where
  "serial_init_queue stub st = do {
     st \<leftarrow> (if d_mode (io st) = UNINIT then init_poll st else Some st);
     ASSERT (d_mode (io st) = POLL);
     st \<leftarrow> intr_register_ext stub (0x20 + 4) SerialInterrupt st;
     let st = upd_io (\<lambda>d. d\<lparr>d_mode := QUEUE\<rparr>) st;
     let (old_level, st) = intr_disable st;
     st \<leftarrow> write_ier st;
     (l, st) \<leftarrow> intr_set_level old_level st;
     Some st
   }"

definition serial_putc :: "u8 \<Rightarrow> sched \<Rightarrow> sched option" where
  "serial_putc byte st = do {
     let (old_level, st) = intr_disable st;
     if d_mode (io st) \<noteq> QUEUE then do {
       st \<leftarrow> (if d_mode (io st) = UNINIT then init_poll st else Some st);
       st \<leftarrow> putc_poll byte st;
       (l, st) \<leftarrow> intr_set_level old_level st;
       Some st
     }
     else do {
       f \<leftarrow> intq_full TxQ st;
       st \<leftarrow> (if \<not> old_level \<and> f then do { (b, st) \<leftarrow> intq_getc_now TxQ st; putc_poll b st }
              else Some st);
       st \<leftarrow> call (SerialPutc old_level) st;
       intq_putc TxQ byte st
     }
   }"

definition serial_putc_done :: "bool \<Rightarrow> sched \<Rightarrow> sched option" where
  "serial_putc_done old_level st = do {
     st \<leftarrow> return st;
     st \<leftarrow> write_ier st;
     (l, st) \<leftarrow> intr_set_level old_level st;
     Some st
   }"

partial_function (option) flush_loop :: "sched \<Rightarrow> sched option" where
  "flush_loop st = do {
     e \<leftarrow> intq_empty TxQ st;
     if e then Some st
     else do { (b, st) \<leftarrow> intq_getc_now TxQ st; st \<leftarrow> putc_poll b st; flush_loop st }
   }"

definition serial_flush :: "sched \<Rightarrow> sched option" where
  "serial_flush st = do {
     let (old_level, st) = intr_disable st;
     st \<leftarrow> flush_loop st;
     (l, st) \<leftarrow> intr_set_level old_level st;
     Some st
   }"

definition serial_notify :: "sched \<Rightarrow> sched option" where
  "serial_notify st = do {
     ASSERT (\<not> intr_get_level st);
     if d_mode (io st) = QUEUE then write_ier st else Some st
   }"

section \<open>The input buffer\<close>

definition input_init :: "sched \<Rightarrow> sched option" where
  "input_init st = intq_init InputQ st"

definition input_putc :: "u8 \<Rightarrow> sched \<Rightarrow> sched option" where
  "input_putc key st = do {
     ASSERT (\<not> intr_get_level st);
     f \<leftarrow> intq_full InputQ st;
     ASSERT (\<not> f);
     st \<leftarrow> intq_putc_now InputQ key st;
     serial_notify st
   }"

text \<open>The key is left in \<open>eax\<close>.\<close>

definition input_getc :: "sched \<Rightarrow> sched option" where
  "input_getc st = do {
     let (old_level, st) = intr_disable st;
     st \<leftarrow> call (InputGetc old_level) st;
     intq_getc InputQ st
   }"

definition input_getc_done :: "bool \<Rightarrow> sched \<Rightarrow> sched option" where
  "input_getc_done old_level st = do {
     st \<leftarrow> return st;
     st \<leftarrow> serial_notify st;
     (l, st) \<leftarrow> intr_set_level old_level st;
     Some st
   }"

section \<open>The interrupt of the serial port\<close>

definition sched_inb :: "u16 \<Rightarrow> sched \<Rightarrow> (u8 \<times> sched) option" where
  "sched_inb port st = do { (v, d) \<leftarrow> inb port (io st); Some (v, st\<lparr>io := d\<rparr>) }"

partial_function (option) receive_loop :: "sched \<Rightarrow> sched option" where
  "receive_loop st = do {
     f \<leftarrow> input_full st;
     if f then Some st
     else do {
       (lsr, st) \<leftarrow> sched_inb LSR_REG st;
       if lsr AND LSR_DR = 0 then Some st
       else do {
         (key, st) \<leftarrow> sched_inb RBR_REG st;
         st \<leftarrow> input_putc key st;
         receive_loop st
       }
     }
   }"

partial_function (option) transmit_loop :: "sched \<Rightarrow> sched option" where
  "transmit_loop st = do {
     e \<leftarrow> intq_empty TxQ st;
     if e then Some st
     else do {
       (lsr, st) \<leftarrow> sched_inb LSR_REG st;
       if lsr AND LSR_THRE = 0 then Some st
       else do {
         (b, st) \<leftarrow> intq_getc_now TxQ st;
         transmit_loop (upd_io (outb THR_REG b) st)
       }
     }
   }"

definition serial_interrupt :: "sched \<Rightarrow> sched option" where
  "serial_interrupt st = do {
     (iir, st) \<leftarrow> sched_inb IIR_REG st;
     st \<leftarrow> receive_loop st;
     st \<leftarrow> transmit_loop st;
     write_ier st
   }"

end
