(* ===== verification/KConsole.thy ===== *)
theory KConsole imports KSerial begin

unbundle bit_operations_syntax

text \<open>
  The timer chip and the speaker, \<open>devices/pit.c\<close> and \<open>devices/speaker.c\<close>, the screen,
  \<open>devices/vga.c\<close>, and the console on top of the screen and the serial port,
  \<open>lib/kernel/console.c\<close>.  \<open>speaker_beep\<close> sleeps, and a byte can wait for room in the transmit
  queue of the serial port; what follows is a continuation.
\<close>

section \<open>Timer chip\<close>

definition PIT_PORT_CONTROL :: u16 where "PIT_PORT_CONTROL = 0x43"

definition PIT_PORT_COUNTER :: "nat \<Rightarrow> u16" where
  "PIT_PORT_COUNTER channel = 0x40 + of_nat channel"

definition PIT_HZ :: int where "PIT_HZ = 1193180"

definition pit_count :: "int \<Rightarrow> u16" where
  "pit_count frequency =
     (if frequency < 19 then 0
      else if frequency > PIT_HZ then 2
      else word_of_int ((PIT_HZ + frequency div 2) div frequency))"

definition pit_configure_channel :: "nat \<Rightarrow> nat \<Rightarrow> int \<Rightarrow> sched \<Rightarrow> sched option" where
  "pit_configure_channel channel mode frequency st = do {
     ASSERT (channel = 0 \<or> channel = 2);
     ASSERT (mode = 2 \<or> mode = 3);
     let count = pit_count frequency;
     let (old_level, st) = intr_disable st;
     let st = upd_io (outb PIT_PORT_CONTROL (push_bit 6 (of_nat channel) OR 0x30 OR push_bit 1 (of_nat mode))) st;
     let st = upd_io (outb (PIT_PORT_COUNTER channel) (ucast count)) st;
     let st = upd_io (outb (PIT_PORT_COUNTER channel) (ucast (drop_bit 8 count))) st;
     (l, st) \<leftarrow> intr_set_level old_level st;
     Some st
   }"

section \<open>Speaker\<close>

definition SPEAKER_PORT_GATE :: u16 where "SPEAKER_PORT_GATE = 0x61"
definition SPEAKER_GATE_ENABLE :: u8 where "SPEAKER_GATE_ENABLE = 0x03"

definition speaker_off :: "sched \<Rightarrow> sched option" where
  "speaker_off st = do {
     let (old_level, st) = intr_disable st;
     (g, st) \<leftarrow> sched_inb SPEAKER_PORT_GATE st;
     let st = upd_io (outb SPEAKER_PORT_GATE (g AND NOT SPEAKER_GATE_ENABLE)) st;
     (l, st) \<leftarrow> intr_set_level old_level st;
     Some st
   }"

definition speaker_on :: "int \<Rightarrow> sched \<Rightarrow> sched option" where
  "speaker_on frequency st =
     (if frequency \<ge> 20 \<and> frequency \<le> 20000 then do {
        let (old_level, st) = intr_disable st;
        st \<leftarrow> pit_configure_channel 2 3 frequency st;
        (g, st) \<leftarrow> sched_inb SPEAKER_PORT_GATE st;
        let st = upd_io (outb SPEAKER_PORT_GATE (g OR SPEAKER_GATE_ENABLE)) st;
        (l, st) \<leftarrow> intr_set_level old_level st;
        Some st
      }
      else speaker_off st)"

text \<open>
  250 milliseconds are whole ticks, so that \<open>timer_msleep\<close> does not read \<open>loops_per_tick\<close>, which
  is 0 here.
\<close>

definition speaker_beep :: "sched \<Rightarrow> sched option" where
  "speaker_beep st =
     (if intr_get_level st then do {
        st \<leftarrow> speaker_on 440 st;
        st \<leftarrow> call BeepDone st;
        (l, st) \<leftarrow> timer_msleep 0 250 st;
        Some st
      }
      else Some st)"

definition beep_done :: "sched \<Rightarrow> sched option" where
  "beep_done st = do { st \<leftarrow> return st; speaker_off st }"

section \<open>Screen\<close>

definition COL_CNT :: nat where "COL_CNT = 80"
definition ROW_CNT :: nat where "ROW_CNT = 25"
definition GRAY_ON_BLACK :: u8 where "GRAY_ON_BLACK = 0x07"

text \<open>\<open>ROUND_UP (x, step)\<close> of \<open>lib/round.h\<close>.\<close>

definition ROUND_UP :: "nat \<Rightarrow> nat \<Rightarrow> nat" where
  "ROUND_UP x step = DIV_ROUND_UP x step * step"

definition clear_row :: "nat \<Rightarrow> vga \<Rightarrow> vga" where
  "clear_row y v = v\<lparr>v_fb := (v_fb v)[y := replicate COL_CNT (32, GRAY_ON_BLACK)]\<rparr>"

definition newline :: "vga \<Rightarrow> vga" where
  "newline v = (let v = v\<lparr>v_cx := 0\<rparr>; v = v\<lparr>v_cy := v_cy v + 1\<rparr> in
     if v_cy v \<ge> ROW_CNT then
       let v = v\<lparr>v_cy := ROW_CNT - 1\<rparr>;
           v = v\<lparr>v_fb := take (ROW_CNT - 1) (tl (v_fb v)) @ drop (ROW_CNT - 1) (v_fb v)\<rparr>
       in clear_row (ROW_CNT - 1) v
     else v)"

definition upd_vga :: "(vga \<Rightarrow> vga) \<Rightarrow> sched \<Rightarrow> sched" where
  "upd_vga g st = upd_io (\<lambda>d. d\<lparr>d_vga := g (d_vga d)\<rparr>) st"

definition move_cursor :: "sched \<Rightarrow> sched" where
  "move_cursor st = (let v = d_vga (io st); cp = of_nat (v_cx v + COL_CNT * v_cy v) :: u16;
     st = upd_io (outw 0x3d4 (0x0e OR (cp AND 0xff00))) st
   in upd_io (outw 0x3d4 (0x0f OR push_bit 8 cp)) st)"

definition cls :: "sched \<Rightarrow> sched" where
  "cls st = (let st = upd_vga (\<lambda>v. fold clear_row [0..<ROW_CNT] v) st;
     st = upd_vga (\<lambda>v. v\<lparr>v_cx := 0, v_cy := 0\<rparr>) st
   in move_cursor st)"

definition find_cursor :: "sched \<Rightarrow> (nat \<times> nat \<times> sched) option" where
  "find_cursor st = do {
     let st = upd_io (outb 0x3d4 0x0e) st;
     (h, st) \<leftarrow> sched_inb 0x3d5 st;
     let cp = (push_bit 8 (ucast h) :: u16);
     let st = upd_io (outb 0x3d4 0x0f) st;
     (l, st) \<leftarrow> sched_inb 0x3d5 st;
     let cp = cp OR ucast l;
     Some (unat cp mod COL_CNT, unat cp div COL_CNT, st)
   }"

definition vga_init :: "sched \<Rightarrow> sched option" where
  "vga_init st =
     (if \<not> v_inited (d_vga (io st)) then do {
        (x, y, st) \<leftarrow> find_cursor st;
        Some (upd_vga (\<lambda>v. v\<lparr>v_cx := x, v_cy := y, v_inited := True\<rparr>) st)
      }
      else Some st)"

text \<open>
  The cases of \<open>vga_putc\<close> other than the bell and the form feed.  A cell outside the frame buffer
  is not written: \<open>None\<close>.
\<close>

definition vga_char :: "u8 \<Rightarrow> vga \<Rightarrow> vga option" where
  "vga_char c v =
     (if c = 10 then Some (newline v)
      else if c = 8 then Some (if v_cx v > 0 then v\<lparr>v_cx := v_cx v - 1\<rparr> else v)
      else if c = 13 then Some (v\<lparr>v_cx := 0\<rparr>)
      else if c = 9 then
        (let v = v\<lparr>v_cx := ROUND_UP (v_cx v + 1) 8\<rparr> in
         Some (if v_cx v \<ge> COL_CNT then newline v else v))
      else do {
        ASSERT (v_cy v < ROW_CNT \<and> v_cx v < COL_CNT);
        let v = v\<lparr>v_fb := (v_fb v)[v_cy v := (v_fb v ! v_cy v)[v_cx v := (c, GRAY_ON_BLACK)]]\<rparr>;
        let v = v\<lparr>v_cx := v_cx v + 1\<rparr>;
        Some (if v_cx v \<ge> COL_CNT then newline v else v)
      })"

definition vga_finish :: "bool \<Rightarrow> sched \<Rightarrow> sched option" where
  "vga_finish old_level st = do {
     (l, st) \<leftarrow> intr_set_level old_level (move_cursor st);
     Some st
   }"

definition vga_putc :: "u8 \<Rightarrow> sched \<Rightarrow> sched option" where
  "vga_putc c st = do {
     let (old_level, st) = intr_disable st;
     st \<leftarrow> vga_init st;
     if c = 7 then do {
       st \<leftarrow> call (VgaBell old_level) st;
       (l, st) \<leftarrow> intr_set_level old_level st;
       speaker_beep st
     }
     else if c = 12 then vga_finish old_level (cls st)
     else do {
       v \<leftarrow> vga_char c (d_vga (io st));
       vga_finish old_level (upd_vga (\<lambda>_. v) st)
     }
   }"

definition vga_bell_done :: "bool \<Rightarrow> sched \<Rightarrow> sched option" where
  "vga_bell_done old_level st = do {
     st \<leftarrow> return st;
     let (l, st) = intr_disable st;
     vga_finish old_level st
   }"

section \<open>Console\<close>

definition console_init :: "sched \<Rightarrow> sched option" where
  "console_init st = do {
     st \<leftarrow> lock_init (console_lock (io st)) st;
     Some (upd_io (\<lambda>d. d\<lparr>use_console_lock := True\<rparr>) st)
   }"

definition console_panic :: "sched \<Rightarrow> sched" where
  "console_panic st = upd_io (\<lambda>d. d\<lparr>use_console_lock := False\<rparr>) st"

definition acquire_console :: "sched \<Rightarrow> sched option" where
  "acquire_console st =
     (if \<not> intr_context st \<and> use_console_lock (io st) then do {
        held \<leftarrow> lock_held_by_current_thread (console_lock (io st)) st;
        if held then Some (upd_io (\<lambda>d. d\<lparr>console_lock_depth := console_lock_depth d + 1\<rparr>) st)
        else lock_acquire (console_lock (io st)) st
      }
      else Some st)"

definition release_console :: "sched \<Rightarrow> sched option" where
  "release_console st =
     (if \<not> intr_context st \<and> use_console_lock (io st) then
        if console_lock_depth (io st) > 0
        then Some (upd_io (\<lambda>d. d\<lparr>console_lock_depth := console_lock_depth d - 1\<rparr>) st)
        else lock_release (console_lock (io st)) st
      else Some st)"

definition console_locked_by_current_thread :: "sched \<Rightarrow> bool option" where
  "console_locked_by_current_thread st =
     (if intr_context st \<or> \<not> use_console_lock (io st) then Some True
      else lock_held_by_current_thread (console_lock (io st)) st)"

definition putchar_have_lock :: "u8 \<Rightarrow> sched \<Rightarrow> sched option" where
  "putchar_have_lock c st = do {
     locked \<leftarrow> console_locked_by_current_thread st;
     ASSERT locked;
     let st = upd_io (\<lambda>d. d\<lparr>write_cnt := write_cnt d + 1\<rparr>) st;
     st \<leftarrow> call (VgaPutc c) st;
     serial_putc c st
   }"

definition vga_putc_call :: "u8 \<Rightarrow> sched \<Rightarrow> sched option" where
  "vga_putc_call c st = do { st \<leftarrow> return st; vga_putc c st }"

text \<open>
  \<open>acquire_console\<close>, a call of \<open>putchar_have_lock\<close> for each of the bytes, \<open>release_console\<close>.  The
  four functions differ in the bytes: \<open>vprintf\<close> writes those that \<open>__vprintf\<close> outputs.
\<close>

definition console_out :: "u8 list \<Rightarrow> sched \<Rightarrow> sched option" where
  "console_out bs st = do { st \<leftarrow> call (ConsoleOut bs) st; acquire_console st }"

definition console_out_loop :: "u8 list \<Rightarrow> sched \<Rightarrow> sched option" where
  "console_out_loop bs st = do {
     st \<leftarrow> return st;
     (case bs of
        [] \<Rightarrow> release_console st
      | b # bs \<Rightarrow> do { st \<leftarrow> call (ConsoleOut bs) st; putchar_have_lock b st })
   }"

definition putbuf :: "u8 list \<Rightarrow> sched \<Rightarrow> sched option" where
  "putbuf buffer st = console_out buffer st"

definition puts :: "u8 list \<Rightarrow> sched \<Rightarrow> sched option" where
  "puts s st = console_out (s @ [10]) st"

definition putchar :: "int \<Rightarrow> sched \<Rightarrow> sched option" where
  "putchar c st = console_out [word_of_int c] st"

end
