(* ===== verification/KString.thy ===== *)
theory KString imports OS_Prelude begin

text \<open>
  The C string library, \<open>lib/string.c\<close>, over a byte-addressed memory: a pointer is an
  address, the null pointer is 0, and a string is the bytes up to the terminating zero.
  Loops that run to a terminator do not return on a memory without one; they are
  \<open>partial_function\<close>s.  \<open>cstr m p s\<close> says that the string \<open>s\<close> is stored at \<open>p\<close>.
\<close>

type_synonym memory = "addr \<Rightarrow> u8"

abbreviation (input) NULL :: addr where
  "NULL \<equiv> 0"

section \<open>Operations\<close>

fun copy_up :: "memory \<Rightarrow> addr \<Rightarrow> addr \<Rightarrow> nat \<Rightarrow> memory" where
  "copy_up m dst src 0 = m"
| "copy_up m dst src (Suc n) = copy_up (m(dst := m src)) (dst + 1) (src + 1) n"

fun copy_down :: "memory \<Rightarrow> addr \<Rightarrow> addr \<Rightarrow> nat \<Rightarrow> memory" where
  "copy_down m dst src 0 = m"
| "copy_down m dst src (Suc n) = copy_down (m(dst - 1 := m (src - 1))) (dst - 1) (src - 1) n"

definition memcpy :: "addr \<Rightarrow> addr \<Rightarrow> nat \<Rightarrow> memory \<Rightarrow> (addr \<times> memory) option" where
  "memcpy dest source n m = do {
     ASSERT (dest \<noteq> NULL \<or> n = 0);
     ASSERT (source \<noteq> NULL \<or> n = 0);
     Some (dest, copy_up m dest source n)
   }"

text \<open>\<open>memmove\<close> returns its local pointer \<open>dst\<close>, which the loops have moved.\<close>

definition memmove :: "addr \<Rightarrow> addr \<Rightarrow> nat \<Rightarrow> memory \<Rightarrow> (addr \<times> memory) option" where
  "memmove dst src n m = do {
     ASSERT (dst \<noteq> NULL \<or> n = 0);
     ASSERT (src \<noteq> NULL \<or> n = 0);
     if dst < src then Some (dst + n, copy_up m dst src n)
     else do {
       let dst = dst + n; let src = src + n;
       Some (dst - n, copy_down m dst src n)
     }
   }"

fun memcmp_loop :: "addr \<Rightarrow> addr \<Rightarrow> nat \<Rightarrow> memory \<Rightarrow> int" where
  "memcmp_loop a b 0 m = 0"
| "memcmp_loop a b (Suc n) m =
     (if m a \<noteq> m b then (if m a > m b then 1 else - 1) else memcmp_loop (a + 1) (b + 1) n m)"

definition memcmp :: "addr \<Rightarrow> addr \<Rightarrow> nat \<Rightarrow> memory \<Rightarrow> int option" where
  "memcmp a b n m = do {
     ASSERT (a \<noteq> NULL \<or> n = 0);
     ASSERT (b \<noteq> NULL \<or> n = 0);
     Some (memcmp_loop a b n m)
   }"

partial_function (option) strcmp_loop :: "addr \<Rightarrow> addr \<Rightarrow> memory \<Rightarrow> int option" where
  "strcmp_loop a b m =
     (if m a \<noteq> 0 \<and> m a = m b then strcmp_loop (a + 1) (b + 1) m
      else Some (if m a < m b then - 1 else if m a > m b then 1 else 0))"

definition strcmp :: "addr \<Rightarrow> addr \<Rightarrow> memory \<Rightarrow> int option" where
  "strcmp a b m = do { ASSERT (a \<noteq> NULL); ASSERT (b \<noteq> NULL); strcmp_loop a b m }"

fun memchr_loop :: "addr \<Rightarrow> u8 \<Rightarrow> nat \<Rightarrow> memory \<Rightarrow> addr" where
  "memchr_loop block ch 0 m = NULL"
| "memchr_loop block ch (Suc n) m = (if m block = ch then block else memchr_loop (block + 1) ch n m)"

definition memchr :: "addr \<Rightarrow> u8 \<Rightarrow> nat \<Rightarrow> memory \<Rightarrow> addr option" where
  "memchr block ch n m = do { ASSERT (block \<noteq> NULL \<or> n = 0); Some (memchr_loop block ch n m) }"

partial_function (option) strchr_loop :: "addr \<Rightarrow> u8 \<Rightarrow> memory \<Rightarrow> addr option" where
  "strchr_loop string c m =
     (if m string = c then Some string
      else if m string = 0 then Some NULL
      else strchr_loop (string + 1) c m)"

definition strchr :: "addr \<Rightarrow> u8 \<Rightarrow> memory \<Rightarrow> addr option" where
  "strchr string c m = do { ASSERT (string \<noteq> NULL); strchr_loop string c m }"

partial_function (option) strcspn_loop :: "addr \<Rightarrow> addr \<Rightarrow> nat \<Rightarrow> memory \<Rightarrow> nat option" where
  "strcspn_loop string stop n m =
     (if m (string + n) \<noteq> 0 then do {
        r \<leftarrow> strchr stop (m (string + n)) m;
        if r \<noteq> NULL then Some n else strcspn_loop string stop (n + 1) m
      }
      else Some n)"

definition strcspn :: "addr \<Rightarrow> addr \<Rightarrow> memory \<Rightarrow> nat option" where
  "strcspn string stop m = strcspn_loop string stop 0 m"

partial_function (option) strpbrk :: "addr \<Rightarrow> addr \<Rightarrow> memory \<Rightarrow> addr option" where
  "strpbrk string stop m =
     (if m string \<noteq> 0 then do {
        r \<leftarrow> strchr stop (m string) m;
        if r \<noteq> NULL then Some string else strpbrk (string + 1) stop m
      }
      else Some NULL)"

partial_function (option) strrchr_loop :: "addr \<Rightarrow> u8 \<Rightarrow> addr \<Rightarrow> memory \<Rightarrow> addr option" where
  "strrchr_loop string c p m =
     (if m string \<noteq> 0 then strrchr_loop (string + 1) c (if m string = c then string else p) m
      else Some p)"

definition strrchr :: "addr \<Rightarrow> u8 \<Rightarrow> memory \<Rightarrow> addr option" where
  "strrchr string c m = strrchr_loop string c NULL m"

partial_function (option) strspn_loop :: "addr \<Rightarrow> addr \<Rightarrow> nat \<Rightarrow> memory \<Rightarrow> nat option" where
  "strspn_loop string skip n m =
     (if m (string + n) \<noteq> 0 then do {
        r \<leftarrow> strchr skip (m (string + n)) m;
        if r = NULL then Some n else strspn_loop string skip (n + 1) m
      }
      else Some n)"

definition strspn :: "addr \<Rightarrow> addr \<Rightarrow> memory \<Rightarrow> nat option" where
  "strspn string skip m = strspn_loop string skip 0 m"

partial_function (option) strlen_loop :: "addr \<Rightarrow> memory \<Rightarrow> addr option" where
  "strlen_loop p m = (if m p \<noteq> 0 then strlen_loop (p + 1) m else Some p)"

definition strlen :: "addr \<Rightarrow> memory \<Rightarrow> nat option" where
  "strlen string m = do { ASSERT (string \<noteq> NULL); p \<leftarrow> strlen_loop string m; Some (p - string) }"

text \<open>The loop of \<open>strstr\<close>; \<open>k\<close> positions are left to try.\<close>

fun strstr_loop :: "addr \<Rightarrow> addr \<Rightarrow> nat \<Rightarrow> nat \<Rightarrow> nat \<Rightarrow> memory \<Rightarrow> addr option" where
  "strstr_loop haystack needle needle_len i 0 m = Some NULL"
| "strstr_loop haystack needle needle_len i (Suc k) m = do {
     c \<leftarrow> memcmp (haystack + i) needle needle_len m;
     if c = 0 then Some (haystack + i) else strstr_loop haystack needle needle_len (i + 1) k m
   }"

definition strstr :: "addr \<Rightarrow> addr \<Rightarrow> memory \<Rightarrow> addr option" where
  "strstr haystack needle m = do {
     haystack_len \<leftarrow> strlen haystack m;
     needle_len \<leftarrow> strlen needle m;
     if haystack_len \<ge> needle_len
     then strstr_loop haystack needle needle_len 0 (haystack_len - needle_len + 1) m
     else Some NULL
   }"

partial_function (option) strtok_skip :: "addr \<Rightarrow> addr \<Rightarrow> memory \<Rightarrow> addr option" where
  "strtok_skip s delimiters m = do {
     r \<leftarrow> strchr delimiters (m s) m;
     if r \<noteq> NULL then if m s = 0 then Some s else strtok_skip (s + 1) delimiters m
     else Some s
   }"

partial_function (option) strtok_scan :: "addr \<Rightarrow> addr \<Rightarrow> memory \<Rightarrow> addr option" where
  "strtok_scan s delimiters m = do {
     r \<leftarrow> strchr delimiters (m s) m;
     if r = NULL then strtok_scan (s + 1) delimiters m else Some s
   }"

text \<open>
  \<open>strtok_r s delimiters save_ptr m\<close>: the token, the new value of \<open>*save_ptr\<close>, and the memory.
  \<open>strtok_skip\<close> stops at the terminator, where the code returns the null pointer.
\<close>

definition strtok_r :: "addr \<Rightarrow> addr \<Rightarrow> addr \<Rightarrow> memory \<Rightarrow> (addr \<times> addr \<times> memory) option" where
  "strtok_r s delimiters save_ptr m = do {
     ASSERT (delimiters \<noteq> NULL);
     let s = (if s = NULL then save_ptr else s);
     ASSERT (s \<noteq> NULL);
     s \<leftarrow> strtok_skip s delimiters m;
     if m s = 0 then Some (NULL, s, m)
     else do {
       let token = s;
       s \<leftarrow> strtok_scan s delimiters m;
       if m s \<noteq> 0 then Some (token, s + 1, m(s := 0)) else Some (token, s, m)
     }
   }"

fun memset_loop :: "addr \<Rightarrow> u8 \<Rightarrow> nat \<Rightarrow> memory \<Rightarrow> memory" where
  "memset_loop dst v 0 m = m"
| "memset_loop dst v (Suc n) m = memset_loop (dst + 1) v n (m(dst := v))"

definition memset :: "addr \<Rightarrow> u8 \<Rightarrow> nat \<Rightarrow> memory \<Rightarrow> (addr \<times> memory) option" where
  "memset dest v n m = do { ASSERT (dest \<noteq> NULL \<or> n = 0); Some (dest, memset_loop dest v n m) }"

partial_function (option) strnlen_loop :: "addr \<Rightarrow> nat \<Rightarrow> nat \<Rightarrow> memory \<Rightarrow> nat option" where
  "strnlen_loop string maxlen n m =
     (if m (string + n) \<noteq> 0 \<and> n < maxlen then strnlen_loop string maxlen (n + 1) m else Some n)"

definition strnlen :: "addr \<Rightarrow> nat \<Rightarrow> memory \<Rightarrow> nat option" where
  "strnlen string maxlen m = strnlen_loop string maxlen 0 m"

definition strlcpy :: "addr \<Rightarrow> addr \<Rightarrow> nat \<Rightarrow> memory \<Rightarrow> (nat \<times> memory) option" where
  "strlcpy dst src n m = do {
     ASSERT (dst \<noteq> NULL);
     ASSERT (src \<noteq> NULL);
     src_len \<leftarrow> strlen src m;
     if n > 0 then do {
       let dst_len = n - 1;
       let dst_len = (if src_len < dst_len then src_len else dst_len);
       (r, m) \<leftarrow> memcpy dst src dst_len m;
       Some (src_len, m(dst + dst_len := 0))
     }
     else Some (src_len, m)
   }"

definition strlcat :: "addr \<Rightarrow> addr \<Rightarrow> nat \<Rightarrow> memory \<Rightarrow> (nat \<times> memory) option" where
  "strlcat dst src n m = do {
     ASSERT (dst \<noteq> NULL);
     ASSERT (src \<noteq> NULL);
     src_len \<leftarrow> strlen src m;
     dst_len \<leftarrow> strlen dst m;
     if n > 0 \<and> dst_len < n then do {
       let copy_cnt = n - dst_len - 1;
       let copy_cnt = (if src_len < copy_cnt then src_len else copy_cnt);
       (r, m) \<leftarrow> memcpy (dst + dst_len) src copy_cnt m;
       Some (src_len + dst_len, m(dst + dst_len + copy_cnt := 0))
     }
     else Some (src_len + dst_len, m)
   }"

section \<open>Strings in memory\<close>

fun cstr :: "memory \<Rightarrow> addr \<Rightarrow> u8 list \<Rightarrow> bool" where
  "cstr m p [] \<longleftrightarrow> m p = 0"
| "cstr m p (c # s) \<longleftrightarrow> c \<noteq> 0 \<and> m p = c \<and> cstr m (p + 1) s"

lemma cstr_nth: "cstr m p s \<Longrightarrow> i < length s \<Longrightarrow> m (p + i) = s ! i \<and> s ! i \<noteq> 0"
  by (induction m p s arbitrary: i rule: cstr.induct) (auto simp: nth_Cons' less_Suc_eq_0_disj)

lemma cstr_end: "cstr m p s \<Longrightarrow> m (p + length s) = 0"
  by (induction m p s rule: cstr.induct) auto

lemma cstr_no_zero: "cstr m p s \<Longrightarrow> 0 \<notin> set s"
  by (induction m p s rule: cstr.induct) auto

lemma cstr_iff:
  "cstr m p s \<longleftrightarrow> (\<forall>i < length s. m (p + i) = s ! i) \<and> m (p + length s) = 0 \<and> 0 \<notin> set s"
proof (induction m p s rule: cstr.induct)
  case (2 m p c s)
  have "(\<forall>i < length (c # s). m (p + i) = (c # s) ! i) \<longleftrightarrow>
      m p = c \<and> (\<forall>i < length s. m (p + 1 + i) = s ! i)"
    by (simp add: All_less_Suc2)
  then show ?case using 2 by auto
qed simp

lemma cstr_drop: "cstr m p s \<Longrightarrow> k \<le> length s \<Longrightarrow> cstr m (p + k) (drop k s)"
  by (induction m p s arbitrary: k rule: cstr.induct) (auto split: nat_diff_split simp: drop_Cons')

lemma cstr_frame: "cstr m p s \<Longrightarrow> \<forall>i \<le> length s. m' (p + i) = m (p + i) \<Longrightarrow> cstr m' p s"
  by (simp add: cstr_iff)

lemma strlen_loop_ok: "cstr m p s \<Longrightarrow> strlen_loop p m = Some (p + length s)"
  by (induction m p s rule: cstr.induct) (simp_all add: strlen_loop.simps)

lemma strlen_ok: "cstr m p s \<Longrightarrow> p \<noteq> NULL \<Longrightarrow> strlen p m = Some (length s)"
  by (simp add: strlen_def strlen_loop_ok)

lemma strchr_loop_ok:
  "cstr m p s \<Longrightarrow> strchr_loop p c m =
     Some (if c = 0 then p + length s
           else if c \<in> set s then p + length (takeWhile (\<lambda>x. x \<noteq> c) s) else NULL)"
  by (induction m p s rule: cstr.induct) (subst strchr_loop.simps, auto)+


lemma strchr_ok:
  assumes "cstr m p s" "p \<noteq> NULL"
  obtains r where "strchr p c m = Some r" "r = NULL \<longleftrightarrow> c \<noteq> 0 \<and> c \<notin> set s"
  using that[of "if c = 0 then p + length s
           else if c \<in> set s then p + length (takeWhile (\<lambda>x. x \<noteq> c) s) else NULL"]
    strchr_loop_ok[OF assms(1), of c] assms(2) by (simp add: strchr_def)

lemma copy_up_outside: "a < dst \<or> dst + n \<le> a \<Longrightarrow> copy_up m dst src n a = m a"
  by (induction m dst src n rule: copy_up.induct) auto

lemma copy_up_ok: "dst \<le> src \<or> src + n \<le> dst \<Longrightarrow> i < n \<Longrightarrow> copy_up m dst src n (dst + i) = m (src + i)"
proof (induction m dst src n arbitrary: i rule: copy_up.induct)
  case (2 m dst src n)
  show ?case
  proof (cases i)
    case 0
    then show ?thesis by (simp add: copy_up_outside)
  next
    case (Suc j)
    have "copy_up (m(dst := m src)) (dst + 1) (src + 1) n (dst + 1 + j) = (m(dst := m src)) (src + 1 + j)"
      using 2 Suc by (intro "2.IH") auto
    then show ?thesis using 2 Suc by auto
  qed
qed simp

lemma copy_down_outside: "n \<le> dst \<Longrightarrow> a < dst - n \<or> dst \<le> a \<Longrightarrow> copy_down m dst src n a = m a"
proof (induction m dst src n rule: copy_down.induct)
  case (2 m dst src n)
  then have "a \<noteq> dst - 1" "n \<le> dst - 1" "a < dst - 1 - n \<or> dst - 1 \<le> a" by auto
  then have "copy_down (m(dst - 1 := m (src - 1))) (dst - 1) (src - 1) n a = (m(dst - 1 := m (src - 1))) a"
    by (intro "2.IH")
  then show ?case using \<open>a \<noteq> dst - 1\<close> by simp
qed simp

lemma copy_down_ok:
  "n \<le> dst \<Longrightarrow> n \<le> src \<Longrightarrow> src \<le> dst \<Longrightarrow> i < n \<Longrightarrow>
   copy_down m dst src n (dst - n + i) = m (src - n + i)"
proof (induction m dst src n arbitrary: i rule: copy_down.induct)
  case (2 m dst src n)
  show ?case
  proof (cases "i = n")
    case True
    then show ?thesis using 2 by (simp add: copy_down_outside)
  next
    case False
    have "copy_down (m(dst - 1 := m (src - 1))) (dst - 1) (src - 1) n (dst - 1 - n + i) =
        (m(dst - 1 := m (src - 1))) (src - 1 - n + i)"
      using 2 False by (intro "2.IH") auto
    moreover have "src - 1 - n + i \<noteq> dst - 1" using 2 False by auto
    ultimately show ?thesis using 2 False by auto
  qed
qed simp

lemma memcmp_loop_zero:
  "memcmp_loop a b n m = 0 \<longleftrightarrow> (\<forall>i < n. m (a + i) = m (b + i))"
  by (induction a b n m rule: memcmp_loop.induct) (auto simp: All_less_Suc2)

lemma strcmp_loop_ok:
  "cstr m a s \<Longrightarrow> cstr m b t \<Longrightarrow>
   strcmp_loop a b m = Some (if ord_class.lexordp s t then - 1 else if s = t then 0 else 1)"
proof (induction m a s arbitrary: b t rule: cstr.induct)
  case (1 m a)
  then show ?case by (cases t) (auto simp: strcmp_loop.simps[of a b m] word_neq_0_conv)
next
  case (2 m a c s)
  then show ?case
  proof (cases t)
    case Nil
    then show ?thesis using 2 by (auto simp: strcmp_loop.simps[of a b m] word_neq_0_conv)
  next
    case (Cons d u)
    have "strcmp_loop a b m = (if c = d then strcmp_loop (a + 1) (b + 1) m
        else Some (if c < d then - 1 else if c > d then 1 else 0))"
      using "2.prems" Cons by (subst strcmp_loop.simps) simp
    moreover have "c = d \<Longrightarrow> strcmp_loop (a + 1) (b + 1) m =
        Some (if ord_class.lexordp s u then - 1 else if s = u then 0 else 1)"
      using "2.IH"[of "b + 1" u] "2.prems" Cons by simp
    ultimately show ?thesis using Cons by (cases c d rule: linorder_cases) auto
  qed
qed

section \<open>Properties\<close>

definition demo_mem :: memory where
  "demo_mem = (\<lambda>a. if 1 \<le> a \<and> a \<le> 7 then [97, 47, 47, 98, 0, 47, 0] ! (a - 1) else 0)"

lemma demo_mem_cstr: "cstr demo_mem 1 [97, 47, 47, 98]" "cstr demo_mem 6 [47]"
  by (simp_all add: demo_mem_def)

text \<open>
  \<open>memmove\<close> copies the source as it was before the call, whether or not the areas overlap,
  and writes nothing else.  Its result is the destination when it copies downwards, but one
  past the end of the destination when it copies upwards.
\<close>

theorem memmove_overlap:
  assumes "dst \<noteq> NULL" "src \<noteq> NULL"
  shows "\<exists>r m'. memmove dst src n m = Some (r, m') \<and> (\<forall>i < n. m' (dst + i) = m (src + i)) \<and>
    (\<forall>a. a < dst \<or> dst + n \<le> a \<longrightarrow> m' a = m a) \<and> r = (if dst < src then dst + n else dst)"
proof (cases "dst < src")
  case True
  then show ?thesis
    using assms copy_up_ok[of dst src n _ m] copy_up_outside[of _ dst n m src] by (simp add: memmove_def)
next
  case False
  then show ?thesis
    using assms copy_down_ok[of n "dst + n" "src + n" _ m] copy_down_outside[of n "dst + n" _ m "src + n"]
    by (simp add: memmove_def Let_def)
qed

theorem memmove_overlap_witness:
  "\<exists>m'. memmove 2 1 3 demo_mem = Some (2, m') \<and> m' 4 = 47"
  using memmove_overlap[of 2 1 3 demo_mem] by (auto simp: demo_mem_def dest!: spec[of _ 2])

text \<open>
  \<open>strcmp\<close> compares two strings lexicographically by unsigned bytes: it returns -1, 0 or 1
  as the first is smaller, equal or greater.
\<close>

theorem strcmp_lexicographic:
  assumes "cstr m a s" "cstr m b t" "a \<noteq> NULL" "b \<noteq> NULL"
  shows "strcmp a b m = Some (if ord_class.lexordp s t then - 1 else if s = t then 0 else 1)"
  using strcmp_loop_ok[OF assms(1,2)] assms(3,4) by (simp add: strcmp_def)

theorem strcmp_lexicographic_witness: "strcmp 1 6 demo_mem = Some 1"
  using strcmp_lexicographic[OF demo_mem_cstr] by simp

lemma strstr_loop_ok:
  assumes "h \<noteq> NULL" "n \<noteq> NULL"
  shows "strstr_loop h n len i k m =
    Some (if \<exists>j. i \<le> j \<and> j < i + k \<and> (\<forall>x < len. m (h + j + x) = m (n + x))
          then h + (LEAST j. i \<le> j \<and> (\<forall>x < len. m (h + j + x) = m (n + x))) else NULL)"
  using assms
proof (induction h n len i k m rule: strstr_loop.induct)
  case (2 h n len i k m)
  have z: "memcmp_loop (h + i) n len m = 0 \<longleftrightarrow> (\<forall>x < len. m (h + i + x) = m (n + x))"
    by (rule memcmp_loop_zero)
  show ?case
  proof (cases "\<forall>x < len. m (h + i + x) = m (n + x)")
    case True
    have "(LEAST j. i \<le> j \<and> (\<forall>x < len. m (h + j + x) = m (n + x))) = i"
      by (rule Least_equality) (use True in auto)
    moreover have "\<exists>j. i \<le> j \<and> j < i + Suc k \<and> (\<forall>x < len. m (h + j + x) = m (n + x))"
      using True by (intro exI[of _ i]) auto
    ultimately show ?thesis using z True by (simp add: memcmp_def "2.prems")
  next
    case False
    then have j: "i \<le> j \<and> (\<forall>x < len. m (h + j + x) = m (n + x)) \<longleftrightarrow>
        i + 1 \<le> j \<and> (\<forall>x < len. m (h + j + x) = m (n + x))" for j
      by (cases "j = i") auto
    have ex: "(\<exists>j. i \<le> j \<and> j < i + Suc k \<and> (\<forall>x < len. m (h + j + x) = m (n + x))) \<longleftrightarrow>
        (\<exists>j. i + 1 \<le> j \<and> j < i + 1 + k \<and> (\<forall>x < len. m (h + j + x) = m (n + x)))"
      using j by (metis add.assoc plus_1_eq_Suc)
    have "strstr_loop h n len i (Suc k) m = strstr_loop h n len (i + 1) k m"
      using z False by (simp add: memcmp_def "2.prems")
    then show ?thesis using "2.IH"[of "memcmp_loop (h + i) n len m"] "2.prems" z False unfolding ex j by (simp add: memcmp_def)
  qed
qed simp


text \<open>
  \<open>strstr\<close> returns the first position at which the needle occurs in the haystack, and the
  null pointer exactly if it does not occur.
\<close>

theorem strstr_first:
  assumes "cstr m h s" "cstr m n t" "h \<noteq> NULL" "n \<noteq> NULL"
  shows "strstr h n m = Some (if \<exists>j. take (length t) (drop j s) = t
     then h + (LEAST j. take (length t) (drop j s) = t) else NULL)"
proof -
  let ?P = "\<lambda>j. \<forall>x < length t. m (h + j + x) = m (n + x)"
  have n: "m (n + x) = t ! x" if "x < length t" for x using cstr_nth[OF assms(2) that] by simp
  have eq: "take (length t) (drop j s) = t \<longleftrightarrow> j + length t \<le> length s \<and> ?P j"
    if t: "t \<noteq> []" for j
  proof
    assume e: "take (length t) (drop j s) = t"
    then have "length (take (length t) (drop j s)) = length t" by simp
    then have l: "j + length t \<le> length s" using t by (cases t) (auto simp: min_def split: if_splits)
    have "m (h + j + x) = m (n + x)" if "x < length t" for x
    proof -
      have "t ! x = s ! (j + x)" using e l that by (metis nth_drop nth_take add_leD1)
      then show ?thesis using n[OF that] cstr_nth[OF assms(1), of "j + x"] l that by (simp add: add.assoc)
    qed
    then show "j + length t \<le> length s \<and> ?P j" using l by simp
  next
    assume e: "j + length t \<le> length s \<and> ?P j"
    have "s ! (j + x) = t ! x" if "x < length t" for x
    proof -
      have "m (h + (j + x)) = s ! (j + x)" using cstr_nth[OF assms(1), of "j + x"] e that by simp
      then show ?thesis using n[OF that] e that by (simp add: add.assoc)
    qed
    then show "take (length t) (drop j s) = t" using e by (intro nth_equalityI) auto
  qed
  note st = strlen_ok[OF assms(1,3)] strlen_ok[OF assms(2,4)]
  show ?thesis
  proof (cases "t = []")
    case True
    then show ?thesis using st strstr_loop_ok[OF assms(3,4), of 0 0 "length s + 1" m]
      by (auto simp: strstr_def intro!: Least_equality[symmetric])
  next
    case False
    show ?thesis
    proof (cases "length t \<le> length s")
      case True
      let ?k = "length s - length t + 1"
      have ex: "(\<exists>j. 0 \<le> j \<and> j < 0 + ?k \<and> ?P j) \<longleftrightarrow> (\<exists>j. take (length t) (drop j s) = t)"
        unfolding eq[OF False] using True by (auto simp: less_Suc_eq_le le_diff_conv2)
      have least: "(LEAST j. 0 \<le> j \<and> ?P j) = (LEAST j. take (length t) (drop j s) = t)"
        if "\<exists>j. take (length t) (drop j s) = t"
      proof (rule Least_equality)
        let ?l = "LEAST j. take (length t) (drop j s) = t"
        have l: "?l + length t \<le> length s \<and> ?P ?l" using LeastI_ex[OF that] eq[OF False] by blast
        then show "0 \<le> ?l \<and> ?P ?l" by simp
        fix y assume y: "0 \<le> y \<and> ?P y"
        show "?l \<le> y"
        proof (rule ccontr)
          assume "\<not> ?l \<le> y"
          then have "y + length t \<le> length s" using l by linarith
          then show False using not_less_Least[of y "\<lambda>j. take (length t) (drop j s) = t"] y eq[OF False]
              \<open>\<not> ?l \<le> y\<close> by auto
        qed
      qed
      have "strstr h n m = strstr_loop h n (length t) 0 ?k m"
        using st True by (simp add: strstr_def del: strstr_loop.simps)
      also have "\<dots> = Some (if \<exists>j. take (length t) (drop j s) = t
          then h + (LEAST j. 0 \<le> j \<and> ?P j) else NULL)"
        unfolding strstr_loop_ok[OF assms(3,4)] ex ..
      finally show ?thesis using least by auto
    next
      case ls: False
      then have "\<not> (\<exists>j. take (length t) (drop j s) = t)" unfolding eq[OF False] by simp
      then show ?thesis using st ls by (simp add: strstr_def)
    qed
  qed
qed

theorem strstr_first_witness: "strstr 1 6 demo_mem = Some 2"
proof -
  have "(LEAST j. take (length ([47] :: u8 list)) (drop j [97, 47, 47, 98]) = ([47] :: u8 list)) = 1"
    by (rule Least_equality) (auto simp: Suc_le_eq intro!: gr0I)
  moreover have "\<exists>j. take (length ([47] :: u8 list)) (drop j [97, 47, 47, 98]) = ([47] :: u8 list)" by (rule exI[of _ 1]) simp
  ultimately show ?thesis using strstr_first[OF demo_mem_cstr] by simp
qed


section \<open>Tokens\<close>

lemma strtok_skip_ok:
  assumes "cstr m s t" "cstr m d ds" "d \<noteq> NULL"
  shows "strtok_skip s d m = Some (s + length (takeWhile (\<lambda>c. c \<in> set ds) t))"
  using assms
proof (induction m s t rule: cstr.induct)
  case (1 m s)
  obtain r where "strchr d (m s) m = Some r" "r = NULL \<longleftrightarrow> m s \<noteq> 0 \<and> m s \<notin> set ds"
    using strchr_ok[OF "1.prems"(2,3), of "m s"] .
  then show ?case using "1.prems" by (simp add: strtok_skip.simps[of s])
next
  case (2 m s c t)
  obtain r where r: "strchr d (m s) m = Some r" "r = NULL \<longleftrightarrow> m s \<noteq> 0 \<and> m s \<notin> set ds"
    using strchr_ok[OF "2.prems"(2,3), of "m s"] .
  have c: "m s = c" "c \<noteq> 0" "cstr m (s + 1) t" using "2.prems"(1) by simp_all
  have "strtok_skip s d m = (if c \<in> set ds then strtok_skip (s + 1) d m else Some s)"
    using r c(1,2) by (subst strtok_skip.simps) auto
  then show ?case using "2.IH"[OF c(3) "2.prems"(2,3)] by simp
qed

lemma strtok_scan_ok:
  assumes "cstr m s t" "cstr m d ds" "d \<noteq> NULL"
  shows "strtok_scan s d m = Some (s + length (takeWhile (\<lambda>c. c \<notin> set ds) t))"
  using assms
proof (induction m s t rule: cstr.induct)
  case (1 m s)
  obtain r where "strchr d (m s) m = Some r" "r = NULL \<longleftrightarrow> m s \<noteq> 0 \<and> m s \<notin> set ds"
    using strchr_ok[OF "1.prems"(2,3), of "m s"] .
  then show ?case using "1.prems" by (simp add: strtok_scan.simps[of s])
next
  case (2 m s c t)
  obtain r where r: "strchr d (m s) m = Some r" "r = NULL \<longleftrightarrow> m s \<noteq> 0 \<and> m s \<notin> set ds"
    using strchr_ok[OF "2.prems"(2,3), of "m s"] .
  have c: "m s = c" "c \<noteq> 0" "cstr m (s + 1) t" using "2.prems"(1) by simp_all
  have "strtok_scan s d m = (if c \<in> set ds then Some s else strtok_scan (s + 1) d m)"
    using r c(1,2) by (subst strtok_scan.simps) auto
  then show ?case using "2.IH"[OF c(3) "2.prems"(2,3)] by simp
qed

text \<open>\<open>next_token ds t\<close>: the first maximal run of non-delimiters of \<open>t\<close>, and what follows the
  delimiter that ends it.\<close>

definition next_token :: "u8 list \<Rightarrow> u8 list \<Rightarrow> (u8 list \<times> u8 list) option" where
  "next_token ds t = (case dropWhile (\<lambda>c. c \<in> set ds) t of
     [] \<Rightarrow> None
   | r \<Rightarrow> Some (takeWhile (\<lambda>c. c \<notin> set ds) r, drop 1 (dropWhile (\<lambda>c. c \<notin> set ds) r)))"

lemma next_token_shorter: "next_token ds t = Some (k, r) \<Longrightarrow> length r < length t \<and> k \<noteq> []"
proof -
  assume a: "next_token ds t = Some (k, r)"
  obtain x xs where d: "dropWhile (\<lambda>c. c \<in> set ds) t = x # xs"
    using a by (auto simp: next_token_def split: list.splits)
  have "length (x # xs) \<le> length t" using d length_dropWhile_le by metis
  moreover have "x \<notin> set ds" using d by (metis hd_dropWhile list.distinct(1) list.sel(1))
  ultimately show ?thesis using a d length_dropWhile_le[of "\<lambda>c. c \<notin> set ds" xs]
    by (auto simp: next_token_def)
qed

lemma strtok_r_ok:
  assumes t: "cstr m p t" and d: "cstr m d ds" "d \<noteq> NULL" and p: "p = (if s = NULL then save else s)" "p \<noteq> NULL"
  shows "case next_token ds t of
      None \<Rightarrow> strtok_r s d save m = Some (NULL, p + length t, m)
    | Some (k, r) \<Rightarrow> \<exists>q save' m'. strtok_r s d save m = Some (q, save', m') \<and> q \<noteq> NULL \<and> save' \<noteq> NULL \<and>
        cstr m' q k \<and> cstr m' save' r \<and> (\<forall>a. m' a \<noteq> m a \<longrightarrow> m' a = 0 \<and> p \<le> a \<and> a < p + length t)"
proof -
  let ?n = "length (takeWhile (\<lambda>c. c \<in> set ds) t)" and ?w = "dropWhile (\<lambda>c. c \<in> set ds) t"
  let ?q = "p + ?n"
  have w: "?w = drop ?n t" by (simp add: dropWhile_eq_drop)
  have n: "?n \<le> length t" by (rule length_takeWhile_le)
  have cq: "cstr m ?q ?w" unfolding w by (rule cstr_drop[OF t n])
  note skip = strtok_skip_ok[OF t d] and scan = strtok_scan_ok[OF cq d]
  show ?thesis
  proof (cases ?w)
    case Nil
    then have "m ?q = 0" "?n = length t" using cq w n by (simp_all add: order_antisym)
    moreover have "next_token ds t = None" using Nil unfolding next_token_def by (simp only: list.case)
    ultimately show ?thesis using skip p d(2) by (simp add: strtok_r_def Let_def)
  next
    case (Cons x xs)
    let ?k = "takeWhile (\<lambda>c. c \<notin> set ds) ?w" and ?r = "dropWhile (\<lambda>c. c \<notin> set ds) ?w"
    have mq: "m ?q \<noteq> 0" using cq Cons by simp
    have nt: "next_token ds t = Some (?k, drop 1 ?r)" using Cons by (simp add: next_token_def)
    have kw: "length ?k \<le> length ?w" by (rule length_takeWhile_le)
    have r: "cstr m (?q + length ?k) ?r"
      unfolding dropWhile_eq_drop[of "\<lambda>c. c \<notin> set ds" ?w] by (rule cstr_drop[OF cq kw])
    have wt: "?n + length ?w = length t" by (metis length_append takeWhile_dropWhile_id)
    have kr: "length ?k + length ?r = length ?w" by (metis length_append takeWhile_dropWhile_id)
    have kn: "m (?q + i) = ?k ! i" if "i < length ?k" for i
      using cstr_nth[OF cq, of i] kw that takeWhile_nth[OF that] by simp
    have kz: "0 \<notin> set ?k" using cstr_no_zero[OF cq] by (meson set_takeWhileD)
    show ?thesis
    proof (cases ?r)
      case Nil
      have e: "m (?q + length ?k) = 0" using r unfolding Nil by (simp only: cstr.simps)
      then have s1: "strtok_r s d save m = Some (?q, ?q + length ?k, m)"
        using skip scan mq p d(2) by (simp add: strtok_r_def Let_def)
      have k: "cstr m ?q ?k" using kn kz e by (simp add: cstr_iff)
      have r': "cstr m (?q + length ?k) (drop 1 ?r)" using e unfolding Nil by simp
      show ?thesis unfolding nt option.case prod.case
        by (intro exI[of _ ?q] exI[of _ "?q + length ?k"] exI[of _ m])
          (use s1 k r' p(2) in \<open>simp only: simp_thms add_is_0\<close>)
    next
      case c: (Cons y ys)
      let ?m = "m(?q + length ?k := 0)"
      have nz: "m (?q + length ?k) \<noteq> 0" using r unfolding c cstr.simps by blast
      have s1: "strtok_r s d save m = Some (?q, ?q + length ?k + 1, ?m)"
        using skip scan mq nz p d(2) by (simp add: strtok_r_def Let_def)
      have k: "cstr ?m ?q ?k" using kn kz by (simp add: cstr_iff)
      have "cstr m (?q + length ?k + 1) ys" using r unfolding c cstr.simps by blast
      then have ys: "cstr ?m (?q + length ?k + 1) ys" by (rule cstr_frame) simp
      have "0 < length ?r" unfolding c by simp
      then have lt: "?n + length ?k < length t" using wt kr by linarith
      have fr: "\<forall>a. ?m a \<noteq> m a \<longrightarrow> ?m a = 0 \<and> p \<le> a \<and> a < p + length t" using lt by simp
      have dr: "drop 1 ?r = ys" unfolding c by simp
      show ?thesis unfolding nt dr option.case prod.case
        by (intro exI[of _ ?q] exI[of _ "?q + length ?k + 1"] exI[of _ ?m])
          (use s1 k ys fr p(2) in \<open>simp only: simp_thms add_is_0\<close>)
    qed
  qed
qed


text \<open>
  \<open>strtok_r\<close> returns the first non-empty run of non-delimiters as a terminated string, and
  saves a pointer to what follows its delimiter; it returns the null pointer exactly when no
  token is left, and the only bytes it changes are delimiters of the string, set to zero.
\<close>

theorem strtok_r_next_token:
  assumes "cstr m p t" "cstr m d ds" "d \<noteq> NULL" "p = (if s = NULL then save else s)" "p \<noteq> NULL"
  shows "\<exists>q save' m'. strtok_r s d save m = Some (q, save', m') \<and>
    (\<forall>a. m' a \<noteq> m a \<longrightarrow> m' a = 0 \<and> p \<le> a \<and> a < p + length t) \<and>
    (case next_token ds t of
       None \<Rightarrow> q = NULL \<and> cstr m' save' []
     | Some (k, r) \<Rightarrow> q \<noteq> NULL \<and> k \<noteq> [] \<and> cstr m' q k \<and> cstr m' save' r \<and> length r < length t)"
proof (cases "next_token ds t")
  case None
  then show ?thesis using strtok_r_ok[OF assms] cstr_end[OF assms(1)] by auto
next
  case (Some kr)
  obtain k r where kr: "kr = (k, r)" by (cases kr)
  have nt: "next_token ds t = Some (k, r)" using Some kr by simp
  show ?thesis using strtok_r_ok[OF assms] next_token_shorter[OF nt] unfolding nt by fastforce
qed

theorem strtok_r_next_token_witness:
  "\<exists>q save' m'. strtok_r 1 6 0 demo_mem = Some (q, save', m') \<and> cstr m' q [97] \<and> cstr m' save' [47, 98]"
  using strtok_r_next_token[OF demo_mem_cstr, of 1 0] by (auto simp: next_token_def)

lemma strlcpy_ok:
  assumes "cstr m src s" "src \<noteq> NULL" "dst \<noteq> NULL" "dst + n \<le> src \<or> src + length s < dst" "0 < n"
  obtains m' where "strlcpy dst src n m = Some (length s, m')" "cstr m' dst (take (n - 1) s)"
    "\<forall>a. a < dst \<or> dst + n \<le> a \<longrightarrow> m' a = m a"
proof -
  let ?k = "min (length s) (n - 1)"
  let ?m = "(copy_up m dst src ?k)(dst + ?k := 0)"
  have k: "(if length s < n - 1 then length s else n - 1) = ?k" by simp
  have "strlcpy dst src n m = Some (length s, ?m)"
    using strlen_ok[OF assms(1,2)] assms(2,3,5) unfolding strlcpy_def by (simp add: memcpy_def k Let_def)
  moreover have "cstr ?m dst (take (n - 1) s)"
  proof -
    have "?m (dst + i) = take (n - 1) s ! i" if "i < ?k" for i
    proof -
      have "copy_up m dst src ?k (dst + i) = m (src + i)"
        by (rule copy_up_ok) (use that assms(4,5) in auto)
      then show ?thesis using cstr_nth[OF assms(1), of i] that by auto
    qed
    moreover have "0 \<notin> set (take (n - 1) s)" using cstr_no_zero[OF assms(1)] by (meson in_set_takeD)
    ultimately show ?thesis by (simp add: cstr_iff min.commute)
  qed
  moreover have "\<forall>a. a < dst \<or> dst + n \<le> a \<longrightarrow> ?m a = m a"
    using assms(5) copy_up_outside[of _ dst ?k m src] by auto
  ultimately show ?thesis using that by blast
qed

lemma strlcat_ok:
  assumes d: "cstr m dst t" and s: "cstr m src s" and nn: "src \<noteq> NULL" "dst \<noteq> NULL"
    and dis: "dst + n \<le> src \<or> src + length s < dst" and fit: "length t < n"
  obtains m' where "strlcat dst src n m = Some (length s + length t, m')" "cstr m' dst (take (n - 1) (t @ s))"
    "\<forall>a. a < dst \<or> dst + n \<le> a \<longrightarrow> m' a = m a"
proof -
  let ?e = "dst + length t" and ?c = "n - length t - 1"
  let ?k = "min (length s) ?c"
  let ?m = "(copy_up m ?e src ?k)(?e + ?k := 0)"
  have k: "(if length s < ?c then length s else ?c) = ?k" by simp
  have "strlcat dst src n m = Some (length s + length t, ?m)"
    using strlen_ok[OF s nn(1)] strlen_ok[OF d nn(2)] nn fit unfolding strlcat_def
    by (simp add: memcpy_def k Let_def)
  moreover have "cstr ?m dst (take (n - 1) (t @ s))"
  proof -
    have tk: "take (n - 1) (t @ s) = t @ take ?c s" using fit by simp
    have "?m (dst + i) = (t @ take ?c s) ! i" if i: "i < length t + ?k" for i
    proof (cases "i < length t")
      case True
      then show ?thesis using cstr_nth[OF d True] copy_up_outside[of "dst + i" ?e ?k m src]
        by (simp add: nth_append)
    next
      case False
      have "copy_up m ?e src ?k (?e + (i - length t)) = m (src + (i - length t))"
        by (rule copy_up_ok) (use i False dis fit in auto)
      then show ?thesis using cstr_nth[OF s, of "i - length t"] False i by (simp add: nth_append)
    qed
    moreover have "0 \<notin> set (t @ take ?c s)"
      using cstr_no_zero[OF d] cstr_no_zero[OF s] by (auto dest: in_set_takeD)
    ultimately show ?thesis unfolding tk by (simp add: cstr_iff min.commute add.assoc)
  qed
  moreover have "\<forall>a. a < dst \<or> dst + n \<le> a \<longrightarrow> ?m a = m a"
    using fit copy_up_outside[of _ ?e ?k m src] by auto
  ultimately show ?thesis using that by blast
qed

text \<open>
  \<open>strlcpy\<close> and \<open>strlcat\<close> never write past the \<open>n\<close> bytes of the destination, always leave
  it terminated, keep as much of the string as fits, and return the length the whole string
  would have had.
\<close>

theorem strlcpy_strlcat_bounded:
  assumes "cstr m src s" "src \<noteq> NULL" "dst \<noteq> NULL" "dst + n \<le> src \<or> src + length s < dst" "0 < n"
  shows "(\<exists>m'. strlcpy dst src n m = Some (length s, m') \<and> cstr m' dst (take (n - 1) s) \<and>
      (\<forall>a. a < dst \<or> dst + n \<le> a \<longrightarrow> m' a = m a)) \<and>
    (\<forall>t. cstr m dst t \<longrightarrow> length t < n \<longrightarrow>
      (\<exists>m'. strlcat dst src n m = Some (length s + length t, m') \<and> cstr m' dst (take (n - 1) (t @ s)) \<and>
        (\<forall>a. a < dst \<or> dst + n \<le> a \<longrightarrow> m' a = m a)))"
proof (intro conjI allI impI)
  show "\<exists>m'. strlcpy dst src n m = Some (length s, m') \<and> cstr m' dst (take (n - 1) s) \<and>
      (\<forall>a. a < dst \<or> dst + n \<le> a \<longrightarrow> m' a = m a)"
    using strlcpy_ok[OF assms] by blast
  fix t assume "cstr m dst t" "length t < n"
  then show "\<exists>m'. strlcat dst src n m = Some (length s + length t, m') \<and> cstr m' dst (take (n - 1) (t @ s)) \<and>
        (\<forall>a. a < dst \<or> dst + n \<le> a \<longrightarrow> m' a = m a)"
    using strlcat_ok[OF _ assms(1,2,3,4)] by blast
qed

theorem strlcpy_strlcat_bounded_witness:
  "(\<exists>m'. strlcpy 20 1 3 demo_mem = Some (4, m') \<and> cstr m' 20 [97, 47]) \<and>
   (\<exists>m'. strlcat 20 1 3 demo_mem = Some (4, m') \<and> cstr m' 20 [97, 47])"
proof -
  have "cstr demo_mem 20 []" by (simp add: demo_mem_def)
  have t: "take (3 - 1) [97, 47, 47, 98 :: u8] = [97, 47]" "length [97, 47, 47, 98 :: u8] = 4" by simp_all
  have c: "(\<exists>m'. strlcpy 20 1 3 demo_mem = Some (4, m') \<and> cstr m' 20 [97, 47] \<and>
      (\<forall>a. a < 20 \<or> 20 + 3 \<le> a \<longrightarrow> m' a = demo_mem a)) \<and>
    (\<forall>t. cstr demo_mem 20 t \<longrightarrow> length t < 3 \<longrightarrow>
      (\<exists>m'. strlcat 20 1 3 demo_mem = Some (4 + length t, m') \<and>
        cstr m' 20 (take (3 - 1) (t @ [97, 47, 47, 98])) \<and>
        (\<forall>a. a < 20 \<or> 20 + 3 \<le> a \<longrightarrow> m' a = demo_mem a)))"
    by (rule strlcpy_strlcat_bounded[OF demo_mem_cstr(1), of 20 3, unfolded t]) simp_all
  have "\<exists>m'. strlcat 20 1 3 demo_mem = Some (4 + length [], m') \<and>
      cstr m' 20 (take (3 - 1) ([] @ [97, 47, 47, 98]))"
    using c[THEN conjunct2, rule_format, OF \<open>cstr demo_mem 20 []\<close>] by auto
  then show ?thesis using c by auto
qed

end
