(* ===== verification/KStdlib.thy ===== *)
theory KStdlib imports KString "HOL-Library.Multiset" begin

text \<open>
  The standard library functions of \<open>lib/stdlib.c\<close> and the character classes of \<open>lib/ctype.h\<close>:
  \<open>atoi\<close> on the strings of \<open>KString\<close>, the heap sort \<open>sort\<close> and \<open>binary_search\<close>.  An array is the
  list of its bytes; an element is a run of \<open>size\<close> bytes, and the comparison function reads the
  bytes of two elements.  Element indexes are 1-based as in the code.  The indexes \<open>2 * i\<close> and
  \<open>2 * i + 1\<close> of \<open>heapify\<close> do not wrap, since an array of more than \<open>2 ^ 31\<close> elements and its
  kernel would not fit in the memory.
\<close>

section \<open>Characters\<close>

definition isdigit :: "int \<Rightarrow> bool" where
  "isdigit c \<longleftrightarrow> 48 \<le> c \<and> c \<le> 57"

definition isspace :: "int \<Rightarrow> bool" where
  "isspace c \<longleftrightarrow> c = 32 \<or> c = 12 \<or> c = 10 \<or> c = 13 \<or> c = 9 \<or> c = 11"

definition isblank :: "int \<Rightarrow> bool" where
  "isblank c \<longleftrightarrow> c = 32 \<or> c = 9"

definition islower :: "int \<Rightarrow> bool" where
  "islower c \<longleftrightarrow> 97 \<le> c \<and> c \<le> 122"

definition isupper :: "int \<Rightarrow> bool" where
  "isupper c \<longleftrightarrow> 65 \<le> c \<and> c \<le> 90"

definition isalpha :: "int \<Rightarrow> bool" where
  "isalpha c \<longleftrightarrow> islower c \<or> isupper c"

definition isalnum :: "int \<Rightarrow> bool" where
  "isalnum c \<longleftrightarrow> isalpha c \<or> isdigit c"

definition isxdigit :: "int \<Rightarrow> bool" where
  "isxdigit c \<longleftrightarrow> isdigit c \<or> (97 \<le> c \<and> c \<le> 102) \<or> (65 \<le> c \<and> c \<le> 70)"

definition isgraph :: "int \<Rightarrow> bool" where
  "isgraph c \<longleftrightarrow> 32 < c \<and> c < 127"

definition isprint :: "int \<Rightarrow> bool" where
  "isprint c \<longleftrightarrow> 32 \<le> c \<and> c < 127"

definition iscntrl :: "int \<Rightarrow> bool" where
  "iscntrl c \<longleftrightarrow> 0 \<le> c \<and> c < 32 \<or> c = 127"

definition isascii :: "int \<Rightarrow> bool" where
  "isascii c \<longleftrightarrow> 0 \<le> c \<and> c < 128"

definition ispunct :: "int \<Rightarrow> bool" where
  "ispunct c \<longleftrightarrow> isprint c \<and> \<not> isalnum c \<and> \<not> isspace c"

definition tolower :: "int \<Rightarrow> int" where
  "tolower c = (if isupper c then c - 65 + 97 else c)"

definition toupper :: "int \<Rightarrow> int" where
  "toupper c = (if islower c then c - 97 + 65 else c)"

section \<open>Numbers\<close>

text \<open>\<open>*s\<close> is a \<open>char\<close>, signed on the target; \<open>(unsigned char) *s\<close> in the call of \<open>isspace\<close>.\<close>

partial_function (option) skip_space :: "addr \<Rightarrow> memory \<Rightarrow> addr option" where
  "skip_space s m = (if isspace (uint (m s)) then skip_space (s + 1) m else Some s)"

partial_function (option) atoi_digits :: "u32 \<Rightarrow> addr \<Rightarrow> memory \<Rightarrow> u32 option" where
  "atoi_digits val s m =
     (if isdigit (sint (m s)) then atoi_digits (val * 10 - (scast (m s) - 48)) (s + 1) m else Some val)"

text \<open>The result is the bits of the \<open>int\<close>; a number that does not fit wraps, as the generated code does.\<close>

definition atoi :: "addr \<Rightarrow> memory \<Rightarrow> u32 option" where
  "atoi s m = do {
     ASSERT (s \<noteq> NULL);
     s \<leftarrow> skip_space s m;
     let (negative, s) = (if m s = 43 then (False, s + 1) else if m s = 45 then (True, s + 1) else (False, s));
     val \<leftarrow> atoi_digits 0 s m;
     Some (if \<not> negative then - val else val)
   }"

section \<open>Sorting\<close>

definition elem_at :: "nat \<Rightarrow> u8 list \<Rightarrow> nat \<Rightarrow> u8 list" where
  "elem_at size' array idx = get_bytes ((idx - 1) * size') size' array"

fun swap_bytes :: "nat \<Rightarrow> nat \<Rightarrow> nat list \<Rightarrow> u8 list \<Rightarrow> u8 list" where
  "swap_bytes a b [] array = array"
| "swap_bytes a b (i # is) array =
     swap_bytes a b is (array[a + i := array ! (b + i), b + i := array ! (a + i)])"

definition do_swap :: "u8 list \<Rightarrow> nat \<Rightarrow> nat \<Rightarrow> nat \<Rightarrow> u8 list" where
  "do_swap array a_idx b_idx size' =
     (let a = (a_idx - 1) * size'; b = (b_idx - 1) * size' in swap_bytes a b [0..<size'] array)"

definition do_compare ::
  "u8 list \<Rightarrow> nat \<Rightarrow> nat \<Rightarrow> nat \<Rightarrow> (u8 list \<Rightarrow> u8 list \<Rightarrow> int) \<Rightarrow> int" where
  "do_compare array a_idx b_idx size' compare =
     compare (elem_at size' array a_idx) (elem_at size' array b_idx)"

definition heapify_max ::
  "u8 list \<Rightarrow> nat \<Rightarrow> nat \<Rightarrow> nat \<Rightarrow> (u8 list \<Rightarrow> u8 list \<Rightarrow> int) \<Rightarrow> nat" where
  "heapify_max array i cnt size' compare =
     (let left = 2 * i;
          right = 2 * i + 1;
          max = i;
          max = (if left \<le> cnt \<and> do_compare array left max size' compare > 0 then left else max)
      in if right \<le> cnt \<and> do_compare array right max size' compare > 0 then right else max)"

lemma heapify_max_range:
  "heapify_max array i cnt size' compare = i \<or>
   (heapify_max array i cnt size' compare div 2 = i \<and> heapify_max array i cnt size' compare \<le> cnt \<and> i \<le> heapify_max array i cnt size' compare)"
  by (auto simp: heapify_max_def Let_def)

function heapify ::
  "u8 list \<Rightarrow> nat \<Rightarrow> nat \<Rightarrow> nat \<Rightarrow> (u8 list \<Rightarrow> u8 list \<Rightarrow> int) \<Rightarrow> u8 list" where
  "heapify array i cnt size' compare =
     (let max = heapify_max array i cnt size' compare in
      if max = i then array else heapify (do_swap array i max size') max cnt size' compare)"
  by pat_completeness auto
termination
proof (relation "measure (\<lambda>(array, i, cnt, size', compare). Suc cnt - i)")
  fix array i cnt size' compare max'
  assume "max' = heapify_max array i cnt size' compare" "max' \<noteq> (i :: nat)"
  then have "i < max'" "max' \<le> cnt" using heapify_max_range[of array i cnt size' compare] by auto
  then show "((do_swap array i max' size', max', cnt, size', compare), array, i, cnt, size', compare)
      \<in> measure (\<lambda>(array, i, cnt, size', compare). Suc cnt - i)"
    by simp
qed simp

declare heapify.simps [simp del]

fun build_heap ::
  "nat \<Rightarrow> u8 list \<Rightarrow> nat \<Rightarrow> nat \<Rightarrow> (u8 list \<Rightarrow> u8 list \<Rightarrow> int) \<Rightarrow> u8 list" where
  "build_heap 0 array cnt size' compare = array"
| "build_heap (Suc i) array cnt size' compare =
     build_heap i (heapify array (Suc i) cnt size' compare) cnt size' compare"

fun sort_heap :: "nat \<Rightarrow> u8 list \<Rightarrow> nat \<Rightarrow> (u8 list \<Rightarrow> u8 list \<Rightarrow> int) \<Rightarrow> u8 list" where
  "sort_heap i array size' compare =
     (if i > 1
      then sort_heap (i - 1) (heapify (do_swap array 1 i size') 1 (i - 1) size' compare) size' compare
      else array)"

declare sort_heap.simps [simp del]

definition sort_array ::
  "u8 list \<Rightarrow> nat \<Rightarrow> nat \<Rightarrow> (u8 list \<Rightarrow> u8 list \<Rightarrow> int) \<Rightarrow> u8 list option" where
  "sort_array array cnt size' compare = do {
     ASSERT (size' > 0);
     let array = build_heap (cnt div 2) array cnt size' compare;
     Some (sort_heap cnt array size' compare)
   }"

definition qsort :: "u8 list \<Rightarrow> nat \<Rightarrow> nat \<Rightarrow> (u8 list \<Rightarrow> u8 list \<Rightarrow> int) \<Rightarrow> u8 list option" where
  "qsort array cnt size' compare = sort_array array cnt size' compare"

section \<open>Searching\<close>

text \<open>
  Pointers into the array are offsets; a division by a zero \<open>size\<close> traps.  The result is the
  offset of the match, \<open>Some None\<close> for the null pointer.
\<close>

partial_function (option) binary_search_loop ::
  "u8 list \<Rightarrow> nat \<Rightarrow> nat \<Rightarrow> u8 list \<Rightarrow> nat \<Rightarrow> (u8 list \<Rightarrow> u8 list \<Rightarrow> int) \<Rightarrow> nat option option" where
  "binary_search_loop key first last' array size' compare =
     (if first < last'
      then do {
        ASSERT (size' \<noteq> 0);
        let range = (last' - first) div size';
        let middle = first + (range div 2) * size';
        let cmp = compare key (get_bytes middle size' array);
        if cmp < 0 then binary_search_loop key first middle array size' compare
        else if cmp > 0 then binary_search_loop key (middle + size') last' array size' compare
        else Some (Some middle)
      }
      else Some None)"

definition binary_search ::
  "u8 list \<Rightarrow> u8 list \<Rightarrow> nat \<Rightarrow> nat \<Rightarrow> (u8 list \<Rightarrow> u8 list \<Rightarrow> int) \<Rightarrow> nat option option" where
  "binary_search key array cnt size' compare = binary_search_loop key 0 (size' * cnt) array size' compare"

definition bsearch ::
  "u8 list \<Rightarrow> u8 list \<Rightarrow> nat \<Rightarrow> nat \<Rightarrow> (u8 list \<Rightarrow> u8 list \<Rightarrow> int) \<Rightarrow> nat option option" where
  "bsearch key array cnt size' compare = binary_search key array cnt size' compare"

end
