(* ===== verification/KStdio.thy ===== *)
theory KStdio imports KStdlib KBlock begin

text \<open>
  Formatted output, \<open>lib/stdio.c\<close>.  The functions of the code hand each character to a function
  \<open>output\<close> with its \<open>aux\<close> data; here they return the characters in that order, and \<open>vprintf_to\<close>
  folds \<open>output\<close> over them.  The variable arguments are the 32-bit words of the stack, the low word
  of a 64-bit argument first; a conversion for which no argument is left is undefined and gives
  \<open>None\<close>.  The format and the strings are read from a memory that the output does not overwrite.
  The flags, widths and precisions are the 32-bit values of the code.
\<close>

unbundle bit_operations_syntax

abbreviation byte :: "char \<Rightarrow> u8" where
  "byte c \<equiv> of_char c"

section \<open>Conversions\<close>

definition MINUS :: u32 where "MINUS = 1"
definition PLUS :: u32 where "PLUS = 2"
definition SPACE :: u32 where "SPACE = 4"
definition POUND :: u32 where "POUND = 8"
definition ZERO :: u32 where "ZERO = 16"
definition GROUP :: u32 where "GROUP = 32"

datatype arg_type = T_CHAR | T_SHORT | T_INT | T_INTMAX | T_LONG | T_LONGLONG | T_PTRDIFFT | T_SIZET

record printf_conversion =
  flags :: u32
  width :: u32
  precision :: u32
  arg_type :: arg_type

record integer_base =
  ib_base :: u64
  digits :: "u8 list"
  base_char :: u8
  group :: nat

definition base_d :: integer_base where
  "base_d = \<lparr>ib_base = 10, digits = map byte ''0123456789'', base_char = 0, group = 3\<rparr>"

definition base_o :: integer_base where
  "base_o = \<lparr>ib_base = 8, digits = map byte ''01234567'', base_char = 0, group = 3\<rparr>"

definition base_x :: integer_base where
  "base_x = \<lparr>ib_base = 16, digits = map byte ''0123456789abcdef'', base_char = byte CHR ''x'', group = 4\<rparr>"

definition base_X :: integer_base where
  "base_X = \<lparr>ib_base = 16, digits = map byte ''0123456789ABCDEF'', base_char = byte CHR ''X'', group = 4\<rparr>"

text \<open>The next argument of 32 and of 64 bits.\<close>

definition va_arg :: "u32 list \<Rightarrow> (u32 \<times> u32 list) option" where
  "va_arg args = (case args of [] \<Rightarrow> None | w # ws \<Rightarrow> Some (w, ws))"

definition va_arg64 :: "u32 list \<Rightarrow> (u64 \<times> u32 list) option" where
  "va_arg64 args = do {
     (lo, args) \<leftarrow> va_arg args;
     (hi, args) \<leftarrow> va_arg args;
     Some (ucast lo OR push_bit 32 (ucast hi), args)
   }"

section \<open>Parsing\<close>

partial_function (option) parse_flags :: "addr \<Rightarrow> u32 \<Rightarrow> memory \<Rightarrow> (u32 \<times> addr) option" where
  "parse_flags format fl m =
     (let c = m format in
      if c = byte CHR ''-'' then parse_flags (format + 1) (fl OR MINUS) m
      else if c = byte CHR ''+'' then parse_flags (format + 1) (fl OR PLUS) m
      else if c = byte CHR '' '' then parse_flags (format + 1) (fl OR SPACE) m
      else if c = byte CHR ''#'' then parse_flags (format + 1) (fl OR POUND) m
      else if c = byte CHR ''0'' then parse_flags (format + 1) (fl OR ZERO) m
      else if c = byte CHR 0x27 then parse_flags (format + 1) (fl OR GROUP) m
      else Some (fl, format))"

partial_function (option) parse_number :: "addr \<Rightarrow> u32 \<Rightarrow> memory \<Rightarrow> (u32 \<times> addr) option" where
  "parse_number format n m =
     (if isdigit (sint (m format)) then parse_number (format + 1) (n * 10 + scast (m format) - 48) m
      else Some (n, format))"

definition parse_type :: "addr \<Rightarrow> memory \<Rightarrow> arg_type \<times> addr" where
  "parse_type format m =
     (let c = m format; format = format + 1 in
      if c = byte CHR ''h'' then
        (if m format = byte CHR ''h'' then (T_CHAR, format + 1) else (T_SHORT, format))
      else if c = byte CHR ''j'' then (T_INTMAX, format)
      else if c = byte CHR ''l'' then
        (if m format = byte CHR ''l'' then (T_LONGLONG, format + 1) else (T_LONG, format))
      else if c = byte CHR ''t'' then (T_PTRDIFFT, format)
      else if c = byte CHR ''z'' then (T_SIZET, format)
      else (T_INT, format - 1))"

definition parse_conversion ::
  "addr \<Rightarrow> u32 list \<Rightarrow> memory \<Rightarrow> (addr \<times> printf_conversion \<times> u32 list) option" where
  "parse_conversion format args m = do {
     (fl, format) \<leftarrow> parse_flags format 0 m;
     let fl = (if fl AND MINUS \<noteq> 0 then fl AND NOT ZERO else fl);
     let fl = (if fl AND PLUS \<noteq> 0 then fl AND NOT SPACE else fl);
     (wd, format, args) \<leftarrow>
       (if m format = byte CHR ''*'' then do { (w, args) \<leftarrow> va_arg args; Some (w, format + 1, args) }
        else do { (w, format) \<leftarrow> parse_number format 0 m; Some (w, format, args) });
     let (wd, fl) = (if wd <s 0 then (- wd, fl OR MINUS) else (wd, fl));
     (prec, format, args) \<leftarrow>
       (if m format = byte CHR ''.'' then do {
          let format = format + 1;
          (p, format, args) \<leftarrow>
            (if m format = byte CHR ''*'' then do { (p, args) \<leftarrow> va_arg args; Some (p, format + 1, args) }
             else do { (p, format) \<leftarrow> parse_number format 0 m; Some (p, format, args) });
          Some (if p <s 0 then - 1 else p, format, args)
        }
        else Some (- 1, format, args));
     let fl = (if 0 \<le>s prec then fl AND NOT ZERO else fl);
     let (ty, format) = parse_type format m;
     Some (format, \<lparr>flags = fl, width = wd, precision = prec, arg_type = ty\<rparr>, args)
   }"

section \<open>Integers\<close>

partial_function (option) digits_loop ::
  "integer_base \<Rightarrow> bool \<Rightarrow> u64 \<Rightarrow> nat \<Rightarrow> u8 list \<Rightarrow> u8 list option" where
  "digits_loop b grouping val digit_cnt buf =
     (if val > 0 then do {
        let buf = (if grouping \<and> digit_cnt > 0 \<and> digit_cnt mod group b = 0 then buf @ [byte CHR '','' ] else buf);
        let buf = buf @ [digits b ! unat (val mod ib_base b)];
        digits_loop b grouping (val div ib_base b) (digit_cnt + 1) buf
      }
      else Some buf)"

text \<open>\<open>sizeof buf\<close> is 64.\<close>

function zeros_loop :: "u32 \<Rightarrow> u8 list \<Rightarrow> u8 list" where
  "zeros_loop prec buf =
     (if of_nat (length buf) <s prec \<and> length buf < 63 then zeros_loop prec (buf @ [byte CHR ''0'']) else buf)"
  by pat_completeness auto
termination
  by (relation "measure (\<lambda>(prec, buf). 63 - length buf)") auto

declare zeros_loop.simps [simp del]

definition output_dup :: "u8 \<Rightarrow> u32 \<Rightarrow> u8 list" where
  "output_dup ch cnt = replicate (unat cnt) ch"

definition format_sign :: "bool \<Rightarrow> bool \<Rightarrow> printf_conversion \<Rightarrow> u8" where
  "format_sign is_signed negative c =
     (if is_signed then
        (if flags c AND PLUS \<noteq> 0 then (if negative then byte CHR ''-'' else byte CHR ''+'')
         else if flags c AND SPACE \<noteq> 0 then (if negative then byte CHR ''-'' else byte CHR '' '')
         else if negative then byte CHR ''-'' else 0)
      else 0)"

definition format_integer ::
  "u64 \<Rightarrow> bool \<Rightarrow> bool \<Rightarrow> integer_base \<Rightarrow> printf_conversion \<Rightarrow> u8 list option" where
  "format_integer val is_signed negative b c = do {
     let sign = format_sign is_signed negative c;
     let x = (if flags c AND POUND \<noteq> 0 \<and> val \<noteq> 0 then base_char b else 0);
     buf \<leftarrow> digits_loop b (flags c AND GROUP \<noteq> 0) val 0 [];
     let prec = (if precision c <s 0 then 1 else precision c);
     let buf = zeros_loop prec buf;
     let buf = (if flags c AND POUND \<noteq> 0 \<and> ib_base b = 8 \<and> (buf = [] \<or> last buf \<noteq> byte CHR ''0'')
                then buf @ [byte CHR ''0''] else buf);
     let pad_cnt = width c - of_nat (length buf) - (if x \<noteq> 0 then 2 else 0) - (if sign \<noteq> 0 then 1 else 0);
     let pad_cnt = (if pad_cnt <s 0 then 0 else pad_cnt);
     Some ((if flags c AND (MINUS OR ZERO) = 0 then output_dup (byte CHR '' '') pad_cnt else []) @
       (if sign \<noteq> 0 then [sign] else []) @
       (if x \<noteq> 0 then [byte CHR ''0'', x] else []) @
       (if flags c AND ZERO \<noteq> 0 then output_dup (byte CHR ''0'') pad_cnt else []) @
       rev buf @
       (if flags c AND MINUS \<noteq> 0 then output_dup (byte CHR '' '') pad_cnt else []))
   }"

definition signed_arg :: "arg_type \<Rightarrow> u32 list \<Rightarrow> (u64 \<times> u32 list) option" where
  "signed_arg ty args =
     (case ty of
        T_CHAR \<Rightarrow> do { (w, args) \<leftarrow> va_arg args; Some (scast (ucast w :: u8), args) }
      | T_SHORT \<Rightarrow> do { (w, args) \<leftarrow> va_arg args; Some (scast (ucast w :: 16 word), args) }
      | T_INT \<Rightarrow> do { (w, args) \<leftarrow> va_arg args; Some (scast w, args) }
      | T_INTMAX \<Rightarrow> va_arg64 args
      | T_LONG \<Rightarrow> do { (w, args) \<leftarrow> va_arg args; Some (scast w, args) }
      | T_LONGLONG \<Rightarrow> va_arg64 args
      | T_PTRDIFFT \<Rightarrow> do { (w, args) \<leftarrow> va_arg args; Some (scast w, args) }
      | T_SIZET \<Rightarrow> do {
          (w, args) \<leftarrow> va_arg args;
          let val = ucast w;
          Some (if val > 0xffffffff div 2 then val - 0xffffffff - 1 else val, args)
        })"

definition unsigned_arg :: "arg_type \<Rightarrow> u32 list \<Rightarrow> (u64 \<times> u32 list) option" where
  "unsigned_arg ty args =
     (case ty of
        T_CHAR \<Rightarrow> do { (w, args) \<leftarrow> va_arg args; Some (ucast (ucast w :: u8), args) }
      | T_SHORT \<Rightarrow> do { (w, args) \<leftarrow> va_arg args; Some (ucast (ucast w :: 16 word), args) }
      | T_INT \<Rightarrow> do { (w, args) \<leftarrow> va_arg args; Some (ucast w, args) }
      | T_INTMAX \<Rightarrow> va_arg64 args
      | T_LONG \<Rightarrow> do { (w, args) \<leftarrow> va_arg args; Some (ucast w, args) }
      | T_LONGLONG \<Rightarrow> va_arg64 args
      | T_PTRDIFFT \<Rightarrow> do { (w, args) \<leftarrow> va_arg args; Some (scast w AND (push_bit 1 0x7fffffff OR 1), args) }
      | T_SIZET \<Rightarrow> do { (w, args) \<leftarrow> va_arg args; Some (ucast w, args) })"

section \<open>Strings\<close>

definition format_string :: "addr \<Rightarrow> u32 \<Rightarrow> printf_conversion \<Rightarrow> memory \<Rightarrow> u8 list" where
  "format_string string len c m =
     (if len <s width c \<and> flags c AND MINUS = 0 then output_dup (byte CHR '' '') (width c - len) else []) @
     map (\<lambda>i. m (string + i)) [0..<nat (sint len)] @
     (if len <s width c \<and> flags c AND MINUS \<noteq> 0 then output_dup (byte CHR '' '') (width c - len) else [])"

text \<open>A string constant of the code, at the address 1 of a memory of its own.\<close>

definition literal :: "string \<Rightarrow> memory" where
  "literal s a = (if 1 \<le> a \<and> a \<le> length s then byte (s ! (a - 1)) else 0)"

section \<open>The main loop\<close>

text \<open>
  The format is read from \<open>fm\<close> and the strings from \<open>m\<close>: they are the same memory but for the
  constant formats of the messages about unsupported conversions.
\<close>

partial_function (option) vprintf_loop ::
  "addr \<Rightarrow> memory \<Rightarrow> u32 list \<Rightarrow> memory \<Rightarrow> u8 list option" where
  "vprintf_loop format fm args m =
     (if fm format = 0 then Some []
      else if fm format \<noteq> byte CHR ''%'' then do {
        rest \<leftarrow> vprintf_loop (format + 1) fm args m;
        Some (fm format # rest)
      }
      else if fm (format + 1) = byte CHR ''%'' then do {
        rest \<leftarrow> vprintf_loop (format + 1 + 1) fm args m;
        Some (byte CHR ''%'' # rest)
      }
      else do {
        (format, c, args) \<leftarrow> parse_conversion (format + 1) args fm;
        let k = fm format;
        (out, args) \<leftarrow>
          (if k \<in> {byte CHR ''d'', byte CHR ''i''} then do {
             (val, args) \<leftarrow> signed_arg (arg_type c) args;
             out \<leftarrow> format_integer (if val <s 0 then - val else val) True (val <s 0) base_d c;
             Some (out, args)
           }
           else if k \<in> {byte CHR ''o'', byte CHR ''u'', byte CHR ''x'', byte CHR ''X''} then do {
             (val, args) \<leftarrow> unsigned_arg (arg_type c) args;
             let b = (if k = byte CHR ''o'' then base_o else if k = byte CHR ''u'' then base_d
                      else if k = byte CHR ''x'' then base_x else base_X);
             out \<leftarrow> format_integer val False False b c;
             Some (out, args)
           }
           else if k = byte CHR ''c'' then do {
             (w, args) \<leftarrow> va_arg args;
             Some (format_string 1 1 c (\<lambda>_. ucast w), args)
           }
           else if k = byte CHR ''s'' then do {
             (w, args) \<leftarrow> va_arg args;
             let (s, m) = (if w = 0 then (1, literal ''(null)'') else (unat w, m));
             len \<leftarrow> strnlen s (unat (precision c)) m;
             Some (format_string s (of_nat len) c m, args)
           }
           else if k = byte CHR ''p'' then do {
             (w, args) \<leftarrow> va_arg args;
             out \<leftarrow> format_integer (ucast w) False False base_x (c\<lparr>flags := POUND\<rparr>);
             Some (out, args)
           }
           else if k \<in> {byte CHR ''f'', byte CHR ''e'', byte CHR ''E'', byte CHR ''g'', byte CHR ''G'', byte CHR ''n''} then do {
             out \<leftarrow> vprintf_loop 1 (literal ''<<no %%%c in kernel>>'') [scast k] m;
             Some (out, args)
           }
           else do {
             out \<leftarrow> vprintf_loop 1 (literal ''<<no %%%c conversion>>'') [scast k] m;
             Some (out, args)
           });
        rest \<leftarrow> vprintf_loop (format + 1) fm args m;
        Some (out @ rest)
      })"

definition vprintf_to ::
  "addr \<Rightarrow> u32 list \<Rightarrow> memory \<Rightarrow> (u8 \<Rightarrow> 'a \<Rightarrow> 'a) \<Rightarrow> 'a \<Rightarrow> 'a option" where
  "vprintf_to format args m output aux = do {
     out \<leftarrow> vprintf_loop format m args m;
     Some (fold output out aux)
   }"

section \<open>Output into a buffer\<close>

record vsnprintf_aux =
  out_p :: addr
  out_length :: u32
  max_length :: u32
  out_mem :: memory

definition vsnprintf_helper :: "u8 \<Rightarrow> vsnprintf_aux \<Rightarrow> vsnprintf_aux" where
  "vsnprintf_helper ch aux =
     (let room = out_length aux <s max_length aux;
          aux = aux\<lparr>out_length := out_length aux + 1\<rparr>
      in if room then aux\<lparr>out_mem := (out_mem aux)(out_p aux := ch), out_p := out_p aux + 1\<rparr> else aux)"

definition vsnprintf :: "addr \<Rightarrow> u32 \<Rightarrow> addr \<Rightarrow> u32 list \<Rightarrow> memory \<Rightarrow> (u32 \<times> memory) option" where
  "vsnprintf buffer buf_size format args m = do {
     aux \<leftarrow> vprintf_to format args m vsnprintf_helper
       \<lparr>out_p = buffer, out_length = 0, max_length = (if buf_size > 0 then buf_size - 1 else 0), out_mem = m\<rparr>;
     Some (out_length aux, if buf_size > 0 then (out_mem aux)(out_p aux := 0) else out_mem aux)
   }"

definition snprintf :: "addr \<Rightarrow> u32 \<Rightarrow> addr \<Rightarrow> u32 list \<Rightarrow> memory \<Rightarrow> (u32 \<times> memory) option" where
  "snprintf buffer buf_size format args m = vsnprintf buffer buf_size format args m"

end
