(* ===== verification/KPrintf.thy ===== *)
theory KPrintf imports KConsole KStdio begin

unbundle bit_operations_syntax

text \<open>
  Formatted output to the console: \<open>vprintf\<close> of \<open>lib/kernel/console.c\<close>, and \<open>hex_dump\<close> and
  \<open>print_human_readable_size\<close> of \<open>lib/stdio.c\<close>, which are sequences of calls of \<open>printf\<close>; each call
  is given by its output.
\<close>

definition vprintf :: "addr \<Rightarrow> u32 list \<Rightarrow> memory \<Rightarrow> sched \<Rightarrow> sched option" where
  "vprintf format args m st = do {
     out \<leftarrow> vprintf_loop format m args m;
     console_out out st
   }"

text \<open>The output of a call of \<open>printf\<close> with a constant format.\<close>

definition printf_out :: "string \<Rightarrow> u32 list \<Rightarrow> u8 list option" where
  "printf_out fmt args = vprintf_loop 1 (literal fmt) args (literal fmt)"

text \<open>The calls \<open>f i\<close> for \<open>i\<close> from \<open>a\<close> to below \<open>b\<close>.\<close>

definition for_out :: "nat \<Rightarrow> nat \<Rightarrow> (nat \<Rightarrow> u8 list option) \<Rightarrow> u8 list list option" where
  "for_out a b f = fold (\<lambda>i acc. do { outs \<leftarrow> acc; out \<leftarrow> f i; Some (outs @ [out]) }) [a..<b] (Some [])"

text \<open>The string \<open>s\<close> at the address 1, for an argument of \<open>printf\<close>.\<close>

definition string_arg :: "u8 list \<Rightarrow> memory" where
  "string_arg s a = (if 1 \<le> a \<and> a \<le> length s then s ! (a - 1) else 0)"

text \<open>One call of \<open>printf\<close> after the other.\<close>

definition console_seq :: "u8 list list \<Rightarrow> sched \<Rightarrow> sched option" where
  "console_seq outs st = do {
     st \<leftarrow> return st;
     (case outs of
        [] \<Rightarrow> Some st
      | out # outs \<Rightarrow> do { st \<leftarrow> call (ConsoleSeq outs) st; console_out out st })
   }"

section \<open>Dumps\<close>

definition per_line :: nat where "per_line = 16"

definition line_end :: "nat \<Rightarrow> nat \<Rightarrow> nat" where
  "line_end start sz = (let e = per_line in if e - start > sz then start + sz else e)"

definition dump_line :: "u32 \<Rightarrow> addr \<Rightarrow> nat \<Rightarrow> bool \<Rightarrow> memory \<Rightarrow> u8 list list option" where
  "dump_line ofs buf sz ascii m = (
     let start = unat ofs mod per_line; e = line_end start sz in do {
     head \<leftarrow> printf_out ''%08jx  '' [of_nat (unat ofs div per_line * per_line), 0];
     pad \<leftarrow> for_out 0 start (\<lambda>i. printf_out ''   '' []);
     hex \<leftarrow> for_out start e (\<lambda>i. printf_out ''%02hhx%c''
       [ucast (m (buf + (i - start))), ucast (byte (if i = per_line div 2 - 1 then CHR ''-'' else CHR '' ''))]);
     text \<leftarrow> (if ascii then do {
         rest \<leftarrow> for_out e per_line (\<lambda>i. printf_out ''   '' []);
         bar \<leftarrow> printf_out ''|'' [];
         spaces \<leftarrow> for_out 0 start (\<lambda>i. printf_out '' '' []);
         chars \<leftarrow> for_out start e (\<lambda>i. let c = m (buf + (i - start)) in
           printf_out ''%c'' [if isprint (uint c) then ucast c else ucast (byte CHR ''.'')]);
         fill \<leftarrow> for_out e per_line (\<lambda>i. printf_out '' '' []);
         bar2 \<leftarrow> printf_out ''|'' [];
         Some (rest @ [bar] @ spaces @ chars @ fill @ [bar2])
       }
       else Some []);
     Some ([head] @ pad @ hex @ text @ [[10]])
   })"

function hex_dump :: "u32 \<Rightarrow> addr \<Rightarrow> nat \<Rightarrow> bool \<Rightarrow> memory \<Rightarrow> u8 list list option" where
  "hex_dump ofs buf sz ascii m =
     (if sz > 0 then do {
        let start = unat ofs mod per_line;
        let n = line_end start sz - start;
        line \<leftarrow> dump_line ofs buf sz ascii m;
        rest \<leftarrow> hex_dump (ofs + of_nat n) (buf + n) (sz - n) ascii m;
        Some (line @ rest)
      }
      else Some [])"
  by auto
termination
proof (relation "measure (\<lambda>(ofs, buf, sz, ascii, m). sz)")
  fix ofs :: u32 and sz start n :: nat and buf :: addr and ascii m
  assume "0 < sz" "start = unat ofs mod per_line" "n = line_end start sz - start"
  moreover have "unat ofs mod per_line < per_line" by (simp add: per_line_def)
  ultimately have "0 < n" by (auto simp: line_end_def Let_def per_line_def)
  then show "((ofs + of_nat n, buf + n, sz - n, ascii, m), (ofs, buf, sz, ascii, m)) \<in> measure (\<lambda>(ofs, buf, sz, ascii, m). sz)"
    using \<open>0 < sz\<close> by simp
qed simp

section \<open>Sizes\<close>

definition factors :: "string list" where "factors = [''bytes'', ''kB'', ''MB'', ''GB'', ''TB'']"

fun size_loop :: "string list \<Rightarrow> u64 \<Rightarrow> string \<times> u64" where
  "size_loop (f # g # fs) sz = (if sz \<ge> 1024 then size_loop (g # fs) (sz div 1024) else (f, sz))"
| "size_loop fs sz = (hd fs, sz)"

definition print_human_readable_size :: "u64 \<Rightarrow> u8 list option" where
  "print_human_readable_size sz =
     (if sz = 1 then printf_out ''1 byte'' []
      else
        let (f, sz) = size_loop factors sz; m = literal f in
        vprintf_loop 1 (literal ''%llu %s'') [ucast sz, ucast (drop_bit 32 sz), 1] m)"

end
