(* ===== verification/KLoad.thy ===== *)
theory KLoad imports KSched begin

unbundle bit_operations_syntax

text \<open>
  Loading a user program, \<open>userprog/process.c\<close>: the ELF headers, the segments, and the initial
  user stack with the arguments.
\<close>

text \<open>\<open>malloc\<close>, of \<open>threads/malloc.c\<close>, returns the next of the addresses in \<open>mallocs\<close>, or fails.\<close>

definition malloc :: "sched \<Rightarrow> addr \<times> sched" where
  "malloc st = (case mallocs st of [] \<Rightarrow> (0, st) | a # as \<Rightarrow> (a, st\<lparr>mallocs := as\<rparr>))"

section \<open>Headers\<close>

text \<open>The 16-bit and 32-bit fields at a byte offset.\<close>

definition field16 :: "u8 list \<Rightarrow> nat \<Rightarrow> nat" where
  "field16 b i = unat (b ! i) + 256 * unat (b ! (i + 1))"

definition field32 :: "u8 list \<Rightarrow> nat \<Rightarrow> u32" where
  "field32 b i = dec32 (get_bytes i 4 b)"

record Elf32_Ehdr =
  e_ident :: "u8 list"
  e_type :: nat
  e_machine :: nat
  e_version :: u32
  e_entry :: u32
  e_phoff :: u32
  e_phentsize :: nat
  e_phnum :: nat

definition dec_ehdr :: "u8 list \<Rightarrow> Elf32_Ehdr" where
  "dec_ehdr b = \<lparr>e_ident = get_bytes 0 16 b, e_type = field16 b 16, e_machine = field16 b 18,
     e_version = field32 b 20, e_entry = field32 b 24, e_phoff = field32 b 28,
     e_phentsize = field16 b 42, e_phnum = field16 b 44\<rparr>"

record Elf32_Phdr =
  p_type :: u32
  p_offset :: u32
  p_vaddr :: u32
  p_filesz :: u32
  p_memsz :: u32
  p_flags :: u32

definition dec_phdr :: "u8 list \<Rightarrow> Elf32_Phdr" where
  "dec_phdr b = \<lparr>p_type = field32 b 0, p_offset = field32 b 4, p_vaddr = field32 b 8,
     p_filesz = field32 b 16, p_memsz = field32 b 20, p_flags = field32 b 24\<rparr>"

definition PT_LOAD :: u32 where "PT_LOAD = 1"
definition PT_DYNAMIC :: u32 where "PT_DYNAMIC = 2"
definition PT_INTERP :: u32 where "PT_INTERP = 3"
definition PT_SHLIB :: u32 where "PT_SHLIB = 5"
definition PF_W :: u32 where "PF_W = 2"

text \<open>\<open>"\<backslash>177ELF\<backslash>1\<backslash>1\<backslash>1"\<close>\<close>

definition ELF_IDENT :: "u8 list" where
  "ELF_IDENT = [127, 69, 76, 70, 1, 1, 1]"

definition ehdr_ok :: "Elf32_Ehdr \<Rightarrow> bool" where
  "ehdr_ok h \<longleftrightarrow> take 7 (e_ident h) = ELF_IDENT \<and> e_type h = 2 \<and> e_machine h = 3 \<and>
     e_version h = 1 \<and> e_phentsize h = 32 \<and> e_phnum h \<le> 1024"

definition validate_segment :: "Elf32_Phdr \<Rightarrow> addr \<Rightarrow> fs \<Rightarrow> bool option" where
  "validate_segment phdr file f = do {
     len \<leftarrow> file_length file f;
     Some (if p_offset phdr AND PGMASK \<noteq> p_vaddr phdr AND PGMASK then False
       else if p_offset phdr > word_of_int len then False
       else if p_memsz phdr < p_filesz phdr then False
       else if p_memsz phdr = 0 then False
       else if \<not> is_user_vaddr (p_vaddr phdr) then False
       else if \<not> is_user_vaddr (p_vaddr phdr + p_memsz phdr) then False
       else if p_vaddr phdr + p_memsz phdr < p_vaddr phdr then False
       else if p_vaddr phdr < PAGE then False
       else True)
   }"

section \<open>Segments\<close>

definition USER_FLAGS :: palloc_flags where
  "USER_FLAGS = NO_FLAGS\<lparr>PAL_USER := True\<rparr>"

text \<open>The bytes \<open>bs\<close> of a whole page are copied to \<open>page\<close>.\<close>

definition put_page :: "u32 \<Rightarrow> u8 list \<Rightarrow> vmem \<Rightarrow> vmem" where
  "put_page page bs v = v\<lparr>words := (\<lambda>a. let d = unat (a - page) in
     if d < PGSIZE \<and> d mod 4 = 0 then word_at bs (d div 4) else words v a)\<rparr>"

definition install_page :: "u32 \<Rightarrow> u32 \<Rightarrow> bool \<Rightarrow> sched \<Rightarrow> (bool \<times> sched) option" where
  "install_page upage page writable st = do {
     t \<leftarrow> current st;
     p \<leftarrow> pagedir_get_page (pagedir t) upage (vm st);
     if p = 0 then do {
       (ok, v) \<leftarrow> pagedir_set_page (pagedir t) upage page writable (vm st);
       Some (ok, st\<lparr>vm := v\<rparr>)
     }
     else Some (False, st)
   }"

partial_function (option) load_segment_loop ::
  "addr \<Rightarrow> u32 \<Rightarrow> u32 \<Rightarrow> u32 \<Rightarrow> bool \<Rightarrow> sched \<Rightarrow> (bool \<times> sched) option" where
  "load_segment_loop file upage read_bytes zero_bytes writable st =
     (if read_bytes > 0 \<or> zero_bytes > 0 then do {
        let page_read_bytes = (if read_bytes < PAGE then read_bytes else PAGE);
        let page_zero_bytes = PAGE - page_read_bytes;
        (page, v) \<leftarrow> palloc_get_page USER_FLAGS (vm st);
        let st = st\<lparr>vm := v\<rparr>;
        if page = 0 then Some (False, st)
        else do {
          (bytes, f) \<leftarrow> file_read file (uint page_read_bytes) (kfs st);
          let st = st\<lparr>kfs := f\<rparr>;
          if length bytes \<noteq> unat page_read_bytes then do {
            v \<leftarrow> palloc_free_page page (vm st);
            Some (False, st\<lparr>vm := v\<rparr>)
          }
          else do {
            let st = st\<lparr>vm := put_page page (bytes @ replicate (unat page_zero_bytes) 0) (vm st)\<rparr>;
            (ok, st) \<leftarrow> install_page upage page writable st;
            if \<not> ok then do {
              v \<leftarrow> palloc_free_page page (vm st);
              Some (False, st\<lparr>vm := v\<rparr>)
            }
            else load_segment_loop file (upage + PAGE) (read_bytes - page_read_bytes)
                   (zero_bytes - page_zero_bytes) writable st
          }
        }
      }
      else Some (True, st))"

definition load_segment ::
  "addr \<Rightarrow> int \<Rightarrow> u32 \<Rightarrow> u32 \<Rightarrow> u32 \<Rightarrow> bool \<Rightarrow> sched \<Rightarrow> (bool \<times> sched) option" where
  "load_segment file ofs upage read_bytes zero_bytes writable st = do {
     ASSERT ((read_bytes + zero_bytes) mod PAGE = 0);
     ASSERT (pg_ofs upage = 0);
     ASSERT (ofs smod int PGSIZE = 0);
     f \<leftarrow> file_seek file ofs (kfs st);
     load_segment_loop file upage read_bytes zero_bytes writable (st\<lparr>kfs := f\<rparr>)
   }"

text \<open>\<open>ROUND_UP (x, PGSIZE)\<close> on \<open>uint32_t\<close>.\<close>

definition round_up_page :: "u32 \<Rightarrow> u32" where
  "round_up_page x = (x + PAGE - 1) div PAGE * PAGE"

definition load_phdr :: "addr \<Rightarrow> Elf32_Phdr \<Rightarrow> sched \<Rightarrow> (bool \<times> sched) option" where
  "load_phdr file phdr st = (
     if p_type phdr = PT_DYNAMIC \<or> p_type phdr = PT_INTERP \<or> p_type phdr = PT_SHLIB then Some (False, st)
     else if p_type phdr = PT_LOAD then do {
       ok \<leftarrow> validate_segment phdr file (kfs st);
       if ok then do {
         let writable = (p_flags phdr AND PF_W \<noteq> 0);
         let file_page = p_offset phdr AND (NOT PGMASK);
         let mem_page = p_vaddr phdr AND (NOT PGMASK);
         let page_offset = p_vaddr phdr AND PGMASK;
         let (read_bytes, zero_bytes) =
           (if p_filesz phdr > 0
            then (page_offset + p_filesz phdr,
                  round_up_page (page_offset + p_memsz phdr) - (page_offset + p_filesz phdr))
            else (0, round_up_page (page_offset + p_memsz phdr)));
         load_segment file (sint file_page) mem_page read_bytes zero_bytes writable st
       }
       else Some (False, st)
     }
     else Some (True, st))"

fun load_phdrs_loop :: "addr \<Rightarrow> nat \<Rightarrow> int \<Rightarrow> sched \<Rightarrow> (bool \<times> sched) option" where
  "load_phdrs_loop file 0 file_ofs st = Some (True, st)"
| "load_phdrs_loop file (Suc n) file_ofs st = do {
     len \<leftarrow> file_length file (kfs st);
     if file_ofs < 0 \<or> file_ofs > len then Some (False, st)
     else do {
       f \<leftarrow> file_seek file file_ofs (kfs st);
       (b, f) \<leftarrow> file_read file 32 f;
       let st = st\<lparr>kfs := f\<rparr>;
       if length b \<noteq> 32 then Some (False, st)
       else do {
         file_ofs \<leftarrow> off (file_ofs + 32);
         (ok, st) \<leftarrow> load_phdr file (dec_phdr b) st;
         if ok then load_phdrs_loop file n file_ofs st else Some (False, st)
       }
     }
   }"

section \<open>The initial stack\<close>

text \<open>
  The user stack is one page below \<open>PHYS_BASE\<close>; \<open>page\<close> are its bytes.  The kernel writes through
  user addresses, and a write below the page is a page fault in the kernel: \<open>None\<close>.
\<close>

definition STACK_TOP :: nat where "STACK_TOP = 0xc0000000"
definition STACK_BOTTOM :: nat where "STACK_BOTTOM = 0xbffff000"
definition WORD_SIZE :: nat where "WORD_SIZE = 4"
definition DEFAULT_ARGV :: nat where "DEFAULT_ARGV = 2"

definition poke :: "nat \<Rightarrow> u8 list \<Rightarrow> u8 list \<Rightarrow> u8 list option" where
  "poke esp bs page = do {
     ASSERT (STACK_BOTTOM \<le> esp \<and> esp + length bs \<le> STACK_TOP);
     Some (put_bytes (esp - STACK_BOTTOM) bs page)
   }"

text \<open>
  The loop over the tokens: \<open>argv\<close> and the allocated \<open>argv_size\<close>; \<open>as\<close> are the addresses that
  the coming allocations return, as in \<open>mallocs\<close>.  A failed \<open>realloc\<close> ends it with the result
  \<open>None\<close>.  The bytes pushed are \<open>page\<close>; \<open>realloc\<close> allocates the larger block like \<open>malloc\<close>.
\<close>

fun push_strings_loop ::
  "u8 list list \<Rightarrow> nat list \<Rightarrow> nat \<Rightarrow> addr list \<Rightarrow> nat \<Rightarrow> u8 list \<Rightarrow>
   ((nat list \<times> nat \<times> u8 list) option \<times> addr list) option" where
  "push_strings_loop [] argv argv_size as esp page = Some (Some (argv, esp, page), as)"
| "push_strings_loop (token # ts) argv argv_size as esp page = do {
     ASSERT (length token + 1 \<le> esp);
     let esp = esp - (length token + 1);
     let argv = argv @ [esp];
     let (ok, argv_size, as) =
       (if length argv \<ge> argv_size then (as \<noteq> [] \<and> hd as \<noteq> 0, argv_size * 2, tl as)
        else (True, argv_size, as));
     if \<not> ok then Some (None, as)
     else do {
       page \<leftarrow> poke esp (token @ [0]) page;
       push_strings_loop ts argv argv_size as esp page
     }
   }"

text \<open>The words of \<open>argv\<close>, the last one first.\<close>

fun push_words_loop :: "nat list \<Rightarrow> nat \<Rightarrow> u8 list \<Rightarrow> (nat \<times> u8 list) option" where
  "push_words_loop [] esp page = Some (esp, page)"
| "push_words_loop (w # ws) esp page = do {
     page \<leftarrow> poke (esp - 4) (enc32 (of_nat w)) page;
     push_words_loop ws (esp - 4) page
   }"

definition push_args ::
  "u8 list list \<Rightarrow> addr list \<Rightarrow> u8 list \<Rightarrow> ((nat \<times> u8 list) option \<times> addr list) option" where
  "push_args args as page = do {
     (r, as) \<leftarrow> push_strings_loop args [] DEFAULT_ARGV as STACK_TOP page;
     case r of
       None \<Rightarrow> Some (None, as)
     | Some (argv, esp, page) \<Rightarrow> do {
         let argc = length argv;
         let i = esp mod WORD_SIZE;
         (esp, page) \<leftarrow>
           (if i \<noteq> 0 then do { page \<leftarrow> poke (esp - i) (replicate i 0) page; Some (esp - i, page) }
            else Some (esp, page));
         (esp, page) \<leftarrow> push_words_loop (rev (argv @ [0])) esp page;
         let token = esp;
         (esp, page) \<leftarrow> push_words_loop [token, argc, 0] esp page;
         Some (Some (esp, page), as)
       }
   }"

definition setup_stack :: "u8 list list \<Rightarrow> sched \<Rightarrow> (nat option \<times> sched) option" where
  "setup_stack args st = do {
     (page, v) \<leftarrow> palloc_get_page (USER_FLAGS\<lparr>PAL_ZERO := True\<rparr>) (vm st);
     let st = st\<lparr>vm := v\<rparr>;
     if page = 0 then Some (None, st)
     else do {
       (success, st) \<leftarrow> install_page (PHYS_BASE - PAGE) page True st;
       if \<not> success then do {
         v \<leftarrow> palloc_free_page page (vm st);
         Some (None, st\<lparr>vm := v\<rparr>)
       }
       else do {
         let (argv, st) = malloc st;
         if argv = 0 then Some (None, st)
         else do {
           (r, as) \<leftarrow> push_args args (mallocs st) (replicate PGSIZE 0);
           let st = st\<lparr>mallocs := as\<rparr>;
           case r of
             None \<Rightarrow> Some (None, st)
           | Some (esp, bs) \<Rightarrow> Some (Some esp, st\<lparr>vm := put_page page bs (vm st)\<rparr>)
         }
       }
     }
   }"

end
