(* ===== verification/KProcess.thy ===== *)
theory KProcess imports KPrintf KLoad KFilesys begin

text \<open>
  Processes and the life of a thread: the child and file tables and the system calls of
  \<open>userprog/syscall.c\<close>, \<open>userprog/process.c\<close>, and creation and exit in \<open>threads/thread.c\<close>.
  A call that can block pushes the continuation of its caller, which theory KSyscall runs.
\<close>

section \<open>The file system\<close>

text \<open>An operation of the file system, with the working directory of the running thread.\<close>

definition with_fs :: "(fs \<Rightarrow> ('a \<times> fs) option) \<Rightarrow> sched \<Rightarrow> ('a \<times> sched) option" where
  "with_fs oper st = do {
     t \<leftarrow> current st;
     (r, f) \<leftarrow> oper ((kfs st)\<lparr>cwd := t_cwd t\<rparr>);
     Some (r, put_thread (cur st) (t\<lparr>t_cwd := cwd f\<rparr>) (st\<lparr>kfs := f\<rparr>))
   }"

definition with_fs_unit :: "(fs \<Rightarrow> fs option) \<Rightarrow> sched \<Rightarrow> sched option" where
  "with_fs_unit oper st = do {
     (u, st) \<leftarrow> with_fs (\<lambda>f. do { f \<leftarrow> oper f; Some ((), f) }) st;
     Some st
   }"

definition upd_current :: "(thread \<Rightarrow> thread) \<Rightarrow> sched \<Rightarrow> sched option" where
  "upd_current g st = do { t \<leftarrow> current st; Some (put_thread (cur st) (g t) st) }"

definition set_eax :: "int \<Rightarrow> sched \<Rightarrow> sched option" where
  "set_eax v st = upd_current (\<lambda>t. t\<lparr>eax := v\<rparr>) st"

section \<open>Child processes\<close>

definition NOT_LOADED :: nat where "NOT_LOADED = 0"
definition LOAD_SUCCESS :: nat where "LOAD_SUCCESS = 1"
definition LOAD_FAIL :: nat where "LOAD_FAIL = 2"
definition ERROR :: int where "ERROR = - 1"
definition CLOSE_ALL :: int where "CLOSE_ALL = - 1"

definition load_sema :: "addr \<Rightarrow> addr" where "load_sema cp = cp + 16"
definition exit_sema :: "addr \<Rightarrow> addr" where "exit_sema cp = cp + 36"

definition add_child_process :: "int \<Rightarrow> sched \<Rightarrow> (addr \<times> sched) option" where
  "add_child_process pid st = (let (cp, st) = malloc st in
     if cp = 0 then Some (0, st)
     else do {
       let x = \<lparr>cp_pid = pid, cp_load = NOT_LOADED, cp_wait = False, cp_exit = False,
                cp_status = junk_status st\<rparr>;
       let st = st\<lparr>children := (children st)(cp \<mapsto> x)\<rparr>;
       st \<leftarrow> sema_init (load_sema cp) 0 st;
       st \<leftarrow> sema_init (exit_sema cp) 0 st;
       st \<leftarrow> upd_current (\<lambda>t. t\<lparr>child_list := child_list t @ [cp]\<rparr>) st;
       Some (cp, st)
     })"

fun get_child_loop :: "int \<Rightarrow> addr list \<Rightarrow> sched \<Rightarrow> addr option" where
  "get_child_loop pid [] st = Some 0"
| "get_child_loop pid (cp # cps) st = do {
     x \<leftarrow> children st cp;
     if pid = cp_pid x then Some cp else get_child_loop pid cps st
   }"

definition get_child_process :: "int \<Rightarrow> sched \<Rightarrow> addr option" where
  "get_child_process pid st = do { t \<leftarrow> current st; get_child_loop pid (child_list t) st }"

text \<open>\<open>free (cp)\<close> ends the life of the record and of its two semaphores.\<close>

definition free_child :: "addr \<Rightarrow> sched \<Rightarrow> sched" where
  "free_child cp st = st\<lparr>children := (children st)(cp := None),
     semas := (semas st)(load_sema cp := None, exit_sema cp := None)\<rparr>"

definition remove_child_process :: "addr \<Rightarrow> sched \<Rightarrow> sched option" where
  "remove_child_process cp st = do {
     st \<leftarrow> upd_current (\<lambda>t. t\<lparr>child_list := remove1 cp (child_list t)\<rparr>) st;
     Some (free_child cp st)
   }"

fun remove_children_loop :: "addr list \<Rightarrow> sched \<Rightarrow> sched option" where
  "remove_children_loop [] st = Some st"
| "remove_children_loop (cp # cps) st = do {
     st \<leftarrow> remove_child_process cp st;
     remove_children_loop cps st
   }"

definition remove_child_processes :: "sched \<Rightarrow> sched option" where
  "remove_child_processes st = do { t \<leftarrow> current st; remove_children_loop (child_list t) st }"

section \<open>Open files of a process\<close>

definition process_add :: "addr \<Rightarrow> bool \<Rightarrow> sched \<Rightarrow> (int \<times> sched) option" where
  "process_add obj isdir st = (let (pf, st) = malloc st in
     if pf = 0 then Some (ERROR, st)
     else do {
       t \<leftarrow> current st;
       let st = st\<lparr>pfiles := (pfiles st)(pf \<mapsto> \<lparr>pf_obj = obj, pf_isdir = isdir, pf_fd = t_fd t\<rparr>)\<rparr>;
       st \<leftarrow> upd_current (\<lambda>t. t\<lparr>t_fd := t_fd t + 1, file_list := file_list t @ [pf]\<rparr>) st;
       Some (t_fd t, st)
     })"

definition process_add_dir :: "addr \<Rightarrow> sched \<Rightarrow> (int \<times> sched) option" where
  "process_add_dir d st = process_add d True st"

definition process_add_file :: "addr \<Rightarrow> sched \<Rightarrow> (int \<times> sched) option" where
  "process_add_file f st = process_add f False st"

fun get_file_loop :: "int \<Rightarrow> addr list \<Rightarrow> sched \<Rightarrow> process_file option option" where
  "get_file_loop fd [] st = Some None"
| "get_file_loop fd (a # as) st = do {
     pf \<leftarrow> pfiles st a;
     if fd = pf_fd pf then Some (Some pf) else get_file_loop fd as st
   }"

definition process_get_file :: "int \<Rightarrow> sched \<Rightarrow> process_file option option" where
  "process_get_file fd st = do { t \<leftarrow> current st; get_file_loop fd (file_list t) st }"

definition close_process_file :: "process_file \<Rightarrow> sched \<Rightarrow> sched option" where
  "close_process_file pf st = with_fs_unit
     (if pf_isdir pf then dir_close (Some (pf_obj pf)) else file_close close_inode (Some (pf_obj pf))) st"

fun close_file_loop :: "int \<Rightarrow> addr list \<Rightarrow> sched \<Rightarrow> sched option" where
  "close_file_loop fd [] st = Some st"
| "close_file_loop fd (a # as) st = do {
     pf \<leftarrow> pfiles st a;
     if fd = pf_fd pf \<or> fd = CLOSE_ALL then do {
       st \<leftarrow> close_process_file pf st;
       st \<leftarrow> upd_current (\<lambda>t. t\<lparr>file_list := remove1 a (file_list t)\<rparr>) st;
       let st = st\<lparr>pfiles := (pfiles st)(a := None)\<rparr>;
       if fd \<noteq> CLOSE_ALL then Some st else close_file_loop fd as st
     }
     else close_file_loop fd as st
   }"

definition process_close_file :: "int \<Rightarrow> sched \<Rightarrow> sched option" where
  "process_close_file fd st = do { t \<leftarrow> current st; close_file_loop fd (file_list t) st }"

section \<open>Exit\<close>

definition process_exit :: "sched \<Rightarrow> sched option" where
  "process_exit st = do {
     c \<leftarrow> thread_current st;
     st \<leftarrow> process_close_file CLOSE_ALL st;
     t \<leftarrow> current st;
     st \<leftarrow> (case executable t of
              None \<Rightarrow> Some st
            | Some f \<Rightarrow> with_fs_unit (file_close close_inode (Some f)) st);
     st \<leftarrow> remove_child_processes st;
     t \<leftarrow> current st;
     st \<leftarrow> (case t_cwd t of None \<Rightarrow> Some st | Some d \<Rightarrow> with_fs_unit (dir_close (Some d)) st);
     alive \<leftarrow> thread_alive (parent t) st;
     st \<leftarrow> (if alive \<and> t_cp t \<noteq> 0 \<and> executable t \<noteq> None then do {
              x \<leftarrow> children st (t_cp t);
              sema_up (exit_sema (t_cp t)) (st\<lparr>children := (children st)(t_cp t \<mapsto> x\<lparr>cp_exit := True\<rparr>)\<rparr>)
            }
            else Some st);
     t \<leftarrow> threads st c;
     let pd = pagedir t;
     if pd \<noteq> 0 then do {
       let st = put_thread c (t\<lparr>pagedir := 0\<rparr>) st;
       v \<leftarrow> pagedir_activate 0 (vm st);
       v \<leftarrow> pagedir_destroy pd v;
       Some (st\<lparr>vm := v\<rparr>)
     }
     else Some st
   }"

text \<open>Up to the call of \<open>release_locks\<close>; the two frames pushed are its loop and the rest.\<close>

definition thread_exit :: "sched \<Rightarrow> sched option" where
  "thread_exit st = do {
     ASSERT (\<not> intr_context st);
     st \<leftarrow> process_exit st;
     let (l, st) = intr_disable st;
     t \<leftarrow> current st;
     st \<leftarrow> call ExitFinish st;
     call (ReleaseLocks (lock_list t)) st
   }"

text \<open>
  One round of the loop of \<open>release_locks\<close>.  The \<open>list_remove\<close> after \<open>lock_release\<close> repeats the
  one in it: it joins the two neighbours that are joined already.
\<close>

definition release_locks_loop :: "addr list \<Rightarrow> sched \<Rightarrow> sched option" where
  "release_locks_loop ls st = do {
     st \<leftarrow> return st;
     case ls of
       [] \<Rightarrow> Some st
     | l # ls \<Rightarrow> do { st \<leftarrow> call (ReleaseLocks ls) st; lock_release l st }
   }"

definition exit_finish :: "sched \<Rightarrow> sched option" where
  "exit_finish st = do {
     c \<leftarrow> thread_current st;
     let st = st\<lparr>all_list := remove1 c (all_list st)\<rparr>;
     st \<leftarrow> upd_current (\<lambda>t. t\<lparr>status := THREAD_DYING\<rparr>) st;
     schedule st
   }"

definition exit :: "int \<Rightarrow> sched \<Rightarrow> sched option" where
  "exit n st = do {
     t \<leftarrow> current st;
     alive \<leftarrow> thread_alive (parent t) st;
     st \<leftarrow> (if alive \<and> t_cp t \<noteq> 0 then do {
              x \<leftarrow> children st (t_cp t);
              Some (st\<lparr>children := (children st)(t_cp t \<mapsto> x\<lparr>cp_status := n\<rparr>)\<rparr>)
            }
            else Some st);
     out \<leftarrow> vprintf_loop 1 (literal (''%s: exit(%d)'' @ [char_of (10 :: nat)])) [1, word_of_int n] (string_arg (t_name t));
     st \<leftarrow> call ThreadExit st;
     console_out out st
   }"

section \<open>Creation\<close>

definition init_thread :: "addr \<Rightarrow> u8 list \<Rightarrow> int \<Rightarrow> sched \<Rightarrow> sched option" where
  "init_thread a name prio st = do {
     ASSERT (a \<noteq> 0);
     ASSERT (PRI_MIN \<le> prio \<and> prio \<le> PRI_MAX);
     let t = \<lparr>tid = 0, status = THREAD_BLOCKED, t_name = take 15 name, t_stack = a + PGSIZE,
              priority = prio, t_magic = THREAD_MAGIC, pagedir = 0, lock_list = [], file_list = [],
              t_fd = MIN_FD, child_list = [], parent = NO_PARENT, t_cp = 0, executable = None,
              t_ticks = 0, t_cwd = None, eax = 0, frames = []\<rparr>;
     Some (put_thread a t (st\<lparr>all_list := all_list st @ [a]\<rparr>))
   }"

text \<open>The sizes of the three frames at the base of a new stack are 12, 4 and 28 bytes.\<close>

definition alloc_frame :: "addr \<Rightarrow> nat \<Rightarrow> sched \<Rightarrow> sched option" where
  "alloc_frame a sz st = do {
     ASSERT (is_thread a st);
     ASSERT (sz mod 4 = 0);
     t \<leftarrow> threads st a;
     Some (put_thread a (t\<lparr>t_stack := t_stack t - sz\<rparr>) st)
   }"

text \<open>
  \<open>thread_create\<close> up to the wait for the lock in \<open>allocate_tid\<close>, \<open>allocate_tid\<close> with the lock
  held, and the rest.  \<open>body\<close> is what the new thread does.
\<close>

definition thread_create :: "u8 list \<Rightarrow> int \<Rightarrow> frame list \<Rightarrow> sched \<Rightarrow> sched option" where
  "thread_create name prio body st = do {
     (page, v) \<leftarrow> palloc_get_page ZEROED (vm st);
     let st = st\<lparr>vm := v\<rparr>;
     if page = 0 then set_eax TID_ERROR st
     else do {
       st \<leftarrow> init_thread (unat page) name prio st;
       st \<leftarrow> call (TidAllocated (unat page) body) st;
       lock_acquire (tid_lock st) st
     }
   }"

definition allocate_tid :: "addr \<Rightarrow> frame list \<Rightarrow> sched \<Rightarrow> sched option" where
  "allocate_tid a body st = do {
     st \<leftarrow> return st;
     let n = next_tid st;
     st \<leftarrow> call (CreateFinish a n body) (st\<lparr>next_tid := n + 1\<rparr>);
     lock_release (tid_lock st) st
   }"

definition create_finish :: "addr \<Rightarrow> int \<Rightarrow> frame list \<Rightarrow> sched \<Rightarrow> sched option" where
  "create_finish a n body st = do {
     st \<leftarrow> return st;
     t \<leftarrow> threads st a;
     let st = put_thread a (t\<lparr>tid := n\<rparr>) st;
     let (old_level, st) = intr_disable st;
     st \<leftarrow> alloc_frame a 12 st;
     st \<leftarrow> alloc_frame a 4 st;
     st \<leftarrow> alloc_frame a 28 st;
     (l, st) \<leftarrow> intr_set_level old_level st;
     p \<leftarrow> thread_tid st;
     (cp, st) \<leftarrow> add_child_process n st;
     x \<leftarrow> current st;
     (d, st) \<leftarrow> (case t_cwd x of
                 None \<Rightarrow> Some (None, st)
               | Some d \<Rightarrow> with_fs (dir_reopen d) st);
     t \<leftarrow> threads st a;
     let st = put_thread a (t\<lparr>parent := p, t_cp := cp, t_cwd := d, frames := KernelThread # body\<rparr>) st;
     st \<leftarrow> thread_unblock a st;
     set_eax n st
   }"

definition PRI_IDLE :: int where "PRI_IDLE = PRI_MIN"

text \<open>\<open>"idle"\<close>; \<open>s\<close> is the address of the local semaphore \<open>idle_started\<close>.\<close>

definition thread_start :: "addr \<Rightarrow> sched \<Rightarrow> sched option" where
  "thread_start s st = do {
     st \<leftarrow> sema_init s 0 st;
     st \<leftarrow> call (SemaDownCall s) st;
     st \<leftarrow> call (RestoreLevel True) st;
     thread_create [105, 100, 108, 101] PRI_IDLE [IdleStart s, IdleLoop] st
   }"

definition idle_start :: "addr \<Rightarrow> sched \<Rightarrow> sched option" where
  "idle_start s st = do {
     st \<leftarrow> return st;
     c \<leftarrow> thread_current st;
     sema_up s (st\<lparr>idle_thread := c\<rparr>)
   }"

text \<open>The two parts of the loop of \<open>idle\<close>: blocking, and \<open>sti; hlt\<close>.\<close>

definition idle_loop :: "sched \<Rightarrow> sched option" where
  "idle_loop st = do {
     let (l, st) = intr_disable st;
     st \<leftarrow> call IdleHalt st;
     thread_block st
   }"

definition idle_halt :: "sched \<Rightarrow> sched option" where
  "idle_halt st = return (st\<lparr>intr_on := True\<rparr>)"

definition kernel_thread :: "sched \<Rightarrow> sched option" where
  "kernel_thread st = do {
     st \<leftarrow> return st;
     (l, st) \<leftarrow> intr_enable st;
     Some st
   }"

section \<open>Running a program\<close>

definition ASCII_SPACE :: u8 where "ASCII_SPACE = 32"

text \<open>The tokens that \<open>strtok_r (s, " ", \&save_ptr)\<close> returns one after the other.\<close>

function space_tokens :: "u8 list \<Rightarrow> u8 list list" where
  "space_tokens s =
     (let t = dropWhile (\<lambda>c. c = ASCII_SPACE) s in
      if t = [] then []
      else takeWhile (\<lambda>c. c \<noteq> ASCII_SPACE) t # space_tokens (dropWhile (\<lambda>c. c \<noteq> ASCII_SPACE) t))"
  by auto
termination
proof (relation "measure length")
  fix s t :: "u8 list"
  assume t: "t = dropWhile (\<lambda>c. c = ASCII_SPACE) s" and ne: "t \<noteq> []"
  then have "hd t \<noteq> ASCII_SPACE" using hd_dropWhile by blast
  then have "length (dropWhile (\<lambda>c. c \<noteq> ASCII_SPACE) t) < length t"
    using ne length_dropWhile_le[of _ "tl t"] by (cases t) (auto simp: le_imp_less_Suc)
  also have "\<dots> \<le> length s" unfolding t by (rule length_dropWhile_le)
  finally show "(dropWhile (\<lambda>c. c \<noteq> ASCII_SPACE) t, s) \<in> measure length" by simp
qed auto

declare space_tokens.simps [simp del]

text \<open>\<open>load\<close>: the entry point and the initial stack pointer.\<close>

definition load :: "u8 list list \<Rightarrow> sched \<Rightarrow> ((u32 \<times> nat) option \<times> sched) option" where
  "load args st = do {
     (pd, v) \<leftarrow> pagedir_create (vm st);
     st \<leftarrow> upd_current (\<lambda>t. t\<lparr>pagedir := pd\<rparr>) (st\<lparr>vm := v\<rparr>);
     if pd = 0 then Some (None, st)
     else do {
       st \<leftarrow> process_activate st;
       ASSERT (args \<noteq> []);
       (fo, st) \<leftarrow> with_fs (filesys_open (hd args)) st;
       case fo of
         None \<Rightarrow> Some (None, st)
       | Some file \<Rightarrow> do {
           st \<leftarrow> with_fs_unit (file_deny_write file) st;
           st \<leftarrow> upd_current (\<lambda>t. t\<lparr>executable := fo\<rparr>) st;
           (b, st) \<leftarrow> with_fs (file_read file 52) st;
           if length b \<noteq> 52 \<or> \<not> ehdr_ok (dec_ehdr b) then Some (None, st)
           else do {
             let ehdr = dec_ehdr b;
             (ok, st) \<leftarrow> load_phdrs_loop file (e_phnum ehdr) (sint (e_phoff ehdr)) st;
             if \<not> ok then Some (None, st)
             else do {
               (esp, st) \<leftarrow> setup_stack args st;
               Some (map_option (\<lambda>esp. (e_entry ehdr, esp)) esp, st)
             }
           }
         }
     }
   }"

text \<open>
  The page of the command line is freed by its address: \<open>file_name\<close> is the first token, which is
  the start of the page unless the command line begins with spaces.
\<close>

definition start_process :: "u32 \<Rightarrow> u8 list \<Rightarrow> sched \<Rightarrow> sched option" where
  "start_process page cmdline st = do {
     st \<leftarrow> return st;
     (r, st) \<leftarrow> load (space_tokens cmdline) st;
     t \<leftarrow> current st;
     x \<leftarrow> children st (t_cp t);
     let x = x\<lparr>cp_load := (if r \<noteq> None then LOAD_SUCCESS else LOAD_FAIL)\<rparr>;
     let st = st\<lparr>children := (children st)(t_cp t \<mapsto> x)\<rparr>;
     st \<leftarrow> (if t_cwd t = None then do {
              (d, st) \<leftarrow> with_fs dir_open_root st;
              upd_current (\<lambda>t. t\<lparr>t_cwd := d\<rparr>) st
            }
            else Some st);
     st \<leftarrow> sema_up (load_sema (t_cp t)) st;
     let file_name = page + of_nat (length (takeWhile (\<lambda>c. c = ASCII_SPACE) cmdline));
     v \<leftarrow> palloc_free_page file_name (vm st);
     let st = st\<lparr>vm := v\<rparr>;
     if r = None then thread_exit st else Some st
   }"

definition process_execute :: "u8 list \<Rightarrow> sched \<Rightarrow> sched option" where
  "process_execute cmdline st = do {
     (page, v) \<leftarrow> palloc_get_page NO_FLAGS (vm st);
     let st = st\<lparr>vm := v\<rparr>;
     if page = 0 then set_eax TID_ERROR st
     else do {
       let copy = take (PGSIZE - 1) cmdline;
       let name = space_tokens cmdline;
       ASSERT (name \<noteq> []);
       st \<leftarrow> call (ExecCreated page) st;
       thread_create (hd name) PRI_DEFAULT [StartProcess page copy] st
     }
   }"

definition exec_created :: "u32 \<Rightarrow> sched \<Rightarrow> sched option" where
  "exec_created page st = do {
     st \<leftarrow> return st;
     t \<leftarrow> current st;
     let pid = eax t;
     st \<leftarrow> (if pid = TID_ERROR then do { v \<leftarrow> palloc_free_page page (vm st); Some (st\<lparr>vm := v\<rparr>) }
            else Some st);
     cp \<leftarrow> get_child_process pid st;
     if cp = 0 then set_eax ERROR st
     else do {
       st \<leftarrow> call (ExecReturn cp pid) st;
       x \<leftarrow> children st cp;
       if cp_load x = NOT_LOADED then sema_down (load_sema cp) st else Some st
     }
   }"

definition exec_return :: "addr \<Rightarrow> int \<Rightarrow> sched \<Rightarrow> sched option" where
  "exec_return cp pid st = do {
     st \<leftarrow> return st;
     x \<leftarrow> children st cp;
     if cp_load x = LOAD_FAIL then do { st \<leftarrow> remove_child_process cp st; set_eax ERROR st }
     else set_eax pid st
   }"

definition process_wait :: "int \<Rightarrow> sched \<Rightarrow> sched option" where
  "process_wait pid st = do {
     cp \<leftarrow> get_child_process pid st;
     if cp = 0 then set_eax ERROR st
     else do {
       x \<leftarrow> children st cp;
       if cp_wait x then set_eax ERROR st
       else do {
         let st = st\<lparr>children := (children st)(cp \<mapsto> x\<lparr>cp_wait := True\<rparr>)\<rparr>;
         st \<leftarrow> call (WaitReturn cp) st;
         if \<not> cp_exit x then sema_down (exit_sema cp) st else Some st
       }
     }
   }"

definition wait_return :: "addr \<Rightarrow> sched \<Rightarrow> sched option" where
  "wait_return cp st = do {
     st \<leftarrow> return st;
     x \<leftarrow> children st cp;
     st \<leftarrow> remove_child_process cp st;
     set_eax (cp_status x) st
   }"

end
