(* ===== verification/KKbd.thy ===== *)
theory KKbd imports KConsole KStdio begin

unbundle bit_operations_syntax

text \<open>
  The keyboard, \<open>devices/kbd.c\<close>, and the ways the machine stops, \<open>devices/shutdown.c\<close>.  The scan
  codes come from the data port.
\<close>

text \<open>A step leaves the machine running, turns it off, or reboots it.\<close>

datatype outcome = Running sched | PowerOff sched | Reboot sched

section \<open>Key maps\<close>

text \<open>A map is a list of the first scan code and the characters of a run of keys.\<close>

definition invariant_keymap :: "(nat \<times> u8 list) list" where
  "invariant_keymap =
    [(0x01, [27]),
     (0x0e, [8]),
     (0x0f, 9 # map byte ''QWERTYUIOP''),
     (0x1c, [13]),
     (0x1e, map byte ''ASDFGHJKL''),
     (0x2c, map byte ''ZXCVBNM''),
     (0x37, map byte ''*''),
     (0x39, map byte '' ''),
     (0x53, [127])]"

definition unshifted_keymap :: "(nat \<times> u8 list) list" where
  "unshifted_keymap =
    [(0x02, map byte ''1234567890-=''),
     (0x1a, map byte ''[]''),
     (0x27, map byte '';'' @ [39, 96]),
     (0x2b, [92]),
     (0x33, map byte '',./'')]"

definition shifted_keymap :: "(nat \<times> u8 list) list" where
  "shifted_keymap =
    [(0x02, map byte ''!@#$%^&*()_+''),
     (0x1a, map byte ''{}''),
     (0x27, map byte '':'' @ [34] @ map byte ''~''),
     (0x2b, map byte ''|''),
     (0x33, map byte ''<>?'')]"

fun map_key :: "(nat \<times> u8 list) list \<Rightarrow> nat \<Rightarrow> u8 option" where
  "map_key [] scancode = None"
| "map_key ((first, chars) # k) scancode =
     (if scancode \<ge> first \<and> scancode < first + length chars then Some (chars ! (scancode - first))
      else map_key k scancode)"

section \<open>The interrupt\<close>

definition DATA_REG :: u16 where "DATA_REG = 0x60"

definition kbd_init :: "(u8 \<Rightarrow> u32) \<Rightarrow> sched \<Rightarrow> sched option" where
  "kbd_init stub st = intr_register_ext stub 0x21 KeyboardInterrupt st"

definition upd_kbd :: "(kbd \<Rightarrow> kbd) \<Rightarrow> sched \<Rightarrow> sched" where
  "upd_kbd g st = upd_io (\<lambda>d. d\<lparr>d_kbd := g (d_kbd d)\<rparr>) st"

text \<open>The table \<open>shift_keys\<close>: the state variable of a scan code, set to the value.\<close>

definition set_shift_key :: "nat \<Rightarrow> bool \<Rightarrow> kbd \<Rightarrow> kbd" where
  "set_shift_key code v k =
     (if code = 0x2a then k\<lparr>left_shift := v\<rparr>
      else if code = 0x36 then k\<lparr>right_shift := v\<rparr>
      else if code = 0x38 then k\<lparr>left_alt := v\<rparr>
      else if code = 0xe038 then k\<lparr>right_alt := v\<rparr>
      else if code = 0x1d then k\<lparr>left_ctrl := v\<rparr>
      else if code = 0xe01d then k\<lparr>right_ctrl := v\<rparr>
      else k)"

definition kbd_char :: "kbd \<Rightarrow> u8 \<Rightarrow> u8" where
  "kbd_char k c =
     (let shift = left_shift k \<or> right_shift k; alt = left_alt k \<or> right_alt k;
          ctrl = left_ctrl k \<or> right_ctrl k;
          c = (if ctrl \<and> c \<ge> 0x40 \<and> c < 0x60 then c - 0x40
               else if shift = caps_lock k then word_of_int (tolower (uint c)) else c)
      in if alt then c + 0x80 else c)"

text \<open>The character of a key: the condition of the \<open>else if\<close> for ordinary characters.\<close>

definition key_char :: "kbd \<Rightarrow> nat \<Rightarrow> u8 option" where
  "key_char k code = (case map_key invariant_keymap code of
     Some c \<Rightarrow> Some c
   | None \<Rightarrow> map_key (if left_shift k \<or> right_shift k then shifted_keymap else unshifted_keymap) code)"

definition read_scancode :: "sched \<Rightarrow> (u32 \<times> sched) option" where
  "read_scancode st = do {
     (b, st) \<leftarrow> sched_inb DATA_REG st;
     if b = 0xe0 then do {
       (b2, st) \<leftarrow> sched_inb DATA_REG st;
       Some (push_bit 8 (ucast b) OR ucast b2, st)
     }
     else Some (ucast b, st)
   }"

definition keyboard_interrupt :: "sched \<Rightarrow> outcome option" where
  "keyboard_interrupt st = do {
     let k = d_kbd (io st);
     let alt = (left_alt k \<or> right_alt k);
     let ctrl = (left_ctrl k \<or> right_ctrl k);
     (code, st) \<leftarrow> read_scancode st;
     let release = (code AND 0x80 \<noteq> 0);
     let code = unat (code AND NOT 0x80);
     if code = 0x3a then
       Some (Running (if \<not> release then upd_kbd (\<lambda>k. k\<lparr>caps_lock := \<not> caps_lock k\<rparr>) st else st))
     else (case key_char k code of
       Some c \<Rightarrow>
         if release then Some (Running st)
         else if c = 127 \<and> ctrl \<and> alt then Some (Reboot st)
         else do {
           let c = kbd_char k c;
           f \<leftarrow> input_full st;
           if \<not> f then do {
             let st = upd_kbd (\<lambda>k. k\<lparr>key_cnt := key_cnt k + 1\<rparr>) st;
             st \<leftarrow> input_putc c st;
             Some (Running st)
           }
           else Some (Running st)
         }
     | None \<Rightarrow> Some (Running (upd_kbd (set_shift_key code (\<not> release)) st)))
   }"

section \<open>Shutting down\<close>

datatype shutdown_type = SHUTDOWN_NONE | SHUTDOWN_POWER_OFF | SHUTDOWN_REBOOT

end
