(* ===== verification/KSyscall.thy ===== *)
theory KSyscall imports KProcess KKbd begin

unbundle bit_operations_syntax

text \<open>
  The system calls, \<open>userprog/syscall.c\<close>: the checks of user pointers, the access to user memory,
  and the dispatch; and \<open>resume\<close>, which runs the topmost continuation of the running thread,
  with one step of the machine, \<open>kstep\<close>.
\<close>

section \<open>Memory\<close>

text \<open>The bytes of the words of the memory, little-endian.\<close>

definition kbyte :: "u32 \<Rightarrow> vmem \<Rightarrow> u8" where
  "kbyte a v = enc32 (words v (a AND (NOT 3))) ! unat (a AND 3)"

definition set_kbyte :: "u32 \<Rightarrow> u8 \<Rightarrow> vmem \<Rightarrow> vmem" where
  "set_kbyte a b v = store (a AND (NOT 3)) (dec32 ((enc32 (words v (a AND (NOT 3))))[unat (a AND 3) := b])) v"

fun kbytes :: "u32 \<Rightarrow> nat \<Rightarrow> vmem \<Rightarrow> u8 list" where
  "kbytes a 0 v = []"
| "kbytes a (Suc n) v = kbyte a v # kbytes (a + 1) n v"

fun set_kbytes :: "u32 \<Rightarrow> u8 list \<Rightarrow> vmem \<Rightarrow> vmem" where
  "set_kbytes a [] v = v"
| "set_kbytes a (b # bs) v = set_kbytes (a + 1) bs (set_kbyte a b v)"

text \<open>The string at a kernel address.\<close>

partial_function (option) kstring :: "u32 \<Rightarrow> vmem \<Rightarrow> u8 list option" where
  "kstring a v = (if kbyte a v = 0 then Some [] else do { s \<leftarrow> kstring (a + 1) v; Some (kbyte a v # s) })"

section \<open>User pointers\<close>

definition USER_VADDR_BOTTOM :: u32 where "USER_VADDR_BOTTOM = 0x08048000"

text \<open>The checks below return if the process may go on; otherwise they call \<open>exit (ERROR)\<close>.\<close>

definition check_valid_ptr :: "u32 \<Rightarrow> bool" where
  "check_valid_ptr va \<longleftrightarrow> \<not> (\<not> is_user_vaddr va \<or> va < USER_VADDR_BOTTOM)"

text \<open>\<open>Some 0\<close> stands for the call of \<open>exit\<close>.\<close>

definition user_to_kernel_ptr :: "u32 \<Rightarrow> sched \<Rightarrow> u32 option" where
  "user_to_kernel_ptr va st =
     (if \<not> check_valid_ptr va then Some 0
      else do { t \<leftarrow> current st; pagedir_get_page (pagedir t) va (vm st) })"

fun check_valid_buffer :: "u32 \<Rightarrow> nat \<Rightarrow> bool" where
  "check_valid_buffer a 0 = True"
| "check_valid_buffer a (Suc n) = (if check_valid_ptr a then check_valid_buffer (a + 1) n else False)"

partial_function (option) check_valid_string :: "u32 \<Rightarrow> sched \<Rightarrow> bool option" where
  "check_valid_string str st = do {
     p \<leftarrow> user_to_kernel_ptr str st;
     if p = 0 then Some False
     else if kbyte p (vm st) \<noteq> 0 then check_valid_string (str + 1) st
     else Some True
   }"

text \<open>
  A word at a user address.  The kernel follows the user pointer itself, through the page table: each of the four
  bytes is on the page its own address is on, an unmapped page is a page fault in the kernel, on which it stops, and
  a byte behind the last user page is one of the kernel's.
\<close>

definition load_byte :: "u32 \<Rightarrow> sched \<Rightarrow> u8 option" where
  "load_byte va st =
     (if is_user_vaddr va then do {
        t \<leftarrow> current st;
        p \<leftarrow> pagedir_get_page (pagedir t) va (vm st);
        ASSERT (p \<noteq> 0);
        Some (kbyte p (vm st))
      }
      else Some (kbyte va (vm st)))"

definition load_word :: "u32 \<Rightarrow> sched \<Rightarrow> u32 option" where
  "load_word va st = do {
     b0 \<leftarrow> load_byte va st;
     b1 \<leftarrow> load_byte (va + 1) st;
     b2 \<leftarrow> load_byte (va + 2) st;
     b3 \<leftarrow> load_byte (va + 3) st;
     Some (dec32 [b0, b1, b2, b3])
   }"

text \<open>The loop of \<open>get_arg\<close> from argument \<open>i\<close> on; \<open>Some None\<close> is the call of \<open>exit\<close>.\<close>

fun get_arg_loop :: "u32 \<Rightarrow> nat \<Rightarrow> nat \<Rightarrow> sched \<Rightarrow> u32 list option option" where
  "get_arg_loop esp i 0 st = Some (Some [])"
| "get_arg_loop esp i (Suc n) st = (let p = esp + 4 * of_nat i + 4 in
     if check_valid_ptr p then do {
       w \<leftarrow> load_word p st;
       r \<leftarrow> get_arg_loop esp (Suc i) n st;
       Some (map_option (\<lambda>ws. w # ws) r)
     }
     else Some None)"

definition get_arg :: "u32 \<Rightarrow> nat \<Rightarrow> sched \<Rightarrow> u32 list option option" where
  "get_arg esp n st = get_arg_loop esp 0 n st"

section \<open>System calls\<close>

definition of_bool_int :: "bool \<Rightarrow> int" where
  "of_bool_int b = (if b then 1 else 0)"

definition fs_bool :: "(fs \<Rightarrow> (bool \<times> fs) option) \<Rightarrow> sched \<Rightarrow> sched option" where
  "fs_bool oper st = do { (b, st) \<leftarrow> with_fs oper st; set_eax (of_bool_int b) st }"

text \<open>\<open>devices/shutdown.c\<close>; the statistics and messages that it prints are left out.\<close>

definition shutdown_power_off :: "sched \<Rightarrow> outcome option" where
  "shutdown_power_off st = do {
     f \<leftarrow> filesys_done (kfs st);
     st \<leftarrow> serial_flush (st\<lparr>kfs := f\<rparr>);
     Some (PowerOff st)
   }"

definition shutdown :: "shutdown_type \<Rightarrow> sched \<Rightarrow> outcome option" where
  "shutdown how st = (case how of
     SHUTDOWN_POWER_OFF \<Rightarrow> shutdown_power_off st
   | SHUTDOWN_REBOOT \<Rightarrow> Some (Reboot st)
   | SHUTDOWN_NONE \<Rightarrow> Some (Running st))"

definition halt :: "sched \<Rightarrow> outcome option" where
  "halt st = shutdown_power_off st"

definition chdir :: "u8 list \<Rightarrow> sched \<Rightarrow> sched option" where
  "chdir d st = fs_bool (filesys_chdir d) st"

definition mkdir :: "u8 list \<Rightarrow> sched \<Rightarrow> sched option" where
  "mkdir d st = fs_bool (filesys_create d 0 True) st"

text \<open>\<open>unsigned initial_size\<close> becomes the signed argument of \<open>filesys_create\<close>.\<close>

definition create :: "u8 list \<Rightarrow> u32 \<Rightarrow> sched \<Rightarrow> sched option" where
  "create file initial_size st = fs_bool (filesys_create file (sint initial_size) False) st"

definition sys_remove :: "u8 list \<Rightarrow> sched \<Rightarrow> sched option" where
  "sys_remove file st = fs_bool (filesys_remove file) st"

text \<open>\<open>name\<close> is the kernel address of the caller's buffer.\<close>

definition readdir :: "int \<Rightarrow> u32 \<Rightarrow> sched \<Rightarrow> sched option" where
  "readdir fd name st = do {
     pf \<leftarrow> process_get_file fd st;
     case pf of
       None \<Rightarrow> set_eax 0 st
     | Some pf \<Rightarrow>
         if \<not> pf_isdir pf then set_eax 0 st
         else do {
           (r, st) \<leftarrow> with_fs (dir_readdir (pf_obj pf)) st;
           case r of
             None \<Rightarrow> set_eax 0 st
           | Some s \<Rightarrow> set_eax 1 (st\<lparr>vm := set_kbytes name (s @ [0]) (vm st)\<rparr>)
         }
   }"

text \<open>The result has type \<open>bool\<close>: \<open>return ERROR\<close> yields \<open>true\<close>.\<close>

definition isdir :: "int \<Rightarrow> sched \<Rightarrow> sched option" where
  "isdir fd st = do {
     pf \<leftarrow> process_get_file fd st;
     case pf of None \<Rightarrow> set_eax 1 st | Some pf \<Rightarrow> set_eax (of_bool_int (pf_isdir pf)) st
   }"

definition inumber :: "int \<Rightarrow> sched \<Rightarrow> sched option" where
  "inumber fd st = do {
     pf \<leftarrow> process_get_file fd st;
     case pf of
       None \<Rightarrow> set_eax ERROR st
     | Some pf \<Rightarrow> do {
         p \<leftarrow> (if pf_isdir pf then dir_get_inode (pf_obj pf) (kfs st)
               else file_get_inode (pf_obj pf) (kfs st));
         ino \<leftarrow> get_inode p (kfs st);
         set_eax (sint (inode_get_inumber ino)) st
       }
   }"

definition sys_open :: "u8 list \<Rightarrow> sched \<Rightarrow> sched option" where
  "sys_open file st = do {
     (fo, st) \<leftarrow> with_fs (filesys_open file) st;
     case fo of
       None \<Rightarrow> set_eax ERROR st
     | Some f \<Rightarrow> do {
         p \<leftarrow> (case dir_get_inode f (kfs st) of Some p \<Rightarrow> Some p | None \<Rightarrow> file_get_inode f (kfs st));
         ino \<leftarrow> get_inode p (kfs st);
         (fd, st) \<leftarrow> (if inode_is_dir ino then process_add_dir f st else process_add_file f st);
         set_eax fd st
       }
   }"

definition filesize :: "int \<Rightarrow> sched \<Rightarrow> sched option" where
  "filesize fd st = do {
     pf \<leftarrow> process_get_file fd st;
     case pf of
       None \<Rightarrow> set_eax ERROR st
     | Some pf \<Rightarrow> if pf_isdir pf then set_eax ERROR st
                 else do { n \<leftarrow> file_length (pf_obj pf) (kfs st); set_eax n st }
   }"

text \<open>
  \<open>buffer\<close> is a kernel address: the bytes follow each other there, whatever the user pages that
  come after the first one are mapped to.  The loop of \<open>read\<close> over the keys continues in
  \<open>read_keys_next\<close> when \<open>input_getc\<close> has returned key \<open>i\<close>.
\<close>

definition read_keys :: "u32 \<Rightarrow> nat \<Rightarrow> nat \<Rightarrow> sched \<Rightarrow> sched option" where
  "read_keys buffer sz i st =
     (if i < sz then do { st \<leftarrow> call (ReadKeys buffer sz i) st; input_getc st }
      else set_eax (sint (of_nat sz :: u32)) st)"

definition read_keys_next :: "u32 \<Rightarrow> nat \<Rightarrow> nat \<Rightarrow> sched \<Rightarrow> sched option" where
  "read_keys_next buffer sz i st = do {
     st \<leftarrow> return st;
     t \<leftarrow> current st;
     let st = st\<lparr>vm := set_kbytes (buffer + of_nat i) [word_of_int (eax t)] (vm st)\<rparr>;
     read_keys buffer sz (i + 1) st
   }"

definition sys_read :: "int \<Rightarrow> u32 \<Rightarrow> u32 \<Rightarrow> sched \<Rightarrow> sched option" where
  "sys_read fd buffer sz st = (
     if fd = 0 then read_keys buffer (unat sz) 0 st
     else do {
       pf \<leftarrow> process_get_file fd st;
       case pf of
         None \<Rightarrow> set_eax ERROR st
       | Some pf \<Rightarrow> if pf_isdir pf then set_eax ERROR st
                   else do {
                     (bytes, st) \<leftarrow> with_fs (file_read (pf_obj pf) (sint sz)) st;
                     set_eax (int (length bytes)) (st\<lparr>vm := set_kbytes buffer bytes (vm st)\<rparr>)
                   }
     })"

definition sys_write :: "int \<Rightarrow> u32 \<Rightarrow> u32 \<Rightarrow> sched \<Rightarrow> sched option" where
  "sys_write fd buffer sz st = (
     if fd = 1 then do {
       st \<leftarrow> call (ReturnSize sz) st;
       putbuf (kbytes buffer (unat sz) (vm st)) st
     }
     else do {
       pf \<leftarrow> process_get_file fd st;
       case pf of
         None \<Rightarrow> set_eax ERROR st
       | Some pf \<Rightarrow> if pf_isdir pf then set_eax ERROR st
                   else do {
                     (n, st) \<leftarrow> with_fs (file_write write_at (pf_obj pf)
                                  (kbytes buffer (unat sz) (vm st)) (sint sz)) st;
                     set_eax n st
                   }
     })"

definition seek :: "int \<Rightarrow> u32 \<Rightarrow> sched \<Rightarrow> sched option" where
  "seek fd position st = do {
     pf \<leftarrow> process_get_file fd st;
     case pf of
       None \<Rightarrow> Some st
     | Some pf \<Rightarrow> if pf_isdir pf then Some st
                 else with_fs_unit (file_seek (pf_obj pf) (sint position)) st
   }"

definition tell :: "int \<Rightarrow> sched \<Rightarrow> sched option" where
  "tell fd st = do {
     pf \<leftarrow> process_get_file fd st;
     case pf of
       None \<Rightarrow> set_eax ERROR st
     | Some pf \<Rightarrow> if pf_isdir pf then set_eax ERROR st
                 else do { n \<leftarrow> file_tell (pf_obj pf) (kfs st); set_eax n st }
   }"

definition sys_close :: "int \<Rightarrow> sched \<Rightarrow> sched option" where
  "sys_close fd st = process_close_file fd st"

section \<open>Dispatch\<close>

text \<open>\<open>with_args\<close>, \<open>with_string\<close>, \<open>with_buffer\<close>: the checks of the handler before a call.\<close>

definition with_args :: "u32 \<Rightarrow> nat \<Rightarrow> (u32 list \<Rightarrow> sched \<Rightarrow> sched option) \<Rightarrow> sched \<Rightarrow> sched option" where
  "with_args esp n k st = do {
     r \<leftarrow> get_arg esp n st;
     case r of None \<Rightarrow> exit ERROR st | Some args \<Rightarrow> k args st
   }"

definition with_ptr :: "u32 \<Rightarrow> (u32 \<Rightarrow> sched \<Rightarrow> sched option) \<Rightarrow> sched \<Rightarrow> sched option" where
  "with_ptr va k st = do {
     p \<leftarrow> user_to_kernel_ptr va st;
     if p = 0 then exit ERROR st else k p st
   }"

definition with_string :: "u32 \<Rightarrow> (u32 \<Rightarrow> sched \<Rightarrow> sched option) \<Rightarrow> sched \<Rightarrow> sched option" where
  "with_string va k st = do {
     ok \<leftarrow> check_valid_string va st;
     if ok then with_ptr va k st else exit ERROR st
   }"

definition with_path :: "u32 \<Rightarrow> (u8 list \<Rightarrow> sched \<Rightarrow> sched option) \<Rightarrow> sched \<Rightarrow> sched option" where
  "with_path va k st = with_string va (\<lambda>p st. do { s \<leftarrow> kstring p (vm st); k s st }) st"

definition with_buffer :: "u32 \<Rightarrow> u32 \<Rightarrow> (u32 \<Rightarrow> sched \<Rightarrow> sched option) \<Rightarrow> sched \<Rightarrow> sched option" where
  "with_buffer va sz k st =
     (if check_valid_buffer va (unat sz) then with_ptr va k st else exit ERROR st)"

definition syscall_case :: "nat \<Rightarrow> u32 \<Rightarrow> sched \<Rightarrow> sched option" where
  "syscall_case nr esp st = (
     if nr = 1 then with_args esp 1 (\<lambda>a. exit (sint (a ! 0))) st
     else if nr = 2 then with_args esp 1 (\<lambda>a. with_path (a ! 0) process_execute) st
     else if nr = 3 then with_args esp 1 (\<lambda>a. process_wait (sint (a ! 0))) st
     else if nr = 4 then with_args esp 2 (\<lambda>a. with_path (a ! 0) (\<lambda>s. create s (a ! 1))) st
     else if nr = 5 then with_args esp 1 (\<lambda>a. with_path (a ! 0) sys_remove) st
     else if nr = 6 then with_args esp 1 (\<lambda>a. with_path (a ! 0) sys_open) st
     else if nr = 7 then with_args esp 1 (\<lambda>a. filesize (sint (a ! 0))) st
     else if nr = 8 then
       with_args esp 3 (\<lambda>a. with_buffer (a ! 1) (a ! 2) (\<lambda>p. sys_read (sint (a ! 0)) p (a ! 2))) st
     else if nr = 9 then
       with_args esp 3 (\<lambda>a. with_buffer (a ! 1) (a ! 2) (\<lambda>p. sys_write (sint (a ! 0)) p (a ! 2))) st
     else if nr = 10 then with_args esp 2 (\<lambda>a. seek (sint (a ! 0)) (a ! 1)) st
     else if nr = 11 then with_args esp 1 (\<lambda>a. tell (sint (a ! 0))) st
     else if nr = 12 then with_args esp 1 (\<lambda>a. sys_close (sint (a ! 0))) st
     else if nr = 15 then with_args esp 1 (\<lambda>a. with_path (a ! 0) chdir) st
     else if nr = 16 then with_args esp 1 (\<lambda>a. with_path (a ! 0) mkdir) st
     else if nr = 17 then with_args esp 2 (\<lambda>a. with_string (a ! 1) (readdir (sint (a ! 0)))) st
     else if nr = 18 then with_args esp 1 (\<lambda>a. isdir (sint (a ! 0))) st
     else if nr = 19 then with_args esp 1 (\<lambda>a. inumber (sint (a ! 0))) st
     else Some st)"

definition syscall_handler :: "u32 \<Rightarrow> sched \<Rightarrow> outcome option" where
  "syscall_handler esp st = do {
     p \<leftarrow> user_to_kernel_ptr esp st;
     if p = 0 then map_option Running (exit ERROR st)
     else do {
       let nr = unat (dec32 (kbytes p 4 (vm st)));
       if nr = 0 then halt st else map_option Running (syscall_case nr esp st)
     }
   }"

section \<open>Steps of the machine\<close>

definition resume :: "sched \<Rightarrow> sched option" where
  "resume st = do {
     t \<leftarrow> current st;
     case frames t of
       [] \<Rightarrow> None
     | f # fs \<Rightarrow> (case f of
         SemaDown s old \<Rightarrow> sema_down_loop s old st
       | SemaDownCall s \<Rightarrow> do { st \<leftarrow> return st; sema_down s st }
       | SemaUp s \<Rightarrow> do { st \<leftarrow> return st; sema_up s st }
       | LockAcquired l \<Rightarrow> do { st \<leftarrow> return st; lock_take l st }
       | CondReacquire l \<Rightarrow> do { st \<leftarrow> return st; lock_acquire l st }
       | CondReturn w \<Rightarrow> return st
       | CondBroadcast c l \<Rightarrow> cond_broadcast_loop c l st
       | RestoreLevel old \<Rightarrow> do { st \<leftarrow> return st; (l, st) \<leftarrow> intr_set_level old st; Some st }
       | Iret \<Rightarrow> do { st \<leftarrow> return st; Some (st\<lparr>intr_on := True\<rparr>) }
       | KernelThread \<Rightarrow> kernel_thread st
       | IdleStart s \<Rightarrow> idle_start s st
       | IdleLoop \<Rightarrow> idle_loop st
       | IdleHalt \<Rightarrow> idle_halt st
       | TidAllocated a body \<Rightarrow> allocate_tid a body st
       | CreateFinish a n body \<Rightarrow> create_finish a n body st
       | ReleaseLocks ls \<Rightarrow> release_locks_loop ls st
       | ExitFinish \<Rightarrow> exit_finish st
       | StartProcess page cmdline \<Rightarrow> start_process page cmdline st
       | ExecCreated page \<Rightarrow> exec_created page st
       | ExecReturn cp pid \<Rightarrow> exec_return cp pid st
       | WaitReturn cp \<Rightarrow> wait_return cp st
       | IntqGetc q \<Rightarrow> intq_getc_loop q st
       | IntqPutc q b \<Rightarrow> intq_putc_loop q b st
       | IntqWait q w \<Rightarrow> intq_wait q w st
       | IntqWoken q \<Rightarrow> intq_woken q st
       | InputGetc old \<Rightarrow> input_getc_done old st
       | ReadKeys buffer sz i \<Rightarrow> read_keys_next buffer sz i st
       | SerialPutc old \<Rightarrow> serial_putc_done old st
       | VgaPutc b \<Rightarrow> vga_putc_call b st
       | BeepDone \<Rightarrow> beep_done st
       | VgaBell old \<Rightarrow> vga_bell_done old st
       | ConsoleOut bs \<Rightarrow> console_out_loop bs st
       | ConsoleSeq outs \<Rightarrow> console_seq outs st
       | ReturnSize sz \<Rightarrow> do { st \<leftarrow> return st; set_eax (sint sz) st }
       | ThreadExit \<Rightarrow> do { st \<leftarrow> return st; thread_exit st }
       | ExitCall n \<Rightarrow> do { st \<leftarrow> return st; exit n st })
   }"

end
