(* ===== verification/KSync.thy ===== *)
theory KSync imports KSyscall begin

text \<open>
  Scheduling and synchronisation as a transition system.  \<open>kstep\<close> is one step of the machine: an
  operation that kernel code calls, a continuation that it left, or a timer interrupt, in any
  order.  The part of the state that matters is the \<open>core\<close>; every step of the machine is a step
  \<open>cstep\<close> of the core (\<open>kstep_cstep\<close>), and the invariants are proved there.  The steps are those of
  the threads that exist; threads are neither created nor do they exit.
\<close>

section \<open>The machine\<close>

datatype op =
    Op_sema_down addr | Op_sema_try_down addr | Op_sema_up addr
  | Op_lock_acquire addr | Op_lock_try_acquire addr | Op_lock_release addr
  | Op_cond_wait addr addr addr | Op_cond_signal addr addr | Op_cond_broadcast addr addr
  | Op_yield | Op_sleep u64

definition do_op :: "op \<Rightarrow> sched \<Rightarrow> sched option" where
  "do_op p st = (case p of
     Op_sema_down s \<Rightarrow> sema_down s st
   | Op_sema_try_down s \<Rightarrow> map_option snd (sema_try_down s st)
   | Op_sema_up s \<Rightarrow> sema_up s st
   | Op_lock_acquire l \<Rightarrow> lock_acquire l st
   | Op_lock_try_acquire l \<Rightarrow> map_option snd (lock_try_acquire l st)
   | Op_lock_release l \<Rightarrow> lock_release l st
   | Op_cond_wait w c l \<Rightarrow> cond_wait w c l st
   | Op_cond_signal c l \<Rightarrow> cond_signal c l st
   | Op_cond_broadcast c l \<Rightarrow> cond_broadcast c l st
   | Op_yield \<Rightarrow> thread_yield st
   | Op_sleep n \<Rightarrow> timer_sleep n st)"

text \<open>
  Kernel code reaches the semaphore of a lock only through the lock, and the local semaphore of
  \<open>cond_wait\<close> is memory that nothing else refers to.
\<close>

definition lock_semas :: "sched \<Rightarrow> addr set" where
  "lock_semas st = lock_sema ` dom (holder st)"

definition frames_of :: "sched \<Rightarrow> addr \<Rightarrow> frame list" where
  "frames_of st a = (case threads st a of Some t \<Rightarrow> frames t | None \<Rightarrow> [])"

definition unused_sema :: "addr \<Rightarrow> sched \<Rightarrow> bool" where
  "unused_sema w st \<longleftrightarrow> w \<notin> lock_semas st \<and>
     (\<forall>a. \<forall>f \<in> set (frames_of st a). (\<forall>b. f \<noteq> SemaDown w b) \<and> f \<noteq> SemaDownCall w \<and> f \<noteq> SemaUp w)"

fun op_ok :: "op \<Rightarrow> sched \<Rightarrow> bool" where
  "op_ok (Op_sema_down s) st = (s \<notin> lock_semas st)"
| "op_ok (Op_sema_try_down s) st = (s \<notin> lock_semas st)"
| "op_ok (Op_sema_up s) st = (s \<notin> lock_semas st)"
| "op_ok (Op_cond_wait w c l) st = unused_sema w st"
| "op_ok p st = True"

text \<open>The continuations of the operations above.\<close>

fun sync_frame :: "frame \<Rightarrow> bool" where
  "sync_frame (TidAllocated a body) = False"
| "sync_frame (CreateFinish a n body) = False"
| "sync_frame (ReleaseLocks ls) = False"
| "sync_frame ExitFinish = False"
| "sync_frame (StartProcess page cmdline) = False"
| "sync_frame (ExecCreated page) = False"
| "sync_frame (ExecReturn cp pid) = False"
| "sync_frame (WaitReturn cp) = False"
| "sync_frame (IdleStart s) = False"
| "sync_frame (IntqGetc q) = False"
| "sync_frame (IntqPutc q b) = False"
| "sync_frame (IntqWait q w) = False"
| "sync_frame (IntqWoken q) = False"
| "sync_frame (InputGetc old) = False"
| "sync_frame (ReadKeys buffer sz i) = False"
| "sync_frame (SerialPutc old) = False"
| "sync_frame (VgaPutc b) = False"
| "sync_frame BeepDone = False"
| "sync_frame (VgaBell old) = False"
| "sync_frame (ConsoleOut bs) = False"
| "sync_frame (ConsoleSeq outs) = False"
| "sync_frame (ReturnSize sz) = False"
| "sync_frame ThreadExit = False"
| "sync_frame (ExitCall n) = False"
| "sync_frame f = True"

inductive kstep :: "sched \<Rightarrow> sched \<Rightarrow> bool" where
  oper: "current st = Some t \<Longrightarrow> frames t = [] \<Longrightarrow> op_ok p st \<Longrightarrow> do_op p st = Some st' \<Longrightarrow> kstep st st'"
| resume: "current st = Some t \<Longrightarrow> frames t = f # fs \<Longrightarrow> sync_frame f \<Longrightarrow> resume st = Some st' \<Longrightarrow> kstep st st'"
| tick: "intr_on st \<Longrightarrow> timer_intr_handler st = Some st' \<Longrightarrow> kstep st st'"

section \<open>The core\<close>

record core =
  cc :: addr
  rdy :: "addr list"
  slp :: "addr list"
  idl :: addr
  sem :: "addr \<Rightarrow> semaphore option"
  hld :: "addr \<Rightarrow> addr option option"
  cnd :: "addr \<Rightarrow> addr list option"
  on :: bool
  ss :: "addr \<Rightarrow> thread_status option"
  fr :: "addr \<Rightarrow> frame list"

definition core_of :: "sched \<Rightarrow> core" where
  "core_of st = \<lparr>cc = cur st, rdy = ready_list st, slp = sleep_list st, idl = idle_thread st,
     sem = semas st, hld = holder st, cnd = conds st, on = intr_on st,
     ss = (\<lambda>a. map_option status (threads st a)), fr = frames_of st\<rparr>"

definition c_call :: "frame \<Rightarrow> core \<Rightarrow> core" where
  "c_call f k = k\<lparr>fr := (fr k)(cc k := f # fr k (cc k))\<rparr>"

definition c_ret :: "core \<Rightarrow> core" where
  "c_ret k = k\<lparr>fr := (fr k)(cc k := tl (fr k (cc k)))\<rparr>"

definition c_next :: "core \<Rightarrow> addr" where
  "c_next k = (case rdy k of [] \<Rightarrow> idl k | a # as \<Rightarrow> a)"

definition c_sched :: "core \<Rightarrow> core" where
  "c_sched k = k\<lparr>cc := c_next k, rdy := tl (rdy k), ss := (ss k)(c_next k := Some THREAD_RUNNING)\<rparr>"

definition c_block :: "core \<Rightarrow> core" where
  "c_block k = c_sched (k\<lparr>ss := (ss k)(cc k := Some THREAD_BLOCKED)\<rparr>)"

definition c_unblock :: "addr \<Rightarrow> core \<Rightarrow> core" where
  "c_unblock a k = k\<lparr>rdy := rdy k @ [a], ss := (ss k)(a := Some THREAD_READY)\<rparr>"

definition c_up :: "addr \<Rightarrow> core \<Rightarrow> core" where
  "c_up s k = (case sem k s of
     None \<Rightarrow> k
   | Some x \<Rightarrow> (case waiters x of
       [] \<Rightarrow> k\<lparr>sem := (sem k)(s \<mapsto> x\<lparr>s_value := s_value x + 1\<rparr>)\<rparr>
     | w # ws \<Rightarrow> (c_unblock w k)\<lparr>sem := (sem k)(s \<mapsto> x\<lparr>waiters := ws, s_value := s_value x + 1\<rparr>)\<rparr>))"

definition c_yield :: "core \<Rightarrow> core" where
  "c_yield k = c_sched (c_call (RestoreLevel (on k)) (k\<lparr>on := False,
     rdy := (if cc k \<noteq> idl k then rdy k @ [cc k] else rdy k),
     ss := (ss k)(cc k := Some THREAD_READY)\<rparr>))"

lemma core_simps [simp]:
  "cc (core_of st) = cur st" "rdy (core_of st) = ready_list st" "slp (core_of st) = sleep_list st"
  "idl (core_of st) = idle_thread st" "sem (core_of st) = semas st" "hld (core_of st) = holder st"
  "cnd (core_of st) = conds st" "on (core_of st) = intr_on st" "fr (core_of st) = frames_of st"
  "ss (core_of st) a = map_option status (threads st a)"
  by (simp_all add: core_of_def)

text \<open>Updates that change the core in the same way.\<close>

lemma core_updates [simp]:
  "core_of (st\<lparr>io := d\<rparr>) = core_of st"
  "core_of (st\<lparr>intr_on := b\<rparr>) = (core_of st)\<lparr>on := b\<rparr>"
  "core_of (st\<lparr>ready_list := xs\<rparr>) = (core_of st)\<lparr>rdy := xs\<rparr>"
  "core_of (st\<lparr>sleep_list := xs\<rparr>) = (core_of st)\<lparr>slp := xs\<rparr>"
  "core_of (st\<lparr>semas := m\<rparr>) = (core_of st)\<lparr>sem := m\<rparr>"
  "core_of (st\<lparr>holder := h\<rparr>) = (core_of st)\<lparr>hld := h\<rparr>"
  "core_of (st\<lparr>conds := c\<rparr>) = (core_of st)\<lparr>cnd := c\<rparr>"
  "core_of (st\<lparr>cur := a\<rparr>) = (core_of st)\<lparr>cc := a\<rparr>"
  "core_of (st\<lparr>vm := v\<rparr>) = core_of st" "core_of (st\<lparr>esp0 := e\<rparr>) = core_of st"
  "core_of (st\<lparr>thread_ticks := n\<rparr>) = core_of st" "core_of (st\<lparr>ticks := m2\<rparr>) = core_of st"
  "core_of (st\<lparr>yield_on_return := b\<rparr>) = core_of st" "core_of (st\<lparr>in_external_intr := b\<rparr>) = core_of st"
  "core_of (st\<lparr>idle_ticks := m2\<rparr>) = core_of st" "core_of (st\<lparr>kernel_ticks := m2\<rparr>) = core_of st"
  "core_of (st\<lparr>user_ticks := m2\<rparr>) = core_of st"
  by (simp_all add: core_of_def frames_of_def[abs_def])

lemma core_put_thread:
  "core_of (put_thread a t st) = (core_of st)\<lparr>ss := (ss (core_of st))(a := Some (status t)),
     fr := (frames_of st)(a := frames t)\<rparr>"
  by (auto simp: core_of_def put_thread_def frames_of_def fun_eq_iff)

lemma core_put_sema [simp]: "core_of (put_sema s x st) = (core_of st)\<lparr>sem := (semas st)(s \<mapsto> x)\<rparr>"
  by (simp add: put_sema_def)

lemma core_upd_same: "threads st a = Some t \<Longrightarrow> status t' = status t \<Longrightarrow> frames t' = frames t \<Longrightarrow>
  core_of (put_thread a t' st) = core_of st"
  by (auto simp: core_of_def put_thread_def frames_of_def fun_eq_iff)

section \<open>Operations of the machine and of the core\<close>

lemma current_iff: "current st = Some t \<longleftrightarrow> threads st (cur st) = Some t \<and> cur st \<noteq> 0 \<and>
    t_magic t = THREAD_MAGIC \<and> status t = THREAD_RUNNING"
  by (auto simp: current_def thread_current_iff bind_eq_Some_conv)

lemma core_call: "call f st = Some st' \<Longrightarrow> core_of st' = c_call f (core_of st) \<and> cur st' = cur st"
  by (auto simp: call_def bind_eq_Some_conv core_put_thread c_call_def frames_of_def fun_eq_iff core_of_def
      put_thread_def)

lemma core_return: "return st = Some st' \<Longrightarrow> core_of st' = c_ret (core_of st)"
  by (auto simp: return_def bind_eq_Some_conv core_put_thread c_ret_def frames_of_def fun_eq_iff core_of_def
      put_thread_def)

lemma core_set_level: "intr_set_level b st = Some (l, st') \<Longrightarrow> core_of st' = (core_of st)\<lparr>on := b\<rparr>"
  by (auto simp: intr_set_level_def intr_enable_def intr_disable_def Let_def split: if_splits)


definition c_down :: "addr \<Rightarrow> core \<Rightarrow> core" where
  "c_down s k = c_call (SemaDown s (on k)) (k\<lparr>on := False\<rparr>)"

definition c_take_value :: "addr \<Rightarrow> semaphore \<Rightarrow> core \<Rightarrow> core" where
  "c_take_value s x k = k\<lparr>sem := (sem k)(s \<mapsto> x\<lparr>s_value := s_value x - 1\<rparr>)\<rparr>"

definition c_acquire :: "addr \<Rightarrow> core \<Rightarrow> core" where
  "c_acquire l k = c_down (lock_sema l) (c_call (LockAcquired l) k)"

definition c_release :: "addr \<Rightarrow> core \<Rightarrow> core" where
  "c_release l k = c_call (SemaUp (lock_sema l)) (k\<lparr>hld := (hld k)(l \<mapsto> None)\<rparr>)"

definition c_take :: "addr \<Rightarrow> core \<Rightarrow> core" where
  "c_take l k = k\<lparr>hld := (hld k)(l \<mapsto> Some (cc k))\<rparr>"

definition held :: "core \<Rightarrow> addr \<Rightarrow> bool" where
  "held k l \<longleftrightarrow> hld k l = Some (Some (cc k))"

text \<open>A semaphore can be upped: its first waiter, if any, is blocked.\<close>

definition up_ok :: "addr \<Rightarrow> core \<Rightarrow> bool" where
  "up_ok s k \<longleftrightarrow> (\<exists>x. sem k s = Some x \<and> (\<forall>w ws. waiters x = w # ws \<longrightarrow> ss k w = Some THREAD_BLOCKED))"

lemma ASSERT_SomeE: "Option.bind (ASSERT b) f = Some y \<Longrightarrow> (b \<Longrightarrow> f () = Some y \<Longrightarrow> P) \<Longrightarrow> P"
  by (cases b) (auto simp: ASSERT_def)

lemma core_activate: "process_activate st = Some st' \<Longrightarrow> core_of st' = core_of st \<and> threads st' = threads st \<and> initial_thread st' = initial_thread st"
  by (auto simp: process_activate_def tss_update_def Let_def elim!: bind_SomeE)

lemma ss_map: "ss (core_of st) = (\<lambda>a. map_option status (threads st a))"
  by (simp add: core_of_def)

lemma core_upd_status:
  assumes "threads st a = Some t"
  shows "core_of (put_thread a (t\<lparr>status := x\<rparr>) st) = (core_of st)\<lparr>ss := (ss (core_of st))(a := Some x)\<rparr>"
  using assms by (auto simp: core_of_def put_thread_def frames_of_def fun_eq_iff)

lemma sim_tail:
  assumes "thread_schedule_tail p st = Some st'"
    and "\<forall>a x. p = Some a \<longrightarrow> a \<noteq> cur st \<and> (threads st a = Some x \<longrightarrow> status x \<noteq> THREAD_DYING)"
  shows "core_of st' = (core_of st)\<lparr>ss := (ss (core_of st))(cur st := Some THREAD_RUNNING)\<rparr> \<and> \<not> intr_on st"
proof -
  obtain t where t: "threads st (cur st) = Some t" and n: "\<not> intr_on st"
    using assms(1) by (auto simp: thread_schedule_tail_def running_thread_def intr_get_level_def Let_def ASSERT_def elim!: bind_SomeE split: if_splits)
  define st1 where "st1 = (put_thread (cur st) (t\<lparr>status := THREAD_RUNNING\<rparr>) st)\<lparr>thread_ticks := 0\<rparr>"
  obtain st2 where a: "process_activate st1 = Some st2"
    using assms(1) t n by (auto simp: thread_schedule_tail_def running_thread_def intr_get_level_def Let_def ASSERT_def st1_def elim!: bind_SomeE)
  have th: "threads st2 = (threads st)(cur st \<mapsto> t\<lparr>status := THREAD_RUNNING\<rparr>)"
    using core_activate[OF a] by (simp add: st1_def put_thread_def)
  have eq: "thread_schedule_tail p st = (case p of None \<Rightarrow> Some st2
      | Some p \<Rightarrow> do {
          x \<leftarrow> threads st2 p;
          if status x = THREAD_DYING \<and> p \<noteq> initial_thread st2 then do {
            ASSERT (p \<noteq> cur st);
            v \<leftarrow> palloc_free_page (of_nat p) (vm st2);
            Some (st2\<lparr>threads := (threads st2)(p := None), vm := v\<rparr>)
          }
          else Some st2
        })"
    using t n a by (simp add: thread_schedule_tail_def running_thread_def intr_get_level_def Let_def st1_def)
  have "st' = st2"
  proof (cases p)
    case None
    then show ?thesis using eq assms(1) by simp
  next
    case (Some b)
    then obtain x where x: "threads st2 b = Some x" using eq assms(1) by (cases "threads st2 b") simp_all
    have "b \<noteq> cur st" using assms(2) Some by blast
    then have "threads st b = Some x" using x by (simp add: th)
    then have "status x \<noteq> THREAD_DYING" using assms(2) Some by blast
    then show ?thesis using eq assms(1) Some x by simp
  qed
  then show ?thesis
    using core_activate[OF a] t n by (simp add: st1_def core_upd_status)
qed

lemma sim_schedule:
  assumes "schedule st = Some st'" "threads st (cur st) = Some t" "status t \<noteq> THREAD_DYING"
  shows "core_of st' = c_sched (core_of st) \<and> \<not> intr_on st \<and> status t \<noteq> THREAD_RUNNING"
proof -
  obtain n st1 where n: "next_thread_to_run st = (n, st1)" by fastforce
  have st1: "st1 = st\<lparr>ready_list := tl (ready_list st)\<rparr> \<and> n = c_next (core_of st)"
    using n by (auto simp: next_thread_to_run_def c_next_def split: list.splits)
  then have st1th: "threads st1 = threads st" by simp
  have tl: "thread_schedule_tail (if cur st \<noteq> n then Some (cur st) else None) (st1\<lparr>cur := n\<rparr>) = Some st'"
    and nr: "status t \<noteq> THREAD_RUNNING"
    using assms(1,2) n st1th by (auto simp: schedule_def running_thread_def Let_def ASSERT_def elim!: bind_SomeE split: if_splits)
  have th: "threads (st1\<lparr>cur := n\<rparr>) = threads st" "cur (st1\<lparr>cur := n\<rparr>) = n" "intr_on (st1\<lparr>cur := n\<rparr>) = intr_on st"
    and co: "core_of (st1\<lparr>cur := n\<rparr>) = (core_of st)\<lparr>cc := n, rdy := tl (ready_list st)\<rparr>"
    using st1 by simp_all
  have "\<forall>a x. (if cur st \<noteq> n then Some (cur st) else None) = Some a \<longrightarrow>
      a \<noteq> n \<and> (threads st a = Some x \<longrightarrow> status x \<noteq> THREAD_DYING)"
    using assms(2,3) by simp
  from sim_tail[OF tl, unfolded th, OF this]
  have "core_of st' = (core_of st)\<lparr>cc := n, rdy := tl (ready_list st), ss := (ss (core_of st))(n := Some THREAD_RUNNING)\<rparr>"
    and "\<not> intr_on st"
    unfolding co by simp_all
  moreover have "n = c_next (core_of st)" using st1 by simp
  ultimately show ?thesis using nr by (simp add: c_sched_def)
qed


lemma sim_block:
  assumes "thread_block st = Some st'"
  shows "core_of st' = c_block (core_of st) \<and> \<not> intr_on st"
proof -
  obtain t where t: "threads st (cur st) = Some t"
    and s: "schedule (put_thread (cur st) (t\<lparr>status := THREAD_BLOCKED\<rparr>) st) = Some st'"
    using assms by (auto simp: thread_block_def current_iff elim!: bind_SomeE split: if_splits)
  from sim_schedule[OF s] t show ?thesis
    by (simp add: put_thread_def[of _ _ st] c_block_def core_upd_status[OF t, unfolded put_thread_def])
qed

lemma sim_yield:
  assumes "thread_yield st = Some st'"
  shows "core_of st' = c_yield (core_of st)"
proof -
  define st1 where "st1 = (if cur st \<noteq> idle_thread st
      then st\<lparr>intr_on := False, ready_list := ready_list st @ [cur st]\<rparr> else st\<lparr>intr_on := False\<rparr>)"
  obtain st2 t where c: "call (RestoreLevel (intr_on st)) st1 = Some st2"
    and t: "threads st2 (cur st) = Some t"
    and s: "schedule (put_thread (cur st) (t\<lparr>status := THREAD_READY\<rparr>) st2) = Some st'"
    using assms
    by (auto simp: thread_yield_def thread_current_iff intr_disable_def intr_get_level_def Let_def st1_def
        elim!: bind_SomeE split: if_splits)
  have k1: "core_of st1 = (core_of st)\<lparr>on := False,
      rdy := (if cur st \<noteq> idle_thread st then ready_list st @ [cur st] else ready_list st)\<rparr>"
    and cur1: "cur st1 = cur st"
    by (simp_all add: st1_def)
  have k2: "core_of st2 = c_call (RestoreLevel (intr_on st)) (core_of st1)" and cur2: "cur st2 = cur st"
    using core_call[OF c] cur1 by simp_all
  have "core_of st' = c_sched (core_of (put_thread (cur st) (t\<lparr>status := THREAD_READY\<rparr>) st2))"
    using sim_schedule[OF s, of "t\<lparr>status := THREAD_READY\<rparr>"] cur2 by (simp add: put_thread_def)
  then show ?thesis
    unfolding core_upd_status[OF t] k2 k1 c_yield_def c_call_def
    by (auto intro!: arg_cong[where f = c_sched] core.equality)
qed

lemma sim_unblock:
  assumes "thread_unblock a st = Some st'"
  shows "core_of st' = c_unblock a (core_of st) \<and> ss (core_of st) a = Some THREAD_BLOCKED \<and> ticks st' = ticks st"
  using assms
  by (auto simp: thread_unblock_def intr_disable_def intr_get_level_def intr_set_level_def intr_enable_def Let_def c_unblock_def
      core_put_thread frames_of_def fun_eq_iff put_thread_def core_of_def elim!: bind_SomeE split: if_splits)


lemma sim_down: "sema_down s st = Some st' \<Longrightarrow> core_of st' = c_down s (core_of st)"
  by (auto simp: sema_down_def intr_disable_def intr_get_level_def Let_def c_down_def dest: core_call split: if_splits)

lemma sim_down_loop:
  assumes "sema_down_loop s old st = Some st'"
  obtains (block) x where "semas st s = Some x" "s_value x = 0"
      "core_of st' = c_block ((core_of st)\<lparr>sem := (semas st)(s \<mapsto> x\<lparr>waiters := waiters x @ [cur st]\<rparr>)\<rparr>)"
  | (take) x where "semas st s = Some x" "s_value x \<noteq> 0"
      "core_of st' = c_ret ((c_take_value s x (core_of st))\<lparr>on := old\<rparr>)"
proof -
  obtain x where x: "semas st s = Some x" using assms by (auto simp: sema_down_loop_def elim!: bind_SomeE)
  show thesis
  proof (cases "s_value x = 0")
    case True
    then have "thread_block (put_sema s (x\<lparr>waiters := waiters x @ [cur st]\<rparr>) st) = Some st'"
      using assms x by (auto simp: sema_down_loop_def thread_current_iff elim!: bind_SomeE)
    from sim_block[OF this] show thesis using True x by (intro block[of x]) simp_all
  next
    case False
    then obtain l st1 where l: "intr_set_level old (put_sema s (x\<lparr>s_value := s_value x - 1\<rparr>) st) = Some (l, st1)"
      and "return st1 = Some st'"
      using assms x by (auto simp: sema_down_loop_def Let_def elim!: bind_SomeE)
    then show thesis
      using False x core_return[of st1 st'] core_set_level[OF l]
      by (intro take[of x]) (simp_all add: c_take_value_def)
  qed
qed

lemma core_same_level: "(core_of st)\<lparr>on := intr_on st\<rparr> = core_of st"
  by (simp add: core_of_def)

lemma sim_try:
  assumes "sema_try_down s st = Some (b, st')"
  shows "\<exists>x. semas st s = Some x \<and> (b \<longleftrightarrow> s_value x > 0) \<and> cur st' = cur st \<and> threads st' = threads st \<and>
      core_of st' = (if b then c_take_value s x (core_of st) else core_of st)"
  using assms core_same_level[of st]
  by (auto simp: sema_try_down_def intr_disable_def intr_get_level_def intr_set_level_def intr_enable_def Let_def
      c_take_value_def put_sema_def core_of_def frames_of_def[abs_def] elim!: bind_SomeE split: if_splits)

lemma sim_up:
  assumes "sema_up s st = Some st'"
  shows "core_of st' = c_up s (core_of st) \<and> up_ok s (core_of st)"
proof -
  obtain x where x: "semas st s = Some x"
    using assms by (auto simp: sema_up_def intr_disable_def elim!: bind_SomeE split: if_splits)
  let ?st = "st\<lparr>intr_on := False\<rparr>"
  show ?thesis
  proof (cases "waiters x")
    case Nil
    then obtain l where "intr_set_level (intr_on st) (put_sema s (x\<lparr>s_value := s_value x + 1\<rparr>) ?st) = Some (l, st')"
      using assms x by (auto simp: sema_up_def intr_disable_def intr_get_level_def Let_def elim!: bind_SomeE split: if_splits)
    from core_set_level[OF this]
    have "core_of st' = (core_of st)\<lparr>sem := (semas st)(s \<mapsto> x\<lparr>s_value := s_value x + 1\<rparr>), on := intr_on st\<rparr>"
      by simp
    then show ?thesis
      using Nil x by (auto simp: c_up_def up_ok_def intro: core.equality)
  next
    case (Cons w ws)
    then obtain st1 y l where u: "thread_unblock w (put_sema s (x\<lparr>waiters := ws\<rparr>) ?st) = Some st1"
      and y: "semas st1 s = Some y"
      and l: "intr_set_level (intr_on st) (put_sema s (y\<lparr>s_value := s_value y + 1\<rparr>) st1) = Some (l, st')"
      using assms x by (auto simp: sema_up_def intr_disable_def intr_get_level_def Let_def elim!: bind_SomeE split: if_splits)
    have k1: "core_of st1 = c_unblock w ((core_of st)\<lparr>on := False, sem := (semas st)(s \<mapsto> x\<lparr>waiters := ws\<rparr>)\<rparr>)"
      and b: "ss (core_of st) w = Some THREAD_BLOCKED"
      using sim_unblock[OF u] by simp_all
    have "semas st1 = sem (core_of st1)" by simp
    then have sm: "semas st1 = (semas st)(s \<mapsto> x\<lparr>waiters := ws\<rparr>)"
      unfolding k1 by (simp add: c_unblock_def)
    have "core_of st' = (core_of st1)\<lparr>sem := (semas st1)(s \<mapsto> y\<lparr>s_value := s_value y + 1\<rparr>), on := intr_on st\<rparr>"
      using core_set_level[OF l] by simp
    then show ?thesis
      using Cons x b y unfolding sm k1
      by (auto simp: c_up_def up_ok_def c_unblock_def intro: core.equality)
  qed
qed


lemma sim_held: "lock_held_by_current_thread l st = Some b \<Longrightarrow>
    (\<exists>h. holder st l = Some h \<and> (b \<longleftrightarrow> h = Some (cur st)))"
  by (auto simp: lock_held_by_current_thread_def thread_current_iff elim!: bind_SomeE split: if_splits)

lemma sim_acquire:
  assumes "lock_acquire l st = Some st'"
  shows "core_of st' = c_acquire l (core_of st) \<and> l \<in> dom (holder st) \<and> \<not> held (core_of st) l"
  using assms
  by (auto simp: lock_acquire_def c_acquire_def held_def dest!: core_call sim_down sim_held elim!: bind_SomeE split: if_splits)

lemma sim_take:
  assumes "lock_take l st = Some st'"
  shows "core_of st' = c_take l (core_of st)"
proof -
  obtain t where "threads st (cur st) = Some t"
    and "st' = put_thread (cur st) (t\<lparr>lock_list := lock_list t @ [l]\<rparr>) (st\<lparr>holder := (holder st)(l \<mapsto> Some (cur st))\<rparr>)"
    using assms by (auto simp: lock_take_def current_iff Let_def elim!: bind_SomeE)
  then show ?thesis
    using core_upd_same[of "st\<lparr>holder := (holder st)(l \<mapsto> Some (cur st))\<rparr>" "cur st" t]
    by (simp add: c_take_def)
qed

lemma sim_try_acquire:
  assumes "lock_try_acquire l st = Some (b, st')"
  shows "l \<in> dom (holder st) \<and> \<not> held (core_of st) l \<and>
    (\<exists>x. semas st (lock_sema l) = Some x \<and> (b \<longleftrightarrow> s_value x > 0) \<and>
      core_of st' = (if b then c_take l (c_take_value (lock_sema l) x (core_of st)) else core_of st))"
proof -
  obtain h st1 where "lock_held_by_current_thread l st = Some h" "\<not> h"
    and t: "sema_try_down (lock_sema l) st = Some (b, st1)"
    and r: "(if b then lock_take l st1 else Some st1) = Some st'"
    using assms by (auto simp: lock_try_acquire_def elim!: bind_SomeE split: if_splits)
  then show ?thesis
    using sim_try[OF t] by (auto simp: held_def dest!: sim_held sim_take split: if_splits)
qed

lemma sim_release:
  assumes "lock_release l st = Some st'"
  shows "core_of st' = c_release l (core_of st) \<and> held (core_of st) l"
proof -
  obtain t where h: "holder st l = Some (Some (cur st))" and t: "threads st (cur st) = Some t"
    and c: "call (SemaUp (lock_sema l)) (put_thread (cur st) (t\<lparr>lock_list := remove1 l (lock_list t)\<rparr>)
      (st\<lparr>holder := (holder st)(l \<mapsto> None)\<rparr>)) = Some st'"
    using assms by (auto simp: lock_release_def current_iff Let_def dest!: sim_held elim!: bind_SomeE split: if_splits)
  then show ?thesis
    using core_call[OF c] core_upd_same[of "st\<lparr>holder := (holder st)(l \<mapsto> None)\<rparr>" "cur st" t]
    by (simp add: c_release_def held_def)
qed

definition c_wait :: "addr \<Rightarrow> addr \<Rightarrow> addr \<Rightarrow> addr list \<Rightarrow> core \<Rightarrow> core" where
  "c_wait w c l ws k = c_release l (c_call (SemaDownCall w) (c_call (CondReacquire l) (c_call (CondReturn w)
     (k\<lparr>sem := (sem k)(w \<mapsto> \<lparr>s_value = 0, waiters = []\<rparr>), cnd := (cnd k)(c \<mapsto> ws @ [w])\<rparr>))))"

lemma sim_cond_wait:
  assumes "cond_wait w c l st = Some st'"
  shows "held (core_of st) l \<and> (\<exists>ws. conds st c = Some ws \<and> core_of st' = c_wait w c l ws (core_of st))"
proof -
  obtain ws st1 st2 st3 where h: "holder st l = Some (Some (cur st))" and ws: "conds st c = Some ws"
    and c1: "call (CondReturn w) (put_sema w \<lparr>s_value = 0, waiters = []\<rparr> st\<lparr>conds := (conds st)(c \<mapsto> ws @ [w])\<rparr>) = Some st1"
    and c2: "call (CondReacquire l) st1 = Some st2" and c3: "call (SemaDownCall w) st2 = Some st3"
    and r: "lock_release l st3 = Some st'"
    using assms
    by (auto simp: cond_wait_def sema_init_def put_sema_def Let_def dest!: sim_held elim!: bind_SomeE split: if_splits)
  show ?thesis
    using h ws core_call[OF c1] core_call[OF c2] core_call[OF c3] sim_release[OF r]
    by (auto simp: held_def c_wait_def)
qed

lemma sim_cond_signal:
  assumes "cond_signal c l st = Some st'"
  shows "\<exists>ws. conds st c = Some ws \<and> core_of st' = (case ws of [] \<Rightarrow> core_of st
    | w # ws \<Rightarrow> c_call (SemaUp w) ((core_of st)\<lparr>cnd := (conds st)(c \<mapsto> ws)\<rparr>))"
proof -
  obtain ws where "conds st c = Some ws"
    and "(case ws of [] \<Rightarrow> Some st | w # ws \<Rightarrow> call (SemaUp w) (st\<lparr>conds := (conds st)(c \<mapsto> ws)\<rparr>)) = Some st'"
    using assms by (auto simp: cond_signal_def elim!: bind_SomeE split: if_splits)
  then show ?thesis by (cases ws) (auto dest: core_call)
qed

lemma sim_sleep:
  assumes "timer_sleep n st = Some st'"
  shows "core_of st' = core_of st \<or> (\<exists>xs. mset xs = add_mset (cur st) (mset (sleep_list st)) \<and>
    core_of st' = c_block (c_call (RestoreLevel True) ((core_of st)\<lparr>on := False, slp := xs\<rparr>)))"
proof (cases "n \<le>s 0")
  case True
  then show ?thesis using assms by (auto simp: timer_sleep_def split: if_splits)
next
  case False
  define st0 where "st0 = st\<lparr>intr_on := False\<rparr>"
  obtain t st2 where i: "intr_on st" and t: "threads st (cur st) = Some t"
    and c: "call (RestoreLevel True) (put_thread (cur st) (t\<lparr>t_ticks := ticks st + n\<rparr>) st0\<lparr>sleep_list :=
       insert_sleeper (put_thread (cur st) (t\<lparr>t_ticks := ticks st + n\<rparr>) st0) (cur st) (sleep_list st)\<rparr>) = Some st2"
    and b: "thread_block st2 = Some st'"
    using assms False
    by (auto simp: timer_sleep_def timer_ticks_def intr_get_level_def intr_disable_def intr_set_level_def Let_def
        current_iff st0_def put_thread_def elim!: bind_SomeE split: if_splits)
  have "core_of (put_thread (cur st) (t\<lparr>t_ticks := ticks st + n\<rparr>) st0) = core_of st0"
    using t by (intro core_upd_same) (simp_all add: st0_def)
  then show ?thesis
    using core_call[OF c] sim_block[OF b]
    by - (rule disjI2, rule exI, rule conjI, rule mset_insert_sleeper, simp add: st0_def)
qed


definition c_wake :: "addr list \<Rightarrow> addr list \<Rightarrow> core \<Rightarrow> core" where
  "c_wake ws rest k = (fold c_unblock ws k)\<lparr>slp := rest\<rparr>"

lemma c_unblock_slp [simp]: "c_unblock w (k\<lparr>slp := xs\<rparr>) = (c_unblock w k)\<lparr>slp := xs\<rparr>"
  by (simp add: c_unblock_def)

lemma fold_unblock_slp [simp]: "fold c_unblock ws (k\<lparr>slp := xs\<rparr>) = (fold c_unblock ws k)\<lparr>slp := xs\<rparr>"
  by (induction ws arbitrary: k) simp_all

lemma sim_wake_loop:
  assumes "wake_loop as st = Some st'" "sleep_list st = as"
  shows "\<exists>ws rest. as = ws @ rest \<and> core_of st' = c_wake ws rest (core_of st)"
  using assms
proof (induction as arbitrary: st)
  case Nil
  then show ?case by (auto simp: c_wake_def core_of_def)
next
  case (Cons a as)
  obtain t where t: "threads st a = Some t" using Cons.prems(1) by (auto elim!: bind_SomeE)
  show ?case
  proof (cases "ticks st <s t_ticks t")
    case True
    then have "st' = st" using Cons.prems(1) t by simp
    then show ?thesis using Cons.prems(2) by (intro exI[of _ "[]"] exI[of _ "a # as"]) (simp add: c_wake_def core_of_def)
  next
    case False
    then obtain st1 where u: "thread_unblock a (st\<lparr>sleep_list := as\<rparr>) = Some st1" and w: "wake_loop as st1 = Some st'"
      using Cons.prems(1) t by (auto elim!: bind_SomeE)
    have k1: "core_of st1 = (c_unblock a (core_of st))\<lparr>slp := as\<rparr>" using sim_unblock[OF u] by simp
    have "slp (core_of st1) = as" unfolding k1 by simp
    then obtain ws rest where "as = ws @ rest" "core_of st' = c_wake ws rest (core_of st1)"
      using Cons.IH[OF w] by auto
    then show ?thesis by (intro exI[of _ "a # ws"] exI[of _ rest]) (simp add: k1 c_wake_def)
  qed
qed

definition c_tick :: "addr list \<Rightarrow> addr list \<Rightarrow> bool \<Rightarrow> core \<Rightarrow> core" where
  "c_tick ws rest y k = (let k = c_wake ws rest (c_call Iret (k\<lparr>on := False\<rparr>)) in if y then c_yield k else k)"

lemma sim_thread_tick: "thread_tick st = Some st' \<Longrightarrow> core_of st' = core_of st"
  by (auto simp: thread_tick_def intr_yield_on_return_def Let_def elim!: bind_SomeE split: if_splits)

lemma sim_tick:
  assumes "timer_intr_handler st = Some st'"
  shows "\<exists>ws rest y. sleep_list st = ws @ rest \<and> core_of st' = c_tick ws rest y (core_of st)"
proof -
  obtain st1 st2 where c: "call Iret (st\<lparr>intr_on := False\<rparr>) = Some st1"
    and i: "timer_interrupt (st1\<lparr>in_external_intr := True, yield_on_return := False\<rparr>) = Some st2"
    and y: "(if yield_on_return st2 then thread_yield (st2\<lparr>in_external_intr := False, io := outb 32 32 (io st2)\<rparr>)
        else Some (st2\<lparr>in_external_intr := False, io := outb 32 32 (io st2)\<rparr>)) = Some st'"
    using assms by (auto simp: timer_intr_handler_def Let_def elim!: bind_SomeE split: if_splits)
  obtain st3 where t: "thread_tick (st1\<lparr>in_external_intr := True, yield_on_return := False, ticks := ticks st1 + 1\<rparr>) = Some st3"
    and w: "wake_loop (sleep_list st3) st3 = Some st2"
    using i by (auto simp: timer_interrupt_def Let_def elim!: bind_SomeE)
  have k3: "core_of st3 = c_call Iret ((core_of st)\<lparr>on := False\<rparr>)"
    using sim_thread_tick[OF t] core_call[OF c] by simp
  have "slp (core_of st3) = sleep_list st" unfolding k3 by (simp add: c_call_def)
  then obtain ws rest where ws: "sleep_list st = ws @ rest" "core_of st2 = c_wake ws rest (core_of st3)"
    using sim_wake_loop[OF w refl] by auto
  have "core_of st' = (if yield_on_return st2 then c_yield (core_of st2) else core_of st2)"
    using y sim_yield[of "st2\<lparr>in_external_intr := False, io := outb 32 32 (io st2)\<rparr>" st'] by (auto split: if_splits)
  then have "core_of st' = c_tick ws rest (yield_on_return st2) (core_of st)"
    by (simp add: c_tick_def ws(2) k3)
  with ws(1) show ?thesis by blast
qed


section \<open>Steps of the core\<close>

definition c_lock_semas :: "core \<Rightarrow> addr set" where
  "c_lock_semas k = lock_sema ` dom (hld k)"

definition c_unused :: "addr \<Rightarrow> core \<Rightarrow> bool" where
  "c_unused w k \<longleftrightarrow> w \<notin> c_lock_semas k \<and>
     (\<forall>a. \<forall>f \<in> set (fr k a). (\<forall>b. f \<noteq> SemaDown w b) \<and> f \<noteq> SemaDownCall w \<and> f \<noteq> SemaUp w)"

inductive cop :: "core \<Rightarrow> core \<Rightarrow> bool" where
  stay: "cop k k"
| down: "s \<notin> c_lock_semas k \<Longrightarrow> cop k (c_down s k)"
| try_down: "s \<notin> c_lock_semas k \<Longrightarrow> sem k s = Some x \<Longrightarrow> s_value x > 0 \<Longrightarrow> cop k (c_take_value s x k)"
| up: "s \<notin> c_lock_semas k \<Longrightarrow> up_ok s k \<Longrightarrow> cop k (c_up s k)"
| acquire: "l \<in> dom (hld k) \<Longrightarrow> \<not> held k l \<Longrightarrow> cop k (c_acquire l k)"
| try_acquire: "l \<in> dom (hld k) \<Longrightarrow> \<not> held k l \<Longrightarrow> sem k (lock_sema l) = Some x \<Longrightarrow> s_value x > 0 \<Longrightarrow>
    cop k (c_take l (c_take_value (lock_sema l) x k))"
| release: "held k l \<Longrightarrow> cop k (c_release l k)"
| wait: "held k l \<Longrightarrow> cnd k c = Some ws \<Longrightarrow> c_unused w k \<Longrightarrow> cop k (c_wait w c l ws k)"
| signal: "cnd k c = Some (w # ws) \<Longrightarrow> cop k (c_call (SemaUp w) (k\<lparr>cnd := (cnd k)(c \<mapsto> ws)\<rparr>))"
| broadcast: "cop k (c_call (CondBroadcast c l) k)"
| yield: "cop k (c_yield k)"
| sleep: "mset xs = add_mset (cc k) (mset (slp k)) \<Longrightarrow>
    cop k (c_block (c_call (RestoreLevel True) (k\<lparr>on := False, slp := xs\<rparr>)))"

text \<open>Frames whose work does not change the queues.\<close>

fun plain :: "frame \<Rightarrow> bool" where
  "plain (CondReturn w) = True"
| "plain (CondBroadcast c l) = True"
| "plain (RestoreLevel b) = True"
| "plain Iret = True"
| "plain KernelThread = True"
| "plain IdleHalt = True"
| "plain f = False"

inductive cstep :: "core \<Rightarrow> core \<Rightarrow> bool" where
  oper: "fr k (cc k) = [] \<Longrightarrow> cop k k' \<Longrightarrow> cstep k k'"
| block: "fr k (cc k) = SemaDown s b # fs \<Longrightarrow> sem k s = Some x \<Longrightarrow> s_value x = 0 \<Longrightarrow>
    cstep k (c_block (k\<lparr>sem := (sem k)(s \<mapsto> x\<lparr>waiters := waiters x @ [cc k]\<rparr>)\<rparr>))"
| took: "fr k (cc k) = SemaDown s b # fs \<Longrightarrow> sem k s = Some x \<Longrightarrow> s_value x \<noteq> 0 \<Longrightarrow>
    cstep k (c_ret ((c_take_value s x k)\<lparr>on := b\<rparr>))"
| down_call: "fr k (cc k) = SemaDownCall s # fs \<Longrightarrow> cstep k (c_down s (c_ret k))"
| up: "fr k (cc k) = SemaUp s # fs \<Longrightarrow> up_ok s k \<Longrightarrow> cstep k (c_up s (c_ret k))"
| take: "fr k (cc k) = LockAcquired l # fs \<Longrightarrow> cstep k (c_take l (c_ret k))"
| reacquire: "fr k (cc k) = CondReacquire l # fs \<Longrightarrow> l \<in> dom (hld k) \<Longrightarrow> \<not> held k l \<Longrightarrow>
    cstep k (c_acquire l (c_ret k))"
| signal_all: "fr k (cc k) = CondBroadcast c l # fs \<Longrightarrow> cnd k c = Some (w # ws) \<Longrightarrow>
    cstep k (c_call (SemaUp w) (k\<lparr>cnd := (cnd k)(c \<mapsto> ws)\<rparr>))"
| ret: "fr k (cc k) = f # fs \<Longrightarrow> plain f \<Longrightarrow> cstep k ((c_ret k)\<lparr>on := b\<rparr>)"
| idle: "fr k (cc k) = IdleLoop # fs \<Longrightarrow> cstep k (c_block (c_call IdleHalt (k\<lparr>on := False\<rparr>)))"
| tick: "slp k = ws @ rest \<Longrightarrow> cstep k (c_tick ws rest y k)"

lemma c_lock_semas_of: "lock_semas st = c_lock_semas (core_of st)"
  by (simp add: lock_semas_def c_lock_semas_def)

lemma unused_of: "unused_sema w st \<longleftrightarrow> c_unused w (core_of st)"
  by (simp add: unused_sema_def c_unused_def c_lock_semas_of)

lemma do_op_cop:
  assumes "do_op p st = Some st'" "op_ok p st"
  shows "cop (core_of st) (core_of st')"
proof (cases p)
  case (Op_sema_down s)
  then show ?thesis using assms cop.down[of s "core_of st"] by (auto simp: do_op_def c_lock_semas_of dest: sim_down)
next
  case (Op_sema_try_down s)
  then obtain b where "sema_try_down s st = Some (b, st')" using assms(1) by (auto simp: do_op_def)
  from sim_try[OF this] show ?thesis
    using assms(2) Op_sema_try_down cop.try_down[of s "core_of st"] cop.stay[of "core_of st"]
    by (auto simp: c_lock_semas_of split: if_splits)
next
  case (Op_sema_up s)
  then show ?thesis using assms cop.up[of s "core_of st"] by (auto simp: do_op_def c_lock_semas_of dest: sim_up)
next
  case (Op_lock_acquire l)
  then have "lock_acquire l st = Some st'" using assms(1) by (simp add: do_op_def)
  from sim_acquire[OF this] show ?thesis using cop.acquire[of l "core_of st"] by simp
next
  case (Op_lock_try_acquire l)
  then obtain b where "lock_try_acquire l st = Some (b, st')" using assms(1) by (auto simp: do_op_def)
  from sim_try_acquire[OF this] show ?thesis
    using cop.try_acquire[of l "core_of st"] cop.stay[of "core_of st"] by (auto split: if_splits)
next
  case (Op_lock_release l)
  then show ?thesis using assms cop.release[of "core_of st" l] by (auto simp: do_op_def dest: sim_release)
next
  case (Op_cond_wait w c l)
  then have "cond_wait w c l st = Some st'" using assms(1) by (simp add: do_op_def)
  from sim_cond_wait[OF this] show ?thesis
    using assms(2) Op_cond_wait cop.wait[of "core_of st" l c] by (auto simp: unused_of)
next
  case (Op_cond_signal c l)
  then have "cond_signal c l st = Some st'" using assms(1) by (simp add: do_op_def)
  from sim_cond_signal[OF this] obtain ws where "conds st c = Some ws" and k: "core_of st' = (case ws of
      [] \<Rightarrow> core_of st | w # ws \<Rightarrow> c_call (SemaUp w) ((core_of st)\<lparr>cnd := (conds st)(c \<mapsto> ws)\<rparr>))"
    by blast
  then show ?thesis
    using cop.signal[of "core_of st" c] cop.stay[of "core_of st"] by (cases ws) simp_all
next
  case (Op_cond_broadcast c l)
  then show ?thesis using assms cop.broadcast[of "core_of st" c l]
    by (auto simp: do_op_def cond_broadcast_def dest: core_call split: if_splits)
next
  case Op_yield
  then show ?thesis using assms cop.yield[of "core_of st"] by (auto simp: do_op_def dest: sim_yield)
next
  case (Op_sleep n)
  then have "timer_sleep n st = Some st'" using assms(1) by (simp add: do_op_def)
  from sim_sleep[OF this] show ?thesis
    using cop.stay[of "core_of st"] cop.sleep[of _ "core_of st"] by auto
qed


lemma frames_of_current: "threads st (cur st) = Some t \<Longrightarrow> frames_of st (cur st) = frames t"
  by (simp add: frames_of_def)

lemma core_ret_eq: "return st = Some st' \<Longrightarrow> core_of st' = c_ret (core_of st) \<and> cur st' = cur st"
  by (auto simp: core_return) (auto simp: return_def put_thread_def elim!: bind_SomeE)

lemma up_ok_ret [simp]: "up_ok s (c_ret k) = up_ok s k"
  by (simp add: up_ok_def c_ret_def)

lemma c_ret_simps [simp]:
  "held (c_ret k) l = held k l" "hld (c_ret k) = hld k" "cnd (c_ret k) = cnd k" "sem (c_ret k) = sem k"
  by (simp_all add: c_ret_def held_def)

lemma cstep_ret_same: "fr k (cc k) = f # fs \<Longrightarrow> plain f \<Longrightarrow> cstep k (c_ret k)"
  using cstep.ret[of k f fs "on (c_ret k)"] by simp

lemma resume_cstep:
  assumes "resume st = Some st'" "current st = Some t" "frames t = f # fs" "sync_frame f"
  shows "cstep (core_of st) (core_of st')"
proof -
  have fr: "fr (core_of st) (cc (core_of st)) = f # fs"
    using assms(2,3) by (simp add: frames_of_current current_iff)
  show ?thesis
  proof (cases f)
    case (SemaDown s b)
    then have "sema_down_loop s b st = Some st'" using assms by (simp add: resume_def)
    then show ?thesis
      using cstep.block[of "core_of st" s b fs] cstep.took[of "core_of st" s b fs] fr SemaDown
      by (cases rule: sim_down_loop) simp_all
  next
    case (SemaDownCall s)
    then obtain st1 where "return st = Some st1" "sema_down s st1 = Some st'"
      using assms by (auto simp: resume_def elim!: bind_SomeE)
    then have "core_of st' = c_down s (c_ret (core_of st))" by (simp add: core_return sim_down)
    then show ?thesis using cstep.down_call[of "core_of st" s fs] fr SemaDownCall by simp
  next
    case (SemaUp s)
    then obtain st1 where "return st = Some st1" "sema_up s st1 = Some st'"
      using assms by (auto simp: resume_def elim!: bind_SomeE)
    then have "core_of st' = c_up s (c_ret (core_of st)) \<and> up_ok s (core_of st)"
      using sim_up[of s st1 st'] by (simp add: core_return)
    then show ?thesis using cstep.up[of "core_of st" s fs] fr SemaUp by simp
  next
    case (LockAcquired l)
    then obtain st1 where "return st = Some st1" "lock_take l st1 = Some st'"
      using assms by (auto simp: resume_def elim!: bind_SomeE)
    then have "core_of st' = c_take l (c_ret (core_of st))" by (simp add: core_return sim_take)
    then show ?thesis using cstep.take[of "core_of st" l fs] fr LockAcquired by simp
  next
    case (CondReacquire l)
    then obtain st1 where r: "return st = Some st1" and a: "lock_acquire l st1 = Some st'"
      using assms by (auto simp: resume_def elim!: bind_SomeE)
    have "holder st1 = hld (core_of st1)" by simp
    then have "holder st1 = holder st" unfolding core_return[OF r] by simp
    then show ?thesis
      using cstep.reacquire[of "core_of st" l fs] fr CondReacquire sim_acquire[OF a] core_return[OF r] by simp
  next
    case (CondBroadcast c l)
    then have b: "cond_broadcast_loop c l st = Some st'" using assms by (simp add: resume_def)
    then obtain ws where ws: "conds st c = Some ws" by (auto simp: cond_broadcast_loop_def elim!: bind_SomeE)
    show ?thesis
    proof (cases ws)
      case Nil
      then have "core_of st' = c_ret (core_of st)"
        using b ws core_return[of st st'] by (simp add: cond_broadcast_loop_def)
      then show ?thesis using cstep_ret_same[OF fr] CondBroadcast by simp
    next
      case (Cons w ws')
      then have "cond_signal c l st = Some st'" using b ws by (simp add: cond_broadcast_loop_def)
      from sim_cond_signal[OF this] show ?thesis
        using cstep.signal_all[of "core_of st" c l fs w ws'] fr CondBroadcast ws Cons by simp
    qed
  next
    case IdleLoop
    then have "idle_loop st = Some st'" using assms by (simp add: resume_def)
    then obtain st1 where c: "call IdleHalt (st\<lparr>intr_on := False\<rparr>) = Some st1" and b: "thread_block st1 = Some st'"
      by (auto simp: idle_loop_def intr_disable_def Let_def elim!: bind_SomeE)
    have "core_of st' = c_block (c_call IdleHalt ((core_of st)\<lparr>on := False\<rparr>))"
      using core_call[OF c] sim_block[OF b] by simp
    then show ?thesis using cstep.idle[of "core_of st" fs] fr IdleLoop by simp
  next
    case (RestoreLevel b)
    then obtain st1 l where r: "return st = Some st1" and l: "intr_set_level b st1 = Some (l, st')"
      using assms by (auto simp: resume_def elim!: bind_SomeE)
    then have "core_of st' = (c_ret (core_of st))\<lparr>on := b\<rparr>" using core_set_level[OF l] core_return[OF r] by simp
    then show ?thesis using cstep.ret[of "core_of st" f fs b] fr RestoreLevel by simp
  next
    case Iret
    then obtain st1 where "return st = Some st1" "st' = st1\<lparr>intr_on := True\<rparr>"
      using assms by (auto simp: resume_def elim!: bind_SomeE)
    then have "core_of st' = (c_ret (core_of st))\<lparr>on := True\<rparr>" by (simp add: core_return)
    then show ?thesis using cstep.ret[of "core_of st" f fs True] fr Iret by simp
  next
    case KernelThread
    then obtain st1 where "return st = Some st1" "st' = st1\<lparr>intr_on := True\<rparr>"
      using assms by (auto simp: resume_def kernel_thread_def intr_enable_def Let_def elim!: bind_SomeE split: if_splits)
    then have "core_of st' = (c_ret (core_of st))\<lparr>on := True\<rparr>" by (simp add: core_return)
    then show ?thesis using cstep.ret[of "core_of st" f fs True] fr KernelThread by simp
  next
    case IdleHalt
    then have "return (st\<lparr>intr_on := True\<rparr>) = Some st'" using assms by (simp add: resume_def idle_halt_def)
    from core_return[OF this] have "core_of st' = (c_ret (core_of st))\<lparr>on := True\<rparr>"
      by (simp add: c_ret_def)
    then show ?thesis using cstep.ret[of "core_of st" f fs True] fr IdleHalt by simp
  next
    case (CondReturn w)
    then have "return st = Some st'" using assms by (simp add: resume_def)
    from core_return[OF this] show ?thesis using cstep_ret_same[OF fr] CondReturn by simp
  qed (use assms(4) in simp_all)
qed

theorem kstep_cstep: "kstep st st' \<Longrightarrow> cstep (core_of st) (core_of st')"
proof (induction rule: kstep.induct)
  case (oper st t p st')
  then have "fr (core_of st) (cc (core_of st)) = []" by (simp add: frames_of_current current_iff)
  then show ?case using do_op_cop[of p st st'] oper by (auto intro: cstep.oper)
next
  case (resume st t f fs st')
  then show ?case by (intro resume_cstep)
next
  case (tick st st')
  then show ?case using sim_tick[of st st'] cstep.tick[of "core_of st"] by auto
qed

end
