(* ===== verification/KSyncInv.thy ===== *)
theory KSyncInv imports KSync begin

text \<open>
  Invariants of scheduling and synchronisation, proved for the steps of the core.
\<close>

section \<open>Every thread is in one queue\<close>

fun idle_frame :: "frame \<Rightarrow> bool" where
  "idle_frame (RestoreLevel b) = True"
| "idle_frame Iret = True"
| "idle_frame IdleHalt = True"
| "idle_frame f = False"

definition idle_stack :: "frame list \<Rightarrow> bool" where
  "idle_stack fs \<longleftrightarrow> (\<exists>gs. fs = gs @ [IdleLoop] \<and> list_all idle_frame gs)"

definition rdy_ok :: "core \<Rightarrow> bool" where
  "rdy_ok k \<longleftrightarrow> distinct (rdy k) \<and> (\<forall>a. a \<in> set (rdy k) \<longleftrightarrow> ss k a = Some THREAD_READY \<and> a \<noteq> idl k)"

fun in_sleep :: "frame list \<Rightarrow> bool" where
  "in_sleep (RestoreLevel b # fs) = b"
| "in_sleep fs = False"

fun in_down :: "addr \<Rightarrow> frame list \<Rightarrow> bool" where
  "in_down s (SemaDown s' b # fs) = (s = s')"
| "in_down s fs = False"

definition parked_on :: "core \<Rightarrow> (frame list \<Rightarrow> bool) \<Rightarrow> addr \<Rightarrow> bool" where
  "parked_on k P a \<longleftrightarrow> ss k a = Some THREAD_BLOCKED \<and> a \<noteq> idl k \<and> P (fr k a)"

definition slp_ok :: "core \<Rightarrow> bool" where
  "slp_ok k \<longleftrightarrow> distinct (slp k) \<and> (\<forall>a \<in> set (slp k). parked_on k in_sleep a)"

text \<open>The threads that wait in the semaphore at \<open>s\<close>.\<close>

definition wl :: "core \<Rightarrow> addr \<Rightarrow> addr list" where
  "wl k s = (case sem k s of Some x \<Rightarrow> waiters x | None \<Rightarrow> [])"

definition sem_ok :: "core \<Rightarrow> bool" where
  "sem_ok k \<longleftrightarrow> (\<forall>s. distinct (wl k s) \<and> (\<forall>a \<in> set (wl k s). parked_on k (in_down s) a))"

definition waits :: "core \<Rightarrow> addr \<Rightarrow> bool" where
  "waits k a \<longleftrightarrow> (\<exists>s. a \<in> set (wl k s))"

definition blocked_ok :: "core \<Rightarrow> bool" where
  "blocked_ok k \<longleftrightarrow> (\<forall>a. ss k a = Some THREAD_BLOCKED \<longrightarrow>
     a = idl k \<or> a \<in> set (slp k) \<or> waits k a)"

definition idle_ok :: "core \<Rightarrow> bool" where
  "idle_ok k \<longleftrightarrow> idle_stack (fr k (idl k)) \<and> ss k (idl k) \<noteq> None \<and>
     (\<forall>a. a \<noteq> idl k \<longrightarrow> IdleLoop \<notin> set (fr k a))"

definition queues_ok :: "core \<Rightarrow> bool" where
  "queues_ok k \<longleftrightarrow> rdy_ok k \<and> slp_ok k \<and> sem_ok k \<and> blocked_ok k \<and> idle_ok k \<and>
     (\<forall>a. ss k a \<noteq> Some THREAD_DYING)"

lemmas queues_defs = queues_ok_def rdy_ok_def slp_ok_def sem_ok_def blocked_ok_def idle_ok_def parked_on_def waits_def wl_def

definition sched_ok :: "core \<Rightarrow> bool" where
  "sched_ok k \<longleftrightarrow> queues_ok k \<and> ss k (cc k) = Some THREAD_RUNNING \<and>
     (\<forall>a. a \<noteq> cc k \<longrightarrow> ss k a \<noteq> Some THREAD_RUNNING)"

text \<open>Nobody is running: the moment when the next thread is chosen.\<close>

definition no_runner :: "core \<Rightarrow> bool" where
  "no_runner k \<longleftrightarrow> queues_ok k \<and> (\<forall>a. ss k a \<noteq> Some THREAD_RUNNING)"

lemma c_sched_simps [simp]:
  "cc (c_sched k) = c_next k" "slp (c_sched k) = slp k" "idl (c_sched k) = idl k" "sem (c_sched k) = sem k"
  "fr (c_sched k) = fr k" "hld (c_sched k) = hld k" "cnd (c_sched k) = cnd k" "rdy (c_sched k) = tl (rdy k)"
  "ss (c_sched k) = (ss k)(c_next k := Some THREAD_RUNNING)"
  by (simp_all add: c_sched_def)

lemma c_next_cases:
  obtains (idle) "rdy k = []" "c_next k = idl k" | (ready) a as where "rdy k = a # as" "c_next k = a"
  by (cases "rdy k") (simp_all add: c_next_def)

lemma sched_ok_c_sched:
  assumes "no_runner k" shows "sched_ok (c_sched k)"
proof (cases rule: c_next_cases[of k])
  case idle
  then show ?thesis
    using assms by (auto simp: sched_ok_def no_runner_def queues_defs)
next
  case (ready a as)
  have a: "ss k a = Some THREAD_READY" "a \<noteq> idl k"
    using assms ready by (auto simp: no_runner_def queues_defs)
  then have nb: "b \<noteq> a" if "ss k b = Some THREAD_BLOCKED" for b using that by auto
  have "rdy_ok (c_sched k)"
    using assms ready a by (auto simp: no_runner_def queues_ok_def rdy_ok_def)
  moreover have "parked_on (c_sched k) fs b" if "parked_on k fs b" for fs b
    using that nb[of b] ready by (simp add: parked_on_def)
  ultimately show ?thesis
    using assms ready a
    by (auto simp: sched_ok_def no_runner_def queues_ok_def slp_ok_def sem_ok_def blocked_ok_def idle_ok_def waits_def wl_def)
qed


section \<open>Changes that keep the queues\<close>

lemma sched_ok_same [simp]:
  "sched_ok (k\<lparr>on := b\<rparr>) = sched_ok k" "sched_ok (k\<lparr>hld := h\<rparr>) = sched_ok k" "sched_ok (k\<lparr>cnd := c\<rparr>) = sched_ok k"
  by (simp_all add: sched_ok_def queues_defs)

lemma sched_ok_fr:
  assumes "sched_ok k" "cc k = idl k \<Longrightarrow> idle_stack fs" "cc k \<noteq> idl k \<Longrightarrow> IdleLoop \<notin> set fs"
  shows "sched_ok (k\<lparr>fr := (fr k)(cc k := fs)\<rparr>)"
proof -
  let ?k = "k\<lparr>fr := (fr k)(cc k := fs)\<rparr>"
  have "parked_on ?k P a \<longleftrightarrow> parked_on k P a" for P a
  proof -
    have "ss k (cc k) = Some THREAD_RUNNING" using assms(1) by (simp add: sched_ok_def)
    then show ?thesis by (cases "a = cc k") (simp_all add: parked_on_def)
  qed
  moreover have "idle_ok ?k" using assms by (auto simp: idle_ok_def sched_ok_def queues_ok_def)
  ultimately show ?thesis
    using assms(1) by (simp add: sched_ok_def queues_ok_def rdy_ok_def slp_ok_def sem_ok_def blocked_ok_def waits_def wl_def)
qed

lemma idle_stack_Cons: "idle_frame f \<Longrightarrow> idle_stack fs \<Longrightarrow> idle_stack (f # fs)"
  unfolding idle_stack_def by (metis append_Cons list.pred_inject(2))

lemma idle_stack_tl: "idle_stack (f # fs) \<Longrightarrow> f \<noteq> IdleLoop \<Longrightarrow> idle_stack fs"
  by (auto simp: idle_stack_def Cons_eq_append_conv)

lemma sched_ok_call: "sched_ok k \<Longrightarrow> (cc k = idl k \<Longrightarrow> idle_frame f) \<Longrightarrow> f \<noteq> IdleLoop \<Longrightarrow> sched_ok (c_call f k)"
  unfolding c_call_def by (rule sched_ok_fr) (auto simp: sched_ok_def queues_ok_def idle_ok_def intro: idle_stack_Cons)

lemma sched_ok_ret: "sched_ok k \<Longrightarrow> fr k (cc k) = f # fs \<Longrightarrow> f \<noteq> IdleLoop \<Longrightarrow> sched_ok (c_ret k)"
  unfolding c_ret_def by (rule sched_ok_fr) (auto simp: sched_ok_def queues_ok_def idle_ok_def dest: idle_stack_tl)

lemma wl_upd [simp]: "wl (k\<lparr>sem := (sem k)(s \<mapsto> y)\<rparr>) = (wl k)(s := waiters y)"
  by (simp add: wl_def fun_eq_iff)

lemma sched_ok_sem:
  assumes "sched_ok k" "waiters y = wl k s"
  shows "sched_ok (k\<lparr>sem := (sem k)(s \<mapsto> y)\<rparr>)"
proof -
  have "(wl k)(s := waiters y) = wl k" using assms(2) by simp
  then show ?thesis
    using assms(1)
    by (simp add: sched_ok_def queues_ok_def rdy_ok_def slp_ok_def blocked_ok_def idle_ok_def sem_ok_def waits_def parked_on_def)
qed

lemma sched_ok_value:
  "sched_ok k \<Longrightarrow> sem k s = Some x \<Longrightarrow> sched_ok (k\<lparr>sem := (sem k)(s \<mapsto> x\<lparr>s_value := v\<rparr>)\<rparr>)"
  by (rule sched_ok_sem) (simp_all add: wl_def)

lemma sched_ok_take_value: "sched_ok k \<Longrightarrow> sem k s = Some x \<Longrightarrow> sched_ok (c_take_value s x k)"
  unfolding c_take_value_def by (rule sched_ok_value)

lemma sched_ok_down: "sched_ok k \<Longrightarrow> cc k \<noteq> idl k \<Longrightarrow> sched_ok (c_down s k)"
  unfolding c_down_def by (rule sched_ok_call) simp_all

lemma sched_ok_acquire: "sched_ok k \<Longrightarrow> cc k \<noteq> idl k \<Longrightarrow> sched_ok (c_acquire l k)"
  unfolding c_acquire_def by (rule sched_ok_down) (simp_all add: sched_ok_call, simp add: c_call_def)

lemma sched_ok_release: "sched_ok k \<Longrightarrow> cc k \<noteq> idl k \<Longrightarrow> sched_ok (c_release l k)"
  unfolding c_release_def by (rule sched_ok_call) simp_all

lemma sched_ok_take: "sched_ok k \<Longrightarrow> sched_ok (c_take l k)"
  by (simp add: c_take_def)

text \<open>A waiter in a semaphore.\<close>

lemma waiter_parked: "sched_ok k \<Longrightarrow> a \<in> set (wl k s) \<Longrightarrow> parked_on k (in_down s) a"
  by (auto simp: sched_ok_def queues_ok_def sem_ok_def)

lemma in_downE: assumes "in_down s fs" obtains b gs where "fs = SemaDown s b # gs"
  using assms by (cases "(s, fs)" rule: in_down.cases) auto

lemma in_sleepE: assumes "in_sleep fs" obtains gs where "fs = RestoreLevel True # gs"
  using assms by (cases fs rule: in_sleep.cases) auto

lemma in_down_inj: "in_down s fs \<Longrightarrow> in_down t fs \<Longrightarrow> s = t"
  by (auto elim!: in_downE)

lemma in_sleep_down: "in_sleep fs \<Longrightarrow> \<not> in_down s fs"
  by (auto elim!: in_downE in_sleepE)


section \<open>Changes of the queues\<close>

lemma parked_ss: "parked_on k P a \<Longrightarrow> a \<noteq> b \<Longrightarrow> parked_on (k\<lparr>ss := (ss k)(b := x)\<rparr>) P a"
  by (simp add: parked_on_def)

lemma parked_cong: "ss k' = ss k \<Longrightarrow> idl k' = idl k \<Longrightarrow> fr k' = fr k \<Longrightarrow> parked_on k' P a = parked_on k P a"
  by (simp add: parked_on_def)

lemma parked_blocked: "parked_on k P a \<Longrightarrow> ss k a = Some THREAD_BLOCKED \<and> a \<noteq> idl k \<and> P (fr k a)"
  by (simp add: parked_on_def)

lemma waiters_apart:
  assumes "sched_ok k" "a \<in> set (wl k s)" "a \<in> set (wl k t)" shows "s = t"
  using assms waiter_parked in_down_inj unfolding parked_on_def by metis

lemma waiter_not_sleeping:
  assumes "sched_ok k" "a \<in> set (wl k s)" shows "a \<notin> set (slp k)"
  using assms waiter_parked[OF assms] in_sleep_down
  by (auto simp: sched_ok_def queues_ok_def slp_ok_def parked_on_def)

lemma sched_ok_up:
  assumes "sched_ok k" shows "sched_ok (c_up s k)"
proof (cases "wl k s")
  case Nil
  then show ?thesis
    using assms by (auto simp: c_up_def wl_def sched_ok_value split: option.splits)
next
  case (Cons w ws)
  then obtain x where x: "sem k s = Some x" "waiters x = w # ws"
    by (auto simp: wl_def split: option.splits)
  let ?k = "c_up s k"
  have w: "ss k w = Some THREAD_BLOCKED" "w \<noteq> idl k"
    using waiter_parked[OF assms, of w s] Cons by (simp_all add: parked_on_def)
  have "w \<noteq> cc k" using w(1) assms by (auto simp: sched_ok_def)
  note w = w this
  have ss: "ss ?k = (ss k)(w := Some THREAD_READY)" and wl: "wl ?k = (wl k)(s := ws)" and rdy: "rdy ?k = rdy k @ [w]"
    and same: "idl ?k = idl k" "fr ?k = fr k" "slp ?k = slp k" "cc ?k = cc k"
    using x by (auto simp: c_up_def c_unblock_def wl_def fun_eq_iff)
  have dist: "distinct (w # ws)" using assms Cons by (metis queues_ok_def sched_ok_def sem_ok_def)
  have park: "parked_on ?k P a" if "parked_on k P a" "a \<noteq> w" for P a
    using that by (simp add: parked_on_def ss same)
  have "w \<notin> set (wl k t)" if "t \<noteq> s" for t
    using waiters_apart[OF assms, of w s t] that Cons by auto
  then have "sem_ok ?k"
    using assms dist Cons park unfolding sem_ok_def wl sched_ok_def queues_ok_def
    by (auto split: if_splits) (metis list.set_intros(2))+
  moreover have "slp_ok ?k"
    using assms waiter_not_sleeping[OF assms, of w s] Cons park
    by (auto simp: slp_ok_def same sched_ok_def queues_ok_def)
  moreover have "blocked_ok ?k"
    using assms Cons unfolding blocked_ok_def waits_def wl ss same sched_ok_def queues_ok_def
    by (auto split: if_splits) (metis set_ConsD)
  moreover have "rdy_ok ?k"
    using assms w by (auto simp: rdy_ok_def rdy ss same sched_ok_def queues_ok_def)
  moreover have "idle_ok ?k" using assms w by (simp add: idle_ok_def same ss sched_ok_def queues_ok_def)
  ultimately show ?thesis
    using assms w by (auto simp: sched_ok_def queues_ok_def ss same)
qed

text \<open>The running thread is put away.\<close>

lemma sched_ok_wait_block:
  assumes "sched_ok k" "fr k (cc k) = SemaDown s b # fs" "sem k s = Some x" "cc k \<noteq> idl k"
  shows "sched_ok (c_block (k\<lparr>sem := (sem k)(s \<mapsto> x\<lparr>waiters := waiters x @ [cc k]\<rparr>)\<rparr>))"
proof -
  let ?k = "k\<lparr>sem := (sem k)(s \<mapsto> x\<lparr>waiters := waiters x @ [cc k]\<rparr>), ss := (ss k)(cc k := Some THREAD_BLOCKED)\<rparr>"
  have run: "ss k (cc k) = Some THREAD_RUNNING" using assms(1) by (simp add: sched_ok_def)
  have wl: "wl ?k = (wl k)(s := wl k s @ [cc k])" using assms(3) by (auto simp: wl_def fun_eq_iff)
  have park: "parked_on ?k P a" if "parked_on k P a" for P a
    using that by (auto simp: parked_on_def)
  have new: "parked_on ?k (in_down s) (cc k)" using assms by (simp add: parked_on_def)
  have fresh: "cc k \<notin> set (wl k t)" for t
    using waiter_parked[OF assms(1), of "cc k" t] run by (auto simp: parked_on_def)
  have "sem_ok ?k"
    using assms(1) fresh park new unfolding sem_ok_def wl sched_ok_def queues_ok_def by (auto split: if_splits)
  moreover have "blocked_ok ?k"
    using assms(1) unfolding blocked_ok_def waits_def wl sched_ok_def queues_ok_def
    by (auto split: if_splits)
  moreover have "slp_ok ?k" using assms(1) park by (auto simp: slp_ok_def sched_ok_def queues_ok_def)
  moreover have "rdy_ok ?k" "idle_ok ?k"
    using assms(1) run by (auto simp: rdy_ok_def idle_ok_def sched_ok_def queues_ok_def)
  ultimately have "no_runner ?k" using assms(1) by (auto simp: no_runner_def queues_ok_def sched_ok_def)
  then show ?thesis using sched_ok_c_sched[of ?k] by (simp add: c_block_def)
qed


lemma sched_ok_sleep:
  assumes "sched_ok k" "cc k \<noteq> idl k" "mset xs = add_mset (cc k) (mset (slp k))"
  shows "sched_ok (c_block (c_call (RestoreLevel True) (k\<lparr>on := False, slp := xs\<rparr>)))"
proof -
  let ?m = "c_call (RestoreLevel True) k"
  let ?k = "?m\<lparr>on := False, slp := xs, ss := (ss k)(cc k := Some THREAD_BLOCKED)\<rparr>"
  have k0: "sched_ok ?m" using assms by (intro sched_ok_call) simp_all
  have [simp]: "cc ?m = cc k" "slp ?m = slp k" "idl ?m = idl k" "ss ?m = ss k" "rdy ?m = rdy k"
    by (simp_all add: c_call_def)
  have run: "ss k (cc k) = Some THREAD_RUNNING" using assms(1) by (simp add: sched_ok_def)
  have set: "set xs = insert (cc k) (set (slp k))" using assms(3) by (metis set_mset_add_mset_insert set_mset_mset)
  have park: "parked_on ?k P a" if "parked_on ?m P a" for P a
    using that by (auto simp: parked_on_def)
  have new: "parked_on ?k in_sleep (cc k)" using assms(2) by (simp add: parked_on_def c_call_def)
  have fresh: "cc k \<notin> set (slp k)"
    using assms(1) run by (auto simp: sched_ok_def queues_ok_def slp_ok_def parked_on_def)
  have "distinct xs"
    using assms fresh unfolding sched_ok_def queues_ok_def slp_ok_def by (metis distinct.simps(2) mset.simps(2) mset_eq_imp_distinct_iff)
  then have "slp_ok ?k"
    using k0 park new unfolding slp_ok_def sched_ok_def queues_ok_def by (auto simp: set)
  moreover have "wl ?k = wl ?m" by (simp add: wl_def fun_eq_iff)
  then have "sem_ok ?k" "blocked_ok ?k"
    using k0 park set by (auto simp: sem_ok_def blocked_ok_def waits_def sched_ok_def queues_ok_def)
  moreover have "rdy_ok ?k" "idle_ok ?k"
    using k0 run by (auto simp: rdy_ok_def idle_ok_def sched_ok_def queues_ok_def)
  ultimately have "no_runner ?k" using k0 by (auto simp: no_runner_def queues_ok_def sched_ok_def)
  then have "sched_ok (c_sched ?k)" by (rule sched_ok_c_sched)
  moreover have "c_block (c_call (RestoreLevel True) (k\<lparr>on := False, slp := xs\<rparr>)) = c_sched ?k"
    by (simp add: c_block_def c_call_def) (intro arg_cong[where f = c_sched] core.equality; simp)
  ultimately show ?thesis by simp
qed

lemma sched_ok_idle_block:
  assumes "sched_ok k" "cc k = idl k" shows "sched_ok (c_block k)"
proof -
  let ?k = "k\<lparr>ss := (ss k)(cc k := Some THREAD_BLOCKED)\<rparr>"
  have run: "ss k (idl k) = Some THREAD_RUNNING" using assms by (simp add: sched_ok_def)
  have "parked_on ?k P a = parked_on k P a" for P a using assms(2) by (auto simp: parked_on_def)
  moreover have "wl ?k = wl k" by (simp add: wl_def fun_eq_iff)
  ultimately have "no_runner ?k"
    using assms run
    by (auto simp: no_runner_def sched_ok_def queues_ok_def rdy_ok_def slp_ok_def sem_ok_def blocked_ok_def idle_ok_def waits_def)
  then show ?thesis using sched_ok_c_sched[of ?k] by (simp add: c_block_def)
qed

lemma sched_ok_yield:
  assumes "sched_ok k" shows "sched_ok (c_yield k)"
proof -
  let ?m = "c_call (RestoreLevel (on k)) k"
  let ?k = "?m\<lparr>on := False, rdy := (if cc k \<noteq> idl k then rdy k @ [cc k] else rdy k), ss := (ss k)(cc k := Some THREAD_READY)\<rparr>"
  have k0: "sched_ok ?m" using assms by (intro sched_ok_call) simp_all
  have [simp]: "cc ?m = cc k" "idl ?m = idl k" "ss ?m = ss k" "rdy ?m = rdy k" "slp ?m = slp k"
    by (simp_all add: c_call_def)
  have run: "ss k (cc k) = Some THREAD_RUNNING" using assms by (simp add: sched_ok_def)
  have "parked_on ?k P a = parked_on ?m P a" for P a using run by (auto simp: parked_on_def)
  moreover have "wl ?k = wl ?m" by (simp add: wl_def fun_eq_iff)
  ultimately have "slp_ok ?k" "sem_ok ?k" "blocked_ok ?k"
    using k0 by (auto simp: sched_ok_def queues_ok_def slp_ok_def sem_ok_def blocked_ok_def waits_def)
  moreover have "rdy_ok ?k" "idle_ok ?k"
    using k0 run by (auto simp: rdy_ok_def idle_ok_def sched_ok_def queues_ok_def)
  ultimately have "no_runner ?k"
    using assms run by (auto simp: no_runner_def sched_ok_def queues_ok_def)
  then have "sched_ok (c_sched ?k)" by (rule sched_ok_c_sched)
  moreover have "c_yield k = c_sched ?k"
    unfolding c_yield_def c_call_def by (intro arg_cong[where f = c_sched] core.equality) simp_all
  ultimately show ?thesis by simp
qed

lemma sched_ok_wake1:
  assumes "sched_ok k" "slp k = w # rest" shows "sched_ok ((c_unblock w k)\<lparr>slp := rest\<rparr>)"
proof -
  let ?k = "(c_unblock w k)\<lparr>slp := rest\<rparr>"
  have ss: "ss ?k = (ss k)(w := Some THREAD_READY)" and rdy: "rdy ?k = rdy k @ [w]"
    and same: "idl ?k = idl k" "fr ?k = fr k" "slp ?k = rest" "cc ?k = cc k" and wl: "wl ?k = wl k"
    by (simp_all add: c_unblock_def wl_def fun_eq_iff)
  have w: "ss k w = Some THREAD_BLOCKED" "w \<noteq> idl k" and d: "distinct (w # rest)"
    using assms by (auto simp: sched_ok_def queues_ok_def slp_ok_def parked_on_def)
  have "w \<noteq> cc k" using w(1) assms by (auto simp: sched_ok_def)
  note w = w this
  have park: "parked_on ?k P a" if "parked_on k P a" "a \<noteq> w" for P a
    using that by (simp add: parked_on_def ss same)
  have nw: "w \<notin> set (wl k s)" for s using waiter_not_sleeping[OF assms(1), of w s] assms(2) by auto
  have "sem_ok ?k"
    using assms nw park unfolding sem_ok_def wl sched_ok_def queues_ok_def by metis
  moreover have "slp_ok ?k"
    using assms d park by (auto simp: slp_ok_def same sched_ok_def queues_ok_def)
  moreover have "blocked_ok ?k"
    using assms unfolding blocked_ok_def waits_def wl ss same sched_ok_def queues_ok_def
    by (auto split: if_splits)
  moreover have "rdy_ok ?k" "idle_ok ?k"
    using assms w by (auto simp: rdy_ok_def rdy idle_ok_def ss same sched_ok_def queues_ok_def)
  ultimately show ?thesis
    using assms w by (auto simp: sched_ok_def queues_ok_def ss same)
qed

lemma sched_ok_wake: "sched_ok k \<Longrightarrow> slp k = ws @ rest \<Longrightarrow> sched_ok (c_wake ws rest k)"
proof (induction ws arbitrary: k)
  case Nil
  have "c_wake [] rest k = k" using Nil(2) by (simp add: c_wake_def)
  then show ?case using Nil(1) by simp
next
  case (Cons w ws)
  have "c_wake (w # ws) rest k = c_wake ws rest ((c_unblock w k)\<lparr>slp := ws @ rest\<rparr>)"
    by (simp add: c_wake_def)
  then show ?case using Cons sched_ok_wake1[of k w "ws @ rest"] by simp
qed


section \<open>Every step keeps the queues\<close>

lemma not_idle_empty: "sched_ok k \<Longrightarrow> fr k (cc k) = [] \<Longrightarrow> cc k \<noteq> idl k"
  by (auto simp: sched_ok_def queues_ok_def idle_ok_def idle_stack_def)

lemma idle_stack_hd: "idle_stack (f # fs) \<Longrightarrow> idle_frame f \<or> f = IdleLoop"
  by (auto simp: idle_stack_def Cons_eq_append_conv)

lemma not_idle_top: "sched_ok k \<Longrightarrow> fr k (cc k) = f # fs \<Longrightarrow> \<not> idle_frame f \<Longrightarrow> f \<noteq> IdleLoop \<Longrightarrow> cc k \<noteq> idl k"
  using idle_stack_hd[of f fs] by (auto simp: sched_ok_def queues_ok_def idle_ok_def)

lemma idle_top: "sched_ok k \<Longrightarrow> fr k (cc k) = IdleLoop # fs \<Longrightarrow> cc k = idl k"
  unfolding sched_ok_def queues_ok_def idle_ok_def by (metis list.set_intros(1))

lemma unused_no_waiter:
  assumes "sched_ok k" "c_unused w k" shows "wl k w = []"
proof (cases "wl k w")
  case (Cons a as)
  then have "in_down w (fr k a)" using waiter_parked[OF assms(1), of a w] by (simp add: parked_on_def)
  then obtain b gs where "fr k a = SemaDown w b # gs" by (rule in_downE)
  then show ?thesis using assms(2) unfolding c_unused_def by (metis list.set_intros(1))
qed

lemma c_call_simps [simp]:
  "cc (c_call f k) = cc k" "idl (c_call f k) = idl k" "sem (c_call f k) = sem k" "hld (c_call f k) = hld k"
  "cnd (c_call f k) = cnd k" "on (c_call f k) = on k" "ss (c_call f k) = ss k" "slp (c_call f k) = slp k"
  "rdy (c_call f k) = rdy k" "fr (c_call f k) = (fr k)(cc k := f # fr k (cc k))"
  by (simp_all add: c_call_def)

lemma c_ret_more [simp]:
  "cc (c_ret k) = cc k" "idl (c_ret k) = idl k" "ss (c_ret k) = ss k" "slp (c_ret k) = slp k"
  "rdy (c_ret k) = rdy k" "fr (c_ret k) = (fr k)(cc k := tl (fr k (cc k)))" "on (c_ret k) = on k"
  by (simp_all add: c_ret_def)

lemma sched_ok_cop:
  assumes "cop k k'" "sched_ok k" "cc k \<noteq> idl k" shows "sched_ok k'"
  using assms
proof cases
  case (wait l c ws w)
  then have "wl k w = []" using assms(2) by (intro unused_no_waiter)
  then have "sched_ok (k\<lparr>sem := (sem k)(w \<mapsto> \<lparr>s_value = 0, waiters = []\<rparr>), cnd := (cnd k)(c \<mapsto> ws @ [w])\<rparr>)"
    using sched_ok_sem[OF assms(2), of "\<lparr>s_value = 0, waiters = []\<rparr>" w] by simp
  then show ?thesis
    unfolding wait(1) c_wait_def using assms(3)
    by (intro sched_ok_release sched_ok_call) simp_all
qed (auto intro!: sched_ok_down sched_ok_take_value sched_ok_up sched_ok_acquire sched_ok_take sched_ok_release
    sched_ok_call sched_ok_yield sched_ok_sleep)

theorem sched_ok_cstep:
  assumes "cstep k k'" "sched_ok k" shows "sched_ok k'"
  using assms(1)
proof cases
  case oper
  then show ?thesis using sched_ok_cop not_idle_empty assms(2) by blast
next
  case (block s b fs x)
  then have "cc k \<noteq> idl k" using not_idle_top[OF assms(2)] by simp
  then show ?thesis unfolding block(1) using sched_ok_wait_block assms(2) block by blast
next
  case (took s b fs x)
  have "sched_ok ((c_take_value s x k)\<lparr>on := b\<rparr>)" using assms(2) took by (simp add: sched_ok_take_value)
  then show ?thesis unfolding took(1)
    by (rule sched_ok_ret[of _ "SemaDown s b" fs]) (simp_all add: took c_take_value_def)
next
  case (down_call s fs)
  have "cc k \<noteq> idl k" using not_idle_top[OF assms(2)] down_call by simp
  moreover have "sched_ok (c_ret k)" using assms(2) down_call(2) by (rule sched_ok_ret) simp
  ultimately show ?thesis unfolding down_call(1) by (intro sched_ok_down) simp_all
next
  case (up s fs)
  have "sched_ok (c_ret k)" using assms(2) up(2) by (rule sched_ok_ret) simp
  then show ?thesis unfolding up(1) by (rule sched_ok_up)
next
  case (take l fs)
  have "sched_ok (c_ret k)" using assms(2) take(2) by (rule sched_ok_ret) simp
  then show ?thesis unfolding take(1) by (rule sched_ok_take)
next
  case (reacquire l fs)
  have "cc k \<noteq> idl k" using not_idle_top[OF assms(2)] reacquire by simp
  moreover have "sched_ok (c_ret k)" using assms(2) reacquire(2) by (rule sched_ok_ret) simp
  ultimately show ?thesis unfolding reacquire(1) by (intro sched_ok_acquire) simp_all
next
  case (signal_all c l fs w ws)
  have "cc k \<noteq> idl k" using not_idle_top[OF assms(2)] signal_all by simp
  then show ?thesis unfolding signal_all(1) using assms(2) by (intro sched_ok_call) simp_all
next
  case (ret f fs b)
  then have "sched_ok (c_ret k)" using assms(2) by (intro sched_ok_ret[of k f fs]) auto
  then show ?thesis unfolding ret(1) by simp
next
  case (idle fs)
  then have "cc k = idl k" using idle_top[OF assms(2)] by simp
  then show ?thesis unfolding idle(1) using assms(2) by (intro sched_ok_idle_block sched_ok_call) simp_all
next
  case (tick ws rest y)
  have "sched_ok (c_wake ws rest (c_call Iret (k\<lparr>on := False\<rparr>)))"
    using assms(2) tick(2) by (intro sched_ok_wake sched_ok_call) simp_all
  then show ?thesis unfolding tick(1) by (simp add: c_tick_def Let_def sched_ok_yield)
qed

end
