(* ===== verification/KSyncLock.thy ===== *)
theory KSyncLock imports KSyncInv begin

text \<open>The invariant behind mutual exclusion: the token of every lock is in exactly one place.\<close>

section \<open>Locks\<close>

text \<open>
  A lock has one token: in its semaphore while it is free, with the thread that holds it, or on
  its way to or from the semaphore, between \<open>sema_down\<close> and \<open>lock->holder = ...\<close> in
  \<open>lock_acquire\<close> and between \<open>lock->holder = NULL\<close> and \<open>sema_up\<close> in \<open>lock_release\<close>.  A thread
  that waits in \<open>sema_down\<close> for a token that it will own afterwards owes it.
\<close>

fun tok :: "addr \<Rightarrow> frame \<Rightarrow> int" where
  "tok l (LockAcquired l') = of_bool (l = l')"
| "tok l (SemaUp s) = of_bool (s = lock_sema l)"
| "tok l (SemaDown s b) = - of_bool (s = lock_sema l)"
| "tok l f = 0"

definition toks :: "addr \<Rightarrow> frame list \<Rightarrow> int" where
  "toks l fs = sum_list (map (tok l) fs)"

lemma toks_simps [simp]: "toks l [] = 0" "toks l (f # fs) = tok l f + toks l fs"
  by (simp_all add: toks_def)

lemma lock_sema_inj [simp]: "lock_sema l = lock_sema m \<longleftrightarrow> l = m"
  by (simp add: lock_sema_def)

text \<open>
  The \<open>sema_down\<close> of a lock is called by \<open>lock_acquire\<close> only.
\<close>

fun frame_ok :: "addr set \<Rightarrow> frame \<Rightarrow> frame list \<Rightarrow> bool" where
  "frame_ok L (SemaDown s b) fs = (\<forall>l \<in> L. s = lock_sema l \<longrightarrow> fs \<noteq> [] \<and> hd fs = LockAcquired l)"
| "frame_ok L (SemaDownCall s) fs = (s \<notin> lock_sema ` L)"
| "frame_ok L (LockAcquired l) fs = (l \<in> L)"
| "frame_ok L f fs = True"

fun frames_ok :: "addr set \<Rightarrow> frame list \<Rightarrow> bool" where
  "frames_ok L [] = True"
| "frames_ok L (f # fs) = (frame_ok L f fs \<and> frames_ok L fs)"

lemma toks_nonneg:
  assumes "frames_ok L fs" "l \<in> L"
  shows "toks l fs \<ge> (if fs \<noteq> [] \<and> hd fs = LockAcquired l then 1 else 0)"
  using assms(1)
proof (induction fs)
  case (Cons f fs)
  then have ih: "toks l fs \<ge> (if fs \<noteq> [] \<and> hd fs = LockAcquired l then 1 else 0)" and ok: "frame_ok L f fs"
    by simp_all
  show ?case
  proof (cases f)
    case (SemaDown s b)
    show ?thesis
    proof (cases "s = lock_sema l")
      case True
      then have "fs \<noteq> [] \<and> hd fs = LockAcquired l" using ok SemaDown assms(2) by simp
      then show ?thesis using ih SemaDown True by simp
    next
      case False
      then show ?thesis using ih SemaDown by (simp split: if_splits)
    qed
  qed (use ih in \<open>simp_all split: if_splits\<close>)
qed simp

definition token_sum :: "addr \<Rightarrow> core \<Rightarrow> int" where
  "token_sum l k = (\<Sum>a\<in>{a. fr k a \<noteq> []}. toks l (fr k a))"

definition lock_total :: "addr \<Rightarrow> semaphore \<Rightarrow> core \<Rightarrow> int" where
  "lock_total l x k = uint (s_value x) + of_bool (hld k l \<noteq> Some None) + token_sum l k"

definition lock_ok :: "core \<Rightarrow> bool" where
  "lock_ok k \<longleftrightarrow> finite {a. fr k a \<noteq> []} \<and> (\<forall>a. frames_ok (dom (hld k)) (fr k a)) \<and>
     (\<forall>c ws. cnd k c = Some ws \<longrightarrow> (\<forall>w \<in> set ws. w \<notin> c_lock_semas k)) \<and>
     (\<forall>l \<in> dom (hld k). \<exists>x. sem k (lock_sema l) = Some x \<and> lock_total l x k = 1)"

lemma sum_upd:
  fixes g :: "'b list \<Rightarrow> int"
  assumes "finite {a. f a \<noteq> []}" "g [] = 0"
  shows "(\<Sum>a\<in>{a. (f(c := v)) a \<noteq> []}. g ((f(c := v)) a)) = (\<Sum>a\<in>{a. f a \<noteq> []}. g (f a)) - g (f c) + g v"
proof -
  let ?A = "insert c {a. f a \<noteq> []}" and ?f = "f(c := v)"
  have fin: "finite ?A" using assms(1) by simp
  have "(\<Sum>a\<in>{a. ?f a \<noteq> []}. g (?f a)) = (\<Sum>a\<in>?A. g (?f a))"
    by (rule sum.mono_neutral_left) (use fin assms(2) in \<open>auto split: if_splits\<close>)
  also have "\<dots> = g v + (\<Sum>a\<in>?A - {c}. g (f a))"
    using fin by (subst sum.remove[of ?A c]) (auto intro: sum.cong)
  also have "(\<Sum>a\<in>?A - {c}. g (f a)) = (\<Sum>a\<in>?A. g (f a)) - g (f c)"
    using sum.remove[OF fin, of c "\<lambda>a. g (f a)"] by simp
  also have "(\<Sum>a\<in>?A. g (f a)) = (\<Sum>a\<in>{a. f a \<noteq> []}. g (f a))"
    by (rule sum.mono_neutral_right) (use fin assms(2) in auto)
  finally show ?thesis by simp
qed

lemma finite_upd: "finite {a. f a \<noteq> []} \<Longrightarrow> finite {a. (f(c := v)) a \<noteq> []}"
  by (rule finite_subset[of _ "insert c {a. f a \<noteq> []}"]) (auto split: if_splits)

lemma lock_okD:
  assumes "lock_ok k" "l \<in> dom (hld k)"
  obtains x where "sem k (lock_sema l) = Some x" "lock_total l x k = 1"
    "uint (s_value x) + of_bool (hld k l \<noteq> Some None) + toks l (fr k a) \<le> 1" "toks l (fr k a) \<ge> 0"
proof -
  have nn: "toks l (fr k b) \<ge> 0" for b
    using assms toks_nonneg[of "dom (hld k)" "fr k b" l] by (auto simp: lock_ok_def split: if_splits)
  have fin: "finite {a. fr k a \<noteq> []}" using assms(1) by (simp add: lock_ok_def)
  have le: "toks l (fr k a) \<le> token_sum l k"
  proof (cases "fr k a = []")
    case True
    then show ?thesis unfolding token_sum_def using nn by (simp add: sum_nonneg)
  next
    case False
    then show ?thesis unfolding token_sum_def using nn fin by (intro member_le_sum) simp_all
  qed
  obtain x where "sem k (lock_sema l) = Some x" "lock_total l x k = 1"
    using assms unfolding lock_ok_def by blast
  then show thesis using that le nn[of a] by (auto simp: lock_total_def)
qed

text \<open>A step that changes the frames of the running thread to \<open>fs\<close>.\<close>

lemma lock_ok_step:
  assumes "lock_ok k" "fr k' = (fr k)(cc k := fs)" "frames_ok (dom (hld k)) fs" "dom (hld k') = dom (hld k)"
    and "\<And>c ws w. cnd k' c = Some ws \<Longrightarrow> w \<in> set ws \<Longrightarrow> w \<notin> c_lock_semas k"
    and "\<And>l x. l \<in> dom (hld k) \<Longrightarrow> sem k (lock_sema l) = Some x \<Longrightarrow>
      uint (s_value x) + of_bool (hld k l \<noteq> Some None) + toks l (fr k (cc k)) \<le> 1 \<Longrightarrow>
      toks l (fr k (cc k)) \<ge> 0 \<Longrightarrow>
      \<exists>x'. sem k' (lock_sema l) = Some x' \<and>
        uint (s_value x') + of_bool (hld k' l \<noteq> Some None) + toks l fs =
        uint (s_value x) + of_bool (hld k l \<noteq> Some None) + toks l (fr k (cc k))"
  shows "lock_ok k'"
proof -
  have fin: "finite {a. fr k a \<noteq> []}" using assms(1) by (simp add: lock_ok_def)
  have tot: "\<exists>x. sem k' (lock_sema l) = Some x \<and> lock_total l x k' = 1" if l: "l \<in> dom (hld k)" for l
  proof -
    obtain x where x: "sem k (lock_sema l) = Some x" "lock_total l x k = 1"
      "uint (s_value x) + of_bool (hld k l \<noteq> Some None) + toks l (fr k (cc k)) \<le> 1" "toks l (fr k (cc k)) \<ge> 0"
      using lock_okD[OF assms(1) l, of "cc k"] by blast
    then obtain x' where x': "sem k' (lock_sema l) = Some x'"
      "uint (s_value x') + of_bool (hld k' l \<noteq> Some None) + toks l fs =
        uint (s_value x) + of_bool (hld k l \<noteq> Some None) + toks l (fr k (cc k))"
      using assms(6)[OF l] by blast
    have "token_sum l k' = token_sum l k - toks l (fr k (cc k)) + toks l fs"
      unfolding token_sum_def assms(2) by (rule sum_upd[OF fin]) simp
    then show ?thesis using x x' by (auto simp: lock_total_def)
  qed
  have "c_lock_semas k' = c_lock_semas k" using assms(4) by (simp add: c_lock_semas_def)
  moreover have "finite {a. fr k' a \<noteq> []}" unfolding assms(2) by (rule finite_upd[OF fin])
  moreover have "frames_ok (dom (hld k')) (fr k' a)" for a
    using assms(1,3,4) by (simp add: assms(2) lock_ok_def)
  ultimately show ?thesis
    using assms(4,5) tot unfolding lock_ok_def by metis
qed


lemma uint_dec: "(v :: u32) \<noteq> 0 \<Longrightarrow> uint (v - 1) = uint v - 1"
  by (simp add: uint_minus_simple_alt[THEN iffD1] word_le_nat_alt unat_gt_0 Suc_leI)

lemma uint_inc: "uint (v :: u32) \<le> 1 \<Longrightarrow> uint (v + 1) = uint v + 1"
  by (subst uint_add_lem[THEN iffD1]) simp_all

lemma c_block_fields [simp]:
  "fr (c_block k) = fr k" "sem (c_block k) = sem k" "hld (c_block k) = hld k" "cnd (c_block k) = cnd k" "idl (c_block k) = idl k"
  by (simp_all add: c_block_def)

lemma c_yield_fields [simp]:
  "fr (c_yield k) = (fr k)(cc k := RestoreLevel (on k) # fr k (cc k))" "sem (c_yield k) = sem k"
  "hld (c_yield k) = hld k" "cnd (c_yield k) = cnd k" "idl (c_yield k) = idl k"
  by (simp_all add: c_yield_def)

lemma c_unblock_fields [simp]:
  "fr (c_unblock a k) = fr k" "sem (c_unblock a k) = sem k" "hld (c_unblock a k) = hld k" "cnd (c_unblock a k) = cnd k"
  "cc (c_unblock a k) = cc k" "on (c_unblock a k) = on k" "idl (c_unblock a k) = idl k"
  by (simp_all add: c_unblock_def)

lemma fold_unblock_fields [simp]:
  "fr (fold c_unblock ws k) = fr k" "sem (fold c_unblock ws k) = sem k" "hld (fold c_unblock ws k) = hld k"
  "cnd (fold c_unblock ws k) = cnd k" "cc (fold c_unblock ws k) = cc k" "on (fold c_unblock ws k) = on k" "idl (fold c_unblock ws k) = idl k"
  by (induction ws arbitrary: k) simp_all

lemma c_wake_fields [simp]:
  "fr (c_wake ws rest k) = fr k" "sem (c_wake ws rest k) = sem k" "hld (c_wake ws rest k) = hld k"
  "cnd (c_wake ws rest k) = cnd k" "cc (c_wake ws rest k) = cc k" "on (c_wake ws rest k) = on k" "idl (c_wake ws rest k) = idl k"
  by (simp_all add: c_wake_def)

lemma c_up_fields [simp]:
  "fr (c_up s k) = fr k" "hld (c_up s k) = hld k" "cnd (c_up s k) = cnd k" "cc (c_up s k) = cc k" "idl (c_up s k) = idl k"
  by (simp_all add: c_up_def split: option.split list.split)

lemma c_up_sem:
  assumes "sem k s = Some x"
  obtains y where "sem (c_up s k) = (sem k)(s \<mapsto> y)" "s_value y = s_value x + 1" "waiters y = tl (waiters x)"
  using assms that by (cases "waiters x") (auto simp: c_up_def)

lemma c_down_fields [simp]:
  "fr (c_down s k) = (fr k)(cc k := SemaDown s (on k) # fr k (cc k))" "sem (c_down s k) = sem k"
  "hld (c_down s k) = hld k" "cnd (c_down s k) = cnd k" "cc (c_down s k) = cc k" "idl (c_down s k) = idl k" "ss (c_down s k) = ss k"
  by (simp_all add: c_down_def)

lemma c_acquire_fields [simp]:
  "fr (c_acquire l k) = (fr k)(cc k := SemaDown (lock_sema l) (on k) # LockAcquired l # fr k (cc k))"
  "sem (c_acquire l k) = sem k" "hld (c_acquire l k) = hld k" "cnd (c_acquire l k) = cnd k" "cc (c_acquire l k) = cc k"
  "idl (c_acquire l k) = idl k" "ss (c_acquire l k) = ss k"
  by (simp_all add: c_acquire_def)

lemma c_release_fields [simp]:
  "fr (c_release l k) = (fr k)(cc k := SemaUp (lock_sema l) # fr k (cc k))" "sem (c_release l k) = sem k"
  "hld (c_release l k) = (hld k)(l \<mapsto> None)" "cnd (c_release l k) = cnd k" "cc (c_release l k) = cc k" "idl (c_release l k) = idl k"
  "ss (c_release l k) = ss k"
  by (simp_all add: c_release_def)

lemma c_take_fields [simp]:
  "fr (c_take l k) = fr k" "sem (c_take l k) = sem k" "hld (c_take l k) = (hld k)(l \<mapsto> Some (cc k))"
  "cnd (c_take l k) = cnd k" "cc (c_take l k) = cc k" "idl (c_take l k) = idl k" "ss (c_take l k) = ss k"
  by (simp_all add: c_take_def)

lemma c_take_value_fields [simp]:
  "fr (c_take_value s x k) = fr k" "sem (c_take_value s x k) = (sem k)(s \<mapsto> x\<lparr>s_value := s_value x - 1\<rparr>)"
  "hld (c_take_value s x k) = hld k" "cnd (c_take_value s x k) = cnd k" "cc (c_take_value s x k) = cc k"
  "idl (c_take_value s x k) = idl k" "ss (c_take_value s x k) = ss k"
  by (simp_all add: c_take_value_def)

lemma not_lock_sema: "s \<notin> c_lock_semas k \<Longrightarrow> l \<in> dom (hld k) \<Longrightarrow> lock_sema l \<noteq> s"
  by (auto simp: c_lock_semas_def)

lemma lock_ok_conds: "lock_ok k \<Longrightarrow> cnd k c = Some ws \<Longrightarrow> w \<in> set ws \<Longrightarrow> w \<notin> c_lock_semas k"
  by (auto simp: lock_ok_def)

lemma lock_ok_frames: "lock_ok k \<Longrightarrow> frames_ok (dom (hld k)) (fr k a)"
  by (simp add: lock_ok_def)

text \<open>Steps that leave semaphores, holders and tokens alone.\<close>

lemma lock_ok_frames_only:
  assumes "lock_ok k" "fr k' = (fr k)(cc k := fs)" "frames_ok (dom (hld k)) fs" "hld k' = hld k"
    "\<And>c ws w. cnd k' c = Some ws \<Longrightarrow> w \<in> set ws \<Longrightarrow> w \<notin> c_lock_semas k"
    "\<And>s. s \<in> c_lock_semas k \<Longrightarrow> map_option s_value (sem k' s) = map_option s_value (sem k s)"
    "\<And>l. l \<in> dom (hld k) \<Longrightarrow> toks l fs = toks l (fr k (cc k))"
  shows "lock_ok k'"
proof (rule lock_ok_step[OF assms(1-3) _ assms(5)])
  show "dom (hld k') = dom (hld k)" using assms(4) by simp
next
  fix l x
  assume l: "l \<in> dom (hld k)" and x: "sem k (lock_sema l) = Some x"
  then have "lock_sema l \<in> c_lock_semas k" by (simp add: c_lock_semas_def)
  then obtain y where "sem k' (lock_sema l) = Some y" "s_value y = s_value x" using assms(6) x by fastforce
  then show "\<exists>x'. sem k' (lock_sema l) = Some x' \<and>
        uint (s_value x') + of_bool (hld k' l \<noteq> Some None) + toks l fs =
        uint (s_value x) + of_bool (hld k l \<noteq> Some None) + toks l (fr k (cc k))"
    using assms(4,7) l by auto
qed


section \<open>Every step keeps the tokens\<close>

lemma lock_ok_cop:
  assumes "cop k k'" "lock_ok k" shows "lock_ok k'"
  using assms(1)
proof cases
  case stay
  then show ?thesis using assms(2) by simp
next
  case (down s)
  show ?thesis
    unfolding down(1)
    by (rule lock_ok_frames_only[OF assms(2) c_down_fields(1)])
      (use lock_ok_conds[OF assms(2)] lock_ok_frames[OF assms(2)] down in \<open>auto simp: c_lock_semas_def\<close>)
next
  case (try_down s x)
  show ?thesis
    unfolding try_down(1)
    by (rule lock_ok_frames_only[OF assms(2), of _ "fr k (cc k)"])
      (use lock_ok_conds[OF assms(2)] lock_ok_frames[OF assms(2)] try_down in \<open>auto simp: c_lock_semas_def\<close>)
next
  case (up s)
  then obtain x where x: "sem k s = Some x" by (auto simp: up_ok_def)
  then obtain y where "sem (c_up s k) = (sem k)(s \<mapsto> y)" by (rule c_up_sem)
  then show ?thesis
    unfolding up(1)
    by (intro lock_ok_frames_only[OF assms(2), of _ "fr k (cc k)"])
      (use lock_ok_conds[OF assms(2)] lock_ok_frames[OF assms(2)] up in \<open>auto simp: c_lock_semas_def\<close>)
next
  case (acquire l)
  show ?thesis
    unfolding acquire(1)
    by (rule lock_ok_frames_only[OF assms(2) c_acquire_fields(1)])
      (use lock_ok_conds[OF assms(2)] lock_ok_frames[OF assms(2)] acquire in auto)
next
  case (try_acquire l x)
  show ?thesis
    unfolding try_acquire(1)
  proof (rule lock_ok_step[OF assms(2), of _ "fr k (cc k)"])
    fix m y
    assume m: "sem k (lock_sema m) = Some y" "m \<in> dom (hld k)"
      and le: "uint (s_value y) + of_bool (hld k m \<noteq> Some None) + toks m (fr k (cc k)) \<le> 1" "0 \<le> toks m (fr k (cc k))"
    show "\<exists>x'. sem (c_take l (c_take_value (lock_sema l) x k)) (lock_sema m) = Some x' \<and>
        uint (s_value x') + of_bool (hld (c_take l (c_take_value (lock_sema l) x k)) m \<noteq> Some None) + toks m (fr k (cc k)) =
        uint (s_value y) + of_bool (hld k m \<noteq> Some None) + toks m (fr k (cc k))"
    proof (cases "m = l")
      case True
      have p: "uint (s_value x) \<ge> 1" using try_acquire(5) by (simp add: word_less_def)
      then have y: "y = x" "uint (s_value x) \<ge> 1" "s_value x \<noteq> 0"
        using m(1) try_acquire(4) True by auto
      have "of_bool (hld k l \<noteq> Some None) = (0 :: int)" using le y True by (cases "hld k l = Some None") simp_all
      then show ?thesis using True y m by (simp add: uint_dec)
    next
      case False
      then show ?thesis using m by simp
    qed
  qed (use lock_ok_conds[OF assms(2)] lock_ok_frames[OF assms(2)] try_acquire in auto)
next
  case (release l)
  show ?thesis
    unfolding release(1)
    by (rule lock_ok_step[OF assms(2) c_release_fields(1)])
      (use lock_ok_conds[OF assms(2)] lock_ok_frames[OF assms(2)] release in \<open>auto simp: held_def\<close>)
next
  case (wait l c ws w)
  then have w: "w \<notin> c_lock_semas k" by (simp add: c_unused_def)
  then have nw: "hld k m = Some y \<Longrightarrow> w = lock_sema m \<Longrightarrow> False" for m y by (auto simp: c_lock_semas_def)
  have fo: "frames_ok (dom (hld k)) (SemaUp (lock_sema l) # SemaDownCall w # CondReacquire l # CondReturn w # fr k (cc k))"
    using w lock_ok_frames[OF assms(2)] by (simp add: c_lock_semas_def)
  show ?thesis
    unfolding wait(1)
    by (rule lock_ok_step[OF assms(2) _ fo])
      (use lock_ok_conds[OF assms(2)] wait w in \<open>auto simp: held_def c_wait_def split: if_splits dest: nw\<close>)
next
  case (signal c w ws)
  then have w: "w \<notin> c_lock_semas k" using lock_ok_conds[OF assms(2) signal(2), of w] by simp
  then have nw: "hld k m = Some y \<Longrightarrow> w = lock_sema m \<Longrightarrow> False" for m y by (auto simp: c_lock_semas_def)
  show ?thesis
    unfolding signal(1)
    by (rule lock_ok_frames_only[OF assms(2), of _ "SemaUp w # fr k (cc k)"])
      (use lock_ok_conds[OF assms(2)] lock_ok_frames[OF assms(2)] signal w in \<open>auto split: if_splits dest: nw\<close>)
next
  case (broadcast c l)
  show ?thesis
    unfolding broadcast
    by (rule lock_ok_frames_only[OF assms(2) c_call_simps(10)])
      (use lock_ok_conds[OF assms(2)] lock_ok_frames[OF assms(2)] in auto)
next
  case yield
  show ?thesis
    unfolding yield
    by (rule lock_ok_frames_only[OF assms(2) c_yield_fields(1)])
      (use lock_ok_conds[OF assms(2)] lock_ok_frames[OF assms(2)] in auto)
next
  case (sleep xs)
  show ?thesis
    unfolding sleep(1)
    by (rule lock_ok_frames_only[OF assms(2), of _ "RestoreLevel True # fr k (cc k)"])
      (use lock_ok_conds[OF assms(2)] lock_ok_frames[OF assms(2)] in auto)
qed


lemma lock_ok_down:
  assumes "lock_ok k" "s \<notin> c_lock_semas k" shows "lock_ok (c_down s k)"
  using lock_ok_cop[OF cop.down] assms by blast

lemma lock_ok_acquire:
  assumes "lock_ok k" "l \<in> dom (hld k)" "\<not> held k l" shows "lock_ok (c_acquire l k)"
  using lock_ok_cop[OF cop.acquire] assms by blast

lemma lock_ok_signal:
  assumes "lock_ok k" "cnd k c = Some (w # ws)" shows "lock_ok (c_call (SemaUp w) (k\<lparr>cnd := (cnd k)(c \<mapsto> ws)\<rparr>))"
  using lock_ok_cop[OF cop.signal] assms by blast

lemma frames_ok_top:
  assumes "lock_ok k" "fr k a = f # fs" shows "frame_ok (dom (hld k)) f fs" "frames_ok (dom (hld k)) fs"
  using lock_ok_frames[OF assms(1), of a] assms(2) by simp_all

text \<open>A frame without a token is removed.\<close>

lemma lock_ok_ret:
  assumes "lock_ok k" "fr k (cc k) = f # fs" "\<And>l. l \<in> dom (hld k) \<Longrightarrow> tok l f = 0"
  shows "lock_ok (c_ret k)"
  by (rule lock_ok_frames_only[OF assms(1), of _ fs])
    (use assms frames_ok_top[OF assms(1,2)] lock_ok_conds[OF assms(1)] in auto)

lemma lock_ok_same [simp]: "lock_ok (k\<lparr>on := b\<rparr>) = lock_ok k"
  by (simp add: lock_ok_def c_lock_semas_def lock_total_def token_sum_def)

lemma plain_tok: "plain f \<Longrightarrow> tok l f = 0"
  by (cases f) simp_all

theorem lock_ok_cstep:
  assumes "cstep k k'" "lock_ok k" shows "lock_ok k'"
  using assms(1)
proof cases
  case oper
  then show ?thesis using lock_ok_cop assms(2) by blast
next
  case (block s b fs x)
  show ?thesis
    unfolding block(1)
    by (rule lock_ok_frames_only[OF assms(2), of _ "fr k (cc k)"])
      (use lock_ok_conds[OF assms(2)] lock_ok_frames[OF assms(2), of "cc k"] block in auto)
next
  case (took s b fs x)
  show ?thesis
    unfolding took(1)
    by (rule lock_ok_step[OF assms(2), of _ fs])
      (use lock_ok_conds[OF assms(2)] frames_ok_top[OF assms(2) took(2)] took uint_dec in auto)
next
  case (down_call s fs)
  have "s \<notin> c_lock_semas k" using frames_ok_top[OF assms(2) down_call(2)] by (simp add: c_lock_semas_def)
  then have "lock_ok (c_ret k)" "s \<notin> c_lock_semas (c_ret k)"
    using assms(2) down_call(2) by (auto intro!: lock_ok_ret simp: c_lock_semas_def)
  then show ?thesis unfolding down_call(1) by (rule lock_ok_down)
next
  case (up s fs)
  then obtain x where x: "sem k s = Some x" by (auto simp: up_ok_def)
  then have "sem (c_ret k) s = Some x" by simp
  then obtain y where y: "sem (c_up s (c_ret k)) = (sem k)(s \<mapsto> y)" "s_value y = s_value x + 1"
    by (rule c_up_sem) simp
  show ?thesis
    unfolding up(1)
  proof (rule lock_ok_step[OF assms(2), of _ fs])
    fix l z
    assume l: "sem k (lock_sema l) = Some z" "l \<in> dom (hld k)"
      and le: "uint (s_value z) + of_bool (hld k l \<noteq> Some None) + toks l (fr k (cc k)) \<le> 1" "0 \<le> toks l (fr k (cc k))"
    have "uint (s_value z) \<le> 1" using le by (cases "hld k l = Some None") simp_all
    then show "\<exists>x'. sem (c_up s (c_ret k)) (lock_sema l) = Some x' \<and>
        uint (s_value x') + of_bool (hld (c_up s (c_ret k)) l \<noteq> Some None) + toks l fs =
        uint (s_value z) + of_bool (hld k l \<noteq> Some None) + toks l (fr k (cc k))"
      using up(2) x y l by (cases "s = lock_sema l") (auto simp: uint_inc)
  qed (use lock_ok_conds[OF assms(2)] frames_ok_top[OF assms(2) up(2)] up in auto)
next
  case (take l fs)
  show ?thesis
    unfolding take(1)
  proof (rule lock_ok_step[OF assms(2), of _ fs])
    fix m z
    assume m: "sem k (lock_sema m) = Some z" "m \<in> dom (hld k)"
      and le: "uint (s_value z) + of_bool (hld k m \<noteq> Some None) + toks m (fr k (cc k)) \<le> 1"
    have "toks m fs \<ge> 0"
      using toks_nonneg[of "dom (hld k)" fs m] frames_ok_top[OF assms(2) take(2)] m(2) by (auto split: if_splits)
    have "hld k m = Some None" if "m = l"
    proof (rule ccontr)
      assume "hld k m \<noteq> Some None"
      then have "uint (s_value z) + toks l fs < 0" using le take(2) that by simp
      then show False using \<open>toks m fs \<ge> 0\<close> that uint_ge_0[of "s_value z"] by (metis add_nonneg_nonneg not_le)
    qed
    then show "\<exists>x'. sem (c_take l (c_ret k)) (lock_sema m) = Some x' \<and>
        uint (s_value x') + of_bool (hld (c_take l (c_ret k)) m \<noteq> Some None) + toks m fs =
        uint (s_value z) + of_bool (hld k m \<noteq> Some None) + toks m (fr k (cc k))"
      using m take(2) by (cases "m = l") auto
  qed (use lock_ok_conds[OF assms(2)] frames_ok_top[OF assms(2) take(2)] take in auto)
next
  case (reacquire l fs)
  have "lock_ok (c_ret k)" using assms(2) reacquire(2) by (auto intro!: lock_ok_ret)
  then show ?thesis unfolding reacquire(1) using reacquire by (intro lock_ok_acquire) simp_all
next
  case (signal_all c l fs w ws)
  then show ?thesis using lock_ok_signal assms(2) by blast
next
  case (ret f fs b)
  then have "lock_ok (c_ret k)" using assms(2) plain_tok by (intro lock_ok_ret) auto
  then show ?thesis unfolding ret(1) by simp
next
  case (idle fs)
  show ?thesis
    unfolding idle(1)
    by (rule lock_ok_frames_only[OF assms(2), of _ "IdleHalt # fr k (cc k)"])
      (use lock_ok_conds[OF assms(2)] lock_ok_frames[OF assms(2)] in auto)
next
  case (tick ws rest y)
  let ?fs = "(if y then [RestoreLevel False] else []) @ Iret # fr k (cc k)"
  show ?thesis
    unfolding tick(1)
    by (rule lock_ok_frames_only[OF assms(2), of _ ?fs])
      (use lock_ok_conds[OF assms(2)] lock_ok_frames[OF assms(2)] in \<open>auto simp: c_tick_def Let_def split: if_splits\<close>)
qed

end
