(* ===== verification/KSyncWake.thy ===== *)
theory KSyncWake imports KSyncLock begin

text \<open>The invariant behind wake-ups: what a waiting thread can rely on.\<close>

section \<open>No wake-up is lost\<close>

text \<open>
  A thread in \<open>sema_down\<close> that is not blocked is on its way to test the value of the semaphore.
  When threads wait, at least as many such threads are under way as the semaphore has units: a
  semaphore is never positive with all of its threads asleep.
\<close>

fun downs_of :: "addr \<Rightarrow> frame \<Rightarrow> nat" where
  "downs_of s (SemaDown s' b) = of_bool (s = s')"
| "downs_of s f = 0"

definition downs :: "addr \<Rightarrow> frame list \<Rightarrow> nat" where
  "downs s fs = sum_list (map (downs_of s) fs)"

lemma downs_simps [simp]: "downs s [] = 0" "downs s (f # fs) = downs_of s f + downs s fs"
  by (simp_all add: downs_def)

text \<open>Only an interrupt can come between a thread and its \<open>sema_down\<close>.\<close>

fun level_frame :: "frame \<Rightarrow> bool" where
  "level_frame Iret = True"
| "level_frame (RestoreLevel b) = True"
| "level_frame f = False"

fun shape :: "frame list \<Rightarrow> bool" where
  "shape [] = True"
| "shape (f # fs) = (if level_frame f then shape fs else (\<forall>s. downs s fs = 0))"

text \<open>What a thread that is not blocked has to do.\<close>

definition live :: "core \<Rightarrow> addr \<Rightarrow> frame list" where
  "live k a = (if ss k a = Some THREAD_BLOCKED then [] else fr k a)"

definition awake :: "addr \<Rightarrow> core \<Rightarrow> nat" where
  "awake s k = (\<Sum>a\<in>{a. fr k a \<noteq> []}. downs s (live k a))"

definition wake_ok :: "core \<Rightarrow> bool" where
  "wake_ok k \<longleftrightarrow> finite {a. fr k a \<noteq> []} \<and> (\<forall>a. shape (fr k a)) \<and>
     (\<forall>s x. sem k s = Some x \<longrightarrow> waiters x \<noteq> [] \<longrightarrow> unat (s_value x) \<le> awake s k)"

lemma shape_no_downs: "\<forall>s. downs s fs = 0 \<Longrightarrow> shape fs"
  by (induction fs) (auto split: if_splits)

lemma shape_tl: "shape (f # fs) \<Longrightarrow> shape fs"
  by (auto intro: shape_no_downs split: if_splits)

lemma awake_ge:
  assumes "finite {a. fr k a \<noteq> []}" "finite {a. fr k' a \<noteq> []}"
    and "\<And>a. a \<noteq> b \<Longrightarrow> live k' a = live k a \<or> live k a = []"
  shows "awake s k + downs s (live k' b) \<le> awake s k' + downs s (live k b)"
proof -
  let ?A = "insert b ({a. fr k a \<noteq> []} \<union> {a. fr k' a \<noteq> []})"
  have fin: "finite ?A" using assms(1,2) by simp
  have ext: "awake s j = (\<Sum>a\<in>?A. downs s (live j a))" if "{a. fr j a \<noteq> []} \<subseteq> ?A" for j
    unfolding awake_def using that fin by (intro sum.mono_neutral_left) (auto simp: live_def)
  have e: "(\<Sum>a\<in>?A. downs s (live j a)) = downs s (live j b) + (\<Sum>a\<in>?A - {b}. downs s (live j a))" for j
    using fin by (intro sum.remove) simp_all
  have "(\<Sum>a\<in>?A - {b}. downs s (live k a)) \<le> (\<Sum>a\<in>?A - {b}. downs s (live k' a))"
  proof (rule sum_mono)
    fix a assume "a \<in> ?A - {b}"
    then have "live k' a = live k a \<or> live k a = []" using assms(3) by simp
    then show "downs s (live k a) \<le> downs s (live k' a)" by auto
  qed
  moreover have "awake s k = (\<Sum>a\<in>?A. downs s (live k a))" "awake s k' = (\<Sum>a\<in>?A. downs s (live k' a))"
    by (rule ext, blast)+
  ultimately show ?thesis using e[of k] e[of k'] by linarith
qed

lemma wake_okD: "wake_ok k \<Longrightarrow> sem k s = Some x \<Longrightarrow> waiters x \<noteq> [] \<Longrightarrow> unat (s_value x) \<le> awake s k"
  by (auto simp: wake_ok_def)

lemma wake_ok_shape: "wake_ok k \<Longrightarrow> shape (fr k a)"
  by (simp add: wake_ok_def)

lemma wake_ok_same [simp]:
  "wake_ok (k\<lparr>on := b\<rparr>) = wake_ok k" "wake_ok (k\<lparr>hld := h\<rparr>) = wake_ok k" "wake_ok (k\<lparr>cnd := c\<rparr>) = wake_ok k"
  "wake_ok (k\<lparr>slp := xs\<rparr>) = wake_ok k" "wake_ok (k\<lparr>rdy := xs\<rparr>) = wake_ok k" "wake_ok (k\<lparr>cc := a\<rparr>) = wake_ok k"
  by (simp_all add: wake_ok_def awake_def live_def cong: if_cong)

text \<open>A change of the frames and the status of one thread.\<close>

lemma wake_ok_thread:
  assumes "wake_ok k" "fr k' = (fr k)(b := fs)" "shape fs" "\<And>a. a \<noteq> b \<Longrightarrow> ss k' a = Some THREAD_BLOCKED \<Longrightarrow> ss k a = Some THREAD_BLOCKED"
    and "\<And>s x'. sem k' s = Some x' \<Longrightarrow> waiters x' \<noteq> [] \<Longrightarrow> unat (s_value x') = 0 \<or>
      (\<exists>x. sem k s = Some x \<and> waiters x \<noteq> [] \<and>
        unat (s_value x') + downs s (live k b) \<le> unat (s_value x) + downs s (live k' b))"
  shows "wake_ok k'"
proof -
  have fin: "finite {a. fr k a \<noteq> []}" using assms(1) by (simp add: wake_ok_def)
  have fin': "finite {a. fr k' a \<noteq> []}" unfolding assms(2) by (rule finite_upd[OF fin])
  have "live k' a = live k a \<or> live k a = []" if "a \<noteq> b" for a
    using that assms(2,4) by (auto simp: live_def)
  then have aw: "awake s k + downs s (live k' b) \<le> awake s k' + downs s (live k b)" for s
    by (rule awake_ge[OF fin fin'])
  have "unat (s_value x') \<le> awake s k'" if "sem k' s = Some x'" "waiters x' \<noteq> []" for s x'
    using assms(5)[OF that]
  proof
    assume "\<exists>x. sem k s = Some x \<and> waiters x \<noteq> [] \<and>
        unat (s_value x') + downs s (live k b) \<le> unat (s_value x) + downs s (live k' b)"
    then obtain x where x: "sem k s = Some x" "waiters x \<noteq> []"
      "unat (s_value x') + downs s (live k b) \<le> unat (s_value x) + downs s (live k' b)" by blast
    then show ?thesis using wake_okD[OF assms(1) x(1,2)] aw[of s] by linarith
  qed simp
  moreover have "shape (fr k' a)" for a using assms(1,3) by (simp add: assms(2) wake_ok_def)
  ultimately show ?thesis using fin' by (auto simp: wake_ok_def)
qed

lemma wake_ok_frames:
  assumes "wake_ok k" "shape fs" "\<And>s. downs s (fr k b) \<le> downs s fs" "ss k b \<noteq> Some THREAD_BLOCKED"
  shows "wake_ok (k\<lparr>fr := (fr k)(b := fs)\<rparr>)"
  by (rule wake_ok_thread[OF assms(1), of _ b fs]) (use assms in \<open>auto simp: live_def\<close>)

lemma wake_ok_call:
  assumes "wake_ok k" "sched_ok k" "level_frame f \<or> (\<forall>s. downs s (fr k (cc k)) = 0)"
  shows "wake_ok (c_call f k)"
  unfolding c_call_def
  by (rule wake_ok_frames) (use assms wake_ok_shape in \<open>auto simp: sched_ok_def\<close>)

lemma wake_ok_ret:
  assumes "wake_ok k" "sched_ok k" "fr k (cc k) = f # fs" "\<And>s. downs_of s f = 0"
  shows "wake_ok (c_ret k)"
  unfolding c_ret_def
  by (rule wake_ok_frames)
    (use assms wake_ok_shape[OF assms(1), of "cc k"] shape_tl in \<open>auto simp: sched_ok_def\<close>)

lemma wake_ok_unblocked:
  assumes "wake_ok k" "x \<noteq> Some THREAD_BLOCKED"
  shows "wake_ok (k\<lparr>ss := (ss k)(b := x)\<rparr>)"
  by (rule wake_ok_thread[OF assms(1), of _ b "fr k b"])
    (use assms wake_ok_shape[OF assms(1)] in \<open>auto simp: live_def split: if_splits\<close>)

lemma wake_ok_sched: "wake_ok k \<Longrightarrow> wake_ok (c_sched k)"
  unfolding c_sched_def using wake_ok_unblocked[of "k\<lparr>cc := c_next k, rdy := tl (rdy k)\<rparr>"] by simp

text \<open>A thread without \<open>sema_down\<close> blocks.\<close>

lemma wake_ok_block:
  assumes "wake_ok k" "\<And>s. downs s (fr k (cc k)) = 0"
  shows "wake_ok (c_block k)"
proof -
  have "wake_ok (k\<lparr>ss := (ss k)(cc k := Some THREAD_BLOCKED)\<rparr>)"
    by (rule wake_ok_thread[OF assms(1), of _ "cc k" "fr k (cc k)"])
      (use assms wake_ok_shape[OF assms(1)] in \<open>auto simp: live_def\<close>)
  then show ?thesis unfolding c_block_def by (rule wake_ok_sched)
qed


lemma unat_inc_le: "unat (v + 1 :: u32) \<le> unat v + 1"
  by (metis le_refl nat_le_linear not_less_eq_eq unat_1 unat_plus_if_size unat_word_ariths(1) Suc_eq_plus1 mod_less_eq_dividend)

lemma wake_ok_value:
  assumes "wake_ok k" "sem k s = Some x" "waiters y = waiters x" "unat (s_value y) \<le> unat (s_value x)"
  shows "wake_ok (k\<lparr>sem := (sem k)(s \<mapsto> y)\<rparr>)"
  by (rule wake_ok_thread[OF assms(1), of _ "cc k" "fr k (cc k)"])
    (use assms wake_ok_shape[OF assms(1)] in \<open>auto simp: live_def split: if_splits\<close>)

lemma wake_ok_fresh:
  assumes "wake_ok k" "s_value y = 0 \<or> waiters y = []"
  shows "wake_ok (k\<lparr>sem := (sem k)(s \<mapsto> y)\<rparr>)"
  by (rule wake_ok_thread[OF assms(1), of _ "cc k" "fr k (cc k)"])
    (use assms wake_ok_shape[OF assms(1)] in \<open>auto simp: live_def split: if_splits\<close>)

lemma wake_ok_take_value:
  assumes "wake_ok k" "sem k s = Some x" "s_value x \<noteq> 0" shows "wake_ok (c_take_value s x k)"
proof -
  have "unat (s_value x - 1) \<le> unat (s_value x)" using assms(3) by (simp add: unat_minus_one)
  then show ?thesis unfolding c_take_value_def using assms by (intro wake_ok_value[of k s x]) simp_all
qed

text \<open>The first waiter is woken, and is now on its way.\<close>

lemma wake_ok_up:
  assumes "wake_ok k" "sched_ok k" shows "wake_ok (c_up s k)"
proof (cases "sem k s")
  case None
  then show ?thesis using assms(1) by (simp add: c_up_def)
next
  case (Some x)
  show ?thesis
  proof (cases "waiters x")
    case Nil
    then show ?thesis using Some wake_ok_fresh[OF assms(1), of "x\<lparr>s_value := s_value x + 1\<rparr>" s] by (simp add: c_up_def)
  next
    case (Cons w ws)
    have w: "in_down s (fr k w)" "ss k w = Some THREAD_BLOCKED"
      using waiter_parked[OF assms(2), of w s] Some Cons by (simp_all add: parked_on_def wl_def)
    then obtain b gs where fw: "fr k w = SemaDown s b # gs" by (auto elim: in_downE)
    show ?thesis
    proof (rule wake_ok_thread[OF assms(1), of _ w "fr k w"])
      fix t x'
      assume x': "sem (c_up s k) t = Some x'" "waiters x' \<noteq> []"
      have lv: "live k w = []" "live (c_up s k) w = fr k w" using w Some Cons by (auto simp: live_def c_up_def c_unblock_def)
      show "unat (s_value x') = 0 \<or> (\<exists>x. sem k t = Some x \<and> waiters x \<noteq> [] \<and>
          unat (s_value x') + downs t (live k w) \<le> unat (s_value x) + downs t (live (c_up s k) w))"
      proof (cases "t = s")
        case True
        then have "x' = x\<lparr>waiters := ws, s_value := s_value x + 1\<rparr>" using x' Some Cons by (simp add: c_up_def)
        then show ?thesis using True Some Cons lv fw unat_inc_le[of "s_value x"] by auto
      next
        case False
        then show ?thesis using x' Some Cons lv by (auto simp: c_up_def)
      qed
    qed (use Some Cons wake_ok_shape[OF assms(1)] in \<open>auto simp: c_up_def c_unblock_def split: if_splits\<close>)
  qed
qed

lemma wake_ok_unblock: "wake_ok k \<Longrightarrow> wake_ok (c_unblock w k)"
  unfolding c_unblock_def using wake_ok_unblocked[of "k\<lparr>rdy := rdy k @ [w]\<rparr>"] by simp

lemma wake_ok_wake: "wake_ok k \<Longrightarrow> wake_ok (c_wake ws rest k)"
proof -
  have "wake_ok k \<Longrightarrow> wake_ok (fold c_unblock ws k)"
    by (induction ws arbitrary: k) (simp_all add: wake_ok_unblock)
  then show "wake_ok k \<Longrightarrow> wake_ok (c_wake ws rest k)" by (simp add: c_wake_def)
qed

lemma wake_ok_yield:
  assumes "wake_ok k" "sched_ok k" shows "wake_ok (c_yield k)"
proof -
  have "wake_ok (c_call (RestoreLevel (on k)) k)" using assms by (intro wake_ok_call) simp_all
  then have "wake_ok ((c_call (RestoreLevel (on k)) k)\<lparr>on := False,
      rdy := (if cc k \<noteq> idl k then rdy k @ [cc k] else rdy k), ss := (ss k)(cc k := Some THREAD_READY)\<rparr>)"
    using wake_ok_unblocked[of "(c_call (RestoreLevel (on k)) k)\<lparr>on := False,
      rdy := (if cc k \<noteq> idl k then rdy k @ [cc k] else rdy k)\<rparr>" "Some THREAD_READY" "cc k"] by simp
  moreover have "c_yield k = c_sched ((c_call (RestoreLevel (on k)) k)\<lparr>on := False,
      rdy := (if cc k \<noteq> idl k then rdy k @ [cc k] else rdy k), ss := (ss k)(cc k := Some THREAD_READY)\<rparr>)"
    unfolding c_yield_def c_call_def by (intro arg_cong[where f = c_sched] core.equality) simp_all
  ultimately show ?thesis by (simp add: wake_ok_sched)
qed

lemma wake_ok_down:
  "wake_ok k \<Longrightarrow> sched_ok k \<Longrightarrow> \<forall>s. downs s (fr k (cc k)) = 0 \<Longrightarrow> wake_ok (c_down s k)"
  unfolding c_down_def by (rule wake_ok_call) simp_all

lemma wake_ok_acquire:
  assumes "wake_ok k" "sched_ok k" "\<forall>s. downs s (fr k (cc k)) = 0" "cc k \<noteq> idl k" shows "wake_ok (c_acquire l k)"
  unfolding c_acquire_def
  by (rule wake_ok_down) (use assms in \<open>simp_all add: wake_ok_call sched_ok_call\<close>)

lemma wake_ok_release:
  "wake_ok k \<Longrightarrow> sched_ok k \<Longrightarrow> \<forall>s. downs s (fr k (cc k)) = 0 \<Longrightarrow> wake_ok (c_release l k)"
  unfolding c_release_def by (rule wake_ok_call) simp_all

lemma wake_ok_take: "wake_ok k \<Longrightarrow> wake_ok (c_take l k)"
  by (simp add: c_take_def)

lemma wake_ok_cop:
  assumes "cop k k'" "wake_ok k" "sched_ok k" "fr k (cc k) = []" shows "wake_ok k'"
  using assms(1)
proof cases
  case (wait l c ws w)
  have "cc k \<noteq> idl k" using not_idle_empty[OF assms(3,4)] .
  moreover have "sched_ok (k\<lparr>sem := (sem k)(w \<mapsto> \<lparr>s_value = 0, waiters = []\<rparr>), cnd := (cnd k)(c \<mapsto> ws @ [w])\<rparr>)"
    using sched_ok_sem[OF assms(3), of "\<lparr>s_value = 0, waiters = []\<rparr>" w] unused_no_waiter[OF assms(3) wait(4)] by simp
  moreover have "wake_ok (k\<lparr>sem := (sem k)(w \<mapsto> \<lparr>s_value = 0, waiters = []\<rparr>), cnd := (cnd k)(c \<mapsto> ws @ [w])\<rparr>)"
    using wake_ok_fresh[OF assms(2), of "\<lparr>s_value = 0, waiters = []\<rparr>" w] by simp
  ultimately show ?thesis
    unfolding wait(1) c_wait_def using assms(4)
    by (intro wake_ok_release wake_ok_call sched_ok_call) simp_all
next
  case (sleep xs)
  have "cc k \<noteq> idl k" using not_idle_empty[OF assms(3,4)] .
  then have "wake_ok (c_call (RestoreLevel True) (k\<lparr>on := False, slp := xs\<rparr>))"
    using assms unfolding c_call_def by (intro wake_ok_frames) (simp_all add: sched_ok_def)
  then show ?thesis unfolding sleep(1) using assms(4) by (intro wake_ok_block) simp_all
qed (use assms not_idle_empty[OF assms(3,4)] in \<open>auto intro!: wake_ok_down wake_ok_take_value wake_ok_up wake_ok_acquire wake_ok_take
    wake_ok_release wake_ok_call wake_ok_yield\<close>)


lemma shape_top:
  assumes "wake_ok k" "fr k a = f # fs" "\<not> level_frame f" shows "\<forall>s. downs s fs = 0"
  using wake_ok_shape[OF assms(1), of a] assms(2,3) by simp

lemma plain_downs: "plain f \<Longrightarrow> downs_of s f = 0 \<and> f \<noteq> IdleLoop"
  by (cases f) simp_all

theorem wake_ok_cstep:
  assumes "cstep k k'" "wake_ok k" "sched_ok k" shows "wake_ok k'"
  using assms(1)
proof cases
  case oper
  then show ?thesis using wake_ok_cop assms by blast
next
  case (block s b fs x)
  have run: "ss k (cc k) \<noteq> Some THREAD_BLOCKED" using assms(3) by (simp add: sched_ok_def)
  let ?k = "k\<lparr>sem := (sem k)(s \<mapsto> x\<lparr>waiters := waiters x @ [cc k]\<rparr>), ss := (ss k)(cc k := Some THREAD_BLOCKED)\<rparr>"
  have "wake_ok ?k"
    by (rule wake_ok_thread[OF assms(2), of _ "cc k" "fr k (cc k)"])
      (use block run wake_ok_shape[OF assms(2), of "cc k"] in \<open>auto simp: live_def split: if_splits\<close>)
  then show ?thesis unfolding block(1) c_block_def using wake_ok_sched[of ?k] by simp
next
  case (took s b fs x)
  have run: "ss k (cc k) \<noteq> Some THREAD_BLOCKED" using assms(3) by (simp add: sched_ok_def)
  have dec: "Suc (unat (s_value x - 1)) = unat (s_value x)"
    using took(4) by (simp add: unat_minus_one unat_gt_0)
  show ?thesis
    unfolding took(1)
    by (rule wake_ok_thread[OF assms(2), of _ "cc k" fs])
      (use took run dec wake_ok_shape[OF assms(2), of "cc k"] shape_no_downs[of fs] in \<open>auto simp: live_def split: if_splits\<close>)
next
  case (down_call s fs)
  have "wake_ok (c_ret k)" "sched_ok (c_ret k)"
    using assms down_call(2) by (auto intro!: wake_ok_ret sched_ok_ret)
  then show ?thesis
    unfolding down_call(1) using down_call(2) shape_top[OF assms(2) down_call(2)] by (intro wake_ok_down) simp_all
next
  case (up s fs)
  have "wake_ok (c_ret k)" "sched_ok (c_ret k)"
    using assms up(2) by (auto intro!: wake_ok_ret sched_ok_ret)
  then show ?thesis unfolding up(1) by (rule wake_ok_up)
next
  case (take l fs)
  have "wake_ok (c_ret k)" using assms take(2) by (auto intro!: wake_ok_ret)
  then show ?thesis unfolding take(1) by (rule wake_ok_take)
next
  case (reacquire l fs)
  have "wake_ok (c_ret k)" "sched_ok (c_ret k)" "cc k \<noteq> idl k"
    using assms reacquire(2) not_idle_top[OF assms(3)] by (auto intro!: wake_ok_ret sched_ok_ret)
  then show ?thesis
    unfolding reacquire(1) using reacquire(2) shape_top[OF assms(2) reacquire(2)] by (intro wake_ok_acquire) simp_all
next
  case (signal_all c l fs w ws)
  then show ?thesis
    unfolding signal_all(1) using assms shape_top[OF assms(2) signal_all(2)] by (intro wake_ok_call) simp_all
next
  case (ret f fs b)
  then have "wake_ok (c_ret k)" using assms plain_downs by (intro wake_ok_ret) auto
  then show ?thesis unfolding ret(1) by simp
next
  case (idle fs)
  have "\<forall>s. downs s (fr k (cc k)) = 0" using idle(2) shape_top[OF assms(2) idle(2)] by simp
  then have "wake_ok (c_call IdleHalt (k\<lparr>on := False\<rparr>))"
    using assms by (intro wake_ok_call) simp_all
  then show ?thesis
    unfolding idle(1) using \<open>\<forall>s. downs s (fr k (cc k)) = 0\<close> by (intro wake_ok_block) simp_all
next
  case (tick ws rest y)
  have w: "wake_ok (c_wake ws rest (c_call Iret (k\<lparr>on := False\<rparr>)))"
    using assms by (intro wake_ok_wake wake_ok_call) simp_all
  have "sched_ok (c_wake ws rest (c_call Iret (k\<lparr>on := False\<rparr>)))"
    using assms(3) tick(2) by (intro sched_ok_wake sched_ok_call) simp_all
  then show ?thesis unfolding tick(1) using w by (simp add: c_tick_def Let_def wake_ok_yield)
qed

end
