(* ===== verification/KSyncProps.thy ===== *)
theory KSyncProps imports KSyncWake begin

text \<open>
  The properties of scheduling and synchronisation: what holds in every state that the machine
  can reach after the start of the kernel, whatever the threads do and whenever the timer
  interrupts them.
\<close>

section \<open>Reachable states\<close>

text \<open>
  After the start the first thread runs, the idle thread waits at its loop, the other threads
  are ready, and nothing is locked.
\<close>

definition booted :: "sched \<Rightarrow> bool" where
  "booted st \<longleftrightarrow> finite (dom (threads st)) \<and> cur st \<noteq> idle_thread st \<and>
     {cur st, idle_thread st} \<subseteq> dom (threads st) \<and>
     (\<forall>a t. threads st a = Some t \<longrightarrow>
        (if a = idle_thread st then status t = THREAD_BLOCKED \<and> frames t = [IdleLoop]
         else status t = (if a = cur st then THREAD_RUNNING else THREAD_READY) \<and> frames t = [])) \<and>
     distinct (ready_list st) \<and> set (ready_list st) = dom (threads st) - {cur st, idle_thread st} \<and>
     sleep_list st = [] \<and> (\<forall>s x. semas st s = Some x \<longrightarrow> waiters x = []) \<and>
     (\<forall>l \<in> dom (holder st). holder st l = Some None \<and>
        (\<exists>x. semas st (lock_sema l) = Some x \<and> s_value x = 1)) \<and>
     (\<forall>c ws. conds st c = Some ws \<longrightarrow> ws = [])"

inductive reach :: "sched \<Rightarrow> bool" where
  boot: "booted st \<Longrightarrow> reach st"
| step: "reach st \<Longrightarrow> kstep st st' \<Longrightarrow> reach st'"

lemma booted_frames: "booted st \<Longrightarrow> frames_of st a = (if a = idle_thread st then [IdleLoop] else [])"
  by (auto simp: booted_def frames_of_def split: option.splits)

lemma booted_sched_ok: "booted st \<Longrightarrow> sched_ok (core_of st)"
proof -
  assume b: "booted st"
  obtain c i where c: "threads st (cur st) = Some c" "status c = THREAD_RUNNING"
    and i: "threads st (idle_thread st) = Some i" "status i = THREAD_BLOCKED" and ne: "cur st \<noteq> idle_thread st"
    using b by (auto simp: booted_def split: if_splits)
  have st: "status t = (if a = idle_thread st then THREAD_BLOCKED else if a = cur st then THREAD_RUNNING else THREAD_READY)"
    if "threads st a = Some t" for a t
    using b that unfolding booted_def by (auto split: if_splits)
  have ss: "ss (core_of st) a = Some x \<longleftrightarrow> a \<in> dom (threads st) \<and>
      x = (if a = idle_thread st then THREAD_BLOCKED else if a = cur st then THREAD_RUNNING else THREAD_READY)" for a x
    using st by (cases "threads st a") auto
  have wl: "wl (core_of st) s = []" for s
    using b by (auto simp: wl_def booted_def split: option.splits)
  have "rdy_ok (core_of st)" using b ss by (auto simp: rdy_ok_def booted_def)
  moreover have "slp_ok (core_of st)" "sem_ok (core_of st)" using b wl by (simp_all add: slp_ok_def sem_ok_def booted_def)
  moreover have "blocked_ok (core_of st)" using ss by (auto simp: blocked_ok_def split: if_splits)
  moreover have "idle_ok (core_of st)"
    using i booted_frames[OF b] by (auto simp: idle_ok_def idle_stack_def)
  ultimately show ?thesis
    using ss c ne by (auto simp: sched_ok_def queues_ok_def split: if_splits)
qed

lemma booted_busy: "booted st \<Longrightarrow> {a. fr (core_of st) a \<noteq> []} = {idle_thread st}"
  by (simp add: booted_frames)

lemma booted_lock_ok:
  assumes "booted st" shows "lock_ok (core_of st)"
proof -
  have c: "ws = []" if "conds st c = Some ws" for c ws using assms that unfolding booted_def by blast
  have l: "holder st l = Some None \<and> (\<exists>x. semas st (lock_sema l) = Some x \<and> s_value x = 1)" if "l \<in> dom (holder st)" for l
    using assms that unfolding booted_def by blast
  have t: "token_sum l (core_of st) = 0" for l
    unfolding token_sum_def booted_busy[OF assms] by (simp add: booted_frames[OF assms])
  have "frames_ok (dom (holder st)) (frames_of st a)" for a by (simp add: booted_frames[OF assms])
  moreover have "finite {a. frames_of st a \<noteq> []}" using booted_busy[OF assms] by simp
  moreover have "\<exists>x. semas st (lock_sema m) = Some x \<and> lock_total m x (core_of st) = 1" if "m \<in> dom (holder st)" for m
    using l[OF that] t by (auto simp: lock_total_def)
  ultimately show ?thesis unfolding lock_ok_def core_simps using c by fastforce
qed

lemma booted_wake_ok: "booted st \<Longrightarrow> wake_ok (core_of st)"
  unfolding wake_ok_def by (auto simp: booted_frames) (auto simp: booted_def)

theorem reach_ok: "reach st \<Longrightarrow> sched_ok (core_of st) \<and> lock_ok (core_of st) \<and> wake_ok (core_of st)"
proof (induction rule: reach.induct)
  case (boot st)
  then show ?case using booted_sched_ok booted_lock_ok booted_wake_ok by blast
next
  case (step st st')
  then show ?case using kstep_cstep sched_ok_cstep lock_ok_cstep wake_ok_cstep by blast
qed


section \<open>Facts of the core\<close>

lemma downs_le_1: "shape fs \<Longrightarrow> downs s fs \<le> 1"
proof (induction fs)
  case (Cons f fs)
  then show ?case by (cases f) (auto split: if_splits)
qed simp

lemma downs_pos: "downs s fs > 0 \<Longrightarrow> \<exists>b. SemaDown s b \<in> set fs"
proof (induction fs)
  case (Cons f fs)
  then show ?case by (cases "downs_of s f = 0", auto) (cases f; auto)
qed simp

text \<open>The threads that are on their way to test the semaphore at \<open>s\<close>.\<close>

definition testing :: "addr \<Rightarrow> sched \<Rightarrow> addr set" where
  "testing s st = {a. \<exists>t b. threads st a = Some t \<and> status t \<noteq> THREAD_BLOCKED \<and> SemaDown s b \<in> set (frames t)}"

lemma awake_le_testing:
  assumes "wake_ok (core_of st)" "finite (testing s st)"
  shows "awake s (core_of st) \<le> card (testing s st)"
proof -
  let ?k = "core_of st" and ?B = "{a. frames_of st a \<noteq> []}"
  have fin: "finite ?B" using assms(1) by (simp add: wake_ok_def)
  have "downs s (live ?k a) \<le> of_bool (a \<in> testing s st)" for a
  proof (cases "downs s (live ?k a) = 0")
    case False
    then have d: "downs s (frames_of st a) > 0" "ss ?k a \<noteq> Some THREAD_BLOCKED" by (auto simp: live_def split: if_splits)
    then obtain b where "SemaDown s b \<in> set (frames_of st a)" using downs_pos by blast
    then have "a \<in> testing s st" using d(2) by (cases "threads st a") (auto simp: testing_def frames_of_def)
    moreover have "downs s (live ?k a) \<le> 1"
      using downs_le_1 wake_ok_shape[OF assms(1), of a] by (simp add: live_def)
    ultimately show ?thesis by simp
  qed simp
  then have "awake s ?k \<le> (\<Sum>a\<in>?B. of_bool (a \<in> testing s st))"
    unfolding awake_def by (simp add: sum_mono)
  also have "\<dots> = card (?B \<inter> testing s st)" using fin by (simp add: Int_def)
  also have "\<dots> \<le> card (testing s st)" using assms(2) by (intro card_mono) auto
  finally show ?thesis .
qed

lemma testing_finite: "wake_ok (core_of st) \<Longrightarrow> finite (testing s st)"
  by (rule finite_subset[of _ "{a. frames_of st a \<noteq> []}"])
    (auto simp: wake_ok_def testing_def frames_of_def)

text \<open>Who changes the holder of a lock.\<close>

lemma lock_token_here:
  assumes "lock_ok k" "hld k l = Some (Some a)"
  shows "\<exists>x. sem k (lock_sema l) = Some x \<and> s_value x = 0" "toks l (fr k b) = 0"
proof -
  obtain x where x: "sem k (lock_sema l) = Some x"
    "uint (s_value x) + of_bool (hld k l \<noteq> Some None) + toks l (fr k b) \<le> 1" "toks l (fr k b) \<ge> 0"
    using lock_okD[OF assms(1), of l b] assms(2) by (metis domI)
  then have "uint (s_value x) + toks l (fr k b) \<le> 0" using assms(2) by simp
  then have "uint (s_value x) = 0 \<and> toks l (fr k b) = 0" using x(3) uint_ge_0[of "s_value x"] by (metis add_nonneg_eq_0_iff add_nonneg_nonneg order_antisym)
  then show "\<exists>x. sem k (lock_sema l) = Some x \<and> s_value x = 0" "toks l (fr k b) = 0"
    using x(1) by (auto simp: uint_0_iff)
qed

lemma holder_cop:
  assumes "cop k k'" "lock_ok k" "hld k l = Some (Some a)"
  shows "hld k' l = Some (Some a) \<or> a = cc k \<and> hld k' l = Some None"
  using assms(1)
proof cases
  case (try_acquire m x)
  have "m \<noteq> l" using lock_token_here(1)[OF assms(2,3)] try_acquire by auto
  then show ?thesis using try_acquire assms(3) by simp
qed (use assms(3) in \<open>auto simp: held_def c_wait_def\<close>)

lemma holder_cstep:
  assumes "cstep k k'" "lock_ok k" "hld k l = Some (Some a)"
  shows "hld k' l = Some (Some a) \<or> a = cc k \<and> hld k' l = Some None"
  using assms(1)
proof cases
  case oper
  then show ?thesis using holder_cop assms by blast
next
  case (take m fs)
  have "toks l (LockAcquired m # fs) = 0" using lock_token_here(2)[OF assms(2,3), of "cc k"] take by simp
  moreover have "l \<in> dom (hld k)" using assms(3) by auto
  from toks_nonneg[OF frames_ok_top(2)[OF assms(2) take(2)] this] have "toks l fs \<ge> 0" by (simp split: if_splits)
  ultimately have "m \<noteq> l" using assms(3) by auto
  then show ?thesis using take assms(3) by simp
qed (use assms(3) in \<open>auto simp: c_tick_def Let_def\<close>)

text \<open>What a step does to the ready list: \<open>zs\<close> become ready, and the running thread may change.\<close>

definition moves :: "core \<Rightarrow> core \<Rightarrow> addr list \<Rightarrow> bool" where
  "moves k k' zs \<longleftrightarrow> cc k' = cc k \<and> rdy k' = rdy k @ zs \<or>
     rdy k @ zs \<noteq> [] \<and> cc k' = hd (rdy k @ zs) \<and> rdy k' = tl (rdy k @ zs) \<or> rdy k @ zs = []"

lemma c_next_eq: "c_next k = (if rdy k = [] then idl k else hd (rdy k))"
  by (cases "rdy k") (simp_all add: c_next_def)

lemma c_sched_moves: "rdy k = rdy j @ zs \<Longrightarrow> moves j (c_sched k) zs"
  by (auto simp: moves_def c_next_eq)

lemma c_block_moves: "rdy k = rdy j \<Longrightarrow> moves j (c_block k) []"
  unfolding c_block_def by (rule c_sched_moves) simp

lemma c_yield_moves: "rdy k = rdy j @ ws \<Longrightarrow> \<exists>zs. moves j (c_yield k) (ws @ zs)"
  unfolding c_yield_def by (rule exI[of _ "if cc k \<noteq> idl k then [cc k] else []"], rule c_sched_moves) simp

lemma same_moves: "cc k' = cc k \<Longrightarrow> rdy k' = rdy k @ zs \<Longrightarrow> moves k k' zs"
  by (simp add: moves_def)

lemma c_up_moves: "cc k = cc j \<Longrightarrow> rdy k = rdy j \<Longrightarrow> \<exists>zs. moves j (c_up s k) zs"
  by (auto simp: c_up_def c_unblock_def moves_def split: option.split list.split)

lemma fold_unblock_rdy: "rdy (fold c_unblock ws k) = rdy k @ ws"
  by (induction ws arbitrary: k) (simp_all add: c_unblock_def)

lemma cop_moves: "cop k k' \<Longrightarrow> \<exists>zs. moves k k' zs"
proof (induction rule: cop.induct)
  case (up s k)
  then show ?case by (intro c_up_moves) simp_all
next
  case (yield k)
  then show ?case using c_yield_moves[of k k "[]"] by simp
next
  case (sleep xs k)
  have "moves k (c_block (c_call (RestoreLevel True) (k\<lparr>on := False, slp := xs\<rparr>))) []"
    by (rule c_block_moves) simp
  then show ?case by blast
qed (rule exI[of _ "[]"], rule same_moves,
    simp_all add: c_down_def c_take_value_def c_acquire_def c_take_def c_release_def c_wait_def)+

lemma cstep_moves: "cstep k k' \<Longrightarrow> \<exists>zs. moves k k' zs"
proof (induction rule: cstep.induct)
  case (oper k k')
  then show ?case by (intro cop_moves)
next
  case (block k s b fs x)
  have "moves k (c_block (k\<lparr>sem := (sem k)(s \<mapsto> x\<lparr>waiters := waiters x @ [cc k]\<rparr>)\<rparr>)) []"
    by (rule c_block_moves) simp
  then show ?case by blast
next
  case (up k s fs)
  then show ?case by (intro c_up_moves) simp_all
next
  case (idle k fs)
  have "moves k (c_block (c_call IdleHalt (k\<lparr>on := False\<rparr>))) []" by (rule c_block_moves) simp
  then show ?case by blast
next
  case (tick k ws rest y)
  let ?w = "c_wake ws rest (c_call Iret (k\<lparr>on := False\<rparr>))"
  have r: "rdy ?w = rdy k @ ws" by (simp add: c_wake_def fold_unblock_rdy)
  show ?case
  proof (cases y)
    case True
    then show ?thesis using c_yield_moves[OF r] by (auto simp: c_tick_def Let_def)
  next
    case False
    then have "moves k (c_tick ws rest y k) ws" using r by (simp add: c_tick_def Let_def moves_def)
    then show ?thesis by blast
  qed
qed (rule exI[of _ "[]"], rule same_moves,
    simp_all add: c_down_def c_take_value_def c_acquire_def c_take_def)+

section \<open>Preemption\<close>

definition has_page_dir :: "addr \<Rightarrow> sched \<Rightarrow> bool" where
  "has_page_dir a st \<longleftrightarrow> (\<exists>t. threads st a = Some t \<and>
     is_kernel_vaddr (if pagedir t = 0 then init_page_dir (vm st) else pagedir t))"

lemma thread_yield_ok:
  assumes "current st = Some t" "cur st \<noteq> idle_thread st" "ready_list st = a # as" "is_thread a st" "a \<noteq> cur st"
    "has_page_dir a st" "\<not> in_external_intr st"
  shows "\<exists>st'. thread_yield st = Some st' \<and> cur st' = a \<and> ready_list st' = as @ [cur st]"
proof -
  obtain u where u: "threads st a = Some u" "a \<noteq> 0" "t_magic u = THREAD_MAGIC"
    "is_kernel_vaddr (if pagedir u = 0 then init_page_dir (vm st) else pagedir u)"
    using assms(4,6) by (auto simp: has_page_dir_def is_thread_iff)
  have c: "threads st (cur st) = Some t" "cur st \<noteq> 0" "t_magic t = THREAD_MAGIC" "status t = THREAD_RUNNING"
    using assms(1) by (auto simp: current_iff)
  let ?t = "t\<lparr>frames := RestoreLevel (intr_on st) # frames t, status := THREAD_READY\<rparr>"
  let ?st1 = "st\<lparr>intr_on := False, threads := (threads st)(cur st \<mapsto> ?t), ready_list := as @ [cur st], cur := a\<rparr>"
  let ?u = "u\<lparr>status := THREAD_RUNNING\<rparr>"
  obtain p where p: "pagedir_activate (pagedir u) (vm st) = Some p"
    using u(4) by (simp add: pagedir_activate_def vtop_def Let_def)
  have "thread_yield st = thread_schedule_tail (Some (cur st)) ?st1"
    using assms u c
    by (simp add: thread_yield_def thread_current_def running_thread_def is_thread_def intr_context_def intr_disable_def
        intr_get_level_def call_def put_thread_def schedule_def next_thread_to_run_def Let_def)
  also have "\<dots> = Some (?st1\<lparr>threads := (threads ?st1)(a \<mapsto> ?u), thread_ticks := 0, vm := p, esp0 := a + PGSIZE\<rparr>)"
    using assms(5) u p
    by (simp add: thread_schedule_tail_def running_thread_def intr_get_level_def put_thread_def process_activate_def
        current_def thread_current_def is_thread_def tss_update_def Let_def)
  finally show ?thesis by simp
qed

lemma time_slice_tick:
  assumes "thread_current st = Some c" "in_external_intr st" "TIME_SLICE \<le> thread_ticks st + 1"
  obtains st' where "thread_tick st = Some st'" "yield_on_return st'" "cur st' = cur st" "threads st' = threads st"
    "ready_list st' = ready_list st" "sleep_list st' = sleep_list st" "idle_thread st' = idle_thread st"
    "vm st' = vm st" "intr_on st' = intr_on st"
proof -
  obtain t where t: "threads st c = Some t" using assms(1) by (auto simp: thread_current_iff)
  let ?s1 = "if c = idle_thread st then st\<lparr>idle_ticks := idle_ticks st + 1\<rparr>
    else if pagedir t \<noteq> 0 then st\<lparr>user_ticks := user_ticks st + 1\<rparr>
    else st\<lparr>kernel_ticks := kernel_ticks st + 1\<rparr>"
  let ?s2 = "?s1\<lparr>thread_ticks := thread_ticks ?s1 + 1\<rparr>"
  let ?s3 = "if thread_ticks ?s2 \<ge> TIME_SLICE then ?s2\<lparr>yield_on_return := True\<rparr> else ?s2"
  have "thread_tick st = Some ?s3"
    using assms t by (simp add: thread_tick_def Let_def intr_yield_on_return_def intr_context_def)
  then show thesis by (rule that) (use assms(3) in simp_all)
qed

section \<open>Properties\<close>

text \<open>
  A state after the start: thread 4096 runs, 8192 is ready, 12288 is the idle thread.  The lock
  at 100 is free, and the semaphore at 200 is zero.
\<close>

definition boot_sched :: "vmem \<Rightarrow> fs \<Rightarrow> sched" where
  "boot_sched v f = (demo_sched (v\<lparr>init_page_dir := 0xc0100000\<rparr>) f)\<lparr>
     threads := [4096 \<mapsto> demo_thread THREAD_RUNNING 0, 8192 \<mapsto> demo_thread THREAD_READY 0,
       12288 \<mapsto> (demo_thread THREAD_BLOCKED 0)\<lparr>frames := [IdleLoop]\<rparr>],
     ready_list := [8192], sleep_list := [], idle_thread := 12288, intr_on := True, in_external_intr := False,
     holder := [100 \<mapsto> None],
     semas := [104 \<mapsto> \<lparr>s_value = 1, waiters = []\<rparr>, 200 \<mapsto> \<lparr>s_value = 0, waiters = []\<rparr>]\<rparr>"

lemmas boot_simps = boot_sched_def demo_sched_def demo_thread_def THREAD_MAGIC_def lock_sema_def

lemma boot_booted: "booted (boot_sched v f)"
  by (auto simp: booted_def boot_simps)

lemma boot_current: "current (boot_sched v f) = Some (demo_thread THREAD_RUNNING 0)"
  by (simp add: current_iff boot_simps)

lemma boot_reach: "reach (boot_sched v f)"
  by (rule reach.boot[OF boot_booted])

text \<open>
  C2: In every reachable state exactly one thread is running, namely the current one, the ready list holds exactly the
  ready threads other than the idle thread, once each, and the blocked threads other than the idle thread are
  exactly those that are either in the sleep list or wait in exactly one semaphore, once.  No thread is dying.  The
  idle thread, which is handed to the scheduler only when the ready list is empty, is in none of these queues.
  So no thread is lost and none is in two queues, whatever operations the threads perform and
  wherever the timer interrupts them.
\<close>

theorem threads_partitioned:
  assumes "reach st"
  shows "{a. map_option status (threads st a) = Some THREAD_RUNNING} = {cur st} \<and>
    distinct (ready_list st) \<and>
    set (ready_list st) = {a. map_option status (threads st a) = Some THREAD_READY \<and> a \<noteq> idle_thread st} \<and>
    distinct (sleep_list st) \<and> (\<forall>s. case semas st s of None \<Rightarrow> True | Some x \<Rightarrow> distinct (waiters x)) \<and>
    {a. map_option status (threads st a) = Some THREAD_BLOCKED \<and> a \<noteq> idle_thread st} =
      {a. a \<in> set (sleep_list st) \<and> (\<nexists>s x. semas st s = Some x \<and> a \<in> set (waiters x)) \<or>
          a \<notin> set (sleep_list st) \<and> (\<exists>!s. \<exists>x. semas st s = Some x \<and> a \<in> set (waiters x))} \<and>
    idle_thread st \<notin> set (sleep_list st) \<and> (\<nexists>s x. semas st s = Some x \<and> idle_thread st \<in> set (waiters x)) \<and>
    (\<nexists>a. map_option status (threads st a) = Some THREAD_DYING)"
proof -
  let ?k = "core_of st"
  have s: "sched_ok ?k" using reach_ok[OF assms(1)] by simp
  have in_wl: "(\<exists>x. semas st s = Some x \<and> a \<in> set (waiters x)) \<longleftrightarrow> a \<in> set (wl ?k s)" for s a
    by (cases "semas st s") (simp_all add: wl_def)
  have sp: "slp_ok ?k" "sem_ok ?k" "blocked_ok ?k" "rdy_ok ?k" using s by (simp_all add: sched_ok_def queues_ok_def)
  have bl: "ss ?k a = Some THREAD_BLOCKED" "a \<noteq> idle_thread st" if "a \<in> set (wl ?k s)" for s a
    using waiter_parked[OF s that] by (simp_all add: parked_on_def)
  have sl: "ss ?k a = Some THREAD_BLOCKED" "a \<noteq> idle_thread st" if "a \<in> set (sleep_list st)" for a
    using sp(1) that by (simp_all add: slp_ok_def parked_on_def)
  have either: "a \<in> set (sleep_list st) \<or> (\<exists>s. a \<in> set (wl ?k s))"
    if "ss ?k a = Some THREAD_BLOCKED" "a \<noteq> idle_thread st" for a
    using sp(3) that by (auto simp: blocked_ok_def waits_def)
  have "ss ?k a = Some THREAD_BLOCKED \<and> a \<noteq> idle_thread st \<longleftrightarrow>
      a \<in> set (sleep_list st) \<and> (\<nexists>s. a \<in> set (wl ?k s)) \<or> a \<notin> set (sleep_list st) \<and> (\<exists>!s. a \<in> set (wl ?k s))" for a
    using either[of a] bl[of a] sl[of a] waiter_not_sleeping[OF s, of a] waiters_apart[OF s, of a] by (metis core_simps(3))
  then have "{a. ss ?k a = Some THREAD_BLOCKED \<and> a \<noteq> idle_thread st} =
      {a. a \<in> set (sleep_list st) \<and> (\<nexists>s. a \<in> set (wl ?k s)) \<or> a \<notin> set (sleep_list st) \<and> (\<exists>!s. a \<in> set (wl ?k s))}"
    by simp
  moreover have "(\<nexists>s x. semas st s = Some x \<and> a \<in> set (waiters x)) \<longleftrightarrow> (\<nexists>s. a \<in> set (wl ?k s))" for a
    using in_wl[where a = a] by blast
  moreover have "{a. ss ?k a = Some THREAD_RUNNING} = {cur st}" "\<nexists>a. ss ?k a = Some THREAD_DYING"
    using s by (auto simp: sched_ok_def queues_ok_def)
  moreover have "distinct (ready_list st)" "set (ready_list st) = {a. ss ?k a = Some THREAD_READY \<and> a \<noteq> idle_thread st}"
    "distinct (sleep_list st)"
    using sp by (auto simp: rdy_ok_def slp_ok_def)
  moreover have "case semas st s of None \<Rightarrow> True | Some x \<Rightarrow> distinct (waiters x)" for s
    using sp(2) by (cases "semas st s") (auto simp: sem_ok_def wl_def dest: spec[of _ s])
  moreover have "idle_thread st \<notin> set (sleep_list st)" "\<nexists>s. idle_thread st \<in> set (wl ?k s)" using sl bl by blast+
  ultimately show ?thesis unfolding in_wl by simp
qed

theorem threads_partitioned_witness:
  "\<forall>v f. 8192 \<in> set (ready_list (boot_sched v f)) \<and> 8192 \<noteq> cur (boot_sched v f) \<and>
     12288 \<notin> set (ready_list (boot_sched v f))"
proof (intro allI)
  fix v f
  have t: "map_option status (threads (boot_sched v f) 8192) = Some THREAD_READY" "idle_thread (boot_sched v f) = 12288"
    by (simp_all add: boot_simps)
  note p = threads_partitioned[OF boot_reach, of v f]
  from p have r: "set (ready_list (boot_sched v f)) =
      {a. map_option status (threads (boot_sched v f) a) = Some THREAD_READY \<and> a \<noteq> idle_thread (boot_sched v f)}"
    by (elim conjE)
  from p have "{a. map_option status (threads (boot_sched v f) a) = Some THREAD_RUNNING} = {cur (boot_sched v f)}"
    by (elim conjE)
  then have "map_option status (threads (boot_sched v f) (cur (boot_sched v f))) = Some THREAD_RUNNING" by blast
  then have "8192 \<noteq> cur (boot_sched v f)" using t(1) by auto
  then show "8192 \<in> set (ready_list (boot_sched v f)) \<and> 8192 \<noteq> cur (boot_sched v f) \<and>
      12288 \<notin> set (ready_list (boot_sched v f))"
    unfolding r using t by simp
qed

text \<open>
  C1: Mutual exclusion.  In every reachable state a lock that is held has its semaphore at zero,
  and no step of the machine takes it from its holder: after any step the same thread holds it,
  or that thread itself has just released it.  In particular no other thread acquires it.
\<close>

theorem lock_mutual_exclusion:
  assumes "reach st" "holder st l = Some (Some a)" "kstep st st'"
  shows "(\<exists>x. semas st (lock_sema l) = Some x \<and> s_value x = 0) \<and>
    (holder st' l = Some (Some a) \<or> a = cur st \<and> holder st' l = Some None)"
proof -
  have ok: "lock_ok (core_of st)" using reach_ok[OF assms(1)] by simp
  show ?thesis
    using lock_token_here(1)[OF ok] holder_cstep[OF kstep_cstep[OF assms(3)] ok] assms(2) by simp
qed

lemmas run_simps = do_op_def lock_try_acquire_def lock_held_by_current_thread_def sema_try_down_def lock_take_def
  sema_down_def sema_down_loop_def thread_block_def thread_yield_def schedule_def next_thread_to_run_def
  thread_schedule_tail_def process_activate_def tss_update_def pagedir_activate_def vtop_def is_kernel_vaddr_def PHYS_BASE_def
  intr_disable_def intr_get_level_def intr_set_level_def intr_enable_def intr_context_def call_def return_def
  put_sema_def put_thread_def running_thread_def thread_current_def current_def is_thread_def lock_semas_def Let_def

text \<open>Thread 4096 takes the lock, and goes on with an operation that does not touch it.\<close>

lemma boot_lock_steps:
  obtains st st' where "reach st" "holder st 100 = Some (Some 4096)" "kstep st st'" "cur st = 4096" "holder st' 100 = Some (Some 4096)"
proof -
  fix v f
  let ?st0 = "boot_sched v f"
  obtain st where st: "do_op (Op_lock_try_acquire 100) ?st0 = Some st" "holder st 100 = Some (Some 4096)" "cur st = 4096"
      "\<exists>t. current st = Some t \<and> frames t = []" "semas st 200 = Some \<lparr>s_value = 0, waiters = []\<rparr>"
      "\<not> in_external_intr st" "lock_semas st = {104}"
    by (simp add: run_simps boot_simps)
  have "kstep ?st0 st"
    by (rule kstep.oper[OF boot_current, of "Op_lock_try_acquire 100"]) (use st in \<open>simp_all add: demo_thread_def\<close>)
  then have r: "reach st" by (rule reach.step[OF boot_reach])
  obtain t where t: "current st = Some t" "frames t = []" using st(4) by blast
  obtain st' where st': "do_op (Op_sema_try_down 200) st = Some st'" "holder st' = holder st"
    using st(5,6) by (cases "intr_on st") (auto simp: do_op_def sema_try_down_def intr_disable_def intr_set_level_def intr_enable_def intr_get_level_def intr_context_def Let_def)
  have "kstep st st'"
    by (rule kstep.oper[OF t(1,2), of "Op_sema_try_down 200"]) (use st st' in simp_all)
  then show thesis using that[OF r st(2)] st(2,3) st'(2) by simp
qed


theorem lock_mutual_exclusion_witness:
  "\<exists>st st'. kstep st st' \<and> holder st 100 = Some (Some 4096) \<and>
     (holder st' 100 = Some (Some 4096) \<or> cur st = 4096 \<and> holder st' 100 = Some None)"
proof -
  obtain st st' where s: "reach st" "holder st 100 = Some (Some 4096)" "kstep st st'" by (rule boot_lock_steps)
  from lock_mutual_exclusion[OF s] s show ?thesis by auto
qed

text \<open>Thread 4096 goes to wait in the semaphore, and thread 8192 runs.\<close>

lemma boot_wait_steps:
  obtains st where "reach st" "semas st 200 = Some \<lparr>s_value = 0, waiters = [4096]\<rparr>"
proof -
  fix v f
  let ?st0 = "boot_sched v f"
  obtain st t where st: "do_op (Op_sema_down 200) ?st0 = Some st" "current st = Some t" "frames t = [SemaDown 200 True]"
     "\<exists>st'. resume st = Some st' \<and> semas st' 200 = Some \<lparr>s_value = 0, waiters = [4096]\<rparr>"
    by (simp add: run_simps boot_simps resume_def PGSIZE_def)
  then obtain st' where st': "resume st = Some st'" "semas st' 200 = Some \<lparr>s_value = 0, waiters = [4096]\<rparr>" by blast
  have "kstep ?st0 st"
    by (rule kstep.oper[OF boot_current, of "Op_sema_down 200"])
      (use st in \<open>simp_all add: demo_thread_def lock_semas_def boot_simps\<close>)
  then have "reach st" by (rule reach.step[OF boot_reach])
  moreover have "kstep st st'" by (rule kstep.resume[OF st(2,3) _ st'(1)]) simp
  ultimately show thesis using st'(2) by (intro that[of st']) (auto intro: reach.step)
qed

lemma boot_yield_step:
  obtains st where "kstep (boot_sched v f) st"
proof -
  obtain st where st: "do_op Op_yield (boot_sched v f) = Some st"
    by (simp add: run_simps boot_simps PGSIZE_def)
  have "kstep (boot_sched v f) st"
    by (rule kstep.oper[OF boot_current _ _ st]) (simp_all add: demo_thread_def)
  then show thesis by (rule that)
qed


text \<open>
  C3: No wake-up is lost.  In every reachable state, when threads wait in a semaphore, its value
  is at most the number of threads that are not blocked and are about to test it: a semaphore
  that was upped never stays positive while all its waiters sleep.
\<close>

theorem sema_no_lost_wakeup:
  assumes "reach st" "semas st s = Some x" "waiters x \<noteq> []"
  shows "unat (s_value x) \<le> card (testing s st)"
proof -
  have w: "wake_ok (core_of st)" using reach_ok[OF assms(1)] by simp
  have "unat (s_value x) \<le> awake s (core_of st)" using wake_okD[OF w, of s x] assms(2,3) by simp
  also have "\<dots> \<le> card (testing s st)" by (rule awake_le_testing[OF w testing_finite[OF w]])
  finally show ?thesis .
qed

theorem sema_no_lost_wakeup_witness:
  "\<exists>st x. reach st \<and> semas st 200 = Some x \<and> waiters x = [4096] \<and> unat (s_value x) \<le> card (testing 200 st)"
proof -
  obtain st where st: "reach st" "semas st 200 = Some \<lparr>s_value = 0, waiters = [4096]\<rparr>" by (rule boot_wait_steps)
  from sema_no_lost_wakeup[OF st] st show ?thesis by auto
qed

text \<open>
  The ready list is first in, first out.  A thread at some position of the ready list is
  still there after a step, behind the same threads, or the thread at the head has been given
  the processor and everyone has moved up by one; the threads that become ready queue behind it.
  So a ready thread runs after as many switches as there are threads before it, plus one.
\<close>

theorem ready_list_fifo:
  assumes "kstep st st'" "ready_list st = xs @ a # ys"
  shows "\<exists>zs. cur st' = cur st \<and> ready_list st' = xs @ a # ys @ zs \<or>
    cur st' = hd (xs @ [a]) \<and> ready_list st' = tl (xs @ a # ys @ zs)"
proof -
  obtain zs where "moves (core_of st) (core_of st') zs" using cstep_moves[OF kstep_cstep[OF assms(1)]] by blast
  then show ?thesis using assms(2) by (cases xs) (auto simp: moves_def)
qed

theorem ready_list_fifo_witness:
  "\<forall>v f. \<exists>st' zs. kstep (boot_sched v f) st' \<and>
     (cur st' = 4096 \<and> ready_list st' = [8192] @ zs \<or> cur st' = 8192 \<and> ready_list st' = zs)"
proof (intro allI)
  fix v f
  obtain st' where "kstep (boot_sched v f) st'" by (rule boot_yield_step)
  moreover have "ready_list (boot_sched v f) = [] @ 8192 # []" "cur (boot_sched v f) = 4096" by (simp_all add: boot_simps)
  ultimately show "\<exists>st' zs. kstep (boot_sched v f) st' \<and>
     (cur st' = 4096 \<and> ready_list st' = [8192] @ zs \<or> cur st' = 8192 \<and> ready_list st' = zs)"
    using ready_list_fifo[of "boot_sched v f" st' "[]" 8192 "[]"] by auto
qed

text \<open>
  C4: Preemption.  When the running thread has used up its time slice, the next timer interrupt
  gives the processor to the thread at the head of the ready list, and the interrupted thread is
  put at its end, after the sleepers that the same interrupt has woken.
\<close>

theorem time_slice_preempts:
  assumes "current st = Some t" "cur st \<noteq> idle_thread st" "\<not> in_external_intr st"
    "TIME_SLICE \<le> thread_ticks st + 1" "ready_list st = a # as" "a \<noteq> cur st" "is_thread a st" "has_page_dir a st"
    "distinct (sleep_list st)" "\<forall>b \<in> set (sleep_list st). blocked st b"
  shows "\<exists>st' woken. timer_intr_handler st = Some st' \<and> cur st' = a \<and> ready_list st' = as @ woken @ [cur st] \<and>
    woken = takeWhile (\<lambda>b. sint (ticks_of st b) \<le> sint (ticks st + 1)) (sleep_list st)"
proof -
  have c: "threads st (cur st) = Some t" "cur st \<noteq> 0" "t_magic t = THREAD_MAGIC" "status t = THREAD_RUNNING"
    using assms(1) by (auto simp: current_iff)
  have nb: "\<not> blocked st (cur st)" using c by (auto simp: blocked_def)
  let ?t = "t\<lparr>frames := Iret # frames t\<rparr>"
  let ?s0 = "st\<lparr>intr_on := False, threads := (threads st)(cur st \<mapsto> ?t), in_external_intr := True,
     yield_on_return := False, ticks := ticks st + 1\<rparr>"
  have "thread_current ?s0 = Some (cur st)" using c by (simp add: thread_current_iff)
  then obtain s1 where s1: "thread_tick ?s0 = Some s1" "yield_on_return s1" "cur s1 = cur st" "threads s1 = threads ?s0"
    "ready_list s1 = a # as" "sleep_list s1 = sleep_list st" "idle_thread s1 = idle_thread st" "vm s1 = vm st" "\<not> intr_on s1"
    using assms(4,5) by (elim time_slice_tick) simp_all
  have tk: "ticks s1 = ticks st + 1" using s1(1) by (auto simp: thread_tick_def intr_yield_on_return_def Let_def elim!: bind_SomeE split: if_splits)
  have tko: "ticks_of s1 b = ticks_of st b" for b using s1(4) c(1) by (simp add: ticks_of_def)
  have bl: "\<forall>b \<in> set (sleep_list st). blocked s1 b"
    using assms(10) nb s1(4) by (auto simp: blocked_def is_thread_def)
  let ?w = "takeWhile (due s1) (sleep_list st)"
  let ?s2 = "(readied ?w s1)\<lparr>sleep_list := dropWhile (due s1) (sleep_list st)\<rparr>"
  have wk: "wake_loop (sleep_list s1) s1 = Some ?s2"
    using wake_loop_ok[OF bl assms(9) s1(9,6)] s1(6) by simp
  let ?s3 = "?s2\<lparr>in_external_intr := False, io := outb 32 32 (io ?s2)\<rparr>"
  have w: "?w = takeWhile (\<lambda>b. sint (ticks_of st b) \<le> sint (ticks st + 1)) (sleep_list st)"
    by (intro takeWhile_cong) (simp_all add: due_iff tko tk)
  have th: "threads ?s3 b = threads s1 b" if "\<not> blocked st b" for b
    using that assms(10) set_takeWhileD[of b "due s1" "sleep_list st"] by (auto simp: readied_def)
  have na: "status u \<noteq> THREAD_BLOCKED \<Longrightarrow> threads st a = Some u \<Longrightarrow> \<not> blocked st a" for u by (simp add: blocked_def)
  have cur3: "current ?s3 = Some ?t" using th[OF nb] s1(3,4) c by (simp add: current_iff readied_def)
  obtain u where u: "threads st a = Some u" using assms(7) by (auto simp: is_thread_iff)
  have "\<exists>st'. thread_yield ?s3 = Some st' \<and> cur st' = a \<and> ready_list st' = (as @ ?w) @ [cur ?s3]"
  proof (rule thread_yield_ok[OF cur3])
    show "is_thread a ?s3"
      using assms(6,7) s1(4) u by (auto simp: is_thread_def readied_def)
    show "has_page_dir a ?s3"
      using assms(6,8) s1(4,8) u by (auto simp: has_page_dir_def readied_def)
  qed (use assms(2,6) s1 in \<open>simp_all add: readied_def\<close>)
  then obtain st' where y: "thread_yield ?s3 = Some st'" "cur st' = a" "ready_list st' = as @ ?w @ [cur st]"
    using s1(3) by (auto simp: readied_def)
  have "timer_intr_handler st = Some st'"
  proof -
    have "timer_interrupt (?s0\<lparr>ticks := ticks st\<rparr>) = Some ?s2"
      using s1(1) wk by (simp add: timer_interrupt_def Let_def)
    moreover have "intr_on ?s2 = False" "in_external_intr ?s2" "yield_on_return ?s2"
      using s1(2,9) s1(1) by (auto simp: readied_def thread_tick_def intr_yield_on_return_def intr_context_def Let_def elim!: bind_SomeE split: if_splits)
    ultimately show ?thesis
      using c assms(3) y(1) by (simp add: timer_intr_handler_def call_def put_thread_def intr_get_level_def intr_context_def Let_def)
  qed
  then show ?thesis using y(2,3) unfolding w by blast
qed

theorem time_slice_preempts_witness:
  "\<forall>v f. \<exists>st'. timer_intr_handler ((boot_sched v f)\<lparr>thread_ticks := 3\<rparr>) = Some st' \<and> cur st' = 8192 \<and>
     ready_list st' = [4096]"
proof (intro allI)
  fix v f
  let ?st = "(boot_sched v f)\<lparr>thread_ticks := 3\<rparr>"
  have "current ?st = Some (demo_thread THREAD_RUNNING 0)" "is_thread 8192 ?st"
    by (simp_all add: current_iff is_thread_def boot_simps)
  moreover have "has_page_dir 8192 ?st"
    by (simp add: has_page_dir_def boot_simps is_kernel_vaddr_def PHYS_BASE_def)
  ultimately show "\<exists>st'. timer_intr_handler ?st = Some st' \<and> cur st' = 8192 \<and> ready_list st' = [4096]"
    using time_slice_preempts[of ?st "demo_thread THREAD_RUNNING 0" 8192 "[]"]
    by (simp add: TIME_SLICE_def boot_simps)
qed

end
