(* ===== verification/KSyscallProps.thy ===== *)
theory KSyscallProps imports KSyncProps begin

unbundle bit_operations_syntax

text \<open>
  Bad user pointers: the memory that the handler reads before a call, and what it does when a
  pointer in it is not the process's to use.
\<close>

section \<open>What a call takes\<close>

text \<open>How many words \<open>get_arg\<close> loads for a call, and the calls whose first argument is a string.\<close>

definition call_args :: "nat \<Rightarrow> nat" where
  "call_args nr =
     (if nr \<in> {1, 2, 3, 5, 6, 7, 11, 12, 15, 16, 18, 19} then 1
      else if nr \<in> {4, 10, 17} then 2 else if nr \<in> {8, 9} then 3 else 0)"

text \<open>Some argument of the call lies at an address that is not the process's.\<close>

definition bad_args :: "u32 \<Rightarrow> nat \<Rightarrow> sched \<Rightarrow> bool" where
  "bad_args esp nr st \<longleftrightarrow> (\<exists>j < call_args nr. \<not> check_valid_ptr (esp + 4 * of_nat j + 4) \<and>
     (\<forall>i < j. check_valid_ptr (esp + 4 * of_nat i + 4) \<and> load_word (esp + 4 * of_nat i + 4) st \<noteq> None))"

text \<open>The string at \<open>s\<close> runs into an address that is not mapped for the process before it ends.\<close>

definition bad_string :: "u32 \<Rightarrow> sched \<Rightarrow> bool" where
  "bad_string s st \<longleftrightarrow> (\<exists>n. user_to_kernel_ptr (s + of_nat n) st = Some 0 \<and>
     (\<forall>i < n. \<exists>p. user_to_kernel_ptr (s + of_nat i) st = Some p \<and> p \<noteq> 0 \<and> kbyte p (vm st) \<noteq> 0))"

definition bad_buffer :: "u32 \<Rightarrow> u32 \<Rightarrow> bool" where
  "bad_buffer a sz \<longleftrightarrow> (\<exists>i < unat sz. \<not> check_valid_ptr (a + of_nat i))"

definition bad_call :: "u32 \<Rightarrow> u32 \<Rightarrow> sched \<Rightarrow> bool" where
  "bad_call esp p st \<longleftrightarrow> p = 0 \<or> (\<exists>nr. nr = unat (dec32 (kbytes p 4 (vm st))) \<and>
     (bad_args esp nr st \<or> (\<exists>a. get_arg esp (call_args nr) st = Some (Some a) \<and>
        (nr \<in> {2, 4, 5, 6, 15, 16} \<and> bad_string (a ! 0) st \<or> nr = 17 \<and> bad_string (a ! 1) st \<or>
         nr \<in> {8, 9} \<and> bad_buffer (a ! 1) (a ! 2)))))"

section \<open>The checks\<close>

lemma get_arg_loop_bad:
  assumes "\<not> check_valid_ptr (esp + 4 * of_nat (i + j) + 4)" "j < n"
    "\<forall>k < j. check_valid_ptr (esp + 4 * of_nat (i + k) + 4) \<and> load_word (esp + 4 * of_nat (i + k) + 4) st \<noteq> None"
  shows "get_arg_loop esp i n st = Some None"
  using assms
proof (induction n arbitrary: i j)
  case (Suc n)
  show ?case
  proof (cases j)
    case 0
    then show ?thesis using Suc.prems(1) by simp
  next
    case (Suc l)
    have "get_arg_loop esp (Suc i) n st = Some None"
      by (rule Suc.IH[of "Suc i" l]) (use Suc.prems Suc in \<open>auto simp flip: add_Suc_right\<close>)
    moreover have "check_valid_ptr (esp + 4 * of_nat i + 4)" "load_word (esp + 4 * of_nat i + 4) st \<noteq> None"
      using Suc.prems(3) Suc by (metis add.right_neutral zero_less_Suc)+
    ultimately show ?thesis by (auto simp: Let_def)
  qed
qed simp

lemma with_args_bad: "bad_args esp nr st \<Longrightarrow> with_args esp (call_args nr) k st = exit ERROR st"
  unfolding bad_args_def using get_arg_loop_bad[of esp 0 _ "call_args nr" st]
  by (auto simp: with_args_def get_arg_def)

lemma check_valid_string_bad:
  assumes "user_to_kernel_ptr (s + of_nat n) st = Some 0"
    "\<forall>i < n. \<exists>p. user_to_kernel_ptr (s + of_nat i) st = Some p \<and> p \<noteq> 0 \<and> kbyte p (vm st) \<noteq> 0"
  shows "check_valid_string s st = Some False"
  using assms
proof (induction n arbitrary: s)
  case 0
  then show ?case by (subst check_valid_string.simps) simp
next
  case (Suc n)
  have "check_valid_string (s + 1) st = Some False"
  proof (rule Suc.IH)
    show "user_to_kernel_ptr (s + 1 + of_nat n) st = Some 0" using Suc.prems(1) by (simp add: ac_simps)
    show "\<forall>i < n. \<exists>p. user_to_kernel_ptr (s + 1 + of_nat i) st = Some p \<and> p \<noteq> 0 \<and> kbyte p (vm st) \<noteq> 0"
    proof (intro allI impI)
      fix i assume "i < n"
      then show "\<exists>p. user_to_kernel_ptr (s + 1 + of_nat i) st = Some p \<and> p \<noteq> 0 \<and> kbyte p (vm st) \<noteq> 0"
        using Suc.prems(2)[rule_format, of "Suc i"] by (simp add: ac_simps)
    qed
  qed
  moreover obtain p where "user_to_kernel_ptr s st = Some p" "p \<noteq> 0" "kbyte p (vm st) \<noteq> 0"
    using Suc.prems(2)[rule_format, of 0] by auto
  ultimately show ?case by (subst check_valid_string.simps) simp
qed

lemma with_string_bad: "bad_string s st \<Longrightarrow> with_string s k st = exit ERROR st"
  unfolding bad_string_def using check_valid_string_bad by (auto simp: with_string_def)

lemma check_valid_buffer_iff: "check_valid_buffer a n \<longleftrightarrow> (\<forall>i < n. check_valid_ptr (a + of_nat i))"
proof (induction n arbitrary: a)
  case (Suc n)
  then show ?case by (auto simp: All_less_Suc2 ac_simps)
qed simp

lemma with_buffer_bad: "bad_buffer a sz \<Longrightarrow> with_buffer a sz k st = exit ERROR st"
  by (auto simp: bad_buffer_def with_buffer_def check_valid_buffer_iff)

lemma with_args_ok: "get_arg esp n st = Some (Some a) \<Longrightarrow> with_args esp n k st = k a st"
  by (simp add: with_args_def)

lemma syscall_case_bad_args:
  assumes "bad_args esp nr st"
  shows "syscall_case nr esp st = exit ERROR st"
proof -
  note w = with_args_bad[OF assms]
  have "call_args nr \<noteq> 0" using assms by (auto simp: bad_args_def)
  then have "nr \<in> {1, 2, 3, 5, 6, 7, 11, 12, 15, 16, 18, 19} \<union> {4, 10, 17} \<union> {8, 9}"
    by (auto simp: call_args_def split: if_splits)
  then show ?thesis using w by (auto simp: syscall_case_def call_args_def)
qed

lemma syscall_case_bad_pointer:
  assumes "get_arg esp (call_args nr) st = Some (Some a)"
    "nr \<in> {2, 4, 5, 6, 15, 16} \<and> bad_string (a ! 0) st \<or> nr = 17 \<and> bad_string (a ! 1) st \<or>
     nr \<in> {8, 9} \<and> bad_buffer (a ! 1) (a ! 2)"
  shows "syscall_case nr esp st = exit ERROR st"
proof -
  note w = with_args_ok[OF assms(1)]
  show ?thesis
    using assms(2) w by (auto simp: syscall_case_def call_args_def with_path_def with_string_bad with_buffer_bad)
qed

text \<open>
  C26: A process that passes a bad pointer to the kernel is ended with status \<open>ERROR\<close>.  When the
  stack pointer is not a mapped user address, or an argument of the call does not lie below the
  kernel's addresses, or a string argument runs into an unmapped address before its terminator, or
  some byte of the buffer of \<open>read\<close> or \<open>write\<close> is not a user address, the system call handler does
  exactly what \<open>exit (ERROR)\<close> does: it reads and writes nothing on behalf of the process.
\<close>

theorem syscall_bad_pointer_exits:
  assumes "user_to_kernel_ptr esp st = Some p" "bad_call esp p st"
  shows "syscall_handler esp st = map_option Running (exit ERROR st)"
proof (cases "p = 0")
  case False
  let ?nr = "unat (dec32 (kbytes p 4 (vm st)))"
  have z: "call_args 0 = 0" by (simp add: call_args_def)
  from assms(2) False consider "bad_args esp ?nr st"
    | a where "get_arg esp (call_args ?nr) st = Some (Some a)"
        "?nr \<in> {2, 4, 5, 6, 15, 16} \<and> bad_string (a ! 0) st \<or> ?nr = 17 \<and> bad_string (a ! 1) st \<or>
         ?nr \<in> {8, 9} \<and> bad_buffer (a ! 1) (a ! 2)"
    unfolding bad_call_def by blast
  then have "syscall_case ?nr esp st = exit ERROR st \<and> ?nr \<noteq> 0"
  proof cases
    case 1
    then have "call_args ?nr \<noteq> 0" by (auto simp: bad_args_def)
    then have "?nr \<noteq> 0" using z by metis
    with syscall_case_bad_args[OF 1] show ?thesis by blast
  next
    case (2 a)
    have "n \<in> {2, 4, 5, 6, 15, 16} \<or> n = 17 \<or> n \<in> {8, 9} \<Longrightarrow> n \<noteq> 0" for n :: nat by auto
    with 2(2) have "?nr \<noteq> 0" by blast
    with syscall_case_bad_pointer[OF 2] show ?thesis by blast
  qed
  then show ?thesis using False assms(1) by (simp add: syscall_handler_def)
qed (use assms(1) in \<open>simp add: syscall_handler_def\<close>)

text \<open>A process that calls \<open>exec\<close> with a null pointer.\<close>

definition exec_null :: "vmem \<Rightarrow> fs \<Rightarrow> sched" where
  "exec_null v f = (let st = boot_sched (v\<lparr>words := (\<lambda>_. 0)(0xc0101080 := 0x102007, 0xc0102120 := 0x103007, 0xc0103100 := 2)\<rparr>) f
     in st\<lparr>threads := (threads st)(4096 \<mapsto> (demo_thread THREAD_RUNNING 0)\<lparr>pagedir := 0xc0101000\<rparr>)\<rparr>)"

lemma exec_null_mem:
  "words (vm (exec_null v f)) = (\<lambda>_. 0)(0xc0101080 := 0x102007, 0xc0102120 := 0x103007, 0xc0103100 := 2)"
  by (simp add: exec_null_def boot_simps Let_def)

lemma exec_null_bits:
  "pd_no 0x08048100 = 0x20" "pd_no 0x08048104 = 0x20" "pt_no 0x08048100 = 0x48" "pt_no 0x08048104 = 0x48"
  "pd_no 0x08048105 = 0x20" "pd_no 0x08048106 = 0x20" "pd_no 0x08048107 = 0x20"
  "pt_no 0x08048105 = 0x48" "pt_no 0x08048106 = 0x48" "pt_no 0x08048107 = 0x48"
  "pg_ofs 0x08048100 = 0x100" "pg_ofs 0x08048104 = 0x104"
  "pg_ofs 0x08048105 = 0x105" "pg_ofs 0x08048106 = 0x106" "pg_ofs 0x08048107 = 0x107"
  "pde_get_pt 0x102007 = Some 0xc0102000" "pte_get_page 0x103007 = Some 0xc0103000" "0x103007 AND PTE_P \<noteq> 0"
  by code_simp+

lemma exec_null_page:
  "pagedir_get_page 0xc0101000 0x08048100 (vm (exec_null v f)) = Some 0xc0103100"
  "pagedir_get_page 0xc0101000 0x08048104 (vm (exec_null v f)) = Some 0xc0103104"
  "pagedir_get_page 0xc0101000 0x08048105 (vm (exec_null v f)) = Some 0xc0103105"
  "pagedir_get_page 0xc0101000 0x08048106 (vm (exec_null v f)) = Some 0xc0103106"
  "pagedir_get_page 0xc0101000 0x08048107 (vm (exec_null v f)) = Some 0xc0103107"
  by (simp_all add: pagedir_get_page_def lookup_page_def is_user_vaddr_def PHYS_BASE_def exec_null_mem exec_null_bits)

lemma exec_null_current: "current (exec_null v f) = Some ((demo_thread THREAD_RUNNING 0)\<lparr>pagedir := 0xc0101000\<rparr>)"
  by (simp add: exec_null_def current_iff boot_simps Let_def)

lemma exec_null_parts:
  "(0xc0103100 :: u32) AND NOT 3 = 0xc0103100" "(0xc0103101 :: u32) AND NOT 3 = 0xc0103100"
  "(0xc0103102 :: u32) AND NOT 3 = 0xc0103100" "(0xc0103103 :: u32) AND NOT 3 = 0xc0103100"
  "(0xc0103104 :: u32) AND NOT 3 = 0xc0103104" "(0xc0103105 :: u32) AND NOT 3 = 0xc0103104"
  "(0xc0103106 :: u32) AND NOT 3 = 0xc0103104" "(0xc0103107 :: u32) AND NOT 3 = 0xc0103104"
  "unat ((0xc0103100 :: u32) AND 3) = 0" "unat ((0xc0103101 :: u32) AND 3) = 1"
  "unat ((0xc0103102 :: u32) AND 3) = 2" "unat ((0xc0103103 :: u32) AND 3) = 3"
  "unat ((0xc0103104 :: u32) AND 3) = 0" "unat ((0xc0103105 :: u32) AND 3) = 1"
  "unat ((0xc0103106 :: u32) AND 3) = 2" "unat ((0xc0103107 :: u32) AND 3) = 3"
  "enc32 0 = [0, 0, 0, 0]" "enc32 2 = [2, 0, 0, 0]"
  by code_simp+

lemma kbytes_4: "kbytes a 4 v = [kbyte a v, kbyte (a + 1) v, kbyte (a + 1 + 1) v, kbyte (a + 1 + 1 + 1) v]"
  by (simp add: numeral_eq_Suc)

lemma exec_null_words:
  "kbytes 0xc0103100 4 (vm (exec_null v f)) = [2, 0, 0, 0]" "kbytes 0xc0103104 4 (vm (exec_null v f)) = [0, 0, 0, 0]"
  by (simp_all add: kbytes_4 kbyte_def exec_null_mem exec_null_parts)

theorem syscall_bad_pointer_exits_witness:
  "\<forall>v f. user_to_kernel_ptr 0x08048100 (exec_null v f) = Some 0xc0103100 \<and>
     syscall_handler 0x08048100 (exec_null v f) = map_option Running (exit ERROR (exec_null v f))"
proof (intro allI conjI)
  fix v f
  let ?st = "exec_null v f"
  have c: "check_valid_ptr 0x08048100" "check_valid_ptr 0x08048104" "\<not> check_valid_ptr 0"
    by (simp_all add: check_valid_ptr_def is_user_vaddr_def PHYS_BASE_def USER_VADDR_BOTTOM_def)
  show p: "user_to_kernel_ptr 0x08048100 ?st = Some 0xc0103100"
    using c exec_null_current exec_null_page by (simp add: user_to_kernel_ptr_def)
  have nr: "unat (dec32 (kbytes 0xc0103100 4 (vm ?st))) = 2" by (simp add: exec_null_words dec32_def)
  have w: "load_word 0x08048104 ?st = Some 0"
    using exec_null_current exec_null_page
    by (simp add: load_word_def load_byte_def is_user_vaddr_def PHYS_BASE_def kbyte_def exec_null_mem exec_null_parts dec32_def)
  then have "get_arg 0x08048100 (call_args 2) ?st = Some (Some [0])" using c by (simp add: get_arg_def call_args_def)
  moreover have "bad_string 0 ?st"
    using c by (auto simp: bad_string_def user_to_kernel_ptr_def intro!: exI[of _ 0])
  ultimately have "bad_call 0x08048100 0xc0103100 ?st" unfolding bad_call_def nr
    by (intro disjI2 exI[of _ 2]) auto
  from syscall_bad_pointer_exits[OF p this]
  show "syscall_handler 0x08048100 ?st = map_option Running (exit ERROR ?st)" .
qed

end
