(* ===== verification/KArgs.thy ===== *)
theory KArgs imports KLoad begin

text \<open>
  Facts of the argument stack of \<open>setup_stack\<close>: where the strings and the words are after
  \<open>push_args\<close>.
\<close>

section \<open>Bytes on the stack\<close>

lemmas stack_consts = STACK_TOP_def STACK_BOTTOM_def PGSIZE_def

text \<open>The bytes \<open>bs\<close> lie at the user address \<open>a\<close>.\<close>

definition on_stack :: "nat \<Rightarrow> u8 list \<Rightarrow> u8 list \<Rightarrow> bool" where
  "on_stack a bs page \<longleftrightarrow> STACK_BOTTOM \<le> a \<and> a + length bs \<le> STACK_TOP \<and>
     get_bytes (a - STACK_BOTTOM) (length bs) page = bs"

text \<open>The bytes from \<open>esp\<close> on are the same.\<close>

definition same_above :: "nat \<Rightarrow> u8 list \<Rightarrow> u8 list \<Rightarrow> bool" where
  "same_above esp page page' \<longleftrightarrow> length page' = length page \<and>
     (\<forall>j < length page. esp \<le> j + STACK_BOTTOM \<longrightarrow> page' ! j = page ! j)"

lemma same_above_refl [simp]: "same_above esp page page"
  by (simp add: same_above_def)

lemma same_above_trans:
  "same_above e p q \<Longrightarrow> same_above e' q r \<Longrightarrow> e' \<le> e \<Longrightarrow> same_above e p r"
  by (simp add: same_above_def)

lemma on_stack_above:
  assumes "on_stack a bs page" "same_above esp page page'" "esp \<le> a" "length page = PGSIZE"
  shows "on_stack a bs page'"
proof -
  have r: "STACK_BOTTOM \<le> a" "a + length bs \<le> STACK_TOP" using assms(1) by (simp_all add: on_stack_def)
  then have "a - STACK_BOTTOM + length bs \<le> length page" "length page' = length page"
    using assms(2,4) by (simp_all add: same_above_def stack_consts)
  then have "get_bytes (a - STACK_BOTTOM) (length bs) page' = get_bytes (a - STACK_BOTTOM) (length bs) page"
    using assms(2,3) r by (intro nth_equalityI) (simp_all add: nth_get_bytes same_above_def)
  then show ?thesis using assms(1) by (simp add: on_stack_def)
qed

lemma poke_ok:
  assumes "STACK_BOTTOM \<le> esp" "esp + length bs \<le> STACK_TOP" "length page = PGSIZE"
  obtains page' where "poke esp bs page = Some page'" "length page' = PGSIZE" "on_stack esp bs page'"
    "same_above (esp + length bs) page page'"
proof -
  let ?o = "esp - STACK_BOTTOM"
  have fit: "?o + length bs \<le> length page" using assms by (simp add: stack_consts)
  have "same_above (esp + length bs) page (put_bytes ?o bs page)"
    using fit assms(1) by (auto simp: same_above_def nth_put_bytes)
  then show thesis
    using that[of "put_bytes ?o bs page"] assms fit by (simp add: poke_def on_stack_def)
qed

section \<open>Strings\<close>

definition strings_size :: "u8 list list \<Rightarrow> nat" where
  "strings_size ts = sum_list (map (\<lambda>t. length t + 1) ts)"

lemma push_strings_ok:
  assumes "STACK_BOTTOM + strings_size ts \<le> esp" "esp \<le> STACK_TOP" "length page = PGSIZE"
    "length ts \<le> length as" "0 \<notin> set as"
  shows "\<exists>ps page' as'. push_strings_loop ts argv sz as esp page = Some (Some (argv @ ps, esp - strings_size ts, page'), as') \<and>
    length ps = length ts \<and> length page' = PGSIZE \<and> same_above esp page page' \<and>
    (\<forall>i < length ts. esp - strings_size ts \<le> ps ! i \<and> on_stack (ps ! i) (ts ! i @ [0]) page')"
  using assms
proof (induction ts arbitrary: argv sz as esp page)
  case Nil
  then show ?case by (simp add: strings_size_def)
next
  case (Cons t ts)
  let ?e = "esp - (length t + 1)"
  have sz: "strings_size (t # ts) = length t + 1 + strings_size ts" by (simp add: strings_size_def)
  have b: "STACK_BOTTOM \<le> ?e" "?e + length (t @ [0]) = esp" "length t + 1 \<le> esp"
    using Cons.prems(1) sz by (simp_all add: stack_consts)
  obtain page1 where p1: "poke ?e (t @ [0]) page = Some page1" "length page1 = PGSIZE" "on_stack ?e (t @ [0]) page1"
      "same_above esp page page1"
    using poke_ok[of ?e "t @ [0]" page] b Cons.prems(2,3) by auto
  define r where "r = (if length (argv @ [?e]) \<ge> sz then (as \<noteq> [] \<and> hd as \<noteq> 0, sz * 2, tl as) else (True, sz, as))"
  obtain sz1 as1 where r: "r = (True, sz1, as1)" "length ts \<le> length as1" "0 \<notin> set as1"
    using Cons.prems(4,5) by (cases as; cases "length (argv @ [?e]) \<ge> sz") (auto simp: r_def)
  obtain ps page2 as2 where ih: "push_strings_loop ts (argv @ [?e]) sz1 as1 ?e page1 =
      Some (Some ((argv @ [?e]) @ ps, ?e - strings_size ts, page2), as2)"
    "length ps = length ts" "length page2 = PGSIZE" "same_above ?e page1 page2"
    "\<forall>i < length ts. ?e - strings_size ts \<le> ps ! i \<and> on_stack (ps ! i) (ts ! i @ [0]) page2"
  proof -
    have "STACK_BOTTOM + strings_size ts \<le> ?e" "?e \<le> STACK_TOP" using Cons.prems(1,2) sz by linarith+
    from Cons.IH[OF this p1(2) r(2,3), of "argv @ [?e]" sz1] show thesis using that by blast
  qed
  have "push_strings_loop (t # ts) argv sz as esp page = push_strings_loop ts (argv @ [?e]) sz1 as1 ?e page1"
    using p1(1) b(3) r(1) unfolding r_def by (simp add: Let_def)
  moreover have "on_stack ?e (t @ [0]) page2"
    by (rule on_stack_above[OF p1(3) ih(4)]) (simp_all add: p1(2))
  moreover have "same_above esp page page2"
    by (rule same_above_trans[OF p1(4) ih(4)]) simp
  ultimately show ?case
    using ih sz by (intro exI[of _ "?e # ps"] exI[of _ page2] exI[of _ as2]) (auto simp: nth_Cons split: nat.split)
qed

section \<open>Words\<close>

lemma push_words_ok:
  assumes "STACK_BOTTOM + 4 * length ws \<le> esp" "esp \<le> STACK_TOP" "length page = PGSIZE"
  shows "\<exists>page'. push_words_loop ws esp page = Some (esp - 4 * length ws, page') \<and> length page' = PGSIZE \<and>
    same_above esp page page' \<and>
    (\<forall>i < length ws. on_stack (esp - 4 * Suc i) (enc32 (of_nat (ws ! i))) page')"
  using assms
proof (induction ws arbitrary: esp page)
  case Nil
  then show ?case by simp
next
  case (Cons w ws)
  obtain page1 where p1: "poke (esp - 4) (enc32 (of_nat w)) page = Some page1" "length page1 = PGSIZE"
      "on_stack (esp - 4) (enc32 (of_nat w)) page1" "same_above esp page page1"
  proof -
    have "STACK_BOTTOM \<le> esp - 4" "esp - 4 + length (enc32 (of_nat w)) = esp"
      using Cons.prems(1) by (simp_all add: stack_consts)
    then show thesis using poke_ok[of "esp - 4" "enc32 (of_nat w)" page] Cons.prems(2,3) that by metis
  qed
  obtain page2 where ih: "push_words_loop ws (esp - 4) page1 = Some (esp - 4 - 4 * length ws, page2)" "length page2 = PGSIZE"
      "same_above (esp - 4) page1 page2" "\<forall>i < length ws. on_stack (esp - 4 - 4 * Suc i) (enc32 (of_nat (ws ! i))) page2"
  proof -
    have "STACK_BOTTOM + 4 * length ws \<le> esp - 4" "esp - 4 \<le> STACK_TOP" using Cons.prems(1,2) by simp_all
    from Cons.IH[OF this p1(2)] show thesis using that by blast
  qed
  have "on_stack (esp - 4) (enc32 (of_nat w)) page2"
    by (rule on_stack_above[OF p1(3) ih(3)]) (simp_all add: p1(2))
  moreover have "same_above esp page page2"
    by (rule same_above_trans[OF p1(4) ih(3)]) simp
  ultimately show ?case
    using ih p1(1) by (intro exI[of _ page2]) (auto simp: nth_Cons split: nat.split)
qed


section \<open>The whole stack\<close>

lemma nth_rev_words: "i \<le> n \<Longrightarrow> length ps = n \<Longrightarrow> rev (ps @ [0]) ! i = (if i = 0 then 0 else ps ! (n - i))"
  by (cases i) (simp_all add: rev_nth)

text \<open>The room that the arguments need, at most three bytes of alignment included.\<close>

definition args_size :: "u8 list list \<Rightarrow> nat" where
  "args_size ts = strings_size ts + 3 + 4 * (length ts + 1) + 12"

lemma push_align_ok:
  assumes "STACK_BOTTOM + 3 \<le> esp" "esp \<le> STACK_TOP" "length page = PGSIZE"
  obtains page' where "(if esp mod WORD_SIZE \<noteq> 0
      then do { page \<leftarrow> poke (esp - esp mod WORD_SIZE) (replicate (esp mod WORD_SIZE) 0) page; Some (esp - esp mod WORD_SIZE, page) }
      else Some (esp, page)) = Some (esp - esp mod WORD_SIZE, page')" "length page' = PGSIZE" "same_above esp page page'"
proof (cases "esp mod WORD_SIZE = 0")
  case False
  have m: "esp mod WORD_SIZE \<le> 3" by (simp add: WORD_SIZE_def)
  then have "STACK_BOTTOM \<le> esp - esp mod WORD_SIZE" "esp - esp mod WORD_SIZE + length (replicate (esp mod WORD_SIZE) (0 :: u8)) = esp"
    using assms(1) by simp_all
  then show thesis
    using poke_ok[of "esp - esp mod WORD_SIZE" "replicate (esp mod WORD_SIZE) 0" page] assms(2,3) that False by force
qed (use that[of page] assms(3) in simp)


lemma push_args_steps:
  assumes "push_strings_loop ts [] DEFAULT_ARGV as STACK_TOP page = Some (Some (ps, e1, p1), as1)"
    "(if e1 mod WORD_SIZE \<noteq> 0
      then do { page \<leftarrow> poke (e1 - e1 mod WORD_SIZE) (replicate (e1 mod WORD_SIZE) 0) p1; Some (e1 - e1 mod WORD_SIZE, page) }
      else Some (e1, p1)) = Some (e2, p2)"
    "push_words_loop (rev (ps @ [0])) e2 p2 = Some (e3, p3)"
    "push_words_loop [e3, length ps, 0] e3 p3 = Some (esp, p4)"
  shows "push_args ts as page = Some (Some (esp, p4), as1)"
  unfolding push_args_def assms(1)
  by (simp only: Option.bind.simps prod.case option.case Let_def assms(2) assms(3) assms(4))

lemma push_args_phases:
  assumes "args_size ts \<le> PGSIZE" "length page = PGSIZE" "length ts \<le> length as" "0 \<notin> set as"
  obtains ps e1 e2 e3 esp p1 p2 p3 p4 as1 where
    "push_args ts as page = Some (Some (esp, p4), as1)" "length ps = length ts" "esp mod 4 = 0"
    "e2 \<le> e1" "e2 = e3 + 4 * (length ts + 1)" "e3 = esp + 12"
    "\<forall>i < length ts. e1 \<le> ps ! i \<and> on_stack (ps ! i) (ts ! i @ [0]) p1" "length p1 = PGSIZE"
    "same_above e1 p1 p2" "length p2 = PGSIZE"
    "\<forall>i < length ts + 1. on_stack (e2 - 4 * Suc i) (enc32 (of_nat (rev (ps @ [0]) ! i))) p3"
    "same_above e2 p2 p3" "length p3 = PGSIZE"
    "\<forall>i < 3. on_stack (e3 - 4 * Suc i) (enc32 (of_nat ([e3, length ts, 0] ! i))) p4"
    "same_above e3 p3 p4"
proof -
  let ?n = "length ts"
  define e1 where "e1 = STACK_TOP - strings_size ts"
  define e2 where "e2 = e1 - e1 mod WORD_SIZE"
  define e3 where "e3 = e2 - 4 * (?n + 1)"
  define esp where "esp = e3 - 12"
  have m: "e1 mod WORD_SIZE \<le> 3" by (simp add: WORD_SIZE_def)
  have "strings_size ts + 4 * ?n + 19 + STACK_BOTTOM \<le> STACK_TOP"
    using assms(1) by (simp add: args_size_def stack_consts)
  then have e: "e2 \<le> e1" "e1 \<le> e2 + 3" "e2 = e3 + 4 * (?n + 1)" "e3 = esp + 12" "STACK_BOTTOM \<le> esp"
      "e1 \<le> STACK_TOP" "STACK_BOTTOM + strings_size ts \<le> STACK_TOP"
    using m unfolding e1_def[symmetric] by (simp_all add: e1_def e2_def e3_def esp_def)
  have "e2 mod 4 = 0" by (simp add: e2_def WORD_SIZE_def minus_mod_eq_mult_div)
  then have al: "esp mod 4 = 0" using e(3,4) by (simp add: mod_add_eq[symmetric])
  obtain ps p1 as1 where s: "push_strings_loop ts [] DEFAULT_ARGV as STACK_TOP page = Some (Some (ps, e1, p1), as1)"
    "length ps = ?n" "length p1 = PGSIZE" "\<forall>i < ?n. e1 \<le> ps ! i \<and> on_stack (ps ! i) (ts ! i @ [0]) p1"
    using push_strings_ok[OF e(7) order_refl assms(2-4), of "[]" DEFAULT_ARGV] unfolding e1_def by auto
  have b: "STACK_BOTTOM + 3 \<le> e1" "STACK_BOTTOM + 4 * length (rev (ps @ [0])) \<le> e2" "e2 \<le> STACK_TOP"
    "STACK_BOTTOM + 4 * length [e3, ?n, 0] \<le> e3" "e3 \<le> STACK_TOP"
    using e s(2) by simp_all
  obtain p2 where a: "(if e1 mod WORD_SIZE \<noteq> 0
      then do { page \<leftarrow> poke e2 (replicate (e1 mod WORD_SIZE) 0) p1; Some (e2, page) }
      else Some (e1, p1)) = Some (e2, p2)" "length p2 = PGSIZE" "same_above e1 p1 p2"
    unfolding e2_def by (rule push_align_ok[OF b(1) e(6) s(3)])
  obtain p3 where w: "push_words_loop (rev (ps @ [0])) e2 p2 = Some (e3, p3)" "length p3 = PGSIZE" "same_above e2 p2 p3"
    "\<forall>i < ?n + 1. on_stack (e2 - 4 * Suc i) (enc32 (of_nat (rev (ps @ [0]) ! i))) p3"
    using push_words_ok[OF b(2,3) a(2)] s(2) unfolding e3_def by auto
  obtain p4 where t: "push_words_loop [e3, ?n, 0] e3 p3 = Some (esp, p4)" "length p4 = PGSIZE" "same_above e3 p3 p4"
    "\<forall>i < 3. on_stack (e3 - 4 * Suc i) (enc32 (of_nat ([e3, ?n, 0] ! i))) p4"
    using push_words_ok[OF b(4,5) w(2)] unfolding esp_def by auto
  have "push_args ts as page = Some (Some (esp, p4), as1)"
    by (rule push_args_steps[OF s(1) a(1)[unfolded e2_def] w(1)[unfolded e2_def] t(1)[folded s(2)]])
  from that[OF this s(2) al e(1,3,4) s(4,3) a(3,2) w(4,3,2) t(4,3)] show thesis .
qed

text \<open>
  C23: The initial stack of a program.  When the arguments fit in the stack page, \<open>push_args\<close>
  leaves a stack pointer that is a multiple of four, with a zero return address, \<open>argc\<close> and
  \<open>argv\<close> above it; \<open>argv\<close> points to the words that follow, which are the addresses of the
  arguments in their order and a null pointer, and at each address lies the argument with its
  terminating zero.  The array of the addresses grows by \<open>realloc\<close>, whose results are \<open>as\<close>; none of
  them fails.
\<close>

theorem push_args_layout:
  assumes "args_size ts \<le> PGSIZE" "length page = PGSIZE" "length ts \<le> length as" "0 \<notin> set as"
  shows "\<exists>esp page' as' ps. push_args ts as page = Some (Some (esp, page'), as') \<and> esp mod 4 = 0 \<and> length ps = length ts \<and>
    on_stack esp (enc32 0) page' \<and> on_stack (esp + 4) (enc32 (of_nat (length ts))) page' \<and>
    on_stack (esp + 8) (enc32 (of_nat (esp + 12))) page' \<and>
    (\<forall>i < length ts. on_stack (esp + 12 + 4 * i) (enc32 (of_nat (ps ! i))) page' \<and> on_stack (ps ! i) (ts ! i @ [0]) page') \<and>
    on_stack (esp + 12 + 4 * length ts) (enc32 0) page'"
proof -
  let ?n = "length ts"
  obtain ps e1 e2 e3 esp p1 p2 p3 p4 as1 where r: "push_args ts as page = Some (Some (esp, p4), as1)" "length ps = ?n" "esp mod 4 = 0"
    and e: "e2 \<le> e1" "e2 = e3 + 4 * (?n + 1)" "e3 = esp + 12"
    and s: "\<forall>i < ?n. e1 \<le> ps ! i \<and> on_stack (ps ! i) (ts ! i @ [0]) p1" "length p1 = PGSIZE"
    and a: "same_above e1 p1 p2" "length p2 = PGSIZE"
    and w: "\<forall>i < ?n + 1. on_stack (e2 - 4 * Suc i) (enc32 (of_nat (rev (ps @ [0]) ! i))) p3" "same_above e2 p2 p3" "length p3 = PGSIZE"
    and t: "\<forall>i < 3. on_stack (e3 - 4 * Suc i) (enc32 (of_nat ([e3, ?n, 0] ! i))) p4" "same_above e3 p3 p4"
    by (rule push_args_phases[OF assms])
  have top: "on_stack esp (enc32 0) p4" "on_stack (esp + 4) (enc32 (of_nat ?n)) p4" "on_stack (esp + 8) (enc32 (of_nat (esp + 12))) p4"
    using t(1)[rule_format, of 2] t(1)[rule_format, of 1] t(1)[rule_format, of 0] e(3) by (simp_all add: numeral_eq_Suc)
  have ptr: "on_stack (esp + 12 + 4 * i) (enc32 (of_nat (ps ! i))) p4" if "i < ?n" for i
  proof -
    have "on_stack (e2 - 4 * Suc (?n - i)) (enc32 (of_nat (rev (ps @ [0]) ! (?n - i)))) p3"
      by (rule w(1)[rule_format]) simp
    moreover have "e2 - 4 * Suc (?n - i) = e3 + 4 * i" using e(2) that by simp
    ultimately have "on_stack (e3 + 4 * i) (enc32 (of_nat (ps ! i))) p3"
      using that r(2) nth_rev_words[of "?n - i" ?n ps] by (simp del: rev_append)
    from on_stack_above[OF this t(2) _ w(3)] show ?thesis using e(3) by simp
  qed
  have null: "on_stack (esp + 12 + 4 * ?n) (enc32 0) p4"
  proof -
    have "on_stack (e3 + 4 * ?n) (enc32 0) p3" using w(1)[rule_format, of 0] e(2) r(2) by (simp add: nth_rev_words)
    from on_stack_above[OF this t(2) _ w(3)] show ?thesis using e(3) by simp
  qed
  have str: "on_stack (ps ! i) (ts ! i @ [0]) p4" if "i < ?n" for i
  proof -
    have p: "e1 \<le> ps ! i" "on_stack (ps ! i) (ts ! i @ [0]) p1" using s(1) that by auto
    have "on_stack (ps ! i) (ts ! i @ [0]) p2" by (rule on_stack_above[OF p(2) a(1) p(1) s(2)])
    then have "on_stack (ps ! i) (ts ! i @ [0]) p3" by (rule on_stack_above[OF _ w(2) _ a(2)]) (use p(1) e in simp)
    then show ?thesis by (rule on_stack_above[OF _ t(2) _ w(3)]) (use p(1) e in simp)
  qed
  show ?thesis
    by (intro exI[of _ esp] exI[of _ p4] exI[of _ as1] exI[of _ ps] conjI allI impI)
      (rule r top ptr null str | assumption)+
qed

theorem push_args_layout_witness:
  "\<exists>esp page' as'. push_args [[108, 115], [45, 108]] [1, 2] (replicate PGSIZE 0) = Some (Some (esp, page'), as') \<and>
     esp mod 4 = 0 \<and> on_stack (esp + 4) (enc32 2) page'"
  using push_args_layout[of "[[108, 115], [45, 108]]" "replicate PGSIZE 0" "[1, 2]"]
  by (auto simp: args_size_def strings_size_def PGSIZE_def)

end
