(* ===== verification/KHash.thy ===== *)
theory KHash imports KListSort KString KBlock begin

text \<open>
  The hash table, \<open>lib/kernel/hash.c\<close>, over the intrusive lists of \<open>KList\<close>.  A hash element is
  the address of the list element that it begins with.  The table's \<open>hash\<close> and \<open>less\<close> functions
  (with \<open>aux\<close> applied) are members of the record, as they are function pointers of
  \<open>struct hash\<close>; they read the contents of the elements, which no operation changes.  The array
  \<open>buckets\<close> holds a \<open>struct list\<close> of 16 bytes for each bucket.  \<open>coming\<close> are the addresses that
  the next calls of \<open>malloc\<close> return (0 is a failure), \<open>freed\<close> the blocks given back.
\<close>

section \<open>State\<close>

record htab =
  elem_cnt :: u32
  bucket_cnt :: u32
  buckets :: addr
  hash_fun :: "addr \<Rightarrow> u32"
  less_fun :: "addr \<Rightarrow> addr \<Rightarrow> bool"

record hstate =
  links :: heap
  coming :: "addr list"
  freed :: "addr list"

record hash_iterator =
  i_bucket :: addr
  i_elem :: addr

definition hash_malloc :: "hstate \<Rightarrow> addr \<times> hstate" where
  "hash_malloc s = (case coming s of [] \<Rightarrow> (0, s) | a # as \<Rightarrow> (a, s\<lparr>coming := as\<rparr>))"

abbreviation (input) bucket_at :: "addr \<Rightarrow> nat \<Rightarrow> addr" where
  "bucket_at b i \<equiv> b + 16 * i"

section \<open>Finding\<close>

definition find_bucket :: "htab \<Rightarrow> addr \<Rightarrow> addr" where
  "find_bucket h e = bucket_at (buckets h) (unat (hash_fun h e AND (bucket_cnt h - 1)))"

definition hash_eq :: "htab \<Rightarrow> addr \<Rightarrow> addr \<Rightarrow> bool" where
  "hash_eq h hi e \<longleftrightarrow> \<not> less_fun h hi e \<and> \<not> less_fun h e hi"

partial_function (option) find_elem_loop :: "htab \<Rightarrow> addr \<Rightarrow> addr \<Rightarrow> addr \<Rightarrow> heap \<Rightarrow> addr option" where
  "find_elem_loop h i stop e hp =
     (if i = stop then Some 0
      else if hash_eq h i e then Some i
      else do { i \<leftarrow> list_next i hp; find_elem_loop h i stop e hp })"

definition find_elem :: "htab \<Rightarrow> addr \<Rightarrow> addr \<Rightarrow> heap \<Rightarrow> addr option" where
  "find_elem h bucket e hp = do {
     i \<leftarrow> list_begin bucket hp;
     stop \<leftarrow> list_end bucket;
     find_elem_loop h i stop e hp
   }"

definition hash_find :: "addr \<Rightarrow> htab \<Rightarrow> heap \<Rightarrow> addr option" where
  "hash_find e h hp = find_elem h (find_bucket h e) e hp"

section \<open>Changing the number of buckets\<close>

definition turn_off_least_1bit :: "u32 \<Rightarrow> u32" where
  "turn_off_least_1bit x = x AND (x - 1)"

definition is_power_of_2 :: "u32 \<Rightarrow> bool" where
  "is_power_of_2 x \<longleftrightarrow> x \<noteq> 0 \<and> turn_off_least_1bit x = 0"

definition MIN_ELEMS_PER_BUCKET :: u32 where "MIN_ELEMS_PER_BUCKET = 1"
definition BEST_ELEMS_PER_BUCKET :: u32 where "BEST_ELEMS_PER_BUCKET = 2"
definition MAX_ELEMS_PER_BUCKET :: u32 where "MAX_ELEMS_PER_BUCKET = 4"

partial_function (option) power_loop :: "u32 \<Rightarrow> u32 option" where
  "power_loop x = (if is_power_of_2 x then Some x else power_loop (turn_off_least_1bit x))"

fun init_buckets :: "addr \<Rightarrow> nat list \<Rightarrow> heap \<Rightarrow> heap option" where
  "init_buckets b [] hp = Some hp"
| "init_buckets b (i # is) hp = do { hp \<leftarrow> list_init (bucket_at b i) hp; init_buckets b is hp }"

text \<open>Moving the elements of one old bucket, from \<open>elem\<close> on.\<close>

partial_function (option) move_elems :: "htab \<Rightarrow> addr \<Rightarrow> addr \<Rightarrow> heap \<Rightarrow> heap option" where
  "move_elems h elem stop hp =
     (if elem = stop then Some hp
      else do {
        let new_bucket = find_bucket h elem;
        nxt' \<leftarrow> list_next elem hp;
        (_, hp) \<leftarrow> list_remove elem hp;
        hp \<leftarrow> list_push_front new_bucket elem hp;
        move_elems h nxt' stop hp
      })"

fun move_buckets :: "htab \<Rightarrow> addr \<Rightarrow> nat list \<Rightarrow> heap \<Rightarrow> heap option" where
  "move_buckets h old [] hp = Some hp"
| "move_buckets h old (i # is) hp = do {
     let old_bucket = bucket_at old i;
     elem \<leftarrow> list_begin old_bucket hp;
     stop \<leftarrow> list_end old_bucket;
     hp \<leftarrow> move_elems h elem stop hp;
     move_buckets h old is hp
   }"

definition rehash :: "htab \<Rightarrow> hstate \<Rightarrow> (htab \<times> hstate) option" where
  "rehash h s = do {
     let old_buckets = buckets h;
     let old_bucket_cnt = bucket_cnt h;
     let new_bucket_cnt = elem_cnt h div BEST_ELEMS_PER_BUCKET;
     let new_bucket_cnt = (if new_bucket_cnt < 4 then 4 else new_bucket_cnt);
     new_bucket_cnt \<leftarrow> power_loop new_bucket_cnt;
     if new_bucket_cnt = old_bucket_cnt then Some (h, s)
     else do {
       let (new_buckets, s) = hash_malloc s;
       if new_buckets = 0 then Some (h, s)
       else do {
         hp \<leftarrow> init_buckets new_buckets [0..<unat new_bucket_cnt] (links s);
         let h = h\<lparr>buckets := new_buckets, bucket_cnt := new_bucket_cnt\<rparr>;
         hp \<leftarrow> move_buckets h old_buckets [0..<unat old_bucket_cnt] hp;
         Some (h, s\<lparr>links := hp, freed := old_buckets # freed s\<rparr>)
       }
     }
   }"

section \<open>Insertion and removal\<close>

definition insert_elem :: "htab \<Rightarrow> addr \<Rightarrow> addr \<Rightarrow> hstate \<Rightarrow> (htab \<times> hstate) option" where
  "insert_elem h bucket e s = do {
     let h = h\<lparr>elem_cnt := elem_cnt h + 1\<rparr>;
     hp \<leftarrow> list_push_front bucket e (links s);
     Some (h, s\<lparr>links := hp\<rparr>)
   }"

definition remove_elem :: "htab \<Rightarrow> addr \<Rightarrow> hstate \<Rightarrow> (htab \<times> hstate) option" where
  "remove_elem h e s = do {
     let h = h\<lparr>elem_cnt := elem_cnt h - 1\<rparr>;
     (_, hp) \<leftarrow> list_remove e (links s);
     Some (h, s\<lparr>links := hp\<rparr>)
   }"

definition hash_insert :: "addr \<Rightarrow> htab \<Rightarrow> hstate \<Rightarrow> (addr \<times> htab \<times> hstate) option" where
  "hash_insert new h s = do {
     let bucket = find_bucket h new;
     old \<leftarrow> find_elem h bucket new (links s);
     (h, s) \<leftarrow> (if old = 0 then insert_elem h bucket new s else Some (h, s));
     (h, s) \<leftarrow> rehash h s;
     Some (old, h, s)
   }"

definition hash_replace :: "addr \<Rightarrow> htab \<Rightarrow> hstate \<Rightarrow> (addr \<times> htab \<times> hstate) option" where
  "hash_replace new h s = do {
     let bucket = find_bucket h new;
     old \<leftarrow> find_elem h bucket new (links s);
     (h, s) \<leftarrow> (if old \<noteq> 0 then remove_elem h old s else Some (h, s));
     (h, s) \<leftarrow> insert_elem h bucket new s;
     (h, s) \<leftarrow> rehash h s;
     Some (old, h, s)
   }"

definition hash_delete :: "addr \<Rightarrow> htab \<Rightarrow> hstate \<Rightarrow> (addr \<times> htab \<times> hstate) option" where
  "hash_delete e h s = do {
     found \<leftarrow> find_elem h (find_bucket h e) e (links s);
     (h, s) \<leftarrow>
       (if found \<noteq> 0 then do { (h, s) \<leftarrow> remove_elem h found s; rehash h s } else Some (h, s));
     Some (found, h, s)
   }"

section \<open>Life cycle\<close>

text \<open>
  The destructor, and the action of \<open>hash_apply\<close>, may change what the elements are embedded in,
  the state \<open>'w\<close>; the comments of the code forbid them to change the table.
\<close>

partial_function (option) clear_bucket ::
  "(addr \<Rightarrow> 'w \<Rightarrow> 'w) \<Rightarrow> addr \<Rightarrow> heap \<Rightarrow> 'w \<Rightarrow> (heap \<times> 'w) option" where
  "clear_bucket destructor bucket hp w = do {
     em \<leftarrow> list_empty bucket hp;
     if em then Some (hp, w)
     else do {
       (e, hp) \<leftarrow> list_pop_front bucket hp;
       clear_bucket destructor bucket hp (destructor e w)
     }
   }"

fun clear_buckets ::
  "(addr \<Rightarrow> 'w \<Rightarrow> 'w) option \<Rightarrow> addr \<Rightarrow> nat list \<Rightarrow> heap \<Rightarrow> 'w \<Rightarrow> (heap \<times> 'w) option" where
  "clear_buckets destructor b [] hp w = Some (hp, w)"
| "clear_buckets destructor b (i # is) hp w = do {
     let bucket = bucket_at b i;
     (hp, w) \<leftarrow> (case destructor of None \<Rightarrow> Some (hp, w) | Some d \<Rightarrow> clear_bucket d bucket hp w);
     hp \<leftarrow> list_init bucket hp;
     clear_buckets destructor b is hp w
   }"

definition hash_clear ::
  "(addr \<Rightarrow> 'w \<Rightarrow> 'w) option \<Rightarrow> htab \<Rightarrow> hstate \<Rightarrow> 'w \<Rightarrow> (htab \<times> hstate \<times> 'w) option" where
  "hash_clear destructor h s w = do {
     (hp, w) \<leftarrow> clear_buckets destructor (buckets h) [0..<unat (bucket_cnt h)] (links s) w;
     Some (h\<lparr>elem_cnt := 0\<rparr>, s\<lparr>links := hp\<rparr>, w)
   }"

definition hash_init :: "(addr \<Rightarrow> u32) \<Rightarrow> (addr \<Rightarrow> addr \<Rightarrow> bool) \<Rightarrow> hstate \<Rightarrow> (bool \<times> htab \<times> hstate) option" where
  "hash_init hashf lessf s = do {
     let (b, s) = hash_malloc s;
     let h = \<lparr>elem_cnt = 0, bucket_cnt = 4, buckets = b, hash_fun = hashf, less_fun = lessf\<rparr>;
     if b \<noteq> 0 then do {
       (h, s, _) \<leftarrow> hash_clear None h s ();
       Some (True, h, s)
     }
     else Some (False, h, s)
   }"

definition hash_destroy ::
  "(addr \<Rightarrow> 'w \<Rightarrow> 'w) option \<Rightarrow> htab \<Rightarrow> hstate \<Rightarrow> 'w \<Rightarrow> (htab \<times> hstate \<times> 'w) option" where
  "hash_destroy destructor h s w = do {
     (h, s, w) \<leftarrow> (if destructor \<noteq> None then hash_clear destructor h s w else Some (h, s, w));
     Some (h, s\<lparr>freed := buckets h # freed s\<rparr>, w)
   }"

section \<open>Iteration\<close>

partial_function (option) apply_bucket ::
  "(addr \<Rightarrow> 'w \<Rightarrow> 'w) \<Rightarrow> addr \<Rightarrow> addr \<Rightarrow> heap \<Rightarrow> 'w \<Rightarrow> 'w option" where
  "apply_bucket action elem stop hp w =
     (if elem = stop then Some w
      else do {
        nxt' \<leftarrow> list_next elem hp;
        apply_bucket action nxt' stop hp (action elem w)
      })"

fun apply_buckets :: "(addr \<Rightarrow> 'w \<Rightarrow> 'w) \<Rightarrow> addr \<Rightarrow> nat list \<Rightarrow> heap \<Rightarrow> 'w \<Rightarrow> 'w option" where
  "apply_buckets action b [] hp w = Some w"
| "apply_buckets action b (i # is) hp w = do {
     let bucket = bucket_at b i;
     elem \<leftarrow> list_begin bucket hp;
     stop \<leftarrow> list_end bucket;
     w \<leftarrow> apply_bucket action elem stop hp w;
     apply_buckets action b is hp w
   }"

definition hash_apply :: "(addr \<Rightarrow> 'w \<Rightarrow> 'w) \<Rightarrow> htab \<Rightarrow> heap \<Rightarrow> 'w \<Rightarrow> 'w option" where
  "hash_apply action h hp w = apply_buckets action (buckets h) [0..<unat (bucket_cnt h)] hp w"

definition hash_first :: "htab \<Rightarrow> hash_iterator option" where
  "hash_first h = do {
     let bucket = buckets h;
     e \<leftarrow> list_head bucket;
     Some \<lparr>i_bucket = bucket, i_elem = e\<rparr>
   }"

partial_function (option) hash_next_loop :: "htab \<Rightarrow> heap \<Rightarrow> hash_iterator \<Rightarrow> hash_iterator option" where
  "hash_next_loop h hp i = do {
     stop \<leftarrow> list_end (i_bucket i);
     if i_elem i = stop then do {
       let i = i\<lparr>i_bucket := i_bucket i + 16\<rparr>;
       if i_bucket i \<ge> bucket_at (buckets h) (unat (bucket_cnt h)) then Some (i\<lparr>i_elem := 0\<rparr>)
       else do {
         e \<leftarrow> list_begin (i_bucket i) hp;
         hash_next_loop h hp (i\<lparr>i_elem := e\<rparr>)
       }
     }
     else Some i
   }"

definition hash_next :: "htab \<Rightarrow> heap \<Rightarrow> hash_iterator \<Rightarrow> (addr \<times> hash_iterator) option" where
  "hash_next h hp i = do {
     e \<leftarrow> list_next (i_elem i) hp;
     i \<leftarrow> hash_next_loop h hp (i\<lparr>i_elem := e\<rparr>);
     Some (i_elem i, i)
   }"

definition hash_cur :: "hash_iterator \<Rightarrow> addr" where
  "hash_cur i = i_elem i"

definition hash_size :: "htab \<Rightarrow> u32" where
  "hash_size h = elem_cnt h"

definition hash_empty :: "htab \<Rightarrow> bool" where
  "hash_empty h \<longleftrightarrow> elem_cnt h = 0"

section \<open>Hash functions\<close>

definition FNV_32_PRIME :: u32 where "FNV_32_PRIME = 16777619"
definition FNV_32_BASIS :: u32 where "FNV_32_BASIS = 2166136261"

fun hash_bytes_loop :: "u32 \<Rightarrow> addr \<Rightarrow> nat \<Rightarrow> memory \<Rightarrow> u32" where
  "hash_bytes_loop hash buf 0 m = hash"
| "hash_bytes_loop hash buf (Suc size') m =
     hash_bytes_loop ((hash * FNV_32_PRIME) XOR ucast (m buf)) (buf + 1) size' m"

definition hash_bytes :: "addr \<Rightarrow> nat \<Rightarrow> memory \<Rightarrow> u32 option" where
  "hash_bytes buf size' m = do { ASSERT (buf \<noteq> 0); Some (hash_bytes_loop FNV_32_BASIS buf size' m) }"

partial_function (option) hash_string_loop :: "u32 \<Rightarrow> addr \<Rightarrow> memory \<Rightarrow> u32 option" where
  "hash_string_loop hash s m =
     (if m s \<noteq> 0 then hash_string_loop ((hash * FNV_32_PRIME) XOR ucast (m s)) (s + 1) m
      else Some hash)"

definition hash_string :: "addr \<Rightarrow> memory \<Rightarrow> u32 option" where
  "hash_string s m = do { ASSERT (s \<noteq> 0); hash_string_loop FNV_32_BASIS s m }"

text \<open>\<open>hash_int\<close> hashes the bytes of its argument, which lies at some address \<open>a\<close> of the stack.\<close>

definition hash_int :: "addr \<Rightarrow> u32 \<Rightarrow> u32 option" where
  "hash_int a i = hash_bytes a 4 (\<lambda>p. enc32 i ! (p - a))"

end
