(* ===== verification/KHashSet.thy ===== *)
theory KHashSet imports KHash begin

text \<open>
  The hash table as a set: facts of families of lists that share one store, of the loops of
  \<open>rehash\<close>, and the refinement of the table's operations to operations on the set of its elements.
\<close>

section \<open>Families of lists\<close>

text \<open>Every head in \<open>L\<close> holds the list that \<open>f\<close> gives, and no two lists share a cell.\<close>

definition lists_on :: "heap \<Rightarrow> addr set \<Rightarrow> (addr \<Rightarrow> addr list) \<Rightarrow> bool" where
  "lists_on hp L f \<longleftrightarrow> (\<forall>l \<in> L. list_rep hp l (f l)) \<and>
     (\<forall>l \<in> L. \<forall>m \<in> L. l \<noteq> m \<longrightarrow> cells l (f l) \<inter> cells m (f m) = {})"

definition all_cells :: "addr set \<Rightarrow> (addr \<Rightarrow> addr list) \<Rightarrow> addr set" where
  "all_cells L f = (\<Union>l \<in> L. cells l (f l))"

definition elems_of :: "addr set \<Rightarrow> (addr \<Rightarrow> addr list) \<Rightarrow> addr set" where
  "elems_of L f = (\<Union>l \<in> L. set (f l))"

lemma lists_onD: "lists_on hp L f \<Longrightarrow> l \<in> L \<Longrightarrow> list_rep hp l (f l)"
  by (simp add: lists_on_def)

lemma lists_on_subset: "lists_on hp L f \<Longrightarrow> M \<subseteq> L \<Longrightarrow> lists_on hp M f"
  unfolding lists_on_def by (meson subsetD)

lemma lists_on_disjoint: "lists_on hp L f \<Longrightarrow> l \<in> L \<Longrightarrow> m \<in> L \<Longrightarrow> l \<noteq> m \<Longrightarrow> cells l (f l) \<inter> cells m (f m) = {}"
  by (simp add: lists_on_def)

text \<open>An operation on one list of a family that touches only the cells of that list.\<close>

lemma lists_on_update:
  assumes "lists_on hp L f" "list_rep hp' l xs" "same_outside (cells l xs) hp hp'"
    "\<forall>m \<in> L. m \<noteq> l \<longrightarrow> cells m (f m) \<inter> cells l xs = {}"
  shows "lists_on hp' (insert l L) (f(l := xs))"
  unfolding lists_on_def
proof (intro conjI ballI impI)
  fix m assume "m \<in> insert l L"
  then show "list_rep hp' m ((f(l := xs)) m)"
    using assms(2,4) list_rep_frame[OF lists_onD[OF assms(1)] assms(3), of m] by (cases "m = l") auto
next
  fix k m assume "k \<in> insert l L" "m \<in> insert l L" "k \<noteq> m"
  then show "cells k ((f(l := xs)) k) \<inter> cells m ((f(l := xs)) m) = {}"
    using assms(4) lists_on_disjoint[OF assms(1), of k m] by (auto simp: Int_commute)
qed

lemma push_front_on:
  assumes "lists_on hp L f" "l \<in> L" "e \<noteq> 0" "e \<notin> all_cells L f"
  obtains hp' where "list_push_front l e hp = Some hp'" "lists_on hp' L (f(l := e # f l))"
proof -
  have "e \<notin> cells l (f l)" using assms(2,4) by (auto simp: all_cells_def)
  from list_push_front_rep[OF lists_onD[OF assms(1,2)] assms(3) this]
  obtain hp' where r: "list_push_front l e hp = Some hp'" "list_rep hp' l (e # f l)"
    "same_outside (cells l (e # f l)) hp hp'" .
  have "\<forall>m \<in> L. m \<noteq> l \<longrightarrow> cells m (f m) \<inter> cells l (e # f l) = {}"
    using lists_on_disjoint[OF assms(1) _ assms(2)] assms(4) by (auto simp: cells_def all_cells_def)
  from that[OF r(1)] lists_on_update[OF assms(1) r(2,3) this] assms(2) show thesis
    by (simp add: insert_absorb)
qed

lemma remove_on:
  assumes "lists_on hp L f" "l \<in> L" "f l = xs @ e # ys"
  obtains hp' where "list_remove e hp = Some (hd (ys @ [tail_of l]), hp')" "lists_on hp' L (f(l := xs @ ys))"
proof -
  have "list_rep hp l (xs @ e # ys)" using lists_onD[OF assms(1,2)] assms(3) by simp
  from list_remove_rep[OF this] obtain hp' where r: "list_remove e hp = Some (hd (ys @ [tail_of l]), hp')"
    "list_rep hp' l (xs @ ys)" "same_outside (cells l (xs @ ys)) hp hp'" by metis
  have "\<forall>m \<in> L. m \<noteq> l \<longrightarrow> cells m (f m) \<inter> cells l (xs @ ys) = {}"
  proof (intro ballI impI)
    fix m assume "m \<in> L" "m \<noteq> l"
    then have "cells m (f m) \<inter> cells l (f l) = {}" by (rule lists_on_disjoint[OF assms(1) _ assms(2)])
    then show "cells m (f m) \<inter> cells l (xs @ ys) = {}" using assms(3) by (auto simp: cells_def)
  qed
  from that[OF r(1)] lists_on_update[OF assms(1) r(2,3) this] assms(2) show thesis
    by (simp add: insert_absorb)
qed

lemma init_on:
  assumes "lists_on hp L f" "l \<noteq> 0" "cells l [] \<inter> all_cells (L - {l}) f = {}"
  obtains hp' where "list_init l hp = Some hp'" "lists_on hp' (insert l L) (f(l := []))"
proof -
  obtain hp' where r: "list_init l hp = Some hp'" "list_rep hp' l []" "same_outside (cells l []) hp hp'"
    by (rule list_init_rep[OF assms(2)])
  have "\<forall>m \<in> L. m \<noteq> l \<longrightarrow> cells m (f m) \<inter> cells l [] = {}"
    using assms(3) by (auto simp: all_cells_def)
  from that[OF r(1)] lists_on_update[OF assms(1) r(2,3) this] show thesis by simp
qed

section \<open>Searching a bucket\<close>

lemma find_elem_loop_rep:
  assumes "list_rep hp l xs" "xs = as @ bs"
  shows "find_elem_loop h (hd (bs @ [tail_of l])) (tail_of l) e hp =
    Some (case List.find (\<lambda>x. hash_eq h x e) bs of None \<Rightarrow> 0 | Some x \<Rightarrow> x)"
  using assms(2)
proof (induction bs arbitrary: as)
  case Nil
  then show ?case by (simp add: find_elem_loop.simps)
next
  case (Cons b bs)
  note st = list_step_rep[OF assms(1) Cons.prems]
  from Cons.IH[of "as @ [b]"] Cons.prems st show ?case
    by (subst find_elem_loop.simps) simp
qed

lemma find_elem_rep:
  "list_rep hp l xs \<Longrightarrow>
   find_elem h l e hp = Some (case List.find (\<lambda>x. hash_eq h x e) xs of None \<Rightarrow> 0 | Some x \<Rightarrow> x)"
  using find_elem_loop_rep[of hp l xs "[]" xs h e]
  by (simp add: find_elem_def list_begin_rep list_end_rep)

section \<open>The number of buckets\<close>

lemma and_pred_double: "0 < m \<Longrightarrow> (2 * m) AND (2 * m - 1) = 2 * (m AND (m - 1) :: nat)"
proof -
  assume "0 < m"
  then have "2 * m - 1 = 1 + 2 * (m - 1)" by simp
  then show ?thesis by (simp add: and_nat_rec[of "2 * m"])
qed

lemma and_pred_odd: "(2 * m + 1) AND (2 * m) = (2 * m :: nat)"
  by (subst and_nat_rec) simp

lemma and_pred_zero_power: "0 < n \<Longrightarrow> n AND (n - 1) = 0 \<Longrightarrow> \<exists>k. n = (2 :: nat) ^ k"
proof (induction n rule: less_induct)
  case (less n)
  show ?case
  proof (cases "even n")
    case True
    then obtain m where m: "n = 2 * m" "0 < m" "m < n" using less.prems(1) by auto
    then have "m AND (m - 1) = 0" using less.prems(2) and_pred_double by auto
    then obtain k where "m = 2 ^ k" using less.IH m by blast
    then show ?thesis using m(1) by (intro exI[of _ "Suc k"]) simp
  next
    case False
    then obtain m where m: "n = 2 * m + 1" by (elim oddE)
    then have "m = 0" using less.prems(2) and_pred_odd[of m] by simp
    then show ?thesis using m by (intro exI[of _ 0]) simp
  qed
qed

lemma and_pred_below: "(n AND (n - 1) :: nat) \<le> n - 1"
  unfolding and_nat_def by (simp add: nat_le_iff)

lemma power_below_and_pred: "n AND (n - 1) \<noteq> 0 \<Longrightarrow> 2 ^ k \<le> n \<Longrightarrow> 2 ^ k \<le> (n AND (n - 1) :: nat)"
proof (induction n arbitrary: k rule: less_induct)
  case (less n)
  have n: "0 < n" using less.prems(1) by (cases n) simp_all
  show ?case
  proof (cases "even n")
    case True
    then obtain m where m: "n = 2 * m" "0 < m" "m < n" using n by auto
    have d: "n AND (n - 1) = 2 * (m AND (m - 1))" using m(1,2) and_pred_double by simp
    have nz: "m AND (m - 1) \<noteq> 0" using less.prems(1) d by simp
    show ?thesis
    proof (cases k)
      case 0
      then show ?thesis using less.prems(1) by simp
    next
      case (Suc j)
      then have "2 ^ j \<le> m AND (m - 1)" using less.prems(2) m less.IH[OF m(3) nz] by simp
      then show ?thesis using d Suc by simp
    qed
  next
    case False
    then obtain m where m: "n = 2 * m + 1" by (elim oddE)
    then have d: "n AND (n - 1) = 2 * m" using and_pred_odd[of m] by simp
    show ?thesis
    proof (cases k)
      case (Suc j)
      then show ?thesis using less.prems(2) d m by simp
    qed (use less.prems(1) in simp)
  qed
qed

lemma unat_turn_off: "x \<noteq> 0 \<Longrightarrow> unat (turn_off_least_1bit x) = unat x AND (unat x - 1)"
  by (simp add: turn_off_least_1bit_def unsigned_and_eq unat_minus_one)

lemma is_power_of_2_iff: "is_power_of_2 x \<longleftrightarrow> x \<noteq> 0 \<and> unat x AND (unat x - 1) = 0"
  using unat_turn_off[of x] by (auto simp: is_power_of_2_def unat_eq_zero)

text \<open>The loop of \<open>rehash\<close> ends with the largest power of two that is not above its argument.\<close>

lemma power_loop_largest:
  "x \<noteq> 0 \<Longrightarrow> \<exists>p k. power_loop x = Some p \<and> unat p = 2 ^ k \<and> p \<le> x \<and> (\<forall>j. 2 ^ j \<le> unat x \<longrightarrow> j \<le> k)"
proof (induction "unat x" arbitrary: x rule: less_induct)
  case less
  have pos: "0 < unat x" using less.prems by (simp add: unat_gt_0)
  show ?case
  proof (cases "is_power_of_2 x")
    case True
    then have "unat x AND (unat x - 1) = 0" by (simp add: is_power_of_2_iff)
    then obtain k where k: "unat x = 2 ^ k" using and_pred_zero_power[OF pos] by blast
    have "power_loop x = Some x" using True by (subst power_loop.simps) simp
    moreover have "\<forall>j. 2 ^ j \<le> unat x \<longrightarrow> j \<le> k" using k by simp
    ultimately show ?thesis using k by blast
  next
    case False
    let ?y = "turn_off_least_1bit x"
    have u: "unat ?y = unat x AND (unat x - 1)" by (rule unat_turn_off[OF less.prems])
    have nz: "unat x AND (unat x - 1) \<noteq> 0" using False less.prems by (simp add: is_power_of_2_iff)
    then have y: "?y \<noteq> 0" using u by (metis unat_0)
    have lt: "unat ?y < unat x" using u pos and_pred_below[of "unat x"] by linarith
    obtain p k where p: "power_loop ?y = Some p" "unat p = 2 ^ k" "p \<le> ?y" "\<forall>j. 2 ^ j \<le> unat ?y \<longrightarrow> j \<le> k"
      using less.hyps[OF lt y] by blast
    have "p \<le> x" using p(3) lt by (simp add: word_le_nat_alt)
    moreover have "\<forall>j. 2 ^ j \<le> unat x \<longrightarrow> j \<le> k" using power_below_and_pred[OF nz] p(4) u by simp
    moreover have "power_loop x = Some p" using False p(1) by (subst power_loop.simps) simp
    ultimately show ?thesis using p(2) by blast
  qed
qed

section \<open>Arrays of buckets\<close>

definition heads :: "addr \<Rightarrow> nat \<Rightarrow> addr set" where
  "heads b n = bucket_at b ` {..<n}"

lemma bucket_cells_apart: "i \<noteq> j \<Longrightarrow> cells (bucket_at b i) [] \<inter> cells (bucket_at b j) [] = {}"
  unfolding cells_def by auto

lemma init_buckets_on:
  assumes "lists_on hp L f" "b \<noteq> 0" "distinct is" "\<forall>i \<in> set is. cells (bucket_at b i) [] \<inter> all_cells L f = {}"
  shows "\<exists>hp'. init_buckets b is hp = Some hp' \<and> lists_on hp' (L \<union> bucket_at b ` set is) (\<lambda>l. if l \<in> bucket_at b ` set is then [] else f l)"
  using assms
proof (induction "is" arbitrary: hp L f)
  case (Cons i js)
  let ?l = "bucket_at b i"
  have "cells ?l [] \<inter> all_cells (L - {?l}) f = {}" using Cons.prems(4) by (auto simp: all_cells_def)
  then obtain hp1 where r: "list_init ?l hp = Some hp1" "lists_on hp1 (insert ?l L) (f(?l := []))"
    using init_on[OF Cons.prems(1), of ?l] Cons.prems(2) by auto
  have ap: "\<forall>j \<in> set js. cells (bucket_at b j) [] \<inter> all_cells (insert ?l L) (f(?l := [])) = {}"
  proof
    fix j assume j: "j \<in> set js"
    then have "i \<noteq> j" using Cons.prems(3) by auto
    from bucket_cells_apart[OF this, of b] Cons.prems(4) j
    show "cells (bucket_at b j) [] \<inter> all_cells (insert ?l L) (f(?l := [])) = {}"
      by (fastforce simp: all_cells_def cells_def split: if_splits)
  qed
  have "distinct js" using Cons.prems(3) by simp
  from Cons.IH[OF r(2) Cons.prems(2) this ap] obtain hp2 where h2: "init_buckets b js hp1 = Some hp2"
    "lists_on hp2 (insert ?l L \<union> bucket_at b ` set js) (\<lambda>l. if l \<in> bucket_at b ` set js then [] else (f(?l := [])) l)" by blast
  have "(\<lambda>l. if l \<in> bucket_at b ` set js then [] else (f(?l := [])) l) =
      (\<lambda>l. if l \<in> bucket_at b ` set (i # js) then [] else f l)" by (rule ext) auto
  moreover have "insert ?l L \<union> bucket_at b ` set js = L \<union> bucket_at b ` set (i # js)" by auto
  ultimately show ?case using r(1) h2 by simp
qed simp

lemma move_elems_on:
  assumes "lists_on hp L f" "l \<in> L" "f l = xs" "\<forall>e \<in> set xs. find_bucket h e \<in> L - {l}"
  shows "\<exists>hp' f'. move_elems h (hd (xs @ [tail_of l])) (tail_of l) hp = Some hp' \<and> lists_on hp' L f' \<and>
    (\<forall>m \<in> L - {l}. set (f' m) = set (f m) \<union> {e \<in> set xs. find_bucket h e = m})"
  using assms
proof (induction xs arbitrary: hp f)
  case Nil
  then show ?case by (intro exI[of _ hp] exI[of _ f]) (simp add: move_elems.simps)
next
  case (Cons e xs)
  let ?t = "find_bucket h e"
  have rep: "list_rep hp l (e # xs)" using lists_onD[OF Cons.prems(1,2)] Cons.prems(3) by simp
  have d: "e \<noteq> 0" "e \<notin> cells l xs" "e \<noteq> tail_of l" using rep by (auto simp: list_rep_def cells_def)
  have nx: "list_next e hp = Some (hd (xs @ [tail_of l]))" using list_next_rep[OF rep, of "[l]" e xs] by simp
  have "f l = [] @ e # xs" using Cons.prems(3) by simp
  from remove_on[OF Cons.prems(1,2) this]
  obtain hp1 where r: "list_remove e hp = Some (hd (xs @ [tail_of l]), hp1)" "lists_on hp1 L (f(l := xs))" by auto
  have t: "?t \<in> L" "?t \<noteq> l" using Cons.prems(4) by auto
  have "e \<notin> cells m (f m)" if "m \<in> L" "m \<noteq> l" for m
    using lists_on_disjoint[OF Cons.prems(1) that(1) Cons.prems(2) that(2)] Cons.prems(3) by (auto simp: cells_def)
  then have "e \<notin> all_cells L (f(l := xs))" using d(2) by (auto simp: all_cells_def)
  from push_front_on[OF r(2) t(1) d(1) this] t(2)
  obtain hp2 where p: "list_push_front ?t e hp1 = Some hp2" "lists_on hp2 L (f(l := xs, ?t := e # f ?t))" by auto
  have "(f(l := xs, ?t := e # f ?t)) l = xs" "\<forall>e \<in> set xs. find_bucket h e \<in> L - {l}"
    using t(2) Cons.prems(4) by auto
  from Cons.IH[OF p(2) Cons.prems(2) this]
  obtain hp3 f' where ih: "move_elems h (hd (xs @ [tail_of l])) (tail_of l) hp2 = Some hp3" "lists_on hp3 L f'"
    "\<forall>m \<in> L - {l}. set (f' m) = set ((f(l := xs, ?t := e # f ?t)) m) \<union> {e \<in> set xs. find_bucket h e = m}" by blast
  have "move_elems h (hd ((e # xs) @ [tail_of l])) (tail_of l) hp = Some hp3"
    using d(3) nx r(1) p(1) ih(1) by (subst move_elems.simps) (simp add: Let_def)
  moreover have "\<forall>m \<in> L - {l}. set (f' m) = set (f m) \<union> {x \<in> set (e # xs). find_bucket h x = m}"
    using ih(3) by auto
  ultimately show ?case using ih(2) by blast
qed

lemma move_buckets_on:
  assumes "lists_on hp L f" "distinct is" "bucket_at old ` set is \<subseteq> L" "N \<subseteq> L" "N \<inter> bucket_at old ` set is = {}"
    "\<forall>e. find_bucket h e \<in> N"
  shows "\<exists>hp' f'. move_buckets h old is hp = Some hp' \<and> lists_on hp' L f' \<and>
    (\<forall>m \<in> N. set (f' m) = set (f m) \<union> {e \<in> elems_of (bucket_at old ` set is) f. find_bucket h e = m})"
  using assms
proof (induction "is" arbitrary: hp f)
  case Nil
  then show ?case by (intro exI[of _ hp] exI[of _ f]) (simp add: elems_of_def)
next
  case (Cons i js)
  let ?l = "bucket_at old i"
  have l: "?l \<in> L" "?l \<notin> N" "?l \<notin> bucket_at old ` set js" using Cons.prems(2,3,5) by auto
  have "\<forall>e \<in> set (f ?l). find_bucket h e \<in> L - {?l}" using Cons.prems(4,6) l(2) by (metis DiffI singletonD subsetD)
  from move_elems_on[OF Cons.prems(1) l(1) refl this] obtain hp1 f1 where
    m: "move_elems h (hd (f ?l @ [tail_of ?l])) (tail_of ?l) hp = Some hp1" "lists_on hp1 L f1"
    and f1: "\<forall>m \<in> L - {?l}. set (f1 m) = set (f m) \<union> {e \<in> set (f ?l). find_bucket h e = m}" by blast
  have js: "distinct js" "bucket_at old ` set js \<subseteq> L" "N \<inter> bucket_at old ` set js = {}" using Cons.prems(2,3,5) by auto
  from Cons.IH[OF m(2) js(1,2) Cons.prems(4) js(3) Cons.prems(6)] obtain hp2 f2 where
    ih: "move_buckets h old js hp1 = Some hp2" "lists_on hp2 L f2"
    and f2: "\<forall>m \<in> N. set (f2 m) = set (f1 m) \<union> {e \<in> elems_of (bucket_at old ` set js) f1. find_bucket h e = m}" by blast
  have rep: "list_rep hp ?l (f ?l)" by (rule lists_onD[OF Cons.prems(1) l(1)])
  have "move_buckets h old (i # js) hp = Some hp2"
    using m(1) ih(1) list_begin_rep[OF rep] list_end_rep[OF rep] by (simp add: Let_def)
  moreover have "set (f1 m) = set (f m)" if "m \<in> bucket_at old ` set js" for m
  proof -
    have "m \<in> L - {?l}" "m \<notin> N" using that js(2,3) l(3) by auto
    then show ?thesis using f1 Cons.prems(6) by auto
  qed
  then have el: "elems_of (bucket_at old ` set js) f1 = elems_of (bucket_at old ` set js) f" by (simp add: elems_of_def)
  have el2: "elems_of (bucket_at old ` set (i # js)) f = set (f ?l) \<union> elems_of (bucket_at old ` set js) f"
    by (simp add: elems_of_def)
  have "set (f2 m) = set (f m) \<union> {e \<in> elems_of (bucket_at old ` set (i # js)) f. find_bucket h e = m}" if "m \<in> N" for m
  proof -
    have "m \<in> L - {?l}" using that Cons.prems(4) l(2) by auto
    then have "set (f1 m) = set (f m) \<union> {e \<in> set (f ?l). find_bucket h e = m}" using f1 by blast
    then show ?thesis using f2[unfolded el] that unfolding el2 by auto
  qed
  ultimately show ?case using ih(2) by blast
qed

section \<open>The table\<close>

definition hash_heads :: "htab \<Rightarrow> addr set" where
  "hash_heads h = heads (buckets h) (unat (bucket_cnt h))"

text \<open>
  A well-formed table: the number of buckets is a power of two, every element is in the bucket
  of its hash value, no two elements are equal, and \<open>elem_cnt\<close> counts the elements.
\<close>

definition hash_rep :: "htab \<Rightarrow> heap \<Rightarrow> (addr \<Rightarrow> addr list) \<Rightarrow> bool" where
  "hash_rep h hp f \<longleftrightarrow> lists_on hp (hash_heads h) f \<and> (\<exists>k. unat (bucket_cnt h) = 2 ^ k) \<and>
     (\<forall>l \<in> hash_heads h. \<forall>e \<in> set (f l). find_bucket h e = l) \<and>
     elem_cnt h = of_nat (card (elems_of (hash_heads h) f)) \<and>
     (\<forall>x \<in> elems_of (hash_heads h) f. \<forall>y \<in> elems_of (hash_heads h) f. hash_eq h x y \<longrightarrow> x = y)"

text \<open>The table holds the set \<open>E\<close> of elements.\<close>

definition hash_set :: "htab \<Rightarrow> hstate \<Rightarrow> addr set \<Rightarrow> bool" where
  "hash_set h s E \<longleftrightarrow> (\<exists>f. hash_rep h (links s) f \<and> elems_of (hash_heads h) f = E)"

definition table_block :: "htab \<Rightarrow> addr set" where
  "table_block h = {buckets h..<buckets h + 16 * unat (bucket_cnt h)}"

text \<open>
  The block that \<open>malloc\<close> returns for the new buckets is used by nobody else.  For \<open>n\<close> elements,
  at most \<open>n / 2\<close> buckets, or four, are allocated.
\<close>

definition malloc_fresh :: "nat \<Rightarrow> htab \<Rightarrow> hstate \<Rightarrow> addr set \<Rightarrow> bool" where
  "malloc_fresh n h s E \<longleftrightarrow> (\<forall>a as. coming s = a # as \<and> a \<noteq> 0 \<longrightarrow>
     {a..<a + 16 * max 4 (n div 2)} \<inter> (E \<union> table_block h) = {})"

lemma find_bucket_in: "unat (bucket_cnt h) = 2 ^ k \<Longrightarrow> find_bucket h e \<in> hash_heads h"
proof -
  assume k: "unat (bucket_cnt h) = 2 ^ k"
  then have z: "bucket_cnt h \<noteq> 0" by auto
  have "hash_fun h e AND (bucket_cnt h - 1) \<le> bucket_cnt h - 1" by (rule word_and_le1)
  then have "unat (hash_fun h e AND (bucket_cnt h - 1)) \<le> unat (bucket_cnt h) - 1"
    using z by (simp add: word_le_nat_alt unat_minus_one)
  moreover have "0 < unat (bucket_cnt h)" using k by simp
  ultimately show ?thesis by (auto simp: find_bucket_def hash_heads_def heads_def)
qed

lemma hash_repD:
  assumes "hash_rep h hp f"
  shows "lists_on hp (hash_heads h) f" "find_bucket h e \<in> hash_heads h"
    "l \<in> hash_heads h \<Longrightarrow> e \<in> set (f l) \<Longrightarrow> find_bucket h e = l"
  using assms find_bucket_in unfolding hash_rep_def by blast+

lemma elems_of_bucket:
  "hash_rep h hp f \<Longrightarrow> e \<in> elems_of (hash_heads h) f \<longleftrightarrow> e \<in> set (f (find_bucket h e))"
  using hash_repD unfolding elems_of_def by blast

lemma heads_in_block: "l \<in> hash_heads h \<Longrightarrow> l \<in> table_block h \<and> tail_of l \<in> table_block h"
  by (auto simp: hash_heads_def heads_def table_block_def)

lemma all_cells_block: "all_cells (hash_heads h) f \<subseteq> elems_of (hash_heads h) f \<union> table_block h"
  using heads_in_block by (auto simp: all_cells_def elems_of_def cells_def)

text \<open>The loops of \<open>rehash\<close> after a successful allocation.\<close>

lemma move_to_new:
  assumes rep: "hash_rep h hp f" and h': "h' = h\<lparr>buckets := b, bucket_cnt := p\<rparr>" and p: "unat p = 2 ^ k" and b: "b \<noteq> 0"
    and fresh: "{b..<b + 16 * unat p} \<inter> (elems_of (hash_heads h) f \<union> table_block h) = {}"
  obtains hp1 hp2 f' where "init_buckets b [0..<unat p] hp = Some hp1"
    "move_buckets h' (buckets h) [0..<unat (bucket_cnt h)] hp1 = Some hp2" "hash_rep h' hp2 f'"
    "elems_of (hash_heads h') f' = elems_of (hash_heads h) f"
proof -
  let ?O = "hash_heads h" and ?N = "hash_heads h'"
  have N: "bucket_at b ` set [0..<unat p] = ?N" "bucket_at (buckets h) ` set [0..<unat (bucket_cnt h)] = ?O"
    by (auto simp: hash_heads_def heads_def h')
  have tb: "table_block h' = {b..<b + 16 * unat p}" by (simp add: table_block_def h')
  have "cells (bucket_at b i) [] \<inter> all_cells ?O f = {}" if "i < unat p" for i
  proof -
    have "bucket_at b i \<in> ?N" using that N(1) by force
    then have "cells (bucket_at b i) [] \<subseteq> table_block h'" using heads_in_block by (auto simp: cells_def)
    then show ?thesis using fresh tb all_cells_block[of h f] by blast
  qed
  then have "\<forall>i \<in> set [0..<unat p]. cells (bucket_at b i) [] \<inter> all_cells ?O f = {}" by simp
  from init_buckets_on[OF hash_repD(1)[OF rep] b distinct_upt this]
  obtain hp1 f1 where i: "init_buckets b [0..<unat p] hp = Some hp1" "lists_on hp1 (?O \<union> ?N) f1"
    and f1: "f1 = (\<lambda>l. if l \<in> ?N then [] else f l)" unfolding N by blast
  have dis: "?N \<inter> ?O = {}" using fresh tb heads_in_block by blast
  have fb: "find_bucket h' e \<in> ?N" for e using find_bucket_in[of h' k] p by (simp add: h')
  have sub: "bucket_at (buckets h) ` set [0..<unat (bucket_cnt h)] \<subseteq> ?O \<union> ?N"
    "?N \<inter> bucket_at (buckets h) ` set [0..<unat (bucket_cnt h)] = {}" using N dis by auto
  obtain hp2 f2 where m: "move_buckets h' (buckets h) [0..<unat (bucket_cnt h)] hp1 = Some hp2" "lists_on hp2 (?O \<union> ?N) f2"
    and f2: "\<forall>m \<in> ?N. set (f2 m) = set (f1 m) \<union> {e \<in> elems_of ?O f1. find_bucket h' e = m}"
    using move_buckets_on[OF i(2) distinct_upt sub(1) _ sub(2), of h'] fb unfolding N by blast
  have "f1 l = f l" if "l \<in> ?O" for l using dis that by (auto simp: f1)
  then have "elems_of ?O f1 = elems_of ?O f" by (simp add: elems_of_def)
  then have s2: "set (f2 m) = {e \<in> elems_of ?O f. find_bucket h' e = m}" if "m \<in> ?N" for m
    using f2 that by (auto simp: f1)
  have el: "elems_of ?N f2 = elems_of ?O f" using s2 fb by (auto simp: elems_of_def[of ?N])
  have "hash_rep h' hp2 f2"
    unfolding hash_rep_def el using rep lists_on_subset[OF m(2), of ?N] p s2
    by (auto simp: hash_rep_def h' hash_eq_def)
  from that[OF i(1) m(1) this el] show thesis .
qed

text \<open>The number of buckets is the largest power of two that is at most half the number of elements, or four.\<close>

definition ideal_buckets :: "htab \<Rightarrow> bool" where
  "ideal_buckets h \<longleftrightarrow> (\<exists>k. unat (bucket_cnt h) = 2 ^ k \<and> 2 ^ k \<le> max 4 (unat (elem_cnt h) div 2) \<and>
     max 4 (unat (elem_cnt h) div 2) < 2 ^ Suc k)"

lemma rehash_count:
  obtains p k where "power_loop (if elem_cnt h div BEST_ELEMS_PER_BUCKET < 4 then 4 else elem_cnt h div BEST_ELEMS_PER_BUCKET) = Some p"
    "unat p = 2 ^ k" "2 ^ k \<le> max 4 (unat (elem_cnt h) div 2)" "max 4 (unat (elem_cnt h) div 2) < 2 ^ Suc k"
proof -
  let ?x = "if elem_cnt h div BEST_ELEMS_PER_BUCKET < 4 then 4 else elem_cnt h div BEST_ELEMS_PER_BUCKET"
  have d: "unat (elem_cnt h div BEST_ELEMS_PER_BUCKET) = unat (elem_cnt h) div 2"
    by (simp add: BEST_ELEMS_PER_BUCKET_def unat_div)
  have lt: "elem_cnt h div BEST_ELEMS_PER_BUCKET < 4 \<longleftrightarrow> unat (elem_cnt h) div 2 < 4"
    unfolding word_less_nat_alt d by simp
  have u: "unat ?x = max 4 (unat (elem_cnt h) div 2)"
  proof (cases "unat (elem_cnt h) div 2 < 4")
    case True
    then have "?x = 4" using lt by presburger
    then show ?thesis using True by (simp only: max_def) simp
  next
    case False
    then have "?x = elem_cnt h div BEST_ELEMS_PER_BUCKET" using lt by presburger
    then show ?thesis using False d by (simp only: max_def) simp
  qed
  have "unat ?x \<noteq> 0" unfolding u by simp
  then have "?x \<noteq> 0" by (rule contrapos_nn) (simp only: unat_0)
  then obtain p k where p: "power_loop ?x = Some p" "unat p = 2 ^ k" "p \<le> ?x" "\<forall>j. 2 ^ j \<le> unat ?x \<longrightarrow> j \<le> k"
    using power_loop_largest by blast
  have "unat p \<le> max 4 (unat (elem_cnt h) div 2)" using p(3) unfolding u[symmetric] word_le_nat_alt .
  moreover have "max 4 (unat (elem_cnt h) div 2) < 2 ^ Suc k"
    using p(4)[rule_format, of "Suc k"] unfolding u by (meson Suc_n_not_le_n not_le)
  ultimately show thesis using that p(1,2) by simp
qed

lemma rehash_set:
  assumes "hash_set h s E" "malloc_fresh n h s E" "unat (elem_cnt h) \<le> n"
  obtains h' s' where "rehash h s = Some (h', s')" "hash_set h' s' E" "hash_fun h' = hash_fun h" "less_fun h' = less_fun h"
    "coming s \<noteq> [] \<and> hd (coming s) \<noteq> 0 \<longrightarrow> ideal_buckets h'"
proof -
  obtain f where f: "hash_rep h (links s) f" "elems_of (hash_heads h) f = E" using assms(1) by (auto simp: hash_set_def)
  obtain p k where p: "power_loop (if elem_cnt h div BEST_ELEMS_PER_BUCKET < 4 then 4 else elem_cnt h div BEST_ELEMS_PER_BUCKET) = Some p"
    "unat p = 2 ^ k" "2 ^ k \<le> max 4 (unat (elem_cnt h) div 2)" "max 4 (unat (elem_cnt h) div 2) < 2 ^ Suc k"
    by (rule rehash_count)
  obtain b s1 where m: "hash_malloc s = (b, s1)" by force
  have l1: "links s1 = links s" using m by (auto simp: hash_malloc_def split: list.splits)
  note def = rehash_def Let_def p(1) m
  show thesis
  proof (cases "p = bucket_cnt h")
    case True
    then have "ideal_buckets h" using p by (auto simp: ideal_buckets_def)
    with True show thesis using that[of h s] assms(1) by (simp add: def)
  next
    case np: False
    show thesis
    proof (cases "b = 0")
      case True
      then have "coming s = [] \<or> hd (coming s) = 0" using m by (auto simp: hash_malloc_def split: list.splits)
      with True show thesis using that[of h s1] assms(1) np l1 by (auto simp: def hash_set_def)
    next
      case False
      then obtain as where "coming s = b # as" using m by (auto simp: hash_malloc_def split: list.splits)
      then have "{b..<b + 16 * max 4 (n div 2)} \<inter> (E \<union> table_block h) = {}"
        using assms(2) False by (auto simp: malloc_fresh_def)
      moreover have "unat p \<le> max 4 (n div 2)" using p(2,3) div_le_mono[OF assms(3), of 2] by linarith
      then have "{b..<b + 16 * unat p} \<subseteq> {b..<b + 16 * max 4 (n div 2)}" by (intro ivl_subset[THEN iffD2] disjI2) simp
      ultimately have fr: "{b..<b + 16 * unat p} \<inter> (elems_of (hash_heads h) f \<union> table_block h) = {}" unfolding f(2) by blast
      obtain hp1 hp2 f' where t: "init_buckets b [0..<unat p] (links s) = Some hp1"
        "move_buckets (h\<lparr>buckets := b, bucket_cnt := p\<rparr>) (buckets h) [0..<unat (bucket_cnt h)] hp1 = Some hp2"
        "hash_rep (h\<lparr>buckets := b, bucket_cnt := p\<rparr>) hp2 f'"
        "elems_of (hash_heads (h\<lparr>buckets := b, bucket_cnt := p\<rparr>)) f' = elems_of (hash_heads h) f"
        by (rule move_to_new[OF f(1) refl p(2) False fr])
      have "ideal_buckets (h\<lparr>buckets := b, bucket_cnt := p\<rparr>)" using p by (auto simp: ideal_buckets_def)
      then show thesis
        using that[of "h\<lparr>buckets := b, bucket_cnt := p\<rparr>" "s1\<lparr>links := hp2, freed := buckets h # freed s1\<rparr>"]
          np False t f(2) l1 by (auto simp: def hash_set_def)
    qed
  qed
qed

section \<open>Operations on the set\<close>

text \<open>Equal elements have equal hash values, as \<open>hash.h\<close> asks of the two functions.\<close>

definition hash_compat :: "htab \<Rightarrow> bool" where
  "hash_compat h \<longleftrightarrow> (\<forall>x y. hash_eq h x y \<longrightarrow> hash_fun h x = hash_fun h y)"

lemma hash_eq_sym: "hash_eq h x y \<longleftrightarrow> hash_eq h y x"
  by (auto simp: hash_eq_def)

text \<open>A search of the bucket of \<open>e\<close> finds the element equal to \<open>e\<close>, if the table has one.\<close>

lemma find_elem_set:
  assumes "hash_rep h hp f" "hash_compat h"
  obtains x where "find_elem h (find_bucket h e) e hp = Some x"
    "x \<noteq> 0 \<and> x \<in> set (f (find_bucket h e)) \<and> hash_eq h x e \<or> x = 0 \<and> (\<forall>y \<in> elems_of (hash_heads h) f. \<not> hash_eq h y e)"
proof -
  let ?b = "find_bucket h e"
  have rep: "list_rep hp ?b (f ?b)" using hash_repD(1,2)[OF assms(1)] lists_onD by blast
  show thesis
  proof (cases "List.find (\<lambda>x. hash_eq h x e) (f ?b)")
    case None
    have "\<not> hash_eq h y e" if "y \<in> elems_of (hash_heads h) f" for y
    proof
      assume eq: "hash_eq h y e"
      then have "find_bucket h y = ?b" using assms(2) by (simp add: hash_compat_def find_bucket_def)
      then show False using that eq None elems_of_bucket[OF assms(1)] by (auto simp: find_None_iff)
    qed
    then show thesis using that[of 0] find_elem_rep[OF rep] None by simp
  next
    case (Some x)
    then have "x \<in> set (f ?b)" "hash_eq h x e" by (auto simp: find_Some_iff)
    moreover have "x \<noteq> 0" using calculation(1) list_rep_facts(1)[OF rep] by metis
    ultimately show thesis using that[of x] find_elem_rep[OF rep] Some by simp
  qed
qed

lemma finite_elems [simp]: "finite (elems_of (hash_heads h) f)"
  by (simp add: elems_of_def hash_heads_def heads_def)

lemma hash_heads_elem_cnt [simp]: "hash_heads (h\<lparr>elem_cnt := n\<rparr>) = hash_heads h" "table_block (h\<lparr>elem_cnt := n\<rparr>) = table_block h"
  "find_bucket (h\<lparr>elem_cnt := n\<rparr>) = find_bucket h" "hash_eq (h\<lparr>elem_cnt := n\<rparr>) = hash_eq h"
  by (auto simp: hash_heads_def table_block_def find_bucket_def hash_eq_def fun_eq_iff)

lemma hash_repI_cnt:
  assumes "lists_on hp (hash_heads h) f" "unat (bucket_cnt h) = 2 ^ k"
    "\<And>l e. l \<in> hash_heads h \<Longrightarrow> e \<in> set (f l) \<Longrightarrow> find_bucket h e = l"
    "elems_of (hash_heads h) f = E" "n = of_nat (card E)"
    "\<And>x y. x \<in> E \<Longrightarrow> y \<in> E \<Longrightarrow> hash_eq h x y \<Longrightarrow> x = y"
  shows "hash_rep (h\<lparr>elem_cnt := n\<rparr>) hp f"
proof -
  have "elem_cnt (h\<lparr>elem_cnt := n\<rparr>) = of_nat (card E)" "bucket_cnt (h\<lparr>elem_cnt := n\<rparr>) = bucket_cnt h"
    using assms(5) by simp_all
  then show ?thesis unfolding hash_rep_def hash_heads_elem_cnt assms(4) using assms(1,2,3,6) by metis
qed

lemma insert_elem_set:
  assumes rep: "hash_rep h (links s) f" and new: "new \<noteq> 0" "new \<notin> elems_of (hash_heads h) f \<union> table_block h"
    and no: "\<forall>y \<in> elems_of (hash_heads h) f. \<not> hash_eq h y new"
  obtains hp where "insert_elem h (find_bucket h new) new s = Some (h\<lparr>elem_cnt := elem_cnt h + 1\<rparr>, s\<lparr>links := hp\<rparr>)"
    "hash_set (h\<lparr>elem_cnt := elem_cnt h + 1\<rparr>) (s\<lparr>links := hp\<rparr>) (insert new (elems_of (hash_heads h) f))"
proof -
  let ?b = "find_bucket h new" and ?E = "elems_of (hash_heads h) f"
  have "new \<notin> all_cells (hash_heads h) f" using new(2) all_cells_block by blast
  then obtain hp where p: "list_push_front ?b new (links s) = Some hp" "lists_on hp (hash_heads h) (f(?b := new # f ?b))"
    using push_front_on[OF hash_repD(1,2)[OF rep] new(1)] by blast
  have el: "elems_of (hash_heads h) (f(?b := new # f ?b)) = insert new ?E"
    using hash_repD(2)[OF rep, of new] by (auto simp: elems_of_def split: if_splits)
  obtain k where k: "unat (bucket_cnt h) = 2 ^ k" using rep by (auto simp: hash_rep_def)
  have "card (insert new ?E) = Suc (card ?E)" using new(2) by simp
  then have c: "elem_cnt h + 1 = of_nat (card (insert new ?E))" using rep by (simp add: hash_rep_def)
  have u: "x = y" if "x \<in> insert new ?E" "y \<in> insert new ?E" "hash_eq h x y" for x y
    using that no hash_eq_sym[of h new] rep unfolding hash_rep_def by blast
  have fb: "find_bucket h e = l" if "l \<in> hash_heads h" "e \<in> set ((f(?b := new # f ?b)) l)" for l e
    using that hash_repD(3)[OF rep] by (auto split: if_splits)
  have "hash_rep (h\<lparr>elem_cnt := elem_cnt h + 1\<rparr>) hp (f(?b := new # f ?b))"
    by (rule hash_repI_cnt[OF p(2) k fb el c u])
  then have "hash_set (h\<lparr>elem_cnt := elem_cnt h + 1\<rparr>) (s\<lparr>links := hp\<rparr>) (insert new ?E)"
    using el unfolding hash_set_def by (intro exI[of _ "f(?b := new # f ?b)"]) simp
  with p(1) show thesis using that by (simp add: insert_elem_def Let_def)
qed

lemma remove_elem_set:
  assumes rep: "hash_rep h (links s) f" and x: "x \<in> elems_of (hash_heads h) f"
  obtains hp where "remove_elem h x s = Some (h\<lparr>elem_cnt := elem_cnt h - 1\<rparr>, s\<lparr>links := hp\<rparr>)"
    "hash_set (h\<lparr>elem_cnt := elem_cnt h - 1\<rparr>) (s\<lparr>links := hp\<rparr>) (elems_of (hash_heads h) f - {x})"
proof -
  let ?b = "find_bucket h x" and ?E = "elems_of (hash_heads h) f"
  have xb: "x \<in> set (f ?b)" using x elems_of_bucket[OF rep] by blast
  then obtain as bs where ab: "f ?b = as @ x # bs" by (meson split_list)
  from remove_on[OF hash_repD(1,2)[OF rep] ab] obtain hp where
    p: "list_remove x (links s) = Some (hd (bs @ [tail_of ?b]), hp)" "lists_on hp (hash_heads h) (f(?b := as @ bs))" by blast
  have "distinct (f ?b)" using lists_onD[OF hash_repD(1,2)[OF rep]] list_rep_facts(1) by fastforce
  then have sb: "set (as @ bs) = set (f ?b) - {x}" using ab by auto
  have "set ((f(?b := as @ bs)) l) = set (f l) - {x}" if "l \<in> hash_heads h" for l
    using sb hash_repD(3)[OF rep that, of x] by auto
  then have el: "elems_of (hash_heads h) (f(?b := as @ bs)) = ?E - {x}" by (auto simp: elems_of_def)
  have "card ?E = Suc (card (?E - {x}))" using x by (metis card_Suc_Diff1 finite_elems)
  then have c: "elem_cnt h - 1 = of_nat (card (?E - {x}))" using rep by (simp add: hash_rep_def)
  have fb: "find_bucket h e = l" if "l \<in> hash_heads h" "e \<in> set ((f(?b := as @ bs)) l)" for l e
    using that hash_repD(3)[OF rep that(1), of e] ab by (auto split: if_splits)
  have u: "y = z" if "y \<in> ?E - {x}" "z \<in> ?E - {x}" "hash_eq h y z" for y z
    using that rep unfolding hash_rep_def by blast
  obtain k where k: "unat (bucket_cnt h) = 2 ^ k" using rep by (auto simp: hash_rep_def)
  have "hash_rep (h\<lparr>elem_cnt := elem_cnt h - 1\<rparr>) hp (f(?b := as @ bs))"
    by (rule hash_repI_cnt[OF p(2) k fb el c u])
  then have "hash_set (h\<lparr>elem_cnt := elem_cnt h - 1\<rparr>) (s\<lparr>links := hp\<rparr>) (?E - {x})"
    using el unfolding hash_set_def by (intro exI[of _ "f(?b := as @ bs)"]) simp
  with p(1) show thesis using that by (simp add: remove_elem_def Let_def)
qed

lemma malloc_fresh_mono: "malloc_fresh n h s E \<Longrightarrow> F \<subseteq> E \<Longrightarrow> malloc_fresh n h s F"
  by (fastforce simp: malloc_fresh_def)

lemma malloc_fresh_elem_cnt [simp]: "malloc_fresh n (h\<lparr>elem_cnt := c\<rparr>) (s\<lparr>links := hp\<rparr>) E = malloc_fresh n h s E"
  by (simp add: malloc_fresh_def)

lemma unat_add_1_le: "unat (c + 1 :: u32) \<le> Suc (unat c)"
  by (simp add: unat_word_ariths)

section \<open>Creation\<close>

lemma clear_buckets_init: "clear_buckets None b is hp w = map_option (\<lambda>hp. (hp, w)) (init_buckets b is hp)"
proof (induction "is" arbitrary: hp)
  case (Cons i js)
  then show ?case by (cases "list_init (bucket_at b i) hp") (simp_all add: Let_def)
qed simp

lemma hash_init_set:
  assumes "coming s = b # as" "b \<noteq> 0"
  obtains hp where "hash_init hf lf s = Some (True,
      \<lparr>elem_cnt = 0, bucket_cnt = 4, buckets = b, hash_fun = hf, less_fun = lf\<rparr>, \<lparr>links = hp, coming = as, freed = freed s\<rparr>)"
    "hash_set \<lparr>elem_cnt = 0, bucket_cnt = 4, buckets = b, hash_fun = hf, less_fun = lf\<rparr> \<lparr>links = hp, coming = as, freed = freed s\<rparr> {}"
proof -
  let ?h = "\<lparr>elem_cnt = 0, bucket_cnt = 4, buckets = b, hash_fun = hf, less_fun = lf\<rparr>"
  have "lists_on (links s) {} (\<lambda>_. [])" by (simp add: lists_on_def)
  then obtain hp where p: "init_buckets b [0..<4] (links s) = Some hp" "lists_on hp (bucket_at b ` set [0..<4]) (\<lambda>_. [])"
    using init_buckets_on[of "links s" "{}" "\<lambda>_. []" b "[0..<4]"] assms(2) by (auto simp: all_cells_def)
  have hd: "hash_heads ?h = bucket_at b ` set [0..<4]" by (auto simp: hash_heads_def heads_def)
  have "elems_of (hash_heads ?h) (\<lambda>_. []) = {}" by (simp add: elems_of_def)
  then have "hash_rep ?h hp (\<lambda>_. [])" using p(2) unfolding hash_rep_def hd by (auto intro: exI[of _ 2])
  then have "hash_set ?h \<lparr>links = hp, coming = as, freed = freed s\<rparr> {}"
    by (auto simp: hash_set_def elems_of_def)
  moreover have "hash_init hf lf s = Some (True, ?h, \<lparr>links = hp, coming = as, freed = freed s\<rparr>)"
    using assms p(1) by (simp add: hash_init_def hash_clear_def hash_malloc_def clear_buckets_init Let_def)
  ultimately show thesis using that by blast
qed

section \<open>Properties\<close>

text \<open>
  C24: Insertion into a hash table refines insertion into a set.  In a table that holds the set
  \<open>E\<close>, \<open>hash_insert\<close> returns the element of \<open>E\<close> that is equal to the new one and leaves the set as
  it is, or, when there is none, returns a null pointer and the table holds the new element as
  well.  The rehash that follows keeps the set, whether or not its allocation succeeds, and when
  the allocation succeeds the number of buckets is the largest power of two that is at most half
  the number of elements, or four.  As the table's documentation asks, elements that are equal hash to the same value;
  the new element is not one of the set yet, and lies, like the elements, outside the blocks that
  \<open>malloc\<close> gave or gives to the table.
\<close>

theorem hash_insert_refines_set:
  assumes "hash_set h s E" "hash_compat h" "new \<noteq> 0" "new \<notin> E \<union> table_block h"
    "malloc_fresh (Suc (unat (elem_cnt h))) h s (insert new E)"
  shows "\<exists>old h' s'. hash_insert new h s = Some (old, h', s') \<and>
    (old = 0 \<and> (\<forall>y \<in> E. \<not> hash_eq h y new) \<and> hash_set h' s' (insert new E) \<or>
     old \<in> E \<and> hash_eq h old new \<and> hash_set h' s' E) \<and>
    (coming s \<noteq> [] \<and> hd (coming s) \<noteq> 0 \<longrightarrow> ideal_buckets h')"
proof -
  obtain f where f: "hash_rep h (links s) f" "elems_of (hash_heads h) f = E" using assms(1) by (auto simp: hash_set_def)
  obtain x where x: "find_elem h (find_bucket h new) new (links s) = Some x"
    "x \<noteq> 0 \<and> x \<in> set (f (find_bucket h new)) \<and> hash_eq h x new \<or> x = 0 \<and> (\<forall>y \<in> E. \<not> hash_eq h y new)"
    using find_elem_set[OF f(1) assms(2)] unfolding f(2) by metis
  show ?thesis
  proof (cases "x = 0")
    case True
    let ?h = "h\<lparr>elem_cnt := elem_cnt h + 1\<rparr>"
    have no: "\<forall>y \<in> E. \<not> hash_eq h y new" using x(2) True by blast
    obtain hp where i: "insert_elem h (find_bucket h new) new s = Some (?h, s\<lparr>links := hp\<rparr>)" "hash_set ?h (s\<lparr>links := hp\<rparr>) (insert new E)"
      using insert_elem_set[OF f(1) assms(3)] assms(4) no unfolding f(2) by metis
    obtain h' s' where r: "rehash ?h (s\<lparr>links := hp\<rparr>) = Some (h', s')" "hash_set h' s' (insert new E)"
      "coming s \<noteq> [] \<and> hd (coming s) \<noteq> 0 \<longrightarrow> ideal_buckets h'"
    proof -
      have "malloc_fresh (Suc (unat (elem_cnt h))) ?h (s\<lparr>links := hp\<rparr>) (insert new E)" "unat (elem_cnt ?h) \<le> Suc (unat (elem_cnt h))"
        using assms(5) unat_add_1_le[of "elem_cnt h"] by simp_all
      from rehash_set[OF i(2) this] show thesis using that by auto
    qed
    show ?thesis using True x(1) i(1) r no by (simp add: hash_insert_def Let_def)
  next
    case False
    then have xE: "x \<in> E" "hash_eq h x new" using x(2) elems_of_bucket[OF f(1)] hash_repD(2)[OF f(1)] f(2)
      unfolding elems_of_def by blast+
    have "malloc_fresh (Suc (unat (elem_cnt h))) h s E" by (rule malloc_fresh_mono[OF assms(5)]) blast
    then obtain h' s' where r: "rehash h s = Some (h', s')" "hash_set h' s' E"
      "coming s \<noteq> [] \<and> hd (coming s) \<noteq> 0 \<longrightarrow> ideal_buckets h'"
      using rehash_set[OF assms(1)] le_SucI[OF order_refl] by metis
    show ?thesis using False x(1) r xE by (simp add: hash_insert_def Let_def)
  qed
qed

theorem hash_insert_refines_set_witness:
  "\<exists>h s. hash_init (\<lambda>e. of_nat e) (\<lambda>x y. x < y) \<lparr>links = \<lparr>prv = (\<lambda>_. 0), nxt = (\<lambda>_. 0)\<rparr>, coming = [1000, 2000], freed = []\<rparr> = Some (True, h, s) \<and>
     (\<exists>old h' s'. hash_insert 5 h s = Some (old, h', s') \<and> hash_set h' s' {5} \<and> ideal_buckets h')"
proof -
  let ?s0 = "\<lparr>links = \<lparr>prv = (\<lambda>_. 0), nxt = (\<lambda>_. 0)\<rparr>, coming = [1000, 2000], freed = []\<rparr> :: hstate"
  let ?h = "\<lparr>elem_cnt = 0, bucket_cnt = 4, buckets = 1000, hash_fun = (\<lambda>e. of_nat e), less_fun = (\<lambda>x y. x < y)\<rparr>"
  obtain hp where i: "hash_init (\<lambda>e. of_nat e) (\<lambda>x y. x < y) ?s0 = Some (True, ?h, \<lparr>links = hp, coming = [2000], freed = []\<rparr>)"
    "hash_set ?h \<lparr>links = hp, coming = [2000], freed = []\<rparr> {}"
    using hash_init_set[of ?s0 1000 "[2000]" "\<lambda>e. of_nat e" "\<lambda>x y. x < y"] by auto
  have "hash_compat ?h" by (auto simp: hash_compat_def hash_eq_def)
  moreover have "malloc_fresh (Suc (unat (elem_cnt ?h))) ?h \<lparr>links = hp, coming = [2000], freed = []\<rparr> (insert 5 {})"
    by (auto simp: malloc_fresh_def table_block_def)
  ultimately show ?thesis
    using hash_insert_refines_set[OF i(2), of 5] i(1) by (auto simp: table_block_def)
qed

text \<open>
  Lookup and removal refine those of a set.  In a table that holds the set \<open>E\<close>, \<open>hash_find\<close>
  returns the element of \<open>E\<close> equal to the one asked for, or a null pointer when \<open>E\<close> has none;
  \<open>hash_delete\<close> returns the same and leaves a table with exactly the other elements.
\<close>

theorem hash_find_delete_refine_set:
  assumes "hash_set h s E" "hash_compat h" "card E < 2 ^ 32" "malloc_fresh (unat (elem_cnt h)) h s E"
  shows "\<exists>x h' s'. hash_find e h (links s) = Some x \<and> hash_delete e h s = Some (x, h', s') \<and>
    (x \<in> E \<and> hash_eq h x e \<or> x = 0 \<and> (\<forall>y \<in> E. \<not> hash_eq h y e)) \<and> hash_set h' s' (E - {x})"
proof -
  obtain f where f: "hash_rep h (links s) f" "elems_of (hash_heads h) f = E" using assms(1) by (auto simp: hash_set_def)
  obtain x where x: "find_elem h (find_bucket h e) e (links s) = Some x"
    "x \<noteq> 0 \<and> x \<in> set (f (find_bucket h e)) \<and> hash_eq h x e \<or> x = 0 \<and> (\<forall>y \<in> E. \<not> hash_eq h y e)"
    using find_elem_set[OF f(1) assms(2)] unfolding f(2) by metis
  show ?thesis
  proof (cases "x = 0")
    case True
    have "0 \<notin> E" using f lists_onD[OF hash_repD(1)[OF f(1)]] list_rep_facts(1) by (fastforce simp: elems_of_def)
    then have "hash_set h s (E - {x})" using assms(1) True by simp
    then show ?thesis using True x by (auto simp: hash_find_def hash_delete_def)
  next
    case False
    let ?h = "h\<lparr>elem_cnt := elem_cnt h - 1\<rparr>"
    have xE: "x \<in> E" "hash_eq h x e" using False x(2) elems_of_bucket[OF f(1)] hash_repD(2)[OF f(1)] f(2)
      unfolding elems_of_def by blast+
    obtain hp where r: "remove_elem h x s = Some (?h, s\<lparr>links := hp\<rparr>)" "hash_set ?h (s\<lparr>links := hp\<rparr>) (E - {x})"
      using remove_elem_set[OF f(1)] xE(1) unfolding f(2) by metis
    have "card E \<noteq> 0" using xE(1) f(2) finite_elems[of h f] by auto
    moreover have c: "elem_cnt h = of_nat (card E)" using f by (simp add: hash_rep_def)
    ultimately have "elem_cnt h \<noteq> 0" using assms(3) by (auto simp: word_of_nat_eq_0_iff dest: dvd_imp_le)
    then have "unat (elem_cnt ?h) \<le> unat (elem_cnt h)" by (simp add: unat_minus_one)
    moreover have "malloc_fresh (unat (elem_cnt h)) ?h (s\<lparr>links := hp\<rparr>) (E - {x})"
      using malloc_fresh_mono[OF assms(4), of "E - {x}"] by simp
    ultimately obtain h' s' where h': "rehash ?h (s\<lparr>links := hp\<rparr>) = Some (h', s')" "hash_set h' s' (E - {x})"
      using rehash_set[OF r(2)] by metis
    show ?thesis using False x(1) xE r(1) h' by (simp add: hash_find_def hash_delete_def)
  qed
qed

theorem hash_find_delete_refine_set_witness:
  "\<exists>h s. hash_init (\<lambda>e. of_nat e) (\<lambda>x y. x < y) \<lparr>links = \<lparr>prv = (\<lambda>_. 0), nxt = (\<lambda>_. 0)\<rparr>, coming = [1000], freed = []\<rparr> = Some (True, h, s) \<and>
     (\<exists>h1 s1 h' s'. insert_elem h (find_bucket h 5) 5 s = Some (h1, s1) \<and> hash_find 5 h1 (links s1) = Some 5 \<and>
        hash_delete 5 h1 s1 = Some (5, h', s') \<and> hash_set h' s' {})"
proof -
  let ?s0 = "\<lparr>links = \<lparr>prv = (\<lambda>_. 0), nxt = (\<lambda>_. 0)\<rparr>, coming = [1000], freed = []\<rparr> :: hstate"
  let ?h = "\<lparr>elem_cnt = 0, bucket_cnt = 4, buckets = 1000, hash_fun = (\<lambda>e. of_nat e), less_fun = (\<lambda>x y. x < y)\<rparr>"
  obtain hp where i: "hash_init (\<lambda>e. of_nat e) (\<lambda>x y. x < y) ?s0 = Some (True, ?h, \<lparr>links = hp, coming = [], freed = []\<rparr>)"
    "hash_set ?h \<lparr>links = hp, coming = [], freed = []\<rparr> {}"
    using hash_init_set[of ?s0 1000 "[]" "\<lambda>e. of_nat e" "\<lambda>x y. x < y"] by auto
  let ?h1 = "?h\<lparr>elem_cnt := elem_cnt ?h + 1\<rparr>" and ?s = "\<lparr>links = hp, coming = [], freed = []\<rparr>"
  obtain f where f: "hash_rep ?h (links ?s) f" "elems_of (hash_heads ?h) f = {}" using i(2) by (auto simp: hash_set_def)
  obtain hp1 where n: "insert_elem ?h (find_bucket ?h 5) 5 ?s = Some (?h1, ?s\<lparr>links := hp1\<rparr>)" "hash_set ?h1 (?s\<lparr>links := hp1\<rparr>) {5}"
    using insert_elem_set[OF f(1), of 5] unfolding f(2) by (auto simp: table_block_def)
  have "hash_compat ?h1" by (auto simp: hash_compat_def hash_eq_def)
  moreover have "malloc_fresh (unat (elem_cnt ?h1)) ?h1 (?s\<lparr>links := hp1\<rparr>) {5}" by (auto simp: malloc_fresh_def)
  ultimately obtain x h' s' where x: "hash_find 5 ?h1 hp1 = Some x" "hash_delete 5 ?h1 (?s\<lparr>links := hp1\<rparr>) = Some (x, h', s')"
    "x \<in> {5} \<and> hash_eq ?h1 x 5 \<or> x = 0 \<and> (\<forall>y \<in> {5}. \<not> hash_eq ?h1 y 5)" "hash_set h' s' ({5} - {x})"
    using hash_find_delete_refine_set[OF n(2), of 5] by auto
  have "x = 5" using x(3) by (auto simp: hash_eq_def)
  then show ?thesis using i(1) n(1) x(1,2,4) by auto
qed

end
