(* ===== verification/KStdlibSort.thy ===== *)
theory KStdlibSort imports KStdlib begin

text \<open>
  The heap sort and the binary search of \<open>lib/stdlib.c\<close> are correct for any comparison function
  that behaves like \<open>strcmp\<close>: facts of the swap of two elements, of \<open>heapify\<close> and of the two loops
  of \<open>sort\<close>.
\<close>

section \<open>Elements of an array\<close>

definition elems :: "nat \<Rightarrow> nat \<Rightarrow> u8 list \<Rightarrow> u8 list list" where
  "elems cnt size' array = map (elem_at size' array) [1..<Suc cnt]"

lemma length_swap_bytes [simp]: "length (swap_bytes a b is array) = length array"
  by (induction a b "is" array rule: swap_bytes.induct) simp_all

lemma swap_bytes_nth:
  assumes "a + n \<le> length array" "b + n \<le> length array" "\<forall>i < n. \<forall>j < n. a + i \<noteq> b + j" "set js \<subseteq> {..<n}" "distinct js" "i < n"
  shows "swap_bytes a b js array ! (a + i) = (if i \<in> set js then array ! (b + i) else array ! (a + i)) \<and>
    swap_bytes a b js array ! (b + i) = (if i \<in> set js then array ! (a + i) else array ! (b + i))"
  using assms
proof (induction js arbitrary: array)
  case (Cons j js)
  let ?ar = "array[a + j := array ! (b + j), b + j := array ! (a + j)]"
  have j: "j < n" "j \<notin> set js" "set js \<subseteq> {..<n}" "distinct js" using Cons.prems(4,5) by auto
  have ih: "swap_bytes a b js ?ar ! (a + i) = (if i \<in> set js then ?ar ! (b + i) else ?ar ! (a + i)) \<and>
    swap_bytes a b js ?ar ! (b + i) = (if i \<in> set js then ?ar ! (a + i) else ?ar ! (b + i))"
    by (rule Cons.IH) (use Cons.prems j in simp_all)
  have ne: "a + i \<noteq> b + j" "a + j \<noteq> b + i" using Cons.prems(3,6) j(1) by blast+
  have lt: "a + j < length array" "b + j < length array" using Cons.prems(1,2) j by linarith+
  have "?ar ! (a + i) = (if i = j then array ! (b + i) else array ! (a + i))"
    "?ar ! (b + i) = (if i = j then array ! (a + i) else array ! (b + i))"
    using ne lt by (auto simp: nth_list_update)
  then show ?case using ih j(2) by auto
qed simp

lemma swap_bytes_other:
  "k \<notin> {a..<a + n} \<union> {b..<b + n} \<Longrightarrow> set js \<subseteq> {..<n} \<Longrightarrow> swap_bytes a b js array ! k = array ! k"
proof (induction js arbitrary: array)
  case (Cons j js)
  have "swap_bytes a b js (array[a + j := array ! (b + j), b + j := array ! (a + j)]) ! k =
      array[a + j := array ! (b + j), b + j := array ! (a + j)] ! k"
    using Cons.IH Cons.prems by simp
  moreover have "k \<noteq> a + j" "k \<noteq> b + j" using Cons.prems by auto
  ultimately show ?case by simp
qed simp

lemma elem_bounds: "1 \<le> i \<Longrightarrow> i \<le> cnt \<Longrightarrow> (i - 1) * s + s \<le> cnt * (s :: nat)"
proof -
  assume a: "1 \<le> i" "i \<le> cnt"
  then have "(i - 1) * s + s = i * s" by (cases i) simp_all
  then show ?thesis using a(2) by simp
qed

lemma elem_apart: "1 \<le> i \<Longrightarrow> 1 \<le> j \<Longrightarrow> i \<noteq> j \<Longrightarrow> (i - 1) * s + s \<le> (j - 1) * s \<or> (j - 1) * s + s \<le> (i - 1) * (s :: nat)"
proof -
  assume a: "1 \<le> i" "1 \<le> j" "i \<noteq> j"
  have *: "(x - 1) * s + s \<le> (y - 1) * s" if "x < y" "1 \<le> x" for x y :: nat
  proof -
    have "(x - 1) * s + s = x * s" using that by (cases x) simp_all
    also have "\<dots> \<le> (y - 1) * s" using that by (intro mult_le_mono1) simp
    finally show ?thesis .
  qed
  show ?thesis using a *[of i j] *[of j i] by (cases "i < j") auto
qed

text \<open>A swap exchanges two elements and leaves the others.\<close>

lemma do_swap_elem:
  assumes "length array = cnt * size'" "1 \<le> a" "a \<le> cnt" "1 \<le> b" "b \<le> cnt" "a \<noteq> b" "1 \<le> i" "i \<le> cnt"
  shows "elem_at size' (do_swap array a b size') i = elem_at size' array (if i = a then b else if i = b then a else i)"
    and "length (do_swap array a b size') = cnt * size'"
proof -
  let ?o = "\<lambda>i. (i - 1) * size'"
  have bd: "?o j + size' \<le> length array" if "1 \<le> j" "j \<le> cnt" for j using elem_bounds[OF that] assms(1) by simp
  have l: "length (do_swap array a b size') = length array" by (simp add: do_swap_def Let_def)
  then show "length (do_swap array a b size') = cnt * size'" using assms(1) by simp
  have ap: "\<forall>k < size'. \<forall>m < size'. ?o a + k \<noteq> ?o b + m" using elem_apart[OF assms(2,4,6), of size'] by auto
  note sw = swap_bytes_nth[OF bd[OF assms(2,3)] bd[OF assms(4,5)] ap, of "[0..<size']"]
  define j where "j = (if i = a then b else if i = b then a else i)"
  have j: "1 \<le> j" "j \<le> cnt" using assms by (auto simp: j_def)
  have n: "do_swap array a b size' ! (?o i + k) = array ! (?o j + k)" if k: "k < size'" for k
  proof (cases "i = a \<or> i = b")
    case True
    then show ?thesis using sw[of k] k assms(6) by (auto simp: do_swap_def Let_def j_def lessThan_atLeast0)
  next
    case False
    then have "?o i + k \<notin> {?o a..<?o a + size'} \<union> {?o b..<?o b + size'}"
      using elem_apart[OF assms(7,2), of size'] elem_apart[OF assms(7,4), of size'] k by auto
    from swap_bytes_other[OF this, of "[0..<size']"] False show ?thesis
      by (auto simp: do_swap_def Let_def j_def lessThan_atLeast0)
  qed
  have "elem_at size' (do_swap array a b size') i = elem_at size' array j"
    unfolding elem_at_def using bd[OF assms(7,8)] bd[OF j] n l by (intro nth_equalityI) (simp_all add: nth_get_bytes)
  then show "elem_at size' (do_swap array a b size') i = elem_at size' array (if i = a then b else if i = b then a else i)"
    by (simp add: j_def)
qed

lemma do_swap_mset:
  assumes "length array = cnt * size'" "1 \<le> a" "a \<le> cnt" "1 \<le> b" "b \<le> cnt" "a \<noteq> b"
  shows "mset (elems cnt size' (do_swap array a b size')) = mset (elems cnt size' array)"
proof -
  let ?xs = "elems cnt size' array"
  have l: "length ?xs = cnt" by (simp add: elems_def del: upt_Suc)
  have "elems cnt size' (do_swap array a b size') = ?xs[a - 1 := ?xs ! (b - 1), b - 1 := ?xs ! (a - 1)]"
  proof (rule nth_equalityI)
    fix i assume "i < length (elems cnt size' (do_swap array a b size'))"
    then have i: "i < cnt" by (simp add: elems_def del: upt_Suc)
    then have n: "elems cnt size' ar ! i = elem_at size' ar (Suc i)" for ar by (simp add: elems_def del: upt_Suc)
    have e: "?xs ! (a - Suc 0) = elem_at size' array a" "?xs ! (b - Suc 0) = elem_at size' array b"
      using assms by (simp_all add: elems_def del: upt_Suc)
    show "elems cnt size' (do_swap array a b size') ! i = ?xs[a - 1 := ?xs ! (b - 1), b - 1 := ?xs ! (a - 1)] ! i"
      using do_swap_elem(1)[OF assms, of "Suc i"] i assms(2-6) l by (auto simp: n e nth_list_update)
  qed (simp add: elems_def del: upt_Suc)
  then show ?thesis using mset_swap[of "a - 1" ?xs "b - 1"] assms l by (simp add: list_update_swap)
qed

section \<open>Heaps\<close>

text \<open>What the comments ask of a comparison function: a total preorder, with the signs of \<open>strcmp\<close>.\<close>

definition strcmp_like :: "('a \<Rightarrow> 'a \<Rightarrow> int) \<Rightarrow> bool" where
  "strcmp_like compare \<longleftrightarrow> (\<forall>x y. compare x y > 0 \<longleftrightarrow> compare y x < 0) \<and>
     (\<forall>x y z. compare x y \<le> 0 \<longrightarrow> compare y z \<le> 0 \<longrightarrow> compare x z \<le> 0)"

lemma strcmp_likeD:
  assumes "strcmp_like compare"
  shows "compare x x \<le> 0" "\<not> compare x y \<le> 0 \<Longrightarrow> compare y x \<le> 0" "compare x y \<le> 0 \<Longrightarrow> compare y z \<le> 0 \<Longrightarrow> compare x z \<le> 0"
    "compare x y > 0 \<longleftrightarrow> compare y x < 0"
proof -
  have s: "compare x y > 0 \<longleftrightarrow> compare y x < 0" for x y using assms by (simp add: strcmp_like_def)
  show "compare x x \<le> 0" using s[of x x] by linarith
  show "\<not> compare x y \<le> 0 \<Longrightarrow> compare y x \<le> 0" using s[of x y] by linarith
  show "compare x y \<le> 0 \<Longrightarrow> compare y z \<le> 0 \<Longrightarrow> compare x z \<le> 0" using assms unfolding strcmp_like_def by blast
  show "compare x y > 0 \<longleftrightarrow> compare y x < 0" by (rule s)
qed

text \<open>In positions \<open>lo\<close> to \<open>n\<close> no element is above its parent.\<close>

definition heap_from :: "('a \<Rightarrow> 'a \<Rightarrow> int) \<Rightarrow> (nat \<Rightarrow> 'a) \<Rightarrow> nat \<Rightarrow> nat \<Rightarrow> bool" where
  "heap_from compare e lo n \<longleftrightarrow> (\<forall>j. lo \<le> j div 2 \<and> j \<le> n \<longrightarrow> compare (e j) (e (j div 2)) \<le> 0)"

lemma heap_root:
  assumes "strcmp_like compare" "heap_from compare e 1 n" "1 \<le> j" "j \<le> n"
  shows "compare (e j) (e 1) \<le> 0"
  using assms(3,4)
proof (induction j rule: less_induct)
  case (less j)
  show ?case
  proof (cases "j = 1")
    case False
    then have "compare (e (j div 2)) (e 1) \<le> 0" "compare (e j) (e (j div 2)) \<le> 0"
      using less assms(2) by (simp_all add: heap_from_def)
    then show ?thesis using strcmp_likeD(3)[OF assms(1)] by blast
  qed (simp add: strcmp_likeD(1)[OF assms(1)])
qed

lemma heapify_max_spec:
  fixes array i n size' compare
  defines "k \<equiv> heapify_max array i n size' compare" and "e \<equiv> elem_at size' array"
  assumes "strcmp_like compare" "1 \<le> i"
  shows "k = i \<or> k div 2 = i \<and> k \<le> n \<and> i < k \<and> compare (e i) (e k) \<le> 0"
    and "j div 2 = i \<Longrightarrow> j \<le> n \<Longrightarrow> compare (e j) (e k) \<le> 0"
proof -
  note c = strcmp_likeD[OF assms(3)]
  let ?k = "if 2 * i \<le> n \<and> compare (e (2 * i)) (e i) > 0 then 2 * i else i"
  have k: "k = (if 2 * i + 1 \<le> n \<and> compare (e (2 * i + 1)) (e ?k) > 0 then 2 * i + 1 else ?k)"
    by (simp add: k_def heapify_max_def Let_def do_compare_def e_def)
  have ik: "compare (e i) (e ?k) \<le> 0" using c(1)[of "e i"] c(4)[of "e (2 * i)" "e i"] by auto
  have lk: "compare (e (2 * i)) (e ?k) \<le> 0" if "2 * i \<le> n" using that c(1)[of "e (2 * i)"] by auto
  have kk: "compare (e ?k) (e k) \<le> 0" using k c(1)[of "e ?k"] c(4)[of "e (2 * i + 1)" "e ?k"] by (simp split: if_splits)
  have rk: "compare (e (2 * i + 1)) (e k) \<le> 0" if "2 * i + 1 \<le> n" using that k c(1)[of "e (2 * i + 1)"] by (simp split: if_splits)
  have "k = i \<or> k div 2 = i \<and> k \<le> n \<and> i < k" using k assms(4) by (simp split: if_splits)
  then show "k = i \<or> k div 2 = i \<and> k \<le> n \<and> i < k \<and> compare (e i) (e k) \<le> 0" using c(3)[OF ik kk] by blast
  assume j: "j div 2 = i" "j \<le> n"
  then have "j = 2 * i \<or> j = 2 * i + 1" by presburger
  then show "compare (e j) (e k) \<le> 0" using j rk c(3)[OF lk kk] by auto
qed

text \<open>A swap of \<open>i\<close> with its largest child moves the only place where the heap may be broken down.\<close>

lemma heap_swap_down:
  fixes e e' :: "nat \<Rightarrow> 'a" and j :: nat
  assumes c: "strcmp_like compare" and lo: "1 \<le> lo" "lo \<le> i" and k: "k div 2 = i" "k \<le> n" "i < k" "compare (e i) (e k) \<le> 0"
    and big: "\<And>j. j div 2 = i \<Longrightarrow> j \<le> n \<Longrightarrow> compare (e j) (e k) \<le> 0"
    and h1: "\<And>j. lo \<le> j div 2 \<Longrightarrow> j \<le> n \<Longrightarrow> j div 2 \<noteq> i \<Longrightarrow> compare (e j) (e (j div 2)) \<le> 0"
    and h2: "\<And>j. j div 2 = i \<Longrightarrow> j \<le> n \<Longrightarrow> lo \<le> i div 2 \<Longrightarrow> compare (e j) (e (i div 2)) \<le> 0"
    and e': "\<And>j. 1 \<le> j \<Longrightarrow> j \<le> n \<Longrightarrow> e' j = e (if j = i then k else if j = k then i else j)"
  shows "lo \<le> j div 2 \<Longrightarrow> j \<le> n \<Longrightarrow> j div 2 \<noteq> k \<Longrightarrow> compare (e' j) (e' (j div 2)) \<le> 0"
    and "j div 2 = k \<Longrightarrow> j \<le> n \<Longrightarrow> lo \<le> k div 2 \<Longrightarrow> compare (e' j) (e' (k div 2)) \<le> 0"
proof -
  assume j: "lo \<le> j div 2" "j \<le> n" "j div 2 \<noteq> k"
  have p: "1 \<le> j div 2" "j div 2 \<le> n" "1 \<le> j" using j lo by simp_all
  note ej = e'[OF p(3) j(2)] and ep = e'[OF p(1,2)]
  show "compare (e' j) (e' (j div 2)) \<le> 0"
  proof (cases "j div 2 = i")
    case True
    then have "j \<noteq> i" using p by presburger
    then show ?thesis using ej ep True k(4) big[OF True j(2)] by simp
  next
    case False
    then have "j \<noteq> k" using k(1) by blast
    show ?thesis
    proof (cases "j = i")
      case True
      then show ?thesis using ej ep False j(3) h2[OF k(1,2)] j(1) by simp
    qed (use ej ep False j \<open>j \<noteq> k\<close> h1[OF j(1,2) False] in simp)
  qed
next
  assume j: "j div 2 = k" "j \<le> n" "lo \<le> k div 2"
  have "1 \<le> j" "j \<noteq> i" "j \<noteq> k" "lo \<le> j div 2" "j div 2 \<noteq> i" "1 \<le> i" "i \<le> n"
    using j k lo by (auto; presburger)+
  then show "compare (e' j) (e' (k div 2)) \<le> 0"
    using e'[of j] e'[of i] h1[of j] j k(1) by simp
qed

lemma heapify_correct:
  assumes "strcmp_like compare" "length array = m * size'" "1 \<le> lo" "lo \<le> i" "i \<le> n" "n \<le> m"
    and "\<And>j. lo \<le> j div 2 \<Longrightarrow> j \<le> n \<Longrightarrow> j div 2 \<noteq> i \<Longrightarrow> compare (elem_at size' array j) (elem_at size' array (j div 2)) \<le> 0"
    and "\<And>j. j div 2 = i \<Longrightarrow> j \<le> n \<Longrightarrow> lo \<le> i div 2 \<Longrightarrow> compare (elem_at size' array j) (elem_at size' array (i div 2)) \<le> 0"
  shows "length (heapify array i n size' compare) = m * size' \<and>
    heap_from compare (elem_at size' (heapify array i n size' compare)) lo n \<and>
    (\<forall>j. n < j \<and> j \<le> m \<longrightarrow> elem_at size' (heapify array i n size' compare) j = elem_at size' array j) \<and>
    (\<forall>j. 1 \<le> j \<and> j \<le> n \<longrightarrow> (\<exists>j'. 1 \<le> j' \<and> j' \<le> n \<and> elem_at size' (heapify array i n size' compare) j = elem_at size' array j')) \<and>
    mset (elems m size' (heapify array i n size' compare)) = mset (elems m size' array)"
  using assms
proof (induction array i n size' compare rule: heapify.induct)
  case (1 array i n size' compare)
  let ?k = "heapify_max array i n size' compare" and ?e = "elem_at size' array"
  have i1: "1 \<le> i" using 1 by linarith
  note spec = heapify_max_spec[OF "1.prems"(1) i1, where array = array and size' = size' and n = n]
  show ?case
  proof (cases "?k = i")
    case True
    have "compare (?e j) (?e (j div 2)) \<le> 0" if "lo \<le> j div 2 \<and> j \<le> n" for j
      using that spec(2)[of j, unfolded True] "1.prems"(7)[of j] by (cases "j div 2 = i") simp_all
    then have "heap_from compare ?e lo n" by (simp add: heap_from_def)
    then show ?thesis using True 1 by (subst (1 2 3 4 5) heapify.simps) auto
  next
    case False
    let ?ar = "do_swap array i ?k size'"
    have k: "?k div 2 = i" "?k \<le> n" "i < ?k" "compare (?e i) (?e ?k) \<le> 0" using spec(1) False by auto
    have km: "i \<le> m" "1 \<le> ?k" "?k \<le> m" "i \<noteq> ?k" using k 1 by linarith+
    note sw = do_swap_elem(1)[OF "1.prems"(2) i1 km] 
    have len: "length ?ar = m * size'" using do_swap_elem(2)[OF "1.prems"(2) i1 km i1 km(1)] .
    have e': "elem_at size' ?ar j = ?e (if j = i then ?k else if j = ?k then i else j)" if "1 \<le> j" "j \<le> n" for j
      using sw that "1.prems"(6) by simp
    note inst = heap_swap_down[where e = ?e and e' = "elem_at size' ?ar" and i = i and k = ?k and n = n and lo = lo]
    have d1: "compare (elem_at size' ?ar j) (elem_at size' ?ar (j div 2)) \<le> 0" if "lo \<le> j div 2" "j \<le> n" "j div 2 \<noteq> ?k" for j
      by (rule inst(1)) (fact "1.prems" k spec(2) e' that)+
    have d2: "compare (elem_at size' ?ar j) (elem_at size' ?ar (?k div 2)) \<le> 0" if "j div 2 = ?k" "j \<le> n" "lo \<le> ?k div 2" for j
      by (rule inst(2)) (fact "1.prems" k spec(2) e' that)+
    have lok: "lo \<le> ?k" using k "1.prems"(4) by linarith
    let ?h = "heapify ?ar ?k n size' compare"
    have ih: "length ?h = m * size' \<and> heap_from compare (elem_at size' ?h) lo n \<and>
      (\<forall>j. n < j \<and> j \<le> m \<longrightarrow> elem_at size' ?h j = elem_at size' ?ar j) \<and>
      (\<forall>j. 1 \<le> j \<and> j \<le> n \<longrightarrow> (\<exists>j'. 1 \<le> j' \<and> j' \<le> n \<and> elem_at size' ?h j = elem_at size' ?ar j')) \<and>
      mset (elems m size' ?h) = mset (elems m size' ?ar)"
      by (rule "1.IH"[OF refl False "1.prems"(1) len "1.prems"(3) lok k(2) "1.prems"(6)]) (fact d1 d2)+
    have eq: "heapify array i n size' compare = heapify ?ar ?k n size' compare" using False by (subst heapify.simps) (simp add: Let_def)
    have out: "elem_at size' ?ar j = ?e j" if "n < j" "j \<le> m" for j
      using sw[of j] that k(2) "1.prems"(5) by simp
    have ins: "\<exists>j'. 1 \<le> j' \<and> j' \<le> n \<and> elem_at size' ?ar j = ?e j'" if "1 \<le> j" "j \<le> n" for j
      by (rule exI[of _ "if j = i then ?k else if j = ?k then i else j"])
        (use e'[OF that] that km i1 k(2) "1.prems"(5) in simp)
    have ms: "mset (elems m size' ?ar) = mset (elems m size' array)"
      by (rule do_swap_mset[OF "1.prems"(2) i1 km])
    show ?thesis unfolding eq
    proof (intro conjI allI impI)
      fix j assume "n < j \<and> j \<le> m"
      then show "elem_at size' (heapify ?ar ?k n size' compare) j = ?e j" using ih out[of j] by metis
    next
      fix j assume "1 \<le> j \<and> j \<le> n"
      then obtain j' where "1 \<le> j'" "j' \<le> n" "elem_at size' (heapify ?ar ?k n size' compare) j = elem_at size' ?ar j'"
        using ih by blast
      then show "\<exists>j'. 1 \<le> j' \<and> j' \<le> n \<and> elem_at size' (heapify ?ar ?k n size' compare) j = ?e j'"
        using ins[of j'] by metis
    qed (use ih ms in metis)+
  qed
qed

section \<open>The two loops of sort\<close>

lemma build_heap_correct:
  assumes "strcmp_like compare" "length array = m * size'" "i \<le> m" "heap_from compare (elem_at size' array) (Suc i) m"
  shows "length (build_heap i array m size' compare) = m * size' \<and>
    heap_from compare (elem_at size' (build_heap i array m size' compare)) 1 m \<and>
    mset (elems m size' (build_heap i array m size' compare)) = mset (elems m size' array)"
  using assms(2-)
proof (induction i arbitrary: array)
  case (Suc i)
  have h1: "compare (elem_at size' array j) (elem_at size' array (j div 2)) \<le> 0"
    if "Suc i \<le> j div 2" "j \<le> m" "j div 2 \<noteq> Suc i" for j
    using that Suc.prems(3) by (simp add: heap_from_def)
  have h2: "compare (elem_at size' array j) (elem_at size' array (Suc i div 2)) \<le> 0" if "Suc i \<le> Suc i div 2" for j
    using that by simp
  let ?h = "heapify array (Suc i) m size' compare"
  have h: "length ?h = m * size' \<and> heap_from compare (elem_at size' ?h) (Suc i) m \<and> mset (elems m size' ?h) = mset (elems m size' array)"
    using heapify_correct[OF assms(1) Suc.prems(1) _ order_refl Suc.prems(2) order_refl h1 h2] by simp
  have "length (build_heap i ?h m size' compare) = m * size' \<and>
    heap_from compare (elem_at size' (build_heap i ?h m size' compare)) 1 m \<and>
    mset (elems m size' (build_heap i ?h m size' compare)) = mset (elems m size' ?h)"
    by (rule Suc.IH) (use h Suc.prems(2) in simp_all)
  with h show ?case by simp
qed simp

text \<open>From position \<open>i + 1\<close> on, the array is sorted and no earlier element is greater.\<close>

definition sorted_above :: "('a \<Rightarrow> 'a \<Rightarrow> int) \<Rightarrow> (nat \<Rightarrow> 'a) \<Rightarrow> nat \<Rightarrow> nat \<Rightarrow> bool" where
  "sorted_above compare e i m \<longleftrightarrow> (\<forall>j k. 1 \<le> j \<and> j < k \<and> k \<le> m \<and> i < k \<longrightarrow> compare (e j) (e k) \<le> 0)"

lemma extract_max:
  assumes c: "strcmp_like compare" and len: "length array = m * size'" and i: "1 < i" "i \<le> m"
    and hp: "heap_from compare (elem_at size' array) 1 i" and so: "sorted_above compare (elem_at size' array) i m"
  defines "ar \<equiv> heapify (do_swap array 1 i size') 1 (i - 1) size' compare"
  shows "length ar = m * size'" "heap_from compare (elem_at size' ar) 1 (i - 1)"
    "sorted_above compare (elem_at size' ar) (i - 1) m" "mset (elems m size' ar) = mset (elems m size' array)"
proof -
  let ?e = "elem_at size' array" and ?s = "do_swap array 1 i size'"
  have b: "1 \<le> m" "1 \<le> i" "1 \<noteq> i" "1 \<le> (1 :: nat)" using i by simp_all
  note sw = do_swap_elem(1)[OF len b(4,1,2) i(2) b(3)]
  have es: "elem_at size' ?s j = ?e (if j = 1 then i else if j = i then 1 else j)" if "1 \<le> j" "j \<le> m" for j using sw that .
  have ls: "length ?s = m * size'" by (rule do_swap_elem(2)[OF len b(4,1,2) i(2) b(3) b(4,1)])
  have h1: "compare (elem_at size' ?s j) (elem_at size' ?s (j div 2)) \<le> 0" if "1 \<le> j div 2" "j \<le> i - 1" "j div 2 \<noteq> 1" for j
  proof -
    have "j \<noteq> 1" "j \<noteq> i" "j div 2 \<noteq> i" "j div 2 \<le> m" "j \<le> m" "1 \<le> j" using that i by auto
    then show ?thesis using es[of j] es[of "j div 2"] hp that by (simp add: heap_from_def)
  qed
  have h2: "compare (elem_at size' ?s j) (elem_at size' ?s (1 div 2)) \<le> 0" if "1 \<le> (1 :: nat) div 2" for j using that by simp
  have i1: "1 \<le> i - 1" "i - 1 \<le> m" using i by simp_all
  have r: "length ar = m * size' \<and> heap_from compare (elem_at size' ar) 1 (i - 1) \<and>
    (\<forall>j. i - 1 < j \<and> j \<le> m \<longrightarrow> elem_at size' ar j = elem_at size' ?s j) \<and>
    (\<forall>j. 1 \<le> j \<and> j \<le> i - 1 \<longrightarrow> (\<exists>j'. 1 \<le> j' \<and> j' \<le> i - 1 \<and> elem_at size' ar j = elem_at size' ?s j')) \<and>
    mset (elems m size' ar) = mset (elems m size' ?s)"
    unfolding ar_def by (rule heapify_correct[OF c ls order_refl order_refl i1]) (fact h1, use h2 in simp)
  then show "length ar = m * size'" "heap_from compare (elem_at size' ar) 1 (i - 1)" by blast+
  show "mset (elems m size' ar) = mset (elems m size' array)"
    using r do_swap_mset[OF len b(4,1,2) i(2) b(3)] by simp
  have top: "elem_at size' ar k = (if k = i then ?e 1 else ?e k)" if "i \<le> k" "k \<le> m" for k
    using r es[of k] that i by simp
  have low: "\<exists>j'. 1 \<le> j' \<and> j' \<le> i \<and> elem_at size' ar j = ?e j'" if "1 \<le> j" "j < i" for j
  proof -
    have "1 \<le> j \<and> j \<le> i - 1" using that by simp
    then obtain k where k: "1 \<le> k" "k \<le> i - 1" "elem_at size' ar j = elem_at size' ?s k" using r by blast
    then show ?thesis using es[of k] i by (intro exI[of _ "if k = 1 then i else k"]) auto
  qed
  show "sorted_above compare (elem_at size' ar) (i - 1) m"
    unfolding sorted_above_def
  proof (intro allI impI, elim conjE)
    fix j k assume jk: "1 \<le> j" "j < k" "k \<le> m" "i - 1 < k"
    obtain j' where j': "1 \<le> j'" "elem_at size' ar j = ?e j'" "j' \<le> i \<or> j' = j \<and> i < j"
    proof (cases "j < i")
      case True then show thesis using low[OF jk(1)] that by blast
    next
      case False
      then show thesis using top[of j] jk that[of "if j = i then 1 else j"] i by auto
    qed
    show "compare (elem_at size' ar j) (elem_at size' ar k) \<le> 0"
    proof (cases "k = i")
      case True
      then have "j' \<le> i" using j' jk by auto
      then show ?thesis using heap_root[OF c hp j'(1)] j'(2) top[of k] True jk by simp
    next
      case False
      then have "i < k" "j' < k" using j' jk by auto
      then show ?thesis using so j' top[of k] jk False by (simp add: sorted_above_def)
    qed
  qed
qed

lemma sort_heap_correct:
  assumes "strcmp_like compare" "length array = m * size'" "i \<le> m" "heap_from compare (elem_at size' array) 1 i"
    "sorted_above compare (elem_at size' array) i m"
  shows "length (sort_heap i array size' compare) = m * size' \<and>
    sorted_above compare (elem_at size' (sort_heap i array size' compare)) 1 m \<and>
    mset (elems m size' (sort_heap i array size' compare)) = mset (elems m size' array)"
  using assms(2-)
proof (induction i arbitrary: array rule: less_induct)
  case (less i)
  show ?case
  proof (cases "1 < i")
    case True
    note x = extract_max[OF assms(1) less.prems(1) True less.prems(2,3,4)]
    have "i - 1 < i" "i - 1 \<le> m" using True less.prems(2) by simp_all
    from less.IH[OF this(1) x(1) this(2) x(2,3)] x(4) show ?thesis
      using True by (subst (1 2 3) sort_heap.simps) simp
  next
    case False
    have "sorted_above compare (elem_at size' array) 1 m" using less.prems(4) False by (simp add: sorted_above_def)
    then show ?thesis using False less.prems(1) by (subst (1 2 3) sort_heap.simps) simp
  qed
qed

text \<open>
  C25: The heap sort sorts.  For a comparison function with the signs of \<open>strcmp\<close> that is a total
  preorder, \<open>sort\<close> on an array of \<open>cnt\<close> elements of \<open>size\<close> bytes returns an array with the same
  elements, as often as before, in ascending order.
\<close>

theorem sort_array_sorts:
  assumes "strcmp_like compare" "length array = cnt * size'" "0 < size'"
  shows "\<exists>array'. sort_array array cnt size' compare = Some array' \<and> length array' = length array \<and>
    mset (elems cnt size' array') = mset (elems cnt size' array) \<and>
    sorted_wrt (\<lambda>x y. compare x y \<le> 0) (elems cnt size' array')"
proof -
  let ?b = "build_heap (cnt div 2) array cnt size' compare"
  have "heap_from compare (elem_at size' array) (Suc (cnt div 2)) cnt" by (auto simp: heap_from_def)
  then have b: "length ?b = cnt * size' \<and> heap_from compare (elem_at size' ?b) 1 cnt \<and>
      mset (elems cnt size' ?b) = mset (elems cnt size' array)"
    by (intro build_heap_correct assms) simp
  moreover have "sorted_above compare (elem_at size' ?b) cnt cnt" by (simp add: sorted_above_def)
  ultimately have h: "length (sort_heap cnt ?b size' compare) = cnt * size' \<and>
      sorted_above compare (elem_at size' (sort_heap cnt ?b size' compare)) 1 cnt \<and>
      mset (elems cnt size' (sort_heap cnt ?b size' compare)) = mset (elems cnt size' ?b)"
    by (intro sort_heap_correct assms) simp_all
  then have "sorted_wrt (\<lambda>x y. compare x y \<le> 0) (elems cnt size' (sort_heap cnt ?b size' compare))"
    by (auto simp: sorted_wrt_iff_nth_less elems_def sorted_above_def simp del: upt_Suc)
  with h b assms(2,3) show ?thesis by (simp add: sort_array_def Let_def)
qed

theorem sort_array_sorts_witness:
  "\<exists>array'. sort_array [3, 1, 2] 3 1 (\<lambda>x y. uint (x ! 0) - uint (y ! 0)) = Some array' \<and>
     mset (elems 3 1 array') = {#[1], [2], [3]#}"
proof -
  let ?c = "\<lambda>(x :: u8 list) (y :: u8 list). uint (x ! 0) - uint (y ! 0)"
  have "strcmp_like ?c" by (simp add: strcmp_like_def)
  from sort_array_sorts[OF this, of "[3, 1, 2]" 3 1] show ?thesis
    by (auto simp: elems_def elem_at_def get_bytes_def upt_rec numeral_nat)
qed

section \<open>Searching\<close>

lemma binary_search_loop_correct:
  assumes c: "strcmp_like compare" and s: "0 < size'" and so: "sorted_wrt (\<lambda>x y. compare x y \<le> 0) (map (\<lambda>i. get_bytes (i * size') size' array) [0..<cnt])"
    and b: "l \<le> cnt" and lo: "\<forall>i < f. compare key (get_bytes (i * size') size' array) > 0"
    and hi: "\<forall>i. l \<le> i \<and> i < cnt \<longrightarrow> compare key (get_bytes (i * size') size' array) < 0"
  shows "\<exists>r. binary_search_loop key (f * size') (l * size') array size' compare = Some r \<and>
    (case r of None \<Rightarrow> \<forall>i < cnt. compare key (get_bytes (i * size') size' array) \<noteq> 0
     | Some p \<Rightarrow> \<exists>i < cnt. p = i * size' \<and> compare key (get_bytes p size' array) = 0)"
  using b lo hi
proof (induction "l - f" arbitrary: f l rule: less_induct)
  case less
  let ?x = "\<lambda>i. get_bytes (i * size') size' array"
  show ?case
  proof (cases "f < l")
    case False
    then have "binary_search_loop key (f * size') (l * size') array size' compare = Some None"
      by (subst binary_search_loop.simps) simp
    moreover have "compare key (?x i) \<noteq> 0" if "i < cnt" for i
      using less.prems(2)[rule_format, of i] less.prems(3)[rule_format, of i] that False by (cases "i < f") simp_all
    ultimately show ?thesis by simp
  next
    case True
    define mid where "mid = f + (l - f) div 2"
    have m: "f \<le> mid" "mid < l" "mid < cnt" using True less.prems(1) by (auto simp: mid_def)
    have lt: "f * size' < l * size'" using True s by simp
    have d: "(l * size' - f * size') div size' = l - f" using s by (simp flip: diff_mult_distrib)
    have mm: "f * size' + ((l - f) div 2) * size' = mid * size'" by (simp add: mid_def add_mult_distrib)
    have step: "binary_search_loop key (f * size') (l * size') array size' compare =
      (if compare key (?x mid) < 0 then binary_search_loop key (f * size') (mid * size') array size' compare
       else if compare key (?x mid) > 0 then binary_search_loop key (Suc mid * size') (l * size') array size' compare
       else Some (Some (mid * size')))"
      using lt s by (subst binary_search_loop.simps) (simp add: Let_def d mm add.commute)
    have ord: "compare (?x i) (?x j) \<le> 0" if "i < j" "j < cnt" for i j
      using so that by (auto simp: sorted_wrt_iff_nth_less)
    note cl = strcmp_likeD[OF c]
    consider "compare key (?x mid) < 0" | "compare key (?x mid) > 0" | "compare key (?x mid) = 0" by linarith
    then show ?thesis
    proof cases
      case 1
      have "compare key (?x i) < 0" if "mid \<le> i" "i < cnt" for i
      proof (cases "i = mid")
        case False
        then have o: "compare (?x mid) (?x i) \<le> 0" using ord that by simp
        show ?thesis
        proof (rule ccontr)
          assume "\<not> compare key (?x i) < 0"
          then have "compare (?x i) key \<le> 0" using cl(4)[of "?x i" key] by linarith
          then have "compare (?x mid) key \<le> 0" by (rule cl(3)[OF o])
          then show False using 1 cl(4)[of "?x mid" key] by linarith
        qed
      qed (use 1 in simp)
      then have "\<forall>i. mid \<le> i \<and> i < cnt \<longrightarrow> compare key (?x i) < 0" by blast
      from less.hyps[of mid f, OF _ _ less.prems(2) this] show ?thesis using 1 m step by simp
    next
      case 2
      have "compare key (?x i) > 0" if "i < Suc mid" for i
      proof (cases "i = mid")
        case False
        then have o: "compare (?x i) (?x mid) \<le> 0" using ord that m(3) by simp
        show ?thesis
        proof (rule ccontr)
          assume "\<not> compare key (?x i) > 0"
          then have "compare key (?x i) \<le> 0" by linarith
          from cl(3)[OF this o] show False using 2 by linarith
        qed
      qed (use 2 in simp)
      then have "\<forall>i < Suc mid. compare key (?x i) > 0" by blast
      from less.hyps[of l "Suc mid", OF _ less.prems(1) this less.prems(3)] show ?thesis using 2 m step by simp
    next
      case 3
      then show ?thesis using step m by auto
    qed
  qed
qed

text \<open>
  The binary search is correct.  On an array that is sorted by the comparison function,
  \<open>binary_search\<close> returns, either the offset of an element that compares equal to the key, or a
  null pointer, and then no element does.
\<close>

theorem binary_search_correct:
  assumes "strcmp_like compare" "0 < size'" "sorted_wrt (\<lambda>x y. compare x y \<le> 0) (map (\<lambda>i. get_bytes (i * size') size' array) [0..<cnt])"
  shows "\<exists>r. binary_search key array cnt size' compare = Some r \<and>
    (case r of None \<Rightarrow> \<forall>i < cnt. compare key (get_bytes (i * size') size' array) \<noteq> 0
     | Some p \<Rightarrow> \<exists>i < cnt. p = i * size' \<and> compare key (get_bytes p size' array) = 0)"
  using binary_search_loop_correct[OF assms order_refl, of 0 key] by (simp add: binary_search_def mult.commute)

theorem binary_search_correct_witness:
  "\<exists>i < 3. binary_search [7] [1, 7, 9] 3 1 (\<lambda>x y. uint (x ! 0) - uint (y ! 0)) = Some (Some i)"
proof -
  let ?c = "\<lambda>(x :: u8 list) (y :: u8 list). uint (x ! 0) - uint (y ! 0)"
  have c: "strcmp_like ?c" by (simp add: strcmp_like_def)
  have so: "sorted_wrt (\<lambda>x y. ?c x y \<le> 0) (map (\<lambda>i. get_bytes (i * 1) 1 [1, 7, 9]) [0..<3])"
  proof -
    have "[0..<3] = [0, 1, 2 :: nat]" by (simp add: upt_rec)
    then show ?thesis by (simp add: get_bytes_def)
  qed
  show ?thesis
  proof (rule exE[OF binary_search_correct[OF c zero_less_one so, of "[7]"]], elim conjE)
    fix r assume r: "binary_search [7] [1, 7, 9] 3 1 ?c = Some r"
      and p: "case r of None \<Rightarrow> \<forall>i < 3. ?c [7] (get_bytes (i * 1) 1 [1, 7, 9]) \<noteq> 0
        | Some p \<Rightarrow> \<exists>i < 3. p = i * 1 \<and> ?c [7] (get_bytes p 1 [1, 7, 9]) = 0"
    have "?c [7] (get_bytes (1 * 1) 1 [1, 7, 9]) = 0" by (simp add: get_bytes_def)
    note z = this
    have "r \<noteq> None"
    proof
      assume n: "r = None"
      show False using p[unfolded n option.case, rule_format, of 1] z by simp
    qed
    then obtain q where q: "r = Some q" by blast
    then have "q < 3" using p unfolding q option.case by (elim exE conjE) simp
    with r q show ?thesis by blast
  qed
qed

end
