(* ===== verification/KStdioProps.thy ===== *)
theory KStdioProps imports KStdio begin

text \<open>
  What \<open>vsnprintf\<close> writes, and that \<open>atoi\<close> reads back what \<open>snprintf\<close> prints.
\<close>

section \<open>Output into a buffer\<close>

lemma sint_of_nat_small: "n < 2 ^ 31 \<Longrightarrow> sint (of_nat n :: u32) = int n"
  by (simp add: signed_of_nat signed_take_bit_int_eq_self)

lemma helper_fold:
  assumes "length out < 2 ^ 31" "mx < 2 ^ 31"
  shows "fold vsnprintf_helper out \<lparr>out_p = buffer, out_length = 0, max_length = of_nat mx, out_mem = m\<rparr> =
    \<lparr>out_p = buffer + min (length out) mx, out_length = of_nat (length out), max_length = of_nat mx,
     out_mem = (\<lambda>a. if buffer \<le> a \<and> a < buffer + min (length out) mx then out ! (a - buffer) else m a)\<rparr>"
  using assms(1)
proof (induction out rule: rev_induct)
  case Nil
  then show ?case by (auto simp: fun_eq_iff)
next
  case (snoc c out)
  have lt: "length out < 2 ^ 31" using snoc.prems by simp
  have room: "(of_nat (length out) :: u32) <s of_nat mx \<longleftrightarrow> length out < mx"
    using sint_of_nat_small[OF lt] sint_of_nat_small[OF assms(2)] by (simp add: word_sless_alt)
  show ?case
    using snoc.IH[OF lt] by (auto simp: vsnprintf_helper_def Let_def room min_def nth_append fun_eq_iff)
qed

lemma of_nat_unat_minus_one: "(w :: u32) \<noteq> 0 \<Longrightarrow> of_nat (unat w - 1) = w - 1"
proof -
  assume w: "w \<noteq> 0"
  have "of_nat (unat w - 1) = (of_nat (unat (w - 1)) :: u32)" by (simp only: unat_minus_one[OF w])
  then show ?thesis by simp
qed

text \<open>
  C28: Formatted output into a buffer stays inside it.  For every format whose conversion gives the
  characters \<open>out\<close>, \<open>vsnprintf\<close> returns the number of these characters, stores as many of them as
  fit, and a terminating zero, into the buffer and writes nothing outside it; with a buffer of size
  zero it writes nothing at all.  Sizes and lengths are such that an \<open>int\<close> holds them, and the format and the
  strings do not lie in the buffer.
\<close>

theorem vsnprintf_bounded:
  assumes "vprintf_loop format m args m = Some out" "length out < 2 ^ 31" "unat buf_size \<le> 2 ^ 31"
  shows "\<exists>m'. vsnprintf buffer buf_size format args m = Some (of_nat (length out), m') \<and>
    (if buf_size = 0 then m' = m
     else \<exists>n. n = min (length out) (unat buf_size - 1) \<and> (\<forall>i < n. m' (buffer + i) = out ! i) \<and> m' (buffer + n) = 0 \<and>
       (\<forall>a. a \<notin> {buffer..<buffer + unat buf_size} \<longrightarrow> m' a = m a))"
proof -
  let ?mx = "unat buf_size - 1"
  show ?thesis
  proof (cases "buf_size = 0")
    case True
    have "fold vsnprintf_helper out \<lparr>out_p = buffer, out_length = 0, max_length = 0, out_mem = m\<rparr> =
      \<lparr>out_p = buffer, out_length = of_nat (length out), max_length = 0, out_mem = m\<rparr>"
    proof -
      have "(\<lambda>a. if buffer \<le> a \<and> a < buffer then out ! (a - buffer) else m a) = m" by (rule ext) auto
      then show ?thesis using helper_fold[OF assms(2), of 0 buffer m] by simp
    qed
    then show ?thesis using True by (simp add: vsnprintf_def vprintf_to_def assms(1))
  next
    case False
    have mx: "buf_size - 1 = of_nat ?mx" by (simp only: of_nat_unat_minus_one[OF False])
    have pos: "0 < unat buf_size" using False by (simp add: unat_gt_0)
    then have "?mx < 2 ^ 31" using assms(3) by linarith
    note h = helper_fold[OF assms(2) this, of buffer m]
    show ?thesis
      using False pos h unfolding vsnprintf_def vprintf_to_def assms(1) mx
      by (auto simp: word_gt_0)
  qed
qed

section \<open>Decimal numbers\<close>

text \<open>The decimal digits of a number, the last one first.\<close>

fun dec_digits :: "nat \<Rightarrow> u8 list" where
  "dec_digits n = (if n = 0 then [] else (48 + of_nat (n mod 10)) # dec_digits (n div 10))"

declare dec_digits.simps [simp del]

lemma dec_digits_0 [simp]: "dec_digits 0 = []"
  by (simp add: dec_digits.simps)

lemma dec_digits_pos: "0 < n \<Longrightarrow> dec_digits n = (48 + of_nat (n mod 10)) # dec_digits (n div 10)"
  by (subst dec_digits.simps) simp

lemma digit_char: "k < 10 \<Longrightarrow> digits base_d ! k = 48 + of_nat k"
proof -
  assume "k < 10"
  then have "k \<in> {0, 1, 2, 3, 4, 5, 6, 7, 8, 9}" by auto
  then show ?thesis by (auto simp: base_d_def)
qed

lemma digits_loop_dec:
  "digits_loop base_d False v k buf = Some (buf @ dec_digits (unat v))"
proof (induction "unat v" arbitrary: v k buf rule: less_induct)
  case less
  show ?case
  proof (cases "v = 0")
    case True
    then show ?thesis by (subst digits_loop.simps) simp
  next
    case False
    have b: "ib_base base_d = 10" by (simp add: base_d_def)
    have u: "unat (v div 10) = unat v div 10" "unat (v mod 10) = unat v mod 10" by (simp_all add: unat_div unat_mod)
    have pos: "0 < unat v" using False by (simp add: unat_gt_0)
    then have "unat (v div 10) < unat v" using u(1) by simp
    from less.hyps[OF this, of "k + 1"] have "digits_loop base_d False (v div 10) (k + 1) (buf @ [48 + of_nat (unat v mod 10)]) =
        Some (buf @ dec_digits (unat v))"
      using u pos by (simp add: dec_digits_pos)
    moreover have "digits base_d ! unat (v mod 10) = 48 + of_nat (unat v mod 10)" using u(2) by (simp add: digit_char)
    ultimately show ?thesis using False by (subst digits_loop.simps) (simp add: Let_def b word_gt_0)
  qed
qed

definition dec_string :: "bool \<Rightarrow> nat \<Rightarrow> u8 list" where
  "dec_string negative n = (if negative then [45] else []) @ (if n = 0 then [48] else rev (dec_digits n))"

lemma length_dec_digits: "n < 10 ^ k \<Longrightarrow> length (dec_digits n) \<le> k"
proof (induction k arbitrary: n)
  case (Suc k)
  show ?case
  proof (cases "n = 0")
    case False
    have "n div 10 < 10 ^ k" using Suc.prems by (simp add: div_less_iff_less_mult mult.commute)
    then show ?thesis using Suc.IH False by (simp add: dec_digits_pos)
  qed simp
qed simp

definition plain_d :: printf_conversion where
  "plain_d = \<lparr>flags = 0, width = 0, precision = - 1, arg_type = T_INT\<rparr>"

lemma zeros_loop_1: "zeros_loop 1 buf = (if buf = [] then [48] else buf)"
proof (cases buf)
  case Nil
  have "\<not> (1 :: u32) <s 1" by simp
  then show ?thesis using Nil by (subst zeros_loop.simps, subst zeros_loop.simps) (simp add: word_sless_alt)
next
  case (Cons x xs)
  have "\<not> (of_nat (length buf) :: u32) <s 1 \<or> length buf \<ge> 63"
  proof (cases "length buf < 63")
    case True
    then have "sint (of_nat (length buf) :: u32) = int (length buf)" by (intro sint_of_nat_small) simp
    then show ?thesis using Cons by (simp add: word_sless_alt)
  qed simp
  then show ?thesis using Cons by (subst zeros_loop.simps) auto
qed

lemma neg_small: "1 \<le> n \<Longrightarrow> n < 2 ^ 31 \<Longrightarrow> (- of_nat n :: u32) <s 0"
proof -
  assume n: "1 \<le> n" "n < 2 ^ 31"
  have "(- of_nat n :: u32) = of_int (- int n)" by simp
  then have "sint (- of_nat n :: u32) = signed_take_bit 31 (- int n)" by (simp only: signed_of_int) simp
  also have "\<dots> = - int n" using n by (intro signed_take_bit_int_eq_self) simp_all
  finally show ?thesis using n by (simp add: word_sless_alt)
qed

lemma output_dup_0 [simp]: "output_dup c 0 = []"
  by (simp add: output_dup_def)

lemma plain_d_sel [simp]: "flags plain_d = 0" "width plain_d = 0" "precision plain_d = - 1" "arg_type plain_d = T_INT"
  by (simp_all add: plain_d_def)

lemma format_plain:
  assumes "unat v < 10 ^ 20"
  shows "format_integer v True negative base_d plain_d = Some (dec_string negative (unat v))"
proof -
  let ?ds = "dec_digits (unat v)"
  have sg: "format_sign True neg plain_d = (if neg then 45 else 0)" for neg by (simp add: format_sign_def)
  have l: "length ?ds \<le> 20" by (rule length_dec_digits[OF assms])
  have c: "(- 1 :: u32) <s 0" "(- 2 :: u32) <s 0" using neg_small[of 1] neg_small[of 2] by simp_all
  have b: "base_char base_d = 0" by (simp add: base_d_def)
  note unf = format_integer_def digits_loop_dec Let_def sg zeros_loop_1 b dec_string_def
  show ?thesis
  proof (cases "unat v = 0")
    case True
    then have "v = 0" by (simp add: unat_eq_0)
    then show ?thesis using c by (cases negative) (simp_all add: unf)
  next
    case False
    then have p: "1 \<le> length ?ds" "?ds \<noteq> []" by (simp_all add: dec_digits_pos)
    have e: "(- of_nat (length ?ds) - 1 :: u32) = - of_nat (length ?ds + 1)" by simp
    have "(- of_nat (length ?ds) - 1 :: u32) <s 0" unfolding e by (rule neg_small) (use l in simp_all)
    moreover have "(- of_nat (length ?ds) :: u32) <s 0" using neg_small[of "length ?ds"] p l by simp
    ultimately have "(- of_nat (length ?ds) :: u32) <s 0" "(- of_nat (length ?ds) - 1 :: u32) <s 0" by blast+
    then show ?thesis using c False p(2) by (cases negative) (simp_all add: unf)
  qed
qed

section \<open>Reading back\<close>

lemma cstr_append_zero: "cstr m p s \<longleftrightarrow> (\<forall>i < length s. m (p + i) = s ! i) \<and> m (p + length s) = 0 \<and> 0 \<notin> set s"
proof (induction m p s rule: cstr.induct)
  case (2 m p c s)
  then show ?case by (auto simp: All_less_Suc2)
qed simp

lemma isdigit_char: "k < 10 \<Longrightarrow> isdigit (sint (48 + of_nat k :: u8)) \<and> scast (48 + of_nat k :: u8) = (48 + of_nat k :: u32)"
proof -
  assume "k < 10"
  then have "k \<in> {0, 1, 2, 3, 4, 5, 6, 7, 8, 9}" by auto
  then show ?thesis by (auto simp: isdigit_def)
qed

lemma atoi_digits_string:
  assumes "\<forall>c \<in> set ds. \<exists>k < 10. c = 48 + of_nat k" "cstr m p ds"
  shows "atoi_digits val p m = Some (foldl (\<lambda>v d. v * 10 - (scast d - 48)) val ds)"
  using assms
proof (induction ds arbitrary: p val)
  case Nil
  then show ?case by (subst atoi_digits.simps) (simp add: isdigit_def)
next
  case (Cons d ds)
  then have "isdigit (sint (m p))" using isdigit_char by auto
  then show ?case using Cons by (subst atoi_digits.simps) simp
qed

lemma foldl_dec: "foldl (\<lambda>v d. v * 10 - (scast d - 48)) 0 (rev (dec_digits n)) = (- of_nat n :: u32)"
proof (induction n rule: less_induct)
  case (less n)
  show ?case
  proof (cases "n = 0")
    case False
    have "scast (48 + of_nat (n mod 10) :: u8) - 48 = (of_nat (n mod 10) :: u32)"
      using isdigit_char[of "n mod 10"] by simp
    then have "foldl (\<lambda>v d. v * 10 - (scast d - 48)) 0 (rev (dec_digits n)) = - (of_nat (n div 10) * 10 + of_nat (n mod 10) :: u32)"
      using less[of "n div 10"] False by (simp add: dec_digits_pos)
    also have "of_nat (n div 10) * 10 + of_nat (n mod 10) = (of_nat n :: u32)"
      by (metis div_mult_mod_eq of_nat_add of_nat_mult of_nat_numeral)
    finally show ?thesis .
  qed simp
qed

lemma dec_digits_chars: "\<forall>c \<in> set (dec_digits n). \<exists>k < 10. c = 48 + of_nat k"
proof (induction n rule: less_induct)
  case (less n)
  show ?case
  proof (cases "n = 0")
    case False
    have "\<exists>k < 10. (48 + of_nat (n mod 10) :: u8) = 48 + of_nat k" by (rule exI[of _ "n mod 10"]) simp
    then show ?thesis using less.IH[of "n div 10"] False by (simp add: dec_digits_pos)
  qed simp
qed

lemma dec_string_chars:
  defines "ds n \<equiv> (if n = 0 then [48] else rev (dec_digits n))"
  shows "\<forall>c \<in> set (ds n). \<exists>k < 10. c = 48 + of_nat k"
    and "foldl (\<lambda>v d. v * 10 - (scast d - 48)) 0 (ds n) = (- of_nat n :: u32)" and "ds n \<noteq> []"
  using dec_digits_chars[of n] foldl_dec[of n] by (auto simp: ds_def dec_digits_pos intro: exI[of _ 0])

lemma atoi_dec_string:
  assumes "cstr m p (dec_string negative n)" "p \<noteq> 0"
  shows "atoi p m = Some (if negative then - of_nat n else of_nat n)"
proof -
  define ds where "ds = (if n = 0 then [48] else rev (dec_digits n))"
  note d = dec_string_chars[where n = n, folded ds_def]
  have digit: "m q \<noteq> 43 \<and> m q \<noteq> 45 \<and> \<not> isspace (uint (m q))" if "cstr m q ds" for q
  proof -
    obtain c cs where "ds = c # cs" using d(3) by (cases ds) auto
    moreover then obtain k where "k < 10" "c = 48 + of_nat k" using d(1) by (metis list.set_intros(1))
    ultimately have "k < 10" "m q = 48 + of_nat k" using that by simp_all
    then have "k \<in> {0, 1, 2, 3, 4, 5, 6, 7, 8, 9} \<and> m q = 48 + of_nat k" by auto
    then show ?thesis by (auto simp: isspace_def)
  qed
  have s: "cstr m p ((if negative then [45] else []) @ ds)" using assms(1) by (simp add: dec_string_def ds_def)
  show ?thesis
  proof (cases negative)
    case True
    then have "m p = 45" "cstr m (p + 1) ds" using s by simp_all
    moreover have "\<not> isspace (uint (45 :: u8))" by (simp add: isspace_def)
    ultimately show ?thesis
      using True assms(2) atoi_digits_string[OF d(1)] d(2) by (simp add: atoi_def skip_space.simps[of p])
  next
    case False
    then have "cstr m p ds" using s by simp
    then show ?thesis
      using False assms(2) atoi_digits_string[OF d(1)] d(2) digit[of p] by (simp add: atoi_def skip_space.simps[of p])
  qed
qed

section \<open>The format of a plain decimal number\<close>

lemma ucast_scast_u64: "(ucast (scast (v :: u32) :: u64) :: u32) = v"
  by (rule bit_word_eqI) (auto simp: bit_ucast_iff bit_signed_iff)

lemma ucast_minus_u64: "(ucast (- x :: u64) :: u32) = - ucast x"
proof -
  have "uint (ucast (- x) :: u32) = (- uint x) mod 2 ^ 64 mod 2 ^ 32"
    by (simp add: unsigned_ucast_eq uint_word_ariths take_bit_eq_mod)
  also have "\<dots> = (- uint x) mod 2 ^ 32" by (simp add: mod_mod_cancel)
  also have "\<dots> = (- (uint x mod 2 ^ 32)) mod 2 ^ 32" by (simp only: mod_minus_eq)
  also have "\<dots> = uint (- ucast x :: u32)"
    by (simp add: unsigned_ucast_eq uint_word_ariths take_bit_eq_mod)
  finally show ?thesis by (simp add: word_uint_eq_iff)
qed

lemma parse_plain_d:
  assumes "m p = byte CHR ''d''"
  shows "parse_conversion p args m = Some (p, plain_d, args)"
proof -
  have f: "parse_flags p 0 m = Some (0, p)" using assms by (subst parse_flags.simps) simp
  have n: "parse_number p 0 m = Some (0, p)" using assms by (subst parse_number.simps) (simp add: isdigit_def)
  have "\<not> (0 :: u32) \<le>s - 1" by (simp add: word_sle_eq)
  then show ?thesis
    using assms f n by (simp add: parse_conversion_def parse_type_def plain_d_def Let_def)
qed

lemma unat_u64: "unat (x :: u64) < 10 ^ 20"
proof -
  have "unat x < 2 ^ 64" using unsigned_less[of x] by simp
  then show ?thesis by simp
qed

text \<open>The characters of \<open>%d\<close> for the 32-bit value \<open>v\<close>.\<close>

definition decimal :: "u32 \<Rightarrow> u8 list" where
  "decimal v = (let x = scast v :: u64 in dec_string (x <s 0) (unat (if x <s 0 then - x else x)))"

lemma vprintf_plain_d:
  assumes "m f = byte CHR ''%''" "m (f + 1) = byte CHR ''d''" "m (f + 2) = 0"
  shows "vprintf_loop f m (v # args) m = Some (decimal v)"
proof -
  let ?x = "scast v :: u64"
  note fi = format_plain[OF unat_u64, of "if ?x <s 0 then - ?x else ?x" "?x <s 0"]
  have z: "vprintf_loop (f + 1 + 1) m args m = Some []"
    using assms(3) by (subst vprintf_loop.simps) (simp add: numeral_2_eq_2)
  have p: "parse_conversion (f + 1) (v # args) m = Some (f + 1, plain_d, v # args)"
    by (rule parse_plain_d) (rule assms(2))
  show ?thesis
    by (subst vprintf_loop.simps)
      (use assms fi z p in \<open>simp add: signed_arg_def va_arg_def decimal_def Let_def\<close>)
qed

lemma decimal_length: "length (decimal v) \<le> 21" and decimal_no_zero: "0 \<notin> set (decimal v)"
proof -
  have "length (dec_digits (unat x)) \<le> 20" for x :: u64 by (rule length_dec_digits[OF unat_u64])
  from this this[THEN le_SucI] show "length (decimal v) \<le> 21" by (simp add: decimal_def dec_string_def Let_def)
  have nz: "(48 + of_nat k :: u8) \<noteq> 0" if "k < 10" for k
  proof -
    have "k \<in> {0, 1, 2, 3, 4, 5, 6, 7, 8, 9}" using that by auto
    then show ?thesis by auto
  qed
  have "0 \<notin> set (dec_digits n)" for n
  proof
    assume "0 \<in> set (dec_digits n)"
    then obtain k where "k < 10" "(0 :: u8) = 48 + of_nat k" using dec_digits_chars by blast
    then show False using nz[of k] by metis
  qed
  then show "0 \<notin> set (decimal v)" by (simp add: decimal_def dec_string_def Let_def)
qed

text \<open>
  C29: Numbers survive being printed and read.  For every 32-bit value, \<open>snprintf\<close> with the format
  \<open>%d\<close> into a buffer of at least 22 bytes succeeds, and \<open>atoi\<close> on the buffer returns the value again.
\<close>

theorem snprintf_atoi_roundtrip:
  assumes "m f = byte CHR ''%''" "m (f + 1) = byte CHR ''d''" "m (f + 2) = 0" "buffer \<noteq> 0"
    "22 \<le> unat buf_size" "unat buf_size \<le> 2 ^ 31"
  shows "\<exists>n m'. snprintf buffer buf_size f [v] m = Some (n, m') \<and> atoi buffer m' = Some v"
proof -
  let ?x = "scast v :: u64" and ?out = "decimal v"
  have l: "length ?out < 2 ^ 31" using decimal_length[of v] by simp
  have mx: "(if buf_size > 0 then buf_size - 1 else 0) = of_nat (unat buf_size - 1)" "unat buf_size - 1 < 2 ^ 31" "buf_size \<noteq> 0"
    using assms(5,6) of_nat_unat_minus_one[of buf_size] by (auto simp: word_gt_0)
  note h = helper_fold[OF l mx(2), of buffer m]
  define m' where "m' = (\<lambda>a. if buffer \<le> a \<and> a < buffer + length ?out then ?out ! (a - buffer) else m a)(buffer + length ?out := 0)"
  have "min (length ?out) (unat buf_size - 1) = length ?out" using decimal_length[of v] assms(5) by simp
  then have "snprintf buffer buf_size f [v] m = Some (of_nat (length ?out), m')"
    using h mx by (simp add: snprintf_def vsnprintf_def vprintf_to_def vprintf_plain_d[OF assms(1-3)] m'_def word_gt_0)
  moreover have "cstr m' buffer ?out"
    using decimal_no_zero[of v] by (simp add: cstr_append_zero m'_def)
  then have "atoi buffer m' = Some (if ?x <s 0 then - ucast (- ?x) else ucast ?x)"
    using atoi_dec_string[OF _ assms(4)] unfolding decimal_def Let_def by auto
  then have "atoi buffer m' = Some v" by (simp add: ucast_minus_u64 ucast_scast_u64)
  ultimately show ?thesis by blast
qed

theorem snprintf_atoi_roundtrip_witness:
  "\<exists>n m'. snprintf 100 32 10 [- 42] ((\<lambda>_. 0)(10 := byte CHR ''%'', 11 := byte CHR ''d'')) = Some (n, m') \<and> atoi 100 m' = Some (- 42)"
  using snprintf_atoi_roundtrip[of "(\<lambda>_. 0)(10 := byte CHR ''%'', 11 := byte CHR ''d'')" 10 100 32 "- 42"] by simp

theorem vsnprintf_bounded_witness:
  "\<exists>m'. vsnprintf 100 3 10 [123456] ((\<lambda>_. 0)(10 := byte CHR ''%'', 11 := byte CHR ''d'')) = Some (of_nat (length (decimal 123456)), m') \<and>
     m' 103 = 0"
proof -
  let ?m = "(\<lambda>_. 0)(10 := byte CHR ''%'', 11 := byte CHR ''d'') :: memory"
  have "vprintf_loop 10 ?m [123456] ?m = Some (decimal 123456)" by (rule vprintf_plain_d) simp_all
  from vsnprintf_bounded[OF this, of 3 100] decimal_length[of 123456] show ?thesis by auto
qed

end
