(* ===== verification/KMalloc.thy ===== *)
theory KMalloc imports KSyscall KPagingMap begin

unbundle bit_operations_syntax

text \<open>
  The kernel's block allocator, \<open>threads/malloc.c\<close>.  An arena is a page, or a run of pages, of the
  page allocator; its header is in the first three words of that memory, in the order of
  \<open>struct arena\<close>.  The descriptors are at their addresses, and a free list is a list of
  \<open>lib/kernel/list.c\<close> whose links are kept in \<open>links\<close>, apart from the contents of the blocks.
  The lock of a descriptor is a flag: a call that finds the lock taken by another thread waits,
  which is not modelled.  Sizes are the 32-bit values of the code and wrap around as there.
\<close>

section \<open>State\<close>

record desc =
  d_block_size :: u32
  d_blocks_per_arena :: u32
  d_locked :: bool

record kheap =
  kvm :: vmem
  links :: heap
  descs_at :: u32
  descs :: "u32 \<Rightarrow> desc"
  desc_cnt :: nat

text \<open>\<open>sizeof (struct desc)\<close> and \<open>&d->free_list\<close>.\<close>

definition SIZEOF_DESC :: u32 where "SIZEOF_DESC = 56"

definition free_list :: "u32 \<Rightarrow> addr" where
  "free_list d = unat d + 8"

definition ARENA_MAGIC :: u32 where "ARENA_MAGIC = 0x9a548eed"

definition SIZEOF_ARENA :: u32 where "SIZEOF_ARENA = 12"

definition a_magic :: "u32 \<Rightarrow> kheap \<Rightarrow> u32" where "a_magic a st = words (kvm st) a"
definition a_desc :: "u32 \<Rightarrow> kheap \<Rightarrow> u32" where "a_desc a st = words (kvm st) (a + 4)"
definition a_free_cnt :: "u32 \<Rightarrow> kheap \<Rightarrow> u32" where "a_free_cnt a st = words (kvm st) (a + 8)"

definition set_arena :: "u32 \<Rightarrow> u32 \<Rightarrow> u32 \<Rightarrow> kheap \<Rightarrow> kheap" where
  "set_arena a d n st = st\<lparr>kvm := store (a + 8) n (store (a + 4) d (store a ARENA_MAGIC (kvm st)))\<rparr>"

definition set_free_cnt :: "u32 \<Rightarrow> u32 \<Rightarrow> kheap \<Rightarrow> kheap" where
  "set_free_cnt a n st = st\<lparr>kvm := store (a + 8) n (kvm st)\<rparr>"

definition desc_lock_acquire :: "u32 \<Rightarrow> kheap \<Rightarrow> kheap option" where
  "desc_lock_acquire d st = do {
     ASSERT (\<not> d_locked (descs st d));
     Some (st\<lparr>descs := (descs st)(d := (descs st d)\<lparr>d_locked := True\<rparr>)\<rparr>)
   }"

definition desc_lock_release :: "u32 \<Rightarrow> kheap \<Rightarrow> kheap option" where
  "desc_lock_release d st = do {
     ASSERT (d_locked (descs st d));
     Some (st\<lparr>descs := (descs st)(d := (descs st d)\<lparr>d_locked := False\<rparr>)\<rparr>)
   }"

section \<open>Operations\<close>

partial_function (option) malloc_init_loop :: "u32 \<Rightarrow> kheap \<Rightarrow> kheap option" where
  "malloc_init_loop bsize st = (
     if bsize < PAGE div 2 then do {
       let d = descs_at st + SIZEOF_DESC * of_nat (desc_cnt st);
       let st = st\<lparr>desc_cnt := desc_cnt st + 1\<rparr>;
       ASSERT (desc_cnt st \<le> 10);
       h \<leftarrow> list_init (free_list d) (links st);
       malloc_init_loop (bsize * 2)
         (st\<lparr>links := h, descs := (descs st)(d :=
            \<lparr>d_block_size = bsize, d_blocks_per_arena = (PAGE - SIZEOF_ARENA) div bsize, d_locked = False\<rparr>)\<rparr>)
     }
     else Some st)"

definition malloc_init :: "kheap \<Rightarrow> kheap option" where
  "malloc_init st = malloc_init_loop 16 st"

definition block_to_arena :: "u32 \<Rightarrow> kheap \<Rightarrow> u32 option" where
  "block_to_arena b st = do {
     let a = pg_round_down b;
     ASSERT (a \<noteq> 0);
     ASSERT (a_magic a st = ARENA_MAGIC);
     ASSERT (a_desc a st = 0 \<or> (pg_ofs b - SIZEOF_ARENA) mod d_block_size (descs st (a_desc a st)) = 0);
     ASSERT (a_desc a st \<noteq> 0 \<or> pg_ofs b = SIZEOF_ARENA);
     Some a
   }"

definition arena_to_block :: "u32 \<Rightarrow> u32 \<Rightarrow> kheap \<Rightarrow> u32 option" where
  "arena_to_block a idx st = do {
     ASSERT (a \<noteq> 0);
     ASSERT (a_magic a st = ARENA_MAGIC);
     ASSERT (idx < d_blocks_per_arena (descs st (a_desc a st)));
     Some (a + SIZEOF_ARENA + idx * d_block_size (descs st (a_desc a st)))
   }"

text \<open>The search for a descriptor, of which \<open>n\<close> are left from \<open>d\<close> on.\<close>

fun find_desc :: "u32 \<Rightarrow> u32 \<Rightarrow> nat \<Rightarrow> kheap \<Rightarrow> u32 option" where
  "find_desc sz d 0 st = None"
| "find_desc sz d (Suc n) st =
     (if d_block_size (descs st d) \<ge> sz then Some d else find_desc sz (d + SIZEOF_DESC) n st)"

text \<open>The loops over the \<open>n\<close> blocks of an arena from number \<open>i\<close> on.\<close>

fun push_blocks :: "u32 \<Rightarrow> u32 \<Rightarrow> u32 \<Rightarrow> nat \<Rightarrow> kheap \<Rightarrow> kheap option" where
  "push_blocks a d i 0 st = Some st"
| "push_blocks a d i (Suc n) st = do {
     b \<leftarrow> arena_to_block a i st;
     h \<leftarrow> list_push_back (free_list d) (unat b) (links st);
     push_blocks a d (i + 1) n (st\<lparr>links := h\<rparr>)
   }"

fun remove_blocks :: "u32 \<Rightarrow> u32 \<Rightarrow> nat \<Rightarrow> kheap \<Rightarrow> kheap option" where
  "remove_blocks a i 0 st = Some st"
| "remove_blocks a i (Suc n) st = do {
     b \<leftarrow> arena_to_block a i st;
     (_, h) \<leftarrow> list_remove (unat b) (links st);
     remove_blocks a (i + 1) n (st\<lparr>links := h\<rparr>)
   }"

definition malloc_big :: "u32 \<Rightarrow> kheap \<Rightarrow> (u32 \<times> kheap) option" where
  "malloc_big sz st = do {
     let page_cnt = (sz + SIZEOF_ARENA + PAGE - 1) div PAGE;
     (a, vm) \<leftarrow> palloc_get_multiple NO_FLAGS (unat page_cnt) (kvm st);
     let st = st\<lparr>kvm := vm\<rparr>;
     if a = 0 then Some (0, st)
     else Some (a + SIZEOF_ARENA, set_arena a 0 page_cnt st)
   }"

text \<open>The first half of the locked part: \<open>False\<close> when there is no page for a new arena.\<close>

definition fill_free_list :: "u32 \<Rightarrow> kheap \<Rightarrow> (bool \<times> kheap) option" where
  "fill_free_list d st = do {
     e \<leftarrow> list_empty (free_list d) (links st);
     if e then do {
       (a, vm) \<leftarrow> palloc_get_page NO_FLAGS (kvm st);
       let st = st\<lparr>kvm := vm\<rparr>;
       if a = 0 then Some (False, st)
       else do {
         let n = d_blocks_per_arena (descs st d);
         st \<leftarrow> push_blocks a d 0 (unat n) (set_arena a d n st);
         Some (True, st)
       }
     }
     else Some (True, st)
   }"

definition malloc :: "u32 \<Rightarrow> kheap \<Rightarrow> (u32 \<times> kheap) option" where
  "malloc sz st = (
     if sz = 0 then Some (0, st)
     else case find_desc sz (descs_at st) (desc_cnt st) st of
       None \<Rightarrow> malloc_big sz st
     | Some d \<Rightarrow> do {
         st \<leftarrow> desc_lock_acquire d st;
         (ok, st) \<leftarrow> fill_free_list d st;
         if \<not> ok then do { st \<leftarrow> desc_lock_release d st; Some (0, st) }
         else do {
           (b, h) \<leftarrow> list_pop_front (free_list d) (links st);
           let st = st\<lparr>links := h\<rparr>;
           let b = of_nat b;
           a \<leftarrow> block_to_arena b st;
           st \<leftarrow> desc_lock_release d (set_free_cnt a (a_free_cnt a st - 1) st);
           Some (b, st)
         }
       })"

text \<open>\<open>memset\<close> and \<open>memcpy\<close> on blocks.\<close>

definition fill_block :: "u32 \<Rightarrow> u8 \<Rightarrow> nat \<Rightarrow> kheap \<Rightarrow> kheap" where
  "fill_block p c n st = st\<lparr>kvm := set_kbytes p (replicate n c) (kvm st)\<rparr>"

definition copy_block :: "u32 \<Rightarrow> u32 \<Rightarrow> nat \<Rightarrow> kheap \<Rightarrow> kheap" where
  "copy_block dst src n st = st\<lparr>kvm := set_kbytes dst (kbytes src n (kvm st)) (kvm st)\<rparr>"

definition calloc :: "u32 \<Rightarrow> u32 \<Rightarrow> kheap \<Rightarrow> (u32 \<times> kheap) option" where
  "calloc a b st = (let sz = a * b in
     if sz < a \<or> sz < b then Some (0, st)
     else do {
       (p, st) \<leftarrow> malloc sz st;
       Some (p, if p \<noteq> 0 then fill_block p 0 (unat sz) st else st)
     })"

definition block_size :: "u32 \<Rightarrow> kheap \<Rightarrow> u32 option" where
  "block_size block st = do {
     a \<leftarrow> block_to_arena block st;
     let d = a_desc a st;
     Some (if d \<noteq> 0 then d_block_size (descs st d) else PAGE * a_free_cnt a st - pg_ofs block)
   }"

text \<open>The arena goes back to the page allocator when none of its blocks is in use.\<close>

definition release_arena :: "u32 \<Rightarrow> u32 \<Rightarrow> kheap \<Rightarrow> kheap option" where
  "release_arena a d st = (
     if a_free_cnt a st \<ge> d_blocks_per_arena (descs st d) then do {
       ASSERT (a_free_cnt a st = d_blocks_per_arena (descs st d));
       st \<leftarrow> remove_blocks a 0 (unat (d_blocks_per_arena (descs st d))) st;
       vm \<leftarrow> palloc_free_page a (kvm st);
       Some (st\<lparr>kvm := vm\<rparr>)
     }
     else Some st)"

definition free :: "u32 \<Rightarrow> kheap \<Rightarrow> kheap option" where
  "free p st = (
     if p \<noteq> 0 then do {
       a \<leftarrow> block_to_arena p st;
       let d = a_desc a st;
       if d \<noteq> 0 then do {
         let st = fill_block p 0xcc (unat (d_block_size (descs st d))) st;
         st \<leftarrow> desc_lock_acquire d st;
         h \<leftarrow> list_push_front (free_list d) (unat p) (links st);
         let st = set_free_cnt a (a_free_cnt a st + 1) (st\<lparr>links := h\<rparr>);
         st \<leftarrow> release_arena a d st;
         desc_lock_release d st
       }
       else do {
         vm \<leftarrow> palloc_free_multiple a (unat (a_free_cnt a st)) (kvm st);
         Some (st\<lparr>kvm := vm\<rparr>)
       }
     }
     else Some st)"

definition realloc :: "u32 \<Rightarrow> u32 \<Rightarrow> kheap \<Rightarrow> (u32 \<times> kheap) option" where
  "realloc old_block new_size st = (
     if new_size = 0 then do { st \<leftarrow> free old_block st; Some (0, st) }
     else do {
       (new_block, st) \<leftarrow> malloc new_size st;
       st \<leftarrow> (if old_block \<noteq> 0 \<and> new_block \<noteq> 0 then do {
                old_size \<leftarrow> block_size old_block st;
                let min_size = (if new_size < old_size then new_size else old_size);
                free old_block (copy_block new_block old_block (unat min_size) st)
              }
              else Some st);
       Some (new_block, st)
     })"

end
