(* ===== verification/KMallocInv.thy ===== *)
theory KMallocInv imports KMalloc begin

unbundle bit_operations_syntax

text \<open>
  The invariant of the block allocator and the lemmas about its parts.  The ghost state is a map
  \<open>G\<close> from the arenas to their kinds and the set \<open>live\<close> of the small blocks in use.
\<close>

section \<open>Blocks of an arena\<close>

definition bsz :: "nat \<Rightarrow> nat" where "bsz i = 16 * 2 ^ i"
definition nblk :: "nat \<Rightarrow> nat" where "nblk i = 4084 div bsz i"
definition dptr :: "u32 \<Rightarrow> nat \<Rightarrow> u32" where "dptr D i = D + SIZEOF_DESC * of_nat i"
definition mblk :: "u32 \<Rightarrow> nat \<Rightarrow> nat \<Rightarrow> u32" where
  "mblk a i k = a + SIZEOF_ARENA + of_nat k * of_nat (bsz i)"

text \<open>An arena of blocks of the descriptor \<open>i\<close>, or a big block of \<open>n\<close> pages.\<close>

datatype arena_kind = Small nat | Big nat

fun pages_of :: "arena_kind \<Rightarrow> nat" where
  "pages_of (Small i) = 1"
| "pages_of (Big n) = n"

lemma bsz_bounds: "16 \<le> bsz i" "i < 7 \<Longrightarrow> bsz i \<le> 1024" "bsz i mod 4 = 0"
proof -
  show "16 \<le> bsz i" by (simp add: bsz_def)
  show "bsz i mod 4 = 0" by (simp add: bsz_def mod_mult_left_eq)
  assume "i < 7"
  then have "(2 :: nat) ^ i \<le> 2 ^ 6" by (intro power_increasing) simp_all
  then show "bsz i \<le> 1024" by (simp add: bsz_def)
qed

lemma nblk_room: "k < nblk i \<Longrightarrow> k * bsz i + bsz i \<le> 4084"
proof -
  assume "k < nblk i"
  then have "Suc k * bsz i \<le> nblk i * bsz i" by (intro mult_le_mono1) simp
  also have "\<dots> \<le> 4084" unfolding nblk_def by (rule div_times_less_eq_dividend)
  finally show ?thesis by simp
qed

lemma nblk_bounds: "nblk i \<le> 255" "i < 7 \<Longrightarrow> 3 \<le> nblk i"
proof -
  have "4084 div bsz i \<le> 4084 div 16" using bsz_bounds(1) by (intro div_le_mono2) simp_all
  then show "nblk i \<le> 255" by (simp add: nblk_def)
  assume "i < 7"
  then have "4084 div 1024 \<le> 4084 div bsz i" using bsz_bounds[of i] by (intro div_le_mono2) simp_all
  then show "3 \<le> nblk i" by (simp add: nblk_def)
qed

lemma unat_of_nat32: "n < 4294967296 \<Longrightarrow> unat (of_nat n :: u32) = n"
  by (simp add: take_bit_nat_eq_self unsigned_of_nat)

lemma unat_mblk:
  assumes "kpage a" "k < nblk i"
  shows "unat (mblk a i k) = unat a + 12 + k * bsz i"
proof -
  have "unat a + 4096 \<le> 4294967296"
    using assms(1) unat_less32[of a] by (intro aligned_room) (simp_all add: kpage_unat)
  note r = this nblk_room[OF assms(2)]
  have e: "mblk a i k = (a + 12) + of_nat (k * bsz i)" by (simp add: mblk_def SIZEOF_ARENA_def)
  have u: "unat (of_nat (k * bsz i) :: u32) = k * bsz i" using r by (intro unat_of_nat32) linarith
  have 12: "unat (a + 12) = unat a + 12" using r by (subst unat_plus_small) simp_all
  have "unat (a + 12) + unat (of_nat (k * bsz i) :: u32) < 4294967296"
    unfolding u 12 using r bsz_bounds(1)[of i] by linarith
  then show ?thesis unfolding e by (simp only: unat_plus_small u 12)
qed

lemma mblk_inside:
  assumes "kpage a" "k < nblk i"
  shows "unat a + 12 \<le> unat (mblk a i k)" "unat (mblk a i k) + bsz i \<le> unat a + 4096"
  using unat_mblk[OF assms] nblk_room[OF assms(2)] by simp_all

lemma unat_round_down: "unat (pg_round_down b) = unat b - unat b mod 4096"
proof -
  have "pg_round_down b = push_bit 12 (drop_bit 12 b)"
    unfolding pg_round_down_def PGMASK_mask by (rule bit_word_eqI) (auto simp: bit_simps simp del: mask_numeral)
  also have "\<dots> = b - take_bit 12 b" by (simp add: bits_ident eq_diff_eq)
  also have "take_bit 12 b = pg_ofs b" unfolding pg_ofs_def PGMASK_mask and_mask_take ..
  finally show ?thesis using unat_pg_ofs[of b] by (simp add: unat_sub word_le_nat_alt)
qed

lemma round_down_inside:
  assumes "kpage a" "unat a \<le> unat b" "unat b < unat a + 4096"
  shows "pg_round_down b = a" "unat (pg_ofs b) = unat b - unat a"
proof -
  have "unat a mod 4096 = 0" using assms(1) by (simp add: kpage_unat)
  then obtain c where c: "unat a = 4096 * c" by (rule mult_4096E)
  then obtain e where e: "unat b = 4096 * c + e" "e < 4096"
    using assms(2,3) by (metis le_Suc_ex nat_add_left_cancel_less)
  have "unat (pg_round_down b) = unat a" unfolding unat_round_down using c e by simp
  then show "pg_round_down b = a" by (simp add: word_unat_eq_iff)
  show "unat (pg_ofs b) = unat b - unat a" unfolding unat_pg_ofs using c e by simp
qed

lemma mblk_page:
  assumes "kpage a" "k < nblk i"
  shows "pg_round_down (mblk a i k) = a" "unat (pg_ofs (mblk a i k)) = 12 + k * bsz i"
  using round_down_inside[OF assms(1), of "mblk a i k"] unat_mblk[OF assms] nblk_room[OF assms(2)] bsz_bounds(1)[of i]
  by simp_all

lemma mblk_inj:
  assumes "kpage a" "kpage b" "k < nblk i" "l < nblk i" "mblk a i k = mblk b i l"
  shows "a = b" "k = l"
proof -
  show "a = b" using mblk_page(1)[OF assms(1,3)] mblk_page(1)[OF assms(2,4)] assms(5) by simp
  have "12 + k * bsz i = 12 + l * bsz i"
    using mblk_page(2)[OF assms(1,3)] mblk_page(2)[OF assms(2,4)] assms(5) by auto
  moreover have "bsz i \<noteq> 0" using bsz_bounds(1)[of i] by linarith
  ultimately show "k = l" by auto
qed

lemma mblk_nonzero: "kpage a \<Longrightarrow> k < nblk i \<Longrightarrow> mblk a i k \<noteq> 0"
  using unat_mblk[of a k i] by (auto simp: unat_eq_zero)

section \<open>The ghost state\<close>

definition blocks_of :: "(u32 \<Rightarrow> arena_kind option) \<Rightarrow> nat \<Rightarrow> u32 set" where
  "blocks_of G i = {mblk a i k | a k. G a = Some (Small i) \<and> k < nblk i}"

text \<open>\<open>D\<close> is the address of the descriptors: they lie below every arena.\<close>

definition arena_at :: "u32 \<Rightarrow> u32 \<Rightarrow> arena_kind \<Rightarrow> bool" where
  "arena_at D a kd \<longleftrightarrow> kpage a \<and> unat D + 400 \<le> unat a \<and> unat a + 4096 * pages_of kd \<le> 4294967296 \<and>
     (case kd of Small i \<Rightarrow> i < 7 | Big n \<Rightarrow> 0 < n)"

definition apart :: "u32 \<Rightarrow> arena_kind \<Rightarrow> u32 \<Rightarrow> arena_kind \<Rightarrow> bool" where
  "apart a ka b kb \<longleftrightarrow> unat a + 4096 * pages_of ka \<le> unat b \<or> unat b + 4096 * pages_of kb \<le> unat a"

definition ghost_ok :: "u32 \<Rightarrow> (u32 \<Rightarrow> arena_kind option) \<Rightarrow> u32 set \<Rightarrow> bool" where
  "ghost_ok D G live \<longleftrightarrow> D \<noteq> 0 \<and>
     (\<forall>a kd. G a = Some kd \<longrightarrow> arena_at D a kd) \<and>
     (\<forall>a ka b kb. G a = Some ka \<longrightarrow> G b = Some kb \<longrightarrow> a \<noteq> b \<longrightarrow> apart a ka b kb) \<and>
     live \<subseteq> (\<Union>i < 7. blocks_of G i)"

lemma ghost_okD:
  assumes "ghost_ok D G live"
  shows "D \<noteq> 0" "G a = Some kd \<Longrightarrow> arena_at D a kd"
    "G a = Some ka \<Longrightarrow> G b = Some kb \<Longrightarrow> a \<noteq> b \<Longrightarrow> apart a ka b kb"
    "live \<subseteq> (\<Union>i < 7. blocks_of G i)"
  using assms unfolding ghost_ok_def by blast+

lemma arena_at_kpage: "arena_at D a kd \<Longrightarrow> kpage a"
  by (simp add: arena_at_def)

lemma blocks_ofE:
  assumes "ghost_ok D G live" "b \<in> blocks_of G i"
  obtains a k where "G a = Some (Small i)" "kpage a" "k < nblk i" "b = mblk a i k" "i < 7" "unat D + 400 \<le> unat a"
  using assms ghost_okD(2)[OF assms(1)] unfolding blocks_of_def arena_at_def by fastforce

lemma blocks_of_disjoint:
  assumes "ghost_ok D G live" "i \<noteq> j"
  shows "blocks_of G i \<inter> blocks_of G j = {}"
proof (rule ccontr)
  assume "blocks_of G i \<inter> blocks_of G j \<noteq> {}"
  then obtain b where "b \<in> blocks_of G i" "b \<in> blocks_of G j" by blast
  then obtain a k c l where "G a = Some (Small i)" "kpage a" "k < nblk i" "b = mblk a i k"
    "G c = Some (Small j)" "kpage c" "l < nblk j" "b = mblk c j l"
    using blocks_ofE[OF assms(1)] by metis
  then have "G a = Some (Small i)" "G a = Some (Small j)" using mblk_page(1) by metis+
  then show False using assms(2) by simp
qed

lemma blocks_of_upd:
  "blocks_of (G(a \<mapsto> Small i)) j = (if j = i then blocks_of (G(a := None)) i \<union> mblk a i ` {..<nblk i} else blocks_of (G(a := None)) j)"
  "blocks_of (G(a \<mapsto> Big n)) j = blocks_of (G(a := None)) j"
  by (auto simp: blocks_of_def split: if_splits)

lemma blocks_of_None: "G a = None \<Longrightarrow> blocks_of (G(a := None)) j = blocks_of G j"
  by (simp add: fun_upd_idem)

lemma blocks_of_mono: "blocks_of (G(a := None)) j \<subseteq> blocks_of G j"
  by (auto simp: blocks_of_def split: if_splits)


section \<open>Free lists\<close>

definition fhdr :: "u32 \<Rightarrow> nat \<Rightarrow> addr set" where
  "fhdr D i = {free_list (dptr D i), free_list (dptr D i) + 8}"

definition free_rep :: "u32 \<Rightarrow> heap \<Rightarrow> nat \<Rightarrow> u32 set \<Rightarrow> bool" where
  "free_rep D h i S \<longleftrightarrow> (\<exists>fl. list_rep h (free_list (dptr D i)) (map unat fl) \<and> set fl = S)"

abbreviation fcells :: "u32 \<Rightarrow> nat \<Rightarrow> u32 set \<Rightarrow> addr set" where
  "fcells D i S \<equiv> fhdr D i \<union> unat ` S"

definition lists_ok :: "u32 \<Rightarrow> (u32 \<Rightarrow> arena_kind option) \<Rightarrow> u32 set \<Rightarrow> heap \<Rightarrow> bool" where
  "lists_ok D G live h \<longleftrightarrow> (\<forall>i < 7. free_rep D h i (blocks_of G i - live))"

lemma free_rep_cells:
  "list_rep h (free_list (dptr D i)) (map unat fl) \<Longrightarrow> cells (free_list (dptr D i)) (map unat fl) = fcells D i (set fl)"
  by (auto simp: cells_def fhdr_def)

lemma free_rep_frame:
  assumes "free_rep D h i S" "same_outside C h h'" "fcells D i S \<inter> C = {}"
  shows "free_rep D h' i S"
proof -
  obtain fl where fl: "list_rep h (free_list (dptr D i)) (map unat fl)" "set fl = S"
    using assms(1) unfolding free_rep_def by blast
  then have "list_rep h' (free_list (dptr D i)) (map unat fl)"
    using free_rep_cells[OF fl(1)] assms(3) by (intro list_rep_frame[OF fl(1) assms(2)]) simp
  then show ?thesis using fl(2) unfolding free_rep_def by blast
qed

lemma free_rep_empty: "free_rep D h i S \<Longrightarrow> list_empty (free_list (dptr D i)) h = Some (S = {})"
  unfolding free_rep_def by (elim exE conjE) (drule list_empty_rep, auto)

lemma free_rep_push:
  assumes "free_rep D h i S" "b \<noteq> 0" "b \<notin> S" "unat b \<notin> fhdr D i"
  obtains h' where "list_push_front (free_list (dptr D i)) (unat b) h = Some h'" "free_rep D h' i (insert b S)"
      "same_outside (fcells D i (insert b S)) h h'"
    and "\<exists>h'. list_push_back (free_list (dptr D i)) (unat b) h = Some h' \<and> free_rep D h' i (insert b S) \<and>
      same_outside (fcells D i (insert b S)) h h'"
proof -
  obtain fl where fl: "list_rep h (free_list (dptr D i)) (map unat fl)" "set fl = S"
    using assms(1) unfolding free_rep_def by blast
  have nb: "unat b \<noteq> 0" "unat b \<notin> cells (free_list (dptr D i)) (map unat fl)"
    using assms(2-4) fl(2) free_rep_cells[OF fl(1)] by (auto simp: unat_eq_zero dest: unsigned_word_eqI)
  obtain h1 where h1: "list_push_front (free_list (dptr D i)) (unat b) h = Some h1"
    "list_rep h1 (free_list (dptr D i)) (map unat (b # fl))"
    "same_outside (cells (free_list (dptr D i)) (unat b # map unat fl)) h h1"
    using list_push_front_rep[OF fl(1) nb] by auto
  obtain h2 where h2: "list_push_back (free_list (dptr D i)) (unat b) h = Some h2"
    "list_rep h2 (free_list (dptr D i)) (map unat (fl @ [b]))"
    "same_outside (cells (free_list (dptr D i)) (map unat fl @ [unat b])) h h2"
    using list_push_back_rep[OF fl(1) nb] by auto
  have c: "cells (free_list (dptr D i)) (unat b # map unat fl) = fcells D i (insert b S)"
    "cells (free_list (dptr D i)) (map unat fl @ [unat b]) = fcells D i (insert b S)"
    using fl(2) by (auto simp: cells_def fhdr_def)
  have "free_rep D h1 i (insert b S)" "free_rep D h2 i (insert b S)"
    using h1(2) h2(2) fl(2) unfolding free_rep_def by (metis list.simps(15), metis Un_insert_right list.set(1,2) set_append sup_bot.right_neutral)
  then show thesis using that h1 h2 unfolding c by blast
qed

lemma free_rep_remove:
  assumes "free_rep D h i S" "b \<in> S"
  obtains n h' where "list_remove (unat b) h = Some (n, h')" "free_rep D h' i (S - {b})"
    "same_outside (fcells D i S) h h'"
proof -
  obtain fl where fl: "list_rep h (free_list (dptr D i)) (map unat fl)" "set fl = S"
    using assms(1) unfolding free_rep_def by blast
  then obtain xs ys where s: "fl = xs @ b # ys" using assms(2) by (metis split_list)
  obtain h' where h': "list_remove (unat b) h = Some (hd (map unat ys @ [free_list (dptr D i) + 8]), h')"
    "list_rep h' (free_list (dptr D i)) (map unat xs @ map unat ys)"
    "same_outside (cells (free_list (dptr D i)) (map unat xs @ map unat ys)) h h'"
    using list_remove_rep[of h "free_list (dptr D i)" "map unat xs" "unat b" "map unat ys"] fl(1) s by auto
  have "distinct (map unat fl)" using fl(1) by (simp add: list_rep_def)
  then have "distinct fl" by (simp add: distinct_map)
  then have "set (xs @ ys) = S - {b}" using fl(2) s by auto
  then have "free_rep D h' i (S - {b})" using h'(2) unfolding free_rep_def by (metis map_append)
  moreover have "same_outside (fcells D i S) h h'"
    using h'(3) by (rule same_outside_mono) (use fl(2) s in \<open>auto simp: cells_def fhdr_def\<close>)
  ultimately show thesis using that h'(1) by blast
qed

lemma free_rep_pop:
  assumes "free_rep D h i S" "S \<noteq> {}"
  obtains b h' where "b \<in> S" "list_pop_front (free_list (dptr D i)) h = Some (unat b, h')"
    "free_rep D h' i (S - {b})" "same_outside (fcells D i S) h h'"
proof -
  obtain fl where fl: "list_rep h (free_list (dptr D i)) (map unat fl)" "set fl = S"
    using assms(1) unfolding free_rep_def by blast
  then obtain b bs where s: "fl = b # bs" using assms(2) by (cases fl) auto
  obtain h' where h': "list_pop_front (free_list (dptr D i)) h = Some (unat b, h')"
    "list_rep h' (free_list (dptr D i)) (map unat bs)"
    "same_outside (cells (free_list (dptr D i)) (map unat bs)) h h'"
    using list_pop_front_rep[of h "free_list (dptr D i)" "unat b" "map unat bs"] fl(1) s by auto
  have "distinct (map unat fl)" using fl(1) by (simp add: list_rep_def)
  then have "distinct fl" by (simp add: distinct_map)
  then have "set bs = S - {b}" using fl(2) s by auto
  then have "free_rep D h' i (S - {b})" using h'(2) unfolding free_rep_def by blast
  moreover have "same_outside (fcells D i S) h h'"
    using h'(3) by (rule same_outside_mono) (use fl(2) s in \<open>auto simp: cells_def fhdr_def\<close>)
  ultimately show thesis using that[of b h'] h'(1) fl(2) s by auto
qed

text \<open>The headers of the free lists lie between the address of the descriptors and the arenas.\<close>

lemma unat_dptr:
  assumes "unat D + 400 \<le> 4294967296" "i < 7"
  shows "unat (dptr D i) = unat D + 56 * i"
proof -
  have "SIZEOF_DESC * of_nat i = (of_nat (56 * i) :: u32)" by (simp add: SIZEOF_DESC_def)
  moreover have "unat (of_nat (56 * i) :: u32) = 56 * i" using assms by (intro unat_of_nat32) simp
  ultimately show ?thesis unfolding dptr_def using assms by (subst unat_plus_small) simp_all
qed

lemma fhdr_range:
  assumes "unat D + 400 \<le> 4294967296" "i < 7" "x \<in> fhdr D i"
  shows "unat D + 56 * i \<le> x" "x < unat D + 56 * i + 56" "x < unat D + 400"
  using assms unat_dptr[OF assms(1,2)] by (auto simp: fhdr_def free_list_def)

lemma fhdr_apart:
  assumes "unat D + 400 \<le> 4294967296" "i < 7" "j < 7" "i \<noteq> j"
  shows "fhdr D i \<inter> fhdr D j = {}"
proof -
  have "\<not> (x \<in> fhdr D i \<and> x \<in> fhdr D j)" for x
    using fhdr_range(1,2)[OF assms(1,2), of x] fhdr_range(1,2)[OF assms(1,3), of x] assms(4)
    by (cases "i < j") linarith+
  then show ?thesis by blast
qed

lemma fhdr_block:
  assumes "unat D + 400 \<le> 4294967296" "ghost_ok D G live" "j < 7" "b \<in> blocks_of G i"
  shows "unat b \<notin> fhdr D j"
proof -
  obtain a k where "kpage a" "k < nblk i" "b = mblk a i k" "unat D + 400 \<le> unat a"
    using blocks_ofE[OF assms(2,4)] by metis
  then have "unat D + 400 \<le> unat b" using unat_mblk by simp
  then show ?thesis using fhdr_range(3)[OF assms(1,3)] by fastforce
qed

lemma fcells_apart:
  assumes "unat D + 400 \<le> 4294967296" "ghost_ok D G live" "i < 7" "j < 7" "i \<noteq> j"
    "S \<subseteq> blocks_of G i" "T \<subseteq> blocks_of G j"
  shows "fcells D i S \<inter> fcells D j T = {}"
proof -
  have "S \<inter> T = {}" using assms(6,7) blocks_of_disjoint[OF assms(2,5)] by blast
  then have "unat ` S \<inter> unat ` T = {}" by (auto dest: unsigned_word_eqI)
  moreover have "unat ` S \<inter> fhdr D j = {}" using fhdr_block[OF assms(1,2,4)] assms(6) by blast
  moreover have "unat ` T \<inter> fhdr D i = {}" using fhdr_block[OF assms(1,2,3)] assms(7) by blast
  ultimately show ?thesis using fhdr_apart[OF assms(1,3-5)] by blast
qed

lemma lists_ok_update:
  assumes "unat D + 400 \<le> 4294967296" "ghost_ok D G0 l0" "lists_ok D G live h" "i < 7"
    "free_rep D h' i (blocks_of G' i - live')" "same_outside (fcells D i S) h h'" "S \<subseteq> blocks_of G0 i"
    "\<And>j. j < 7 \<Longrightarrow> j \<noteq> i \<Longrightarrow> blocks_of G' j - live' = blocks_of G j - live \<and> blocks_of G j \<subseteq> blocks_of G0 j"
  shows "lists_ok D G' live' h'"
  unfolding lists_ok_def
proof (intro allI impI)
  fix j :: nat assume j: "j < 7"
  show "free_rep D h' j (blocks_of G' j - live')"
  proof (cases "j = i")
    case True
    then show ?thesis using assms(5) by simp
  next
    case False
    have "free_rep D h j (blocks_of G j - live)" using assms(3) j by (simp add: lists_ok_def)
    moreover have "fcells D j (blocks_of G j - live) \<inter> fcells D i S = {}"
      using assms(8)[OF j False] by (intro fcells_apart[OF assms(1,2) j assms(4) False _ assms(7)]) blast
    ultimately have "free_rep D h' j (blocks_of G j - live)" using assms(6) free_rep_frame by blast
    then show ?thesis using assms(8)[OF j False] by simp
  qed
qed

end
