(* ===== verification/KMallocArena.thy ===== *)
theory KMallocArena imports KMallocInv begin

unbundle bit_operations_syntax

text \<open>
  The arenas in memory: their headers, the pages they are on, and what the page allocator and the
  stores of the block allocator do to them.
\<close>

section \<open>Headers\<close>

definition nfree :: "u32 set \<Rightarrow> u32 \<Rightarrow> nat \<Rightarrow> nat" where
  "nfree live a i = card {k. k < nblk i \<and> mblk a i k \<notin> live}"

definition hdr :: "u32 \<Rightarrow> u32 set \<Rightarrow> u32 \<Rightarrow> arena_kind \<Rightarrow> u32 \<times> u32 \<times> u32" where
  "hdr D live a kd = (ARENA_MAGIC, (case kd of Small i \<Rightarrow> dptr D i | Big n \<Rightarrow> 0),
     of_nat (case kd of Small i \<Rightarrow> nfree live a i | Big n \<Rightarrow> n))"

definition arena_hdr :: "vmem \<Rightarrow> u32 \<Rightarrow> u32 \<times> u32 \<times> u32" where
  "arena_hdr mv a = (words mv a, words mv (a + 4), words mv (a + 8))"

text \<open>The \<open>n\<close> pages from \<open>a\<close> on are allocated pages of the kernel pool.\<close>

definition run_used :: "vmem \<Rightarrow> u32 \<Rightarrow> nat \<Rightarrow> bool" where
  "run_used mv a n \<longleftrightarrow> (\<exists>r. a = pool_page (kernel_pool mv) r \<and> r + n \<le> bit_cnt (used_map (kernel_pool mv)) \<and>
     (\<forall>k < n. bitmap_abs (used_map (kernel_pool mv)) ! (r + k)))"

definition arenas_ok :: "u32 \<Rightarrow> (u32 \<Rightarrow> arena_kind option) \<Rightarrow> u32 set \<Rightarrow> vmem \<Rightarrow> bool" where
  "arenas_ok D G live mv \<longleftrightarrow> vm_ok mv \<and> unat D + 400 \<le> unat (base (kernel_pool mv)) \<and>
     (\<forall>a kd. G a = Some kd \<longrightarrow> run_used mv a (pages_of kd) \<and> arena_hdr mv a = hdr D live a kd)"

lemma arenas_okD:
  assumes "arenas_ok D G live mv"
  shows "vm_ok mv" "unat D + 400 \<le> unat (base (kernel_pool mv))" "unat D + 400 \<le> 4294967296"
    "G a = Some kd \<Longrightarrow> run_used mv a (pages_of kd)" "G a = Some kd \<Longrightarrow> arena_hdr mv a = hdr D live a kd"
  using assms unat_less32[of "base (kernel_pool mv)"] unfolding arenas_ok_def by auto

lemma hdr_apart:
  assumes "kpage a" "kpage b" "a \<noteq> b" "x \<in> {a, a + 4, a + 8}" "y \<in> {b, b + 4, b + 8}"
  shows "x \<noteq> y"
proof -
  have "\<exists>i < 3. x = a + 4 * i" "\<exists>j < 3. y = b + 4 * j"
    using assms(4,5) by (auto intro: exI[of _ 0] exI[of _ 1] exI[of _ 2])
  then obtain i j where x: "x = a + 4 * i" "y = b + 4 * j" "i < 3" "j < 3" by blast
  have "i < 1024" "j < 1024" using x(3,4) by (auto simp: word_less_nat_alt)
  then show ?thesis using slots_apart(1)[OF assms(1,2)] assms(3) x(1,2) by blast
qed

lemma arena_hdr_store:
  assumes "kpage a" "kpage b" "a \<noteq> b" "x \<in> {a, a + 4, a + 8}"
  shows "arena_hdr (store x w mv) b = arena_hdr mv b"
proof -
  have "b \<noteq> x" "b + 4 \<noteq> x" "b + 8 \<noteq> x" using hdr_apart[OF assms(1-4)] by (metis insertCI)+
  then show ?thesis unfolding arena_hdr_def by simp
qed

lemma run_used_store [simp]: "run_used (store x w mv) a n = run_used mv a n"
  by (simp add: run_used_def)

lemma arena_hdr_set: "arena_hdr (store (a + 8) n (store (a + 4) d (store a m mv))) a = (m, d, n)"
  "arena_hdr (store (a + 8) n mv) a = (fst (arena_hdr mv a), fst (snd (arena_hdr mv a)), n)"
  by (simp_all add: arena_hdr_def)

lemma nfree_other:
  assumes "kpage a" "kpage b" "a \<noteq> b" "l < nblk i" "x = mblk a i l" "G b = Some (Small j)"
  shows "nfree (insert x live) b j = nfree live b j" "nfree (live - {x}) b j = nfree live b j"
proof -
  have "mblk b j k \<noteq> x" if "k < nblk j" for k
    using mblk_page(1)[OF assms(1,4)] mblk_page(1)[OF assms(2) that] assms(3,5) by auto
  then have "{k. k < nblk j \<and> mblk b j k \<notin> insert x live} = {k. k < nblk j \<and> mblk b j k \<notin> live}"
    "{k. k < nblk j \<and> mblk b j k \<notin> live - {x}} = {k. k < nblk j \<and> mblk b j k \<notin> live}" by auto
  then show "nfree (insert x live) b j = nfree live b j" "nfree (live - {x}) b j = nfree live b j"
    by (simp_all add: nfree_def)
qed

lemma nfree_this:
  assumes "kpage a" "l < nblk i" "x = mblk a i l"
  shows "x \<notin> live \<Longrightarrow> nfree live a i = Suc (nfree (insert x live) a i)"
    "x \<in> live \<Longrightarrow> nfree (live - {x}) a i = Suc (nfree live a i)"
proof -
  have eq: "mblk a i k = x \<longleftrightarrow> k = l" if "k < nblk i" for k
    using mblk_inj(2)[OF assms(1,1) that assms(2)] assms(3) by auto
  have add: "nfree S a i = Suc (nfree (insert x S) a i)" if "x \<notin> S" for S
  proof -
    have "{k. k < nblk i \<and> mblk a i k \<notin> S} = insert l {k. k < nblk i \<and> mblk a i k \<notin> insert x S}"
      using eq assms(2,3) that by auto
    moreover have "l \<notin> {k. k < nblk i \<and> mblk a i k \<notin> insert x S}" using assms(3) by simp
    ultimately show ?thesis by (simp add: nfree_def)
  qed
  show "x \<notin> live \<Longrightarrow> nfree live a i = Suc (nfree (insert x live) a i)" by (rule add)
  show "x \<in> live \<Longrightarrow> nfree (live - {x}) a i = Suc (nfree live a i)"
    using add[of "live - {x}"] by (simp add: insert_absorb)
qed

lemma nfree_le: "nfree live a i \<le> nblk i"
proof -
  have "card {k. k < nblk i \<and> mblk a i k \<notin> live} \<le> card {..<nblk i}" by (intro card_mono) auto
  then show ?thesis by (simp add: nfree_def)
qed

lemma nfree_all: "nfree live a i = nblk i \<longleftrightarrow> (\<forall>k < nblk i. mblk a i k \<notin> live)"
proof
  assume c: "nfree live a i = nblk i"
  have "{k. k < nblk i \<and> mblk a i k \<notin> live} = {..<nblk i}"
    using c by (intro card_subset_eq) (auto simp: nfree_def)
  then show "\<forall>k < nblk i. mblk a i k \<notin> live" by auto
next
  assume "\<forall>k < nblk i. mblk a i k \<notin> live"
  then have "{k. k < nblk i \<and> mblk a i k \<notin> live} = {..<nblk i}" by auto
  then show "nfree live a i = nblk i" by (simp add: nfree_def)
qed

section \<open>Changes of the memory\<close>

lemma arenas_ok_words:
  assumes "arenas_ok D G live mv" "vm_ok mv'" "kernel_pool mv' = kernel_pool mv"
    "\<And>a kd. G a = Some kd \<Longrightarrow> arena_hdr mv' a = arena_hdr mv a"
  shows "arenas_ok D G live mv'"
  using assms unfolding arenas_ok_def run_used_def by simp

lemma arenas_ok_new:
  assumes "arenas_ok D G live mv" "ghost_ok D G live" "G a = None" "kpage a" "run_used mv a (pages_of kd)"
    "hdr D live a kd = (ARENA_MAGIC, d, n)"
  shows "arenas_ok D (G(a \<mapsto> kd)) live (store (a + 8) n (store (a + 4) d (store a ARENA_MAGIC mv)))"
proof -
  let ?v = "store (a + 8) n (store (a + 4) d (store a ARENA_MAGIC mv))"
  have "arena_hdr ?v b = arena_hdr mv b" if "G b = Some kb" for b kb
  proof -
    have b: "kpage b" "a \<noteq> b" using ghost_okD(2)[OF assms(2) that] assms(3) that by (auto simp: arena_at_def)
    then show ?thesis using arena_hdr_store[OF assms(4) b] by simp
  qed
  then show ?thesis using assms(1,5,6) arena_hdr_set(1)[of a n d ARENA_MAGIC mv]
    by (auto simp: arenas_ok_def)
qed

lemma arenas_ok_live:
  assumes "arenas_ok D G live mv" "ghost_ok D G live" "G a = Some (Small i)"
    "\<And>b j. G b = Some (Small j) \<Longrightarrow> b \<noteq> a \<Longrightarrow> nfree live' b j = nfree live b j"
  shows "arenas_ok D G live' (store (a + 8) (of_nat (nfree live' a i)) mv)"
proof -
  let ?v = "store (a + 8) (of_nat (nfree live' a i)) mv"
  have ka: "kpage a" using ghost_okD(2)[OF assms(2,3)] by (simp add: arena_at_def)
  have "arena_hdr ?v b = hdr D live' b kb" if "G b = Some kb" for b kb
  proof (cases "b = a")
    case True
    then show ?thesis using arenas_okD(5)[OF assms(1,3)] assms(3) that by (auto simp: arena_hdr_set(2) hdr_def)
  next
    case False
    have "kpage b" using ghost_okD(2)[OF assms(2) that] by (simp add: arena_at_def)
    then have "arena_hdr ?v b = hdr D live b kb"
      using arena_hdr_store[OF ka _ False[symmetric]] arenas_okD(5)[OF assms(1) that] by simp
    also have "\<dots> = hdr D live' b kb" using assms(4)[of b] that False by (cases kb) (simp_all add: hdr_def)
    finally show ?thesis .
  qed
  then show ?thesis using assms(1) by (auto simp: arenas_ok_def)
qed

section \<open>The page allocator\<close>

lemma run_used_addr:
  assumes "vm_ok mv" "run_used mv a n"
  obtains r where "a = pool_page (kernel_pool mv) r" "r + n \<le> bit_cnt (used_map (kernel_pool mv))"
    "unat a = unat (base (kernel_pool mv)) + 4096 * r" "kpage a" "unat a + 4096 * n < 4294967296"
    "\<forall>k < n. bitmap_abs (used_map (kernel_pool mv)) ! (r + k)"
proof -
  obtain r where r: "a = pool_page (kernel_pool mv) r" "r + n \<le> bit_cnt (used_map (kernel_pool mv))"
    "\<forall>k < n. bitmap_abs (used_map (kernel_pool mv)) ! (r + k)"
    using assms(2) unfolding run_used_def by blast
  have ok: "pool_ok (kernel_pool mv)" using assms(1) by (simp add: vm_ok_def)
  have u: "unat a = unat (base (kernel_pool mv)) + 4096 * r" using unat_pool_page[OF ok, of r] r by simp
  moreover have "unat a + 4096 * n < 4294967296" using ok r(2) u by (simp add: pool_ok_def)
  moreover have "kpage a" using pool_page_kpage[OF ok, of r] r by simp
  ultimately show thesis using that r by blast
qed

lemma run_used_put:
  assumes "run_used mv a n" "kernel_pool mv' = (kernel_pool mv)\<lparr>used_map := m\<rparr>"
    "bit_cnt m = bit_cnt (used_map (kernel_pool mv))" "vm_ok mv"
    "bitmap_abs m = put_bytes r (replicate cnt v) (bitmap_abs (used_map (kernel_pool mv)))"
    "r + cnt \<le> bit_cnt (used_map (kernel_pool mv))"
    "v \<or> unat (pool_page (kernel_pool mv) r) + 4096 * cnt \<le> unat a \<or> unat a + 4096 * n \<le> unat (pool_page (kernel_pool mv) r)"
  shows "run_used mv' a n"
proof (rule run_used_addr[OF assms(4,1)])
  fix q assume q: "a = pool_page (kernel_pool mv) q" "q + n \<le> bit_cnt (used_map (kernel_pool mv))"
    "unat a = unat (base (kernel_pool mv)) + 4096 * q" "\<forall>k < n. bitmap_abs (used_map (kernel_pool mv)) ! (q + k)"
  have ok: "pool_ok (kernel_pool mv)" using assms(4) by (simp add: vm_ok_def)
  then have len: "length (bitmap_abs (used_map (kernel_pool mv))) = bit_cnt (used_map (kernel_pool mv))"
    by (simp add: pool_ok_def)
  have "unat (pool_page (kernel_pool mv) r) = unat (base (kernel_pool mv)) + 4096 * r"
    using unat_pool_page[OF ok, of r] assms(6) by simp
  then have out: "v \<or> r + cnt \<le> q \<or> q + n \<le> r" using assms(7) q(3) by auto
  have "bitmap_abs m ! (q + k)" if "k < n" for k
    using nth_put_bytes[of r "replicate cnt v" "bitmap_abs (used_map (kernel_pool mv))" "q + k"]
      len assms(5,6) q(2,4) that out by auto
  then show ?thesis using q(1,2) assms(2,3) unfolding run_used_def by (auto simp: pool_page_def)
qed


lemma unat_diff_range:
  assumes "unat (y - p :: u32) < m" "unat p + m \<le> 4294967296"
  shows "unat p \<le> unat y" "unat y < unat p + m"
proof -
  have "unat (p + (y - p)) = unat p + unat (y - p)" using assms by (intro unat_plus_small) linarith
  then show "unat p \<le> unat y" "unat y < unat p + m" using assms(1) by simp_all
qed

lemma runs_disjoint:
  assumes "is_run xs r n False" "\<forall>k < m. xs ! (q + k)" "0 < n" "0 < m"
  shows "r + n \<le> q \<or> q + m \<le> r"
proof (rule ccontr)
  assume "\<not> (r + n \<le> q \<or> q + m \<le> r)"
  then have "max r q - r < n" "max r q - q < m" using assms(3,4) by (auto simp: max_def)
  then have "\<not> xs ! (r + (max r q - r))" "xs ! (q + (max r q - q))"
    using assms(1,2) unfolding is_run_def by blast+
  then show False by simp
qed

lemma palloc_get_arena:
  assumes "arenas_ok D G live mv" "ghost_ok D G live" "0 < n"
  obtains "palloc_get_multiple NO_FLAGS n mv = Some (0, mv)"
  | a mv' where "palloc_get_multiple NO_FLAGS n mv = Some (a, mv')" "a \<noteq> 0" "words mv' = words mv"
    "arenas_ok D G live mv'" "run_used mv' a n" "kpage a" "unat D + 400 \<le> unat a"
    "unat a + 4096 * n \<le> 4294967296"
    "\<And>b kb. G b = Some kb \<Longrightarrow> unat a + 4096 * n \<le> unat b \<or> unat b + 4096 * pages_of kb \<le> unat a"
proof -
  let ?kp = "kernel_pool mv"
  have vok: "vm_ok mv" by (rule arenas_okD(1)[OF assms(1)])
  have ok: "pool_ok ?kp" using vok by (simp add: vm_ok_def)
  have pk: "pool_of NO_FLAGS mv = ?kp" "\<not> PAL_ASSERT NO_FLAGS" "\<not> PAL_ZERO NO_FLAGS"
    by (simp_all add: pool_of_def NO_FLAGS_def)
  show thesis
  proof (rule palloc_get_ok[OF vok assms(3) pk(2)])
    assume "palloc_get_multiple NO_FLAGS n mv = Some (0, set_used NO_FLAGS (used_map (pool_of NO_FLAGS mv)) mv)"
    then show thesis using that(1) by simp
  next
    fix r m
    assume m: "palloc_get_multiple NO_FLAGS n mv = Some (pool_page (pool_of NO_FLAGS mv) r,
        if PAL_ZERO NO_FLAGS then fill_pages (pool_page (pool_of NO_FLAGS mv) r) n 0 (set_used NO_FLAGS m mv)
        else set_used NO_FLAGS m mv)"
      "r + n \<le> bit_cnt (used_map (pool_of NO_FLAGS mv))"
      "is_run (bitmap_abs (used_map (pool_of NO_FLAGS mv))) r n False" "bitmap_ok m"
      "bit_cnt m = bit_cnt (used_map (pool_of NO_FLAGS mv))"
      "bitmap_abs m = put_bytes r (replicate n True) (bitmap_abs (used_map (pool_of NO_FLAGS mv)))"
    note m = m[unfolded pk(1)]
    let ?a = "pool_page ?kp r" and ?v = "set_used NO_FLAGS m mv"
    have v: "kernel_pool ?v = ?kp\<lparr>used_map := m\<rparr>" "words ?v = words mv"
      by (simp_all add: set_used_def NO_FLAGS_def)
    have vok': "vm_ok ?v" using vm_ok_set_used[OF vok m(4)] m(5) pk(1) by simp
    have ka: "kpage ?a" "unat ?a = unat (base ?kp) + 4096 * r"
      using pool_page_kpage[OF ok] unat_pool_page[OF ok] m(2) by simp_all
    have len: "length (bitmap_abs (used_map ?kp)) = bit_cnt (used_map ?kp)"
      using ok by (simp add: pool_ok_def)
    have runs: "run_used ?v b (pages_of kb)" if "G b = Some kb" for b kb
      using run_used_put[OF arenas_okD(4)[OF assms(1) that] v(1) m(5) vok m(6) m(2)] by simp
    have "arenas_ok D G live ?v"
      using assms(1) runs vok' v by (auto simp: arenas_ok_def arena_hdr_def)
    moreover have "run_used ?v ?a n"
      unfolding run_used_def v(1)
      using m(2,5,6) len by (intro exI[of _ r]) (auto simp: pool_page_def nth_put_bytes)
    moreover have "unat ?a + 4096 * n \<le> 4294967296" using ok m(2) ka(2) by (simp add: pool_ok_def)
    moreover have "unat ?a + 4096 * n \<le> unat b \<or> unat b + 4096 * pages_of kb \<le> unat ?a" if "G b = Some kb" for b kb
    proof -
      have "run_used mv b (pages_of kb)" using arenas_okD(4)[OF assms(1)] that by blast
      then obtain q where q: "unat b = unat (base ?kp) + 4096 * q" "\<forall>k < pages_of kb. bitmap_abs (used_map ?kp) ! (q + k)"
        by (rule run_used_addr[OF vok])
      have "0 < pages_of kb" using ghost_okD(2)[OF assms(2) that] by (cases kb) (auto simp: arena_at_def)
      then have "r + n \<le> q \<or> q + pages_of kb \<le> r"
        using runs_disjoint[OF m(3) q(2)] assms(3) by blast
      then show ?thesis using q(1) ka(2) by auto
    qed
    moreover have "unat D + 400 \<le> unat ?a" using arenas_okD(2)[OF assms(1)] ka(2) by simp
    ultimately show thesis
      using that(2)[of ?a ?v] m(1) pk(3) ka(1) kpage_nonzero[OF ka(1)] v(2) by simp
  qed
qed


lemma unat_hdr:
  assumes "kpage a"
  shows "unat (a + 4) = unat a + 4" "unat (a + 8) = unat a + 8"
proof -
  have "unat a + 4096 \<le> 4294967296"
    using assms unat_less32[of a] by (intro aligned_room) (simp_all add: kpage_unat)
  then show "unat (a + 4) = unat a + 4" "unat (a + 8) = unat a + 8" by (simp_all add: unat_plus_small)
qed

text \<open>A header is unchanged by what only changes words outside it.\<close>

lemma arena_hdr_outside:
  assumes "kpage b" "\<And>y. unat b \<le> unat y \<Longrightarrow> unat y < unat b + 12 \<Longrightarrow> words mv' y = words mv y"
  shows "arena_hdr mv' b = arena_hdr mv b"
  unfolding arena_hdr_def using unat_hdr[OF assms(1)] by (simp add: assms(2))

lemma arena_room:
  assumes "ghost_ok D G live" "G a = Some ka"
  shows "kpage a" "0 < pages_of ka" "unat a + 12 \<le> unat a + 4096 * pages_of ka"
    "unat a + 4096 * pages_of ka \<le> 4294967296"
  using ghost_okD(2)[OF assms] by (cases ka; auto simp: arena_at_def)+

lemma palloc_free_arena:
  assumes "arenas_ok D G live mv" "ghost_ok D G live" "G a = Some kd"
  obtains mv' where "palloc_free_multiple a (pages_of kd) mv = Some mv'" "arenas_ok D (G(a := None)) live mv'"
    "\<And>y. unat y < unat a \<or> unat a + 4096 * pages_of kd \<le> unat y \<Longrightarrow> words mv' y = words mv y"
proof -
  let ?kp = "kernel_pool mv" and ?n = "pages_of kd"
  have vok: "vm_ok mv" by (rule arenas_okD(1)[OF assms(1)])
  have ok: "pool_ok ?kp" using vok by (simp add: vm_ok_def)
  have pk: "pool_of NO_FLAGS mv = ?kp" by (simp add: pool_of_def NO_FLAGS_def)
  note room = arena_room[OF assms(2,3)]
  obtain r where r: "a = pool_page ?kp r" "r + ?n \<le> bit_cnt (used_map ?kp)" "unat a = unat (base ?kp) + 4096 * r"
    "\<forall>k < ?n. bitmap_abs (used_map ?kp) ! (r + k)"
    using run_used_addr[OF vok arenas_okD(4)[OF assms(1,3)]] by metis
  obtain m where m: "palloc_free_multiple a ?n mv = Some (fill_pages a ?n 0xcccccccc (set_used NO_FLAGS m mv))"
    "bitmap_ok m" "bit_cnt m = bit_cnt (used_map ?kp)"
    "bitmap_abs m = put_bytes r (replicate ?n False) (bitmap_abs (used_map ?kp))"
    using palloc_free_ok[OF vok room(2), of r NO_FLAGS] r unfolding pk by metis
  let ?v = "fill_pages a ?n 0xcccccccc (set_used NO_FLAGS m mv)"
  have v: "kernel_pool ?v = ?kp\<lparr>used_map := m\<rparr>" by (simp add: set_used_def NO_FLAGS_def)
  have vok': "vm_ok ?v" using vm_ok_set_used[OF vok m(2)] m(3) pk by simp
  have out: "words ?v y = words mv y" if "unat y < unat a \<or> unat a + 4096 * ?n \<le> unat y" for y
    using unat_diff_range[of y a "4096 * ?n"] room(4) that
    by (auto simp: fill_pages_def set_used_def NO_FLAGS_def)
  have "run_used ?v b (pages_of kb) \<and> arena_hdr ?v b = arena_hdr mv b" if b: "G b = Some kb" "b \<noteq> a" for b kb
  proof
    have far: "unat a + 4096 * ?n \<le> unat b \<or> unat b + 4096 * pages_of kb \<le> unat a"
      using ghost_okD(3)[OF assms(2) b(1) assms(3) b(2)] by (auto simp: apart_def)
    show "run_used ?v b (pages_of kb)"
      using run_used_put[OF arenas_okD(4)[OF assms(1) b(1)] v m(3) vok m(4) r(2)] far r(1) by simp
    show "arena_hdr ?v b = arena_hdr mv b"
      using far arena_room[OF assms(2) b(1)] by (intro arena_hdr_outside out) auto
  qed
  then have "arenas_ok D (G(a := None)) live ?v"
    using assms(1) vok' v unfolding arenas_ok_def by (auto split: if_splits)
  then show thesis using that m(1) out by blast
qed

section \<open>Filling a block\<close>

lemma set_kbyte_frame:
  "kernel_pool (set_kbyte p c mv) = kernel_pool mv" "vm_ok (set_kbyte p c mv) = vm_ok mv"
  "y \<noteq> p AND (NOT 3) \<Longrightarrow> words (set_kbyte p c mv) y = words mv y"
  by (simp_all add: set_kbyte_def)

lemma unat_word_of: "unat (p AND (NOT 3) :: u32) = unat p - unat p mod 4"
proof -
  have m: "(3 :: u32) = mask 2" by (simp add: mask_eq_exp_minus_1)
  have "p AND (NOT 3) = push_bit 2 (drop_bit 2 p)"
    unfolding m by (rule bit_word_eqI) (auto simp: bit_simps simp del: mask_numeral add_2_eq_Suc add_2_eq_Suc')
  also have "\<dots> = p - take_bit 2 p" by (simp add: bits_ident eq_diff_eq)
  finally have "p AND (NOT 3) = p - take_bit 2 p" .
  moreover have "unat (take_bit 2 p) = unat p mod 4"
    by (subst unsigned_take_bit_eq) (simp add: take_bit_eq_mod)
  ultimately show ?thesis by (simp add: unat_sub word_le_nat_alt)
qed

lemma set_kbytes_frame:
  "kernel_pool (set_kbytes p bs mv) = kernel_pool mv" "vm_ok (set_kbytes p bs mv) = vm_ok mv"
  by (induction bs arbitrary: p mv) (simp_all add: set_kbyte_frame)

lemma set_kbytes_outside:
  assumes "unat p mod 4 = 0" "unat p + length bs \<le> 4294967296" "unat y < unat p \<or> unat p + length bs \<le> unat y"
  shows "words (set_kbytes p bs mv) y = words mv y"
proof -
  have "words (set_kbytes (p + of_nat i) bs mv) y = words mv y"
    if "unat p + i + length bs \<le> 4294967296" "unat y < unat p \<or> unat p + i + length bs \<le> unat y" for i
    using that
  proof (induction bs arbitrary: i mv)
    case (Cons b bs)
    have "unat (of_nat i :: u32) = i" using Cons.prems(1) by (intro unat_of_nat32) simp
    then have "unat (p + of_nat i) = unat p + i" using Cons.prems(1) by (subst unat_plus_small) simp_all
    then have "unat ((p + of_nat i) AND (NOT 3)) = unat p + i - (unat p + i) mod 4" unfolding unat_word_of by simp
    moreover have "unat p \<le> unat p + i - (unat p + i) mod 4" using assms(1) by presburger
    moreover have "unat p + i - (unat p + i) mod 4 < unat p + i + length (b # bs)" by simp
    ultimately have "y \<noteq> (p + of_nat i) AND (NOT 3)" using Cons.prems(2) by force
    then show ?case
      using Cons.IH[of "Suc i" "set_kbyte (p + of_nat i) b mv"] Cons.prems
      by (simp add: set_kbyte_frame(3) add.assoc[symmetric] add.commute[of 1])
  qed simp
  from this[of 0] show ?thesis using assms(2,3) by simp
qed

end
