(* ===== verification/KMallocOps.thy ===== *)
theory KMallocOps imports KMallocArena begin

unbundle bit_operations_syntax

text \<open>
  What the operations of the block allocator do to the invariant, and the set of allocated
  regions that the clients of the allocator see.
\<close>

section \<open>The invariant\<close>

definition sizes_ok :: "u32 \<Rightarrow> (u32 \<Rightarrow> desc) \<Rightarrow> bool" where
  "sizes_ok D ds \<longleftrightarrow> (\<forall>i < 7. d_block_size (ds (dptr D i)) = of_nat (bsz i) \<and>
     d_blocks_per_arena (ds (dptr D i)) = of_nat (nblk i))"

definition heap_core :: "(u32 \<Rightarrow> arena_kind option) \<Rightarrow> u32 set \<Rightarrow> kheap \<Rightarrow> bool" where
  "heap_core G live st \<longleftrightarrow> desc_cnt st = 7 \<and> sizes_ok (descs_at st) (descs st) \<and>
     ghost_ok (descs_at st) G live \<and> arenas_ok (descs_at st) G live (kvm st) \<and>
     lists_ok (descs_at st) G live (links st)"

definition unlocked :: "kheap \<Rightarrow> bool" where
  "unlocked st \<longleftrightarrow> (\<forall>i < 7. \<not> d_locked (descs st (dptr (descs_at st) i)))"

lemma sizes_okD:
  assumes "sizes_ok D ds" "i < 7"
  shows "d_block_size (ds (dptr D i)) = of_nat (bsz i)" "d_blocks_per_arena (ds (dptr D i)) = of_nat (nblk i)"
    "unat (d_block_size (ds (dptr D i))) = bsz i" "unat (d_blocks_per_arena (ds (dptr D i))) = nblk i"
proof -
  show e: "d_block_size (ds (dptr D i)) = of_nat (bsz i)" "d_blocks_per_arena (ds (dptr D i)) = of_nat (nblk i)"
    using assms by (auto simp: sizes_ok_def)
  show "unat (d_block_size (ds (dptr D i))) = bsz i" "unat (d_blocks_per_arena (ds (dptr D i))) = nblk i"
    unfolding e using bsz_bounds(2)[OF assms(2)] nblk_bounds(1)[of i] by (simp_all add: unat_of_nat32)
qed

lemma dptr_nonzero: "ghost_ok D G live \<Longrightarrow> unat D + 400 \<le> 4294967296 \<Longrightarrow> i < 7 \<Longrightarrow> dptr D i \<noteq> 0"
  using unat_dptr[of D i] ghost_okD(1) by (fastforce simp: unat_eq_zero)

section \<open>Arenas and blocks\<close>

lemma block_to_arena_ok:
  assumes "kpage a" "k < nblk i" "i < 7" "a_magic a st = ARENA_MAGIC" "a_desc a st = dptr D i"
    "sizes_ok D (descs st)" "dptr D i \<noteq> 0"
  shows "block_to_arena (mblk a i k) st = Some a"
proof -
  have "SIZEOF_ARENA \<le> pg_ofs (mblk a i k)"
    using mblk_page(2)[OF assms(1,2)] by (simp add: word_le_nat_alt SIZEOF_ARENA_def)
  then have "unat (pg_ofs (mblk a i k) - SIZEOF_ARENA) = k * bsz i"
    using mblk_page(2)[OF assms(1,2)] by (simp add: unat_sub SIZEOF_ARENA_def)
  then have "unat ((pg_ofs (mblk a i k) - SIZEOF_ARENA) mod d_block_size (descs st (dptr D i))) = 0"
    using sizes_okD(3)[OF assms(6,3)] by (simp add: unat_mod)
  then have "(pg_ofs (mblk a i k) - SIZEOF_ARENA) mod d_block_size (descs st (dptr D i)) = 0"
    by (simp only: unat_eq_zero)
  then show ?thesis
    using mblk_page(1)[OF assms(1,2)] assms(4,5,7) kpage_nonzero[OF assms(1)] by (simp add: block_to_arena_def Let_def)
qed

lemma arena_to_block_ok:
  assumes "kpage a" "k < nblk i" "i < 7" "a_magic a st = ARENA_MAGIC" "a_desc a st = dptr D i"
    "sizes_ok D (descs st)"
  shows "arena_to_block a (of_nat k) st = Some (mblk a i k)"
proof -
  have "unat (of_nat k :: u32) = k" using assms(2) nblk_bounds(1)[of i] by (intro unat_of_nat32) simp
  then have "of_nat k < d_blocks_per_arena (descs st (dptr D i))"
    using sizes_okD(4)[OF assms(6,3)] assms(2) by (simp add: word_less_nat_alt)
  then show ?thesis
    using assms(4,5) kpage_nonzero[OF assms(1)] sizes_okD(1)[OF assms(6,3)] by (simp add: arena_to_block_def mblk_def)
qed

lemma push_blocks_ok:
  assumes "kpage a" "i < 7" "a_magic a st = ARENA_MAGIC" "a_desc a st = dptr D i" "sizes_ok D (descs st)"
    "j + n = nblk i" "free_rep D (links st) i S"
    "\<And>k. j \<le> k \<Longrightarrow> k < nblk i \<Longrightarrow> mblk a i k \<notin> S \<and> unat (mblk a i k) \<notin> fhdr D i"
  shows "\<exists>h'. push_blocks a (dptr D i) (of_nat j) n st = Some (st\<lparr>links := h'\<rparr>) \<and>
    free_rep D h' i (S \<union> mblk a i ` {j..<nblk i}) \<and>
    same_outside (fcells D i (S \<union> mblk a i ` {j..<nblk i})) (links st) h'"
  using assms(3-)
proof (induction n arbitrary: j S st)
  case 0
  then show ?case by (intro exI[of _ "links st"]) simp
next
  case (Suc n)
  let ?b = "mblk a i j"
  have j: "j < nblk i" using Suc.prems(4) by simp
  have b: "?b \<noteq> 0" "?b \<notin> S" "unat ?b \<notin> fhdr D i"
    using mblk_nonzero[OF assms(1) j] Suc.prems(6)[of j] j by auto
  obtain h1 where h1: "list_push_back (free_list (dptr D i)) (unat ?b) (links st) = Some h1"
    "free_rep D h1 i (insert ?b S)" "same_outside (fcells D i (insert ?b S)) (links st) h1"
    using free_rep_push[OF Suc.prems(5) b] by blast
  have ne: "mblk a i k \<noteq> ?b" if "j < k" "k < nblk i" for k
    using mblk_inj(2)[OF assms(1,1) that(2) j] that(1) by auto
  have split: "{j..<nblk i} = insert j {Suc j..<nblk i}" using j by auto
  have set: "insert ?b S \<union> mblk a i ` {Suc j..<nblk i} = S \<union> mblk a i ` {j..<nblk i}"
    unfolding split by auto
  obtain h' where h': "push_blocks a (dptr D i) (of_nat (Suc j)) n (st\<lparr>links := h1\<rparr>) = Some (st\<lparr>links := h'\<rparr>)"
    "free_rep D h' i (S \<union> mblk a i ` {j..<nblk i})" "same_outside (fcells D i (S \<union> mblk a i ` {j..<nblk i})) h1 h'"
    using Suc.IH[of "st\<lparr>links := h1\<rparr>" "Suc j" "insert ?b S"] Suc.prems h1(2) ne
    unfolding set by (auto simp: a_magic_def a_desc_def)
  have "same_outside (fcells D i (S \<union> mblk a i ` {j..<nblk i})) (links st) h'"
    using j by (intro same_outside_trans[OF h1(3) h'(3)]) auto
  then show ?case
    using h1(1) h'(1,2) arena_to_block_ok[OF assms(1) j assms(2) Suc.prems(1-3)]
    by (intro exI[of _ h']) (simp add: add.commute)
qed

lemma remove_blocks_ok:
  assumes "kpage a" "i < 7" "a_magic a st = ARENA_MAGIC" "a_desc a st = dptr D i" "sizes_ok D (descs st)"
    "j + n = nblk i" "free_rep D (links st) i S" "mblk a i ` {j..<nblk i} \<subseteq> S"
  shows "\<exists>h'. remove_blocks a (of_nat j) n st = Some (st\<lparr>links := h'\<rparr>) \<and>
    free_rep D h' i (S - mblk a i ` {j..<nblk i}) \<and> same_outside (fcells D i S) (links st) h'"
  using assms(3-)
proof (induction n arbitrary: j S st)
  case 0
  then show ?case by (intro exI[of _ "links st"]) simp
next
  case (Suc n)
  let ?b = "mblk a i j"
  have j: "j < nblk i" using Suc.prems(4) by simp
  have "?b \<in> S" using Suc.prems(6) j by auto
  then obtain m h1 where h1: "list_remove (unat ?b) (links st) = Some (m, h1)"
    "free_rep D h1 i (S - {?b})" "same_outside (fcells D i S) (links st) h1"
    using free_rep_remove[OF Suc.prems(5)] by blast
  have ne: "mblk a i k \<noteq> ?b" if "j < k" "k < nblk i" for k
    using mblk_inj(2)[OF assms(1,1) that(2) j] that(1) by auto
  have split: "{j..<nblk i} = insert j {Suc j..<nblk i}" using j by auto
  have set: "S - {?b} - mblk a i ` {Suc j..<nblk i} = S - mblk a i ` {j..<nblk i}"
    unfolding split by auto
  have sub: "mblk a i ` {Suc j..<nblk i} \<subseteq> S - {?b}"
  proof
    fix x assume "x \<in> mblk a i ` {Suc j..<nblk i}"
    then obtain k where "x = mblk a i k" "j < k" "k < nblk i" by auto
    then show "x \<in> S - {?b}" using ne[of k] Suc.prems(6) by auto
  qed
  obtain h' where h': "remove_blocks a (of_nat (Suc j)) n (st\<lparr>links := h1\<rparr>) = Some (st\<lparr>links := h'\<rparr>)"
    "free_rep D h' i (S - mblk a i ` {j..<nblk i})" "same_outside (fcells D i (S - {?b})) h1 h'"
    using Suc.IH[of "st\<lparr>links := h1\<rparr>" "Suc j" "S - {?b}"] Suc.prems(1-4) h1(2) sub
    unfolding set by (auto simp: a_magic_def a_desc_def)
  have "same_outside (fcells D i S) (links st) h'"
    by (intro same_outside_trans[OF h1(3) h'(3)]) auto
  then show ?case
    using h1(1) h'(1,2) arena_to_block_ok[OF assms(1) j assms(2) Suc.prems(1-3)]
    by (intro exI[of _ h']) (simp add: add.commute)
qed

lemma find_desc_ok:
  assumes "sizes_ok D (descs st)" "j + n = 7"
  shows "find_desc sz (dptr D j) n st = None \<and> (\<forall>i. j \<le> i \<and> i < 7 \<longrightarrow> bsz i < unat sz) \<or>
    (\<exists>i < 7. find_desc sz (dptr D j) n st = Some (dptr D i) \<and> unat sz \<le> bsz i \<and> (\<forall>k. j \<le> k \<and> k < i \<longrightarrow> bsz k < unat sz))"
  using assms(2)
proof (induction n arbitrary: j)
  case (Suc n)
  have step: "dptr D j + SIZEOF_DESC = dptr D (Suc j)" by (simp add: dptr_def algebra_simps)
  have j: "j < 7" using Suc.prems by simp
  show ?case
  proof (cases "unat sz \<le> bsz j")
    case True
    then have "sz \<le> d_block_size (descs st (dptr D j))"
      using sizes_okD(3)[OF assms(1) j] by (simp add: word_le_nat_alt)
    then show ?thesis using True j by auto
  next
    case False
    then have "\<not> sz \<le> d_block_size (descs st (dptr D j))"
      using sizes_okD(3)[OF assms(1) j] by (simp add: word_le_nat_alt)
    then have "find_desc sz (dptr D j) (Suc n) st = find_desc sz (dptr D (Suc j)) n st" by (simp add: step)
    moreover have "bsz j < unat sz" using False by simp
    ultimately show ?thesis using Suc.IH[of "Suc j"] Suc.prems by (metis Suc_leI add_Suc_shift le_neq_implies_less)
  qed
qed simp


section \<open>Allocated regions\<close>

definition alloc_set :: "(u32 \<Rightarrow> arena_kind option) \<Rightarrow> u32 set \<Rightarrow> (u32 \<times> nat) set" where
  "alloc_set G live = {(mblk a i k, bsz i) | a i k. G a = Some (Small i) \<and> k < nblk i \<and> mblk a i k \<in> live} \<union>
     {(p + SIZEOF_ARENA, 4096 * n - 12) | p n. G p = Some (Big n)}"

text \<open>The contents of the regions are the same.\<close>

definition keeps :: "(u32 \<times> nat) set \<Rightarrow> vmem \<Rightarrow> vmem \<Rightarrow> bool" where
  "keeps B mv mv' \<longleftrightarrow> (\<forall>q m y. (q, m) \<in> B \<longrightarrow> unat q \<le> unat y \<longrightarrow> unat y < unat q + m \<longrightarrow>
     words mv' y = words mv y)"

lemma keeps_refl: "words mv' = words mv \<Longrightarrow> keeps B mv mv'"
  by (simp add: keeps_def)

lemma keeps_trans: "keeps B u v \<Longrightarrow> keeps B v w \<Longrightarrow> keeps B u w"
  by (simp add: keeps_def)

lemma keeps_mono: "keeps B u v \<Longrightarrow> A \<subseteq> B \<Longrightarrow> keeps A u v"
  unfolding keeps_def by blast

lemma big_block: "ghost_ok D G live \<Longrightarrow> G p = Some (Big n) \<Longrightarrow> unat (p + SIZEOF_ARENA) = unat p + 12"
  using arena_room[of D G live p "Big n"] by (simp add: SIZEOF_ARENA_def unat_plus_small)

lemma alloc_setE:
  assumes "ghost_ok D G live" "(q, m) \<in> alloc_set G live"
  obtains a kd where "G a = Some kd" "unat a + 12 \<le> unat q" "unat q + m \<le> unat a + 4096 * pages_of kd" "0 < m"
    "(\<exists>i k. kd = Small i \<and> k < nblk i \<and> q = mblk a i k \<and> m = bsz i \<and> q \<in> live) \<or>
     (\<exists>n. kd = Big n \<and> q = a + SIZEOF_ARENA \<and> m = 4096 * n - 12)"
proof -
  consider a i k where "G a = Some (Small i)" "k < nblk i" "q = mblk a i k" "m = bsz i" "q \<in> live"
    | p n where "G p = Some (Big n)" "q = p + SIZEOF_ARENA" "m = 4096 * n - 12"
    using assms(2) unfolding alloc_set_def by blast
  then show thesis
  proof cases
    case 1
    have "kpage a" using arena_room(1)[OF assms(1) 1(1)] .
    then show thesis using that[OF 1(1)] mblk_inside[of a k i] 1 bsz_bounds(1)[of i] by fastforce
  next
    case 2
    then show thesis using that[OF 2(1)] big_block[OF assms(1) 2(1)] arena_room(2)[OF assms(1) 2(1)] by simp
  qed
qed

text \<open>Different regions do not overlap.\<close>

lemma alloc_set_disjoint:
  assumes "ghost_ok D G live" "(q, m) \<in> alloc_set G live" "(r, n) \<in> alloc_set G live" "q \<noteq> r"
  shows "unat q + m \<le> unat r \<or> unat r + n \<le> unat q"
proof -
  obtain a ka where a: "G a = Some ka" "unat a + 12 \<le> unat q" "unat q + m \<le> unat a + 4096 * pages_of ka"
    "(\<exists>i k. ka = Small i \<and> k < nblk i \<and> q = mblk a i k \<and> m = bsz i \<and> q \<in> live) \<or>
     (\<exists>n. ka = Big n \<and> q = a + SIZEOF_ARENA \<and> m = 4096 * n - 12)"
    using assms(2) by (rule alloc_setE[OF assms(1)])
  obtain b kb where b: "G b = Some kb" "unat b + 12 \<le> unat r" "unat r + n \<le> unat b + 4096 * pages_of kb"
    "(\<exists>i k. kb = Small i \<and> k < nblk i \<and> r = mblk b i k \<and> n = bsz i \<and> r \<in> live) \<or>
     (\<exists>l. kb = Big l \<and> r = b + SIZEOF_ARENA \<and> n = 4096 * l - 12)"
    using assms(3) by (rule alloc_setE[OF assms(1)])
  show ?thesis
  proof (cases "a = b")
    case False
    then show ?thesis using ghost_okD(3)[OF assms(1) a(1) b(1)] a(2,3) b(2,3) by (auto simp: apart_def)
  next
    case True
    then have "ka = kb" using a(1) b(1) by simp
    then obtain i k l where kl: "k < nblk i" "q = mblk a i k" "m = bsz i" "l < nblk i" "r = mblk a i l" "n = bsz i"
      using a(4) b(4) True assms(4) by auto
    have "unat q = unat a + 12 + k * bsz i" "unat r = unat a + 12 + l * bsz i"
      using unat_mblk[OF arena_room(1)[OF assms(1) a(1)]] kl by auto
    moreover have "k \<noteq> l" using assms(4) kl by auto
    then consider "Suc k \<le> l" | "Suc l \<le> k" by linarith
    then have "Suc k * bsz i \<le> l * bsz i \<or> Suc l * bsz i \<le> k * bsz i"
      by cases (use mult_le_mono1 in blast)+
    ultimately show ?thesis using kl(3,6) by auto
  qed
qed

text \<open>A store into a header changes no region.\<close>

lemma keeps_hdr:
  assumes "ghost_ok D G live" "kpage c"
    "\<And>b kb. G b = Some kb \<Longrightarrow> b \<noteq> c \<Longrightarrow> unat c + 4096 \<le> unat b \<or> unat b + 4096 * pages_of kb \<le> unat c"
    "x \<in> {c, c + 4, c + 8}"
  shows "keeps (alloc_set G live) mv (store x w mv)"
  unfolding keeps_def
proof (intro allI impI)
  fix q m and y :: u32 assume q: "(q, m) \<in> alloc_set G live" "unat q \<le> unat y" "unat y < unat q + m"
  have x: "unat c \<le> unat x" "unat x < unat c + 12" using assms(4) unat_hdr[OF assms(2)] by auto
  obtain a kd where a: "G a = Some kd" "unat a + 12 \<le> unat q" "unat q + m \<le> unat a + 4096 * pages_of kd"
    by (rule alloc_setE[OF assms(1) q(1)])
  have "y \<noteq> x"
  proof (cases "a = c")
    case True
    then show ?thesis using a q x by auto
  next
    case False
    then show ?thesis using assms(3)[OF a(1)] a q x by auto
  qed
  then show "words (store x w mv) y = words mv y" by simp
qed

end
