(* ===== verification/KMallocSmall.thy ===== *)
theory KMallocSmall imports KMallocOps begin

text \<open>
  What a change of the arenas or of the live blocks does to the ghost state, and the filling of an
  empty free list from a new arena.
\<close>

section \<open>Changes of the ghost state\<close>

lemma ghost_ok_new:
  assumes "ghost_ok D G live" "G a = None" "arena_at D a kd"
    "\<And>b kb. G b = Some kb \<Longrightarrow> apart a kd b kb"
  shows "ghost_ok D (G(a \<mapsto> kd)) live"
proof -
  have mono: "blocks_of G j \<subseteq> blocks_of (G(a \<mapsto> kd)) j" for j
  proof
    fix b assume "b \<in> blocks_of G j"
    then obtain c k where c: "G c = Some (Small j)" "k < nblk j" "b = mblk c j k" unfolding blocks_of_def by blast
    then have "c \<noteq> a" using assms(2) by auto
    then have "(G(a \<mapsto> kd)) c = Some (Small j)" using c(1) by simp
    then show "b \<in> blocks_of (G(a \<mapsto> kd)) j"
      unfolding blocks_of_def mem_Collect_eq using c(2,3) by (intro exI[of _ c] exI[of _ k] conjI)
  qed
  have "live \<subseteq> (\<Union>i < 7. blocks_of (G(a \<mapsto> kd)) i)"
    by (rule order_trans[OF ghost_okD(4)[OF assms(1)]]) (intro UN_mono order_refl mono)
  moreover have "apart b kb a kd" if "G b = Some kb" for b kb
    using assms(4)[OF that] by (auto simp: apart_def)
  ultimately show ?thesis using assms unfolding ghost_ok_def by auto
qed

lemma ghost_ok_remove:
  assumes "ghost_ok D G live" "\<And>i. live \<inter> blocks_of G i \<subseteq> blocks_of (G(a := None)) i"
  shows "ghost_ok D (G(a := None)) live"
proof -
  have "live \<subseteq> (\<Union>i < 7. blocks_of (G(a := None)) i)"
    using ghost_okD(4)[OF assms(1)] assms(2) by blast
  then show ?thesis using assms(1) unfolding ghost_ok_def by auto
qed

lemma ghost_ok_live:
  "ghost_ok D G live \<Longrightarrow> live' \<subseteq> (\<Union>i < 7. blocks_of G i) \<Longrightarrow> ghost_ok D G live'"
  by (simp add: ghost_ok_def)

lemma live_block:
  assumes "ghost_ok D G live" "kpage a" "k < nblk i" "mblk a i k \<in> live"
  obtains j where "G a = Some (Small j)"
proof -
  obtain j where "mblk a i k \<in> blocks_of G j" using assms(4) ghost_okD(4)[OF assms(1)] by auto
  then obtain b l where b: "G b = Some (Small j)" "kpage b" "l < nblk j" "mblk a i k = mblk b j l"
    by (rule blocks_ofE[OF assms(1)])
  have "a = b" using mblk_page(1)[OF assms(2,3)] mblk_page(1)[OF b(2,3)] b(4) by simp
  then show thesis using that b(1) by blast
qed

lemma fresh_block:
  assumes "ghost_ok D G live" "kpage a" "G a = None" "k < nblk i"
  shows "mblk a i k \<notin> live"
proof
  assume "mblk a i k \<in> live"
  then obtain j where "G a = Some (Small j)" by (rule live_block[OF assms(1,2,4)])
  then show False using assms(3) by simp
qed

lemma apart_far:
  assumes "ghost_ok D G live" "G b = Some kb" "0 < n"
    "unat a + 4096 * n \<le> unat b \<or> unat b + 4096 * pages_of kb \<le> unat a"
  shows "a \<noteq> b"
  using assms(3,4) arena_room(2)[OF assms(1,2)] by auto

section \<open>A new arena\<close>

lemma alloc_set_new:
  assumes "ghost_ok D G live" "G a = None" "kpage a"
  shows "alloc_set (G(a \<mapsto> Small i)) live = alloc_set G live"
    "alloc_set (G(a \<mapsto> Big n)) live = insert (a + SIZEOF_ARENA, 4096 * n - 12) (alloc_set G live)"
proof -
  have no: "mblk a i k \<notin> live" if "k < nblk i" for k
    by (rule fresh_block[OF assms(1,3,2) that])
  show "alloc_set (G(a \<mapsto> Small i)) live = alloc_set G live"
    using no assms(2) unfolding alloc_set_def by (auto split: if_splits) (metis option.distinct(1))+
  show "alloc_set (G(a \<mapsto> Big n)) live = insert (a + SIZEOF_ARENA, 4096 * n - 12) (alloc_set G live)"
    using assms(2) unfolding alloc_set_def by (auto split: if_splits) (metis option.distinct(1))+
qed

lemma heap_coreD:
  assumes "heap_core G live st"
  shows "desc_cnt st = 7" "sizes_ok (descs_at st) (descs st)" "ghost_ok (descs_at st) G live"
    "arenas_ok (descs_at st) G live (kvm st)" "lists_ok (descs_at st) G live (links st)"
    "unat (descs_at st) + 400 \<le> 4294967296"
  using assms arenas_okD(3) unfolding heap_core_def by blast+

lemma keeps_new:
  assumes "ghost_ok D G live" "kpage a" "\<And>b kb. G b = Some kb \<Longrightarrow> unat a + 4096 \<le> unat b \<or> unat b + 4096 * pages_of kb \<le> unat a"
  shows "keeps (alloc_set G live) mv (store (a + 8) n (store (a + 4) d (store a m mv)))"
proof -
  note k = keeps_hdr[OF assms(1,2) assms(3)]
  show ?thesis by (rule keeps_trans[OF k keeps_trans[OF k k]]) simp_all
qed

lemma new_arena_ok:
  assumes core: "heap_core G live st" and i: "i < 7" and empty: "blocks_of G i \<subseteq> live"
    and mv': "words mv' = words (kvm st)" "arenas_ok (descs_at st) G live mv'" "run_used mv' a 1" "kpage a"
      "unat (descs_at st) + 400 \<le> unat a" "unat a + 4096 \<le> 4294967296"
    and far: "\<And>b kb. G b = Some kb \<Longrightarrow> unat a + 4096 \<le> unat b \<or> unat b + 4096 * pages_of kb \<le> unat a"
  obtains st' where "push_blocks a (dptr (descs_at st) i) 0 (nblk i)
      (set_arena a (dptr (descs_at st) i) (of_nat (nblk i)) (st\<lparr>kvm := mv'\<rparr>)) = Some st'"
    "heap_core (G(a \<mapsto> Small i)) live st'" "descs st' = descs st" "descs_at st' = descs_at st"
    "keeps (alloc_set G live) (kvm st) (kvm st')"
proof -
  let ?D = "descs_at st" and ?d = "dptr (descs_at st) i" and ?G = "G(a \<mapsto> Small i)"
  let ?v = "store (a + 8) (of_nat (nblk i)) (store (a + 4) ?d (store a ARENA_MAGIC mv'))"
  note c = heap_coreD[OF core]
  have none: "G a = None"
  proof (rule ccontr)
    assume "G a \<noteq> None"
    then obtain kb where "G a = Some kb" by blast
    then show False using apart_far[OF c(3), of a kb 1 a] far[of a kb] by simp
  qed
  have gh: "ghost_ok ?D ?G live"
    using far mv' i by (intro ghost_ok_new[OF c(3) none]) (auto simp: arena_at_def apart_def)
  have no: "mblk a i k \<notin> live" if "k < nblk i" for k
    by (rule fresh_block[OF c(3) mv'(4) none that])
  then have "nfree live a i = nblk i" by (simp add: nfree_all)
  then have ar: "arenas_ok ?D ?G live ?v"
    using mv' by (intro arenas_ok_new[OF mv'(2) c(3) none mv'(4)]) (simp_all add: hdr_def)
  let ?s = "set_arena a ?d (of_nat (nblk i)) (st\<lparr>kvm := mv'\<rparr>)"
  have s: "kvm ?s = ?v" "links ?s = links st" "descs ?s = descs st" "descs_at ?s = ?D" "desc_cnt ?s = desc_cnt st"
    by (simp_all add: set_arena_def)
  have m: "a_magic a ?s = ARENA_MAGIC" "a_desc a ?s = ?d"
    using arena_hdr_set(1)[of a "of_nat (nblk i)" ?d ARENA_MAGIC mv'] unfolding a_magic_def a_desc_def s(1) arena_hdr_def by simp_all
  have new: "mblk a i k \<notin> blocks_of G i - live \<and> unat (mblk a i k) \<notin> fhdr ?D i" if "k < nblk i" for k
  proof
    have "mblk a i k \<in> blocks_of ?G i" using that by (auto simp: blocks_of_def)
    then show "unat (mblk a i k) \<notin> fhdr ?D i" by (rule fhdr_block[OF c(6) gh i])
    show "mblk a i k \<notin> blocks_of G i - live" using empty by blast
  qed
  have "free_rep ?D (links ?s) i (blocks_of G i - live)" using c(5) i by (simp add: lists_ok_def s(2))
  then obtain h' where h': "push_blocks a ?d 0 (nblk i) ?s = Some (?s\<lparr>links := h'\<rparr>)"
    "free_rep ?D h' i (blocks_of G i - live \<union> mblk a i ` {0..<nblk i})"
    "same_outside (fcells ?D i (blocks_of G i - live \<union> mblk a i ` {0..<nblk i})) (links st) h'"
    using push_blocks_ok[OF mv'(4) i m, of 0 "nblk i" "blocks_of G i - live"] c(2) new by (auto simp: s)
  have bl: "blocks_of G i - live \<union> mblk a i ` {0..<nblk i} = blocks_of ?G i - live"
    "\<And>j. j \<noteq> i \<Longrightarrow> blocks_of ?G j = blocks_of G j"
    using no blocks_of_None[of G a, OF none] by (auto simp: blocks_of_upd(1) lessThan_atLeast0)
  have "lists_ok ?D ?G live h'"
    using h'(2,3) bl by (intro lists_ok_update[OF c(6) gh c(5) i]) auto
  then have "heap_core ?G live (?s\<lparr>links := h'\<rparr>)"
    using c(1,2) gh ar by (simp add: heap_core_def s)
  moreover have "keeps (alloc_set G live) (kvm st) ?v"
    using keeps_trans[OF keeps_refl[OF mv'(1)] keeps_new[OF c(3) mv'(4) far]] .
  ultimately show thesis using that[of "?s\<lparr>links := h'\<rparr>"] h'(1) s by simp
qed

lemma fill_free_list_ok:
  assumes "heap_core G live st" "i < 7"
  obtains "fill_free_list (dptr (descs_at st) i) st = Some (False, st)"
  | G' st' where "fill_free_list (dptr (descs_at st) i) st = Some (True, st')" "heap_core G' live st'"
    "blocks_of G' i - live \<noteq> {}" "descs st' = descs st" "descs_at st' = descs_at st"
    "alloc_set G' live = alloc_set G live" "keeps (alloc_set G live) (kvm st) (kvm st')"
proof -
  let ?d = "dptr (descs_at st) i"
  note c = heap_coreD[OF assms(1)]
  have fr: "free_rep (descs_at st) (links st) i (blocks_of G i - live)"
    using c(5) assms(2) by (simp add: lists_ok_def)
  show thesis
  proof (cases "blocks_of G i - live = {}")
    case False
    then show thesis using that(2)[of st G] free_rep_empty[OF fr] assms(1)
      by (simp add: fill_free_list_def keeps_refl)
  next
    case True
    show thesis
    proof (rule palloc_get_arena[OF c(4,3), of 1])
      assume "palloc_get_multiple NO_FLAGS 1 (kvm st) = Some (0, kvm st)"
      then show thesis using that(1) free_rep_empty[OF fr] True
        by (simp add: fill_free_list_def palloc_get_page_def)
    next
      fix a mv'
      assume g: "palloc_get_multiple NO_FLAGS 1 (kvm st) = Some (a, mv')" "a \<noteq> 0" "words mv' = words (kvm st)"
        "arenas_ok (descs_at st) G live mv'" "run_used mv' a 1" "kpage a" "unat (descs_at st) + 400 \<le> unat a"
        "unat a + 4096 * 1 \<le> 4294967296"
        "\<And>b kb. G b = Some kb \<Longrightarrow> unat a + 4096 * 1 \<le> unat b \<or> unat b + 4096 * pages_of kb \<le> unat a"
      obtain st' where st': "push_blocks a ?d 0 (nblk i) (set_arena a ?d (of_nat (nblk i)) (st\<lparr>kvm := mv'\<rparr>)) = Some st'"
        "heap_core (G(a \<mapsto> Small i)) live st'" "descs st' = descs st" "descs_at st' = descs_at st"
        "keeps (alloc_set G live) (kvm st) (kvm st')"
        using new_arena_ok[OF assms(1,2) _ g(3-7)] True g(8,9) by auto
      have none: "G a = None"
      proof (rule ccontr)
        assume "G a \<noteq> None"
        then obtain kb where "G a = Some kb" by blast
        then show False using apart_far[OF c(3), of a kb 1 a] g(9)[of a kb] by simp
      qed
      have "mblk a i 0 \<in> blocks_of (G(a \<mapsto> Small i)) i - live"
        using fresh_block[OF c(3) g(6) none, of 0 i] nblk_bounds(2)[OF assms(2)] by (auto simp: blocks_of_upd(1))
      then show thesis
        using that(2)[OF _ st'(2) _ st'(3,4) alloc_set_new(1)[OF c(3) none g(6)] st'(5)] g(1,2)
          free_rep_empty[OF fr] True sizes_okD(2,4)[OF c(2) assms(2)] st'(1)
        by (auto simp: fill_free_list_def palloc_get_page_def Let_def)
    qed simp
  qed
qed

end
