(* ===== verification/KMallocOk.thy ===== *)
theory KMallocOk imports KMallocSmall begin

text \<open>
  Allocation of a small block: how the regions change with the ghost state, taking a block from a
  free list, and the locked part of \<open>malloc\<close>.
\<close>

section \<open>Changes of the regions\<close>

lemma same_arena:
  assumes "ghost_ok D G live" "G a = Some ka" "G c = Some kc" "unat a \<le> x" "x < unat a + 4096 * pages_of ka"
    "unat c \<le> x" "x < unat c + 4096 * pages_of kc"
  shows "a = c"
  using ghost_okD(3)[OF assms(1-3)] assms(4-) by (cases "a = c") (auto simp: apart_def)

lemma alloc_set_insert:
  assumes "ghost_ok D G live" "G a = Some (Small i)" "k < nblk i"
  shows "alloc_set G (insert (mblk a i k) live) = insert (mblk a i k, bsz i) (alloc_set G live)"
proof -
  have ka: "kpage a" by (rule arena_room(1)[OF assms(1,2)])
  have same: "bsz j = bsz i" if "G b = Some (Small j)" "l < nblk j" "mblk b j l = mblk a i k" for b j l
  proof -
    have "pg_round_down (mblk b j l) = b" using mblk_page(1)[OF arena_room(1)[OF assms(1) that(1)] that(2)] .
    then have "b = a" using mblk_page(1)[OF ka assms(3)] that(3) by simp
    then show ?thesis using that(1) assms(2) by simp
  qed
  show ?thesis
  proof (intro equalityI subsetI)
    fix x assume "x \<in> alloc_set G (insert (mblk a i k) live)"
    then consider b j l where "x = (mblk b j l, bsz j)" "G b = Some (Small j)" "l < nblk j" "mblk b j l = mblk a i k"
      | "x \<in> alloc_set G live" unfolding alloc_set_def by blast
    then show "x \<in> insert (mblk a i k, bsz i) (alloc_set G live)" by cases (simp_all add: same)
  next
    fix x assume "x \<in> insert (mblk a i k, bsz i) (alloc_set G live)"
    then show "x \<in> alloc_set G (insert (mblk a i k) live)"
      using assms(2,3) unfolding alloc_set_def by blast
  qed
qed

lemma alloc_set_small:
  assumes "ghost_ok D G live" "G a = Some (Small i)" "k < nblk i" "(mblk a i k, n) \<in> alloc_set G live"
  shows "mblk a i k \<in> live" "n = bsz i"
proof -
  note in_a = mblk_inside[OF arena_room(1)[OF assms(1,2)] assms(3)]
  obtain c kc where c: "G c = Some kc" "unat c + 12 \<le> unat (mblk a i k)" "unat (mblk a i k) + n \<le> unat c + 4096 * pages_of kc" "0 < n"
    "(\<exists>j l. kc = Small j \<and> l < nblk j \<and> mblk a i k = mblk c j l \<and> n = bsz j \<and> mblk a i k \<in> live) \<or>
     (\<exists>m. kc = Big m \<and> mblk a i k = c + SIZEOF_ARENA \<and> n = 4096 * m - 12)"
    using assms(4) by (rule alloc_setE[OF assms(1)])
  have "a = c" using c in_a bsz_bounds(1)[of i] by (intro same_arena[OF assms(1,2) c(1), of "unat (mblk a i k)"]) simp_all
  then show "mblk a i k \<in> live" "n = bsz i" using c(1,5) assms(2) by auto
qed

lemma alloc_set_remove:
  assumes "ghost_ok D G live" "G a = Some (Small i)" "k < nblk i" "mblk a i k \<in> live"
  shows "alloc_set G (live - {mblk a i k}) = alloc_set G live - {(mblk a i k, bsz i)}"
proof -
  have gh: "ghost_ok D G (live - {mblk a i k})"
    using ghost_okD(4)[OF assms(1)] by (intro ghost_ok_live[OF assms(1)]) auto
  have "(mblk a i k, bsz i) \<notin> alloc_set G (live - {mblk a i k})"
    using alloc_set_small(1)[OF gh assms(2,3)] by blast
  moreover have "alloc_set G live = insert (mblk a i k, bsz i) (alloc_set G (live - {mblk a i k}))"
    using alloc_set_insert[OF gh assms(2,3)] assms(4) by (simp add: insert_absorb)
  ultimately show ?thesis by simp
qed

lemma alloc_set_drop:
  assumes "ghost_ok D G live" "G a = Some (Small i)" "\<forall>k < nblk i. mblk a i k \<notin> live"
  shows "alloc_set (G(a := None)) live = alloc_set G live"
proof (intro equalityI subsetI)
  fix x assume "x \<in> alloc_set G live"
  then consider b j l where "x = (mblk b j l, bsz j)" "G b = Some (Small j)" "l < nblk j" "mblk b j l \<in> live"
    | p n where "x = (p + SIZEOF_ARENA, 4096 * n - 12)" "G p = Some (Big n)" unfolding alloc_set_def by blast
  then show "x \<in> alloc_set (G(a := None)) live"
  proof cases
    case 1
    then have "b \<noteq> a" using assms(2,3) by auto
    then have "(G(a := None)) b = Some (Small j)" using 1 by simp
    then show ?thesis using 1 unfolding alloc_set_def by blast
  next
    case 2
    then have "p \<noteq> a" using assms(2) by auto
    then have "(G(a := None)) p = Some (Big n)" using 2 by simp
    then show ?thesis using 2 unfolding alloc_set_def by blast
  qed
next
  fix x assume "x \<in> alloc_set (G(a := None)) live"
  then show "x \<in> alloc_set G live" unfolding alloc_set_def by (auto split: if_splits)
qed

lemma alloc_set_drop_big:
  assumes "ghost_ok D G live" "G a = Some (Big n)"
  shows "alloc_set (G(a := None)) live = alloc_set G live - {(a + SIZEOF_ARENA, 4096 * n - 12)}"
    "ghost_ok D (G(a := None)) live"
proof -
  show gh: "ghost_ok D (G(a := None)) live"
  proof (rule ghost_ok_remove[OF assms(1)])
    fix i
    have "x \<in> blocks_of (G(a := None)) i" if x: "x \<in> blocks_of G i" for x
    proof -
      obtain c k where c: "G c = Some (Small i)" "k < nblk i" "x = mblk c i k" using x unfolding blocks_of_def by blast
      then have "c \<noteq> a" using assms(2) by auto
      then have "(G(a := None)) c = Some (Small i)" using c(1) by simp
      then show ?thesis unfolding blocks_of_def mem_Collect_eq using c(2,3) by blast
    qed
    then show "live \<inter> blocks_of G i \<subseteq> blocks_of (G(a := None)) i" by blast
  qed
  have G: "G = (G(a := None))(a \<mapsto> Big n)" using assms(2) by auto
  have ka: "kpage a" by (rule arena_room(1)[OF assms])
  have "alloc_set G live = insert (a + SIZEOF_ARENA, 4096 * n - 12) (alloc_set (G(a := None)) live)"
    using alloc_set_new(2)[OF gh _ ka, of n] G by simp
  moreover have "(a + SIZEOF_ARENA, 4096 * n - 12) \<notin> alloc_set (G(a := None)) live"
  proof
    assume "(a + SIZEOF_ARENA, 4096 * n - 12) \<in> alloc_set (G(a := None)) live"
    then obtain c kc where c: "(G(a := None)) c = Some kc" "unat c + 12 \<le> unat (a + SIZEOF_ARENA)"
      "unat (a + SIZEOF_ARENA) + (4096 * n - 12) \<le> unat c + 4096 * pages_of kc" "0 < 4096 * n - 12"
      by (rule alloc_setE[OF gh])
    have ca: "c \<noteq> a" "G c = Some kc" using c(1) by (auto split: if_splits)
    have "a = c" using c arena_room[OF assms] big_block[OF assms]
      by (intro same_arena[OF assms ca(2), of "unat (a + SIZEOF_ARENA)"]) simp_all
    then show False using ca(1) by simp
  qed
  ultimately show "alloc_set (G(a := None)) live = alloc_set G live - {(a + SIZEOF_ARENA, 4096 * n - 12)}" by simp
qed

section \<open>Locks\<close>

lemma heap_core_lock [simp]:
  "heap_core G live (st\<lparr>descs := (descs st)(d := (descs st d)\<lparr>d_locked := x\<rparr>)\<rparr>) = heap_core G live st"
  by (auto simp: heap_core_def sizes_ok_def)

lemma unlock_same: "\<not> d_locked e \<Longrightarrow> e\<lparr>d_locked := False\<rparr> = e"
  by (cases e) simp


section \<open>Allocation\<close>

lemma arena_small:
  assumes "heap_core G live st" "G a = Some (Small i)"
  shows "a_magic a st = ARENA_MAGIC" "a_desc a st = dptr (descs_at st) i"
    "a_free_cnt a st = of_nat (nfree live a i)" "i < 7" "kpage a" "dptr (descs_at st) i \<noteq> 0"
proof -
  note c = heap_coreD[OF assms(1)]
  show "i < 7" "kpage a" using ghost_okD(2)[OF c(3) assms(2)] by (simp_all add: arena_at_def)
  then show "dptr (descs_at st) i \<noteq> 0" using dptr_nonzero[OF c(3,6)] by simp
  show "a_magic a st = ARENA_MAGIC" "a_desc a st = dptr (descs_at st) i"
    "a_free_cnt a st = of_nat (nfree live a i)"
    using arenas_okD(5)[OF c(4) assms(2)]
    by (simp_all add: arena_hdr_def hdr_def a_magic_def a_desc_def a_free_cnt_def)
qed

text \<open>Taking a block from the free list.\<close>

lemma pop_block_ok:
  assumes "heap_core G live st" "i < 7" "blocks_of G i - live \<noteq> {}"
  obtains a k h' where "list_pop_front (free_list (dptr (descs_at st) i)) (links st) = Some (unat (mblk a i k), h')"
    "G a = Some (Small i)" "k < nblk i" "mblk a i k \<notin> live"
    "block_to_arena (mblk a i k) (st\<lparr>links := h'\<rparr>) = Some a"
    "heap_core G (insert (mblk a i k) live) (set_free_cnt a (a_free_cnt a st - 1) (st\<lparr>links := h'\<rparr>))"
    "keeps (alloc_set G live) (kvm st) (kvm (set_free_cnt a (a_free_cnt a st - 1) (st\<lparr>links := h'\<rparr>)))"
proof -
  let ?D = "descs_at st"
  note c = heap_coreD[OF assms(1)]
  have "free_rep ?D (links st) i (blocks_of G i - live)" using c(5) assms(2) by (simp add: lists_ok_def)
  then obtain b h' where b: "b \<in> blocks_of G i - live"
    "list_pop_front (free_list (dptr ?D i)) (links st) = Some (unat b, h')"
    "free_rep ?D h' i (blocks_of G i - live - {b})" "same_outside (fcells ?D i (blocks_of G i - live)) (links st) h'"
    using free_rep_pop assms(3) by metis
  from b(1) obtain a k where a: "G a = Some (Small i)" "kpage a" "k < nblk i" "b = mblk a i k"
    using blocks_ofE[OF c(3)] by blast
  note hd = arena_small[OF assms(1) a(1)]
  let ?live = "insert b live" and ?s = "set_free_cnt a (a_free_cnt a st - 1) (st\<lparr>links := h'\<rparr>)"
  have "nfree live a i = Suc (nfree ?live a i)" using nfree_this(1)[OF a(2,3,4)] b(1) by simp
  then have cnt: "a_free_cnt a st - 1 = of_nat (nfree ?live a i)" using hd(3) by simp
  have bi: "b \<in> blocks_of G i" using b(1) by simp
  then have gh: "ghost_ok ?D G ?live"
    using ghost_okD(4)[OF c(3)] assms(2) by (intro ghost_ok_live[OF c(3)]) auto
  have "arenas_ok ?D G ?live (store (a + 8) (of_nat (nfree ?live a i)) (kvm st))"
    using nfree_other(1)[OF a(2) arena_room(1)[OF c(3)] _ a(3,4)] by (intro arenas_ok_live[OF c(4,3) a(1)]) auto
  moreover have "lists_ok ?D G ?live h'"
  proof (rule lists_ok_update[OF c(6,3,5) assms(2) _ b(4)])
    show "free_rep ?D h' i (blocks_of G i - ?live)" using b(3) by (metis Diff_insert)
    show "blocks_of G j - ?live = blocks_of G j - live \<and> blocks_of G j \<subseteq> blocks_of G j" if "j < 7" "j \<noteq> i" for j
      using blocks_of_disjoint[OF c(3) that(2)] bi by auto
  qed auto
  ultimately have core: "heap_core G ?live ?s"
    using c(1,2) gh cnt by (simp add: heap_core_def set_free_cnt_def)
  have bta: "block_to_arena (mblk a i k) (st\<lparr>links := h'\<rparr>) = Some a"
    using hd c(2) by (intro block_to_arena_ok[OF a(2,3) assms(2)]) (auto simp: a_magic_def a_desc_def)
  have "keeps (alloc_set G live) (kvm st) (kvm ?s)"
    unfolding set_free_cnt_def
    using keeps_hdr[OF c(3) a(2), of "a + 8"] ghost_okD(3)[OF c(3) _ a(1)] by (fastforce simp: apart_def)
  then show thesis using that[of a k h'] b(1,2) a bta core by simp
qed

lemma malloc_small_ok:
  assumes "heap_core G live st" "unlocked st" "i < 7" "sz \<noteq> 0" "unat sz \<le> bsz i"
    "find_desc sz (descs_at st) (desc_cnt st) st = Some (dptr (descs_at st) i)"
  obtains "malloc sz st = Some (0, st)"
    "\<exists>st1. links st1 = links st \<and> kvm st1 = kvm st \<and> fill_free_list (dptr (descs_at st) i) st1 = Some (False, st1)"
  | p st' G' live' where "malloc sz st = Some (p, st')" "p \<noteq> 0" "heap_core G' live' st'" "descs st' = descs st"
    "descs_at st' = descs_at st" "alloc_set G' live' = insert (p, bsz i) (alloc_set G live)"
    "(p, bsz i) \<notin> alloc_set G live" "keeps (alloc_set G live) (kvm st) (kvm st')"
    "\<exists>st1 st2. links st1 = links st \<and> kvm st1 = kvm st \<and> fill_free_list (dptr (descs_at st) i) st1 = Some (True, st2)"
proof -
  let ?d = "dptr (descs_at st) i"
  let ?st1 = "st\<lparr>descs := (descs st)(?d := (descs st ?d)\<lparr>d_locked := True\<rparr>)\<rparr>"
  have nl: "\<not> d_locked (descs st ?d)" using assms(2,3) by (simp add: unlocked_def)
  have acq: "desc_lock_acquire ?d st = Some ?st1" using nl by (simp add: desc_lock_acquire_def)
  have rel: "desc_lock_release ?d s = Some (s\<lparr>descs := descs st\<rparr>)" if "descs s = descs ?st1" for s
    using that nl by (simp add: desc_lock_release_def unlock_same fun_upd_idem)
  have core1: "heap_core G live ?st1" using assms(1) by simp
  show thesis
  proof (rule fill_free_list_ok[OF core1 assms(3)])
    assume "fill_free_list (dptr (descs_at ?st1) i) ?st1 = Some (False, ?st1)"
    then have e: "\<exists>st1. links st1 = links st \<and> kvm st1 = kvm st \<and> fill_free_list (dptr (descs_at st) i) st1 = Some (False, st1)"
      "malloc sz st = Some (0, st)"
      using assms(4,6) acq rel[of ?st1] by (intro exI[of _ ?st1], simp, simp add: malloc_def)
    show thesis by (rule that(1)[OF e(2,1)])
  next
    fix G' st2
    assume f: "fill_free_list (dptr (descs_at ?st1) i) ?st1 = Some (True, st2)" "heap_core G' live st2"
      "blocks_of G' i - live \<noteq> {}" "descs st2 = descs ?st1" "descs_at st2 = descs_at ?st1"
      "alloc_set G' live = alloc_set G live" "keeps (alloc_set G live) (kvm ?st1) (kvm st2)"
    obtain a k h' where p: "list_pop_front (free_list (dptr (descs_at st2) i)) (links st2) = Some (unat (mblk a i k), h')"
      "G' a = Some (Small i)" "k < nblk i" "mblk a i k \<notin> live"
      "block_to_arena (mblk a i k) (st2\<lparr>links := h'\<rparr>) = Some a"
      "heap_core G' (insert (mblk a i k) live) (set_free_cnt a (a_free_cnt a st2 - 1) (st2\<lparr>links := h'\<rparr>))"
      "keeps (alloc_set G' live) (kvm st2) (kvm (set_free_cnt a (a_free_cnt a st2 - 1) (st2\<lparr>links := h'\<rparr>)))"
      by (rule pop_block_ok[OF f(2) assms(3) f(3)])
    let ?s = "set_free_cnt a (a_free_cnt a st2 - 1) (st2\<lparr>links := h'\<rparr>)"
    let ?s' = "?s\<lparr>descs := descs st\<rparr>"
    have ds: "descs ?s = descs ?st1" "a_free_cnt a (st2\<lparr>links := h'\<rparr>) = a_free_cnt a st2" "descs_at ?s = descs_at st"
      using f(4,5) by (simp_all add: set_free_cnt_def a_free_cnt_def)
    have run: "malloc sz st = Some (mblk a i k, ?s')"
      using assms(4,6) acq f(1,5) p(1,5) ds rel[OF ds(1)] by (simp add: malloc_def)
    note gh = heap_coreD(3)[OF f(2)]
    have new: "alloc_set G' (insert (mblk a i k) live) = insert (mblk a i k, bsz i) (alloc_set G live)"
      using alloc_set_insert[OF gh p(2,3)] f(6) by simp
    have "(mblk a i k, bsz i) \<notin> alloc_set G live" using alloc_set_small(1)[OF gh p(2,3)] p(4) f(6) by auto
    moreover have "heap_core G' (insert (mblk a i k) live) ?s'"
      using p(6) heap_core_lock[of G' "insert (mblk a i k) live" ?s' ?d True] ds(1,3)
      by (simp add: heap_core_def sizes_ok_def)
    moreover have "keeps (alloc_set G live) (kvm st) (kvm ?s')"
      using keeps_trans[OF f(7) p(7)[unfolded f(6)]] by simp
    moreover have "mblk a i k \<noteq> 0" using mblk_nonzero[OF arena_room(1)[OF gh p(2)] p(3)] .
    moreover have "\<exists>st1 st2. links st1 = links st \<and> kvm st1 = kvm st \<and> fill_free_list (dptr (descs_at st) i) st1 = Some (True, st2)"
      using f(1) by (intro exI[of _ ?st1] exI[of _ st2]) simp
    ultimately show thesis using that(2)[OF run] new ds(3) by simp
  qed
qed

end
