(* ===== verification/KMallocProps.thy ===== *)
theory KMallocProps imports KMallocOk begin

text \<open>
  Big blocks, the return of a block to its free list and of an arena to the page allocator, and
  writes of a client into its block.
\<close>

section \<open>Big blocks\<close>

lemma big_pages:
  fixes sz :: u32
  defines "n \<equiv> unat ((sz + SIZEOF_ARENA + PAGE - 1) div PAGE)"
  assumes "0 < n"
  shows "if unat sz \<le> 4294967284 then unat sz \<le> 4096 * n - 12 else n = 1"
proof -
  have e: "sz + SIZEOF_ARENA + PAGE - 1 = sz + 4107" by (simp add: SIZEOF_ARENA_def PAGE_def)
  have n: "n = (unat sz + 4107) mod 4294967296 div 4096"
    unfolding n_def unfolding e unfolding PAGE_def by (simp add: unat_div unat_word_ariths)
  have s: "unat sz < 4294967296" by (rule unat_less32)
  show ?thesis
  proof (cases "unat sz + 4107 < 4294967296")
    case True
    then have "unat sz + 4107 < 4096 * n + 4096"
      unfolding n using mod_less_divisor[of 4096 "unat sz + 4107"] mult_div_mod_eq[of 4096 "unat sz + 4107"] by simp
    then show ?thesis using True by simp
  next
    case False
    then have "(unat sz + 4107) mod 4294967296 = unat sz + 4107 - 4294967296"
      using s by (simp add: mod_if)
    then have e: "n = (unat sz + 4107 - 4294967296) div 4096" unfolding n by simp
    then have "4096 \<le> unat sz + 4107 - 4294967296" using assms(2) by (simp add: div_greater_zero_iff)
    then have "4294967284 < unat sz" "n = 1" unfolding e using s by (simp_all add: div_nat_eqI)
    then show ?thesis by simp
  qed
qed

lemma malloc_big_ok:
  assumes "heap_core G live st"
  obtains "malloc_big sz st = Some (0, st)"
  | p st' G' n where "malloc_big sz st = Some (p, st')" "p \<noteq> 0" "heap_core G' live st'" "descs st' = descs st"
    "descs_at st' = descs_at st" "alloc_set G' live = insert (p, n) (alloc_set G live)"
    "(p, n) \<notin> alloc_set G live" "keeps (alloc_set G live) (kvm st) (kvm st')"
    "if unat sz \<le> 4294967284 then unat sz \<le> n else n = 4084"
proof -
  let ?pc = "(sz + SIZEOF_ARENA + PAGE - 1) div PAGE"
  let ?n = "unat ?pc"
  note c = heap_coreD[OF assms]
  show thesis
  proof (cases "?n = 0")
    case True
    then show thesis using that(1) by (simp add: malloc_big_def palloc_get_multiple_def Let_def)
  next
    case False
    then have n0: "0 < ?n" by simp
    show thesis
    proof (rule palloc_get_arena[OF c(4,3) n0])
      assume "palloc_get_multiple NO_FLAGS ?n (kvm st) = Some (0, kvm st)"
      then show thesis using that(1) by (simp add: malloc_big_def Let_def)
    next
      fix a mv'
      assume g: "palloc_get_multiple NO_FLAGS ?n (kvm st) = Some (a, mv')" "a \<noteq> 0" "words mv' = words (kvm st)"
        "arenas_ok (descs_at st) G live mv'" "run_used mv' a ?n" "kpage a" "unat (descs_at st) + 400 \<le> unat a"
        "unat a + 4096 * ?n \<le> 4294967296"
        "\<And>b kb. G b = Some kb \<Longrightarrow> unat a + 4096 * ?n \<le> unat b \<or> unat b + 4096 * pages_of kb \<le> unat a"
      let ?G = "G(a \<mapsto> Big ?n)" and ?s = "set_arena a 0 ?pc (st\<lparr>kvm := mv'\<rparr>)"
      have none: "G a = None"
      proof (rule ccontr)
        assume "G a \<noteq> None"
        then obtain kb where "G a = Some kb" by blast
        then show False using apart_far[OF c(3), of a kb ?n a] g(9)[of a kb] n0 by simp
      qed
      have gh: "ghost_ok (descs_at st) ?G live"
        using g(6-9) n0 by (intro ghost_ok_new[OF c(3) none]) (auto simp: arena_at_def apart_def)
      have "arenas_ok (descs_at st) ?G live (kvm ?s)"
        unfolding set_arena_def using g(5) by (simp, intro arenas_ok_new[OF g(4) c(3) none g(6)]) (simp_all add: hdr_def)
      moreover have "lists_ok (descs_at st) ?G live (links ?s)"
        using c(5) blocks_of_None[of G a, OF none] by (simp add: lists_ok_def blocks_of_upd(2) set_arena_def)
      ultimately have core: "heap_core ?G live ?s"
        using c(1,2) gh by (simp add: heap_core_def set_arena_def)
      have new: "alloc_set ?G live = insert (a + SIZEOF_ARENA, 4096 * ?n - 12) (alloc_set G live)"
        by (rule alloc_set_new(2)[OF c(3) none g(6)])
      have "alloc_set (?G(a := None)) live = alloc_set ?G live - {(a + SIZEOF_ARENA, 4096 * ?n - 12)}"
        by (rule alloc_set_drop_big(1)[OF gh]) simp
      then have "(a + SIZEOF_ARENA, 4096 * ?n - 12) \<notin> alloc_set G live"
        using none by (metis Diff_iff fun_upd_idem fun_upd_upd insertI1)
      moreover have "unat a + 4096 \<le> unat b \<or> unat b + 4096 * pages_of kb \<le> unat a" if "G b = Some kb" for b kb
        using g(9)[OF that] n0 by auto
      then have "keeps (alloc_set G live) (kvm st) (kvm ?s)"
        unfolding set_arena_def
        using keeps_trans[OF keeps_refl[OF g(3)] keeps_new[OF c(3) g(6)]] by simp
      moreover have "a + SIZEOF_ARENA \<noteq> 0" using big_block[OF gh, of a ?n] by (auto simp: unat_eq_zero)
      moreover have "if unat sz \<le> 4294967284 then unat sz \<le> 4096 * ?n - 12 else 4096 * ?n - 12 = 4084"
        using big_pages[OF n0] by (simp split: if_splits)
      ultimately show thesis
        using that(2)[of "a + SIZEOF_ARENA" ?s ?G "4096 * ?n - 12"] g(1,2) core new
        by (simp add: malloc_big_def Let_def set_arena_def)
    qed
  qed
qed


section \<open>Release\<close>

lemma release_arena_ok:
  assumes "heap_core G live st" "G a = Some (Small i)"
  obtains G' st' where "release_arena a (dptr (descs_at st) i) st = Some st'" "heap_core G' live st'"
    "alloc_set G' live = alloc_set G live" "descs st' = descs st" "descs_at st' = descs_at st"
    "keeps (alloc_set G live) (kvm st) (kvm st')"
proof -
  let ?D = "descs_at st" and ?d = "dptr (descs_at st) i"
  note c = heap_coreD[OF assms(1)] and hd = arena_small[OF assms]
  note sz = sizes_okD[OF c(2) hd(4)]
  have cnt: "unat (a_free_cnt a st) = nfree live a i"
    using hd(3) nfree_le[of live a i] nblk_bounds(1)[of i] by (simp add: unat_of_nat32)
  show thesis
  proof (cases "nfree live a i = nblk i")
    case False
    then have "\<not> d_blocks_per_arena (descs st ?d) \<le> a_free_cnt a st"
      using cnt sz(4) nfree_le[of live a i] by (simp add: word_le_nat_alt)
    then show thesis using that[of st G] assms(1) by (simp add: release_arena_def keeps_refl)
  next
    case True
    then have eq: "a_free_cnt a st = d_blocks_per_arena (descs st ?d)" using cnt sz(4) by (simp add: word_unat_eq_iff)
    have no: "\<forall>k < nblk i. mblk a i k \<notin> live" using True by (simp only: nfree_all)
    let ?A = "mblk a i ` {0..<nblk i}" and ?G = "G(a := None)"
    have up: "G = ?G(a \<mapsto> Small i)" using assms(2) by auto
    have bl: "blocks_of G i = blocks_of ?G i \<union> mblk a i ` {..<nblk i}" "\<And>j. j \<noteq> i \<Longrightarrow> blocks_of G j = blocks_of ?G j"
      using blocks_of_upd(1)[of ?G a i] up by (metis fun_upd_upd)+
    have gh: "ghost_ok ?D ?G live"
    proof (rule ghost_ok_remove[OF c(3)])
      show "live \<inter> blocks_of G j \<subseteq> blocks_of ?G j" for j
        using bl no by (cases "j = i") auto
    qed
    have dis: "blocks_of ?G i \<inter> ?A = {}"
    proof (rule ccontr)
      assume "blocks_of ?G i \<inter> ?A \<noteq> {}"
      then obtain k where k: "k < nblk i" "mblk a i k \<in> blocks_of ?G i" by auto
      obtain b l where b: "?G b = Some (Small i)" "kpage b" "l < nblk i" "mblk a i k = mblk b i l"
        using blocks_ofE[OF gh k(2)] by metis
      then have "a = b" using mblk_inj(1)[OF hd(5) b(2) k(1) b(3)] by simp
      then show False using b(1) by simp
    qed
    have "free_rep ?D (links st) i (blocks_of G i - live)" using c(5) hd(4) by (simp add: lists_ok_def)
    moreover have "?A \<subseteq> blocks_of G i - live" using no bl(1) by (auto simp: lessThan_atLeast0)
    ultimately obtain h' where h': "remove_blocks a 0 (nblk i) st = Some (st\<lparr>links := h'\<rparr>)"
      "free_rep ?D h' i (blocks_of G i - live - ?A)" "same_outside (fcells ?D i (blocks_of G i - live)) (links st) h'"
      using remove_blocks_ok[OF hd(5,4,1,2) c(2), of 0 "nblk i" "blocks_of G i - live"] by auto
    have "blocks_of G i - live - ?A = blocks_of ?G i - live" using bl(1) dis by (auto simp: lessThan_atLeast0)
    then have "lists_ok ?D ?G live h'"
      using h'(2) bl(2) by (intro lists_ok_update[OF c(6,3,5) hd(4) _ h'(3)]) auto
    moreover obtain mv' where mv': "palloc_free_multiple a 1 (kvm st) = Some mv'" "arenas_ok ?D ?G live mv'"
      "\<And>y. unat y < unat a \<or> unat a + 4096 \<le> unat y \<Longrightarrow> words mv' y = words (kvm st) y"
      using palloc_free_arena[OF c(4,3) assms(2)] by auto
    ultimately have core: "heap_core ?G live (st\<lparr>links := h', kvm := mv'\<rparr>)"
      using c(1,2) gh by (simp add: heap_core_def)
    have as: "alloc_set ?G live = alloc_set G live" by (rule alloc_set_drop[OF c(3) assms(2) no])
    have "keeps (alloc_set ?G live) (kvm st) mv'"
      unfolding keeps_def
    proof (intro allI impI)
      fix q m and y :: u32 assume q: "(q, m) \<in> alloc_set ?G live" "unat q \<le> unat y" "unat y < unat q + m"
      obtain b kb where b: "?G b = Some kb" "unat b + 12 \<le> unat q" "unat q + m \<le> unat b + 4096 * pages_of kb"
        by (rule alloc_setE[OF gh q(1)])
      then have "G b = Some kb" "b \<noteq> a" by (auto split: if_splits)
      then have "apart b kb a (Small i)" using ghost_okD(3)[OF c(3) _ assms(2)] by blast
      then show "words mv' y = words (kvm st) y" using b q by (intro mv'(3)) (auto simp: apart_def)
    qed
    moreover have "release_arena a ?d st = Some (st\<lparr>links := h', kvm := mv'\<rparr>)"
      using eq h'(1) mv'(1) sz(4) by (simp add: release_arena_def palloc_free_page_def)
    ultimately show thesis using that[of "st\<lparr>links := h', kvm := mv'\<rparr>" ?G] core as by simp
  qed
qed

text \<open>Putting a block back onto the free list.\<close>

lemma push_block_ok:
  assumes "heap_core G live st" "G a = Some (Small i)" "k < nblk i" "mblk a i k \<in> live"
  obtains h' where "list_push_front (free_list (dptr (descs_at st) i)) (unat (mblk a i k)) (links st) = Some h'"
    "heap_core G (live - {mblk a i k}) (set_free_cnt a (a_free_cnt a st + 1) (st\<lparr>links := h'\<rparr>))"
    "keeps (alloc_set G live) (kvm st) (kvm (set_free_cnt a (a_free_cnt a st + 1) (st\<lparr>links := h'\<rparr>)))"
proof -
  let ?D = "descs_at st" and ?b = "mblk a i k"
  note c = heap_coreD[OF assms(1)] and hd = arena_small[OF assms(1,2)]
  let ?live = "live - {?b}"
  have bi: "?b \<in> blocks_of G i" using assms(2,3) unfolding blocks_of_def by blast
  have fr: "free_rep ?D (links st) i (blocks_of G i - live)" using c(5) hd(4) by (simp add: lists_ok_def)
  obtain h' where h': "list_push_front (free_list (dptr ?D i)) (unat ?b) (links st) = Some h'"
    "free_rep ?D h' i (insert ?b (blocks_of G i - live))"
    "same_outside (fcells ?D i (insert ?b (blocks_of G i - live))) (links st) h'"
    using free_rep_push[OF fr mblk_nonzero[OF hd(5) assms(3)] _ fhdr_block[OF c(6,3) hd(4) bi]] assms(4) by blast
  let ?s = "set_free_cnt a (a_free_cnt a st + 1) (st\<lparr>links := h'\<rparr>)"
  have "nfree ?live a i = Suc (nfree live a i)" using nfree_this(2)[OF hd(5) assms(3) refl assms(4)] .
  then have cnt: "a_free_cnt a st + 1 = of_nat (nfree ?live a i)" using hd(3) by simp
  have gh: "ghost_ok ?D G ?live"
    using ghost_okD(4)[OF c(3)] by (intro ghost_ok_live[OF c(3)]) auto
  have "arenas_ok ?D G ?live (store (a + 8) (of_nat (nfree ?live a i)) (kvm st))"
    using nfree_other(2)[OF hd(5) arena_room(1)[OF c(3)] _ assms(3) refl] by (intro arenas_ok_live[OF c(4,3) assms(2)]) auto
  moreover have "lists_ok ?D G ?live h'"
  proof (rule lists_ok_update[OF c(6,3,5) hd(4) _ h'(3)])
    have "insert ?b (blocks_of G i - live) = blocks_of G i - ?live" using bi assms(4) by auto
    then show "free_rep ?D h' i (blocks_of G i - ?live)" using h'(2) by simp
    show "blocks_of G j - ?live = blocks_of G j - live \<and> blocks_of G j \<subseteq> blocks_of G j" if "j < 7" "j \<noteq> i" for j
      using blocks_of_disjoint[OF c(3) that(2)] bi by auto
  qed (use bi in auto)
  ultimately have "heap_core G ?live ?s"
    using c(1,2) gh cnt by (simp add: heap_core_def set_free_cnt_def)
  moreover have "keeps (alloc_set G live) (kvm st) (kvm ?s)"
    unfolding set_free_cnt_def
    using keeps_hdr[OF c(3) hd(5), of "a + 8"] ghost_okD(3)[OF c(3) _ assms(2)] by (fastforce simp: apart_def)
  ultimately show thesis using that h'(1) by blast
qed

lemma alloc_aligned:
  assumes "ghost_ok D G live" "(p, n) \<in> alloc_set G live"
  shows "unat p mod 4 = 0" "n mod 4 = 0"
proof -
  obtain a kd where a: "G a = Some kd" "unat a + 12 \<le> unat p" "unat p + n \<le> unat a + 4096 * pages_of kd" "0 < n"
    "(\<exists>i k. kd = Small i \<and> k < nblk i \<and> p = mblk a i k \<and> n = bsz i \<and> p \<in> live) \<or>
     (\<exists>m. kd = Big m \<and> p = a + SIZEOF_ARENA \<and> n = 4096 * m - 12)"
    by (rule alloc_setE[OF assms])
  have ka: "kpage a" by (rule arena_room(1)[OF assms(1) a(1)])
  then have "unat a mod 4096 = 0" unfolding kpage_unat by blast
  then obtain c where c: "unat a = 4096 * c" by (rule mult_4096E)
  then have d: "4 dvd unat a" by simp
  from a(5) have "4 dvd unat p \<and> 4 dvd n"
  proof (elim disjE exE conjE)
    fix i k assume s: "k < nblk i" "p = mblk a i k" "n = bsz i"
    have b: "4 dvd bsz i" using bsz_bounds(3)[of i] by (simp add: dvd_eq_mod_eq_0)
    have "4 dvd unat a + 12 + k * bsz i" using d b by (intro dvd_add dvd_mult) simp_all
    then show ?thesis using unat_mblk[OF ka s(1)] s b by simp
  next
    fix m assume b: "kd = Big m" "p = a + SIZEOF_ARENA" "n = 4096 * m - 12"
    have "4 dvd unat a + 12" using d by (intro dvd_add) simp_all
    moreover have "4 dvd 4096 * m - 12" by (intro dvd_diff_nat) simp_all
    ultimately show ?thesis using big_block[OF assms(1)] a(1) b by simp
  qed
  then show "unat p mod 4 = 0" "n mod 4 = 0" by (simp_all add: dvd_eq_mod_eq_0)
qed

lemma alloc_set_fun:
  assumes "ghost_ok D G live" "(p, n) \<in> alloc_set G live" "(p, m) \<in> alloc_set G live"
  shows "n = m"
proof -
  obtain a ka where a: "G a = Some ka" "unat a + 12 \<le> unat p" "unat p + n \<le> unat a + 4096 * pages_of ka" "0 < n"
    "(\<exists>i k. ka = Small i \<and> k < nblk i \<and> p = mblk a i k \<and> n = bsz i \<and> p \<in> live) \<or>
     (\<exists>l. ka = Big l \<and> p = a + SIZEOF_ARENA \<and> n = 4096 * l - 12)"
    using assms(2) by (rule alloc_setE[OF assms(1)])
  obtain b kb where b: "G b = Some kb" "unat b + 12 \<le> unat p" "unat p + m \<le> unat b + 4096 * pages_of kb" "0 < m"
    "(\<exists>i k. kb = Small i \<and> k < nblk i \<and> p = mblk b i k \<and> m = bsz i \<and> p \<in> live) \<or>
     (\<exists>l. kb = Big l \<and> p = b + SIZEOF_ARENA \<and> m = 4096 * l - 12)"
    using assms(3) by (rule alloc_setE[OF assms(1)])
  have "a = b" using a b by (intro same_arena[OF assms(1) a(1) b(1), of "unat p"]) simp_all
  then show ?thesis using a(1,5) b(1,5) by auto
qed

text \<open>A client writes into its block only.\<close>

lemma write_region_ok:
  assumes "heap_core G live st" "(p, n) \<in> alloc_set G live" "length bs \<le> n"
  shows "heap_core G live (st\<lparr>kvm := set_kbytes p bs (kvm st)\<rparr>)"
    "keeps (alloc_set G live - {(p, n)}) (kvm st) (set_kbytes p bs (kvm st))"
proof -
  let ?v = "set_kbytes p bs (kvm st)"
  note c = heap_coreD[OF assms(1)]
  obtain a kd where a: "G a = Some kd" "unat a + 12 \<le> unat p" "unat p + n \<le> unat a + 4096 * pages_of kd"
    by (rule alloc_setE[OF c(3) assms(2)])
  have top: "unat p + length bs \<le> 4294967296"
    using a(3) assms(3) arena_room(4)[OF c(3) a(1)] by simp
  have out: "words ?v y = words (kvm st) y" if "unat y < unat p \<or> unat p + n \<le> unat y" for y
    using set_kbytes_outside[OF alloc_aligned(1)[OF c(3) assms(2)] top, of y] that assms(3) by auto
  have "arena_hdr ?v b = arena_hdr (kvm st) b" if b: "G b = Some kb" for b kb
  proof (rule arena_hdr_outside[OF arena_room(1)[OF c(3) b] out])
    fix y assume y: "unat b \<le> unat y" "unat y < unat b + 12"
    show "unat y < unat p \<or> unat p + n \<le> unat y"
    proof (cases "b = a")
      case True
      then show ?thesis using y a by simp
    next
      case False
      then show ?thesis
        using ghost_okD(3)[OF c(3) b a(1)] y a arena_room(3)[OF c(3) b] by (auto simp: apart_def)
    qed
  qed
  then have "arenas_ok (descs_at st) G live ?v"
    by (intro arenas_ok_words[OF c(4)]) (simp_all add: set_kbytes_frame arenas_okD(1)[OF c(4)])
  then show "heap_core G live (st\<lparr>kvm := ?v\<rparr>)" using c by (simp add: heap_core_def)
  show "keeps (alloc_set G live - {(p, n)}) (kvm st) ?v"
    unfolding keeps_def
  proof (intro allI impI)
    fix q m and y :: u32
    assume q: "(q, m) \<in> alloc_set G live - {(p, n)}" "unat q \<le> unat y" "unat y < unat q + m"
    then have "q \<noteq> p" using alloc_set_fun[OF c(3) assms(2)] by auto
    then have "unat q + m \<le> unat p \<or> unat p + n \<le> unat q" using alloc_set_disjoint[OF c(3) _ assms(2)] q(1) by blast
    then show "words ?v y = words (kvm st) y" using out[of y] q by auto
  qed
qed

end
