(* ===== verification/KMallocSpec.thy ===== *)
theory KMallocSpec imports KMallocProps begin

text \<open>
  The contract of the block allocator over the set of the allocated regions, as a locale, and its
  interpretation on \<open>malloc\<close> and \<open>free\<close>.
\<close>

section \<open>The contract\<close>

definition heap_rep :: "kheap \<Rightarrow> (u32 \<times> nat) set \<Rightarrow> bool" where
  "heap_rep st B \<longleftrightarrow> unlocked st \<and> (\<exists>G live. heap_core G live st \<and> B = alloc_set G live)"

lemma malloc_ok:
  assumes "heap_core G live st" "unlocked st" "sz \<noteq> 0"
  obtains "malloc sz st = Some (0, st)"
  | p st' G' live' n where "malloc sz st = Some (p, st')" "p \<noteq> 0" "heap_core G' live' st'" "descs st' = descs st"
    "descs_at st' = descs_at st" "alloc_set G' live' = insert (p, n) (alloc_set G live)"
    "(p, n) \<notin> alloc_set G live" "keeps (alloc_set G live) (kvm st) (kvm st')"
    "if unat sz \<le> 4294967284 then unat sz \<le> n else n = 4084"
proof -
  note c = heap_coreD[OF assms(1)]
  have d0: "dptr (descs_at st) 0 = descs_at st" by (simp add: dptr_def)
  have "find_desc sz (descs_at st) (desc_cnt st) st = None \<or>
    (\<exists>i < 7. find_desc sz (descs_at st) (desc_cnt st) st = Some (dptr (descs_at st) i) \<and> unat sz \<le> bsz i)"
    using find_desc_ok[of "descs_at st" st 0 7 sz] c(1,2) unfolding d0 by auto
  then show thesis
  proof (elim disjE exE conjE)
    assume n: "find_desc sz (descs_at st) (desc_cnt st) st = None"
    then have "malloc sz st = malloc_big sz st" using assms(3) by (simp add: malloc_def)
    then show thesis using malloc_big_ok[OF assms(1), of sz] that by metis
  next
    fix i assume i: "i < 7" "find_desc sz (descs_at st) (desc_cnt st) st = Some (dptr (descs_at st) i)" "unat sz \<le> bsz i"
    then have "if unat sz \<le> 4294967284 then unat sz \<le> bsz i else bsz i = 4084" using bsz_bounds(2)[OF i(1)] by simp
    then show thesis
      using malloc_small_ok[OF assms(1,2) i(1) assms(3) i(3,2)] that by metis
  qed
qed

lemma block_to_arena_big:
  assumes "heap_core G live st" "G a = Some (Big n)"
  shows "block_to_arena (a + SIZEOF_ARENA) st = Some a" "a_desc a st = 0" "a_free_cnt a st = of_nat n"
proof -
  note c = heap_coreD[OF assms(1)]
  have h: "a_magic a st = ARENA_MAGIC" "a_desc a st = 0" "a_free_cnt a st = of_nat n"
    using arenas_okD(5)[OF c(4) assms(2)]
    by (simp_all add: arena_hdr_def hdr_def a_magic_def a_desc_def a_free_cnt_def)
  then show "a_desc a st = 0" "a_free_cnt a st = of_nat n" by simp_all
  note r = arena_room[OF c(3) assms(2)] and u = big_block[OF c(3) assms(2)]
  have p: "pg_round_down (a + SIZEOF_ARENA) = a" "unat (pg_ofs (a + SIZEOF_ARENA)) = 12"
    using round_down_inside[OF r(1), of "a + SIZEOF_ARENA"] u by simp_all
  have "pg_ofs (a + SIZEOF_ARENA) = SIZEOF_ARENA"
    using p(2) by (simp add: word_unat_eq_iff SIZEOF_ARENA_def)
  then show "block_to_arena (a + SIZEOF_ARENA) st = Some a"
    using h p(1) kpage_nonzero[OF r(1)] by (simp add: block_to_arena_def Let_def)
qed

lemma free_big_ok:
  assumes "heap_core G live st" "G a = Some (Big n)"
  obtains G' st' where "free (a + SIZEOF_ARENA) st = Some st'" "heap_core G' live st'" "descs st' = descs st"
    "descs_at st' = descs_at st" "alloc_set G' live = alloc_set G live - {(a + SIZEOF_ARENA, 4096 * n - 12)}"
    "keeps (alloc_set G' live) (kvm st) (kvm st')"
proof -
  note c = heap_coreD[OF assms(1)]
  note r = arena_room[OF c(3) assms(2)] and u = big_block[OF c(3) assms(2)] and b = block_to_arena_big[OF assms]
  have "a + SIZEOF_ARENA \<noteq> 0" using u by (auto simp: unat_eq_zero)
  have n: "unat (of_nat n :: u32) = n"
  proof (rule unat_of_nat32)
    have "4096 * n \<le> 4294967296" using r(4) by simp
    then show "n < 4294967296" by linarith
  qed
  obtain mv' where mv': "palloc_free_multiple a n (kvm st) = Some mv'" "arenas_ok (descs_at st) (G(a := None)) live mv'"
    "\<And>y. unat y < unat a \<or> unat a + 4096 * n \<le> unat y \<Longrightarrow> words mv' y = words (kvm st) y"
    using palloc_free_arena[OF c(4,3) assms(2)] by auto
  let ?G = "G(a := None)" and ?s = "st\<lparr>kvm := mv'\<rparr>"
  note drop = alloc_set_drop_big[OF c(3) assms(2)]
  have "G = ?G(a \<mapsto> Big n)" using assms(2) by auto
  then have "blocks_of G j = blocks_of ?G j" for j using blocks_of_upd(2)[of ?G a n j] by (metis fun_upd_upd)
  then have core: "heap_core ?G live ?s"
    using c mv'(2) drop(2) by (simp add: heap_core_def lists_ok_def)
  have run: "free (a + SIZEOF_ARENA) st = Some ?s"
    using \<open>a + SIZEOF_ARENA \<noteq> 0\<close> b mv'(1) n by (simp add: free_def)
  have "keeps (alloc_set ?G live) (kvm st) mv'"
    unfolding keeps_def
  proof (intro allI impI)
    fix q m and y :: u32 assume q: "(q, m) \<in> alloc_set ?G live" "unat q \<le> unat y" "unat y < unat q + m"
    obtain b kb where b: "?G b = Some kb" "unat b + 12 \<le> unat q" "unat q + m \<le> unat b + 4096 * pages_of kb"
      by (rule alloc_setE[OF drop(2) q(1)])
    then have "G b = Some kb" "b \<noteq> a" by (auto split: if_splits)
    then have "apart b kb a (Big n)" using ghost_okD(3)[OF c(3) _ assms(2)] by blast
    then show "words mv' y = words (kvm st) y" using b q by (intro mv'(3)) (auto simp: apart_def)
  qed
  then show thesis using that[OF run core] drop(1) by simp
qed

lemma free_small_ok:
  assumes "heap_core G live st" "unlocked st" "G a = Some (Small i)" "k < nblk i" "mblk a i k \<in> live"
  obtains G' st' where "free (mblk a i k) st = Some st'" "heap_core G' (live - {mblk a i k}) st'" "descs st' = descs st"
    "descs_at st' = descs_at st" "alloc_set G' (live - {mblk a i k}) = alloc_set G live - {(mblk a i k, bsz i)}"
    "keeps (alloc_set G live - {(mblk a i k, bsz i)}) (kvm st) (kvm st')"
proof -
  let ?p = "mblk a i k" and ?d = "dptr (descs_at st) i"
  let ?B = "alloc_set G live - {(?p, bsz i)}"
  note c = heap_coreD[OF assms(1)] and hd = arena_small[OF assms(1,3)]
  let ?s1 = "fill_block ?p 0xcc (bsz i) st"
  have mem: "(?p, bsz i) \<in> alloc_set G live" using assms(3-5) unfolding alloc_set_def by blast
  have f: "heap_core G live ?s1" "keeps ?B (kvm st) (kvm ?s1)"
    using write_region_ok[OF assms(1) mem, of "replicate (bsz i) 0xcc"] by (simp_all add: fill_block_def)
  let ?ds = "(descs st)(?d := (descs st ?d)\<lparr>d_locked := True\<rparr>)"
  let ?s2 = "?s1\<lparr>descs := ?ds\<rparr>"
  have s1: "descs ?s1 = descs st" "descs_at ?s1 = descs_at st" by (simp_all add: fill_block_def)
  have nl: "\<not> d_locked (descs st ?d)" using assms(2) hd(4) by (simp add: unlocked_def)
  have core2: "heap_core G live ?s2" using heap_core_lock[of G live ?s1 ?d True] f(1) s1 by simp
  have at: "descs_at ?s2 = descs_at st" using s1 by simp
  obtain h' where h': "list_push_front (free_list ?d) (unat ?p) (links ?s2) = Some h'"
    "heap_core G (live - {?p}) (set_free_cnt a (a_free_cnt a ?s2 + 1) (?s2\<lparr>links := h'\<rparr>))"
    "keeps (alloc_set G live) (kvm ?s2) (kvm (set_free_cnt a (a_free_cnt a ?s2 + 1) (?s2\<lparr>links := h'\<rparr>)))"
    using push_block_ok[OF core2 assms(3-5)] unfolding at by blast
  let ?s3 = "set_free_cnt a (a_free_cnt a ?s2 + 1) (?s2\<lparr>links := h'\<rparr>)"
  have s3: "descs ?s3 = ?ds" "descs_at ?s3 = descs_at st" using s1 by (simp_all add: set_free_cnt_def)
  obtain G' s4 where s4: "release_arena a ?d ?s3 = Some s4" "heap_core G' (live - {?p}) s4"
    "alloc_set G' (live - {?p}) = alloc_set G (live - {?p})" "descs s4 = ?ds" "descs_at s4 = descs_at st"
    "keeps (alloc_set G (live - {?p})) (kvm ?s3) (kvm s4)"
    using release_arena_ok[OF h'(2) assms(3)] s3 by metis
  let ?s5 = "s4\<lparr>descs := descs st\<rparr>"
  have "desc_lock_acquire ?d ?s1 = Some ?s2" "desc_lock_release ?d s4 = Some ?s5"
    using nl s1 s4(4) by (simp_all add: desc_lock_acquire_def desc_lock_release_def unlock_same fun_upd_idem)
  moreover have "block_to_arena ?p st = Some a"
    by (rule block_to_arena_ok[OF hd(5) assms(4) hd(4,1,2) c(2) hd(6)])
  moreover have "a_free_cnt a (?s2\<lparr>links := h'\<rparr>) = a_free_cnt a ?s2" by (simp add: a_free_cnt_def)
  ultimately have run: "free ?p st = Some ?s5"
    using mblk_nonzero[OF hd(5) assms(4)] hd(2,6) sizes_okD(3)[OF c(2) hd(4)] h'(1) s4(1) by (simp add: free_def)
  have new: "alloc_set G (live - {?p}) = ?B" by (rule alloc_set_remove[OF c(3) assms(3-5)])
  have "heap_core G' (live - {?p}) ?s5"
    using s4(2) heap_core_lock[of G' "live - {?p}" ?s5 ?d True] s4(4,5) by (simp add: heap_core_def sizes_ok_def)
  moreover have "keeps ?B (kvm st) (kvm s4)"
  proof (rule keeps_trans[OF keeps_trans])
    show "keeps ?B (kvm st) (kvm ?s2)" using f(2) by simp
    show "keeps ?B (kvm ?s2) (kvm ?s3)" using h'(3) by (rule keeps_mono) blast
    show "keeps ?B (kvm ?s3) (kvm s4)" using s4(6) unfolding new .
  qed
  ultimately show thesis using that[OF run] s4(3,5) new by simp
qed


section \<open>The interface\<close>

text \<open>\<open>view\<close> is the memory that the regions are in.\<close>

locale allocator =
  fixes rep :: "'s \<Rightarrow> (u32 \<times> nat) set \<Rightarrow> bool"
    and alloc :: "u32 \<Rightarrow> 's \<Rightarrow> (u32 \<times> 's) option"
    and release :: "u32 \<Rightarrow> 's \<Rightarrow> 's option"
    and view :: "'s \<Rightarrow> vmem"
  assumes alloc_law: "rep s B \<Longrightarrow> sz \<noteq> 0 \<Longrightarrow>
      \<exists>p s'. alloc sz s = Some (p, s') \<and> keeps B (view s) (view s') \<and>
        (p = 0 \<and> rep s' B \<or> p \<noteq> 0 \<and> (\<exists>n. rep s' (insert (p, n) B) \<and> (p, n) \<notin> B \<and>
          (if unat sz \<le> 4294967284 then unat sz \<le> n else n = 4084)))"
    and release_law: "rep s B \<Longrightarrow> (p, n) \<in> B \<Longrightarrow>
      \<exists>s'. release p s = Some s' \<and> rep s' (B - {(p, n)}) \<and> keeps (B - {(p, n)}) (view s) (view s')"
    and disjoint_law: "rep s B \<Longrightarrow> (q, m) \<in> B \<Longrightarrow> (r, n) \<in> B \<Longrightarrow> (q, m) \<noteq> (r, n) \<Longrightarrow>
      unat q + m \<le> unat r \<or> unat r + n \<le> unat q"
begin

lemma alloc_fresh:
  assumes "rep s B" "sz \<noteq> 0"
  shows "\<exists>p s'. alloc sz s = Some (p, s') \<and> keeps B (view s) (view s') \<and>
    (p = 0 \<and> rep s' B \<or> p \<noteq> 0 \<and> (\<exists>n. rep s' (insert (p, n) B) \<and>
      (if unat sz \<le> 4294967284 then unat sz \<le> n else n = 4084) \<and>
      (\<forall>(q, m) \<in> B. unat p + n \<le> unat q \<or> unat q + m \<le> unat p)))"
proof -
  obtain p s' where p: "alloc sz s = Some (p, s')" "keeps B (view s) (view s')"
    "p = 0 \<and> rep s' B \<or> p \<noteq> 0 \<and> (\<exists>n. rep s' (insert (p, n) B) \<and> (p, n) \<notin> B \<and>
      (if unat sz \<le> 4294967284 then unat sz \<le> n else n = 4084))"
    using alloc_law[OF assms] by blast
  have "\<forall>(q, m) \<in> B. unat p + n \<le> unat q \<or> unat q + m \<le> unat p"
    if "rep s' (insert (p, n) B)" "(p, n) \<notin> B" for n
  proof (intro ballI, clarify)
    fix q m assume "(q, m) \<in> B" "\<not> unat q + m \<le> unat p"
    then show "unat p + n \<le> unat q" using disjoint_law[OF that(1), of q m p n] that(2) by auto
  qed
  then show ?thesis using p by blast
qed

lemma alloc_release:
  assumes "rep s B" "sz \<noteq> 0" "alloc sz s = Some (p, s')" "p \<noteq> 0"
  shows "\<exists>s''. release p s' = Some s'' \<and> rep s'' B \<and> keeps B (view s) (view s'')"
proof -
  obtain n where n: "rep s' (insert (p, n) B)" "(p, n) \<notin> B" "keeps B (view s) (view s')"
    using alloc_law[OF assms(1,2)] assms(3,4) by auto
  then obtain s'' where r: "release p s' = Some s''" "rep s'' (insert (p, n) B - {(p, n)})"
    "keeps (insert (p, n) B - {(p, n)}) (view s') (view s'')"
    using release_law[OF n(1), of p n] by auto
  have "insert (p, n) B - {(p, n)} = B" using n(2) by blast
  then show ?thesis using r keeps_trans[OF n(3)] by auto
qed

end

lemma heap_rep_I: "heap_core G live st' \<Longrightarrow> unlocked st \<Longrightarrow> descs st' = descs st \<Longrightarrow> descs_at st' = descs_at st \<Longrightarrow>
  heap_rep st' (alloc_set G live)"
  unfolding heap_rep_def unlocked_def by auto

lemma malloc_law:
  assumes "heap_rep s B" "sz \<noteq> 0"
  shows "\<exists>p s'. malloc sz s = Some (p, s') \<and> keeps B (kvm s) (kvm s') \<and>
    (p = 0 \<and> heap_rep s' B \<or> p \<noteq> 0 \<and> (\<exists>n. heap_rep s' (insert (p, n) B) \<and> (p, n) \<notin> B \<and>
      (if unat sz \<le> 4294967284 then unat sz \<le> n else n = 4084)))"
proof -
  obtain G live where g: "unlocked s" "heap_core G live s" "B = alloc_set G live"
    using assms(1) unfolding heap_rep_def by blast
  show ?thesis
  proof (rule malloc_ok[OF g(2,1) assms(2)])
    assume "malloc sz s = Some (0, s)"
    then show ?thesis using assms(1) by (simp add: keeps_refl)
  next
    fix p s' G' live' n
    assume m: "malloc sz s = Some (p, s')" "p \<noteq> 0" "heap_core G' live' s'" "descs s' = descs s"
      "descs_at s' = descs_at s" "alloc_set G' live' = insert (p, n) (alloc_set G live)"
      "(p, n) \<notin> alloc_set G live" "keeps (alloc_set G live) (kvm s) (kvm s')"
      "if unat sz \<le> 4294967284 then unat sz \<le> n else n = 4084"
    have "heap_rep s' (insert (p, n) B)" using heap_rep_I[OF m(3) g(1) m(4,5)] m(6) g(3) by simp
    then show ?thesis using m g(3) by blast
  qed
qed

lemma free_law:
  assumes "heap_rep s B" "(p, n) \<in> B"
  shows "\<exists>s'. free p s = Some s' \<and> heap_rep s' (B - {(p, n)}) \<and> keeps (B - {(p, n)}) (kvm s) (kvm s')"
proof -
  obtain G live where g: "unlocked s" "heap_core G live s" "B = alloc_set G live"
    using assms(1) unfolding heap_rep_def by blast
  from assms(2) g(3) consider a i k where "G a = Some (Small i)" "k < nblk i" "mblk a i k \<in> live" "p = mblk a i k" "n = bsz i"
    | a m where "G a = Some (Big m)" "p = a + SIZEOF_ARENA" "n = 4096 * m - 12"
    unfolding alloc_set_def by blast
  then show ?thesis
  proof cases
    case 1
    show ?thesis
    proof (rule free_small_ok[OF g(2,1) 1(1-3)])
      fix G' s' assume f: "free (mblk a i k) s = Some s'" "heap_core G' (live - {mblk a i k}) s'" "descs s' = descs s"
        "descs_at s' = descs_at s" "alloc_set G' (live - {mblk a i k}) = alloc_set G live - {(mblk a i k, bsz i)}"
        "keeps (alloc_set G live - {(mblk a i k, bsz i)}) (kvm s) (kvm s')"
      then show ?thesis using heap_rep_I[OF f(2) g(1) f(3,4)] g(3) 1(4,5) by simp
    qed
  next
    case 2
    show ?thesis
    proof (rule free_big_ok[OF g(2) 2(1)])
      fix G' s' assume f: "free (a + SIZEOF_ARENA) s = Some s'" "heap_core G' live s'" "descs s' = descs s"
        "descs_at s' = descs_at s" "alloc_set G' live = alloc_set G live - {(a + SIZEOF_ARENA, 4096 * m - 12)}"
        "keeps (alloc_set G' live) (kvm s) (kvm s')"
      then show ?thesis using heap_rep_I[OF f(2) g(1) f(3,4)] g(3) 2(2,3) by simp
    qed
  qed
qed

interpretation ma: allocator heap_rep malloc free kvm
proof
  fix s :: kheap and B q m r n
  assume "heap_rep s B" "(q, m) \<in> B" "(r, n) \<in> B" "(q, m) \<noteq> (r, n)"
  then obtain G live where g: "ghost_ok (descs_at s) G live" "(q, m) \<in> alloc_set G live" "(r, n) \<in> alloc_set G live"
    unfolding heap_rep_def heap_core_def by blast
  then have "q \<noteq> r" using alloc_set_fun[OF g(1), of q m n] \<open>(q, m) \<noteq> (r, n)\<close> by auto
  then show "unat q + m \<le> unat r \<or> unat r + n \<le> unat q" by (rule alloc_set_disjoint[OF g])
qed (fact malloc_law free_law)+

end
