(* ===== verification/KMallocUse.thy ===== *)
theory KMallocUse imports KMallocSpec begin

unbundle bit_operations_syntax

text \<open>
  Starting the block allocator, the contents of blocks, and the properties of \<open>malloc\<close>, \<open>free\<close>
  and \<open>realloc\<close> as their callers see them.
\<close>

section \<open>Bytes\<close>

lemma enc_dec32:
  assumes "length bs = 4"
  shows "enc32 (dec32 bs) = bs"
proof -
  obtain a b c d where bs: "bs = [a, b, c, d]"
    using assms by (auto simp: length_Suc_conv numeral_eq_Suc)
  let ?w = "dec32 [a, b, c, d]"
  have "ucast ?w = a" "ucast (drop_bit 8 ?w) = b" "ucast (drop_bit 16 ?w) = c" "ucast (drop_bit 24 ?w) = d"
    by (rule bit_word_eqI, auto simp: dec32_def bit_simps dest: bit_imp_le_length)+
  then show ?thesis unfolding bs by (simp add: enc32_def)
qed

lemma word_split:
  fixes x y :: u32
  assumes "x AND NOT 3 = y AND NOT 3" "x AND 3 = y AND 3"
  shows "x = y"
proof -
  have "x = (x AND NOT 3) OR (x AND 3)" "y = (y AND NOT 3) OR (y AND 3)"
    by (rule bit_word_eqI, auto simp only: bit_or_iff bit_and_iff bit_not_iff possible_bit_word dest: bit_imp_le_length)+
  then show ?thesis using assms by metis
qed

lemma low_less: "unat (x AND 3 :: u32) < 4"
proof -
  have "x AND 3 = take_bit 2 x" by (simp add: take_bit_eq_mask mask_eq_exp_minus_1)
  then have "unat (x AND 3) = unat x mod 4"
    by (simp only:) (subst unsigned_take_bit_eq, simp add: take_bit_eq_mod)
  then show ?thesis by simp
qed

lemma kbyte_set_kbyte: "kbyte x (set_kbyte y b v) = (if x = y then b else kbyte x v)"
proof (cases "x AND NOT 3 = y AND NOT 3")
  case False
  then have "x \<noteq> y" by blast
  then show ?thesis using False unfolding kbyte_def set_kbyte_def store_simps by simp
next
  case True
  have "kbyte x (set_kbyte y b v) = ((enc32 (words v (y AND NOT 3)))[unat (y AND 3) := b]) ! unat (x AND 3)"
    unfolding kbyte_def set_kbyte_def store_simps True by (simp add: enc_dec32)
  also have "\<dots> = (if x = y then b else kbyte x v)"
  proof (cases "x = y")
    case True
    then show ?thesis using low_less[of y] by simp
  next
    case False
    then have "x AND 3 \<noteq> y AND 3" using word_split True by blast
    then have "unat (x AND 3) \<noteq> unat (y AND 3)" by (simp add: word_unat_eq_iff)
    then show ?thesis using False True unfolding kbyte_def by simp
  qed
  finally show ?thesis .
qed

lemma kbyte_set_kbytes_out:
  "(\<And>i. i < length bs \<Longrightarrow> p + of_nat i \<noteq> x) \<Longrightarrow> kbyte x (set_kbytes p bs v) = kbyte x v"
proof (induction bs arbitrary: p v)
  case (Cons b bs)
  have "p + 1 + of_nat i \<noteq> x" if "i < length bs" for i
    using Cons.prems[of "Suc i"] that by (simp add: algebra_simps)
  moreover have "p \<noteq> x" using Cons.prems[of 0] by simp
  ultimately show ?case using Cons.IH[of "p + 1"] by (simp add: kbyte_set_kbyte)
qed simp

lemma kbytes_set_kbytes:
  "unat p + length bs \<le> 4294967296 \<Longrightarrow> kbytes p (length bs) (set_kbytes p bs v) = bs"
proof (induction bs arbitrary: p v)
  case (Cons b bs)
  have out: "p + 1 + of_nat i \<noteq> p" if "i < length bs" for i
  proof
    assume "p + 1 + of_nat i = p"
    then have "(of_nat (Suc i) :: u32) = 0" by (simp add: algebra_simps)
    moreover have "unat (of_nat (Suc i) :: u32) = Suc i" using that Cons.prems by (intro unat_of_nat32) simp
    ultimately show False by simp
  qed
  show ?case
  proof (cases "bs = []")
    case True
    then show ?thesis by (simp add: kbyte_set_kbyte)
  next
    case False
    then have "0 < length bs" by simp
    then have "unat p + 1 < 4294967296" using Cons.prems unfolding length_Cons by linarith
    then have "unat (p + 1) = unat p + 1" by (subst unat_plus_small) simp_all
    then have "kbytes (p + 1) (length bs) (set_kbytes (p + 1) bs (set_kbyte p b v)) = bs"
      using Cons.prems by (intro Cons.IH) simp
    moreover have "kbyte p (set_kbytes (p + 1) bs (set_kbyte p b v)) = b"
      using kbyte_set_kbytes_out[of bs "p + 1" p] out by (simp add: kbyte_set_kbyte)
    ultimately show ?thesis by simp
  qed
qed simp

lemma kbytes_eq:
  "(\<And>i. i < n \<Longrightarrow> kbyte (p + of_nat i) v = kbyte (p + of_nat i) w) \<Longrightarrow> kbytes p n v = kbytes p n w"
proof (induction n arbitrary: p)
  case (Suc n)
  have "kbyte (p + 1 + of_nat i) v = kbyte (p + 1 + of_nat i) w" if "i < n" for i
    using Suc.prems[of "Suc i"] that by (simp add: algebra_simps)
  then show ?case using Suc.IH[of "p + 1"] Suc.prems[of 0] by simp
qed simp

lemma kbytes_keeps:
  assumes "keeps B v w" "(p, n) \<in> B" "unat p mod 4 = 0" "unat p + n \<le> 4294967296" "k \<le> n"
  shows "kbytes p k w = kbytes p k v"
proof (rule kbytes_eq)
  fix i assume i: "i < k"
  let ?y = "(p + of_nat i) AND (NOT 3)"
  have "unat (of_nat i :: u32) = i" using i assms(4,5) by (intro unat_of_nat32) simp
  then have "unat (p + of_nat i) = unat p + i" using i assms(4,5) by (subst unat_plus_small) simp_all
  then have y: "unat ?y = unat p + i - (unat p + i) mod 4" unfolding unat_word_of by simp
  have "unat p \<le> unat p + i - (unat p + i) mod 4" using assms(3) by presburger
  moreover have "unat p + i - (unat p + i) mod 4 < unat p + n" using i assms(5) by simp
  ultimately have "words w ?y = words v ?y" using assms(1,2) unfolding keeps_def y[symmetric] by blast
  then show "kbyte (p + of_nat i) w = kbyte (p + of_nat i) v" unfolding kbyte_def by simp
qed

lemma length_kbytes [simp]: "length (kbytes p n v) = n"
  by (induction n arbitrary: p) simp_all

lemma take_kbytes: "k \<le> n \<Longrightarrow> take k (kbytes p n v) = kbytes p k v"
proof (induction k arbitrary: n p)
  case (Suc k)
  then show ?case by (cases n) simp_all
qed simp

section \<open>Initialisation\<close>

definition init_ok :: "nat \<Rightarrow> kheap \<Rightarrow> bool" where
  "init_ok j st \<longleftrightarrow> desc_cnt st = j \<and> (\<forall>i < j. free_rep (descs_at st) (links st) i {} \<and>
     descs st (dptr (descs_at st) i) = \<lparr>d_block_size = of_nat (bsz i), d_blocks_per_arena = of_nat (nblk i), d_locked = False\<rparr>)"

lemma free_rep_nil: "free_rep D h i {} \<longleftrightarrow> list_rep h (free_list (dptr D i)) []"
  by (auto simp: free_rep_def)

lemma blocks_per_arena: "j < 7 \<Longrightarrow> (PAGE - SIZEOF_ARENA) div of_nat (bsz j) = of_nat (nblk j)"
proof -
  assume j: "j < 7"
  have "unat (of_nat (bsz j) :: u32) = bsz j" using bsz_bounds(2)[OF j] by (intro unat_of_nat32) simp
  then have "unat ((PAGE - SIZEOF_ARENA) div of_nat (bsz j)) = nblk j"
    by (simp add: unat_div nblk_def PAGE_def SIZEOF_ARENA_def)
  moreover have "unat (of_nat (nblk j) :: u32) = nblk j" using nblk_bounds(1)[of j] by (intro unat_of_nat32) simp
  ultimately show ?thesis by (simp add: word_unat_eq_iff)
qed

lemma malloc_init_step:
  assumes "init_ok j st" "j < 7" "descs_at st \<noteq> 0" "unat (descs_at st) + 400 \<le> 4294967296"
  obtains st' where "malloc_init_loop (of_nat (bsz j)) st = malloc_init_loop (of_nat (bsz (Suc j))) st'"
    "init_ok (Suc j) st'" "descs_at st' = descs_at st" "kvm st' = kvm st"
proof -
  let ?D = "descs_at st" and ?d = "dptr (descs_at st) j"
  have u: "unat (dptr ?D i) = unat ?D + 56 * i" if "i < 7" for i by (rule unat_dptr[OF assms(4) that])
  have b: "unat (of_nat (bsz j) :: u32) = bsz j" using bsz_bounds(2)[OF assms(2)] by (intro unat_of_nat32) simp
  have "of_nat (bsz j) < PAGE div 2"
    using b bsz_bounds(2)[OF assms(2)] by (simp add: word_less_nat_alt PAGE_def)
  moreover have d: "?D + SIZEOF_DESC * of_nat (desc_cnt st) = ?d" "desc_cnt st = j"
    using assms(1) by (simp_all add: init_ok_def dptr_def)
  moreover have "free_list ?d \<noteq> 0" by (simp add: free_list_def)
  then obtain h' where h': "list_init (free_list ?d) (links st) = Some h'" "list_rep h' (free_list ?d) []"
    "same_outside (cells (free_list ?d) []) (links st) h'"
    by (rule list_init_rep)
  let ?st = "st\<lparr>desc_cnt := j + 1, links := h', descs := (descs st)(?d :=
    \<lparr>d_block_size = of_nat (bsz j), d_blocks_per_arena = of_nat (nblk j), d_locked = False\<rparr>)\<rparr>"
  have "(of_nat (bsz j) :: u32) * 2 = of_nat (bsz (Suc j))" by (simp add: bsz_def)
  ultimately have "malloc_init_loop (of_nat (bsz j)) st = malloc_init_loop (of_nat (bsz (Suc j))) ?st"
    using h'(1) assms(2) blocks_per_arena[OF assms(2)]
    by (subst malloc_init_loop.simps) (simp add: Let_def del: of_nat_Suc)
  moreover have "init_ok (Suc j) ?st"
    unfolding init_ok_def
  proof (intro conjI allI impI)
    fix i assume i: "i < Suc j"
    show "free_rep (descs_at ?st) (links ?st) i {}"
    proof (cases "i = j")
      case True
      then show ?thesis using h'(2) by (simp add: free_rep_nil)
    next
      case False
      then have "list_rep (links st) (free_list (dptr ?D i)) []"
        using assms(1) i by (simp add: init_ok_def free_rep_nil)
      moreover have "cells (free_list (dptr ?D i)) [] \<inter> cells (free_list ?d) [] = {}"
        using fhdr_apart[OF assms(4), of i j] False i assms(2) by (simp add: cells_def fhdr_def)
      ultimately have "list_rep h' (free_list (dptr ?D i)) []" using h'(3) list_rep_frame by blast
      then show ?thesis by (simp add: free_rep_nil)
    qed
    have "dptr ?D i = ?d \<longleftrightarrow> i = j" using u[of i] u[of j] i assms(2) by (auto simp: word_unat_eq_iff)
    then show "descs ?st (dptr (descs_at ?st) i) =
      \<lparr>d_block_size = of_nat (bsz i), d_blocks_per_arena = of_nat (nblk i), d_locked = False\<rparr>"
      using assms(1) i by (auto simp: init_ok_def)
  qed simp
  ultimately show thesis using that[of ?st] by simp
qed

lemma malloc_init_ok:
  assumes "desc_cnt st = 0" "descs_at st \<noteq> 0" "unat (descs_at st) + 400 \<le> unat (base (kernel_pool (kvm st)))"
    "vm_ok (kvm st)"
  obtains st' where "malloc_init st = Some st'" "heap_rep st' {}" "kvm st' = kvm st"
proof -
  have D: "unat (descs_at st) + 400 \<le> 4294967296"
    using assms(3) unat_less32[of "base (kernel_pool (kvm st))"] by simp
  have "\<exists>st'. malloc_init_loop (of_nat (bsz j)) s = Some st' \<and> init_ok 7 st' \<and> descs_at st' = descs_at st \<and> kvm st' = kvm st"
    if "j + n = 7" "init_ok j s" "descs_at s = descs_at st" "kvm s = kvm st" for j n s
    using that
  proof (induction n arbitrary: j s)
    case 0
    have "\<not> (of_nat (bsz 7) :: u32) < PAGE div 2" by (simp add: bsz_def PAGE_def)
    then show ?case using 0 by (subst malloc_init_loop.simps) simp
  next
    case (Suc n)
    then obtain s' where "malloc_init_loop (of_nat (bsz j)) s = malloc_init_loop (of_nat (bsz (Suc j))) s'"
      "init_ok (Suc j) s'" "descs_at s' = descs_at s" "kvm s' = kvm s"
      using malloc_init_step[of j s] assms(2) D by auto
    then show ?case using Suc.IH[of "Suc j" s'] Suc.prems by simp
  qed
  from this[of 0 7 st] obtain st' where st': "malloc_init_loop (of_nat (bsz 0)) st = Some st'" "init_ok 7 st'"
    "descs_at st' = descs_at st" "kvm st' = kvm st"
    using assms(1) by (auto simp: init_ok_def)
  have none: "blocks_of (\<lambda>_. None) i = {}" for i by (simp add: blocks_of_def)
  have "heap_core (\<lambda>_. None) {} st'"
    using st'(2-4) assms none
    by (simp add: heap_core_def init_ok_def sizes_ok_def ghost_ok_def arenas_ok_def lists_ok_def)
  moreover have "unlocked st'" using st'(2) by (simp add: unlocked_def init_ok_def)
  moreover have "alloc_set (\<lambda>_. None) {} = {}" by (simp add: alloc_set_def)
  ultimately have "heap_rep st' {}" unfolding heap_rep_def by metis
  then show thesis using that st'(1,4) by (simp add: malloc_init_def bsz_def)
qed


section \<open>Regions of the allocator\<close>

lemma heap_rep_region:
  assumes "heap_rep st B" "(p, n) \<in> B"
  shows "unat p mod 4 = 0" "unat p + n \<le> 4294967296" "p \<noteq> 0" "n < 4294967296" "block_size p st = Some (of_nat n)"
proof -
  obtain G live where g: "heap_core G live st" "B = alloc_set G live"
    using assms(1) unfolding heap_rep_def by blast
  note c = heap_coreD[OF g(1)] and mem = assms(2)[unfolded g(2)]
  obtain a kd where a: "G a = Some kd" "unat a + 12 \<le> unat p" "unat p + n \<le> unat a + 4096 * pages_of kd" "0 < n"
    "(\<exists>i k. kd = Small i \<and> k < nblk i \<and> p = mblk a i k \<and> n = bsz i \<and> p \<in> live) \<or>
     (\<exists>m. kd = Big m \<and> p = a + SIZEOF_ARENA \<and> n = 4096 * m - 12)"
    by (rule alloc_setE[OF c(3) mem])
  note room = arena_room[OF c(3) a(1)]
  show "unat p mod 4 = 0" by (rule alloc_aligned(1)[OF c(3) mem])
  show "unat p + n \<le> 4294967296" "n < 4294967296" "p \<noteq> 0" using a(2,3) room(4) by (auto simp: unat_eq_zero)
  from a(5) show "block_size p st = Some (of_nat n)"
  proof (elim disjE exE conjE)
    fix i k assume s: "kd = Small i" "k < nblk i" "p = mblk a i k" "n = bsz i"
    note hd = arena_small[OF g(1) a(1)[unfolded s(1)]]
    have "block_to_arena p st = Some a"
      unfolding s(3) by (rule block_to_arena_ok[OF hd(5) s(2) hd(4,1,2) c(2) hd(6)])
    then show ?thesis using hd(2,6) sizes_okD(1)[OF c(2) hd(4)] s(4) by (simp add: block_size_def Let_def)
  next
    fix m assume b: "kd = Big m" "p = a + SIZEOF_ARENA" "n = 4096 * m - 12"
    note h = block_to_arena_big[OF g(1) a(1)[unfolded b(1)]]
    have "unat (pg_ofs p) = 12"
      using round_down_inside(2)[OF room(1), of p] big_block[OF c(3) a(1)[unfolded b(1)]] b(2) by simp
    then have o: "pg_ofs p = 12" by (simp add: word_unat_eq_iff)
    have "12 \<le> 4096 * m" using room(3) b(1) by simp
    then have "(of_nat n :: u32) = of_nat (4096 * m) - of_nat 12" unfolding b(3) by (rule of_nat_diff)
    then have "PAGE * of_nat m - pg_ofs p = (of_nat n :: u32)" by (simp add: PAGE_def o)
    then show ?thesis using h b(2) by (simp add: block_size_def Let_def)
  qed
qed

lemma heap_rep_write:
  assumes "heap_rep st B" "(p, n) \<in> B" "length bs \<le> n"
  shows "heap_rep (st\<lparr>kvm := set_kbytes p bs (kvm st)\<rparr>) B" "keeps (B - {(p, n)}) (kvm st) (set_kbytes p bs (kvm st))"
proof -
  obtain G live where g: "unlocked st" "heap_core G live st" "B = alloc_set G live"
    using assms(1) unfolding heap_rep_def by blast
  note w = write_region_ok[OF g(2) assms(2)[unfolded g(3)] assms(3)]
  show "keeps (B - {(p, n)}) (kvm st) (set_kbytes p bs (kvm st))" using w(2) g(3) by simp
  show "heap_rep (st\<lparr>kvm := set_kbytes p bs (kvm st)\<rparr>) B" using heap_rep_I[OF w(1) g(1)] g(3) by simp
qed

text \<open>Copying into a new block and freeing the old one.\<close>

lemma move_block:
  assumes "heap_rep st (insert (q, m) B)" "(q, m) \<notin> B" "(p, n) \<in> B" "k \<le> m" "k \<le> n"
  obtains st' where "free p (copy_block q p k st) = Some st'" "heap_rep st' (insert (q, m) (B - {(p, n)}))"
    "keeps (B - {(p, n)}) (kvm st) (kvm st')" "kbytes q k (kvm st') = kbytes p k (kvm st)"
proof -
  let ?B = "insert (q, m) B" and ?bs = "kbytes p k (kvm st)"
  let ?s = "copy_block q p k st"
  have w: "heap_rep ?s ?B" "keeps (?B - {(q, m)}) (kvm st) (kvm ?s)"
    using heap_rep_write[OF assms(1), of q m ?bs] assms(4) by (simp_all add: copy_block_def)
  have BB: "?B - {(q, m)} = B" "?B - {(p, n)} = insert (q, m) (B - {(p, n)})" using assms(2,3) by auto
  obtain st' where f: "free p ?s = Some st'" "heap_rep st' (insert (q, m) (B - {(p, n)}))"
    "keeps (insert (q, m) (B - {(p, n)})) (kvm ?s) (kvm st')"
    using free_law[OF w(1), of p n] assms(3) unfolding BB by auto
  note rq = heap_rep_region[OF assms(1), of q m, simplified]
  have "kbytes q k (kvm st') = kbytes q k (kvm ?s)"
    using kbytes_keeps[OF f(3) _ rq(1,2) assms(4)] by simp
  also have "\<dots> = ?bs"
    using kbytes_set_kbytes[of q ?bs "kvm st"] rq(2) assms(4) by (simp add: copy_block_def)
  finally have c: "kbytes q k (kvm st') = ?bs" .
  have "keeps (B - {(p, n)}) (kvm st) (kvm ?s)" using w(2) unfolding BB by (rule keeps_mono) blast
  moreover have "keeps (B - {(p, n)}) (kvm ?s) (kvm st')" using f(3) by (rule keeps_mono) blast
  ultimately show thesis using that[OF f(1,2) keeps_trans c] by blast
qed

section \<open>Properties\<close>

text \<open>
  When there is memory for \<open>sz\<close> bytes.  A small block comes from the free list of its class, the first one whose
  blocks are large enough, or from a new arena of one page; a big one needs as many consecutive pages as it
  has with its header.  The number of pages is computed modulo \<open>2 ^ 32\<close>, as in the code.
\<close>

definition free_run :: "nat \<Rightarrow> vmem \<Rightarrow> bool" where
  "free_run n v \<longleftrightarrow> (\<exists>j. is_run (bitmap_abs (used_map (kernel_pool v))) j n False)"

definition big_pages_of :: "u32 \<Rightarrow> nat" where
  "big_pages_of sz = unat ((sz + SIZEOF_ARENA + PAGE - 1) div PAGE)"

definition has_room :: "u32 \<Rightarrow> kheap \<Rightarrow> bool" where
  "has_room sz st \<longleftrightarrow>
     (if unat sz \<le> 1024
      then free_run 1 (kvm st) \<or> (\<exists>i < 7. unat sz \<le> bsz i \<and> (\<forall>j < i. bsz j < unat sz) \<and>
        list_empty (free_list (dptr (descs_at st) i)) (links st) = Some False)
      else 0 < big_pages_of sz \<and> free_run (big_pages_of sz) (kvm st))"

lemma palloc_null_iff:
  assumes "vm_ok v" "0 < n"
  shows "\<exists>a v'. palloc_get_multiple NO_FLAGS n v = Some (a, v') \<and> (a = 0 \<longleftrightarrow> \<not> free_run n v) \<and> (a \<noteq> 0 \<longrightarrow> kpage a)"
proof -
  have pk: "pool_of NO_FLAGS v = kernel_pool v" "\<not> PAL_ASSERT NO_FLAGS" by (simp_all add: pool_of_def NO_FLAGS_def)
  have ok: "pool_ok (kernel_pool v)" using assms(1) by (simp add: vm_ok_def)
  show ?thesis
  proof (rule palloc_get_ok[OF assms pk(2), unfolded pk(1)])
    fix r m
    assume *: "palloc_get_multiple NO_FLAGS n v = Some (pool_page (kernel_pool v) r,
        if PAL_ZERO NO_FLAGS then fill_pages (pool_page (kernel_pool v) r) n 0 (set_used NO_FLAGS m v) else set_used NO_FLAGS m v)"
      "r + n \<le> bit_cnt (used_map (kernel_pool v))" "is_run (bitmap_abs (used_map (kernel_pool v))) r n False"
    have "kpage (pool_page (kernel_pool v) r)" using pool_page_kpage[OF ok] *(2) by simp
    then show ?thesis using *(1,3) kpage_nonzero by (auto simp: free_run_def)
  qed (auto simp: free_run_def)
qed

lemma malloc_null_iff:
  assumes "heap_rep st B" "sz \<noteq> 0" "malloc sz st = Some (p, st')"
  shows "p = 0 \<longleftrightarrow> \<not> has_room sz st"
proof -
  obtain G live where g: "unlocked st" "heap_core G live st" using assms(1) unfolding heap_rep_def by blast
  note c = heap_coreD[OF g(2)]
  have vok: "vm_ok (kvm st)" by (rule arenas_okD(1)[OF c(4)])
  have d0: "dptr (descs_at st) 0 = descs_at st" by (simp add: dptr_def)
  from find_desc_ok[of "descs_at st" st 0 7 sz] c(1,2) d0
  consider (big) "find_desc sz (descs_at st) (desc_cnt st) st = None" "\<forall>i < 7. bsz i < unat sz"
    | (small) i where "i < 7" "find_desc sz (descs_at st) (desc_cnt st) st = Some (dptr (descs_at st) i)" "unat sz \<le> bsz i"
        "\<forall>k < i. bsz k < unat sz" by auto
  then show ?thesis
  proof cases
    case big
    have "\<not> unat sz \<le> 1024" using big(2)[rule_format, of 6] by (simp add: bsz_def)
    moreover have "p = 0 \<longleftrightarrow> \<not> (0 < big_pages_of sz \<and> free_run (big_pages_of sz) (kvm st))"
    proof (cases "0 < big_pages_of sz")
      case True
      obtain a v' where a: "palloc_get_multiple NO_FLAGS (big_pages_of sz) (kvm st) = Some (a, v')"
        "a = 0 \<longleftrightarrow> \<not> free_run (big_pages_of sz) (kvm st)" "a \<noteq> 0 \<longrightarrow> kpage a"
        using palloc_null_iff[OF vok True] by blast
      have "p = (if a = 0 then 0 else a + SIZEOF_ARENA)"
        using assms(2,3) big(1) a(1) by (auto simp: malloc_def malloc_big_def big_pages_of_def Let_def split: if_splits)
      moreover have "a + SIZEOF_ARENA \<noteq> 0" if "a \<noteq> 0"
      proof -
        have "kpage a" using a(3) that by blast
        then have "unat a + 4096 \<le> 4294967296" using unat_less32[of a] by (intro aligned_room) (simp_all add: kpage_unat)
        then have "unat (a + SIZEOF_ARENA) = unat a + 12" by (simp add: SIZEOF_ARENA_def unat_plus_small)
        then show ?thesis by (auto simp: unat_eq_zero)
      qed
      ultimately show ?thesis using a(2) True by auto
    next
      case False
      then show ?thesis using assms(2,3) big(1)
        by (auto simp: malloc_def malloc_big_def palloc_get_multiple_def big_pages_of_def Let_def)
    qed
    ultimately show ?thesis by (simp add: has_room_def)
  next
    case small
    have le: "unat sz \<le> 1024" using small(3) bsz_bounds(2)[OF small(1)] by simp
    have fr: "free_rep (descs_at st) (links st) i (blocks_of G i - live)" using c(5) small(1) by (simp add: lists_ok_def)
    obtain e where e: "list_empty (free_list (dptr (descs_at st) i)) (links st) = Some e" using free_rep_empty[OF fr] by blast
    have uniq: "j = i" if "unat sz \<le> bsz j" "\<forall>k < j. bsz k < unat sz" for j
      using that small(3,4) by (meson leD nat_neq_iff)
    have room: "has_room sz st \<longleftrightarrow> free_run 1 (kvm st) \<or> \<not> e"
    proof -
      have "(\<exists>i < 7. unat sz \<le> bsz i \<and> (\<forall>j < i. bsz j < unat sz) \<and>
          list_empty (free_list (dptr (descs_at st) i)) (links st) = Some False) \<longleftrightarrow> \<not> e"
        (is "?L \<longleftrightarrow> _")
      proof
        assume ?L
        then obtain j where "unat sz \<le> bsz j" "\<forall>k < j. bsz k < unat sz" "list_empty (free_list (dptr (descs_at st) j)) (links st) = Some False"
          by blast
        then show "\<not> e" using uniq[of j] e by simp
      next
        assume "\<not> e"
        then have "list_empty (free_list (dptr (descs_at st) i)) (links st) = Some False" using e by simp
        then show ?L using small(1,3,4) by blast
      qed
      then show ?thesis using le by (simp only: has_room_def if_True)
    qed
    obtain a v' where a: "palloc_get_multiple NO_FLAGS 1 (kvm st) = Some (a, v')" "a = 0 \<longleftrightarrow> \<not> free_run 1 (kvm st)"
      using palloc_null_iff[OF vok, of 1] by auto
    have fill: "ok \<longleftrightarrow> has_room sz st"
      if "fill_free_list (dptr (descs_at st) i) st1 = Some (ok, st2)" "links st1 = links st" "kvm st1 = kvm st" for st1 st2 ok
      using that e a room by (auto simp: fill_free_list_def palloc_get_page_def Let_def elim!: bind_SomeE split: if_splits)
    show ?thesis
    proof (rule malloc_small_ok[OF g(2,1) small(1) assms(2) small(3,2)])
      assume *: "malloc sz st = Some (0, st)"
        "\<exists>st1. links st1 = links st \<and> kvm st1 = kvm st \<and> fill_free_list (dptr (descs_at st) i) st1 = Some (False, st1)"
      then have "\<not> has_room sz st" using fill by blast
      then show ?thesis using *(1) assms(3) by simp
    next
      fix q st'' assume *: "malloc sz st = Some (q, st'')" "q \<noteq> 0"
        "\<exists>st1 st2. links st1 = links st \<and> kvm st1 = kvm st \<and> fill_free_list (dptr (descs_at st) i) st1 = Some (True, st2)"
      then have "has_room sz st" using fill by blast
      then show ?thesis using *(1,2) assms(3) by simp
    qed
  qed
qed

text \<open>
  C15: Allocated blocks never overlap.  In every state that the operations reach, \<open>malloc\<close> returns.  It
  returns the null pointer, and changes no block, exactly if the size is 0 or there is no memory for it; otherwise
  it returns a block of at least the size asked for that overlaps no block in use.  The contents of the blocks
  in use are untouched.  For the largest sizes, above \<open>SIZE_MAX - 11\<close>, the sum with the arena header wraps around
  and the block has only 4084 bytes.
\<close>

theorem malloc_fresh_block:
  assumes "heap_rep st B"
  shows "\<exists>p st'. malloc sz st = Some (p, st') \<and> keeps B (kvm st) (kvm st') \<and>
    (if sz = 0 \<or> \<not> has_room sz st then p = 0 \<and> heap_rep st' B
     else p \<noteq> 0 \<and> (\<exists>n. heap_rep st' (insert (p, n) B) \<and>
      (if unat sz \<le> 4294967284 then unat sz \<le> n else n = 4084) \<and>
      (\<forall>(q, m) \<in> B. unat p + n \<le> unat q \<or> unat q + m \<le> unat p)))"
proof (cases "sz = 0")
  case True
  then show ?thesis using assms by (simp add: malloc_def keeps_refl)
next
  case False
  obtain p st' where p: "malloc sz st = Some (p, st')" "keeps B (kvm st) (kvm st')"
    "p = 0 \<and> heap_rep st' B \<or> p \<noteq> 0 \<and> (\<exists>n. heap_rep st' (insert (p, n) B) \<and>
      (if unat sz \<le> 4294967284 then unat sz \<le> n else n = 4084) \<and>
      (\<forall>(q, m) \<in> B. unat p + n \<le> unat q \<or> unat q + m \<le> unat p))"
    using ma.alloc_fresh[OF assms False] by blast
  then show ?thesis using malloc_null_iff[OF assms False p(1)] False by auto
qed

text \<open>
  C16: A block can be freed right after it was allocated, which gives the allocator the state it had
  for its clients: the same blocks are in use, with the same contents.
\<close>

theorem malloc_free_roundtrip:
  assumes "heap_rep st B" "sz \<noteq> 0" "malloc sz st = Some (p, st')" "p \<noteq> 0"
  shows "\<exists>st''. free p st' = Some st'' \<and> heap_rep st'' B \<and> keeps B (kvm st) (kvm st'')"
  by (rule ma.alloc_release[OF assms])

text \<open>
  C17: \<open>realloc\<close> of a block in use to a new size, other than 0 and not above \<open>SIZE_MAX - 11\<close>.  When there is no memory
  for a new block, it returns the null pointer and leaves every block as it is.  Otherwise it returns a block of the new
  size that holds the first bytes of the old one, as many as both have, frees the old block, and leaves every
  other block as it is.  (A larger size wraps around in \<open>malloc\<close>, and the copy can run past the end of the
  block of 4084 bytes that it returns.)
\<close>

theorem realloc_moves_contents:
  assumes "heap_rep st B" "(p, n) \<in> B" "sz \<noteq> 0" "unat sz \<le> 4294967284"
  shows "\<exists>q st'. realloc p sz st = Some (q, st') \<and>
    (if \<not> has_room sz st then q = 0 \<and> heap_rep st' B \<and> keeps B (kvm st) (kvm st')
     else q \<noteq> 0 \<and> (\<exists>m. heap_rep st' (insert (q, m) (B - {(p, n)})) \<and> unat sz \<le> m \<and>
       keeps (B - {(p, n)}) (kvm st) (kvm st') \<and>
       kbytes q (min (unat sz) n) (kvm st') = kbytes p (min (unat sz) n) (kvm st)))"
proof -
  obtain q st1 where m: "malloc sz st = Some (q, st1)" "keeps B (kvm st) (kvm st1)"
    "q = 0 \<and> heap_rep st1 B \<or> q \<noteq> 0 \<and> (\<exists>m. heap_rep st1 (insert (q, m) B) \<and> (q, m) \<notin> B \<and>
      (if unat sz \<le> 4294967284 then unat sz \<le> m else m = 4084))"
    using malloc_law[OF assms(1,3)] by blast
  note rp = heap_rep_region[OF assms(1,2)] and room = malloc_null_iff[OF assms(1,3) m(1)]
  show ?thesis
  proof (cases "q = 0")
    case True
    then show ?thesis using m assms(3) rp(3) room by (simp add: realloc_def)
  next
    case False
    then obtain m where q: "heap_rep st1 (insert (q, m) B)" "(q, m) \<notin> B" "unat sz \<le> m"
      using m(3) assms(4) by auto
    let ?k = "min (unat sz) n"
    have bs: "block_size p st1 = Some (of_nat n)" using heap_rep_region(5)[OF q(1), of p n] assms(2) by simp
    have n: "unat (of_nat n :: u32) = n" by (rule unat_of_nat32[OF rp(4)])
    have k: "unat (if sz < of_nat n then sz else of_nat n) = ?k" using n by (simp add: word_less_nat_alt)
    have "?k \<le> m" "?k \<le> n" using q(3) by simp_all
    then obtain st' where st': "free p (copy_block q p ?k st1) = Some st'" "heap_rep st' (insert (q, m) (B - {(p, n)}))"
      "keeps (B - {(p, n)}) (kvm st1) (kvm st')" "kbytes q ?k (kvm st') = kbytes p ?k (kvm st1)"
      by (rule move_block[OF q(1,2) assms(2)])
    have "realloc p sz st = Some (q, st')"
      using m(1) False assms(3) rp(3) bs k st'(1) by (simp add: realloc_def Let_def)
    moreover have "kbytes p ?k (kvm st1) = kbytes p ?k (kvm st)"
      by (rule kbytes_keeps[OF m(2) assms(2) rp(1,2)]) simp
    moreover have "keeps (B - {(p, n)}) (kvm st) (kvm st')"
      using keeps_trans[OF keeps_mono[OF m(2)] st'(3)] by blast
    ultimately show ?thesis using st'(2,4) q(3) False room by (intro exI[of _ q] exI[of _ st']) auto
  qed
qed

text \<open>A kernel whose allocator has just been started.\<close>

definition demo_heap :: kheap where
  "demo_heap = \<lparr>kvm = demo_vm, links = \<lparr>prv = \<lambda>_. 0, nxt = \<lambda>_. 0\<rparr>, descs_at = 0xc0010000,
     descs = (\<lambda>_. \<lparr>d_block_size = 0, d_blocks_per_arena = 0, d_locked = False\<rparr>), desc_cnt = 0\<rparr>"

lemma demo_heap_init:
  obtains st where "malloc_init demo_heap = Some st" "heap_rep st {}" "kvm st = demo_vm"
  using malloc_init_ok[of demo_heap] demo_vm_ok by (auto simp: demo_heap_def demo_vm_def)

text \<open>It has a block of 4000 bytes to give.\<close>

lemma demo_heap_block:
  obtains st p n st' where "malloc_init demo_heap = Some st" "heap_rep st {}" "malloc 4000 st = Some (p, st')" "p \<noteq> 0"
    "heap_rep st' {(p, n)}"
proof -
  obtain st where st: "malloc_init demo_heap = Some st" "heap_rep st {}" "kvm st = demo_vm" by (rule demo_heap_init)
  obtain G live where g: "heap_core G live st" using st(2) unfolding heap_rep_def by blast
  have d0: "dptr (descs_at st) 0 = descs_at st" by (simp add: dptr_def)
  have "find_desc 4000 (descs_at st) (desc_cnt st) st = None"
    using find_desc_ok[of "descs_at st" st 0 7 4000] heap_coreD(1,2)[OF g] bsz_bounds(2) unfolding d0 by fastforce
  then have run: "malloc 4000 st = malloc_big 4000 st" by (simp add: malloc_def)
  have pc: "unat ((4000 + SIZEOF_ARENA + PAGE - 1) div PAGE) = 1" by (simp add: SIZEOF_ARENA_def PAGE_def)
  have "is_run (bitmap_abs (used_map (pool_of NO_FLAGS demo_vm))) 1 1 False"
    by (simp add: is_run_def pool_of_def NO_FLAGS_def demo_vm_def bit_at_def bit_simps elem_cnt_alt)
  then obtain a v where a: "palloc_get_multiple NO_FLAGS 1 demo_vm = Some (a, v)" "kpage a"
  proof (rule_tac palloc_get_ok[OF demo_vm_ok, of 1 NO_FLAGS])
    fix r m
    assume "palloc_get_multiple NO_FLAGS 1 demo_vm = Some (pool_page (pool_of NO_FLAGS demo_vm) r,
        if PAL_ZERO NO_FLAGS then fill_pages (pool_page (pool_of NO_FLAGS demo_vm) r) 1 0 (set_used NO_FLAGS m demo_vm)
        else set_used NO_FLAGS m demo_vm)"
      "r + 1 \<le> bit_cnt (used_map (pool_of NO_FLAGS demo_vm))"
    then show thesis using that pool_page_kpage[OF vm_ok_pool[OF demo_vm_ok], of r NO_FLAGS] by auto
  qed (auto simp: NO_FLAGS_def)
  have "unat a + 4096 \<le> 4294967296"
    using a(2) unat_less32[of a] by (intro aligned_room) (simp_all add: kpage_unat)
  then have "unat (a + SIZEOF_ARENA) = unat a + 12" by (simp add: SIZEOF_ARENA_def unat_plus_small)
  then have nz: "a + SIZEOF_ARENA \<noteq> 0" by (auto simp: unat_eq_zero)
  have m: "malloc 4000 st = Some (a + SIZEOF_ARENA, set_arena a 0 1 (st\<lparr>kvm := v\<rparr>))"
    unfolding run malloc_big_def st(3) using a(1) kpage_nonzero[OF a(2)] pc by (simp add: SIZEOF_ARENA_def PAGE_def)
  then show thesis using that[OF st(1,2) m nz] malloc_law[OF st(2), of 4000] nz by auto
qed

theorem malloc_fresh_block_witness:
  "\<exists>st p n st'. malloc_init demo_heap = Some st \<and> malloc 4000 st = Some (p, st') \<and> heap_rep st' {(p, n)} \<and> 4000 \<le> n"
proof -
  obtain st p n st' where m: "malloc_init demo_heap = Some st" "heap_rep st {}" "malloc 4000 st = Some (p, st')" "p \<noteq> 0"
    by (rule demo_heap_block)
  then obtain n' where "heap_rep st' (insert (p, n') {})" "4000 \<le> n'"
    using malloc_fresh_block[OF m(2), of 4000] by (auto split: if_splits)
  then show ?thesis using m by blast
qed

theorem malloc_free_roundtrip_witness:
  "\<exists>st p st' st''. malloc_init demo_heap = Some st \<and> malloc 4000 st = Some (p, st') \<and> free p st' = Some st'' \<and> heap_rep st'' {}"
proof -
  obtain st p n st' where m: "malloc_init demo_heap = Some st" "heap_rep st {}" "malloc 4000 st = Some (p, st')" "p \<noteq> 0"
    by (rule demo_heap_block)
  then show ?thesis using malloc_free_roundtrip[OF m(2) _ m(3,4)] by auto
qed

theorem realloc_moves_contents_witness:
  "\<exists>st p st' q st''. malloc_init demo_heap = Some st \<and> malloc 4000 st = Some (p, st') \<and> realloc p 5000 st' = Some (q, st'')"
proof -
  obtain st p n st' where m: "malloc_init demo_heap = Some st" "malloc 4000 st = Some (p, st')" "heap_rep st' {(p, n)}"
    by (rule demo_heap_block)
  then show ?thesis using realloc_moves_contents[OF m(3), of p n 5000] by auto
qed

end
