(* ===== verification/KPartition.thy ===== *)
theory KPartition imports KBlock begin

text \<open>
  Partition tables, \<open>devices/partition.c\<close>.  A table is the 512 bytes of its sector.  The device
  scanned is named by its position in the registry; a partition that is found is registered as
  a device of its own, whose sectors are sectors of the underlying device.  \<open>mallocs\<close> gives the
  outcomes of the calls of \<open>malloc\<close> (\<open>[]\<close>: every further call succeeds); the messages that are
  printed are left out.
\<close>

record partition =
  p_block :: nat
  p_start :: u32

record pscan =
  reg :: registry
  parts :: "partition list"
  part_nr :: nat
  mallocs :: "bool list"

definition pt_malloc :: "pscan \<Rightarrow> pscan option" where
  "pt_malloc st = (case mallocs st of
     [] \<Rightarrow> Some st
   | ok # oks \<Rightarrow> do { ASSERT ok; Some (st\<lparr>mallocs := oks\<rparr>) })"

definition dev_size :: "nat \<Rightarrow> pscan \<Rightarrow> u32" where
  "dev_size b st = bd_size (all_blocks (reg st) ! b)"

section \<open>The table in a sector\<close>

definition e_type :: "u8 list \<Rightarrow> nat \<Rightarrow> u8" where
  "e_type pt i = pt ! (446 + 16 * i + 4)"

definition e_offset :: "u8 list \<Rightarrow> nat \<Rightarrow> u32" where
  "e_offset pt i = dec32 (get_bytes (446 + 16 * i + 8) 4 pt)"

definition e_size :: "u8 list \<Rightarrow> nat \<Rightarrow> u32" where
  "e_size pt i = dec32 (get_bytes (446 + 16 * i + 12) 4 pt)"

definition signature_ok :: "u8 list \<Rightarrow> bool" where
  "signature_ok pt \<longleftrightarrow> pt ! 510 = 0x55 \<and> pt ! 511 = 0xaa"

section \<open>Partitions that are found\<close>

definition partition_read :: "partition \<Rightarrow> u32 \<Rightarrow> pscan \<Rightarrow> (u8 list \<times> pscan) option" where
  "partition_read p sector st = do {
     (buffer, d) \<leftarrow> block_read (p_start p + sector) (all_blocks (reg st) ! p_block p);
     Some (buffer, st\<lparr>reg := (reg st)\<lparr>all_blocks := (all_blocks (reg st))[p_block p := d]\<rparr>\<rparr>)
   }"

definition partition_write :: "partition \<Rightarrow> u32 \<Rightarrow> u8 list \<Rightarrow> pscan \<Rightarrow> pscan option" where
  "partition_write p sector buffer st = do {
     d \<leftarrow> block_write (p_start p + sector) buffer (all_blocks (reg st) ! p_block p);
     Some (st\<lparr>reg := (reg st)\<lparr>all_blocks := (all_blocks (reg st))[p_block p := d]\<rparr>\<rparr>)
   }"

definition type_of_partition :: "u8 \<Rightarrow> block_type" where
  "type_of_partition t =
     (if t = 0x20 then BLOCK_KERNEL else if t = 0x21 then BLOCK_FILESYS
      else if t = 0x22 then BLOCK_SCRATCH else if t = 0x23 then BLOCK_SWAP else BLOCK_FOREIGN)"

text \<open>A number in decimal digits, as \<open>%d\<close> prints it.\<close>

fun decimal_of :: "nat \<Rightarrow> string" where
  "decimal_of n = (if n < 10 then [char_of (48 + n)] else decimal_of (n div 10) @ [char_of (48 + n mod 10)])"

declare decimal_of.simps [simp del]

definition found_partition :: "nat \<Rightarrow> u8 \<Rightarrow> u32 \<Rightarrow> u32 \<Rightarrow> pscan \<Rightarrow> pscan option" where
  "found_partition b part_type start sz st = (
     if start \<ge> dev_size b st then Some st
     else if start + sz < start \<or> start + sz > dev_size b st then Some st
     else do {
       st \<leftarrow> pt_malloc st;
       let p = \<lparr>p_block = b, p_start = start\<rparr>;
       let name = take 15 (bd_name (all_blocks (reg st) ! b) @ decimal_of (part_nr st));
       (_, r) \<leftarrow> block_register True name (type_of_partition part_type) sz
         (\<lambda>s. bd_data (all_blocks (reg st) ! b) (start + s)) (reg st);
       Some (st\<lparr>reg := r, parts := parts st @ [p]\<rparr>)
     })"

text \<open>The names of the partition types, for the messages.\<close>

definition type_names :: "(u8 \<times> string) list" where
  "type_names =
    [(0x00, ''Empty''), (0x01, ''FAT12''), (0x02, ''XENIX root''), (0x03, ''XENIX usr''),
     (0x04, ''FAT16 <32M''), (0x05, ''Extended''), (0x06, ''FAT16''), (0x07, ''HPFS/NTFS''),
     (0x08, ''AIX''), (0x09, ''AIX bootable''), (0x0a, ''OS/2 Boot Manager''),
     (0x0b, ''W95 FAT32''), (0x0c, ''W95 FAT32 (LBA)''), (0x0e, ''W95 FAT16 (LBA)''),
     (0x0f, ''W95 Ext'd (LBA)''), (0x10, ''OPUS''), (0x11, ''Hidden FAT12''),
     (0x12, ''Compaq diagnostics''), (0x14, ''Hidden FAT16 <32M''), (0x16, ''Hidden FAT16''),
     (0x17, ''Hidden HPFS/NTFS''), (0x18, ''AST SmartSleep''), (0x1b, ''Hidden W95 FAT32''),
     (0x1c, ''Hidden W95 FAT32 (LBA)''), (0x1e, ''Hidden W95 FAT16 (LBA)''),
     (0x20, ''Pintos OS kernel''), (0x21, ''Pintos file system''), (0x22, ''Pintos scratch''),
     (0x23, ''Pintos swap''), (0x24, ''NEC DOS''), (0x39, ''Plan 9''),
     (0x3c, ''PartitionMagic recovery''), (0x40, ''Venix 80286''), (0x41, ''PPC PReP Boot''),
     (0x42, ''SFS''), (0x4d, ''QNX4.x''), (0x4e, ''QNX4.x 2nd part''), (0x4f, ''QNX4.x 3rd part''),
     (0x50, ''OnTrack DM''), (0x51, ''OnTrack DM6 Aux1''), (0x52, ''CP/M''),
     (0x53, ''OnTrack DM6 Aux3''), (0x54, ''OnTrackDM6''), (0x55, ''EZ-Drive''),
     (0x56, ''Golden Bow''), (0x5c, ''Priam Edisk''), (0x61, ''SpeedStor''),
     (0x63, ''GNU HURD or SysV''), (0x64, ''Novell Netware 286''), (0x65, ''Novell Netware 386''),
     (0x70, ''DiskSecure Multi-Boot''), (0x75, ''PC/IX''), (0x80, ''Old Minix''),
     (0x81, ''Minix / old Linux''), (0x82, ''Linux swap / Solaris''), (0x83, ''Linux''),
     (0x84, ''OS/2 hidden C: drive''), (0x85, ''Linux extended''), (0x86, ''NTFS volume set''),
     (0x87, ''NTFS volume set''), (0x88, ''Linux plaintext''), (0x8e, ''Linux LVM''),
     (0x93, ''Amoeba''), (0x94, ''Amoeba BBT''), (0x9f, ''BSD/OS''),
     (0xa0, ''IBM Thinkpad hibernation''), (0xa5, ''FreeBSD''), (0xa6, ''OpenBSD''),
     (0xa7, ''NeXTSTEP''), (0xa8, ''Darwin UFS''), (0xa9, ''NetBSD''), (0xab, ''Darwin boot''),
     (0xb7, ''BSDI fs''), (0xb8, ''BSDI swap''), (0xbb, ''Boot Wizard hidden''),
     (0xbe, ''Solaris boot''), (0xbf, ''Solaris''), (0xc1, ''DRDOS/sec (FAT-12)''),
     (0xc4, ''DRDOS/sec (FAT-16 < 32M)''), (0xc6, ''DRDOS/sec (FAT-16)''), (0xc7, ''Syrinx''),
     (0xda, ''Non-FS data''), (0xdb, ''CP/M / CTOS / ...''), (0xde, ''Dell Utility''),
     (0xdf, ''BootIt''), (0xe1, ''DOS access''), (0xe3, ''DOS R/O''), (0xe4, ''SpeedStor''),
     (0xeb, ''BeOS fs''), (0xee, ''EFI GPT''), (0xef, ''EFI (FAT-12/16/32)''),
     (0xf0, ''Linux/PA-RISC boot''), (0xf1, ''SpeedStor''), (0xf4, ''SpeedStor''),
     (0xf2, ''DOS secondary''), (0xfd, ''Linux raid autodetect''), (0xfe, ''LANstep''),
     (0xff, ''BBT'')]"

definition partition_type_name :: "u8 \<Rightarrow> string" where
  "partition_type_name t = (case map_of type_names t of Some s \<Rightarrow> s | None \<Rightarrow> ''Unknown'')"

section \<open>Reading the tables\<close>

text \<open>
  The first part of \<open>read_partition_table\<close>: the table, or \<open>None\<close> when the function returns early.
  The sector that is read is always sector 0, as in the code.
\<close>

definition load_table :: "nat \<Rightarrow> u32 \<Rightarrow> pscan \<Rightarrow> (u8 list option \<times> pscan) option" where
  "load_table b sector st = (
     if sector \<ge> dev_size b st then Some (None, st)
     else do {
       st \<leftarrow> pt_malloc st;
       (pt, d) \<leftarrow> block_read 0 (all_blocks (reg st) ! b);
       let st = st\<lparr>reg := (reg st)\<lparr>all_blocks := (all_blocks (reg st))[b := d]\<rparr>\<rparr>;
       Some (if signature_ok pt then Some pt else None, st)
     })"

definition is_extended :: "u8 \<Rightarrow> bool" where
  "is_extended t \<longleftrightarrow> t = 0x05 \<or> t = 0x0f \<or> t = 0x85 \<or> t = 0xc5"

text \<open>The loop over the entries from number \<open>i\<close> on, with the recursive call in it.\<close>

partial_function (option) parse_entries ::
  "nat \<Rightarrow> nat \<Rightarrow> u32 \<Rightarrow> u32 \<Rightarrow> u8 list \<Rightarrow> pscan \<Rightarrow> pscan option" where
  "parse_entries i b sector primary_extended_sector pt st = (
     if i \<ge> 4 then Some st
     else do {
       st \<leftarrow>
         (if e_size pt i = 0 \<or> e_type pt i = 0 then Some st
          else if is_extended (e_type pt i) then do {
            let (sector', primary) =
              (if sector = 0 then (e_offset pt i, e_offset pt i)
               else (e_offset pt i + primary_extended_sector, primary_extended_sector));
            (table, st) \<leftarrow> load_table b sector' st;
            if table = None then Some st
            else parse_entries 0 b sector' primary (the table) st
          }
          else do {
            let st = st\<lparr>part_nr := part_nr st + 1\<rparr>;
            found_partition b (e_type pt i) (e_offset pt i + sector) (e_size pt i) st
          });
       parse_entries (i + 1) b sector primary_extended_sector pt st
     })"

definition read_partition_table :: "nat \<Rightarrow> u32 \<Rightarrow> u32 \<Rightarrow> pscan \<Rightarrow> pscan option" where
  "read_partition_table b sector primary_extended_sector st = do {
     (table, st) \<leftarrow> load_table b sector st;
     if table = None then Some st
     else parse_entries 0 b sector primary_extended_sector (the table) st
   }"

definition partition_scan :: "nat \<Rightarrow> pscan \<Rightarrow> pscan option" where
  "partition_scan b st = read_partition_table b 0 0 (st\<lparr>part_nr := 0\<rparr>)"


section \<open>A device with an extended partition\<close>

text \<open>What the scan keeps of the device: its first sector and its size.\<close>

definition dev_is :: "nat \<Rightarrow> u8 list \<Rightarrow> u32 \<Rightarrow> pscan \<Rightarrow> bool" where
  "dev_is b T N st \<longleftrightarrow> b < length (all_blocks (reg st)) \<and>
     bd_data (all_blocks (reg st) ! b) 0 = T \<and> bd_size (all_blocks (reg st) ! b) = N"

lemma pt_malloc_is: "pt_malloc st = Some st' \<Longrightarrow> reg st' = reg st"
  by (auto simp: pt_malloc_def split: list.splits if_splits)

lemma load_table_is:
  assumes "load_table b sector st = Some (t, st')" "dev_is b T N st"
  shows "dev_is b T N st'" "sector < N \<Longrightarrow> signature_ok T \<Longrightarrow> t = Some T"
  using assms
  by (auto simp: load_table_def dev_is_def dev_size_def block_read_def Let_def not_less
      dest!: pt_malloc_is elim!: bind_SomeE split: if_splits)

lemma found_partition_is:
  assumes "found_partition b ty start sz st = Some st'" "dev_is b T N st"
  shows "dev_is b T N st'"
  using assms
  by (auto simp: found_partition_def dev_is_def block_register_def Let_def nth_append
      dest!: pt_malloc_is elim!: bind_SomeE split: if_splits)

text \<open>
  The claim about a run of the loop that returns, for the table \<open>T\<close> whose entry \<open>k\<close> is the
  extended partition: it was not on this table at or before that entry.
\<close>

definition run_post ::
  "u8 list \<Rightarrow> u32 \<Rightarrow> nat \<Rightarrow> nat \<Rightarrow> nat \<Rightarrow> u32 \<Rightarrow> u32 \<Rightarrow> u8 list \<Rightarrow> pscan \<Rightarrow> pscan \<Rightarrow> bool" where
  "run_post T N k i b sector primary pt st st' \<longleftrightarrow> (dev_is b T N st \<longrightarrow>
     dev_is b T N st' \<and> \<not> (pt = T \<and> i \<le> k \<and> (sector = 0 \<or> primary = e_offset T k)))"

definition loops_at :: "u8 list \<Rightarrow> u32 \<Rightarrow> nat \<Rightarrow> bool" where
  "loops_at T N k \<longleftrightarrow> signature_ok T \<and> k < 4 \<and> e_size T k \<noteq> 0 \<and> is_extended (e_type T k) \<and>
     e_offset T k < N \<and> e_offset T k + e_offset T k < N"

text \<open>One entry, with \<open>f\<close> for the recursive calls.\<close>

lemma entry_step:
  assumes IH: "\<And>i b sector primary pt st st'. f i b sector primary pt st = Some st' \<Longrightarrow>
      run_post T N k i b sector primary pt st st'"
    and L: "loops_at T N k" and st: "dev_is b T N st"
  defines "sec \<equiv> \<lambda>sector primary pt i. if sector = 0 then e_offset pt i else e_offset pt i + primary"
    and "prim \<equiv> \<lambda>sector primary pt i. if sector = 0 then e_offset pt i else primary"
  assumes st1: "(if e_size pt i = 0 \<or> e_type pt i = 0 then Some st
      else if is_extended (e_type pt i) then do {
        (table, st) \<leftarrow> load_table b (sec sector primary pt i) st;
        if table = None then Some st
        else f 0 b (sec sector primary pt i) (prim sector primary pt i) (the table) st
      }
      else found_partition b (e_type pt i) (e_offset pt i + sector) (e_size pt i) (st\<lparr>part_nr := part_nr st + 1\<rparr>)) = Some st1"
  shows "dev_is b T N st1 \<and> \<not> (pt = T \<and> i = k \<and> (sector = 0 \<or> primary = e_offset T k))"
proof (cases "e_size pt i \<noteq> 0 \<and> e_type pt i \<noteq> 0 \<and> is_extended (e_type pt i)")
  case ext: True
  let ?sec = "sec sector primary pt i" and ?prim = "prim sector primary pt i"
  obtain t st2 where t: "load_table b ?sec st = Some (t, st2)"
    and go: "(if t = None then Some st2 else f 0 b ?sec ?prim (the t) st2) = Some st1"
    using st1 ext by (auto elim!: bind_SomeE split: if_splits)
  note l = load_table_is[OF t st] and L = L[unfolded loops_at_def]
  show ?thesis
  proof (cases t)
    case None
    then have "\<not> ?sec < N" using l(2) L by auto
    then show ?thesis using go None l(1) L by (auto simp: sec_def split: if_splits)
  next
    case (Some T')
    then have "f 0 b ?sec ?prim T' st2 = Some st1" using go by simp
    then have "dev_is b T N st1 \<and> \<not> (T' = T \<and> (?sec = 0 \<or> ?prim = e_offset T k))"
      using IH l(1) unfolding run_post_def by blast
    moreover have "T' = T" if "pt = T" "i = k" "sector = 0 \<or> primary = e_offset T k"
      using l(2) L Some that by (auto simp: sec_def split: if_splits)
    ultimately show ?thesis by (auto simp: prim_def split: if_splits)
  qed
next
  case other: False
  have "dev_is b T N (st\<lparr>part_nr := part_nr st + 1\<rparr>)" using st by (simp add: dev_is_def)
  then have "dev_is b T N st1" using st1 st other found_partition_is by (auto split: if_splits)
  then show ?thesis using other L by (auto simp: is_extended_def loops_at_def)
qed

lemma parse_entries_diverges:
  assumes "parse_entries i b sector primary pt st = Some st'" "loops_at T N k"
  shows "run_post T N k i b sector primary pt st st'"
proof (rule parse_entries.raw_induct[where P = "run_post T N k", OF _ assms(1)])
  fix f :: "nat \<Rightarrow> nat \<Rightarrow> u32 \<Rightarrow> u32 \<Rightarrow> u8 list \<Rightarrow> pscan \<Rightarrow> pscan option" and i b sector primary pt st st'
  assume IH: "\<And>i b sector primary pt st st'. f i b sector primary pt st = Some st' \<Longrightarrow>
      run_post T N k i b sector primary pt st st'"
    and step: "(if i \<ge> 4 then Some st
      else do {
        st \<leftarrow>
          (if e_size pt i = 0 \<or> e_type pt i = 0 then Some st
           else if is_extended (e_type pt i) then do {
             let (sector', prim) =
               (if sector = 0 then (e_offset pt i, e_offset pt i) else (e_offset pt i + primary, primary));
             (table, st) \<leftarrow> load_table b sector' st;
             if table = None then Some st else f 0 b sector' prim (the table) st
           }
           else do {
             let st = st\<lparr>part_nr := part_nr st + 1\<rparr>;
             found_partition b (e_type pt i) (e_offset pt i + sector) (e_size pt i) st
           });
        f (i + 1) b sector primary pt st
      }) = Some st'"
  show "run_post T N k i b sector primary pt st st'"
  proof (cases "4 \<le> i")
    case True
    then show ?thesis using step assms(2) by (simp add: run_post_def loops_at_def)
  next
    case False
    show ?thesis
      unfolding run_post_def
    proof
      assume st: "dev_is b T N st"
      obtain st1 where st1: "dev_is b T N st1 \<and> \<not> (pt = T \<and> i = k \<and> (sector = 0 \<or> primary = e_offset T k))"
        and rest: "f (i + 1) b sector primary pt st1 = Some st'"
        using step False entry_step[where f = f and pt = pt and i = i and sector = sector and primary = primary,
            OF IH assms(2) st]
        by (auto simp: Let_def elim!: bind_SomeE split: if_splits)
      then show "dev_is b T N st' \<and> \<not> (pt = T \<and> i \<le> k \<and> (sector = 0 \<or> primary = e_offset T k))"
        using IH[OF rest] st1 by (auto simp: run_post_def Suc_le_eq le_less)
    qed
  qed
qed

text \<open>
  C33: The scan of a device with an extended partition does not return.  When the table in the
  first sector has an entry for an extended partition that lies on the device, with the sectors
  its logical partitions would be looked for on the device as well, \<open>read_partition_table\<close> reads
  the first sector again at every level, since it calls \<open>block_read\<close> with sector 0, and recurses
  for ever.  An allocation that fails on the way stops the kernel; in this case, too, the scan does not return.
\<close>

theorem partition_scan_diverges:
  assumes "b < length (all_blocks (reg st))" "bd_data (all_blocks (reg st) ! b) 0 = T"
    "signature_ok T" "k < 4" "e_size T k \<noteq> 0" "is_extended (e_type T k)"
    "e_offset T k < dev_size b st" "e_offset T k + e_offset T k < dev_size b st"
  shows "partition_scan b st = None"
proof (rule ccontr)
  assume "partition_scan b st \<noteq> None"
  then obtain st' where "partition_scan b st = Some st'" by blast
  then obtain t st1 where t: "load_table b 0 (st\<lparr>part_nr := 0\<rparr>) = Some (t, st1)"
    and run: "t \<noteq> None \<Longrightarrow> parse_entries 0 b 0 0 (the t) st1 = Some st'"
    by (auto simp: partition_scan_def read_partition_table_def elim!: bind_SomeE split: if_splits)
  have dis: "dev_is b T (dev_size b st) (st\<lparr>part_nr := 0\<rparr>)" using assms(1,2) by (simp add: dev_is_def dev_size_def)
  have "0 < dev_size b st" using assms(7) by (metis word_gt_0_no word_not_simps(1) word_neq_0_conv)
  then have "t = Some T" using load_table_is(2)[OF t dis] assms(3) by simp
  then show False
    using parse_entries_diverges[OF run, of T "dev_size b st" k] load_table_is(1)[OF t dis] assms(3-8)
    by (simp add: run_post_def loops_at_def)
qed

text \<open>A disk of 1000 sectors whose only entry is an extended partition at sector 100.\<close>

definition demo_table :: "u8 list" where
  "demo_table = replicate 450 0 @ [5, 0, 0, 0, 100, 0, 0, 0, 200, 0, 0, 0] @ replicate 48 0 @ [0x55, 0xaa]"

definition demo_disk :: pscan where
  "demo_disk = \<lparr>reg = \<lparr>all_blocks = [\<lparr>bd_name = ''hda'', bd_type = BLOCK_RAW, bd_size = 1000,
       bd_data = (\<lambda>_. demo_table), bd_read_cnt = 0, bd_write_cnt = 0\<rparr>], block_by_role = (\<lambda>_. None)\<rparr>,
     parts = [], part_nr = 0, mallocs = []\<rparr>"

theorem partition_scan_diverges_witness: "partition_scan 0 demo_disk = None"
proof (rule partition_scan_diverges[of 0 demo_disk demo_table 0])
  have o: "e_offset demo_table 0 = 100" "e_size demo_table 0 = 200" "e_type demo_table 0 = 5"
    by (simp_all add: e_offset_def e_size_def e_type_def demo_table_def get_bytes_def dec32_def nth_append)
  then show "e_size demo_table 0 \<noteq> 0" "is_extended (e_type demo_table 0)" "e_offset demo_table 0 < dev_size 0 demo_disk"
    "e_offset demo_table 0 + e_offset demo_table 0 < dev_size 0 demo_disk"
    by (simp_all add: is_extended_def dev_size_def demo_disk_def)
  show "signature_ok demo_table" by (simp add: signature_ok_def demo_table_def nth_append)
qed (simp_all add: demo_disk_def)

end
