(* ===== verification/KUstar.thy ===== *)
theory KUstar imports KStdio begin

text \<open>
  Headers of tar archives, \<open>lib/ustar.c\<close>, in the memory of \<open>lib/string.c\<close>: a header is the 512
  bytes from its address on, a field the bytes at its offset in \<open>struct ustar_header\<close>.  String
  constants of the code are lists of bytes.  The error messages are a datatype.
\<close>

unbundle bit_operations_syntax

section \<open>Layout\<close>

definition USTAR_HEADER_SIZE :: nat where "USTAR_HEADER_SIZE = 512"

datatype ustar_type = USTAR_REGULAR | USTAR_DIRECTORY | USTAR_EOF

text \<open>The byte of a type in the file format.\<close>

fun type_byte :: "ustar_type \<Rightarrow> u8" where
  "type_byte USTAR_REGULAR = byte CHR ''0''"
| "type_byte USTAR_DIRECTORY = byte CHR ''5''"
| "type_byte USTAR_EOF = - 1"

definition h_name :: nat where "h_name = 0"
definition h_mode :: nat where "h_mode = 100"
definition h_uid :: nat where "h_uid = 108"
definition h_gid :: nat where "h_gid = 116"
definition h_size :: nat where "h_size = 124"
definition h_mtime :: nat where "h_mtime = 136"
definition h_chksum :: nat where "h_chksum = 148"
definition h_typeflag :: nat where "h_typeflag = 156"
definition h_magic :: nat where "h_magic = 257"
definition h_version :: nat where "h_version = 263"
definition h_uname :: nat where "h_uname = 265"
definition h_gname :: nat where "h_gname = 297"
definition h_prefix :: nat where "h_prefix = 345"

lemmas ustar_offsets = h_name_def h_mode_def h_uid_def h_gid_def h_size_def h_mtime_def h_chksum_def
  h_typeflag_def h_magic_def h_version_def h_uname_def h_gname_def h_prefix_def

section \<open>String constants\<close>

text \<open>\<open>memcmp (p, s, length s) = 0\<close> and \<open>strcmp (p, s) = 0\<close> for a constant \<open>s\<close>.\<close>

definition bytes_are :: "addr \<Rightarrow> u8 list \<Rightarrow> memory \<Rightarrow> bool" where
  "bytes_are p bs m \<longleftrightarrow> map (\<lambda>i. m (p + i)) [0..<length bs] = bs"

definition string_is :: "addr \<Rightarrow> string \<Rightarrow> memory \<Rightarrow> bool" where
  "string_is p s m \<longleftrightarrow> bytes_are p (map byte s @ [0]) m"

text \<open>\<open>strlcpy\<close> of a constant that fits, with its terminator, and \<open>snprintf\<close> with a constant format.\<close>

definition store_bytes :: "addr \<Rightarrow> u8 list \<Rightarrow> memory \<Rightarrow> memory" where
  "store_bytes p bs m a = (if p \<le> a \<and> a < p + length bs then bs ! (a - p) else m a)"

definition store_string :: "addr \<Rightarrow> string \<Rightarrow> memory \<Rightarrow> memory" where
  "store_string p s m = store_bytes p (map byte s @ [0]) m"

definition snprintf_const :: "addr \<Rightarrow> u32 \<Rightarrow> string \<Rightarrow> u32 list \<Rightarrow> memory \<Rightarrow> memory option" where
  "snprintf_const buffer buf_size fmt args m = do {
     out \<leftarrow> vprintf_loop 1 (literal fmt) args m;
     let aux = fold vsnprintf_helper out
       \<lparr>out_p = buffer, out_length = 0, max_length = (if buf_size > 0 then buf_size - 1 else 0), out_mem = m\<rparr>;
     Some (if buf_size > 0 then (out_mem aux)(out_p aux := 0) else out_mem aux)
   }"

section \<open>Operations\<close>

fun chksum_loop :: "nat \<Rightarrow> nat \<Rightarrow> addr \<Rightarrow> u32 \<Rightarrow> memory \<Rightarrow> u32" where
  "chksum_loop 0 i h chksum m = chksum"
| "chksum_loop (Suc n) i h chksum m =
     (let in_chksum_field = i \<ge> h_chksum \<and> i < h_chksum + 8
      in chksum_loop n (i + 1) h (chksum + (if in_chksum_field then ucast (byte CHR '' '') else ucast (m (h + i)))) m)"

definition calculate_chksum :: "addr \<Rightarrow> memory \<Rightarrow> u32" where
  "calculate_chksum h m = chksum_loop USTAR_HEADER_SIZE 0 h 0 m"

partial_function (option) strip_loop :: "addr \<Rightarrow> memory \<Rightarrow> addr option" where
  "strip_loop file_name m =
     (if m file_name = byte CHR ''/'' \<or> bytes_are file_name (map byte ''./'') m \<or> bytes_are file_name (map byte ''../'') m
      then do { p \<leftarrow> strchr file_name (byte CHR ''/'') m; strip_loop (p + 1) m }
      else Some file_name)"

text \<open>\<open>None\<close> inside is the constant \<open>"."\<close>.\<close>

definition strip_antisocial_prefixes :: "addr \<Rightarrow> memory \<Rightarrow> addr option option" where
  "strip_antisocial_prefixes file_name m = do {
     file_name \<leftarrow> strip_loop file_name m;
     Some (if m file_name = 0 \<or> string_is file_name ''..'' m then None else Some file_name)
   }"

definition ustar_make_header :: "addr \<Rightarrow> ustar_type \<Rightarrow> u32 \<Rightarrow> addr \<Rightarrow> memory \<Rightarrow> (bool \<times> memory) option" where
  "ustar_make_header file_name type sz h m = do {
     ASSERT (type = USTAR_REGULAR \<or> type = USTAR_DIRECTORY);
     stripped \<leftarrow> strip_antisocial_prefixes file_name m;
     len \<leftarrow> (case stripped of None \<Rightarrow> Some 1 | Some p \<Rightarrow> strlen p m);
     if len > 99 then Some (False, m)
     else do {
       (_, m) \<leftarrow> memset h 0 512 m;
       m \<leftarrow> (case stripped of
               None \<Rightarrow> Some (store_string (h + h_name) ''.'' m)
             | Some p \<Rightarrow> do { (_, m) \<leftarrow> strlcpy (h + h_name) p 100 m; Some m });
       m \<leftarrow> snprintf_const (h + h_mode) 8 ''%07o'' [if type = USTAR_REGULAR then 420 else 493] m;
       let m = store_string (h + h_uid) ''0000000'' m;
       let m = store_string (h + h_gid) ''0000000'' m;
       m \<leftarrow> snprintf_const (h + h_size) 12 ''%011o'' [sz] m;
       m \<leftarrow> snprintf_const (h + h_mtime) 12 ''%011o'' [1136102400] m;
       let m = m(h + h_typeflag := type_byte type);
       let m = store_string (h + h_magic) ''ustar'' m;
       let m = m(h + h_version := byte CHR ''0'', h + h_version + 1 := byte CHR ''0'');
       let m = store_string (h + h_gname) ''root'' m;
       let m = store_string (h + h_uname) ''root'' m;
       m \<leftarrow> snprintf_const (h + h_chksum) 8 ''%07o'' [calculate_chksum h m] m;
       Some (True, m)
     }
   }"

text \<open>The value, or \<open>None\<close> when the function returns false.\<close>

fun parse_octal_loop :: "nat \<Rightarrow> nat \<Rightarrow> addr \<Rightarrow> u32 \<Rightarrow> memory \<Rightarrow> u32 option" where
  "parse_octal_loop 0 ofs s val m = None"
| "parse_octal_loop (Suc n) ofs s val m =
     (let c = m (s + ofs) in
      if byte CHR ''0'' \<le>s c \<and> c \<le>s byte CHR ''7'' then
        if val > 0xffffffff div 8 then None
        else parse_octal_loop n (ofs + 1) s (scast c - 48 + val * 8) m
      else if c = byte CHR '' '' \<or> c = 0 then (if ofs > 0 then Some val else None)
      else None)"

definition parse_octal_field :: "addr \<Rightarrow> nat \<Rightarrow> memory \<Rightarrow> u32 option" where
  "parse_octal_field s sz m = parse_octal_loop sz 0 s 0 m"

definition is_all_zeros :: "addr \<Rightarrow> nat \<Rightarrow> memory \<Rightarrow> bool" where
  "is_all_zeros block cnt m = list_all (\<lambda>i. m (block + i) = 0) [0..<cnt]"

datatype ustar_error = NotUstar | BadVersion | CorruptChksum | ChksumMismatch | NameTooLong
  | UnimplementedType | CorruptSize | FileTooLarge

text \<open>A file name is an address in the header, the constant \<open>"."\<close>, or the null pointer.\<close>

datatype ustar_name = NameAt addr | NameDot | NameNull

definition ustar_parse_header ::
  "addr \<Rightarrow> memory \<Rightarrow> (ustar_error + ustar_name \<times> ustar_type \<times> u32) option" where
  "ustar_parse_header h m = (
     if is_all_zeros h USTAR_HEADER_SIZE m then Some (Inr (NameNull, USTAR_EOF, 0))
     else if \<not> string_is (h + h_magic) ''ustar'' m then Some (Inl NotUstar)
     else if m (h + h_version) \<noteq> byte CHR ''0'' \<or> m (h + h_version + 1) \<noteq> byte CHR ''0'' then Some (Inl BadVersion)
     else case parse_octal_field (h + h_chksum) 8 m of
       None \<Rightarrow> Some (Inl CorruptChksum)
     | Some chksum \<Rightarrow>
       if chksum \<noteq> calculate_chksum h m then Some (Inl ChksumMismatch)
       else if m (h + h_name + 99) \<noteq> 0 \<or> m (h + h_prefix) \<noteq> 0 then Some (Inl NameTooLong)
       else if m (h + h_typeflag) \<noteq> type_byte USTAR_REGULAR \<and> m (h + h_typeflag) \<noteq> type_byte USTAR_DIRECTORY
       then Some (Inl UnimplementedType)
       else do {
         let regular = (m (h + h_typeflag) = type_byte USTAR_REGULAR);
         let size_ul = (if regular then parse_octal_field (h + h_size) 12 m else Some 0);
         case size_ul of
           None \<Rightarrow> Some (Inl CorruptSize)
         | Some sz \<Rightarrow>
             if sz > 0x7fffffff then Some (Inl FileTooLarge)
             else do {
               stripped \<leftarrow> strip_antisocial_prefixes (h + h_name) m;
               Some (Inr (case stripped of None \<Rightarrow> NameDot | Some p \<Rightarrow> NameAt p,
                 if regular then USTAR_REGULAR else USTAR_DIRECTORY, sz))
             }
       })"

end
