(* ===== verification/KRandom.thy ===== *)
theory KRandom imports KBlock "HOL-Library.Multiset" begin

text \<open>
  The pseudo-random number generator, \<open>lib/random.c\<close>: the state of RC4 with the array \<open>s\<close> as a
  list of 256 bytes.
\<close>

record prng =
  rs :: "u8 list"
  s_i :: u8
  s_j :: u8
  inited :: bool

definition swap_byte :: "u8 \<Rightarrow> u8 \<Rightarrow> u8 list \<Rightarrow> u8 list" where
  "swap_byte a b s = s[unat a := s ! unat b, unat b := s ! unat a]"

text \<open>The second loop of \<open>random_init\<close>, with \<open>n\<close> rounds left from \<open>i\<close> on.\<close>

fun mix_seed :: "nat \<Rightarrow> nat \<Rightarrow> u8 \<Rightarrow> u8 list \<Rightarrow> u8 list \<Rightarrow> u8 list" where
  "mix_seed 0 i j seedp s = s"
| "mix_seed (Suc n) i j seedp s =
     (let j = j + (s ! i + seedp ! (i mod 4)) in mix_seed n (i + 1) j seedp (swap_byte (of_nat i) j s))"

definition random_init :: "u32 \<Rightarrow> prng \<Rightarrow> prng" where
  "random_init seed st = st\<lparr>rs := mix_seed 256 0 0 (enc32 seed) (map of_nat [0..<256]), s_i := 0, s_j := 0, inited := True\<rparr>"

fun random_bytes_loop :: "nat \<Rightarrow> prng \<Rightarrow> u8 list \<times> prng" where
  "random_bytes_loop 0 st = ([], st)"
| "random_bytes_loop (Suc n) st =
     (let st = st\<lparr>s_i := s_i st + 1\<rparr>;
          st = st\<lparr>s_j := s_j st + rs st ! unat (s_i st)\<rparr>;
          st = st\<lparr>rs := swap_byte (s_i st) (s_j st) (rs st)\<rparr>;
          s_k = rs st ! unat (s_i st) + rs st ! unat (s_j st);
          b = rs st ! unat s_k;
          (bs, st) = random_bytes_loop n st
      in (b # bs, st))"

definition random_bytes :: "nat \<Rightarrow> prng \<Rightarrow> u8 list \<times> prng" where
  "random_bytes sz st = random_bytes_loop sz (if \<not> inited st then random_init 0 st else st)"

definition random_ulong :: "prng \<Rightarrow> u32 \<times> prng" where
  "random_ulong st = (let (bs, st) = random_bytes 4 st in (dec32 bs, st))"

section \<open>The array stays a permutation\<close>

definition all_bytes :: "u8 list" where "all_bytes = map of_nat [0..<256]"

definition prng_ok :: "prng \<Rightarrow> bool" where
  "prng_ok st \<longleftrightarrow> inited st \<and> mset (rs st) = mset all_bytes"

lemma length_perm: "mset s = mset all_bytes \<Longrightarrow> length s = 256"
  by (drule mset_eq_length) (simp add: all_bytes_def)

lemma unat_u8_less: "unat (x :: u8) < 256"
  using unsigned_less[of x] by simp

lemma swap_byte_perm: "length s = 256 \<Longrightarrow> mset (swap_byte a b s) = mset s"
  unfolding swap_byte_def using unat_u8_less[of a] unat_u8_less[of b] by (intro mset_swap) simp_all

lemma length_swap_byte [simp]: "length (swap_byte a b s) = length s"
  by (simp add: swap_byte_def)

lemma mix_seed_perm: "length s = 256 \<Longrightarrow> mset (mix_seed n i j seedp s) = mset s"
  by (induction n i j seedp s rule: mix_seed.induct) (simp_all add: Let_def swap_byte_perm)

lemma random_init_ok: "prng_ok (random_init seed st)"
  by (simp add: random_init_def prng_ok_def mix_seed_perm all_bytes_def)

lemma random_bytes_loop_ok: "prng_ok st \<Longrightarrow> prng_ok (snd (random_bytes_loop n st)) \<and> length (fst (random_bytes_loop n st)) = n"
proof (induction n arbitrary: st)
  case (Suc n)
  let ?st1 = "st\<lparr>s_i := s_i st + 1\<rparr>"
  let ?st2 = "?st1\<lparr>s_j := s_j st + rs st ! unat (s_i st + 1)\<rparr>"
  let ?st3 = "?st2\<lparr>rs := swap_byte (s_i ?st2) (s_j ?st2) (rs st)\<rparr>"
  have "prng_ok ?st3" using Suc.prems by (simp add: prng_ok_def swap_byte_perm length_perm)
  then have "prng_ok (snd (random_bytes_loop n ?st3)) \<and> length (fst (random_bytes_loop n ?st3)) = n" by (rule Suc.IH)
  then show ?case by (simp add: Let_def case_prod_beta)
qed simp

lemma random_bytes_permutation:
  assumes "inited st \<longrightarrow> mset (rs st) = mset all_bytes"
  shows "prng_ok (snd (random_bytes n st)) \<and> length (fst (random_bytes n st)) = n"
proof -
  let ?st = "if \<not> inited st then random_init 0 st else st"
  have "prng_ok ?st" using assms random_init_ok by (auto simp: prng_ok_def)
  then show ?thesis using random_bytes_loop_ok[of ?st n] by (simp add: random_bytes_def)
qed

section \<open>RC4\<close>

text \<open>
  The textbook cipher over natural numbers below 256: the array is a function, a round of the key
  schedule also moves the index \<open>j\<close>, and a round of the generator goes from \<open>(s, i, j)\<close> to the next.
\<close>

definition rc4_swap :: "nat \<Rightarrow> nat \<Rightarrow> (nat \<Rightarrow> nat) \<Rightarrow> nat \<Rightarrow> nat" where
  "rc4_swap i j s = (\<lambda>x. if x = i then s j else if x = j then s i else s x)"

definition ksa_round :: "nat list \<Rightarrow> (nat \<Rightarrow> nat) \<times> nat \<Rightarrow> nat \<Rightarrow> (nat \<Rightarrow> nat) \<times> nat" where
  "ksa_round key = (\<lambda>(s, j) i. let j' = (j + s i + key ! (i mod length key)) mod 256 in (rc4_swap i j' s, j'))"

definition rc4_schedule :: "nat list \<Rightarrow> nat \<Rightarrow> nat" where
  "rc4_schedule key = fst (foldl (ksa_round key) (\<lambda>x. x, 0) [0..<256])"

definition rc4_round :: "(nat \<Rightarrow> nat) \<times> nat \<times> nat \<Rightarrow> (nat \<Rightarrow> nat) \<times> nat \<times> nat" where
  "rc4_round = (\<lambda>(s, i, j). let i' = (i + 1) mod 256; j' = (j + s i') mod 256 in (rc4_swap i' j' s, i', j'))"

definition rc4_out :: "(nat \<Rightarrow> nat) \<times> nat \<times> nat \<Rightarrow> nat" where
  "rc4_out = (\<lambda>(s, i, j). s ((s i + s j) mod 256))"

text \<open>Byte \<open>k\<close> of the key stream, from 0.\<close>

definition rc4_byte :: "nat list \<Rightarrow> nat \<Rightarrow> nat" where
  "rc4_byte key k = rc4_out ((rc4_round ^^ Suc k) (rc4_schedule key, 0, 0))"

text \<open>The array of the program stands for a function below 256.\<close>

definition same_array :: "u8 list \<Rightarrow> (nat \<Rightarrow> nat) \<Rightarrow> bool" where
  "same_array s f \<longleftrightarrow> length s = 256 \<and> (\<forall>x < 256. unat (s ! x) = f x)"

lemma unat_add_u8: "unat (a + b :: u8) = (unat a + unat b) mod 256"
  by (simp add: unat_word_ariths)

lemma same_array_nth: "same_array s f \<Longrightarrow> unat (s ! unat (a :: u8)) = f (unat a)"
  using unat_u8_less[of a] by (simp add: same_array_def)

lemma same_array_swap:
  assumes "same_array s f"
  shows "same_array (swap_byte a b s) (rc4_swap (unat a) (unat b) f)"
  using assms unat_u8_less[of a] unat_u8_less[of b]
  by (auto simp: same_array_def swap_byte_def rc4_swap_def nth_list_update)

lemma same_array_out:
  assumes "same_array s f"
  shows "unat (s ! unat (s ! unat (a :: u8) + s ! unat (b :: u8))) = rc4_out (f, unat a, unat b)"
proof -
  have "unat (s ! unat (s ! unat a + s ! unat b)) = f (unat (s ! unat a + s ! unat b))" by (rule same_array_nth[OF assms])
  moreover have "unat (s ! unat a + s ! unat b) = (f (unat a) + f (unat b)) mod 256"
    by (simp only: unat_add_u8 same_array_nth[OF assms])
  ultimately show ?thesis by (simp only: rc4_out_def case_prod_conv)
qed

lemma mix_seed_schedule:
  assumes "same_array s f" "i + n \<le> 256" "length key = 4"
  shows "same_array (mix_seed n i j key s) (fst (foldl (ksa_round (map unat key)) (f, unat j) [i..<i + n]))"
  using assms(1,2)
proof (induction n arbitrary: i j s f)
  case (Suc n)
  let ?j = "j + (s ! i + key ! (i mod 4))"
  have i: "i < 256" "unat (of_nat i :: u8) = i" using Suc.prems(2) by (simp_all add: unat_of_nat)
  have "unat (s ! i) = f i" using Suc.prems(1) i by (simp add: same_array_def)
  then have j: "unat ?j = (unat j + f i + map unat key ! (i mod length (map unat key))) mod 256"
    using assms(3) by (simp add: unat_add_u8 mod_simps add.assoc)
  have "same_array (swap_byte (of_nat i) ?j s) (rc4_swap i (unat ?j) f)"
    using same_array_swap[OF Suc.prems(1), of "of_nat i" ?j] i(2) by simp
  from Suc.IH[OF this, of "i + 1" ?j]
  have "same_array (mix_seed n (i + 1) ?j key (swap_byte (of_nat i) ?j s))
      (fst (foldl (ksa_round (map unat key)) (rc4_swap i (unat ?j) f, unat ?j) [i + 1..<i + 1 + n]))"
    using Suc.prems(2) by simp
  moreover have "ksa_round (map unat key) (f, unat j) i = (rc4_swap i (unat ?j) f, unat ?j)"
    unfolding j by (simp add: ksa_round_def Let_def)
  moreover have "[i..<i + Suc n] = i # [i + 1..<i + 1 + n]" by (simp add: upt_conv_Cons)
  ultimately show ?case by (simp only: mix_seed.simps Let_def foldl_Cons)
qed simp

definition same_state :: "prng \<Rightarrow> (nat \<Rightarrow> nat) \<times> nat \<times> nat \<Rightarrow> bool" where
  "same_state st q \<longleftrightarrow> inited st \<and> (case q of (f, i, j) \<Rightarrow> same_array (rs st) f \<and> unat (s_i st) = i \<and> unat (s_j st) = j)"

lemma random_init_same: "same_state (random_init seed st) (rc4_schedule (map unat (enc32 seed)), 0, 0)"
proof -
  have "same_array (map of_nat [0..<256]) (\<lambda>x. x)" by (simp add: same_array_def unat_of_nat)
  from mix_seed_schedule[OF this, of 0 256 "enc32 seed" 0]
  show ?thesis by (simp add: same_state_def random_init_def rc4_schedule_def enc32_def)
qed

lemma random_bytes_loop_rc4:
  assumes "same_state st q"
  shows "map unat (fst (random_bytes_loop n st)) = map (\<lambda>k. rc4_out ((rc4_round ^^ Suc k) q)) [0..<n] \<and>
    same_state (snd (random_bytes_loop n st)) ((rc4_round ^^ n) q)"
  using assms
proof (induction n arbitrary: st q)
  case (Suc n)
  obtain f i j where q: "q = (f, i, j)" by (cases q)
  have st: "inited st" "same_array (rs st) f" "unat (s_i st) = i" "unat (s_j st) = j"
    using Suc.prems q by (simp_all add: same_state_def)
  let ?i = "s_i st + 1" and ?j = "s_j st + rs st ! unat (s_i st + 1)"
  let ?s = "swap_byte ?i ?j (rs st)"
  let ?st = "st\<lparr>s_i := ?i, s_j := ?j, rs := ?s\<rparr>"
  have i: "unat ?i = (i + 1) mod 256" using st(3) by (simp add: unat_add_u8)
  have j: "unat ?j = (j + f (unat ?i)) mod 256" using st(4) same_array_nth[OF st(2), of ?i] by (simp add: unat_add_u8)
  have r: "rc4_round q = (rc4_swap (unat ?i) (unat ?j) f, unat ?i, unat ?j)"
    unfolding j unfolding i q by (simp add: rc4_round_def Let_def)
  have arr: "same_array ?s (rc4_swap (unat ?i) (unat ?j) f)" by (rule same_array_swap[OF st(2)])
  then have st': "same_state ?st (rc4_round q)" using st(1) by (simp add: same_state_def r)
  have out: "unat (?s ! unat (?s ! unat ?i + ?s ! unat ?j)) = rc4_out (rc4_round q)"
    unfolding r by (rule same_array_out[OF arr])
  have l: "fst (random_bytes_loop (Suc n) st) = ?s ! unat (?s ! unat ?i + ?s ! unat ?j) # fst (random_bytes_loop n ?st)"
    "snd (random_bytes_loop (Suc n) st) = snd (random_bytes_loop n ?st)"
    by (simp_all add: Let_def case_prod_beta)
  have "(rc4_round ^^ Suc k) (rc4_round q) = (rc4_round ^^ Suc (Suc k)) q" for k
    by (simp add: funpow_swap1)
  moreover have "[0..<Suc n] = 0 # map Suc [0..<n]" by (simp add: upt_conv_Cons map_Suc_upt)
  ultimately show ?case using Suc.IH[OF st'] by (simp add: l out comp_def funpow_swap1 del: random_bytes_loop.simps upt_Suc)
qed simp

lemma random_bytes_rc4:
  assumes "same_state st (rc4_schedule key, 0, 0)"
  shows "fst (random_bytes n (snd (random_bytes m st))) = map (\<lambda>k. of_nat (rc4_byte key k)) [m..<m + n]"
proof -
  let ?q = "(rc4_round ^^ m) (rc4_schedule key, 0, 0)" and ?st = "snd (random_bytes_loop m st)"
  have s: "same_state ?st ?q" using random_bytes_loop_rc4[OF assms] by simp
  have "random_bytes m st = random_bytes_loop m st" "random_bytes n ?st = random_bytes_loop n ?st"
    using assms s by (simp_all add: random_bytes_def same_state_def)
  moreover have "map unat (fst (random_bytes_loop n ?st)) = map (\<lambda>k. rc4_out ((rc4_round ^^ Suc k) ?q)) [0..<n]"
    using random_bytes_loop_rc4[OF s] by simp
  moreover have "rc4_out ((rc4_round ^^ Suc k) ?q) = rc4_byte key (m + k)" for k
    by (simp add: rc4_byte_def funpow_add add.commute[of m])
  moreover have "fst (random_bytes_loop n ?st) = map of_nat (map unat (fst (random_bytes_loop n ?st)))"
    by (simp add: comp_def)
  moreover have "map (\<lambda>k. h (m + k)) [0..<n] = map h [m..<m + n]" for h :: "nat \<Rightarrow> u8"
    by (intro nth_equalityI) simp_all
  ultimately show ?thesis by (simp add: comp_def)
qed

text \<open>
  C35: The generator is RC4.  After \<open>random_init\<close> with any seed and after any number of bytes
  drawn, the next bytes that \<open>random_bytes\<close> returns are those of the key stream of RC4, at the place reached, with the
  bytes of the seed, lowest first, as the key; \<open>random_ulong\<close> returns four of them as a word.
  A generator that nobody has started has the key stream of seed 0, whatever is in its state.
\<close>

theorem random_bytes_is_rc4:
  "fst (random_bytes n (snd (random_bytes m (random_init seed st)))) =
     map (\<lambda>k. of_nat (rc4_byte (map unat (enc32 seed)) k)) [m..<m + n] \<and>
   fst (random_ulong (snd (random_bytes m (random_init seed st)))) =
     dec32 (map (\<lambda>k. of_nat (rc4_byte (map unat (enc32 seed)) k)) [m..<m + 4]) \<and>
   fst (random_bytes n (snd (random_bytes m (st\<lparr>inited := False\<rparr>)))) =
     map (\<lambda>k. of_nat (rc4_byte [0, 0, 0, 0] k)) [m..<m + n]"
proof (intro conjI)
  note r = random_bytes_rc4[OF random_init_same]
  show "fst (random_bytes n (snd (random_bytes m (random_init seed st)))) =
      map (\<lambda>k. of_nat (rc4_byte (map unat (enc32 seed)) k)) [m..<m + n]" by (rule r)
  show "fst (random_ulong (snd (random_bytes m (random_init seed st)))) =
      dec32 (map (\<lambda>k. of_nat (rc4_byte (map unat (enc32 seed)) k)) [m..<m + 4])"
    unfolding r[of 4 m seed st, symmetric] by (simp add: random_ulong_def case_prod_beta)
  have "random_bytes m (st\<lparr>inited := False\<rparr>) = random_bytes m (random_init 0 (st\<lparr>inited := False\<rparr>))"
    by (simp add: random_bytes_def random_init_def)
  moreover have "map unat (enc32 0) = [0, 0, 0, 0]" by code_simp
  ultimately show "fst (random_bytes n (snd (random_bytes m (st\<lparr>inited := False\<rparr>)))) =
      map (\<lambda>k. of_nat (rc4_byte [0, 0, 0, 0] k)) [m..<m + n]"
    using r[of n m 0 "st\<lparr>inited := False\<rparr>"] by (simp del: map_eq_conv)
qed

end
