(* ===== verification/KRtc.thy ===== *)
theory KRtc imports KSerial "HOL-Library.Signed_Division" begin

unbundle bit_operations_syntax

text \<open>The real time clock, \<open>devices/rtc.c\<close>.  Times are C \<open>int\<close>s, whose overflow is
  \<open>None\<close>; \<open>time_t\<close> is 32 bits wide and unsigned, and the sums that follow wrap around.\<close>

definition CMOS_REG_SET :: u16 where "CMOS_REG_SET = 0x70"
definition CMOS_REG_IO :: u16 where "CMOS_REG_IO = 0x71"
definition RTC_REG_SEC :: u8 where "RTC_REG_SEC = 0"
definition RTC_REG_MIN :: u8 where "RTC_REG_MIN = 2"
definition RTC_REG_HOUR :: u8 where "RTC_REG_HOUR = 4"
definition RTC_REG_MDAY :: u8 where "RTC_REG_MDAY = 7"
definition RTC_REG_MON :: u8 where "RTC_REG_MON = 8"
definition RTC_REG_YEAR :: u8 where "RTC_REG_YEAR = 9"

definition bcd_to_bin :: "u8 \<Rightarrow> int" where
  "bcd_to_bin x = uint (x AND 0x0f) + uint (drop_bit 4 x) * 10"

definition cmos_read :: "u8 \<Rightarrow> sched \<Rightarrow> (int \<times> sched) option" where
  "cmos_read index st = do {
     (x, st) \<leftarrow> sched_inb CMOS_REG_IO (upd_io (outb CMOS_REG_SET index) st);
     Some (bcd_to_bin x, st)
   }"

text \<open>The components: seconds, minutes, hours, day of the month, month and year.\<close>

partial_function (option) read_clock ::
  "sched \<Rightarrow> ((int \<times> int \<times> int \<times> int \<times> int \<times> int) \<times> sched) option" where
  "read_clock st = do {
     (sec, st) \<leftarrow> cmos_read RTC_REG_SEC st;
     (min, st) \<leftarrow> cmos_read RTC_REG_MIN st;
     (hour, st) \<leftarrow> cmos_read RTC_REG_HOUR st;
     (mday, st) \<leftarrow> cmos_read RTC_REG_MDAY st;
     (mon, st) \<leftarrow> cmos_read RTC_REG_MON st;
     (year, st) \<leftarrow> cmos_read RTC_REG_YEAR st;
     (sec2, st) \<leftarrow> cmos_read RTC_REG_SEC st;
     if sec = sec2 then Some ((sec, min, hour, mday, mon, year), st) else read_clock st
   }"

definition days_per_month :: "int list" where
  "days_per_month = [31, 28, 31, 30, 31, 30, 31, 31, 30, 31, 30, 31]"

text \<open>The loop over the months, from month \<open>i\<close> on, with \<open>n\<close> rounds left.\<close>

fun month_loop :: "nat \<Rightarrow> nat \<Rightarrow> int \<Rightarrow> int option" where
  "month_loop 0 i time = Some time"
| "month_loop (Suc n) i time = do {
     ASSERT (i \<le> length days_per_month);
     month_loop n (i + 1) (time + days_per_month ! (i - 1) * 24 * 60 * 60)
   }"

definition time_of :: "int \<times> int \<times> int \<times> int \<times> int \<times> int \<Rightarrow> u32 option" where
  "time_of = (\<lambda>(sec, min, hour, mday, mon, year). do {
     let year = (if year < 70 then year + 100 else year);
     let year = year - 70;
     let time = (year * 365 + (year - 1) sdiv 4) * 24 * 60 * 60;
     ASSERT (- (2 ^ 31) \<le> time \<and> time < 2 ^ 31);
     time \<leftarrow> month_loop (nat mon) 1 time;
     let time = (if mon > 2 \<and> year smod 4 = 0 then time + 24 * 60 * 60 else time);
     let time = time + (mday - 1) * 24 * 60 * 60;
     let time = time + hour * 60 * 60;
     let time = time + min * 60;
     Some (word_of_int (time + sec))
   })"

definition rtc_get_time :: "sched \<Rightarrow> (u32 \<times> sched) option" where
  "rtc_get_time st = do {
     (c, st) \<leftarrow> read_clock st;
     time \<leftarrow> time_of c;
     Some (time, st)
   }"

text \<open>The days of the current month are counted: the clock of New Year 1970 is 31 days late.\<close>

lemma rtc_counts_current_month: "time_of (0, 0, 0, 1, 1, 70) = Some (31 * 24 * 60 * 60)"
  by (simp add: time_of_def days_per_month_def signed_divide_int_def numeral_eq_Suc Let_def)

end
