(* ===== verification/KIntr.thy ===== *)
theory KIntr imports KSyscall KRtc begin

unbundle bit_operations_syntax

text \<open>
  Interrupts: the rest of \<open>threads/interrupt.c\<close>, the segment descriptors of \<open>userprog/gdt.c\<close>, and
  the exceptions of \<open>userprog/exception.c\<close>.  \<open>intr_handler\<close> runs the handler that is registered for
  a vector.  Descriptors are the 64-bit values of the tables; loading a table into the processor
  is left out, and so are the messages about unexpected interrupts.
\<close>

section \<open>Segments\<close>

definition SEL_KCSEG :: u16 where "SEL_KCSEG = 0x08"
definition SEL_UCSEG :: u16 where "SEL_UCSEG = 0x1B"

text \<open>\<open>class\<close> is \<open>CLS_CODE_DATA\<close> if it holds, \<open>granularity\<close> is \<open>GRAN_PAGE\<close> if it holds.\<close>

definition make_seg_desc :: "u32 \<Rightarrow> u32 \<Rightarrow> bool \<Rightarrow> u32 \<Rightarrow> u32 \<Rightarrow> bool \<Rightarrow> u64 option" where
  "make_seg_desc bs limit code_data type dpl granularity = do {
     ASSERT (limit \<le> 0xfffff);
     ASSERT (type \<le> 15);
     ASSERT (dpl \<le> 3);
     let e0 = (limit AND 0xffff) OR push_bit 16 bs;
     let e1 = (drop_bit 16 bs AND 0xff) OR push_bit 8 type OR push_bit 12 (of_bool code_data) OR push_bit 13 dpl OR
       push_bit 15 1 OR (limit AND 0xf0000) OR push_bit 22 1 OR push_bit 23 (of_bool granularity) OR
       (bs AND 0xff000000);
     Some (ucast e0 OR push_bit 32 (ucast e1))
   }"

definition make_code_desc :: "u32 \<Rightarrow> u64 option" where
  "make_code_desc dpl = make_seg_desc 0 0xfffff True 10 dpl True"

definition make_data_desc :: "u32 \<Rightarrow> u64 option" where
  "make_data_desc dpl = make_seg_desc 0 0xfffff True 2 dpl True"

definition make_tss_desc :: "u32 \<Rightarrow> u64 option" where
  "make_tss_desc laddr = make_seg_desc laddr 0x67 False 9 0 False"

definition make_gdtr_operand :: "u16 \<Rightarrow> u32 \<Rightarrow> u64" where
  "make_gdtr_operand limit bs = ucast limit OR push_bit 16 (ucast bs)"

text \<open>The table; \<open>tss\<close> is the address of the task-state segment.\<close>

definition gdt_init :: "u32 \<Rightarrow> u64 list option" where
  "gdt_init tss = do {
     kc \<leftarrow> make_code_desc 0;
     kd \<leftarrow> make_data_desc 0;
     uc \<leftarrow> make_code_desc 3;
     ud \<leftarrow> make_data_desc 3;
     t \<leftarrow> make_tss_desc tss;
     Some [0, kc, kd, uc, ud, t]
   }"

section \<open>Interrupt frames\<close>

record intr_frame =
  f_edi :: u32
  f_esi :: u32
  f_ebp :: u32
  f_ebx :: u32
  f_edx :: u32
  f_ecx :: u32
  f_eax :: u32
  f_es :: u16
  f_ds :: u16
  vec_no :: u32
  error_code :: u32
  f_eip :: u32
  f_cs :: u16
  f_esp :: u32
  f_ss :: u16

definition intr_names :: "(nat \<times> string) list" where
  "intr_names =
    [(0, ''#DE Divide Error''), (1, ''#DB Debug Exception''), (2, ''NMI Interrupt''),
     (3, ''#BP Breakpoint Exception''), (4, ''#OF Overflow Exception''),
     (5, ''#BR BOUND Range Exceeded Exception''), (6, ''#UD Invalid Opcode Exception''),
     (7, ''#NM Device Not Available Exception''), (8, ''#DF Double Fault Exception''),
     (9, ''Coprocessor Segment Overrun''), (10, ''#TS Invalid TSS Exception''),
     (11, ''#NP Segment Not Present''), (12, ''#SS Stack Fault Exception''),
     (13, ''#GP General Protection Exception''), (14, ''#PF Page-Fault Exception''),
     (16, ''#MF x87 FPU Floating-Point Error''), (17, ''#AC Alignment Check Exception''),
     (18, ''#MC Machine-Check Exception''), (19, ''#XF SIMD Floating-Point Exception'')]"

definition intr_name :: "u32 \<Rightarrow> string" where
  "intr_name vec = (case map_of intr_names (unat vec) of Some s \<Rightarrow> s | None \<Rightarrow> ''unknown'')"

text \<open>\<open>cr2\<close> is the address of the last page fault, a register of the processor.\<close>

definition intr_dump_frame :: "u32 \<Rightarrow> intr_frame \<Rightarrow> u8 list list option" where
  "intr_dump_frame cr2 f = do {
     a \<leftarrow> vprintf_loop 1 (literal (''Interrupt %#04x (%s) at eip=%p'' @ [char_of (10 :: nat)]))
       [vec_no f, 1, f_eip f] (literal (intr_name (vec_no f)));
     b \<leftarrow> printf_out ('' cr2=%08x error=%08x'' @ [char_of (10 :: nat)]) [cr2, error_code f];
     c \<leftarrow> printf_out ('' eax=%08x ebx=%08x ecx=%08x edx=%08x'' @ [char_of (10 :: nat)]) [f_eax f, f_ebx f, f_ecx f, f_edx f];
     d \<leftarrow> printf_out ('' esi=%08x edi=%08x esp=%08x ebp=%08x'' @ [char_of (10 :: nat)]) [f_esi f, f_edi f, f_esp f, f_ebp f];
     e \<leftarrow> printf_out ('' cs=%04hx ds=%04hx es=%04hx ss=%04hx'' @ [char_of (10 :: nat)])
       [ucast (f_cs f), ucast (f_ds f), ucast (f_es f), ucast (f_ss f)];
     Some [a, b, c, d, e]
   }"

section \<open>Exceptions\<close>

text \<open>\<open>kill\<close> after the output \<open>before\<close> of its caller.\<close>

definition kill :: "u8 list list \<Rightarrow> u32 \<Rightarrow> intr_frame \<Rightarrow> sched \<Rightarrow> sched option" where
  "kill before cr2 f st = do {
     t \<leftarrow> current st;
     if f_cs f = SEL_UCSEG then do {
       msg \<leftarrow> vprintf_loop 1 (literal (''%s: dying due to interrupt %#04x (%s).'' @ [char_of (10 :: nat)]))
         [1, vec_no f, 1 + of_nat (length (t_name t)) + 1]
         (string_arg (t_name t @ 0 # map byte (intr_name (vec_no f))));
       dump \<leftarrow> intr_dump_frame cr2 f;
       st \<leftarrow> call (ExitCall (- 1)) st;
       call (ConsoleSeq (before @ msg # dump)) st
     }
     else if f_cs f = SEL_KCSEG then None
     else do {
       msg \<leftarrow> vprintf_loop 1 (literal (''Interrupt %#04x (%s) in unknown segment %04x'' @ [char_of (10 :: nat)]))
         [vec_no f, 1, ucast (f_cs f)] (literal (intr_name (vec_no f)));
       st \<leftarrow> call ThreadExit st;
       call (ConsoleSeq (before @ [msg])) st
     }
   }"

definition PF_P :: u32 where "PF_P = 0x1"
definition PF_W_error :: u32 where "PF_W_error = 0x2"
definition PF_U :: u32 where "PF_U = 0x4"

definition page_fault :: "u32 \<Rightarrow> intr_frame \<Rightarrow> sched \<Rightarrow> sched option" where
  "page_fault cr2 f st = do {
     (l, st) \<leftarrow> intr_enable st;
     let st = upd_io (\<lambda>d. d\<lparr>page_fault_cnt := page_fault_cnt d + 1\<rparr>) st;
     let not_present = (error_code f AND PF_P = 0);
     let write = (error_code f AND PF_W_error \<noteq> 0);
     let user = (error_code f AND PF_U \<noteq> 0);
     let s1 = map byte (if not_present then ''not present'' else ''rights violation'') @ [0];
     let s2 = map byte (if write then ''writing'' else ''reading'') @ [0];
     let s3 = map byte (if user then ''user'' else ''kernel'') @ [0];
     msg \<leftarrow> vprintf_loop 1 (literal (''Page fault at %p: %s error %s page in %s context.'' @ [char_of (10 :: nat)]))
       [cr2, 1, 1 + of_nat (length s1), 1 + of_nat (length (s1 @ s2))] (string_arg (s1 @ s2 @ s3));
     kill [msg] cr2 f st
   }"

definition exception_init :: "(u8 \<Rightarrow> u32) \<Rightarrow> sched \<Rightarrow> sched option" where
  "exception_init stub st = do {
     st \<leftarrow> intr_register_int stub 3 3 True Kill st;
     st \<leftarrow> intr_register_int stub 4 3 True Kill st;
     st \<leftarrow> intr_register_int stub 5 3 True Kill st;
     st \<leftarrow> intr_register_int stub 0 0 True Kill st;
     st \<leftarrow> intr_register_int stub 1 0 True Kill st;
     st \<leftarrow> intr_register_int stub 6 0 True Kill st;
     st \<leftarrow> intr_register_int stub 7 0 True Kill st;
     st \<leftarrow> intr_register_int stub 11 0 True Kill st;
     st \<leftarrow> intr_register_int stub 12 0 True Kill st;
     st \<leftarrow> intr_register_int stub 13 0 True Kill st;
     st \<leftarrow> intr_register_int stub 16 0 True Kill st;
     st \<leftarrow> intr_register_int stub 19 0 True Kill st;
     intr_register_int stub 14 0 False PageFault st
   }"

definition syscall_init :: "(u8 \<Rightarrow> u32) \<Rightarrow> sched \<Rightarrow> sched option" where
  "syscall_init stub st = intr_register_int stub 0x30 3 True SyscallHandler st"

definition timer_init :: "(u8 \<Rightarrow> u32) \<Rightarrow> sched \<Rightarrow> sched option" where
  "timer_init stub st = do {
     st \<leftarrow> pit_configure_channel 0 2 TIMER_FREQ st;
     intr_register_ext stub 0x20 TimerInterrupt st
   }"

section \<open>The interrupt controller\<close>

definition pic_init :: "sched \<Rightarrow> sched" where
  "pic_init st = fold (\<lambda>(port, v). upd_io (outb port v))
     [(0x21, 0xff), (0xa1, 0xff),
      (0x20, 0x11), (0x21, 0x20), (0x21, 0x04), (0x21, 0x01),
      (0xa0, 0x11), (0xa1, 0x28), (0xa1, 0x02), (0xa1, 0x01),
      (0x21, 0x00), (0xa1, 0x00)] st"

definition pic_end_of_interrupt :: "u32 \<Rightarrow> sched \<Rightarrow> sched option" where
  "pic_end_of_interrupt irq st = do {
     ASSERT (irq \<ge> 0x20 \<and> irq < 0x30);
     let st = upd_io (outb 0x20 0x20) st;
     Some (if irq \<ge> 0x28 then upd_io (outb 0xa0 0x20) st else st)
   }"

fun idt_loop :: "(u8 \<Rightarrow> u32) \<Rightarrow> u8 list \<Rightarrow> sched \<Rightarrow> sched option" where
  "idt_loop stub [] st = Some st"
| "idt_loop stub (i # is) st = do {
     g \<leftarrow> make_intr_gate (stub i) 0;
     idt_loop stub is (upd_io (\<lambda>d. d\<lparr>idt := (idt d)(i := g)\<rparr>) st)
   }"

definition intr_init :: "(u8 \<Rightarrow> u32) \<Rightarrow> sched \<Rightarrow> sched option" where
  "intr_init stub st = idt_loop stub (map of_nat [0..<256]) (pic_init st)"

definition make_idtr_operand :: "u16 \<Rightarrow> u32 \<Rightarrow> u64" where
  "make_idtr_operand limit bs = ucast limit OR push_bit 16 (ucast bs)"

section \<open>Dispatch\<close>

definition unexpected_interrupt :: "intr_frame \<Rightarrow> sched \<Rightarrow> sched" where
  "unexpected_interrupt f st = upd_io (\<lambda>d. let v = ucast (vec_no f) in
     d\<lparr>unexpected_cnt := (unexpected_cnt d)(v := unexpected_cnt d v + 1)\<rparr>) st"

definition run_handler :: "handler_fun \<Rightarrow> u32 \<Rightarrow> intr_frame \<Rightarrow> sched \<Rightarrow> outcome option" where
  "run_handler h cr2 f st = (case h of
     TimerInterrupt \<Rightarrow> map_option Running (timer_interrupt st)
   | KeyboardInterrupt \<Rightarrow> keyboard_interrupt st
   | SerialInterrupt \<Rightarrow> map_option Running (serial_interrupt st)
   | SyscallHandler \<Rightarrow> syscall_handler (f_esp f) st
   | Kill \<Rightarrow> map_option Running (kill [] cr2 f st)
   | PageFault \<Rightarrow> map_option Running (page_fault cr2 f st))"

definition intr_handler :: "u32 \<Rightarrow> intr_frame \<Rightarrow> sched \<Rightarrow> outcome option" where
  "intr_handler cr2 f st = do {
     let external = (vec_no f \<ge> 0x20 \<and> vec_no f < 0x30);
     st \<leftarrow> (if external then do {
              ASSERT (\<not> intr_get_level st);
              ASSERT (\<not> intr_context st);
              Some (st\<lparr>in_external_intr := True, yield_on_return := False\<rparr>)
            }
            else Some st);
     r \<leftarrow> (case intr_handlers (io st) (ucast (vec_no f)) of
             Some h \<Rightarrow> run_handler h cr2 f st
           | None \<Rightarrow> if vec_no f = 0x27 \<or> vec_no f = 0x2f then Some (Running st)
                     else Some (Running (unexpected_interrupt f st)));
     (case r of
        Running st \<Rightarrow>
          if external then do {
            ASSERT (\<not> intr_get_level st);
            ASSERT (intr_context st);
            let st = st\<lparr>in_external_intr := False\<rparr>;
            st \<leftarrow> pic_end_of_interrupt (vec_no f) st;
            map_option Running (if yield_on_return st then thread_yield st else Some st)
          }
          else Some (Running st)
      | _ \<Rightarrow> Some r)
   }"

text \<open>
  What the processor does before: a vector whose descriptor is an interrupt gate (type 14)
  disables interrupts, and the return from the interrupt, \<open>Iret\<close>, enables them again.
\<close>

definition interrupt :: "u32 \<Rightarrow> intr_frame \<Rightarrow> sched \<Rightarrow> outcome option" where
  "interrupt cr2 f st =
     (if drop_bit 40 (idt (io st) (ucast (vec_no f))) AND 15 = 14 then do {
        st \<leftarrow> call Iret (st\<lparr>intr_on := False\<rparr>);
        intr_handler cr2 f st
      }
      else intr_handler cr2 f st)"

text \<open>\<open>timer_intr_handler\<close> is what happens on the vector of the timer.\<close>

lemma interrupt_timer:
  assumes "vec_no f = 0x20" "intr_handlers (io st) 0x20 = Some TimerInterrupt"
    "drop_bit 40 (idt (io st) 0x20) AND 15 = 14"
  shows "interrupt cr2 f st = map_option Running (timer_intr_handler st)"
proof -
  have io: "io st1 = io st" if "call Iret (st\<lparr>intr_on := False\<rparr>) = Some st1" for st1
    using that by (auto simp: call_def put_thread_def elim!: bind_SomeE)
  have "intr_handler cr2 f st1 = map_option Running (do {
     ASSERT (\<not> intr_get_level st1);
     ASSERT (\<not> intr_context st1);
     let st = st1\<lparr>in_external_intr := True, yield_on_return := False\<rparr>;
     st \<leftarrow> timer_interrupt st;
     ASSERT (\<not> intr_get_level st);
     ASSERT (intr_context st);
     let st = st\<lparr>in_external_intr := False\<rparr>;
     let st = st\<lparr>io := outb 0x20 0x20 (io st)\<rparr>;
     if yield_on_return st then thread_yield st else Some st
   })" if "io st1 = io st" for st1
    using assms(1,2) that
    by (cases "timer_interrupt (st1\<lparr>in_external_intr := True, yield_on_return := False\<rparr>)")
       (simp_all add: intr_handler_def run_handler_def pic_end_of_interrupt_def upd_io_def Let_def)
  then show ?thesis
    using assms(1,3) io by (cases "call Iret (st\<lparr>intr_on := False\<rparr>)")
      (simp_all add: interrupt_def timer_intr_handler_def)
qed

end
