(* ===== verification/KConsoleProps.thy ===== *)
theory KConsoleProps imports KSyncProps begin

text \<open>
  The screen and the console: the frame buffer keeps its shape, and what is written to the console
  while the machine starts reaches both the serial port and the screen.
\<close>

section \<open>The screen\<close>

definition vga_ok :: "vga \<Rightarrow> bool" where
  "vga_ok v \<longleftrightarrow> length (v_fb v) = ROW_CNT \<and> (\<forall>r \<in> set (v_fb v). length r = COL_CNT) \<and>
     v_cx v < COL_CNT \<and> v_cy v < ROW_CNT"

lemma vga_okI:
  assumes "length (v_fb v) = ROW_CNT" "\<And>r. r \<in> set (v_fb v) \<Longrightarrow> length r = COL_CNT" "v_cx v < COL_CNT" "v_cy v < ROW_CNT"
  shows "vga_ok v"
  using assms by (auto simp: vga_ok_def)

lemma rows_list_update:
  assumes "\<And>r. r \<in> set rows \<Longrightarrow> length r = n" "length row = n" "r \<in> set (rows[y := row])"
  shows "length r = n"
  using assms set_update_subset_insert[of rows y row] by auto

lemma newline_ok:
  assumes "length (v_fb v) = ROW_CNT" "\<And>r. r \<in> set (v_fb v) \<Longrightarrow> length r = COL_CNT" "v_cy v < ROW_CNT"
  shows "vga_ok (newline v)"
proof (cases "v_cy v + 1 < ROW_CNT")
  case True
  then show ?thesis using assms by (auto simp: newline_def vga_ok_def COL_CNT_def Let_def)
next
  case False
  let ?fb = "take (ROW_CNT - 1) (tl (v_fb v)) @ drop (ROW_CNT - 1) (v_fb v)"
  let ?row = "replicate COL_CNT (32, GRAY_ON_BLACK)"
  have fb: "length ?fb = ROW_CNT" using assms(1) by (simp add: ROW_CNT_def)
  have "set (tl (v_fb v)) \<subseteq> set (v_fb v)" by (cases "v_fb v") auto
  then have "length r = COL_CNT" if "r \<in> set ?fb" for r
    using that assms(2) by (auto dest: in_set_takeD in_set_dropD)
  then have "length r = COL_CNT" if "r \<in> set (?fb[ROW_CNT - 1 := ?row])" for r
    using rows_list_update[of ?fb COL_CNT ?row r "ROW_CNT - 1"] that by simp
  moreover have "newline v = v\<lparr>v_cx := 0, v_cy := ROW_CNT - 1, v_fb := ?fb[ROW_CNT - 1 := ?row]\<rparr>"
    using False assms(3) by (simp add: newline_def clear_row_def Let_def)
  ultimately show ?thesis using fb by (simp add: vga_ok_def COL_CNT_def ROW_CNT_def)
qed

lemma vga_char_ok:
  assumes "vga_ok v"
  obtains v' where "vga_char c v = Some v'" "vga_ok v'"
proof -
  have v: "length (v_fb v) = ROW_CNT" "\<And>r. r \<in> set (v_fb v) \<Longrightarrow> length r = COL_CNT" "v_cx v < COL_CNT" "v_cy v < ROW_CNT"
    using assms by (auto simp: vga_ok_def)
  let ?fb = "(v_fb v)[v_cy v := (v_fb v ! v_cy v)[v_cx v := (c, GRAY_ON_BLACK)]]"
  have fb: "length r = COL_CNT" if "r \<in> set ?fb" for r
    by (rule rows_list_update[OF v(2) _ that]) (simp_all add: v(1,2,4))
  have "vga_ok (if v_cx w \<ge> COL_CNT then newline w else w)"
    if "length (v_fb w) = ROW_CNT" "\<And>r. r \<in> set (v_fb w) \<Longrightarrow> length r = COL_CNT" "v_cy w < ROW_CNT" for w
    using newline_ok[OF that] that by (auto simp: vga_ok_def)
  note wrap = this
  let ?wrap = "\<lambda>w. if v_cx w \<ge> COL_CNT then newline w else w"
  let ?r = "if c = 10 then newline v else if c = 8 then (if v_cx v > 0 then v\<lparr>v_cx := v_cx v - 1\<rparr> else v)
    else if c = 13 then v\<lparr>v_cx := 0\<rparr> else if c = 9 then ?wrap (v\<lparr>v_cx := ROUND_UP (v_cx v + 1) 8\<rparr>)
    else ?wrap (v\<lparr>v_fb := ?fb, v_cx := v_cx v + 1\<rparr>)"
  have "vga_char c v = Some ?r" using v(3,4) by (simp add: vga_char_def Let_def)
  moreover have "vga_ok (?wrap (v\<lparr>v_cx := ROUND_UP (v_cx v + 1) 8\<rparr>))" by (rule wrap) (simp_all add: v)
  moreover have "vga_ok (?wrap (v\<lparr>v_fb := ?fb, v_cx := v_cx v + 1\<rparr>))" by (rule wrap) (use fb in \<open>simp_all add: v\<close>)
  moreover have "vga_ok (v\<lparr>v_cx := v_cx v - 1\<rparr>)" "vga_ok (v\<lparr>v_cx := 0\<rparr>)"
    using v by (auto simp: vga_ok_def COL_CNT_def)
  ultimately show ?thesis using newline_ok[OF v(1,2,4)] assms that[of ?r] by presburger
qed

lemma fold_clear_row:
  assumes "n \<le> length (v_fb v)"
  shows "fold clear_row [0..<n] v = v\<lparr>v_fb := replicate n (replicate COL_CNT (32, GRAY_ON_BLACK)) @ drop n (v_fb v)\<rparr>"
  using assms
proof (induction n)
  case (Suc n)
  then obtain r rs where r: "drop n (v_fb v) = r # rs" "drop (Suc n) (v_fb v) = rs"
    by (metis Cons_nth_drop_Suc Suc_le_lessD)
  then show ?case using Suc by (simp add: clear_row_def list_update_append replicate_app_Cons_same)
qed simp

text \<open>What a byte does to the screen: the bell leaves it, the form feed clears it.\<close>

definition clear_screen :: "vga \<Rightarrow> vga" where
  "clear_screen v = v\<lparr>v_fb := replicate ROW_CNT (replicate COL_CNT (32, GRAY_ON_BLACK)), v_cx := 0, v_cy := 0\<rparr>"

definition vga_byte :: "u8 \<Rightarrow> vga \<Rightarrow> vga option" where
  "vga_byte c v = (if c = 7 then Some v else if c = 12 then Some (clear_screen v) else vga_char c v)"

lemma vga_byte_ok:
  assumes "vga_ok v"
  obtains v' where "vga_byte c v = Some v'" "vga_ok v'"
proof (cases "c = 7 \<or> c = 12")
  case True
  then show ?thesis using assms that
    by (auto simp: vga_byte_def clear_screen_def vga_ok_def COL_CNT_def ROW_CNT_def)
next
  case False
  then show ?thesis using vga_char_ok[OF assms, of c] that by (auto simp: vga_byte_def)
qed

text \<open>The bytes of a string one after the other.\<close>

fun vga_string :: "u8 list \<Rightarrow> vga \<Rightarrow> vga option" where
  "vga_string [] v = Some v"
| "vga_string (c # cs) v = do { v \<leftarrow> vga_byte c v; vga_string cs v }"

section \<open>One byte\<close>

fun resumes :: "nat \<Rightarrow> sched \<Rightarrow> sched option" where
  "resumes 0 st = Some st"
| "resumes (Suc n) st = do { st \<leftarrow> resume st; resumes n st }"

text \<open>
  The console before interrupts are set up: its lock is not used, the serial port polls, the cursor has been found,
  and of the coming answers of the port at least \<open>n\<close> say that it is ready, with any number of others between them.
\<close>

definition ready_answers :: "u8 list \<Rightarrow> nat" where
  "ready_answers xs = length (filter (\<lambda>x. x AND LSR_THRE \<noteq> 0) xs)"

definition booting :: "nat \<Rightarrow> sched \<Rightarrow> bool" where
  "booting n st \<longleftrightarrow> \<not> use_console_lock (io st) \<and> d_mode (io st) = POLL \<and> v_inited (d_vga (io st)) \<and>
     vga_ok (d_vga (io st)) \<and> n \<le> ready_answers (d_in (io st)) \<and> (intr_on st \<longrightarrow> \<not> in_external_intr st)"

lemma poll_loop_ready:
  assumes "Suc n \<le> ready_answers xs"
  shows "\<exists>ys. poll_loop xs = Some ys \<and> n \<le> ready_answers ys"
  using assms by (induction xs) (auto simp: ready_answers_def)

definition thr_bytes :: "port_write list \<Rightarrow> u8 list" where
  "thr_bytes ws = [b. Outb p b \<leftarrow> ws, p = THR_REG]"

lemma thr_bytes_append [simp]: "thr_bytes (xs @ ys) = thr_bytes xs @ thr_bytes ys"
  by (simp add: thr_bytes_def)

lemma current_put: "current st = Some t \<Longrightarrow> t_magic t' = t_magic t \<Longrightarrow> status t' = status t \<Longrightarrow>
    current (put_thread (cur st) t' st) = Some t'"
  by (simp add: current_iff put_thread_def)

lemma set_level_back:
  assumes "b \<longrightarrow> \<not> in_external_intr st"
  shows "\<exists>l. intr_set_level b st = Some (l, st\<lparr>intr_on := b\<rparr>)"
  using assms by (simp add: intr_set_level_def intr_enable_def intr_disable_def intr_context_def)

lemma serial_putc_polled:
  assumes "d_mode (io st) = POLL" "poll_loop (d_in (io st)) = Some xs" "intr_on st \<longrightarrow> \<not> in_external_intr st"
  shows "serial_putc b st = Some (upd_io (outb THR_REG b) (upd_io (\<lambda>d. d\<lparr>d_in := xs\<rparr>) st))"
  using assms
  by (cases "intr_on st") (simp_all add: serial_putc_def putc_poll_def intr_disable_def intr_get_level_def intr_set_level_def
      intr_enable_def intr_context_def upd_io_def)

lemma v_inited_byte: "vga_byte c v = Some v' \<Longrightarrow> v_inited v' = v_inited v"
  by (auto simp: vga_byte_def clear_screen_def vga_char_def newline_def clear_row_def Let_def split: if_splits)

text \<open>What goes to the ports of the screen.\<close>

definition upd_screen :: "vga \<Rightarrow> port_write list \<Rightarrow> sched \<Rightarrow> sched" where
  "upd_screen v ws st = upd_io (\<lambda>d. d\<lparr>d_vga := v, d_out := d_out d @ ws\<rparr>) st"

lemma vga_finish_eq:
  assumes "b \<longrightarrow> \<not> in_external_intr st"
  obtains ws where "vga_finish b st = Some ((upd_screen (d_vga (io st)) ws st)\<lparr>intr_on := b\<rparr>)" "thr_bytes ws = []"
proof -
  have "in_external_intr (move_cursor st) = in_external_intr st" by (simp add: move_cursor_def upd_io_def Let_def)
  then obtain l where "intr_set_level b (move_cursor st) = Some (l, (move_cursor st)\<lparr>intr_on := b\<rparr>)"
    using set_level_back[of b "move_cursor st"] assms by auto
  then have "vga_finish b st = Some ((move_cursor st)\<lparr>intr_on := b\<rparr>)" by (simp add: vga_finish_def)
  moreover obtain x y where "move_cursor st = upd_screen (d_vga (io st)) [Outw 0x3d4 x, Outw 0x3d4 y] st"
    by (simp add: move_cursor_def upd_screen_def upd_io_def outw_def Let_def)
  ultimately show thesis using that[of "[Outw 0x3d4 x, Outw 0x3d4 y]"] by (simp add: thr_bytes_def)
qed

lemma vga_putc_byte:
  assumes "v_inited (d_vga (io st))" "vga_ok (d_vga (io st))" "vga_byte c (d_vga (io st)) = Some v" "c \<noteq> 7"
    "intr_on st \<longrightarrow> \<not> in_external_intr st"
  obtains ws where "vga_putc c st = Some (upd_screen v ws st)" "thr_bytes ws = []"
proof -
  let ?st1 = "st\<lparr>intr_on := False\<rparr>"
  have d: "intr_disable st = (intr_on st, ?st1)" by (simp add: intr_disable_def intr_get_level_def)
  have i: "vga_init ?st1 = Some ?st1" using assms(1) by (simp add: vga_init_def)
  show thesis
  proof (cases "c = 12")
    case True
    let ?u = "upd_vga (\<lambda>v. v\<lparr>v_cx := 0, v_cy := 0\<rparr>) (upd_vga (\<lambda>v. fold clear_row [0..<ROW_CNT] v) ?st1)"
    have cl: "cls ?st1 = move_cursor ?u" by (simp add: cls_def)
    have v: "v = clear_screen (d_vga (io st))" using assms(3) True by (simp add: vga_byte_def)
    have sc: "?u = upd_screen v [] ?st1"
      using assms(2) by (simp add: v upd_screen_def upd_vga_def upd_io_def clear_screen_def vga_ok_def fold_clear_row)
    obtain x y where m: "cls ?st1 = upd_screen v [Outw 0x3d4 x, Outw 0x3d4 y] ?st1"
      unfolding cl sc by (simp add: move_cursor_def upd_screen_def upd_io_def outw_def Let_def)
    obtain ws where w: "vga_finish (intr_on st) (cls ?st1) =
        Some ((upd_screen (d_vga (io (cls ?st1))) ws (cls ?st1))\<lparr>intr_on := intr_on st\<rparr>)" "thr_bytes ws = []"
      by (rule vga_finish_eq[of "intr_on st" "cls ?st1"]) (use assms(5) m in \<open>simp_all add: upd_screen_def upd_io_def\<close>)
    have "vga_putc c st = Some (upd_screen v ([Outw 0x3d4 x, Outw 0x3d4 y] @ ws) st)"
      using w(1) d i True by (simp add: vga_putc_def m upd_screen_def upd_io_def)
    then show thesis by (rule that) (use w(2) in \<open>simp add: thr_bytes_def\<close>)
  next
    case False
    then have "vga_char c (d_vga (io st)) = Some v" using assms(3,4) by (simp add: vga_byte_def)
    moreover obtain ws where "vga_finish (intr_on st) (upd_vga (\<lambda>_. v) ?st1) =
        Some ((upd_screen (d_vga (io (upd_vga (\<lambda>_. v) ?st1))) ws (upd_vga (\<lambda>_. v) ?st1))\<lparr>intr_on := intr_on st\<rparr>)"
        "thr_bytes ws = []"
      by (rule vga_finish_eq[of "intr_on st" "upd_vga (\<lambda>_. v) ?st1"]) (use assms(5) in \<open>simp_all add: upd_vga_def upd_io_def\<close>)
    ultimately show thesis using d i assms(4) False
      by (intro that[of ws]) (simp_all add: vga_putc_def upd_screen_def upd_vga_def upd_io_def)
  qed
qed

text \<open>The steps for a byte: the port, then the screen, and for the bell what comes after it.\<close>

definition byte_steps :: "u8 \<Rightarrow> nat" where
  "byte_steps b = (if b = 7 then 3 else 2)"

lemma resume_vga:
  assumes "current st = Some t" "frames t = VgaPutc b # fs" "v_inited (d_vga (io st))" "vga_ok (d_vga (io st))"
    "vga_byte b (d_vga (io st)) = Some v" "b = 7 \<longrightarrow> \<not> intr_on st" "intr_on st \<longrightarrow> \<not> in_external_intr st"
  obtains ws where "resumes (byte_steps b - 1) st = Some (upd_screen v ws (put_thread (cur st) (t\<lparr>frames := fs\<rparr>) st))"
    "thr_bytes ws = []"
proof -
  let ?c = "cur st"
  let ?st1 = "put_thread ?c (t\<lparr>frames := fs\<rparr>) st"
  have c: "threads st ?c = Some t" "?c \<noteq> 0" "t_magic t = THREAD_MAGIC" "status t = THREAD_RUNNING"
    using assms(1) by (auto simp: current_iff)
  have r: "resume st = vga_putc b ?st1"
    using assms(1,2) c by (simp add: resume_def vga_putc_call_def return_def)
  have p: "io ?st1 = io st" "intr_on ?st1 = intr_on st" "in_external_intr ?st1 = in_external_intr st" by (simp_all add: put_thread_def)
  show thesis
  proof (cases "b = 7")
    case False
    obtain ws where "vga_putc b ?st1 = Some (upd_screen v ws ?st1)" "thr_bytes ws = []"
      by (rule vga_putc_byte[of ?st1 b v]) (use assms(3,4,5,7) p False in simp_all)
    then show thesis using that r False by (simp add: byte_steps_def)
  next
    case True
    then have off: "\<not> intr_on st" "v = d_vga (io st)" using assms(5,6) by (simp_all add: vga_byte_def)
    let ?t2 = "t\<lparr>frames := VgaBell False # fs\<rparr>"
    let ?st2 = "put_thread ?c ?t2 ?st1"
    have same: "st\<lparr>intr_on := False\<rparr> = st" using off(1) by (cases st) simp
    have same1: "?st1\<lparr>intr_on := False\<rparr> = ?st1" using off(1) by (cases st) (simp add: put_thread_def)
    have "vga_putc b ?st1 = Some ?st2"
      using True off c assms(3)
      by (simp add: vga_putc_def intr_disable_def intr_get_level_def vga_init_def call_def put_thread_def intr_set_level_def
          speaker_beep_def same)
    then have r1: "resume st = Some ?st2" using r by simp
    have "current ?st2 = Some ?t2" using c by (simp add: current_iff put_thread_def)
    then have "resume ?st2 = vga_bell_done False ?st2" by (simp add: resume_def)
    moreover have "return ?st2 = Some ?st1" by (simp add: return_def put_thread_def)
    then have "vga_bell_done False ?st2 = vga_finish False ?st1"
      using same1 by (simp add: vga_bell_done_def intr_disable_def)
    ultimately have r2: "resume ?st2 = vga_finish False ?st1" by simp
    obtain ws where "vga_finish False ?st1 = Some ((upd_screen (d_vga (io ?st1)) ws ?st1)\<lparr>intr_on := False\<rparr>)" "thr_bytes ws = []"
      by (rule vga_finish_eq[of False ?st1]) simp
    moreover have "(upd_screen (d_vga (io ?st1)) ws ?st1)\<lparr>intr_on := False\<rparr> = upd_screen v ws ?st1" for ws
      using off by (cases st) (simp add: upd_screen_def upd_io_def put_thread_def)
    ultimately show thesis using that r1 r2 True by (simp add: byte_steps_def numeral_2_eq_2)
  qed
qed

lemma console_byte:
  assumes "current st = Some t" "frames t = ConsoleOut (b # bs) # fs" "booting (Suc n) st" "b = 7 \<longrightarrow> \<not> intr_on st"
    "vga_byte b (d_vga (io st)) = Some v"
  obtains st' ws where "resumes (byte_steps b) st = Some st'" "current st' = Some (t\<lparr>frames := ConsoleOut bs # fs\<rparr>)" "cur st' = cur st"
    "booting n st'" "d_vga (io st') = v" "d_out (io st') = d_out (io st) @ ws" "thr_bytes ws = [b]"
    "write_cnt (io st') = write_cnt (io st) + 1" "intr_on st' = intr_on st"
proof -
  let ?c = "cur st" and ?t1 = "t\<lparr>frames := VgaPutc b # ConsoleOut bs # fs\<rparr>" and ?t2 = "t\<lparr>frames := ConsoleOut bs # fs\<rparr>"
  have c: "threads st ?c = Some t" "?c \<noteq> 0" "t_magic t = THREAD_MAGIC" "status t = THREAD_RUNNING"
    using assms(1) by (auto simp: current_iff)
  have bt: "\<not> use_console_lock (io st)" "d_mode (io st) = POLL" "v_inited (d_vga (io st))" "vga_ok (d_vga (io st))"
    "intr_on st \<longrightarrow> \<not> in_external_intr st" using assms(3) by (simp_all add: booting_def)
  obtain xs where xs: "poll_loop (d_in (io st)) = Some xs" "n \<le> ready_answers xs"
    using assms(3) poll_loop_ready by (auto simp: booting_def)
  let ?stA = "put_thread ?c ?t1 (upd_io (\<lambda>d. d\<lparr>write_cnt := write_cnt d + 1\<rparr>) st)"
  have "resume st = console_out_loop (b # bs) st" using assms(1,2) by (simp add: resume_def)
  also have "\<dots> = serial_putc b ?stA"
    using c assms(2) bt(1) by (simp add: console_out_loop_def return_def call_def putchar_have_lock_def
        console_locked_by_current_thread_def put_thread_def upd_io_def)
  finally have rA: "resume st = serial_putc b ?stA" .
  let ?stB = "upd_io (outb THR_REG b) (upd_io (\<lambda>d. d\<lparr>d_in := xs\<rparr>) ?stA)"
  have "serial_putc b ?stA = Some ?stB"
    by (rule serial_putc_polled) (use bt xs in \<open>simp_all add: put_thread_def upd_io_def\<close>)
  then have r1: "resume st = Some ?stB" using rA by simp
  have B: "current ?stB = Some ?t1" "cur ?stB = ?c" "d_vga (io ?stB) = d_vga (io st)" "intr_on ?stB = intr_on st"
    "in_external_intr ?stB = in_external_intr st"
    using c by (simp_all add: current_iff put_thread_def upd_io_def outb_def)
  obtain ws where ws: "resumes (byte_steps b - 1) ?stB = Some (upd_screen v ws (put_thread ?c ?t2 ?stB))" "thr_bytes ws = []"
    by (rule resume_vga[of ?stB ?t1 b "ConsoleOut bs # fs" v])
      (use B bt assms(4,5) in \<open>simp_all only: thread.simps simp_thms, simp_all\<close>)
  let ?st' = "upd_screen v ws (put_thread ?c ?t2 ?stB)"
  have v: "vga_ok v" using vga_byte_ok[OF bt(4), of b] assms(5) by auto
  show ?thesis
  proof (rule that)
    show "resumes (byte_steps b) st = Some ?st'" using r1 ws(1) by (simp add: byte_steps_def numeral_eq_Suc split: if_splits)
    show "d_out (io ?st') = d_out (io st) @ (Outb THR_REG b # ws)"
      by (simp add: put_thread_def upd_io_def upd_screen_def outb_def)
    show "thr_bytes (Outb THR_REG b # ws) = [b]" using ws(2) by (simp add: thr_bytes_def)
    show "booting n ?st'" using bt xs v v_inited_byte[OF assms(5)]
      by (simp add: booting_def put_thread_def upd_io_def upd_screen_def outb_def)
  qed (use c in \<open>simp_all add: current_iff put_thread_def upd_io_def upd_screen_def outb_def\<close>)
qed

lemma resumes_add_fun: "resumes (m + n) = (\<lambda>st. resumes m st \<bind> resumes n)"
  by (induction m) (auto intro!: ext)

lemma resumes_add: "resumes (m + n) st = resumes m st \<bind> resumes n"
  by (rule fun_cong[OF resumes_add_fun])

definition string_steps :: "u8 list \<Rightarrow> nat" where
  "string_steps bs = 2 * length bs + count_list bs 7"

lemma console_bytes:
  assumes "current st = Some t" "frames t = ConsoleOut bs # fs" "booting (length bs) st" "7 \<in> set bs \<longrightarrow> \<not> intr_on st"
  shows "\<exists>st' ws v. resumes (string_steps bs) st = Some st' \<and> current st' = Some (t\<lparr>frames := ConsoleOut [] # fs\<rparr>) \<and>
    cur st' = cur st \<and> booting 0 st' \<and> vga_string bs (d_vga (io st)) = Some v \<and> d_vga (io st') = v \<and>
    d_out (io st') = d_out (io st) @ ws \<and> thr_bytes ws = bs \<and>
    write_cnt (io st') = write_cnt (io st) + of_nat (length bs) \<and> intr_on st' = intr_on st"
  using assms
proof (induction bs arbitrary: st t)
  case Nil
  then show ?case by (auto simp: thr_bytes_def string_steps_def)
next
  case (Cons b bs)
  obtain v where v: "vga_byte b (d_vga (io st)) = Some v" "vga_ok v"
    using vga_byte_ok[of "d_vga (io st)" b] Cons.prems(3) by (auto simp: booting_def)
  have p: "booting (Suc (length bs)) st" "b = 7 \<longrightarrow> \<not> intr_on st" using Cons.prems(3,4) by auto
  obtain st1 w1 where s1: "resumes (byte_steps b) st = Some st1" "current st1 = Some (t\<lparr>frames := ConsoleOut bs # fs\<rparr>)" "cur st1 = cur st"
    "booting (length bs) st1" "d_vga (io st1) = v" "d_out (io st1) = d_out (io st) @ w1" "thr_bytes w1 = [b]"
    "write_cnt (io st1) = write_cnt (io st) + 1" "intr_on st1 = intr_on st"
    by (rule console_byte[OF Cons.prems(1,2) p v(1)])
  obtain st' w2 v' where s2: "resumes (string_steps bs) st1 = Some st'" "current st' = Some (t\<lparr>frames := ConsoleOut [] # fs\<rparr>)"
    "cur st' = cur st1" "booting 0 st'" "vga_string bs v = Some v'" "d_vga (io st') = v'"
    "d_out (io st') = d_out (io st1) @ w2" "thr_bytes w2 = bs"
    "write_cnt (io st') = write_cnt (io st1) + of_nat (length bs)" "intr_on st' = intr_on st1"
    using Cons.IH[OF s1(2) _ s1(4)] Cons.prems(4) s1(5,9) by auto
  have "string_steps (b # bs) = byte_steps b + string_steps bs" by (simp add: string_steps_def byte_steps_def)
  then have "resumes (string_steps (b # bs)) st = Some st'"
    using resumes_add[of "byte_steps b" "string_steps bs" st] s1(1) s2(1) by simp
  then show ?case using s1 s2 v(1) by (intro exI[of _ st'] exI[of _ "w1 @ w2"]) (simp add: add.assoc)
qed

text \<open>
  C34: While the machine starts, \<open>putbuf\<close> writes the bytes of its buffer, in order and each once, to
  the serial port, and the same bytes to the screen, whose frame buffer and cursor stay in shape;
  the interrupt level and the rest of the work of the thread are as before.  Starting means that the console's
  lock is not in use yet, that the serial port is in polling mode and the cursor of the screen is
  known, as both are once the first byte has been written, and that the port becomes ready, after any number of answers
  that it is not, once for each byte.  The bell is included while interrupts are off, as they are until the scheduler
  starts: then the speaker is left alone.
\<close>

theorem putbuf_reaches_devices:
  assumes "current st = Some t" "booting (length bs) st" "7 \<in> set bs \<longrightarrow> \<not> intr_on st"
  shows "\<exists>st1 st2 v ws. putbuf bs st = Some st1 \<and> resumes (string_steps bs + 1) st1 = Some st2 \<and>
    current st2 = Some t \<and> d_out (io st2) = d_out (io st) @ ws \<and> thr_bytes ws = bs \<and>
    vga_string bs (d_vga (io st)) = Some v \<and> d_vga (io st2) = v \<and> vga_ok v \<and>
    write_cnt (io st2) = write_cnt (io st) + of_nat (length bs) \<and> intr_on st2 = intr_on st"
proof -
  let ?st1 = "put_thread (cur st) (t\<lparr>frames := ConsoleOut bs # frames t\<rparr>) st"
  have c: "threads st (cur st) = Some t" using assms(1) by (simp add: current_iff)
  have nl: "\<not> use_console_lock (io st)" using assms(2) by (simp add: booting_def)
  have p: "putbuf bs st = Some ?st1"
    using c nl by (simp add: putbuf_def console_out_def call_def acquire_console_def put_thread_def)
  have c1: "current ?st1 = Some (t\<lparr>frames := ConsoleOut bs # frames t\<rparr>)" by (rule current_put[OF assms(1)]) simp_all
  obtain st2 ws v where s2: "resumes (string_steps bs) ?st1 = Some st2" "current st2 = Some (t\<lparr>frames := ConsoleOut [] # frames t\<rparr>)"
    "booting 0 st2" "vga_string bs (d_vga (io st)) = Some v" "d_vga (io st2) = v" "d_out (io st2) = d_out (io st) @ ws"
    "thr_bytes ws = bs" "write_cnt (io st2) = write_cnt (io st) + of_nat (length bs)" "intr_on st2 = intr_on st"
    using console_bytes[OF c1, of bs "frames t"] assms(2,3) by (auto simp: booting_def put_thread_def)
  let ?st3 = "put_thread (cur st2) t st2"
  have c2: "threads st2 (cur st2) = Some (t\<lparr>frames := ConsoleOut [] # frames t\<rparr>)" using s2(2) by (simp add: current_iff)
  have "resume st2 = Some ?st3"
    using s2(2,3) c2 by (simp add: resume_def console_out_loop_def return_def release_console_def booting_def put_thread_def)
  then have "resumes (string_steps bs + 1) ?st1 = Some ?st3" using resumes_add[of "string_steps bs" 1 ?st1] s2(1) by simp
  moreover have "current ?st3 = Some t" using current_put[OF s2(2), of t] by simp
  moreover have "vga_ok v" using s2(3,5) by (simp add: booting_def)
  ultimately show ?thesis using p s2 by (intro exI[of _ ?st1] exI[of _ ?st3]) (auto simp: put_thread_def)
qed

text \<open>The port is busy when it is first asked; the text has a bell and a form feed in it.\<close>

definition boot_console :: "vmem \<Rightarrow> fs \<Rightarrow> sched" where
  "boot_console v f = (boot_sched v f)\<lparr>intr_on := False, io := demo_io\<lparr>d_mode := POLL,
     d_in := [0, 0x60, 0x20, 1, 0x21, 0x20], d_vga := (d_vga demo_io)\<lparr>v_inited := True\<rparr>\<rparr>\<rparr>"

theorem putbuf_reaches_devices_witness:
  "\<forall>v f. \<exists>st1 st2 ws. putbuf [12, 79, 7, 75] (boot_console v f) = Some st1 \<and> resumes 10 st1 = Some st2 \<and>
    d_out (io st2) = ws \<and> thr_bytes ws = [12, 79, 7, 75]"
proof (intro allI)
  fix v f
  let ?st = "boot_console v f"
  have "current ?st = Some (demo_thread THREAD_RUNNING 0)" by (simp add: boot_console_def current_iff boot_simps)
  moreover have "ready_answers [0, 0x60, 0x20, 1, 0x21, 0x20] = 4" by code_simp
  then have "booting (length [12, 79, 7, 75 :: u8]) ?st"
    by (simp add: boot_console_def booting_def demo_io_def Let_def vga_ok_def ROW_CNT_def COL_CNT_def boot_simps)
  moreover have "7 \<in> set [12, 79, 7, 75 :: u8] \<longrightarrow> \<not> intr_on ?st" by (simp add: boot_console_def)
  moreover have "d_out (io ?st) = []" by (simp add: boot_console_def demo_io_def Let_def)
  moreover have "string_steps [12, 79, 7, 75] + 1 = 10" by code_simp
  ultimately show "\<exists>st1 st2 ws. putbuf [12, 79, 7, 75] ?st = Some st1 \<and> resumes 10 st1 = Some st2 \<and>
     d_out (io st2) = ws \<and> thr_bytes ws = [12, 79, 7, 75]"
    using putbuf_reaches_devices[of ?st "demo_thread THREAD_RUNNING 0" "[12, 79, 7, 75]"] by auto
qed

end
