(* ===== verification/KIntqProps.thy ===== *)
theory KIntqProps imports KConsoleProps begin

text \<open>
  What the interrupt queues promise: a bounded queue, first in first out, whose two signals wake
  the thread that waits.
\<close>

section \<open>Bounded queues\<close>

text \<open>The contract: \<open>add\<close> fails on a full queue, \<open>take\<close> on an empty one.\<close>

locale bounded_fifo =
  fixes ok :: "'s \<Rightarrow> bool" and contents :: "'s \<Rightarrow> 'a list" and cap :: nat
    and add :: "'a \<Rightarrow> 's \<Rightarrow> 's option" and take1 :: "'s \<Rightarrow> ('a \<times> 's) option"
  assumes bounded: "ok s \<Longrightarrow> length (contents s) \<le> cap"
    and add_ok: "ok s \<Longrightarrow> length (contents s) < cap \<Longrightarrow>
      \<exists>s'. add b s = Some s' \<and> ok s' \<and> contents s' = contents s @ [b]"
    and add_full: "ok s \<Longrightarrow> length (contents s) = cap \<Longrightarrow> add b s = None"
    and take_ok: "ok s \<Longrightarrow> contents s = b # bs \<Longrightarrow> \<exists>s'. take1 s = Some (b, s') \<and> ok s' \<and> contents s' = bs"
    and take_empty: "ok s \<Longrightarrow> contents s = [] \<Longrightarrow> take1 s = None"
begin

fun add_all :: "'a list \<Rightarrow> 's \<Rightarrow> 's option" where
  "add_all [] s = Some s"
| "add_all (b # bs) s = do { s \<leftarrow> add b s; add_all bs s }"

fun take_n :: "nat \<Rightarrow> 's \<Rightarrow> ('a list \<times> 's) option" where
  "take_n 0 s = Some ([], s)"
| "take_n (Suc n) s = do { (b, s) \<leftarrow> take1 s; (bs, s) \<leftarrow> take_n n s; Some (b # bs, s) }"

lemma add_all_ok:
  "ok s \<Longrightarrow> length (contents s) + length bs \<le> cap \<Longrightarrow>
   \<exists>s'. add_all bs s = Some s' \<and> ok s' \<and> contents s' = contents s @ bs"
proof (induction bs arbitrary: s)
  case (Cons b bs)
  obtain s1 where s1: "add b s = Some s1" "ok s1" "contents s1 = contents s @ [b]"
    using add_ok[of s b] Cons.prems by auto
  then show ?case using Cons.IH[of s1] Cons.prems by auto
qed simp

lemma take_n_ok:
  "ok s \<Longrightarrow> contents s = bs @ cs \<Longrightarrow> \<exists>s'. take_n (length bs) s = Some (bs, s') \<and> ok s' \<and> contents s' = cs"
proof (induction bs arbitrary: s)
  case (Cons b bs)
  obtain s1 where s1: "take1 s = Some (b, s1)" "ok s1" "contents s1 = bs @ cs"
    using take_ok[of s b "bs @ cs"] Cons.prems by auto
  then show ?case using Cons.IH[of s1] by auto
qed simp

lemma fifo:
  assumes "ok s" "length (contents s) + length bs \<le> cap"
  shows "\<exists>s1 s2. add_all bs s = Some s1 \<and> take_n (length (contents s) + length bs) s1 = Some (contents s @ bs, s2) \<and>
    contents s2 = []"
proof -
  obtain s1 where s1: "add_all bs s = Some s1" "ok s1" "contents s1 = (contents s @ bs) @ []"
    using add_all_ok[OF assms] by auto
  then show ?thesis using take_n_ok[OF s1(2,3)] by auto
qed

end

section \<open>The queues of the kernel\<close>

definition q_len :: "intq \<Rightarrow> nat" where
  "q_len x = (q_head x + INTQ_BUFSIZE - q_tail x) mod INTQ_BUFSIZE"

definition q_contents :: "intq \<Rightarrow> u8 list" where
  "q_contents x = map (\<lambda>k. q_buf x ! ((q_tail x + k) mod INTQ_BUFSIZE)) [0..<q_len x]"

definition intq_ok :: "intq \<Rightarrow> bool" where
  "intq_ok x \<longleftrightarrow> length (q_buf x) = INTQ_BUFSIZE \<and> q_head x < INTQ_BUFSIZE \<and> q_tail x < INTQ_BUFSIZE"

text \<open>Interrupts are off, and the threads that wait are blocked.\<close>

definition queue_ok :: "queue_id \<Rightarrow> sched \<Rightarrow> bool" where
  "queue_ok q st \<longleftrightarrow> \<not> intr_on st \<and> intq_ok (get_q q st) \<and>
     (\<forall>w a. waiter_of w (get_q q st) = Some a \<longrightarrow> blocked st a) \<and>
     (\<forall>a. not_full (get_q q st) = Some a \<longrightarrow> not_empty (get_q q st) \<noteq> Some a)"

definition queue :: "queue_id \<Rightarrow> sched \<Rightarrow> u8 list" where
  "queue q st = q_contents (get_q q st)"

lemma get_put_q [simp]: "get_q q (put_q q x st) = x"
  by (cases q) (simp_all add: get_q_def put_q_def)

lemma put_q_simps [simp]:
  "intr_on (put_q q x st) = intr_on st" "threads (put_q q x st) = threads st"
  "ready_list (put_q q x st) = ready_list st" "cur (put_q q x st) = cur st"
  "in_external_intr (put_q q x st) = in_external_intr st"
  "blocked (put_q q x st) a = blocked st a"
  "d_mode (io (put_q q x st)) = d_mode (io st)" "d_kbd (io (put_q q x st)) = d_kbd (io st)" "put_q q y (put_q q x st) = put_q q y st"
  by (cases q; simp add: put_q_def blocked_def is_thread_def)+

text \<open>The positions, without \<open>mod\<close>.\<close>

lemma wrap64: "n < 128 \<Longrightarrow> n mod 64 = (if n < 64 then n else n - 64 :: nat)"
  by (simp add: le_mod_geq)

lemma next_pos_eq: "p < INTQ_BUFSIZE \<Longrightarrow> next_pos p = (if p = 63 then 0 else p + 1)"
  by (auto simp: next_pos_def INTQ_BUFSIZE_def)

lemma q_len_eq: "intq_ok x \<Longrightarrow> q_len x =
    (if q_tail x \<le> q_head x then q_head x - q_tail x else q_head x + 64 - q_tail x)"
  by (auto simp: q_len_def intq_ok_def INTQ_BUFSIZE_def wrap64)

lemma q_pos_eq: "intq_ok x \<Longrightarrow> k < 64 \<Longrightarrow> (q_tail x + k) mod INTQ_BUFSIZE =
    (if q_tail x + k < 64 then q_tail x + k else q_tail x + k - 64)"
  by (simp add: intq_ok_def INTQ_BUFSIZE_def wrap64)

lemma q_len_0: "intq_ok x \<Longrightarrow> q_len x = 0 \<longleftrightarrow> q_head x = q_tail x"
  by (auto simp: q_len_eq intq_ok_def INTQ_BUFSIZE_def)

lemma q_len_max: "intq_ok x \<Longrightarrow> q_len x \<le> 63"
  by (auto simp: q_len_eq intq_ok_def INTQ_BUFSIZE_def)

lemma q_len_63: "intq_ok x \<Longrightarrow> q_len x = 63 \<longleftrightarrow> next_pos (q_head x) = q_tail x"
  by (auto simp: q_len_eq intq_ok_def next_pos_eq INTQ_BUFSIZE_def)

lemma q_add:
  fixes b :: u8
  assumes "intq_ok x" "q_len x < 63"
  defines "y \<equiv> x\<lparr>q_buf := (q_buf x)[q_head x := b], q_head := next_pos (q_head x)\<rparr>"
  shows "intq_ok y" "q_contents y = q_contents x @ [b]"
proof -
  have ok: "intq_ok y" using assms(1) by (simp add: y_def intq_ok_def next_pos_def INTQ_BUFSIZE_def)
  then show "intq_ok y" .
  have len: "q_len y = Suc (q_len x)"
    using assms(1,2) ok by (auto simp: q_len_eq y_def next_pos_eq intq_ok_def INTQ_BUFSIZE_def split: if_splits)
  have hd: "(q_tail x + q_len x) mod INTQ_BUFSIZE = q_head x"
    using assms(1,2) by (auto simp: q_pos_eq q_len_eq intq_ok_def INTQ_BUFSIZE_def)
  have "(q_tail x + k) mod INTQ_BUFSIZE \<noteq> q_head x" if "k < q_len x" for k
    using that assms(1,2) q_pos_eq[OF assms(1), of k] by (auto simp: q_len_eq intq_ok_def INTQ_BUFSIZE_def split: if_splits)
  then have "q_buf y ! ((q_tail x + k) mod INTQ_BUFSIZE) = q_buf x ! ((q_tail x + k) mod INTQ_BUFSIZE)" if "k < q_len x" for k
    using that nth_list_update_neq[of "q_head x"] unfolding y_def by (metis intq.select_convs(4) intq.surjective intq.update_convs(4,5))
  moreover have "q_buf y ! q_head x = b" "q_tail y = q_tail x" using assms(1) by (simp_all add: y_def intq_ok_def)
  ultimately show "q_contents y = q_contents x @ [b]"
    by (simp add: q_contents_def len hd)
qed

lemma q_take:
  assumes "intq_ok x" "0 < q_len x"
  defines "y \<equiv> x\<lparr>q_tail := next_pos (q_tail x)\<rparr>"
  shows "intq_ok y" "q_contents x = q_buf x ! q_tail x # q_contents y"
proof -
  have ok: "intq_ok y" using assms(1) by (simp add: y_def intq_ok_def next_pos_def INTQ_BUFSIZE_def)
  then show "intq_ok y" .
  have len: "q_len x = Suc (q_len y)"
    using assms(1,2) ok by (auto simp: q_len_eq y_def next_pos_eq intq_ok_def INTQ_BUFSIZE_def split: if_splits)
  have "(q_tail y + k) mod INTQ_BUFSIZE = (q_tail x + Suc k) mod INTQ_BUFSIZE" for k
    by (simp add: y_def next_pos_def mod_simps)
  moreover have "q_buf y = q_buf x" by (simp add: y_def)
  moreover have "q_tail x mod INTQ_BUFSIZE = q_tail x" using assms(1) by (simp add: intq_ok_def)
  ultimately show "q_contents x = q_buf x ! q_tail x # q_contents y"
    by (simp add: q_contents_def len map_upt_Suc del: upt_Suc)
qed

section \<open>Signals\<close>

lemma blocked_readied_iff [simp]: "blocked (readied as st) b \<longleftrightarrow> blocked st b \<and> b \<notin> set as"
  by (auto simp: blocked_def readied_def is_thread_iff)

lemma readied_fields [simp]:
  "intr_on (readied as st) = intr_on st" "get_q q (readied as st) = get_q q st" "io (readied as st) = io st"
  "ready_list (readied as st) = ready_list st @ as" "cur (readied as st) = cur st"
  "in_external_intr (readied as st) = in_external_intr st"
  by (cases q; simp add: readied_def get_q_def)+

text \<open>The state after a signal: the waiter, if there is one, is ready.\<close>

definition signalled :: "queue_id \<Rightarrow> bool \<Rightarrow> sched \<Rightarrow> sched" where
  "signalled q w st = (case waiter_of w (get_q q st) of None \<Rightarrow> st
     | Some a \<Rightarrow> put_q q (set_waiter w None (get_q q st)) (readied [a] st))"

lemma signal_eq:
  assumes "queue_ok q st" "w \<Longrightarrow> q_len (get_q q st) \<noteq> 0" "\<not> w \<Longrightarrow> q_len (get_q q st) \<noteq> 63"
  shows "signal q w st = Some (signalled q w st)"
proof -
  have i: "intq_ok (get_q q st)" "\<not> intr_on st" using assms(1) by (simp_all add: queue_ok_def)
  have e: "intq_empty q st = Some (q_len (get_q q st) = 0)" "intq_full q st = Some (q_len (get_q q st) = 63)"
    using i by (simp_all add: intq_empty_def intq_full_def intr_get_level_def q_len_0 q_len_63)
  show ?thesis
  proof (cases "waiter_of w (get_q q st)")
    case None
    then show ?thesis using i e assms(2,3) by (cases w) (simp_all add: signal_def signalled_def intr_get_level_def)
  next
    case (Some a)
    then have "blocked st a" using assms(1) by (auto simp: queue_ok_def)
    then have "thread_unblock a st = Some (readied [a] st)" using i(2) by (rule thread_unblock_readied)
    then show ?thesis using Some i e assms(2,3)
      by (cases w) (simp_all add: signal_def signalled_def intr_get_level_def)
  qed
qed

lemma set_waiter_fields [simp]:
  "q_buf (set_waiter w a x) = q_buf x" "q_head (set_waiter w a x) = q_head x"
  "q_tail (set_waiter w a x) = q_tail x" "q_lock (set_waiter w a x) = q_lock x"
  by (simp_all add: set_waiter_def)

lemma set_waiter_simps [simp]:
  "q_contents (set_waiter w a x) = q_contents x" "intq_ok (set_waiter w a x) = intq_ok x"
  "q_len (set_waiter w a x) = q_len x"
  by (simp_all add: q_contents_def intq_ok_def q_len_def)

lemma waiter_of_set [simp]: "waiter_of v (set_waiter w a x) = (if v = w then a else waiter_of v x)"
  by (cases v; cases w) (simp_all add: set_waiter_def waiter_of_def)

lemma queue_okD:
  assumes "queue_ok q st"
  shows "\<not> intr_on st" "intq_ok (get_q q st)" "waiter_of w (get_q q st) = Some a \<Longrightarrow> blocked st a"
    "waiter_of w (get_q q st) = Some a \<Longrightarrow> waiter_of (\<not> w) (get_q q st) \<noteq> Some a"
proof -
  show "waiter_of w (get_q q st) = Some a \<Longrightarrow> waiter_of (\<not> w) (get_q q st) \<noteq> Some a"
    using assms by (cases w) (auto simp: queue_ok_def waiter_of_def)
qed (use assms in \<open>auto simp: queue_ok_def\<close>)

lemma queue_okI:
  assumes "\<not> intr_on st" "intq_ok (get_q q st)" "\<And>w a. waiter_of w (get_q q st) = Some a \<Longrightarrow> blocked st a"
    "\<And>a. waiter_of False (get_q q st) = Some a \<Longrightarrow> waiter_of True (get_q q st) \<noteq> Some a"
  shows "queue_ok q st"
  using assms by (auto simp: queue_ok_def waiter_of_def)

lemma signalled_ok:
  assumes "queue_ok q st"
  shows "queue_ok q (signalled q w st)" "queue q (signalled q w st) = queue q st"
proof -
  show "queue q (signalled q w st) = queue q st"
    by (simp add: signalled_def queue_def split: option.split)
  show "queue_ok q (signalled q w st)"
  proof (cases "waiter_of w (get_q q st)")
    case None
    then show ?thesis using assms by (simp add: signalled_def)
  next
    case (Some a)
    have other: "waiter_of v (get_q q st) = Some b \<Longrightarrow> v \<noteq> w \<Longrightarrow> b \<noteq> a" for v b
      using queue_okD(4)[OF assms Some] by (cases v; cases w) auto
    show ?thesis
      unfolding signalled_def Some option.case
    proof (rule queue_okI)
      fix v b
      assume "waiter_of v (get_q q (put_q q (set_waiter w None (get_q q st)) (readied [a] st))) = Some b"
      then show "blocked (put_q q (set_waiter w None (get_q q st)) (readied [a] st)) b"
        using other queue_okD(3)[OF assms] by (auto split: if_splits)
    qed (use queue_okD(1,2,4)[OF assms] in \<open>auto split: if_splits\<close>)
  qed
qed

lemma queue_ok_put:
  assumes "queue_ok q st" "intq_ok x" "not_full x = not_full (get_q q st)" "not_empty x = not_empty (get_q q st)"
  shows "queue_ok q (put_q q x st)"
proof -
  have "waiter_of w x = waiter_of w (get_q q st)" for w using assms(3,4) by (simp add: waiter_of_def)
  then show ?thesis using assms(1,2) queue_okD(1-3)[OF assms(1)] queue_okD(4)[OF assms(1), of False]
    by (intro queue_okI) auto
qed

lemma intq_putc_now_ok:
  fixes b :: u8
  assumes "queue_ok q st" "length (queue q st) < 63"
  defines "x \<equiv> get_q q st"
  defines "st1 \<equiv> put_q q (x\<lparr>q_buf := (q_buf x)[q_head x := b], q_head := next_pos (q_head x)\<rparr>) st"
  shows "intq_putc_now q b st = Some (signalled q True st1)" "queue_ok q st1" "queue q st1 = queue q st @ [b]"
proof -
  let ?x = "x\<lparr>q_buf := (q_buf x)[q_head x := b], q_head := next_pos (q_head x)\<rparr>"
  have x: "intq_ok x" "\<not> intr_on st" using assms(1) by (simp_all add: x_def queue_ok_def)
  have l: "q_len x < 63" using assms(2) by (simp add: queue_def q_contents_def x_def)
  note y = q_add[OF x(1) l, of b]
  show ok: "queue_ok q st1" unfolding st1_def by (rule queue_ok_put[OF assms(1) y(1)]) (simp_all add: x_def)
  show "queue q st1 = queue q st @ [b]" using y(2) by (simp add: queue_def st1_def x_def)
  have "q_len ?x \<noteq> 0" using arg_cong[OF y(2), of length] by (simp add: q_contents_def)
  then have "signal q True st1 = Some (signalled q True st1)" using signal_eq[OF ok, of True] by (simp add: st1_def)
  moreover have "intq_full q st = Some False"
    using x l q_len_63[OF x(1)] by (simp add: intq_full_def intr_get_level_def x_def)
  ultimately show "intq_putc_now q b st = Some (signalled q True st1)"
    by (simp add: intq_putc_now_def intq_add_def Let_def st1_def x_def)
qed

lemma intq_getc_now_ok:
  assumes "queue_ok q st" "queue q st = b # bs"
  defines "x \<equiv> get_q q st"
  defines "st1 \<equiv> put_q q (x\<lparr>q_tail := next_pos (q_tail x)\<rparr>) st"
  shows "intq_getc_now q st = Some (b, signalled q False st1)" "queue_ok q st1" "queue q st1 = bs"
proof -
  let ?x = "x\<lparr>q_tail := next_pos (q_tail x)\<rparr>"
  have x: "intq_ok x" "\<not> intr_on st" using assms(1) by (simp_all add: x_def queue_ok_def)
  have l: "0 < q_len x" using assms(2) by (cases "q_len x") (simp_all add: queue_def q_contents_def x_def)
  note y = q_take[OF x(1) l]
  show ok: "queue_ok q st1" unfolding st1_def by (rule queue_ok_put[OF assms(1) y(1)]) (simp_all add: x_def)
  have q: "q_buf x ! q_tail x = b" "q_contents ?x = bs" using y(2) assms(2) by (simp_all add: queue_def x_def)
  then show "queue q st1 = bs" by (simp add: queue_def st1_def)
  have "q_len x = Suc (q_len ?x)" using arg_cong[OF y(2), of length] by (simp add: q_contents_def)
  then have "q_len ?x \<noteq> 63" using q_len_max[OF x(1)] by simp
  then have "signal q False st1 = Some (signalled q False st1)" using signal_eq[OF ok, of False] by (simp add: st1_def)
  moreover have "intq_empty q st = Some False"
    using x l q_len_0[OF x(1)] by (simp add: intq_empty_def intr_get_level_def x_def)
  ultimately show "intq_getc_now q st = Some (b, signalled q False st1)"
    using q(1) by (simp add: intq_getc_now_def intq_take_def Let_def st1_def x_def)
qed

lemma queue_len: "length (queue q st) = q_len (get_q q st)"
  by (simp add: queue_def q_contents_def)

lemma intq_full_eq: "queue_ok q st \<Longrightarrow> intq_full q st = Some (length (queue q st) = 63)"
  by (simp add: intq_full_def intr_get_level_def queue_okD queue_len q_len_63)

lemma intq_empty_eq: "queue_ok q st \<Longrightarrow> intq_empty q st = Some (queue q st = [])"
  by (simp add: intq_empty_def intr_get_level_def queue_okD queue_len q_len_0 flip: length_0_conv)

interpretation kq: bounded_fifo "queue_ok q" "queue q" 63 "intq_putc_now q" "intq_getc_now q" for q
proof (unfold_locales, goal_cases)
  case (1 st)
  then show ?case using q_len_max by (simp add: queue_def q_contents_def queue_ok_def)
next
  case (2 st b)
  then show ?case by (simp add: intq_putc_now_ok[OF 2] signalled_ok)
next
  case (3 st b)
  then show ?case by (simp add: intq_putc_now_def intq_full_eq)
next
  case (4 st b bs)
  then show ?case by (simp add: intq_getc_now_ok[OF 4] signalled_ok)
next
  case (5 st)
  then show ?case by (simp add: intq_getc_now_def intq_empty_eq)
qed

text \<open>Bytes added one after the other, and a number of bytes taken.\<close>

fun put_all :: "queue_id \<Rightarrow> u8 list \<Rightarrow> sched \<Rightarrow> sched option" where
  "put_all q [] st = Some st"
| "put_all q (b # bs) st = do { st \<leftarrow> intq_putc_now q b st; put_all q bs st }"

fun get_n :: "queue_id \<Rightarrow> nat \<Rightarrow> sched \<Rightarrow> (u8 list \<times> sched) option" where
  "get_n q 0 st = Some ([], st)"
| "get_n q (Suc n) st = do { (b, st) \<leftarrow> intq_getc_now q st; (bs, st) \<leftarrow> get_n q n st; Some (b # bs, st) }"

lemma put_all_eq: "put_all q bs = kq.add_all q bs"
  by (induction bs) (auto intro!: ext)

lemma get_n_eq: "get_n q n = kq.take_n q n"
  by (induction n) (auto intro!: ext)

text \<open>
  C14: An interrupt queue is a bounded queue, first in first out: as long as no more than 63 bytes
  are in it, every byte that is added is taken out again, in the order of the additions and behind
  those that were there before, whatever threads wait for it.
\<close>

theorem intq_fifo:
  assumes "queue_ok q st" "length (queue q st) + length bs \<le> 63"
  shows "\<exists>st1 st2. put_all q bs st = Some st1 \<and>
    get_n q (length (queue q st) + length bs) st1 = Some (queue q st @ bs, st2) \<and> queue q st2 = []"
  unfolding put_all_eq get_n_eq by (rule kq.fifo[OF assms])

theorem intq_fifo_witness:
  "\<forall>v f. \<exists>st1 st2. put_all InputQ [104, 105] (demo_sched v f) = Some st1 \<and> get_n InputQ 2 st1 = Some ([104, 105], st2)"
proof (intro allI)
  fix v f
  have "queue_ok InputQ (demo_sched v f)" "queue InputQ (demo_sched v f) = []"
    by (simp_all add: queue_ok_def queue_def q_contents_def q_len_def intq_ok_def waiter_of_def get_q_def
        demo_sched_def demo_io_def INTQ_BUFSIZE_def Let_def)
  then show "\<exists>st1 st2. put_all InputQ [104, 105] (demo_sched v f) = Some st1 \<and> get_n InputQ 2 st1 = Some ([104, 105], st2)"
    using intq_fifo[of InputQ "demo_sched v f" "[104, 105]"] by (auto simp: numeral_2_eq_2)
qed

section \<open>From the keyboard to the reader\<close>

lemma write_ier_eq: "\<not> intr_on st \<Longrightarrow> \<exists>v. write_ier st = Some (upd_io (outb IER_REG v) st)"
  by (auto simp: write_ier_def intq_empty_def input_full_def intq_full_def intr_get_level_def Let_def)

lemma serial_notify_eq:
  assumes "\<not> intr_on st"
  obtains d where "serial_notify st = Some (upd_io (\<lambda>x. x\<lparr>d_out := d\<rparr>) st)"
proof (cases "d_mode (io st) = QUEUE")
  case True
  then show ?thesis using that write_ier_eq[OF assms] assms
    by (auto simp: serial_notify_def intr_get_level_def outb_def upd_io_def)
next
  case False
  then have "serial_notify st = Some st" using assms by (simp add: serial_notify_def intr_get_level_def)
  moreover have "upd_io (\<lambda>x. x\<lparr>d_out := d_out (io st)\<rparr>) st = st" by (simp add: upd_io_def)
  ultimately show ?thesis using that by metis
qed

lemma upd_io_out [simp]:
  "queue q (upd_io (\<lambda>x. x\<lparr>d_out := d\<rparr>) st) = queue q st" "threads (upd_io g st) = threads st"
  "ready_list (upd_io g st) = ready_list st" "cur (upd_io g st) = cur st" "intr_on (upd_io g st) = intr_on st"
  "in_external_intr (upd_io g st) = in_external_intr st" "d_kbd (io (upd_io (\<lambda>x. x\<lparr>d_out := d\<rparr>) st)) = d_kbd (io st)"
  "get_q q (upd_io (\<lambda>x. x\<lparr>d_out := d\<rparr>) st) = get_q q st"
  by (auto simp: upd_io_def queue_def get_q_def split: queue_id.split)

text \<open>\<open>input_putc\<close> in a state with room.\<close>

lemma input_putc_ok:
  assumes "queue_ok InputQ st" "length (queue InputQ st) < 63"
  obtains st' where "input_putc key st = Some st'" "queue InputQ st' = queue InputQ st @ [key]"
    "not_empty (get_q InputQ st') = None" "d_kbd (io st') = d_kbd (io st)"
    "ready_list st' = ready_list st @ (case not_empty (get_q InputQ st) of None \<Rightarrow> [] | Some a \<Rightarrow> [a])"
    "\<And>a. not_empty (get_q InputQ st) = Some a \<Longrightarrow> map_option status (threads st' a) = Some THREAD_READY"
proof -
  let ?x = "get_q InputQ st"
  let ?st1 = "put_q InputQ (?x\<lparr>q_buf := (q_buf ?x)[q_head ?x := key], q_head := next_pos (q_head ?x)\<rparr>) st"
  note p = intq_putc_now_ok[OF assms, of key]
  let ?st2 = "signalled InputQ True ?st1"
  have i: "\<not> intr_on st" "\<not> intr_on ?st2" using queue_okD(1)[OF assms(1)] queue_okD(1)[OF signalled_ok(1)[OF p(2)]] by simp_all
  obtain d where d: "serial_notify ?st2 = Some (upd_io (\<lambda>x. x\<lparr>d_out := d\<rparr>) ?st2)" by (rule serial_notify_eq[OF i(2)])
  have "intq_full InputQ st = Some False" using assms by (simp add: intq_full_eq)
  then have "input_putc key st = Some (upd_io (\<lambda>x. x\<lparr>d_out := d\<rparr>) ?st2)"
    using i p(1) d by (simp add: input_putc_def intr_get_level_def)
  moreover have "queue InputQ ?st2 = queue InputQ st @ [key]" using p(3) signalled_ok(2)[OF p(2)] by simp
  moreover have "not_empty (get_q InputQ ?st2) = None" "d_kbd (io ?st2) = d_kbd (io st)"
    "ready_list ?st2 = ready_list st @ (case not_empty (get_q InputQ st) of None \<Rightarrow> [] | Some a \<Rightarrow> [a])"
    by (auto simp: signalled_def waiter_of_def set_waiter_def split: option.split)
  moreover have "map_option status (threads ?st2 a) = Some THREAD_READY" if "not_empty (get_q InputQ st) = Some a" for a
    using queue_okD(3)[OF assms(1), of True a] that
    by (auto simp: signalled_def waiter_of_def readied_def blocked_def)
  ultimately show ?thesis using that by simp
qed

lemma and_not_idle:
  fixes w x :: "'a::len word"
  assumes "w AND x = 0"
  shows "w AND NOT x = w"
proof -
  have "w = w AND (x OR NOT x)" by (simp only: bit.disj_cancel_right) simp
  then show ?thesis using assms by (simp only: bit.conj_disj_distrib) simp
qed

lemma plain_code:
  fixes code :: u8
  assumes "code < 0x80" "code \<noteq> 0x3a"
  shows "(ucast code :: u32) AND 0x80 = 0" "unat ((ucast code :: u32) AND NOT 0x80) = unat code" "code \<noteq> 0xe0"
    "unat code \<noteq> 0x3a"
proof -
  have "code div 2 ^ 7 = 0" using assms(1) by (simp add: div_word_less)
  then have b: "\<not> bit (ucast code :: u32) 7" by (simp add: bit_simps bit_iff_odd[of code])
  then show z: "(ucast code :: u32) AND 0x80 = 0" using and_exp_eq_0_iff_not_bit[of "ucast code :: u32" 7] by simp
  have "(ucast code :: u32) AND NOT 0x80 = ucast code" using z by (rule and_not_idle)
  then show "unat ((ucast code :: u32) AND NOT 0x80) = unat code" by (simp add: unsigned_ucast_eq take_bit_nat_eq_self_iff order.strict_trans[OF unsigned_less])
  show "code \<noteq> 0xe0" using assms(1) by auto
  show "unat code \<noteq> 0x3a" using assms(2) by (simp add: word_unat_eq_iff)
qed

text \<open>
  C12: A key press reaches the process that waits for it: when the keyboard delivers the scan code of
  an ordinary key and the input buffer has room, the interrupt appends the key's character, changed
  by the shift keys, to the buffer, and the thread that waits for input becomes ready.  Caps lock, the keys with a
  two-byte code and the Delete key, which restarts the machine with two modifiers, are not among the
  ordinary keys.
\<close>

theorem key_press_wakes_reader:
  assumes "queue_ok InputQ st" "length (queue InputQ st) < 63" "not_empty (d_input (io st)) = Some a"
    "d_in (io st) = code # rest" "code < 0x80" "code \<noteq> 0x3a" "key_char (d_kbd (io st)) (unat code) = Some c" "c \<noteq> 127"
  shows "\<exists>st'. keyboard_interrupt st = Some (Running st') \<and>
    queue InputQ st' = queue InputQ st @ [kbd_char (d_kbd (io st)) c] \<and>
    map_option status (threads st' a) = Some THREAD_READY \<and> ready_list st' = ready_list st @ [a] \<and>
    not_empty (d_input (io st')) = None \<and> key_cnt (d_kbd (io st')) = key_cnt (d_kbd (io st)) + 1"
proof -
  let ?st1 = "st\<lparr>io := (io st)\<lparr>d_in := rest\<rparr>\<rparr>"
  let ?st2 = "upd_kbd (\<lambda>k. k\<lparr>key_cnt := key_cnt k + 1\<rparr>) ?st1"
  have q: "get_q InputQ ?st2 = get_q InputQ st" "get_q InputQ ?st1 = get_q InputQ st"
    by (simp_all add: get_q_def upd_kbd_def upd_io_def)
  have ok: "queue_ok InputQ ?st2" "queue InputQ ?st2 = queue InputQ st"
    using assms(1) q by (simp_all add: queue_ok_def queue_def blocked_def is_thread_def upd_kbd_def upd_io_def)
  obtain st' where s: "input_putc (kbd_char (d_kbd (io st)) c) ?st2 = Some st'"
    "queue InputQ st' = queue InputQ ?st2 @ [kbd_char (d_kbd (io st)) c]"
    "not_empty (get_q InputQ st') = None" "d_kbd (io st') = d_kbd (io ?st2)"
    "ready_list st' = ready_list ?st2 @ (case not_empty (get_q InputQ ?st2) of None \<Rightarrow> [] | Some a \<Rightarrow> [a])"
    "\<And>a. not_empty (get_q InputQ ?st2) = Some a \<Longrightarrow> map_option status (threads st' a) = Some THREAD_READY"
    by (rule input_putc_ok[OF ok(1)]) (use assms(2) ok(2) in simp, rule that)
  note code = plain_code[OF assms(5,6)]
  have ok1: "queue_ok InputQ ?st1" "queue InputQ ?st1 = queue InputQ st"
    using assms(1) q by (simp_all add: queue_ok_def queue_def blocked_def is_thread_def)
  have "read_scancode st = Some (ucast code, ?st1)"
    using assms(4) code(3) by (simp add: read_scancode_def sched_inb_def inb_def)
  moreover have "input_full ?st1 = Some False"
    using assms(2) ok1 queue_okD(1)[OF assms(1)] by (simp add: input_full_def intq_full_eq intr_get_level_def)
  ultimately have "keyboard_interrupt st = Some (Running st')"
    using code(1,2,4) assms(7,8) s(1) unfolding keyboard_interrupt_def Let_def by simp
  then show ?thesis using s ok(2) assms(3) q by (simp add: upd_kbd_def upd_io_def get_q_def)
qed

text \<open>A state in which thread 8192 waits for a key and the keyboard delivers the code of the letter A.\<close>

definition waiting_io :: devs where
  "waiting_io = demo_io\<lparr>d_in := [0x1e], d_input := (d_input demo_io)\<lparr>not_empty := Some 8192\<rparr>\<rparr>"

lemma waiting_queue: "queue_ok InputQ ((demo_sched v f)\<lparr>io := waiting_io\<rparr>)" "queue InputQ ((demo_sched v f)\<lparr>io := waiting_io\<rparr>) = []"
  by (simp_all add: queue_ok_def queue_def q_contents_def q_len_def intq_ok_def waiter_of_def get_q_def
      waiting_io_def demo_io_def INTQ_BUFSIZE_def Let_def blocked_def is_thread_iff demo_sched_def demo_thread_def)

theorem key_press_wakes_reader_witness:
  "\<forall>v f. \<exists>st'. keyboard_interrupt ((demo_sched v f)\<lparr>io := waiting_io\<rparr>) = Some (Running st') \<and>
     queue InputQ st' = [97] \<and> ready_list st' = [8192]"
proof (intro allI)
  fix v f
  let ?st = "(demo_sched v f)\<lparr>io := waiting_io\<rparr>"
  have "key_char (d_kbd waiting_io) (unat (0x1e :: u8)) = Some 65"
    by (simp add: key_char_def invariant_keymap_def waiting_io_def demo_io_def Let_def)
  moreover have "kbd_char (d_kbd waiting_io) 65 = 97"
    by (simp add: kbd_char_def waiting_io_def demo_io_def Let_def tolower_def isupper_def)
  ultimately show "\<exists>st'. keyboard_interrupt ?st = Some (Running st') \<and> queue InputQ st' = [97] \<and> ready_list st' = [8192]"
    using key_press_wakes_reader[OF waiting_queue(1), of v f 8192 "0x1e" "[]" 65] waiting_queue(2)[of v f]
    by (auto simp: waiting_io_def demo_sched_def)
qed

section \<open>The reader runs again\<close>

text \<open>The running thread is \<open>t\<close> and has the continuations \<open>fs\<close>.\<close>

lemma return_eq: "threads st (cur st) = Some t \<Longrightarrow> return st = Some (put_thread (cur st) (t\<lparr>frames := tl (frames t)\<rparr>) st)"
  by (simp add: return_def)

lemma call_eq: "threads st (cur st) = Some t \<Longrightarrow> call f st = Some (put_thread (cur st) (t\<lparr>frames := f # frames t\<rparr>) st)"
  by (simp add: call_def)

lemma put_thread_simps [simp]:
  "threads (put_thread a t st) = (threads st)(a \<mapsto> t)" "cur (put_thread a t st) = cur st"
  "io (put_thread a t st) = io st" "intr_on (put_thread a t st) = intr_on st"
  "holder (put_thread a t st) = holder st" "semas (put_thread a t st) = semas st"
  "get_q q (put_thread a t st) = get_q q st" "ready_list (put_thread a t st) = ready_list st"
  "in_external_intr (put_thread a t st) = in_external_intr st"
  by (cases q; simp add: put_thread_def get_q_def)+

lemma queue_ok_cong:
  assumes "queue_ok q st" "get_q q st' = get_q q st" "intr_on st' = intr_on st"
    "\<And>a. blocked st a \<Longrightarrow> blocked st' a"
  shows "queue_ok q st'"
  using assms by (auto simp: queue_ok_def)

lemma blocked_put: "current st = Some t \<Longrightarrow> blocked st a \<Longrightarrow> blocked (put_thread (cur st) t' st) a"
  by (auto simp: blocked_def is_thread_iff current_iff)

lemma queue_ok_put_thread: "current st = Some t \<Longrightarrow> queue_ok q st \<Longrightarrow> queue_ok q (put_thread (cur st) t' st)"
  by (erule queue_ok_cong[of q st]) (auto intro: blocked_put)

text \<open>The four steps.\<close>

lemma resume_woken:
  assumes "current st = Some t" "frames t = IntqWoken q # fs" "q_lock (get_q q st) = l" "l \<noteq> 0"
    "holder st l = Some (Some (cur st))"
  shows "resume st = Some (put_thread (cur st) (t\<lparr>lock_list := remove1 l (lock_list t), frames := SemaUp (lock_sema l) # fs\<rparr>)
    (st\<lparr>holder := (holder st)(l \<mapsto> None)\<rparr>))"
proof -
  have c: "threads st (cur st) = Some t" "cur st \<noteq> 0" "t_magic t = THREAD_MAGIC" "status t = THREAD_RUNNING"
    using assms(1) by (auto simp: current_iff)
  have "resume st = intq_woken q st" using assms(1,2) by (simp add: resume_def)
  also have "\<dots> = lock_release l (put_thread (cur st) (t\<lparr>frames := fs\<rparr>) st)"
    using assms(2,3) c(1) by (simp add: intq_woken_def return_def)
  also have "\<dots> = Some (put_thread (cur st) (t\<lparr>lock_list := remove1 l (lock_list t), frames := SemaUp (lock_sema l) # fs\<rparr>)
    (st\<lparr>holder := (holder st)(l \<mapsto> None)\<rparr>))"
    using assms(4,5) c
    by (simp add: lock_release_def lock_held_by_current_thread_def thread_current_def running_thread_def
        is_thread_def current_def call_def put_thread_def Let_def)
  finally show ?thesis .
qed

lemma resume_sema_up:
  assumes "current st = Some t" "frames t = SemaUp s # fs" "s \<noteq> 0" "semas st s = Some x" "waiters x = []"
    "\<not> intr_on st"
  shows "resume st = Some (put_sema s (x\<lparr>s_value := s_value x + 1\<rparr>) (put_thread (cur st) (t\<lparr>frames := fs\<rparr>) st))"
proof -
  have "threads st (cur st) = Some t" using assms(1) by (simp add: current_iff)
  then show ?thesis
    using assms by (simp add: resume_def return_def sema_up_def intr_disable_def intr_set_level_def intr_get_level_def
        put_sema_def put_thread_def Let_def)
qed

text \<open>The rest of \<open>intq_getc\<close>.\<close>

lemma resume_getc:
  assumes "current st = Some t" "frames t = IntqGetc q # fs" "queue_ok q st" "queue q st = b # bs" "not_full (get_q q st) = None"
  obtains st' where "resume st = Some st'" "current st' = Some (t\<lparr>frames := fs, eax := uint b\<rparr>)" "cur st' = cur st"
    "queue_ok q st'" "queue q st' = bs" "in_external_intr st' = in_external_intr st" "holder st' = holder st" "semas st' = semas st"
proof -
  let ?st1 = "put_thread (cur st) (t\<lparr>frames := fs\<rparr>) st"
  have c: "threads st (cur st) = Some t" using assms(1) by (auto simp: current_iff)
  have e: "intq_empty q st = Some False" using assms(3,4) by (simp add: intq_empty_eq)
  have q1: "queue_ok q ?st1" "queue q ?st1 = b # bs" using queue_ok_put_thread[OF assms(1,3)] assms(4) by (simp_all add: queue_def)
  let ?st2 = "put_q q ((get_q q ?st1)\<lparr>q_tail := next_pos (q_tail (get_q q ?st1))\<rparr>) ?st1"
  note g = intq_getc_now_ok[OF q1]
  have s: "signalled q False ?st2 = ?st2" using assms(5) by (simp add: signalled_def waiter_of_def)
  have "intq_take q ?st1 = Some (b, ?st2)"
    using g(1)[unfolded s] q1 by (simp add: intq_getc_now_def intq_empty_eq)
  moreover have c1: "current ?st1 = Some (t\<lparr>frames := fs\<rparr>)" by (rule current_put[OF assms(1)]) simp_all
  then have c2: "current ?st2 = Some (t\<lparr>frames := fs\<rparr>)" by (simp add: current_iff)
  ultimately have "intq_getc_loop q st = Some (put_thread (cur st) (t\<lparr>frames := fs, eax := uint b\<rparr>) ?st2)"
    using assms(2) c e by (simp add: intq_getc_loop_def return_def)
  then have "resume st = Some (put_thread (cur st) (t\<lparr>frames := fs, eax := uint b\<rparr>) ?st2)"
    using assms(1,2) by (simp add: resume_def)
  moreover have "current ?st2 = Some (t\<lparr>frames := fs\<rparr>)" by (rule c2)
  then have "current (put_thread (cur st) (t\<lparr>frames := fs, eax := uint b\<rparr>) ?st2) = Some (t\<lparr>frames := fs, eax := uint b\<rparr>)"
    using current_put[OF c2] by simp
  moreover have "queue_ok q (put_thread (cur st) (t\<lparr>frames := fs, eax := uint b\<rparr>) ?st2)"
    using queue_ok_put_thread[OF c2 g(2)] by simp
  moreover have "holder ?st2 = holder st" "semas ?st2 = semas st"
    by (cases q; simp add: put_q_def upd_io_def)+
  ultimately show ?thesis using that g(3) by (simp add: queue_def)
qed

lemma resume_input_done:
  assumes "current st = Some t" "frames t = InputGetc old # fs" "\<not> intr_on st" "\<not> in_external_intr st"
  obtains st' where "resume st = Some st'" "current st' = Some (t\<lparr>frames := fs\<rparr>)" "cur st' = cur st"
    "\<And>q. queue q st' = queue q st" "intr_on st' = old" "holder st' = holder st" "semas st' = semas st"
proof -
  let ?st1 = "put_thread (cur st) (t\<lparr>frames := fs\<rparr>) st"
  obtain d where d: "serial_notify ?st1 = Some (upd_io (\<lambda>x. x\<lparr>d_out := d\<rparr>) ?st1)"
    by (rule serial_notify_eq[of ?st1]) (use assms(3) in simp_all)
  let ?st' = "(upd_io (\<lambda>x. x\<lparr>d_out := d\<rparr>) ?st1)\<lparr>intr_on := old\<rparr>"
  have "threads st (cur st) = Some t" using assms(1) by (auto simp: current_iff)
  then have "resume st = Some ?st'"
    using assms d by (cases old) (simp_all add: resume_def input_getc_done_def return_def intr_set_level_def intr_enable_def
        intr_disable_def intr_context_def Let_def)
  moreover have "current ?st' = Some (t\<lparr>frames := fs\<rparr>)" using assms(1) by (simp add: current_iff)
  moreover have "queue q ?st' = queue q st" for q by (simp add: queue_def get_q_def upd_io_def split: queue_id.split)
  ultimately show ?thesis using that by (simp add: upd_io_def)
qed

text \<open>
  C13: The thread that a key has woken returns that key from \<open>input_getc\<close>: it releases the lock of
  the queue, takes the oldest byte, leaves it in \<open>eax\<close>, and restores the interrupt level its caller had.  The lock
  then has no holder, its semaphore is up by one, and it is off the thread's list of locks.  The case shown is that
  no other reader waits for the lock and no writer for room in the queue; interrupts are off, as \<open>queue_ok\<close> says.
\<close>

theorem woken_reader_returns_key:
  assumes "current st = Some t" "frames t = IntqWoken InputQ # IntqGetc InputQ # InputGetc old # fs"
    "queue_ok InputQ st" "queue InputQ st = b # bs" "not_full (get_q InputQ st) = None" "\<not> in_external_intr st"
    "q_lock (get_q InputQ st) = l" "l \<noteq> 0" "holder st l = Some (Some (cur st))"
    "semas st (lock_sema l) = Some x" "waiters x = []"
  shows "\<exists>st' t'. resumes 4 st = Some st' \<and> current st' = Some t' \<and> cur st' = cur st \<and> frames t' = fs \<and>
    eax t' = uint b \<and> queue InputQ st' = bs \<and> intr_on st' = old \<and>
    holder st' = (holder st)(l \<mapsto> None) \<and> semas st' = (semas st)(lock_sema l \<mapsto> x\<lparr>s_value := s_value x + 1\<rparr>) \<and>
    lock_list t' = remove1 l (lock_list t)"
proof -
  let ?s = "lock_sema l" and ?gs = "IntqGetc InputQ # InputGetc old # fs"
  let ?t1 = "t\<lparr>lock_list := remove1 l (lock_list t), frames := SemaUp ?s # ?gs\<rparr>"
  let ?st1 = "put_thread (cur st) ?t1 (st\<lparr>holder := (holder st)(l \<mapsto> None)\<rparr>)"
  let ?t2 = "?t1\<lparr>frames := ?gs\<rparr>"
  let ?st2 = "put_sema ?s (x\<lparr>s_value := s_value x + 1\<rparr>) (put_thread (cur st) ?t2 ?st1)"
  have r1: "resume st = Some ?st1" by (rule resume_woken[OF assms(1,2,7,8,9)])
  have c1: "current ?st1 = Some ?t1" using assms(1) by (simp add: current_iff)
  have r2: "resume ?st1 = Some ?st2"
    using resume_sema_up[OF c1, of ?s ?gs x] assms(10,11) queue_okD(1)[OF assms(3)] by (simp add: lock_sema_def)
  have c2: "current ?st2 = Some ?t2" using assms(1) by (simp add: current_iff put_sema_def)
  have g2: "get_q InputQ ?st2 = get_q InputQ st" by (simp add: get_q_def put_sema_def put_thread_def)
  have "blocked ?st2 a" if "blocked st a" for a
    using that assms(1) by (auto simp: blocked_def is_thread_iff current_iff put_sema_def)
  then have q2: "queue_ok InputQ ?st2" using g2 by (intro queue_ok_cong[OF assms(3)]) (simp_all add: put_sema_def)
  obtain st3 where s3: "resume ?st2 = Some st3" "current st3 = Some (?t2\<lparr>frames := InputGetc old # fs, eax := uint b\<rparr>)"
    "cur st3 = cur ?st2" "queue_ok InputQ st3" "queue InputQ st3 = bs" "in_external_intr st3 = in_external_intr ?st2"
    "holder st3 = holder ?st2" "semas st3 = semas ?st2"
    by (rule resume_getc[OF c2 _ q2]) (use g2 assms(4,5) in \<open>simp_all add: queue_def\<close>)
  obtain st4 where s4: "resume st3 = Some st4" "current st4 = Some (?t2\<lparr>eax := uint b, frames := fs\<rparr>)"
    "cur st4 = cur st3" "\<And>q. queue q st4 = queue q st3" "intr_on st4 = old" "holder st4 = holder st3" "semas st4 = semas st3"
    by (rule resume_input_done[OF s3(2)])
       (use queue_okD(1)[OF s3(4)] s3(6) assms(6) in \<open>simp_all add: put_sema_def\<close>)
  have "resumes 4 st = Some st4" using r1 r2 s3(1) s4(1) by (simp add: numeral_eq_Suc)
  then show ?thesis using s3(3,5,7,8) s4(2-7) by (intro exI[of _ st4] exI[of _ "?t2\<lparr>eax := uint b, frames := fs\<rparr>"])
      (simp add: put_sema_def)
qed

definition woken_state :: "vmem \<Rightarrow> fs \<Rightarrow> sched" where
  "woken_state v f = (demo_sched v f)\<lparr>in_external_intr := False,
     threads := [4096 \<mapsto> (demo_thread THREAD_RUNNING 0)\<lparr>frames := [IntqWoken InputQ, IntqGetc InputQ, InputGetc True]\<rparr>],
     io := demo_io\<lparr>d_input := (d_input demo_io)\<lparr>q_buf := 97 # replicate 63 0, q_head := 1\<rparr>\<rparr>,
     holder := [104 \<mapsto> Some 4096], semas := [108 \<mapsto> \<lparr>s_value = 0, waiters = []\<rparr>]\<rparr>"

theorem woken_reader_returns_key_witness:
  "\<forall>v f. \<exists>st' t'. resumes 4 (woken_state v f) = Some st' \<and> current st' = Some t' \<and> frames t' = [] \<and> eax t' = 97"
proof (intro allI)
  fix v f
  let ?st = "woken_state v f" and ?t = "(demo_thread THREAD_RUNNING 0)\<lparr>frames := [IntqWoken InputQ, IntqGetc InputQ, InputGetc True]\<rparr>"
  note defs = woken_state_def demo_sched_def demo_io_def Let_def get_q_def
  have "current ?st = Some ?t" by (simp add: current_iff defs demo_thread_def)
  moreover have "queue_ok InputQ ?st" by (simp add: queue_ok_def intq_ok_def waiter_of_def INTQ_BUFSIZE_def defs)
  moreover have "queue InputQ ?st = [97]" by (simp add: queue_def q_contents_def q_len_def INTQ_BUFSIZE_def defs)
  ultimately show "\<exists>st' t'. resumes 4 ?st = Some st' \<and> current st' = Some t' \<and> frames t' = [] \<and> eax t' = 97"
    using woken_reader_returns_key[of ?st ?t True "[]" 97 "[]" 104 "\<lparr>s_value = 0, waiters = []\<rparr>"]
    by (auto simp: defs lock_sema_def)
qed

end
