(* ===== verification/KFileProps.thy ===== *)
theory KFileProps imports KFreeMap begin

text \<open>
  Open files on top of inodes: what one handle writes at its position, every handle of the same
  inode reads back there.
\<close>

lemma objs_irrelevant [simp]:
  "inode_ok (st\<lparr>objs := ob\<rparr>) ino = inode_ok st ino"
  "file_bytes (st\<lparr>objs := ob\<rparr>) ino = file_bytes st ino"
  by (simp_all add: inode_ok_def file_bytes_def fbyte_def[abs_def] the_disk_def)

lemma io_frame_objs: "io_frame C V st st' \<Longrightarrow> objs st' = objs st"
  unfolding io_frame_def by (elim conjE) (metis fs.select_convs(4) fs.surjective fs.update_convs(1))

lemma get_file_put [simp]: "get_file f (put_file g x st) = (if f = g then Some x else get_file f st)"
  by (simp add: get_file_def put_file_def)

lemma file_write_inside:
  assumes "get_file f st = Some x" "get_inode (f_inode x) st = Some ino" "cache_idle (bc st)" "inode_ok st ino"
    "i_deny_write_cnt ino = 0" "0 \<le> f_pos x" "0 \<le> sz" "f_pos x + sz \<le> i_length ino" "nat sz \<le> length buffer"
  defines "ino' \<equiv> ino\<lparr>i_read_length := i_length ino\<rparr>"
  obtains st1 where "file_write write_at f buffer sz st = Some (sz, st1)"
    "get_file f st1 = Some (x\<lparr>f_pos := f_pos x + sz\<rparr>)" "\<And>g. g \<noteq> f \<Longrightarrow> get_file g st1 = get_file g st"
    "get_inode (f_inode x) st1 = Some ino'" "cache_idle (bc st1)" "inode_ok st1 ino'"
    "file_bytes st1 ino' = put_bytes (nat (f_pos x)) (take (nat sz) buffer) (file_bytes st ino)"
proof -
  have o: "off (f_pos x + sz) = Some (f_pos x + sz)"
    using assms(4,6,7,8) by (simp add: off_def inode_ok_def MAX_FILE_SIZE_def)
  obtain st1 where w: "inode_write_at alloc1 (f_inode x) buffer sz (f_pos x) st = Some (sz, put_inode (f_inode x) ino' st1)"
    "io_frame (data_set st ino) (data_set st ino) st st1" "inode_ok (put_inode (f_inode x) ino' st1) ino'"
    "file_bytes (put_inode (f_inode x) ino' st1) ino' = put_bytes (nat (f_pos x)) (take (nat sz) buffer) (file_bytes st ino)"
    unfolding ino'_def by (rule inode_write_at_ok[OF assms(3,2,4-9)])
  have ob: "objs st1 = objs st" "cache_idle (bc st1)" using io_frame_objs[OF w(2)] io_frame_simps[OF w(2)] by simp_all
  let ?st' = "put_file f (x\<lparr>f_pos := f_pos x + sz\<rparr>) (put_inode (f_inode x) ino' st1)"
  show ?thesis
  proof (rule that)
    show "file_write write_at f buffer sz st = Some (sz, ?st')"
      using assms(1) w(1) o by (simp add: file_write_def write_at_def)
    show "get_file g ?st' = get_file g st" if "g \<noteq> f" for g
      using that ob by (simp add: get_file_def put_inode_def put_file_def)
    show "inode_ok ?st' ino'" using w(3) by (simp add: put_file_def)
    show "file_bytes ?st' ino' = put_bytes (nat (f_pos x)) (take (nat sz) buffer) (file_bytes st ino)"
      using w(4) by (simp add: put_file_def)
  qed (use ob in \<open>simp_all add: put_file_def put_inode_def get_inode_def get_file_def\<close>)
qed

lemma file_read_inside:
  assumes "get_file g st = Some y" "get_inode (f_inode y) st = Some ino" "cache_idle (bc st)" "inode_ok st ino"
    "i_read_length ino = i_length ino" "0 \<le> f_pos y" "0 \<le> sz" "f_pos y + sz \<le> i_length ino"
  obtains st1 where
    "file_read g sz st = Some (get_bytes (nat (f_pos y)) (nat sz) (file_bytes st ino), st1)"
    "get_file g st1 = Some (y\<lparr>f_pos := f_pos y + sz\<rparr>)" "\<And>f. f \<noteq> g \<Longrightarrow> get_file f st1 = get_file f st"
    "inodes st1 = inodes st" "file_bytes st1 ino = file_bytes st ino"
proof -
  obtain st1 where r: "inode_read_at (f_inode y) sz (f_pos y) st =
      Some (get_bytes (nat (f_pos y)) (nat sz) (file_bytes st ino), st1)" "io_frame (data_set st ino) {} st st1"
    by (rule inode_read_at_ok[OF assms(3,2,4,5,6)])
  have ob: "objs st1 = objs st" "inodes st1 = inodes st" using io_frame_objs[OF r(2)] io_frame_simps[OF r(2)] by simp_all
  have "int (min (nat sz) (length (file_bytes st ino) - nat (f_pos y))) = sz"
    using assms(6-8) by (simp add: file_bytes_def)
  then have o: "off (f_pos y + int (length (get_bytes (nat (f_pos y)) (nat sz) (file_bytes st ino)))) = Some (f_pos y + sz)"
    using assms(4,6-8) by (simp add: off_def inode_ok_def MAX_FILE_SIZE_def)
  let ?st' = "put_file g (y\<lparr>f_pos := f_pos y + sz\<rparr>) st1"
  show ?thesis
  proof (rule that)
    show "file_read g sz st = Some (get_bytes (nat (f_pos y)) (nat sz) (file_bytes st ino), ?st')"
      using r(1) assms(1) o by (simp add: file_read_def)
    show "get_file f ?st' = get_file f st" if "f \<noteq> g" for f
      using that ob by (simp add: get_file_def put_file_def)
    show "file_bytes ?st' ino = file_bytes st ino"
      using io_frame_file_bytes[OF r(2) assms(4) _ data_set_meta[OF assms(4)]] by (simp add: put_file_def)
  qed (use ob in \<open>simp_all add: put_file_def get_file_def\<close>)
qed

text \<open>
  C8: What is written through one open file is read back through another one of the same inode:
  after \<open>file_write\<close> of \<open>sz\<close> bytes inside the file, \<open>file_seek\<close> of the other handle to the place and
  \<open>file_read\<close> return exactly the bytes written, both handles stand behind them, and the rest of
  the file is as before.
\<close>

theorem file_write_read_roundtrip:
  assumes "get_file f st = Some x" "get_file g st = Some y" "f \<noteq> g" "f_inode y = f_inode x"
    "get_inode (f_inode x) st = Some ino" "cache_idle (bc st)" "inode_ok st ino" "i_deny_write_cnt ino = 0"
    "0 \<le> f_pos x" "0 \<le> sz" "f_pos x + sz \<le> i_length ino" "nat sz \<le> length buffer"
  shows "\<exists>st1 st2 st3 ino'. file_write write_at f buffer sz st = Some (sz, st1) \<and>
    file_seek g (f_pos x) st1 = Some st2 \<and> file_read g sz st2 = Some (take (nat sz) buffer, st3) \<and>
    file_tell f st3 = Some (f_pos x + sz) \<and> file_tell g st3 = Some (f_pos x + sz) \<and>
    get_inode (f_inode x) st3 = Some ino' \<and>
    (\<forall>k < nat (i_length ino). int k < f_pos x \<or> f_pos x + sz \<le> int k \<longrightarrow>
       file_bytes st3 ino' ! k = file_bytes st ino ! k)"
proof -
  let ?ino = "ino\<lparr>i_read_length := i_length ino\<rparr>" and ?o = "nat (f_pos x)" and ?b = "take (nat sz) buffer"
  obtain st1 where w: "file_write write_at f buffer sz st = Some (sz, st1)"
    "get_file f st1 = Some (x\<lparr>f_pos := f_pos x + sz\<rparr>)" "\<And>g. g \<noteq> f \<Longrightarrow> get_file g st1 = get_file g st"
    "get_inode (f_inode x) st1 = Some ?ino" "cache_idle (bc st1)" "inode_ok st1 ?ino"
    "file_bytes st1 ?ino = put_bytes ?o ?b (file_bytes st ino)"
    by (rule file_write_inside[OF assms(1,5-12)]) (rule that)
  let ?st2 = "put_file g (y\<lparr>f_pos := f_pos x\<rparr>) st1"
  have s: "file_seek g (f_pos x) st1 = Some ?st2"
    using assms(2,3,9) w(3) by (simp add: file_seek_def)
  have g2: "get_file g ?st2 = Some (y\<lparr>f_pos := f_pos x\<rparr>)" "get_file f ?st2 = Some (x\<lparr>f_pos := f_pos x + sz\<rparr>)"
    using assms(3) w(2) by simp_all
  have i2: "get_inode (f_inode x) ?st2 = Some ?ino" "cache_idle (bc ?st2)" "inode_ok ?st2 ?ino"
    using w(4-6) by (simp_all add: put_file_def get_inode_def)
  have fb: "file_bytes ?st2 ?ino = put_bytes ?o ?b (file_bytes st ino)" using w(7) by (simp add: put_file_def)
  obtain st3 where r: "file_read g sz ?st2 = Some (get_bytes ?o (nat sz) (file_bytes ?st2 ?ino), st3)"
    "get_file g st3 = Some (y\<lparr>f_pos := f_pos x + sz\<rparr>)" "get_file f st3 = get_file f ?st2"
    "inodes st3 = inodes ?st2" "file_bytes st3 ?ino = file_bytes ?st2 ?ino"
    using file_read_inside[OF g2(1) _ i2(2,3), of sz] i2(1) assms(3,4,9-11) by (auto elim!: meta_mp)
  have len: "?o + length ?b \<le> length (file_bytes st ino)" "length ?b = nat sz"
    using assms(9-12) by (simp_all add: file_bytes_def)
  have gb: "get_bytes ?o (nat sz) (file_bytes ?st2 ?ino) = ?b"
    unfolding fb using len by (simp add: get_bytes_def put_bytes_def)
  have "file_bytes st3 ?ino ! k = file_bytes st ino ! k"
    if "k < nat (i_length ino)" "int k < f_pos x \<or> f_pos x + sz \<le> int k" for k
  proof -
    have "k < length (file_bytes st ino)" "\<not> (?o \<le> k \<and> k < ?o + length ?b)"
      using that assms(9,10) len(2) by (auto simp: file_bytes_def)
    then show ?thesis unfolding r(5) fb using nth_put_bytes[OF len(1), of k] by auto
  qed
  moreover have "get_inode (f_inode x) st3 = Some ?ino" using i2(1) r(4) by (simp add: get_inode_def)
  moreover have "file_tell f st3 = Some (f_pos x + sz)" "file_tell g st3 = Some (f_pos x + sz)"
    using g2(2) r(2,3) by (simp_all add: file_tell_def)
  ultimately show ?thesis using w(1) s r(1) unfolding gb by blast
qed

theorem file_write_read_roundtrip_witness:
  "\<exists>st1 st2 st3. file_write write_at 20 [1, 2, 3] 3
       (demo_fs\<lparr>objs := [20 \<mapsto> File \<lparr>f_inode = 7, f_pos = 511, f_deny = False\<rparr>, 21 \<mapsto> File \<lparr>f_inode = 7, f_pos = 0, f_deny = False\<rparr>]\<rparr>) = Some (3, st1) \<and>
     file_seek 21 511 st1 = Some st2 \<and> file_read 21 3 st2 = Some ([1, 2, 3], st3)"
proof -
  let ?st = "demo_fs\<lparr>objs := [20 \<mapsto> File \<lparr>f_inode = 7, f_pos = 511, f_deny = False\<rparr>, 21 \<mapsto> File \<lparr>f_inode = 7, f_pos = 0, f_deny = False\<rparr>]\<rparr>"
  have "inode_ok ?st demo_inode" using demo_inode_ok by simp
  moreover have "get_file 20 ?st = Some \<lparr>f_inode = 7, f_pos = 511, f_deny = False\<rparr>"
    "get_file 21 ?st = Some \<lparr>f_inode = 7, f_pos = 0, f_deny = False\<rparr>" "get_inode 7 ?st = Some demo_inode"
    by (simp_all add: get_file_def get_inode_def demo_fs_def)
  ultimately show ?thesis
    using file_write_read_roundtrip[of 20 ?st "\<lparr>f_inode = 7, f_pos = 511, f_deny = False\<rparr>" 21
        "\<lparr>f_inode = 7, f_pos = 0, f_deny = False\<rparr>" demo_inode 3 "[1, 2, 3]"] by simp blast
qed

end
