(* ===== verification/KFsutil.thy ===== *)
theory KFsutil imports KFilesys KUstar KPrintf begin

text \<open>
  The actions on the kernel command line that work on files, \<open>filesys/fsutil.c\<close>: listing the root
  directory, printing and deleting a file, and copying files from and to a tar archive on the
  scratch device.  The state holds the file system, the byte memory with the strings and buffers, the
  device in the role \<open>BLOCK_SCRATCH\<close>, the addresses that the coming calls of \<open>malloc\<close> and
  \<open>palloc_get_page\<close> return, the two static variables \<open>sector\<close>, and what has been printed.
  A panic is \<open>None\<close>.
\<close>

record fsutil =
  u_fs :: fs
  u_mem :: memory
  u_scratch :: "block_dev option"
  u_mallocs :: "addr list"
  extract_sector :: u32
  append_sector :: u32
  u_out :: "u8 list"

definition u_malloc :: "fsutil \<Rightarrow> addr \<times> fsutil" where
  "u_malloc st = (case u_mallocs st of [] \<Rightarrow> (NULL, st) | a # as \<Rightarrow> (a, st\<lparr>u_mallocs := as\<rparr>))"

definition NEWLINE :: string where "NEWLINE = [CHR 0x0A]"

definition u_printf :: "string \<Rightarrow> u32 list \<Rightarrow> fsutil \<Rightarrow> fsutil option" where
  "u_printf fmt args st = do {
     out \<leftarrow> vprintf_loop 1 (literal fmt) args (u_mem st);
     Some (st\<lparr>u_out := u_out st @ out\<rparr>)
   }"

text \<open>The string at an address, as the file system's functions read it.\<close>

definition string_at :: "addr \<Rightarrow> memory \<Rightarrow> u8 list option" where
  "string_at p m = do { n \<leftarrow> strlen p m; Some (map (\<lambda>i. m (p + i)) [0..<n]) }"

text \<open>\<open>block_read\<close> into memory and \<open>block_write\<close> from memory, on the scratch device.\<close>

definition scratch_read :: "u32 \<Rightarrow> addr \<Rightarrow> fsutil \<Rightarrow> fsutil option" where
  "scratch_read sector buffer st = do {
     d \<leftarrow> u_scratch st;
     (bytes, d) \<leftarrow> block_read sector d;
     Some (st\<lparr>u_scratch := Some d, u_mem := store_bytes buffer bytes (u_mem st)\<rparr>)
   }"

definition scratch_write :: "u32 \<Rightarrow> addr \<Rightarrow> fsutil \<Rightarrow> fsutil option" where
  "scratch_write sector buffer st = do {
     d \<leftarrow> u_scratch st;
     d \<leftarrow> block_write sector (map (\<lambda>i. u_mem st (buffer + i)) [0..<BLOCK_SECTOR_SIZE]) d;
     Some (st\<lparr>u_scratch := Some d\<rparr>)
   }"

definition u_memset :: "addr \<Rightarrow> u8 \<Rightarrow> nat \<Rightarrow> fsutil \<Rightarrow> fsutil option" where
  "u_memset p v n st = do { (_, m) \<leftarrow> memset p v n (u_mem st); Some (st\<lparr>u_mem := m\<rparr>) }"

section \<open>Listing, printing, deleting\<close>

partial_function (option) ls_loop :: "addr \<Rightarrow> fsutil \<Rightarrow> fsutil option" where
  "ls_loop dir st = do {
     (name, f) \<leftarrow> dir_readdir dir (u_fs st);
     let st = st\<lparr>u_fs := f\<rparr>;
     case name of
       None \<Rightarrow> Some st
     | Some name \<Rightarrow> do {
         out \<leftarrow> vprintf_loop 1 (literal (''%s'' @ NEWLINE)) [1] (string_arg name);
         ls_loop dir (st\<lparr>u_out := u_out st @ out\<rparr>)
       }
   }"

definition fsutil_ls :: "addr list \<Rightarrow> fsutil \<Rightarrow> fsutil option" where
  "fsutil_ls argv st = do {
     st \<leftarrow> u_printf (''Files in the root directory:'' @ NEWLINE) [] st;
     (dir, f) \<leftarrow> dir_open_root (u_fs st);
     dir \<leftarrow> dir;
     st \<leftarrow> ls_loop dir (st\<lparr>u_fs := f\<rparr>);
     u_printf (''End of listing.'' @ NEWLINE) [] st
   }"

partial_function (option) cat_loop :: "addr \<Rightarrow> addr \<Rightarrow> fsutil \<Rightarrow> fsutil option" where
  "cat_loop file buffer st = do {
     pos \<leftarrow> file_tell file (u_fs st);
     (bytes, f) \<leftarrow> file_read file (int PGSIZE) (u_fs st);
     let st = st\<lparr>u_fs := f, u_mem := store_bytes buffer bytes (u_mem st)\<rparr>;
     if length bytes = 0 then Some st
     else do {
       outs \<leftarrow> hex_dump (of_int pos) buffer (length bytes) True (u_mem st);
       cat_loop file buffer (st\<lparr>u_out := u_out st @ concat outs\<rparr>)
     }
   }"

definition fsutil_cat :: "addr list \<Rightarrow> fsutil \<Rightarrow> fsutil option" where
  "fsutil_cat argv st = do {
     let file_name = argv ! 1;
     st \<leftarrow> u_printf (''Printing '' @ [CHR 0x27] @ ''%s'' @ [CHR 0x27] @ '' to the console...'' @ NEWLINE) [of_nat file_name] st;
     name \<leftarrow> string_at file_name (u_mem st);
     (file, f) \<leftarrow> filesys_open name (u_fs st);
     file \<leftarrow> file;
     let (buffer, st) = u_malloc (st\<lparr>u_fs := f\<rparr>);
     ASSERT (buffer \<noteq> NULL);
     st \<leftarrow> cat_loop file buffer st;
     f \<leftarrow> file_close close_inode (Some file) (u_fs st);
     Some (st\<lparr>u_fs := f\<rparr>)
   }"

definition fsutil_rm :: "addr list \<Rightarrow> fsutil \<Rightarrow> fsutil option" where
  "fsutil_rm argv st = do {
     let file_name = argv ! 1;
     st \<leftarrow> u_printf (''Deleting '' @ [CHR 0x27] @ ''%s'' @ [CHR 0x27] @ ''...'' @ NEWLINE) [of_nat file_name] st;
     name \<leftarrow> string_at file_name (u_mem st);
     (ok, f) \<leftarrow> filesys_remove name (u_fs st);
     ASSERT ok;
     Some (st\<lparr>u_fs := f\<rparr>)
   }"

section \<open>Extracting an archive\<close>

definition chunk_size_of :: "int \<Rightarrow> int" where
  "chunk_size_of sz = (if sz > int BLOCK_SECTOR_SIZE then int BLOCK_SECTOR_SIZE else sz)"

text \<open>The loop that copies the data of one file: \<open>sz\<close> bytes are left.\<close>

function extract_copy :: "addr \<Rightarrow> addr \<Rightarrow> int \<Rightarrow> fsutil \<Rightarrow> fsutil option" where
  "extract_copy dst data sz st =
     (if sz > 0 then do {
        let chunk_size = chunk_size_of sz;
        let sector = extract_sector st;
        st \<leftarrow> scratch_read sector data (st\<lparr>extract_sector := sector + 1\<rparr>);
        (n, f) \<leftarrow> file_write write_at dst (map (\<lambda>i. u_mem st (data + i)) [0..<BLOCK_SECTOR_SIZE]) chunk_size (u_fs st);
        ASSERT (n = chunk_size);
        extract_copy dst data (sz - chunk_size) (st\<lparr>u_fs := f\<rparr>)
      }
      else Some st)"
  by auto
termination
  by (relation "measure (\<lambda>(dst, data, sz, st). nat sz)") (auto simp: chunk_size_of_def BLOCK_SECTOR_SIZE_def)

declare extract_copy.simps [simp del]

text \<open>A name that \<open>ustar_parse_header\<close> returns, and as an argument of \<open>printf\<close>.\<close>

definition entry_name :: "ustar_name \<Rightarrow> memory \<Rightarrow> u8 list option" where
  "entry_name nm m = (case nm of NameAt a \<Rightarrow> string_at a m | NameDot \<Rightarrow> Some [46] | NameNull \<Rightarrow> None)"

definition say_entry :: "string \<Rightarrow> u8 list \<Rightarrow> fsutil \<Rightarrow> fsutil option" where
  "say_entry fmt name st = do {
     out \<leftarrow> vprintf_loop 1 (literal fmt) [1] (string_arg name);
     Some (st\<lparr>u_out := u_out st @ out\<rparr>)
   }"

partial_function (option) extract_loop :: "addr \<Rightarrow> addr \<Rightarrow> fsutil \<Rightarrow> fsutil option" where
  "extract_loop header data st = do {
     let sector = extract_sector st;
     st \<leftarrow> scratch_read sector header (st\<lparr>extract_sector := sector + 1\<rparr>);
     parsed \<leftarrow> ustar_parse_header header (u_mem st);
     case parsed of
       Inl error \<Rightarrow> None
     | Inr (file_name, type, sz) \<Rightarrow>
         if type = USTAR_EOF then Some st
         else do {
           name \<leftarrow> entry_name file_name (u_mem st);
           if type = USTAR_DIRECTORY then do {
             st \<leftarrow> say_entry (''ignoring directory %s'' @ NEWLINE) name st;
             extract_loop header data st
           }
           else do {
             st \<leftarrow> say_entry (''Putting '' @ [CHR 0x27] @ ''%s'' @ [CHR 0x27] @ '' into the file system...'' @ NEWLINE) name st;
             (ok, f) \<leftarrow> filesys_create name (sint sz) False (u_fs st);
             ASSERT ok;
             (dst, f) \<leftarrow> filesys_open name f;
             dst \<leftarrow> dst;
             st \<leftarrow> extract_copy dst data (sint sz) (st\<lparr>u_fs := f\<rparr>);
             f \<leftarrow> file_close close_inode (Some dst) (u_fs st);
             extract_loop header data (st\<lparr>u_fs := f\<rparr>)
           }
         }
   }"

definition fsutil_extract :: "addr list \<Rightarrow> fsutil \<Rightarrow> fsutil option" where
  "fsutil_extract argv st = do {
     let (header, st) = u_malloc st;
     let (data, st) = u_malloc st;
     ASSERT (header \<noteq> NULL \<and> data \<noteq> NULL);
     ASSERT (u_scratch st \<noteq> None);
     st \<leftarrow> u_printf (''Extracting ustar archive from scratch device into file system...'' @ NEWLINE) [] st;
     st \<leftarrow> extract_loop header data st;
     st \<leftarrow> u_printf (''Erasing ustar archive...'' @ NEWLINE) [] st;
     st \<leftarrow> u_memset header 0 BLOCK_SECTOR_SIZE st;
     st \<leftarrow> scratch_write 0 header st;
     scratch_write 1 header st
   }"

section \<open>Appending to an archive\<close>

function append_copy :: "addr \<Rightarrow> addr \<Rightarrow> int \<Rightarrow> fsutil \<Rightarrow> fsutil option" where
  "append_copy src buffer sz st =
     (if sz > 0 then do {
        let chunk_size = chunk_size_of sz;
        d \<leftarrow> u_scratch st;
        ASSERT (append_sector st < bd_size d);
        (bytes, f) \<leftarrow> file_read src chunk_size (u_fs st);
        let st = st\<lparr>u_fs := f, u_mem := store_bytes buffer bytes (u_mem st)\<rparr>;
        ASSERT (int (length bytes) = chunk_size);
        st \<leftarrow> u_memset (buffer + nat chunk_size) 0 (BLOCK_SECTOR_SIZE - nat chunk_size) st;
        let sector = append_sector st;
        st \<leftarrow> scratch_write sector buffer (st\<lparr>append_sector := sector + 1\<rparr>);
        append_copy src buffer (sz - chunk_size) st
      }
      else Some st)"
  by auto
termination
  by (relation "measure (\<lambda>(src, buffer, sz, st). nat sz)") (auto simp: chunk_size_of_def BLOCK_SECTOR_SIZE_def)

declare append_copy.simps [simp del]

definition fsutil_append :: "addr list \<Rightarrow> fsutil \<Rightarrow> fsutil option" where
  "fsutil_append argv st = do {
     let file_name = argv ! 1;
     st \<leftarrow> u_printf (''Appending '' @ [CHR 0x27] @ ''%s'' @ [CHR 0x27] @ '' to ustar archive on scratch device...'' @ NEWLINE) [of_nat file_name] st;
     let (buffer, st) = u_malloc st;
     ASSERT (buffer \<noteq> NULL);
     name \<leftarrow> string_at file_name (u_mem st);
     (src, f) \<leftarrow> filesys_open name (u_fs st);
     src \<leftarrow> src;
     sz \<leftarrow> file_length src f;
     let st = st\<lparr>u_fs := f\<rparr>;
     ASSERT (u_scratch st \<noteq> None);
     (ok, m) \<leftarrow> ustar_make_header file_name USTAR_REGULAR (of_int sz) buffer (u_mem st);
     ASSERT ok;
     let st = st\<lparr>u_mem := m\<rparr>;
     let sector = append_sector st;
     st \<leftarrow> scratch_write sector buffer (st\<lparr>append_sector := sector + 1\<rparr>);
     st \<leftarrow> append_copy src buffer sz st;
     st \<leftarrow> u_memset buffer 0 BLOCK_SECTOR_SIZE st;
     st \<leftarrow> scratch_write (append_sector st) buffer st;
     st \<leftarrow> scratch_write (append_sector st) (buffer + 1) st;
     f \<leftarrow> file_close close_inode (Some src) (u_fs st);
     Some (st\<lparr>u_fs := f\<rparr>)
   }"

end
