(* ===== verification/KUstarProps.thy ===== *)
theory KUstarProps imports KUstar KStdioProps begin

text \<open>
  Tar headers survive being written and read: the octal fields, the checksum, the names, and the
  bytes of a header that \<open>ustar_make_header\<close> has filled in.
\<close>

section \<open>Octal numbers\<close>

text \<open>The \<open>w\<close> last octal digits of a number, as characters.\<close>

primrec octal :: "nat \<Rightarrow> nat \<Rightarrow> u8 list" where
  "octal 0 v = []"
| "octal (Suc w) v = (48 + of_nat (v div 8 ^ w mod 8)) # octal w v"

lemma length_octal [simp]: "length (octal w v) = w"
  by (induction w) simp_all

lemma octal_snoc: "octal (Suc w) v = octal w (v div 8) @ [48 + of_nat (v mod 8)]"
proof (induction w)
  case (Suc w)
  have "v div 8 ^ Suc w = v div 8 div 8 ^ w" by (simp add: div_mult2_eq)
  then show ?case using Suc by simp
qed simp

lemma octal_0: "octal w 0 = replicate w 48"
  by (induction w) simp_all

lemma digit_range:
  fixes k :: nat
  assumes "k < 8"
  shows "byte CHR ''0'' \<le>s (48 + of_nat k :: u8)" "(48 + of_nat k :: u8) \<le>s byte CHR ''7''"
    "scast (48 + of_nat k :: u8) = (48 + of_nat k :: u32)" "digits base_o ! k = 48 + of_nat k" "(48 + of_nat k :: u8) \<noteq> 0"
proof -
  have "k \<in> {0, 1, 2, 3, 4, 5, 6, 7}" using assms by auto
  then show "byte CHR ''0'' \<le>s (48 + of_nat k :: u8)" "(48 + of_nat k :: u8) \<le>s byte CHR ''7''"
    "scast (48 + of_nat k :: u8) = (48 + of_nat k :: u32)" "digits base_o ! k = 48 + of_nat k" "(48 + of_nat k :: u8) \<noteq> 0"
    by (auto simp: word_sle_eq base_o_def)
qed

text \<open>The digits that the loop of \<open>format_integer\<close> makes, the last one first.\<close>

fun oct_digits :: "nat \<Rightarrow> u8 list" where
  "oct_digits n = (if n = 0 then [] else (48 + of_nat (n mod 8)) # oct_digits (n div 8))"

declare oct_digits.simps [simp del]

lemma oct_digits_0 [simp]: "oct_digits 0 = []"
  by (simp add: oct_digits.simps)

lemma oct_digits_pos: "0 < n \<Longrightarrow> oct_digits n = (48 + of_nat (n mod 8)) # oct_digits (n div 8)"
  by (subst oct_digits.simps) simp

lemma length_oct_digits: "n < 8 ^ k \<Longrightarrow> length (oct_digits n) \<le> k"
proof (induction k arbitrary: n)
  case (Suc k)
  show ?case
  proof (cases "n = 0")
    case False
    have "n div 8 < 8 ^ k" using Suc.prems by (simp add: div_less_iff_less_mult mult.commute)
    then show ?thesis using Suc.IH False by (simp add: oct_digits_pos)
  qed simp
qed simp

lemma digits_loop_oct: "digits_loop base_o False v k buf = Some (buf @ oct_digits (unat v))"
proof (induction "unat v" arbitrary: v k buf rule: less_induct)
  case less
  show ?case
  proof (cases "v = 0")
    case True
    then show ?thesis by (subst digits_loop.simps) simp
  next
    case False
    have b: "ib_base base_o = 8" by (simp add: base_o_def)
    have u: "unat (v div 8) = unat v div 8" "unat (v mod 8) = unat v mod 8" by (simp_all add: unat_div unat_mod)
    have pos: "0 < unat v" using False by (simp add: unat_gt_0)
    then have "unat (v div 8) < unat v" using u(1) by simp
    from less.hyps[OF this, of "k + 1"] have "digits_loop base_o False (v div 8) (k + 1) (buf @ [48 + of_nat (unat v mod 8)]) =
        Some (buf @ oct_digits (unat v))"
      using u pos by (simp add: oct_digits_pos)
    moreover have "digits base_o ! unat (v mod 8) = 48 + of_nat (unat v mod 8)" using u(2) by (simp add: digit_range)
    ultimately show ?thesis using False by (subst digits_loop.simps) (simp add: Let_def b word_gt_0)
  qed
qed

lemma pad_oct_digits: "n < 8 ^ w \<Longrightarrow> replicate (w - length (oct_digits n)) 48 @ rev (oct_digits n) = octal w n"
proof (induction w arbitrary: n)
  case (Suc w)
  show ?case
  proof (cases "n = 0")
    case True
    then show ?thesis by (simp add: octal_0 del: octal.simps)
  next
    case False
    have "n div 8 < 8 ^ w" using Suc.prems by (simp add: div_less_iff_less_mult mult.commute)
    from Suc.IH[OF this] show ?thesis using False by (simp add: oct_digits_pos octal_snoc del: octal.simps)
  qed
qed simp

text \<open>The conversions \<open>%07o\<close> and \<open>%011o\<close>.\<close>

definition zero_o :: "u32 \<Rightarrow> printf_conversion" where
  "zero_o w = \<lparr>flags = ZERO, width = w, precision = - 1, arg_type = T_INT\<rparr>"

lemma zero_flag [simp]: "ZERO AND POUND = 0" "ZERO AND GROUP = 0" "ZERO AND MINUS = 0" "ZERO \<noteq> 0"
  "ZERO AND PLUS = 0" "0 OR ZERO = ZERO"  "ZERO AND (MINUS OR ZERO) \<noteq> 0"
  by (simp_all add: ZERO_def POUND_def GROUP_def MINUS_def PLUS_def)

lemma format_zero_o:
  assumes "unat v < 8 ^ w" "0 < w" "w < 64"
  shows "format_integer v False False base_o (zero_o (of_nat w)) = Some (octal w (unat v))"
proof -
  let ?ds = "oct_digits (unat v)"
  define buf where "buf = (if ?ds = [] then [48] else ?ds)"
  have l: "length buf \<le> w" "length ?ds \<le> w" using length_oct_digits[OF assms(1)] assms(2) by (auto simp: buf_def)
  then have e: "of_nat w - of_nat (length buf) = (of_nat (w - length buf) :: u32)" by (simp add: of_nat_diff)
  have s: "\<not> (of_nat (w - length buf) :: u32) <s 0"
  proof -
    have "sint (of_nat (w - length buf) :: u32) = int (w - length buf)"
      by (rule sint_of_nat_small) (use assms(3) in simp)
    then show ?thesis by (simp add: word_sless_alt)
  qed
  have u: "unat (of_nat (w - length buf) :: u32) = w - length buf"
    using assms(3) by (simp add: unsigned_of_nat take_bit_nat_eq_self_iff)
  have c: "(- 1 :: u32) <s 0" using neg_small[of 1] by simp
  have r: "replicate (w - length buf) 48 @ rev buf = octal w (unat v)"
  proof (cases "?ds = []")
    case True
    then have "unat v = 0" by (metis list.discI not_gr_zero oct_digits_pos)
    then show ?thesis using True assms(2) by (cases w) (simp_all add: buf_def octal_0 replicate_append_same[symmetric] del: octal.simps)
  qed (use pad_oct_digits[OF assms(1)] in \<open>simp add: buf_def\<close>)
  have z: "zeros_loop 1 ?ds = buf" by (simp add: zeros_loop_1 buf_def)
  show ?thesis
    using c s u r by (simp add: format_integer_def zero_o_def digits_loop_oct Let_def format_sign_def z e output_dup_def)
qed



lemma parse_flags_zero:
  assumes "fm p = 48" "fm (p + 1) \<in> {49, 55}"
  shows "parse_flags p 0 fm = Some (ZERO, p + 1)"
proof -
  have "parse_flags (p + 1) ZERO fm = Some (ZERO, p + 1)"
    by (subst parse_flags.simps) (use assms(2) in auto)
  then show ?thesis by (subst parse_flags.simps) (use assms(1) in simp)
qed

lemma parse_number_digit: "isdigit (sint (fm p)) \<Longrightarrow>
    parse_number p n fm = parse_number (p + 1) (n * 10 + scast (fm p) - 48) fm"
  by (subst parse_number.simps) simp

lemma parse_number_end: "\<not> isdigit (sint (fm p)) \<Longrightarrow> parse_number p n fm = Some (n, p)"
  by (subst parse_number.simps) simp

lemma parse_07o:
  assumes "fm p = 48" "fm (p + 1) = 55" "fm (p + 2) = 111"
  shows "parse_conversion p args fm = Some (p + 2, zero_o 7, args)"
proof -
  have "parse_number (p + 1) 0 fm = Some (7, p + 2)"
    using assms by (simp add: parse_number_digit parse_number_end isdigit_def numeral_2_eq_2)
  moreover have "\<not> (0 :: u32) \<le>s - 1" "\<not> (7 :: u32) <s 0" "\<not> (11 :: u32) <s 0"
    by (simp_all add: word_sle_eq word_sless_alt)
  ultimately show ?thesis using assms
    by (simp add: parse_conversion_def parse_flags_zero parse_type_def zero_o_def Let_def)
qed

lemma parse_011o:
  assumes "fm p = 48" "fm (p + 1) = 49" "fm (p + 2) = 49" "fm (p + 3) = 111"
  shows "parse_conversion p args fm = Some (p + 3, zero_o 11, args)"
proof -
  have "parse_number (p + 1) 0 fm = Some (11, p + 3)"
    using assms by (simp add: parse_number_digit parse_number_end isdigit_def numeral_2_eq_2 numeral_3_eq_3)
  moreover have "\<not> (0 :: u32) \<le>s - 1" "\<not> (7 :: u32) <s 0" "\<not> (11 :: u32) <s 0"
    by (simp_all add: word_sle_eq word_sless_alt)
  ultimately show ?thesis using assms
    by (simp add: parse_conversion_def parse_flags_zero parse_type_def zero_o_def Let_def)
qed

lemma vprintf_octal:
  assumes "fm f = byte CHR ''%''" "fm (f + 1) = 48" "parse_conversion (f + 1) [v] fm = Some (q, zero_o (of_nat w), [v])"
    "fm q = 111" "fm (q + 1) = 0" "unat v < 8 ^ w" "0 < w" "w < 64"
  shows "vprintf_loop f fm [v] m = Some (octal w (unat v))"
proof -
  have z: "vprintf_loop (q + 1) fm [] m = Some []"
    using assms(5) by (subst vprintf_loop.simps) simp
  have u: "unat (ucast v :: u64) = unat v" by (simp add: unsigned_ucast_eq take_bit_nat_eq_self_iff order.strict_trans2[OF unsigned_less])
  have fi: "format_integer (ucast v) False False base_o (zero_o (of_nat w)) = Some (octal w (unat v))"
    using format_zero_o[of "ucast v" w] assms(6-8) u by simp
  have t: "arg_type (zero_o (of_nat w)) = T_INT" by (simp add: zero_o_def)
  show ?thesis
    by (subst vprintf_loop.simps) (use assms(1-4) fi z t in \<open>simp add: unsigned_arg_def va_arg_def Let_def\<close>)
qed

section \<open>Stores\<close>

lemma store_bytes_at:
  "store_bytes (h + i) bs m (h + k) = (if i \<le> k \<and> k < i + length bs then bs ! (k - i) else m (h + k))"
  by (simp add: store_bytes_def)

lemma store_bytes_upd: "m(p := c) = store_bytes p [c] m"
  by (rule ext) (auto simp: store_bytes_def)

lemma snprintf_const_ok:
  assumes "vprintf_loop 1 (literal fmt) args m = Some out" "length out < unat n" "unat n < 2 ^ 31"
  shows "snprintf_const p n fmt args m = Some (store_bytes p (out @ [0]) m)"
proof -
  have n: "n \<noteq> 0" using assms(2) by auto
  have "unat n - 1 < 2 ^ 31" "length out < 2 ^ 31" using assms(2,3) by simp_all
  note h = helper_fold[OF this(2,1), of p m]
  have mn: "min (length out) (unat n - 1) = length out" using assms(2) by simp
  have "(\<lambda>a. if p \<le> a \<and> a < p + length out then out ! (a - p) else m a)(p + length out := 0) = store_bytes p (out @ [0]) m"
    by (rule ext) (auto simp: store_bytes_def nth_append)
  moreover have "(if n > 0 then n - 1 else 0) = of_nat (unat n - 1)"
    using n of_nat_unat_minus_one[OF n] by (simp add: word_gt_0)
  ultimately show ?thesis
    using n h unfolding snprintf_const_def assms(1) by (simp add: mn word_gt_0 Let_def del: One_nat_def)
qed


section \<open>Octal fields\<close>

lemma parse_octal_digits:
  assumes "\<And>i. i < w \<Longrightarrow> m (s + ofs + i) = octal w v ! i" "m (s + ofs + w) = 0" "v < 2 ^ 32" "0 < ofs + w" "w < n"
    "val = of_nat (v div 8 ^ w)"
  shows "parse_octal_loop n ofs s val m = Some (of_nat v)"
  using assms
proof (induction w arbitrary: n ofs val)
  case 0
  then obtain k where "n = Suc k" by (cases n) auto
  then show ?case using 0 by (simp add: word_sle_eq)
next
  case (Suc w)
  then obtain k where k: "n = Suc k" by (cases n) auto
  let ?d = "v div 8 ^ w mod 8"
  have c: "m (s + ofs) = 48 + of_nat ?d" using Suc.prems(1)[of 0] by simp
  have dv: "v div 8 ^ Suc w = v div 8 ^ w div 8" by (simp add: div_mult2_eq[symmetric] mult.commute)
  have "v div 8 ^ w \<le> v" by simp
  then have "v div 8 ^ w \<le> 0xffffffff" by (rule order.trans) (use Suc.prems(3) in simp)
  then have le: "v div 8 ^ Suc w \<le> 0xffffffff div 8" unfolding dv by (rule div_le_mono)
  moreover have "v div 8 ^ Suc w < 2 ^ 32" using Suc.prems(3) by (rule le_less_trans[rotated]) simp
  then have "unat val = v div 8 ^ Suc w" unfolding Suc.prems(6) by (simp add: unsigned_of_nat take_bit_nat_eq_self)
  ultimately have small: "\<not> (0xffffffff div 8 :: u32) < val" by (simp add: word_less_nat_alt)
  have "scast (m (s + ofs)) - 48 + val * 8 = of_nat (?d + 8 * (v div 8 ^ w div 8))"
    unfolding c Suc.prems(6) dv by (simp only: of_nat_add of_nat_mult) (simp add: digit_range)
  also have "\<dots> = of_nat (v div 8 ^ w)" by simp
  finally have val: "scast (m (s + ofs)) - 48 + val * 8 = of_nat (v div 8 ^ w)" .
  have "parse_octal_loop k (ofs + 1) s (of_nat (v div 8 ^ w)) m = Some (of_nat v)"
  proof (rule Suc.IH)
    fix i assume "i < w"
    then show "m (s + (ofs + 1) + i) = octal w v ! i" using Suc.prems(1)[of "Suc i"] by simp
  qed (use Suc.prems k in simp_all)
  then show ?case
    unfolding k parse_octal_loop.simps using c small val digit_range(1,2)[of ?d] by (simp add: Let_def)
qed

lemma parse_octal_field_ok:
  assumes "\<And>i. i < w + 1 \<Longrightarrow> m (s + i) = (octal w v @ [0]) ! i" "v < 2 ^ 32" "v < 8 ^ w" "0 < w"
  shows "parse_octal_field s (w + 1) m = Some (of_nat v)"
  unfolding parse_octal_field_def
proof (rule parse_octal_digits[of w])
  fix i assume "i < w"
  then show "m (s + 0 + i) = octal w v ! i" using assms(1)[of i] by (simp add: nth_append)
qed (use assms(1)[of w] assms(2-4) in \<open>simp_all add: nth_append\<close>)

section \<open>Checksums\<close>

lemma chksum_loop_cong:
  assumes "\<And>j. i \<le> j \<Longrightarrow> j < i + n \<Longrightarrow> j < h_chksum \<or> h_chksum + 8 \<le> j \<Longrightarrow> m (h + j) = m' (h' + j)"
  shows "chksum_loop n i h c m = chksum_loop n i h' c m'"
  using assms
proof (induction n arbitrary: i c)
  case (Suc n)
  have "m (h + i) = m' (h' + i)" if "\<not> (h_chksum \<le> i \<and> i < h_chksum + 8)" using that by (intro Suc.prems) auto
  moreover have "chksum_loop n (i + 1) h c' m = chksum_loop n (i + 1) h' c' m'" for c'
    by (rule Suc.IH) (use Suc.prems in auto)
  ultimately show ?case by (auto simp: Let_def)
qed simp

lemma calculate_chksum_cong:
  "(\<And>j. j < 512 \<Longrightarrow> j < h_chksum \<or> h_chksum + 8 \<le> j \<Longrightarrow> m (h + j) = m' (h' + j)) \<Longrightarrow>
   calculate_chksum h m = calculate_chksum h' m'"
  unfolding calculate_chksum_def USTAR_HEADER_SIZE_def by (rule chksum_loop_cong) simp

lemma chksum_loop_bound:
  "unat c + 255 * n < 2 ^ 32 \<Longrightarrow> unat (chksum_loop n i h c m) \<le> unat c + 255 * n"
proof (induction n arbitrary: i c)
  case (Suc n)
  let ?x = "if i \<ge> h_chksum \<and> i < h_chksum + 8 then ucast (byte CHR '' '') else ucast (m (h + i)) :: u32"
  have b: "unat (ucast (y :: u8) :: u32) \<le> 255" for y
  proof -
    have "unat y < 2 ^ LENGTH(8)" by (rule unsigned_less)
    then show ?thesis by (simp add: unsigned_ucast_eq take_bit_nat_eq_self)
  qed
  then have x: "unat ?x \<le> 255" by auto
  have "unat (c + ?x) = unat c + unat ?x"
    by (rule unat_add_lem[THEN iffD1]) (use Suc.prems x in simp)
  then have "unat (c + ?x) + 255 * n < 2 ^ 32" "unat (c + ?x) + 255 * n \<le> unat c + 255 * Suc n"
    using Suc.prems x by (simp_all del: power_numeral power_Suc)
  then have "unat (chksum_loop n (i + 1) h (c + ?x) m) \<le> unat c + 255 * Suc n"
    using Suc.IH[of "c + ?x" "i + 1"] by (meson order.trans)
  then show ?case by (simp only: chksum_loop.simps Let_def)
qed simp

lemma calculate_chksum_bound: "unat (calculate_chksum h m) < 8 ^ 7"
  using chksum_loop_bound[of 0 512 0 h m] by (simp add: calculate_chksum_def USTAR_HEADER_SIZE_def)

section \<open>Names\<close>

text \<open>What \<open>strip_antisocial_prefixes\<close> makes of a name.\<close>

definition antisocial :: "u8 list \<Rightarrow> bool" where
  "antisocial s \<longleftrightarrow> take 1 s = map byte ''/'' \<or> take 2 s = map byte ''./'' \<or> take 3 s = map byte ''../''"

function strip_prefixes :: "u8 list \<Rightarrow> u8 list" where
  "strip_prefixes s = (if antisocial s then strip_prefixes (tl (dropWhile (\<lambda>c. c \<noteq> byte CHR ''/'') s)) else s)"
  by pat_completeness auto
termination
proof (relation "measure length")
  fix s assume "antisocial s"
  then have "s \<noteq> []" by (auto simp: antisocial_def)
  moreover have "length (dropWhile (\<lambda>c. c \<noteq> byte CHR ''/'') s) \<le> length s" by (rule length_dropWhile_le)
  ultimately show "(tl (dropWhile (\<lambda>c. c \<noteq> byte CHR ''/'') s), s) \<in> measure length"
    by (cases s) (auto simp: less_Suc_eq_le)
qed simp

declare strip_prefixes.simps [simp del]

definition archive_name :: "u8 list \<Rightarrow> u8 list" where
  "archive_name s = (let t = strip_prefixes s in if t = [] \<or> t = map byte ''..'' then map byte ''.'' else t)"


lemma bytes_are_iff:
  assumes "cstr m p s" "0 \<notin> set bs"
  shows "bytes_are p bs m \<longleftrightarrow> take (length bs) s = bs"
proof -
  have eq: "length bs \<le> length s \<Longrightarrow> map (\<lambda>i. m (p + i)) [0..<length bs] = take (length bs) s"
    using cstr_nth[OF assms(1)] by (intro nth_equalityI) auto
  show ?thesis
  proof (cases "length bs \<le> length s")
    case False
    then have "m (p + length s) \<noteq> bs ! length s" using cstr_end[OF assms(1)] assms(2) by (metis not_le nth_mem)
    then have "map (\<lambda>i. m (p + i)) [0..<length bs] ! length s \<noteq> bs ! length s" using False by simp
    then have "map (\<lambda>i. m (p + i)) [0..<length bs] \<noteq> bs" by metis
    moreover have "length (take (length bs) s) \<noteq> length bs" using False by simp
    then have "take (length bs) s \<noteq> bs" by metis
    ultimately show ?thesis by (simp add: bytes_are_def)
  qed (simp add: bytes_are_def eq)
qed

lemma string_is_dotdot: "cstr m p s \<Longrightarrow> string_is p ''..'' m \<longleftrightarrow> s = map byte ''..''"
  by (cases s; cases "tl s"; cases "tl (tl s)") (auto simp: string_is_def bytes_are_def)

lemma strip_loop_ok:
  assumes "cstr m p s" "p \<noteq> NULL"
  shows "\<exists>q. strip_loop p m = Some q \<and> cstr m q (strip_prefixes s) \<and> p \<le> q \<and> q + length (strip_prefixes s) = p + length s"
  using assms
proof (induction s arbitrary: p rule: strip_prefixes.induct)
  case (1 s)
  let ?t = "dropWhile (\<lambda>c. c \<noteq> byte CHR ''/'') s"
  have first: "m p = byte CHR ''/'' \<longleftrightarrow> take 1 s = map byte ''/''"
    using 1(2) by (cases s) auto
  have anti: "m p = byte CHR ''/'' \<or> bytes_are p (map byte ''./'') m \<or> bytes_are p (map byte ''../'') m \<longleftrightarrow> antisocial s"
  proof -
    have l: "length (map byte ''./'') = 2" "length (map byte ''../'') = 3" by simp_all
    have "0 \<notin> set (map byte ''./'')" "0 \<notin> set (map byte ''../'')" by simp_all
    note b = this[THEN bytes_are_iff[OF 1(2)], unfolded l]
    show ?thesis unfolding first antisocial_def b ..
  qed
  show ?case
  proof (cases "antisocial s")
    case True
    have sl: "byte CHR ''/'' \<in> set s"
    proof -
      have *: "byte CHR ''/'' \<in> set s" if "take n s = map byte t" "CHR ''/'' \<in> set t" for n t
        using that by (metis imageI in_set_takeD set_map)
      have "CHR ''/'' \<in> set ''/''" "CHR ''/'' \<in> set ''./''" "CHR ''/'' \<in> set ''../''" by simp_all
      then show ?thesis using True * unfolding antisocial_def by metis
    qed
    let ?k = "length (takeWhile (\<lambda>c. c \<noteq> byte CHR ''/'') s)"
    have c: "strchr p (byte CHR ''/'') m = Some (p + ?k)"
      using strchr_loop_ok[OF 1(2), of "byte CHR ''/''"] sl 1(3) by (simp add: strchr_def)
    have t: "?t = drop ?k s" by (simp add: dropWhile_eq_drop)
    have k: "?k < length s" using sl t by (metis (full_types) drop_all dropWhile_eq_Nil_conv not_le)
    have "cstr m (p + ?k + 1) (tl ?t)" 
      using cstr_drop[OF 1(2), of "?k + 1"] k unfolding t by (simp add: drop_Suc tl_drop)
    from 1(1)[OF True this] obtain q where
      q: "strip_loop (p + ?k + 1) m = Some q" "cstr m q (strip_prefixes (tl ?t))" "p + ?k + 1 \<le> q"
        "q + length (strip_prefixes (tl ?t)) = p + ?k + 1 + length (tl ?t)" by auto
    have "length (tl ?t) + ?k + 1 = length s" using k arg_cong[OF t, of length] by simp
    moreover have "strip_loop p m = Some q" by (subst strip_loop.simps) (use anti True c q(1) in simp)
    ultimately show ?thesis using q(2-4) True by (subst (1 2) strip_prefixes.simps) auto
  next
    case False
    have "strip_loop p m = Some p" by (subst strip_loop.simps) (use anti False in auto)
    then show ?thesis using 1(2) False by (subst (1 2) strip_prefixes.simps) auto
  qed
qed


lemma strip_antisocial_ok:
  assumes "cstr m p s" "p \<noteq> NULL"
  obtains q where "strip_antisocial_prefixes p m =
      Some (if archive_name s = strip_prefixes s then Some q else None)"
    "archive_name s = strip_prefixes s \<Longrightarrow> cstr m q (archive_name s) \<and> p \<le> q \<and> q + length (archive_name s) = p + length s"
    "archive_name s \<noteq> strip_prefixes s \<Longrightarrow> archive_name s = map byte ''.''"
proof -
  let ?t = "strip_prefixes s"
  obtain q where q: "strip_loop p m = Some q" "cstr m q ?t" "p \<le> q" "q + length ?t = p + length s"
    using strip_loop_ok[OF assms] by blast
  have z: "m q = 0 \<longleftrightarrow> ?t = []" using q(2) by (cases ?t) auto
  have "archive_name s = ?t \<longleftrightarrow> \<not> (?t = [] \<or> ?t = map byte ''..'')" by (auto simp: archive_name_def Let_def)
  moreover have "strip_antisocial_prefixes p m = Some (if ?t = [] \<or> ?t = map byte ''..'' then None else Some q)"
    by (simp only: strip_antisocial_prefixes_def q(1) bind.bind_lunit z string_is_dotdot[OF q(2)])
  moreover have "archive_name s \<noteq> ?t \<Longrightarrow> archive_name s = map byte ''.''" by (auto simp: archive_name_def Let_def split: if_splits)
  ultimately show ?thesis using q(2-4) by (intro that[of q]) auto
qed

lemma strip_prefixes_fixed: "\<not> antisocial (strip_prefixes s)"
proof (induction s rule: strip_prefixes.induct)
  case (1 s)
  then show ?case by (subst strip_prefixes.simps) auto
qed

lemma archive_name_fixed: "strip_prefixes (archive_name s) = archive_name s" "archive_name (archive_name s) = archive_name s"
proof -
  have "\<not> antisocial (map byte ''.'')" by (simp add: antisocial_def)
  then have "\<not> antisocial (archive_name s)" using strip_prefixes_fixed[of s] by (auto simp: archive_name_def Let_def)
  then show *: "strip_prefixes (archive_name s) = archive_name s" by (subst strip_prefixes.simps) simp
  show "archive_name (archive_name s) = archive_name s" unfolding archive_name_def[of "archive_name s"] *
    by (auto simp: archive_name_def Let_def)
qed

lemma archive_no_zero: "cstr m p s \<Longrightarrow> 0 \<notin> set (archive_name s)"
proof -
  have sub: "set (strip_prefixes t) \<subseteq> set t" for t
  proof (induction t rule: strip_prefixes.induct)
    case (1 t)
    have "set (tl (dropWhile P t)) \<subseteq> set t" for P by (metis set_dropWhileD list.set_sel(2) subsetI tl_Nil)
    then show ?case using 1 by (subst strip_prefixes.simps) auto
  qed
  show "cstr m p s \<Longrightarrow> 0 \<notin> set (archive_name s)"
    using sub[of s] cstr_no_zero[of m p s] by (auto simp: archive_name_def Let_def)
qed

section \<open>Headers\<close>

lemma memset_store: "dst \<noteq> NULL \<Longrightarrow> memset dst v n m = Some (dst, store_bytes dst (replicate n v) m)"
proof -
  have "memset_loop p v n m = store_bytes p (replicate n v) m" for p
    by (induction n arbitrary: p m) (auto simp: store_bytes_def fun_eq_iff nth_Cons')
  then show "dst \<noteq> NULL \<Longrightarrow> memset dst v n m = Some (dst, store_bytes dst (replicate n v) m)" by (simp add: memset_def)
qed

lemma strlcpy_store:
  assumes "cstr m src s" "src \<noteq> NULL" "dst \<noteq> NULL" "length s < n" "dst + length s < src \<or> src + length s < dst"
  shows "strlcpy dst src n m = Some (length s, store_bytes dst (s @ [0]) m)"
proof -
  let ?k = "length s"
  have "copy_up m dst src ?k a = store_bytes dst s m a" for a
  proof (cases "dst \<le> a \<and> a < dst + ?k")
    case True
    then have "copy_up m dst src ?k (dst + (a - dst)) = m (src + (a - dst))"
      using assms(5) by (intro copy_up_ok) auto
    then show ?thesis using True cstr_nth[OF assms(1), of "a - dst"] by (auto simp: store_bytes_def)
  qed (auto simp: store_bytes_def copy_up_outside)
  then have "(copy_up m dst src ?k)(dst + ?k := 0) = store_bytes dst (s @ [0]) m"
    by (auto simp: store_bytes_def nth_append fun_eq_iff)
  moreover have k: "(if length s < n - 1 then length s else n - 1) = length s" using assms(4) by auto
  ultimately show ?thesis
    using strlen_ok[OF assms(1,2)] assms(2-4) unfolding strlcpy_def by (simp add: memcpy_def k Let_def del: One_nat_def)
qed

lemma store_string_at: "store_string (h + i) t m (h + k) =
    (if i \<le> k \<and> k \<le> i + length t then (map byte t @ [0]) ! (k - i) else m (h + k))"
  by (auto simp: store_string_def store_bytes_at)


text \<open>The header with all fields but the checksum.\<close>

definition header_mem :: "u8 list \<Rightarrow> ustar_type \<Rightarrow> u32 \<Rightarrow> addr \<Rightarrow> memory \<Rightarrow> memory" where
  "header_mem nm type sz h m =
     store_string (h + h_uname) ''root'' (store_string (h + h_gname) ''root''
     (store_bytes (h + h_version) [48, 48] (store_string (h + h_magic) ''ustar''
     (store_bytes (h + h_typeflag) [type_byte type] (store_bytes (h + h_mtime) (octal 11 1136102400 @ [0])
     (store_bytes (h + h_size) (octal 11 (unat sz) @ [0]) (store_string (h + h_gid) ''0000000''
     (store_string (h + h_uid) ''0000000''
     (store_bytes (h + h_mode) (octal 7 (if type = USTAR_REGULAR then 420 else 493) @ [0])
     (store_bytes (h + h_name) (nm @ [0]) (store_bytes h (replicate 512 0) m)))))))))))"

lemma snprintf_07o: "unat v < 8 ^ 7 \<Longrightarrow> snprintf_const p 8 ''%07o'' [v] m = Some (store_bytes p (octal 7 (unat v) @ [0]) m)"
proof (rule snprintf_const_ok)
  assume v: "unat v < 8 ^ 7"
  have "parse_conversion (1 + 1) [v] (literal ''%07o'') = Some (1 + 1 + 2, zero_o 7, [v])"
    by (rule parse_07o) (simp_all add: literal_def)
  then show "vprintf_loop 1 (literal ''%07o'') [v] m = Some (octal 7 (unat v))"
    using v by (intro vprintf_octal[where q = "1 + 1 + 2"]) (simp_all add: literal_def)
qed simp_all

lemma snprintf_011o: "unat v < 2 ^ 31 \<Longrightarrow> snprintf_const p 12 ''%011o'' [v] m = Some (store_bytes p (octal 11 (unat v) @ [0]) m)"
proof (rule snprintf_const_ok)
  assume v: "unat v < 2 ^ 31"
  have "parse_conversion (1 + 1) [v] (literal ''%011o'') = Some (1 + 1 + 3, zero_o 11, [v])"
    by (rule parse_011o) (simp_all add: literal_def)
  then show "vprintf_loop 1 (literal ''%011o'') [v] m = Some (octal 11 (unat v))"
    using v by (intro vprintf_octal[where q = "1 + 1 + 3"]) (simp_all add: literal_def)
qed simp_all

lemma make_header_ok:
  assumes "cstr m p s" "p \<noteq> NULL" "h \<noteq> NULL" "h + 512 \<le> p \<or> p + length s < h" "unat sz < 2 ^ 31"
    "type = USTAR_REGULAR \<or> type = USTAR_DIRECTORY" "length (archive_name s) \<le> 99"
  shows "ustar_make_header p type sz h m =
    (let m' = header_mem (archive_name s) type sz h m
     in Some (True, store_bytes (h + h_chksum) (octal 7 (unat (calculate_chksum h m')) @ [0]) m'))"
proof -
  let ?n = "archive_name s" and ?m0 = "store_bytes h (replicate 512 0) m"
  obtain q where q: "strip_antisocial_prefixes p m = Some (if ?n = strip_prefixes s then Some q else None)"
      "?n = strip_prefixes s \<Longrightarrow> cstr m q ?n \<and> p \<le> q \<and> q + length ?n = p + length s"
      "?n \<noteq> strip_prefixes s \<Longrightarrow> ?n = map byte ''.''"
    using strip_antisocial_ok[OF assms(1,2)] by metis
  define st where "st = (if ?n = strip_prefixes s then Some q else None)"
  have len: "(case st of None \<Rightarrow> Some 1 | Some p \<Rightarrow> strlen p m) = Some (length ?n)"
    using q(2,3) assms(2) by (auto simp: st_def intro!: strlen_ok)
  have name: "(case st of None \<Rightarrow> Some (store_string (h + h_name) ''.'' ?m0)
      | Some p \<Rightarrow> do { (_, m) \<leftarrow> strlcpy (h + h_name) p 100 ?m0; Some m }) = Some (store_bytes (h + h_name) (?n @ [0]) ?m0)"
  proof (cases "?n = strip_prefixes s")
    case True
    then have c: "cstr m q ?n" "p \<le> q" "q + length ?n = p + length s" using q(2) by blast+
    have "cstr ?m0 q ?n" by (rule cstr_frame[OF c(1)]) (use c(2,3) assms(4) in \<open>auto simp: store_bytes_def\<close>)
    then have "strlcpy (h + h_name) q 100 ?m0 = Some (length ?n, store_bytes (h + h_name) (?n @ [0]) ?m0)"
      by (rule strlcpy_store) (use c assms in \<open>auto simp: h_name_def\<close>)
    then show ?thesis using True by (simp add: st_def)
  qed (use q(3) in \<open>simp add: st_def store_string_def\<close>)
  have mode: "unat (if type = USTAR_REGULAR then 420 else 493 :: u32) = (if type = USTAR_REGULAR then 420 else 493)" by simp
  have sn: "snprintf_const a 8 ''%07o'' [if type = USTAR_REGULAR then 420 else 493] m'' =
      Some (store_bytes a (octal 7 (if type = USTAR_REGULAR then 420 else 493) @ [0]) m'')" for a m''
    by (subst snprintf_07o) (simp_all only: mode, simp)
  have mt: "snprintf_const a 12 ''%011o'' [1136102400] m'' = Some (store_bytes a (octal 11 1136102400 @ [0]) m'')" for a m''
    using snprintf_011o[of 1136102400 a m''] by simp
  have v: "m''(a := 48, a + 1 := 48) = store_bytes a [48, 48] m''" for m'' :: memory and a
    by (auto simp: store_bytes_def fun_eq_iff nth_Cons')
  show ?thesis
    unfolding ustar_make_header_def q(1)[folded st_def]
    using assms(3,6,7)
    by (simp add: len name memset_store sn snprintf_011o[OF assms(5)] mt snprintf_07o[OF calculate_chksum_bound]
        v[unfolded Suc_eq_plus1[symmetric] add_Suc_right add_0_right] store_bytes_upd[of _ "h + h_typeflag"] header_mem_def Let_def del: octal.simps)
qed


lemma header_mem_at: "header_mem nm type sz h m (h + k) =
   (if 265 \<le> k \<and> k < 270 then (map byte ''root'' @ [0]) ! (k - 265)
    else if 297 \<le> k \<and> k < 302 then (map byte ''root'' @ [0]) ! (k - 297)
    else if 263 \<le> k \<and> k < 265 then [48, 48] ! (k - 263)
    else if 257 \<le> k \<and> k < 263 then (map byte ''ustar'' @ [0]) ! (k - 257)
    else if k = 156 then type_byte type
    else if 136 \<le> k \<and> k < 148 then (octal 11 1136102400 @ [0]) ! (k - 136)
    else if 124 \<le> k \<and> k < 136 then (octal 11 (unat sz) @ [0]) ! (k - 124)
    else if 116 \<le> k \<and> k < 124 then (map byte ''0000000'' @ [0]) ! (k - 116)
    else if 108 \<le> k \<and> k < 116 then (map byte ''0000000'' @ [0]) ! (k - 108)
    else if 100 \<le> k \<and> k < 108 then (octal 7 (if type = USTAR_REGULAR then 420 else 493) @ [0]) ! (k - 100)
    else if k \<le> length nm then (nm @ [0]) ! k
    else if k < 512 then 0 else m (h + k))"
proof -
  have z: "store_bytes h bs m' (h + k) = (if k < length bs then bs ! k else m' (h + k))" for bs m'
    using store_bytes_at[of h 0 bs m' k] by simp
  show ?thesis
    unfolding header_mem_def ustar_offsets store_string_def store_bytes_at add_0_right z
    by (simp del: octal.simps list.map nth_Cons_numeral cong: if_cong)
qed

lemma bytes_are_at: "bytes_are (h + o') bs m \<longleftrightarrow> (\<forall>i < length bs. m (h + (o' + i)) = bs ! i)"
  unfolding bytes_are_def list_eq_iff_nth_eq by (simp add: add.assoc)

lemma header_mem_outside: "length nm \<le> 99 \<Longrightarrow> a \<notin> {h..<h + 512} \<Longrightarrow> header_mem nm type sz h m a = m a"
proof (cases "a < h")
  case True
  then show ?thesis unfolding header_mem_def store_string_def store_bytes_def ustar_offsets by (simp del: octal.simps)
next
  case False
  assume "length nm \<le> 99" "a \<notin> {h..<h + 512}"
  then obtain k where "a = h + k" "512 \<le> k" using False by (metis atLeastLessThan_iff le_Suc_ex not_le nat_add_left_cancel_le)
  then show ?thesis using \<open>length nm \<le> 99\<close> by (simp only: header_mem_at) simp
qed

lemma header_mem_fixed:
  fixes h :: addr and m :: memory and sz :: u32 and type :: ustar_type and nm :: "u8 list"
  assumes "length nm \<le> 99"
  defines "H \<equiv> header_mem nm type sz h m"
  shows "H (h + (h_name + 99)) = 0" "H (h + h_prefix) = 0" "H (h + h_typeflag) = type_byte type"
    "H (h + h_version) = 48" "H (h + (h_version + 1)) = 48"
    "\<And>i. i < 12 \<Longrightarrow> H (h + (h_size + i)) = (octal 11 (unat sz) @ [0]) ! i"
    "\<And>k. k \<le> length nm \<Longrightarrow> H (h + k) = (nm @ [0]) ! k"
  using assms(1) by (simp_all only: H_def header_mem_at ustar_offsets) (simp_all add: nth_append del: octal.simps)

lemma header_mem_magic: "string_is (h + h_magic) ''ustar'' (header_mem nm type sz h m)"
  unfolding string_is_def bytes_are_at
proof (intro allI impI)
  fix i assume i: "i < length (map byte ''ustar'' @ [0 :: u8])"
  then show "header_mem nm type sz h m (h + (h_magic + i)) = (map byte ''ustar'' @ [0]) ! i"
    by (simp add: header_mem_at h_magic_def del: nth_append_length)
qed


text \<open>The bytes of a finished header, and that they are in memory at \<open>h\<close>.\<close>

definition header_bytes :: "u8 list \<Rightarrow> ustar_type \<Rightarrow> u32 \<Rightarrow> u8 list" where
  "header_bytes nm type sz = (let m = header_mem nm type sz 0 (\<lambda>_. 0)
     in map (store_bytes h_chksum (octal 7 (unat (calculate_chksum 0 m)) @ [0]) m) [0..<512])"

definition header_at :: "addr \<Rightarrow> u8 list \<Rightarrow> ustar_type \<Rightarrow> u32 \<Rightarrow> memory \<Rightarrow> bool" where
  "header_at h nm type sz M \<longleftrightarrow> (\<forall>k < 512. M (h + k) = header_bytes nm type sz ! k)"

lemma header_at_iff: "header_at h nm type sz M \<longleftrightarrow> map (\<lambda>k. M (h + k)) [0..<512] = header_bytes nm type sz"
  unfolding list_eq_iff_nth_eq by (simp add: header_at_def header_bytes_def Let_def)

lemma header_at_parts:
  assumes "header_at h nm type sz M" "length nm \<le> 99" "k < 512"
  shows "M (h + k) = (if h_chksum \<le> k \<and> k < h_chksum + 8
     then (octal 7 (unat (calculate_chksum h M)) @ [0]) ! (k - h_chksum) else header_mem nm type sz h (\<lambda>_. 0) (h + k))"
proof -
  let ?H = "header_mem nm type sz 0 (\<lambda>_. 0)"
  have H: "?H j = header_mem nm type sz h (\<lambda>_. 0) (h + j)" if "j < 512" for j
    using that assms(2) header_mem_at[of nm type sz 0 "\<lambda>_. 0" j] by (simp add: header_mem_at)
  have M: "M (h + j) = (if h_chksum \<le> j \<and> j < h_chksum + 8
      then (octal 7 (unat (calculate_chksum 0 ?H)) @ [0]) ! (j - h_chksum) else ?H j)" if "j < 512" for j
    using assms(1) that by (simp add: header_at_def header_bytes_def Let_def store_bytes_def del: octal.simps)
  have "calculate_chksum h M = calculate_chksum 0 ?H"
    by (rule calculate_chksum_cong) (use M in auto)
  then show ?thesis using M[OF assms(3)] H[OF assms(3)] by simp
qed

lemma made_header_at:
  fixes h :: addr and m :: memory and sz :: u32 and type :: ustar_type and nm :: "u8 list"
  assumes "length nm \<le> 99"
  defines "H \<equiv> header_mem nm type sz h m"
  shows "header_at h nm type sz (store_bytes (h + h_chksum) (octal 7 (unat (calculate_chksum h H)) @ [0]) H)"
proof -
  let ?H = "header_mem nm type sz 0 (\<lambda>_. 0)"
  have H: "H (h + j) = ?H (0 + j)" if "j < 512" for j
    using that assms(1) unfolding H_def by (simp only: header_mem_at) simp
  then have "calculate_chksum h H = calculate_chksum 0 ?H" by (intro calculate_chksum_cong) blast
  then show ?thesis using H
    by (auto simp: header_at_def header_bytes_def Let_def store_bytes_at store_bytes_def simp del: octal.simps)
qed

lemma parse_header_at:
  assumes at: "header_at h nm type sz M" and l: "length nm \<le> 99" and z: "0 \<notin> set nm" and nm: "archive_name nm = nm"
    and h: "h \<noteq> NULL" and sz: "unat sz < 2 ^ 31" and type: "type = USTAR_REGULAR \<or> type = USTAR_DIRECTORY"
  shows "ustar_parse_header h M = Some (Inr (NameAt h, type, if type = USTAR_REGULAR then sz else 0))"
    and "cstr M h nm"
proof -
  note P = header_at_parts[OF at l]
  note F = header_mem_fixed[where nm = nm and type = type and sz = sz and h = h and m = "\<lambda>_. 0", OF l]
  have H: "M (h + k) = header_mem nm type sz h (\<lambda>_. 0) (h + k)" if "k < h_chksum \<or> h_chksum + 8 \<le> k" "k < 512" for k
    using P[of k] that by auto
  show name: "cstr M h nm"
    unfolding cstr_iff using H F(7) l z by (auto simp: h_chksum_def nth_append)
  have magic: "string_is (h + h_magic) ''ustar'' M"
    using header_mem_magic[of h nm type sz "\<lambda>_. 0"] unfolding string_is_def bytes_are_at
    by (simp add: H h_magic_def h_chksum_def)
  have chk: "parse_octal_field (h + h_chksum) 8 M = Some (calculate_chksum h M)"
    using parse_octal_field_ok[of 7 M "h + h_chksum" "unat (calculate_chksum h M)"] calculate_chksum_bound[of h M]
    by (simp add: P add.assoc h_chksum_def del: octal.simps)
  have size: "parse_octal_field (h + h_size) 12 M = Some sz"
    using parse_octal_field_ok[of 11 M "h + h_size" "unat sz"] sz F(6)
    by (simp add: H h_chksum_def h_size_def add.assoc del: octal.simps)
  have "strip_prefixes nm = nm" using archive_name_fixed(1)[of nm] nm by simp
  then have "strip_antisocial_prefixes h M = Some (Some h)"
    using strip_antisocial_ok[OF name h] nm by (metis add_right_cancel)
  then have strip: "strip_antisocial_prefixes (h + h_name) M = Some (Some h)" by (simp add: h_name_def)
  have fields: "M (h + h_name + 99) = 0" "M (h + h_prefix) = 0" "M (h + h_typeflag) = type_byte type"
      "M (h + h_version) = 48" "M (h + h_version + 1) = 48"
    unfolding add.assoc using F(1-5) by (simp_all add: H ustar_offsets)
  have "M (h + 156) \<noteq> 0" using fields(3) type by (auto simp: h_typeflag_def)
  then have "\<not> is_all_zeros h USTAR_HEADER_SIZE M" by (force simp: is_all_zeros_def list_all_iff USTAR_HEADER_SIZE_def)
  moreover have "\<not> 0x7fffffff < sz" using sz by (simp add: word_less_nat_alt)
  ultimately show "ustar_parse_header h M = Some (Inr (NameAt h, type, if type = USTAR_REGULAR then sz else 0))"
    using magic chk size strip sz type fields by (auto simp: ustar_parse_header_def Let_def)
qed

lemma make_header_long:
  assumes "cstr m p s" "p \<noteq> NULL" "length (archive_name s) > 99" "type = USTAR_REGULAR \<or> type = USTAR_DIRECTORY"
  shows "ustar_make_header p type sz h m = Some (False, m)"
proof -
  have "length (archive_name s) \<noteq> 1" using assms(3) by simp
  then have ne: "archive_name s = strip_prefixes s" by (auto simp: archive_name_def Let_def split: if_splits)
  obtain q where q: "strip_antisocial_prefixes p m = Some (Some q)" "cstr m q (archive_name s)" "p \<le> q"
    using strip_antisocial_ok[OF assms(1,2)] ne by metis
  then have "strlen q m = Some (length (archive_name s))" using assms(2) by (intro strlen_ok) auto
  then show ?thesis using assms(3,4) q(1) by (auto simp: ustar_make_header_def)
qed

lemma make_header_at:
  assumes "cstr m p s" "p \<noteq> NULL" "h \<noteq> NULL" "h + 512 \<le> p \<or> p + length s < h" "unat sz < 2 ^ 31"
    "type = USTAR_REGULAR \<or> type = USTAR_DIRECTORY" "length (archive_name s) \<le> 99"
  obtains m' where "ustar_make_header p type sz h m = Some (True, m')" "header_at h (archive_name s) type sz m'"
    "\<And>a. a \<notin> {h..<h + 512} \<Longrightarrow> m' a = m a"
proof -
  let ?H = "header_mem (archive_name s) type sz h m"
  let ?M = "store_bytes (h + h_chksum) (octal 7 (unat (calculate_chksum h ?H)) @ [0]) ?H"
  have "ustar_make_header p type sz h m = Some (True, ?M)" using make_header_ok[OF assms] by (simp add: Let_def)
  moreover have "?M a = m a" if "a \<notin> {h..<h + 512}" for a
    using header_mem_outside[OF assms(7) that, of type sz m] that by (auto simp: store_bytes_def h_chksum_def)
  ultimately show ?thesis using that made_header_at[OF assms(7)] by blast
qed

text \<open>
  C30: A tar header that \<open>ustar_make_header\<close> writes is read back by \<open>ustar_parse_header\<close> as what it
  was made from.  The name is stored without its dangerous prefixes, or as \<open>.\<close> if nothing else is
  left; when that is longer than 99 bytes the function fails and writes nothing.  Otherwise the
  parse succeeds, checksum included: it gives the stored name, the type, and the size of a regular
  file, and nothing outside the header's 512 bytes has changed.
\<close>

theorem ustar_header_roundtrip:
  assumes "cstr m p s" "p \<noteq> NULL" "h \<noteq> NULL" "h + 512 \<le> p \<or> p + length s < h" "unat sz < 2 ^ 31"
    "type = USTAR_REGULAR \<or> type = USTAR_DIRECTORY"
  shows "if length (archive_name s) > 99 then ustar_make_header p type sz h m = Some (False, m)
    else \<exists>m'. ustar_make_header p type sz h m = Some (True, m') \<and> cstr m' h (archive_name s) \<and>
      ustar_parse_header h m' = Some (Inr (NameAt h, type, if type = USTAR_REGULAR then sz else 0)) \<and>
      (\<forall>a. a \<notin> {h..<h + 512} \<longrightarrow> m' a = m a)"
proof (cases "length (archive_name s) > 99")
  case True
  then show ?thesis using make_header_long[OF assms(1,2) True assms(6)] by simp
next
  case False
  then obtain m' where "ustar_make_header p type sz h m = Some (True, m')" "header_at h (archive_name s) type sz m'"
      "\<And>a. a \<notin> {h..<h + 512} \<Longrightarrow> m' a = m a"
    using make_header_at[OF assms] by (metis not_le_imp_less not_less)
  then show ?thesis
    using False parse_header_at[of h "archive_name s" type sz m'] archive_no_zero[OF assms(1)] archive_name_fixed(2) assms(3,5,6)
    by auto
qed

theorem ustar_header_roundtrip_witness:
  fixes m defines "m \<equiv> (\<lambda>_. 0)(1 := byte CHR ''/'', 2 := byte CHR ''a'')"
  shows "\<exists>m'. ustar_make_header 1 USTAR_REGULAR 1000 100 m = Some (True, m') \<and> cstr m' 100 (map byte ''a'') \<and>
    ustar_parse_header 100 m' = Some (Inr (NameAt 100, USTAR_REGULAR, 1000))"
proof -
  have "strip_prefixes [47, 97] = [97]"
    by (subst strip_prefixes.simps, subst strip_prefixes.simps) (simp add: antisocial_def)
  then have a: "archive_name (map byte ''/a'') = map byte ''a''" by (simp add: archive_name_def Let_def)
  have "cstr m 1 (map byte ''/a'')" by (simp add: m_def)
  from ustar_header_roundtrip[OF this, of 100 1000 USTAR_REGULAR] a
  show ?thesis by auto
qed

end
