(* ===== verification/KDirProps.thy ===== *)
theory KDirProps imports KFilesys KFileProps begin

text \<open>
  Directories as maps from names to sectors: what looking up and adding an entry do to the map.
\<close>

section \<open>The map of a directory\<close>

text \<open>The entries of a directory's bytes, and the map they stand for: the first one in use with a name.\<close>

definition slots :: "u8 list \<Rightarrow> u8 list list" where
  "slots bs = map (\<lambda>k. get_bytes (20 * k) 20 bs) [0..<length bs div 20]"

definition named :: "u8 list \<Rightarrow> u8 list \<Rightarrow> bool" where
  "named name e \<longleftrightarrow> e_in_use e \<and> e_name e = Some name"

definition dir_map :: "u8 list \<Rightarrow> u8 list \<Rightarrow> u32 option" where
  "dir_map bs name = map_option e_sector (find (named name) (slots bs))"

text \<open>Every entry in use has a terminated name.\<close>

definition dir_ok :: "u8 list \<Rightarrow> bool" where
  "dir_ok bs \<longleftrightarrow> (\<forall>e \<in> set (slots bs). e_in_use e \<longrightarrow> e_name e \<noteq> None)"

lemma length_slots [simp]: "length (slots bs) = length bs div 20"
  by (simp add: slots_def)

lemma nth_slots: "k < length bs div 20 \<Longrightarrow> slots bs ! k = get_bytes (20 * k) 20 bs"
  by (simp add: slots_def)

lemma slot_fits: "k < length (bs :: u8 list) div 20 \<longleftrightarrow> 20 * k + 20 \<le> length bs"
  using less_eq_div_iff_mult_less_eq[of 20 "Suc k" "length bs"] by (simp add: Suc_le_eq mult.commute add.commute)

lemma length_slot: "k < length bs div 20 \<Longrightarrow> length (slots bs ! k) = 20"
  using slot_fits[of k bs] by (simp add: nth_slots)

lemma slots_put:
  assumes "k < length bs div 20" "length e = 20"
  shows "slots (put_bytes (20 * k) e bs) = (slots bs)[k := e]"
proof (rule nth_equalityI)
  have l: "length (put_bytes (20 * k) e bs) = length bs" using assms slot_fits[of k bs] by simp
  then show "length (slots (put_bytes (20 * k) e bs)) = length ((slots bs)[k := e])" by simp
  fix j assume "j < length (slots (put_bytes (20 * k) e bs))"
  then have j: "j < length bs div 20" "20 * j + 20 \<le> length bs" using l slot_fits[of j bs] by simp_all
  have k: "20 * k + 20 \<le> length bs" using assms(1) slot_fits[of k bs] by simp
  have "get_bytes (20 * j) 20 (put_bytes (20 * k) e bs) = (if j = k then e else get_bytes (20 * j) 20 bs)"
  proof (cases "j = k")
    case True
    then show ?thesis using k assms(2) get_put_bytes_same[of "20 * k" e bs] by simp
  next
    case False
    then have "20 * j + 20 \<le> 20 * k \<or> 20 * k + 20 \<le> 20 * j" by linarith
    then show ?thesis using False j k assms(2)
      by (auto intro!: nth_equalityI simp: nth_get_bytes nth_put_bytes)
  qed
  then show "slots (put_bytes (20 * k) e bs) ! j = (slots bs)[k := e] ! j"
    using j(1) l by (simp add: nth_slots nth_list_update)
qed

lemma find_update:
  "k < length es \<Longrightarrow> \<not> P (es ! k) \<Longrightarrow> find P (es[k := e]) =
    (if P e then (if \<exists>x \<in> set (take k es). P x then find P es else Some e) else find P es)"
  by (induction es arbitrary: k) (auto simp: nth_Cons' split: nat.split)

lemma find_none: "find P es = None \<longleftrightarrow> (\<forall>e \<in> set es. \<not> P e)"
  by (induction es) auto

lemma takeWhile_name: "(0 :: u8) \<notin> set s \<Longrightarrow> takeWhile (\<lambda>c. c \<noteq> 0) (s @ 0 # r) = s"
  by (induction s) auto

text \<open>The slot that \<open>dir_add\<close> writes.\<close>

lemma filled_slot:
  fixes sector :: u32
  assumes "length e = 20" "length name \<le> 14" "0 \<notin> set name"
  defines "e' \<equiv> fill_entry_slot name sector e"
  shows "length e' = 20" "e_sector e' = sector" "e_in_use e'" "e_name e' = Some name"
proof -
  have l: "length (put_bytes 4 (name @ [0]) (e[19 := 1])) = 20" using assms by simp
  show l': "length e' = 20" unfolding e'_def fill_entry_slot_def using l by simp
  show "e_sector e' = sector"
    unfolding e'_def fill_entry_slot_def e_sector_def word_at_def
    using get_put_bytes_same[of 0 "enc32 sector" "put_bytes 4 (name @ [0]) (e[19 := 1])"] l by simp
  have nth: "e' ! i = (if i < 4 then enc32 sector ! i else if i < 4 + length name then name ! (i - 4)
      else if i = 4 + length name then 0 else e[19 := 1] ! i)" if "i < 20" for i
    unfolding e'_def fill_entry_slot_def using that assms l by (auto simp: nth_put_bytes nth_append)
  show "e_in_use e'" using nth[of 19] assms by (simp add: e_in_use_def)
  have g: "get_bytes 4 15 e' = name @ 0 # drop (5 + length name) (take 19 e')"
  proof (rule nth_equalityI)
    fix i assume "i < length (get_bytes 4 15 e')"
    then have "i < 15" by simp
    then show "get_bytes 4 15 e' ! i = (name @ 0 # drop (5 + length name) (take 19 e')) ! i"
      using nth[of "4 + i"] l' by (auto simp: nth_get_bytes nth_append nth_Cons')
  qed (use l' assms(2) in simp)
  have "takeWhile (\<lambda>c. c \<noteq> 0) (get_bytes 4 15 e') = name"
    unfolding g by (rule takeWhile_name[OF assms(3)])
  then show "e_name e' = Some name" by (simp add: e_name_def g)
qed

lemma dir_map_add:
  fixes sector :: u32
  assumes "k < length bs div 20" "\<not> e_in_use (slots bs ! k)" "length name \<le> 14" "0 \<notin> set name" "dir_map bs name = None"
  defines "bs' \<equiv> put_bytes (20 * k) (fill_entry_slot name sector (slots bs ! k)) bs"
  shows "dir_map bs' = (dir_map bs)(name \<mapsto> sector)" "dir_ok bs \<Longrightarrow> dir_ok bs'" "length bs' = length bs"
proof -
  let ?e = "fill_entry_slot name sector (slots bs ! k)"
  note f = filled_slot[OF length_slot[OF assms(1)] assms(3,4)]
  have s: "slots bs' = (slots bs)[k := ?e]" unfolding bs'_def by (rule slots_put[OF assms(1) f(1)])
  have nn: "\<not> named n (slots bs ! k)" for n using assms(2) by (simp add: named_def)
  have ne: "named n ?e \<longleftrightarrow> n = name" for n using f(3,4) by (auto simp: named_def)
  have no: "\<forall>x \<in> set (slots bs). \<not> named name x" using assms(5) by (simp add: dir_map_def find_none)
  have "dir_map bs' n = ((dir_map bs)(name \<mapsto> sector)) n" for n
    using find_update[of k "slots bs" "named n" ?e] assms(1) nn ne no f(2)
    by (auto simp: dir_map_def s dest: in_set_takeD)
  then show "dir_map bs' = (dir_map bs)(name \<mapsto> sector)" by blast
  show "dir_ok bs \<Longrightarrow> dir_ok bs'" using f(4) set_update_subset_insert[of "slots bs" k ?e] by (auto simp: dir_ok_def s)
  show "length bs' = length bs" using slot_fits[of k bs] assms(1) f(1) by (simp add: bs'_def)
qed


section \<open>Searching\<close>

text \<open>The first entry with a name from the slot \<open>k\<close> on, with its offset.\<close>

fun find_from :: "u8 list \<Rightarrow> nat \<Rightarrow> u8 list list \<Rightarrow> (u8 list \<times> int) option" where
  "find_from name k [] = None"
| "find_from name k (e # es) = (if named name e then Some (e, int (20 * k)) else find_from name (k + 1) es)"

lemma find_from_map: "map_option fst (find_from name k es) = find (named name) es"
  by (induction name k es rule: find_from.induct) auto

text \<open>The conditions on a directory's inode while it is read, which reading keeps.\<close>

definition dir_inode :: "fs \<Rightarrow> addr \<Rightarrow> inode \<Rightarrow> bool" where
  "dir_inode st p ino \<longleftrightarrow> cache_idle (bc st) \<and> get_inode p st = Some ino \<and> inode_ok st ino \<and>
     i_read_length ino = i_length ino \<and> dir_ok (file_bytes st ino)"

lemma slot_read:
  assumes "dir_inode st p ino"
  obtains st' where "inode_read_at p (int DIR_ENTRY_SIZE) (int (20 * k)) st = Some (get_bytes (20 * k) 20 (file_bytes st ino), st')"
    "io_frame (data_set st ino) {} st st'" "dir_inode st' p ino" "file_bytes st' ino = file_bytes st ino"
    "data_set st' ino = data_set st ino"
proof -
  have a: "cache_idle (bc st)" "get_inode p st = Some ino" "inode_ok st ino" "i_read_length ino = i_length ino" "dir_ok (file_bytes st ino)"
    using assms by (simp_all add: dir_inode_def)
  have "0 \<le> int (20 * k)" by simp
  from inode_read_at_ok[OF a(1-4) this, of "int DIR_ENTRY_SIZE"]
  obtain st' where r: "inode_read_at p (int DIR_ENTRY_SIZE) (int (20 * k)) st =
      Some (get_bytes (nat (int (20 * k))) (nat (int DIR_ENTRY_SIZE)) (file_bytes st ino), st')" "io_frame (data_set st ino) {} st st'" .
  have m: "data_set st ino \<inter> set (metas (the_disk st) (i_ptr ino) (n_blocks (i_length ino))) = {}" by (rule data_set_meta[OF a(3)])
  have fb: "file_bytes st' ino = file_bytes st ino" by (rule io_frame_file_bytes[OF r(2) a(3) _ m]) simp
  have "dir_inode st' p ino"
    using a io_frame_simps(1,2)[OF r(2)] io_frame_inode_ok(1)[OF r(2) a(3) m] fb by (simp add: dir_inode_def get_inode_def)
  moreover have "data_set st' ino = data_set st ino"
    using io_frame_inode_ok(2)[OF r(2) a(3) m] by (simp add: datas_def)
  moreover have "nat (int (20 * k)) = 20 * k" "nat (int DIR_ENTRY_SIZE) = 20" by (simp_all only: nat_int DIR_ENTRY_SIZE_def)
  ultimately show ?thesis using that r fb by metis
qed

lemma slot_off: "inode_ok st ino \<Longrightarrow> k < length (slots (file_bytes st ino)) \<Longrightarrow>
    off (int (20 * k) + int DIR_ENTRY_SIZE) = Some (int (20 * (k + 1)))"
  using slot_fits[of k "file_bytes st ino"] inode_okD(2,3)[of st ino]
  by (simp add: off_def DIR_ENTRY_SIZE_def file_bytes_def MAX_FILE_SIZE_def)

lemma slot_size: "length (get_bytes (20 * k) 20 bs) = DIR_ENTRY_SIZE \<longleftrightarrow> k < length (slots bs)"
  using slot_fits[of k bs] by (auto simp: DIR_ENTRY_SIZE_def)

lemma lookup_loop_ok:
  assumes "dir_inode st p ino" "k \<le> length (slots (file_bytes st ino))"
  shows "\<exists>st'. lookup_loop p name (int (20 * k)) st = Some (find_from name k (drop k (slots (file_bytes st ino))), st') \<and>
    io_frame (data_set st ino) {} st st'"
  using assms
proof (induction "length (slots (file_bytes st ino)) - k" arbitrary: k st)
  case 0
  let ?bs = "file_bytes st ino"
  obtain st' where r: "inode_read_at p (int DIR_ENTRY_SIZE) (int (20 * k)) st = Some (get_bytes (20 * k) 20 ?bs, st')"
    "io_frame (data_set st ino) {} st st'" by (rule slot_read[OF 0(2)])
  have k: "\<not> k < length (slots ?bs)" using 0(1) by linarith
  then have "length (get_bytes (20 * k) 20 ?bs) \<noteq> DIR_ENTRY_SIZE" by (simp only: slot_size not_False_eq_True)
  then have "lookup_loop p name (int (20 * k)) st = Some (None, st')"
    by (subst lookup_loop.simps) (simp only: r(1) bind.bind_lunit prod.case if_False)
  then show ?case using r(2) k by simp
next
  case (Suc n)
  let ?bs = "file_bytes st ino" and ?e = "slots (file_bytes st ino) ! k"
  have k: "k < length (slots ?bs)" using Suc(2) by linarith
  then have e: "get_bytes (20 * k) 20 ?bs = ?e" "length (get_bytes (20 * k) 20 ?bs) = DIR_ENTRY_SIZE"
    by (simp_all only: slot_size) (simp add: nth_slots)
  obtain st1 where r: "inode_read_at p (int DIR_ENTRY_SIZE) (int (20 * k)) st = Some (get_bytes (20 * k) 20 ?bs, st1)"
    "io_frame (data_set st ino) {} st st1" "dir_inode st1 p ino" "file_bytes st1 ino = ?bs" "data_set st1 ino = data_set st ino"
    by (rule slot_read[OF Suc(3)])
  have d: "drop k (slots ?bs) = ?e # drop (k + 1) (slots ?bs)" using k by (simp add: Cons_nth_drop_Suc)
  have found: "(if e_in_use ?e then do { n \<leftarrow> e_name ?e; Some (name = n) } else Some False) = Some (named name ?e)"
    using Suc(3) k by (auto simp: dir_inode_def dir_ok_def named_def)
  have o: "off (int (20 * k) + int DIR_ENTRY_SIZE) = Some (int (20 * (k + 1)))"
    using Suc(3) k by (intro slot_off) (simp_all add: dir_inode_def)
  have step: "lookup_loop p name (int (20 * k)) st =
      (if named name ?e then Some (Some (?e, int (20 * k)), st1) else lookup_loop p name (int (20 * (k + 1))) st1)"
    by (subst lookup_loop.simps) (simp only: r(1) e(2)[unfolded e(1)] found o bind.bind_lunit prod.case if_True simp_thms e(1))
  show ?case
  proof (cases "named name ?e")
    case False
    have "\<exists>st'. lookup_loop p name (int (20 * (k + 1))) st1 =
        Some (find_from name (k + 1) (drop (k + 1) (slots (file_bytes st1 ino))), st') \<and> io_frame (data_set st1 ino) {} st1 st'"
      by (rule Suc(1)[OF _ r(3)]) (use Suc(2) k r(4) in simp_all)
    then show ?thesis unfolding step d r(4,5) using False io_frame_trans[OF r(2)] by auto
  qed (use step d r(2) in simp)
qed


lemma free_slot_loop_ok:
  assumes "dir_inode st p ino" "k \<le> i" "i < length (slots (file_bytes st ino))" "\<not> e_in_use (slots (file_bytes st ino) ! i)" "length e = 20"
  shows "\<exists>j st'. free_slot_loop p e (int (20 * k)) st = Some (slots (file_bytes st ino) ! j, int (20 * j), st') \<and>
    j < length (slots (file_bytes st ino)) \<and> \<not> e_in_use (slots (file_bytes st ino) ! j) \<and> io_frame (data_set st ino) {} st st'"
  using assms
proof (induction "i - k" arbitrary: k st e)
  case (0 k st e)
  let ?bs = "file_bytes st ino" and ?e = "slots (file_bytes st ino) ! k"
  have k: "i = k" using 0 by simp
  obtain st1 where r: "inode_read_at p (int DIR_ENTRY_SIZE) (int (20 * k)) st = Some (get_bytes (20 * k) 20 ?bs, st1)"
    "io_frame (data_set st ino) {} st st1" by (rule slot_read[OF 0(2)])
  have e: "get_bytes (20 * k) 20 ?bs = ?e" "length ?e = DIR_ENTRY_SIZE" "put_bytes 0 ?e e = ?e"
    using 0(4,6) k length_slot[of k ?bs] by (simp_all add: nth_slots put_bytes_def DIR_ENTRY_SIZE_def)
  have "free_slot_loop p e (int (20 * k)) st = Some (?e, int (20 * k), st1)"
    by (subst free_slot_loop.simps) (use r(1) e 0(5) k in \<open>simp add: Let_def\<close>)
  then show ?case using 0 k r(2) by blast
next
  case (Suc n k st e)
  let ?bs = "file_bytes st ino" and ?e = "slots (file_bytes st ino) ! k"
  have k: "k < i" "k < length (slots ?bs)" using Suc(2,5) by linarith+
  obtain st1 where r: "inode_read_at p (int DIR_ENTRY_SIZE) (int (20 * k)) st = Some (get_bytes (20 * k) 20 ?bs, st1)"
    "io_frame (data_set st ino) {} st st1" "dir_inode st1 p ino" "file_bytes st1 ino = ?bs" "data_set st1 ino = data_set st ino"
    by (rule slot_read[OF Suc(3)])
  have e: "get_bytes (20 * k) 20 ?bs = ?e" "length ?e = DIR_ENTRY_SIZE" "put_bytes 0 ?e e = ?e"
    using Suc(7) k length_slot[of k ?bs] by (simp_all add: nth_slots put_bytes_def DIR_ENTRY_SIZE_def)
  have o: "off (int (20 * k) + int DIR_ENTRY_SIZE) = Some (int (20 * (k + 1)))"
    using Suc(3) k by (intro slot_off) (simp_all add: dir_inode_def)
  have step: "free_slot_loop p e (int (20 * k)) st =
      (if \<not> e_in_use ?e then Some (?e, int (20 * k), st1) else free_slot_loop p ?e (int (20 * (k + 1))) st1)"
    by (subst free_slot_loop.simps) (simp only: r(1) e(1) e(2,3) o bind.bind_lunit prod.case if_True simp_thms Let_def)
  show ?case
  proof (cases "e_in_use ?e")
    case True
    have "\<exists>j st'. free_slot_loop p ?e (int (20 * (k + 1))) st1 = Some (slots (file_bytes st1 ino) ! j, int (20 * j), st') \<and>
        j < length (slots (file_bytes st1 ino)) \<and> \<not> e_in_use (slots (file_bytes st1 ino) ! j) \<and> io_frame (data_set st1 ino) {} st1 st'"
      by (rule Suc(1)) (use Suc(2-7) k r(3,4) e(2) in \<open>simp_all add: DIR_ENTRY_SIZE_def\<close>)
    then show ?thesis unfolding step r(4,5) using True io_frame_trans[OF r(2)] by auto
  next
    case False
    then show ?thesis using step k(2) r(2) by auto
  qed
qed

section \<open>Setting the parent of a new inode\<close>

lemma fs_fields [simp]:
  "inode_ok (st\<lparr>fresh := a\<rparr>) ino = inode_ok st ino" "inode_ok (st\<lparr>open_inodes := l\<rparr>) ino = inode_ok st ino"
  "inode_ok (st\<lparr>inodes := f\<rparr>) ino = inode_ok st ino" "inode_ok st (ino\<lparr>i_lock := b\<rparr>) = inode_ok st ino"
  "inode_ok st (ino\<lparr>i_open_cnt := n\<rparr>) = inode_ok st ino" "file_bytes st (ino\<lparr>i_open_cnt := n\<rparr>) = file_bytes st ino"
  "file_bytes (st\<lparr>fresh := a\<rparr>) ino = file_bytes st ino" "file_bytes (st\<lparr>open_inodes := l\<rparr>) ino = file_bytes st ino"
  "file_bytes (st\<lparr>inodes := f\<rparr>) ino = file_bytes st ino" "file_bytes st (ino\<lparr>i_lock := b\<rparr>) = file_bytes st ino"
  "fbyte (st\<lparr>fresh := a\<rparr>) = fbyte st" "fbyte (st\<lparr>open_inodes := l\<rparr>) = fbyte st" "fbyte (st\<lparr>inodes := f\<rparr>) = fbyte st"
  "the_disk (st\<lparr>fresh := a\<rparr>) = the_disk st" "the_disk (st\<lparr>open_inodes := l\<rparr>) = the_disk st"
  "the_disk (st\<lparr>inodes := f\<rparr>) = the_disk st" "the_disk (st\<lparr>objs := ob\<rparr>) = the_disk st"
  by (simp_all add: inode_ok_def file_bytes_def fbyte_def[abs_def] the_disk_def)

lemma length_enc_inode_disk: "length (dk_ptr di) = 14 \<Longrightarrow> length (enc_inode_disk di) = 512"
  by (simp add: enc_inode_disk_def length_words_bytes)

lemma fs_write_frame:
  assumes "cache_idle (bc st)" "s < bd_size (dev (bc st))" "s \<notin> cached (bc st)" "length b = 512"
  obtains st' where "fs_write s b st = Some st'" "io_frame {s} {s} st st'"
proof -
  have t: "bd_type (dev (bc st)) \<noteq> BLOCK_FOREIGN" using assms(1) by (simp add: cache_idle_def cache_ok_def dev_ok_def)
  define d where "d = (dev (bc st))\<lparr>bd_data := (bd_data (dev (bc st)))(s := b), bd_write_cnt := bd_write_cnt (dev (bc st)) + 1\<rparr>"
  let ?st' = "st\<lparr>bc := (bc st)\<lparr>dev := d\<rparr>\<rparr>"
  have "cache_idle (bc ?st')"
    using assms(1,3,4) by (auto simp: cache_idle_def cache_ok_def dev_ok_def entry_ok_def d_def cached_def)
  moreover have "cview (bc ?st') t = cview (bc st) t" if "t \<noteq> s" for t
    using that by (auto simp: cview_def d_def split: option.split)
  ultimately have "io_frame {s} {s} st ?st'"
    by (auto simp: io_frame_def d_def the_disk_def cached_def)
  moreover have "fs_write s b st = Some ?st'" using assms(2) t by (simp add: fs_write_def block_write_def check_sector_def d_def)
  ultimately show ?thesis using that by blast
qed


lemma find_open_none:
  "(\<And>q. q \<in> set ps \<Longrightarrow> \<exists>i. get_inode q st = Some i \<and> i_sector i \<noteq> s) \<Longrightarrow> find_open s ps st = Some None"
  by (induction ps) fastforce+

lemma cache_idle_malloc: "cache_idle (bc st) \<Longrightarrow> fs_malloc st = (True, st)"
  by (simp add: cache_idle_def fs_malloc_def malloc_ok_def)

text \<open>The inode that \<open>inode_open\<close> makes of a sector.\<close>

definition inode_of_sector :: "u32 \<Rightarrow> u8 list \<Rightarrow> inode" where
  "inode_of_sector s b = (let data = dec_inode_disk b in \<lparr>i_sector = s, i_open_cnt = 1, i_removed = False, i_deny_write_cnt = 0,
     i_length = dk_length data, i_read_length = dk_length data,
     i_direct = unat (dk_direct data), i_indirect = unat (dk_indirect data),
     i_double = unat (dk_double data), i_isdir = dk_isdir data, i_parent = dk_parent data,
     i_lock = False, i_ptr = dk_ptr data\<rparr>)"

lemma inode_of_sector_simps [simp]:
  "i_sector (inode_of_sector s b) = s" "i_open_cnt (inode_of_sector s b) = 1" "i_removed (inode_of_sector s b) = False" "i_lock (inode_of_sector s b) = False"
  "length (i_ptr (inode_of_sector s b)) = 14"
  by (simp_all add: inode_of_sector_def Let_def dec_inode_disk_def)

lemma inode_open_new:
  assumes "cache_idle (bc st)" "s < bd_size (dev (bc st))" "find_open s (open_inodes st) st = Some None"
  obtains k where "inode_open s st = Some (Some (fresh st), put_inode (fresh st) (inode_of_sector s (the_disk st s))
    (st\<lparr>fresh := fresh st + 1, open_inodes := fresh st # open_inodes st, bc := (bc st)\<lparr>dev := (dev (bc st))\<lparr>bd_read_cnt := k\<rparr>\<rparr>\<rparr>))"
proof -
  define st1 where "st1 = st\<lparr>fresh := fresh st + 1, open_inodes := fresh st # open_inodes st\<rparr>"
  have b: "bc st1 = bc st" "the_disk st1 = the_disk st" by (simp_all add: st1_def)
  obtain st2 where r: "fs_read s st1 = Some (the_disk st1 s, st2)" "reads_only st1 st2"
    using fs_read_ok[of s st1] assms(2) b by metis
  then obtain k where k: "st2 = st1\<lparr>bc := (bc st1)\<lparr>dev := (dev (bc st1))\<lparr>bd_read_cnt := k\<rparr>\<rparr>\<rparr>" by (auto simp: reads_only_def)
  show ?thesis
    by (rule that[of k], use assms(3) cache_idle_malloc[OF assms(1)] r(1) in
      \<open>simp add: inode_open_def Let_def st1_def[symmetric] b k inode_of_sector_def\<close>) (simp add: st1_def)
qed

text \<open>Sectors that a directory neither holds nor indexes.\<close>

abbreviation own_sectors :: "fs \<Rightarrow> inode \<Rightarrow> u32 set" where
  "own_sectors st ino \<equiv> data_set st ino \<union> set (metas (the_disk st) (i_ptr ino) (n_blocks (i_length ino)))"

lemma io_frame_fields:
  assumes "io_frame C V st st'"
  shows "objs st' = objs st" "stack_junk st' = stack_junk st" "open_inodes st' = open_inodes st" "fresh st' = fresh st" "cwd st' = cwd st"
proof -
  have e: "st' = st\<lparr>bc := bc st'\<rparr>" using assms by (simp add: io_frame_def)
  show "objs st' = objs st" "stack_junk st' = stack_junk st" "open_inodes st' = open_inodes st" "fresh st' = fresh st" "cwd st' = cwd st"
    by (subst e, simp)+
qed

lemma inode_add_parent_ok:
  assumes "cache_idle (bc st)" "s < bd_size (dev (bc st))" "s \<notin> cached (bc st)"
    "\<And>q. q \<in> set (open_inodes st) \<Longrightarrow> \<exists>i. get_inode q st = Some i \<and> i_sector i \<noteq> s"
  obtains st' where "inode_add_parent release1 parent s st = Some (True, st')"
    "inodes st' = (inodes st)(fresh st := None)" "objs st' = objs st" "stack_junk st' = stack_junk st" "cache_idle (bc st')"
    "\<And>ino. inode_ok st ino \<Longrightarrow> s \<notin> own_sectors st ino \<Longrightarrow>
       inode_ok st' ino \<and> file_bytes st' ino = file_bytes st ino \<and> data_set st' ino = data_set st ino"
proof -
  let ?p = "fresh st"
  define st1 where "st1 = st\<lparr>fresh := fresh st + 1, open_inodes := ?p # open_inodes st\<rparr>"
  define ino0 where "ino0 = inode_of_sector s (the_disk st s)"
  have b1: "bc st1 = bc st" by (simp add: st1_def)
  obtain k where o: "inode_open s st = Some (Some ?p, put_inode ?p ino0 (st1\<lparr>bc := (bc st)\<lparr>dev := (dev (bc st))\<lparr>bd_read_cnt := k\<rparr>\<rparr>\<rparr>))"
    unfolding st1_def ino0_def by (rule inode_open_new[OF assms(1,2) find_open_none[OF assms(4)]])
  define st2 where k: "st2 = st1\<lparr>bc := (bc st)\<lparr>dev := (dev (bc st))\<lparr>bd_read_cnt := k\<rparr>\<rparr>\<rparr>"
  have r: "reads_only st1 st2" by (auto simp: reads_only_def k b1)
  let ?i = "ino0\<lparr>i_parent := parent, i_open_cnt := 0\<rparr>"
  define st3 where "st3 = st2\<lparr>inodes := (inodes st)(?p \<mapsto> ?i), open_inodes := open_inodes st\<rparr>"
  have b3: "cache_idle (bc st3)" "bd_size (dev (bc st3)) = bd_size (dev (bc st))" "cached (bc st3) = cached (bc st)"
    using reads_only_simps[OF r] assms(1) b1 by (simp_all add: st3_def)
  have "length (i_ptr ?i) = 14" by (simp add: ino0_def)
  then have l: "length (enc_inode_disk (disk_of_inode ?i)) = 512" by (simp add: length_enc_inode_disk disk_of_inode_def)
  obtain st4 where w: "fs_write s (enc_inode_disk (disk_of_inode ?i)) st3 = Some st4" "io_frame {s} {s} st3 st4"
    using fs_write_frame[OF b3(1) _ _ l] assms(2,3) b3(2,3) by metis
  let ?st' = "st4\<lparr>inodes := (inodes st4)(?p := None)\<rparr>"
  have "inode_add_parent release1 parent s st = Some (True, ?st')"
    using o[folded k] w(1) by (simp add: inode_add_parent_def inode_close_def get_inode_def put_inode_def Let_def k st1_def st3_def ino0_def)
  moreover have "inodes ?st' = (inodes st)(?p := None)" using io_frame_simps(1)[OF w(2)] by (simp add: st3_def)
  moreover have "objs ?st' = objs st" using io_frame_fields[OF w(2)] by (simp add: st3_def k st1_def)
  moreover have "stack_junk ?st' = stack_junk st"
    using io_frame_fields[OF w(2)] by (simp add: st3_def k st1_def)
  moreover have "cache_idle (bc ?st')" using io_frame_simps(2)[OF w(2)] by simp
  moreover have "inode_ok ?st' ino \<and> file_bytes ?st' ino = file_bytes st ino \<and> data_set ?st' ino = data_set st ino"
    if ok: "inode_ok st ino" and s: "s \<notin> own_sectors st ino" for ino
  proof -
    have e: "inode_ok st3 ino" "file_bytes st3 ino = file_bytes st ino" "the_disk st3 = the_disk st"
      using reads_only_simps[OF r] ok by (simp_all add: st3_def st1_def file_bytes_def)
    have m: "{s} \<inter> set (metas (the_disk st3) (i_ptr ino) (n_blocks (i_length ino))) = {}" using s unfolding e(3) by blast
    have "file_bytes st4 ino = file_bytes st3 ino"
      by (rule io_frame_file_bytes[OF w(2) e(1) _ m]) (use s e(3) in auto)
    moreover have "data_set st4 ino = data_set st3 ino"
      using io_frame_inode_ok(2)[OF w(2) e(1) m] by (simp add: datas_def)
    ultimately show ?thesis using io_frame_inode_ok(1)[OF w(2) e(1) m] e by simp
  qed
  ultimately show ?thesis using that by blast
qed


section \<open>Adding an entry\<close>

text \<open>The directory \<open>d\<close> of the intact inode \<open>p\<close>, not locked, and whose file can be written.\<close>

definition dir_at :: "fs \<Rightarrow> addr \<Rightarrow> addr \<Rightarrow> inode \<Rightarrow> bool" where
  "dir_at st d p ino \<longleftrightarrow> (\<exists>x. get_dir d st = Some x \<and> d_inode x = p) \<and> dir_inode st p ino \<and>
     \<not> i_lock ino \<and> i_deny_write_cnt ino = 0"

text \<open>The state inside the lock.\<close>

abbreviation locked :: "inode \<Rightarrow> inode" where
  "locked ino \<equiv> ino\<lparr>i_lock := True\<rparr>"

lemma dir_lock:
  assumes "dir_at st d p ino"
  obtains st1 where "inode_lock p st = Some st1" "dir_inode st1 p (locked ino)" "file_bytes st1 (locked ino) = file_bytes st ino"
    "objs st1 = objs st" "bc st1 = bc st" "open_inodes st1 = open_inodes st" "fresh st1 = fresh st"
    "inodes st1 = (inodes st)(p \<mapsto> locked ino)" "cwd st1 = cwd st"
proof (rule that)
  let ?st1 = "put_inode p (locked ino) st"
  show "inode_lock p st = Some ?st1" using assms by (simp add: dir_at_def dir_inode_def inode_lock_def)
  show "dir_inode ?st1 p (locked ino)" using assms by (simp add: dir_at_def dir_inode_def put_inode_def get_inode_def)
qed (simp_all add: put_inode_def)

lemma dir_unlock:
  assumes "dir_inode st p (locked ino)" "\<not> i_lock ino" "i_deny_write_cnt ino = 0" "\<exists>x. get_dir d st = Some x \<and> d_inode x = p"
  obtains st' where "inode_unlock p st = Some st'" "dir_at st' d p ino" "file_bytes st' ino = file_bytes st (locked ino)"
    "inodes st' = (inodes st)(p \<mapsto> ino)" "objs st' = objs st" "open_inodes st' = open_inodes st"
    "bc st' = bc st" "cwd st' = cwd st" "fresh st' = fresh st"
proof (rule that)
  let ?st' = "put_inode p ino st"
  have e: "(locked ino)\<lparr>i_lock := False\<rparr> = ino" using assms(2) by simp
  show "inode_unlock p st = Some ?st'" using assms(1) e by (simp add: dir_inode_def inode_unlock_def)
  show "dir_at ?st' d p ino" using assms by (simp add: dir_at_def dir_inode_def put_inode_def get_inode_def get_dir_def)
  show "file_bytes ?st' ino = file_bytes st (locked ino)" by (simp add: put_inode_def)
qed (simp_all add: put_inode_def)

lemma dir_inode_frame:
  assumes "dir_inode st p ino" "io_frame (data_set st ino) {} st st'"
  shows "dir_inode st' p ino" "file_bytes st' ino = file_bytes st ino" "data_set st' ino = data_set st ino"
    "own_sectors st' ino = own_sectors st ino"
proof -
  have ok: "inode_ok st ino" using assms(1) by (simp add: dir_inode_def)
  note m = data_set_meta[OF ok]
  show fb: "file_bytes st' ino = file_bytes st ino" by (rule io_frame_file_bytes[OF assms(2) ok _ m]) simp
  show ds: "data_set st' ino = data_set st ino" using io_frame_inode_ok(2)[OF assms(2) ok m] by (simp add: datas_def)
  have "cached (bc st) \<inter> set (metas (the_disk st) (i_ptr ino) (n_blocks (i_length ino))) = {}"
    using inode_okD(7)[OF ok] by blast
  then show "own_sectors st' ino = own_sectors st ino" using ds io_frame_tree(1)[OF assms(2) m] by simp
  show "dir_inode st' p ino"
    using assms(1) fb io_frame_simps(1,2)[OF assms(2)] io_frame_inode_ok(1)[OF assms(2) ok m] by (simp add: dir_inode_def get_inode_def)
qed

lemma write_slot:
  assumes "dir_inode st p ino" "i_deny_write_cnt ino = 0" "k < length (slots (file_bytes st ino))" "length e = 20"
  obtains st' where "write_at p e (int DIR_ENTRY_SIZE) (int (20 * k)) st = Some (int DIR_ENTRY_SIZE, st')"
    "get_inode p st' = Some ino" "cache_idle (bc st')" "inode_ok st' ino" "file_bytes st' ino = put_bytes (20 * k) e (file_bytes st ino)"
    "objs st' = objs st"
proof -
  have a: "cache_idle (bc st)" "get_inode p st = Some ino" "inode_ok st ino" and rl: "ino\<lparr>i_read_length := i_length ino\<rparr> = ino"
    using assms(1) by (simp_all add: dir_inode_def)
  have fits: "int (20 * k) + int DIR_ENTRY_SIZE \<le> i_length ino" "nat (int DIR_ENTRY_SIZE) \<le> length e"
    using slot_fits[of k "file_bytes st ino"] assms(3,4) inode_okD(2)[OF a(3)] by (simp_all add: DIR_ENTRY_SIZE_def file_bytes_def)
  obtain st1 where w: "inode_write_at alloc1 p e (int DIR_ENTRY_SIZE) (int (20 * k)) st = Some (int DIR_ENTRY_SIZE, put_inode p ino st1)"
    "io_frame (data_set st ino) (data_set st ino) st st1" "inode_ok (put_inode p ino st1) ino"
    "file_bytes (put_inode p ino st1) ino = put_bytes (nat (int (20 * k))) (take (nat (int DIR_ENTRY_SIZE)) e) (file_bytes st ino)"
    using inode_write_at_ok[OF a assms(2) _ _ fits, where alloc = alloc1, unfolded rl] by auto
  show ?thesis
  proof (rule that)
    show "write_at p e (int DIR_ENTRY_SIZE) (int (20 * k)) st = Some (int DIR_ENTRY_SIZE, put_inode p ino st1)"
      using w(1) by (simp add: write_at_def)
    show "file_bytes (put_inode p ino st1) ino = put_bytes (20 * k) e (file_bytes st ino)"
      unfolding w(4) nat_int using assms(4) by (simp add: DIR_ENTRY_SIZE_def)
  qed (use w(3) io_frame_simps(2)[OF w(2)] io_frame_fields(1)[OF w(2)] in \<open>simp_all add: put_inode_def get_inode_def\<close>)
qed


text \<open>Other files and directories are as before: their indices and their bytes.\<close>

definition keeps_files :: "fs \<Rightarrow> inode \<Rightarrow> fs \<Rightarrow> bool" where
  "keeps_files st ino st' \<longleftrightarrow> (\<forall>i. inode_ok st i \<and> data_set st ino \<inter> set (metas (the_disk st) (i_ptr i) (n_blocks (i_length i))) = {} \<longrightarrow>
     inode_ok st' i \<and> file_bytes st' i = file_bytes st i)"

lemma io_frame_keeps: "io_frame (data_set st ino) {} st st' \<Longrightarrow> keeps_files st ino st'"
  unfolding keeps_files_def using io_frame_inode_ok(1) io_frame_file_bytes by blast

lemma same_cache:
  assumes "bc a = bc b"
  shows "inode_ok a i = inode_ok b i" "file_bytes a i = file_bytes b i" "the_disk a = the_disk b"
  using assms by (simp_all add: inode_ok_def file_bytes_def fbyte_def[abs_def] the_disk_def)

lemma keeps_files_cache:
  assumes "keeps_files st ino st1" "bc st' = bc st" "\<And>i. inode_ok st2 i = inode_ok st1 i" "\<And>i. file_bytes st2 i = file_bytes st1 i"
    "i_ptr ino' = i_ptr ino" "i_length ino' = i_length ino"
  shows "keeps_files st' ino' st2"
  using assms same_cache[OF assms(2)] by (simp add: keeps_files_def)

text \<open>A search in the locked directory, which \<open>dir_add\<close>, \<open>dir_lookup\<close> and \<open>dir_remove\<close> begin with.\<close>

lemma dir_search:
  assumes "dir_at st d p ino"
  obtains x st1 st2 where "get_dir d st = Some x" "d_inode x = p" "inode_lock p st = Some st1" "dir_inode st1 p (locked ino)"
    "file_bytes st1 (locked ino) = file_bytes st ino" "objs st1 = objs st" "inodes st1 = (inodes st)(p \<mapsto> locked ino)"
    "dir_lookup_entry d name st1 = Some (find_from name 0 (slots (file_bytes st ino)), st2)"
    "dir_inode st2 p (locked ino)" "file_bytes st2 (locked ino) = file_bytes st ino"
    "own_sectors st2 (locked ino) = own_sectors st ino" "objs st2 = objs st" "inodes st2 = (inodes st)(p \<mapsto> locked ino)"
    "open_inodes st2 = open_inodes st" "fresh st2 = fresh st" "bd_size (dev (bc st2)) = bd_size (dev (bc st))"
    "cached (bc st2) \<subseteq> cached (bc st) \<union> own_sectors st ino" "keeps_files st ino st2" "cwd st2 = cwd st"
proof -
  let ?bs = "file_bytes st ino"
  obtain x where x: "get_dir d st = Some x" "d_inode x = p" using assms by (auto simp: dir_at_def)
  obtain st1 where l: "inode_lock p st = Some st1" "dir_inode st1 p (locked ino)" "file_bytes st1 (locked ino) = ?bs"
    "objs st1 = objs st" "bc st1 = bc st" "open_inodes st1 = open_inodes st" "fresh st1 = fresh st" "inodes st1 = (inodes st)(p \<mapsto> locked ino)" "cwd st1 = cwd st"
    by (rule dir_lock[OF assms])
  have "\<exists>st2. lookup_loop p name (int (20 * 0)) st1 = Some (find_from name 0 (drop 0 (slots (file_bytes st1 (locked ino)))), st2) \<and>
    io_frame (data_set st1 (locked ino)) {} st1 st2" by (rule lookup_loop_ok[OF l(2)]) simp
  then obtain st2 where lk: "lookup_loop p name 0 st1 = Some (find_from name 0 (slots ?bs), st2)"
    "io_frame (data_set st1 (locked ino)) {} st1 st2" using l(3) by auto
  have le: "dir_lookup_entry d name st1 = Some (find_from name 0 (slots ?bs), st2)"
    using lk(1) x l(4) by (simp add: dir_lookup_entry_def get_dir_def)
  note F = dir_inode_frame[OF l(2) lk(2)] io_frame_fields[OF lk(2)] io_frame_simps(1)[OF lk(2)]
  have ds: "the_disk st1 = the_disk st" using l(5) by (simp add: the_disk_def)
  have c: "cached (bc st2) \<subseteq> cached (bc st) \<union> own_sectors st ino" "bd_size (dev (bc st2)) = bd_size (dev (bc st))"
    using lk(2) l(5) ds by (auto simp: io_frame_def)
  show ?thesis
    by (rule that[OF x l(1-4) l(8) le F(1) _ _ _ _ _ _ c(2,1)
          keeps_files_cache[OF io_frame_keeps[OF lk(2)], where ino' = ino, OF l(5)[symmetric]]])
      (use F l ds in simp_all)
qed

lemma find_from_None: "find_from name 0 (slots bs) = None \<longleftrightarrow> dir_map bs name = None"
  using find_from_map[of name 0 "slots bs"] by (simp add: dir_map_def) (metis map_option_is_None)

text \<open>The two outcomes of \<open>dir_add\<close>.\<close>

lemma dir_add_refused:
  assumes "dir_at st d p ino" "name = [] \<or> length name > NAME_MAX \<or> dir_map (file_bytes st ino) name \<noteq> None"
  obtains st' where "dir_add d name s st = Some (False, st')" "dir_at st' d p ino" "file_bytes st' ino = file_bytes st ino"
proof -
  have c: "\<not> i_lock ino" "i_deny_write_cnt ino = 0" using assms(1) by (simp_all add: dir_at_def)
  obtain x st1 st2 where S: "get_dir d st = Some x" "d_inode x = p" "inode_lock p st = Some st1" "dir_inode st1 p (locked ino)"
    "file_bytes st1 (locked ino) = file_bytes st ino" "objs st1 = objs st"
    "dir_lookup_entry d name st1 = Some (find_from name 0 (slots (file_bytes st ino)), st2)"
    "dir_inode st2 p (locked ino)" "file_bytes st2 (locked ino) = file_bytes st ino" "objs st2 = objs st"
    by (rule dir_search[OF assms(1), of name])
  have gd: "\<exists>x. get_dir d st' = Some x \<and> d_inode x = p" if "objs st' = objs st" for st'
    using S(1,2) that by (simp add: get_dir_def)
  show ?thesis
  proof (cases "name = [] \<or> length name > NAME_MAX")
    case True
    obtain st' where u: "inode_unlock p st1 = Some st'" "dir_at st' d p ino" "file_bytes st' ino = file_bytes st1 (locked ino)"
      using dir_unlock[OF S(4) c gd[OF S(6)]] by metis
    have "dir_add d name s st = Some (False, st')" using S(1-3) u(1) True by (simp add: dir_add_def)
    then show ?thesis using that u(2,3) S(5) by simp
  next
    case False
    then obtain y where y: "find_from name 0 (slots (file_bytes st ino)) = Some y" using assms(2) by (auto simp: find_from_None[symmetric])
    obtain st' where u: "inode_unlock p st2 = Some st'" "dir_at st' d p ino" "file_bytes st' ino = file_bytes st2 (locked ino)"
      using dir_unlock[OF S(8) c gd[OF S(10)]] by metis
    have "dir_add d name s st = Some (False, st')" using S(1-3,7) u(1) False by (simp add: dir_add_def y)
    then show ?thesis using that u(2,3) S(9) by simp
  qed
qed

lemma dir_add_done:
  assumes "dir_at st d p ino" "0 \<notin> set name" "\<exists>e \<in> set (slots (file_bytes st ino)). \<not> e_in_use e"
    "s < bd_size (dev (bc st))" "s \<notin> cached (bc st)" "s \<notin> own_sectors st ino"
    "\<And>q. q \<in> set (open_inodes st) \<Longrightarrow> \<exists>i. get_inode q st = Some i \<and> i_sector i \<noteq> s" "p \<noteq> fresh st"
    "name \<noteq> []" "length name \<le> NAME_MAX" "dir_map (file_bytes st ino) name = None"
  obtains st' where "dir_add d name s st = Some (True, st')" "dir_at st' d p ino"
    "dir_map (file_bytes st' ino) = (dir_map (file_bytes st ino))(name \<mapsto> s)"
proof -
  let ?bs = "file_bytes st ino"
  have c: "\<not> i_lock ino" "i_deny_write_cnt ino = 0" using assms(1) by (simp_all add: dir_at_def)
  obtain x st1 st2 where S: "get_dir d st = Some x" "d_inode x = p" "inode_lock p st = Some st1"
    "dir_lookup_entry d name st1 = Some (find_from name 0 (slots ?bs), st2)"
    "dir_inode st2 p (locked ino)" "file_bytes st2 (locked ino) = ?bs"
    "own_sectors st2 (locked ino) = own_sectors st ino" "objs st2 = objs st" "inodes st2 = (inodes st)(p \<mapsto> locked ino)"
    "open_inodes st2 = open_inodes st" "fresh st2 = fresh st" "bd_size (dev (bc st2)) = bd_size (dev (bc st))"
    "cached (bc st2) \<subseteq> cached (bc st) \<union> own_sectors st ino"
    by (rule dir_search[OF assms(1), of name])
  have none: "find_from name 0 (slots ?bs) = None" using assms(11) find_from_None by blast
  have gi: "get_inode p st2 = Some (locked ino)" using S(5) by (simp add: dir_inode_def)
  have "\<exists>ino'. get_inode q st2 = Some ino' \<and> i_sector ino' \<noteq> s" if "q \<in> set (open_inodes st2)" for q
  proof -
    obtain i where "get_inode q st = Some i" "i_sector i \<noteq> s" using assms(7) \<open>q \<in> _\<close> S(10) by auto
    moreover have "get_inode p st = Some ino" using assms(1) by (simp add: dir_at_def dir_inode_def)
    ultimately show ?thesis using S(9) by (auto simp: get_inode_def)
  qed
  moreover have "s \<notin> cached (bc st2)" "s < bd_size (dev (bc st2))" using assms(4-6) S(12,13) by auto
  moreover have "cache_idle (bc st2)" using S(5) by (simp add: dir_inode_def)
  ultimately obtain st3 where ap: "inode_add_parent release1 (inode_get_inumber (locked ino)) s st2 = Some (True, st3)"
    "inodes st3 = (inodes st2)(fresh st2 := None)" "objs st3 = objs st2" "cache_idle (bc st3)"
    "\<And>ino'. inode_ok st2 ino' \<Longrightarrow> s \<notin> own_sectors st2 ino' \<Longrightarrow>
       inode_ok st3 ino' \<and> file_bytes st3 ino' = file_bytes st2 ino' \<and> data_set st3 ino' = data_set st2 ino'"
    using inode_add_parent_ok[of st2 s "inode_get_inumber (locked ino)"] by metis
  have "s \<notin> own_sectors st2 (locked ino)" using S(7) assms(6) by simp
  then have d3: "dir_inode st3 p (locked ino)" "file_bytes st3 (locked ino) = ?bs"
    using ap(2,4) ap(5)[of "locked ino"] S(5,6,9,11) assms(8) by (simp_all add: dir_inode_def get_inode_def)
  obtain i where i: "i < length (slots ?bs)" "\<not> e_in_use (slots ?bs ! i)" using assms(3) by (auto simp: in_set_conv_nth)
  have "length (entry_junk st3) = 20" by (simp add: entry_junk_def)
  from free_slot_loop_ok[OF d3(1) le0 _ _ this, of i] i d3(2) obtain j st4 where
    fs: "free_slot_loop p (entry_junk st3) 0 st3 = Some (slots ?bs ! j, int (20 * j), st4)"
      "j < length (slots ?bs)" "\<not> e_in_use (slots ?bs ! j)" "io_frame (data_set st3 (locked ino)) {} st3 st4" by auto
  note G = dir_inode_frame[OF d3(1) fs(4)] io_frame_fields[OF fs(4)]
  let ?e = "fill_entry_slot name s (slots ?bs ! j)"
  have j: "j < length ?bs div 20" "length name \<le> 14" using fs(2) assms(10) by (simp_all add: NAME_MAX_def)
  have e: "length ?e = 20" by (rule filled_slot(1)[OF length_slot[OF j(1)] j(2) assms(2)])
  obtain st5 where w: "write_at p ?e (int DIR_ENTRY_SIZE) (int (20 * j)) st4 = Some (int DIR_ENTRY_SIZE, st5)"
    "get_inode p st5 = Some (locked ino)" "cache_idle (bc st5)" "inode_ok st5 (locked ino)"
    "file_bytes st5 (locked ino) = put_bytes (20 * j) ?e ?bs" "objs st5 = objs st4"
    using write_slot[OF G(1) _ _ e, of j] c(2) fs(2) G(2) d3(2) by auto
  note m = dir_map_add[OF j(1) fs(3) j(2) assms(2,11), of s]
  have d5: "dir_inode st5 p (locked ino)" using w(2-5) m(2) S(5,6) by (simp add: dir_inode_def)
  have gd: "\<exists>x. get_dir d st5 = Some x \<and> d_inode x = p" using S(1,2,8) ap(3) G(5) w(6) by (simp add: get_dir_def)
  obtain st' where u: "inode_unlock p st5 = Some st'" "dir_at st' d p ino" "file_bytes st' ino = file_bytes st5 (locked ino)"
    using dir_unlock[OF d5 c gd] by metis
  have "dir_add d name s st = Some (True, st')"
    using S(1-4) none assms(9,10) gi ap(1) fs(1) w(1) u(1) by (simp add: dir_add_def)
  then show ?thesis using that u(2,3) w(5) m(1) by simp
qed

text \<open>
  C9: \<open>dir_add\<close> is insertion into a map.  The bytes of a directory stand for the map from the
  names of the entries in use to their sectors.  On an intact directory with a free slot, and for a new
  inode's sector, \<open>dir_add\<close> returns true if and only if the name is not empty, has at most 14 bytes and
  is not in the map; then the map is extended by the name and the sector and nothing else, and in
  every other case it stays as it is.  The directory is intact and unlocked again afterwards.
\<close>

theorem dir_add_refines_map:
  assumes "dir_at st d p ino" "0 \<notin> set name" "\<exists>e \<in> set (slots (file_bytes st ino)). \<not> e_in_use e"
    "s < bd_size (dev (bc st))" "s \<notin> cached (bc st)" "s \<notin> own_sectors st ino"
    "\<And>q. q \<in> set (open_inodes st) \<Longrightarrow> \<exists>i. get_inode q st = Some i \<and> i_sector i \<noteq> s" "p \<noteq> fresh st"
  shows "\<exists>st' ok. dir_add d name s st = Some (ok, st') \<and> dir_at st' d p ino \<and>
    (ok \<longleftrightarrow> name \<noteq> [] \<and> length name \<le> NAME_MAX \<and> dir_map (file_bytes st ino) name = None) \<and>
    dir_map (file_bytes st' ino) = (if ok then (dir_map (file_bytes st ino))(name \<mapsto> s) else dir_map (file_bytes st ino))"
proof (cases "name \<noteq> [] \<and> length name \<le> NAME_MAX \<and> dir_map (file_bytes st ino) name = None")
  case True
  then obtain st' where "dir_add d name s st = Some (True, st')" "dir_at st' d p ino"
    "dir_map (file_bytes st' ino) = (dir_map (file_bytes st ino))(name \<mapsto> s)"
    using dir_add_done[OF assms] by metis
  then show ?thesis using True by auto
next
  case False
  then obtain st' where "dir_add d name s st = Some (False, st')" "dir_at st' d p ino" "file_bytes st' ino = file_bytes st ino"
    using dir_add_refused[OF assms(1), of name s] by (metis not_le)
  then show ?thesis using False by auto
qed


section \<open>Looking an entry up\<close>

lemma find_open_some:
  assumes "\<And>q. q \<in> set ps \<Longrightarrow> get_inode q st \<noteq> None"
  shows "(\<exists>q i. q \<in> set ps \<and> get_inode q st = Some i \<and> i_sector i = s \<and> find_open s ps st = Some (Some q)) \<or>
    find_open s ps st = Some None \<and> (\<forall>q \<in> set ps. \<forall>i. get_inode q st = Some i \<longrightarrow> i_sector i \<noteq> s)"
  using assms
proof (induction ps)
  case (Cons a ps)
  then obtain i where "get_inode a st = Some i" by fastforce
  moreover have "\<And>q. q \<in> set ps \<Longrightarrow> get_inode q st \<noteq> None" using Cons.prems by simp
  ultimately show ?case using Cons.IH by (cases "i_sector i = s") auto
qed simp

text \<open>The inode of a sector is open: \<open>inode_open\<close> returns the one in the list, or a new one if there is none.\<close>

definition opened :: "fs \<Rightarrow> u32 \<Rightarrow> addr \<Rightarrow> fs \<Rightarrow> bool" where
  "opened st s q st' \<longleftrightarrow> (\<exists>i. get_inode q st' = Some i \<and> i_sector i = s \<and>
     (if q \<in> set (open_inodes st) then \<exists>i0. get_inode q st = Some i0 \<and> i_sector i0 = s \<and>
         i = i0\<lparr>i_open_cnt := i_open_cnt i0 + 1\<rparr> \<and> open_inodes st' = open_inodes st
      else (\<forall>r \<in> set (open_inodes st). \<forall>i. get_inode r st = Some i \<longrightarrow> i_sector i \<noteq> s) \<and>
         get_inode q st = None \<and> i_open_cnt i = 1 \<and> open_inodes st' = q # open_inodes st))"

lemma inode_open_ok:
  assumes "cache_idle (bc st)" "s < bd_size (dev (bc st))" "\<forall>q \<in> set (open_inodes st). get_inode q st \<noteq> None"
    "get_inode (fresh st) st = None"
  obtains q st' where "inode_open s st = Some (Some q, st')" "opened st s q st'" "\<And>r. r \<noteq> q \<Longrightarrow> get_inode r st' = get_inode r st"
    "objs st' = objs st" "cwd st' = cwd st" "cache_idle (bc st')" "bd_size (dev (bc st')) = bd_size (dev (bc st))"
    "\<And>ino. inode_ok st' ino = inode_ok st ino" "\<And>ino. file_bytes st' ino = file_bytes st ino" "fresh st \<le> fresh st'"
proof -
  consider (old) q i where "q \<in> set (open_inodes st)" "get_inode q st = Some i" "i_sector i = s" "find_open s (open_inodes st) st = Some (Some q)"
    | (new) "find_open s (open_inodes st) st = Some None" "\<forall>q \<in> set (open_inodes st). \<forall>i. get_inode q st = Some i \<longrightarrow> i_sector i \<noteq> s"
    using find_open_some[of "open_inodes st" st s] assms(3) by blast
  then show ?thesis
  proof cases
    case old
    let ?st' = "put_inode q (i\<lparr>i_open_cnt := i_open_cnt i + 1\<rparr>) st"
    have "inode_open s st = Some (Some q, ?st')" using old by (simp add: inode_open_def inode_reopen_def)
    then show ?thesis
      by (rule that) (use old in \<open>simp_all add: opened_def put_inode_def get_inode_def assms(1)\<close>)
  next
    case new
    obtain k where "inode_open s st = Some (Some (fresh st), put_inode (fresh st) (inode_of_sector s (the_disk st s))
      (st\<lparr>fresh := fresh st + 1, open_inodes := fresh st # open_inodes st, bc := (bc st)\<lparr>dev := (dev (bc st))\<lparr>bd_read_cnt := k\<rparr>\<rparr>\<rparr>))"
      (is "_ = Some (_, ?st')") by (rule inode_open_new[OF assms(1,2) new(1)])
    then show ?thesis
    proof (rule that)
      have "fresh st \<notin> set (open_inodes st)" using assms(3,4) by blast
      then show "opened st s (fresh st) ?st'" using new(2) assms(4) by (auto simp: opened_def put_inode_def get_inode_def)
      let ?st1 = "st\<lparr>bc := (bc st)\<lparr>dev := (dev (bc st))\<lparr>bd_read_cnt := k\<rparr>\<rparr>\<rparr>"
      have r: "reads_only st ?st1" by (auto simp: reads_only_def)
      have e: "?st' = ?st1\<lparr>fresh := fresh st + 1, open_inodes := fresh st # open_inodes st, inodes := (inodes st)(fresh st \<mapsto> inode_of_sector s (the_disk st s))\<rparr>"
        by (simp add: put_inode_def)
      show "inode_ok ?st' ino = inode_ok st ino" "file_bytes ?st' ino = file_bytes st ino" for ino
        unfolding e using reads_only_simps(7,8)[OF r, of ino] by (simp_all add: file_bytes_def)
      show "cache_idle (bc ?st')" using reads_only_simps(4)[OF r] assms(1) by (simp add: put_inode_def)
    qed (simp_all add: put_inode_def get_inode_def)
  qed
qed


text \<open>What both outcomes of \<open>dir_lookup\<close> have in common, with \<open>opens\<close> the effect on the open inodes.\<close>

lemma dir_lookup_ok:
  assumes "dir_at st d p ino" "\<forall>q \<in> set (open_inodes st). get_inode q st \<noteq> None" "get_inode (fresh st) st = None"
    "\<forall>s. dir_map (file_bytes st ino) name = Some s \<longrightarrow> s < bd_size (dev (bc st))"
  obtains st' r ino' where "dir_lookup d name st = Some (r, st')" "dir_at st' d p ino'" "file_bytes st' ino' = file_bytes st ino"
    "ino' = (if r = Some p then ino\<lparr>i_open_cnt := i_open_cnt ino + 1\<rparr> else ino)"
    "case dir_map (file_bytes st ino) name of
       None \<Rightarrow> r = None \<and> inodes st' = inodes st \<and> open_inodes st' = open_inodes st
     | Some s \<Rightarrow> \<exists>q. r = Some q \<and> opened st s q st'"
    "objs st' = objs st" "cwd st' = cwd st" "keeps_files st ino st'" "bd_size (dev (bc st')) = bd_size (dev (bc st))"
proof -
  let ?bs = "file_bytes st ino"
  have c: "\<not> i_lock ino" "i_deny_write_cnt ino = 0" using assms(1) by (simp_all add: dir_at_def)
  have gp: "get_inode p st = Some ino" using assms(1) by (simp add: dir_at_def dir_inode_def)
  obtain x st1 st2 where S: "get_dir d st = Some x" "d_inode x = p" "inode_lock p st = Some st1"
    "dir_lookup_entry d name st1 = Some (find_from name 0 (slots ?bs), st2)"
    "dir_inode st2 p (locked ino)" "file_bytes st2 (locked ino) = ?bs" "objs st2 = objs st" "inodes st2 = (inodes st)(p \<mapsto> locked ino)"
    "open_inodes st2 = open_inodes st" "fresh st2 = fresh st" "bd_size (dev (bc st2)) = bd_size (dev (bc st))"
    "keeps_files st ino st2" "cwd st2 = cwd st"
    by (rule dir_search[OF assms(1), of name])
  have gd: "\<exists>x. get_dir d st' = Some x \<and> d_inode x = p" if "objs st' = objs st" for st'
    using S(1,2) that by (simp add: get_dir_def)
  show ?thesis
  proof (cases "find_from name 0 (slots ?bs)")
    case None
    obtain st' where u: "inode_unlock p st2 = Some st'" "dir_at st' d p ino" "file_bytes st' ino = file_bytes st2 (locked ino)"
      "inodes st' = (inodes st2)(p \<mapsto> ino)" "objs st' = objs st2" "open_inodes st' = open_inodes st2" "bc st' = bc st2" "cwd st' = cwd st2"
      by (rule dir_unlock[OF S(5) c gd[OF S(7)]])
    have "dir_lookup d name st = Some (None, st')" using S(1-4) u(1) None by (simp add: dir_lookup_def)
    moreover have "inodes st' = inodes st" using u(4) S(8) gp by (auto simp: get_inode_def)
    moreover have "keeps_files st ino st'" using same_cache[OF u(7)] by (intro keeps_files_cache[OF S(12)]) simp_all
    moreover have "dir_map ?bs name = None" using None find_from_None by blast
    ultimately show ?thesis by (intro that[of None st' ino]) (use u(2-8) S(6-9,11,13) in simp_all)
  next
    case (Some y)
    let ?s = "e_sector (fst y)"
    have m: "dir_map ?bs name = Some ?s" using find_from_map[of name 0 "slots ?bs"] Some unfolding dir_map_def by (metis option.map(2))
    have o: "\<forall>q \<in> set (open_inodes st2). get_inode q st2 \<noteq> None" "get_inode (fresh st2) st2 = None"
      using assms(2,3) S(8-10) gp by (auto simp: get_inode_def)
    have b: "cache_idle (bc st2)" "?s < bd_size (dev (bc st2))" using S(5,11) assms(4) m by (simp_all add: dir_inode_def)
    obtain q st3 where q: "inode_open ?s st2 = Some (Some q, st3)" "opened st2 ?s q st3" "\<And>r. r \<noteq> q \<Longrightarrow> get_inode r st3 = get_inode r st2"
      "objs st3 = objs st2" "cache_idle (bc st3)" "\<And>i. inode_ok st3 i = inode_ok st2 i" "\<And>i. file_bytes st3 i = file_bytes st2 i"
      "cwd st3 = cwd st2" "bd_size (dev (bc st3)) = bd_size (dev (bc st2))"
      by (rule inode_open_ok[OF b o]) (rule that)
    define ino' where "ino' = (if q = p then ino\<lparr>i_open_cnt := i_open_cnt ino + 1\<rparr> else ino)"
    have p2: "get_inode p st2 = Some (locked ino)" using S(5) by (simp add: dir_inode_def)
    have p3: "get_inode p st3 = Some (locked ino')"
      using q(2,3) p2 by (cases "q = p") (auto simp: opened_def ino'_def split: if_splits)
    have d3: "dir_inode st3 p (locked ino')" "file_bytes st3 (locked ino') = ?bs" "\<not> i_lock ino'" "i_deny_write_cnt ino' = 0"
      using S(5,6) q(5-7) p3 c by (simp_all add: dir_inode_def ino'_def)
    have "objs st3 = objs st" using q(4) S(7) by simp
    then obtain st' where u: "inode_unlock p st3 = Some st'" "dir_at st' d p ino'" "file_bytes st' ino' = file_bytes st3 (locked ino')"
      "inodes st' = (inodes st3)(p \<mapsto> ino')" "objs st' = objs st3" "open_inodes st' = open_inodes st3" "bc st' = bc st3" "cwd st' = cwd st3"
      using dir_unlock[OF d3(1,3,4) gd] by blast
    have "dir_lookup d name st = Some (Some q, st')" using S(1-4) q(1) u(1) Some by (cases y) (simp add: dir_lookup_def)
    moreover have "opened st ?s q st'"
      using q(2) u(4,6) S(8,9) gp p2 p3 by (auto simp: opened_def get_inode_def ino'_def split: if_splits)
    moreover have "keeps_files st ino st'" using same_cache[OF u(7)] q(6,7) by (intro keeps_files_cache[OF S(12)]) simp_all
    ultimately show ?thesis by (intro that[of "Some q" st' ino']) (use u(2,3,5,7,8) q(4,8,9) S(7,11,13) d3(2) m in \<open>simp_all add: ino'_def\<close>)
  qed
qed

text \<open>
  C10: \<open>dir_lookup\<close> evaluates the map of a directory.  On an intact directory it returns no inode
  exactly if the name is not in the map, and otherwise the inode of the name's sector: the one
  that is open already, opened once more, or a new one at the head of the list of open inodes, so
  that no sector has two of them.  The directory is unlocked again, and its bytes and the files
  are as before.
\<close>

theorem dir_lookup_refines_map:
  assumes "dir_at st d p ino" "\<forall>q \<in> set (open_inodes st). get_inode q st \<noteq> None" "get_inode (fresh st) st = None"
    "\<forall>s. dir_map (file_bytes st ino) name = Some s \<longrightarrow> s < bd_size (dev (bc st))"
  shows "\<exists>st' r ino'. dir_lookup d name st = Some (r, st') \<and> dir_at st' d p ino' \<and> file_bytes st' ino' = file_bytes st ino \<and>
    keeps_files st ino st' \<and>
    (case dir_map (file_bytes st ino) name of
       None \<Rightarrow> r = None \<and> inodes st' = inodes st \<and> open_inodes st' = open_inodes st
     | Some s \<Rightarrow> \<exists>q. r = Some q \<and> opened st s q st')"
  by (rule dir_lookup_ok[OF assms]) blast


section \<open>Witnesses\<close>

text \<open>A root directory with the entry \<open>a\<close> for sector 2 and a free slot, in sector 12.\<close>

definition demo_entry :: "u8 list" where
  "demo_entry = [2, 0, 0, 0, 97] @ replicate 14 0 @ [1]"

definition demo_root :: inode where
  "demo_root = \<lparr>i_sector = 1, i_open_cnt = 1, i_removed = False, i_deny_write_cnt = 0, i_length = 40,
     i_read_length = 40, i_direct = 1, i_indirect = 0, i_double = 0, i_isdir = True, i_parent = 1,
     i_lock = False, i_ptr = [12] @ replicate 13 0\<rparr>"

definition demo_dirs :: fs where
  "demo_dirs = demo_fs\<lparr>bc := demo_cache\<lparr>dev := demo_dev\<lparr>bd_data := (bd_data demo_dev)(12 := demo_entry @ replicate 492 0)\<rparr>\<rparr>,
     inodes := [3 \<mapsto> demo_root, 7 \<mapsto> demo_inode], open_inodes := [3, 7], objs := [4 \<mapsto> Dir \<lparr>d_inode = 3, d_pos = 0\<rparr>]\<rparr>"

lemma demo_dirs_simps:
  "get_inode 3 demo_dirs = Some demo_root" "get_inode 7 demo_dirs = Some demo_inode" "open_inodes demo_dirs = [3, 7]"
  "inodes demo_dirs = [3 \<mapsto> demo_root, 7 \<mapsto> demo_inode]" "fresh demo_dirs = 8" "cwd demo_dirs = None"
  "bd_size (dev (bc demo_dirs)) = 100" "cached (bc demo_dirs) = {5}" "get_dir 4 demo_dirs = Some \<lparr>d_inode = 3, d_pos = 0\<rparr>"
  by (simp_all add: demo_dirs_def get_inode_def demo_fs_def demo_cache_def demo_dev_def cached_def get_dir_def)

lemma demo_dirs_idle: "cache_idle (bc demo_dirs)"
  unfolding cache_idle_def cache_ok_def demo_dirs_def
  by (simp add: demo_cache_def demo_dev_def dev_ok_def entry_ok_def MAX_FILESYS_CACHE_SIZE_def demo_entry_def)

lemma demo_root_simps [simp]:
  "i_length demo_root = 40" "i_read_length demo_root = 40" "i_sector demo_root = 1" "i_open_cnt demo_root = 1"
  "\<not> i_lock demo_root" "i_deny_write_cnt demo_root = 0" "length (i_ptr demo_root) = 14" "i_isdir demo_root" "\<not> i_isdir demo_inode"
  "i_sector demo_inode = 2"
  by (simp_all add: demo_root_def demo_inode_def)

lemma demo_root_data: "datas d (i_ptr demo_root) (Suc 0) = [12]" "metas d (i_ptr demo_root) (Suc 0) = []" "n_blocks 40 = Suc 0"
  by (simp_all add: datas_def metas_def n_ind_def blk_def n_blocks_def demo_root_def)

lemma demo_dirs_ok: "inode_ok demo_dirs demo_root" "inode_ok demo_dirs demo_inode"
proof -
  show "inode_ok demo_dirs demo_root" by (simp add: inode_ok_def Let_def demo_root_data demo_dirs_simps MAX_FILE_SIZE_def)
  have "n_blocks (i_length demo_inode) = 2" by (simp add: n_blocks_def demo_inode_def)
  then show "inode_ok demo_dirs demo_inode"
    by (simp add: inode_ok_def Let_def demo_datas demo_dirs_simps) (simp add: demo_inode_def MAX_FILE_SIZE_def)
qed

lemma length_demo_entry [simp]: "length demo_entry = 20"
  by (simp add: demo_entry_def)

lemma demo_root_bytes: "file_bytes demo_dirs demo_root = demo_entry @ replicate 20 0"
proof (rule nth_equalityI)
  fix k assume "k < length (file_bytes demo_dirs demo_root)"
  then have k: "k < 40" by (simp add: file_bytes_def demo_root_def)
  have "cview (bc demo_dirs) 12 = demo_entry @ replicate 492 0"
    by (simp add: cview_def demo_dirs_def demo_cache_def demo_dev_def centry_def)
  moreover have "blk (the_disk demo_dirs) (i_ptr demo_root) 0 = 12" by (simp add: blk_def demo_root_def)
  ultimately show "file_bytes demo_dirs demo_root ! k = (demo_entry @ replicate 20 0) ! k"
    using k by (simp add: file_bytes_def fbyte_def nth_append)
qed (simp add: file_bytes_def)

lemma demo_root_slots: "slots (file_bytes demo_dirs demo_root) = [demo_entry, replicate 20 0]"
proof -
  have "[0..<2::nat] = [0, 1]" by (simp add: upt_rec)
  then show ?thesis by (simp add: demo_root_bytes slots_def get_bytes_def demo_entry_def)
qed

lemma demo_entry_simps: "e_in_use demo_entry" "e_name demo_entry = Some [97]" "e_sector demo_entry = 2" "\<not> e_in_use (replicate 20 0)"
  by (simp_all add: e_in_use_def e_name_def e_sector_def demo_entry_def get_bytes_def word_at_def nth_append dec32_def)

lemma demo_root_map: "dir_map (file_bytes demo_dirs demo_root) = [[97] \<mapsto> 2]"
  by (auto simp: dir_map_def demo_root_slots named_def demo_entry_simps)

lemma demo_dir_inode: "dir_inode demo_dirs 3 demo_root"
  using demo_dirs_ok(1) demo_dirs_idle
  by (simp add: dir_inode_def demo_dirs_simps dir_ok_def demo_root_slots demo_entry_simps)

lemma demo_dir_at: "dir_at demo_dirs 4 3 demo_root"
  using demo_dir_inode by (simp add: dir_at_def demo_dirs_simps)

theorem dir_add_refines_map_witness:
  "\<exists>st'. dir_add 4 [98] 30 demo_dirs = Some (True, st') \<and> dir_map (file_bytes st' demo_root) = [[97] \<mapsto> 2, [98] \<mapsto> 30]"
proof -
  have "\<exists>st' ok. dir_add 4 [98 :: u8] 30 demo_dirs = Some (ok, st') \<and> dir_at st' 4 3 demo_root \<and>
    (ok \<longleftrightarrow> [98 :: u8] \<noteq> [] \<and> length [98 :: u8] \<le> NAME_MAX \<and> dir_map (file_bytes demo_dirs demo_root) [98] = None) \<and>
    dir_map (file_bytes st' demo_root) = (if ok then (dir_map (file_bytes demo_dirs demo_root))([98] \<mapsto> 30) else dir_map (file_bytes demo_dirs demo_root))"
    by (rule dir_add_refines_map[OF demo_dir_at])
      (auto simp: demo_dirs_simps demo_root_slots demo_entry_simps demo_root_data)
  then show ?thesis by (auto simp: demo_root_map NAME_MAX_def split: if_splits)
qed

theorem dir_lookup_refines_map_witness:
  "\<exists>st'. dir_lookup 4 [97] demo_dirs = Some (Some 7, st')"
proof -
  obtain st' r where "dir_lookup 4 [97] demo_dirs = Some (r, st')" "\<exists>q. r = Some q \<and> opened demo_dirs 2 q st'"
    using dir_lookup_refines_map[OF demo_dir_at, where name = "[97]"]
    by (auto simp: demo_dirs_simps demo_root_map get_inode_def)
  then show ?thesis
    by (auto simp: opened_def demo_dirs_simps get_inode_def split: if_splits)
qed

end
