(* ===== verification/KFilesysProps.thy ===== *)
theory KFilesysProps imports KDirProps begin

text \<open>
  Opening by path name, from the path to the open file: \<open>filesys_open\<close> on a name in the root directory.
\<close>

lemma path_tokens_nonempty: "t \<in> set (path_tokens s) \<Longrightarrow> t \<noteq> []"
proof (induction s rule: path_tokens.induct)
  case (1 s)
  define t' where "t' = dropWhile (\<lambda>c. c = ASCII_SLASH) s"
  have p: "path_tokens s = (if t' = [] then [] else takeWhile (\<lambda>c. c \<noteq> ASCII_SLASH) t' # path_tokens (dropWhile (\<lambda>c. c \<noteq> ASCII_SLASH) t'))"
    by (subst path_tokens.simps) (simp only: Let_def t'_def)
  show ?case
  proof (cases "t' = []")
    case False
    then have "hd t' \<noteq> ASCII_SLASH" unfolding t'_def by (metis (full_types) hd_dropWhile)
    then have "takeWhile (\<lambda>c. c \<noteq> ASCII_SLASH) t' \<noteq> []" using False by (cases t') auto
    then show ?thesis using 1(1)[OF t'_def False] 1(2) False unfolding p by auto
  qed (use 1(2) p in simp)
qed

lemma find_open_sector: "find_open s ps st = Some (Some p) \<Longrightarrow> \<exists>i. p \<in> set ps \<and> get_inode p st = Some i \<and> i_sector i = s"
  by (induction ps) (auto split: option.splits bind_splits if_splits)

text \<open>The root directory is open as the inode \<open>p\<close>, intact and not locked.\<close>

definition root_at :: "fs \<Rightarrow> addr \<Rightarrow> inode \<Rightarrow> bool" where
  "root_at st p root \<longleftrightarrow> find_open ROOT_DIR_SECTOR (open_inodes st) st = Some (Some p) \<and> dir_inode st p root \<and>
     \<not> i_lock root \<and> i_deny_write_cnt root = 0 \<and> 0 < i_open_cnt root"

lemma open_root:
  assumes "root_at st p root"
  defines "root' \<equiv> root\<lparr>i_open_cnt := i_open_cnt root + 1\<rparr>"
  obtains st' where "dir_open_root st = Some (Some (fresh st), st')" "dir_at st' (fresh st) p root'"
    "file_bytes st' root' = file_bytes st root" "inodes st' = (inodes st)(p \<mapsto> root')" "open_inodes st' = open_inodes st"
    "objs st' = (objs st)(fresh st \<mapsto> Dir \<lparr>d_inode = p, d_pos = 0\<rparr>)" "fresh st' = fresh st + 1" "bc st' = bc st" "cwd st' = cwd st"
proof (rule that)
  have g: "get_inode p st = Some root" "cache_idle (bc st)" "inode_ok st root" using assms(1) by (simp_all add: root_at_def dir_inode_def)
  let ?st' = "(put_inode p root' st)\<lparr>fresh := fresh st + 1, objs := (objs st)(fresh st \<mapsto> Dir \<lparr>d_inode = p, d_pos = 0\<rparr>)\<rparr>"
  have m: "fs_malloc (put_inode p root' st) = (True, put_inode p root' st)"
    by (rule cache_idle_malloc) (simp add: put_inode_def g(2))
  show "dir_open_root st = Some (Some (fresh st), ?st')"
    using assms(1) g(1) m by (simp add: dir_open_root_def inode_open_def inode_reopen_def root_at_def dir_open_def new_obj_def root'_def)
      (simp add: put_inode_def)
  show "dir_at ?st' (fresh st) p root'"
    using assms(1) by (auto simp: dir_at_def root_at_def dir_inode_def get_dir_def get_inode_def put_inode_def root'_def
      same_cache(1,2)[of ?st' st])
  show "file_bytes ?st' root' = file_bytes st root" by (simp add: root'_def put_inode_def same_cache(2)[of ?st' st])
qed (simp_all add: put_inode_def)


lemma close_dir:
  assumes "dir_at st d p ino" "1 < i_open_cnt ino"
  shows "dir_close (Some d) st = Some (free_obj d (put_inode p (ino\<lparr>i_open_cnt := i_open_cnt ino - 1\<rparr>) st))"
  using assms by (auto simp: dir_at_def dir_inode_def dir_close_def close_inode_def inode_close_def Let_def)

text \<open>What the entry of an open file or directory holds.\<close>

definition handle :: "addr \<Rightarrow> inode \<Rightarrow> fobj" where
  "handle q i = (if i_isdir i then Dir \<lparr>d_inode = q, d_pos = 0\<rparr> else File \<lparr>f_inode = q, f_pos = 0, f_deny = False\<rparr>)"

lemma open_handle:
  assumes "get_inode q st = Some i" "cache_idle (bc st)"
  shows "(if inode_is_dir i then dir_open (Some q) st else file_open close_inode (Some q) st) =
    Some (Some (fresh st), st\<lparr>fresh := fresh st + 1, objs := (objs st)(fresh st \<mapsto> handle q i)\<rparr>)"
  using cache_idle_malloc[OF assms(2)]
  by (simp add: dir_open_def file_open_def new_obj_def handle_def inode_is_dir_def)

lemma filesys_open_ok:
  assumes "path_tokens path = [name]" "hd path = ASCII_SLASH \<and> path \<noteq> [] \<or> cwd st = None" "name \<noteq> DOT" "name \<noteq> DOTDOT"
    "root_at st p root" "\<forall>q \<in> set (open_inodes st). get_inode q st \<noteq> None" "\<forall>q \<ge> fresh st. get_inode q st = None"
    "\<forall>s. dir_map (file_bytes st root) name = Some s \<longrightarrow> s < bd_size (dev (bc st))"
  obtains st' r where "filesys_open path st = Some (r, st')" "keeps_files st root st'" "cache_idle (bc st')"
    "bd_size (dev (bc st')) = bd_size (dev (bc st))"
    "case dir_map (file_bytes st root) name of None \<Rightarrow> r = None
     | Some s \<Rightarrow> \<exists>a q i. r = Some a \<and> get_inode q st' = Some i \<and> i_sector i = s \<and> objs st' = (objs st)(fresh st := None, a \<mapsto> handle q i) \<and>
         get_inode p st' = Some (if q = p then root\<lparr>i_open_cnt := i_open_cnt root + 1\<rparr> else root) \<and>
         ((\<exists>r \<in> set (open_inodes st). \<exists>i. get_inode r st = Some i \<and> i_sector i = s) \<longrightarrow> q \<in> set (open_inodes st) \<and>
           (\<exists>i0. get_inode q st = Some i0 \<and> i_sector i0 = s \<and> (q \<noteq> p \<longrightarrow> i = i0\<lparr>i_open_cnt := i_open_cnt i0 + 1\<rparr>)))"
    "r = None \<longrightarrow> objs st' = (objs st)(fresh st := None) \<and> get_inode p st' = Some root"
proof -
  let ?d = "fresh st" and ?root = "root\<lparr>i_open_cnt := i_open_cnt root + 1\<rparr>"
  obtain st1 where o: "dir_open_root st = Some (Some ?d, st1)" "dir_at st1 ?d p ?root"
    "file_bytes st1 ?root = file_bytes st root" "inodes st1 = (inodes st)(p \<mapsto> ?root)" "open_inodes st1 = open_inodes st"
    "objs st1 = (objs st)(?d \<mapsto> Dir \<lparr>d_inode = p, d_pos = 0\<rparr>)" "fresh st1 = fresh st + 1" "bc st1 = bc st" "cwd st1 = cwd st"
    by (rule open_root[OF assms(5)])
  have gp: "get_inode p st = Some root" "cache_idle (bc st)" "0 < i_open_cnt root" using assms(5) by (simp_all add: root_at_def dir_inode_def)
  have cd: "get_containing_dir path st = Some (Some ?d, st1)"
    using assms(1,2) o(1) by (auto simp: get_containing_dir_def)
  have gf: "get_filename path st1 = Some (name, st1)"
    using assms(1) cache_idle_malloc[of st1] o(8) gp(2) by (simp add: get_filename_def)
  have ne: "name \<noteq> []" "path \<noteq> []" using path_tokens_nonempty[of name path] assms(1) path_tokens.simps[of "[]"] by auto
  have rd: "dir_is_root (Some ?d) st1 = Some True"
    using o(2) find_open_sector assms(5) gp(1)
    by (fastforce simp: dir_is_root_def dir_at_def dir_inode_def root_at_def inode_get_inumber_def)
  have c1: "\<forall>q \<in> set (open_inodes st1). get_inode q st1 \<noteq> None" "get_inode (fresh st1) st1 = None"
    "\<forall>s. dir_map (file_bytes st1 ?root) name = Some s \<longrightarrow> s < bd_size (dev (bc st1))"
    using assms(6-8) o gp(1) by (auto simp: get_inode_def)
  obtain st2 r root2 where l: "dir_lookup ?d name st1 = Some (r, st2)" "dir_at st2 ?d p root2"
    "root2 = (if r = Some p then ?root\<lparr>i_open_cnt := i_open_cnt ?root + 1\<rparr> else ?root)"
    "case dir_map (file_bytes st1 ?root) name of
       None \<Rightarrow> r = None \<and> inodes st2 = inodes st1 \<and> open_inodes st2 = open_inodes st1
     | Some s \<Rightarrow> \<exists>q. r = Some q \<and> opened st1 s q st2" "keeps_files st1 ?root st2" "bd_size (dev (bc st2)) = bd_size (dev (bc st1))" "objs st2 = objs st1"
    by (rule dir_lookup_ok[OF o(2) c1]) (rule that)
  let ?st3 = "free_obj ?d (put_inode p (root2\<lparr>i_open_cnt := i_open_cnt root2 - 1\<rparr>) st2)"
  have c: "dir_close (Some ?d) st2 = Some ?st3" by (rule close_dir[OF l(2)]) (use l(3) gp(3) in simp)
  have i3: "cache_idle (bc ?st3)" using l(2) by (simp add: dir_at_def dir_inode_def free_obj_def put_inode_def)
  have b3: "bd_size (dev (bc ?st3)) = bd_size (dev (bc st))" using l(6) o(8) by (simp add: free_obj_def put_inode_def)
  have k3: "keeps_files st root ?st3"
    by (rule keeps_files_cache[OF l(5) o(8)[symmetric]]) (simp_all add: same_cache(1,2)[of ?st3 st2] free_obj_def put_inode_def)
  have ob: "objs ?st3 = (objs st)(?d := None)" using l(7) o(6) by (simp add: free_obj_def put_inode_def)
  have gp3: "get_inode p ?st3 = Some (if r = Some p then root\<lparr>i_open_cnt := i_open_cnt root + 1\<rparr> else root)"
    using l(3) by (simp add: free_obj_def put_inode_def get_inode_def)
  show ?thesis
  proof (cases "dir_map (file_bytes st root) name")
    case None
    then have "r = None" using l(4) o(3) by simp
    then have "filesys_open path st = Some (None, ?st3)"
      using cd gf rd l(1) c ne assms(3,4) by (simp add: filesys_open_def)
    then show ?thesis by (rule that) (use k3 i3 b3 None ob gp3 \<open>r = None\<close> in simp_all)
  next
    case (Some s)
    then obtain q where q: "r = Some q" "opened st1 s q st2" using l(4) o(3) by auto
    obtain i where i: "get_inode q ?st3 = Some i" "i_sector i = s"
      "((\<exists>r \<in> set (open_inodes st). \<exists>i. get_inode r st = Some i \<and> i_sector i = s) \<longrightarrow> q \<in> set (open_inodes st) \<and>
           (\<exists>i0. get_inode q st = Some i0 \<and> i_sector i0 = s \<and> (q \<noteq> p \<longrightarrow> i = i0\<lparr>i_open_cnt := i_open_cnt i0 + 1\<rparr>)))"
    proof -
      have g2: "get_inode p st2 = Some root2" using l(2) by (simp add: dir_at_def dir_inode_def)
      have q': "\<exists>i0. get_inode q st = Some i0 \<and> i_sector i0 = s" if "q \<in> set (open_inodes st1)"
        using q(2) that o(4,5) gp(1) by (auto simp: opened_def get_inode_def split: if_splits)
      have no: "q \<in> set (open_inodes st1)" if "\<exists>r \<in> set (open_inodes st). \<exists>i. get_inode r st = Some i \<and> i_sector i = s"
      proof (rule ccontr)
        assume "q \<notin> set (open_inodes st1)"
        then have "\<forall>r \<in> set (open_inodes st). \<forall>i. get_inode r st1 = Some i \<longrightarrow> i_sector i \<noteq> s"
          using q(2) o(5) unfolding opened_def by auto
        then show False using that o(4) gp(1) by (fastforce simp: get_inode_def split: if_splits)
      qed
      obtain i where i: "get_inode q st2 = Some i" "i_sector i = s"
        "q \<in> set (open_inodes st1) \<Longrightarrow> \<exists>i0. get_inode q st1 = Some i0 \<and> i = i0\<lparr>i_open_cnt := i_open_cnt i0 + 1\<rparr>"
        using q(2) by (auto simp: opened_def split: if_splits)
      show ?thesis
      proof (cases "q = p")
        case True
        then show ?thesis using i(1,2) g2 q' no o(5)
          by (intro that[of "root2\<lparr>i_open_cnt := i_open_cnt root2 - 1\<rparr>"]) (auto simp: get_inode_def put_inode_def free_obj_def)
      next
        case False
        have "\<exists>i0. get_inode q st = Some i0 \<and> i_sector i0 = s \<and> i = i0\<lparr>i_open_cnt := i_open_cnt i0 + 1\<rparr>" if "q \<in> set (open_inodes st1)"
          using i(3)[OF that] i(2) False o(4) by (auto simp: get_inode_def)
        moreover have "get_inode q ?st3 = Some i" using i(1) False by (simp add: get_inode_def put_inode_def free_obj_def)
        ultimately show ?thesis using i(2) no o(5) by (intro that[of i]) auto
      qed
    qed
    let ?st4 = "?st3\<lparr>fresh := fresh ?st3 + 1, objs := (objs ?st3)(fresh ?st3 \<mapsto> handle q i)\<rparr>"
    have "filesys_open path st = Some (Some (fresh ?st3), ?st4)"
      using cd gf rd l(1) c ne assms(3,4) q(1) i(1) open_handle[OF i(1) i3] by (simp add: filesys_open_def)
    then show ?thesis
    proof (rule that)
      show "keeps_files st root ?st4"
        by (rule keeps_files_cache[OF k3 refl]) (simp_all add: same_cache(1,2)[of ?st4 ?st3])
      have g4: "get_inode r ?st4 = get_inode r ?st3" for r by (simp add: get_inode_def)
      have "get_inode p ?st4 = Some (if q = p then root\<lparr>i_open_cnt := i_open_cnt root + 1\<rparr> else root)"
        using gp3 q(1) unfolding g4 by simp
      moreover have "objs ?st4 = (objs st)(fresh st := None, fresh ?st3 \<mapsto> handle q i)" using ob by simp
      ultimately show "case dir_map (file_bytes st root) name of None \<Rightarrow> Some (fresh ?st3) = None
         | Some s \<Rightarrow> \<exists>a q i. Some (fresh ?st3) = Some a \<and> get_inode q ?st4 = Some i \<and> i_sector i = s \<and>
         objs ?st4 = (objs st)(fresh st := None, a \<mapsto> handle q i) \<and>
         get_inode p ?st4 = Some (if q = p then root\<lparr>i_open_cnt := i_open_cnt root + 1\<rparr> else root) \<and>
         ((\<exists>r \<in> set (open_inodes st). \<exists>i. get_inode r st = Some i \<and> i_sector i = s) \<longrightarrow> q \<in> set (open_inodes st) \<and>
           (\<exists>i0. get_inode q st = Some i0 \<and> i_sector i0 = s \<and> (q \<noteq> p \<longrightarrow> i = i0\<lparr>i_open_cnt := i_open_cnt i0 + 1\<rparr>)))"
        using i unfolding Some option.case g4 by blast
    qed (use i3 b3 in simp_all)
  qed
qed


text \<open>
  C11: Opening a file by name.  Let the path have the single component \<open>name\<close>, other than \<open>"."\<close> and \<open>".."\<close>, and start
  at the root directory, which is open, intact and not locked; let the entry of that name, if there is one, name a
  sector of the device, and memory be available.  Then \<open>filesys_open\<close> returns no file exactly if the root directory has
  no entry with that name, and otherwise a handle at position 0, for a file or for a directory as the inode says, of
  the inode whose sector the entry names.  The handle is the only one that is left: the one of the directory, which was
  made at the address \<open>fresh st\<close>, is freed, and the directory's inode has the open count that it had, plus one if it
  is itself what was opened.  No file or directory has changed.
\<close>

theorem filesys_open_root_entry:
  assumes "path_tokens path = [name]" "hd path = ASCII_SLASH \<and> path \<noteq> [] \<or> cwd st = None" "name \<noteq> DOT" "name \<noteq> DOTDOT"
    "root_at st p root" "\<forall>q \<in> set (open_inodes st). get_inode q st \<noteq> None" "\<forall>q \<ge> fresh st. get_inode q st = None"
    "\<forall>s. dir_map (file_bytes st root) name = Some s \<longrightarrow> s < bd_size (dev (bc st))"
  shows "\<exists>st' r. filesys_open path st = Some (r, st') \<and> keeps_files st root st' \<and>
    (case dir_map (file_bytes st root) name of
       None \<Rightarrow> r = None \<and> objs st' = (objs st)(fresh st := None) \<and> get_inode p st' = Some root
     | Some s \<Rightarrow> \<exists>a q i. r = Some a \<and> get_inode q st' = Some i \<and> i_sector i = s \<and>
         objs st' = (objs st)(fresh st := None, a \<mapsto> handle q i) \<and>
         get_inode p st' = Some (if q = p then root\<lparr>i_open_cnt := i_open_cnt root + 1\<rparr> else root))"
proof (rule filesys_open_ok[OF assms])
  fix st' r
  assume *: "filesys_open path st = Some (r, st')" "keeps_files st root st'"
    "case dir_map (file_bytes st root) name of None \<Rightarrow> r = None
     | Some s \<Rightarrow> \<exists>a q i. r = Some a \<and> get_inode q st' = Some i \<and> i_sector i = s \<and>
         objs st' = (objs st)(fresh st := None, a \<mapsto> handle q i) \<and>
         get_inode p st' = Some (if q = p then root\<lparr>i_open_cnt := i_open_cnt root + 1\<rparr> else root) \<and>
         ((\<exists>r \<in> set (open_inodes st). \<exists>i. get_inode r st = Some i \<and> i_sector i = s) \<longrightarrow> q \<in> set (open_inodes st) \<and>
           (\<exists>i0. get_inode q st = Some i0 \<and> i_sector i0 = s \<and> (q \<noteq> p \<longrightarrow> i = i0\<lparr>i_open_cnt := i_open_cnt i0 + 1\<rparr>)))"
    "r = None \<longrightarrow> objs st' = (objs st)(fresh st := None) \<and> get_inode p st' = Some root"
  show ?thesis
  proof (cases "dir_map (file_bytes st root) name")
    case None
    then show ?thesis using * by simp
  next
    case (Some s)
    then obtain a q i where "r = Some a" "get_inode q st' = Some i" "i_sector i = s"
      "objs st' = (objs st)(fresh st := None, a \<mapsto> handle q i)"
      "get_inode p st' = Some (if q = p then root\<lparr>i_open_cnt := i_open_cnt root + 1\<rparr> else root)"
      using *(3) by (simp only: option.case) blast
    then show ?thesis using *(1,2) Some by (intro exI[of _ st'] exI[of _ r]) (simp only: option.case, blast)
  qed
qed

lemma demo_root_at: "root_at demo_dirs 3 demo_root"
  using demo_dir_inode by (simp add: root_at_def demo_dirs_simps ROOT_DIR_SECTOR_def)

lemma demo_path: "path_tokens [47, 97] = [[97]]"
  by (subst path_tokens.simps, subst path_tokens.simps) (simp add: ASCII_SLASH_def)

lemma demo_dirs_open: "\<forall>q \<in> set (open_inodes demo_dirs). get_inode q demo_dirs \<noteq> None" "\<forall>q \<ge> fresh demo_dirs. get_inode q demo_dirs = None"
  by (auto simp: demo_dirs_simps get_inode_def)

theorem filesys_open_root_entry_witness:
  "\<exists>st' r. filesys_open [47, 97] demo_dirs = Some (r, st') \<and>
     (\<exists>a q i. r = Some a \<and> get_inode q st' = Some i \<and> i_sector i = 2 \<and> objs st' a = Some (handle q i))"
  using filesys_open_root_entry[OF demo_path _ _ _ demo_root_at demo_dirs_open]
  by (fastforce simp: demo_root_map demo_dirs_simps ASCII_SLASH_def DOT_def DOTDOT_def)

end
