(* ===== verification/KFsutilProps.thy ===== *)
theory KFsutilProps imports KFsutil KUstarProps KFileProps KFilesysProps begin

text \<open>
  Archives on the scratch device: the sectors that \<open>fsutil_append\<close> writes, and that the data copied
  to an archive and back is the same.
\<close>

section \<open>Sectors of a file in an archive\<close>

text \<open>The bytes of a file in sectors, the last one filled up with zeros.\<close>

fun sectors_of :: "u8 list \<Rightarrow> u8 list list" where
  "sectors_of bs = (if bs = [] then []
     else (take 512 bs @ replicate (512 - length bs) 0) # sectors_of (drop 512 bs))"

declare sectors_of.simps [simp del]

lemma sectors_of_Nil [simp]: "sectors_of [] = []"
  by (simp add: sectors_of.simps)

lemma sectors_of_step: "bs \<noteq> [] \<Longrightarrow>
    sectors_of bs = (take 512 bs @ replicate (512 - length bs) 0) # sectors_of (drop 512 bs)"
  by (subst sectors_of.simps) simp

lemma length_sectors: "b \<in> set (sectors_of bs) \<Longrightarrow> length b = 512"
proof (induction bs rule: sectors_of.induct)
  case (1 bs)
  then show ?case by (cases "bs = []") (auto simp: sectors_of_step min_def)
qed

lemma DIV_ROUND_UP_step: "0 < n \<Longrightarrow> DIV_ROUND_UP n 512 = Suc (DIV_ROUND_UP (n - 512) 512)"
  by (cases n; cases "n - 1 < 512") (auto simp: DIV_ROUND_UP_def le_div_geq not_less)

lemma length_sectors_of: "length (sectors_of bs) = DIV_ROUND_UP (length bs) 512"
proof (induction bs rule: sectors_of.induct)
  case (1 bs)
  show ?case
  proof (cases "bs = []")
    case False
    then have "DIV_ROUND_UP (length bs) 512 = Suc (DIV_ROUND_UP (length bs - 512) 512)" by (intro DIV_ROUND_UP_step) simp
    then show ?thesis using 1 False by (simp add: sectors_of_step)
  qed simp
qed

lemma concat_sectors: "take (length bs) (concat (sectors_of bs)) = bs"
proof (induction bs rule: sectors_of.induct)
  case (1 bs)
  show ?case
  proof (cases "bs = []")
    case False
    then show ?thesis using 1 by (cases "length bs \<le> 512") (simp_all add: sectors_of_step)
  qed simp
qed

primrec put_sectors :: "u32 \<Rightarrow> u8 list list \<Rightarrow> (u32 \<Rightarrow> u8 list) \<Rightarrow> u32 \<Rightarrow> u8 list" where
  "put_sectors s [] f = f"
| "put_sectors s (b # bs) f = put_sectors (s + 1) bs (f(s := b))"

lemma put_sectors_at:
  assumes "unat s + length bs \<le> 2 ^ 32"
  shows "put_sectors s bs f t = (if unat s \<le> unat t \<and> unat t < unat s + length bs then bs ! (unat t - unat s) else f t)"
  using assms
proof (induction bs arbitrary: s f)
  case (Cons b bs)
  show ?case
  proof (cases "bs = []")
    case True
    then show ?thesis by (auto simp: word_unat_eq_iff)
  next
    case False
    then have s: "unat (s + 1) = unat s + 1" 
      using unat_add_lem[THEN iffD1, of s 1] Cons.prems by (cases bs) simp_all
    define f' where "f' = f(s := b)"
    have "f' t = (if unat t = unat s then b else f t)" by (auto simp: f'_def word_unat_eq_iff)
    then show ?thesis using Cons.IH[of "s + 1" f'] Cons.prems s by (auto simp: nth_Cons' f'_def[symmetric])
  qed
qed auto


section \<open>Copying to the archive\<close>

text \<open>The file \<open>f\<close> stands at the position \<open>pos\<close> in the intact inode \<open>p\<close>.\<close>

definition file_at :: "fs \<Rightarrow> addr \<Rightarrow> addr \<Rightarrow> inode \<Rightarrow> int \<Rightarrow> bool" where
  "file_at fs f p ino pos \<longleftrightarrow> (\<exists>x. get_file f fs = Some x \<and> f_inode x = p \<and> f_pos x = pos \<and> \<not> f_deny x) \<and>
     get_inode p fs = Some ino \<and> cache_idle (bc fs) \<and> inode_ok fs ino \<and> 0 \<le> pos"

lemma file_at_read:
  assumes "file_at fs f p ino pos" "i_read_length ino = i_length ino" "0 \<le> n" "pos + n \<le> i_length ino"
  obtains fs' where "file_read f n fs = Some (get_bytes (nat pos) (nat n) (file_bytes fs ino), fs')"
    "file_at fs' f p ino (pos + n)" "file_bytes fs' ino = file_bytes fs ino" "bd_size (dev (bc fs')) = bd_size (dev (bc fs))"
proof -
  obtain x where x: "get_file f fs = Some x" "f_inode x = p" "f_pos x = pos" "\<not> f_deny x"
    and o: "get_inode p fs = Some ino" "cache_idle (bc fs)" "inode_ok fs ino" "0 \<le> pos"
    using assms(1) unfolding file_at_def by blast
  obtain fs1 where r: "inode_read_at p n pos fs = Some (get_bytes (nat pos) (nat n) (file_bytes fs ino), fs1)"
    "io_frame (data_set fs ino) {} fs fs1"
    by (rule inode_read_at_ok[OF o(2,1,3) assms(2) o(4)])
  have ob: "objs fs1 = objs fs" "inodes fs1 = inodes fs" "cache_idle (bc fs1)" "bd_size (dev (bc fs1)) = bd_size (dev (bc fs))"
    using io_frame_objs[OF r(2)] io_frame_simps[OF r(2)] by simp_all
  have ok: "inode_ok fs1 ino" "file_bytes fs1 ino = file_bytes fs ino"
    using io_frame_inode_ok(1)[OF r(2) o(3) data_set_meta[OF o(3)]] io_frame_file_bytes[OF r(2) o(3) _ data_set_meta[OF o(3)]] by simp_all
  have "int (length (get_bytes (nat pos) (nat n) (file_bytes fs ino))) = n"
    using o(4) assms(3,4) by (simp add: file_bytes_def)
  then have "off (pos + int (length (get_bytes (nat pos) (nat n) (file_bytes fs ino)))) = Some (pos + n)"
    using o(3,4) assms(3,4) by (simp add: off_def inode_ok_def MAX_FILE_SIZE_def)
  then have "file_read f n fs = Some (get_bytes (nat pos) (nat n) (file_bytes fs ino), put_file f (x\<lparr>f_pos := pos + n\<rparr>) fs1)"
    using r(1) x by (simp add: file_read_def)
  then show ?thesis
  proof (rule that)
    show "file_at (put_file f (x\<lparr>f_pos := pos + n\<rparr>) fs1) f p ino (pos + n)"
      using ok ob o assms(3) x by (simp add: file_at_def put_file_def get_file_def get_inode_def)
  qed (use ok ob in \<open>simp_all add: put_file_def\<close>)
qed

lemma chunk_simps: "0 < sz \<Longrightarrow> 0 < chunk_size_of sz" "chunk_size_of sz \<le> sz" "chunk_size_of sz \<le> 512" "nat (chunk_size_of sz) = min 512 (nat sz)" "nat (sz - chunk_size_of sz) = nat sz - 512"
  by (auto simp: chunk_size_of_def BLOCK_SECTOR_SIZE_def)

lemma scratch_write_ok:
  assumes "u_scratch st = Some d" "sector < bd_size d" "bd_type d \<noteq> BLOCK_FOREIGN"
  shows "scratch_write sector buffer st =
    Some (st\<lparr>u_scratch := Some (d\<lparr>bd_data := (bd_data d)(sector := map (\<lambda>i. u_mem st (buffer + i)) [0..<512]), bd_write_cnt := bd_write_cnt d + 1\<rparr>)\<rparr>)"
  using assms by (simp add: scratch_write_def block_write_def check_sector_def BLOCK_SECTOR_SIZE_def Let_def)

lemma u_memset_ok: "p \<noteq> NULL \<Longrightarrow> u_memset p v n st = Some (st\<lparr>u_mem := store_bytes p (replicate n v) (u_mem st)\<rparr>)"
  by (simp add: u_memset_def memset_store)

lemma append_copy_ok:
  assumes "file_at (u_fs st) src p ino pos" "i_read_length ino = i_length ino" "pos + sz = i_length ino" "0 \<le> sz"
    "buffer \<noteq> NULL" "u_scratch st = Some d" "bd_type d \<noteq> BLOCK_FOREIGN"
    "unat (append_sector st) + DIV_ROUND_UP (nat sz) 512 \<le> unat (bd_size d)"
  defines "secs \<equiv> sectors_of (drop (nat pos) (file_bytes (u_fs st) ino))"
  shows "\<exists>st' d'. append_copy src buffer sz st = Some st' \<and> file_at (u_fs st') src p ino (i_length ino) \<and>
    bd_size (dev (bc (u_fs st'))) = bd_size (dev (bc (u_fs st))) \<and>
    u_scratch st' = Some d' \<and> bd_type d' \<noteq> BLOCK_FOREIGN \<and> bd_size d' = bd_size d \<and>
    append_sector st' = append_sector st + of_nat (length secs) \<and>
    bd_data d' = put_sectors (append_sector st) secs (bd_data d) \<and>
    (\<forall>a. a \<notin> {buffer..<buffer + 512} \<longrightarrow> u_mem st' a = u_mem st a) \<and> u_out st' = u_out st \<and> u_mallocs st' = u_mallocs st"
  using assms(1-8) unfolding secs_def
proof (induction "nat sz" arbitrary: sz st pos d rule: less_induct)
  case less
  let ?all = "file_bytes (u_fs st) ino"
  let ?bs = "drop (nat pos) ?all" and ?c = "chunk_size_of sz"
  have p: "0 \<le> pos" "nat pos \<le> nat (i_length ino)" using less.prems(1,3,4) by (auto simp: file_at_def)
  have len: "length ?bs = nat sz" using p less.prems(3,4) by (simp add: file_bytes_def)
  show ?case
  proof (cases "0 < sz")
    case False
    then have "?bs = []" "pos = i_length ino" using len less.prems(3,4) by simp_all
    moreover have "append_copy src buffer sz st = Some st" using False by (subst append_copy.simps) simp
    ultimately show ?thesis using less.prems by simp
  next
    case True
    note c = chunk_simps(1)[OF True] chunk_simps(2-5)[of sz]
    have ne: "?bs \<noteq> []" using len True by auto
    obtain fs' where r: "file_read src ?c (u_fs st) = Some (get_bytes (nat pos) (nat ?c) ?all, fs')"
      "file_at fs' src p ino (pos + ?c)" "file_bytes fs' ino = ?all" "bd_size (dev (bc fs')) = bd_size (dev (bc (u_fs st)))"
      using file_at_read[OF less.prems(1,2), of ?c] c less.prems(3) by (metis add_left_mono order.strict_implies_order)
    define bytes where "bytes = take 512 ?bs"
    have b: "get_bytes (nat pos) (nat ?c) ?all = bytes" "length bytes = nat ?c"
      using len c(4) by (cases "nat sz \<le> 512"; simp add: get_bytes_def bytes_def min_def)+
    have ci: "int (length bytes) = ?c" using b(2) c(1) by simp
    define mm where "mm = store_bytes (buffer + nat ?c) (replicate (512 - nat ?c) 0) (store_bytes buffer bytes (u_mem st))"
    let ?sec = "take 512 ?bs @ replicate (512 - length ?bs) 0"
    have sec: "map (\<lambda>i. mm (buffer + i)) [0..<512] = ?sec"
      using b(2) len c(4) unfolding list_eq_iff_nth_eq
      by (cases "nat sz \<le> 512") (auto simp: mm_def store_bytes_def bytes_def nth_append min_def)
    have frame: "mm a = u_mem st a" if "a \<notin> {buffer..<buffer + 512}" for a
      using that b(2) c(3) by (auto simp: mm_def store_bytes_def)
    have "1 \<le> DIV_ROUND_UP (nat sz) 512" using True by (simp add: DIV_ROUND_UP_def)
    then have room: "append_sector st < bd_size d" using less.prems(8) by (simp add: word_less_nat_alt)
    define d1 where "d1 = d\<lparr>bd_data := (bd_data d)(append_sector st := ?sec), bd_write_cnt := bd_write_cnt d + 1\<rparr>"
    define st1 where "st1 = st\<lparr>u_fs := fs', u_mem := mm, append_sector := append_sector st + 1, u_scratch := Some d1\<rparr>"
    have step: "append_copy src buffer sz st = append_copy src buffer (sz - ?c) st1"
      using True room r(1) b(1) ci less.prems(5,6,7) sec
      by (subst append_copy.simps)
        (simp add: Let_def u_memset_ok scratch_write_ok BLOCK_SECTOR_SIZE_def mm_def[symmetric] st1_def d1_def)
    have dru: "DIV_ROUND_UP (nat sz) 512 = Suc (DIV_ROUND_UP (nat (sz - ?c)) 512)"
      using DIV_ROUND_UP_step[of "nat sz"] True c(5) by simp
    have un: "unat (append_sector st + 1) = unat (append_sector st) + 1"
    proof -
      have "unat (append_sector st) < unat (bd_size d)" "unat (bd_size d) < 2 ^ 32"
        using room unsigned_less[of "bd_size d"] by (simp_all add: word_less_nat_alt)
      then show ?thesis using unat_add_lem[THEN iffD1, of "append_sector st" 1] by simp
    qed
    have "\<exists>st' d'. append_copy src buffer (sz - ?c) st1 = Some st' \<and> file_at (u_fs st') src p ino (i_length ino) \<and>
      bd_size (dev (bc (u_fs st'))) = bd_size (dev (bc (u_fs st1))) \<and>
      u_scratch st' = Some d' \<and> bd_type d' \<noteq> BLOCK_FOREIGN \<and> bd_size d' = bd_size d1 \<and>
      append_sector st' = append_sector st1 + of_nat (length (sectors_of (drop (nat (pos + ?c)) (file_bytes (u_fs st1) ino)))) \<and>
      bd_data d' = put_sectors (append_sector st1) (sectors_of (drop (nat (pos + ?c)) (file_bytes (u_fs st1) ino))) (bd_data d1) \<and>
      (\<forall>a. a \<notin> {buffer..<buffer + 512} \<longrightarrow> u_mem st' a = u_mem st1 a) \<and> u_out st' = u_out st1 \<and> u_mallocs st' = u_mallocs st1"
    proof (rule less.hyps)
      show "nat (sz - ?c) < nat sz" using c(5) True by simp
      show "file_at (u_fs st1) src p ino (pos + ?c)" using r(2) by (simp add: st1_def)
      show "unat (append_sector st1) + DIV_ROUND_UP (nat (sz - ?c)) 512 \<le> unat (bd_size d1)"
        using less.prems(8) dru un by (simp add: st1_def d1_def)
    qed (use less.prems c(2) in \<open>simp_all add: st1_def d1_def\<close>)
    moreover have "sectors_of (drop (nat (pos + ?c)) ?all) = sectors_of (drop 512 ?bs)"
    proof (cases "nat sz \<le> 512")
      case True
      then have "nat (pos + ?c) = length ?all" using c(4) p less.prems(3) \<open>0 < sz\<close> by (simp add: file_bytes_def nat_add_distrib)
      moreover have "length ?bs \<le> 512" using True len by simp
      ultimately show ?thesis by simp
    next
      case False
      then have "nat (pos + ?c) = 512 + nat pos" using c(1,4) p(1) by (simp add: nat_add_distrib)
      then show ?thesis by simp
    qed
    ultimately show ?thesis
      unfolding step sectors_of_step[OF ne] using r(3,4) frame by (auto simp: st1_def d1_def)
  qed
qed


section \<open>Copying from the archive\<close>

lemma put_bytes_put_bytes:
  "k + length as + length bs \<le> length xs \<Longrightarrow> put_bytes (k + length as) bs (put_bytes k as xs) = put_bytes k (as @ bs) xs"
  by (simp add: put_bytes_def add_ac)

lemma file_at_write:
  assumes "file_at fs f p ino pos" "i_deny_write_cnt ino = 0" "0 \<le> n" "pos + n \<le> i_length ino" "nat n \<le> length buffer"
  defines "ino' \<equiv> ino\<lparr>i_read_length := i_length ino\<rparr>"
  obtains fs' where "file_write write_at f buffer n fs = Some (n, fs')" "file_at fs' f p ino' (pos + n)"
    "file_bytes fs' ino' = put_bytes (nat pos) (take (nat n) buffer) (file_bytes fs ino)"
proof -
  obtain x where x: "get_file f fs = Some x" "f_inode x = p" "f_pos x = pos" "\<not> f_deny x"
    and o: "get_inode p fs = Some ino" "cache_idle (bc fs)" "inode_ok fs ino" "0 \<le> pos"
    using assms(1) unfolding file_at_def by blast
  obtain fs1 where w: "file_write write_at f buffer n fs = Some (n, fs1)" "get_file f fs1 = Some (x\<lparr>f_pos := f_pos x + n\<rparr>)"
    "get_inode (f_inode x) fs1 = Some ino'" "cache_idle (bc fs1)" "inode_ok fs1 ino'"
    "file_bytes fs1 ino' = put_bytes (nat (f_pos x)) (take (nat n) buffer) (file_bytes fs ino)"
    unfolding ino'_def by (rule file_write_inside[of f fs x ino n buffer]) (use x o assms(2-5) in auto)
  show ?thesis by (rule that[OF w(1)]) (use w x o(4) assms(3) in \<open>simp_all add: file_at_def\<close>)
qed

definition get_sectors :: "u32 \<Rightarrow> nat \<Rightarrow> (u32 \<Rightarrow> u8 list) \<Rightarrow> u8 list list" where
  "get_sectors s n f = map (\<lambda>k. f (s + of_nat k)) [0..<n]"

lemma get_sectors_Suc: "get_sectors s (Suc n) f = f s # get_sectors (s + 1) n f"
  unfolding get_sectors_def upt_rec[of 0 "Suc n"] by (simp add: map_Suc_upt[symmetric] add.assoc del: upt_Suc)

lemma length_concat_sectors: "(\<And>s. length (f s) = 512) \<Longrightarrow> length (concat (get_sectors s n f)) = n * 512"
  by (induction n arbitrary: s) (simp_all add: get_sectors_Suc get_sectors_def)

lemma DIV_ROUND_UP_512: "n \<le> DIV_ROUND_UP n 512 * 512"
  using DIV_ROUND_UP_le_iff[of 512 n "DIV_ROUND_UP n 512"] by simp

lemma extract_copy_ok:
  assumes "file_at (u_fs st) dst p ino pos" "i_deny_write_cnt ino = 0" "pos + sz \<le> i_length ino" "0 \<le> sz"
    "u_scratch st = Some d" "\<And>s. length (bd_data d s) = 512"
    "unat (extract_sector st) + DIV_ROUND_UP (nat sz) 512 \<le> unat (bd_size d)"
  defines "secs \<equiv> get_sectors (extract_sector st) (DIV_ROUND_UP (nat sz) 512) (bd_data d)"
  shows "\<exists>st' ino'. extract_copy dst data sz st = Some st' \<and> file_at (u_fs st') dst p ino' (pos + sz) \<and>
    i_length ino' = i_length ino \<and>
    file_bytes (u_fs st') ino' = put_bytes (nat pos) (take (nat sz) (concat secs)) (file_bytes (u_fs st) ino) \<and>
    extract_sector st' = extract_sector st + of_nat (length secs)"
  using assms(1-7) unfolding secs_def
proof (induction "nat sz" arbitrary: sz st pos d ino rule: less_induct)
  case less
  let ?c = "chunk_size_of sz" and ?s = "extract_sector st"
  show ?case
  proof (cases "0 < sz")
    case False
    then have "sz = 0" using less.prems(4) by simp
    moreover then have "extract_copy dst data sz st = Some st" by (subst extract_copy.simps) simp
    ultimately show ?thesis using less.prems by (auto simp: get_sectors_def DIV_ROUND_UP_def)
  next
    case True
    note c = chunk_simps(1)[OF True] chunk_simps(2-5)[of sz]
    have dru: "DIV_ROUND_UP (nat sz) 512 = Suc (DIV_ROUND_UP (nat (sz - ?c)) 512)"
      using DIV_ROUND_UP_step[of "nat sz"] True c(5) by simp
    have room: "?s < bd_size d" using less.prems(7) dru by (simp add: word_less_nat_alt)
    have un: "unat (?s + 1) = unat ?s + 1"
    proof -
      have "unat ?s < unat (bd_size d)" "unat (bd_size d) < 2 ^ 32"
        using room unsigned_less[of "bd_size d"] by (simp_all add: word_less_nat_alt)
      then show ?thesis using unat_add_lem[THEN iffD1, of ?s 1] by simp
    qed
    let ?m = "store_bytes data (bd_data d ?s) (u_mem st)" and ?ino = "ino\<lparr>i_read_length := i_length ino\<rparr>"
    have m: "map (\<lambda>i. ?m (data + i)) [0..<512] = bd_data d ?s"
      using less.prems(6) unfolding list_eq_iff_nth_eq by (simp add: store_bytes_def)
    have c512: "nat ?c \<le> length (bd_data d ?s)" using less.prems(6) c(4) by simp
    obtain fs' where w: "file_write write_at dst (bd_data d ?s) ?c (u_fs st) = Some (?c, fs')" "file_at fs' dst p ?ino (pos + ?c)"
      "file_bytes fs' ?ino = put_bytes (nat pos) (take (nat ?c) (bd_data d ?s)) (file_bytes (u_fs st) ino)"
      by (rule file_at_write[OF less.prems(1,2) _ _ c512]) (use c less.prems(3) in auto)
    define d1 where "d1 = d\<lparr>bd_read_cnt := bd_read_cnt d + 1\<rparr>"
    define st1 where "st1 = st\<lparr>extract_sector := ?s + 1, u_scratch := Some d1, u_mem := ?m, u_fs := fs'\<rparr>"
    have step: "extract_copy dst data sz st = extract_copy dst data (sz - ?c) st1"
      using True room w(1) m less.prems(5)
      by (subst extract_copy.simps)
        (simp add: Let_def scratch_read_def block_read_def check_sector_def BLOCK_SECTOR_SIZE_def st1_def d1_def)
    have "\<exists>st' ino'. extract_copy dst data (sz - ?c) st1 = Some st' \<and> file_at (u_fs st') dst p ino' (pos + ?c + (sz - ?c)) \<and>
      i_length ino' = i_length ?ino \<and>
      file_bytes (u_fs st') ino' = put_bytes (nat (pos + ?c))
        (take (nat (sz - ?c)) (concat (get_sectors (extract_sector st1) (DIV_ROUND_UP (nat (sz - ?c)) 512) (bd_data d1)))) (file_bytes (u_fs st1) ?ino) \<and>
      extract_sector st' = extract_sector st1 + of_nat (length (get_sectors (extract_sector st1) (DIV_ROUND_UP (nat (sz - ?c)) 512) (bd_data d1)))"
    proof (rule less.hyps)
      show "nat (sz - ?c) < nat sz" using c(5) True by simp
      show "file_at (u_fs st1) dst p ?ino (pos + ?c)" using w(2) by (simp add: st1_def)
      show "unat (extract_sector st1) + DIV_ROUND_UP (nat (sz - ?c)) 512 \<le> unat (bd_size d1)"
        using less.prems(7) dru un by (simp add: st1_def d1_def)
    qed (use less.prems c(2) in \<open>simp_all add: st1_def d1_def\<close>)
    moreover have "put_bytes (nat (pos + ?c)) ys (file_bytes (u_fs st1) ?ino) =
        put_bytes (nat pos) (take (nat ?c) (bd_data d ?s) @ ys) (file_bytes (u_fs st) ino)"
      if "length ys = nat (sz - ?c)" for ys
    proof -
      have p: "0 \<le> pos" using less.prems(1) by (simp add: file_at_def)
      have "min 512 (nat sz) + (nat sz - 512) = nat sz" "nat pos + nat sz \<le> nat (i_length ino)"
        using p less.prems(3,4) by linarith+
      then have e: "nat (pos + ?c) = nat pos + length (take (nat ?c) (bd_data d ?s))" 
          "nat pos + length (take (nat ?c) (bd_data d ?s)) + length ys \<le> length (file_bytes (u_fs st) ino)"
        using c c512 p that by (simp_all add: file_bytes_def nat_add_distrib min.commute min.absorb2)
      have "u_fs st1 = fs'" by (simp add: st1_def)
      then show ?thesis using put_bytes_put_bytes[OF e(2)] by (simp only: w(3) e(1))
    qed
    moreover define ys where "ys = take (nat (sz - ?c)) (concat (get_sectors (?s + 1) (DIV_ROUND_UP (nat (sz - ?c)) 512) (bd_data d)))"
    moreover have "length ys = nat (sz - ?c)"
      using length_concat_sectors[OF less.prems(6)] DIV_ROUND_UP_512[of "nat (sz - ?c)"] by (simp add: ys_def)
    moreover have "take (nat ?c) (bd_data d ?s) @ ys =
        take (nat sz) (concat (get_sectors ?s (Suc (DIV_ROUND_UP (nat (sz - ?c)) 512)) (bd_data d)))"
      using less.prems(6) c(4,5) by (cases "nat sz \<le> 512") (simp_all add: get_sectors_Suc ys_def)
    moreover have "pos + ?c + (sz - ?c) = pos + sz" by simp
    moreover have "extract_sector st1 = ?s + 1" "bd_data d1 = bd_data d" by (simp_all add: st1_def d1_def)
    ultimately show ?thesis unfolding step dru by (auto simp: get_sectors_def)
  qed
qed


lemma get_put_sectors:
  assumes "unat s + length secs \<le> 2 ^ 32"
  shows "get_sectors s (length secs) (put_sectors s secs f) = secs"
proof -
  have "put_sectors s secs f (s + of_nat k) = secs ! k" if "k < length secs" for k
  proof -
    have "unat (of_nat k :: u32) = k" using that assms by (simp add: unsigned_of_nat take_bit_nat_eq_self)
    then have "unat (s + of_nat k) = unat s + k"
      using unat_add_lem[THEN iffD1, of s "of_nat k"] that assms by simp
    then show ?thesis using that by (simp add: put_sectors_at[OF assms])
  qed
  then show ?thesis unfolding get_sectors_def by (intro nth_equalityI) simp_all
qed

lemma put_sectors_length:
  "(\<And>b. b \<in> set secs \<Longrightarrow> length b = 512) \<Longrightarrow> (\<And>t. length (f t) = 512) \<Longrightarrow> length (put_sectors s secs f t) = 512"
  by (induction secs arbitrary: s f) auto

text \<open>
  C32: Data copied to a tar archive and back is the same.  If the copying loop of
  \<open>fsutil_append\<close> runs over a whole file with enough room on the scratch device, it succeeds; and on
  the device as it leaves it, the copying loop of \<open>fsutil_extract\<close> into any open file of that length
  that is at its start and not denied writing, from the sector where the first one began, succeeds and gives the file exactly the bytes of the first.
\<close>

theorem archive_data_roundtrip:
  assumes "file_at (u_fs st) src p ino 0" "i_read_length ino = i_length ino" "buffer \<noteq> NULL"
    "u_scratch st = Some d" "bd_type d \<noteq> BLOCK_FOREIGN" "\<And>s. length (bd_data d s) = 512"
    "unat (append_sector st) + DIV_ROUND_UP (nat (i_length ino)) 512 \<le> unat (bd_size d)"
  shows "\<exists>st'. append_copy src buffer (i_length ino) st = Some st' \<and>
    (\<forall>st2 dst q ino2 data. u_scratch st2 = u_scratch st' \<and> extract_sector st2 = append_sector st \<and>
       file_at (u_fs st2) dst q ino2 0 \<and> i_length ino2 = i_length ino \<and> i_deny_write_cnt ino2 = 0 \<longrightarrow>
       (\<exists>st3 ino3. extract_copy dst data (i_length ino) st2 = Some st3 \<and> get_inode q (u_fs st3) = Some ino3 \<and>
          file_bytes (u_fs st3) ino3 = file_bytes (u_fs st) ino \<and> extract_sector st3 = append_sector st'))"
proof -
  let ?bs = "file_bytes (u_fs st) ino" and ?s = "append_sector st"
  let ?secs = "sectors_of ?bs" and ?n = "DIV_ROUND_UP (nat (i_length ino)) 512"
  have len: "length ?bs = nat (i_length ino)" "0 \<le> i_length ino"
    using assms(1) by (simp_all add: file_bytes_def file_at_def inode_ok_def)
  then have n: "length ?secs = ?n" by (simp add: length_sectors_of)
  obtain st' d' where a: "append_copy src buffer (i_length ino) st = Some st'" "u_scratch st' = Some d'"
      "bd_size d' = bd_size d" "bd_data d' = put_sectors ?s ?secs (bd_data d)" "append_sector st' = ?s + of_nat (length ?secs)"
    using append_copy_ok[OF assms(1,2) _ len(2) assms(3-5,7)] by auto
  have "unat (bd_size d) < 2 ^ 32" using unsigned_less[of "bd_size d"] by simp
  then have fit: "unat ?s + length ?secs \<le> 2 ^ 32" using assms(7) n by simp
  have "\<exists>st3 ino3. extract_copy dst data (i_length ino) st2 = Some st3 \<and> get_inode q (u_fs st3) = Some ino3 \<and>
      file_bytes (u_fs st3) ino3 = ?bs \<and> extract_sector st3 = append_sector st'"
    if h: "u_scratch st2 = u_scratch st'" "extract_sector st2 = ?s" "file_at (u_fs st2) dst q ino2 0"
      "i_length ino2 = i_length ino" "i_deny_write_cnt ino2 = 0" for st2 dst q ino2 data
  proof -
    have l: "length (bd_data d' s) = 512" for s
      unfolding a(4) by (rule put_sectors_length) (use length_sectors assms(6) in auto)
    have room: "unat (extract_sector st2) + ?n \<le> unat (bd_size d')" using assms(7) a(3) h(2) by simp
    have g: "get_sectors (extract_sector st2) ?n (bd_data d') = ?secs"
      using get_put_sectors[OF fit] unfolding a(4) h(2) n .
    obtain st3 ino3 where x: "extract_copy dst data (i_length ino) st2 = Some st3" "file_at (u_fs st3) dst q ino3 (0 + i_length ino)"
        "file_bytes (u_fs st3) ino3 = put_bytes (nat 0) (take (nat (i_length ino)) (concat ?secs)) (file_bytes (u_fs st2) ino2)"
        "extract_sector st3 = ?s + of_nat (length ?secs)"
      using extract_copy_ok[where d = d' and data = data, OF h(3,5) _ len(2)] h(1,2,4) a(2) l room g by auto
    have "file_bytes (u_fs st3) ino3 = ?bs"
      using concat_sectors[of ?bs] len h(4) unfolding x(3) by (simp add: put_bytes_def file_bytes_def)
    then show ?thesis using x a(5) by (auto simp: file_at_def)
  qed
  then show ?thesis using a(1) by blast
qed


section \<open>The whole action\<close>

lemma cstr_literal: "0 \<notin> set (map byte t) \<Longrightarrow> cstr (literal t) 1 (map byte t)"
  unfolding cstr_iff by (auto simp: literal_def)

text \<open>Characters of a format that are no conversions are copied.\<close>

lemma vprintf_plain:
  assumes "cstr fm f (t @ rest)" "byte CHR ''%'' \<notin> set t" "vprintf_loop (f + length t) fm args m = Some out"
  shows "vprintf_loop f fm args m = Some (t @ out)"
  using assms
proof (induction t arbitrary: f)
  case (Cons c t)
  then have "vprintf_loop (f + 1) fm args m = Some (t @ out)" by simp
  then show ?case using Cons.prems by (subst vprintf_loop.simps) auto
qed simp

lemma vprintf_end: "fm f = 0 \<Longrightarrow> vprintf_loop f fm args m = Some []"
  by (subst vprintf_loop.simps) simp

lemma parse_plain_s:
  assumes "fm p = byte CHR ''s''"
  shows "parse_conversion p args fm = Some (p, plain_d, args)"
proof -
  have f: "parse_flags p 0 fm = Some (0, p)" using assms by (subst parse_flags.simps) simp
  have n: "parse_number p 0 fm = Some (0, p)" using assms by (subst parse_number.simps) (simp add: isdigit_def)
  have "\<not> (0 :: u32) \<le>s - 1" by (simp add: word_sle_eq)
  then show ?thesis
    using assms f n by (simp add: parse_conversion_def parse_type_def plain_d_def Let_def)
qed

lemma strnlen_loop_ok:
  assumes "cstr m a t" "k \<le> length t" "length t \<le> n"
  shows "strnlen_loop a n k m = Some (length t)"
  using assms(2)
proof (induction "length t - k" arbitrary: k)
  case 0
  then have "m (a + k) = 0" using cstr_end[OF assms(1)] by simp
  then show ?case using 0 by (subst strnlen_loop.simps) simp
next
  case (Suc d)
  then have "k < length t" by simp
  then have "m (a + k) \<noteq> 0" "k < n" using cstr_nth[OF assms(1)] assms(3) by auto
  then show ?case using Suc by (subst strnlen_loop.simps) simp
qed

lemma vprintf_s:
  assumes "fm f = byte CHR ''%''" "fm (f + 1) = byte CHR ''s''" "cstr m a t" "a \<noteq> 0" "a < 2 ^ 32" "length t < 2 ^ 31"
    "vprintf_loop (f + 1 + 1) fm args m = Some out"
  shows "vprintf_loop f fm (of_nat a # args) m = Some (t @ out)"
proof -
  have a: "(of_nat a :: u32) \<noteq> 0" "unat (of_nat a :: u32) = a"
    using assms(4,5) by (simp_all add: unsigned_of_nat take_bit_nat_eq_self word_unat_eq_iff)
  have l: "strnlen a (unat (- 1 :: u32)) m = Some (length t)"
  proof -
    have "unat (- 1 :: u32) = 2 ^ 32 - 1" by (simp add: unsigned_minus_1_eq_mask mask_eq_exp_minus_1)
    then show ?thesis unfolding strnlen_def by (intro strnlen_loop_ok[OF assms(3)]) (use assms(6) in simp_all)
  qed
  have s: "format_string a (of_nat (length t)) plain_d m = t"
  proof -
    have "sint (of_nat (length t) :: u32) = int (length t)" by (rule sint_of_nat_small[OF assms(6)])
    moreover have "map (\<lambda>i. m (a + i)) [0..<length t] = t"
      using cstr_nth[OF assms(3)] by (intro nth_equalityI) simp_all
    ultimately show ?thesis by (simp add: format_string_def word_sless_alt)
  qed
  have p: "parse_conversion (f + 1) (of_nat a # args) fm = Some (f + 1, plain_d, of_nat a # args)"
    by (rule parse_plain_s) (rule assms(2))
  have "fm (f + 1) \<noteq> byte CHR ''%''" using assms(2) by simp
  then show ?thesis
    by (subst vprintf_loop.simps)
      (use assms(1,2,7) a l s p in \<open>simp add: va_arg_def Let_def\<close>)
qed


text \<open>Formats with one \<open>%s\<close>, and without conversions.\<close>

lemma printf_with_s:
  assumes "byte CHR ''%'' \<notin> set (map byte pre)" "byte CHR ''%'' \<notin> set (map byte post)" "0 \<notin> set (map byte (pre @ post))"
    "cstr m p name" "p \<noteq> NULL" "p < 2 ^ 32" "length name < 2 ^ 31"
  shows "vprintf_loop 1 (literal (pre @ ''%s'' @ post)) [of_nat p] m = Some (map byte pre @ name @ map byte post)"
proof -
  let ?pre = "map byte pre" and ?post = "map byte post" and ?fmt = "pre @ ''%s'' @ post"
  have "0 \<notin> set (map byte ?fmt)" using assms(3) by auto
  from cstr_literal[OF this] have c: "cstr (literal ?fmt) 1 (?pre @ map byte ''%s'' @ ?post)" by simp
  have d: "cstr (literal ?fmt) (1 + k) (drop k (?pre @ map byte ''%s'' @ ?post))" if "k \<le> length pre + 2" for k
    using that by (intro cstr_drop[OF c]) simp
  have c2: "cstr (literal ?fmt) (1 + length ?pre) (map byte ''%s'' @ ?post)" using d[of "length ?pre"] by simp
  have c3: "cstr (literal ?fmt) (1 + length ?pre + 1 + 1) (?post @ [])" using d[of "length ?pre + 1 + 1"] by simp
  have z: "literal ?fmt (1 + length ?pre + 1 + 1 + length ?post) = 0" using cstr_end[OF c3] by simp
  have "vprintf_loop (1 + length ?pre + 1 + 1 + length ?post) (literal ?fmt) [] m = Some []" by (rule vprintf_end) (rule z)
  then have "vprintf_loop (1 + length ?pre + 1 + 1) (literal ?fmt) [] m = Some (?post @ [])"
    by (intro vprintf_plain[OF c3 assms(2)])
  then have "vprintf_loop (1 + length ?pre) (literal ?fmt) [of_nat p] m = Some (name @ ?post @ [])"
    by (intro vprintf_s[OF _ _ assms(4-7)]) (use c2 in simp_all)
  from vprintf_plain[OF c assms(1) this] show ?thesis by simp
qed

lemma printf_plain:
  assumes "byte CHR ''%'' \<notin> set (map byte t)" "0 \<notin> set (map byte t)"
  shows "vprintf_loop 1 (literal t) [] m = Some (map byte t)"
proof -
  have c: "cstr (literal t) 1 (map byte t @ [])" using cstr_literal[OF assms(2)] by simp
  have "literal t (1 + length (map byte t)) = 0" using cstr_end[OF c] by simp
  then have "vprintf_loop (1 + length (map byte t)) (literal t) [] m = Some []" by (rule vprintf_end)
  from vprintf_plain[OF c assms(1) this] show ?thesis by simp
qed

lemma file_close_ok:
  assumes "file_at fs f p ino pos" "\<not> i_removed ino" "i_sector ino < bd_size (dev (bc fs))"
  obtains fs' where "file_close close_inode (Some f) fs = Some fs'"
proof -
  obtain x where x: "get_file f fs = Some x" "f_inode x = p" "\<not> f_deny x" and i: "get_inode p fs = Some ino" "cache_idle (bc fs)"
    using assms(1) unfolding file_at_def by blast
  have "bd_type (dev (bc fs)) \<noteq> BLOCK_FOREIGN" using i(2) by (simp add: cache_idle_def cache_ok_def dev_ok_def)
  then have "\<exists>fs'. close_inode (Some p) fs = Some fs'"
    using i(1) assms(2,3)
    by (auto simp: close_inode_def inode_close_def fs_write_def block_write_def check_sector_def put_inode_def Let_def)
  then show ?thesis using x that by (auto simp: file_close_def file_allow_write_def)
qed

lemma string_at_ok: "cstr m p s \<Longrightarrow> p \<noteq> NULL \<Longrightarrow> string_at p m = Some s"
  using cstr_nth[of m p s] by (auto simp: string_at_def strlen_ok intro!: nth_equalityI)

definition append_message :: "u8 list \<Rightarrow> u8 list" where
  "append_message name = map byte (''Appending '' @ [CHR 0x27]) @ name @
     map byte ([CHR 0x27] @ '' to ustar archive on scratch device...'' @ NEWLINE)"

lemma printf_append:
  assumes "cstr m p name" "p \<noteq> NULL" "p < 2 ^ 32" "length name < 2 ^ 31"
  shows "vprintf_loop 1 (literal (''Appending '' @ [CHR 0x27] @ ''%s'' @ [CHR 0x27] @
    '' to ustar archive on scratch device...'' @ NEWLINE)) [of_nat p] m = Some (append_message name)"
  using printf_with_s[OF _ _ _ assms, of "''Appending '' @ [CHR 0x27]" "[CHR 0x27] @ '' to ustar archive on scratch device...'' @ NEWLINE"]
  by (simp add: append_message_def NEWLINE_def)


lemma put_sectors_append: "put_sectors s (as @ bs) f = put_sectors (s + of_nat (length as)) bs (put_sectors s as f)"
  by (induction as arbitrary: s f) (simp_all add: add.assoc add.commute)

text \<open>The three sectors that end an archive, as \<open>fsutil_append\<close> writes them: both calls of
  \<open>block_write\<close> name the same sector, and the second one starts a byte late.\<close>

definition trailer :: "addr \<Rightarrow> memory \<Rightarrow> u8 list" where
  "trailer buffer m = replicate 511 0 @ [m (buffer + 512)]"

text \<open>
  C31: What \<open>fsutil_append\<close> leaves on the scratch device: from the sector where it begins, the header
  of a regular file with the file's stored name and size, then the file's bytes in as many sectors as
  needed, the last one filled with zeros, and then one single sector that is zero in its first 511
  bytes and holds in its last one the byte of memory behind the buffer.  Every other sector is as
  before, so the second sector of zeros that ends an archive is not written; the next call
  starts at the sector after the data.
\<close>

theorem fsutil_append_archive:
  assumes "cstr (u_mem st) p name" "p \<noteq> NULL" "p < 2 ^ 32" "length name < 2 ^ 31" "length (archive_name name) \<le> 99"
    "argv ! 1 = p" "u_mallocs st = buffer # bufs" "buffer \<noteq> NULL" "buffer + 512 \<le> p \<or> p + length name < buffer"
    "filesys_open name (u_fs st) = Some (Some src, fs1)" "file_at fs1 src q ino 0" "i_read_length ino = i_length ino"
    "\<not> i_removed ino" "i_sector ino < bd_size (dev (bc fs1))"
    "u_scratch st = Some d" "bd_type d \<noteq> BLOCK_FOREIGN"
    "unat (append_sector st) + 1 + DIV_ROUND_UP (nat (i_length ino)) 512 < unat (bd_size d)"
  shows "\<exists>st' d'. fsutil_append argv st = Some st' \<and> u_scratch st' = Some d' \<and> bd_size d' = bd_size d \<and>
    bd_data d' = put_sectors (append_sector st)
      (header_bytes (archive_name name) USTAR_REGULAR (of_int (i_length ino)) # sectors_of (file_bytes fs1 ino) @ [trailer buffer (u_mem st)])
      (bd_data d) \<and>
    append_sector st' = append_sector st + 1 + of_nat (DIV_ROUND_UP (nat (i_length ino)) 512) \<and>
    u_out st' = u_out st @ append_message name"
proof -
  let ?s = "append_sector st" and ?sz = "of_int (i_length ino) :: u32" and ?secs = "sectors_of (file_bytes fs1 ino)"
  let ?n = "DIV_ROUND_UP (nat (i_length ino)) 512"
  have l: "0 \<le> i_length ino" "i_length ino < 2 ^ 31" and n: "length ?secs = ?n"
    using assms(11) by (auto simp: file_at_def inode_ok_def MAX_FILE_SIZE_def length_sectors_of file_bytes_def)
  have "unat ?sz < 2 ^ 31"
  proof -
    obtain k where k: "i_length ino = int k" using l(1) by (rule nonneg_int_cases)
    then have "unat (of_nat k :: u32) = k" using l(2) by (simp add: unsigned_of_nat take_bit_nat_eq_self)
    then show ?thesis using k l(2) by simp
  qed
  then obtain m1 where h: "ustar_make_header p USTAR_REGULAR ?sz buffer (u_mem st) = Some (True, m1)"
      "header_at buffer (archive_name name) USTAR_REGULAR ?sz m1" "\<And>a. a \<notin> {buffer..<buffer + 512} \<Longrightarrow> m1 a = u_mem st a"
    using make_header_at[OF assms(1,2,8,9) _ _ assms(5), of ?sz USTAR_REGULAR] by blast
  have hb: "map (\<lambda>i. m1 (buffer + i)) [0..<512] = header_bytes (archive_name name) USTAR_REGULAR ?sz"
    using h(2) by (simp add: header_at_iff)
  have out: "vprintf_loop 1 (literal (''Appending '' @ [CHR 0x27] @ ''%s'' @ [CHR 0x27] @
      '' to ustar archive on scratch device...'' @ NEWLINE)) [of_nat p] (u_mem st) = Some (append_message name)"
    by (rule printf_append[OF assms(1-4)])
  have len: "file_length src fs1 = Some (i_length ino)"
    using assms(11) by (auto simp: file_at_def file_length_def inode_length_def)
  have b32: "unat (bd_size d) < 2 ^ 32" using unsigned_less[of "bd_size d"] by simp
  have s: "?s < bd_size d" "unat (?s + 1) = unat ?s + 1"
    using assms(17) unat_add_lem[THEN iffD1, of ?s 1] b32 by (simp_all add: word_less_nat_alt)
  define d1 where "d1 = d\<lparr>bd_data := (bd_data d)(?s := header_bytes (archive_name name) USTAR_REGULAR ?sz), bd_write_cnt := bd_write_cnt d + 1\<rparr>"
  define st1 where "st1 = st\<lparr>u_out := u_out st @ append_message name, u_mallocs := bufs, u_fs := fs1, u_mem := m1, append_sector := ?s + 1, u_scratch := Some d1\<rparr>"
  obtain st2 d2 where c: "append_copy src buffer (i_length ino) st1 = Some st2" "file_at (u_fs st2) src q ino (i_length ino)"
      "bd_size (dev (bc (u_fs st2))) = bd_size (dev (bc fs1))" "u_scratch st2 = Some d2" "bd_type d2 \<noteq> BLOCK_FOREIGN" "bd_size d2 = bd_size d"
      "append_sector st2 = ?s + 1 + of_nat ?n" "bd_data d2 = put_sectors (?s + 1) ?secs (bd_data d1)"
      "\<And>a. a \<notin> {buffer..<buffer + 512} \<Longrightarrow> u_mem st2 a = m1 a" "u_out st2 = u_out st @ append_message name"
    using append_copy_ok[where st = st1 and d = d1 and sz = "i_length ino" and pos = 0 and ino = ino and src = src and p = q and buffer = buffer]
      assms(8,11,12,16,17) l(1) s(2) n by (auto simp: st1_def d1_def)
  have un: "unat (?s + 1 + of_nat ?n) = unat ?s + 1 + ?n"
  proof -
    have "unat (of_nat ?n :: u32) = ?n" using assms(17) b32 by (simp add: unsigned_of_nat take_bit_nat_eq_self)
    then show ?thesis using unat_add_lem[THEN iffD1, of "?s + 1" "of_nat ?n"] assms(17) b32 s(2) by simp
  qed
  then have room: "append_sector st2 < bd_size d2" using assms(17) c(6,7) by (simp add: word_less_nat_alt)
  obtain fs3 where f: "file_close close_inode (Some src) (u_fs st2) = Some fs3"
    using file_close_ok[OF c(2) assms(13)] assms(14) c(3) by auto
  define m3 where "m3 = store_bytes buffer (replicate 512 0) (u_mem st2)"
  have t: "map (\<lambda>i. m3 (buffer + 1 + i)) [0..<512] = trailer buffer (u_mem st)"
  proof (rule nth_equalityI)
    fix i assume "i < length (map (\<lambda>i. m3 (buffer + 1 + i)) [0..<512])"
    then consider "i < 511" | "i = 511" by fastforce
    then show "map (\<lambda>i. m3 (buffer + 1 + i)) [0..<512] ! i = trailer buffer (u_mem st) ! i"
      using c(9)[of "buffer + 512"] h(3)[of "buffer + 512"]
      by cases (simp_all add: m3_def store_bytes_def trailer_def nth_append add.commute)
  qed (simp add: trailer_def)
  let ?d3 = "d2\<lparr>bd_data := (bd_data d2)(append_sector st2 := trailer buffer (u_mem st)), bd_write_cnt := bd_write_cnt d2 + 1 + 1\<rparr>"
  have "fsutil_append argv st = Some (st2\<lparr>u_mem := m3, u_scratch := Some ?d3, u_fs := fs3\<rparr>)"
    using assms(6,7,8,10,15,16) string_at_ok[OF assms(1,2)] out len h(1) hb s(1) c(1,4,5) room f t
    by (simp add: fsutil_append_def u_printf_def u_malloc_def scratch_write_ok u_memset_ok BLOCK_SECTOR_SIZE_def Let_def
      st1_def[symmetric] d1_def[symmetric] m3_def[symmetric])
  moreover have "bd_data ?d3 = put_sectors ?s (header_bytes (archive_name name) USTAR_REGULAR ?sz # ?secs @ [trailer buffer (u_mem st)]) (bd_data d)"
    using c(7,8) n by (simp add: put_sectors_append d1_def)
  ultimately show ?thesis using c(6,7,10) by auto
qed


section \<open>Witnesses\<close>

definition demo_scratch :: block_dev where
  "demo_scratch = \<lparr>bd_name = ''hdc'', bd_type = BLOCK_SCRATCH, bd_size = 16, bd_data = (\<lambda>_. replicate 512 0),
     bd_read_cnt = 0, bd_write_cnt = 0\<rparr>"

definition demo_open :: "addr \<Rightarrow> fs" where
  "demo_open f = demo_fs\<lparr>objs := [f \<mapsto> File \<lparr>f_inode = 7, f_pos = 0, f_deny = False\<rparr>]\<rparr>"

definition demo_ust :: fsutil where
  "demo_ust = \<lparr>u_fs = demo_open 20, u_mem = (\<lambda>_. 0)(1 := 97), u_scratch = Some demo_scratch, u_mallocs = [1000],
     extract_sector = 0, append_sector = 0, u_out = []\<rparr>"

lemma demo_file_at: "file_at (demo_open f) f 7 demo_inode 0"
proof -
  have "inode_ok (demo_open f) demo_inode" "bc (demo_open f) = demo_cache"
    using demo_inode_ok by (simp_all add: demo_open_def)
  moreover have "get_file f (demo_open f) = Some \<lparr>f_inode = 7, f_pos = 0, f_deny = False\<rparr>" "get_inode 7 (demo_open f) = Some demo_inode"
    by (simp_all add: demo_open_def get_file_def get_inode_def demo_fs_def)
  ultimately show ?thesis by (simp add: file_at_def)
qed

theorem archive_data_roundtrip_witness:
  "\<exists>st' st3 ino3. append_copy 20 1000 600 demo_ust = Some st' \<and>
     extract_copy 21 2000 600 (st'\<lparr>u_fs := demo_open 21, extract_sector := 0\<rparr>) = Some st3 \<and>
     get_inode 7 (u_fs st3) = Some ino3 \<and> file_bytes (u_fs st3) ino3 = file_bytes (demo_open 20) demo_inode"
proof -
  obtain st' where a: "append_copy 20 1000 (i_length demo_inode) demo_ust = Some st'" and
    "\<forall>st2 dst q ino2 data. u_scratch st2 = u_scratch st' \<and> extract_sector st2 = append_sector demo_ust \<and>
       file_at (u_fs st2) dst q ino2 0 \<and> i_length ino2 = i_length demo_inode \<and> i_deny_write_cnt ino2 = 0 \<longrightarrow>
       (\<exists>st3 ino3. extract_copy dst data (i_length demo_inode) st2 = Some st3 \<and> get_inode q (u_fs st3) = Some ino3 \<and>
          file_bytes (u_fs st3) ino3 = file_bytes (u_fs demo_ust) demo_inode \<and> extract_sector st3 = append_sector st')"
    using archive_data_roundtrip[where st = demo_ust and ino = demo_inode and src = 20 and buffer = 1000 and d = demo_scratch and p = 7]
    by (auto simp: demo_ust_def demo_file_at demo_scratch_def DIV_ROUND_UP_def)
  from this(2)[rule_format, of "st'\<lparr>u_fs := demo_open 21, extract_sector := 0\<rparr>" 21 7 demo_inode 2000]
  show ?thesis using a demo_file_at[of 21] by (auto simp: demo_ust_def)
qed

lemma demo_append_open:
  obtains a fs1 where "filesys_open [97] demo_dirs = Some (Some a, fs1)" "file_at fs1 a 7 (demo_inode\<lparr>i_open_cnt := 2\<rparr>) 0"
    "bd_size (dev (bc fs1)) = 100"
proof (rule filesys_open_ok[of "[97]" "[97]" demo_dirs 3 demo_root])
  show "path_tokens [97] = [[97]]" by (subst path_tokens.simps, subst path_tokens.simps) (simp add: ASCII_SLASH_def)
  fix st' r assume o: "filesys_open [97] demo_dirs = Some (r, st')" "keeps_files demo_dirs demo_root st'" "cache_idle (bc st')"
    "bd_size (dev (bc st')) = bd_size (dev (bc demo_dirs))"
    "case dir_map (file_bytes demo_dirs demo_root) [97] of None \<Rightarrow> r = None
     | Some s \<Rightarrow> \<exists>a q i. r = Some a \<and> get_inode q st' = Some i \<and> i_sector i = s \<and>
         objs st' = (objs demo_dirs)(fresh demo_dirs := None, a \<mapsto> handle q i) \<and>
         get_inode 3 st' = Some (if q = 3 then demo_root\<lparr>i_open_cnt := i_open_cnt demo_root + 1\<rparr> else demo_root) \<and>
         ((\<exists>r \<in> set (open_inodes demo_dirs). \<exists>i. get_inode r demo_dirs = Some i \<and> i_sector i = s) \<longrightarrow> q \<in> set (open_inodes demo_dirs) \<and>
           (\<exists>i0. get_inode q demo_dirs = Some i0 \<and> i_sector i0 = s \<and> (q \<noteq> 3 \<longrightarrow> i = i0\<lparr>i_open_cnt := i_open_cnt i0 + 1\<rparr>)))"
    "r = None \<longrightarrow> objs st' = (objs demo_dirs)(fresh demo_dirs := None) \<and> get_inode 3 st' = Some demo_root"
  let ?i = "demo_inode\<lparr>i_open_cnt := 2\<rparr>"
  have c: "i_open_cnt demo_inode + 1 = 2" by (simp add: demo_inode_def)
  have open7: "\<exists>r \<in> set (open_inodes demo_dirs). \<exists>i. get_inode r demo_dirs = Some i \<and> i_sector i = 2"
    by (simp add: demo_dirs_simps)
  have only7: "q = 7 \<and> i0 = demo_inode" if "q \<in> set (open_inodes demo_dirs)" "get_inode q demo_dirs = Some i0" "i_sector i0 = 2" for q i0
    using that by (auto simp: demo_dirs_simps)
  have "dir_map (file_bytes demo_dirs demo_root) [97] = Some 2" by (simp add: demo_root_map)
  from o(5)[unfolded this option.case] open7 obtain a q i i0 where q: "r = Some a" "get_inode q st' = Some i"
      "objs st' = (objs demo_dirs)(fresh demo_dirs := None, a \<mapsto> handle q i)" "q \<in> set (open_inodes demo_dirs)"
      "get_inode q demo_dirs = Some i0" "i_sector i0 = 2" "q \<noteq> 3 \<longrightarrow> i = i0\<lparr>i_open_cnt := i_open_cnt i0 + 1\<rparr>"
    by blast
  have "q = 7" "i = ?i" using only7[OF q(4,5,6)] q(7) c by simp_all
  with q have a: "r = Some a" "get_inode 7 st' = Some ?i" "objs st' a = Some (handle 7 ?i)" by simp_all
  have "n_blocks (i_length demo_inode) = 2" by (simp add: n_blocks_def)
  then have "inode_ok st' demo_inode" using o(2) demo_dirs_ok(2) by (simp add: keeps_files_def demo_datas)
  then have "file_at st' a 7 ?i 0" using a o(3) by (simp add: file_at_def get_file_def handle_def)
  then show thesis using that o(1,4) a(1) by (simp add: demo_dirs_simps)
qed (use demo_root_at demo_dirs_open in \<open>simp_all add: demo_root_map demo_dirs_simps DOT_def DOTDOT_def\<close>)

theorem fsutil_append_archive_witness:
  "\<exists>st' d'. fsutil_append [0, 1] (demo_ust\<lparr>u_fs := demo_dirs\<rparr>) = Some st' \<and> u_scratch st' = Some d' \<and>
     bd_data d' 0 = header_bytes [97] USTAR_REGULAR 600 \<and> bd_data d' 3 = trailer 1000 (u_mem demo_ust) \<and> append_sector st' = 3"
proof -
  let ?i = "demo_inode\<lparr>i_open_cnt := 2\<rparr>"
  obtain a fs1 where o: "filesys_open [97] demo_dirs = Some (Some a, fs1)" "file_at fs1 a 7 ?i 0" "bd_size (dev (bc fs1)) = 100"
    by (rule demo_append_open)
  have "\<not> antisocial [97]" by (simp add: antisocial_def)
  then have "strip_prefixes [97] = [97]" by (subst strip_prefixes.simps) simp
  then have n: "archive_name [97] = [97]" by (simp add: archive_name_def)
  have c: "cstr (u_mem demo_ust) 1 [97]" by (simp add: demo_ust_def)
  have l: "length (sectors_of (file_bytes fs1 ?i)) = 2"
    by (simp add: length_sectors_of file_bytes_def DIV_ROUND_UP_def)
  obtain st' d' where r: "fsutil_append [0, 1] (demo_ust\<lparr>u_fs := demo_dirs\<rparr>) = Some st'" "u_scratch st' = Some d'"
    "bd_data d' = put_sectors 0 (header_bytes [97] USTAR_REGULAR 600 # sectors_of (file_bytes fs1 ?i) @ [trailer 1000 (u_mem demo_ust)])
       (bd_data demo_scratch)" "append_sector st' = 3"
    using fsutil_append_archive[where st = "demo_ust\<lparr>u_fs := demo_dirs\<rparr>" and p = 1 and name = "[97]" and argv = "[0, 1]" and
      buffer = 1000 and bufs = "[]" and src = a and q = 7 and ino = ?i and d = demo_scratch, OF _ _ _ _ _ _ _ _ _ _ o(2)] c o(1,3) n
    by (auto simp: demo_ust_def demo_scratch_def DIV_ROUND_UP_def demo_inode_def)
  show ?thesis using r l by (auto simp: put_sectors_at nth_append)
qed

end
