(* ===== verification/KInit.thy ===== *)
theory KInit imports KFsutil KSyscall KRtc KRandom begin

unbundle bit_operations_syntax

text \<open>
  The start of the kernel, \<open>threads/init.c\<close>: the command line that the loader leaves in memory, its
  options and its actions, the page directory of the kernel, and the roles of the block devices.
  An argument vector is the list of its pointers before the null pointer.  \<open>VM\<close> is not defined
  when the kernel is built, so there is no swap device.
\<close>

section \<open>State\<close>

text \<open>The static variables of \<open>init.c\<close>, the ones that the options set elsewhere, and what has been printed.\<close>

record boot =
  bt_mem :: memory
  bt_out :: "u8 list"
  format_filesys :: bool
  filesys_bdev_name :: addr
  scratch_bdev_name :: addr
  user_page_limit :: u32
  bt_how :: shutdown_type
  bt_prng :: prng
  thread_mlfqs :: bool
  bt_sched :: sched

definition bt_printf :: "string \<Rightarrow> u32 list \<Rightarrow> boot \<Rightarrow> boot option" where
  "bt_printf fmt args st = do {
     out \<leftarrow> vprintf_loop 1 (literal fmt) args (bt_mem st);
     Some (st\<lparr>bt_out := bt_out st @ out\<rparr>)
   }"

section \<open>The command line\<close>

definition LOADER_PHYS_BASE :: addr where "LOADER_PHYS_BASE = 0xc0000000"
definition LOADER_END :: addr where "LOADER_END = 0x7e00"
definition LOADER_SIG_LEN :: nat where "LOADER_SIG_LEN = 2"
definition LOADER_PARTS_LEN :: nat where "LOADER_PARTS_LEN = 64"
definition LOADER_ARGS_LEN :: nat where "LOADER_ARGS_LEN = 128"
definition LOADER_ARG_CNT_LEN :: nat where "LOADER_ARG_CNT_LEN = 4"
definition LOADER_SIG :: addr where "LOADER_SIG = LOADER_END - LOADER_SIG_LEN"
definition LOADER_PARTS :: addr where "LOADER_PARTS = LOADER_SIG - LOADER_PARTS_LEN"
definition LOADER_ARGS :: addr where "LOADER_ARGS = LOADER_PARTS - LOADER_ARGS_LEN"
definition LOADER_ARG_CNT :: addr where "LOADER_ARG_CNT = LOADER_ARGS - LOADER_ARG_CNT_LEN"

text \<open>The loop that sets the elements of \<open>argv\<close>: \<open>n\<close> arguments are left.\<close>

fun read_args_loop :: "nat \<Rightarrow> addr \<Rightarrow> addr \<Rightarrow> memory \<Rightarrow> addr list option" where
  "read_args_loop 0 p e m = Some []"
| "read_args_loop (Suc n) p e m = do {
     ASSERT (p < e);
     len \<leftarrow> strnlen p (e - p) m;
     argv \<leftarrow> read_args_loop n (p + len + 1) e m;
     Some (p # argv)
   }"

fun print_args_loop :: "addr list \<Rightarrow> boot \<Rightarrow> boot option" where
  "print_args_loop [] st = Some st"
| "print_args_loop (arg # argv) st = do {
     r \<leftarrow> strchr arg (byte CHR '' '') (bt_mem st);
     st \<leftarrow> bt_printf (if r = NULL then '' %s'' else '' '' @ [CHR 0x27] @ ''%s'' @ [CHR 0x27]) [of_nat arg] st;
     print_args_loop argv st
   }"

text \<open>The array \<open>argv\<close> has room for 64 arguments and the null pointer.\<close>

definition read_command_line :: "boot \<Rightarrow> (addr list \<times> boot) option" where
  "read_command_line st = do {
     let argc = dec32 (map (\<lambda>i. bt_mem st (LOADER_PHYS_BASE + LOADER_ARG_CNT + i)) [0..<4]);
     ASSERT (unat argc < LOADER_ARGS_LEN div 2 + 1);
     let p = LOADER_PHYS_BASE + LOADER_ARGS;
     argv \<leftarrow> read_args_loop (unat argc) p (p + LOADER_ARGS_LEN) (bt_mem st);
     st \<leftarrow> bt_printf ''Kernel command line:'' [] st;
     st \<leftarrow> print_args_loop argv st;
     st \<leftarrow> bt_printf NEWLINE [] st;
     Some (argv, st)
   }"

section \<open>Options\<close>

definition usage_text :: string where
  "usage_text = concat (map (\<lambda>l. l @ NEWLINE)
    ['''',
     ''Command line syntax: [OPTION...] [ACTION...]'',
     ''Options must precede actions.'',
     ''Actions are executed in the order specified.'',
     '''',
     ''Available actions:'',
     ''  run '' @ [CHR 0x27] @ ''PROG [ARG...]'' @ [CHR 0x27] @ '' Run PROG and wait for it to complete.'',
     ''  ls                 List files in the root directory.'',
     ''  cat FILE           Print FILE to the console.'',
     ''  rm FILE            Delete FILE.'',
     ''Use these actions indirectly via `pintos'' @ [CHR 0x27] @ '' -g and -p options:'',
     ''  extract            Untar from scratch device into file system.'',
     ''  append FILE        Append FILE to tar file on scratch device.'',
     '''',
     ''Options:'',
     ''  -h                 Print this help message and power off.'',
     ''  -q                 Power off VM after actions or on panic.'',
     ''  -r                 Reboot after actions.'',
     ''  -f                 Format file system device during startup.'',
     ''  -filesys=BDEV      Use BDEV for file system instead of default.'',
     ''  -scratch=BDEV      Use BDEV for scratch instead of default.'',
     ''  -rs=SEED           Set random number seed to SEED.'',
     ''  -mlfqs             Use multi-level feedback queue scheduler.'',
     ''  -ul=COUNT          Limit user memory to COUNT pages.''])"

text \<open>The help message was printed and the machine powers off, or the options end.\<close>

datatype parsed = Stopped boot | Parsed "addr list" boot

definition usage :: "boot \<Rightarrow> parsed option" where
  "usage st = do {
     st \<leftarrow> bt_printf usage_text [] st;
     out \<leftarrow> shutdown_power_off (bt_sched st);
     case out of PowerOff s \<Rightarrow> Some (Stopped (st\<lparr>bt_sched := s\<rparr>)) | _ \<Rightarrow> None
   }"

text \<open>One option other than \<open>-h\<close>; an unknown one is a panic.\<close>

definition parse_option :: "addr \<Rightarrow> addr \<Rightarrow> boot \<Rightarrow> boot option" where
  "parse_option name value st = (let opt = (\<lambda>s. string_is name s (bt_mem st)) in
     if opt ''-q'' then Some (st\<lparr>bt_how := SHUTDOWN_POWER_OFF\<rparr>)
     else if opt ''-r'' then Some (st\<lparr>bt_how := SHUTDOWN_REBOOT\<rparr>)
     else if opt ''-f'' then Some (st\<lparr>format_filesys := True\<rparr>)
     else if opt ''-filesys'' then Some (st\<lparr>filesys_bdev_name := value\<rparr>)
     else if opt ''-scratch'' then Some (st\<lparr>scratch_bdev_name := value\<rparr>)
     else if opt ''-rs'' then do {
       seed \<leftarrow> atoi value (bt_mem st);
       Some (st\<lparr>bt_prng := random_init seed (bt_prng st)\<rparr>)
     }
     else if opt ''-mlfqs'' then Some (st\<lparr>thread_mlfqs := True\<rparr>)
     else if opt ''-ul'' then do {
       n \<leftarrow> atoi value (bt_mem st);
       Some (st\<lparr>user_page_limit := n\<rparr>)
     }
     else None)"

text \<open>The loop of \<open>parse_options\<close>; the string constants \<open>"="\<close> and \<open>""\<close> are at \<open>eq\<close> and \<open>nul\<close>.\<close>

fun parse_loop :: "addr \<Rightarrow> addr \<Rightarrow> addr list \<Rightarrow> boot \<Rightarrow> parsed option" where
  "parse_loop eq nul [] st = Some (Parsed [] st)"
| "parse_loop eq nul (arg # argv) st =
     (if bt_mem st arg \<noteq> byte CHR ''-'' then Some (Parsed (arg # argv) st)
      else do {
        (name, save, m) \<leftarrow> strtok_r arg eq NULL (bt_mem st);
        (value, save, m) \<leftarrow> strtok_r NULL nul save m;
        let st = st\<lparr>bt_mem := m\<rparr>;
        if string_is name ''-h'' m then usage st
        else do {
          st \<leftarrow> parse_option name value st;
          parse_loop eq nul argv st
        }
      })"

definition parse_options :: "addr \<Rightarrow> addr \<Rightarrow> addr list \<Rightarrow> boot \<Rightarrow> parsed option" where
  "parse_options eq nul argv st = do {
     r \<leftarrow> parse_loop eq nul argv st;
     (case r of
        Stopped st \<Rightarrow> Some (Stopped st)
      | Parsed argv st \<Rightarrow> do {
          (now, s) \<leftarrow> rtc_get_time (bt_sched st);
          Some (Parsed argv (st\<lparr>bt_prng := random_init now (bt_prng st), bt_sched := s\<rparr>))
        })
   }"

section \<open>Actions\<close>

text \<open>
  The table of the actions: name, number of arguments with the name, function.  \<open>run_task\<close> waits
  for a process; the threads it switches to are not part of this state, so it is a parameter.
\<close>

type_synonym action = "string \<times> nat \<times> (addr list \<Rightarrow> fsutil \<Rightarrow> fsutil option)"

definition actions :: "(addr list \<Rightarrow> fsutil \<Rightarrow> fsutil option) \<Rightarrow> action list" where
  "actions run_task =
    [(''run'', 2, run_task), (''ls'', 1, fsutil_ls), (''cat'', 2, fsutil_cat), (''rm'', 2, fsutil_rm),
     (''extract'', 1, fsutil_extract), (''append'', 2, fsutil_append)]"

definition find_action :: "addr \<Rightarrow> action list \<Rightarrow> fsutil \<Rightarrow> action option" where
  "find_action name as st = find (\<lambda>a. string_is name (fst a) (u_mem st)) as"

lemma find_action_argc: "find_action name (actions run_task) st = Some (s, n, f) \<Longrightarrow> 0 < n"
  by (auto simp: find_action_def actions_def split: if_splits)

function run_actions :: "(addr list \<Rightarrow> fsutil \<Rightarrow> fsutil option) \<Rightarrow> addr list \<Rightarrow> fsutil \<Rightarrow> fsutil option" where
  "run_actions run_task argv st =
     (if argv = [] then Some st
      else do {
        (name, argc, f) \<leftarrow> find_action (hd argv) (actions run_task) st;
        ASSERT (argc \<le> length argv);
        st \<leftarrow> f argv st;
        run_actions run_task (drop argc argv) st
      })"
  by auto
termination
  by (relation "measure (\<lambda>(run_task, argv, st). length argv)") (auto dest: find_action_argc)

declare run_actions.simps [simp del]

section \<open>Block devices\<close>

function first_of_type :: "block_type \<Rightarrow> nat option \<Rightarrow> registry \<Rightarrow> nat option" where
  "first_of_type role None r = None"
| "first_of_type role (Some b) r =
     (if b < length (all_blocks r) \<and> bd_type (all_blocks r ! b) = role then Some b
      else if b < length (all_blocks r) then first_of_type role (block_next b r) r else None)"
  by pat_completeness auto
termination
  by (relation "measure (\<lambda>(role, b, r). case b of None \<Rightarrow> 0 | Some b \<Rightarrow> Suc (length (all_blocks r) - b))")
    (auto simp: block_next_def list_elem_to_block_def)

text \<open>A null pointer as \<open>name\<close> is \<open>None\<close>; the message is the device's name.\<close>

definition locate_block_device :: "block_type \<Rightarrow> string option \<Rightarrow> registry \<Rightarrow> (string \<times> registry) option" where
  "locate_block_device role name r = do {
     block \<leftarrow> (case name of
         Some name \<Rightarrow> do { b \<leftarrow> block_get_by_name name r; Some (Some b) }
       | None \<Rightarrow> Some (first_of_type role (block_first r) r));
     (case block of
        None \<Rightarrow> Some ([], r)
      | Some b \<Rightarrow> do {
          r \<leftarrow> block_set_role role block r;
          Some (block_type_name role @ '': using '' @ bd_name (all_blocks r ! b) @ NEWLINE, r)
        })
   }"

definition locate_block_devices :: "string option \<Rightarrow> string option \<Rightarrow> registry \<Rightarrow> (string \<times> registry) option" where
  "locate_block_devices filesys_name scratch_name r = do {
     (out1, r) \<leftarrow> locate_block_device BLOCK_FILESYS filesys_name r;
     (out2, r) \<leftarrow> locate_block_device BLOCK_SCRATCH scratch_name r;
     Some (out1 @ out2, r)
   }"

section \<open>The page directory of the kernel\<close>

text \<open>
  The loop of \<open>paging_init\<close> from \<open>page\<close> on with \<open>n\<close> pages left; the kernel's text lies from
  \<open>start\<close> to before \<open>end_text\<close>.
\<close>

fun paging_loop :: "u32 \<Rightarrow> u32 \<Rightarrow> nat \<Rightarrow> u32 \<Rightarrow> u32 \<Rightarrow> u32 \<Rightarrow> vmem \<Rightarrow> vmem option" where
  "paging_loop start end_text 0 page pd pt v = Some v"
| "paging_loop start end_text (Suc n) page pd pt v = do {
     let paddr = page * PAGE;
     vaddr \<leftarrow> ptov paddr;
     let in_kernel_text = (start \<le> vaddr \<and> vaddr < end_text);
     (pt, v) \<leftarrow> (if words v (pd + 4 * pd_no vaddr) = 0
       then do {
         (pt, v) \<leftarrow> palloc_get_page \<lparr>PAL_ASSERT = True, PAL_ZERO = True, PAL_USER = False\<rparr> v;
         e \<leftarrow> pde_create pt;
         Some (pt, store (pd + 4 * pd_no vaddr) e v)
       }
       else Some (pt, v));
     e \<leftarrow> pte_create_kernel vaddr (\<not> in_kernel_text);
     paging_loop start end_text n (page + 1) pd pt (store (pt + 4 * pt_no vaddr) e v)
   }"

definition paging_init :: "u32 \<Rightarrow> u32 \<Rightarrow> vmem \<Rightarrow> vmem option" where
  "paging_init start end_text v = do {
     (pd, v) \<leftarrow> palloc_get_page \<lparr>PAL_ASSERT = True, PAL_ZERO = True, PAL_USER = False\<rparr> v;
     v \<leftarrow> paging_loop start end_text (unat (init_ram_pages v)) 0 pd 0 (v\<lparr>init_page_dir := pd\<rparr>);
     cr3 \<leftarrow> vtop (init_page_dir v);
     Some (v\<lparr>cr3 := cr3\<rparr>)
   }"

end
