(* ===== verification/KInitProps.thy ===== *)
theory KInitProps imports KInit KFsutilProps KPagingMap KTimer begin

text \<open>
  What the start of the kernel makes of its command line: the arguments are found as the loader left
  them, and the option \<open>-rs\<close> has no effect.
\<close>

section \<open>The command line\<close>

text \<open>Strings one after the other, each with its terminator, as the loader leaves them.\<close>

definition blob :: "u8 list list \<Rightarrow> u8 list" where
  "blob as = concat (map (\<lambda>a. a @ [0]) as)"

lemma read_args_ok:
  assumes "\<forall>a \<in> set as. 0 \<notin> set a" "\<forall>i < length (blob as). m (p + i) = blob as ! i" "p + length (blob as) \<le> e"
  shows "\<exists>argv. read_args_loop (length as) p e m = Some argv \<and> list_all2 (cstr m) argv as \<and> (\<forall>q \<in> set argv. p \<le> q \<and> q < e)"
  using assms
proof (induction as arbitrary: p)
  case Nil
  then show ?case by simp
next
  case (Cons a as)
  have b: "blob (a # as) = a @ 0 # blob as" by (simp add: blob_def)
  have m: "m (p + i) = (a @ 0 # blob as) ! i" if "i < length a + 1 + length (blob as)" for i
    using Cons.prems(2) that by (simp add: b)
  have c: "cstr m p a" unfolding cstr_append_zero using m[of "length a"] m Cons.prems(1) by (auto simp: nth_append)
  have l: "strnlen p (e - p) m = Some (length a)"
    unfolding strnlen_def by (rule strnlen_loop_ok[OF c]) (use Cons.prems(3) in \<open>simp_all add: b\<close>)
  have "m (p + length a + 1 + i) = blob as ! i" if "i < length (blob as)" for i
    using m[of "length a + 1 + i"] that by (simp add: nth_append add.assoc)
  then have "\<exists>argv. read_args_loop (length as) (p + length a + 1) e m = Some argv \<and> list_all2 (cstr m) argv as \<and>
      (\<forall>q \<in> set argv. p + length a + 1 \<le> q \<and> q < e)"
    by (intro Cons.IH) (use Cons.prems(1,3) in \<open>simp_all add: b\<close>)
  then show ?case using l c Cons.prems(3) by (fastforce simp: b)
qed

text \<open>What is printed of an argument: with quotes if it has a space in it.\<close>

definition shown :: "u8 list \<Rightarrow> u8 list" where
  "shown a = (if 32 \<in> set a then [32, 39] @ a @ [39] else 32 # a)"

lemma print_args_ok:
  assumes "list_all2 (cstr m) argv as" "bt_mem st = m" "\<forall>q \<in> set argv. q \<noteq> NULL \<and> q < 2 ^ 32" "\<forall>a \<in> set as. length a < 2 ^ 31"
  shows "print_args_loop argv st = Some (st\<lparr>bt_out := bt_out st @ concat (map shown as)\<rparr>)"
  using assms
proof (induction argv as arbitrary: st rule: list_all2_induct)
  case (Cons p argv a as)
  have p: "p \<noteq> NULL" using Cons.prems(2) by simp
  obtain r where r: "strchr p 32 m = Some r" "r = NULL \<longleftrightarrow> (32 :: u8) \<noteq> 0 \<and> 32 \<notin> set a"
    by (rule strchr_ok[OF Cons.hyps(1) p, where c = 32])
  have "vprintf_loop 1 (literal (if r = NULL then '' %s'' else '' '' @ [CHR 0x27] @ ''%s'' @ [CHR 0x27])) [of_nat p] m = Some (shown a)"
    using printf_with_s[of "'' ''" "[]" m p a] printf_with_s[of "'' '' @ [CHR 0x27]" "[CHR 0x27]" m p a]
      Cons.hyps(1) Cons.prems r(2) by (simp add: shown_def)
  then show ?case using Cons r(1) by (simp add: bt_printf_def)
qed simp

text \<open>
  C36: \<open>read_command_line\<close> finds the arguments that the loader left.  If the count is that of
  at most 64 arguments whose strings, each with its terminator, lie one after the other in the 128 bytes of
  the loader's area, then the elements of \<open>argv\<close> point to exactly these strings in their order, and the
  line printed shows them, those with a space in quotes.
\<close>

theorem read_command_line_splits:
  assumes "dec32 (map (\<lambda>i. bt_mem st (LOADER_PHYS_BASE + LOADER_ARG_CNT + i)) [0..<4]) = of_nat (length as)"
    "length as \<le> 64" "\<forall>a \<in> set as. 0 \<notin> set a" "length (blob as) \<le> LOADER_ARGS_LEN"
    "\<forall>i < length (blob as). bt_mem st (LOADER_PHYS_BASE + LOADER_ARGS + i) = blob as ! i"
  shows "\<exists>argv st'. read_command_line st = Some (argv, st') \<and> list_all2 (cstr (bt_mem st)) argv as \<and>
    st' = st\<lparr>bt_out := bt_out st @ map byte ''Kernel command line:'' @ concat (map shown as) @ [10]\<rparr>"
proof -
  let ?p = "LOADER_PHYS_BASE + LOADER_ARGS"
  have "unat (of_nat (length as) :: u32) = length as" using assms(2) by (simp add: unsigned_of_nat take_bit_nat_eq_self)
  then have n: "unat (dec32 (map (\<lambda>i. bt_mem st (LOADER_PHYS_BASE + LOADER_ARG_CNT + i)) [0..<4])) = length as"
    using assms(1) by simp
  obtain argv where a: "read_args_loop (length as) ?p (?p + LOADER_ARGS_LEN) (bt_mem st) = Some argv"
    "list_all2 (cstr (bt_mem st)) argv as" "\<forall>q \<in> set argv. ?p \<le> q \<and> q < ?p + LOADER_ARGS_LEN"
    using read_args_ok[OF assms(3,5), of "?p + LOADER_ARGS_LEN"] assms(4) by auto
  have q: "\<forall>q \<in> set argv. q \<noteq> NULL \<and> q < 2 ^ 32"
    using a(3) by (auto simp: LOADER_PHYS_BASE_def LOADER_ARGS_def LOADER_PARTS_def LOADER_SIG_def LOADER_END_def
      LOADER_SIG_LEN_def LOADER_PARTS_LEN_def LOADER_ARGS_LEN_def)
  have "length a \<le> length (blob as)" if "a \<in> set as" for a using that by (induction as) (auto simp: blob_def)
  then have s: "\<forall>a \<in> set as. length a < 2 ^ 31" using assms(4) by (fastforce simp: LOADER_ARGS_LEN_def)
  have "read_command_line st = Some (argv, st\<lparr>bt_out := bt_out st @ map byte ''Kernel command line:'' @ concat (map shown as) @ [10]\<rparr>)"
    using n a(1) assms(2) printf_plain[of "''Kernel command line:''"] printf_plain[of NEWLINE] print_args_ok[OF a(2) _ q s]
    by (simp add: read_command_line_def bt_printf_def NEWLINE_def LOADER_ARGS_LEN_def)
  then show ?thesis using a(2) by blast
qed

section \<open>The seed of the random numbers\<close>

lemma parse_option_sched: "parse_option name val st = Some st' \<Longrightarrow> bt_sched st' = bt_sched st"
  by (auto simp: parse_option_def Let_def split: if_splits Option.bind_splits)

lemma parse_loop_sched: "parse_loop eq nul argv st = Some (Parsed rest st') \<Longrightarrow> bt_sched st' = bt_sched st"
proof (induction eq nul argv st rule: parse_loop.induct)
  case (2 eq nul arg argv st)
  show ?case
  proof (cases "bt_mem st arg \<noteq> byte CHR ''-''")
    case False
    then obtain name save m val save' m' st1 where *: "strtok_r arg eq NULL (bt_mem st) = Some (name, save, m)"
      "strtok_r NULL nul save m = Some (val, save', m')" "\<not> string_is name ''-h'' m'"
      "parse_option name val (st\<lparr>bt_mem := m'\<rparr>) = Some st1" "parse_loop eq nul argv st1 = Some (Parsed rest st')"
      using 2(2) by (auto simp: usage_def Let_def split: Option.bind_splits if_splits outcome.splits)
    have "bt_sched st' = bt_sched st1" by (rule 2(1)[OF False *(1) refl refl *(2) refl refl refl *(3,4,5)])
    then show ?thesis using parse_option_sched[OF *(4)] by simp
  qed (use 2(2) in simp)
qed simp

lemma random_init_overwrites: "random_init seed g = random_init seed h"
  by (simp add: random_init_def)

text \<open>
  C37: The option \<open>-rs\<close> has no effect.  Whatever the options are, when they have been parsed the random
  numbers start from the time that the clock shows: \<open>parse_options\<close> initialises the generator once more after the
  loop, and this does not depend on its state before.
\<close>

theorem boot_seed_is_clock:
  assumes "parse_options eq nul argv st = Some (Parsed rest st')"
  shows "\<exists>now s. rtc_get_time (bt_sched st) = Some (now, s) \<and> (\<forall>g. bt_prng st' = random_init now g)"
proof -
  obtain st1 now s where *: "parse_loop eq nul argv st = Some (Parsed rest st1)" "rtc_get_time (bt_sched st1) = Some (now, s)"
    "st' = st1\<lparr>bt_prng := random_init now (bt_prng st1), bt_sched := s\<rparr>"
    using assms by (auto simp: parse_options_def split: Option.bind_splits parsed.splits)
  then show ?thesis using parse_loop_sched[OF *(1)] random_init_overwrites by auto
qed

definition demo_line :: memory where
  "demo_line = (\<lambda>a. 0)(2 := 61, 8 := 45, 9 := 114, 10 := 115, 11 := 61, 12 := 53)"

definition demo_clock :: sched where
  "demo_clock = (demo_sched demo_vm demo_fs)\<lparr>io := demo_io\<lparr>d_in := [0, 0, 0, 1, 1, 0x70, 0]\<rparr>\<rparr>"

definition demo_boot :: boot where
  "demo_boot = \<lparr>bt_mem = demo_line, bt_out = [], format_filesys = False, filesys_bdev_name = 0, scratch_bdev_name = 0,
     user_page_limit = -1, bt_how = SHUTDOWN_NONE, bt_prng = \<lparr>rs = replicate 256 0, s_i = 0, s_j = 0, inited = False\<rparr>,
     thread_mlfqs = False, bt_sched = demo_clock\<rparr>"

lemma demo_line_at: "demo_line 2 = 61" "demo_line 3 = 0" "demo_line 8 = 45" "demo_line 9 = 114" "demo_line 10 = 115" "demo_line 11 = 61"
  "demo_line 12 = 53" "demo_line 13 = 0"
  by (simp_all add: demo_line_def)

lemma demo_strtok: "strtok_r 8 2 0 demo_line = Some (8, 12, demo_line(11 := 0))"
    "strtok_r 0 3 12 (demo_line(11 := 0)) = Some (12, 13, demo_line(11 := 0))"
  by (simp_all add: strtok_r_def strchr_def strtok_skip.simps[where s = 8] strtok_skip.simps[where s = 12] strtok_scan.simps[where s = 8]
    strtok_scan.simps[where s = 9] strtok_scan.simps[where s = 10] strtok_scan.simps[where s = 11] strtok_scan.simps[where s = 12]
    strtok_scan.simps[where s = 13]
    strchr_loop.simps[where string = 2] strchr_loop.simps[where string = 3] demo_line_at)


lemma cstr_unique: "cstr m p s \<Longrightarrow> cstr m p t \<Longrightarrow> s = t"
proof (induction m p s arbitrary: t rule: cstr.induct)
  case (1 m p)
  then show ?case by (cases t) auto
next
  case (2 m p c s)
  then show ?case by (cases t) auto
qed

lemma string_is_cstr:
  assumes "cstr m p t" "0 \<notin> set (map byte s)"
  shows "string_is p s m \<longleftrightarrow> t = map byte s"
proof -
  have "string_is p s m \<longleftrightarrow> cstr m p (map byte s)"
    using assms(2) unfolding cstr_append_zero string_is_def bytes_are_def list_eq_iff_nth_eq
    by (auto simp: nth_append less_Suc_eq)
  then show ?thesis using cstr_unique assms(1) by blast
qed

lemma demo_option: "parse_loop 2 3 [8] demo_boot =
    Some (Parsed [] (demo_boot\<lparr>bt_mem := demo_line(11 := 0), bt_prng := random_init 5 (bt_prng demo_boot)\<rparr>))"
proof -
  let ?m = "demo_line(11 := 0)"
  have "cstr ?m 8 (map byte ''-rs'')" by (simp add: demo_line_at)
  note s = string_is_cstr[OF this]
  have a: "atoi 12 ?m = Some 5"
    by (simp add: atoi_def skip_space.simps[where s = 12] atoi_digits.simps[where s = 12] atoi_digits.simps[where s = 13]
      demo_line_at isspace_def isdigit_def)
  show ?thesis
    using a demo_strtok by (simp add: demo_boot_def demo_line_at parse_option_def s)
qed

lemma cmos_read_next:
  assumes "d_in (io st) = v # vs"
  obtains st' where "cmos_read i st = Some (bcd_to_bin v, st')" "d_in (io st') = vs"
proof (rule that)
  let ?st' = "st\<lparr>io := (outb CMOS_REG_SET i (io st))\<lparr>d_in := vs\<rparr>\<rparr>"
  show "cmos_read i st = Some (bcd_to_bin v, ?st')"
    using assms by (simp add: cmos_read_def sched_inb_def inb_def upd_io_def outb_def)
qed simp

lemma demo_rtc: "\<exists>s. rtc_get_time demo_clock = Some (31 * 24 * 60 * 60, s)"
proof -
  have d: "d_in (io demo_clock) = [0, 0, 0, 1, 1, 0x70, 0]" by (simp add: demo_clock_def)
  obtain s1 where 1: "cmos_read RTC_REG_SEC demo_clock = Some (bcd_to_bin 0, s1)" "d_in (io s1) = [0, 0, 1, 1, 0x70, 0]"
    by (rule cmos_read_next[OF d])
  obtain s2 where 2: "cmos_read RTC_REG_MIN s1 = Some (bcd_to_bin 0, s2)" "d_in (io s2) = [0, 1, 1, 0x70, 0]"
    by (rule cmos_read_next[OF 1(2)])
  obtain s3 where 3: "cmos_read RTC_REG_HOUR s2 = Some (bcd_to_bin 0, s3)" "d_in (io s3) = [1, 1, 0x70, 0]"
    by (rule cmos_read_next[OF 2(2)])
  obtain s4 where 4: "cmos_read RTC_REG_MDAY s3 = Some (bcd_to_bin 1, s4)" "d_in (io s4) = [1, 0x70, 0]"
    by (rule cmos_read_next[OF 3(2)])
  obtain s5 where 5: "cmos_read RTC_REG_MON s4 = Some (bcd_to_bin 1, s5)" "d_in (io s5) = [0x70, 0]"
    by (rule cmos_read_next[OF 4(2)])
  obtain s6 where 6: "cmos_read RTC_REG_YEAR s5 = Some (bcd_to_bin 0x70, s6)" "d_in (io s6) = [0]"
    by (rule cmos_read_next[OF 5(2)])
  obtain s7 where 7: "cmos_read RTC_REG_SEC s6 = Some (bcd_to_bin 0, s7)"
    by (rule cmos_read_next[OF 6(2)])
  have b: "bcd_to_bin 0 = 0" "bcd_to_bin 1 = 1" "bcd_to_bin 0x70 = 70" by (simp_all add: bcd_to_bin_def)
  have "read_clock demo_clock = Some ((0, 0, 0, 1, 1, 70), s7)"
    by (subst read_clock.simps) (simp add: 1 2 3 4 5 6 7 b)
  then show ?thesis by (simp add: rtc_get_time_def rtc_counts_current_month)
qed

theorem boot_seed_is_clock_witness:
  "\<exists>st'. parse_options 2 3 [8] demo_boot = Some (Parsed [] st') \<and>
     bt_prng st' = random_init (31 * 24 * 60 * 60) \<lparr>rs = [], s_i = 0, s_j = 0, inited = False\<rparr>"
proof -
  obtain s where s: "rtc_get_time demo_clock = Some (31 * 24 * 60 * 60, s)" using demo_rtc by blast
  then obtain st' where st': "parse_options 2 3 [8] demo_boot = Some (Parsed [] st')"
    using demo_option by (auto simp: parse_options_def demo_boot_def)
  show ?thesis using boot_seed_is_clock[OF st'] st' s by (auto simp: demo_boot_def)
qed


definition demo_args :: memory where
  "demo_args a = (let b = LOADER_PHYS_BASE + LOADER_ARG_CNT; s = [2, 0, 0, 0, 45, 113, 0, 108, 115, 0] in
     if b \<le> a \<and> a < b + 10 then s ! (a - b) else 0)"

theorem read_command_line_splits_witness:
  "\<exists>argv st'. read_command_line (demo_boot\<lparr>bt_mem := demo_args\<rparr>) = Some (argv, st') \<and>
     list_all2 (cstr demo_args) argv [[45, 113], [108, 115]]"
proof -
  let ?st = "demo_boot\<lparr>bt_mem := demo_args\<rparr>"
  have u: "[0..<4] = [0, 1, 2, 3]" by (simp add: upt_rec)
  have a: "LOADER_PHYS_BASE + LOADER_ARGS + i = LOADER_PHYS_BASE + LOADER_ARG_CNT + (4 + i)" for i
    by (simp add: LOADER_ARG_CNT_def LOADER_ARGS_def LOADER_PARTS_def LOADER_SIG_def LOADER_END_def LOADER_SIG_LEN_def
      LOADER_PARTS_LEN_def LOADER_ARGS_LEN_def LOADER_ARG_CNT_LEN_def)
  have d: "demo_args (LOADER_PHYS_BASE + LOADER_ARG_CNT + i) = [2, 0, 0, 0, 45, 113, 0, 108, 115, 0] ! i" if "i < 10" for i
    using that by (simp add: demo_args_def)
  have "dec32 (map (\<lambda>i. bt_mem ?st (LOADER_PHYS_BASE + LOADER_ARG_CNT + i)) [0..<4]) = of_nat (length [[45, 113 :: u8], [108, 115]])"
    using d[of 0] d[of 1] d[of 2] d[of 3] by (simp add: u dec32_def)
  moreover have "bt_mem ?st (LOADER_PHYS_BASE + LOADER_ARGS + i) = blob [[45, 113], [108, 115]] ! i"
    if "i < length (blob [[45, 113], [108, 115]])" for i
    using that unfolding a by (simp add: d blob_def)
  ultimately have "\<exists>argv st'. read_command_line ?st = Some (argv, st') \<and> list_all2 (cstr (bt_mem ?st)) argv [[45, 113], [108, 115]] \<and>
      st' = ?st\<lparr>bt_out := bt_out ?st @ map byte ''Kernel command line:'' @ concat (map shown [[45, 113], [108, 115]]) @ [10]\<rparr>"
    by (intro read_command_line_splits) (auto simp: blob_def LOADER_ARGS_LEN_def)
  then show ?thesis by auto
qed

end
