(* ===== verification/KInitPaging.thy ===== *)
theory KInitPaging imports KInit KPagingMap begin

unbundle bit_operations_syntax

text \<open>
  The kernel's own page directory: \<open>paging_init\<close> maps all of the physical memory at \<open>PHYS_BASE\<close>.
\<close>

section \<open>Pages for the kernel's tables\<close>

abbreviation table_flags :: palloc_flags where
  "table_flags \<equiv> \<lparr>PAL_ASSERT = True, PAL_ZERO = True, PAL_USER = False\<rparr>"

definition free_cnt :: "vmem \<Rightarrow> nat" where
  "free_cnt v = card {i. i < bit_cnt (used_map (kernel_pool v)) \<and> \<not> bitmap_abs (used_map (kernel_pool v)) ! i}"

lemma palloc_assert:
  "palloc_get_multiple ZEROED 1 v = Some (p, v') \<Longrightarrow> p \<noteq> 0 \<Longrightarrow> palloc_get_multiple table_flags 1 v = Some (p, v')"
  by (auto simp: palloc_get_multiple_def Let_def ZEROED_def NO_FLAGS_def split: if_splits Option.bind_splits)

lemma table_page:
  assumes "vm_ok v" "0 < free_cnt v"
  obtains p v' where "palloc_get_page table_flags v = Some (p, v')" "kpage p" "p \<notin> used_pages (kernel_pool v)"
    "used_pages (kernel_pool v') = insert p (used_pages (kernel_pool v))" "vm_ok v'" "free_cnt v = Suc (free_cnt v')"
    "\<And>j. j < 1024 \<Longrightarrow> words v' (p + 4 * j) = 0"
    "\<And>q j. kpage q \<Longrightarrow> q \<noteq> p \<Longrightarrow> j < 1024 \<Longrightarrow> words v' (q + 4 * j) = words v (q + 4 * j)"
    "init_page_dir v' = init_page_dir v" "init_ram_pages v' = init_ram_pages v"
proof -
  let ?k = "kernel_pool v"
  have pool: "pool_of ZEROED v = ?k" "\<not> PAL_ASSERT ZEROED" "PAL_ZERO ZEROED" by (simp_all add: pool_of_def ZEROED_def NO_FLAGS_def)
  have kok: "pool_ok ?k" using assms(1) by (simp add: vm_ok_def)
  obtain i where i: "i < bit_cnt (used_map ?k)" "\<not> bitmap_abs (used_map ?k) ! i"
    using assms(2) by (auto simp: free_cnt_def card_gt_0_iff)
  show ?thesis
  proof (rule palloc_get_ok[OF assms(1) zero_less_one pool(2)])
    assume "\<forall>j. \<not> is_run (bitmap_abs (used_map (pool_of ZEROED v))) j 1 False"
    then show ?thesis using i unfolding pool is_run_def by (metis One_nat_def Suc_leI add.right_neutral add_Suc_right length_bitmap_abs less_Suc0)
  next
    fix r m
    assume get: "palloc_get_multiple ZEROED 1 v = Some (pool_page (pool_of ZEROED v) r,
        if PAL_ZERO ZEROED then fill_pages (pool_page (pool_of ZEROED v) r) 1 0 (set_used ZEROED m v) else set_used ZEROED m v)"
      and le: "r + 1 \<le> bit_cnt (used_map (pool_of ZEROED v))"
      and run: "is_run (bitmap_abs (used_map (pool_of ZEROED v))) r 1 False"
      and m: "bitmap_ok m" "bit_cnt m = bit_cnt (used_map (pool_of ZEROED v))"
        "bitmap_abs m = put_bytes r (replicate 1 True) (bitmap_abs (used_map (pool_of ZEROED v)))"
    let ?p = "pool_page ?k r" and ?s = "set_used ZEROED m v"
    let ?v = "fill_pages ?p 1 0 ?s"
    note le = le[unfolded pool] note run = run[unfolded pool] note m = m[unfolded pool]
    have kp: "kpage ?p" using pool_page_kpage[OF kok] le by simp
    have kv: "kernel_pool ?v = ?k\<lparr>used_map := m\<rparr>" by (simp add: set_used_def ZEROED_def NO_FLAGS_def)
    have fr: "\<not> bitmap_abs (used_map ?k) ! r" using run unfolding is_run_def by (metis add_0_right less_one)
    show ?thesis
    proof (rule that[of ?p ?v])
      show "palloc_get_page table_flags v = Some (?p, ?v)"
        unfolding palloc_get_page_def by (rule palloc_assert) (use get pool kpage_nonzero[OF kp] in simp_all)
      show "?p \<notin> used_pages ?k" using fr le pool_page_inj[OF kok] by (auto simp: used_pages_def)
      show "used_pages (kernel_pool ?v) = insert ?p (used_pages ?k)"
        unfolding kv using used_pages_put[OF kok le m(2,3)] by (simp add: run_pages_def)
      show "vm_ok ?v" using vm_ok_set_used[OF assms(1) m(1), of ZEROED] m(2) pool by simp
      have "{i. i < bit_cnt (used_map ?k) \<and> \<not> bitmap_abs (used_map ?k) ! i} =
          insert r {i. i < bit_cnt m \<and> \<not> bitmap_abs m ! i}" "r \<notin> {i. i < bit_cnt m \<and> \<not> bitmap_abs m ! i}"
        using le fr m(2,3) by (auto simp: nth_put_bytes split: if_splits simp del: nth_bitmap_abs)
      then show "free_cnt v = Suc (free_cnt ?v)" unfolding free_cnt_def kv by simp
    qed (use kp fill_this_page[OF kp] fill_other_page[OF kp] in \<open>simp_all add: fill_pages_def set_used_def ZEROED_def NO_FLAGS_def\<close>)
  qed
qed

section \<open>Kernel addresses\<close>

definition kva :: "nat \<Rightarrow> u32" where
  "kva k = of_nat k * PAGE + PHYS_BASE"

lemma kva_nos:
  assumes "k < 262144"
  shows "ptov (of_nat k * PAGE) = Some (kva k)" "unat (pd_no (kva k)) = 768 + k div 1024" "unat (pt_no (kva k)) = k mod 1024"
    "kpage (kva k)" "vtop (kva k) = Some (of_nat k * PAGE)"
proof -
  have u: "unat (of_nat k * PAGE :: u32) = 4096 * k"
    using assms by (simp add: unat_word_ariths unat_of_nat PAGE_def)
  then have v: "unat (kva k) = 3221225472 + 4096 * k"
    using assms by (simp add: kva_def unat_word_ariths PHYS_BASE_def)
  show "ptov (of_nat k * PAGE) = Some (kva k)" using u assms by (simp add: ptov_def kva_def word_less_nat_alt PHYS_BASE_def)
  show p: "unat (pt_no (kva k)) = k mod 1024" "unat (pd_no (kva k)) = 768 + k div 1024"
    unfolding unat_pt_no unat_pd_no2 v using mod_mult_self2[of k 1024 768] by (simp_all add: add.commute)
  show "kpage (kva k)" using v by (simp add: kpage_unat)
  then show "vtop (kva k) = Some (of_nat k * PAGE)" using kpage_phys(1)[of "kva k"] by (simp add: kva_def)
qed


lemma kva_slots:
  assumes "k < 262144"
  shows "pd_no (kva k) = of_nat (768 + k div 1024)" "pt_no (kva k) = of_nat (k mod 1024)"
proof -
  have "unat (of_nat (768 + k div 1024) :: u32) = 768 + k div 1024" "unat (of_nat (k mod 1024) :: u32) = k mod 1024"
    by (subst unat_of_nat, use assms in simp)+
  then show "pd_no (kva k) = of_nat (768 + k div 1024)" "pt_no (kva k) = of_nat (k mod 1024)"
    using kva_nos(2,3)[OF assms] by (simp_all only: word_unat_eq_iff)
qed

lemma nat_slot:
  assumes "kpage p" "kpage q" "i < 1024" "j < 1024" "p + 4 * of_nat i = q + 4 * (of_nat j :: u32)"
  shows "p = q" "i = j"
proof -
  have l: "(of_nat i :: u32) < 1024" "(of_nat j :: u32) < 1024" using assms(3,4) by (simp_all add: word_less_nat_alt unat_of_nat)
  show "p = q" by (rule slots_apart(1)[OF assms(1,2) l assms(5)])
  have "(of_nat i :: u32) = of_nat j" by (rule slots_apart(2)[OF assms(1,2) l assms(5)])
  then have "unat (of_nat i :: u32) = unat (of_nat j :: u32)" by simp
  then show "i = j" using assms(3,4) by (simp add: unat_of_nat)
qed

section \<open>The loop\<close>

text \<open>The page directory \<open>pd\<close> has the \<open>c\<close> page tables \<open>T 0\<close>, \<open>T 1\<close>, \<dots> from the entry of \<open>PHYS_BASE\<close> on.\<close>

definition tables :: "vmem \<Rightarrow> u32 \<Rightarrow> nat \<Rightarrow> (nat \<Rightarrow> u32) \<Rightarrow> bool" where
  "tables v pd c T \<longleftrightarrow> vm_ok v \<and> kpage pd \<and> pd \<in> used_pages (kernel_pool v) \<and> inj_on T {..<c} \<and>
     (\<forall>i < c. kpage (T i) \<and> T i \<in> used_pages (kernel_pool v) \<and> T i \<noteq> pd) \<and>
     (\<forall>i < 1024. words v (pd + 4 * of_nat i) = (if 768 \<le> i \<and> i < 768 + c then pde_of (T (i - 768)) else 0))"

text \<open>The entry of the page \<open>j\<close>, and that the first \<open>k\<close> pages have theirs.\<close>

definition kernel_pte :: "u32 \<Rightarrow> u32 \<Rightarrow> nat \<Rightarrow> u32" where
  "kernel_pte start end_text j = (of_nat j * PAGE) OR PTE_P OR (if start \<le> kva j \<and> kva j < end_text then 0 else PTE_W)"

definition entered :: "u32 \<Rightarrow> u32 \<Rightarrow> vmem \<Rightarrow> (nat \<Rightarrow> u32) \<Rightarrow> nat \<Rightarrow> bool" where
  "entered start end_text v T k \<longleftrightarrow> (\<forall>j < k. words v (T (j div 1024) + 4 * of_nat (j mod 1024)) = kernel_pte start end_text j)"

lemma kernel_pte_create:
  "k < 262144 \<Longrightarrow> pte_create_kernel (kva k) (\<not> (start \<le> kva k \<and> kva k < end_text)) = Some (kernel_pte start end_text k)"
  using kva_nos(4,5)[of k] by (simp add: pte_create_kernel_def kernel_pte_def kpage_def)

lemma new_table:
  assumes "tables v pd c T" "entered start end_text v T k" "c = k div 1024" "k mod 1024 = 0" "0 < free_cnt v" "c < 256"
  obtains p v1 where "palloc_get_page table_flags v = Some (p, v1)" "pde_create p = Some (pde_of p)"
    "tables (store (pd + 4 * of_nat (768 + c)) (pde_of p) v1) pd (Suc c) (T(c := p))"
    "entered start end_text (store (pd + 4 * of_nat (768 + c)) (pde_of p) v1) (T(c := p)) k"
    "free_cnt v = Suc (free_cnt v1)" "init_page_dir v1 = init_page_dir v"
proof -
  let ?a = "pd + 4 * of_nat (768 + c)"
  have t: "vm_ok v" "kpage pd" "pd \<in> used_pages (kernel_pool v)" "inj_on T {..<c}"
    "\<And>i. i < c \<Longrightarrow> kpage (T i) \<and> T i \<in> used_pages (kernel_pool v) \<and> T i \<noteq> pd"
    "\<And>i. i < 1024 \<Longrightarrow> words v (pd + 4 * of_nat i) = (if 768 \<le> i \<and> i < 768 + c then pde_of (T (i - 768)) else 0)"
    using assms(1) by (simp_all add: tables_def)
  obtain p v1 where p: "palloc_get_page table_flags v = Some (p, v1)" "kpage p" "p \<notin> used_pages (kernel_pool v)"
    "used_pages (kernel_pool v1) = insert p (used_pages (kernel_pool v))" "vm_ok v1" "free_cnt v = Suc (free_cnt v1)"
    "\<And>q j. kpage q \<Longrightarrow> q \<noteq> p \<Longrightarrow> j < 1024 \<Longrightarrow> words v1 (q + 4 * j) = words v (q + 4 * j)" "init_page_dir v1 = init_page_dir v"
    by (rule table_page[OF t(1) assms(5)]) (rule that)
  have pd: "pd \<noteq> p" using t(3) p(3) by blast
  have w: "words v1 (q + 4 * of_nat j) = words v (q + 4 * of_nat j)" if "kpage q" "q \<noteq> p" "j < 1024" for q j
    by (rule p(7)[OF that(1,2)]) (use that(3) in \<open>simp add: word_less_nat_alt unat_of_nat\<close>)
  let ?v = "store ?a (pde_of p) v1"
  have e: "words ?v (pd + 4 * of_nat i) = (if 768 \<le> i \<and> i < 768 + Suc c then pde_of ((T(c := p)) (i - 768)) else 0)" if "i < 1024" for i
  proof (cases "i = 768 + c")
    case False
    then have "pd + 4 * of_nat i \<noteq> ?a" using nat_slot(2)[OF t(2) t(2) that, of "768 + c"] assms(6) by auto
    then have "words ?v (pd + 4 * of_nat i) = words v (pd + 4 * of_nat i)" using w[OF t(2) pd that] by simp
    then show ?thesis using t(6)[OF that] False by auto
  qed simp
  have T: "kpage ((T(c := p)) i) \<and> (T(c := p)) i \<in> used_pages (kernel_pool ?v) \<and> (T(c := p)) i \<noteq> pd" if "i < Suc c" for i
    using that t(5)[of i] p(2,4) pd by (cases "i = c") auto
  have "p \<notin> T ` {..<c}" using t(5) p(3) by auto
  then have "inj_on (T(c := p)) {..<Suc c}"
    using t(4) by (auto simp: inj_on_def lessThan_Suc)
  then have tb: "tables ?v pd (Suc c) (T(c := p))" unfolding tables_def using e T p(4,5) t(2,3) by simp
  have "words ?v ((T(c := p)) (j div 1024) + 4 * of_nat (j mod 1024)) = kernel_pte start end_text j" if j: "j < k" for j
  proof -
    have "k = c * 1024" using assms(3,4) by (metis add_0_right div_mult_mod_eq)
    then have d: "j div 1024 < c" using j by (simp add: less_mult_imp_div_less)
    have m: "j mod 1024 < 1024" by simp
    note T = t(5)[OF d]
    have "T (j div 1024) + 4 * of_nat (j mod 1024) \<noteq> ?a"
      using nat_slot(1)[of "T (j div 1024)" pd "j mod 1024" "768 + c"] T t(2) m assms(6) by auto
    moreover have "T (j div 1024) \<noteq> p" using T p(3) by metis
    ultimately show ?thesis using w[OF _ _ m, of "T (j div 1024)"] T d assms(2) j by (simp add: entered_def)
  qed
  then have en: "entered start end_text ?v (T(c := p)) k" by (simp only: entered_def) blast
  show ?thesis by (rule that[OF p(1) pde_of_ok(1)[OF p(2)] tb en p(6,8)])
qed


lemma store_entry:
  assumes "tables v pd c T" "entered start end_text v T k" "k div 1024 < c" "c \<le> 256"
  defines "v' \<equiv> store (T (k div 1024) + 4 * of_nat (k mod 1024)) (kernel_pte start end_text k) v"
  shows "tables v' pd c T" "entered start end_text v' T (Suc k)"
proof -
  let ?a = "T (k div 1024) + 4 * of_nat (k mod 1024)"
  have t: "vm_ok v" "kpage pd" "inj_on T {..<c}" "\<And>i. i < c \<Longrightarrow> kpage (T i) \<and> T i \<noteq> pd"
    using assms(1) by (simp_all add: tables_def)
  have "pd + 4 * of_nat i \<noteq> ?a" if "i < 1024" for i
    using nat_slot(1)[OF t(2) _ that, of "T (k div 1024)" "k mod 1024"] t(4)[OF assms(3)] by auto
  then show "tables v' pd c T" using assms(1) by (simp add: tables_def v'_def)
  have "words v' (T (j div 1024) + 4 * of_nat (j mod 1024)) = kernel_pte start end_text j" if j: "j < Suc k" for j
  proof (cases "j = k")
    case False
    then have j: "j < k" "j div 1024 < c" using j assms(3) div_le_mono[of j k 1024] by auto
    have "T (j div 1024) + 4 * of_nat (j mod 1024) \<noteq> ?a"
    proof
      assume a: "T (j div 1024) + 4 * of_nat (j mod 1024) = ?a"
      have "T (j div 1024) = T (k div 1024)" "j mod 1024 = k mod 1024"
        using nat_slot[OF _ _ _ _ a] t(4)[OF j(2)] t(4)[OF assms(3)] by auto
      then have "j div 1024 = k div 1024" "j mod 1024 = k mod 1024" using t(3) j(2) assms(3) by (auto dest: inj_onD)
      then show False using False by (metis div_mult_mod_eq)
    qed
    then show ?thesis using assms(2) j(1) by (simp add: v'_def entered_def)
  qed (simp add: v'_def)
  then show "entered start end_text v' T (Suc k)" by (simp only: entered_def) blast
qed

lemma round_up_step:
  fixes k :: nat
  shows "k mod 1024 = 0 \<Longrightarrow> (k + 1023) div 1024 = k div 1024" "k mod 1024 \<noteq> 0 \<Longrightarrow> (k + 1023) div 1024 = Suc (k div 1024)"
    "(Suc k + 1023) div 1024 = Suc (k div 1024)"
proof -
  have "\<exists>q r. k = 1024 * q + r \<and> r < 1024" by (intro exI[of _ "k div 1024"] exI[of _ "k mod 1024"]) simp
  then obtain q r where k: "k = 1024 * q + r" "r < 1024" by blast
  then have d: "k div 1024 = q" "k mod 1024 = r" by simp_all
  show "(k + 1023) div 1024 = k div 1024" if "k mod 1024 = 0"
    unfolding d by (rule div_nat_eqI) (use k that d in simp_all)
  show "(k + 1023) div 1024 = Suc (k div 1024)" if "k mod 1024 \<noteq> 0"
    unfolding d by (rule div_nat_eqI) (use k that d in simp_all)
  show "(Suc k + 1023) div 1024 = Suc (k div 1024)"
    unfolding d by (rule div_nat_eqI) (use k in simp_all)
qed

lemma paging_loop_ok:
  assumes "tables v pd ((k + 1023) div 1024) T" "entered start end_text v T k" "k + n \<le> 262144"
    "(k + n + 1023) div 1024 \<le> (k + 1023) div 1024 + free_cnt v" "k mod 1024 \<noteq> 0 \<longrightarrow> pt = T (k div 1024)"
  shows "\<exists>v' T'. paging_loop start end_text n (of_nat k) pd pt v = Some v' \<and> tables v' pd ((k + n + 1023) div 1024) T' \<and>
    entered start end_text v' T' (k + n) \<and> init_page_dir v' = init_page_dir v"
  using assms
proof (induction n arbitrary: k pt v T)
  case 0
  then show ?case by auto
next
  case (Suc n)
  let ?c = "k div 1024"
  have k: "k < 262144" "?c < 256" using Suc.prems(3) by (auto simp: less_mult_imp_div_less)
  note kv = kva_nos(1)[OF k(1)] kva_slots[OF k(1)] kernel_pte_create[OF k(1), of start end_text]
  define pde where "pde = pd + 4 * of_nat (768 + ?c)"
  obtain pt1 v1 T1 where b: "(if words v pde = 0 then do {
        (pt, v) \<leftarrow> palloc_get_page table_flags v; e \<leftarrow> pde_create pt; Some (pt, store pde e v) } else Some (pt, v)) = Some (pt1, v1)"
      "tables v1 pd (Suc ?c) T1" "entered start end_text v1 T1 k" "pt1 = T1 ?c" "init_page_dir v1 = init_page_dir v"
      "(k + Suc n + 1023) div 1024 \<le> Suc ?c + free_cnt v1"
  proof (cases "k mod 1024 = 0")
    case True
    have r: "(k + 1023) div 1024 = ?c" "Suc ?c \<le> (k + Suc n + 1023) div 1024"
      using round_up_step(1)[OF True] round_up_step(3)[of k] div_le_mono[of "Suc k + 1023" "k + Suc n + 1023" 1024] by simp_all
    have tb: "tables v pd ?c T" using Suc.prems(1) unfolding r(1) .
    have "0 < free_cnt v" using Suc.prems(4) r by linarith
    then obtain p v' where p: "palloc_get_page table_flags v = Some (p, v')" "pde_create p = Some (pde_of p)"
      "tables (store pde (pde_of p) v') pd (Suc ?c) (T(?c := p))" "entered start end_text (store pde (pde_of p) v') (T(?c := p)) k"
      "free_cnt v = Suc (free_cnt v')" "init_page_dir v' = init_page_dir v"
      using new_table[OF tb Suc.prems(2) refl True _ k(2)] unfolding pde_def by metis
    have z: "words v pde = 0" using tb k(2) by (simp add: tables_def pde_def del: of_nat_add)
    have "free_cnt (store pde (pde_of p) v') = free_cnt v'" by (simp add: free_cnt_def)
    then show ?thesis using that[of p "store pde (pde_of p) v'" "T(?c := p)"] p z Suc.prems(4) r(1) by simp
  next
    case False
    have r: "(k + 1023) div 1024 = Suc ?c" by (rule round_up_step(2)[OF False])
    have tb: "tables v pd (Suc ?c) T" using Suc.prems(1) unfolding r .
    have "kpage (T ?c)" using tb by (simp add: tables_def)
    then have "words v pde \<noteq> 0" using tb k(2) pde_of_ok(3) by (simp add: tables_def pde_def del: of_nat_add)
    then show ?thesis using that[of pt v T] Suc.prems(2,4,5) tb False r by simp
  qed
  define v2 where "v2 = store (T1 ?c + 4 * of_nat (k mod 1024)) (kernel_pte start end_text k) v1"
  have s: "tables v2 pd (Suc ?c) T1" "entered start end_text v2 T1 (Suc k)"
    using store_entry[OF b(2,3)] k(2) by (simp_all add: v2_def)
  have f: "free_cnt v2 = free_cnt v1" "init_page_dir v2 = init_page_dir v" using b(5) by (simp_all add: v2_def free_cnt_def)
  have r: "(Suc k + 1023) div 1024 = Suc ?c" by (rule round_up_step(3))
  have "(of_nat k + 1 :: u32) = of_nat (Suc k)" by simp
  then have step: "paging_loop start end_text (Suc n) (of_nat k) pd pt v = paging_loop start end_text n (of_nat (Suc k)) pd pt1 v2"
    unfolding paging_loop.simps Let_def kv pde_def[symmetric] bind.bind_lunit b(1) prod.case b(4) v2_def by (simp only:)
  have pt: "Suc k mod 1024 \<noteq> 0 \<longrightarrow> pt1 = T1 (Suc k div 1024)" using b(4) by (simp add: div_Suc mod_Suc)
  have "\<exists>v' T'. paging_loop start end_text n (of_nat (Suc k)) pd pt1 v2 = Some v' \<and> tables v' pd ((Suc k + n + 1023) div 1024) T' \<and>
    entered start end_text v' T' (Suc k + n) \<and> init_page_dir v' = init_page_dir v2"
    by (rule Suc.IH[OF _ s(2) _ _ pt]) (use s(1) r Suc.prems(3) b(6) f(1) in simp_all)
  then show ?case unfolding step f(2) by simp
qed


text \<open>
  C38: \<open>paging_init\<close> maps all of the memory for the kernel.  If there are enough free pages for the page directory
  and one page table for every 4 MB of the memory of at most 1 GB, it returns; the new page directory is
  the active one and lies on a page that was free.  For every page of memory, the directory
  leads from its kernel virtual address to a page table whose entry is the page's physical address,
  present, and writable except in the kernel's text.  The part for user addresses is empty.
\<close>

theorem paging_init_maps_memory:
  assumes "vm_ok v" "unat (init_ram_pages v) \<le> 262144" "1 + (unat (init_ram_pages v) + 1023) div 1024 \<le> free_cnt v"
  shows "\<exists>v'. paging_init start end_text v = Some v' \<and> cr3 v' = init_page_dir v' - PHYS_BASE \<and>
    init_page_dir v' \<notin> used_pages (kernel_pool v) \<and>
    (\<forall>k < unat (init_ram_pages v). \<exists>pt. pde_get_pt (words v' (init_page_dir v' + 4 * pd_no (kva k))) = Some pt \<and>
       words v' (pt + 4 * pt_no (kva k)) = kernel_pte start end_text k) \<and>
    (\<forall>va. is_user_vaddr va \<longrightarrow> words v' (init_page_dir v' + 4 * pd_no va) = 0)"
proof -
  let ?n = "unat (init_ram_pages v)"
  have "0 < free_cnt v" using assms(3) by linarith
  then obtain pd v1 where p: "palloc_get_page table_flags v = Some (pd, v1)" "kpage pd" "pd \<notin> used_pages (kernel_pool v)"
    "used_pages (kernel_pool v1) = insert pd (used_pages (kernel_pool v))" "vm_ok v1" "free_cnt v = Suc (free_cnt v1)"
    "\<And>j. j < 1024 \<Longrightarrow> words v1 (pd + 4 * j) = 0" "init_ram_pages v1 = init_ram_pages v"
    by (rule table_page[OF assms(1)]) (rule that)
  let ?v1 = "v1\<lparr>init_page_dir := pd\<rparr>"
  have z: "words ?v1 (pd + 4 * of_nat i) = 0" if "i < 1024" for i
    using p(7)[of "of_nat i"] that by (simp add: word_less_nat_alt unat_of_nat)
  have t: "tables ?v1 pd ((0 + 1023) div 1024) (\<lambda>i. 0)"
    using p(2,4,5) z by (auto simp: tables_def vm_ok_def)
  have f: "free_cnt ?v1 = free_cnt v1" by (simp add: free_cnt_def)
  have "\<exists>v' T'. paging_loop start end_text ?n (of_nat 0) pd 0 ?v1 = Some v' \<and> tables v' pd ((0 + ?n + 1023) div 1024) T' \<and>
      entered start end_text v' T' (0 + ?n) \<and> init_page_dir v' = init_page_dir ?v1"
    by (rule paging_loop_ok[OF t]) (use assms(2,3) p(6) f in \<open>simp_all add: entered_def\<close>)
  then obtain v' T where l: "paging_loop start end_text ?n 0 pd 0 ?v1 = Some v'" "tables v' pd ((?n + 1023) div 1024) T"
    "entered start end_text v' T ?n" "init_page_dir v' = pd" by auto
  let ?v = "v'\<lparr>cr3 := pd - PHYS_BASE\<rparr>"
  have r: "paging_init start end_text v = Some ?v"
    using p(1,8) l(1,4) kpage_phys(1)[OF p(2)] by (simp add: paging_init_def)
  have pg: "\<exists>pt. pde_get_pt (words ?v (pd + 4 * pd_no (kva k))) = Some pt \<and> words ?v (pt + 4 * pt_no (kva k)) = kernel_pte start end_text k"
    if k: "k < ?n" for k
  proof -
    have k2: "k < 262144" using k assms(2) by linarith
    have c: "k div 1024 < (?n + 1023) div 1024" using div_le_mono[of "Suc k + 1023" "?n + 1023" 1024] k round_up_step(3)[of k] by simp
    have "k div 1024 < 256" using k2 by (simp add: less_mult_imp_div_less)
    then have "words v' (pd + 4 * pd_no (kva k)) = pde_of (T (k div 1024))" "kpage (T (k div 1024))"
      using l(2) c by (simp_all add: tables_def kva_slots(1)[OF k2] del: of_nat_add)
    then show ?thesis using pde_of_ok(2) l(3) k kva_slots(2)[OF k2] by (simp add: entered_def)
  qed
  have u: "words ?v (pd + 4 * pd_no va) = 0" if "is_user_vaddr va" for va
  proof -
    have i: "unat (pd_no va) < 768" using pd_no_user[OF that] by (simp add: word_less_nat_alt)
    have "\<forall>i < 1024. words v' (pd + 4 * of_nat i) = (if 768 \<le> i \<and> i < 768 + (?n + 1023) div 1024 then pde_of (T (i - 768)) else 0)"
      using l(2) unfolding tables_def by blast
    from this[rule_format, of "unat (pd_no va)"] show ?thesis using i by simp
  qed
  show ?thesis using r p(3) l(4) pg u by auto
qed

theorem paging_init_maps_memory_witness:
  "\<exists>v' pt. paging_init 0xc0020000 0xc0040000 demo_vm = Some v' \<and>
     pde_get_pt (words v' (init_page_dir v' + 4 * pd_no (kva 33))) = Some pt \<and>
     words v' (pt + 4 * pt_no (kva 33)) = kernel_pte 0xc0020000 0xc0040000 33"
proof -
  have n: "unat (init_ram_pages demo_vm) = 1024" by (simp add: demo_vm_def)
  have "{1, 2} \<subseteq> {i. i < 32 \<and> \<not> bitmap_abs (used_map (kernel_pool demo_vm)) ! i}"
    by (simp add: demo_vm_def bit_at_def)
  then have "card {1 :: nat, 2} \<le> free_cnt demo_vm"
    unfolding free_cnt_def by (intro card_mono) (auto simp: demo_vm_def)
  then have "1 + (unat (init_ram_pages demo_vm) + 1023) div 1024 \<le> free_cnt demo_vm" using n by simp
  from paging_init_maps_memory[OF demo_vm_ok _ this, of "0xc0020000" "0xc0040000"] n show ?thesis by auto
qed

end
