(* ===== verification/KUserIO.thy ===== *)
theory KUserIO imports KStdioProps begin

text \<open>
  The output functions of user programs, \<open>lib/user/console.c\<close>.  They format with the same
  \<open>__vprintf\<close> as the kernel and hand the characters to the system call \<open>write\<close> in pieces of up to 64
  bytes; a system call is a pair of the handle and the bytes, in the order in which they are made.
  The results of \<open>write\<close> are not used.
\<close>

section \<open>Output through a buffer\<close>

type_synonym write_calls = "(int \<times> u8 list) list"

definition STDOUT_FILENO :: int where "STDOUT_FILENO = 1"

text \<open>\<open>struct vhprintf_aux\<close>: the bytes of \<open>buf\<close> before \<open>p\<close>, the count, an \<open>int\<close> of 32 bits, and the
  handle; and the calls made so far.\<close>

record vhprintf_aux =
  h_buf :: "u8 list"
  h_char_cnt :: u32
  h_handle :: int
  h_calls :: write_calls

definition BUF_SIZE :: nat where "BUF_SIZE = 64"

definition flush :: "vhprintf_aux \<Rightarrow> vhprintf_aux" where
  "flush aux =
     (let aux = (if h_buf aux \<noteq> [] then aux\<lparr>h_calls := h_calls aux @ [(h_handle aux, h_buf aux)]\<rparr> else aux)
      in aux\<lparr>h_buf := []\<rparr>)"

definition add_char :: "u8 \<Rightarrow> vhprintf_aux \<Rightarrow> vhprintf_aux" where
  "add_char c aux =
     (let aux = aux\<lparr>h_buf := h_buf aux @ [c]\<rparr>;
          aux = (if length (h_buf aux) \<ge> BUF_SIZE then flush aux else aux)
      in aux\<lparr>h_char_cnt := h_char_cnt aux + 1\<rparr>)"

definition vhprintf :: "int \<Rightarrow> addr \<Rightarrow> u32 list \<Rightarrow> memory \<Rightarrow> (u32 \<times> write_calls) option" where
  "vhprintf handle format args m = do {
     aux \<leftarrow> vprintf_to format args m add_char \<lparr>h_buf = [], h_char_cnt = 0, h_handle = handle, h_calls = []\<rparr>;
     let aux = flush aux;
     Some (h_char_cnt aux, h_calls aux)
   }"

definition hprintf :: "int \<Rightarrow> addr \<Rightarrow> u32 list \<Rightarrow> memory \<Rightarrow> (u32 \<times> write_calls) option" where
  "hprintf handle format args m = vhprintf handle format args m"

definition user_vprintf :: "addr \<Rightarrow> u32 list \<Rightarrow> memory \<Rightarrow> (u32 \<times> write_calls) option" where
  "user_vprintf format args m = vhprintf STDOUT_FILENO format args m"

text \<open>\<open>printf\<close> of \<open>lib/stdio.c\<close>, in a user program.\<close>

definition user_printf :: "addr \<Rightarrow> u32 list \<Rightarrow> memory \<Rightarrow> (u32 \<times> write_calls) option" where
  "user_printf format args m = user_vprintf format args m"

section \<open>Characters and lines\<close>

definition user_putchar :: "int \<Rightarrow> int \<times> write_calls" where
  "user_putchar c = (c, [(STDOUT_FILENO, [of_int c])])"

definition user_puts :: "addr \<Rightarrow> memory \<Rightarrow> (int \<times> write_calls) option" where
  "user_puts s m = do {
     n \<leftarrow> strlen s m;
     let (_, calls) = user_putchar 10;
     Some (0, (STDOUT_FILENO, map (\<lambda>i. m (s + i)) [0..<n]) # calls)
   }"

section \<open>What is written\<close>

text \<open>The pieces in which \<open>vhprintf\<close> hands over its output: the buffer is handed over when it is full.\<close>

definition aux_ok :: "int \<Rightarrow> u8 list \<Rightarrow> vhprintf_aux \<Rightarrow> bool" where
  "aux_ok handle out aux \<longleftrightarrow> concat (map snd (h_calls aux)) @ h_buf aux = out \<and> h_char_cnt aux = of_nat (length out) \<and>
     h_handle aux = handle \<and> length (h_buf aux) < BUF_SIZE \<and> (\<forall>c \<in> set (h_calls aux). fst c = handle \<and> length (snd c) = BUF_SIZE)"

lemma add_char_ok: "aux_ok handle out aux \<Longrightarrow> aux_ok handle (out @ [c]) (add_char c aux)"
  by (auto simp: aux_ok_def add_char_def flush_def Let_def)

lemma add_chars_ok: "aux_ok handle out aux \<Longrightarrow> aux_ok handle (out @ cs) (fold add_char cs aux)"
proof (induction cs arbitrary: out aux)
  case (Cons c cs)
  show ?case using Cons.IH[OF add_char_ok[OF Cons.prems]] by simp
qed simp

text \<open>
  C39: The formatted output of a user program reaches \<open>write\<close> complete and in order.  Whenever the
  formatting succeeds, \<open>vhprintf\<close> returns the number of the characters, exactly if an \<open>int\<close> holds it and
  wrapped around otherwise; the bytes of its calls of
  \<open>write\<close>, one after the other, are the formatted characters; every call names the handle and hands over
  64 bytes, only the last one possibly fewer; and without output there is no call.
\<close>

theorem vhprintf_writes_output:
  assumes "vprintf_loop format m args m = Some out"
  shows "\<exists>calls. vhprintf handle format args m = Some (of_nat (length out), calls) \<and>
    (length out < 2 ^ 31 \<longrightarrow> sint (of_nat (length out) :: u32) = int (length out)) \<and>
    concat (map snd calls) = out \<and> length calls = (length out + 63) div 64 \<and>
    (\<forall>c \<in> set calls. fst c = handle \<and> snd c \<noteq> [] \<and> length (snd c) \<le> 64) \<and>
    (\<forall>c \<in> set (butlast calls). length (snd c) = 64)"
proof -
  let ?aux0 = "\<lparr>h_buf = [], h_char_cnt = 0, h_handle = handle, h_calls = []\<rparr>"
  define aux where "aux = fold add_char out ?aux0"
  have "aux_ok handle [] ?aux0" by (simp add: aux_ok_def BUF_SIZE_def)
  from add_chars_ok[OF this, of out] have a: "aux_ok handle out aux" by (simp add: aux_def)
  have v: "vhprintf handle format args m = Some (h_char_cnt (flush aux), h_calls (flush aux))"
    using assms by (simp add: vhprintf_def vprintf_to_def aux_def Let_def)
  have full: "length (concat (map snd cs)) = 64 * length cs" if "\<forall>c \<in> set cs. length (snd c) = 64" for cs :: write_calls
    using that by (induction cs) auto
  have len: "length out = 64 * length (h_calls aux) + length (h_buf aux)" "length (h_buf aux) < 64"
    using a full[of "h_calls aux"] by (auto simp: aux_ok_def BUF_SIZE_def)
  then have "(length out + 63) div 64 = length (h_calls aux) + (if h_buf aux = [] then 0 else 1)"
    by (intro div_nat_eqI) (auto simp: Suc_le_eq)
  then have "length (h_calls (flush aux)) = (length out + 63) div 64"
    by (simp add: flush_def Let_def)
  moreover have "sint (of_nat (length out) :: u32) = int (length out)" if "length out < 2 ^ 31"
    using that by (rule sint_of_nat_small)
  ultimately show ?thesis
    using a unfolding v by (auto simp: aux_ok_def flush_def Let_def BUF_SIZE_def dest: in_set_butlastD)
qed


theorem vhprintf_writes_output_witness:
  "\<exists>calls. vhprintf 1 1 [] (literal ''a'') = Some (1, calls) \<and> concat (map snd calls) = [97]"
proof -
  have "vprintf_loop 1 (literal ''a'') [] (literal ''a'') = Some [97]"
    by (subst vprintf_loop.simps, subst vprintf_loop.simps) (simp add: literal_def)
  from vhprintf_writes_output[OF this, of 1] show ?thesis by auto
qed

end
