(* ===== verification/KMmAlloc.thy ===== *)
theory KMmAlloc imports OS_Prelude begin

unbundle bit_operations_syntax

text \<open>
  The allocator of the first homework, \<open>HW1/code/mm_alloc.c\<close>: a doubly linked list of blocks, each
  with a header of 40 bytes in front of it.  It is written for a 64-bit machine: pointers and sizes are
  64-bit words in a byte memory.  \<open>None\<close> is the end of the process: an access through a null pointer,
  a call of \<open>exit\<close>, or a loop that does not end.
\<close>

section \<open>Memory and headers\<close>

record mm =
  mm_mem :: "u64 \<Rightarrow> u8"
  HeadPtr :: u64
  BrkPtr :: u64
  mm_stack :: u64

fun load_le :: "nat \<Rightarrow> u64 \<Rightarrow> mm \<Rightarrow> u64" where
  "load_le 0 p st = 0"
| "load_le (Suc n) p st = ucast (mm_mem st p) OR push_bit 8 (load_le n (p + 1) st)"

fun store_le :: "nat \<Rightarrow> u64 \<Rightarrow> u64 \<Rightarrow> mm \<Rightarrow> mm" where
  "store_le 0 p w st = st"
| "store_le (Suc n) p w st = store_le n (p + 1) (drop_bit 8 w) (st\<lparr>mm_mem := (mm_mem st)(p := ucast w)\<rparr>)"

text \<open>The members of \<open>struct s_block\<close>: their offsets and sizes.\<close>

datatype member = M_size | M_next | M_prev | M_free | M_block

fun member_at :: "member \<Rightarrow> u64 \<times> nat" where
  "member_at M_size = (0, 8)"
| "member_at M_next = (8, 8)"
| "member_at M_prev = (16, 8)"
| "member_at M_free = (24, 4)"
| "member_at M_block = (32, 8)"

definition S_BLOCK_SIZE :: u64 where "S_BLOCK_SIZE = 40"

definition get_m :: "member \<Rightarrow> u64 \<Rightarrow> mm \<Rightarrow> u64 option" where
  "get_m f b st = do { ASSERT (b \<noteq> 0); let (ofs, n) = member_at f; Some (load_le n (b + ofs) st) }"

definition set_m :: "member \<Rightarrow> u64 \<Rightarrow> u64 \<Rightarrow> mm \<Rightarrow> mm option" where
  "set_m f b w st = do { ASSERT (b \<noteq> 0); let (ofs, n) = member_at f; Some (store_le n (b + ofs) w st) }"

section \<open>Operations\<close>

definition sbrk :: "u64 \<Rightarrow> mm \<Rightarrow> u64 \<times> mm" where
  "sbrk sz st = (if sz = 0 then (BrkPtr st, st) else (BrkPtr st, st\<lparr>BrkPtr := BrkPtr st + sz\<rparr>))"

definition extend_heap :: "u64 \<Rightarrow> u64 \<Rightarrow> mm \<Rightarrow> (u64 \<times> mm) option" where
  "extend_heap last_b s st = do {
     let (p, st) = sbrk (s + S_BLOCK_SIZE) st;
     let p = (if BrkPtr st - mm_stack st <s 0 then HeadPtr st else - 1);
     if \<not> p = - 1 then do {
       let newBlock = p;
       st \<leftarrow> (if last_b \<noteq> 0 then set_m M_next last_b newBlock st else Some (st\<lparr>HeadPtr := newBlock\<rparr>));
       st \<leftarrow> set_m M_prev newBlock last_b st;
       st \<leftarrow> set_m M_next newBlock 0 st;
       st \<leftarrow> set_m M_size newBlock s st;
       st \<leftarrow> set_m M_block newBlock (p + S_BLOCK_SIZE) st;
       st \<leftarrow> set_m M_free newBlock 0 st;
       blk \<leftarrow> get_m M_block newBlock st;
       sz \<leftarrow> get_m M_size newBlock st;
       ASSERT (BrkPtr st \<noteq> 0);
       Some (newBlock, st\<lparr>mm_mem := (mm_mem st)(BrkPtr st := ucast (blk + sz))\<rparr>)
     }
     else Some (0, st)
   }"

partial_function (option) get_block_loop :: "u64 \<Rightarrow> u64 \<Rightarrow> mm \<Rightarrow> u64 option" where
  "get_block_loop p head st =
     (if head \<noteq> 0 then do {
        b \<leftarrow> get_m M_block head st;
        if b = p then Some head
        else do { next_b \<leftarrow> get_m M_next head st; get_block_loop p next_b st }
      }
      else Some 0)"

definition get_block :: "u64 \<Rightarrow> mm \<Rightarrow> u64 option" where
  "get_block p st = get_block_loop p (HeadPtr st) st"

definition fusion :: "u64 \<Rightarrow> mm \<Rightarrow> (u64 \<times> mm) option" where
  "fusion b st = do {
     n \<leftarrow> get_m M_next b st;
     n_free \<leftarrow> get_m M_free n st;
     st \<leftarrow> (if n_free = 1 then do {
         sz \<leftarrow> get_m M_size b st;
         n_sz \<leftarrow> get_m M_size n st;
         st \<leftarrow> set_m M_size b (sz + S_BLOCK_SIZE + n_sz) st;
         n \<leftarrow> get_m M_next b st;
         nn \<leftarrow> get_m M_next n st;
         st \<leftarrow> set_m M_next b nn st;
         n \<leftarrow> get_m M_next b st;
         set_m M_prev n b st
       } else Some st);
     q \<leftarrow> get_m M_prev b st;
     q_free \<leftarrow> get_m M_free q st;
     if q_free = 1 then do {
       n \<leftarrow> get_m M_next b st;
       st \<leftarrow> set_m M_next q n st;
       n \<leftarrow> get_m M_next b st;
       q \<leftarrow> get_m M_prev b st;
       st \<leftarrow> set_m M_prev n q st;
       q \<leftarrow> get_m M_prev b st;
       f \<leftarrow> get_m M_free b st;
       st \<leftarrow> set_m M_free q f st;
       q \<leftarrow> get_m M_prev b st;
       q_sz \<leftarrow> get_m M_size q st;
       sz \<leftarrow> get_m M_size b st;
       st \<leftarrow> set_m M_size q (q_sz + S_BLOCK_SIZE + sz) st;
       q \<leftarrow> get_m M_prev b st;
       Some (q, st)
     }
     else Some (b, st)
   }"

definition mm_free :: "u64 \<Rightarrow> mm \<Rightarrow> mm option" where
  "mm_free p st = do {
     curr \<leftarrow> get_block p st;
     if curr \<noteq> 0 then do {
       n \<leftarrow> get_m M_next curr st;
       if n = 0 then do {
         q \<leftarrow> get_m M_prev curr st;
         st \<leftarrow> (if q \<noteq> 0 then set_m M_next q 0 st else Some (st\<lparr>HeadPtr := 0\<rparr>));
         sz \<leftarrow> get_m M_size curr st;
         let (_, st) = sbrk (- (sz + S_BLOCK_SIZE)) st;
         Some st
       }
       else do {
         st \<leftarrow> set_m M_free curr 1 st;
         (_, st) \<leftarrow> fusion curr st;
         Some st
       }
     }
     else Some st
   }"

text \<open>\<open>sizeof (void *)\<close> is 8.\<close>

definition split_block :: "u64 \<Rightarrow> u64 \<Rightarrow> mm \<Rightarrow> mm option" where
  "split_block b s st =
     (if b \<noteq> 0 \<and> s \<ge> 8 then do {
        sz \<leftarrow> get_m M_size b st;
        if sz - s \<ge> S_BLOCK_SIZE + 8 then do {
          blk \<leftarrow> get_m M_block b st;
          let newP = blk + s;
          n \<leftarrow> get_m M_next b st;
          st \<leftarrow> set_m M_next newP n st;
          n \<leftarrow> get_m M_next newP st;
          st \<leftarrow> set_m M_prev n newP st;
          st \<leftarrow> set_m M_next b newP st;
          st \<leftarrow> set_m M_prev newP b st;
          sz \<leftarrow> get_m M_size b st;
          st \<leftarrow> set_m M_size newP (sz - s - S_BLOCK_SIZE) st;
          st \<leftarrow> set_m M_size b s st;
          blk \<leftarrow> get_m M_block b st;
          st \<leftarrow> set_m M_block newP (blk + s + S_BLOCK_SIZE) st;
          nblk \<leftarrow> get_m M_block newP st;
          mm_free nblk st
        }
        else Some st
      }
      else Some st)"

text \<open>The loop counter of \<open>mem_copy\<close> is an \<open>int\<close>, and the bound is read again in every round.\<close>

partial_function (option) mem_copy_loop :: "u64 \<Rightarrow> u64 \<Rightarrow> u64 \<Rightarrow> int \<Rightarrow> mm \<Rightarrow> mm option" where
  "mem_copy_loop oldB oStart nStart i st = do {
     sz \<leftarrow> get_m M_size oldB st;
     if of_int i < sz then do {
       ASSERT (i < 2 ^ 31 - 1);
       mem_copy_loop oldB oStart nStart (i + 1)
         (st\<lparr>mm_mem := (mm_mem st)(nStart + of_int i := mm_mem st (oStart + of_int i))\<rparr>)
     }
     else Some st
   }"

definition mem_copy :: "u64 \<Rightarrow> u64 \<Rightarrow> mm \<Rightarrow> (u64 \<times> mm) option" where
  "mem_copy oldB newB st =
     (if oldB \<noteq> 0 \<and> newB \<noteq> 0 then do {
        oStart \<leftarrow> get_m M_block oldB st;
        nStart \<leftarrow> get_m M_block newB st;
        st \<leftarrow> mem_copy_loop oldB oStart nStart 0 st;
        blk \<leftarrow> get_m M_block newB st;
        Some (blk, st)
      }
      else Some (0, st))"

text \<open>
  \<open>mm_malloc\<close> and \<open>mm_realloc\<close> call each other.  \<open>mm_call\<close> is both: with \<open>None\<close> it is the loop of
  \<open>mm_malloc\<close> at \<open>head\<close> after \<open>prev\<close>, with \<open>Some ptr\<close> the call of \<open>mm_realloc\<close> for \<open>ptr\<close>.
\<close>

partial_function (option) mm_call :: "u64 option \<Rightarrow> u64 \<Rightarrow> u64 \<Rightarrow> u64 \<Rightarrow> mm \<Rightarrow> (u64 \<times> mm) option" where
  "mm_call target head prev size' st = (case target of
     None \<Rightarrow>
       if head \<noteq> 0 then do {
         f \<leftarrow> get_m M_free head st;
         sz \<leftarrow> get_m M_size head st;
         if f = 1 \<and> sz \<ge> size' then do {
           blk \<leftarrow> get_m M_block head st;
           (_, st) \<leftarrow> mm_call (Some blk) 0 0 size' st;
           st \<leftarrow> set_m M_free head 0 st;
           blk \<leftarrow> get_m M_block head st;
           Some (blk, st)
         }
         else do { n \<leftarrow> get_m M_next head st; mm_call None n head size' st }
       }
       else do {
         (h, st) \<leftarrow> extend_heap prev size' st;
         ASSERT (h \<noteq> 0);
         blk \<leftarrow> get_m M_block h st;
         Some (blk, st)
       }
   | Some ptr \<Rightarrow> do {
       curr \<leftarrow> get_block ptr st;
       if curr \<noteq> 0 then do {
         sz \<leftarrow> get_m M_size curr st;
         if size' > sz then do {
           (p, st) \<leftarrow> mm_call None (HeadPtr st) 0 size' st;
           newP \<leftarrow> get_block p st;
           if newP \<noteq> 0 then do {
             (p, st) \<leftarrow> mem_copy curr newP st;
             blk \<leftarrow> get_m M_block curr st;
             st \<leftarrow> mm_free blk st;
             Some (p, st)
           }
           else Some (0, st)
         }
         else if size' < sz then do {
           st \<leftarrow> split_block curr size' st;
           blk \<leftarrow> get_m M_block curr st;
           Some (blk, st)
         }
         else do { blk \<leftarrow> get_m M_block curr st; Some (blk, st) }
       }
       else Some (0, st)
     })"

definition mm_malloc :: "u64 \<Rightarrow> mm \<Rightarrow> (u64 \<times> mm) option" where
  "mm_malloc size' st = mm_call None (HeadPtr st) 0 size' st"

definition mm_realloc :: "u64 \<Rightarrow> u64 \<Rightarrow> mm \<Rightarrow> (u64 \<times> mm) option" where
  "mm_realloc ptr size' st = mm_call (Some ptr) 0 0 size' st"

section \<open>The allocator does not work\<close>

lemma extend_heap_first: "HeadPtr st = 0 \<Longrightarrow> extend_heap 0 s st = None \<or> (\<exists>st'. extend_heap 0 s st = Some (0, st'))"
  by (auto simp: extend_heap_def sbrk_def set_m_def Let_def)

text \<open>
  C40: The first homework's allocator never returns a block.  From an empty heap, which is how it starts, every
  call of \<open>mm_malloc\<close> ends the process, whatever the size, the break and the stack: \<open>extend_heap\<close> puts the
  new block at \<open>HeadPtr\<close>, which is null, or reports failure.  \<open>mm_free\<close> and \<open>mm_realloc\<close> find no block there
  and leave the heap empty.
\<close>

theorem mm_malloc_never_returns:
  assumes "HeadPtr st = 0"
  shows "mm_malloc size' st = None \<and> mm_realloc p size' st = Some (0, st) \<and> mm_free p st = Some st"
proof (intro conjI)
  have g: "get_block p st = Some 0" by (subst get_block_def, subst get_block_loop.simps) (simp add: assms)
  show "mm_free p st = Some st" using g by (simp add: mm_free_def)
  show "mm_realloc p size' st = Some (0, st)" unfolding mm_realloc_def by (subst mm_call.simps) (simp add: g)
  show "mm_malloc size' st = None"
    unfolding mm_malloc_def assms
    by (subst mm_call.simps) (use extend_heap_first[OF assms, of size'] in \<open>auto simp: get_m_def\<close>)
qed


theorem mm_malloc_never_returns_witness:
  "mm_malloc 16 \<lparr>mm_mem = (\<lambda>a. 0), HeadPtr = 0, BrkPtr = 0x100000, mm_stack = 0x200000\<rparr> = None"
  using mm_malloc_never_returns[of "\<lparr>mm_mem = (\<lambda>a. 0), HeadPtr = 0, BrkPtr = 0x100000, mm_stack = 0x200000\<rparr>" 16 0] by simp

end
