(* ===== verification/KIde.thy ===== *)
theory KIde imports KPartition KPrintf begin

unbundle bit_operations_syntax

text \<open>
  The disk driver, \<open>devices/ide.c\<close>.  The controller is not part of the program: it is the parameter
  \<open>hw\<close>, whose functions say what a read of a port delivers, how an access and the passing of time
  change the controller, and whether it has requested an interrupt since it was asked last.  The
  driver's thread is followed alone, since it holds the lock of the channel; an interrupt
  that the controller requests is handled after the access or the delay in which it arises, and while
  the thread waits for the semaphore.  \<open>None\<close> is a failed assertion, a panic, or a wait without end.
\<close>

section \<open>State\<close>

record 'c hardware =
  in8 :: "u16 \<Rightarrow> 'c \<Rightarrow> u8 \<times> 'c"
  in16 :: "u16 \<Rightarrow> 'c \<Rightarrow> u16 \<times> 'c"
  out8 :: "u16 \<Rightarrow> u8 \<Rightarrow> 'c \<Rightarrow> 'c"
  out16 :: "u16 \<Rightarrow> u16 \<Rightarrow> 'c \<Rightarrow> 'c"
  pass_ns :: "nat \<Rightarrow> 'c \<Rightarrow> 'c"
  take_request :: "'c \<Rightarrow> u8 option \<times> 'c"

text \<open>A disk is named by the numbers of its channel and of itself on the channel, its \<open>dev_no\<close>.\<close>

type_synonym disk_id = "nat \<times> nat"

record ata_disk =
  d_name :: string
  is_ata :: bool

record ata_channel =
  c_name :: string
  reg_base :: u16
  c_irq :: u8
  c_locked :: bool
  expecting_interrupt :: bool
  completion_wait :: nat
  c_devices :: "ata_disk list"

record 'c ide =
  channels :: "ata_channel list"
  controller :: 'c
  intr_on :: bool
  ide_handlers :: "u8 list"
  ide_out :: "u8 list"
  ide_blocks :: pscan

definition reg_data :: "ata_channel \<Rightarrow> u16" where "reg_data c = reg_base c + 0"
definition reg_error :: "ata_channel \<Rightarrow> u16" where "reg_error c = reg_base c + 1"
definition reg_nsect :: "ata_channel \<Rightarrow> u16" where "reg_nsect c = reg_base c + 2"
definition reg_lbal :: "ata_channel \<Rightarrow> u16" where "reg_lbal c = reg_base c + 3"
definition reg_lbam :: "ata_channel \<Rightarrow> u16" where "reg_lbam c = reg_base c + 4"
definition reg_lbah :: "ata_channel \<Rightarrow> u16" where "reg_lbah c = reg_base c + 5"
definition reg_device :: "ata_channel \<Rightarrow> u16" where "reg_device c = reg_base c + 6"
definition reg_status :: "ata_channel \<Rightarrow> u16" where "reg_status c = reg_base c + 7"
definition reg_command :: "ata_channel \<Rightarrow> u16" where "reg_command c = reg_status c"
definition reg_ctl :: "ata_channel \<Rightarrow> u16" where "reg_ctl c = reg_base c + 0x206"
definition reg_alt_status :: "ata_channel \<Rightarrow> u16" where "reg_alt_status c = reg_ctl c"

definition STA_BSY :: u8 where "STA_BSY = 0x80"
definition STA_DRDY :: u8 where "STA_DRDY = 0x40"
definition STA_DRQ :: u8 where "STA_DRQ = 0x08"
definition CTL_SRST :: u8 where "CTL_SRST = 0x04"
definition DEV_MBS :: u8 where "DEV_MBS = 0xa0"
definition DEV_LBA :: u8 where "DEV_LBA = 0x40"
definition DEV_DEV :: u8 where "DEV_DEV = 0x10"
definition CMD_IDENTIFY_DEVICE :: u8 where "CMD_IDENTIFY_DEVICE = 0xec"
definition CMD_READ_SECTOR_RETRY :: u8 where "CMD_READ_SECTOR_RETRY = 0x20"
definition CMD_WRITE_SECTOR_RETRY :: u8 where "CMD_WRITE_SECTOR_RETRY = 0x30"
definition CHANNEL_CNT :: nat where "CHANNEL_CNT = 2"

definition get_channel :: "nat \<Rightarrow> 'c ide \<Rightarrow> ata_channel option" where
  "get_channel c st = (if c < length (channels st) then Some (channels st ! c) else None)"

definition put_channel :: "nat \<Rightarrow> ata_channel \<Rightarrow> 'c ide \<Rightarrow> 'c ide" where
  "put_channel c ch st = st\<lparr>channels := (channels st)[c := ch]\<rparr>"

definition set_is_ata :: "bool \<Rightarrow> disk_id \<Rightarrow> 'c ide \<Rightarrow> 'c ide option" where
  "set_is_ata v d st = do {
     ch \<leftarrow> get_channel (fst d) st;
     ASSERT (snd d < length (c_devices ch));
     let x = c_devices ch ! snd d;
     Some (put_channel (fst d) (ch\<lparr>c_devices := (c_devices ch)[snd d := x\<lparr>is_ata := v\<rparr>]\<rparr>) st)
   }"

definition name_of :: "disk_id \<Rightarrow> 'c ide \<Rightarrow> string" where
  "name_of d st = d_name (c_devices (channels st ! fst d) ! snd d)"

definition ide_print :: "string \<Rightarrow> 'c ide \<Rightarrow> 'c ide" where
  "ide_print s st = st\<lparr>ide_out := ide_out st @ map byte s\<rparr>"

definition LINE_END :: string where "LINE_END = [CHR 0x0a]"

section \<open>Interrupts\<close>

text \<open>The interrupt handler; the loop over the channels finds the first with the vector.\<close>

fun channel_of_irq :: "u8 \<Rightarrow> nat \<Rightarrow> ata_channel list \<Rightarrow> nat option" where
  "channel_of_irq vec_no i [] = None"
| "channel_of_irq vec_no i (c # cs) = (if vec_no = c_irq c then Some i else channel_of_irq vec_no (Suc i) cs)"

definition interrupt_handler :: "'c hardware \<Rightarrow> u8 \<Rightarrow> 'c ide \<Rightarrow> 'c ide option" where
  "interrupt_handler hw vec_no st = do {
     c \<leftarrow> channel_of_irq vec_no 0 (channels st);
     ch \<leftarrow> get_channel c st;
     if expecting_interrupt ch then do {
       let (_, hwst) = in8 hw (reg_status ch) (controller st);
       Some (put_channel c (ch\<lparr>completion_wait := completion_wait ch + 1\<rparr>) (st\<lparr>controller := hwst\<rparr>))
     }
     else Some (ide_print (c_name ch @ '': unexpected interrupt'' @ LINE_END) st)
   }"

text \<open>The controller's request, if there is one, interrupts the driver when interrupts are on.\<close>

definition serve_interrupt :: "'c hardware \<Rightarrow> 'c ide \<Rightarrow> 'c ide option" where
  "serve_interrupt hw st =
     (if intr_on st then do {
        let (r, hwst) = take_request hw (controller st);
        let st = st\<lparr>controller := hwst\<rparr>;
        (case r of None \<Rightarrow> Some st | Some vec_no \<Rightarrow> interrupt_handler hw vec_no st)
      }
      else Some st)"

definition ide_inb :: "'c hardware \<Rightarrow> u16 \<Rightarrow> 'c ide \<Rightarrow> (u8 \<times> 'c ide) option" where
  "ide_inb hw port st = do {
     let (v, hwst) = in8 hw port (controller st);
     st \<leftarrow> serve_interrupt hw (st\<lparr>controller := hwst\<rparr>);
     Some (v, st)
   }"

definition ide_outb :: "'c hardware \<Rightarrow> u16 \<Rightarrow> u8 \<Rightarrow> 'c ide \<Rightarrow> 'c ide option" where
  "ide_outb hw port v st = serve_interrupt hw (st\<lparr>controller := out8 hw port v (controller st)\<rparr>)"

text \<open>\<open>timer_nsleep\<close>, \<open>timer_usleep\<close> and \<open>timer_msleep\<close>, which need interrupts to be on.\<close>

definition ide_nsleep :: "'c hardware \<Rightarrow> nat \<Rightarrow> 'c ide \<Rightarrow> 'c ide option" where
  "ide_nsleep hw ns st = do {
     ASSERT (intr_on st);
     serve_interrupt hw (st\<lparr>controller := pass_ns hw ns (controller st)\<rparr>)
   }"

definition ide_usleep :: "'c hardware \<Rightarrow> nat \<Rightarrow> 'c ide \<Rightarrow> 'c ide option" where
  "ide_usleep hw us st = ide_nsleep hw (1000 * us) st"

definition ide_msleep :: "'c hardware \<Rightarrow> nat \<Rightarrow> 'c ide \<Rightarrow> 'c ide option" where
  "ide_msleep hw ms st = ide_nsleep hw (1000000 * ms) st"

text \<open>\<open>sema_down\<close> on \<open>completion_wait\<close>: while the thread is blocked, time passes and interrupts come.\<close>

partial_function (option) wait_completion :: "'c hardware \<Rightarrow> nat \<Rightarrow> 'c ide \<Rightarrow> 'c ide option" where
  "wait_completion hw c st = do {
     ch \<leftarrow> get_channel c st;
     if completion_wait ch > 0
     then Some (put_channel c (ch\<lparr>completion_wait := completion_wait ch - 1\<rparr>) st)
     else do { st \<leftarrow> ide_nsleep hw 1000 st; wait_completion hw c st }
   }"

definition channel_acquire :: "nat \<Rightarrow> 'c ide \<Rightarrow> 'c ide option" where
  "channel_acquire c st = do {
     ch \<leftarrow> get_channel c st;
     ASSERT (\<not> c_locked ch);
     Some (put_channel c (ch\<lparr>c_locked := True\<rparr>) st)
   }"

definition channel_release :: "nat \<Rightarrow> 'c ide \<Rightarrow> 'c ide option" where
  "channel_release c st = do {
     ch \<leftarrow> get_channel c st;
     ASSERT (c_locked ch);
     Some (put_channel c (ch\<lparr>c_locked := False\<rparr>) st)
   }"

section \<open>Low-level primitives\<close>

text \<open>The loop of \<open>wait_until_idle\<close> with \<open>n\<close> rounds left.\<close>

fun idle_wait_loop :: "'c hardware \<Rightarrow> nat \<Rightarrow> disk_id \<Rightarrow> 'c ide \<Rightarrow> 'c ide option" where
  "idle_wait_loop hw 0 d st = Some (ide_print (name_of d st @ '': idle timeout'' @ LINE_END) st)"
| "idle_wait_loop hw (Suc n) d st = do {
     ch \<leftarrow> get_channel (fst d) st;
     (s, st) \<leftarrow> ide_inb hw (reg_status ch) st;
     if s AND (STA_BSY OR STA_DRQ) = 0 then Some st
     else do { st \<leftarrow> ide_usleep hw 10 st; idle_wait_loop hw n d st }
   }"

definition wait_until_idle :: "'c hardware \<Rightarrow> disk_id \<Rightarrow> 'c ide \<Rightarrow> 'c ide option" where
  "wait_until_idle hw d st = idle_wait_loop hw 1000 d st"

text \<open>The loop of \<open>wait_while_busy\<close> with \<open>n\<close> of its 3000 rounds left.\<close>

fun busy_loop :: "'c hardware \<Rightarrow> nat \<Rightarrow> disk_id \<Rightarrow> 'c ide \<Rightarrow> (bool \<times> 'c ide) option" where
  "busy_loop hw 0 d st = Some (False, ide_print (''failed'' @ LINE_END) st)"
| "busy_loop hw (Suc n) d st = do {
     let i = 2999 - n;
     let st = (if i = 700 then ide_print (name_of d st @ '': busy, waiting...'') st else st);
     ch \<leftarrow> get_channel (fst d) st;
     (s, st) \<leftarrow> ide_inb hw (reg_alt_status ch) st;
     if s AND STA_BSY = 0 then do {
       let st = (if i \<ge> 700 then ide_print (''ok'' @ LINE_END) st else st);
       (s, st) \<leftarrow> ide_inb hw (reg_alt_status ch) st;
       Some (s AND STA_DRQ \<noteq> 0, st)
     }
     else do { st \<leftarrow> ide_msleep hw 10 st; busy_loop hw n d st }
   }"

definition wait_while_busy :: "'c hardware \<Rightarrow> disk_id \<Rightarrow> 'c ide \<Rightarrow> (bool \<times> 'c ide) option" where
  "wait_while_busy hw d st = busy_loop hw 3000 d st"

definition select_device :: "'c hardware \<Rightarrow> disk_id \<Rightarrow> 'c ide \<Rightarrow> 'c ide option" where
  "select_device hw d st = do {
     ch \<leftarrow> get_channel (fst d) st;
     let dev = DEV_MBS;
     let dev = (if snd d = 1 then dev OR DEV_DEV else dev);
     st \<leftarrow> ide_outb hw (reg_device ch) dev st;
     (_, st) \<leftarrow> ide_inb hw (reg_alt_status ch) st;
     ide_nsleep hw 400 st
   }"

definition select_device_wait :: "'c hardware \<Rightarrow> disk_id \<Rightarrow> 'c ide \<Rightarrow> 'c ide option" where
  "select_device_wait hw d st = do {
     st \<leftarrow> wait_until_idle hw d st;
     st \<leftarrow> select_device hw d st;
     wait_until_idle hw d st
   }"

definition select_sector :: "'c hardware \<Rightarrow> disk_id \<Rightarrow> u32 \<Rightarrow> 'c ide \<Rightarrow> 'c ide option" where
  "select_sector hw d sec_no st = do {
     ASSERT (sec_no < push_bit 28 1);
     st \<leftarrow> select_device_wait hw d st;
     ch \<leftarrow> get_channel (fst d) st;
     st \<leftarrow> ide_outb hw (reg_nsect ch) 1 st;
     st \<leftarrow> ide_outb hw (reg_lbal ch) (ucast sec_no) st;
     st \<leftarrow> ide_outb hw (reg_lbam ch) (ucast (drop_bit 8 sec_no)) st;
     st \<leftarrow> ide_outb hw (reg_lbah ch) (ucast (drop_bit 16 sec_no)) st;
     ide_outb hw (reg_device ch)
       (DEV_MBS OR DEV_LBA OR (if snd d = 1 then DEV_DEV else 0) OR ucast (drop_bit 24 sec_no)) st
   }"

definition issue_pio_command :: "'c hardware \<Rightarrow> nat \<Rightarrow> u8 \<Rightarrow> 'c ide \<Rightarrow> 'c ide option" where
  "issue_pio_command hw c command st = do {
     ASSERT (intr_on st);
     ch \<leftarrow> get_channel c st;
     let st = put_channel c (ch\<lparr>expecting_interrupt := True\<rparr>) st;
     ide_outb hw (reg_command ch) command st
   }"

text \<open>\<open>insw\<close> and \<open>outsw\<close>: words are little-endian.\<close>

fun insw :: "'c hardware \<Rightarrow> u16 \<Rightarrow> nat \<Rightarrow> 'c \<Rightarrow> u8 list \<times> 'c" where
  "insw hw port 0 c = ([], c)"
| "insw hw port (Suc n) c =
     (let (w, c) = in16 hw port c; (bs, c) = insw hw port n c in (ucast w # ucast (drop_bit 8 w) # bs, c))"

fun outsw :: "'c hardware \<Rightarrow> u16 \<Rightarrow> nat \<Rightarrow> u8 list \<Rightarrow> 'c \<Rightarrow> 'c" where
  "outsw hw port 0 bs c = c"
| "outsw hw port (Suc n) bs c =
     outsw hw port n (drop 2 bs) (out16 hw port (ucast (bs ! 0) OR push_bit 8 (ucast (bs ! 1))) c)"

definition input_sector :: "'c hardware \<Rightarrow> nat \<Rightarrow> 'c ide \<Rightarrow> (u8 list \<times> 'c ide) option" where
  "input_sector hw c st = do {
     ch \<leftarrow> get_channel c st;
     let (sector, hwst) = insw hw (reg_data ch) (BLOCK_SECTOR_SIZE div 2) (controller st);
     st \<leftarrow> serve_interrupt hw (st\<lparr>controller := hwst\<rparr>);
     Some (sector, st)
   }"

definition output_sector :: "'c hardware \<Rightarrow> nat \<Rightarrow> u8 list \<Rightarrow> 'c ide \<Rightarrow> 'c ide option" where
  "output_sector hw c sector st = do {
     ch \<leftarrow> get_channel c st;
     ASSERT (length sector = BLOCK_SECTOR_SIZE);
     serve_interrupt hw
       (st\<lparr>controller := outsw hw (reg_data ch) (BLOCK_SECTOR_SIZE div 2) sector (controller st)\<rparr>)
   }"

section \<open>Reading and writing\<close>

definition ide_read :: "'c hardware \<Rightarrow> disk_id \<Rightarrow> u32 \<Rightarrow> 'c ide \<Rightarrow> (u8 list \<times> 'c ide) option" where
  "ide_read hw d sec_no st = do {
     st \<leftarrow> channel_acquire (fst d) st;
     st \<leftarrow> select_sector hw d sec_no st;
     st \<leftarrow> issue_pio_command hw (fst d) CMD_READ_SECTOR_RETRY st;
     st \<leftarrow> wait_completion hw (fst d) st;
     (drq, st) \<leftarrow> wait_while_busy hw d st;
     ASSERT drq;
     (buffer, st) \<leftarrow> input_sector hw (fst d) st;
     st \<leftarrow> channel_release (fst d) st;
     Some (buffer, st)
   }"

definition ide_write :: "'c hardware \<Rightarrow> disk_id \<Rightarrow> u32 \<Rightarrow> u8 list \<Rightarrow> 'c ide \<Rightarrow> 'c ide option" where
  "ide_write hw d sec_no buffer st = do {
     st \<leftarrow> channel_acquire (fst d) st;
     st \<leftarrow> select_sector hw d sec_no st;
     st \<leftarrow> issue_pio_command hw (fst d) CMD_WRITE_SECTOR_RETRY st;
     (drq, st) \<leftarrow> wait_while_busy hw d st;
     ASSERT drq;
     st \<leftarrow> output_sector hw (fst d) buffer st;
     st \<leftarrow> wait_completion hw (fst d) st;
     channel_release (fst d) st
   }"

section \<open>Detection of disks\<close>

text \<open>The body of the first loop of \<open>reset_channel\<close>.\<close>

definition detect_device :: "'c hardware \<Rightarrow> disk_id \<Rightarrow> 'c ide \<Rightarrow> (bool \<times> 'c ide) option" where
  "detect_device hw d st = do {
     ch \<leftarrow> get_channel (fst d) st;
     st \<leftarrow> select_device hw d st;
     st \<leftarrow> ide_outb hw (reg_nsect ch) 0x55 st;
     st \<leftarrow> ide_outb hw (reg_lbal ch) 0xaa st;
     st \<leftarrow> ide_outb hw (reg_nsect ch) 0xaa st;
     st \<leftarrow> ide_outb hw (reg_lbal ch) 0x55 st;
     st \<leftarrow> ide_outb hw (reg_nsect ch) 0x55 st;
     st \<leftarrow> ide_outb hw (reg_lbal ch) 0xaa st;
     (a, st) \<leftarrow> ide_inb hw (reg_nsect ch) st;
     if a \<noteq> 0x55 then Some (False, st)
     else do {
       (b, st) \<leftarrow> ide_inb hw (reg_lbal ch) st;
       Some (b = 0xaa, st)
     }
   }"

text \<open>The loop that waits for device 1 after the reset, with \<open>n\<close> rounds left.\<close>

fun slave_loop :: "'c hardware \<Rightarrow> nat \<Rightarrow> nat \<Rightarrow> 'c ide \<Rightarrow> 'c ide option" where
  "slave_loop hw 0 c st = Some st"
| "slave_loop hw (Suc n) c st = do {
     ch \<leftarrow> get_channel c st;
     (a, st) \<leftarrow> ide_inb hw (reg_nsect ch) st;
     (b, st) \<leftarrow> (if a = 1 then ide_inb hw (reg_lbal ch) st else Some (0, st));
     if a = 1 \<and> b = 1 then Some st
     else do { st \<leftarrow> ide_msleep hw 10 st; slave_loop hw n c st }
   }"

definition reset_channel :: "'c hardware \<Rightarrow> nat \<Rightarrow> 'c ide \<Rightarrow> 'c ide option" where
  "reset_channel hw c st = do {
     (present0, st) \<leftarrow> detect_device hw (c, 0) st;
     (present1, st) \<leftarrow> detect_device hw (c, 1) st;
     ch \<leftarrow> get_channel c st;
     st \<leftarrow> ide_outb hw (reg_ctl ch) 0 st;
     st \<leftarrow> ide_usleep hw 10 st;
     st \<leftarrow> ide_outb hw (reg_ctl ch) CTL_SRST st;
     st \<leftarrow> ide_usleep hw 10 st;
     st \<leftarrow> ide_outb hw (reg_ctl ch) 0 st;
     st \<leftarrow> ide_msleep hw 150 st;
     st \<leftarrow> (if present0 then do {
              st \<leftarrow> select_device hw (c, 0) st;
              (_, st) \<leftarrow> wait_while_busy hw (c, 0) st;
              Some st
            } else Some st);
     if present1 then do {
       st \<leftarrow> select_device hw (c, 1) st;
       st \<leftarrow> slave_loop hw 3000 c st;
       (_, st) \<leftarrow> wait_while_busy hw (c, 1) st;
       Some st
     }
     else Some st
   }"

definition check_device_type :: "'c hardware \<Rightarrow> disk_id \<Rightarrow> 'c ide \<Rightarrow> (bool \<times> 'c ide) option" where
  "check_device_type hw d st = do {
     ch \<leftarrow> get_channel (fst d) st;
     st \<leftarrow> select_device hw d st;
     (error, st) \<leftarrow> ide_inb hw (reg_error ch) st;
     (lbam, st) \<leftarrow> ide_inb hw (reg_lbam ch) st;
     (lbah, st) \<leftarrow> ide_inb hw (reg_lbah ch) st;
     (status, st) \<leftarrow> ide_inb hw (reg_status ch) st;
     if error \<noteq> 1 \<and> (error \<noteq> 0x81 \<or> snd d = 1) \<or> status AND STA_DRDY = 0 \<or> status AND STA_BSY \<noteq> 0
     then do {
       st \<leftarrow> set_is_ata False d st;
       Some (error \<noteq> 0x81, st)
     }
     else do {
       st \<leftarrow> set_is_ata (lbam = 0 \<and> lbah = 0 \<or> lbam = 0x3c \<and> lbah = 0xc3) d st;
       Some (True, st)
     }
   }"

text \<open>
  The string of \<open>size\<close> bytes at \<open>ofs\<close> in a buffer.  \<open>swap_pairs\<close> is the first loop from index \<open>i\<close> on with
  \<open>n\<close> rounds left, \<open>trim_loop\<close> the second.
\<close>

fun swap_pairs :: "nat \<Rightarrow> nat \<Rightarrow> u8 list \<Rightarrow> u8 list" where
  "swap_pairs 0 i s = s"
| "swap_pairs (Suc n) i s = swap_pairs n (i + 2) (s[i := s ! (i + 1), i + 1 := s ! i])"

fun trim_loop :: "nat \<Rightarrow> nat \<Rightarrow> u8 list \<Rightarrow> nat" where
  "trim_loop ofs 0 s = 0"
| "trim_loop ofs (Suc n) s =
     (let c = s ! (ofs + n) in if c \<noteq> 0 \<and> \<not> isspace (sint c) then Suc n else trim_loop ofs n s)"

definition descramble_ata_string :: "nat \<Rightarrow> nat \<Rightarrow> u8 list \<Rightarrow> u8 list" where
  "descramble_ata_string ofs sz s =
     (let s = swap_pairs (sz div 2) ofs s; n = trim_loop ofs (sz - 1) s in s[ofs + n := 0])"

definition string_in :: "nat \<Rightarrow> u8 list \<Rightarrow> u8 list" where
  "string_in ofs s = takeWhile (\<lambda>c. c \<noteq> 0) (drop ofs s)"

text \<open>\<open>extra_info\<close>, for the message of \<open>block_register\<close>: 127 characters and the null byte.\<close>

definition extra_info :: "u8 list \<Rightarrow> u8 list" where
  "extra_info buf =
     (let buf = descramble_ata_string 20 20 buf; buf = descramble_ata_string 54 40 buf
      in take 127 (map byte (''model '' @ [CHR 0x22]) @ string_in 20 buf @
           map byte ([CHR 0x22] @ '', serial '' @ [CHR 0x22]) @ string_in 54 buf @ map byte [CHR 0x22]) @ [0])"

text \<open>
  What \<open>ide_operations\<close> promise to the block layer, which represents a driver by its storage (KBlock): what
  \<open>ide_read\<close> delivers when the disk is registered.  From then on the block layer keeps the contents itself, as
  \<open>ide_write\<close> changes them.
\<close>

definition ide_storage :: "'c hardware \<Rightarrow> disk_id \<Rightarrow> 'c ide \<Rightarrow> u32 \<Rightarrow> u8 list" where
  "ide_storage hw d st sec_no = (case ide_read hw d sec_no st of None \<Rightarrow> [] | Some (buffer, st) \<Rightarrow> buffer)"

definition identify_ata_device :: "'c hardware \<Rightarrow> disk_id \<Rightarrow> 'c ide \<Rightarrow> 'c ide option" where
  "identify_ata_device hw d st = do {
     ch \<leftarrow> get_channel (fst d) st;
     ASSERT (is_ata (c_devices ch ! snd d));
     st \<leftarrow> select_device_wait hw d st;
     st \<leftarrow> issue_pio_command hw (fst d) CMD_IDENTIFY_DEVICE st;
     st \<leftarrow> wait_completion hw (fst d) st;
     (drq, st) \<leftarrow> wait_while_busy hw d st;
     if \<not> drq then set_is_ata False d st
     else do {
       (buf, st) \<leftarrow> input_sector hw (fst d) st;
       let capacity = dec32 (get_bytes 120 4 buf);
       if capacity \<ge> 2097152 then do {
         let st = ide_print (name_of d st @ '': ignoring '') st;
         human \<leftarrow> print_human_readable_size (ucast (capacity * 512));
         let st = st\<lparr>ide_out := ide_out st @ human\<rparr>;
         let st = ide_print (''disk for safety'' @ LINE_END) st;
         set_is_ata False d st
       }
       else do {
         p \<leftarrow> pt_malloc (ide_blocks st);
         (block, r) \<leftarrow> block_register True (name_of d st) BLOCK_RAW capacity (ide_storage hw d st) (reg p);
         p \<leftarrow> partition_scan block (p\<lparr>reg := r\<rparr>);
         Some (st\<lparr>ide_blocks := p\<rparr>)
       }
     }
   }"

section \<open>Start\<close>

text \<open>\<open>%zu\<close> of a digit; \<open>snprintf\<close> keeps the names, which are shorter than 8 characters.\<close>

definition new_channel :: "nat \<Rightarrow> ata_channel option" where
  "new_channel chan_no = do {
     (b, q) \<leftarrow> (if chan_no = 0 then Some (0x1f0, 14 + 0x20)
               else if chan_no = 1 then Some (0x170, 15 + 0x20) else None);
     Some \<lparr>c_name = ''ide'' @ decimal_of chan_no, reg_base = b, c_irq = q, c_locked = False,
           expecting_interrupt = False, completion_wait = 0,
           c_devices = map (\<lambda>dev_no. \<lparr>d_name = ''hd'' @ [char_of (97 + chan_no * 2 + dev_no)], is_ata = False\<rparr>) [0..<2]\<rparr>
   }"

definition identify_if_ata :: "'c hardware \<Rightarrow> disk_id \<Rightarrow> 'c ide \<Rightarrow> 'c ide option" where
  "identify_if_ata hw d st = do {
     ch \<leftarrow> get_channel (fst d) st;
     if is_ata (c_devices ch ! snd d) then identify_ata_device hw d st else Some st
   }"

text \<open>The body of the loop of \<open>ide_init\<close>; \<open>intr_register_ext\<close> wants a vector that is not taken.\<close>

definition init_channel :: "'c hardware \<Rightarrow> nat \<Rightarrow> 'c ide \<Rightarrow> 'c ide option" where
  "init_channel hw chan_no st = do {
     ch \<leftarrow> new_channel chan_no;
     let st = put_channel chan_no ch st;
     ASSERT (c_irq ch \<ge> 0x20 \<and> c_irq ch \<le> 0x2f \<and> c_irq ch \<notin> set (ide_handlers st));
     let st = st\<lparr>ide_handlers := c_irq ch # ide_handlers st\<rparr>;
     st \<leftarrow> reset_channel hw chan_no st;
     (slave, st) \<leftarrow> check_device_type hw (chan_no, 0) st;
     st \<leftarrow> (if slave then do { (_, st) \<leftarrow> check_device_type hw (chan_no, 1) st; Some st } else Some st);
     st \<leftarrow> identify_if_ata hw (chan_no, 0) st;
     identify_if_ata hw (chan_no, 1) st
   }"

fun init_channels :: "'c hardware \<Rightarrow> nat list \<Rightarrow> 'c ide \<Rightarrow> 'c ide option" where
  "init_channels hw [] st = Some st"
| "init_channels hw (c # cs) st = do { st \<leftarrow> init_channel hw c st; init_channels hw cs st }"

definition ide_init :: "'c hardware \<Rightarrow> 'c ide \<Rightarrow> 'c ide option" where
  "ide_init hw st = init_channels hw [0..<CHANNEL_CNT] st"

end
