(* ===== verification/KIdeProps.thy ===== *)
theory KIdeProps imports KIde begin

unbundle bit_operations_syntax

text \<open>
  Reading and writing through the disk driver.  What the driver relies on is stated of the controller, as
  the predicate \<open>ata_device\<close>: it follows the protocol of the ATA standard for single sectors, at any
  speed.
\<close>

section \<open>The protocol\<close>

text \<open>
  What a controller is doing.  A command on the sector \<open>s\<close> of the disk \<open>b\<close> (true: the slave) makes it busy; a read
  then offers the bytes, a write asks for them and is busy again until they are stored.
\<close>

datatype phase =
  Ready | ReadBusy bool u32 | ReadData "u8 list" | WriteBusy bool u32 | WriteData bool u32 "u8 list" | WriteDone

text \<open>The registers by their offset, the phase, the contents of both disks and the interrupt request.\<close>

record ata_view =
  v_reg :: "nat \<Rightarrow> u8"
  v_phase :: phase
  v_disk :: "bool \<Rightarrow> u32 \<Rightarrow> u8 list"
  v_request :: bool

fun busy :: "phase \<Rightarrow> bool" where
  "busy (ReadBusy d s) = True" | "busy (WriteBusy d s) = True" | "busy WriteDone = True" | "busy ph = False"

fun asks_data :: "phase \<Rightarrow> bool" where
  "asks_data (ReadData bs) = True" | "asks_data (WriteData d s bs) = True" | "asks_data ph = False"

fun requests :: "phase \<Rightarrow> bool" where
  "requests (ReadBusy d s) = True" | "requests WriteDone = True" | "requests ph = False"

fun phase_after :: "(bool \<Rightarrow> u32 \<Rightarrow> u8 list) \<Rightarrow> phase \<Rightarrow> phase" where
  "phase_after D (ReadBusy d s) = ReadData (D d s)"
| "phase_after D (WriteBusy d s) = WriteData d s []"
| "phase_after D WriteDone = Ready"
| "phase_after D ph = ph"

definition finish :: "ata_view \<Rightarrow> ata_view" where
  "finish v = v\<lparr>v_phase := phase_after (v_disk v) (v_phase v)\<rparr>"

text \<open>A controller can become ready by itself at any time.\<close>

definition progress :: "ata_view \<Rightarrow> ata_view \<Rightarrow> bool" where
  "progress v w \<longleftrightarrow> w = v \<or> busy (v_phase v) \<and> w = (finish v)\<lparr>v_request := requests (v_phase v) \<or> v_request v\<rparr>"

definition status_shows :: "phase \<Rightarrow> u8 \<Rightarrow> bool" where
  "status_shows ph s \<longleftrightarrow> (s AND STA_BSY \<noteq> 0 \<longleftrightarrow> busy ph) \<and> (\<not> busy ph \<longrightarrow> (s AND STA_DRQ \<noteq> 0 \<longleftrightarrow> asks_data ph))"

text \<open>The sector that the registers name.\<close>

definition named_sector :: "(nat \<Rightarrow> u8) \<Rightarrow> u32" where
  "named_sector r = ucast (r 3) OR push_bit 8 (ucast (r 4)) OR push_bit 16 (ucast (r 5)) OR push_bit 24 (ucast (r 6 AND 0x0f))"

definition slave :: "(nat \<Rightarrow> u8) \<Rightarrow> bool" where
  "slave r \<longleftrightarrow> r 6 AND DEV_DEV \<noteq> 0"

text \<open>
  \<open>lag\<close> bounds the number of further delays for which the controller is still busy.
\<close>

definition status_law :: "'c hardware \<Rightarrow> u16 \<Rightarrow> ('c \<Rightarrow> ata_view) \<Rightarrow> ('c \<Rightarrow> nat) \<Rightarrow> bool" where
  "status_law hw b view lag \<longleftrightarrow> (\<forall>c port s c'. port \<in> {b + 7, b + 0x206} \<and> in8 hw port c = (s, c') \<longrightarrow>
     progress (view c) (view c') \<and> status_shows (v_phase (view c')) s \<and> lag c' \<le> lag c)"

definition pass_law :: "'c hardware \<Rightarrow> ('c \<Rightarrow> ata_view) \<Rightarrow> ('c \<Rightarrow> nat) \<Rightarrow> bool" where
  "pass_law hw view lag \<longleftrightarrow> (\<forall>c ns c'. pass_ns hw ns c = c' \<longrightarrow>
     progress (view c) (view c') \<and> (busy (v_phase (view c')) \<longrightarrow> lag c' < lag c))"

text \<open>The request, if any, is for the vector \<open>q\<close>, and is made once.\<close>

definition request_law :: "'c hardware \<Rightarrow> u8 \<Rightarrow> ('c \<Rightarrow> ata_view) \<Rightarrow> ('c \<Rightarrow> nat) \<Rightarrow> bool" where
  "request_law hw q view lag \<longleftrightarrow> (\<forall>c r c'. take_request hw c = (r, c') \<longrightarrow>
     (\<exists>v. progress (view c) v \<and> view c' = v\<lparr>v_request := False\<rparr> \<and>
        r = (if v_request v then Some q else None) \<and> lag c' \<le> lag c))"

definition register_law :: "'c hardware \<Rightarrow> u16 \<Rightarrow> ('c \<Rightarrow> ata_view) \<Rightarrow> bool" where
  "register_law hw b view \<longleftrightarrow> (\<forall>c x k. v_phase (view c) = Ready \<and> k \<in> {2, 3, 4, 5, 6} \<longrightarrow>
     view (out8 hw (b + of_nat k) x c) = (view c)\<lparr>v_reg := (v_reg (view c))(k := x)\<rparr>)"

text \<open>Commands on one sector, in linear addressing.\<close>

definition command_law :: "'c hardware \<Rightarrow> u16 \<Rightarrow> ('c \<Rightarrow> ata_view) \<Rightarrow> bool" where
  "command_law hw b view \<longleftrightarrow>
     (\<forall>c. v_phase (view c) = Ready \<and> v_reg (view c) 2 = 1 \<and> v_reg (view c) 6 AND DEV_LBA \<noteq> 0 \<longrightarrow>
        (let d = slave (v_reg (view c)); s = named_sector (v_reg (view c)) in
        view (out8 hw (b + 7) CMD_READ_SECTOR_RETRY c) = (view c)\<lparr>v_phase := ReadBusy d s\<rparr> \<and>
        view (out8 hw (b + 7) CMD_WRITE_SECTOR_RETRY c) = (view c)\<lparr>v_phase := WriteBusy d s\<rparr>))"

definition data_in_law :: "'c hardware \<Rightarrow> u16 \<Rightarrow> ('c \<Rightarrow> ata_view) \<Rightarrow> bool" where
  "data_in_law hw b view \<longleftrightarrow> (\<forall>c x y bs w c'. v_phase (view c) = ReadData (x # y # bs) \<and> in16 hw b c = (w, c') \<longrightarrow>
     ucast w = x \<and> ucast (drop_bit 8 w) = y \<and>
     view c' = (view c)\<lparr>v_phase := (if bs = [] then Ready else ReadData bs)\<rparr>)"

definition data_out_law :: "'c hardware \<Rightarrow> u16 \<Rightarrow> ('c \<Rightarrow> ata_view) \<Rightarrow> bool" where
  "data_out_law hw b view \<longleftrightarrow> (\<forall>c w d s bs. v_phase (view c) = WriteData d s bs \<longrightarrow>
     view (out16 hw b w c) = (let bs = bs @ [ucast w, ucast (drop_bit 8 w)] in
       if length bs = 512
       then (view c)\<lparr>v_phase := WriteDone, v_disk := (v_disk (view c))(d := (v_disk (view c) d)(s := bs))\<rparr>
       else (view c)\<lparr>v_phase := WriteData d s bs\<rparr>))"

definition ata_device ::
  "'c hardware \<Rightarrow> u16 \<Rightarrow> u8 \<Rightarrow> ('c \<Rightarrow> ata_view) \<Rightarrow> ('c \<Rightarrow> nat) \<Rightarrow> bool" where
  "ata_device hw b q view lag \<longleftrightarrow> (\<forall>c. lag c < 2999) \<and> status_law hw b view lag \<and> pass_law hw view lag \<and>
     request_law hw q view lag \<and> register_law hw b view \<and> command_law hw b view \<and> data_in_law hw b view \<and>
     data_out_law hw b view"

lemma progress_settled [simp]: "\<not> busy (v_phase v) \<Longrightarrow> progress v w \<longleftrightarrow> w = v"
  by (auto simp: progress_def)

lemma progress_refl [simp]: "progress v v"
  by (simp add: progress_def)

lemma busy_phase_after [simp]: "\<not> busy (phase_after D ph)"
  by (cases ph) auto

lemma finish_settled [simp]: "\<not> busy (v_phase (finish v))"
  by (simp add: finish_def)

lemma progress_trans: "progress u v \<Longrightarrow> progress v w \<Longrightarrow> progress u w"
  by (auto simp: progress_def)

lemma ata_status:
  "ata_device hw b q view lag \<Longrightarrow> port \<in> {b + 7, b + 0x206} \<Longrightarrow> in8 hw port c = (s, c') \<Longrightarrow>
   progress (view c) (view c') \<and> status_shows (v_phase (view c')) s \<and> lag c' \<le> lag c"
  unfolding ata_device_def status_law_def by blast

lemma ata_pass:
  "ata_device hw b q view lag \<Longrightarrow> progress (view c) (view (pass_ns hw ns c)) \<and>
   (busy (v_phase (view (pass_ns hw ns c))) \<longrightarrow> lag (pass_ns hw ns c) < lag c)"
  unfolding ata_device_def pass_law_def by blast

lemma ata_request:
  "ata_device hw b q view lag \<Longrightarrow> take_request hw c = (r, c') \<Longrightarrow>
   \<exists>v. progress (view c) v \<and> view c' = v\<lparr>v_request := False\<rparr> \<and>
     r = (if v_request v then Some q else None) \<and> lag c' \<le> lag c"
  unfolding ata_device_def request_law_def by blast

lemma ata_register:
  "ata_device hw b q view lag \<Longrightarrow> v_phase (view c) = Ready \<Longrightarrow> k \<in> {2, 3, 4, 5, 6} \<Longrightarrow>
   view (out8 hw (b + of_nat k) x c) = (view c)\<lparr>v_reg := (v_reg (view c))(k := x)\<rparr>"
  unfolding ata_device_def register_law_def by blast

lemma ata_command:
  "ata_device hw b q view lag \<Longrightarrow> v_phase (view c) = Ready \<Longrightarrow> v_reg (view c) 2 = 1 \<Longrightarrow>
   v_reg (view c) 6 AND DEV_LBA \<noteq> 0 \<Longrightarrow>
   view (out8 hw (b + 7) CMD_READ_SECTOR_RETRY c) =
     (view c)\<lparr>v_phase := ReadBusy (slave (v_reg (view c))) (named_sector (v_reg (view c)))\<rparr> \<and>
   view (out8 hw (b + 7) CMD_WRITE_SECTOR_RETRY c) =
     (view c)\<lparr>v_phase := WriteBusy (slave (v_reg (view c))) (named_sector (v_reg (view c)))\<rparr>"
  unfolding ata_device_def command_law_def Let_def by blast

lemma ata_data_in:
  "ata_device hw b q view lag \<Longrightarrow> v_phase (view c) = ReadData (x # y # bs) \<Longrightarrow> in16 hw b c = (w, c') \<Longrightarrow>
   ucast w = x \<and> ucast (drop_bit 8 w) = y \<and>
   view c' = (view c)\<lparr>v_phase := (if bs = [] then Ready else ReadData bs)\<rparr>"
  unfolding ata_device_def data_in_law_def by blast

lemma ata_data_out:
  "ata_device hw b q view lag \<Longrightarrow> v_phase (view c) = WriteData d s bs \<Longrightarrow>
   view (out16 hw b w c) = (let bs = bs @ [ucast w, ucast (drop_bit 8 w)] in
     if length bs = 512
     then (view c)\<lparr>v_phase := WriteDone, v_disk := (v_disk (view c))(d := (v_disk (view c) d)(s := bs))\<rparr>
     else (view c)\<lparr>v_phase := WriteData d s bs\<rparr>)"
  unfolding ata_device_def data_out_law_def by blast

section \<open>The driver's steps\<close>

text \<open>Channel \<open>c\<close> is in state \<open>ch\<close>, receives its own interrupts, and its controller is in state \<open>v\<close>, with no request left.\<close>

definition ide_at :: "('c \<Rightarrow> ata_view) \<Rightarrow> nat \<Rightarrow> ata_channel \<Rightarrow> ata_view \<Rightarrow> 'c ide \<Rightarrow> bool" where
  "ide_at view c ch v st \<longleftrightarrow> c < length (channels st) \<and> channels st ! c = ch \<and>
     channel_of_irq (c_irq ch) 0 (channels st) = Some c \<and> intr_on st \<and> view (controller st) = v \<and> \<not> v_request v"

lemma channel_of_irq_update:
  "c_irq ch = c_irq (cs ! c) \<Longrightarrow> channel_of_irq vec i (cs[c := ch]) = channel_of_irq vec i cs"
  by (induction vec i cs arbitrary: c rule: channel_of_irq.induct) (auto split: nat.splits simp: nth_Cons')

lemma ide_at_get: "ide_at view c ch v st \<Longrightarrow> get_channel c st = Some ch"
  by (simp add: ide_at_def get_channel_def)

lemma ide_at_put:
  "ide_at view c ch v st \<Longrightarrow> c_irq ch' = c_irq ch \<Longrightarrow> ide_at view c ch' v (put_channel c ch' st)"
  by (auto simp: ide_at_def put_channel_def channel_of_irq_update)

lemma ide_at_print [simp]: "ide_at view c ch v (ide_print s st) = ide_at view c ch v st"
  by (simp add: ide_at_def ide_print_def)

text \<open>
  An access leaves the controller as it was, or sees it finish; then the interrupt, if the
  phase requests one, has been counted in \<open>completion_wait\<close>.
\<close>

definition finished :: "ata_view \<Rightarrow> ata_channel \<Rightarrow> ata_channel" where
  "finished v ch = (if requests (v_phase v) then ch\<lparr>completion_wait := completion_wait ch + 1\<rparr> else ch)"

definition moved :: "('c \<Rightarrow> ata_view) \<Rightarrow> nat \<Rightarrow> ata_channel \<Rightarrow> ata_view \<Rightarrow> 'c ide \<Rightarrow> bool" where
  "moved view c ch v st \<longleftrightarrow> ide_at view c ch v st \<or>
     busy (v_phase v) \<and> ide_at view c (finished v ch) (finish v) st"

lemma moved_settled [simp]: "\<not> busy (v_phase v) \<Longrightarrow> moved view c ch v st \<longleftrightarrow> ide_at view c ch v st"
  by (simp add: moved_def)

text \<open>
  Serving an interrupt: the controller may finish, and its request is then counted.  \<open>u\<close> is the
  state before the access, which may have seen the progress already.
\<close>

lemma serve_moved:
  assumes dev: "ata_device hw (reg_base ch) (c_irq ch) view lag" and st: "ide_at view c ch u st"
    and exp: "busy (v_phase u) \<Longrightarrow> expecting_interrupt ch" and pr: "progress u (view hwst)"
  shows "\<exists>st'. serve_interrupt hw (st\<lparr>controller := hwst\<rparr>) = Some st' \<and> moved view c ch u st' \<and>
    (busy (v_phase (view (controller st'))) \<longrightarrow> lag (controller st') \<le> lag hwst) \<and>
    (\<not> busy (v_phase (view hwst)) \<longrightarrow> \<not> busy (v_phase (view (controller st'))))"
proof -
  obtain r c1 where t: "take_request hw hwst = (r, c1)" by force
  from ata_request[OF dev t] obtain v where v: "progress (view hwst) v" "view c1 = v\<lparr>v_request := False\<rparr>"
    "r = (if v_request v then Some (c_irq ch) else None)" "lag c1 \<le> lag hwst" by blast
  have uv: "progress u v" using pr v(1) by (rule progress_trans)
  have u: "\<not> v_request u" "c < length (channels st)" "channels st ! c = ch" "intr_on st"
    "channel_of_irq (c_irq ch) 0 (channels st) = Some c" using st by (auto simp: ide_at_def)
  show ?thesis
  proof (cases "v_request v")
    case False
    then have "v = u \<or> busy (v_phase u) \<and> v = finish u \<and> \<not> requests (v_phase u)"
      using uv u(1) by (auto simp: progress_def finish_def)
    then show ?thesis using False u v t
      by (auto simp: serve_interrupt_def ide_at_def moved_def finished_def progress_def finish_def)
  next
    case True
    then have b: "busy (v_phase u)" "requests (v_phase u)" "v = (finish u)\<lparr>v_request := True\<rparr>"
      using uv u(1) by (auto simp: progress_def finish_def)
    obtain s c2 where i: "in8 hw (reg_base ch + 7) c1 = (s, c2)" by force
    have "view c2 = view c1" using ata_status[OF dev _ i] b v(2) by (simp add: finish_def)
    then show ?thesis using True b u v t i exp[OF b(1)]
      by (simp add: serve_interrupt_def interrupt_handler_def get_channel_def reg_status_def put_channel_def
          moved_def ide_at_def finished_def channel_of_irq_update finish_def)
  qed
qed

lemma finished_simps [simp]:
  "reg_base (finished v ch) = reg_base ch" "c_irq (finished v ch) = c_irq ch"
  "expecting_interrupt (finished v ch) = expecting_interrupt ch"
  by (simp_all add: finished_def)

lemma moved_settles:
  "moved view c ch u st \<Longrightarrow> busy (v_phase u) \<Longrightarrow> \<not> busy (v_phase (view (controller st))) \<Longrightarrow>
   ide_at view c (finished u ch) (finish u) st"
  by (auto simp: moved_def ide_at_def)

lemma serve_again:
  assumes dev: "ata_device hw (reg_base ch) (c_irq ch) view lag" and st: "moved view c ch u st"
    and exp: "busy (v_phase u) \<Longrightarrow> expecting_interrupt ch" and pr: "progress (view (controller st)) (view hwst)"
  shows "\<exists>st'. serve_interrupt hw (st\<lparr>controller := hwst\<rparr>) = Some st' \<and> moved view c ch u st' \<and>
    (busy (v_phase (view (controller st'))) \<longrightarrow> lag (controller st') \<le> lag hwst) \<and>
    (\<not> busy (v_phase (view hwst)) \<longrightarrow> \<not> busy (v_phase (view (controller st'))))"
proof (cases "ide_at view c ch u st")
  case True
  then show ?thesis using serve_moved[OF dev True exp, of hwst] pr by (simp add: ide_at_def)
next
  case False
  then have b: "busy (v_phase u)" "ide_at view c (finished u ch) (finish u) st" using st by (auto simp: moved_def)
  then have "progress (finish u) (view hwst)" using pr by (simp add: ide_at_def)
  with serve_moved[OF _ b(2), of hw lag hwst] dev b(1) show ?thesis
    by (auto simp: moved_def)
qed

lemma inb_moved:
  assumes dev: "ata_device hw (reg_base ch) (c_irq ch) view lag" and st: "moved view c ch u st"
    and exp: "busy (v_phase u) \<Longrightarrow> expecting_interrupt ch" and port: "port = reg_status ch \<or> port = reg_alt_status ch"
  shows "\<exists>s st'. ide_inb hw port st = Some (s, st') \<and> moved view c ch u st' \<and>
    (s AND STA_BSY = 0 \<or> busy (v_phase (view (controller st)))) \<and>
    (s AND STA_BSY = 0 \<longrightarrow> \<not> busy (v_phase (view (controller st'))) \<and>
       (s AND STA_DRQ \<noteq> 0 \<longleftrightarrow> asks_data (v_phase (view (controller st'))))) \<and>
    (busy (v_phase (view (controller st'))) \<longrightarrow> lag (controller st') \<le> lag (controller st))"
proof -
  obtain s c' where i: "in8 hw port (controller st) = (s, c')" by force
  have p: "port \<in> {reg_base ch + 7, reg_base ch + 0x206}"
    using port by (auto simp: reg_status_def reg_alt_status_def reg_ctl_def)
  note a = ata_status[OF dev p i]
  obtain st' where s: "serve_interrupt hw (st\<lparr>controller := c'\<rparr>) = Some st'" "moved view c ch u st'"
    "busy (v_phase (view (controller st'))) \<longrightarrow> lag (controller st') \<le> lag c'"
    "\<not> busy (v_phase (view c')) \<longrightarrow> \<not> busy (v_phase (view (controller st')))"
    using serve_again[OF dev st exp, of c'] a by blast
  have eq: "v_phase (view (controller st')) = v_phase (view c')" if "\<not> busy (v_phase (view c'))"
  proof (cases "busy (v_phase u)")
    case True
    have "v_phase (view c') = v_phase (finish u)"
      using st a that True by (auto simp: moved_def ide_at_def progress_def finish_def)
    moreover have "v_phase (view (controller st')) = v_phase (finish u)"
      using moved_settles[OF s(2) True] s(4) that by (simp add: ide_at_def)
    ultimately show ?thesis by simp
  next
    case False
    then show ?thesis using st s(2) a by (simp add: ide_at_def)
  qed
  have "busy (v_phase (view (controller st)))" if "s AND STA_BSY \<noteq> 0"
    using that a by (auto simp: status_shows_def progress_def)
  then show ?thesis using i s a eq by (auto simp: ide_inb_def status_shows_def)
qed

lemma nsleep_moved:
  assumes dev: "ata_device hw (reg_base ch) (c_irq ch) view lag" and st: "moved view c ch u st"
    and exp: "busy (v_phase u) \<Longrightarrow> expecting_interrupt ch"
  shows "\<exists>st'. ide_nsleep hw ns st = Some st' \<and> moved view c ch u st' \<and>
    (busy (v_phase (view (controller st'))) \<longrightarrow> busy (v_phase (view (controller st))) \<and> lag (controller st') < lag (controller st))"
proof -
  note a = ata_pass[OF dev, of "controller st" ns]
  obtain st' where s: "serve_interrupt hw (st\<lparr>controller := pass_ns hw ns (controller st)\<rparr>) = Some st'"
    "moved view c ch u st'"
    "busy (v_phase (view (controller st'))) \<longrightarrow> lag (controller st') \<le> lag (pass_ns hw ns (controller st))"
    "\<not> busy (v_phase (view (pass_ns hw ns (controller st)))) \<longrightarrow> \<not> busy (v_phase (view (controller st')))"
    using serve_again[OF dev st exp, of "pass_ns hw ns (controller st)"] a by blast
  moreover have "intr_on st" using st by (auto simp: moved_def ide_at_def)
  ultimately show ?thesis using a by (fastforce simp: ide_nsleep_def)
qed

section \<open>Waiting\<close>

lemma moved_get: "moved view c ch u st \<Longrightarrow> \<exists>ch'. get_channel c st = Some ch' \<and> reg_base ch' = reg_base ch"
  by (auto simp: moved_def dest!: ide_at_get)

lemma settled_wait:
  assumes "ide_at view c (finished u ch) v st" "requests (v_phase u)" "completion_wait ch = 0"
  shows "\<exists>st'. wait_completion hw c st = Some st' \<and> ide_at view c ch v st'"
proof -
  have "wait_completion hw c st = Some (put_channel c ch st)"
    by (subst wait_completion.simps, cases ch) (use assms in \<open>simp add: ide_at_get[OF assms(1)] finished_def\<close>)
  moreover have "ide_at view c ch v (put_channel c ch st)"
    by (rule ide_at_put[OF assms(1)]) simp
  ultimately show ?thesis by simp
qed

lemma wait_completion_returns:
  assumes dev: "ata_device hw (reg_base ch) (c_irq ch) view lag" and st: "moved view c ch u st"
    and exp: "expecting_interrupt ch" and u: "requests (v_phase u)" "completion_wait ch = 0"
  shows "\<exists>st'. wait_completion hw c st = Some st' \<and> ide_at view c ch (finish u) st'"
  using st
proof (induction "lag (controller st)" arbitrary: st rule: less_induct)
  case less
  have b: "busy (v_phase u)" using u(1) by (cases "v_phase u") auto
  show ?case
  proof (cases "busy (v_phase (view (controller st)))")
    case True
    then have st: "ide_at view c ch u st" using less.prems by (auto simp: moved_def ide_at_def)
    obtain st1 where s: "ide_nsleep hw 1000 st = Some st1" "moved view c ch u st1"
      "busy (v_phase (view (controller st1))) \<longrightarrow> lag (controller st1) < lag (controller st)"
      using nsleep_moved[OF dev less.prems, of 1000] exp by blast
    have step: "wait_completion hw c st = wait_completion hw c st1"
      by (subst wait_completion.simps) (simp add: ide_at_get[OF st] u(2) s(1))
    show ?thesis
    proof (cases "busy (v_phase (view (controller st1)))")
      case True
      then show ?thesis using less.hyps[OF _ s(2)] s(3) step by simp
    next
      case False
      then show ?thesis using settled_wait[OF moved_settles[OF s(2) b False] u] step by simp
    qed
  next
    case False
    then show ?thesis using settled_wait[OF moved_settles[OF less.prems b False] u] by simp
  qed
qed

lemma moved_print [simp]: "moved view c ch u (ide_print s st) = moved view c ch u st"
  by (simp add: moved_def)

lemma controller_print [simp]: "controller (ide_print s st) = controller st"
  by (simp add: ide_print_def)

text \<open>A busy controller finishes within the 3000 rounds of \<open>wait_while_busy\<close>.\<close>

lemma busy_loop_ends:
  assumes dev: "ata_device hw (reg_base ch) (c_irq ch) view lag"
    and exp: "busy (v_phase u) \<Longrightarrow> expecting_interrupt ch"
  shows "moved view (fst d) ch u st \<Longrightarrow> busy (v_phase (view (controller st))) \<longrightarrow> lag (controller st) < n \<Longrightarrow>
    \<exists>r st'. busy_loop hw (Suc n) d st = Some (r, st') \<and> moved view (fst d) ch u st' \<and>
      \<not> busy (v_phase (view (controller st'))) \<and> r = asks_data (v_phase (view (controller st')))"
proof (induction n arbitrary: st rule: less_induct)
  case (less n st)
  define st0 where "st0 = (if 2999 - n = 700 then ide_print (name_of d st @ '': busy, waiting...'') st else st)"
  have st0: "moved view (fst d) ch u st0" "controller st0 = controller st"
    using less.prems(1) by (simp_all add: st0_def)
  obtain ch' where g: "get_channel (fst d) st0 = Some ch'" "reg_base ch' = reg_base ch"
    using moved_get[OF st0(1)] by blast
  have alt: "reg_alt_status ch' = reg_alt_status ch" using g(2) by (simp add: reg_alt_status_def reg_ctl_def)
  obtain s st1 where i: "ide_inb hw (reg_alt_status ch) st0 = Some (s, st1)" "moved view (fst d) ch u st1"
    "s AND STA_BSY = 0 \<or> busy (v_phase (view (controller st0)))"
    "s AND STA_BSY = 0 \<longrightarrow> \<not> busy (v_phase (view (controller st1)))"
    "busy (v_phase (view (controller st1))) \<longrightarrow> lag (controller st1) \<le> lag (controller st0)"
    using inb_moved[OF dev st0(1) exp] by blast
  show ?case
  proof (cases "s AND STA_BSY = 0")
    case True
    define st2 where "st2 = (if 700 \<le> 2999 - n then ide_print (''ok'' @ LINE_END) st1 else st1)"
    have st2: "moved view (fst d) ch u st2" "controller st2 = controller st1"
      using i(2) by (simp_all add: st2_def)
    obtain s' st3 where j: "ide_inb hw (reg_alt_status ch) st2 = Some (s', st3)" "moved view (fst d) ch u st3"
      "s' AND STA_BSY = 0 \<or> busy (v_phase (view (controller st2)))"
      "s' AND STA_BSY = 0 \<longrightarrow> \<not> busy (v_phase (view (controller st3))) \<and>
         (s' AND STA_DRQ \<noteq> 0 \<longleftrightarrow> asks_data (v_phase (view (controller st3))))"
      using inb_moved[OF dev st2(1) exp] by blast
    have "busy_loop hw (Suc n) d st = Some (s' AND STA_DRQ \<noteq> 0, st3)"
      by (subst busy_loop.simps)
        (simp add: st0_def[symmetric] g(1) alt i(1) True st2_def[symmetric] j(1) Let_def del: busy_loop.simps)
    then show ?thesis using j i(4) True st2(2) by auto
  next
    case False
    obtain st2 where w: "ide_msleep hw 10 st1 = Some st2" "moved view (fst d) ch u st2"
      "busy (v_phase (view (controller st2))) \<longrightarrow> busy (v_phase (view (controller st1))) \<and> lag (controller st2) < lag (controller st1)"
      using nsleep_moved[OF dev i(2) exp, of "1000000 * 10"] unfolding ide_msleep_def by blast
    obtain m where m: "n = Suc m" using i(3) less.prems(2) st0(2) False by (cases n) auto
    have step: "busy_loop hw (Suc n) d st = busy_loop hw (Suc m) d st2"
      by (subst busy_loop.simps)
        (simp add: st0_def[symmetric] g(1) alt i(1) False w(1) m[symmetric] Let_def del: busy_loop.simps)
    have "busy (v_phase (view (controller st2))) \<longrightarrow> lag (controller st2) < m"
      using w(3) i(3,5) less.prems(2) st0(2) False m by (auto simp: moved_def)
    then show ?thesis unfolding step by (intro less.IH[OF _ w(2)]) (simp_all add: m)
  qed
qed

section \<open>Selecting a sector\<close>

lemma serve_settled:
  assumes "ata_device hw (reg_base ch) (c_irq ch) view lag" "ide_at view c ch v st" "\<not> busy (v_phase w)"
    "view hwst = w" "\<not> v_request w"
  shows "\<exists>st'. serve_interrupt hw (st\<lparr>controller := hwst\<rparr>) = Some st' \<and> ide_at view c ch w st'"
proof -
  have "ide_at view c ch w (st\<lparr>controller := hwst\<rparr>)" using assms(2,4,5) by (simp add: ide_at_def)
  from serve_moved[OF assms(1) this, of hwst] assms(3,4) show ?thesis by auto
qed

lemma outb_ready:
  assumes dev: "ata_device hw (reg_base ch) (c_irq ch) view lag" and st: "ide_at view c ch v st"
    and v: "v_phase v = Ready" and k: "k \<in> {2, 3, 4, 5, 6}" "port = reg_base ch + of_nat k"
  shows "\<exists>st'. ide_outb hw port x st = Some st' \<and> ide_at view c ch (v\<lparr>v_reg := (v_reg v)(k := x)\<rparr>) st'"
proof -
  have vc: "view (controller st) = v" "\<not> v_request v" using st by (auto simp: ide_at_def)
  have "view (out8 hw port x (controller st)) = v\<lparr>v_reg := (v_reg v)(k := x)\<rparr>"
    unfolding k(2) using ata_register[OF dev _ k(1), of "controller st" x] vc v by simp
  then show ?thesis unfolding ide_outb_def using v vc by (intro serve_settled[OF dev st]) auto
qed

lemma inb_ready:
  assumes dev: "ata_device hw (reg_base ch) (c_irq ch) view lag" and st: "ide_at view c ch v st"
    and v: "v_phase v = Ready" and port: "port = reg_status ch \<or> port = reg_alt_status ch"
  shows "\<exists>s st'. ide_inb hw port st = Some (s, st') \<and> ide_at view c ch v st' \<and> s AND (STA_BSY OR STA_DRQ) = 0"
proof -
  have m: "moved view c ch v st" "\<not> busy (v_phase v)" using st v by simp_all
  have "\<not> busy (v_phase (view (controller st)))" using st v by (simp add: ide_at_def)
  with inb_moved[OF dev m(1) _ port] v m(2) obtain s st' where s: "ide_inb hw port st = Some (s, st')"
    "ide_at view c ch v st'" "s AND STA_BSY = 0" "(s AND STA_DRQ \<noteq> 0) = asks_data (v_phase (view (controller st')))"
    by auto
  then have "s AND STA_DRQ = 0" using v by (simp add: ide_at_def)
  then show ?thesis using s by (auto simp: bit.conj_disj_distrib)
qed

lemma nsleep_ready:
  assumes "ata_device hw (reg_base ch) (c_irq ch) view lag" "ide_at view c ch v st" "v_phase v = Ready"
  shows "\<exists>st'. ide_nsleep hw ns st = Some st' \<and> ide_at view c ch v st'"
  using nsleep_moved[OF assms(1), of c v st ns] assms(2,3) by auto

lemma wait_until_idle_ready:
  assumes dev: "ata_device hw (reg_base ch) (c_irq ch) view lag" and st: "ide_at view (fst d) ch v st"
    and v: "v_phase v = Ready"
  shows "\<exists>st'. wait_until_idle hw d st = Some st' \<and> ide_at view (fst d) ch v st'"
proof -
  obtain s st' where s: "ide_inb hw (reg_status ch) st = Some (s, st')" "ide_at view (fst d) ch v st'"
    "s AND (STA_BSY OR STA_DRQ) = 0" using inb_ready[OF dev st v] by blast
  have "wait_until_idle hw d st = idle_wait_loop hw (Suc 999) d st" by (simp add: wait_until_idle_def)
  also have "\<dots> = Some st'"
    by (subst idle_wait_loop.simps) (simp add: ide_at_get[OF st] s del: idle_wait_loop.simps)
  finally show ?thesis using s(2) by blast
qed

definition sel_reg :: "nat \<Rightarrow> u8" where "sel_reg n = (if n = 1 then DEV_MBS OR DEV_DEV else DEV_MBS)"

lemma select_device_ready:
  assumes dev: "ata_device hw (reg_base ch) (c_irq ch) view lag" and st: "ide_at view (fst d) ch v st"
    and v: "v_phase v = Ready"
  shows "\<exists>st'. select_device hw d st = Some st' \<and>
    ide_at view (fst d) ch (v\<lparr>v_reg := (v_reg v)(6 := sel_reg (snd d))\<rparr>) st'"
proof -
  obtain st1 where 1: "ide_outb hw (reg_device ch) (sel_reg (snd d)) st = Some st1"
    "ide_at view (fst d) ch (v\<lparr>v_reg := (v_reg v)(6 := sel_reg (snd d))\<rparr>) st1"
    using outb_ready[OF dev st v, of 6 "reg_device ch" "sel_reg (snd d)"] by (auto simp: reg_device_def)
  obtain s st2 where 2: "ide_inb hw (reg_alt_status ch) st1 = Some (s, st2)"
    "ide_at view (fst d) ch (v\<lparr>v_reg := (v_reg v)(6 := sel_reg (snd d))\<rparr>) st2"
    using inb_ready[OF dev 1(2), of "reg_alt_status ch"] v by auto
  show ?thesis using nsleep_ready[OF dev 2(2), of 400] v 1(1) 2(1)
    by (simp add: select_device_def ide_at_get[OF st] sel_reg_def Let_def)
qed

lemma select_device_wait_ready:
  assumes dev: "ata_device hw (reg_base ch) (c_irq ch) view lag" and st: "ide_at view (fst d) ch v st"
    and v: "v_phase v = Ready"
  shows "\<exists>st'. select_device_wait hw d st = Some st' \<and>
    ide_at view (fst d) ch (v\<lparr>v_reg := (v_reg v)(6 := sel_reg (snd d))\<rparr>) st'"
proof -
  obtain st1 where 1: "wait_until_idle hw d st = Some st1" "ide_at view (fst d) ch v st1"
    using wait_until_idle_ready[OF dev st v] by blast
  obtain st2 where 2: "select_device hw d st1 = Some st2"
    "ide_at view (fst d) ch (v\<lparr>v_reg := (v_reg v)(6 := sel_reg (snd d))\<rparr>) st2"
    using select_device_ready[OF dev 1(2) v] by blast
  show ?thesis using wait_until_idle_ready[OF dev 2(2)] v 1(1) 2(1) by (simp add: select_device_wait_def)
qed

text \<open>The registers after \<open>select_sector\<close>, and what they mean.\<close>

definition sector_regs :: "nat \<Rightarrow> u32 \<Rightarrow> (nat \<Rightarrow> u8) \<Rightarrow> nat \<Rightarrow> u8" where
  "sector_regs n s r = r(2 := 1, 3 := ucast s, 4 := ucast (drop_bit 8 s), 5 := ucast (drop_bit 16 s),
     6 := DEV_MBS OR DEV_LBA OR (if n = 1 then DEV_DEV else 0) OR ucast (drop_bit 24 s))"

lemma high_bits_clear:
  assumes "s < push_bit 28 1" "28 \<le> i"
  shows "\<not> bit (s :: u32) i"
proof -
  have "s < 2 ^ 28" using assms(1) by simp
  then have "s AND mask 28 = s" by (rule less_mask_eq)
  then have "take_bit 28 s = s" by (simp add: take_bit_eq_mask)
  then have "bit s i = bit (take_bit 28 s) i" by simp
  then show ?thesis using assms(2) by (simp add: bit_simps)
qed

lemma nibble_mask: "(0x0f :: u8) = mask 4"
  by (simp add: mask_eq_exp_minus_1)

lemma top_nibble: assumes "(s::u32) < push_bit 28 1" shows "(ucast (drop_bit 24 s) :: u8) AND 0x0f = ucast (drop_bit 24 s)"
  unfolding nibble_mask
proof (rule bit_word_eqI)
  fix n
  assume "n < LENGTH(8)"
  then show "bit (ucast (drop_bit 24 s) AND mask 4 :: u8) n = bit (ucast (drop_bit 24 s) :: u8) n"
    using high_bits_clear[OF assms, of "24 + n"] by (cases "n < 4") (simp_all add: bit_simps)
qed

lemma bytes_of_word:
  assumes "s < push_bit 28 1" shows "(ucast (ucast s :: u8) :: u32) OR push_bit 8 (ucast (ucast (drop_bit 8 s) :: u8)) OR
    push_bit 16 (ucast (ucast (drop_bit 16 s) :: u8)) OR push_bit 24 (ucast (ucast (drop_bit 24 s) :: u8)) = s"
proof (rule bit_word_eqI)
  fix n
  assume "n < LENGTH(32)"
  then consider "n < 8" | "8 \<le> n" "n < 16" | "16 \<le> n" "n < 24" | "24 \<le> n" "n < 32"
    by fastforce
  then show "bit ((ucast (ucast s :: u8) :: u32) OR push_bit 8 (ucast (ucast (drop_bit 8 s) :: u8)) OR
    push_bit 16 (ucast (ucast (drop_bit 16 s) :: u8)) OR push_bit 24 (ucast (ucast (drop_bit 24 s) :: u8))) n = bit s n"
    by cases (simp_all add: bit_simps less_diff_conv2)
qed

lemma device_low: "(0xa0 OR 0x40 OR (if b then 0x10 else 0) OR y) AND 0x0f = (y :: u8) AND 0x0f"
  by (simp add: bit.conj_disj_distrib2)

lemma device_slave: assumes "y AND 0x0f = (y :: u8)" shows "((0xa0 OR 0x40 OR (if b then 0x10 else 0) OR y) AND 0x10 \<noteq> 0) = b"
proof -
  have "y AND 0x10 = (y AND 0x0f) AND 0x10" by (subst assms) (rule refl)
  also have "\<dots> = 0" by (simp add: and.assoc)
  finally show ?thesis by (simp add: bit.conj_disj_distrib2)
qed

lemma device_lba: "(0xa0 OR 0x40 OR (if b then 0x10 else 0) OR y) AND 0x40 \<noteq> (0 :: u8)"
  by (simp add: bit.conj_disj_distrib2)

lemma sector_regs_name:
  assumes "s < push_bit 28 1"
  shows "named_sector (sector_regs n s r) = s" "slave (sector_regs n s r) \<longleftrightarrow> n = 1"
    "sector_regs n s r 6 AND DEV_LBA \<noteq> 0" "sector_regs n s r 2 = 1"
proof -
  note defs = sector_regs_def DEV_MBS_def DEV_LBA_def DEV_DEV_def
  show "named_sector (sector_regs n s r) = s"
    unfolding named_sector_def defs by (simp add: device_low[simplified] top_nibble[OF assms] bytes_of_word[OF assms])
  show "slave (sector_regs n s r) \<longleftrightarrow> n = 1"
    unfolding slave_def defs using device_slave[OF top_nibble[OF assms], of "n = 1"] by simp
  show "sector_regs n s r 6 AND DEV_LBA \<noteq> 0"
    unfolding defs using device_lba[of "n = 1" "ucast (drop_bit 24 s)"] by simp
  show "sector_regs n s r 2 = 1" by (simp add: sector_regs_def)
qed

lemma select_sector_ready:
  assumes dev: "ata_device hw (reg_base ch) (c_irq ch) view lag" and st: "ide_at view (fst d) ch v st"
    and v: "v_phase v = Ready" and s: "s < push_bit 28 1"
  shows "\<exists>st'. select_sector hw d s st = Some st' \<and>
    ide_at view (fst d) ch (v\<lparr>v_reg := sector_regs (snd d) s (v_reg v)\<rparr>) st'"
proof -
  let ?r = "(v_reg v)(6 := sel_reg (snd d))"
  obtain st1 where 1: "select_device_wait hw d st = Some st1" "ide_at view (fst d) ch (v\<lparr>v_reg := ?r\<rparr>) st1"
    using select_device_wait_ready[OF dev st v] by blast
  obtain st2 where 2: "ide_outb hw (reg_nsect ch) 1 st1 = Some st2"
    "ide_at view (fst d) ch (v\<lparr>v_reg := ?r(2 := 1)\<rparr>) st2"
    using outb_ready[OF dev 1(2), of 2 "reg_nsect ch" 1] v by (auto simp: reg_nsect_def)
  obtain st3 where 3: "ide_outb hw (reg_lbal ch) (ucast s) st2 = Some st3"
    "ide_at view (fst d) ch (v\<lparr>v_reg := ?r(2 := 1, 3 := ucast s)\<rparr>) st3"
    using outb_ready[OF dev 2(2), of 3 "reg_lbal ch" "ucast s"] v by (auto simp: reg_lbal_def)
  obtain st4 where 4: "ide_outb hw (reg_lbam ch) (ucast (drop_bit 8 s)) st3 = Some st4"
    "ide_at view (fst d) ch (v\<lparr>v_reg := ?r(2 := 1, 3 := ucast s, 4 := ucast (drop_bit 8 s))\<rparr>) st4"
    using outb_ready[OF dev 3(2), of 4 "reg_lbam ch" "ucast (drop_bit 8 s)"] v by (auto simp: reg_lbam_def)
  obtain st5 where 5: "ide_outb hw (reg_lbah ch) (ucast (drop_bit 16 s)) st4 = Some st5"
    "ide_at view (fst d) ch (v\<lparr>v_reg := ?r(2 := 1, 3 := ucast s, 4 := ucast (drop_bit 8 s), 5 := ucast (drop_bit 16 s))\<rparr>) st5"
    using outb_ready[OF dev 4(2), of 5 "reg_lbah ch" "ucast (drop_bit 16 s)"] v by (auto simp: reg_lbah_def)
  let ?x = "DEV_MBS OR DEV_LBA OR (if snd d = 1 then DEV_DEV else 0) OR ucast (drop_bit 24 s)"
  obtain st6 where 6: "ide_outb hw (reg_device ch) ?x st5 = Some st6"
    "ide_at view (fst d) ch (v\<lparr>v_reg := ?r(2 := 1, 3 := ucast s, 4 := ucast (drop_bit 8 s), 5 := ucast (drop_bit 16 s), 6 := ?x)\<rparr>) st6"
    using outb_ready[OF dev 5(2), of 6 "reg_device ch" ?x] v by (auto simp: reg_device_def)
  have "?r(2 := 1, 3 := ucast s, 4 := ucast (drop_bit 8 s), 5 := ucast (drop_bit 16 s), 6 := ?x) =
      sector_regs (snd d) s (v_reg v)"
    by (rule ext) (simp add: sector_regs_def)
  then show ?thesis using 6 1 2 3 4 5 s by (simp add: select_sector_def ide_at_get)
qed

section \<open>Transferring a sector\<close>

lemma issue_busy:
  assumes dev: "ata_device hw (reg_base ch) (c_irq ch) view lag" and st: "ide_at view c ch v st"
    and v: "v_phase v = Ready" "v_reg v 2 = 1" "v_reg v 6 AND DEV_LBA \<noteq> 0"
    and cmd: "cmd = CMD_READ_SECTOR_RETRY \<and> f = ReadBusy \<or> cmd = CMD_WRITE_SECTOR_RETRY \<and> f = WriteBusy"
  shows "\<exists>st'. issue_pio_command hw c cmd st = Some st' \<and>
    moved view c (ch\<lparr>expecting_interrupt := True\<rparr>) (v\<lparr>v_phase := f (slave (v_reg v)) (named_sector (v_reg v))\<rparr>) st'"
proof -
  let ?ch = "ch\<lparr>expecting_interrupt := True\<rparr>"
  let ?w = "v\<lparr>v_phase := f (slave (v_reg v)) (named_sector (v_reg v))\<rparr>"
  let ?st = "put_channel c ?ch st"
  have st1: "ide_at view c ?ch v ?st" by (rule ide_at_put[OF st]) simp
  have vc: "view (controller ?st) = v" "\<not> v_request v" "intr_on st" using st1 st by (auto simp: ide_at_def)
  define hwst where "hwst = out8 hw (reg_base ch + 7) cmd (controller ?st)"
  have w: "view hwst = ?w"
    unfolding hwst_def using ata_command[OF dev, of "controller ?st"] vc v cmd by auto
  have "ide_at view c ?ch ?w (?st\<lparr>controller := hwst\<rparr>)" using st1 w vc by (simp add: ide_at_def)
  from serve_moved[OF _ this, of hw lag hwst] dev w
  obtain st' where "serve_interrupt hw (?st\<lparr>controller := hwst\<rparr>) = Some st'" "moved view c ?ch ?w st'"
    by auto
  then show ?thesis using vc(3) ide_at_get[OF st]
    by (simp add: issue_pio_command_def ide_outb_def reg_command_def reg_status_def hwst_def[symmetric])
qed

lemma insw_delivers:
  assumes dev: "ata_device hw b q view lag"
  shows "v_phase (view c) = ReadData bs \<Longrightarrow> length bs = 2 * n \<Longrightarrow> 0 < n \<Longrightarrow>
    \<exists>c'. insw hw b n c = (bs, c') \<and> view c' = (view c)\<lparr>v_phase := Ready\<rparr>"
proof (induction n arbitrary: bs c)
  case (Suc n)
  then obtain x y rest where bs: "bs = x # y # rest" by (cases bs; cases "tl bs") auto
  obtain w c1 where i: "in16 hw b c = (w, c1)" by force
  note a = ata_data_in[OF dev _ i, of x y rest]
  show ?case
  proof (cases "n = 0")
    case True
    then show ?thesis using Suc.prems bs i a by auto
  next
    case False
    then have "rest \<noteq> []" using Suc.prems bs by auto
    then have v: "view c1 = (view c)\<lparr>v_phase := ReadData rest\<rparr>" using a Suc.prems(1) bs by simp
    obtain c2 where "insw hw b n c1 = (rest, c2)" "view c2 = (view c1)\<lparr>v_phase := Ready\<rparr>"
      using Suc.IH[of c1 rest] v False Suc.prems bs by auto
    then show ?thesis using i v a Suc.prems(1) bs by auto
  qed
qed simp

lemma word_of_bytes: "ucast (ucast (x :: u8) OR push_bit 8 (ucast y) :: u16) = x"
    "ucast (drop_bit 8 (ucast x OR push_bit 8 (ucast (y :: u8)) :: u16)) = y"
  by (rule bit_word_eqI, auto simp: bit_simps dest: bit_imp_le_length)+

lemma outsw_stores:
  assumes dev: "ata_device hw b q view lag"
  shows "v_phase (view c) = WriteData d s acc \<Longrightarrow> length bs = 2 * n \<Longrightarrow> 0 < n \<Longrightarrow> length acc + 2 * n = 512 \<Longrightarrow>
    view (outsw hw b n bs c) =
      (view c)\<lparr>v_phase := WriteDone, v_disk := (v_disk (view c))(d := (v_disk (view c) d)(s := acc @ bs))\<rparr>"
proof (induction n arbitrary: bs acc c)
  case (Suc n)
  then obtain x y rest where bs: "bs = x # y # rest" by (cases bs; cases "tl bs") auto
  let ?w = "ucast x OR push_bit 8 (ucast y) :: u16"
  note a = ata_data_out[OF dev Suc.prems(1), of ?w, unfolded word_of_bytes Let_def]
  show ?case
  proof (cases "n = 0")
    case True
    then show ?thesis using Suc.prems bs a by (simp add: fun_upd_def)
  next
    case False
    then have v: "view (out16 hw b ?w c) = (view c)\<lparr>v_phase := WriteData d s (acc @ [x, y])\<rparr>"
      using a Suc.prems by simp
    show ?thesis using Suc.IH[of "out16 hw b ?w c" "acc @ [x, y]" rest] v False Suc.prems bs by simp
  qed
qed simp

section \<open>Reading and writing\<close>

lemma wait_while_busy_done:
  assumes dev: "ata_device hw (reg_base ch) (c_irq ch) view lag" and st: "moved view (fst d) ch u st"
    and exp: "expecting_interrupt ch"
  shows "\<exists>st'. wait_while_busy hw d st = Some (asks_data (v_phase (if busy (v_phase u) then finish u else u)), st') \<and>
    (if busy (v_phase u) then ide_at view (fst d) (finished u ch) (finish u) st' else ide_at view (fst d) ch u st')"
proof -
  have "lag (controller st) < 2999" using dev by (simp add: ata_device_def)
  then obtain r st' where r: "busy_loop hw (Suc 2999) d st = Some (r, st')" "moved view (fst d) ch u st'"
    "\<not> busy (v_phase (view (controller st')))" "r = asks_data (v_phase (view (controller st')))"
    using busy_loop_ends[OF dev _ st, of 2999] exp by blast
  have "wait_while_busy hw d st = Some (r, st')" using r(1) by (simp add: wait_while_busy_def)
  moreover have "if busy (v_phase u) then ide_at view (fst d) (finished u ch) (finish u) st' else ide_at view (fst d) ch u st'"
    using moved_settles[OF r(2) _ r(3)] r(2) by (cases "busy (v_phase u)") simp_all
  ultimately show ?thesis using r(4) by (auto simp: ide_at_def split: if_splits)
qed

text \<open>The channel is free, with no completion left over, and its disks hold \<open>D\<close>.\<close>

definition idle_channel ::
  "u16 \<Rightarrow> u8 \<Rightarrow> ('c \<Rightarrow> ata_view) \<Rightarrow> nat \<Rightarrow> (bool \<Rightarrow> u32 \<Rightarrow> u8 list) \<Rightarrow> 'c ide \<Rightarrow> bool" where
  "idle_channel b q view c D st \<longleftrightarrow> (\<exists>ch v. ide_at view c ch v st \<and> v_phase v = Ready \<and> v_disk v = D \<and>
     \<not> c_locked ch \<and> completion_wait ch = 0 \<and> reg_base ch = b \<and> c_irq ch = q)"

lemma channel_acquired:
  assumes "ide_at view c ch v st" "\<not> c_locked ch"
  shows "\<exists>st'. channel_acquire c st = Some st' \<and> ide_at view c (ch\<lparr>c_locked := True\<rparr>) v st'"
  using ide_at_put[OF assms(1), of "ch\<lparr>c_locked := True\<rparr>"] assms by (simp add: channel_acquire_def ide_at_get)

lemma channel_released:
  assumes "ide_at view c ch v st" "c_locked ch"
  shows "\<exists>st'. channel_release c st = Some st' \<and> ide_at view c (ch\<lparr>c_locked := False\<rparr>) v st'"
  using ide_at_put[OF assms(1), of "ch\<lparr>c_locked := False\<rparr>"] assms by (simp add: channel_release_def ide_at_get)

text \<open>What both operations do first: the lock, the registers, the command.\<close>

lemma command_issued:
  assumes dev: "ata_device hw b q view lag" and st: "idle_channel b q view c D st" and s: "s < push_bit 28 1"
    and cmd: "cmd = CMD_READ_SECTOR_RETRY \<and> f = ReadBusy \<or> cmd = CMD_WRITE_SECTOR_RETRY \<and> f = WriteBusy"
  obtains ch v st1 st2 st3 where "channel_acquire c st = Some st1" "select_sector hw (c, n) s st1 = Some st2"
    "issue_pio_command hw c cmd st2 = Some st3" "moved view c ch (v\<lparr>v_phase := f (n = 1) s\<rparr>) st3"
    "v_phase v = Ready" "v_disk v = D" "c_locked ch" "expecting_interrupt ch" "completion_wait ch = 0" "reg_base ch = b" "c_irq ch = q"
proof -
  obtain ch v where c: "ide_at view c ch v st" "v_phase v = Ready" "v_disk v = D"
    "\<not> c_locked ch" "completion_wait ch = 0" "reg_base ch = b" "c_irq ch = q"
    using st by (auto simp: idle_channel_def)
  let ?ch = "ch\<lparr>c_locked := True\<rparr>" and ?v = "v\<lparr>v_reg := sector_regs n s (v_reg v)\<rparr>"
  have dev': "ata_device hw (reg_base ?ch) (c_irq ?ch) view lag" using dev c(6,7) by simp
  obtain st1 where 1: "channel_acquire c st = Some st1" "ide_at view c ?ch v st1"
    using channel_acquired[OF c(1,4)] by blast
  obtain st2 where 2: "select_sector hw (c, n) s st1 = Some st2" "ide_at view c ?ch ?v st2"
    using select_sector_ready[of hw ?ch view lag "(c, n)" v st1 s] dev' 1(2) c(2) s by auto
  obtain st3 where 3: "issue_pio_command hw c cmd st2 = Some st3"
    "moved view c (?ch\<lparr>expecting_interrupt := True\<rparr>) (?v\<lparr>v_phase := f (slave (v_reg ?v)) (named_sector (v_reg ?v))\<rparr>) st3"
    using issue_busy[OF dev' 2(2) _ _ _ cmd] c(2) sector_regs_name[OF s, of n "v_reg v"] by auto
  have "slave (v_reg ?v) = (n = 1)" "named_sector (v_reg ?v) = s" using sector_regs_name[OF s, of n "v_reg v"] by simp_all
  then show thesis
    by (intro that[OF 1(1) 2(1) 3(1), of "?ch\<lparr>expecting_interrupt := True\<rparr>" ?v]) (use 3(2) c in simp_all)
qed

text \<open>The disk is a map from sectors to their contents: reading looks a sector up, writing updates it.\<close>

theorem ide_read_sector:
  assumes dev: "ata_device hw b q view lag" and st: "idle_channel b q view c D st" and s: "s < push_bit 28 1"
    and len: "length (D (n = 1) s) = 512"
  shows "\<exists>st'. ide_read hw (c, n) s st = Some (D (n = 1) s, st') \<and> idle_channel b q view c D st'"
proof -
  obtain ch v st1 st2 st3 where 3: "channel_acquire c st = Some st1" "select_sector hw (c, n) s st1 = Some st2"
    "issue_pio_command hw c CMD_READ_SECTOR_RETRY st2 = Some st3" "moved view c ch (v\<lparr>v_phase := ReadBusy (n = 1) s\<rparr>) st3"
    "v_phase v = Ready" "v_disk v = D" "c_locked ch" "expecting_interrupt ch" "completion_wait ch = 0" "reg_base ch = b" "c_irq ch = q"
    by (rule command_issued[OF dev st s, of CMD_READ_SECTOR_RETRY ReadBusy n]) blast+
  have dev': "ata_device hw (reg_base ch) (c_irq ch) view lag" using dev 3(10,11) by simp
  let ?w = "v\<lparr>v_phase := ReadData (D (n = 1) s)\<rparr>"
  have w: "finish (v\<lparr>v_phase := ReadBusy (n = 1) s\<rparr>) = ?w" using 3(6) by (simp add: finish_def)
  obtain st4 where 4: "wait_completion hw c st3 = Some st4" "ide_at view c ch ?w st4"
    using wait_completion_returns[OF dev' 3(4,8)] 3(9) w by auto
  obtain st5 where 5: "wait_while_busy hw (c, n) st4 = Some (True, st5)" "ide_at view c ch ?w st5"
    using wait_while_busy_done[of hw ch view lag "(c, n)" ?w st4] dev' 4(2) 3(8) by auto
  have vc: "view (controller st5) = ?w" using 5(2) by (simp add: ide_at_def)
  obtain c6 where 6: "insw hw b 256 (controller st5) = (D (n = 1) s, c6)" "view c6 = ?w\<lparr>v_phase := Ready\<rparr>"
    using insw_delivers[OF dev, of "controller st5" "D (n = 1) s" 256] vc len by auto
  have "view c6 = v" using 6(2) 3(5) by (cases v) simp
  moreover have "\<not> v_request v" using 5(2) by (simp add: ide_at_def)
  ultimately obtain st7 where 7: "serve_interrupt hw (st5\<lparr>controller := c6\<rparr>) = Some st7" "ide_at view c ch v st7"
    using serve_settled[OF dev' 5(2), of v c6] 3(5) by auto
  have inp: "input_sector hw c st5 = Some (D (n = 1) s, st7)"
    using 6(1) 7(1) 3(10) by (simp add: input_sector_def ide_at_get[OF 5(2)] reg_data_def BLOCK_SECTOR_SIZE_def)
  obtain st8 where 8: "channel_release c st7 = Some st8" "ide_at view c (ch\<lparr>c_locked := False\<rparr>) v st8"
    using channel_released[OF 7(2) 3(7)] by blast
  have "ide_read hw (c, n) s st = Some (D (n = 1) s, st8)"
    using 3(1-3) 4(1) 5(1) inp 8(1) by (simp add: ide_read_def)
  moreover have "idle_channel b q view c D st8" unfolding idle_channel_def
    by (intro exI[of _ "ch\<lparr>c_locked := False\<rparr>"] exI[of _ v]) (use 8(2) 3 in simp)
  ultimately show ?thesis by blast
qed

theorem ide_write_sector:
  assumes dev: "ata_device hw b q view lag" and st: "idle_channel b q view c D st" and s: "s < push_bit 28 1"
    and len: "length buffer = 512"
  shows "\<exists>st'. ide_write hw (c, n) s buffer st = Some st' \<and>
    idle_channel b q view c (D((n = 1) := (D (n = 1))(s := buffer))) st'"
proof -
  obtain ch v st1 st2 st3 where 3: "channel_acquire c st = Some st1" "select_sector hw (c, n) s st1 = Some st2"
    "issue_pio_command hw c CMD_WRITE_SECTOR_RETRY st2 = Some st3" "moved view c ch (v\<lparr>v_phase := WriteBusy (n = 1) s\<rparr>) st3"
    "v_phase v = Ready" "v_disk v = D" "c_locked ch" "expecting_interrupt ch" "completion_wait ch = 0" "reg_base ch = b" "c_irq ch = q"
    by (rule command_issued[OF dev st s, of CMD_WRITE_SECTOR_RETRY WriteBusy n]) blast+
  have dev': "ata_device hw (reg_base ch) (c_irq ch) view lag" using dev 3(10,11) by simp
  let ?u = "v\<lparr>v_phase := WriteBusy (n = 1) s\<rparr>" and ?w = "v\<lparr>v_phase := WriteData (n = 1) s []\<rparr>"
  let ?D = "D((n = 1) := (D (n = 1))(s := buffer))"
  let ?x = "v\<lparr>v_phase := WriteDone, v_disk := ?D\<rparr>"
  have w: "finish ?u = ?w" "finished ?u ch = ch" by (simp_all add: finish_def finished_def)
  obtain st4 where 4: "wait_while_busy hw (c, n) st3 = Some (True, st4)" "ide_at view c ch ?w st4"
    using wait_while_busy_done[of hw ch view lag "(c, n)" ?u st3] dev' 3(4,8) w by auto
  have vc: "view (controller st4) = ?w" using 4(2) by (simp add: ide_at_def)
  define c5 where "c5 = outsw hw b 256 buffer (controller st4)"
  have c5: "view c5 = ?x"
    using outsw_stores[OF dev, of "controller st4" "n = 1" s "[]" buffer 256] vc len 3(6) by (simp add: c5_def)
  have "ide_at view c ch ?x (st4\<lparr>controller := c5\<rparr>)" using 4(2) c5 by (simp add: ide_at_def)
  from serve_moved[OF dev' this 3(8), of c5] c5
  obtain st5 where 5: "serve_interrupt hw (st4\<lparr>controller := c5\<rparr>) = Some st5" "moved view c ch ?x st5" by auto
  have out: "output_sector hw c buffer st4 = Some st5"
    using 5(1) len 3(10) by (simp add: output_sector_def ide_at_get[OF 4(2)] reg_data_def BLOCK_SECTOR_SIZE_def c5_def)
  obtain st6 where 6: "wait_completion hw c st5 = Some st6" "ide_at view c ch (finish ?x) st6"
    using wait_completion_returns[OF dev' 5(2) 3(8) _ 3(9)] by auto
  obtain st7 where 7: "channel_release c st6 = Some st7" "ide_at view c (ch\<lparr>c_locked := False\<rparr>) (finish ?x) st7"
    using channel_released[OF 6(2) 3(7)] by blast
  have "ide_write hw (c, n) s buffer st = Some st7"
    using 3(1-3) 4(1) out 6(1) 7(1) by (simp add: ide_write_def)
  moreover have "idle_channel b q view c ?D st7" unfolding idle_channel_def
    by (intro exI[of _ "ch\<lparr>c_locked := False\<rparr>"] exI[of _ "finish ?x"]) (use 7(2) 3 in \<open>simp add: finish_def\<close>)
  ultimately show ?thesis by blast
qed

section \<open>A controller\<close>

text \<open>
  A controller that keeps the protocol: it is busy until the driver waits.  Its state is what the protocol sees of it;
  it answers at the ports of the first channel.
\<close>

definition demo_status :: "ata_view \<Rightarrow> u8" where
  "demo_status v = (if busy (v_phase v) then 0x80 else if asks_data (v_phase v) then 0x48 else 0x40)"

definition demo_in16 :: "u16 \<Rightarrow> ata_view \<Rightarrow> u16 \<times> ata_view" where
  "demo_in16 port v = (case v_phase v of
     ReadData (x # y # bs) \<Rightarrow> (ucast x OR push_bit 8 (ucast y), v\<lparr>v_phase := (if bs = [] then Ready else ReadData bs)\<rparr>)
   | _ \<Rightarrow> (0, v))"

definition demo_out8 :: "u16 \<Rightarrow> u8 \<Rightarrow> ata_view \<Rightarrow> ata_view" where
  "demo_out8 port x v =
     (if v_phase v \<noteq> Ready then v
      else if port = 0x1f7 then
        (if x = CMD_READ_SECTOR_RETRY then v\<lparr>v_phase := ReadBusy (slave (v_reg v)) (named_sector (v_reg v))\<rparr>
         else if x = CMD_WRITE_SECTOR_RETRY then v\<lparr>v_phase := WriteBusy (slave (v_reg v)) (named_sector (v_reg v))\<rparr>
         else v)
      else v\<lparr>v_reg := (v_reg v)(unat (port - 0x1f0) := x)\<rparr>)"

definition demo_out16 :: "u16 \<Rightarrow> u16 \<Rightarrow> ata_view \<Rightarrow> ata_view" where
  "demo_out16 port w v = (case v_phase v of
     WriteData d s bs \<Rightarrow> (let bs = bs @ [ucast w, ucast (drop_bit 8 w)] in
       if length bs = 512 then v\<lparr>v_phase := WriteDone, v_disk := (v_disk v)(d := (v_disk v d)(s := bs))\<rparr>
       else v\<lparr>v_phase := WriteData d s bs\<rparr>)
   | _ \<Rightarrow> v)"

definition demo_hw :: "ata_view hardware" where
  "demo_hw = \<lparr>in8 = (\<lambda>port v. (demo_status v, v)), in16 = demo_in16, out8 = demo_out8, out16 = demo_out16,
     pass_ns = (\<lambda>ns v. if busy (v_phase v) then (finish v)\<lparr>v_request := requests (v_phase v) \<or> v_request v\<rparr> else v),
     take_request = (\<lambda>v. (if v_request v then Some 46 else None, v\<lparr>v_request := False\<rparr>))\<rparr>"

lemma demo_ata_device: "ata_device demo_hw 0x1f0 46 (\<lambda>v. v) (\<lambda>_. 0)"
  unfolding ata_device_def
proof (intro conjI)
  show "status_law demo_hw 0x1f0 (\<lambda>v. v) (\<lambda>_. 0)"
    by (auto simp: status_law_def demo_hw_def status_shows_def demo_status_def STA_BSY_def STA_DRQ_def)
  show "pass_law demo_hw (\<lambda>v. v) (\<lambda>_. 0)"
    by (auto simp: pass_law_def demo_hw_def progress_def finish_def)
  show "request_law demo_hw 46 (\<lambda>v. v) (\<lambda>_. 0)"
    by (auto simp: request_law_def demo_hw_def progress_def)
  show "register_law demo_hw 0x1f0 (\<lambda>v. v)"
    by (auto simp: register_law_def demo_hw_def demo_out8_def)
  show "command_law demo_hw 0x1f0 (\<lambda>v. v)"
    by (auto simp: command_law_def demo_hw_def demo_out8_def Let_def CMD_READ_SECTOR_RETRY_def CMD_WRITE_SECTOR_RETRY_def)
  show "data_in_law demo_hw 0x1f0 (\<lambda>v. v)"
    by (auto simp: data_in_law_def demo_hw_def demo_in16_def word_of_bytes word_of_bytes(2)[simplified])
  show "data_out_law demo_hw 0x1f0 (\<lambda>v. v)"
    by (simp add: data_out_law_def demo_hw_def demo_out16_def Let_def)
qed simp

definition demo_ide :: "(bool \<Rightarrow> u32 \<Rightarrow> u8 list) \<Rightarrow> ata_view ide" where
  "demo_ide D = \<lparr>channels = [the (new_channel 0), the (new_channel 1)],
     controller = \<lparr>v_reg = (\<lambda>_. 0), v_phase = Ready, v_disk = D, v_request = False\<rparr>, intr_on = True,
     ide_handlers = [], ide_out = [], ide_blocks = \<lparr>reg = \<lparr>all_blocks = [], block_by_role = (\<lambda>_. None)\<rparr>, parts = [], part_nr = 0, mallocs = []\<rparr>\<rparr>"

lemma demo_idle: "idle_channel 0x1f0 46 (\<lambda>v. v) 0 D (demo_ide D)"
  by (simp add: idle_channel_def ide_at_def demo_ide_def new_channel_def)

lemma demo_write_read:
  "\<exists>st st'. ide_write demo_hw (0, 1) 5 (replicate 512 7) (demo_ide (\<lambda>_ _. [])) = Some st \<and>
     ide_read demo_hw (0, 1) 5 st = Some (replicate 512 7, st')"
proof -
  obtain st where st: "ide_write demo_hw (0, 1) 5 (replicate 512 7) (demo_ide (\<lambda>_ _. [])) = Some st"
    "idle_channel 0x1f0 46 (\<lambda>v. v) 0 ((\<lambda>_ _. [])(True := (\<lambda>_. [])(5 := replicate 512 7))) st"
    using ide_write_sector[OF demo_ata_device demo_idle, of 5 "replicate 512 7" 1 "\<lambda>_ _. []"] by auto
  with ide_read_sector[OF demo_ata_device st(2), of 5 1] show ?thesis by auto
qed

end
