(* ===== verification/Spec2Isabelle.thy ===== *)
theory Spec2Isabelle imports KFilesys KTimer KArithDiv KPagingMap KSyscallProps KArgs KHashSet KStdlibSort KStdioProps KMallocUse KPartition KUstar KRandom KIntr KIntqProps KFileProps KFsutilProps KInitProps KInitPaging KUserIO KMmAlloc KIdeProps begin

text \<open>
  A verification library for the Pintos kernel in \<open>project4/src\<close>: round-robin threads that sleep,
  lock and wait, user processes with system calls, paging, device drivers, and a file system with
  indexed inodes that grow, a free map, directories, path names and a buffer cache; and for the
  allocator of the first homework, \<open>HW1/code/mm_alloc.c\<close>.  Every other path below is relative to
  \<open>project4/src\<close>.

  \<^bold>\<open>The program and its parts.\<close>  A timer interrupt (\<open>devices/timer.c\<close>) wakes the sleeping threads
  and makes the running one yield (\<open>threads/thread.c\<close>); threads block on semaphores, locks and
  condition variables (\<open>threads/synch.c\<close>).  A user process enters the kernel through
  \<open>syscall_handler\<close> (\<open>userprog/syscall.c\<close>), which checks its pointers against the page directory
  (\<open>userprog/pagedir.c\<close>, pages from \<open>threads/palloc.c\<close>) and calls the process operations
  (\<open>userprog/process.c\<close>), the console (\<open>lib/kernel/console.c\<close> over \<open>devices/vga.c\<close> and
  \<open>devices/serial.c\<close>), the input buffer (\<open>devices/input.c\<close> over \<open>devices/intq.c\<close>) and the file
  system.  The file system resolves path names (\<open>filesys/filesys.c\<close>) through directories
  (\<open>filesys/directory.c\<close>), which are files (\<open>filesys/file.c\<close>) over inodes
  (\<open>filesys/inode.c\<close>); inodes take sectors from the free map (\<open>filesys/free-map.c\<close>), and reach
  data blocks through the cache (\<open>filesys/cache.c\<close>) and index blocks directly through the block
  layer (\<open>devices/block.c\<close>).  Under all of it are the kernel's library (intrusive lists, bitmaps,
  hash tables, strings, formatted output, 64-bit division, sorting) and the block allocator
  (\<open>threads/malloc.c\<close>).  \<open>threads/init.c\<close> reads the command line, builds the kernel's page
  directory and runs the actions that the command line names.

  \<^bold>\<open>Conventions.\<close>  A failed \<open>ASSERT\<close>, a \<open>PANIC\<close> and an access outside an array are \<open>None\<close>; so is
  a loop that never ends, since such loops are \<open>partial_function (option)\<close>.  So each theorem of
  the form \<open>\<dots> = Some \<dots>\<close> says that the code returns.  Machine integers are words of their width
  where the code computes modulo \<open>2 ^ w\<close> (OS\_Prelude names \<open>u8\<close> to \<open>u64\<close>); \<open>off_t\<close> and \<open>int\<close>
  values, which must not overflow, are integers with an explicit range check.  Structures are
  records, kept in maps from addresses where the code shares them.  The results of
  \<open>malloc\<close> are an input of the components above it: a list of outcomes or of addresses.

  \<^bold>\<open>Theories, by layer.\<close>

  \<^item> Library: KList (links as a store of addresses; \<open>list_rep\<close> relates them to a sequence),
    KListSort (merge sort and the ordered operations), KBitmap, KString (a byte memory; \<open>cstr\<close>
    relates it to strings), KStdlib with KStdlibSort (\<open>atoi\<close>, heap sort, binary search), KHash with
    KHashSet, KArith with KArithDiv (\<open>lib/arithmetic.c\<close>), KStdio with KStdioProps, KPrintf, KRandom,
    KUstar with KUstarProps.
  \<^item> File system: KBlock, KPartition, KCache, KInode (all of \<open>inode.c\<close>, and the state \<open>fs\<close>: cache,
    open inodes, open files and directories, free map, working directory), KInodeIO (its
    correctness), KFreeMap (\<open>free-map.c\<close> and \<open>file.c\<close>), KDirectory, KFilesys, and the properties in
    KFileProps, KDirProps and KFilesysProps.
  \<^item> Threads: KSched (\<open>thread.c\<close> and \<open>synch.c\<close>; the state \<open>sched\<close> of the whole kernel), KTimer,
    KProcess, KLoad with KArgs, KSyscall, KIntr.  KSync, KSyncInv, KSyncLock and KSyncWake prove the
    invariants, KSyncProps and KSyscallProps the properties.
  \<^item> Memory: KPaging with KPagingMap; KMalloc (the code), KMallocInv, KMallocArena, KMallocOps,
    KMallocSmall, KMallocOk and KMallocProps (the invariant and what each operation does to it),
    KMallocSpec (the contract) and KMallocUse (the properties).
  \<^item> Devices: KDev (their state), KIntq with KIntqProps, KSerial, KConsole with KConsoleProps,
    KKbd (keyboard and shutdown), KRtc, KIde with KIdeProps (the disk driver \<open>devices/ide.c\<close>).
  \<^item> KFsutil with KFsutilProps: the actions of \<open>filesys/fsutil.c\<close>.
  \<^item> Start-up: KInit (\<open>threads/init.c\<close>), with the command line and its options in KInitProps and
    the page directory in KInitPaging.  \<open>run_task\<close>, which waits for a process, is a parameter.
  \<^item> User programs: KUserIO (\<open>lib/user/console.c\<close>); and KMmAlloc, the homework's allocator.

  \<^bold>\<open>Threads that block.\<close>  A C function that calls \<open>schedule\<close> in its middle is split there.  What is
  left to do is a value of the datatype \<open>frame\<close>, pushed on the stack \<open>frames\<close> of its thread;
  \<open>resume\<close> (KSyscall) runs the topmost frame of the running thread up to the next point where a
  thread switch or an interrupt can happen.  One step \<open>kstep\<close> of the machine (KSync) is a call of an
  operation by kernel code, a frame of the running thread, or a timer interrupt.  The properties of
  synchronisation are invariants of \<open>reach\<close> (KSyncProps), the states that steps lead to from a
  started kernel, so they hold for every interleaving.  The invariants read only the part
  \<open>core_of\<close> of the state, on which every step is a step \<open>cstep\<close>.  Threads are neither created nor do
  they exit in these steps: \<open>thread_create\<close> and \<open>thread_exit\<close> are modelled, but the invariants
  are not proved for them.

  \<^bold>\<open>Devices.\<close>  A driver talks to its device through ports: the reads take the coming bytes of the
  sequence \<open>d_in\<close>, the writes are appended to \<open>d_out\<close>.  Nothing is assumed of a device that the
  code does not test.  The disk driver, whose results depend on what the disk holds, is the exception: its controller is
  a parameter (\<open>hardware\<close>, KIde), and \<open>ata_device\<close> (KIdeProps) states the protocol of the ATA
  standard for single sectors, at any speed; a controller that keeps it is defined there.

  \<^bold>\<open>What the lemmas show.\<close>

  \<^item> Synchronisation: the threads are partitioned into the running one, the ready list, the sleep
    list and the waiters; a lock has one holder, because its token is in one place; a
    semaphore with a positive value has no waiter that nobody has woken; the ready list is first
    in first out; a thread is preempted after its time slice; due sleepers wake at the tick.
  \<^item> File system: \<open>cview\<close> (KCache) is the contents of a sector as the clients of the cache see
    it, and no cache operation changes it, whatever is evicted; eviction ends within two passes of the
    clock, unless every block is pinned.  On top of it, \<open>inode_ok\<close> and
    \<open>file_bytes\<close> (KInodeIO) are a well-formed inode and the bytes of a file; reads and
    writes inside a file read and update that list.  \<open>dir_map\<close> (KDirProps) is the finite map that a
    directory stands for: \<open>dir_add\<close> extends it and \<open>dir_lookup\<close> evaluates it; \<open>filesys_open\<close>
    (KFilesysProps) is a lookup in it and a handle of the inode found.  \<open>fsutil_append\<close>
    (KFsutilProps) lays a file out in sectors, from which the loop of \<open>fsutil_extract\<close> restores it.
  \<^item> Memory: a page directory is a map from user pages to frames; the page allocator hands out
    unused pages; \<open>malloc\<close> returns a block that overlaps no allocated one, or null exactly when
    there is no free block of the size and no room in the page pool (\<open>has_room\<close>), \<open>free\<close> undoes it, and
    \<open>realloc\<close> keeps the contents.
  \<^item> Processes: the argument stack is laid out as the calling convention demands; a system call
    with a pointer that is not the process's to use makes the process exit and does nothing else.
  \<^item> Library: sorting sorts and permutes, the hash table is a set, division divides, \<open>vsnprintf\<close>
    stays inside its buffer, \<open>atoi\<close> reads back what \<open>snprintf\<close> prints, and tar headers are read back
    as they were made.  The random numbers are the key stream of RC4, specified in KRandom over the natural
    numbers; the console's bytes reach the port and the screen.
  \<^item> Disk driver: over a controller that keeps the protocol, \<open>ide_read\<close> and \<open>ide_write\<close> return, and
    a disk is a map from sectors to their contents, which the one looks up and the other updates.
  \<^item> Start-up: the command line in the loader's area is split into the arguments that the loader
    put there, the random seed is the clock's even when the command line names one, and the page
    directory maps all of memory.  The output of a user program reaches \<open>write\<close> in pieces of 64 bytes.

  \<^bold>\<open>Interfaces as locales.\<close>  \<open>list_order\<close> (KListSort) is what the ordered operations on lists need of
  their comparison, interpreted as \<open>tick_order\<close> on \<open>cmp_ticks\<close> (KTimer); \<open>bounded_fifo\<close>
  (KIntqProps) is the contract of an interrupt queue, interpreted as \<open>kq\<close> on the circular buffer;
  \<open>allocator\<close> (KMallocSpec) is the contract of the block allocator over the set of allocated
  regions, interpreted as \<open>ma\<close> on \<open>malloc\<close> and \<open>free\<close>.

  \<^bold>\<open>Bounds and fuel.\<close>  The only fuel is in the recursion of the free map through its own file:
  writing the free map could grow its inode, which allocates; \<open>free_map_allocate_n\<close> (KFreeMap)
  unfolds this three times, which is enough because the second nested growth stops the
  kernel on the inode's lock.  All other loops are structural recursions, functions with a measure,
  or partial functions, whose return is proved where a theorem says so.

  \<^bold>\<open>Not modelled.\<close>  The order of the calls in \<open>main\<close> of \<open>threads/init.c\<close> and the
  assembly files; \<open>lib/kernel/debug.c\<close> and \<open>lib/debug.c\<close> (backtraces); statistics and messages, except
  where they are the output of a function that is modelled; the loading of descriptor tables
  into the processor; \<open>switch.S\<close>, which appears as the change of the running thread.  The user
  programs, the tests and the stubs of the system calls in \<open>lib/user\<close> run outside the kernel.  The tree \<open>pintos/\<close> of the
  repository is the code as the course hands it out, of which \<open>project4\<close> is the developed version;
  \<open>HW1\<close> holds, beside the allocator, a copy of the course's \<open>thread.c\<close>, and \<open>HW2\<close> does not compile, since types and functions that
  it uses are nowhere defined.
\<close>

end
